(* ===== verification/Prelude.thy ===== *)
theory Prelude
  imports Main "HOL-Library.Word"
begin

text \<open>
  Shared vocabulary of the development: the machine integer types of the C sources, the ways a C
  function can leave the normal flow of control, interrupt requests as outputs of a device
  operation, arrays as total functions, and the generic lemmas on words and lists the component
  theories use.
\<close>

unbundle bit_operations_syntax

section \<open>Machine integers\<close>

type_synonym u8 = "8 word"
type_synonym u16 = "16 word"
type_synonym u32 = "32 word"
type_synonym u64 = "64 word"

named_theorems bit_split "splitting a word into bytes and joining them again is the identity"
named_theorems res_simps "the error monad"

section \<open>Leaving the normal flow of control\<close>

text \<open>
  \<open>Cpu_Abort\<close> is a call of \<open>cpu_abort\<close>, \<open>Exit_Failure\<close> a call of \<open>exit(1)\<close>, \<open>Assert_Failure\<close> a
  failed \<open>assert\<close> or a call of \<open>abort\<close>, and \<open>Undefined\<close> an operation with undefined behaviour in C
  (an access out of the bounds of an array, a division by zero, a shift by more than the width).
  \<open>Io_Access\<close> stands for a transfer whose buffer is memory of another device and not RAM; its effect is
  outside the models.
\<close>

datatype fault = Cpu_Abort | Exit_Failure | Assert_Failure | Undefined | Io_Access

type_synonym 'a res = "fault + 'a"

definition res_bind :: "'a res \<Rightarrow> ('a \<Rightarrow> 'b res) \<Rightarrow> 'b res" where
  "res_bind m f = (case m of Inl e \<Rightarrow> Inl e | Inr x \<Rightarrow> f x)"

lemma res_bind_Inl [simp, res_simps]: "res_bind (Inl e) f = Inl e"
  by (simp add: res_bind_def)

lemma res_bind_Inr [simp, res_simps]: "res_bind (Inr x) f = f x"
  by (simp add: res_bind_def)

lemma res_bind_eq_Inr [res_simps]:
  "res_bind m f = Inr y \<longleftrightarrow> (\<exists>x. m = Inr x \<and> f x = Inr y)"
  by (cases m) auto

lemma res_bind_eq_Inl [res_simps]:
  "res_bind m f = Inl e \<longleftrightarrow> m = Inl e \<or> (\<exists>x. m = Inr x \<and> f x = Inl e)"
  by (cases m) auto

lemma res_bind_cong [fundef_cong]:
  "m = m' \<Longrightarrow> (\<And>x. m' = Inr x \<Longrightarrow> f x = g x) \<Longrightarrow> res_bind m f = res_bind m' g"
  by (cases m') auto

section \<open>Interrupt requests\<close>

text \<open>
  A device operation returns, next to its new state, the list of the interrupt line changes it makes
  in the order it makes them: \<open>(n, level)\<close> is one call of \<open>qemu_set_irq\<close> on line \<open>n\<close> of the
  interrupt controller. \<open>line_after\<close> is the level of a line after such a list.
\<close>

type_synonym irq_out = "u32 \<times> bool"

fun line_after :: "u32 \<Rightarrow> irq_out list \<Rightarrow> bool \<Rightarrow> bool" where
  "line_after n [] l = l"
| "line_after n ((m, v) # os) l = line_after n os (if m = n then v else l)"

lemma line_after_append [simp]: "line_after n (os @ os') l = line_after n os' (line_after n os l)"
  by (induction os arbitrary: l) auto

lemma line_after_idle: "n \<notin> fst ` set os \<Longrightarrow> line_after n os l = l"
  by (induction os arbitrary: l) auto

section \<open>Arrays and buffers\<close>

text \<open>
  A C array reached through a pointer is a total function from offsets to values; \<open>blit\<close> is
  \<open>memcpy\<close> of a list to an offset, \<open>window\<close> the list of the \<open>n\<close> values from an offset on.
\<close>

definition blit :: "(nat \<Rightarrow> 'a) \<Rightarrow> nat \<Rightarrow> 'a list \<Rightarrow> (nat \<Rightarrow> 'a)" where
  "blit m k xs = (\<lambda>i. if k \<le> i \<and> i < k + length xs then xs ! (i - k) else m i)"

definition window :: "(nat \<Rightarrow> 'a) \<Rightarrow> nat \<Rightarrow> nat \<Rightarrow> 'a list" where
  "window m k n = map m [k ..< k + n]"

lemma length_window [simp]: "length (window m k n) = n"
  by (simp add: window_def)

lemma window_0 [simp]: "window m k 0 = []"
  by (simp add: window_def)

lemma window_Suc: "window m k (Suc n) = m k # window m (Suc k) n"
  by (simp add: window_def upt_conv_Cons del: upt_Suc)

lemma window_add: "window m k (a + b) = window m k a @ window m (k + a) b"
  using upt_add_eq_append [of k "k + a" b] by (simp add: window_def add.assoc)

lemma window_snoc: "window m k (Suc n) = window m k n @ [m (k + n)]"
  by (simp add: window_def)

lemma nth_window [simp]: "i < n \<Longrightarrow> window m k n ! i = m (k + i)"
  by (simp add: window_def)

lemma take_window [simp]: "take i (window m k n) = window m k (min i n)"
  by (rule nth_equalityI) auto

lemma window_blit_same [simp]: "window (blit m k xs) k (length xs) = xs"
  by (rule nth_equalityI) (auto simp: blit_def)

lemma window_blit_before: "k + n \<le> j \<Longrightarrow> window (blit m j xs) k n = window m k n"
  by (rule nth_equalityI) (auto simp: blit_def)

lemma window_blit_append:
  "window (blit m (k + n) xs) k (n + length xs) = window m k n @ xs"
  by (simp add: window_add window_blit_before)

lemma blit_Nil [simp]: "blit m k [] = m"
  by (auto simp: blit_def fun_eq_iff)

lemma blit_blit: "blit (blit m k xs) (k + length xs) ys = blit m k (xs @ ys)"
  by (auto simp: blit_def fun_eq_iff nth_append)

lemma blit_outside: "i < k \<or> k + length xs \<le> i \<Longrightarrow> blit m k xs i = m i"
  by (auto simp: blit_def)

lemma fun_upd_blit: "m(k := x) = blit m k [x]"
  by (auto simp: blit_def fun_eq_iff)

section \<open>Words\<close>

lemma split16 [bit_split]:
  "push_bit 8 (ucast (ucast (drop_bit 8 v) :: u8)) OR ucast (ucast v :: u8) = (v :: u16)"
  by (rule bit_word_eqI) (auto simp: bit_simps)

lemma split32 [bit_split]:
  "push_bit 24 (ucast (ucast (drop_bit 24 v) :: u8)) OR push_bit 16 (ucast (ucast (drop_bit 16 v) :: u8))
     OR push_bit 8 (ucast (ucast (drop_bit 8 v) :: u8)) OR ucast (ucast v :: u8) = (v :: u32)"
proof (rule bit_word_eqI)
  fix n
  show "bit (push_bit 24 (ucast (ucast (drop_bit 24 v) :: u8)) OR
      push_bit 16 (ucast (ucast (drop_bit 16 v) :: u8)) OR
      push_bit 8 (ucast (ucast (drop_bit 8 v) :: u8)) OR ucast (ucast v :: u8) :: u32) n = bit v n"
    if "n < LENGTH(32)"
    using that by (cases "24 \<le> n"; cases "16 \<le> n"; cases "8 \<le> n") (auto simp: bit_simps)
qed

lemma ucast_u16_u32_u16 [bit_split]: "ucast (ucast (v :: u16) :: u32) = v"
  by (rule bit_word_eqI) (auto simp: bit_simps)

lemma split64 [bit_split]:
  "push_bit 32 (ucast (ucast (drop_bit 32 v) :: u32)) OR ucast (ucast v :: u32) = (v :: u64)"
  by (rule bit_word_eqI) (auto simp: bit_simps)

lemma unat_and_mask: "unat (w AND mask n) = unat (w :: 'a :: len word) mod 2 ^ n"
  using take_bit_eq_mod [of n "unat w"] by (simp flip: take_bit_eq_mask add: unsigned_take_bit_eq)

lemma unat_drop_bit: "unat (drop_bit n w) = unat (w :: 'a :: len word) div 2 ^ n"
  using drop_bit_eq_div [of n "unat w"] take_bit_nat_eq_self [of "unat w" "LENGTH('a)"] unsigned_less [of w]
  by (simp add: unsigned_drop_bit_eq)

lemma unat_bound: "unat (w :: 'a :: len word) < 2 ^ LENGTH('a)"
  by (rule unsigned_less)

lemma sint_nonneg: "0 \<le> sint (w :: u64) \<longleftrightarrow> unat w < 2 ^ 63"
proof -
  have "bit (uint w) 63 = bit (unat w) 63" by (simp add: bit_unsigned_iff)
  then have "(0 \<le> sint w) = even (unat w div 2 ^ 63)"
    by (simp add: sint_uint signed_take_bit_nonnegative_iff bit_iff_odd del: bit_unsigned_iff)
  also have "\<dots> = (unat w < 2 ^ 63)"
  proof (cases "unat w < 2 ^ 63")
    case False
    then have "unat w div 2 ^ 63 = 1" using unat_bound [of w] by (intro div_nat_eqI) auto
    then show ?thesis using False by simp
  qed simp
  finally show ?thesis .
qed

section \<open>Words in memory\<close>

text \<open>The bytes of a 32-bit word in the memory of a little-endian machine.\<close>

definition le32_byte :: "u32 \<Rightarrow> nat \<Rightarrow> u8" where
  "le32_byte v j = ucast (drop_bit (8 * j) v)"

definition le32_join :: "u8 \<Rightarrow> u8 \<Rightarrow> u8 \<Rightarrow> u8 \<Rightarrow> u32" where
  "le32_join b0 b1 b2 b3 =
     push_bit 24 (ucast b3) OR push_bit 16 (ucast b2) OR push_bit 8 (ucast b1) OR ucast b0"

lemma le32_bytes: "le32_join (le32_byte v 0) (le32_byte v 1) (le32_byte v 2) (le32_byte v 3) = v"
  using split32 [of v] by (simp add: le32_join_def le32_byte_def)

end
