(* ===== verification/Goldfish_Device.thy ===== *)
theory Goldfish_Device
  imports Prelude
begin

text \<open>
  The goldfish platform bus, \<open>hw/android/goldfish/device.c\<close>: the list of platform devices, the
  allocation of I/O ranges and interrupt lines to devices that do not ask for fixed ones, and the
  registers through which the kernel enumerates the devices.
\<close>

section \<open>Devices and the state of the bus\<close>

text \<open>The two families of targets the sources tell apart with \<open>#ifdef TARGET_I386\<close>.\<close>

datatype target = Target_I386 | Target_ARM_MIPS

definition GFD_MAX_IRQ :: "target \<Rightarrow> u32" where
  "GFD_MAX_IRQ t = (case t of Target_I386 \<Rightarrow> 16 | Target_ARM_MIPS \<Rightarrow> 32)"

definition GFD_KBD_IRQ :: u32 where "GFD_KBD_IRQ = 1"
definition GFD_RTC_IRQ :: u32 where "GFD_RTC_IRQ = 8"
definition GFD_MOUSE_IRQ :: u32 where "GFD_MOUSE_IRQ = 12"
definition GFD_ERR_IRQ :: u32 where "GFD_ERR_IRQ = 13"

lemmas gfd_irq_defs = GFD_MAX_IRQ_def GFD_KBD_IRQ_def GFD_RTC_IRQ_def GFD_MOUSE_IRQ_def GFD_ERR_IRQ_def

record goldfish_device =
  d_reported_state :: u32
  d_name :: string
  d_id :: u32
  d_base :: u32
  d_size :: u32
  d_irq :: u32
  d_irq_count :: u32

text \<open>
  The linked list \<open>first_device .. last_device\<close> is the list \<open>devices\<close>, to which devices are only ever
  appended; a pointer into it is an index, \<open>current\<close> is the one of the enumeration. \<open>bus_dev\<close> is the
  embedded device structure of the bus, itself an element of the list, of which the bus operations
  read the interrupt fields; those do not change once the bus is added.
\<close>

record bus_state =
  devices :: "goldfish_device list"
  current :: "nat option"
  name_addr_high :: u64
  bus_dev :: goldfish_device
  free_base :: u32
  free_irq :: u32
  guest_64bit :: bool

definition PDEV_BUS_OP_DONE :: u32 where "PDEV_BUS_OP_DONE = 0x00"
definition PDEV_BUS_OP_ADD_DEV :: u32 where "PDEV_BUS_OP_ADD_DEV = 0x08"
definition PDEV_BUS_OP_INIT :: u32 where "PDEV_BUS_OP_INIT = 0x00"

definition PDEV_BUS_OP :: u64 where "PDEV_BUS_OP = 0x00"
definition PDEV_BUS_GET_NAME :: u64 where "PDEV_BUS_GET_NAME = 0x04"
definition PDEV_BUS_NAME_LEN :: u64 where "PDEV_BUS_NAME_LEN = 0x08"
definition PDEV_BUS_ID :: u64 where "PDEV_BUS_ID = 0x0c"
definition PDEV_BUS_IO_BASE :: u64 where "PDEV_BUS_IO_BASE = 0x10"
definition PDEV_BUS_IO_SIZE :: u64 where "PDEV_BUS_IO_SIZE = 0x14"
definition PDEV_BUS_IRQ :: u64 where "PDEV_BUS_IRQ = 0x18"
definition PDEV_BUS_IRQ_COUNT :: u64 where "PDEV_BUS_IRQ_COUNT = 0x1c"
definition PDEV_BUS_NAME_ADDR_HIGH :: u64 where "PDEV_BUS_NAME_ADDR_HIGH = 0x20"

lemmas pdev_bus_defs = PDEV_BUS_OP_DONE_def PDEV_BUS_OP_ADD_DEV_def PDEV_BUS_OP_INIT_def
  PDEV_BUS_OP_def PDEV_BUS_GET_NAME_def PDEV_BUS_NAME_LEN_def PDEV_BUS_ID_def PDEV_BUS_IO_BASE_def
  PDEV_BUS_IO_SIZE_def PDEV_BUS_IRQ_def PDEV_BUS_IRQ_COUNT_def PDEV_BUS_NAME_ADDR_HIGH_def

section \<open>Helpers of \<open>device.h\<close>\<close>

definition uint64_set_low :: "u64 \<Rightarrow> u32 \<Rightarrow> u64" where
  "uint64_set_low a v = (a AND NOT 0xFFFFFFFF) OR ucast v"

definition uint64_set_high :: "u64 \<Rightarrow> u32 \<Rightarrow> u64" where
  "uint64_set_high a v = (a AND 0xFFFFFFFF) OR push_bit 32 (ucast v)"

section \<open>Raising an interrupt\<close>

definition goldfish_device_set_irq :: "goldfish_device \<Rightarrow> u32 \<Rightarrow> bool \<Rightarrow> irq_out list res" where
  "goldfish_device_set_irq dev irq level =
     (if d_irq_count dev \<le> irq then Inl Cpu_Abort else Inr [(d_irq dev + irq, level)])"

lemma set_irq_0 [simp]:
  "0 < d_irq_count dev \<Longrightarrow> goldfish_device_set_irq dev 0 level = Inr [(d_irq dev, level)]"
  by (simp add: goldfish_device_set_irq_def not_le)

section \<open>Adding a device\<close>

definition reserved_irq :: "u32 \<Rightarrow> bool" where
  "reserved_irq n \<longleftrightarrow> n = GFD_KBD_IRQ \<or> n = GFD_RTC_IRQ \<or> n = GFD_MOUSE_IRQ \<or> n = GFD_ERR_IRQ"

function skip_reserved :: "u32 \<Rightarrow> u32" where
  "skip_reserved n = (if reserved_irq n then skip_reserved (n + 1) else n)"
  by pat_completeness auto
termination
  by (relation "measure (\<lambda>n. 20 - unat n)") (auto simp: reserved_irq_def gfd_irq_defs)

declare skip_reserved.simps [simp del]

definition goldfish_add_device_no_io ::
  "target \<Rightarrow> goldfish_device \<Rightarrow> bus_state \<Rightarrow> bus_state res" where
  "goldfish_add_device_no_io t dev s =
     (let (dev1, s1) = (if d_base dev = 0
                        then (dev\<lparr>d_base := free_base s\<rparr>, s\<lparr>free_base := free_base s + d_size dev\<rparr>)
                        else (dev, s))
      in if d_irq dev1 = 0 \<and> 0 < d_irq_count dev1
         then let dev2 = dev1\<lparr>d_irq := free_irq s1\<rparr>;
                  next_irq = free_irq s1 + d_irq_count dev1;
                  next_irq' = (case t of Target_I386 \<Rightarrow> skip_reserved next_irq | Target_ARM_MIPS \<Rightarrow> next_irq)
              in if GFD_MAX_IRQ t \<le> next_irq' then Inl Exit_Failure
                 else Inr (s1\<lparr>free_irq := next_irq', devices := devices s1 @ [dev2]\<rparr>)
         else Inr (s1\<lparr>devices := devices s1 @ [dev1]\<rparr>))"

definition goldfish_device_init :: "u32 \<Rightarrow> u32 \<Rightarrow> bus_state \<Rightarrow> bus_state" where
  "goldfish_device_init base irq s = s\<lparr>free_base := base, free_irq := irq\<rparr>"

definition goldfish_device_bus_init :: "target \<Rightarrow> u32 \<Rightarrow> u32 \<Rightarrow> bus_state \<Rightarrow> bus_state res" where
  "goldfish_device_bus_init t base irq s =
     (let dev = (bus_dev s)\<lparr>d_base := base, d_irq := irq\<rparr>
      in res_bind (goldfish_add_device_no_io t dev (s\<lparr>bus_dev := dev\<rparr>))
           (\<lambda>s'. Inr (s'\<lparr>bus_dev := last (devices s')\<rparr>)))"

text \<open>The static initial state of the file, before \<open>goldfish_device_init\<close>.\<close>

definition initial_bus :: bus_state where
  "initial_bus = \<lparr>devices = [], current = None, name_addr_high = 0,
     bus_dev = \<lparr>d_reported_state = 0, d_name = ''goldfish_device_bus'', d_id = - 1,
                d_base = 0x10001000, d_size = 0x1000, d_irq = 1, d_irq_count = 1\<rparr>,
     free_base = 0, free_irq = 0, guest_64bit = False\<rparr>"

section \<open>The registers\<close>

text \<open>The loop of \<open>goldfish_bus_read\<close> over the devices that were reported already.\<close>

function skip_reported :: "goldfish_device list \<Rightarrow> nat \<Rightarrow> nat option" where
  "skip_reported ds i =
     (if length ds \<le> i then None
      else if d_reported_state (ds ! i) = 1 then skip_reported ds (Suc i) else Some i)"
  by pat_completeness auto
termination
  by (relation "measure (\<lambda>(ds, i). length ds - i)") auto

declare skip_reported.simps [simp del]

definition bus_next :: "bus_state \<Rightarrow> bus_state" where
  "bus_next s =
     (case current s of
        Some i \<Rightarrow> let ds = (devices s)[i := (devices s ! i)\<lparr>d_reported_state := 1\<rparr>]
                 in s\<lparr>devices := ds, current := skip_reported ds (Suc i)\<rparr>
      | None \<Rightarrow> s\<lparr>current := skip_reported (devices s) 0\<rparr>)"

definition cur_field :: "bus_state \<Rightarrow> (goldfish_device \<Rightarrow> u32) \<Rightarrow> u32" where
  "cur_field s f = (case current s of Some i \<Rightarrow> f (devices s ! i) | None \<Rightarrow> 0)"

definition goldfish_bus_read :: "u64 \<Rightarrow> bus_state \<Rightarrow> (u32 \<times> bus_state \<times> irq_out list) res" where
  "goldfish_bus_read offset s =
     (if offset = PDEV_BUS_OP then
        let s' = bus_next s
        in if current s' \<noteq> None then Inr (PDEV_BUS_OP_ADD_DEV, s', [])
           else res_bind (goldfish_device_set_irq (bus_dev s') 0 False)
                  (\<lambda>os. Inr (PDEV_BUS_OP_DONE, s', os))
      else if offset = PDEV_BUS_NAME_LEN then
        Inr (cur_field s (\<lambda>d. word_of_nat (length (d_name d))), s, [])
      else if offset = PDEV_BUS_ID then Inr (cur_field s d_id, s, [])
      else if offset = PDEV_BUS_IO_BASE then Inr (cur_field s d_base, s, [])
      else if offset = PDEV_BUS_IO_SIZE then Inr (cur_field s d_size, s, [])
      else if offset = PDEV_BUS_IRQ then Inr (cur_field s d_irq, s, [])
      else if offset = PDEV_BUS_IRQ_COUNT then Inr (cur_field s d_irq_count, s, [])
      else Inl Cpu_Abort)"

definition goldfish_bus_op_init :: "bus_state \<Rightarrow> (bus_state \<times> irq_out list) res" where
  "goldfish_bus_op_init s =
     (let s' = s\<lparr>devices := map (\<lambda>d. d\<lparr>d_reported_state := 0\<rparr>) (devices s), current := None\<rparr>
      in res_bind (goldfish_device_set_irq (bus_dev s') 0 (devices s' \<noteq> [])) (\<lambda>os. Inr (s', os)))"

text \<open>
  A write of \<open>PDEV_BUS_GET_NAME\<close> copies the name of the current device into guest memory: the bytes
  written and their guest address are returned for the caller to store (a 32-bit target truncates
  the address to its low half).
\<close>

definition goldfish_bus_write ::
  "u64 \<Rightarrow> u32 \<Rightarrow> bus_state \<Rightarrow> (bus_state \<times> irq_out list \<times> (u64 \<times> string) option) res" where
  "goldfish_bus_write offset v s =
     (if offset = PDEV_BUS_OP then
        (if v = PDEV_BUS_OP_INIT
         then res_bind (goldfish_bus_op_init s) (\<lambda>(s', os). Inr (s', os, None))
         else Inl Cpu_Abort)
      else if offset = PDEV_BUS_GET_NAME then
        (case current s of
           Some i \<Rightarrow> Inr (s, [], Some (name_addr_high s OR ucast v, d_name (devices s ! i)))
         | None \<Rightarrow> Inr (s, [], None))
      else if offset = PDEV_BUS_NAME_ADDR_HIGH then
        Inr (s\<lparr>name_addr_high := push_bit 32 (ucast v), guest_64bit := True\<rparr>, [], None)
      else Inl Cpu_Abort)"

section \<open>Interrupt line allocation\<close>

lemma skip_reserved_free: "\<not> reserved_irq (skip_reserved n)"
  by (induction n rule: skip_reserved.induct) (subst skip_reserved.simps, simp)

lemma skip_reserved_ge: "unat n \<le> unat (skip_reserved n)"
proof (induction n rule: skip_reserved.induct)
  case (1 n)
  show ?case
  proof (cases "reserved_irq n")
    case True
    then have "unat n \<le> unat (n + 1)" by (auto simp: reserved_irq_def gfd_irq_defs)
    with 1 [OF True] True show ?thesis by (simp add: skip_reserved.simps [of n])
  qed (simp add: skip_reserved.simps [of n])
qed

text \<open>
  The devices a board adds one after the other; the kernel drivers of all the goldfish devices use
  one interrupt line.
\<close>

fun add_devices :: "target \<Rightarrow> goldfish_device list \<Rightarrow> bus_state \<Rightarrow> bus_state res" where
  "add_devices t [] s = Inr s"
| "add_devices t (d # ds) s = res_bind (goldfish_add_device_no_io t d s) (add_devices t ds)"

definition wants_line :: "goldfish_device \<Rightarrow> bool" where
  "wants_line d \<longleftrightarrow> d_irq d = 0 \<and> d_irq_count d = 1"

text \<open>The next free line is a legal one.\<close>

definition irq_pool_ok :: "target \<Rightarrow> bus_state \<Rightarrow> bool" where
  "irq_pool_ok t s \<longleftrightarrow> 0 < free_irq s \<and> free_irq s < GFD_MAX_IRQ t \<and>
     (t = Target_I386 \<longrightarrow> \<not> reserved_irq (free_irq s))"

lemma add_device_line:
  assumes "wants_line d" and "irq_pool_ok t s" and "goldfish_add_device_no_io t d s = Inr s'"
  shows "irq_pool_ok t s'" and "free_irq s < free_irq s'"
    and "\<exists>d'. devices s' = devices s @ [d'] \<and> d_irq d' = free_irq s \<and> d_name d' = d_name d \<and>
           d_irq_count d' = 1"
proof -
  let ?n = "case t of Target_I386 \<Rightarrow> skip_reserved (free_irq s + 1) | Target_ARM_MIPS \<Rightarrow> free_irq s + 1"
  have max: "GFD_MAX_IRQ t \<le> 32" by (cases t) (auto simp: GFD_MAX_IRQ_def)
  have s': "?n < GFD_MAX_IRQ t" "free_irq s' = ?n"
    "\<exists>d'. devices s' = devices s @ [d'] \<and> d_irq d' = free_irq s \<and> d_name d' = d_name d \<and> d_irq_count d' = 1"
    using assms(1,3)
    by (cases t; auto simp: goldfish_add_device_no_io_def wants_line_def Let_def not_le split: if_splits)+
  have "free_irq s < 32" using assms(2) max by (auto simp: irq_pool_ok_def)
  then have up: "free_irq s < free_irq s + 1" by (simp add: word_less_nat_alt unat_word_ariths)
  also have "free_irq s + 1 \<le> ?n"
    using skip_reserved_ge [of "free_irq s + 1"] by (cases t) (auto simp: word_le_nat_alt)
  finally show "free_irq s < free_irq s'" using s'(2) by simp
  then show "irq_pool_ok t s'"
    using s'(1,2) assms(2) skip_reserved_free [of "free_irq s + 1"]
    by (cases t) (auto simp: irq_pool_ok_def word_gt_0 intro: word_not_simps)
  show "\<exists>d'. devices s' = devices s @ [d'] \<and> d_irq d' = free_irq s \<and> d_name d' = d_name d \<and>
           d_irq_count d' = 1" using s'(3) .
qed

lemma add_devices_lines:
  assumes "list_all wants_line ds" and "irq_pool_ok t s" and "add_devices t ds s = Inr s'"
  shows "\<exists>new. devices s' = devices s @ new \<and> map d_name new = map d_name ds \<and>
    distinct (map d_irq new) \<and>
    (\<forall>d \<in> set new. free_irq s \<le> d_irq d \<and> d_irq d < GFD_MAX_IRQ t \<and>
       (t = Target_I386 \<longrightarrow> \<not> reserved_irq (d_irq d)))"
  using assms
proof (induction ds arbitrary: s)
  case Nil
  then show ?case by (intro exI [of _ "[]"]) simp
next
  case (Cons d ds)
  then obtain s1 where s1: "goldfish_add_device_no_io t d s = Inr s1" "add_devices t ds s1 = Inr s'"
    by (auto simp: res_simps)
  note l = add_device_line [OF _ Cons.prems(2) s1(1)]
  obtain d' where d': "devices s1 = devices s @ [d']" "d_irq d' = free_irq s" "d_name d' = d_name d"
    using l(3) Cons.prems(1) by auto
  obtain new where new: "devices s' = devices s1 @ new" "map d_name new = map d_name ds"
    "distinct (map d_irq new)"
    "\<forall>d \<in> set new. free_irq s1 \<le> d_irq d \<and> d_irq d < GFD_MAX_IRQ t \<and>
       (t = Target_I386 \<longrightarrow> \<not> reserved_irq (d_irq d))"
    using Cons.IH [OF _ l(1) s1(2)] Cons.prems(1) by auto
  have lt: "free_irq s < free_irq s1" using l(2) Cons.prems(1) by simp
  show ?case
  proof (intro exI [of _ "d' # new"] conjI)
    show "distinct (map d_irq (d' # new))" using new(3,4) d'(2) lt by fastforce
    show "\<forall>d \<in> set (d' # new). free_irq s \<le> d_irq d \<and> d_irq d < GFD_MAX_IRQ t \<and>
       (t = Target_I386 \<longrightarrow> \<not> reserved_irq (d_irq d))"
      using new(4) d'(2) lt Cons.prems(2) by (fastforce simp: irq_pool_ok_def)
  qed (use new(1,2) d' in auto)
qed

section \<open>Enumeration of the devices\<close>

definition unreported :: "goldfish_device \<Rightarrow> bool" where
  "unreported d \<longleftrightarrow> d_reported_state d \<noteq> 1"

definition mark_reported :: "goldfish_device \<Rightarrow> goldfish_device" where
  "mark_reported d = d\<lparr>d_reported_state := 1\<rparr>"

lemma mark_reported_idle [simp]: "\<not> unreported d \<Longrightarrow> mark_reported d = d"
  by (simp add: unreported_def mark_reported_def)

lemma skip_reported_rec:
  "skip_reported ds i =
     (if length ds \<le> i then None else if unreported (ds ! i) then Some i else skip_reported ds (Suc i))"
  by (subst skip_reported.simps) (simp add: unreported_def)

lemma skip_reported_spec:
  "case skip_reported ds k of
     None \<Rightarrow> filter unreported (drop k ds) = []
   | Some i \<Rightarrow> k \<le> i \<and> i < length ds \<and> unreported (ds ! i) \<and>
       filter unreported (drop k ds) = ds ! i # filter unreported (drop (Suc i) ds) \<and>
       (\<forall>j. k \<le> j \<and> j < i \<longrightarrow> \<not> unreported (ds ! j))"
proof (induction ds k rule: skip_reported.induct)
  case (1 ds k)
  show ?case
  proof (cases "k < length ds \<and> \<not> unreported (ds ! k)")
    case True
    then have d: "drop k ds = ds ! k # drop (Suc k) ds" by (simp add: Cons_nth_drop_Suc)
    have j: "k \<le> j \<longleftrightarrow> j = k \<or> Suc k \<le> j" for j by auto
    have "d_reported_state (ds ! k) = 1" using True by (simp add: unreported_def)
    with 1 True show ?thesis
      by (auto simp: skip_reported_rec [of ds k] d j not_le split: option.splits)
  next
    case False
    then show ?thesis
      by (auto simp: skip_reported_rec [of ds k] Cons_nth_drop_Suc [symmetric])
  qed
qed

text \<open>
  The registers of the current device, as the driver of the bus reads them, and the loop of the
  driver: it reads \<open>PDEV_BUS_OP\<close> until it gets \<open>PDEV_BUS_OP_DONE\<close>, collecting the registers of each
  device added.
\<close>

definition bus_reg :: "u64 \<Rightarrow> bus_state \<Rightarrow> u32" where
  "bus_reg offset s = (case goldfish_bus_read offset s of Inr (v, _, _) \<Rightarrow> v | Inl _ \<Rightarrow> 0)"

definition bus_regs :: "bus_state \<Rightarrow> u32 list" where
  "bus_regs s = map (\<lambda>offset. bus_reg offset s)
     [PDEV_BUS_NAME_LEN, PDEV_BUS_ID, PDEV_BUS_IO_BASE, PDEV_BUS_IO_SIZE, PDEV_BUS_IRQ, PDEV_BUS_IRQ_COUNT]"

definition device_regs :: "goldfish_device \<Rightarrow> u32 list" where
  "device_regs d = [word_of_nat (length (d_name d)), d_id d, d_base d, d_size d, d_irq d, d_irq_count d]"

fun bus_probe :: "nat \<Rightarrow> bus_state \<Rightarrow> (u32 list list \<times> bus_state \<times> irq_out list) option" where
  "bus_probe 0 s = None"
| "bus_probe (Suc n) s =
     (case goldfish_bus_read PDEV_BUS_OP s of
        Inl e \<Rightarrow> None
      | Inr (op, s', os) \<Rightarrow>
          if op = PDEV_BUS_OP_ADD_DEV
          then map_option (\<lambda>(regs, s'', os'). (bus_regs s' # regs, s'', os @ os')) (bus_probe n s')
          else Some ([], s', os))"

lemma bus_regs_current:
  "current s = Some i \<Longrightarrow> bus_regs s = device_regs (devices s ! i)"
  by (simp add: bus_regs_def bus_reg_def goldfish_bus_read_def cur_field_def device_regs_def pdev_bus_defs)

text \<open>The devices the scan has still to look at, once the current one is marked.\<close>

definition scan_pos :: "bus_state \<Rightarrow> nat" where
  "scan_pos s = (case current s of None \<Rightarrow> 0 | Some i \<Rightarrow> Suc i)"

lemma bus_next_spec:
  assumes "scan_pos s \<le> length (devices s)"
    and "\<forall>j < scan_pos s - 1. \<not> unreported (devices s ! j)"
  shows "\<exists>ds. bus_next s = s\<lparr>devices := ds, current := skip_reported ds (scan_pos s)\<rparr> \<and>
    length ds = length (devices s) \<and> (\<forall>j < scan_pos s. \<not> unreported (ds ! j)) \<and>
    drop (scan_pos s) ds = drop (scan_pos s) (devices s) \<and>
    map mark_reported ds = map mark_reported (devices s)"
proof (cases "current s")
  case None
  then show ?thesis by (simp add: bus_next_def scan_pos_def)
next
  case (Some i)
  let ?ds = "(devices s)[i := mark_reported (devices s ! i)]"
  have i: "i < length (devices s)" using Some assms(1) by (simp add: scan_pos_def)
  have "map mark_reported ?ds = map mark_reported (devices s)"
    using i by (intro nth_equalityI) (auto simp: nth_list_update mark_reported_def)
  moreover have "\<forall>j < Suc i. \<not> unreported (?ds ! j)"
    using assms(2) Some i
    by (auto simp: scan_pos_def nth_list_update less_Suc_eq unreported_def mark_reported_def)
  ultimately show ?thesis using Some
    by (auto simp: bus_next_def scan_pos_def Let_def mark_reported_def)
qed

lemma bus_probe_scan:
  assumes "0 < d_irq_count (bus_dev s)" and "scan_pos s \<le> length (devices s)"
    and "\<forall>j < scan_pos s - 1. \<not> unreported (devices s ! j)"
    and "length (filter unreported (drop (scan_pos s) (devices s))) < n"
  shows "bus_probe n s =
    Some (map device_regs (filter unreported (drop (scan_pos s) (devices s))),
      s\<lparr>devices := map mark_reported (devices s), current := None\<rparr>, [(d_irq (bus_dev s), False)])"
  using assms
proof (induction n arbitrary: s)
  case 0
  then show ?case by simp
next
  case (Suc n)
  let ?k = "scan_pos s"
  obtain ds where ds: "bus_next s = s\<lparr>devices := ds, current := skip_reported ds ?k\<rparr>"
    "length ds = length (devices s)" "\<forall>j < ?k. \<not> unreported (ds ! j)"
    "drop ?k ds = drop ?k (devices s)" "map mark_reported ds = map mark_reported (devices s)"
    using bus_next_spec [OF Suc.prems(2,3)] by blast
  show ?case
  proof (cases "skip_reported ds ?k")
    case None
    then have none: "filter unreported (drop ?k ds) = []" using skip_reported_spec [of ?k ds] by simp
    have "\<not> unreported d" if "d \<in> set ds" for d
    proof -
      obtain j where "j < length ds" "d = ds ! j" using \<open>d \<in> set ds\<close> by (auto simp: in_set_conv_nth)
      moreover have "ds ! j \<in> set (drop ?k ds)" if "?k \<le> j"
        using that calculation by (auto simp: in_set_conv_nth intro!: exI [of _ "j - ?k"])
      ultimately show ?thesis using ds(3) none by (cases "j < ?k") (auto simp: filter_empty_conv)
    qed
    then have "map mark_reported ds = ds" by (intro map_idI) simp
    with None none ds Suc.prems(1) show ?thesis
      by (auto simp: goldfish_bus_read_def pdev_bus_defs)
  next
    case (Some i)
    let ?s = "s\<lparr>devices := ds, current := Some i\<rparr>"
    have i: "?k \<le> i" "i < length ds" "unreported (ds ! i)"
      "filter unreported (drop ?k ds) = ds ! i # filter unreported (drop (Suc i) ds)"
      "\<forall>j. ?k \<le> j \<and> j < i \<longrightarrow> \<not> unreported (ds ! j)"
      using skip_reported_spec [of ?k ds] Some by auto
    have "\<not> unreported (ds ! j)" if "j < i" for j
      using that i(5) ds(3) by (cases "j < ?k") auto
    then have "bus_probe n ?s = Some (map device_regs (filter unreported (drop (Suc i) ds)),
      ?s\<lparr>devices := map mark_reported ds, current := None\<rparr>, [(d_irq (bus_dev s), False)])"
      using Suc.IH [of ?s] Suc.prems i ds(4) by (simp add: scan_pos_def)
    then show ?thesis
      using ds i Some by (simp add: goldfish_bus_read_def pdev_bus_defs bus_regs_current)
  qed
qed

section \<open>Properties\<close>

text \<open>C12: Enumeration. After the driver starts the enumeration (\<open>PDEV_BUS_OP_INIT\<close>) the interrupt line of the bus
  is raised exactly when there are devices, and reading the bus registers until \<open>PDEV_BUS_OP_DONE\<close>, which takes at most one
  read more than there are devices, delivers the registers of every device once, in the order they were added, marks all of
  them reported, ends the scan and lowers the line of the bus.\<close>

theorem bus_enumeration:
  assumes "0 < d_irq_count (bus_dev s)" and "length (devices s) < n"
  shows "\<exists>s0. goldfish_bus_op_init s = Inr (s0, [(d_irq (bus_dev s), devices s \<noteq> [])]) \<and>
    bus_probe n s0 = Some (map device_regs (devices s),
      s\<lparr>devices := map mark_reported (devices s), current := None\<rparr>, [(d_irq (bus_dev s), False)])"
proof -
  let ?s0 = "s\<lparr>devices := map (\<lambda>d. d\<lparr>d_reported_state := 0\<rparr>) (devices s), current := None\<rparr>"
  have all: "filter unreported (devices ?s0) = devices ?s0"
    by (simp add: filter_id_conv unreported_def)
  have "goldfish_bus_op_init s = Inr (?s0, [(d_irq (bus_dev s), devices s \<noteq> [])])"
    using assms(1) by (simp add: goldfish_bus_op_init_def)
  moreover have "bus_probe n ?s0 = Some (map device_regs (devices s),
      s\<lparr>devices := map mark_reported (devices s), current := None\<rparr>, [(d_irq (bus_dev s), False)])"
    using bus_probe_scan [of ?s0 n] assms all
    by (simp add: scan_pos_def comp_def unreported_def device_regs_def [abs_def] mark_reported_def [abs_def])
  ultimately show ?thesis by blast
qed

definition sample_tty :: goldfish_device where
  "sample_tty = \<lparr>d_reported_state = 0, d_name = ''goldfish_tty'', d_id = 0, d_base = 0, d_size = 0x1000,
     d_irq = 0, d_irq_count = 1\<rparr>"

theorem bus_enumeration_witness:
  "let s = initial_bus\<lparr>devices := [sample_tty]\<rparr> in
     0 < d_irq_count (bus_dev s) \<and> length (devices s) < 2 \<and>
     (\<exists>s0. goldfish_bus_op_init s = Inr (s0, [(1, True)]) \<and>
        (\<exists>s1. bus_probe 2 s0 = Some ([[12, 0, 0, 0x1000, 0, 1]], s1, [(1, False)])))"
  using bus_enumeration [of "initial_bus\<lparr>devices := [sample_tty]\<rparr>" 2]
  by (auto simp: initial_bus_def sample_tty_def device_regs_def)

text \<open>A device added while the bus is idle, after everything was reported, is the only one the next scan reports.\<close>

theorem bus_hotplug:
  assumes "0 < d_irq_count (bus_dev s)" and "current s = None"
    and "list_all (Not \<circ> unreported) (devices s)" and "goldfish_add_device_no_io t d s = Inr s'"
    and "unreported d"
  shows "\<exists>s''. bus_probe 2 s' = Some ([device_regs (last (devices s'))], s'', [(d_irq (bus_dev s), False)]) \<and>
    list_all (Not \<circ> unreported) (devices s'')"
proof -
  have s': "\<exists>d'. devices s' = devices s @ [d'] \<and> unreported d'" "current s' = None" "bus_dev s' = bus_dev s"
    using assms by (auto simp: goldfish_add_device_no_io_def Let_def unreported_def split: if_splits target.splits)
  then obtain d' where d': "devices s' = devices s @ [d']" "unreported d'" by blast
  have "filter unreported (devices s) = []" using assms(3) by (auto simp: list_all_iff filter_empty_conv)
  then show ?thesis using bus_probe_scan [of s' 2] s' d' assms(1)
    by (auto simp: scan_pos_def list_all_iff unreported_def mark_reported_def)
qed

theorem bus_hotplug_witness:
  "let s = initial_bus\<lparr>free_base := 0xff002000, free_irq := 10\<rparr> in
     \<exists>s' s''. goldfish_add_device_no_io Target_ARM_MIPS sample_tty s = Inr s' \<and>
       bus_probe 2 s' = Some ([[12, 0, 0xff002000, 0x1000, 10, 1]], s'', [(1, False)])"
proof -
  let ?s = "initial_bus\<lparr>free_base := 0xff002000, free_irq := 10\<rparr>"
  obtain s' where s': "goldfish_add_device_no_io Target_ARM_MIPS sample_tty ?s = Inr s'"
    "last (devices s') = sample_tty\<lparr>d_base := 0xff002000, d_irq := 10\<rparr>"
    by (simp add: goldfish_add_device_no_io_def initial_bus_def sample_tty_def GFD_MAX_IRQ_def)
  have "\<exists>s''. bus_probe 2 s' = Some ([[12, 0, 0xff002000, 0x1000, 10, 1]], s'', [(1, False)])"
    using bus_hotplug [OF _ _ _ s'(1)] s'(2)
    by (auto simp: initial_bus_def sample_tty_def unreported_def device_regs_def)
  then show ?thesis using s'(1) by (auto simp: Let_def)
qed

text \<open>Interrupt line allocation. Devices that ask for one line each and are added one after the other get pairwise
  different lines, all inside the controller and none of them a line that a PC reserves for the keyboard, the clock, the
  mouse or the coprocessor.\<close>

theorem irq_lines_distinct:
  assumes "list_all wants_line ds" and "irq_pool_ok t s" and "add_devices t ds s = Inr s'"
  shows "\<exists>new. devices s' = devices s @ new \<and> map d_name new = map d_name ds \<and>
    distinct (map d_irq new) \<and>
    (\<forall>d \<in> set new. free_irq s \<le> d_irq d \<and> d_irq d < GFD_MAX_IRQ t \<and>
       (t = Target_I386 \<longrightarrow> \<not> reserved_irq (d_irq d)))"
  by (rule add_devices_lines [OF assms])

theorem irq_lines_distinct_witness:
  "\<exists>s'. add_devices Target_I386 [sample_tty, sample_tty, sample_tty, sample_tty] (goldfish_device_init 0 5 initial_bus) = Inr s' \<and>
     map d_irq (devices s') = [5, 6, 7, 9] \<and> distinct (map d_irq (devices s'))"
proof -
  let ?s = "goldfish_device_init 0 5 initial_bus"
  have skip: "skip_reserved 6 = 6" "skip_reserved 7 = 7" "skip_reserved 8 = 9" "skip_reserved 9 = 9" "skip_reserved 10 = 10"
    by (simp_all add: skip_reserved.simps [of 6] skip_reserved.simps [of 7] skip_reserved.simps [of 8]
        skip_reserved.simps [of 9] skip_reserved.simps [of 10] reserved_irq_def gfd_irq_defs)
  obtain s' where s': "add_devices Target_I386 [sample_tty, sample_tty, sample_tty, sample_tty] ?s = Inr s'"
    "map d_irq (devices s') = [5, 6, 7, 9]"
    by (simp add: goldfish_device_init_def goldfish_add_device_no_io_def initial_bus_def
        sample_tty_def gfd_irq_defs skip)
  have "list_all wants_line [sample_tty, sample_tty, sample_tty, sample_tty]" "irq_pool_ok Target_I386 ?s" "devices ?s = []"
    by (simp_all add: wants_line_def sample_tty_def irq_pool_ok_def goldfish_device_init_def
        initial_bus_def gfd_irq_defs reserved_irq_def)
  then show ?thesis using irq_lines_distinct [OF _ _ s'(1)] s' by (metis append_Nil)
qed

end
