(* ===== verification/Qemu_File.thy ===== *)
theory Qemu_File
  imports Prelude
begin

text \<open>
  The buffered snapshot file of \<open>savevm.c\<close>. The first half models \<open>QEMUFile\<close> as the code has it: a
  buffer of \<open>IO_BUF_SIZE\<close> bytes in front of a backend that is reached through \<open>put_buffer\<close> and
  \<open>get_buffer\<close>. The second half is the byte stream the devices see, on which their \<open>save\<close> and
  \<open>load\<close> handlers are written; the refinement lemmas connect the two. Only files whose operations
  have a \<open>put_buffer\<close> and no \<open>writev_buffer\<close> are modelled (the snapshot files of the Android build),
  so the \<open>iov\<close> array of the C structure is always empty and left out.
\<close>

section \<open>The buffered file\<close>

definition IO_BUF_SIZE :: nat where
  "IO_BUF_SIZE = 32768"

definition EIO :: int where
  "EIO = 5"

definition EINVAL :: int where
  "EINVAL = 22"

definition EAGAIN :: int where
  "EAGAIN = 11"

record 'b qemu_file_ops =
  put_buffer :: "('b \<Rightarrow> u8 list \<Rightarrow> int \<Rightarrow> int \<times> 'b) option"
  get_buffer :: "('b \<Rightarrow> int \<Rightarrow> nat \<Rightarrow> int \<times> u8 list \<times> 'b) option"

record 'b QEMUFile =
  f_opaque :: 'b
  f_bytes_xfer :: int
  f_xfer_limit :: int
  f_pos :: int
  f_buf_index :: nat
  f_buf_size :: nat
  f_buf :: "nat \<Rightarrow> u8"
  f_last_error :: int

definition qemu_file_get_error :: "'b QEMUFile \<Rightarrow> int" where
  "qemu_file_get_error f = f_last_error f"

definition qemu_file_set_error :: "'b QEMUFile \<Rightarrow> int \<Rightarrow> 'b QEMUFile" where
  "qemu_file_set_error f ret = (if f_last_error f = 0 then f\<lparr>f_last_error := ret\<rparr> else f)"

definition qemu_file_is_writable :: "'b qemu_file_ops \<Rightarrow> bool" where
  "qemu_file_is_writable ops \<longleftrightarrow> put_buffer ops \<noteq> None"

definition qemu_fflush :: "'b qemu_file_ops \<Rightarrow> 'b QEMUFile \<Rightarrow> 'b QEMUFile" where
  "qemu_fflush ops f =
     (case put_buffer ops of
        None \<Rightarrow> f
      | Some put \<Rightarrow>
          let (ret, b) = (if f_buf_index f > 0
                          then put (f_opaque f) (window (f_buf f) 0 (f_buf_index f)) (f_pos f)
                          else (0, f_opaque f));
              f1 = f\<lparr>f_opaque := b\<rparr>;
              f2 = (if ret \<ge> 0 then f1\<lparr>f_pos := f_pos f1 + ret\<rparr> else f1);
              f3 = f2\<lparr>f_buf_index := 0\<rparr>
          in if ret < 0 then qemu_file_set_error f3 ret else f3)"

definition qemu_put_byte :: "'b qemu_file_ops \<Rightarrow> 'b QEMUFile \<Rightarrow> u8 \<Rightarrow> 'b QEMUFile" where
  "qemu_put_byte ops f v =
     (if f_last_error f \<noteq> 0 then f
      else let f1 = f\<lparr>f_buf := (f_buf f)(f_buf_index f := v),
                      f_bytes_xfer := f_bytes_xfer f + 1,
                      f_buf_index := f_buf_index f + 1\<rparr>
           in if f_buf_index f1 = IO_BUF_SIZE then qemu_fflush ops f1 else f1)"

text \<open>
  The loop of \<open>qemu_put_buffer\<close>; \<open>put_chunk\<close> is its body, the copy of the \<open>l\<close> bytes that fit into
  the buffer. The guard on \<open>buf_index\<close> covers the states outside of the array, which no operation
  reaches: there the C loop would not make progress.
\<close>

definition put_chunk :: "'b qemu_file_ops \<Rightarrow> 'b QEMUFile \<Rightarrow> u8 list \<Rightarrow> 'b QEMUFile" where
  "put_chunk ops f bs =
     (let f1 = f\<lparr>f_buf := blit (f_buf f) (f_buf_index f) bs,
                 f_bytes_xfer := f_bytes_xfer f + int (length bs),
                 f_buf_index := f_buf_index f + length bs\<rparr>
      in if f_buf_index f1 = IO_BUF_SIZE then qemu_fflush ops f1 else f1)"

function put_buffer_loop :: "'b qemu_file_ops \<Rightarrow> 'b QEMUFile \<Rightarrow> u8 list \<Rightarrow> 'b QEMUFile" where
  "put_buffer_loop ops f bs =
     (if bs = [] \<or> IO_BUF_SIZE \<le> f_buf_index f then f
      else let l = min (IO_BUF_SIZE - f_buf_index f) (length bs);
               f1 = put_chunk ops f (take l bs)
           in if qemu_file_get_error f1 \<noteq> 0 then f1
              else put_buffer_loop ops f1 (drop l bs))"
  by pat_completeness auto
termination
  by (relation "measure (\<lambda>(ops, f, bs). length bs)") (auto simp: Let_def)

declare put_buffer_loop.simps [simp del]

definition qemu_put_buffer :: "'b qemu_file_ops \<Rightarrow> 'b QEMUFile \<Rightarrow> u8 list \<Rightarrow> 'b QEMUFile" where
  "qemu_put_buffer ops f bs = (if f_last_error f \<noteq> 0 then f else put_buffer_loop ops f bs)"

definition qemu_put_be16 :: "'b qemu_file_ops \<Rightarrow> 'b QEMUFile \<Rightarrow> u32 \<Rightarrow> 'b QEMUFile" where
  "qemu_put_be16 ops f v = qemu_put_byte ops (qemu_put_byte ops f (ucast (drop_bit 8 v))) (ucast v)"

definition qemu_put_be32 :: "'b qemu_file_ops \<Rightarrow> 'b QEMUFile \<Rightarrow> u32 \<Rightarrow> 'b QEMUFile" where
  "qemu_put_be32 ops f v =
     (let f1 = qemu_put_byte ops f (ucast (drop_bit 24 v));
          f2 = qemu_put_byte ops f1 (ucast (drop_bit 16 v));
          f3 = qemu_put_byte ops f2 (ucast (drop_bit 8 v))
      in qemu_put_byte ops f3 (ucast v))"

definition qemu_put_be64 :: "'b qemu_file_ops \<Rightarrow> 'b QEMUFile \<Rightarrow> u64 \<Rightarrow> 'b QEMUFile" where
  "qemu_put_be64 ops f v =
     qemu_put_be32 ops (qemu_put_be32 ops f (ucast (drop_bit 32 v))) (ucast v)"

definition qemu_fill_buffer :: "'b qemu_file_ops \<Rightarrow> 'b QEMUFile \<Rightarrow> 'b QEMUFile res" where
  "qemu_fill_buffer ops f =
     (if qemu_file_is_writable ops then Inl Assert_Failure
      else case get_buffer ops of
        None \<Rightarrow> Inl Undefined
      | Some get \<Rightarrow>
          let pending = f_buf_size f - f_buf_index f;
              f1 = f\<lparr>f_buf := blit (f_buf f) 0 (window (f_buf f) (f_buf_index f) pending),
                     f_buf_index := 0, f_buf_size := pending\<rparr>;
              (len, bs, b) = get (f_opaque f1) (f_pos f1) (IO_BUF_SIZE - pending);
              f2 = f1\<lparr>f_opaque := b, f_buf := blit (f_buf f1) pending bs\<rparr>
          in Inr (if len > 0 then f2\<lparr>f_buf_size := f_buf_size f2 + nat len, f_pos := f_pos f2 + len\<rparr>
                  else if len = 0 then qemu_file_set_error f2 (- EIO)
                  else if len \<noteq> - EAGAIN then qemu_file_set_error f2 len
                  else f2))"

definition qemu_file_skip :: "'b QEMUFile \<Rightarrow> nat \<Rightarrow> 'b QEMUFile" where
  "qemu_file_skip f sz =
     (if f_buf_index f + sz \<le> f_buf_size f then f\<lparr>f_buf_index := f_buf_index f + sz\<rparr> else f)"

definition qemu_peek_buffer ::
  "'b qemu_file_ops \<Rightarrow> 'b QEMUFile \<Rightarrow> nat \<Rightarrow> nat \<Rightarrow> (u8 list \<times> 'b QEMUFile) res" where
  "qemu_peek_buffer ops f sz offset =
     (if qemu_file_is_writable ops then Inl Assert_Failure
      else res_bind
        (if int (f_buf_size f) - int (f_buf_index f + offset) < int sz
         then qemu_fill_buffer ops f else Inr f)
        (\<lambda>f1. let index = f_buf_index f1 + offset
              in if f_buf_size f1 \<le> index then Inr ([], f1)
                 else Inr (window (f_buf f1) index (min sz (f_buf_size f1 - index)), f1)))"

text \<open>
  The loop of \<open>qemu_get_buffer\<close>: it ends when nothing is left to read or \<open>qemu_peek_buffer\<close> returns
  no byte.
\<close>

function qemu_get_buffer ::
  "'b qemu_file_ops \<Rightarrow> 'b QEMUFile \<Rightarrow> nat \<Rightarrow> (u8 list \<times> 'b QEMUFile) res" where
  "qemu_get_buffer ops f pending =
     (if pending = 0 then Inr ([], f)
      else case qemu_peek_buffer ops f pending 0 of
        Inl e \<Rightarrow> Inl e
      | Inr (bs, f1) \<Rightarrow>
          if bs = [] then Inr ([], f1)
          else case qemu_get_buffer ops (qemu_file_skip f1 (length bs)) (pending - length bs) of
            Inl e \<Rightarrow> Inl e
          | Inr (bs', f2) \<Rightarrow> Inr (bs @ bs', f2))"
  by pat_completeness auto
termination
  by (relation "measure (\<lambda>(ops, f, n). n)") auto

declare qemu_get_buffer.simps [simp del]

definition qemu_peek_byte :: "'b qemu_file_ops \<Rightarrow> 'b QEMUFile \<Rightarrow> nat \<Rightarrow> (u8 \<times> 'b QEMUFile) res" where
  "qemu_peek_byte ops f offset =
     (if qemu_file_is_writable ops then Inl Assert_Failure
      else if f_buf_size f \<le> f_buf_index f + offset
      then res_bind (qemu_fill_buffer ops f)
             (\<lambda>f1. let index = f_buf_index f1 + offset
                   in if f_buf_size f1 \<le> index then Inr (0, f1) else Inr (f_buf f1 index, f1))
      else Inr (f_buf f (f_buf_index f + offset), f))"

definition qemu_get_byte :: "'b qemu_file_ops \<Rightarrow> 'b QEMUFile \<Rightarrow> (u8 \<times> 'b QEMUFile) res" where
  "qemu_get_byte ops f =
     res_bind (qemu_peek_byte ops f 0) (\<lambda>(r, f1). Inr (r, qemu_file_skip f1 1))"

definition qemu_get_be16 :: "'b qemu_file_ops \<Rightarrow> 'b QEMUFile \<Rightarrow> (u32 \<times> 'b QEMUFile) res" where
  "qemu_get_be16 ops f =
     res_bind (qemu_get_byte ops f) (\<lambda>(b1, f1). res_bind (qemu_get_byte ops f1)
       (\<lambda>(b0, f2). Inr (push_bit 8 (ucast b1) OR ucast b0, f2)))"

definition qemu_get_be32 :: "'b qemu_file_ops \<Rightarrow> 'b QEMUFile \<Rightarrow> (u32 \<times> 'b QEMUFile) res" where
  "qemu_get_be32 ops f =
     res_bind (qemu_get_byte ops f) (\<lambda>(b3, f1). res_bind (qemu_get_byte ops f1)
       (\<lambda>(b2, f2). res_bind (qemu_get_byte ops f2) (\<lambda>(b1, f3). res_bind (qemu_get_byte ops f3)
         (\<lambda>(b0, f4). Inr (push_bit 24 (ucast b3) OR push_bit 16 (ucast b2) OR push_bit 8 (ucast b1)
            OR ucast b0, f4)))))"

definition qemu_get_be64 :: "'b qemu_file_ops \<Rightarrow> 'b QEMUFile \<Rightarrow> (u64 \<times> 'b QEMUFile) res" where
  "qemu_get_be64 ops f =
     res_bind (qemu_get_be32 ops f) (\<lambda>(hi, f1). res_bind (qemu_get_be32 ops f1)
       (\<lambda>(lo, f2). Inr (push_bit 32 (ucast hi) OR ucast lo, f2)))"

definition qemu_file_rate_limit :: "'b QEMUFile \<Rightarrow> bool" where
  "qemu_file_rate_limit f \<longleftrightarrow>
     qemu_file_get_error f \<noteq> 0 \<or> f_xfer_limit f > 0 \<and> f_bytes_xfer f > f_xfer_limit f"

text \<open>A \<open>NULL\<close> string, here \<open>None\<close>, is written like the empty one.\<close>

definition qemu_put_string :: "'b qemu_file_ops \<Rightarrow> 'b QEMUFile \<Rightarrow> u8 list option \<Rightarrow> 'b QEMUFile" where
  "qemu_put_string ops f str =
     (let s = (case str of None \<Rightarrow> [] | Some cs \<Rightarrow> cs)
      in qemu_put_buffer ops (qemu_put_be32 ops f (word_of_nat (length s))) s)"

definition qemu_get_string :: "'b qemu_file_ops \<Rightarrow> 'b QEMUFile \<Rightarrow> (u8 list option \<times> 'b QEMUFile) res" where
  "qemu_get_string ops f =
     res_bind (qemu_get_be32 ops f) (\<lambda>(n, f1).
       if n = 0 then Inr (None, f1)
       else res_bind (qemu_get_buffer ops f1 (unat n)) (\<lambda>(bs, f2).
         Inr (if length bs \<noteq> unat n then None else Some bs, f2)))"

section \<open>The standard I/O backend\<close>

text \<open>
  \<open>stdio_put_buffer\<close> and \<open>stdio_get_buffer\<close> over a \<open>FILE\<close> that is a list of bytes: \<open>fwrite\<close> on a
  file open for writing appends, \<open>fread\<close> returns the next bytes and 0 at the end of the file. The
  retry of \<open>stdio_get_buffer\<close> on \<open>EINTR\<close> makes an interrupted read invisible.
\<close>

definition stdio_put_buffer :: "u8 list \<Rightarrow> u8 list \<Rightarrow> int \<Rightarrow> int \<times> u8 list" where
  "stdio_put_buffer fp bs p = (int (length bs), fp @ bs)"

definition stdio_get_buffer :: "u8 list \<Rightarrow> int \<Rightarrow> nat \<Rightarrow> int \<times> u8 list \<times> u8 list" where
  "stdio_get_buffer fp p n = (int (length (take n fp)), take n fp, drop n fp)"

definition stdio_file_write_ops :: "u8 list qemu_file_ops" where
  "stdio_file_write_ops = \<lparr>put_buffer = Some stdio_put_buffer, get_buffer = None\<rparr>"

definition stdio_file_read_ops :: "u8 list qemu_file_ops" where
  "stdio_file_read_ops = \<lparr>put_buffer = None, get_buffer = Some stdio_get_buffer\<rparr>"

definition qemu_fopen_ops :: "'b \<Rightarrow> 'b QEMUFile" where
  "qemu_fopen_ops b = \<lparr>f_opaque = b, f_bytes_xfer = 0, f_xfer_limit = 0, f_pos = 0, f_buf_index = 0, f_buf_size = 0,
     f_buf = (\<lambda>_. 0), f_last_error = 0\<rparr>"

section \<open>The byte stream\<close>

text \<open>
  What a \<open>load\<close> handler sees of a file: the bytes not yet read and the sticky error. Reading past the
  end returns zeros and sets the error, as \<open>qemu_peek_byte\<close> and \<open>qemu_fill_buffer\<close> do.
\<close>

record rstream =
  rs_bytes :: "u8 list"
  rs_error :: int

definition rs_fail :: "rstream \<Rightarrow> rstream" where
  "rs_fail r = (if rs_error r = 0 then r\<lparr>rs_error := - EIO\<rparr> else r)"

definition st_get_byte :: "rstream \<Rightarrow> u8 \<times> rstream" where
  "st_get_byte r = (case rs_bytes r of [] \<Rightarrow> (0, rs_fail r) | b # bs \<Rightarrow> (b, r\<lparr>rs_bytes := bs\<rparr>))"

definition st_get_buffer :: "rstream \<Rightarrow> nat \<Rightarrow> u8 list \<times> rstream" where
  "st_get_buffer r n =
     (take n (rs_bytes r),
      (if n \<le> length (rs_bytes r) then r\<lparr>rs_bytes := drop n (rs_bytes r)\<rparr>
       else rs_fail (r\<lparr>rs_bytes := []\<rparr>)))"

definition st_get_be16 :: "rstream \<Rightarrow> u32 \<times> rstream" where
  "st_get_be16 r =
     (let (b1, r1) = st_get_byte r; (b0, r2) = st_get_byte r1
      in (push_bit 8 (ucast b1) OR ucast b0, r2))"

definition st_get_be32 :: "rstream \<Rightarrow> u32 \<times> rstream" where
  "st_get_be32 r =
     (let (b3, r1) = st_get_byte r; (b2, r2) = st_get_byte r1;
          (b1, r3) = st_get_byte r2; (b0, r4) = st_get_byte r3
      in (push_bit 24 (ucast b3) OR push_bit 16 (ucast b2) OR push_bit 8 (ucast b1) OR ucast b0, r4))"

definition st_get_be64 :: "rstream \<Rightarrow> u64 \<times> rstream" where
  "st_get_be64 r =
     (let (hi, r1) = st_get_be32 r; (lo, r2) = st_get_be32 r1
      in (push_bit 32 (ucast hi) OR ucast lo, r2))"

definition be16_bytes :: "u32 \<Rightarrow> u8 list" where
  "be16_bytes v = [ucast (drop_bit 8 v), ucast v]"

definition be32_bytes :: "u32 \<Rightarrow> u8 list" where
  "be32_bytes v = [ucast (drop_bit 24 v), ucast (drop_bit 16 v), ucast (drop_bit 8 v), ucast v]"

definition be64_bytes :: "u64 \<Rightarrow> u8 list" where
  "be64_bytes v = be32_bytes (ucast (drop_bit 32 v)) @ be32_bytes (ucast v)"

lemma length_be_bytes [simp]:
  "length (be16_bytes v) = 2" "length (be32_bytes v) = 4" "length (be64_bytes w) = 8"
  by (simp_all add: be16_bytes_def be32_bytes_def be64_bytes_def)

named_theorems stream_get "reading back what was put at the front of the stream"

lemma get_byte_Cons [stream_get]: "st_get_byte \<lparr>rs_bytes = b # bs, rs_error = e\<rparr> = (b, \<lparr>rs_bytes = bs, rs_error = e\<rparr>)"
  by (simp add: st_get_byte_def)

lemma get_buffer_append [stream_get]:
  "length xs = n \<Longrightarrow>
   st_get_buffer \<lparr>rs_bytes = xs @ bs, rs_error = e\<rparr> n = (xs, \<lparr>rs_bytes = bs, rs_error = e\<rparr>)"
  by (simp add: st_get_buffer_def)

lemma get_buffer_split:
  assumes "k \<le> n" and "k \<le> length (rs_bytes r)"
  shows "take k (rs_bytes r) @ fst (st_get_buffer (r\<lparr>rs_bytes := drop k (rs_bytes r)\<rparr>) (n - k)) =
           fst (st_get_buffer r n)"
    and "snd (st_get_buffer (r\<lparr>rs_bytes := drop k (rs_bytes r)\<rparr>) (n - k)) = snd (st_get_buffer r n)"
proof -
  have "take n (rs_bytes r) = take k (rs_bytes r) @ take (n - k) (drop k (rs_bytes r))"
    using assms take_add [of k "n - k" "rs_bytes r"] by simp
  then show "take k (rs_bytes r) @ fst (st_get_buffer (r\<lparr>rs_bytes := drop k (rs_bytes r)\<rparr>) (n - k)) =
           fst (st_get_buffer r n)"
    by (simp add: st_get_buffer_def)
  show "snd (st_get_buffer (r\<lparr>rs_bytes := drop k (rs_bytes r)\<rparr>) (n - k)) = snd (st_get_buffer r n)"
    using assms by (auto simp: st_get_buffer_def)
qed

lemma get_buffer_fail:
  "length (rs_bytes r) < n \<Longrightarrow> st_get_buffer (rs_fail r) n = st_get_buffer r n"
  by (auto simp: st_get_buffer_def rs_fail_def)

lemma get_be16_append [stream_get]:
  "st_get_be16 \<lparr>rs_bytes = be16_bytes (ucast (v :: u16)) @ bs, rs_error = e\<rparr> =
     (ucast v, \<lparr>rs_bytes = bs, rs_error = e\<rparr>)"
proof -
  have "push_bit 8 (ucast (ucast (drop_bit 8 (ucast v :: u32)) :: u8)) OR
        ucast (ucast (ucast v :: u32) :: u8) = (ucast v :: u32)"
    by (rule bit_word_eqI) (auto simp: bit_simps dest: bit_imp_le_length)
  then show ?thesis by (simp add: st_get_be16_def be16_bytes_def stream_get)
qed

lemma get_be32_append [stream_get]:
  "st_get_be32 \<lparr>rs_bytes = be32_bytes v @ bs, rs_error = e\<rparr> = (v, \<lparr>rs_bytes = bs, rs_error = e\<rparr>)"
  by (simp add: st_get_be32_def be32_bytes_def stream_get bit_split)

lemma get_be64_append [stream_get]:
  "st_get_be64 \<lparr>rs_bytes = be64_bytes v @ bs, rs_error = e\<rparr> = (v, \<lparr>rs_bytes = bs, rs_error = e\<rparr>)"
  by (simp add: st_get_be64_def be64_bytes_def stream_get bit_split)

section \<open>Structures described by field tables\<close>

text \<open>
  A \<open>QField\<close> names the type and the offset of a field; here the offset is the pair of functions that
  read and write the field of the record that models the structure. A buffer field always carries
  its size, so the malformed tables that make \<open>qemu_put_struct\<close> exit cannot be written.
\<close>

datatype (dead 's) QField =
    QFIELD_BYTE "'s \<Rightarrow> u8" "u8 \<Rightarrow> 's \<Rightarrow> 's"
  | QFIELD_INT16 "'s \<Rightarrow> u16" "u16 \<Rightarrow> 's \<Rightarrow> 's"
  | QFIELD_INT32 "'s \<Rightarrow> u32" "u32 \<Rightarrow> 's \<Rightarrow> 's"
  | QFIELD_INT64 "'s \<Rightarrow> u64" "u64 \<Rightarrow> 's \<Rightarrow> 's"
  | QFIELD_BUFFER nat "'s \<Rightarrow> u8 list" "u8 list \<Rightarrow> 's \<Rightarrow> 's"

fun qemu_put_struct :: "'s QField list \<Rightarrow> 's \<Rightarrow> u8 list" where
  "qemu_put_struct [] s = []"
| "qemu_put_struct (QFIELD_BYTE g p # fs) s = [g s] @ qemu_put_struct fs s"
| "qemu_put_struct (QFIELD_INT16 g p # fs) s = be16_bytes (ucast (g s)) @ qemu_put_struct fs s"
| "qemu_put_struct (QFIELD_INT32 g p # fs) s = be32_bytes (g s) @ qemu_put_struct fs s"
| "qemu_put_struct (QFIELD_INT64 g p # fs) s = be64_bytes (g s) @ qemu_put_struct fs s"
| "qemu_put_struct (QFIELD_BUFFER n g p # fs) s = take n (g s) @ qemu_put_struct fs s"

fun qemu_get_struct :: "'s QField list \<Rightarrow> rstream \<Rightarrow> 's \<Rightarrow> int \<times> 's \<times> rstream" where
  "qemu_get_struct [] r s = (0, s, r)"
| "qemu_get_struct (QFIELD_BYTE g p # fs) r s =
     (let (v, r1) = st_get_byte r in qemu_get_struct fs r1 (p v s))"
| "qemu_get_struct (QFIELD_INT16 g p # fs) r s =
     (let (v, r1) = st_get_be16 r in qemu_get_struct fs r1 (p (ucast v) s))"
| "qemu_get_struct (QFIELD_INT32 g p # fs) r s =
     (let (v, r1) = st_get_be32 r in qemu_get_struct fs r1 (p v s))"
| "qemu_get_struct (QFIELD_INT64 g p # fs) r s =
     (let (v, r1) = st_get_be64 r in qemu_get_struct fs r1 (p v s))"
| "qemu_get_struct (QFIELD_BUFFER n g p # fs) r s =
     (let (bs, r1) = st_get_buffer r n; s1 = p (bs @ drop (length bs) (g s)) s
      in if length bs \<noteq> n then (-1, s1, r1) else qemu_get_struct fs r1 s1)"

text \<open>One field copied from one structure to another, and all the fields of a table.\<close>

fun copy_field :: "'s \<Rightarrow> 's QField \<Rightarrow> 's \<Rightarrow> 's" where
  "copy_field s (QFIELD_BYTE g p) t = p (g s) t"
| "copy_field s (QFIELD_INT16 g p) t = p (g s) t"
| "copy_field s (QFIELD_INT32 g p) t = p (g s) t"
| "copy_field s (QFIELD_INT64 g p) t = p (g s) t"
| "copy_field s (QFIELD_BUFFER n g p) t = p (g s) t"

fun copy_fields :: "'s QField list \<Rightarrow> 's \<Rightarrow> 's \<Rightarrow> 's" where
  "copy_fields [] s t = t"
| "copy_fields (f # fs) s t = copy_fields fs s (copy_field s f t)"

text \<open>
  Every buffer field of a table has the size its entry says, in every state (the C array has a fixed
  size). Reading a structure back copies exactly the fields of the table.
\<close>

fun field_sized :: "'s QField \<Rightarrow> bool" where
  "field_sized (QFIELD_BUFFER n g p) \<longleftrightarrow> (\<forall>s. length (g s) = n)"
| "field_sized _ \<longleftrightarrow> True"

lemma get_put_struct [stream_get]:
  "list_all field_sized fs \<Longrightarrow>
   qemu_get_struct fs \<lparr>rs_bytes = qemu_put_struct fs s @ bs, rs_error = e\<rparr> t =
     (0, copy_fields fs s t, \<lparr>rs_bytes = bs, rs_error = e\<rparr>)"
proof (induction fs arbitrary: t)
  case Nil
  then show ?case by simp
next
  case (Cons f fs)
  then show ?case by (cases f) (simp_all add: stream_get bit_split)
qed

section \<open>Sequences of items\<close>

text \<open>
  The save functions of the devices write bytes, big-endian integers and buffers one after the other,
  and their load functions read items of the same shapes back in the same order.
\<close>

datatype item = Byte u8 | Be16 u32 | Be32 u32 | Be64 u64 | Buffer "u8 list"

fun put_item :: "'b qemu_file_ops \<Rightarrow> item \<Rightarrow> 'b QEMUFile \<Rightarrow> 'b QEMUFile" where
  "put_item ops (Byte v) f = qemu_put_byte ops f v"
| "put_item ops (Be16 v) f = qemu_put_be16 ops f v"
| "put_item ops (Be32 v) f = qemu_put_be32 ops f v"
| "put_item ops (Be64 v) f = qemu_put_be64 ops f v"
| "put_item ops (Buffer bs) f = qemu_put_buffer ops f bs"

fun item_bytes :: "item \<Rightarrow> u8 list" where
  "item_bytes (Byte v) = [v]"
| "item_bytes (Be16 v) = be16_bytes v"
| "item_bytes (Be32 v) = be32_bytes v"
| "item_bytes (Be64 v) = be64_bytes v"
| "item_bytes (Buffer bs) = bs"

text \<open>Reading an item of the shape of a given one.\<close>

fun get_item :: "'b qemu_file_ops \<Rightarrow> item \<Rightarrow> 'b QEMUFile \<Rightarrow> (item \<times> 'b QEMUFile) res" where
  "get_item ops (Byte _) f = res_bind (qemu_get_byte ops f) (\<lambda>(v, f'). Inr (Byte v, f'))"
| "get_item ops (Be16 _) f = res_bind (qemu_get_be16 ops f) (\<lambda>(v, f'). Inr (Be16 v, f'))"
| "get_item ops (Be32 _) f = res_bind (qemu_get_be32 ops f) (\<lambda>(v, f'). Inr (Be32 v, f'))"
| "get_item ops (Be64 _) f = res_bind (qemu_get_be64 ops f) (\<lambda>(v, f'). Inr (Be64 v, f'))"
| "get_item ops (Buffer bs) f = res_bind (qemu_get_buffer ops f (length bs)) (\<lambda>(v, f'). Inr (Buffer v, f'))"

fun get_items :: "'b qemu_file_ops \<Rightarrow> item list \<Rightarrow> 'b QEMUFile \<Rightarrow> (item list \<times> 'b QEMUFile) res" where
  "get_items ops [] f = Inr ([], f)"
| "get_items ops (i # is) f = res_bind (get_item ops i f) (\<lambda>(j, f').
     res_bind (get_items ops is f') (\<lambda>(js, f''). Inr (j # js, f'')))"

text \<open>An item that survives: 16-bit integers fit, buffers are not longer than the one of the file.\<close>

fun item_ok :: "item \<Rightarrow> bool" where
  "item_ok (Be16 v) \<longleftrightarrow> ucast (ucast v :: u16) = v"
| "item_ok (Buffer bs) \<longleftrightarrow> length bs \<le> IO_BUF_SIZE"
| "item_ok _ \<longleftrightarrow> True"

section \<open>Refinement: the buffered file is the byte stream\<close>

subsection \<open>Writing\<close>

text \<open>
  A sink accepts every byte it is given. \<open>contents\<close> is what the backend holds; the bytes of a file
  are those of the backend followed by the buffered ones.
\<close>

definition file_bytes :: "('b \<Rightarrow> u8 list) \<Rightarrow> 'b QEMUFile \<Rightarrow> u8 list" where
  "file_bytes contents f = contents (f_opaque f) @ window (f_buf f) 0 (f_buf_index f)"

definition writer_ok :: "'b QEMUFile \<Rightarrow> bool" where
  "writer_ok f \<longleftrightarrow> f_buf_index f < IO_BUF_SIZE \<and> f_last_error f = 0"

locale file_sink =
  fixes ops :: "'b qemu_file_ops"
    and contents :: "'b \<Rightarrow> u8 list"
    and put :: "'b \<Rightarrow> u8 list \<Rightarrow> int \<Rightarrow> int \<times> 'b"
  assumes put_op: "put_buffer ops = Some put"
    and put_all: "fst (put b bs p) = int (length bs)"
    and put_appends: "contents (snd (put b bs p)) = contents b @ bs"
begin

lemma fflush_bytes:
  assumes "f_last_error f = 0"
  shows "contents (f_opaque (qemu_fflush ops f)) = file_bytes contents f"
    and "f_buf_index (qemu_fflush ops f) = 0"
    and "f_last_error (qemu_fflush ops f) = 0"
proof -
  obtain n b where nb: "put (f_opaque f) (window (f_buf f) 0 (f_buf_index f)) (f_pos f) = (n, b)"
    by fastforce
  have n: "n = int (f_buf_index f)"
    using put_all [of "f_opaque f" "window (f_buf f) 0 (f_buf_index f)" "f_pos f"] nb by simp
  have b: "contents b = file_bytes contents f"
    using put_appends [of "f_opaque f" "window (f_buf f) 0 (f_buf_index f)" "f_pos f"] nb
    by (simp add: file_bytes_def)
  show "contents (f_opaque (qemu_fflush ops f)) = file_bytes contents f"
    "f_buf_index (qemu_fflush ops f) = 0" "f_last_error (qemu_fflush ops f) = 0"
    using assms nb n b by (auto simp: qemu_fflush_def put_op file_bytes_def)
qed

lemma flush_when_full:
  assumes "f_last_error f = 0" and "f_buf_index f \<le> IO_BUF_SIZE"
  shows "writer_ok (if f_buf_index f = IO_BUF_SIZE then qemu_fflush ops f else f)"
    and "file_bytes contents (if f_buf_index f = IO_BUF_SIZE then qemu_fflush ops f else f) =
         file_bytes contents f"
  using assms fflush_bytes [OF assms(1)]
  by (auto simp: writer_ok_def file_bytes_def IO_BUF_SIZE_def)

lemma put_chunk_bytes:
  assumes "writer_ok f" and "f_buf_index f + length bs \<le> IO_BUF_SIZE"
  shows "writer_ok (put_chunk ops f bs)"
    and "file_bytes contents (put_chunk ops f bs) = file_bytes contents f @ bs"
proof -
  let ?f1 = "f\<lparr>f_buf := blit (f_buf f) (f_buf_index f) bs,
               f_bytes_xfer := f_bytes_xfer f + int (length bs),
               f_buf_index := f_buf_index f + length bs\<rparr>"
  have e: "f_last_error ?f1 = 0" "f_buf_index ?f1 \<le> IO_BUF_SIZE"
    using assms by (simp_all add: writer_ok_def)
  have b: "file_bytes contents ?f1 = file_bytes contents f @ bs"
    using window_blit_append [of "f_buf f" 0 "f_buf_index f" bs] by (simp add: file_bytes_def)
  have p: "put_chunk ops f bs = (if f_buf_index ?f1 = IO_BUF_SIZE then qemu_fflush ops ?f1 else ?f1)"
    by (simp add: put_chunk_def Let_def)
  show "writer_ok (put_chunk ops f bs)"
    "file_bytes contents (put_chunk ops f bs) = file_bytes contents f @ bs"
    unfolding p using flush_when_full [OF e] b by auto
qed

lemma put_byte_bytes:
  assumes "writer_ok f"
  shows "writer_ok (qemu_put_byte ops f v)"
    and "file_bytes contents (qemu_put_byte ops f v) = file_bytes contents f @ [v]"
proof -
  have "qemu_put_byte ops f v = put_chunk ops f [v]"
    using assms by (simp add: qemu_put_byte_def put_chunk_def writer_ok_def Let_def fun_upd_blit)
  then show "writer_ok (qemu_put_byte ops f v)"
    "file_bytes contents (qemu_put_byte ops f v) = file_bytes contents f @ [v]"
    using put_chunk_bytes [OF assms, of "[v]"] assms by (simp_all add: writer_ok_def)
qed

lemma put_loop_bytes:
  assumes "writer_ok f"
  shows "writer_ok (put_buffer_loop ops f bs) \<and>
         file_bytes contents (put_buffer_loop ops f bs) = file_bytes contents f @ bs"
  using assms
proof (induction "length bs" arbitrary: f bs rule: less_induct)
  case less
  define l where "l = min (IO_BUF_SIZE - f_buf_index f) (length bs)"
  have i: "f_buf_index f < IO_BUF_SIZE" using less.prems by (simp add: writer_ok_def)
  have c: "writer_ok (put_chunk ops f (take l bs))"
    "file_bytes contents (put_chunk ops f (take l bs)) = file_bytes contents f @ take l bs"
    using put_chunk_bytes [OF less.prems, of "take l bs"] i by (auto simp: l_def)
  show ?case
  proof (cases "bs = []")
    case True
    then show ?thesis using less.prems by (simp add: put_buffer_loop.simps)
  next
    case False
    have "put_buffer_loop ops f bs = put_buffer_loop ops (put_chunk ops f (take l bs)) (drop l bs)"
      using False i c(1)
      by (simp add: put_buffer_loop.simps [of ops f bs] l_def [symmetric] qemu_file_get_error_def
          writer_ok_def)
    moreover have "length (drop l bs) < length bs" using False i by (simp add: l_def)
    ultimately show ?thesis using less.hyps [OF _ c(1), of "drop l bs"] c(2) by simp
  qed
qed

lemma put_buffer_bytes:
  assumes "writer_ok f"
  shows "writer_ok (qemu_put_buffer ops f bs)"
    and "file_bytes contents (qemu_put_buffer ops f bs) = file_bytes contents f @ bs"
  using put_loop_bytes [OF assms, of bs] assms by (auto simp: qemu_put_buffer_def writer_ok_def)

lemma put_be32_bytes:
  assumes "writer_ok f"
  shows "writer_ok (qemu_put_be32 ops f v)"
    and "file_bytes contents (qemu_put_be32 ops f v) = file_bytes contents f @ be32_bytes v"
  using assms by (simp_all add: qemu_put_be32_def Let_def be32_bytes_def put_byte_bytes)

lemma put_be64_bytes:
  assumes "writer_ok f"
  shows "writer_ok (qemu_put_be64 ops f w)"
    and "file_bytes contents (qemu_put_be64 ops f w) = file_bytes contents f @ be64_bytes w"
  using assms by (simp_all add: qemu_put_be64_def be64_bytes_def put_be32_bytes)

lemma put_be16_bytes:
  assumes "writer_ok f"
  shows "writer_ok (qemu_put_be16 ops f v)"
    and "file_bytes contents (qemu_put_be16 ops f v) = file_bytes contents f @ be16_bytes v"
  using assms by (simp_all add: qemu_put_be16_def be16_bytes_def put_byte_bytes)

lemmas put_bytes = put_byte_bytes put_buffer_bytes put_be16_bytes put_be32_bytes put_be64_bytes

lemma put_items_bytes:
  assumes "writer_ok f"
  shows "writer_ok (fold (put_item ops) is f) \<and>
    file_bytes contents (fold (put_item ops) is f) = file_bytes contents f @ concat (map item_bytes is)"
  using assms
proof (induction "is" arbitrary: f)
  case (Cons i "is")
  have "writer_ok (put_item ops i f)" "file_bytes contents (put_item ops i f) = file_bytes contents f @ item_bytes i"
    using Cons.prems by (cases i; simp add: put_bytes)+
  then show ?case using Cons.IH by simp
qed simp

end

subsection \<open>Reading\<close>

text \<open>
  A source hands out the bytes it holds in order, some of them at each call, and returns 0 only at
  the end (or when nothing was asked for). The abstraction of a file is the stream of its buffered
  bytes followed by those of the backend.
\<close>

definition buffered :: "'b QEMUFile \<Rightarrow> u8 list" where
  "buffered f = window (f_buf f) (f_buf_index f) (f_buf_size f - f_buf_index f)"

definition stream_of :: "('b \<Rightarrow> u8 list) \<Rightarrow> 'b QEMUFile \<Rightarrow> rstream" where
  "stream_of remaining f = \<lparr>rs_bytes = buffered f @ remaining (f_opaque f), rs_error = f_last_error f\<rparr>"

definition reader_ok :: "'b QEMUFile \<Rightarrow> bool" where
  "reader_ok f \<longleftrightarrow> f_buf_index f \<le> f_buf_size f \<and> f_buf_size f \<le> IO_BUF_SIZE"

locale file_source =
  fixes ops :: "'b qemu_file_ops"
    and remaining :: "'b \<Rightarrow> u8 list"
    and get :: "'b \<Rightarrow> int \<Rightarrow> nat \<Rightarrow> int \<times> u8 list \<times> 'b"
  assumes get_op: "get_buffer ops = Some get"
    and read_only: "put_buffer ops = None"
    and get_count: "get b p n = (len, bs, b') \<Longrightarrow> len = int (length bs) \<and> length bs \<le> n"
    and get_next: "get b p n = (len, bs, b') \<Longrightarrow> remaining b = bs @ remaining b'"
    and get_end: "get b p n = (0, bs, b') \<Longrightarrow> 0 < n \<Longrightarrow> remaining b = []"
begin

lemma fill_buffer:
  assumes ok: "reader_ok f" and room: "length (buffered f) < IO_BUF_SIZE"
  obtains f' where "qemu_fill_buffer ops f = Inr f'" and "reader_ok f'" and "f_buf_index f' = 0"
    and "remaining (f_opaque f) = [] \<Longrightarrow>
         buffered f' = buffered f \<and> stream_of remaining f' = rs_fail (stream_of remaining f)"
    and "remaining (f_opaque f) \<noteq> [] \<Longrightarrow>
         length (buffered f) < length (buffered f') \<and> stream_of remaining f' = stream_of remaining f"
proof -
  let ?p = "f_buf_size f - f_buf_index f"
  obtain len bs b where g: "get (f_opaque f) (f_pos f) (IO_BUF_SIZE - ?p) = (len, bs, b)"
    by (cases "get (f_opaque f) (f_pos f) (IO_BUF_SIZE - ?p)") auto
  define f2 where "f2 = f\<lparr>f_buf := blit (blit (f_buf f) 0 (buffered f)) ?p bs,
    f_buf_index := 0, f_buf_size := ?p, f_opaque := b\<rparr>"
  define f' where "f' = (if len > 0 then f2\<lparr>f_buf_size := ?p + nat len, f_pos := f_pos f2 + len\<rparr>
    else qemu_file_set_error f2 (- EIO))"
  have len: "len = int (length bs)" "length bs \<le> IO_BUF_SIZE - ?p"
    using get_count [OF g] by auto
  have rem: "remaining (f_opaque f) = bs @ remaining b" using get_next [OF g] .
  have p: "?p < IO_BUF_SIZE" using room by (simp add: buffered_def)
  have fill: "qemu_fill_buffer ops f = Inr f'"
    using g len by (auto simp: qemu_fill_buffer_def qemu_file_is_writable_def read_only get_op
        f'_def f2_def buffered_def Let_def qemu_file_set_error_def)
  have buf: "window (f_buf f2) 0 (?p + length bs) = buffered f @ bs"
    using window_blit_append [of "blit (f_buf f) 0 (buffered f)" 0 ?p bs]
      window_blit_same [of "f_buf f" 0 "buffered f"]
    by (simp add: f2_def buffered_def)
  show ?thesis
  proof (rule that [OF fill])
    show "reader_ok f'" "f_buf_index f' = 0"
      using len p by (auto simp: f'_def f2_def reader_ok_def qemu_file_set_error_def)
  next
    assume e: "remaining (f_opaque f) = []"
    then have "bs = []" "len = 0" using rem len by auto
    moreover from this have "window (f_buf f2) 0 ?p = buffered f" using buf by simp
    ultimately show "buffered f' = buffered f \<and> stream_of remaining f' = rs_fail (stream_of remaining f)"
      using e rem by (auto simp: f'_def f2_def stream_of_def buffered_def rs_fail_def qemu_file_set_error_def)
  next
    assume e: "remaining (f_opaque f) \<noteq> []"
    then have "len \<noteq> 0" using get_end [of "f_opaque f" "f_pos f" "IO_BUF_SIZE - ?p" bs b] g p by auto
    then have "0 < len" using len by simp
    then have "buffered f' = buffered f @ bs" and "f_opaque f' = b" and "f_last_error f' = f_last_error f"
      using buf len by (auto simp: f'_def buffered_def f2_def)
    then show "length (buffered f) < length (buffered f') \<and> stream_of remaining f' = stream_of remaining f"
      using \<open>0 < len\<close> len rem by (auto simp: stream_of_def)
  qed
qed

lemma skip_stream:
  assumes "reader_ok f" and "n \<le> length (buffered f)"
  shows "reader_ok (qemu_file_skip f n)"
    and "buffered (qemu_file_skip f n) = drop n (buffered f)"
    and "stream_of remaining (qemu_file_skip f n) =
         (stream_of remaining f)\<lparr>rs_bytes := drop n (rs_bytes (stream_of remaining f))\<rparr>"
proof -
  have b: "buffered (qemu_file_skip f n) = drop n (buffered f)"
    using assms by (auto simp: qemu_file_skip_def buffered_def window_def reader_ok_def drop_map add.commute)
  show "reader_ok (qemu_file_skip f n)"
    using assms by (auto simp: qemu_file_skip_def reader_ok_def buffered_def)
  show "buffered (qemu_file_skip f n) = drop n (buffered f)" using b .
  show "stream_of remaining (qemu_file_skip f n) =
         (stream_of remaining f)\<lparr>rs_bytes := drop n (rs_bytes (stream_of remaining f))\<rparr>"
    using assms b by (simp add: stream_of_def qemu_file_skip_def)
qed

lemma get_byte_stream:
  assumes ok: "reader_ok f"
  shows "\<exists>f'. qemu_get_byte ops f = Inr (fst (st_get_byte (stream_of remaining f)), f') \<and>
    reader_ok f' \<and> stream_of remaining f' = snd (st_get_byte (stream_of remaining f))"
proof -
  have w: "\<not> qemu_file_is_writable ops" by (simp add: qemu_file_is_writable_def read_only)
  have hit: "\<exists>f'. qemu_get_byte ops f = Inr (fst (st_get_byte (stream_of remaining f1)), f') \<and>
    reader_ok f' \<and> stream_of remaining f' = snd (st_get_byte (stream_of remaining f1))"
    if o: "reader_ok f1" and b: "buffered f1 \<noteq> []"
      and q: "qemu_peek_byte ops f 0 = Inr (f_buf f1 (f_buf_index f1), f1)" for f1
  proof -
    have "buffered f1 = f_buf f1 (f_buf_index f1) # tl (buffered f1)"
      using b by (cases "f_buf_size f1 - f_buf_index f1") (auto simp: buffered_def window_Suc)
    then have "rs_bytes (stream_of remaining f1) = f_buf f1 (f_buf_index f1) #
        tl (buffered f1) @ remaining (f_opaque f1)"
      by (simp add: stream_of_def)
    then show ?thesis
      using skip_stream [OF o, of 1] b q by (auto simp: qemu_get_byte_def st_get_byte_def Suc_le_eq)
  qed
  show ?thesis
  proof (cases "buffered f = []")
    case False
    then have "qemu_peek_byte ops f 0 = Inr (f_buf f (f_buf_index f), f)"
      using w by (auto simp: qemu_peek_byte_def buffered_def window_def)
    then show ?thesis using hit [OF ok False] by blast
  next
    case True
    obtain f' where f': "qemu_fill_buffer ops f = Inr f'" "reader_ok f'" "f_buf_index f' = 0"
      "remaining (f_opaque f) = [] \<Longrightarrow> buffered f' = buffered f \<and>
         stream_of remaining f' = rs_fail (stream_of remaining f)"
      "remaining (f_opaque f) \<noteq> [] \<Longrightarrow> length (buffered f) < length (buffered f') \<and>
         stream_of remaining f' = stream_of remaining f"
      using fill_buffer [OF ok] True by (auto simp: IO_BUF_SIZE_def)
    have size: "f_buf_size f \<le> f_buf_index f" using True by (auto simp: buffered_def window_def)
    show ?thesis
    proof (cases "remaining (f_opaque f) = []")
      case False
      then have ne: "buffered f' \<noteq> []" using f'(5) by auto
      then have "qemu_peek_byte ops f 0 = Inr (f_buf f' (f_buf_index f'), f')"
        using w size f'(1,3) by (auto simp: qemu_peek_byte_def buffered_def)
      then show ?thesis using hit [OF f'(2) ne] f'(5) [OF False] by simp
    next
      case e: True
      then have "buffered f' = []" "stream_of remaining f' = rs_fail (stream_of remaining f)"
        using f'(4) True by auto
      moreover from this have "f_buf_size f' = 0" using f'(3) by (simp add: buffered_def window_def)
      moreover from this have "qemu_get_byte ops f = Inr (0, f')"
        using w size f'(1,3) by (simp add: qemu_get_byte_def qemu_peek_byte_def qemu_file_skip_def)
      ultimately show ?thesis
        using f'(2) True e by (auto simp: st_get_byte_def stream_of_def [of _ f])
    qed
  qed
qed

lemma get_be32_stream:
  assumes "reader_ok f"
  shows "\<exists>f'. qemu_get_be32 ops f = Inr (fst (st_get_be32 (stream_of remaining f)), f') \<and>
    reader_ok f' \<and> stream_of remaining f' = snd (st_get_be32 (stream_of remaining f))"
proof -
  obtain f1 where 1: "qemu_get_byte ops f = Inr (fst (st_get_byte (stream_of remaining f)), f1)"
    "reader_ok f1" "stream_of remaining f1 = snd (st_get_byte (stream_of remaining f))"
    using get_byte_stream [OF assms] by blast
  obtain f2 where 2: "qemu_get_byte ops f1 = Inr (fst (st_get_byte (stream_of remaining f1)), f2)"
    "reader_ok f2" "stream_of remaining f2 = snd (st_get_byte (stream_of remaining f1))"
    using get_byte_stream [OF 1(2)] by blast
  obtain f3 where 3: "qemu_get_byte ops f2 = Inr (fst (st_get_byte (stream_of remaining f2)), f3)"
    "reader_ok f3" "stream_of remaining f3 = snd (st_get_byte (stream_of remaining f2))"
    using get_byte_stream [OF 2(2)] by blast
  obtain f4 where 4: "qemu_get_byte ops f3 = Inr (fst (st_get_byte (stream_of remaining f3)), f4)"
    "reader_ok f4" "stream_of remaining f4 = snd (st_get_byte (stream_of remaining f3))"
    using get_byte_stream [OF 3(2)] by blast
  show ?thesis
    using 1 2 3 4 by (simp add: qemu_get_be32_def st_get_be32_def split_beta)
qed

lemma get_be16_stream:
  assumes "reader_ok f"
  shows "\<exists>f'. qemu_get_be16 ops f = Inr (fst (st_get_be16 (stream_of remaining f)), f') \<and>
    reader_ok f' \<and> stream_of remaining f' = snd (st_get_be16 (stream_of remaining f))"
proof -
  obtain f1 where 1: "qemu_get_byte ops f = Inr (fst (st_get_byte (stream_of remaining f)), f1)"
    "reader_ok f1" "stream_of remaining f1 = snd (st_get_byte (stream_of remaining f))"
    using get_byte_stream [OF assms] by blast
  show ?thesis
    using get_byte_stream [OF 1(2)] 1 by (auto simp: qemu_get_be16_def st_get_be16_def split_beta)
qed

lemma get_be64_stream:
  assumes "reader_ok f"
  shows "\<exists>f'. qemu_get_be64 ops f = Inr (fst (st_get_be64 (stream_of remaining f)), f') \<and>
    reader_ok f' \<and> stream_of remaining f' = snd (st_get_be64 (stream_of remaining f))"
proof -
  obtain f1 where 1: "qemu_get_be32 ops f = Inr (fst (st_get_be32 (stream_of remaining f)), f1)"
    "reader_ok f1" "stream_of remaining f1 = snd (st_get_be32 (stream_of remaining f))"
    using get_be32_stream [OF assms] by blast
  show ?thesis
    using get_be32_stream [OF 1(2)] 1 by (auto simp: qemu_get_be64_def st_get_be64_def split_beta)
qed

lemma peek_stream:
  assumes ok: "reader_ok f" and n: "0 < n" "n \<le> IO_BUF_SIZE"
  obtains f1 where "qemu_peek_buffer ops f n 0 = Inr (take n (buffered f1), f1)" and "reader_ok f1"
    and "n \<le> length (buffered f1) \<or> buffered f1 \<noteq> [] \<and> stream_of remaining f1 = stream_of remaining f \<or>
         remaining (f_opaque f1) = [] \<and> stream_of remaining f1 = rs_fail (stream_of remaining f)"
    and "rs_bytes (stream_of remaining f1) = rs_bytes (stream_of remaining f)"
    and "n \<le> length (buffered f1) \<Longrightarrow> stream_of remaining f1 = stream_of remaining f"
proof -
  have w: "\<not> qemu_file_is_writable ops" by (simp add: qemu_file_is_writable_def read_only)
  have peek: "(if f_buf_size f1 \<le> f_buf_index f1 then Inr ([], f1)
      else Inr (window (f_buf f1) (f_buf_index f1) (min n (f_buf_size f1 - f_buf_index f1)), f1)) =
      Inr (take n (buffered f1), f1)" for f1 :: "'b QEMUFile"
    by (auto simp: buffered_def)
  show ?thesis
  proof (cases "n \<le> length (buffered f)")
    case True
    then have "\<not> int (f_buf_size f) - int (f_buf_index f) < int n"
      using n by (auto simp: buffered_def)
    then have "qemu_peek_buffer ops f n 0 = Inr (take n (buffered f), f)"
      using w peek [of f] n by (simp add: qemu_peek_buffer_def buffered_def Let_def)
    then show ?thesis using that [of f] ok True by auto
  next
    case False
    then have room: "length (buffered f) < IO_BUF_SIZE" using n by simp
    obtain f' where f': "qemu_fill_buffer ops f = Inr f'" "reader_ok f'" "f_buf_index f' = 0"
      "remaining (f_opaque f) = [] \<Longrightarrow> buffered f' = buffered f \<and>
         stream_of remaining f' = rs_fail (stream_of remaining f)"
      "remaining (f_opaque f) \<noteq> [] \<Longrightarrow> length (buffered f) < length (buffered f') \<and>
         stream_of remaining f' = stream_of remaining f"
      using fill_buffer [OF ok room] by blast
    have p: "qemu_peek_buffer ops f n 0 = Inr (take n (buffered f'), f')"
      using w peek [of f'] False f'(1) ok
      by (auto simp: qemu_peek_buffer_def buffered_def Let_def reader_ok_def)
    have e: "remaining (f_opaque f') = []" if "remaining (f_opaque f) = []"
      using f'(4) [OF that] that by (auto simp: stream_of_def rs_fail_def split: if_splits)
    show ?thesis
    proof (cases "remaining (f_opaque f) = []")
      case True
      then show ?thesis
        using that [OF p f'(2)] f'(4) [OF True] e [OF True] False by (auto simp: rs_fail_def)
    next
      case r: False
      then have "buffered f' \<noteq> []" using f'(5) by auto
      then show ?thesis using that [OF p f'(2)] f'(5) [OF r] by auto
    qed
  qed
qed

lemma get_buffer_stream:
  assumes "reader_ok f" and "n \<le> IO_BUF_SIZE"
  shows "\<exists>f'. qemu_get_buffer ops f n = Inr (fst (st_get_buffer (stream_of remaining f) n), f') \<and>
    reader_ok f' \<and> stream_of remaining f' = snd (st_get_buffer (stream_of remaining f) n)"
  using assms
proof (induction n arbitrary: f rule: less_induct)
  case (less n)
  show ?case
  proof (cases "n = 0")
    case True
    then show ?thesis using less.prems by (simp add: qemu_get_buffer.simps st_get_buffer_def)
  next
    case False
    then have n0: "0 < n" by simp
    obtain f1 where f1: "qemu_peek_buffer ops f n 0 = Inr (take n (buffered f1), f1)" "reader_ok f1"
      "n \<le> length (buffered f1) \<or> buffered f1 \<noteq> [] \<and> stream_of remaining f1 = stream_of remaining f \<or>
         remaining (f_opaque f1) = [] \<and> stream_of remaining f1 = rs_fail (stream_of remaining f)"
      "rs_bytes (stream_of remaining f1) = rs_bytes (stream_of remaining f)"
      "n \<le> length (buffered f1) \<Longrightarrow> stream_of remaining f1 = stream_of remaining f"
      using peek_stream [OF less.prems(1) n0 less.prems(2)] by blast
    let ?bs = "take n (buffered f1)"
    let ?f2 = "qemu_file_skip f1 (length ?bs)"
    show ?thesis
    proof (cases "buffered f1 = []")
      case True
      then have "qemu_get_buffer ops f n = Inr ([], f1)"
        using f1(1) False by (simp add: qemu_get_buffer.simps)
      then show ?thesis
        using True f1(2-4) n0
        by (auto simp: st_get_buffer_def stream_of_def [of _ f1] rs_fail_def stream_of_def [of _ f] split: if_splits)
    next
      case ne: False
      have le: "length ?bs \<le> length (buffered f1)" by simp
      have "0 < length ?bs" using n0 ne by simp
      then have lt: "n - length ?bs < n" using n0 by linarith
      have io: "n - length ?bs \<le> IO_BUF_SIZE" using less.prems(2) by linarith
      note s2 = skip_stream [OF f1(2) le]
      obtain f' where f': "qemu_get_buffer ops ?f2 (n - length ?bs) =
          Inr (fst (st_get_buffer (stream_of remaining ?f2) (n - length ?bs)), f')"
        "reader_ok f'" "stream_of remaining f' = snd (st_get_buffer (stream_of remaining ?f2) (n - length ?bs))"
        using less.IH [OF lt s2(1) io] by blast
      have "qemu_get_buffer ops f n =
          Inr (?bs @ fst (st_get_buffer (stream_of remaining ?f2) (n - length ?bs)), f')"
        using f1(1) f' False ne by (simp add: qemu_get_buffer.simps [of ops f n])
      moreover have "st_get_buffer (stream_of remaining f1) n = st_get_buffer (stream_of remaining f) n"
        using f1(3,5) get_buffer_fail [of "stream_of remaining f" n] f1(4)
        by (cases "n \<le> length (buffered f1)") (auto simp: stream_of_def [of _ f1])
      moreover have "take (length ?bs) (rs_bytes (stream_of remaining f1)) = ?bs"
        by (auto simp: stream_of_def min_def)
      ultimately show ?thesis
        using f'(2,3) get_buffer_split [of "length ?bs" n "stream_of remaining f1"] s2(3)
        by (auto simp: stream_of_def [of _ f1])
    qed
  qed
qed

lemmas get_streams = get_byte_stream get_be16_stream get_be32_stream get_be64_stream get_buffer_stream

lemma get_item_stream:
  assumes "reader_ok f" and "item_ok i" and "rs_bytes (stream_of remaining f) = item_bytes i @ rest"
  shows "\<exists>f'. get_item ops i f = Inr (i, f') \<and> reader_ok f' \<and>
    stream_of remaining f' = \<lparr>rs_bytes = rest, rs_error = rs_error (stream_of remaining f)\<rparr>"
proof -
  obtain e where s: "stream_of remaining f = \<lparr>rs_bytes = item_bytes i @ rest, rs_error = e\<rparr>"
    using assms(3) by (cases "stream_of remaining f") auto
  show ?thesis
  proof (cases i)
    case (Byte v)
    then show ?thesis using get_byte_stream [OF assms(1)] s by (auto simp: stream_get)
  next
    case (Be16 v)
    then have "v = ucast (ucast v :: u16)" using assms(2) by simp
    then obtain w :: u16 where "v = ucast w" by blast
    then show ?thesis using get_be16_stream [OF assms(1)] s Be16 by (auto simp: stream_get)
  next
    case (Be32 v)
    then show ?thesis using get_be32_stream [OF assms(1)] s by (auto simp: stream_get)
  next
    case (Be64 v)
    then show ?thesis using get_be64_stream [OF assms(1)] s by (auto simp: stream_get)
  next
    case (Buffer v)
    then show ?thesis using get_buffer_stream [OF assms(1), of "length v"] assms(2) s
      by (auto simp: stream_get)
  qed
qed

lemma get_items_stream:
  assumes "reader_ok f" and "list_all item_ok is"
    and "rs_bytes (stream_of remaining f) = concat (map item_bytes is) @ rest"
  shows "\<exists>f'. get_items ops is f = Inr (is, f') \<and> reader_ok f' \<and>
    stream_of remaining f' = \<lparr>rs_bytes = rest, rs_error = rs_error (stream_of remaining f)\<rparr>"
  using assms
proof (induction "is" arbitrary: f)
  case (Cons i "is")
  obtain f1 where f1: "get_item ops i f = Inr (i, f1)" "reader_ok f1"
    "stream_of remaining f1 = \<lparr>rs_bytes = concat (map item_bytes is) @ rest, rs_error = rs_error (stream_of remaining f)\<rparr>"
    using get_item_stream [OF Cons.prems(1), of i "concat (map item_bytes is) @ rest"] Cons.prems(2,3) by auto
  then show ?case using Cons.IH [OF f1(2)] Cons.prems(2) by auto
qed (cases "stream_of remaining f", auto)

end

subsection \<open>The standard I/O backend is a sink and a source\<close>

interpretation stdio_w: file_sink stdio_file_write_ops "\<lambda>fp. fp" stdio_put_buffer
  by unfold_locales (auto simp: stdio_file_write_ops_def stdio_put_buffer_def)

interpretation stdio_r: file_source stdio_file_read_ops "\<lambda>fp. fp" stdio_get_buffer
  by unfold_locales (auto simp: stdio_file_read_ops_def stdio_get_buffer_def min_def split: if_splits)

section \<open>Properties\<close>

lemma put_items_contents:
  fixes bs :: "u8 list" and "is" :: "item list"
  defines "f \<equiv> qemu_fflush stdio_file_write_ops (fold (put_item stdio_file_write_ops) is (qemu_fopen_ops bs))"
  shows "f_opaque f = bs @ concat (map item_bytes is)" "f_buf_index f = 0" "f_last_error f = 0"
proof -
  have "writer_ok (qemu_fopen_ops bs)" "file_bytes (\<lambda>fp. fp) (qemu_fopen_ops bs) = bs"
    by (simp_all add: writer_ok_def qemu_fopen_ops_def file_bytes_def IO_BUF_SIZE_def)
  then have w: "f_last_error (fold (put_item stdio_file_write_ops) is (qemu_fopen_ops bs)) = 0"
    "file_bytes (\<lambda>fp. fp) (fold (put_item stdio_file_write_ops) is (qemu_fopen_ops bs)) =
       bs @ concat (map item_bytes is)"
    using stdio_w.put_items_bytes [of "qemu_fopen_ops bs" "is"] by (auto simp: writer_ok_def)
  show "f_opaque f = bs @ concat (map item_bytes is)" "f_buf_index f = 0" "f_last_error f = 0"
    using stdio_w.fflush_bytes [OF w(1)] w(2) by (simp_all add: f_def)
qed

text \<open>Writing refines appending. Whatever sequence of items is written to a file over the standard I/O backend, across
  any number of flushes of the buffer, the backend holds exactly the bytes of the items in order once the file is flushed,
  nothing is left in the buffer, and no error is recorded.\<close>

theorem put_items_flushed:
  "let f = qemu_fflush stdio_file_write_ops (fold (put_item stdio_file_write_ops) is (qemu_fopen_ops bs)) in
     f_opaque f = bs @ concat (map item_bytes is) \<and> f_buf_index f = 0 \<and> f_last_error f = 0"
  by (simp add: Let_def put_items_contents)

text \<open>C10: Round trip of a file. Items written to a file and flushed are read back, in the same order and with the same
  values, from a file opened on the bytes the backend received, whatever follows them; the reads raise no error and leave
  the rest of the bytes.\<close>

theorem file_roundtrip:
  assumes "list_all item_ok is"
  shows "let w = qemu_fflush stdio_file_write_ops (fold (put_item stdio_file_write_ops) is (qemu_fopen_ops [])) in
    \<exists>f'. get_items stdio_file_read_ops is (qemu_fopen_ops (f_opaque w @ rest)) = Inr (is, f') \<and>
      stream_of (\<lambda>fp. fp) f' = \<lparr>rs_bytes = rest, rs_error = 0\<rparr>"
proof -
  let ?f = "qemu_fopen_ops (concat (map item_bytes is) @ rest)"
  have "reader_ok ?f" "stream_of (\<lambda>fp. fp) ?f = \<lparr>rs_bytes = concat (map item_bytes is) @ rest, rs_error = 0\<rparr>"
    by (simp_all add: reader_ok_def qemu_fopen_ops_def stream_of_def buffered_def)
  then show ?thesis using stdio_r.get_items_stream [of ?f "is" rest] assms
    by (auto simp: Let_def put_items_contents)
qed

theorem file_roundtrip_witness:
  "list_all item_ok [Be32 0x5145564d, Byte 4, Be16 0xBEEF, Buffer [1, 2, 3]] \<and>
   (\<exists>f'. get_items stdio_file_read_ops [Be32 0x5145564d, Byte 4, Be16 0xBEEF, Buffer [1, 2, 3]]
      (qemu_fopen_ops [0x51, 0x45, 0x56, 0x4d, 4, 0xBE, 0xEF, 1, 2, 3, 9]) =
        Inr ([Be32 0x5145564d, Byte 4, Be16 0xBEEF, Buffer [1, 2, 3]], f') \<and>
      stream_of (\<lambda>fp. fp) f' = \<lparr>rs_bytes = [9], rs_error = 0\<rparr>)"
proof -
  let ?is = "[Be32 0x5145564d, Byte 4, Be16 0xBEEF, Buffer [1, 2, 3]]"
  have ok: "list_all item_ok ?is" by (simp add: IO_BUF_SIZE_def)
  have "f_opaque (qemu_fflush stdio_file_write_ops (fold (put_item stdio_file_write_ops) ?is (qemu_fopen_ops [])))
      = [0x51, 0x45, 0x56, 0x4d, 4, 0xBE, 0xEF, 1, 2, 3]"
    using put_items_contents(1) [of ?is "[]"] by (simp add: be32_bytes_def be16_bytes_def)
  then show ?thesis using file_roundtrip [OF ok, of "[9]"] ok by (simp add: Let_def)
qed

text \<open>Reading a buffer refines taking a prefix of the stream, over any backend contents and any buffering state: the
  bytes returned are the next ones of the stream, fewer only at its end, where the error of the file is set.\<close>

theorem get_buffer_refines:
  assumes "reader_ok f" and "n \<le> IO_BUF_SIZE"
  shows "\<exists>f'. qemu_get_buffer stdio_file_read_ops f n = Inr (take n (rs_bytes (stream_of (\<lambda>fp. fp) f)), f') \<and>
    reader_ok f' \<and> rs_bytes (stream_of (\<lambda>fp. fp) f') = drop n (rs_bytes (stream_of (\<lambda>fp. fp) f)) \<and>
    (f_last_error f' \<noteq> f_last_error f \<longrightarrow> length (rs_bytes (stream_of (\<lambda>fp. fp) f)) < n \<and> f_last_error f' = - EIO)"
  using stdio_r.get_buffer_stream [OF assms]
  by (auto simp: st_get_buffer_def Let_def rs_fail_def stream_of_def [of _ f] split: if_splits)
     (auto simp: stream_of_def)

theorem get_buffer_refines_witness:
  "reader_ok (qemu_fopen_ops [7, 8 :: u8]) \<and>
   (\<exists>f'. qemu_get_buffer stdio_file_read_ops (qemu_fopen_ops [7, 8]) 5 = Inr ([7, 8], f'))"
proof -
  have ok: "reader_ok (qemu_fopen_ops [7, 8 :: u8])" by (simp add: reader_ok_def qemu_fopen_ops_def)
  have s: "rs_bytes (stream_of (\<lambda>fp. fp) (qemu_fopen_ops [7, 8 :: u8])) = [7, 8]"
    by (simp add: stream_of_def qemu_fopen_ops_def buffered_def)
  show ?thesis using get_buffer_refines [OF ok, of 5] ok by (auto simp: s IO_BUF_SIZE_def)
qed

text \<open>Structures described by a table of fields survive a save and a load: reading what \<open>qemu_put_struct\<close> wrote with the
  same table copies every field of the saved structure into the structure read into, consumes exactly the bytes written, and
  succeeds.\<close>

theorem put_get_struct:
  assumes "list_all field_sized fs"
  shows "qemu_get_struct fs \<lparr>rs_bytes = qemu_put_struct fs s @ bs, rs_error = e\<rparr> s' =
    (0, copy_fields fs s s', \<lparr>rs_bytes = bs, rs_error = e\<rparr>)"
  by (rule get_put_struct [OF assms])

record sample_regs =
  sr_control :: u32
  sr_flags :: u8
  sr_data :: "nat \<Rightarrow> u8"

definition sample_fields :: "sample_regs QField list" where
  "sample_fields = [QFIELD_INT32 sr_control (\<lambda>v. sr_control_update (\<lambda>_. v)),
     QFIELD_BUFFER 2 (\<lambda>s. window (sr_data s) 0 2) (\<lambda>bs s. s\<lparr>sr_data := blit (sr_data s) 0 bs\<rparr>)]"

theorem put_get_struct_witness:
  "let s = \<lparr>sr_control = 0xCAFE, sr_flags = 1, sr_data = (\<lambda>i. 7)\<rparr>;
       t = \<lparr>sr_control = 0, sr_flags = 2, sr_data = (\<lambda>i. 0)\<rparr> in
   \<exists>t'. qemu_get_struct sample_fields \<lparr>rs_bytes = [0, 0, 0xCA, 0xFE, 7, 7, 5], rs_error = 0\<rparr> t =
     (0, t', \<lparr>rs_bytes = [5], rs_error = 0\<rparr>) \<and> sr_control t' = 0xCAFE \<and> sr_flags t' = 2 \<and> sr_data t' 1 = 7"
proof -
  let ?s = "\<lparr>sr_control = 0xCAFE, sr_flags = 1, sr_data = (\<lambda>i. 7)\<rparr>"
  have "list_all field_sized sample_fields" by (simp add: sample_fields_def)
  moreover have "qemu_put_struct sample_fields ?s = [0, 0, 0xCA, 0xFE, 7, 7]"
    by (simp add: sample_fields_def be32_bytes_def window_def)
  moreover have "copy_fields sample_fields ?s \<lparr>sr_control = 0, sr_flags = 2, sr_data = (\<lambda>i. 0)\<rparr> =
      \<lparr>sr_control = 0xCAFE, sr_flags = 2, sr_data = blit (\<lambda>i. 0) 0 (window (\<lambda>i. 7) 0 2)\<rparr>"
    by (simp add: sample_fields_def)
  ultimately have "qemu_get_struct sample_fields \<lparr>rs_bytes = [0, 0, 0xCA, 0xFE, 7, 7, 5], rs_error = 0\<rparr>
      \<lparr>sr_control = 0, sr_flags = 2, sr_data = (\<lambda>i. 0)\<rparr> =
      (0, \<lparr>sr_control = 0xCAFE, sr_flags = 2, sr_data = blit (\<lambda>i. 0) 0 (window (\<lambda>i. 7) 0 2)\<rparr>,
       \<lparr>rs_bytes = [5], rs_error = 0\<rparr>)"
    using put_get_struct [of sample_fields ?s "[5]" 0 "\<lparr>sr_control = 0, sr_flags = 2, sr_data = (\<lambda>i. 0)\<rparr>"]
    by simp
  then show ?thesis by (simp add: Let_def blit_def)
qed

end
