(* ===== verification/Irq_Line.thy ===== *)
theory Irq_Line
  imports Prelude
begin

text \<open>
  The contract of a level-triggered interrupt line. A device operation changes the state of the
  device and makes a list of line changes; the device keeps its line when the level of the line is
  always the value of a condition on its registers. The drivers of the goldfish devices rely on this:
  an interrupt handler that clears the condition must see the line go down, and one that leaves it
  set must be called again.
\<close>

fun run_ops :: "('op \<Rightarrow> 's \<Rightarrow> ('s \<times> irq_out list) res) \<Rightarrow> 'op list \<Rightarrow> 's \<Rightarrow> ('s \<times> irq_out list) res" where
  "run_ops step [] s = Inr (s, [])"
| "run_ops step (op # ops) s =
     res_bind (step op s) (\<lambda>(s1, os). res_bind (run_ops step ops s1) (\<lambda>(s2, os'). Inr (s2, os @ os')))"

lemma run_ops_Cons:
  "run_ops step (op # ops) s = Inr (s', os) \<longleftrightarrow>
     (\<exists>s1 os1 os2. step op s = Inr (s1, os1) \<and> run_ops step ops s1 = Inr (s', os2) \<and> os = os1 @ os2)"
  by (auto simp: res_simps)

text \<open>An invariant of every operation is one of every sequence of operations.\<close>

locale guarded_ops =
  fixes step :: "'op \<Rightarrow> 's \<Rightarrow> ('s \<times> irq_out list) res"
    and ok :: "'s \<Rightarrow> bool"
  assumes step_ok: "ok s \<Longrightarrow> step op s = Inr (s', os) \<Longrightarrow> ok s'"
begin

lemma run_ok: "ok s \<Longrightarrow> run_ops step ops s = Inr (s', os) \<Longrightarrow> ok s'"
  by (induction ops arbitrary: s os) (auto simp: run_ops_Cons intro: step_ok simp del: run_ops.simps(2))

end

locale level_line = guarded_ops step ok
  for step :: "'op \<Rightarrow> 's \<Rightarrow> ('s \<times> irq_out list) res" and ok :: "'s \<Rightarrow> bool" +
  fixes line :: "'s \<Rightarrow> u32"
    and asserted :: "'s \<Rightarrow> bool"
  assumes step_line: "ok s \<Longrightarrow> step op s = Inr (s', os) \<Longrightarrow> line s' = line s"
    and step_level: "ok s \<Longrightarrow> step op s = Inr (s', os) \<Longrightarrow>
      line_after (line s) os (asserted s) = asserted s'"
begin

lemma run_level:
  assumes "ok s" and "run_ops step ops s = Inr (s', os)"
  shows "line s' = line s \<and> line_after (line s) os (asserted s) = asserted s'"
  using assms
proof (induction ops arbitrary: s os)
  case (Cons op ops)
  then obtain s1 os1 os2 where s1: "step op s = Inr (s1, os1)" "run_ops step ops s1 = Inr (s', os2)" "os = os1 @ os2"
    by (auto simp: run_ops_Cons simp del: run_ops.simps)
  then show ?case
    using Cons.IH [OF step_ok [OF Cons.prems(1) s1(1)] s1(2)] step_level [OF Cons.prems(1) s1(1)]
      step_line [OF Cons.prems(1) s1(1)] by simp
qed simp

end

text \<open>
  The weaker contract of a device that raises its line for pending work but may leave it high without: while
  work is pending, the line is high. A level-triggered line satisfies it.
\<close>

lemma line_after_mono: "line_after n os l \<Longrightarrow> (l \<longrightarrow> l') \<Longrightarrow> line_after n os l'"
  by (induction os arbitrary: l l') (auto split: if_splits)

locale pending_line = guarded_ops step ok
  for step :: "'op \<Rightarrow> 's \<Rightarrow> ('s \<times> irq_out list) res" and ok :: "'s \<Rightarrow> bool" +
  fixes line :: "'s \<Rightarrow> u32"
    and asserted :: "'s \<Rightarrow> bool"
  assumes same_line: "ok s \<Longrightarrow> step op s = Inr (s', os) \<Longrightarrow> line s' = line s"
    and step_pending: "ok s \<Longrightarrow> step op s = Inr (s', os) \<Longrightarrow> (asserted s \<longrightarrow> l) \<Longrightarrow>
      asserted s' \<longrightarrow> line_after (line s) os l"
begin

lemma run_pending:
  assumes "ok s" and "run_ops step ops s = Inr (s', os)" and "asserted s \<longrightarrow> l"
  shows "asserted s' \<longrightarrow> line_after (line s) os l"
  using assms
proof (induction ops arbitrary: s os l)
  case (Cons op ops)
  then obtain s1 os1 os2 where s1: "step op s = Inr (s1, os1)" "run_ops step ops s1 = Inr (s', os2)" "os = os1 @ os2"
    by (auto simp: run_ops_Cons simp del: run_ops.simps)
  then show ?case
    using Cons.IH [OF step_ok [OF Cons.prems(1) s1(1)] s1(2)] step_pending [OF Cons.prems(1) s1(1) Cons.prems(3)]
      same_line [OF Cons.prems(1) s1(1)] by simp
qed simp

end

sublocale level_line \<subseteq> pending: pending_line step ok line asserted
proof unfold_locales
  fix s op s' os
  assume ok: "ok s" and step: "step op s = Inr (s', os)"
  show "line s' = line s" by (rule step_line [OF ok step])
  show "asserted s' \<longrightarrow> line_after (line s) os l" if "asserted s \<longrightarrow> l" for l
    using step_level [OF ok step] that line_after_mono [of "line s" os "asserted s" l] by auto
qed

text \<open>A device with one line changes no other line.\<close>

locale single_line = level_line step ok line asserted
  for step :: "'op \<Rightarrow> 's \<Rightarrow> ('s \<times> irq_out list) res" and ok :: "'s \<Rightarrow> bool" and line :: "'s \<Rightarrow> u32" and asserted :: "'s \<Rightarrow> bool" +
  assumes step_own: "ok s \<Longrightarrow> step op s = Inr (s', os) \<Longrightarrow> fst ` set os \<subseteq> {line s}"
begin

lemma other_line: "ok s \<Longrightarrow> step op s = Inr (s', os) \<Longrightarrow> n \<noteq> line s \<Longrightarrow> line_after n os l = l"
  using step_own [of s op s' os] by (auto intro!: line_after_idle)

end

end
