(* ===== verification/Goldfish_Interrupt.thy ===== *)
theory Goldfish_Interrupt
  imports Qemu_File Goldfish_Device Irq_Line
begin

text \<open>
  The goldfish interrupt controller, \<open>hw/android/goldfish/interrupt.c\<close>: 32 level-triggered input
  lines, an enable mask, a count of the pending interrupts and the two lines to the CPU.
\<close>

section \<open>State and registers\<close>

definition INTERRUPT_STATUS :: u64 where "INTERRUPT_STATUS = 0x00"
definition INTERRUPT_NUMBER :: u64 where "INTERRUPT_NUMBER = 0x04"
definition INTERRUPT_DISABLE_ALL :: u64 where "INTERRUPT_DISABLE_ALL = 0x08"
definition INTERRUPT_DISABLE :: u64 where "INTERRUPT_DISABLE = 0x0c"
definition INTERRUPT_ENABLE :: u64 where "INTERRUPT_ENABLE = 0x10"

lemmas interrupt_defs = INTERRUPT_STATUS_def INTERRUPT_NUMBER_def INTERRUPT_DISABLE_ALL_def
  INTERRUPT_DISABLE_def INTERRUPT_ENABLE_def

record goldfish_int_state =
  i_level :: u32
  i_pending_count :: u32
  i_irq_enabled :: u32
  i_fiq_enabled :: u32

definition GOLDFISH_INT_SAVE_VERSION :: int where "GOLDFISH_INT_SAVE_VERSION = 1"

definition goldfish_int_fields :: "goldfish_int_state QField list" where
  "goldfish_int_fields =
     [QFIELD_INT32 i_level (\<lambda>v. i_level_update (\<lambda>_. v)),
      QFIELD_INT32 i_pending_count (\<lambda>v. i_pending_count_update (\<lambda>_. v)),
      QFIELD_INT32 i_irq_enabled (\<lambda>v. i_irq_enabled_update (\<lambda>_. v)),
      QFIELD_INT32 i_fiq_enabled (\<lambda>v. i_fiq_enabled_update (\<lambda>_. v))]"

definition goldfish_int_save :: "goldfish_int_state \<Rightarrow> u8 list" where
  "goldfish_int_save s = qemu_put_struct goldfish_int_fields s"

definition goldfish_int_load ::
  "rstream \<Rightarrow> goldfish_int_state \<Rightarrow> int \<Rightarrow> int \<times> goldfish_int_state \<times> rstream" where
  "goldfish_int_load f s version_id =
     (if version_id \<noteq> GOLDFISH_INT_SAVE_VERSION then (-1, s, f)
      else qemu_get_struct goldfish_int_fields f s)"

text \<open>The output lines of the controller: line 0 is \<open>parent_irq\<close>, line 1 is \<open>parent_fiq\<close>.\<close>

definition parent_irq :: u32 where "parent_irq = 0"
definition parent_fiq :: u32 where "parent_fiq = 1"

definition goldfish_int_update :: "goldfish_int_state \<Rightarrow> irq_out list" where
  "goldfish_int_update s =
     [(parent_irq, i_level s AND i_irq_enabled s \<noteq> 0), (parent_fiq, i_level s AND i_fiq_enabled s \<noteq> 0)]"

definition goldfish_int_set_irq ::
  "nat \<Rightarrow> bool \<Rightarrow> goldfish_int_state \<Rightarrow> (goldfish_int_state \<times> irq_out list) res" where
  "goldfish_int_set_irq irq level s =
     (if 32 \<le> irq then Inl Undefined
      else let mask = push_bit irq 1;
               s' = (if level then
                       if i_level s AND mask = 0 then
                         let s1 = (if i_irq_enabled s AND mask \<noteq> 0
                                   then s\<lparr>i_pending_count := i_pending_count s + 1\<rparr> else s)
                         in s1\<lparr>i_level := i_level s1 OR mask\<rparr>
                       else s
                     else
                       if i_level s AND mask \<noteq> 0 then
                         let s1 = (if i_irq_enabled s AND mask \<noteq> 0
                                   then s\<lparr>i_pending_count := i_pending_count s - 1\<rparr> else s)
                         in s1\<lparr>i_level := i_level s1 AND NOT mask\<rparr>
                       else s)
           in Inr (s', goldfish_int_update s'))"

text \<open>The loop over the 32 lines of a read of \<open>INTERRUPT_NUMBER\<close>.\<close>

function lowest_pending :: "u32 \<Rightarrow> nat \<Rightarrow> u32" where
  "lowest_pending pending i =
     (if i < 32 then if pending AND push_bit i 1 \<noteq> 0 then word_of_nat i else lowest_pending pending (Suc i)
      else 0)"
  by pat_completeness auto
termination
  by (relation "measure (\<lambda>(pending, i). 32 - i)") auto

declare lowest_pending.simps [simp del]

definition goldfish_int_read :: "u64 \<Rightarrow> goldfish_int_state \<Rightarrow> u32 res" where
  "goldfish_int_read offset s =
     (if offset = INTERRUPT_STATUS then Inr (i_pending_count s)
      else if offset = INTERRUPT_NUMBER then Inr (lowest_pending (i_level s AND i_irq_enabled s) 0)
      else Inl Cpu_Abort)"

definition goldfish_int_write ::
  "u64 \<Rightarrow> u32 \<Rightarrow> goldfish_int_state \<Rightarrow> (goldfish_int_state \<times> irq_out list) res" where
  "goldfish_int_write offset v s =
     (if 32 \<le> v then Inl Undefined
      else let mask = push_bit (unat v) 1 in
        if offset = INTERRUPT_DISABLE_ALL then
          let s' = s\<lparr>i_pending_count := 0, i_level := 0\<rparr> in Inr (s', goldfish_int_update s')
        else if offset = INTERRUPT_DISABLE then
          let s' = (if i_irq_enabled s AND mask \<noteq> 0 then
                      let s1 = (if i_level s AND mask \<noteq> 0
                                then s\<lparr>i_pending_count := i_pending_count s - 1\<rparr> else s)
                      in s1\<lparr>i_irq_enabled := i_irq_enabled s1 AND NOT mask\<rparr>
                    else s)
          in Inr (s', goldfish_int_update s')
        else if offset = INTERRUPT_ENABLE then
          let s' = (if i_irq_enabled s AND mask = 0 then
                      let s1 = s\<lparr>i_irq_enabled := i_irq_enabled s OR mask\<rparr>
                      in if i_level s1 AND mask \<noteq> 0
                         then s1\<lparr>i_pending_count := i_pending_count s1 + 1\<rparr> else s1
                    else s)
          in Inr (s', goldfish_int_update s')
        else Inl Cpu_Abort)"

text \<open>The zeroed structure \<open>goldfish_interrupt_init\<close> allocates.\<close>

definition goldfish_interrupt_init :: goldfish_int_state where
  "goldfish_interrupt_init = \<lparr>i_level = 0, i_pending_count = 0, i_irq_enabled = 0, i_fiq_enabled = 0\<rparr>"

section \<open>Masks and the number of set bits\<close>

definition popcount :: "u32 \<Rightarrow> nat" where
  "popcount w = length (filter (bit w) [0..<32])"

lemma popcount_card: "popcount w = card {n. n < 32 \<and> bit w n}"
proof -
  have "popcount w = card (set (filter (bit w) [0..<32]))"
    unfolding popcount_def by (rule distinct_card [symmetric]) simp
  also have "set (filter (bit w) [0..<32]) = {n. n < 32 \<and> bit w n}" by auto
  finally show ?thesis .
qed

lemma popcount_set_bit:
  assumes "n < 32"
  shows "popcount (set_bit n w) = (if bit w n then popcount w else Suc (popcount w))"
proof -
  have "{m. m < 32 \<and> bit (set_bit n w) m} = insert n {m. m < 32 \<and> bit w m}"
    using assms by (auto simp: bit_simps)
  then show ?thesis using assms by (simp add: popcount_card insert_absorb)
qed

lemma popcount_unset_bit:
  assumes "n < 32"
  shows "popcount w = (if bit w n then Suc (popcount (unset_bit n w)) else popcount (unset_bit n w))"
proof -
  have "set_bit n (unset_bit n w) = w" if "bit w n"
    using that by (intro bit_word_eqI) (auto simp: bit_simps)
  moreover have "unset_bit n w = w" if "\<not> bit w n"
    using that by (intro bit_word_eqI) (auto simp: bit_simps)
  ultimately show ?thesis
    using popcount_set_bit [OF assms, of "unset_bit n w"] by (auto simp: bit_simps)
qed

lemma popcount_le: "popcount w \<le> 32"
  using length_filter_le [of "bit w" "[0..<32]"] by (simp add: popcount_def)

lemma popcount_0: "popcount w = 0 \<longleftrightarrow> w = 0"
proof
  assume "popcount w = 0"
  then have "\<not> bit w n" if "n < 32" for n using that by (simp add: popcount_card)
  then show "w = 0" by (intro bit_word_eqI) simp
qed (simp add: popcount_def)

text \<open>The masks of the code in terms of single bits.\<close>

lemma mask_bit:
  fixes w :: u32
  shows "w AND push_bit n 1 = 0 \<longleftrightarrow> \<not> bit w n" "w OR push_bit n 1 = set_bit n w"
    "w AND NOT (push_bit n 1) = unset_bit n w"
  by (simp_all add: and_exp_eq_0_iff_not_bit set_bit_eq_or unset_bit_eq_and_not)

lemma and_set_bit:
  fixes w e :: u32
  shows "set_bit n w AND e = (if bit e n then set_bit n (w AND e) else w AND e)"
    "unset_bit n w AND e = unset_bit n (w AND e)"
    "e AND set_bit n w = (if bit e n then set_bit n (e AND w) else e AND w)"
    "e AND unset_bit n w = unset_bit n (e AND w)"
  by (rule bit_word_eqI; auto simp: bit_simps)+

lemma unset_bit_idle: "\<not> bit w n \<Longrightarrow> unset_bit n w = (w :: u32)"
  by (rule bit_word_eqI) (auto simp: bit_simps)

lemma set_bit_idle: "bit w n \<Longrightarrow> set_bit n w = (w :: u32)"
  by (rule bit_word_eqI) (auto simp: bit_simps)

section \<open>The invariant\<close>

definition pending :: "goldfish_int_state \<Rightarrow> u32" where
  "pending s = i_level s AND i_irq_enabled s"

definition int_ok :: "goldfish_int_state \<Rightarrow> bool" where
  "int_ok s \<longleftrightarrow> i_pending_count s = word_of_nat (popcount (pending s))"

datatype int_op = Set_irq nat bool | Int_write u64 u32

fun int_step :: "int_op \<Rightarrow> goldfish_int_state \<Rightarrow> (goldfish_int_state \<times> irq_out list) res" where
  "int_step (Set_irq irq level) s = goldfish_int_set_irq irq level s"
| "int_step (Int_write offset v) s = goldfish_int_write offset v s"

lemma set_irq_level:
  assumes "goldfish_int_set_irq irq level s = Inr (s', os)"
  shows "irq < 32" and "i_level s' = (if level then set_bit irq (i_level s) else unset_bit irq (i_level s))"
    and "i_irq_enabled s' = i_irq_enabled s" and "i_fiq_enabled s' = i_fiq_enabled s"
    and "os = goldfish_int_update s'"
  using assms
  by (auto simp: goldfish_int_set_irq_def Let_def mask_bit unset_bit_idle set_bit_idle
      simp del: push_bit_of_1 split: if_splits)

lemmas count_simps = int_ok_def pending_def and_set_bit popcount_set_bit mask_bit Let_def bit_and_iff

lemma set_irq_ok:
  assumes "int_ok s" and "goldfish_int_set_irq irq level s = Inr (s', os)"
  shows "int_ok s'"
proof -
  have irq: "irq < 32" using set_irq_level(1) [OF assms(2)] .
  show ?thesis
    using assms irq popcount_unset_bit [OF irq, of "i_level s AND i_irq_enabled s"]
    by (cases level; cases "bit (i_level s) irq"; cases "bit (i_irq_enabled s) irq")
       (auto simp: goldfish_int_set_irq_def count_simps simp del: push_bit_of_1)
qed

lemma write_ok:
  assumes "int_ok s" and "goldfish_int_write offset v s = Inr (s', os)"
  shows "int_ok s'"
proof -
  have v: "unat v < 32" using assms(2) by (auto simp: goldfish_int_write_def word_le_nat_alt split: if_splits)
  have 0: "popcount 0 = 0" by (simp add: popcount_0)
  show ?thesis
    using assms v popcount_unset_bit [OF v, of "i_level s AND i_irq_enabled s"]
    by (cases "bit (i_level s) (unat v)"; cases "bit (i_irq_enabled s) (unat v)")
       (auto simp: goldfish_int_write_def count_simps 0 simp del: push_bit_of_1 split: if_splits)
qed

section \<open>The output lines\<close>

lemma int_step_update:
  "int_step op s = Inr (s', os) \<Longrightarrow> os = goldfish_int_update s'"
  by (cases op) (auto simp: goldfish_int_set_irq_def goldfish_int_write_def Let_def split: if_splits)

lemma int_step_ok: "int_ok s \<Longrightarrow> int_step op s = Inr (s', os) \<Longrightarrow> int_ok s'"
  by (cases op) (auto intro: set_irq_ok write_ok)

definition fiq_pending :: "goldfish_int_state \<Rightarrow> u32" where
  "fiq_pending s = i_level s AND i_fiq_enabled s"

lemma line_after_update:
  "line_after parent_irq (goldfish_int_update s) l \<longleftrightarrow> pending s \<noteq> 0"
  "line_after parent_fiq (goldfish_int_update s) l \<longleftrightarrow> fiq_pending s \<noteq> 0"
  by (simp_all add: goldfish_int_update_def pending_def fiq_pending_def parent_irq_def parent_fiq_def)

interpretation int_irq: level_line int_step int_ok "\<lambda>s. parent_irq" "\<lambda>s. pending s \<noteq> 0"
  by unfold_locales (auto dest: int_step_ok int_step_update simp: line_after_update)

interpretation int_fiq: level_line int_step int_ok "\<lambda>s. parent_fiq" "\<lambda>s. fiq_pending s \<noteq> 0"
  by unfold_locales (auto dest: int_step_update simp: line_after_update)

lemma init_ok [simp]: "int_ok goldfish_interrupt_init" "pending goldfish_interrupt_init = 0"
  "fiq_pending goldfish_interrupt_init = 0"
  by (simp_all add: int_ok_def goldfish_interrupt_init_def pending_def fiq_pending_def popcount_def)

section \<open>The number of the pending interrupt\<close>

lemma lowest_pending_spec:
  "n < 32 \<Longrightarrow> i \<le> n \<Longrightarrow> bit w n \<Longrightarrow> (\<And>m. i \<le> m \<Longrightarrow> m < n \<Longrightarrow> \<not> bit w m) \<Longrightarrow> lowest_pending w i = word_of_nat n"
proof (induction w i rule: lowest_pending.induct)
  case (1 w i)
  show ?case
  proof (cases "i = n")
    case True
    then show ?thesis using 1 by (subst lowest_pending.simps) (simp add: mask_bit del: push_bit_of_1)
  next
    case False
    then have i: "i < 32" "\<not> bit w i" "Suc i \<le> n" using 1 by auto
    then have "lowest_pending w (Suc i) = word_of_nat n"
      using 1 by (simp add: mask_bit del: push_bit_of_1)
    then show ?thesis using i by (subst lowest_pending.simps) (simp add: mask_bit del: push_bit_of_1)
  qed
qed

section \<open>Properties\<close>

text \<open>From power-on, after any sequence of line changes and register writes, the status register is the number of lines
  that are both raised and enabled, without any drift or wrap-around of the counter, and the two lines to the CPU are high
  exactly when a raised line is enabled for them.\<close>

theorem int_count_invariant:
  assumes "run_ops int_step ops goldfish_interrupt_init = Inr (s, os)"
  shows "\<exists>c. goldfish_int_read INTERRUPT_STATUS s = Inr c \<and> unat c = popcount (i_level s AND i_irq_enabled s) \<and>
    line_after parent_irq os False = (c \<noteq> 0) \<and>
    line_after parent_fiq os False = (i_level s AND i_fiq_enabled s \<noteq> 0)"
proof -
  have ok: "int_ok s" using int_irq.run_ok [OF init_ok(1) assms] .
  have "unat (i_pending_count s) = popcount (pending s)"
    using ok popcount_le [of "pending s"] by (simp add: int_ok_def unat_of_nat)
  moreover from this have "(i_pending_count s \<noteq> 0) = (pending s \<noteq> 0)"
    by (metis popcount_0 unat_eq_zero)
  ultimately show ?thesis
    using int_irq.run_level [OF init_ok(1) assms] int_fiq.run_level [OF init_ok(1) assms]
    by (simp add: goldfish_int_read_def interrupt_defs pending_def fiq_pending_def goldfish_interrupt_init_def)
qed

theorem int_count_invariant_witness:
  "\<exists>s os. run_ops int_step [Set_irq 4 True, Int_write INTERRUPT_ENABLE 4, Set_irq 4 True, Set_irq 9 True,
      Int_write INTERRUPT_ENABLE 9] goldfish_interrupt_init = Inr (s, os) \<and>
    (\<exists>c. goldfish_int_read INTERRUPT_STATUS s = Inr c \<and> unat c = 2 \<and> line_after parent_irq os False)"
proof -
  let ?ops = "[Set_irq 4 True, Int_write INTERRUPT_ENABLE 4, Set_irq 4 True, Set_irq 9 True, Int_write INTERRUPT_ENABLE 9]"
  obtain s os where r: "run_ops int_step ?ops goldfish_interrupt_init = Inr (s, os)" "i_level s = 0x210"
    "i_irq_enabled s = 0x210"
    by (simp add: goldfish_interrupt_init_def goldfish_int_write_def goldfish_int_set_irq_def interrupt_defs Let_def)
  have "popcount (0x210 AND 0x210) = 2" by code_simp
  then show ?thesis using int_count_invariant [OF r(1)] r by (auto simp: goldfish_int_read_def)
qed

text \<open>The number register returns the lowest line that is raised and enabled.\<close>

theorem int_number_lowest:
  assumes "n < 32" and "bit (i_level s AND i_irq_enabled s) n"
    and "\<forall>m < n. \<not> bit (i_level s AND i_irq_enabled s) m"
  shows "goldfish_int_read INTERRUPT_NUMBER s = Inr (word_of_nat n)"
  using lowest_pending_spec [of n 0 "i_level s AND i_irq_enabled s"] assms
  by (simp add: goldfish_int_read_def interrupt_defs)

theorem int_number_lowest_witness:
  "goldfish_int_read INTERRUPT_NUMBER
     \<lparr>i_level = 0x218, i_pending_count = 2, i_irq_enabled = 0x210, i_fiq_enabled = 0\<rparr> = Inr 4"
proof -
  have "\<forall>m < 4. \<not> bit (0x210 :: u32) m" by (simp add: numeral_eq_Suc All_less_Suc)
  then show ?thesis
    using int_number_lowest [of 4 "\<lparr>i_level = 0x218, i_pending_count = 2, i_irq_enabled = 0x210, i_fiq_enabled = 0\<rparr>"]
    by simp
qed

end
