(* ===== verification/Savevm.thy ===== *)
theory Savevm
  imports Qemu_File
begin

text \<open>
  Snapshots of the virtual machine, \<open>savevm.c\<close>: the registry of the handlers that save and load the
  state of one device each, the format of a snapshot file, and the functions that write and read it.
  The state of the whole machine is a type variable; a handler saves its part as bytes and loads it
  from the byte stream.
\<close>

section \<open>Handlers\<close>

definition QEMU_VM_FILE_MAGIC :: u32 where "QEMU_VM_FILE_MAGIC = 0x5145564d"
definition QEMU_VM_FILE_VERSION :: u32 where "QEMU_VM_FILE_VERSION = 4"
definition QEMU_VM_EOF :: u8 where "QEMU_VM_EOF = 0"
definition QEMU_VM_SECTION_START :: u8 where "QEMU_VM_SECTION_START = 1"
definition QEMU_VM_SECTION_PART :: u8 where "QEMU_VM_SECTION_PART = 2"
definition QEMU_VM_SECTION_END :: u8 where "QEMU_VM_SECTION_END = 3"
definition QEMU_VM_SECTION_FULL :: u8 where "QEMU_VM_SECTION_FULL = 4"

lemmas qemu_vm_defs = QEMU_VM_FILE_MAGIC_def QEMU_VM_FILE_VERSION_def QEMU_VM_EOF_def
  QEMU_VM_SECTION_START_def QEMU_VM_SECTION_PART_def QEMU_VM_SECTION_END_def QEMU_VM_SECTION_FULL_def

definition ENOTSUP :: int where "ENOTSUP = 95"

text \<open>
  A C string is the list of its characters, without the final zero. The fields \<open>ops\<close> and \<open>vmsd\<close> of
  an entry are its functions: \<open>h_save_state\<close>, \<open>h_save_live_state\<close> and \<open>h_load_state\<close> those of \<open>ops\<close>, and
  \<open>se_vmsd\<close> the functions that save and load a state described by a \<open>VMStateDescription\<close>.
\<close>

type_synonym cstring = "u8 list"
type_synonym 'm saver = "'m \<Rightarrow> u8 list"
type_synonym 'm loader = "rstream \<Rightarrow> 'm \<Rightarrow> int \<Rightarrow> (int \<times> 'm \<times> rstream) res"

record CompatEntry =
  ce_idstr :: cstring
  ce_instance_id :: int

record 'm SaveVMHandlers =
  h_save_state :: "'m saver option"
  h_save_live_state :: "(u8 \<Rightarrow> 'm \<Rightarrow> u8 list \<times> int \<times> 'm) option"
  h_load_state :: "'m loader"

record 'm SaveStateEntry =
  se_idstr :: cstring
  se_instance_id :: int
  se_alias_id :: int
  se_version_id :: int
  se_section_id :: int
  se_ops :: "'m SaveVMHandlers option"
  se_vmsd :: "('m saver \<times> 'm loader) option"
  se_compat :: "CompatEntry option"
  se_no_migrate :: bool
  se_is_ram :: bool

record 'm savevm =
  savevm_handlers :: "'m SaveStateEntry list"
  global_section_id :: int

section \<open>Registration\<close>

definition bump_instance_id :: "bool \<Rightarrow> int \<Rightarrow> int \<Rightarrow> int" where
  "bump_instance_id same found instance_id =
     (if same \<and> instance_id \<le> found then found + 1 else instance_id)"

definition calculate_new_instance_id :: "cstring \<Rightarrow> 'm SaveStateEntry list \<Rightarrow> int" where
  "calculate_new_instance_id idstr hs =
     fold (\<lambda>se. bump_instance_id (se_idstr se = idstr) (se_instance_id se)) hs 0"

definition calculate_compat_instance_id :: "cstring \<Rightarrow> 'm SaveStateEntry list \<Rightarrow> int" where
  "calculate_compat_instance_id idstr hs =
     fold (\<lambda>se n. case se_compat se of
                    None \<Rightarrow> n
                  | Some c \<Rightarrow> bump_instance_id (ce_idstr c = idstr) (ce_instance_id c) n) hs 0"

text \<open>The buffers of the identifiers hold 256 characters, the final zero included; \<open>pstrcpy\<close> and
  \<open>pstrcat\<close> truncate.\<close>

definition pstrcpy :: "cstring \<Rightarrow> cstring" where
  "pstrcpy s = take 255 s"

definition pstrcat :: "cstring \<Rightarrow> cstring \<Rightarrow> cstring" where
  "pstrcat buf s = take 255 (buf @ s)"

text \<open>
  The common tail of the two registration functions: the identifier with the path of the device in
  front of it, when it has one, and the instance number.
\<close>

definition add_handler ::
  "'m SaveStateEntry \<Rightarrow> cstring option \<Rightarrow> cstring \<Rightarrow> int \<Rightarrow> 'm savevm \<Rightarrow> 'm savevm res" where
  "add_handler se dev_path idstr instance_id s =
     (let hs = savevm_handlers s;
          (se1, instance_id1) =
            (case dev_path of
               None \<Rightarrow> (se\<lparr>se_idstr := [], se_compat := None\<rparr>, instance_id)
             | Some path \<Rightarrow>
                 (se\<lparr>se_idstr := pstrcat (pstrcpy path) [47],
                     se_compat := Some \<lparr>ce_idstr = pstrcpy idstr,
                       ce_instance_id = (if instance_id = -1 then calculate_compat_instance_id idstr hs
                                         else instance_id)\<rparr>\<rparr>, -1));
          se2 = se1\<lparr>se_idstr := pstrcat (se_idstr se1) idstr\<rparr>;
          se3 = se2\<lparr>se_instance_id := (if instance_id1 = -1
                                        then calculate_new_instance_id (se_idstr se2) hs
                                        else instance_id1)\<rparr>
      in if se_compat se3 = None \<or> se_instance_id se3 = 0
         then Inr (s\<lparr>savevm_handlers := hs @ [se3], global_section_id := global_section_id s + 1\<rparr>)
         else Inl Assert_Failure)"

definition register_savevm_live ::
  "cstring option \<Rightarrow> cstring \<Rightarrow> int \<Rightarrow> int \<Rightarrow> 'm SaveVMHandlers \<Rightarrow> 'm savevm \<Rightarrow> 'm savevm res" where
  "register_savevm_live dev_path idstr instance_id version_id ops s =
     add_handler \<lparr>se_idstr = [], se_instance_id = 0, se_alias_id = 0, se_version_id = version_id,
       se_section_id = global_section_id s, se_ops = Some ops, se_vmsd = None, se_compat = None,
       se_no_migrate = False, se_is_ram = (h_save_live_state ops \<noteq> None)\<rparr> dev_path idstr instance_id s"

definition register_savevm ::
  "cstring option \<Rightarrow> cstring \<Rightarrow> int \<Rightarrow> int \<Rightarrow> 'm saver \<Rightarrow> 'm loader \<Rightarrow> 'm savevm \<Rightarrow> 'm savevm res" where
  "register_savevm dev_path idstr instance_id version_id save load s =
     register_savevm_live dev_path idstr instance_id version_id
       \<lparr>h_save_state = Some save, h_save_live_state = None, h_load_state = load\<rparr> s"

definition vmstate_register_with_alias_id ::
  "cstring option \<Rightarrow> int \<Rightarrow> cstring \<Rightarrow> int \<Rightarrow> int \<Rightarrow> bool \<Rightarrow> 'm saver \<times> 'm loader \<Rightarrow> int \<Rightarrow> int \<Rightarrow>
   'm savevm \<Rightarrow> 'm savevm res" where
  "vmstate_register_with_alias_id dev_path instance_id name version_id minimum_version_id unmigratable vmsd
     alias_id required_for_version s =
     (if alias_id = -1 \<or> minimum_version_id \<le> required_for_version
      then add_handler \<lparr>se_idstr = [], se_instance_id = 0, se_alias_id = alias_id, se_version_id = version_id,
        se_section_id = global_section_id s, se_ops = None, se_vmsd = Some vmsd, se_compat = None,
        se_no_migrate = unmigratable, se_is_ram = False\<rparr> dev_path name instance_id s
      else Inl Assert_Failure)"

definition empty_savevm :: "'m savevm" where
  "empty_savevm = \<lparr>savevm_handlers = [], global_section_id = 0\<rparr>"

section \<open>Saving\<close>

definition qemu_savevm_state_blocked :: "'m SaveStateEntry list \<Rightarrow> bool" where
  "qemu_savevm_state_blocked hs \<longleftrightarrow> list_ex se_no_migrate hs"

definition live_saver :: "'m SaveStateEntry \<Rightarrow> (u8 \<Rightarrow> 'm \<Rightarrow> u8 list \<times> int \<times> 'm) option" where
  "live_saver se = (case se_ops se of None \<Rightarrow> None | Some ops \<Rightarrow> h_save_live_state ops)"

definition put_section_header ::
  "'b qemu_file_ops \<Rightarrow> u8 \<Rightarrow> 'm SaveStateEntry \<Rightarrow> 'b QEMUFile \<Rightarrow> 'b QEMUFile" where
  "put_section_header ops type se f =
     (let f1 = qemu_put_byte ops f type;
          f2 = qemu_put_be32 ops f1 (word_of_int (se_section_id se));
          f3 = qemu_put_byte ops f2 (word_of_nat (length (se_idstr se)));
          f4 = qemu_put_buffer ops f3 (se_idstr se);
          f5 = qemu_put_be32 ops f4 (word_of_int (se_instance_id se))
      in qemu_put_be32 ops f5 (word_of_int (se_version_id se)))"

fun savevm_begin_loop ::
  "'b qemu_file_ops \<Rightarrow> 'm SaveStateEntry list \<Rightarrow> 'm \<Rightarrow> 'b QEMUFile \<Rightarrow> 'm \<times> 'b QEMUFile" where
  "savevm_begin_loop ops [] m f = (m, f)"
| "savevm_begin_loop ops (se # hs) m f =
     (case live_saver se of
        None \<Rightarrow> savevm_begin_loop ops hs m f
      | Some live \<Rightarrow>
          let (bs, r, m') = live QEMU_VM_SECTION_START m
          in savevm_begin_loop ops hs m'
               (qemu_put_buffer ops (put_section_header ops QEMU_VM_SECTION_START se f) bs))"

definition qemu_savevm_state_begin ::
  "'b qemu_file_ops \<Rightarrow> 'm SaveStateEntry list \<Rightarrow> 'm \<Rightarrow> 'b QEMUFile \<Rightarrow> int \<times> 'm \<times> 'b QEMUFile" where
  "qemu_savevm_state_begin ops hs m f =
     (let f1 = qemu_put_be32 ops f QEMU_VM_FILE_MAGIC;
          f2 = qemu_put_be32 ops f1 QEMU_VM_FILE_VERSION;
          (m', f3) = savevm_begin_loop ops hs m f2
      in (qemu_file_get_error f3, m', f3))"

fun qemu_savevm_state_iterate ::
  "'b qemu_file_ops \<Rightarrow> bool \<Rightarrow> 'm SaveStateEntry list \<Rightarrow> 'm \<Rightarrow> 'b QEMUFile \<Rightarrow> int \<times> 'm \<times> 'b QEMUFile" where
  "qemu_savevm_state_iterate ops ret [] m f = (if ret then 1 else qemu_file_get_error f, m, f)"
| "qemu_savevm_state_iterate ops ret (se # hs) m f =
     (case live_saver se of
        None \<Rightarrow> qemu_savevm_state_iterate ops ret hs m f
      | Some live \<Rightarrow>
          if qemu_file_rate_limit f then (0, m, f)
          else let f1 = qemu_put_byte ops f QEMU_VM_SECTION_PART;
                   f2 = qemu_put_be32 ops f1 (word_of_int (se_section_id se));
                   (bs, r, m') = live QEMU_VM_SECTION_PART m
               in qemu_savevm_state_iterate ops (ret \<and> r \<noteq> 0) hs m' (qemu_put_buffer ops f2 bs))"

fun savevm_end_loop ::
  "'b qemu_file_ops \<Rightarrow> 'm SaveStateEntry list \<Rightarrow> 'm \<Rightarrow> 'b QEMUFile \<Rightarrow> 'm \<times> 'b QEMUFile" where
  "savevm_end_loop ops [] m f = (m, f)"
| "savevm_end_loop ops (se # hs) m f =
     (case live_saver se of
        None \<Rightarrow> savevm_end_loop ops hs m f
      | Some live \<Rightarrow>
          let f1 = qemu_put_byte ops f QEMU_VM_SECTION_END;
              f2 = qemu_put_be32 ops f1 (word_of_int (se_section_id se));
              (bs, r, m') = live QEMU_VM_SECTION_END m
          in savevm_end_loop ops hs m' (qemu_put_buffer ops f2 bs))"

definition vmstate_save :: "'m SaveStateEntry \<Rightarrow> 'm saver option" where
  "vmstate_save se =
     (case se_vmsd se of
        Some (save, load) \<Rightarrow> Some save
      | None \<Rightarrow> (case se_ops se of None \<Rightarrow> None | Some ops \<Rightarrow> h_save_state ops))"

fun savevm_full_loop ::
  "'b qemu_file_ops \<Rightarrow> 'm SaveStateEntry list \<Rightarrow> 'm \<Rightarrow> 'b QEMUFile \<Rightarrow> 'b QEMUFile" where
  "savevm_full_loop ops [] m f = f"
| "savevm_full_loop ops (se # hs) m f =
     (case vmstate_save se of
        None \<Rightarrow> savevm_full_loop ops hs m f
      | Some save \<Rightarrow>
          savevm_full_loop ops hs m
            (qemu_put_buffer ops (put_section_header ops QEMU_VM_SECTION_FULL se f) (save m)))"

definition qemu_savevm_state_complete ::
  "'b qemu_file_ops \<Rightarrow> 'm SaveStateEntry list \<Rightarrow> 'm \<Rightarrow> 'b QEMUFile \<Rightarrow> int \<times> 'm \<times> 'b QEMUFile" where
  "qemu_savevm_state_complete ops hs m f =
     (let (m', f1) = savevm_end_loop ops hs m f;
          f2 = savevm_full_loop ops hs m' f1;
          f3 = qemu_fflush ops (qemu_put_byte ops f2 QEMU_VM_EOF)
      in (qemu_file_get_error f3, m', f3))"

text \<open>The loop over \<open>qemu_savevm_state_iterate\<close>; the first component of its result tells whether an
  error made it leave.\<close>

partial_function (option) savevm_iterate_loop ::
  "'b qemu_file_ops \<Rightarrow> 'm SaveStateEntry list \<Rightarrow> 'm \<Rightarrow> 'b QEMUFile \<Rightarrow> (bool \<times> 'm \<times> 'b QEMUFile) option" where
  [code]: "savevm_iterate_loop ops hs m f =
     (case qemu_savevm_state_iterate ops True hs m f of
        (ret, m', f') \<Rightarrow>
          if ret < 0 then Some (True, m', f')
          else if ret = 0 then savevm_iterate_loop ops hs m' f'
          else Some (False, m', f'))"

text \<open>
  The result is the return value, the machine, the file, and whether the machine runs afterwards: it
  is stopped for the snapshot and started again only when the snapshot succeeded.
\<close>

definition qemu_savevm_state ::
  "'b qemu_file_ops \<Rightarrow> 'm SaveStateEntry list \<Rightarrow> bool \<Rightarrow> 'm \<Rightarrow> 'b QEMUFile \<Rightarrow>
   (int \<times> 'm \<times> 'b QEMUFile \<times> bool) option" where
  "qemu_savevm_state ops hs vm_running m f =
     (let finish = (\<lambda>m f. (qemu_file_get_error f, m, f, qemu_file_get_error f = 0 \<and> vm_running))
      in if qemu_savevm_state_blocked hs then Some (- EINVAL, m, f, vm_running)
         else let (ret, m1, f1) = qemu_savevm_state_begin ops hs m f
              in if ret < 0 then Some (finish m1 f1)
                 else map_option (\<lambda>(failed, m2, f2).
                        if failed then finish m2 f2
                        else let (ret, m3, f3) = qemu_savevm_state_complete ops hs m2 f2 in finish m3 f3)
                      (savevm_iterate_loop ops hs m1 f1))"

section \<open>Loading\<close>

text \<open>\<open>strstr\<close>: one string occurs in the other.\<close>

fun strstr :: "cstring \<Rightarrow> cstring \<Rightarrow> bool" where
  "strstr [] pat \<longleftrightarrow> pat = []"
| "strstr (c # s) pat \<longleftrightarrow> take (length pat) (c # s) = pat \<or> strstr s pat"

definition se_matches :: "cstring \<Rightarrow> int \<Rightarrow> 'm SaveStateEntry \<Rightarrow> bool" where
  "se_matches idstr instance_id se \<longleftrightarrow>
     se_idstr se = idstr \<and> (instance_id = se_instance_id se \<or> instance_id = se_alias_id se) \<or>
     strstr (se_idstr se) idstr \<and>
     (case se_compat se of
        None \<Rightarrow> False
      | Some c \<Rightarrow> ce_idstr c = idstr \<and> (instance_id = ce_instance_id c \<or> instance_id = se_alias_id se))"

definition find_se :: "cstring \<Rightarrow> int \<Rightarrow> 'm SaveStateEntry list \<Rightarrow> 'm SaveStateEntry option" where
  "find_se idstr instance_id hs = find (se_matches idstr instance_id) hs"

text \<open>An entry of the registry has \<open>ops\<close> or \<open>vmsd\<close>; without both the code would call through a null pointer.\<close>

definition vmstate_load :: "'m SaveStateEntry \<Rightarrow> 'm loader" where
  "vmstate_load se f m version_id =
     (case se_vmsd se of
        Some (save, load) \<Rightarrow> load f m version_id
      | None \<Rightarrow> (case se_ops se of
                   Some ops \<Rightarrow> h_load_state ops f m version_id
                 | None \<Rightarrow> Inl Undefined))"

record 'm LoadStateEntry =
  le_se :: "'m SaveStateEntry"
  le_section_id :: u32
  le_version_id :: int

definition find_le :: "u32 \<Rightarrow> 'm LoadStateEntry list \<Rightarrow> 'm LoadStateEntry option" where
  "find_le section_id les = find (\<lambda>le. le_section_id le = section_id) les"

text \<open>
  The loop over the sections; \<open>les\<close> is \<open>loadvm_handlers\<close>. A short read of the identifier leaves the
  rest of \<open>idstr\<close> undefined in the source; here the identifier is then the part that was read.
\<close>

partial_function (option) loadvm_loop ::
  "'m SaveStateEntry list \<Rightarrow> 'm LoadStateEntry list \<Rightarrow> 'm \<Rightarrow> rstream \<Rightarrow> (int \<times> 'm \<times> rstream) res option" where
  [code]: "loadvm_loop hs les m f =
     (case st_get_byte f of (type, f1) \<Rightarrow>
      if type = QEMU_VM_EOF then Some (Inr (0, m, f1))
      else if type = QEMU_VM_SECTION_START \<or> type = QEMU_VM_SECTION_FULL then
        (case st_get_be32 f1 of (section_id, f2) \<Rightarrow>
         case st_get_byte f2 of (len, f3) \<Rightarrow>
         case st_get_buffer f3 (unat len) of (bs, f4) \<Rightarrow>
         case st_get_be32 f4 of (instance_id, f5) \<Rightarrow>
         case st_get_be32 f5 of (version_id, f6) \<Rightarrow>
         case find_se (takeWhile (\<lambda>c. c \<noteq> 0) bs) (sint instance_id) hs of
           None \<Rightarrow> Some (Inr (- EINVAL, m, f6))
         | Some se \<Rightarrow>
             if (word_of_int (se_version_id se) :: u32) < version_id then Some (Inr (- EINVAL, m, f6))
             else (case vmstate_load se f6 m (sint version_id) of
                     Inl x \<Rightarrow> Some (Inl x)
                   | Inr (ret, m', f7) \<Rightarrow>
                   if ret < 0 then Some (Inr (ret, m', f7))
                   else loadvm_loop hs
                     (\<lparr>le_se = se, le_section_id = section_id, le_version_id = sint version_id\<rparr> # les) m' f7))
      else if type = QEMU_VM_SECTION_PART \<or> type = QEMU_VM_SECTION_END then
        (case st_get_be32 f1 of (section_id, f2) \<Rightarrow>
         case find_le section_id les of
           None \<Rightarrow> Some (Inr (- EINVAL, m, f2))
         | Some le \<Rightarrow>
             (case vmstate_load (le_se le) f2 m (le_version_id le) of
                Inl x \<Rightarrow> Some (Inl x)
              | Inr (ret, m', f3) \<Rightarrow>
              if ret < 0 then Some (Inr (ret, m', f3)) else loadvm_loop hs les m' f3))
      else Some (Inr (- EINVAL, m, f1)))"

definition qemu_loadvm_state ::
  "'m SaveStateEntry list \<Rightarrow> 'm \<Rightarrow> rstream \<Rightarrow> (int \<times> 'm \<times> rstream) res option" where
  "qemu_loadvm_state hs m f =
     (if qemu_savevm_state_blocked hs then Some (Inr (- EINVAL, m, f))
      else let (v, f1) = st_get_be32 f
           in if v \<noteq> QEMU_VM_FILE_MAGIC then Some (Inr (- EINVAL, m, f1))
              else let (v, f2) = st_get_be32 f1
                   in if v < QEMU_VM_FILE_VERSION \<or> v > QEMU_VM_FILE_VERSION then Some (Inr (- ENOTSUP, m, f2))
                      else map_option (\<lambda>r. res_bind r (\<lambda>(ret, m', f'). Inr (if ret = 0 then rs_error f' else ret, m', f')))
                             (loadvm_loop hs [] m f2))"

section \<open>The registry\<close>

lemma new_instance_id_fold:
  "(\<forall>se \<in> set hs. se_idstr se = idstr \<longrightarrow>
     se_instance_id se < fold (\<lambda>se. bump_instance_id (se_idstr se = idstr) (se_instance_id se)) hs n) \<and>
   n \<le> fold (\<lambda>se. bump_instance_id (se_idstr se = idstr) (se_instance_id se)) hs n"
proof (induction hs arbitrary: n)
  case (Cons h hs)
  let ?n = "bump_instance_id (se_idstr h = idstr) (se_instance_id h) n"
  have "n \<le> ?n" "se_idstr h = idstr \<Longrightarrow> se_instance_id h < ?n" by (auto simp: bump_instance_id_def)
  then show ?case using Cons.IH [of ?n] by fastforce
qed auto

lemma new_instance_id:
  "se \<in> set hs \<Longrightarrow> se_idstr se = idstr \<Longrightarrow> se_instance_id se < calculate_new_instance_id idstr hs"
  "0 \<le> calculate_new_instance_id idstr hs"
  using new_instance_id_fold [of hs idstr 0]
  by (auto simp: calculate_new_instance_id_def)

text \<open>A registry of handlers registered without a device path, in which every handler is found again.\<close>

definition registry_ok :: "'m SaveStateEntry list \<Rightarrow> bool" where
  "registry_ok hs \<longleftrightarrow> (\<forall>se \<in> set hs. 0 \<le> se_instance_id se \<and> se_alias_id se = 0 \<and> se_compat se = None) \<and>
     (\<forall>i < length hs. find_se (se_idstr (hs ! i)) (se_instance_id (hs ! i)) hs = Some (hs ! i))"

lemma find_se_append:
  "find_se idstr n (hs @ hs') = (case find_se idstr n hs of None \<Rightarrow> find_se idstr n hs' | Some se \<Rightarrow> Some se)"
  by (induction hs) (auto simp: find_se_def)

lemma registry_ok_snoc:
  assumes "registry_ok hs" and "find_se (se_idstr se) (se_instance_id se) hs = None"
    and "0 \<le> se_instance_id se" and "se_alias_id se = 0" and "se_compat se = None"
  shows "registry_ok (hs @ [se])" and "find_se (se_idstr se) (se_instance_id se) (hs @ [se]) = Some se"
proof -
  show f: "find_se (se_idstr se) (se_instance_id se) (hs @ [se]) = Some se"
    using assms(2) by (simp add: find_se_append) (simp add: find_se_def se_matches_def)
  show "registry_ok (hs @ [se])"
    using assms f by (auto simp: registry_ok_def nth_append find_se_append less_Suc_eq)
qed

lemma fresh_not_found:
  assumes "registry_ok hs"
  shows "find_se idstr (calculate_new_instance_id idstr hs) hs = None"
proof -
  have "\<not> se_matches idstr (calculate_new_instance_id idstr hs) se" if se: "se \<in> set hs" for se
  proof -
    have "0 \<le> se_instance_id se" "se_alias_id se = 0" "se_compat se = None"
      using assms se by (auto simp: registry_ok_def)
    then show ?thesis using new_instance_id(1) [OF se, of idstr] by (auto simp: se_matches_def)
  qed
  then show ?thesis by (auto simp: find_se_def find_None_iff)
qed

section \<open>A snapshot of handlers that save their state at once\<close>

definition header_bytes :: "u8 \<Rightarrow> 'm SaveStateEntry \<Rightarrow> u8 list" where
  "header_bytes type se = type # be32_bytes (word_of_int (se_section_id se)) @
     word_of_nat (length (se_idstr se)) # se_idstr se @
     be32_bytes (word_of_int (se_instance_id se)) @ be32_bytes (word_of_int (se_version_id se))"

definition state_bytes :: "'m SaveStateEntry \<Rightarrow> 'm \<Rightarrow> u8 list" where
  "state_bytes se m = (case vmstate_save se of None \<Rightarrow> [] | Some save \<Rightarrow> save m)"

definition sections_bytes :: "'m SaveStateEntry list \<Rightarrow> 'm \<Rightarrow> u8 list" where
  "sections_bytes hs m = concat (map (\<lambda>se. header_bytes QEMU_VM_SECTION_FULL se @ state_bytes se m) hs)"

definition vm_bytes :: "'m SaveStateEntry list \<Rightarrow> 'm \<Rightarrow> u8 list" where
  "vm_bytes hs m = be32_bytes QEMU_VM_FILE_MAGIC @ be32_bytes QEMU_VM_FILE_VERSION @
     sections_bytes hs m @ [QEMU_VM_EOF]"

text \<open>An entry of the kind every goldfish device registers.\<close>

definition plain_entry :: "'m SaveStateEntry \<Rightarrow> bool" where
  "plain_entry se \<longleftrightarrow> \<not> se_no_migrate se \<and> live_saver se = None \<and> vmstate_save se \<noteq> None \<and>
     length (se_idstr se) < 256 \<and> 0 \<notin> set (se_idstr se) \<and>
     0 \<le> se_instance_id se \<and> se_instance_id se < 2 ^ 31 \<and> 0 \<le> se_version_id se \<and> se_version_id se < 2 ^ 31"

lemma put_header_bytes:
  assumes "writer_ok f"
  shows "writer_ok (put_section_header stdio_file_write_ops type se f)"
    and "file_bytes (\<lambda>fp. fp) (put_section_header stdio_file_write_ops type se f) =
      file_bytes (\<lambda>fp. fp) f @ header_bytes type se"
  using assms by (simp_all add: put_section_header_def Let_def stdio_w.put_bytes header_bytes_def)

lemma full_loop_bytes:
  assumes "writer_ok f" and "list_all plain_entry hs"
  shows "writer_ok (savevm_full_loop stdio_file_write_ops hs m f) \<and>
    file_bytes (\<lambda>fp. fp) (savevm_full_loop stdio_file_write_ops hs m f) =
      file_bytes (\<lambda>fp. fp) f @ sections_bytes hs m"
  using assms
proof (induction hs arbitrary: f)
  case (Cons se hs)
  then obtain save where save: "vmstate_save se = Some save" by (auto simp: plain_entry_def)
  let ?f = "qemu_put_buffer stdio_file_write_ops
    (put_section_header stdio_file_write_ops QEMU_VM_SECTION_FULL se f) (save m)"
  have "writer_ok ?f" "file_bytes (\<lambda>fp. fp) ?f =
      file_bytes (\<lambda>fp. fp) f @ header_bytes QEMU_VM_SECTION_FULL se @ save m"
    by (simp_all add: put_header_bytes [OF Cons.prems(1)] stdio_w.put_bytes)
  then show ?case using Cons.IH [of ?f] Cons.prems(2) save by (simp add: sections_bytes_def state_bytes_def)
qed (simp add: sections_bytes_def)

lemma no_live_loops:
  assumes "list_all plain_entry hs"
  shows "savevm_begin_loop ops hs m f = (m, f)" "savevm_end_loop ops hs m f = (m, f)"
    "qemu_savevm_state_iterate ops True hs m f = (1, m, f)" "\<not> qemu_savevm_state_blocked hs"
  using assms by (induction hs) (auto simp: plain_entry_def qemu_savevm_state_blocked_def)

lemma savevm_bytes:
  assumes "list_all plain_entry hs"
  shows "\<exists>f. qemu_savevm_state stdio_file_write_ops hs running m (qemu_fopen_ops []) = Some (0, m, f, running) \<and>
    f_opaque f = vm_bytes hs m"
proof -
  let ?w = stdio_file_write_ops
  let ?f = "qemu_put_be32 ?w (qemu_put_be32 ?w (qemu_fopen_ops []) QEMU_VM_FILE_MAGIC) QEMU_VM_FILE_VERSION"
  let ?g = "qemu_put_byte ?w (savevm_full_loop ?w hs m ?f) QEMU_VM_EOF"
  have o: "writer_ok (qemu_fopen_ops ([] :: u8 list))" "file_bytes (\<lambda>fp. fp) (qemu_fopen_ops []) = []"
    by (simp_all add: writer_ok_def qemu_fopen_ops_def file_bytes_def IO_BUF_SIZE_def)
  then have f: "writer_ok ?f" "file_bytes (\<lambda>fp. fp) ?f = be32_bytes QEMU_VM_FILE_MAGIC @ be32_bytes QEMU_VM_FILE_VERSION"
    by (simp_all add: stdio_w.put_bytes)
  have g: "writer_ok ?g" "file_bytes (\<lambda>fp. fp) ?g = vm_bytes hs m"
    using full_loop_bytes [OF f(1) assms, of m] f(2) by (simp_all add: stdio_w.put_bytes vm_bytes_def)
  then have h: "f_opaque (qemu_fflush ?w ?g) = vm_bytes hs m" "f_last_error (qemu_fflush ?w ?g) = 0"
    using stdio_w.fflush_bytes [of ?g] by (simp_all add: writer_ok_def)
  have e: "f_last_error ?f = 0" using f(1) by (simp add: writer_ok_def)
  have "qemu_savevm_state ?w hs running m (qemu_fopen_ops []) = Some (0, m, qemu_fflush ?w ?g, running)"
    using e h(2) by (simp add: qemu_savevm_state_def qemu_savevm_state_begin_def Let_def no_live_loops [OF assms]
        savevm_iterate_loop.simps [of _ hs] qemu_savevm_state_complete_def qemu_file_get_error_def)
  then show ?thesis using h(1) by blast
qed

text \<open>
  The contract of the handlers: each loads what it saved, \<open>restored se m t\<close> being the machine \<open>t\<close>
  with the part of the handler \<open>se\<close> taken from \<open>m\<close>, and each is found in the registry under its
  identifier. \<open>valid m t\<close> says that the snapshot of \<open>m\<close> can be loaded into \<open>t\<close>, which every handler keeps. Loading a snapshot then restores the parts of all the handlers, in the order of the
  registry.
\<close>

locale vm_snapshot =
  fixes hs :: "'m SaveStateEntry list"
    and valid :: "'m \<Rightarrow> 'm \<Rightarrow> bool"
    and restored :: "'m SaveStateEntry \<Rightarrow> 'm \<Rightarrow> 'm \<Rightarrow> 'm"
  assumes plain: "list_all plain_entry hs"
    and found: "se \<in> set hs \<Longrightarrow> find_se (se_idstr se) (se_instance_id se) hs = Some se"
    and load_save: "se \<in> set hs \<Longrightarrow> valid m t \<Longrightarrow>
      vmstate_load se \<lparr>rs_bytes = state_bytes se m @ bs, rs_error = e\<rparr> t (se_version_id se) =
        Inr (0, restored se m t, \<lparr>rs_bytes = bs, rs_error = e\<rparr>)"
    and keep: "se \<in> set hs \<Longrightarrow> valid m t \<Longrightarrow> valid m (restored se m t)"
begin

lemma loop_sections:
  assumes "valid m t" and "set hs' \<subseteq> set hs"
  shows "loadvm_loop hs les t \<lparr>rs_bytes = sections_bytes hs' m @ QEMU_VM_EOF # bs, rs_error = e\<rparr> =
    Some (Inr (0, fold (\<lambda>se. restored se m) hs' t, \<lparr>rs_bytes = bs, rs_error = e\<rparr>))"
  using assms
proof (induction hs' arbitrary: les t)
  case Nil
  then show ?case by (subst loadvm_loop.simps) (simp add: sections_bytes_def stream_get)
next
  case (Cons se hs')
  have se: "plain_entry se" "se \<in> set hs" using Cons.prems plain by (auto simp: list_all_iff)
  have i: "sint (word_of_int (se_instance_id se) :: u32) = se_instance_id se"
    "sint (word_of_int (se_version_id se) :: u32) = se_version_id se"
    using se(1) by (simp_all add: plain_entry_def sint_sbintrunc' signed_take_bit_int_eq_self)
  have l: "unat (word_of_nat (length (se_idstr se)) :: u8) = length (se_idstr se)"
    using se(1) by (simp add: plain_entry_def unat_of_nat)
  have w: "takeWhile (\<lambda>c. c \<noteq> 0) (se_idstr se) = se_idstr se"
    using se(1) by (auto simp: plain_entry_def takeWhile_eq_all_conv)
  show ?case
    by (subst loadvm_loop.simps)
      (use Cons.IH [of "restored se m t"] keep [OF se(2) Cons.prems(1)] Cons.prems in
        \<open>simp add: sections_bytes_def header_bytes_def stream_get l w i found [OF se(2)]
          load_save [OF se(2) Cons.prems(1)] qemu_vm_defs\<close>)
qed

lemma loadvm_savevm:
  assumes "valid m t"
  shows "qemu_loadvm_state hs t \<lparr>rs_bytes = vm_bytes hs m @ bs, rs_error = 0\<rparr> =
    Some (Inr (0, fold (\<lambda>se. restored se m) hs t, \<lparr>rs_bytes = bs, rs_error = 0\<rparr>))"
  using loop_sections [OF assms, of hs]
  by (simp add: qemu_loadvm_state_def no_live_loops [OF plain] vm_bytes_def stream_get)

end

section \<open>Properties\<close>

text \<open>Registration with an automatic instance number always succeeds, gives the new handler the next section number
  and an instance number that no handler of the same name has, keeps every earlier handler findable under its own name and
  instance, and makes the new one findable.\<close>

theorem register_found:
  assumes "registry_ok (savevm_handlers s)"
  shows "\<exists>s' se. register_savevm None idstr (- 1) version_id save load s = Inr s' \<and>
    savevm_handlers s' = savevm_handlers s @ [se] \<and> registry_ok (savevm_handlers s') \<and>
    se_section_id se = global_section_id s \<and> global_section_id s' = global_section_id s + 1 \<and>
    (\<forall>old \<in> set (savevm_handlers s). se_idstr old = se_idstr se \<longrightarrow> se_instance_id old \<noteq> se_instance_id se) \<and>
    find_se (take 255 idstr) (se_instance_id se) (savevm_handlers s') = Some se"
proof -
  let ?id = "take 255 idstr"
  define se where "se = \<lparr>se_idstr = ?id, se_instance_id = calculate_new_instance_id ?id (savevm_handlers s),
    se_alias_id = 0, se_version_id = version_id, se_section_id = global_section_id s,
    se_ops = Some \<lparr>h_save_state = Some save, h_save_live_state = None, h_load_state = load\<rparr>,
    se_vmsd = None, se_compat = None, se_no_migrate = False, se_is_ram = False\<rparr>"
  have r: "register_savevm None idstr (- 1) version_id save load s =
      Inr (s\<lparr>savevm_handlers := savevm_handlers s @ [se], global_section_id := global_section_id s + 1\<rparr>)"
    by (simp add: register_savevm_def register_savevm_live_def add_handler_def pstrcat_def se_def Let_def)
  have f: "find_se (se_idstr se) (se_instance_id se) (savevm_handlers s) = None"
    using fresh_not_found [OF assms, of ?id] by (simp add: se_def)
  have "registry_ok (savevm_handlers s @ [se])" "find_se (se_idstr se) (se_instance_id se) (savevm_handlers s @ [se]) = Some se"
    using registry_ok_snoc [OF assms f] new_instance_id(2) [of ?id "savevm_handlers s"] by (simp_all add: se_def)
  moreover have "se_instance_id old \<noteq> se_instance_id se" if "old \<in> set (savevm_handlers s)" "se_idstr old = ?id" for old
    using new_instance_id(1) [OF that(1), of ?id] that(2) by (simp add: se_def)
  ultimately show ?thesis using r by (intro exI conjI) (auto simp: se_def)
qed

theorem register_found_witness:
  "registry_ok (savevm_handlers (empty_savevm :: unit savevm)) \<and>
   (\<exists>s' se. register_savevm None [114, 97, 109] (- 1) 3 (\<lambda>_. []) (\<lambda>f m v. Inr (0, m, f)) (empty_savevm :: unit savevm) = Inr s' \<and>
      find_se [114, 97, 109] (se_instance_id se) (savevm_handlers s') = Some se)"
proof -
  have "registry_ok (savevm_handlers (empty_savevm :: unit savevm))"
    by (simp add: registry_ok_def empty_savevm_def)
  then show ?thesis
    using register_found [of "empty_savevm :: unit savevm" "[114, 97, 109]" 3 "\<lambda>_. []" "\<lambda>f m v. Inr (0, m, f)"] by auto
qed

text \<open>C40: A file that is not a snapshot is rejected before any device state is touched: a wrong magic number gives
  \<open>- EINVAL\<close>, another format version \<open>- ENOTSUP\<close>, and the machine is unchanged.\<close>

theorem loadvm_rejects:
  assumes "\<not> qemu_savevm_state_blocked hs"
    and "magic \<noteq> QEMU_VM_FILE_MAGIC \<or> version \<noteq> QEMU_VM_FILE_VERSION"
  shows "\<exists>ret f'. qemu_loadvm_state hs m \<lparr>rs_bytes = be32_bytes magic @ be32_bytes version @ bs, rs_error = 0\<rparr> =
      Some (Inr (ret, m, f')) \<and> ret = (if magic \<noteq> QEMU_VM_FILE_MAGIC then - EINVAL else - ENOTSUP)"
  using assms by (auto simp: qemu_loadvm_state_def stream_get)

theorem loadvm_rejects_witness:
  "\<exists>f'. qemu_loadvm_state ([] :: nat SaveStateEntry list) 7 \<lparr>rs_bytes = be32_bytes QEMU_VM_FILE_MAGIC @ be32_bytes 3, rs_error = 0\<rparr> =
      Some (Inr (- ENOTSUP, 7, f'))"
  using loadvm_rejects [of "[] :: nat SaveStateEntry list" QEMU_VM_FILE_MAGIC 3 7 "[]"]
  by (auto simp: qemu_savevm_state_blocked_def QEMU_VM_FILE_VERSION_def)

end
