(* ===== verification/Goldfish_Timer.thy ===== *)
theory Goldfish_Timer
  imports Savevm Goldfish_Device
begin

text \<open>
  The goldfish timer and real-time clock, \<open>hw/android/goldfish/timer.c\<close>. Times are 64-bit signed
  nanosecond counts, kept as words and compared as signed integers. The value of the virtual clock at
  the time of an operation, and the host time of the real-time clock, are arguments; the \<open>QEMUTimer\<close>
  of the device is the expiry time set by \<open>timer_mod\<close>, \<open>None\<close> when it is not pending.
\<close>

section \<open>State and registers\<close>

definition TIMER_TIME_LOW :: u64 where "TIMER_TIME_LOW = 0x00"
definition TIMER_TIME_HIGH :: u64 where "TIMER_TIME_HIGH = 0x04"
definition TIMER_ALARM_LOW :: u64 where "TIMER_ALARM_LOW = 0x08"
definition TIMER_ALARM_HIGH :: u64 where "TIMER_ALARM_HIGH = 0x0c"
definition TIMER_CLEAR_INTERRUPT :: u64 where "TIMER_CLEAR_INTERRUPT = 0x10"
definition TIMER_CLEAR_ALARM :: u64 where "TIMER_CLEAR_ALARM = 0x14"

lemmas timer_reg_defs = TIMER_TIME_LOW_def TIMER_TIME_HIGH_def TIMER_ALARM_LOW_def TIMER_ALARM_HIGH_def
  TIMER_CLEAR_INTERRUPT_def TIMER_CLEAR_ALARM_def

record timer_state =
  tm_dev :: goldfish_device
  tm_alarm_low_ns :: u32
  tm_alarm_high_ns :: u32
  tm_now_ns :: u64
  tm_armed :: u32
  tm_timer :: "u64 option"

definition GOLDFISH_TIMER_SAVE_VERSION :: int where "GOLDFISH_TIMER_SAVE_VERSION = 1"

text \<open>The 64-bit alarm time of the two registers; the high one is signed.\<close>

definition alarm_ns :: "timer_state \<Rightarrow> u64" where
  "alarm_ns s = ucast (tm_alarm_low_ns s) OR push_bit 32 (scast (tm_alarm_high_ns s))"

section \<open>Snapshots\<close>

definition goldfish_timer_save :: "u64 \<Rightarrow> timer_state \<Rightarrow> u8 list" where
  "goldfish_timer_save now s =
     be64_bytes (tm_now_ns s) @ [ucast (tm_armed s)] @
     (if tm_armed s \<noteq> 0 then be64_bytes (alarm_ns s - now) else [])"

definition goldfish_timer_load ::
  "u64 \<Rightarrow> rstream \<Rightarrow> timer_state \<Rightarrow> int \<Rightarrow> (int \<times> timer_state \<times> rstream \<times> irq_out list) res" where
  "goldfish_timer_load now f s version_id =
     (if version_id \<noteq> GOLDFISH_TIMER_SAVE_VERSION then Inr (-1, s, f, [])
      else let (now_ns, f1) = st_get_be64 f;
               (armed, f2) = st_get_byte f1;
               s1 = s\<lparr>tm_now_ns := now_ns, tm_armed := ucast armed\<rparr>
           in if armed \<noteq> 0
              then let (diff, f3) = st_get_be64 f2; alarm = now + diff
                   in if sint alarm \<le> sint now
                      then res_bind (goldfish_device_set_irq (tm_dev s1) 0 True)
                             (\<lambda>os. Inr (0, s1\<lparr>tm_armed := 0\<rparr>, f3, os))
                      else Inr (0, s1\<lparr>tm_timer := Some alarm\<rparr>, f3, [])
              else Inr (0, s1, f2, []))"

section \<open>The timer\<close>

definition goldfish_timer_read :: "u64 \<Rightarrow> u64 \<Rightarrow> timer_state \<Rightarrow> (u32 \<times> timer_state) res" where
  "goldfish_timer_read now offset s =
     (if offset = TIMER_TIME_LOW then Inr (ucast now, s\<lparr>tm_now_ns := now\<rparr>)
      else if offset = TIMER_TIME_HIGH then Inr (ucast (signed_drop_bit 32 (tm_now_ns s)), s)
      else Inl Cpu_Abort)"

definition goldfish_timer_write ::
  "u64 \<Rightarrow> u64 \<Rightarrow> u32 \<Rightarrow> timer_state \<Rightarrow> (timer_state \<times> irq_out list) res" where
  "goldfish_timer_write now offset value_ns s =
     (if offset = TIMER_ALARM_LOW then
        let s1 = s\<lparr>tm_alarm_low_ns := value_ns\<rparr>; alarm = alarm_ns s1
        in if sint alarm \<le> sint now
           then res_bind (goldfish_device_set_irq (tm_dev s1) 0 True) (\<lambda>os. Inr (s1, os))
           else Inr (s1\<lparr>tm_timer := Some alarm, tm_armed := 1\<rparr>, [])
      else if offset = TIMER_ALARM_HIGH then Inr (s\<lparr>tm_alarm_high_ns := value_ns\<rparr>, [])
      else if offset = TIMER_CLEAR_ALARM then
        let s1 = s\<lparr>tm_timer := None, tm_armed := 0\<rparr>
        in res_bind (goldfish_device_set_irq (tm_dev s1) 0 False) (\<lambda>os. Inr (s1, os))
      else if offset = TIMER_CLEAR_INTERRUPT then
        res_bind (goldfish_device_set_irq (tm_dev s) 0 False) (\<lambda>os. Inr (s, os))
      else Inl Cpu_Abort)"

definition goldfish_timer_tick :: "timer_state \<Rightarrow> (timer_state \<times> irq_out list) res" where
  "goldfish_timer_tick s =
     (let s1 = s\<lparr>tm_armed := 0\<rparr>
      in res_bind (goldfish_device_set_irq (tm_dev s1) 0 True) (\<lambda>os. Inr (s1, os)))"

text \<open>
  The clock of the emulator runs the callback of a timer, which is then no longer pending, once its
  expiry time has come.
\<close>

definition timer_run :: "u64 \<Rightarrow> timer_state \<Rightarrow> (timer_state \<times> irq_out list) res" where
  "timer_run now s =
     (case tm_timer s of
        Some t \<Rightarrow> if sint t \<le> sint now then goldfish_timer_tick (s\<lparr>tm_timer := None\<rparr>) else Inr (s, [])
      | None \<Rightarrow> Inr (s, []))"

definition initial_timer :: "u32 \<Rightarrow> u32 \<Rightarrow> timer_state" where
  "initial_timer timerbase timerirq =
     \<lparr>tm_dev = \<lparr>d_reported_state = 0, d_name = ''goldfish_timer'', d_id = - 1, d_base = timerbase,
        d_size = 0x1000, d_irq = timerirq, d_irq_count = 1\<rparr>,
      tm_alarm_low_ns = 0, tm_alarm_high_ns = 0, tm_now_ns = 0, tm_armed = 0, tm_timer = None\<rparr>"

section \<open>The real-time clock\<close>

record rtc_state =
  rtc_dev :: goldfish_device
  rtc_alarm_low :: u32
  rtc_alarm_high :: u32
  rtc_now :: u64

definition GOLDFISH_RTC_SAVE_VERSION :: int where "GOLDFISH_RTC_SAVE_VERSION = 1"

definition goldfish_rtc_save :: "rtc_state \<Rightarrow> u8 list" where
  "goldfish_rtc_save s = be64_bytes (rtc_now s)"

definition goldfish_rtc_load :: "rstream \<Rightarrow> rtc_state \<Rightarrow> int \<Rightarrow> int \<times> rtc_state \<times> rstream" where
  "goldfish_rtc_load f s version_id =
     (if version_id \<noteq> GOLDFISH_RTC_SAVE_VERSION then (-1, s, f)
      else let (now, f1) = st_get_be64 f in (0, s\<lparr>rtc_now := now\<rparr>, f1))"

text \<open>\<open>time_s\<close> is the result of \<open>time(NULL)\<close>.\<close>

definition goldfish_rtc_read :: "u64 \<Rightarrow> u64 \<Rightarrow> rtc_state \<Rightarrow> (u32 \<times> rtc_state) res" where
  "goldfish_rtc_read time_s offset s =
     (if offset = 0x0 then let now = time_s * 1000000000 in Inr (ucast now, s\<lparr>rtc_now := now\<rparr>)
      else if offset = 0x4 then Inr (ucast (signed_drop_bit 32 (rtc_now s)), s)
      else Inl Cpu_Abort)"

definition goldfish_rtc_write :: "u64 \<Rightarrow> u32 \<Rightarrow> rtc_state \<Rightarrow> (rtc_state \<times> irq_out list) res" where
  "goldfish_rtc_write offset v s =
     (if offset = 0x8 then Inr (s\<lparr>rtc_alarm_low := v\<rparr>, [])
      else if offset = 0xc then Inr (s\<lparr>rtc_alarm_high := v\<rparr>, [])
      else if offset = 0x10 then res_bind (goldfish_device_set_irq (rtc_dev s) 0 False) (\<lambda>os. Inr (s, os))
      else Inl Cpu_Abort)"

definition initial_rtc :: rtc_state where
  "initial_rtc =
     \<lparr>rtc_dev = \<lparr>d_reported_state = 0, d_name = ''goldfish_rtc'', d_id = - 1, d_base = 0,
        d_size = 0x1000, d_irq = 0, d_irq_count = 1\<rparr>, rtc_alarm_low = 0, rtc_alarm_high = 0, rtc_now = 0\<rparr>"

section \<open>Joining the halves of a time\<close>

definition join_halves :: "u32 \<Rightarrow> u32 \<Rightarrow> u64" where
  "join_halves high low = push_bit 32 (ucast high) OR ucast low"

lemma join_read: "join_halves (ucast (signed_drop_bit 32 t)) (ucast t) = t" for t :: u64
  by (rule bit_word_eqI) (auto simp: join_halves_def bit_simps)

lemma push_scast: "push_bit 32 (scast (v :: u32)) = (push_bit 32 (ucast v) :: u64)"
  by (rule bit_word_eqI) (auto simp: bit_simps)

lemma alarm_ns_halves: "alarm_ns s = join_halves (tm_alarm_high_ns s) (tm_alarm_low_ns s)"
  by (simp add: alarm_ns_def join_halves_def push_scast or.commute)

lemma join_split: "join_halves (ucast (drop_bit 32 t)) (ucast t) = t" for t :: u64
  by (rule bit_word_eqI) (auto simp: join_halves_def bit_simps)

section \<open>Properties\<close>

text \<open>A driver that reads the low half and then the high half gets one consistent 64-bit time, the time of the first
  read, even when the clock advances between the two reads.\<close>

theorem timer_read_consistent:
  "\<exists>low high s1 s2. goldfish_timer_read now TIMER_TIME_LOW s = Inr (low, s1) \<and>
     goldfish_timer_read later TIMER_TIME_HIGH s1 = Inr (high, s2) \<and> join_halves high low = now"
  by (simp add: goldfish_timer_read_def timer_reg_defs join_read)

text \<open>The clock running over a list of times.\<close>

fun run_clock :: "u64 list \<Rightarrow> timer_state \<Rightarrow> (timer_state \<times> irq_out list) res" where
  "run_clock [] s = Inr (s, [])"
| "run_clock (t # ts) s =
     res_bind (timer_run t s) (\<lambda>(s1, os). res_bind (run_clock ts s1) (\<lambda>(s2, os'). Inr (s2, os @ os')))"

lemma run_clock_none: "tm_timer s = None \<Longrightarrow> run_clock ts s = Inr (s, [])"
  by (induction ts) (auto simp: timer_run_def)

lemma run_clock_pending:
  assumes "tm_timer s = Some t" and "0 < d_irq_count (tm_dev s)"
  shows "run_clock ts s =
    (if \<exists>now \<in> set ts. sint t \<le> sint now
     then Inr (s\<lparr>tm_timer := None, tm_armed := 0\<rparr>, [(d_irq (tm_dev s), True)]) else Inr (s, []))"
  using assms
  by (induction ts) (auto simp: timer_run_def goldfish_timer_tick_def run_clock_none)

text \<open>The alarm. A driver that writes the high and the low half of an alarm time gets its interrupt at once when the
  time has passed already; otherwise nothing happens until the clock shows that time, and then exactly one interrupt is
  raised and the alarm is disarmed.\<close>

theorem timer_alarm:
  fixes alarm now :: u64
  assumes "0 < d_irq_count (tm_dev s)"
  shows "\<exists>s1 s2 os. goldfish_timer_write now TIMER_ALARM_HIGH (ucast (drop_bit 32 alarm)) s = Inr (s1, []) \<and>
    goldfish_timer_write now TIMER_ALARM_LOW (ucast alarm) s1 = Inr (s2, os) \<and>
    (if sint alarm \<le> sint now then os = [(d_irq (tm_dev s), True)] \<and> tm_timer s2 = tm_timer s
     else os = [] \<and> tm_armed s2 = 1 \<and>
       (\<forall>ts. \<exists>s3. run_clock ts s2 =
          Inr (s3, if \<exists>t \<in> set ts. sint alarm \<le> sint t then [(d_irq (tm_dev s), True)] else []) \<and>
          (tm_armed s3 = 0) = (\<exists>t \<in> set ts. sint alarm \<le> sint t)))"
proof -
  let ?s1 = "s\<lparr>tm_alarm_high_ns := ucast (drop_bit 32 alarm)\<rparr>"
  let ?s2 = "?s1\<lparr>tm_alarm_low_ns := ucast alarm\<rparr>"
  let ?s3 = "?s2\<lparr>tm_timer := Some alarm, tm_armed := 1\<rparr>"
  have w: "goldfish_timer_write now TIMER_ALARM_HIGH (ucast (drop_bit 32 alarm)) s = Inr (?s1, [])"
    by (simp add: goldfish_timer_write_def timer_reg_defs)
  have a: "alarm_ns ?s2 = alarm" by (simp add: alarm_ns_halves join_split)
  have l: "goldfish_timer_write now TIMER_ALARM_LOW (ucast alarm) ?s1 =
    (if sint alarm \<le> sint now then Inr (?s2, [(d_irq (tm_dev s), True)]) else Inr (?s3, []))"
    using assms a by (simp add: goldfish_timer_write_def timer_reg_defs Let_def)
  have "\<forall>ts. \<exists>s3. run_clock ts ?s3 =
          Inr (s3, if \<exists>t \<in> set ts. sint alarm \<le> sint t then [(d_irq (tm_dev s), True)] else []) \<and>
          (tm_armed s3 = 0) = (\<exists>t \<in> set ts. sint alarm \<le> sint t)"
    using run_clock_pending [of ?s3 alarm] assms by simp
  then show ?thesis using w l by (cases "sint alarm \<le> sint now") auto
qed

theorem timer_alarm_witness:
  "\<exists>s1 s2. goldfish_timer_write 100 TIMER_ALARM_HIGH 0 (initial_timer 0 3) = Inr (s1, []) \<and>
     goldfish_timer_write 100 TIMER_ALARM_LOW 500 s1 = Inr (s2, []) \<and>
     (\<exists>s3. run_clock [200, 499] s2 = Inr (s3, [])) \<and> (\<exists>s3. run_clock [200, 499, 510, 520] s2 = Inr (s3, [(3, True)]))"
proof -
  have d: "0 < d_irq_count (tm_dev (initial_timer 0 3))" "d_irq (tm_dev (initial_timer 0 3)) = 3"
    by (simp_all add: initial_timer_def)
  obtain s1 s2 where s: "goldfish_timer_write 100 TIMER_ALARM_HIGH 0 (initial_timer 0 3) = Inr (s1, [])"
    "goldfish_timer_write 100 TIMER_ALARM_LOW 500 s1 = Inr (s2, [])"
    "\<forall>ts. \<exists>s3. run_clock ts s2 =
          Inr (s3, if \<exists>t \<in> set ts. sint (500 :: u64) \<le> sint t then [(d_irq (tm_dev (initial_timer 0 3)), True)] else [])"
    using timer_alarm [OF d(1), of 100 500] by simp blast
  have "\<exists>s3. run_clock [200, 499] s2 = Inr (s3, [])" using s(3) [rule_format, of "[200, 499]"] by simp
  moreover have "\<exists>s3. run_clock [200, 499, 510, 520] s2 = Inr (s3, [(3, True)])"
    using s(3) [rule_format, of "[200, 499, 510, 520]"] by (simp add: d(2))
  ultimately show ?thesis using s(1,2) by blast
qed

text \<open>Snapshots keep the remaining time of the alarm: a snapshot taken at time \<open>now\<close> with an alarm pending in the
  future, loaded at any time \<open>now'\<close>, makes the timer expire at the time that is as far in the future of \<open>now'\<close> as
  the alarm was from \<open>now\<close>, with no interrupt raised by the load and nothing of the stream left.\<close>

theorem timer_snapshot_remaining:
  assumes "tm_armed s = 1" and "sint now' < sint (now' + (alarm_ns s - now))"
  shows "goldfish_timer_load now' \<lparr>rs_bytes = goldfish_timer_save now s @ bs, rs_error = e\<rparr> t GOLDFISH_TIMER_SAVE_VERSION =
    Inr (0, t\<lparr>tm_now_ns := tm_now_ns s, tm_armed := 1, tm_timer := Some (now' + (alarm_ns s - now))\<rparr>,
      \<lparr>rs_bytes = bs, rs_error = e\<rparr>, [])"
  using assms by (simp add: goldfish_timer_load_def goldfish_timer_save_def stream_get not_le)

theorem timer_snapshot_remaining_witness:
  "goldfish_timer_load 1000 \<lparr>rs_bytes = goldfish_timer_save 200
       ((initial_timer 0 3)\<lparr>tm_alarm_low_ns := 500, tm_armed := 1, tm_timer := Some 500\<rparr>), rs_error = 0\<rparr>
     (initial_timer 0 3) 1 =
   Inr (0, (initial_timer 0 3)\<lparr>tm_armed := 1, tm_timer := Some 1300\<rparr>, \<lparr>rs_bytes = [], rs_error = 0\<rparr>, [])"
  using timer_snapshot_remaining [of "(initial_timer 0 3)\<lparr>tm_alarm_low_ns := 500, tm_armed := 1, tm_timer := Some 500\<rparr>"
      1000 200 "[]" 0 "initial_timer 0 3"]
  by (simp add: alarm_ns_def initial_timer_def GOLDFISH_TIMER_SAVE_VERSION_def)

text \<open>The alarm registers themselves are not part of a snapshot, and a second snapshot, taken after a load, is computed
  from them: saving a loaded state, in a machine whose alarm registers are still zero, records an alarm that is overdue
  instead of the pending one, so that loading the second snapshot raises the interrupt at once.\<close>

theorem timer_second_snapshot:
  "let s = (initial_timer 0 3)\<lparr>tm_alarm_low_ns := 500, tm_armed := 1, tm_timer := Some 500\<rparr> in
   \<exists>t. goldfish_timer_load 1000 \<lparr>rs_bytes = goldfish_timer_save 200 s, rs_error = 0\<rparr> (initial_timer 0 3) 1 =
       Inr (0, t, \<lparr>rs_bytes = [], rs_error = 0\<rparr>, []) \<and> tm_timer t = Some 1300 \<and>
     (\<exists>t'. goldfish_timer_load 1000 \<lparr>rs_bytes = goldfish_timer_save 1000 t, rs_error = 0\<rparr> (initial_timer 0 3) 1 =
       Inr (0, t', \<lparr>rs_bytes = [], rs_error = 0\<rparr>, [(3, True)]) \<and> tm_armed t' = 0)"
  by (simp add: goldfish_timer_load_def goldfish_timer_save_def GOLDFISH_TIMER_SAVE_VERSION_def alarm_ns_def
      initial_timer_def stream_get get_be64_append [where bs = "[]", simplified] Let_def)

end
