(* ===== verification/Guest_Memory.thy ===== *)
theory Guest_Memory
  imports Prelude
begin

text \<open>
  Access to guest memory through guest virtual addresses: \<open>cpu_memory_rw_debug\<close> of \<open>exec.c\<close> and its
  wrapper \<open>safe_memory_rw_debug\<close> of \<open>hw/android/goldfish/vmem.c\<close>, through which the devices copy
  buffers from and to the guest. The page tables of the guest, walked by \<open>cpu_get_phys_page_debug\<close>,
  are a parameter \<open>phys_page\<close>: \<open>None\<close> is the result -1, no page mapped. Physical memory is a function
  from physical addresses to bytes; addresses have 64 bits.
\<close>

type_synonym phys_mem = "u64 \<Rightarrow> u8"

record guest_mmu =
  page_bits :: nat
  phys_page :: "u64 \<Rightarrow> u64 option"

definition mem_window :: "phys_mem \<Rightarrow> u64 \<Rightarrow> nat \<Rightarrow> u8 list" where
  "mem_window mem a n = map (\<lambda>i. mem (a + word_of_nat i)) [0..<n]"

fun mem_blit :: "phys_mem \<Rightarrow> u64 \<Rightarrow> u8 list \<Rightarrow> phys_mem" where
  "mem_blit mem a [] = mem"
| "mem_blit mem a (b # bs) = mem_blit (mem(a := b)) (a + 1) bs"

definition page_room :: "guest_mmu \<Rightarrow> u64 \<Rightarrow> nat" where
  "page_room u addr = 2 ^ page_bits u - unat (addr AND mask (page_bits u))"

lemma page_room_pos [simp]: "0 < page_room u addr"
  by (simp add: page_room_def unat_and_mask)

lemma mem_blit_append:
  "mem_blit mem a (xs @ ys) = mem_blit (mem_blit mem a xs) (a + word_of_nat (length xs)) ys"
  by (induction xs arbitrary: mem a) (simp_all add: add.assoc)

lemma mem_blit_outside:
  "(\<And>i. i < length xs \<Longrightarrow> p \<noteq> a + word_of_nat i) \<Longrightarrow> mem_blit mem a xs p = mem p"
proof (induction xs arbitrary: mem a)
  case (Cons x xs)
  have "p \<noteq> a" using Cons.prems [of 0] by simp
  moreover have "p \<noteq> (a + 1) + word_of_nat i" if "i < length xs" for i
    using Cons.prems [of "Suc i"] that by (simp add: add.assoc)
  ultimately show ?case using Cons.IH by simp
qed simp

lemma offset_neq: "i \<noteq> j \<Longrightarrow> i < 2 ^ 64 \<Longrightarrow> j < 2 ^ 64 \<Longrightarrow> a + word_of_nat i \<noteq> a + (word_of_nat j :: u64)"
  by (simp add: word_of_nat_eq_iff take_bit_nat_eq_self)

lemma mem_window_blit:
  "length xs \<le> 2 ^ 64 \<Longrightarrow> mem_window (mem_blit mem a xs) a (length xs) = xs"
proof (induction xs arbitrary: mem a)
  case (Cons x xs)
  have "mem_blit (mem(a := x)) (a + 1) xs a = x"
    using mem_blit_outside [of xs a "a + 1" "mem(a := x)"] offset_neq [of 0 "Suc i" a for i] Cons.prems
    by (force simp: add.assoc)
  then show ?case using Cons.IH [of "mem(a := x)" "a + 1"] Cons.prems
    by (simp add: mem_window_def upt_conv_Cons add.assoc fun_upd_def comp_def flip: map_Suc_upt del: upt_Suc)
qed (simp add: mem_window_def)

lemma mem_window_add:
  "mem_window mem a (m + n) = mem_window mem a m @ mem_window mem (a + word_of_nat m) n"
  by (rule nth_equalityI) (auto simp: mem_window_def nth_append add.assoc)

lemma length_mem_window [simp]: "length (mem_window mem a n) = n"
  by (simp add: mem_window_def)

section \<open>The page loop\<close>

text \<open>A read returns the bytes copied before it stopped, and 0 or -1; a write changes the memory.\<close>

function memory_read :: "guest_mmu \<Rightarrow> phys_mem \<Rightarrow> u64 \<Rightarrow> nat \<Rightarrow> int \<times> u8 list" where
  "memory_read u mem addr len =
     (if len = 0 then (0, [])
      else case phys_page u (addr AND NOT (mask (page_bits u))) of
             None \<Rightarrow> (-1, [])
           | Some phys_addr \<Rightarrow>
               let l = min (page_room u addr) len;
                   bs = mem_window mem (phys_addr + (addr AND mask (page_bits u))) l;
                   (ret, bs') = memory_read u mem (addr + word_of_nat l) (len - l)
               in (ret, bs @ bs'))"
  by pat_completeness auto
termination
  by (relation "measure (\<lambda>(u, mem, addr, len). len)") auto

function memory_write :: "guest_mmu \<Rightarrow> phys_mem \<Rightarrow> u64 \<Rightarrow> u8 list \<Rightarrow> int \<times> phys_mem" where
  "memory_write u mem addr bs =
     (if bs = [] then (0, mem)
      else case phys_page u (addr AND NOT (mask (page_bits u))) of
             None \<Rightarrow> (-1, mem)
           | Some phys_addr \<Rightarrow>
               let l = min (page_room u addr) (length bs)
               in memory_write u (mem_blit mem (phys_addr + (addr AND mask (page_bits u))) (take l bs))
                    (addr + word_of_nat l) (drop l bs))"
  by pat_completeness auto
termination
  by (relation "measure (\<lambda>(u, mem, addr, bs). length bs)") auto

declare memory_read.simps [simp del] memory_write.simps [simp del]

section \<open>Byte by byte\<close>

text \<open>The translation of one address, and the access to a range byte by byte.\<close>

definition translate :: "guest_mmu \<Rightarrow> u64 \<Rightarrow> u64 option" where
  "translate u addr =
     map_option (\<lambda>p. p + (addr AND mask (page_bits u))) (phys_page u (addr AND NOT (mask (page_bits u))))"

definition addr_range :: "u64 \<Rightarrow> nat \<Rightarrow> u64 list" where
  "addr_range addr n = map (\<lambda>i. addr + word_of_nat i) [0..<n]"

definition mapped :: "guest_mmu \<Rightarrow> u64 \<Rightarrow> nat \<Rightarrow> bool" where
  "mapped u addr n \<longleftrightarrow> list_all (\<lambda>a. translate u a \<noteq> None) (addr_range addr n)"

definition xlate :: "guest_mmu \<Rightarrow> u64 \<Rightarrow> u64" where
  "xlate u a = (case translate u a of Some p \<Rightarrow> p | None \<Rightarrow> 0)"

definition read_bytes :: "guest_mmu \<Rightarrow> phys_mem \<Rightarrow> u64 \<Rightarrow> nat \<Rightarrow> u8 list" where
  "read_bytes u mem addr n = map (\<lambda>a. mem (xlate u a)) (addr_range addr n)"

fun write_bytes :: "guest_mmu \<Rightarrow> phys_mem \<Rightarrow> u64 \<Rightarrow> u8 list \<Rightarrow> phys_mem" where
  "write_bytes u mem addr [] = mem"
| "write_bytes u mem addr (b # bs) = write_bytes u (mem(xlate u addr := b)) (addr + 1) bs"

lemma in_page_offset:
  assumes "i < page_room u addr" and "page_bits u < 64"
  shows "(addr + word_of_nat i) AND mask (page_bits u) = (addr AND mask (page_bits u)) + word_of_nat i"
proof -
  let ?n = "page_bits u"
  have i: "unat addr mod 2 ^ ?n + i < 2 ^ ?n"
    using assms by (simp add: page_room_def unat_and_mask)
  have two: "(2 :: nat) ^ ?n dvd 2 ^ 64" "(2 :: nat) ^ ?n \<le> 2 ^ 64"
    using le_imp_power_dvd [of ?n 64 "2 :: nat"] power_increasing [of ?n 64 "2 :: nat"] assms(2) by simp_all
  have "unat (addr + word_of_nat i) mod 2 ^ ?n = (unat addr + i) mod 2 ^ ?n"
    using two(1) by (simp add: unat_word_ariths unat_of_nat mod_mod_cancel mod_simps)
  also have "\<dots> = unat addr mod 2 ^ ?n + i" using i by (metis mod_add_left_eq mod_less)
  also have "\<dots> = unat ((addr AND mask ?n) + word_of_nat i)"
    using i two(2) by (simp add: unat_word_ariths unat_of_nat unat_and_mask mod_simps)
  finally show ?thesis by (intro word_unat_eq_iff [THEN iffD2]) (simp add: unat_and_mask)
qed

lemma split_page: "(a AND NOT (mask n)) + (a AND mask n) = (a :: 'a :: len word)"
proof -
  have "(a AND NOT (mask n)) + (a AND mask n) = (a AND NOT (mask n)) OR (a AND mask n)"
    by (rule disjunctive_add) (auto simp: bit_simps)
  also have "\<dots> = a" by (rule bit_word_eqI) (auto simp: bit_simps)
  finally show ?thesis .
qed

lemma in_page_base:
  assumes "i < page_room u addr" and "page_bits u < 64"
  shows "(addr + word_of_nat i) AND NOT (mask (page_bits u)) = addr AND NOT (mask (page_bits u))"
proof -
  let ?m = "mask (page_bits u)" and ?b = "addr + word_of_nat i"
  have "(?b AND NOT ?m) + ((addr AND ?m) + word_of_nat i) = addr + word_of_nat i"
    using split_page [of ?b "page_bits u"] in_page_offset [OF assms] by simp
  also have "\<dots> = (addr AND NOT ?m) + ((addr AND ?m) + word_of_nat i)"
    using split_page [of addr "page_bits u"] by (simp flip: add.assoc)
  finally show ?thesis by simp
qed

lemma translate_in_page:
  assumes "i < page_room u addr" and "page_bits u < 64"
  shows "translate u (addr + word_of_nat i) = map_option (\<lambda>p. p + word_of_nat i) (translate u addr)"
  by (simp add: translate_def in_page_offset [OF assms] in_page_base [OF assms] option.map_comp comp_def add.assoc)

lemma addr_range_0 [simp]: "addr_range addr 0 = []"
  by (simp add: addr_range_def)

lemma addr_range_Suc: "addr_range addr (Suc n) = addr # addr_range (addr + 1) n"
  by (simp add: addr_range_def upt_conv_Cons flip: map_Suc_upt del: upt_Suc)

lemma addr_range_add: "addr_range addr (m + n) = addr_range addr m @ addr_range (addr + word_of_nat m) n"
  by (rule nth_equalityI) (auto simp: addr_range_def nth_append add.assoc)

lemma read_bytes_add:
  "read_bytes u mem addr (m + n) = read_bytes u mem addr m @ read_bytes u mem (addr + word_of_nat m) n"
  by (simp add: read_bytes_def addr_range_add)

lemma mapped_add: "mapped u addr (m + n) \<longleftrightarrow> mapped u addr m \<and> mapped u (addr + word_of_nat m) n"
  by (simp add: mapped_def addr_range_add)

lemma write_bytes_append:
  "write_bytes u mem addr (xs @ ys) = write_bytes u (write_bytes u mem addr xs) (addr + word_of_nat (length xs)) ys"
  by (induction xs arbitrary: mem addr) (simp_all add: add.assoc)

lemma mapped_translate: "mapped u addr n \<Longrightarrow> 0 < n \<Longrightarrow> \<exists>p. translate u addr = Some p"
  by (cases n) (auto simp: mapped_def addr_range_Suc)

lemma page_mapped:
  assumes "translate u addr = Some q"
  obtains p where "phys_page u (addr AND NOT (mask (page_bits u))) = Some p"
    and "q = p + (addr AND mask (page_bits u))"
  using assms by (auto simp: translate_def)

lemma page_window:
  assumes "l \<le> page_room u addr" and "page_bits u < 64" and "translate u addr = Some q"
  shows "mem_window mem q l = read_bytes u mem addr l"
proof (rule nth_equalityI)
  fix i assume "i < length (mem_window mem q l)"
  then have i: "i < l" "i < page_room u addr" using assms(1) by (auto simp: mem_window_def)
  then show "mem_window mem q l ! i = read_bytes u mem addr l ! i"
    using translate_in_page [OF i(2) assms(2)] assms(3)
    by (simp add: mem_window_def read_bytes_def addr_range_def xlate_def)
qed (simp add: mem_window_def read_bytes_def addr_range_def)

lemma page_blit:
  assumes "k + length bs \<le> page_room u addr" and "page_bits u < 64" and "translate u addr = Some q"
  shows "mem_blit mem (q + word_of_nat k) bs = write_bytes u mem (addr + word_of_nat k) bs"
  using assms(1)
proof (induction bs arbitrary: mem k)
  case (Cons b bs)
  have "xlate u (addr + word_of_nat k) = q + word_of_nat k"
    using translate_in_page [of k u addr] assms(2,3) Cons.prems by (simp add: xlate_def)
  then show ?case using Cons.IH [of "Suc k" "mem(q + word_of_nat k := b)"] Cons.prems
    by (simp add: ac_simps fun_upd_def)
qed simp

lemma memory_read_mapped:
  assumes "mapped u addr n" and "page_bits u < 64"
  shows "memory_read u mem addr n = (0, read_bytes u mem addr n)"
  using assms(1)
proof (induction n arbitrary: addr rule: less_induct)
  case (less n)
  show ?case
  proof (cases "n = 0")
    case False
    define l where "l = min (page_room u addr) n"
    have l: "0 < l" "l \<le> page_room u addr" "l \<le> n" using False by (auto simp: l_def)
    obtain q where q: "translate u addr = Some q" using mapped_translate [OF less.prems] False by auto
    obtain p where p: "phys_page u (addr AND NOT (mask (page_bits u))) = Some p"
      "q = p + (addr AND mask (page_bits u))" using page_mapped [OF q] by blast
    have m: "mapped u (addr + word_of_nat l) (n - l)" using less.prems mapped_add [of u addr l "n - l"] l(3) by simp
    have "memory_read u mem (addr + word_of_nat l) (n - l) = (0, read_bytes u mem (addr + word_of_nat l) (n - l))"
      using less.IH [OF _ m] l(1,3) by simp
    then show ?thesis
      using False p page_window [OF l(2) assms(2) q, of mem] read_bytes_add [of u mem addr l "n - l"] l(3)
      by (simp add: memory_read.simps [of u mem addr n] l_def [symmetric])
  qed (simp add: memory_read.simps read_bytes_def)
qed

lemma memory_write_mapped:
  assumes "mapped u addr (length bs)" and "page_bits u < 64"
  shows "memory_write u mem addr bs = (0, write_bytes u mem addr bs)"
  using assms(1)
proof (induction "length bs" arbitrary: addr bs mem rule: less_induct)
  case less
  show ?case
  proof (cases "bs = []")
    case False
    define l where "l = min (page_room u addr) (length bs)"
    have l: "0 < l" "l \<le> page_room u addr" "l \<le> length bs" using False by (auto simp: l_def)
    obtain q where q: "translate u addr = Some q" using mapped_translate [OF less.prems] False by auto
    obtain p where p: "phys_page u (addr AND NOT (mask (page_bits u))) = Some p"
      "q = p + (addr AND mask (page_bits u))" using page_mapped [OF q] by blast
    have m: "mapped u (addr + word_of_nat l) (length (drop l bs))"
      using less.prems mapped_add [of u addr l "length bs - l"] l(3) by simp
    have "mem_blit mem q (take l bs) = write_bytes u mem addr (take l bs)"
      using page_blit [of 0 "take l bs" u addr q mem] l(2) assms(2) q by simp
    then show ?thesis
      using less.hyps [OF _ m] False p l write_bytes_append [of u mem addr "take l bs" "drop l bs"]
      by (simp add: memory_write.simps [of u mem addr bs] l_def [symmetric] min_absorb2)
  qed (simp add: memory_write.simps)
qed

lemma write_bytes_outside:
  "p \<notin> xlate u ` set (addr_range addr (length bs)) \<Longrightarrow> write_bytes u mem addr bs p = mem p"
  by (induction bs arbitrary: mem addr) (auto simp: addr_range_Suc)

lemma read_write_bytes:
  assumes "distinct (map (xlate u) (addr_range addr (length bs)))"
  shows "read_bytes u (write_bytes u mem addr bs) addr (length bs) = bs"
  using assms
proof (induction bs arbitrary: mem addr)
  case (Cons b bs)
  then show ?case using write_bytes_outside [of "xlate u addr" u "addr + 1" bs "mem(xlate u addr := b)"]
    by (simp add: addr_range_Suc read_bytes_def)
qed (simp add: read_bytes_def)

section \<open>Properties\<close>

text \<open>Copying to the guest and back. When the pages of a range are mapped and no two addresses of the range share a
  physical byte, a write of the range succeeds across all page boundaries, a read of the range then returns exactly the
  bytes written, and no physical byte outside the translated range changes.\<close>

theorem guest_copy:
  assumes "page_bits u < 64" and "mapped u addr (length bs)"
    and "distinct (map (xlate u) (addr_range addr (length bs)))"
  shows "\<exists>mem'. memory_write u mem addr bs = (0, mem') \<and>
    memory_read u mem' addr (length bs) = (0, bs) \<and>
    (\<forall>p. p \<notin> set (map (xlate u) (addr_range addr (length bs))) \<longrightarrow> mem' p = mem p)"
  using memory_write_mapped [OF assms(2,1)] memory_read_mapped [OF assms(2,1)]
    read_write_bytes [OF assms(3), of mem] write_bytes_outside [of _ u addr bs mem] by auto

definition sample_mmu :: guest_mmu where
  "sample_mmu = \<lparr>page_bits = 2,
     phys_page = (\<lambda>p. if p = 4 then Some 0x100 else if p = 8 then Some 0x40 else None)\<rparr>"

theorem guest_copy_witness:
  "\<exists>mem'. memory_write sample_mmu (\<lambda>_. 0) 6 [1, 2, 3, 4] = (0, mem') \<and>
     memory_read sample_mmu mem' 6 4 = (0, [1, 2, 3, 4]) \<and> mem' 0x50 = 0"
proof -
  have r: "addr_range 6 (length [1, 2, 3, 4 :: u8]) = [6, 7, 8, 9]" by (simp add: addr_range_Suc)
  have x: "map (xlate sample_mmu) [6, 7, 8, 9] = [0x102, 0x103, 0x40, 0x41]"
    by (simp add: xlate_def translate_def sample_mmu_def mask_eq_exp_minus_1)
  have m: "mapped sample_mmu 6 (length [1, 2, 3, 4 :: u8])"
    unfolding mapped_def r by (simp add: translate_def sample_mmu_def mask_eq_exp_minus_1)
  have p: "page_bits sample_mmu < 64" by (simp add: sample_mmu_def)
  have d: "distinct (map (xlate sample_mmu) (addr_range 6 (length [1, 2, 3, 4 :: u8])))"
    unfolding r x by simp
  have four: "length [1, 2, 3, 4 :: u8] = 4" by simp
  obtain mem' where m': "memory_write sample_mmu (\<lambda>_. 0) 6 [1, 2, 3, 4] = (0, mem')"
    "memory_read sample_mmu mem' 6 4 = (0, [1, 2, 3, 4])"
    "\<forall>p. p \<notin> set [0x102, 0x103, 0x40, 0x41] \<longrightarrow> mem' p = 0"
    using guest_copy [OF p m d, of "\<lambda>_. 0"] unfolding four r [unfolded four] x by blast
  then show ?thesis by auto
qed

end
