(* ===== verification/Goldfish_Tty.thy ===== *)
theory Goldfish_Tty
  imports Savevm Goldfish_Device Irq_Line Guest_Memory
begin

text \<open>
  The goldfish serial port, \<open>hw/android/goldfish/tty.c\<close>: a 128-byte input queue filled by the
  character backend and emptied into guest buffers, output copied from guest buffers to the backend in
  chunks of 64 bytes, and an interrupt that is raised while input is waiting.
\<close>

section \<open>State and registers\<close>

definition TTY_PUT_CHAR :: u64 where "TTY_PUT_CHAR = 0x00"
definition TTY_BYTES_READY :: u64 where "TTY_BYTES_READY = 0x04"
definition TTY_CMD :: u64 where "TTY_CMD = 0x08"
definition TTY_DATA_PTR :: u64 where "TTY_DATA_PTR = 0x10"
definition TTY_DATA_LEN :: u64 where "TTY_DATA_LEN = 0x14"
definition TTY_DATA_PTR_HIGH :: u64 where "TTY_DATA_PTR_HIGH = 0x18"
definition TTY_VERSION :: u64 where "TTY_VERSION = 0x20"

definition TTY_CMD_INT_DISABLE :: u32 where "TTY_CMD_INT_DISABLE = 0"
definition TTY_CMD_INT_ENABLE :: u32 where "TTY_CMD_INT_ENABLE = 1"
definition TTY_CMD_WRITE_BUFFER :: u32 where "TTY_CMD_WRITE_BUFFER = 2"
definition TTY_CMD_READ_BUFFER :: u32 where "TTY_CMD_READ_BUFFER = 3"

definition TTY_DEVICE_VERSION :: u32 where "TTY_DEVICE_VERSION = 0"
definition GOLDFISH_TTY_SAVE_VERSION :: int where "GOLDFISH_TTY_SAVE_VERSION = 2"

lemmas tty_defs = TTY_PUT_CHAR_def TTY_BYTES_READY_def TTY_CMD_def TTY_DATA_PTR_def TTY_DATA_LEN_def
  TTY_DATA_PTR_HIGH_def TTY_VERSION_def TTY_CMD_INT_DISABLE_def TTY_CMD_INT_ENABLE_def
  TTY_CMD_WRITE_BUFFER_def TTY_CMD_READ_BUFFER_def TTY_DEVICE_VERSION_def GOLDFISH_TTY_SAVE_VERSION_def

text \<open>\<open>t_cs\<close> tells whether the port has a character backend; the array \<open>t_data\<close> has 128 elements.\<close>

record tty_state =
  t_dev :: goldfish_device
  t_cs :: bool
  t_ptr :: u64
  t_ptr_len :: u32
  t_ready :: u32
  t_data :: "nat \<Rightarrow> u8"
  t_data_count :: u32

definition TTY_DATA_SIZE :: nat where "TTY_DATA_SIZE = 128"

section \<open>Snapshots\<close>

definition goldfish_tty_save :: "tty_state \<Rightarrow> u8 list" where
  "goldfish_tty_save s =
     be64_bytes (t_ptr s) @ be32_bytes (t_ptr_len s) @ [ucast (t_ready s), ucast (t_data_count s)] @
     window (t_data s) 0 (unat (t_data_count s))"

definition goldfish_tty_load :: "rstream \<Rightarrow> tty_state \<Rightarrow> int \<Rightarrow> (int \<times> tty_state \<times> rstream) res" where
  "goldfish_tty_load f s version_id =
     (if version_id \<noteq> GOLDFISH_TTY_SAVE_VERSION \<and> version_id \<noteq> GOLDFISH_TTY_SAVE_VERSION - 1
      then Inr (-1, s, f)
      else let (ptr, f1) = (if version_id = GOLDFISH_TTY_SAVE_VERSION - 1
                            then let (v, f') = st_get_be32 f in (ucast v, f')
                            else st_get_be64 f);
               (ptr_len, f2) = st_get_be32 f1;
               (ready, f3) = st_get_byte f2;
               (count, f4) = st_get_byte f3;
               (bs, f5) = st_get_buffer f4 (unat count)
           in if TTY_DATA_SIZE < length bs then Inl Undefined
              else Inr (0, s\<lparr>t_ptr := ptr, t_ptr_len := ptr_len, t_ready := ucast ready,
                             t_data_count := ucast count, t_data := blit (t_data s) 0 bs\<rparr>, f5))"

section \<open>The registers\<close>

definition goldfish_tty_read :: "u64 \<Rightarrow> tty_state \<Rightarrow> u32 res" where
  "goldfish_tty_read offset s =
     (if offset = TTY_BYTES_READY then Inr (t_data_count s)
      else if offset = TTY_VERSION then Inr TTY_DEVICE_VERSION
      else Inl Cpu_Abort)"

text \<open>
  What an operation sees and changes outside the device: the memory of the guest and the bytes sent
  to the character backend so far. \<open>te_junk\<close> stands for the uninitialised buffer \<open>temp\<close>, of which
  the part that could not be read from the guest is sent as it is.
\<close>

record tty_env =
  te_mmu :: guest_mmu
  te_mem :: phys_mem
  te_junk :: "nat \<Rightarrow> u8"
  te_sent :: "u8 list"

function tty_copy_out :: "guest_mmu \<Rightarrow> phys_mem \<Rightarrow> (nat \<Rightarrow> u8) \<Rightarrow> u64 \<Rightarrow> nat \<Rightarrow> u8 list" where
  "tty_copy_out u mem junk buf len =
     (if len = 0 then []
      else let to_write = min 64 len;
               (ret, bs) = memory_read u mem buf to_write;
               temp = bs @ window junk (length bs) (to_write - length bs)
           in temp @ tty_copy_out u mem junk (buf + word_of_nat to_write) (len - to_write))"
  by pat_completeness auto
termination
  by (relation "measure (\<lambda>(u, mem, junk, buf, len). len)") auto

declare tty_copy_out.simps [simp del]

text \<open>
  A length of 2 GiB or more is negative as an \<open>int\<close>: the loop then makes one call to the backend with
  a negative length.
\<close>

definition tty_write_buffer :: "tty_state \<Rightarrow> tty_env \<Rightarrow> (tty_state \<times> tty_env \<times> irq_out list) res" where
  "tty_write_buffer s e =
     (if \<not> t_cs s then Inr (s, e, [])
      else if sint (t_ptr_len s) < 0 then Inl Undefined
      else Inr (s, e\<lparr>te_sent := te_sent e @
             tty_copy_out (te_mmu e) (te_mem e) (te_junk e) (t_ptr s) (unat (t_ptr_len s))\<rparr>, []))"

definition tty_read_buffer :: "tty_state \<Rightarrow> tty_env \<Rightarrow> (tty_state \<times> tty_env \<times> irq_out list) res" where
  "tty_read_buffer s e =
     (if t_data_count s < t_ptr_len s then Inl Cpu_Abort
      else let n = unat (t_ptr_len s);
               (ret, mem) = memory_write (te_mmu e) (te_mem e) (t_ptr s) (window (t_data s) 0 n);
               s1 = (if t_ptr_len s < t_data_count s
                     then s\<lparr>t_data := blit (t_data s) 0 (window (t_data s) n (unat (t_data_count s) - n))\<rparr>
                     else s);
               s2 = s1\<lparr>t_data_count := t_data_count s1 - t_ptr_len s1\<rparr>
           in res_bind (if t_data_count s2 = 0 \<and> t_ready s2 \<noteq> 0
                        then goldfish_device_set_irq (t_dev s2) 0 False else Inr [])
                (\<lambda>os. Inr (s2, e\<lparr>te_mem := mem\<rparr>, os)))"

definition goldfish_tty_write ::
  "u64 \<Rightarrow> u32 \<Rightarrow> tty_state \<Rightarrow> tty_env \<Rightarrow> (tty_state \<times> tty_env \<times> irq_out list) res" where
  "goldfish_tty_write offset v s e =
     (if offset = TTY_PUT_CHAR then
        Inr (s, if t_cs s then e\<lparr>te_sent := te_sent e @ [ucast v]\<rparr> else e, [])
      else if offset = TTY_CMD then
        (if v = TTY_CMD_INT_DISABLE then
           (if t_ready s \<noteq> 0
            then res_bind (if t_data_count s > 0 then goldfish_device_set_irq (t_dev s) 0 False else Inr [])
                   (\<lambda>os. Inr (s\<lparr>t_ready := 0\<rparr>, e, os))
            else Inr (s, e, []))
         else if v = TTY_CMD_INT_ENABLE then
           (if t_ready s = 0
            then res_bind (if t_data_count s > 0 then goldfish_device_set_irq (t_dev s) 0 True else Inr [])
                   (\<lambda>os. Inr (s\<lparr>t_ready := 1\<rparr>, e, os))
            else Inr (s, e, []))
         else if v = TTY_CMD_WRITE_BUFFER then tty_write_buffer s e
         else if v = TTY_CMD_READ_BUFFER then tty_read_buffer s e
         else Inl Cpu_Abort)
      else if offset = TTY_DATA_PTR then Inr (s\<lparr>t_ptr := uint64_set_low (t_ptr s) v\<rparr>, e, [])
      else if offset = TTY_DATA_PTR_HIGH then Inr (s\<lparr>t_ptr := uint64_set_high (t_ptr s) v\<rparr>, e, [])
      else if offset = TTY_DATA_LEN then Inr (s\<lparr>t_ptr_len := v\<rparr>, e, [])
      else Inl Cpu_Abort)"

section \<open>Input from the backend\<close>

definition tty_can_receive :: "tty_state \<Rightarrow> int" where
  "tty_can_receive s = int TTY_DATA_SIZE - int (unat (t_data_count s))"

definition tty_receive :: "u8 list \<Rightarrow> tty_state \<Rightarrow> (tty_state \<times> irq_out list) res" where
  "tty_receive buf s =
     (if TTY_DATA_SIZE < unat (t_data_count s) + length buf then Inl Undefined
      else let s1 = s\<lparr>t_data := blit (t_data s) (unat (t_data_count s)) buf,
                      t_data_count := t_data_count s + word_of_nat (length buf)\<rparr>
           in res_bind (if t_data_count s1 > 0 \<and> t_ready s1 \<noteq> 0
                        then goldfish_device_set_irq (t_dev s1) 0 True else Inr [])
                (\<lambda>os. Inr (s1, os)))"

definition goldfish_tty_add :: "bool \<Rightarrow> u32 \<Rightarrow> u32 \<Rightarrow> u32 \<Rightarrow> tty_state" where
  "goldfish_tty_add cs i base irq =
     \<lparr>t_dev = \<lparr>d_reported_state = 0, d_name = ''goldfish_tty'', d_id = i, d_base = base, d_size = 0x1000,
        d_irq = irq, d_irq_count = 1\<rparr>,
      t_cs = cs, t_ptr = 0, t_ptr_len = 0, t_ready = 0, t_data = (\<lambda>_. 0), t_data_count = 0\<rparr>"

section \<open>The queue\<close>

definition tty_queue :: "tty_state \<Rightarrow> u8 list" where
  "tty_queue s = window (t_data s) 0 (unat (t_data_count s))"

definition tty_ok :: "tty_state \<Rightarrow> bool" where
  "tty_ok s \<longleftrightarrow> 0 < d_irq_count (t_dev s) \<and> unat (t_data_count s) \<le> TTY_DATA_SIZE"

definition tty_asserted :: "tty_state \<Rightarrow> bool" where
  "tty_asserted s \<longleftrightarrow> t_ready s \<noteq> 0 \<and> tty_queue s \<noteq> []"

datatype tty_op = Tty_write u64 u32 tty_env | Tty_receive "u8 list"

fun tty_step :: "tty_op \<Rightarrow> tty_state \<Rightarrow> (tty_state \<times> irq_out list) res" where
  "tty_step (Tty_write offset v e) s =
     res_bind (goldfish_tty_write offset v s e) (\<lambda>(s', e', os). Inr (s', os))"
| "tty_step (Tty_receive buf) s = tty_receive buf s"

lemma queue_empty [simp]: "tty_queue s = [] \<longleftrightarrow> t_data_count s = 0"
  by (simp add: tty_queue_def window_def unat_eq_0)

lemma length_queue [simp]: "length (tty_queue s) = unat (t_data_count s)"
  by (simp add: tty_queue_def)

lemma tty_receive_spec:
  assumes "tty_ok s" and "length buf + length (tty_queue s) \<le> TTY_DATA_SIZE"
  obtains s' where "tty_receive buf s = Inr (s', if tty_asserted s' then [(d_irq (t_dev s), True)] else [])"
    and "tty_queue s' = tty_queue s @ buf" and "t_dev s' = t_dev s" and "t_ready s' = t_ready s" and "tty_ok s'"
proof -
  let ?s = "s\<lparr>t_data := blit (t_data s) (unat (t_data_count s)) buf,
              t_data_count := t_data_count s + word_of_nat (length buf)\<rparr>"
  have c: "unat (t_data_count ?s) = unat (t_data_count s) + length buf"
    using assms(2) by (simp add: TTY_DATA_SIZE_def unat_word_ariths unat_of_nat)
  have q: "tty_queue ?s = tty_queue s @ buf"
    using c window_blit_append [of "t_data s" 0 "unat (t_data_count s)" buf] by (simp add: tty_queue_def)
  have ok: "tty_ok ?s" using assms c by (simp add: tty_ok_def)
  have "tty_receive buf s = Inr (?s, if tty_asserted ?s then [(d_irq (t_dev s), True)] else [])"
    using assms by (auto simp: tty_receive_def tty_ok_def tty_asserted_def word_gt_0 simp del: word_neq_0_conv)
  then show ?thesis using that [of ?s] q ok by simp
qed

lemma tty_read_buffer_spec:
  assumes "tty_ok s" and "unat (t_ptr_len s) \<le> length (tty_queue s)"
  obtains s' os where
    "tty_read_buffer s e = Inr (s', e\<lparr>te_mem := snd (memory_write (te_mmu e) (te_mem e) (t_ptr s)
        (take (unat (t_ptr_len s)) (tty_queue s)))\<rparr>, os)"
    and "tty_queue s' = drop (unat (t_ptr_len s)) (tty_queue s)" and "t_dev s' = t_dev s" and "t_ready s' = t_ready s"
    and "os = (if t_ready s \<noteq> 0 \<and> tty_queue s' = [] then [(d_irq (t_dev s), False)] else [])" and "tty_ok s'"
proof -
  let ?n = "unat (t_ptr_len s)" and ?c = "unat (t_data_count s)"
  define s1 where "s1 = (if t_ptr_len s < t_data_count s
      then s\<lparr>t_data := blit (t_data s) 0 (window (t_data s) ?n (?c - ?n))\<rparr> else s)"
  define s2 where "s2 = s1\<lparr>t_data_count := t_data_count s - t_ptr_len s\<rparr>"
  have le: "t_ptr_len s \<le> t_data_count s" using assms(2) by (simp add: word_le_nat_alt)
  have c: "unat (t_data_count s2) = ?c - ?n" using le by (simp add: s2_def unat_sub)
  have w: "window (t_data s2) 0 (?c - ?n) = window (t_data s) ?n (?c - ?n)"
    using le window_blit_same [of "t_data s" 0 "window (t_data s) ?n (?c - ?n)"]
    by (auto simp: s1_def s2_def word_less_nat_alt word_le_nat_alt)
  have q: "tty_queue s2 = drop ?n (tty_queue s)"
    using c w assms(2) window_add [of "t_data s" 0 ?n "?c - ?n"] by (simp add: tty_queue_def)
  have t: "take ?n (tty_queue s) = window (t_data s) 0 ?n" using assms(2) by (simp add: tty_queue_def min_absorb1)
  have dev: "t_dev s2 = t_dev s" "t_ready s2 = t_ready s" by (simp_all add: s1_def s2_def)
  have ok: "tty_ok s2" using assms(1) c dev by (auto simp: tty_ok_def)
  have "tty_read_buffer s e = Inr (s2, e\<lparr>te_mem := snd (memory_write (te_mmu e) (te_mem e) (t_ptr s)
        (take ?n (tty_queue s)))\<rparr>, if t_ready s \<noteq> 0 \<and> tty_queue s2 = [] then [(d_irq (t_dev s), False)] else [])"
    using assms(1) le dev t
    by (auto simp: tty_read_buffer_def s1_def s2_def Let_def split_beta tty_ok_def)
  then show ?thesis using that q dev ok by blast
qed

section \<open>The interrupt line\<close>

definition tty_line :: "tty_state \<Rightarrow> u32" where
  "tty_line s = d_irq (t_dev s)"

lemma tty_write_level:
  assumes "tty_ok s" and "goldfish_tty_write offset v s e = Inr (s', e', os)"
  shows "tty_ok s' \<and> tty_line s' = tty_line s \<and> line_after (tty_line s) os (tty_asserted s) = tty_asserted s'"
proof (cases "offset = TTY_CMD \<and> v = TTY_CMD_READ_BUFFER")
  case True
  then have r: "tty_read_buffer s e = Inr (s', e', os)"
    using assms(2) by (simp add: goldfish_tty_write_def tty_defs)
  then have "unat (t_ptr_len s) \<le> length (tty_queue s)"
    by (auto simp: tty_read_buffer_def word_less_nat_alt split: if_splits)
  from tty_read_buffer_spec [OF assms(1) this, of e] obtain s1 os1 where s1:
    "tty_read_buffer s e = Inr (s1, e\<lparr>te_mem := snd (memory_write (te_mmu e) (te_mem e) (t_ptr s)
        (take (unat (t_ptr_len s)) (tty_queue s)))\<rparr>, os1)"
    "tty_queue s1 = drop (unat (t_ptr_len s)) (tty_queue s)" "t_dev s1 = t_dev s" "t_ready s1 = t_ready s"
    "os1 = (if t_ready s \<noteq> 0 \<and> tty_queue s1 = [] then [(d_irq (t_dev s), False)] else [])" "tty_ok s1"
    by blast
  have eq: "s1 = s'" "os1 = os" using r s1(1) by simp_all
  have e: "tty_queue s1 = []" if "tty_queue s = []" using s1(2) that by simp
  have "line_after (d_irq (t_dev s)) os1 (t_ready s \<noteq> 0 \<and> tty_queue s \<noteq> []) = (t_ready s \<noteq> 0 \<and> tty_queue s1 \<noteq> [])"
    using e unfolding s1(5) by (cases "tty_queue s1 = []"; cases "t_ready s = 0") auto
  then show ?thesis using s1(3,4,6) unfolding eq tty_line_def tty_asserted_def by simp
next
  case False
  then show ?thesis using assms
    by (auto simp: goldfish_tty_write_def tty_write_buffer_def tty_ok_def tty_line_def tty_asserted_def tty_queue_def
        res_simps window_def unat_eq_0 word_gt_0 split: if_splits)
qed

lemma tty_receive_level:
  assumes "tty_ok s" and "tty_receive buf s = Inr (s', os)"
  shows "tty_ok s' \<and> tty_line s' = tty_line s \<and> line_after (tty_line s) os (tty_asserted s) = tty_asserted s'"
proof -
  have "length buf + length (tty_queue s) \<le> TTY_DATA_SIZE"
    using assms(2) by (auto simp: tty_receive_def split: if_splits)
  from tty_receive_spec [OF assms(1) this] obtain s1 where s1:
    "tty_receive buf s = Inr (s1, if tty_asserted s1 then [(d_irq (t_dev s), True)] else [])"
    "tty_queue s1 = tty_queue s @ buf" "t_dev s1 = t_dev s" "t_ready s1 = t_ready s" "tty_ok s1"
    by blast
  then have "s' = s1" "os = (if tty_asserted s1 then [(d_irq (t_dev s), True)] else [])" using assms(2) by auto
  then show ?thesis using s1 by (auto simp: tty_line_def tty_asserted_def simp del: queue_empty)
qed

lemma tty_step_level:
  assumes "tty_ok s" and "tty_step op s = Inr (s', os)"
  shows "tty_ok s' \<and> tty_line s' = tty_line s \<and> line_after (tty_line s) os (tty_asserted s) = tty_asserted s'"
proof (cases op)
  case (Tty_write offset v e)
  then obtain e' where "goldfish_tty_write offset v s e = Inr (s', e', os)" using assms(2) by (auto simp: res_simps)
  then show ?thesis by (rule tty_write_level [OF assms(1)])
next
  case (Tty_receive buf)
  then show ?thesis using tty_receive_level [OF assms(1), of buf s' os] assms(2) by simp
qed

lemma tty_step_own: "tty_step op s = Inr (s', os) \<Longrightarrow> fst ` set os \<subseteq> {tty_line s}"
  by (cases op)
    (auto simp: goldfish_tty_write_def tty_write_buffer_def tty_read_buffer_def tty_receive_def tty_line_def
      goldfish_device_set_irq_def Let_def split_beta res_simps split: if_splits)

interpretation tty_irq: single_line tty_step tty_ok tty_line tty_asserted
  by unfold_locales (use tty_step_level tty_step_own in blast)+

section \<open>Output\<close>

lemma tty_copy_out_mapped:
  assumes "mapped u buf len" and "page_bits u < 64"
  shows "tty_copy_out u mem junk buf len = read_bytes u mem buf len"
  using assms(1)
proof (induction len arbitrary: buf rule: less_induct)
  case (less len)
  show ?case
  proof (cases "len = 0")
    case False
    let ?n = "min 64 len"
    have "mapped u buf (?n + (len - ?n))" using less.prems by simp
    then have m: "mapped u buf ?n" "mapped u (buf + word_of_nat ?n) (len - ?n)" by (simp_all only: mapped_add)
    have "tty_copy_out u mem junk (buf + word_of_nat ?n) (len - ?n) = read_bytes u mem (buf + word_of_nat ?n) (len - ?n)"
      using less.IH [OF _ m(2)] False by simp
    then show ?thesis
      using False memory_read_mapped [OF m(1) assms(2), of mem] read_bytes_add [of u mem buf ?n "len - ?n"]
      by (subst tty_copy_out.simps) (simp add: Let_def read_bytes_def addr_range_def)
  qed (simp add: tty_copy_out.simps read_bytes_def)
qed

section \<open>Properties\<close>

text \<open>The interrupt line of the serial port is level-triggered. After any sequence of register writes and input from the
  backend that the device accepts, starting from a fresh port, the line is high exactly when the driver enabled the interrupt
  and input is waiting, and the queue never exceeds its 128 bytes.\<close>

theorem tty_line_level:
  assumes "run_ops tty_step ops (goldfish_tty_add cs i base irq) = Inr (s, os)"
  shows "line_after irq os False = (t_ready s \<noteq> 0 \<and> tty_queue s \<noteq> []) \<and> length (tty_queue s) \<le> 128"
proof -
  let ?s = "goldfish_tty_add cs i base irq"
  have ok: "tty_ok ?s" "tty_line ?s = irq" "\<not> tty_asserted ?s"
    by (simp_all add: goldfish_tty_add_def tty_ok_def tty_line_def tty_asserted_def)
  show ?thesis
    using tty_irq.run_level [OF ok(1) assms] tty_irq.run_ok [OF ok(1) assms] ok(2,3)
    by (auto simp: tty_asserted_def tty_ok_def TTY_DATA_SIZE_def)
qed

theorem tty_line_level_witness:
  "\<exists>s os. run_ops tty_step [Tty_receive [104, 105],
      Tty_write TTY_CMD TTY_CMD_INT_ENABLE
        \<lparr>te_mmu = sample_mmu, te_mem = (\<lambda>_. 0), te_junk = (\<lambda>_. 0), te_sent = []\<rparr>]
      (goldfish_tty_add True 0 0 4) = Inr (s, os) \<and> line_after 4 os False"
proof -
  let ?ops = "[Tty_receive [104, 105], Tty_write TTY_CMD TTY_CMD_INT_ENABLE
        \<lparr>te_mmu = sample_mmu, te_mem = (\<lambda>_. 0), te_junk = (\<lambda>_. 0), te_sent = []\<rparr>]"
  obtain s os where r: "run_ops tty_step ?ops (goldfish_tty_add True 0 0 4) = Inr (s, os)"
    "t_ready s = 1" "t_data_count s = 2"
    by (simp add: goldfish_tty_add_def tty_receive_def goldfish_tty_write_def tty_defs TTY_DATA_SIZE_def Let_def)
  then show ?thesis using tty_line_level [OF r(1)] by auto
qed

text \<open>Input is delivered in order and without loss. Bytes from the backend, as many as \<open>tty_can_receive\<close> offers room
  for, are appended to the queue; a read command for a length the queue has moves exactly the oldest bytes of that number to the guest
  buffer, byte for byte across pages, and keeps the others in order.\<close>

theorem tty_fifo:
  assumes "tty_ok s" and "int (length buf) \<le> tty_can_receive s"
    and "unat (t_ptr_len s) \<le> length (tty_queue s) + length buf"
    and "page_bits (te_mmu e) < 64" and "mapped (te_mmu e) (t_ptr s) (unat (t_ptr_len s))"
  shows "\<exists>s1 os1 s2 os2. tty_receive buf s = Inr (s1, os1) \<and>
    goldfish_tty_write TTY_CMD TTY_CMD_READ_BUFFER s1 e =
      Inr (s2, e\<lparr>te_mem := write_bytes (te_mmu e) (te_mem e) (t_ptr s)
         (take (unat (t_ptr_len s)) (tty_queue s @ buf))\<rparr>, os2) \<and>
    tty_queue s2 = drop (unat (t_ptr_len s)) (tty_queue s @ buf)"
proof -
  have "length buf + length (tty_queue s) \<le> TTY_DATA_SIZE"
    using assms(2) unfolding tty_can_receive_def length_queue by linarith
  from tty_receive_spec [OF assms(1) this] obtain s1 where s1:
    "tty_receive buf s = Inr (s1, if tty_asserted s1 then [(d_irq (t_dev s), True)] else [])"
    "tty_queue s1 = tty_queue s @ buf" "tty_ok s1" by blast
  have p: "t_ptr s1 = t_ptr s" "t_ptr_len s1 = t_ptr_len s"
    using s1(1) by (auto simp: tty_receive_def Let_def res_simps split: if_splits)
  have n: "unat (t_ptr_len s1) \<le> length (tty_queue s1)" unfolding s1(2) p(2) using assms(3) by simp
  from tty_read_buffer_spec [OF s1(3) n, of e] obtain s2 os2 where s2:
    "tty_read_buffer s1 e = Inr (s2, e\<lparr>te_mem := snd (memory_write (te_mmu e) (te_mem e) (t_ptr s1)
        (take (unat (t_ptr_len s1)) (tty_queue s1)))\<rparr>, os2)"
    "tty_queue s2 = drop (unat (t_ptr_len s1)) (tty_queue s1)" by blast
  have l: "length (take (unat (t_ptr_len s)) (tty_queue s @ buf)) = unat (t_ptr_len s)"
    using assms(3) by simp
  have "memory_write (te_mmu e) (te_mem e) (t_ptr s) (take (unat (t_ptr_len s)) (tty_queue s @ buf)) =
      (0, write_bytes (te_mmu e) (te_mem e) (t_ptr s) (take (unat (t_ptr_len s)) (tty_queue s @ buf)))"
    by (rule memory_write_mapped) (use assms(4,5) l in \<open>simp_all only: l\<close>)
  then show ?thesis using s1 s2 p by (auto simp: goldfish_tty_write_def tty_defs)
qed

theorem tty_fifo_witness:
  "let s = (goldfish_tty_add True 0 0 4)\<lparr>t_ptr := 6, t_ptr_len := 3\<rparr>;
       e = \<lparr>te_mmu = sample_mmu, te_mem = (\<lambda>_. 0), te_junk = (\<lambda>_. 0), te_sent = []\<rparr> in
   \<exists>s1 os1 s2 e2 os2. tty_receive [1, 2, 3, 4] s = Inr (s1, os1) \<and>
     goldfish_tty_write TTY_CMD TTY_CMD_READ_BUFFER s1 e = Inr (s2, e2, os2) \<and> tty_queue s2 = [4] \<and>
     te_mem e2 = (\<lambda>_. 0)(0x102 := 1, 0x103 := 2, 0x40 := 3)"
proof -
  let ?s = "(goldfish_tty_add True 0 0 4)\<lparr>t_ptr := 6, t_ptr_len := 3\<rparr>"
  let ?e = "\<lparr>te_mmu = sample_mmu, te_mem = (\<lambda>_. 0), te_junk = (\<lambda>_. 0), te_sent = []\<rparr>"
  have q: "tty_queue ?s = []" by (simp add: goldfish_tty_add_def)
  have ok: "tty_ok ?s" "int (length [1, 2, 3, 4 :: u8]) \<le> tty_can_receive ?s" "page_bits (te_mmu ?e) < 64"
    by (simp_all add: tty_ok_def goldfish_tty_add_def tty_can_receive_def TTY_DATA_SIZE_def sample_mmu_def)
  have x: "xlate sample_mmu 6 = 0x102" "xlate sample_mmu 7 = 0x103" "xlate sample_mmu 8 = 0x40"
    by (simp_all add: xlate_def translate_def sample_mmu_def mask_eq_exp_minus_1)
  have "addr_range 6 3 = [6, 7, 8]" by (simp add: addr_range_Suc numeral_3_eq_3)
  then have m: "mapped (te_mmu ?e) (t_ptr ?s) (unat (t_ptr_len ?s))"
    by (simp add: mapped_def translate_def sample_mmu_def mask_eq_exp_minus_1)
  show ?thesis
    using tty_fifo [OF ok(1,2) _ ok(3) m] q x by (auto simp: Let_def)
qed

text \<open>Output reaches the backend unchanged: a write command for a mapped guest buffer sends exactly the bytes of the
  buffer, in order, whatever its length in chunks of 64 bytes and pages.\<close>

theorem tty_output:
  assumes "t_cs s" and "0 \<le> sint (t_ptr_len s)" and "page_bits (te_mmu e) < 64"
    and "mapped (te_mmu e) (t_ptr s) (unat (t_ptr_len s))"
  shows "goldfish_tty_write TTY_CMD TTY_CMD_WRITE_BUFFER s e =
    Inr (s, e\<lparr>te_sent := te_sent e @ read_bytes (te_mmu e) (te_mem e) (t_ptr s) (unat (t_ptr_len s))\<rparr>, [])"
  using assms tty_copy_out_mapped [OF assms(4,3)]
  by (simp add: goldfish_tty_write_def tty_defs tty_write_buffer_def)

theorem tty_output_witness:
  "let e = \<lparr>te_mmu = sample_mmu, te_mem = (\<lambda>a. ucast a), te_junk = (\<lambda>_. 0), te_sent = [9]\<rparr> in
   \<exists>s' e'. goldfish_tty_write TTY_CMD TTY_CMD_WRITE_BUFFER
     ((goldfish_tty_add True 0 0 4)\<lparr>t_ptr := 6, t_ptr_len := 3\<rparr>) e = Inr (s', e', []) \<and> te_sent e' = [9, 2, 3, 0x40]"
proof -
  let ?s = "(goldfish_tty_add True 0 0 4)\<lparr>t_ptr := 6, t_ptr_len := 3\<rparr>"
  let ?e = "\<lparr>te_mmu = sample_mmu, te_mem = (\<lambda>a. ucast a), te_junk = (\<lambda>_. 0), te_sent = [9]\<rparr>"
  have r: "addr_range 6 3 = [6, 7, 8]" by (simp add: addr_range_Suc numeral_3_eq_3)
  then have m: "mapped (te_mmu ?e) (t_ptr ?s) (unat (t_ptr_len ?s))" "page_bits (te_mmu ?e) < 64"
    by (simp_all add: mapped_def translate_def sample_mmu_def mask_eq_exp_minus_1)
  have c: "t_cs ?s" "0 \<le> sint (t_ptr_len ?s)" by (simp_all add: goldfish_tty_add_def)
  have "read_bytes sample_mmu (\<lambda>a. ucast a) 6 3 = [2, 3, 0x40]"
    using r by (simp add: read_bytes_def xlate_def translate_def sample_mmu_def mask_eq_exp_minus_1)
  then show ?thesis using tty_output [OF c m(2,1)] by (simp add: Let_def)
qed

end
