(* ===== verification/C_String.thy ===== *)
theory C_String
  imports Prelude
begin

text \<open>
  C strings and the numbers in them, shared by the components that parse or print text: the conversions of the C library and decimal and hexadecimal
  output. A C string is the list of its characters, without the final zero.
\<close>

section \<open>Numbers in strings\<close>

text \<open>\<open>strtoull\<close> and \<open>strtol\<close> of the C library on a 64-bit host: the value and the rest of the string, which is the
  whole string when there is no number.\<close>

definition is_space :: "char \<Rightarrow> bool" where
  "is_space c \<longleftrightarrow> c \<in> {CHR '' '', CHR 0x09, CHR 0x0A, CHR 0x0B, CHR 0x0C, CHR 0x0D}"

definition digit_value :: "char \<Rightarrow> nat" where
  "digit_value c =
     (let n = of_char c in
      if 48 \<le> n \<and> n \<le> 57 then n - 48
      else if 97 \<le> n \<and> n \<le> 122 then n - 87
      else if 65 \<le> n \<and> n \<le> 90 then n - 55
      else 99)"

fun scan_digits :: "nat \<Rightarrow> nat \<Rightarrow> string \<Rightarrow> nat \<times> string" where
  "scan_digits base acc [] = (acc, [])"
| "scan_digits base acc (c # s) =
     (if digit_value c < base then scan_digits base (acc * base + digit_value c) s else (acc, c # s))"

definition starts_digit :: "nat \<Rightarrow> string \<Rightarrow> bool" where
  "starts_digit base s \<longleftrightarrow> (case s of [] \<Rightarrow> False | c # _ \<Rightarrow> digit_value c < base)"

definition skip_sign :: "string \<Rightarrow> bool \<times> string" where
  "skip_sign s =
     (case s of
        c # s' \<Rightarrow> if c = CHR ''-'' then (True, s') else if c = CHR ''+'' then (False, s') else (False, s)
      | [] \<Rightarrow> (False, s))"

definition number_base :: "nat \<Rightarrow> string \<Rightarrow> nat \<times> string" where
  "number_base base s =
     (if base \<noteq> 0 then (base, s)
      else if (take 2 s = ''0x'' \<or> take 2 s = ''0X'') \<and> starts_digit 16 (drop 2 s) then (16, drop 2 s)
      else if take 1 s = ''0'' then (8, s) else (10, s))"

definition scan_number :: "nat \<Rightarrow> string \<Rightarrow> (bool \<times> nat \<times> string) option" where
  "scan_number base s =
     (let (neg, s1) = skip_sign (dropWhile is_space s); (b, s2) = number_base base s1
      in if starts_digit b s2 then Some (neg, scan_digits b 0 s2) else None)"

definition strtoull :: "nat \<Rightarrow> string \<Rightarrow> u64 \<times> string" where
  "strtoull base s =
     (case scan_number base s of
        None \<Rightarrow> (0, s)
      | Some (neg, v, rest) \<Rightarrow>
          (if 2 ^ 64 \<le> v then - 1 else if neg then - word_of_nat v else word_of_nat v, rest))"

definition strtol :: "nat \<Rightarrow> string \<Rightarrow> int \<times> string" where
  "strtol base s =
     (case scan_number base s of
        None \<Rightarrow> (0, s)
      | Some (neg, v, rest) \<Rightarrow>
          (max (- (2 ^ 63)) (min (2 ^ 63 - 1) (if neg then - int v else int v)), rest))"

section \<open>Printed numbers\<close>

function show_nat :: "nat \<Rightarrow> string" where
  "show_nat n = (if n < 10 then [char_of (48 + n)] else show_nat (n div 10) @ [char_of (48 + n mod 10)])"
  by pat_completeness auto
termination
  by (relation "measure id") auto

declare show_nat.simps [simp del]

function show_hex :: "nat \<Rightarrow> string" where
  "show_hex n = (if n < 16 then [] else show_hex (n div 16)) @
     [char_of (if n mod 16 < 10 then 48 + n mod 16 else 87 + n mod 16)]"
  by pat_completeness auto
termination
  by (relation "measure id") auto

declare show_hex.simps [simp del]

lemma hex_digit:
  assumes "d < 16"
  shows "digit_value (char_of (if d < 10 then 48 + d else 87 + d)) = d"
proof -
  have "of_char (char_of (if d < 10 then 48 + d else 87 + d) :: char) = (if d < 10 then 48 + d else 87 + d)"
    using assms by (auto simp: of_char_of)
  then show ?thesis using assms unfolding digit_value_def Let_def by (cases "d < 10") auto
qed

lemma scan_hex: "scan_digits 16 0 (show_hex n @ rest) = scan_digits 16 n rest"
proof (induction n arbitrary: rest rule: show_hex.induct)
  case (1 n)
  let ?c = "char_of (if n mod 16 < 10 then 48 + n mod 16 else 87 + n mod 16) :: char"
  have d: "digit_value ?c = n mod 16" by (rule hex_digit) simp
  have "scan_digits 16 0 ((if n < 16 then [] else show_hex (n div 16)) @ ?c # rest) =
      scan_digits 16 (n div 16) (?c # rest)"
    using 1 [of "?c # rest"] by simp
  also have "\<dots> = scan_digits 16 n rest"
    unfolding scan_digits.simps(2) d using div_mult_mod_eq [of n 16] by simp
  finally show ?case by (subst show_hex.simps) simp
qed

lemma starts_hex: "starts_digit 16 (show_hex n @ rest)"
proof (induction n arbitrary: rest rule: show_hex.induct)
  case (1 n)
  have "digit_value (char_of (if n mod 16 < 10 then 48 + n mod 16 else 87 + n mod 16)) < 16"
    using hex_digit [of "n mod 16"] by simp
  then show ?case using 1 by (subst show_hex.simps) (auto simp: starts_digit_def)
qed

lemma length_show_hex: "n < 16 ^ Suc k \<Longrightarrow> length (show_hex n) \<le> Suc k"
proof (induction n arbitrary: k rule: show_hex.induct)
  case (1 n)
  show ?case
  proof (cases "n < 16")
    case False
    then obtain j where k: "k = Suc j" using 1(2) by (cases k) auto
    then have "n div 16 < 16 ^ Suc j" using 1(2) by (simp add: less_mult_imp_div_less mult.commute)
    then show ?thesis using 1(1) [OF False, of j] k False by (subst show_hex.simps) simp
  qed (subst show_hex.simps, simp)
qed

lemma dec_digit: "d < 10 \<Longrightarrow> digit_value (char_of (48 + d)) = d"
  using hex_digit [of d] by simp

lemma scan_dec: "scan_digits 10 0 (show_nat n @ rest) = scan_digits 10 n rest"
proof (induction n arbitrary: rest rule: show_nat.induct)
  case (1 n)
  show ?case
  proof (cases "n < 10")
    case True
    then show ?thesis using dec_digit [OF True] by (subst show_nat.simps) simp
  next
    case False
    have d: "digit_value (char_of (48 + n mod 10)) = n mod 10" by (rule dec_digit) simp
    show ?thesis using 1 [OF False, of "char_of (48 + n mod 10) # rest"] False d div_mult_mod_eq [of n 10]
      by (subst show_nat.simps) simp
  qed
qed

lemma starts_dec: "starts_digit 10 (show_nat n @ rest)"
proof (induction n arbitrary: rest rule: show_nat.induct)
  case (1 n)
  then show ?case using dec_digit [of n] by (subst show_nat.simps) (auto simp: starts_digit_def)
qed

lemma strtol_dec:
  assumes "n < 2 ^ 63"
  shows "strtol 10 (show_nat n) = (int n, [])"
proof -
  obtain c s where s: "show_nat n = c # s" "digit_value c < 10" using starts_dec [of n "[]"] by (cases "show_nat n") (auto simp: starts_digit_def)
  have "\<not> is_space c" "c \<noteq> CHR ''-''" "c \<noteq> CHR ''+''" using s(2) by (auto simp: is_space_def digit_value_def)
  then have "scan_number 10 (show_nat n) = Some (False, n, [])"
    using scan_dec [of n "[]"] starts_dec [of n "[]"] s(1) by (simp add: scan_number_def skip_sign_def number_base_def)
  then show ?thesis using assms by (simp add: strtol_def)
qed

end
