(* ===== verification/Goldfish_Battery.thy ===== *)
theory Goldfish_Battery
  imports Savevm Goldfish_Device Irq_Line C_String
begin

text \<open>
  The goldfish battery, \<open>hw/android/goldfish/battery.c\<close>: the power supply properties the console of the
  emulator sets and the guest driver reads, and the interrupt that tells the driver of a change.
\<close>

section \<open>Constants\<close>

definition BATTERY_INT_STATUS :: u64 where "BATTERY_INT_STATUS = 0x00"
definition BATTERY_INT_ENABLE :: u64 where "BATTERY_INT_ENABLE = 0x04"
definition BATTERY_AC_ONLINE :: u64 where "BATTERY_AC_ONLINE = 0x08"
definition BATTERY_STATUS :: u64 where "BATTERY_STATUS = 0x0C"
definition BATTERY_HEALTH :: u64 where "BATTERY_HEALTH = 0x10"
definition BATTERY_PRESENT :: u64 where "BATTERY_PRESENT = 0x14"
definition BATTERY_CAPACITY :: u64 where "BATTERY_CAPACITY = 0x18"
definition BATTERY_STATUS_CHANGED :: u32 where "BATTERY_STATUS_CHANGED = 1"
definition AC_STATUS_CHANGED :: u32 where "AC_STATUS_CHANGED = 2"

definition POWER_SUPPLY_STATUS_CHARGING :: u32 where "POWER_SUPPLY_STATUS_CHARGING = 1"
definition POWER_SUPPLY_STATUS_DISCHARGING :: u32 where "POWER_SUPPLY_STATUS_DISCHARGING = 2"
definition POWER_SUPPLY_STATUS_NOT_CHARGING :: u32 where "POWER_SUPPLY_STATUS_NOT_CHARGING = 3"
definition POWER_SUPPLY_STATUS_FULL :: u32 where "POWER_SUPPLY_STATUS_FULL = 4"
definition POWER_SUPPLY_HEALTH_GOOD :: u32 where "POWER_SUPPLY_HEALTH_GOOD = 1"
definition POWER_SUPPLY_HEALTH_OVERHEAT :: u32 where "POWER_SUPPLY_HEALTH_OVERHEAT = 2"
definition POWER_SUPPLY_HEALTH_DEAD :: u32 where "POWER_SUPPLY_HEALTH_DEAD = 3"
definition POWER_SUPPLY_HEALTH_OVERVOLTAGE :: u32 where "POWER_SUPPLY_HEALTH_OVERVOLTAGE = 4"
definition POWER_SUPPLY_HEALTH_UNSPEC_FAILURE :: u32 where "POWER_SUPPLY_HEALTH_UNSPEC_FAILURE = 5"

definition POWER_SUPPLY_PROP_STATUS :: int where "POWER_SUPPLY_PROP_STATUS = 0"
definition POWER_SUPPLY_PROP_HEALTH :: int where "POWER_SUPPLY_PROP_HEALTH = 1"
definition POWER_SUPPLY_PROP_PRESENT :: int where "POWER_SUPPLY_PROP_PRESENT = 2"
definition POWER_SUPPLY_PROP_ONLINE :: int where "POWER_SUPPLY_PROP_ONLINE = 3"
definition POWER_SUPPLY_PROP_CAPACITY :: int where "POWER_SUPPLY_PROP_CAPACITY = 23"

lemmas battery_reg_defs = BATTERY_INT_STATUS_def BATTERY_INT_ENABLE_def BATTERY_AC_ONLINE_def BATTERY_STATUS_def
  BATTERY_HEALTH_def BATTERY_PRESENT_def BATTERY_CAPACITY_def BATTERY_STATUS_CHANGED_def AC_STATUS_CHANGED_def
lemmas power_supply_defs = POWER_SUPPLY_STATUS_CHARGING_def POWER_SUPPLY_STATUS_DISCHARGING_def
  POWER_SUPPLY_STATUS_NOT_CHARGING_def POWER_SUPPLY_STATUS_FULL_def POWER_SUPPLY_HEALTH_GOOD_def
  POWER_SUPPLY_HEALTH_OVERHEAT_def POWER_SUPPLY_HEALTH_DEAD_def POWER_SUPPLY_HEALTH_OVERVOLTAGE_def
  POWER_SUPPLY_HEALTH_UNSPEC_FAILURE_def
lemmas power_prop_defs = POWER_SUPPLY_PROP_STATUS_def POWER_SUPPLY_PROP_HEALTH_def POWER_SUPPLY_PROP_PRESENT_def
  POWER_SUPPLY_PROP_ONLINE_def POWER_SUPPLY_PROP_CAPACITY_def

section \<open>State\<close>

record goldfish_battery_state =
  b_dev :: goldfish_device
  b_int_status :: u32
  b_int_enable :: u32
  b_ac_online :: u32
  b_status :: u32
  b_health :: u32
  b_present :: u32
  b_capacity :: u32
  b_hw_has_battery :: bool

definition BATTERY_STATE_SAVE_VERSION :: int where "BATTERY_STATE_SAVE_VERSION = 1"

definition goldfish_battery_fields :: "goldfish_battery_state QField list" where
  "goldfish_battery_fields =
     [QFIELD_INT32 b_int_status (\<lambda>v. b_int_status_update (\<lambda>_. v)),
      QFIELD_INT32 b_int_enable (\<lambda>v. b_int_enable_update (\<lambda>_. v)),
      QFIELD_INT32 b_ac_online (\<lambda>v. b_ac_online_update (\<lambda>_. v)),
      QFIELD_INT32 b_status (\<lambda>v. b_status_update (\<lambda>_. v)),
      QFIELD_INT32 b_health (\<lambda>v. b_health_update (\<lambda>_. v)),
      QFIELD_INT32 b_present (\<lambda>v. b_present_update (\<lambda>_. v)),
      QFIELD_INT32 b_capacity (\<lambda>v. b_capacity_update (\<lambda>_. v))]"

definition goldfish_battery_save :: "goldfish_battery_state \<Rightarrow> u8 list" where
  "goldfish_battery_save s = qemu_put_struct goldfish_battery_fields s"

definition goldfish_battery_load ::
  "rstream \<Rightarrow> goldfish_battery_state \<Rightarrow> int \<Rightarrow> int \<times> goldfish_battery_state \<times> rstream" where
  "goldfish_battery_load f s version_id =
     (if version_id \<noteq> BATTERY_STATE_SAVE_VERSION then (-1, s, f)
      else qemu_get_struct goldfish_battery_fields f s)"

section \<open>The registers\<close>

definition goldfish_battery_read ::
  "u64 \<Rightarrow> goldfish_battery_state \<Rightarrow> (u32 \<times> goldfish_battery_state \<times> irq_out list) res" where
  "goldfish_battery_read offset s =
     (if offset = BATTERY_INT_STATUS then
        let ret = b_int_status s AND b_int_enable s
        in if ret \<noteq> 0
           then res_bind (goldfish_device_set_irq (b_dev s) 0 False)
                  (\<lambda>os. Inr (ret, s\<lparr>b_int_status := 0\<rparr>, os))
           else Inr (ret, s, [])
      else if offset = BATTERY_INT_ENABLE then Inr (b_int_enable s, s, [])
      else if offset = BATTERY_AC_ONLINE then Inr (b_ac_online s, s, [])
      else if offset = BATTERY_STATUS then Inr (b_status s, s, [])
      else if offset = BATTERY_HEALTH then Inr (b_health s, s, [])
      else if offset = BATTERY_PRESENT then Inr (b_present s, s, [])
      else if offset = BATTERY_CAPACITY then Inr (b_capacity s, s, [])
      else Inl Cpu_Abort)"

definition goldfish_battery_write :: "u64 \<Rightarrow> u32 \<Rightarrow> goldfish_battery_state \<Rightarrow> goldfish_battery_state res" where
  "goldfish_battery_write offset v s =
     (if offset = BATTERY_INT_ENABLE then Inr (s\<lparr>b_int_enable := v\<rparr>) else Inl Cpu_Abort)"

definition goldfish_battery_init :: "bool \<Rightarrow> goldfish_battery_state" where
  "goldfish_battery_init has_battery =
     \<lparr>b_dev = \<lparr>d_reported_state = 0, d_name = ''goldfish-battery'', d_id = 0, d_base = 0, d_size = 0x1000,
        d_irq = 0, d_irq_count = 1\<rparr>,
      b_int_status = 0, b_int_enable = 0, b_ac_online = 1,
      b_status = (if has_battery then POWER_SUPPLY_STATUS_CHARGING else POWER_SUPPLY_STATUS_NOT_CHARGING),
      b_health = (if has_battery then POWER_SUPPLY_HEALTH_GOOD else POWER_SUPPLY_HEALTH_DEAD),
      b_present = (if has_battery then 1 else 0),
      b_capacity = (if has_battery then 50 else 0),
      b_hw_has_battery = has_battery\<rparr>"

section \<open>The console\<close>

text \<open>The pointer \<open>battery_state\<close> is \<open>None\<close> before the device is initialised.\<close>

definition goldfish_battery_read_prop :: "int \<Rightarrow> goldfish_battery_state option \<Rightarrow> u32" where
  "goldfish_battery_read_prop property bs =
     (case bs of
        None \<Rightarrow> 0
      | Some s \<Rightarrow>
          if \<not> b_hw_has_battery s then 0
          else if property = POWER_SUPPLY_PROP_ONLINE then b_ac_online s
          else if property = POWER_SUPPLY_PROP_STATUS then b_status s
          else if property = POWER_SUPPLY_PROP_HEALTH then b_health s
          else if property = POWER_SUPPLY_PROP_PRESENT then b_present s
          else if property = POWER_SUPPLY_PROP_CAPACITY then b_capacity s
          else 0)"

definition set_battery_field :: "bool \<Rightarrow> int \<Rightarrow> u32 \<Rightarrow> goldfish_battery_state \<Rightarrow> goldfish_battery_state" where
  "set_battery_field ac property v s =
     (if ac then (if property = POWER_SUPPLY_PROP_ONLINE then s\<lparr>b_ac_online := v\<rparr> else s)
      else if property = POWER_SUPPLY_PROP_STATUS then s\<lparr>b_status := v\<rparr>
      else if property = POWER_SUPPLY_PROP_HEALTH then s\<lparr>b_health := v\<rparr>
      else if property = POWER_SUPPLY_PROP_PRESENT then s\<lparr>b_present := v\<rparr>
      else if property = POWER_SUPPLY_PROP_CAPACITY then s\<lparr>b_capacity := v\<rparr>
      else s)"

definition goldfish_battery_set_prop ::
  "bool \<Rightarrow> int \<Rightarrow> u32 \<Rightarrow> goldfish_battery_state option \<Rightarrow> (goldfish_battery_state option \<times> irq_out list) res" where
  "goldfish_battery_set_prop ac property v bs =
     (let new_status = (if ac then AC_STATUS_CHANGED else BATTERY_STATUS_CHANGED)
      in case bs of
           None \<Rightarrow> Inr (None, [])
         | Some s \<Rightarrow>
             if \<not> b_hw_has_battery s then Inr (Some s, [])
             else let s1 = set_battery_field ac property v s
                  in if new_status \<noteq> b_int_status s1
                     then let s2 = s1\<lparr>b_int_status := b_int_status s1 OR new_status\<rparr>
                          in res_bind (goldfish_device_set_irq (b_dev s2) 0 (b_int_status s2 AND b_int_enable s2 \<noteq> 0))
                               (\<lambda>os. Inr (Some s2, os))
                     else Inr (Some s1, []))"

text \<open>The text of the \<open>power display\<close> command, one line for each call of the callback.\<close>

definition show_int :: "u32 \<Rightarrow> string" where
  "show_int v = (if sint v < 0 then CHR ''-'' # show_nat (nat (- sint v)) else show_nat (nat (sint v)))"

definition battery_line :: "string \<Rightarrow> string \<Rightarrow> string" where
  "battery_line key v = key @ '': '' @ v @ [CHR 0x0D, CHR 0x0A]"

definition battery_status_name :: "u32 \<Rightarrow> string" where
  "battery_status_name v =
     (if v = POWER_SUPPLY_STATUS_CHARGING then ''Charging''
      else if v = POWER_SUPPLY_STATUS_DISCHARGING then ''Discharging''
      else if v = POWER_SUPPLY_STATUS_NOT_CHARGING then ''Not charging''
      else if v = POWER_SUPPLY_STATUS_FULL then ''Full'' else ''Unknown'')"

definition battery_health_name :: "u32 \<Rightarrow> string" where
  "battery_health_name v =
     (if v = POWER_SUPPLY_HEALTH_GOOD then ''Good''
      else if v = POWER_SUPPLY_HEALTH_OVERHEAT then ''Overhead''
      else if v = POWER_SUPPLY_HEALTH_DEAD then ''Dead''
      else if v = POWER_SUPPLY_HEALTH_OVERVOLTAGE then ''Overvoltage''
      else if v = POWER_SUPPLY_HEALTH_UNSPEC_FAILURE then ''Unspecified failure'' else ''Unknown'')"

definition goldfish_battery_display :: "goldfish_battery_state \<Rightarrow> string list" where
  "goldfish_battery_display s =
     [battery_line ''AC'' (if b_ac_online s \<noteq> 0 then ''online'' else ''offline''),
      battery_line ''status'' (battery_status_name (b_status s)),
      battery_line ''health'' (battery_health_name (b_health s)),
      battery_line ''present'' (if b_present s \<noteq> 0 then ''true'' else ''false''),
      battery_line ''capacity'' (show_int (b_capacity s))]"

section \<open>The interrupt line\<close>

datatype battery_op = Battery_read u64 | Battery_write u64 u32 | Battery_set_prop bool int u32

fun battery_step :: "battery_op \<Rightarrow> goldfish_battery_state \<Rightarrow> (goldfish_battery_state \<times> irq_out list) res" where
  "battery_step (Battery_read offset) s =
     res_bind (goldfish_battery_read offset s) (\<lambda>(v, s', os). Inr (s', os))"
| "battery_step (Battery_write offset v) s = res_bind (goldfish_battery_write offset v s) (\<lambda>s'. Inr (s', []))"
| "battery_step (Battery_set_prop ac property v) s =
     res_bind (goldfish_battery_set_prop ac property v (Some s))
       (\<lambda>(bs, os). case bs of Some s' \<Rightarrow> Inr (s', os) | None \<Rightarrow> Inl Undefined)"

text \<open>
  A write of the interrupt mask does not update the line, so the level of the line depends on the mask that was in force when the
  device last drove it. The steps are followed together with that mask.
\<close>

definition driving_mask :: "battery_op \<Rightarrow> goldfish_battery_state \<Rightarrow> u32 \<Rightarrow> u32" where
  "driving_mask op s e = (case battery_step op s of Inr (s', os) \<Rightarrow> if os = [] then e else b_int_enable s' | Inl _ \<Rightarrow> e)"

definition masked_step :: "battery_op \<Rightarrow> goldfish_battery_state \<times> u32 \<Rightarrow> ((goldfish_battery_state \<times> u32) \<times> irq_out list) res" where
  "masked_step op se =
     res_bind (battery_step op (fst se)) (\<lambda>(s', os). Inr ((s', driving_mask op (fst se) (snd se)), os))"

definition battery_ok :: "goldfish_battery_state \<Rightarrow> bool" where
  "battery_ok s \<longleftrightarrow> 0 < d_irq_count (b_dev s)"

definition battery_line_no :: "goldfish_battery_state \<Rightarrow> u32" where
  "battery_line_no s = d_irq (b_dev s)"

definition battery_asserted :: "goldfish_battery_state \<Rightarrow> u32 \<Rightarrow> bool" where
  "battery_asserted s e \<longleftrightarrow> b_int_status s AND e \<noteq> 0"

lemma set_battery_field_frame [simp]:
  "b_dev (set_battery_field ac property v s) = b_dev s"
  "b_int_status (set_battery_field ac property v s) = b_int_status s"
  "b_int_enable (set_battery_field ac property v s) = b_int_enable s"
  "b_hw_has_battery (set_battery_field ac property v s) = b_hw_has_battery s"
  by (simp_all add: set_battery_field_def)

lemma battery_step_own: "battery_step op s = Inr (s', os) \<Longrightarrow> fst ` set os \<subseteq> {battery_line_no s}"
  by (cases op)
    (auto simp: goldfish_battery_read_def goldfish_battery_write_def goldfish_battery_set_prop_def battery_line_no_def goldfish_device_set_irq_def
      Let_def res_simps split: if_splits option.splits)

lemma battery_step_level:
  assumes "battery_ok s" and "battery_step op s = Inr (s', os)"
  shows "battery_ok s' \<and> battery_line_no s' = battery_line_no s \<and>
    line_after (battery_line_no s) os (battery_asserted s e) = battery_asserted s' (driving_mask op s e)"
proof -
  have d: "driving_mask op s e = (if os = [] then e else b_int_enable s')" using assms(2) by (simp add: driving_mask_def)
  show ?thesis unfolding d using assms
    by (cases op) (auto simp: goldfish_battery_read_def goldfish_battery_write_def goldfish_battery_set_prop_def battery_ok_def battery_line_no_def
        battery_asserted_def Let_def res_simps split: if_splits)
qed

interpretation battery_irq: single_line masked_step "\<lambda>se. battery_ok (fst se)" "\<lambda>se. battery_line_no (fst se)" "\<lambda>se. battery_asserted (fst se) (snd se)"
proof unfold_locales
  fix se se' :: "goldfish_battery_state \<times> u32" and op os
  assume ok: "battery_ok (fst se)" and step: "masked_step op se = Inr (se', os)"
  then have s: "battery_step op (fst se) = Inr (fst se', os)" "snd se' = driving_mask op (fst se) (snd se)"
    by (auto simp: masked_step_def res_simps)
  show "battery_ok (fst se')" "battery_line_no (fst se') = battery_line_no (fst se)"
    "line_after (battery_line_no (fst se)) os (battery_asserted (fst se) (snd se)) = battery_asserted (fst se') (snd se')"
    using battery_step_level [OF ok s(1), of "snd se"] s(2) by auto
  show "fst ` set os \<subseteq> {battery_line_no (fst se)}" using battery_step_own [OF s(1)] .
qed

lemma battery_set_field:
  assumes "b_hw_has_battery s" and "0 < d_irq_count (b_dev s)"
  shows "\<exists>st os. goldfish_battery_set_prop ac property v (Some s) =
    Inr (Some ((set_battery_field ac property v s)\<lparr>b_int_status := st\<rparr>), os)"
proof (cases "(if ac then AC_STATUS_CHANGED else BATTERY_STATUS_CHANGED) = b_int_status s")
  case True
  then have "goldfish_battery_set_prop ac property v (Some s) =
      Inr (Some ((set_battery_field ac property v s)\<lparr>b_int_status := b_int_status s\<rparr>), [])"
    using assms set_battery_field_frame(2) [of ac property v s]
    by (simp add: goldfish_battery_set_prop_def)
  then show ?thesis by blast
qed (use assms in \<open>auto simp: goldfish_battery_set_prop_def Let_def\<close>)

section \<open>Properties\<close>

text \<open>While the driver keeps its interrupt mask, the line of the battery is high exactly when an enabled change is
  recorded, over any sequence of register reads and console commands, starting with the line low and nothing recorded.\<close>

definition keeps_mask :: "battery_op \<Rightarrow> bool" where
  "keeps_mask op \<longleftrightarrow> (case op of Battery_write offset v \<Rightarrow> False | _ \<Rightarrow> True)"

lemma masked_run:
  assumes "run_ops battery_step ops s = Inr (s', os)" and "list_all keeps_mask ops"
  shows "run_ops masked_step ops (s, b_int_enable s) = Inr ((s', b_int_enable s'), os)"
  using assms
proof (induction ops arbitrary: s os)
  case (Cons op ops)
  then obtain s1 os1 os2 where s1: "battery_step op s = Inr (s1, os1)" "run_ops battery_step ops s1 = Inr (s', os2)" "os = os1 @ os2"
    by (auto simp: run_ops_Cons simp del: run_ops.simps)
  have "b_int_enable s1 = b_int_enable s" using s1(1) Cons.prems(2)
    by (cases op) (auto simp: keeps_mask_def goldfish_battery_read_def goldfish_battery_set_prop_def Let_def res_simps split: if_splits)
  then have "masked_step op (s, b_int_enable s) = Inr ((s1, b_int_enable s1), os1)" using s1(1) by (simp add: masked_step_def driving_mask_def)
  then show ?case using Cons.IH [OF s1(2)] Cons.prems(2) s1(3) by simp
qed simp

theorem battery_line_level:
  assumes "run_ops battery_step ops s = Inr (s', os)" and "list_all keeps_mask ops" and "0 < d_irq_count (b_dev s)" and "b_int_status s = 0"
  shows "line_after (d_irq (b_dev s)) os False = (b_int_status s' AND b_int_enable s' \<noteq> 0)"
  using battery_irq.run_level [OF _ masked_run [OF assms(1,2)]] assms(3,4)
  by (simp add: battery_ok_def battery_line_no_def battery_asserted_def)

text \<open>The console and the driver see the same properties: after a property is set on the console of a device with a
  battery, reading it back on the console gives the value, and so does the register of the guest; the other properties keep
  their values.\<close>

theorem battery_set_read:
  assumes "b_hw_has_battery s" and "0 < d_irq_count (b_dev s)"
    and "ac = (property = POWER_SUPPLY_PROP_ONLINE)"
    and "(property, offset) \<in> {(POWER_SUPPLY_PROP_ONLINE, BATTERY_AC_ONLINE), (POWER_SUPPLY_PROP_STATUS, BATTERY_STATUS),
       (POWER_SUPPLY_PROP_HEALTH, BATTERY_HEALTH), (POWER_SUPPLY_PROP_PRESENT, BATTERY_PRESENT),
       (POWER_SUPPLY_PROP_CAPACITY, BATTERY_CAPACITY)}"
  shows "\<exists>s' os. goldfish_battery_set_prop ac property v (Some s) = Inr (Some s', os) \<and>
    goldfish_battery_read_prop property (Some s') = v \<and> goldfish_battery_read offset s' = Inr (v, s', []) \<and>
    (\<forall>p. p \<noteq> property \<longrightarrow> goldfish_battery_read_prop p (Some s') = goldfish_battery_read_prop p (Some s))"
proof -
  obtain st os where set: "goldfish_battery_set_prop ac property v (Some s) =
      Inr (Some ((set_battery_field ac property v s)\<lparr>b_int_status := st\<rparr>), os)"
    using battery_set_field [OF assms(1,2)] by blast
  let ?s = "(set_battery_field ac property v s)\<lparr>b_int_status := st\<rparr>"
  have "goldfish_battery_read_prop property (Some ?s) = v"
    using assms(1,3,4) by (auto simp: goldfish_battery_read_prop_def set_battery_field_def power_prop_defs)
  moreover have "goldfish_battery_read offset ?s = Inr (v, ?s, [])"
    using assms(3,4) by (auto simp: goldfish_battery_read_def set_battery_field_def battery_reg_defs power_prop_defs)
  moreover have "\<forall>p. p \<noteq> property \<longrightarrow> goldfish_battery_read_prop p (Some ?s) = goldfish_battery_read_prop p (Some s)"
    using assms(1) by (auto simp: goldfish_battery_read_prop_def set_battery_field_def power_prop_defs)
  ultimately show ?thesis using set by blast
qed

theorem battery_set_read_witness:
  "\<exists>s' os. goldfish_battery_set_prop False POWER_SUPPLY_PROP_CAPACITY 20 (Some (goldfish_battery_init True)) = Inr (Some s', os) \<and>
     goldfish_battery_read BATTERY_CAPACITY s' = Inr (20, s', [])"
  using battery_set_read [of "goldfish_battery_init True" False POWER_SUPPLY_PROP_CAPACITY BATTERY_CAPACITY 20]
  by (auto simp: goldfish_battery_init_def power_prop_defs)

text \<open>A change can go unnoticed. When a battery property changes before the driver enables its interrupts, enabling
  them does not raise the line, and neither does any later change of a battery property, as long as the driver waits for
  the interrupt: the change is recorded already, so the update of the line is skipped.\<close>

theorem battery_lost_interrupt:
  "let s = goldfish_battery_init True in
   \<exists>s1 s2. goldfish_battery_set_prop False POWER_SUPPLY_PROP_CAPACITY 20 (Some s) = Inr (Some s1, [(0, False)]) \<and>
     goldfish_battery_write BATTERY_INT_ENABLE 3 s1 = Inr s2 \<and> b_int_status s2 AND b_int_enable s2 \<noteq> 0 \<and>
     (\<forall>property v. \<exists>s3. goldfish_battery_set_prop False property v (Some s2) = Inr (Some s3, []))"
  by (simp add: Let_def goldfish_battery_init_def goldfish_battery_set_prop_def goldfish_battery_write_def battery_reg_defs
      set_battery_field_def power_prop_defs)

end
