(* ===== verification/Fifo.thy ===== *)
theory Fifo
  imports Prelude
begin

text \<open>
  The contract of a device that holds data in a buffer: every operation does to the device what the operation of an abstract queue does to the
  contents of the buffer, and answers the same. Over any sequence of operations the answers are then those of the queue, and the buffer holds what
  the queue holds.
\<close>

fun device_run :: "('op \<Rightarrow> 's \<Rightarrow> ('o \<times> 's) res) \<Rightarrow> 'op list \<Rightarrow> 's \<Rightarrow> ('o list \<times> 's) res" where
  "device_run step [] s = Inr ([], s)"
| "device_run step (op # ops) s =
     res_bind (step op s) (\<lambda>(out, s). res_bind (device_run step ops s) (\<lambda>(outs, s). Inr (out # outs, s)))"

fun queue_run :: "('op \<Rightarrow> 'q \<Rightarrow> 'o \<times> 'q) \<Rightarrow> 'op list \<Rightarrow> 'q \<Rightarrow> 'o list \<times> 'q" where
  "queue_run astep [] q = ([], q)"
| "queue_run astep (op # ops) q = (let (out, q) = astep op q; (outs, q) = queue_run astep ops q in (out # outs, q))"

locale queue_device =
  fixes step :: "'op \<Rightarrow> 's \<Rightarrow> ('o \<times> 's) res" and astep :: "'op \<Rightarrow> 'q \<Rightarrow> 'o \<times> 'q" and contents :: "'s \<Rightarrow> 'q" and ok :: "'s \<Rightarrow> bool" and valid :: "'op \<Rightarrow> bool"
  assumes step_refines: "ok s \<Longrightarrow> valid op \<Longrightarrow> \<exists>s'. step op s = Inr (fst (astep op (contents s)), s') \<and> ok s' \<and> contents s' = snd (astep op (contents s))"
begin

lemma run_refines:
  "ok s \<Longrightarrow> list_all valid ops \<Longrightarrow>
    \<exists>outs s'. device_run step ops s = Inr (outs, s') \<and> queue_run astep ops (contents s) = (outs, contents s') \<and> ok s'"
proof (induction ops arbitrary: s)
  case (Cons op ops)
  obtain s1 where s1: "step op s = Inr (fst (astep op (contents s)), s1)" "ok s1" "contents s1 = snd (astep op (contents s))"
    using step_refines Cons.prems by force
  obtain outs s' where "device_run step ops s1 = Inr (outs, s')" "queue_run astep ops (contents s1) = (outs, contents s')" "ok s'"
    using Cons.IH [OF s1(2)] Cons.prems(2) by auto
  then show ?case using s1 by (auto simp: split_beta Let_def)
qed simp

end

end
