(* ===== verification/Goldfish_Events.thy ===== *)
theory Goldfish_Events
  imports Savevm Goldfish_Device Irq_Line Fifo
begin

text \<open>
  The goldfish events device, \<open>hw/android/goldfish/events_device.c\<close>: keyboard, touch and trackball
  events, three words each, go through a ring of 1024 words to the guest driver, which also reads from
  it the name of the device, the bit masks of the events it may send and the ranges of the absolute
  axes.
\<close>

section \<open>State\<close>

definition MAX_EVENTS :: nat where "MAX_EVENTS = 256 * 4"

definition EV_SYN :: u32 where "EV_SYN = 0x00"
definition EV_KEY :: u32 where "EV_KEY = 0x01"
definition EV_REL :: u32 where "EV_REL = 0x02"
definition EV_ABS :: u32 where "EV_ABS = 0x03"
definition EV_SW :: u32 where "EV_SW = 0x05"
definition EV_MAX :: u32 where "EV_MAX = 0x1f"

definition REG_READ :: int where "REG_READ = 0x00"
definition REG_SET_PAGE :: int where "REG_SET_PAGE = 0x00"
definition REG_LEN :: int where "REG_LEN = 0x04"
definition REG_DATA :: int where "REG_DATA = 0x08"
definition PAGE_NAME :: u32 where "PAGE_NAME = 0x00000"
definition PAGE_EVBITS :: u32 where "PAGE_EVBITS = 0x10000"
definition PAGE_ABSDATA :: u32 where "PAGE_ABSDATA = 0x20000 OR EV_ABS"

definition STATE_INIT :: u32 where "STATE_INIT = 0"
definition STATE_BUFFERED :: u32 where "STATE_BUFFERED = 1"
definition STATE_LIVE :: u32 where "STATE_LIVE = 2"

lemmas ev_type_defs = EV_SYN_def EV_KEY_def EV_REL_def EV_ABS_def EV_SW_def EV_MAX_def
lemmas ev_reg_defs = REG_READ_def REG_SET_PAGE_def REG_LEN_def REG_DATA_def PAGE_NAME_def PAGE_EVBITS_def
  PAGE_ABSDATA_def EV_ABS_def EV_MAX_def
lemmas ev_state_defs = STATE_INIT_def STATE_BUFFERED_def STATE_LIVE_def

text \<open>The pair of the length and the bytes of an entry of \<open>ev_bits\<close> is the list of its bytes, and
  \<open>abs_info\<close> with its count is the list of its words.\<close>

record events_state =
  ev_irq :: u32
  ev_pending :: u32
  ev_page :: u32
  ev_events :: "nat \<Rightarrow> u32"
  ev_first :: u32
  ev_last :: u32
  ev_state :: u32
  ev_name :: "u8 list"
  ev_bits :: "nat \<Rightarrow> u8 list"
  ev_abs_info :: "u32 list"

section \<open>The ring\<close>

definition next_index :: "u32 \<Rightarrow> u32" where
  "next_index i = (i + 1) AND (word_of_nat MAX_EVENTS - 1)"

definition push_word :: "u32 \<Rightarrow> events_state \<Rightarrow> events_state" where
  "push_word v s = s\<lparr>ev_events := (ev_events s)(unat (ev_last s) := v), ev_last := next_index (ev_last s)\<rparr>"

text \<open>The number of words in the ring, as the code computes it.\<close>

definition enqueued :: "events_state \<Rightarrow> int" where
  "enqueued s = (let n = sint (ev_last s - ev_first s) in if n < 0 then n + int MAX_EVENTS else n)"

definition enqueue_event :: "u32 \<Rightarrow> u32 \<Rightarrow> u32 \<Rightarrow> events_state \<Rightarrow> (events_state \<times> irq_out list) res" where
  "enqueue_event type code v s =
     (if int MAX_EVENTS < enqueued s + 3 then Inr (s, [])
      else if MAX_EVENTS \<le> unat (ev_last s) then Inl Undefined
      else let (s1, os) =
                 (if ev_first s = ev_last s
                  then if ev_state s = STATE_LIVE then (s, [(ev_irq s, True)])
                       else (s\<lparr>ev_state := STATE_BUFFERED\<rparr>, [])
                  else (s, []))
           in Inr (push_word v (push_word code (push_word type s1)), os))"

definition dequeue_event :: "target \<Rightarrow> events_state \<Rightarrow> (u32 \<times> events_state \<times> irq_out list) res" where
  "dequeue_event t s =
     (if ev_first s = ev_last s then Inr (0, s, [])
      else if MAX_EVENTS \<le> unat (ev_first s) then Inl Undefined
      else let n = ev_events s (unat (ev_first s));
               s1 = s\<lparr>ev_first := next_index (ev_first s)\<rparr>;
               m = word_of_nat MAX_EVENTS - 1;
               os = (if ev_first s1 = ev_last s1 then [(ev_irq s1, False)]
                     else case t of
                            Target_I386 \<Rightarrow>
                              if (ev_first s1 + 2) AND m < ev_last s1 \<or> ev_last s1 < (ev_first s1 AND m)
                              then [(ev_irq s1, False), (ev_irq s1, True)] else []
                          | Target_ARM_MIPS \<Rightarrow> [])
           in Inr (n, s1, os))"

section \<open>The pages\<close>

definition on_evbits_page :: "events_state \<Rightarrow> bool" where
  "on_evbits_page s \<longleftrightarrow> sint PAGE_EVBITS \<le> sint (ev_page s) \<and> sint (ev_page s) \<le> sint (PAGE_EVBITS + EV_MAX)"

definition get_page_len :: "events_state \<Rightarrow> nat" where
  "get_page_len s =
     (if ev_page s = PAGE_NAME then length (ev_name s)
      else if on_evbits_page s then length (ev_bits s (unat (ev_page s - PAGE_EVBITS)))
      else if ev_page s = PAGE_ABSDATA then length (ev_abs_info s) * 4
      else 0)"

text \<open>Only the terminating zero of the name can be read beyond the end.\<close>

definition get_page_data :: "events_state \<Rightarrow> nat \<Rightarrow> u32 res" where
  "get_page_data s offset =
     (if get_page_len s < offset then Inr 0
      else if ev_page s = PAGE_NAME then Inr (if offset = length (ev_name s) then 0 else scast (ev_name s ! offset))
      else if on_evbits_page s then
        let bits = ev_bits s (unat (ev_page s - PAGE_EVBITS))
        in if offset < length bits then Inr (ucast (bits ! offset)) else Inl Undefined
      else if ev_page s = PAGE_ABSDATA then
        (if offset div 4 < length (ev_abs_info s) then Inr (ev_abs_info s ! (offset div 4)) else Inl Undefined)
      else Inr 0)"

definition events_read :: "target \<Rightarrow> u64 \<Rightarrow> events_state \<Rightarrow> (u32 \<times> events_state \<times> irq_out list) res" where
  "events_read t off s =
     (let offset = sint (ucast off :: u32);
          (s1, os1) = (if offset = REG_LEN \<and> ev_page s = PAGE_ABSDATA
                       then (s\<lparr>ev_state := STATE_LIVE\<rparr>, if ev_state s = STATE_BUFFERED then [(ev_irq s, True)] else [])
                       else (s, []))
      in if offset = REG_READ then
           res_bind (dequeue_event t s1) (\<lambda>(v, s2, os2). Inr (v, s2, os1 @ os2))
         else if offset = REG_LEN then Inr (word_of_nat (get_page_len s1), s1, os1)
         else if REG_DATA \<le> offset then
           res_bind (get_page_data s1 (nat (offset - REG_DATA))) (\<lambda>v. Inr (v, s1, os1))
         else Inr (0, s1, os1))"

definition events_write :: "u64 \<Rightarrow> u32 \<Rightarrow> events_state \<Rightarrow> events_state" where
  "events_write off v s =
     (if sint (ucast off :: u32) = REG_SET_PAGE then s\<lparr>ev_page := v\<rparr> else s)"

section \<open>Input from the user interface\<close>

definition ABS_X :: u32 where "ABS_X = 0x00"
definition ABS_Y :: u32 where "ABS_Y = 0x01"
definition ABS_Z :: u32 where "ABS_Z = 0x02"
definition REL_X :: u32 where "REL_X = 0x00"
definition REL_Y :: u32 where "REL_Y = 0x01"
definition BTN_TOUCH :: u32 where "BTN_TOUCH = 0x14a"

definition events_put_keycode :: "u32 \<Rightarrow> events_state \<Rightarrow> (events_state \<times> irq_out list) res" where
  "events_put_keycode keycode s =
     enqueue_event EV_KEY (keycode AND 0x3ff) (if keycode AND 0x400 \<noteq> 0 then 1 else 0) s"

fun enqueue_events :: "(u32 \<times> u32 \<times> u32) list \<Rightarrow> events_state \<Rightarrow> (events_state \<times> irq_out list) res" where
  "enqueue_events [] s = Inr (s, [])"
| "enqueue_events ((type, code, v) # es) s =
     res_bind (enqueue_event type code v s) (\<lambda>(s1, os). res_bind (enqueue_events es s1) (\<lambda>(s2, os'). Inr (s2, os @ os')))"

text \<open>The kind of the screen, from the hardware configuration of the emulated device, and the call the
  mouse handler makes for a multi-touch screen.\<close>

datatype screen = Screen_No_Touch | Screen_Touch | Screen_Multi_Touch

datatype mouse_result = Mt_update_pointer u32 u32 u32 u32 | Mouse_events events_state "irq_out list"

definition events_put_mouse :: "screen \<Rightarrow> u32 \<Rightarrow> u32 \<Rightarrow> u32 \<Rightarrow> u32 \<Rightarrow> events_state \<Rightarrow> mouse_result res" where
  "events_put_mouse scr dx dy dz buttons_state s =
     (if dz = 0 then
        (case scr of
           Screen_Multi_Touch \<Rightarrow>
             Inr (Mt_update_pointer (if buttons_state AND 2 \<noteq> 0 then 1 else 0) dx dy
                    (if buttons_state AND 1 \<noteq> 0 then 0x81 else 0))
         | Screen_Touch \<Rightarrow>
             res_bind (enqueue_events [(EV_ABS, ABS_X, dx), (EV_ABS, ABS_Y, dy), (EV_ABS, ABS_Z, dz),
               (EV_KEY, BTN_TOUCH, buttons_state AND 1), (EV_SYN, 0, 0)] s) (\<lambda>(s1, os). Inr (Mouse_events s1 os))
         | Screen_No_Touch \<Rightarrow> Inr (Mouse_events s []))
      else res_bind (enqueue_events [(EV_REL, REL_X, dx), (EV_REL, REL_Y, dy), (EV_SYN, 0, 0)] s)
             (\<lambda>(s1, os). Inr (Mouse_events s1 os)))"

definition events_put_generic :: "u32 \<Rightarrow> u32 \<Rightarrow> u32 \<Rightarrow> events_state \<Rightarrow> (events_state \<times> irq_out list) res" where
  "events_put_generic type code v s = enqueue_event type code v s"

section \<open>The event masks\<close>

text \<open>The loop of \<open>events_set_bits\<close> over the bytes between the first and the last one.\<close>

function fill_bytes :: "u8 list \<Rightarrow> nat \<Rightarrow> nat \<Rightarrow> u8 list" where
  "fill_bytes bits il ih = (if Suc il < ih then fill_bytes (bits[Suc il := 0xff]) (Suc il) ih else bits)"
  by pat_completeness auto
termination
  by (relation "measure (\<lambda>(bits, il, ih). ih - il)") auto

declare fill_bytes.simps [simp del]

definition set_bits :: "nat \<Rightarrow> nat \<Rightarrow> u8 list \<Rightarrow> u8 list" where
  "set_bits bitl bith bs =
     (let il = bitl div 8; ih = bith div 8;
          bits = (if length bs \<le> ih then bs @ replicate (Suc ih - length bs) 0 else bs);
          maskl = push_bit (bitl mod 8) 0xff :: u8;
          maskh = drop_bit (7 - bith mod 8) 0xff :: u8;
          (bits1, maskh1) =
            (if ih \<le> il then (bits, maskh AND maskl)
             else (fill_bytes (bits[il := bits ! il OR maskl]) il ih, maskh))
      in bits1[ih := bits1 ! ih OR maskh1])"

definition events_set_bits :: "u32 \<Rightarrow> nat \<Rightarrow> nat \<Rightarrow> events_state \<Rightarrow> events_state" where
  "events_set_bits type bitl bith s =
     s\<lparr>ev_bits := (ev_bits s)(unat type := set_bits bitl bith (ev_bits s (unat type)))\<rparr>"

definition events_set_bit :: "u32 \<Rightarrow> nat \<Rightarrow> events_state \<Rightarrow> events_state" where
  "events_set_bit type n s = events_set_bits type n n s"

definition clr_bit :: "nat \<Rightarrow> u8 list \<Rightarrow> u8 list" where
  "clr_bit n bits =
     (if n div 8 < length bits then bits[n div 8 := bits ! (n div 8) AND NOT (push_bit (n mod 8) 1)] else bits)"

definition events_clr_bit :: "u32 \<Rightarrow> nat \<Rightarrow> events_state \<Rightarrow> events_state" where
  "events_clr_bit type n s = s\<lparr>ev_bits := (ev_bits s)(unat type := clr_bit n (ev_bits s (unat type)))\<rparr>"

section \<open>Initialisation\<close>

text \<open>The part of the hardware configuration the device depends on; \<open>hc_mt_max_slot\<close> is the result of
  \<open>multitouch_get_max_slot\<close>.\<close>

record hw_config =
  hc_dPad :: bool
  hc_trackBall :: bool
  hc_screen :: screen
  hc_camera :: bool
  hc_keyboard :: bool
  hc_keyboard_lid :: bool
  hc_lcd_width :: u32
  hc_lcd_height :: u32
  hc_charmap :: "u8 list"
  hc_mt_max_slot :: u32

definition base_keys :: "nat list" where
  "base_keys = [580, 102, 158, 231, 107, 229, 115, 114, 230, 116, 217, 208, 164, 168]"

definition dpad_keys :: "nat list" where
  "dpad_keys = [108, 103, 105, 106, 232]"

definition BTN_MOUSE :: nat where "BTN_MOUSE = 0x110"
definition KEY_CAMERA :: nat where "KEY_CAMERA = 212"
definition ABS_MAX :: nat where "ABS_MAX = 0x3f"
definition ABS_MT_SLOT :: nat where "ABS_MT_SLOT = 0x2f"
definition ABS_MT_TOUCH_MAJOR :: nat where "ABS_MT_TOUCH_MAJOR = 0x30"
definition ABS_MT_POSITION_X :: nat where "ABS_MT_POSITION_X = 0x35"
definition ABS_MT_POSITION_Y :: nat where "ABS_MT_POSITION_Y = 0x36"
definition ABS_MT_TRACKING_ID :: nat where "ABS_MT_TRACKING_ID = 0x39"
definition ABS_MT_PRESSURE :: nat where "ABS_MT_PRESSURE = 0x3a"

definition set_if :: "bool \<Rightarrow> ('a \<Rightarrow> 'a) \<Rightarrow> 'a \<Rightarrow> 'a" where
  "set_if c f = (if c then f else id)"

definition init_keys :: "hw_config \<Rightarrow> events_state \<Rightarrow> events_state" where
  "init_keys config s0 =
     (let s1 = events_set_bit EV_SYN (unat EV_KEY) s0;
          s2 = fold (events_set_bit EV_KEY) base_keys s1;
          s3 = set_if (hc_dPad config) (fold (events_set_bit EV_KEY) dpad_keys) s2;
          s4 = set_if (hc_trackBall config) (events_set_bit EV_KEY BTN_MOUSE) s3;
          s5 = set_if (hc_screen config = Screen_Touch) (events_set_bit EV_KEY (unat BTN_TOUCH)) s4;
          s6 = set_if (hc_camera config) (events_set_bit EV_KEY KEY_CAMERA) s5
      in set_if (hc_keyboard config)
           (\<lambda>s. set_if (\<not> hc_dPad config) (fold (events_clr_bit EV_KEY) dpad_keys)
                  (events_set_bits EV_KEY 0x160 0x1ff (events_set_bits EV_KEY 1 0xff s))) s6)"

definition init_rel :: "hw_config \<Rightarrow> events_state \<Rightarrow> events_state" where
  "init_rel config =
     set_if (hc_trackBall config)
       (\<lambda>s. events_set_bits EV_REL (unat REL_X) (unat REL_Y) (events_set_bit EV_SYN (unat EV_REL) s))"

text \<open>The maximum of an axis is the second of its four words.\<close>

definition set_abs_max :: "nat \<Rightarrow> u32 \<Rightarrow> u32 list \<Rightarrow> u32 list" where
  "set_abs_max axis v info = info[4 * axis + 1 := v]"

definition init_abs :: "hw_config \<Rightarrow> events_state \<Rightarrow> events_state" where
  "init_abs config s0 =
     (if hc_screen config = Screen_No_Touch then s0
      else let mt = (hc_screen config = Screen_Multi_Touch);
               s1 = events_set_bits EV_ABS (unat ABS_X) (unat ABS_Z) (events_set_bit EV_SYN (unat EV_ABS) s0);
               info1 = set_abs_max (unat ABS_Z) 1
                         (set_abs_max (unat ABS_Y) (hc_lcd_height config - 1)
                           (set_abs_max (unat ABS_X) (hc_lcd_width config - 1)
                             (replicate (if mt then ABS_MAX * 4 else 3 * 4) 0)))
           in if mt
              then (fold (events_set_bit EV_ABS)
                      [ABS_MT_SLOT, ABS_MT_POSITION_X, ABS_MT_POSITION_Y, ABS_MT_TRACKING_ID, ABS_MT_TOUCH_MAJOR,
                       ABS_MT_PRESSURE] s1)
                   \<lparr>ev_abs_info := set_abs_max ABS_MT_PRESSURE 0x100
                      (set_abs_max ABS_MT_TOUCH_MAJOR 0x7fffffff
                        (set_abs_max ABS_MT_POSITION_Y (hc_lcd_height config - 1)
                          (set_abs_max ABS_MT_POSITION_X (hc_lcd_width config - 1)
                            (set_abs_max ABS_MT_TRACKING_ID (hc_mt_max_slot config + 1)
                              (set_abs_max ABS_MT_SLOT (hc_mt_max_slot config) info1)))))\<rparr>
              else s1\<lparr>ev_abs_info := info1\<rparr>)"

definition init_sw :: "hw_config \<Rightarrow> events_state \<Rightarrow> events_state" where
  "init_sw config =
     set_if (hc_keyboard config \<and> hc_keyboard_lid config)
       (\<lambda>s. events_set_bit EV_SW 0 (events_set_bit EV_SYN (unat EV_SW) s))"

definition events_dev_init :: "hw_config \<Rightarrow> u32 \<Rightarrow> events_state" where
  "events_dev_init config irq =
     init_sw config (init_abs config (init_rel config (init_keys config
       \<lparr>ev_irq = irq, ev_pending = 0, ev_page = 0, ev_events = (\<lambda>_. 0), ev_first = 0, ev_last = 0,
        ev_state = STATE_INIT, ev_name = hc_charmap config, ev_bits = (\<lambda>_. []), ev_abs_info = []\<rparr>)))"

section \<open>Snapshots\<close>

definition EVENTS_STATE_SAVE_VERSION :: int where "EVENTS_STATE_SAVE_VERSION = 2"

text \<open>The array of the events is saved as it lies in memory, on a little-endian host.\<close>

definition events_to_bytes :: "(nat \<Rightarrow> u32) \<Rightarrow> u8 list" where
  "events_to_bytes es = map (\<lambda>i. le32_byte (es (i div 4)) (i mod 4)) [0..<4 * MAX_EVENTS]"

definition events_of_bytes :: "(nat \<Rightarrow> u32) \<Rightarrow> u8 list \<Rightarrow> (nat \<Rightarrow> u32)" where
  "events_of_bytes es bs =
     (\<lambda>i. if i < MAX_EVENTS then le32_join (bs ! (4 * i)) (bs ! (4 * i + 1)) (bs ! (4 * i + 2)) (bs ! (4 * i + 3))
          else es i)"

definition events_state_fields :: "events_state QField list" where
  "events_state_fields =
     [QFIELD_INT32 ev_pending (\<lambda>v. ev_pending_update (\<lambda>_. v)),
      QFIELD_INT32 ev_page (\<lambda>v. ev_page_update (\<lambda>_. v)),
      QFIELD_BUFFER (4 * MAX_EVENTS) (\<lambda>s. events_to_bytes (ev_events s))
        (\<lambda>bs s. s\<lparr>ev_events := events_of_bytes (ev_events s) bs\<rparr>),
      QFIELD_INT32 ev_first (\<lambda>v. ev_first_update (\<lambda>_. v)),
      QFIELD_INT32 ev_last (\<lambda>v. ev_last_update (\<lambda>_. v)),
      QFIELD_INT32 ev_state (\<lambda>v. ev_state_update (\<lambda>_. v))]"

definition events_state_save :: "events_state \<Rightarrow> u8 list" where
  "events_state_save s = qemu_put_struct events_state_fields s"

definition events_state_load :: "rstream \<Rightarrow> events_state \<Rightarrow> int \<Rightarrow> int \<times> events_state \<times> rstream" where
  "events_state_load f s version_id =
     (if version_id \<noteq> EVENTS_STATE_SAVE_VERSION then (-1, s, f) else qemu_get_struct events_state_fields f s)"

section \<open>The ring is a queue of words\<close>

definition ring_len :: "events_state \<Rightarrow> nat" where
  "ring_len s = (MAX_EVENTS + unat (ev_last s) - unat (ev_first s)) mod MAX_EVENTS"

definition ev_queue :: "events_state \<Rightarrow> u32 list" where
  "ev_queue s = map (\<lambda>i. ev_events s ((unat (ev_first s) + i) mod MAX_EVENTS)) [0..<ring_len s]"

definition ring_ok :: "events_state \<Rightarrow> bool" where
  "ring_ok s \<longleftrightarrow> unat (ev_first s) < MAX_EVENTS \<and> unat (ev_last s) < MAX_EVENTS"

lemma length_ev_queue [simp]: "length (ev_queue s) = ring_len s"
  by (simp add: ev_queue_def)

lemma next_index_unat:
  assumes "unat i < MAX_EVENTS"
  shows "unat (next_index i) = (unat i + 1) mod MAX_EVENTS" and "unat (next_index i) < MAX_EVENTS"
proof -
  have "word_of_nat MAX_EVENTS - 1 = (mask 10 :: u32)" by (simp add: MAX_EVENTS_def mask_eq_exp_minus_1)
  then have "unat (next_index i) = take_bit 10 (unat (i + 1))"
    by (simp add: next_index_def unsigned_take_bit_eq flip: take_bit_eq_mask)
  then show "unat (next_index i) = (unat i + 1) mod MAX_EVENTS"
    using assms by (simp add: take_bit_eq_mod MAX_EVENTS_def unat_word_ariths)
  then show "unat (next_index i) < MAX_EVENTS" by (simp add: MAX_EVENTS_def)
qed

lemma ring_len_alt:
  assumes "ring_ok s"
  shows "ring_len s = (if unat (ev_first s) \<le> unat (ev_last s) then unat (ev_last s) - unat (ev_first s)
    else MAX_EVENTS + unat (ev_last s) - unat (ev_first s))"
  using assms by (auto simp: ring_len_def ring_ok_def MAX_EVENTS_def mod_if)

lemma ring_len_less: "ring_len s < MAX_EVENTS"
  by (simp add: ring_len_def MAX_EVENTS_def)

lemma ring_empty: "ring_ok s \<Longrightarrow> ring_len s = 0 \<longleftrightarrow> ev_first s = ev_last s"
  by (auto simp: ring_len_alt ring_ok_def word_unat_eq_iff split: if_splits)

lemma ring_last:
  assumes "ring_ok s"
  shows "(unat (ev_first s) + ring_len s) mod MAX_EVENTS = unat (ev_last s)"
  using assms by (auto simp: ring_len_alt ring_ok_def MAX_EVENTS_def)

lemma small_difference: "a < 1024 \<Longrightarrow> b < 1024 \<Longrightarrow> signed_take_bit 31 (int a - int b) = int a - int b"
  by (rule signed_take_bit_int_eq_self) simp_all

lemma ring_arith:
  "f < MAX_EVENTS \<Longrightarrow> l < MAX_EVENTS \<Longrightarrow>
   (let n = int l - int f in if n < 0 then n + int MAX_EVENTS else n) =
     int (if f \<le> l then l - f else MAX_EVENTS + l - f)"
  by (auto simp: Let_def)

lemma enqueued_eq:
  assumes "ring_ok s"
  shows "enqueued s = int (ring_len s)"
proof -
  let ?d = "int (unat (ev_last s)) - int (unat (ev_first s))"
  have "ev_last s - ev_first s = word_of_int ?d" by simp
  then have "sint (ev_last s - ev_first s) = signed_take_bit 31 ?d"
    using sint_sbintrunc' [of ?d, where 'a = 32] by simp
  moreover have "signed_take_bit 31 ?d = ?d"
    using assms unfolding ring_ok_def MAX_EVENTS_def by (intro small_difference) simp_all
  ultimately have "sint (ev_last s - ev_first s) = ?d" by (simp only:)
  then show ?thesis
    unfolding enqueued_def ring_len_alt [OF assms] using assms
    by (simp only: ring_arith ring_ok_def)
qed

lemma push_word_queue:
  assumes "ring_ok s" and "ring_len s + 1 < MAX_EVENTS"
  shows "ring_ok (push_word v s)" and "ring_len (push_word v s) = ring_len s + 1"
    and "ev_queue (push_word v s) = ev_queue s @ [v]"
proof -
  let ?s = "push_word v s"
  have n: "unat (next_index (ev_last s)) = (unat (ev_last s) + 1) mod MAX_EVENTS"
    using next_index_unat(1) assms(1) by (simp add: ring_ok_def)
  show ok: "ring_ok ?s" using assms(1) n by (auto simp: ring_ok_def push_word_def MAX_EVENTS_def)
  show l: "ring_len ?s = ring_len s + 1"
    using assms n unfolding ring_len_alt [OF ok] ring_len_alt [OF assms(1)]
    by (auto simp: push_word_def ring_ok_def MAX_EVENTS_def mod_if split: if_splits)
  have "(unat (ev_first s) + i) mod MAX_EVENTS \<noteq> unat (ev_last s)" if "i < ring_len s" for i
    using that ring_last [OF assms(1)] assms
    by (auto simp: ring_ok_def MAX_EVENTS_def mod_if split: if_splits)
  then show "ev_queue ?s = ev_queue s @ [v]"
    using l ring_last [OF assms(1)] by (simp add: ev_queue_def) (simp add: push_word_def)
qed

lemma pop_word_queue:
  assumes "ring_ok s" and "ring_len s \<noteq> 0"
  shows "ring_ok (s\<lparr>ev_first := next_index (ev_first s)\<rparr>)"
    and "ring_len (s\<lparr>ev_first := next_index (ev_first s)\<rparr>) = ring_len s - 1"
    and "ev_queue s = ev_events s (unat (ev_first s)) # ev_queue (s\<lparr>ev_first := next_index (ev_first s)\<rparr>)"
proof -
  let ?s = "s\<lparr>ev_first := next_index (ev_first s)\<rparr>"
  have n: "unat (next_index (ev_first s)) = (unat (ev_first s) + 1) mod MAX_EVENTS"
    using next_index_unat(1) assms(1) by (simp add: ring_ok_def)
  show ok: "ring_ok ?s" using assms(1) n by (auto simp: ring_ok_def MAX_EVENTS_def)
  show l: "ring_len ?s = ring_len s - 1"
    using assms n unfolding ring_len_alt [OF ok] ring_len_alt [OF assms(1)]
    by (auto simp: ring_ok_def MAX_EVENTS_def mod_if split: if_splits)
  have "ring_len s = Suc (ring_len ?s)" using l assms(2) by simp
  moreover have "(unat (ev_first ?s) + i) mod MAX_EVENTS = (unat (ev_first s) + Suc i) mod MAX_EVENTS" for i
    using n by (simp add: mod_simps)
  ultimately show "ev_queue s = ev_events s (unat (ev_first s)) # ev_queue ?s"
    using assms(1) by (simp add: ev_queue_def ring_ok_def upt_conv_Cons flip: map_Suc_upt del: upt_Suc)
qed

lemma ring_state_update [simp]:
  "ring_ok (s\<lparr>ev_state := x\<rparr>) = ring_ok s" "ring_len (s\<lparr>ev_state := x\<rparr>) = ring_len s"
  "ev_queue (s\<lparr>ev_state := x\<rparr>) = ev_queue s" "ring_ok (s\<lparr>ev_page := y\<rparr>) = ring_ok s"
  "ring_len (s\<lparr>ev_page := y\<rparr>) = ring_len s" "ev_queue (s\<lparr>ev_page := y\<rparr>) = ev_queue s"
  by (simp_all add: ring_ok_def ring_len_def ev_queue_def)

lemma push_word_frame [simp]: "ev_state (push_word v s) = ev_state s" "ev_irq (push_word v s) = ev_irq s"
  by (simp_all add: push_word_def)

lemma enqueue_event_spec:
  assumes "ring_ok s" and "ring_len s + 3 < MAX_EVENTS"
  shows "\<exists>s'. enqueue_event type code v s =
      Inr (s', if ring_len s = 0 \<and> ev_state s = STATE_LIVE then [(ev_irq s, True)] else []) \<and>
    ring_ok s' \<and> ring_len s' = ring_len s + 3 \<and> ev_queue s' = ev_queue s @ [type, code, v] \<and> ev_irq s' = ev_irq s \<and>
    ev_state s' = (if ring_len s = 0 \<and> ev_state s \<noteq> STATE_LIVE then STATE_BUFFERED else ev_state s)"
proof -
  define s1 where "s1 = (if ring_len s = 0 \<and> ev_state s \<noteq> STATE_LIVE then s\<lparr>ev_state := STATE_BUFFERED\<rparr> else s)"
  have 1: "ring_ok s1" "ring_len s1 = ring_len s" "ev_queue s1 = ev_queue s" "ev_irq s1 = ev_irq s"
    using assms(1) by (simp_all add: s1_def)
  note a = push_word_queue [OF 1(1), of type]
  note b = push_word_queue [OF a(1), of code]
  note c = push_word_queue [OF b(1), of v]
  have "enqueue_event type code v s = Inr (push_word v (push_word code (push_word type s1)),
      if ring_len s = 0 \<and> ev_state s = STATE_LIVE then [(ev_irq s, True)] else [])"
    using assms enqueued_eq [OF assms(1)] ring_empty [OF assms(1)]
    by (auto simp: enqueue_event_def s1_def ring_ok_def Let_def)
  moreover have "ev_state s1 = (if ring_len s = 0 \<and> ev_state s \<noteq> STATE_LIVE then STATE_BUFFERED else ev_state s)"
    by (simp add: s1_def)
  ultimately show ?thesis
    using 1 a b c assms(2) by (intro exI [of _ "push_word v (push_word code (push_word type s1))"]) simp
qed

lemma enqueue_event_full:
  assumes "ring_ok s" and "MAX_EVENTS < ring_len s + 3"
  shows "enqueue_event type code v s = Inr (s, [])"
  using assms by (simp add: enqueue_event_def enqueued_eq)

lemma dequeue_event_spec:
  assumes "ring_ok s" and "ring_len s \<noteq> 0"
  shows "\<exists>s' os. dequeue_event t s = Inr (hd (ev_queue s), s', os) \<and> ring_ok s' \<and> ring_len s' = ring_len s - 1 \<and>
    ev_queue s' = tl (ev_queue s) \<and> ev_irq s' = ev_irq s \<and> ev_state s' = ev_state s \<and>
    line_after (ev_irq s) os True = (ring_len s \<noteq> 1)"
proof -
  let ?s = "s\<lparr>ev_first := next_index (ev_first s)\<rparr>"
  note p = pop_word_queue [OF assms]
  have "ev_first ?s = ev_last ?s \<longleftrightarrow> ring_len s = 1" using ring_empty [OF p(1)] p(2) assms(2) by auto
  moreover have "ev_first s \<noteq> ev_last s" "\<not> MAX_EVENTS \<le> unat (ev_first s)"
    using assms ring_empty [OF assms(1)] by (auto simp: ring_ok_def)
  ultimately have "\<exists>os. dequeue_event t s = Inr (ev_events s (unat (ev_first s)), ?s, os) \<and>
      line_after (ev_irq s) os True = (ring_len s \<noteq> 1)"
    by (cases t) (simp_all add: dequeue_event_def Let_def)
  then show ?thesis using p by auto
qed

section \<open>Whole events\<close>

text \<open>The driver fetches an event with three reads of the device.\<close>

definition fetch_event :: "target \<Rightarrow> events_state \<Rightarrow> (u32 list \<times> events_state \<times> irq_out list) res" where
  "fetch_event t s =
     res_bind (events_read t 0 s) (\<lambda>(type, s1, os1).
       res_bind (events_read t 0 s1) (\<lambda>(code, s2, os2).
         res_bind (events_read t 0 s2) (\<lambda>(v, s3, os3). Inr ([type, code, v], s3, os1 @ os2 @ os3))))"

lemma events_read_0: "events_read t 0 s = dequeue_event t s"
  by (cases "dequeue_event t s") (auto simp: events_read_def ev_reg_defs)

definition whole_events :: "events_state \<Rightarrow> bool" where
  "whole_events s \<longleftrightarrow> ring_ok s \<and> 3 dvd ring_len s"

lemma fetch_event_spec:
  assumes "ring_ok s" and "3 \<le> ring_len s"
  shows "\<exists>s' os. fetch_event t s = Inr (take 3 (ev_queue s), s', os) \<and> ring_ok s' \<and> ring_len s' = ring_len s - 3 \<and>
    ev_queue s' = drop 3 (ev_queue s) \<and> ev_irq s' = ev_irq s \<and> ev_state s' = ev_state s \<and>
    line_after (ev_irq s) os True = (ring_len s' \<noteq> 0)"
proof -
  have l1: "ring_len s \<noteq> 0" using assms(2) by simp
  obtain s1 os1 where 1: "dequeue_event t s = Inr (hd (ev_queue s), s1, os1)" "ring_ok s1" "ring_len s1 = ring_len s - 1"
    "ev_queue s1 = tl (ev_queue s)" "ev_irq s1 = ev_irq s" "ev_state s1 = ev_state s"
    "line_after (ev_irq s) os1 True = (ring_len s \<noteq> 1)"
    using dequeue_event_spec [OF assms(1) l1, of t] by blast
  have l2: "ring_len s1 \<noteq> 0" using assms(2) 1(3) by simp
  obtain s2 os2 where 2: "dequeue_event t s1 = Inr (hd (ev_queue s1), s2, os2)" "ring_ok s2" "ring_len s2 = ring_len s1 - 1"
    "ev_queue s2 = tl (ev_queue s1)" "ev_irq s2 = ev_irq s1" "ev_state s2 = ev_state s1"
    "line_after (ev_irq s1) os2 True = (ring_len s1 \<noteq> 1)"
    using dequeue_event_spec [OF 1(2) l2, of t] by blast
  have l3: "ring_len s2 \<noteq> 0" using assms(2) 1(3) 2(3) by simp
  obtain s3 os3 where 3: "dequeue_event t s2 = Inr (hd (ev_queue s2), s3, os3)" "ring_ok s3" "ring_len s3 = ring_len s2 - 1"
    "ev_queue s3 = tl (ev_queue s2)" "ev_irq s3 = ev_irq s2" "ev_state s3 = ev_state s2"
    "line_after (ev_irq s2) os3 True = (ring_len s2 \<noteq> 1)"
    using dequeue_event_spec [OF 2(2) l3, of t] by blast
  obtain a b c q where q: "ev_queue s = a # b # c # q"
    using assms(2) length_ev_queue [of s] by (metis One_nat_def Suc_le_length_iff numeral_3_eq_3)
  have "fetch_event t s = Inr ([a, b, c], s3, os1 @ os2 @ os3)"
    using 1(1,4) 2(1,4) 3(1) q by (simp add: fetch_event_def events_read_0)
  moreover have "line_after (ev_irq s) (os1 @ os2 @ os3) True = (ring_len s3 \<noteq> 0)"
  proof -
    have "ring_len s \<noteq> 1" "ring_len s1 \<noteq> 1" "ring_len s2 \<noteq> 1 \<longleftrightarrow> ring_len s3 \<noteq> 0" using 1(3) 2(3) 3(3) assms(2) l3 by auto
    then show ?thesis using 1(5,7) 2(5,7) 3(7) by simp
  qed
  ultimately show ?thesis using 1 2 3 q by auto
qed

text \<open>A ring of whole events is never filled to its last word, at which it would look empty.\<close>

lemma whole_room: "whole_events s \<Longrightarrow> ring_len s + 3 \<le> MAX_EVENTS \<Longrightarrow> ring_len s + 3 < MAX_EVENTS"
  by (auto simp: whole_events_def MAX_EVENTS_def dvd_def) presburger

lemma whole_fetch: "whole_events s \<Longrightarrow> ring_len s \<noteq> 0 \<Longrightarrow> 3 \<le> ring_len s"
  by (auto simp: whole_events_def dvd_def)

text \<open>
  The device as a queue of words: input for it, and a driver that reads whole events. An event is accepted as long as the queue has at most the given number of
  words after it; a driver that finds no event reads zeros.
\<close>

datatype input_op = Input u32 u32 u32 | Fetch target

fun input_step :: "input_op \<Rightarrow> events_state \<Rightarrow> (u32 list \<times> events_state) res" where
  "input_step (Input type code v) s = res_bind (enqueue_event type code v s) (\<lambda>(s', os). Inr ([], s'))"
| "input_step (Fetch t) s = res_bind (fetch_event t s) (\<lambda>(xs, s', os). Inr (xs, s'))"

fun input_queue :: "nat \<Rightarrow> input_op \<Rightarrow> u32 list \<Rightarrow> u32 list \<times> u32 list" where
  "input_queue cap (Input type code v) q = ([], if length q + 3 \<le> cap then q @ [type, code, v] else q)"
| "input_queue cap (Fetch t) q = (if q = [] then ([0, 0, 0], []) else (take 3 q, drop 3 q))"

interpretation events_queue: queue_device input_step "input_queue MAX_EVENTS" ev_queue whole_events "\<lambda>_. True"
proof
  fix s op
  assume ok: "whole_events s"
  then have r: "ring_ok s" by (simp add: whole_events_def)
  show "\<exists>s'. input_step op s = Inr (fst (input_queue MAX_EVENTS op (ev_queue s)), s') \<and> whole_events s' \<and> ev_queue s' = snd (input_queue MAX_EVENTS op (ev_queue s))"
  proof (cases op)
    case (Input type code v)
    show ?thesis
    proof (cases "ring_len s + 3 \<le> MAX_EVENTS")
      case True
      from enqueue_event_spec [OF r whole_room [OF ok True], of type code v] show ?thesis
        using Input True ok by (auto simp: whole_events_def)
    next
      case False
      then show ?thesis using Input ok enqueue_event_full [OF r] by simp
    qed
  next
    case (Fetch t)
    show ?thesis
    proof (cases "ring_len s = 0")
      case True
      then have "ev_first s = ev_last s" "ev_queue s = []" using ring_empty [OF r] by (simp_all flip: length_0_conv)
      then show ?thesis using Fetch ok by (auto simp: fetch_event_def events_read_0 dequeue_event_def)
    next
      case False
      then have "3 \<le> ring_len s" "ev_queue s \<noteq> []" using whole_fetch [OF ok] by (simp_all flip: length_0_conv)
      with fetch_event_spec [OF r, of t] show ?thesis using Fetch ok by (auto simp: whole_events_def)
    qed
  qed
qed

section \<open>The interrupt line\<close>

text \<open>
  The operations once the driver handles whole events: input, fetching an event in the interrupt
  handler, which runs only after the device went live, selecting a page and reading its length.
\<close>

datatype events_op = Ev_enqueue u32 u32 u32 | Ev_fetch | Ev_set_page u32 | Ev_read_len

fun events_step :: "target \<Rightarrow> events_op \<Rightarrow> events_state \<Rightarrow> (events_state \<times> irq_out list) res" where
  "events_step t (Ev_enqueue type code v) s = enqueue_event type code v s"
| "events_step t Ev_fetch s =
     (if ev_state s \<noteq> STATE_LIVE then Inl Undefined
      else res_bind (fetch_event t s) (\<lambda>(xs, s', os). Inr (s', os)))"
| "events_step t (Ev_set_page p) s = Inr (events_write 0 p s, [])"
| "events_step t Ev_read_len s = res_bind (events_read t 4 s) (\<lambda>(v, s', os). Inr (s', os))"

definition events_ok :: "events_state \<Rightarrow> bool" where
  "events_ok s \<longleftrightarrow> whole_events s \<and> (ev_state s = STATE_BUFFERED \<longleftrightarrow> ev_state s \<noteq> STATE_LIVE \<and> ev_queue s \<noteq> [])"

definition events_asserted :: "events_state \<Rightarrow> bool" where
  "events_asserted s \<longleftrightarrow> ev_state s = STATE_LIVE \<and> ev_queue s \<noteq> []"

lemma queue_Nil: "ev_queue s = [] \<longleftrightarrow> ring_len s = 0"
  by (simp flip: length_0_conv)

lemma enqueue_level:
  assumes "events_ok s" and "enqueue_event type code v s = Inr (s', os)"
  shows "events_ok s' \<and> ev_irq s' = ev_irq s \<and> line_after (ev_irq s) os (events_asserted s) = events_asserted s'"
proof (cases "ring_len s + 3 \<le> MAX_EVENTS")
  case True
  then have "ring_len s + 3 < MAX_EVENTS" using whole_room assms(1) by (simp add: events_ok_def)
  then show ?thesis
    using enqueue_event_spec [of s type code v] assms
    by (auto simp: events_ok_def whole_events_def events_asserted_def queue_Nil ev_state_defs)
next
  case False
  then have "s' = s" "os = []"
    using enqueue_event_full [of s type code v] assms by (auto simp: events_ok_def whole_events_def)
  then show ?thesis using assms(1) by simp
qed

lemma fetch_level:
  assumes "events_ok s" and "ev_state s = STATE_LIVE" and "fetch_event t s = Inr (xs, s', os)"
  shows "events_ok s' \<and> ev_irq s' = ev_irq s \<and> line_after (ev_irq s) os (events_asserted s) = events_asserted s'"
proof (cases "ring_len s = 0")
  case True
  then have "ev_first s = ev_last s" using assms(1) ring_empty by (simp add: events_ok_def whole_events_def)
  then have "s' = s" "os = []" using assms(3) by (auto simp: fetch_event_def events_read_0 dequeue_event_def)
  then show ?thesis using assms(1) by simp
next
  case False
  then have "3 \<le> ring_len s" using whole_fetch assms(1) by (simp add: events_ok_def)
  then show ?thesis
    using fetch_event_spec [of s t] assms False
    by (auto simp: events_ok_def whole_events_def events_asserted_def queue_Nil ev_state_defs)
qed

lemma read_len_level:
  assumes "events_ok s" and "events_read t 4 s = Inr (v, s', os)"
  shows "events_ok s' \<and> ev_irq s' = ev_irq s \<and> line_after (ev_irq s) os (events_asserted s) = events_asserted s'"
  using assms
  by (auto simp: events_read_def ev_reg_defs events_ok_def whole_events_def events_asserted_def ev_state_defs
      split: if_splits)

lemma events_read_own: "events_read t offset s = Inr (v, s', os) \<Longrightarrow> ev_irq s' = ev_irq s \<and> fst ` set os \<subseteq> {ev_irq s}"
  by (auto simp: events_read_def dequeue_event_def Let_def res_simps split: if_splits target.splits)

lemma events_step_own: "events_step t op s = Inr (s', os) \<Longrightarrow> fst ` set os \<subseteq> {ev_irq s}"
  by (cases op)
    (auto simp: enqueue_event_def fetch_event_def Let_def res_simps push_word_def image_subset_iff
      dest!: events_read_own bspec split: if_splits)

interpretation events_irq: single_line "events_step t" events_ok ev_irq events_asserted
proof unfold_locales
  fix s s' op os
  assume ok: "events_ok s" and step: "events_step t op s = Inr (s', os)"
  have "events_ok s' \<and> ev_irq s' = ev_irq s \<and> line_after (ev_irq s) os (events_asserted s) = events_asserted s'"
  proof (cases op)
    case (Ev_enqueue type code v)
    then show ?thesis using step enqueue_level [OF ok] by simp
  next
    case Ev_fetch
    then show ?thesis using step fetch_level [OF ok] by (auto simp: res_simps split: if_splits)
  next
    case (Ev_set_page p)
    then show ?thesis using step ok
      by (auto simp: events_write_def events_ok_def whole_events_def events_asserted_def ev_reg_defs)
  next
    case Ev_read_len
    then show ?thesis using step read_len_level [OF ok] by (auto simp: res_simps)
  qed
  then show "events_ok s'" "ev_irq s' = ev_irq s"
    "line_after (ev_irq s) os (events_asserted s) = events_asserted s'" by auto
  show "fst ` set os \<subseteq> {ev_irq s}" using events_step_own [OF step] .
qed

section \<open>Bits of a mask\<close>

definition mask_bit_at :: "u8 list \<Rightarrow> nat \<Rightarrow> bool" where
  "mask_bit_at bs k \<longleftrightarrow> k div 8 < length bs \<and> bit (bs ! (k div 8)) (k mod 8)"

lemma fill_bytes_nth:
  "length (fill_bytes bits il ih) = length bits"
  "i < length bits \<Longrightarrow> fill_bytes bits il ih ! i = (if il < i \<and> i < ih then 0xff else bits ! i)"
proof (induction bits il ih rule: fill_bytes.induct)
  case (1 bits il ih)
  {
    case 1
    then show ?case using "1.IH"(1) by (subst fill_bytes.simps) simp
  next
    case 2
    then show ?case using "1.IH"(2) by (subst fill_bytes.simps) (auto simp: nth_list_update)
  }
qed

lemma ff_mask: "(0xff :: u8) = mask 8"
  by (simp add: mask_eq_exp_minus_1)

lemma byte_masks:
  "bit (push_bit a 0xff :: u8) n \<longleftrightarrow> a \<le> n \<and> n < 8"
  "a \<le> 7 \<Longrightarrow> bit (drop_bit (7 - a) 0xff :: u8) n \<longleftrightarrow> n \<le> a"
  "bit (0xff :: u8) n \<longleftrightarrow> n < 8"
  unfolding ff_mask by (auto simp: bit_simps)

lemma le_div_mod: "(a :: nat) \<le> b \<longleftrightarrow> a div 8 < b div 8 \<or> a div 8 = b div 8 \<and> a mod 8 \<le> b mod 8"
proof (cases "a div 8" "b div 8" rule: linorder_cases)
  case less
  then have "\<not> b div 8 \<le> a div 8" by simp
  then have "\<not> b \<le> a" using div_le_mono [of b a 8] by blast
  with less show ?thesis by simp
next
  case equal
  then have "a \<le> b \<longleftrightarrow> a mod 8 \<le> b mod 8"
    using div_mult_mod_eq [of a 8] div_mult_mod_eq [of b 8] by (metis add_le_cancel_left)
  with equal show ?thesis by simp
next
  case greater
  then show ?thesis using div_le_mono [of a b 8] by auto
qed

lemma set_range_nth:
  assumes "il \<le> ih" and "ih < length b" and "i < length b"
  shows "(case if ih \<le> il then (b, mh AND ml) else (fill_bytes (b[il := b ! il OR ml]) il ih, mh) of
      (b1, m1) \<Rightarrow> b1[ih := b1 ! ih OR m1]) ! i =
    (if i = ih then b ! i OR (if il = ih then mh AND ml else mh)
     else if i = il then b ! i OR ml else if il < i \<and> i < ih then 0xff else b ! i)"
  using assms by (auto simp: nth_list_update fill_bytes_nth)

lemma set_range_length:
  "length (case if ih \<le> il then (b, mh AND ml) else (fill_bytes (b[il := b ! il OR ml]) il ih, mh) of
      (b1, m1) \<Rightarrow> b1[ih := b1 ! ih OR m1]) = length b"
  by (simp add: fill_bytes_nth)

lemma set_range_bit:
  assumes "il \<le> ih" and "ih < length b" and "i < length b" and "a < 8" "c < 8" "j < 8"
    and "ml = push_bit a 0xff" and "mh = drop_bit (7 - c) 0xff"
  shows "bit ((case if ih \<le> il then (b, mh AND ml) else (fill_bytes (b[il := b ! il OR ml]) il ih, mh) of
      (b1, m1) \<Rightarrow> b1[ih := b1 ! ih OR m1]) ! i) j \<longleftrightarrow>
    bit (b ! i) j \<or> (il < i \<or> il = i \<and> a \<le> j) \<and> (i < ih \<or> i = ih \<and> j \<le> c)"
  using assms(1,4-8) byte_masks(3) [of j] unfolding set_range_nth [OF assms(1-3)]
  by (auto simp: bit_or_iff bit_and_iff byte_masks(1,2))

lemma set_bits_spec:
  assumes "l \<le> h"
  shows "mask_bit_at (set_bits l h bs) k \<longleftrightarrow> mask_bit_at bs k \<or> l \<le> k \<and> k \<le> h"
    and "length (set_bits l h bs) = max (length bs) (Suc (h div 8))"
proof -
  define il ih i j a c where "il = l div 8" and "ih = h div 8" and "i = k div 8" and "j = k mod 8"
    and "a = l mod 8" and "c = h mod 8"
  note d = il_def ih_def i_def j_def a_def c_def
  define b where "b = (if length bs \<le> ih then bs @ replicate (Suc ih - length bs) 0 else bs)"
  have len: "length b = max (length bs) (Suc ih)" by (auto simp: b_def)
  have b: "n < length b \<Longrightarrow> b ! n = (if n < length bs then bs ! n else 0)" for n
    by (auto simp: b_def nth_append split: if_splits)
  have le: "il \<le> ih" unfolding d using assms by (rule div_le_mono)
  have small: "a < 8" "c < 8" "j < 8" unfolding d by simp_all
  have lk: "l \<le> k \<longleftrightarrow> il < i \<or> il = i \<and> a \<le> j" "k \<le> h \<longleftrightarrow> i < ih \<or> i = ih \<and> j \<le> c"
    unfolding d by (rule le_div_mod)+
  have set: "set_bits l h bs =
    (case if ih \<le> il then (b, drop_bit (7 - c) 0xff AND push_bit a 0xff)
          else (fill_bytes (b[il := b ! il OR push_bit a 0xff]) il ih, drop_bit (7 - c) 0xff) of
      (b1, m1) \<Rightarrow> b1[ih := b1 ! ih OR m1])"
    by (simp only: set_bits_def Let_def b_def d)
  have l: "length (set_bits l h bs) = length b" unfolding set set_range_length ..
  show "length (set_bits l h bs) = max (length bs) (Suc (h div 8))" using len l by (simp add: ih_def)
  have at: "mask_bit_at xs k \<longleftrightarrow> i < length xs \<and> bit (xs ! i) j" for xs by (simp only: mask_bit_at_def d)
  show "mask_bit_at (set_bits l h bs) k \<longleftrightarrow> mask_bit_at bs k \<or> l \<le> k \<and> k \<le> h"
  proof (cases "i < length b")
    case True
    have "bit (set_bits l h bs ! i) j \<longleftrightarrow> bit (b ! i) j \<or> l \<le> k \<and> k \<le> h"
      unfolding set lk using set_range_bit [OF le _ True small refl refl] len by simp
    then show ?thesis unfolding at l using True b [OF True] by auto
  next
    case False
    then show ?thesis unfolding at l lk using len le by auto
  qed
qed

lemma clr_bit_spec: "mask_bit_at (clr_bit n bs) k \<longleftrightarrow> mask_bit_at bs k \<and> k \<noteq> n"
proof -
  define i j p q where "i = k div 8" and "j = k mod 8" and "p = n div 8" and "q = n mod 8"
  have "k = n \<longleftrightarrow> i = p \<and> j = q" unfolding i_def j_def p_def q_def by (metis div_mult_mod_eq)
  moreover have small: "j < 8" unfolding j_def by simp
  moreover have "bit (bs[p := bs ! p AND NOT (push_bit q 1)] ! i) j \<longleftrightarrow> bit (bs ! i) j \<and> \<not> (i = p \<and> j = q)"
    if "i < length bs" using that small by (cases "i = p") (auto simp: bit_simps)
  ultimately show ?thesis
    unfolding clr_bit_def mask_bit_at_def i_def [symmetric] j_def [symmetric] p_def [symmetric] q_def [symmetric]
    by auto
qed

text \<open>The bit of an event code in the mask of an event type.\<close>

definition ev_bit :: "events_state \<Rightarrow> u32 \<Rightarrow> nat \<Rightarrow> bool" where
  "ev_bit s type k \<longleftrightarrow> mask_bit_at (ev_bits s (unat type)) k"

lemma ev_bit_set_bits:
  "l \<le> h \<Longrightarrow> ev_bit (events_set_bits type l h s) type' k \<longleftrightarrow> ev_bit s type' k \<or> type' = type \<and> l \<le> k \<and> k \<le> h"
  by (auto simp: ev_bit_def events_set_bits_def set_bits_spec word_unat_eq_iff)

lemma ev_bit_set_bit:
  "ev_bit (events_set_bit type n s) type' k \<longleftrightarrow> ev_bit s type' k \<or> type' = type \<and> k = n"
  unfolding events_set_bit_def by (subst ev_bit_set_bits) auto

lemma ev_bit_clr_bit:
  "ev_bit (events_clr_bit type n s) type' k \<longleftrightarrow> ev_bit s type' k \<and> \<not> (type' = type \<and> k = n)"
  by (auto simp: ev_bit_def events_clr_bit_def clr_bit_spec word_unat_eq_iff)

lemma ev_bit_fold_set:
  "ev_bit (fold (events_set_bit type) ns s) type' k \<longleftrightarrow> ev_bit s type' k \<or> type' = type \<and> k \<in> set ns"
  by (induction ns arbitrary: s) (auto simp: ev_bit_set_bit)

lemma ev_bit_fold_clr:
  "ev_bit (fold (events_clr_bit type) ns s) type' k \<longleftrightarrow> ev_bit s type' k \<and> \<not> (type' = type \<and> k \<in> set ns)"
  by (induction ns arbitrary: s) (auto simp: ev_bit_clr_bit)

lemma ev_bit_abs_info [simp]: "ev_bit (s\<lparr>ev_abs_info := x\<rparr>) = ev_bit s"
  by (simp add: ev_bit_def fun_eq_iff)

lemmas ev_bit_simps = ev_bit_set_bits ev_bit_set_bit ev_bit_clr_bit ev_bit_fold_set ev_bit_fold_clr

lemma init_other_masks:
  "ev_bit (init_sw config s) EV_KEY k = ev_bit s EV_KEY k"
  "ev_bit (init_abs config s) EV_KEY k = ev_bit s EV_KEY k"
  "ev_bit (init_rel config s) EV_KEY k = ev_bit s EV_KEY k"
  by (simp_all add: init_sw_def init_abs_def init_rel_def set_if_def ev_bit_simps ev_type_defs Let_def
      REL_X_def REL_Y_def ABS_X_def ABS_Z_def)

text \<open>The initialisation of the masks leaves the ring alone.\<close>

definition ring_regs :: "events_state \<Rightarrow> u32 \<times> u32 \<times> u32 \<times> u32" where
  "ring_regs s = (ev_irq s, ev_first s, ev_last s, ev_state s)"

lemma set_bits_ring [simp]:
  "ring_regs (events_set_bits type l h s) = ring_regs s" "ring_regs (events_set_bit type n s) = ring_regs s"
  "ring_regs (events_clr_bit type n s) = ring_regs s" "ring_regs (s\<lparr>ev_abs_info := info\<rparr>) = ring_regs s"
  by (simp_all add: ring_regs_def events_set_bits_def events_set_bit_def events_clr_bit_def)

lemma fold_bits_ring [simp]:
  "ring_regs (fold (events_set_bit type) ns s) = ring_regs s" "ring_regs (fold (events_clr_bit type) ns s) = ring_regs s"
  by (induction ns arbitrary: s) simp_all

lemma init_ring: "ring_regs (events_dev_init config irq) = (irq, 0, 0, STATE_INIT)"
  by (simp add: events_dev_init_def init_keys_def init_rel_def init_abs_def init_sw_def set_if_def Let_def)
    (simp add: ring_regs_def)

section \<open>Properties\<close>

text \<open>C38: The input device is a bounded queue of events. Over any sequence of input events and of reads of a driver that fetches whole events, on either family
  of targets, starting with whole events in the ring, the driver reads exactly the words a queue of at most 1024 words gives it: the events come in order and
  without loss, an event is dropped when it does not fit and only then, and a driver that finds the queue empty reads three zeros. (A
  driver that stops in the middle of an event breaks this, see below.)\<close>

theorem events_in_order:
  assumes "whole_events s"
  shows "\<exists>outs s'. device_run input_step ops s = Inr (outs, s') \<and> queue_run (input_queue MAX_EVENTS) ops (ev_queue s) = (outs, ev_queue s') \<and> whole_events s'"
  using events_queue.run_refines [OF assms] by (simp add: list_all_iff)

definition sample_events :: events_state where
  "sample_events = \<lparr>ev_irq = 2, ev_pending = 0, ev_page = 0, ev_events = (\<lambda>_. 0), ev_first = 1022, ev_last = 1022,
     ev_state = STATE_LIVE, ev_name = [], ev_bits = (\<lambda>_. []), ev_abs_info = []\<rparr>"

theorem events_in_order_witness:
  "\<exists>s'. device_run input_step [Input 1 30 1, Input 0 0 0, Fetch Target_ARM_MIPS] sample_events = Inr ([[], [], [1, 30, 1]], s') \<and> ev_queue s' = [0, 0, 0]"
proof -
  have ok: "whole_events sample_events" "ev_queue sample_events = []"
    by (simp_all add: whole_events_def ring_ok_def ring_len_def ev_queue_def sample_events_def MAX_EVENTS_def)
  from events_in_order [OF ok(1), of "[Input 1 30 1, Input 0 0 0, Fetch Target_ARM_MIPS]"] show ?thesis
    using ok(2) by (auto simp: MAX_EVENTS_def)
qed

text \<open>The interrupt line of the events device is level-triggered for a driver that fetches whole events once it has set
  the device live: over any sequence of input, fetches, page selections and length reads, the line is high exactly when the device is live and
  the ring is not empty.\<close>

theorem events_line_level:
  assumes "run_ops (events_step t) ops s = Inr (s', os)" and "ring_ok s" and "ring_len s = 0" and "ev_state s = STATE_INIT"
  shows "line_after (ev_irq s) os False = (ev_state s' = STATE_LIVE \<and> ev_queue s' \<noteq> [])"
proof -
  have ok: "events_ok s" "events_asserted s = False"
    using assms(2-4) by (simp_all add: events_ok_def whole_events_def queue_Nil events_asserted_def ev_state_defs)
  show ?thesis
    using events_irq.run_level [OF ok(1) assms(1)] unfolding ok(2) by (simp add: events_asserted_def)
qed

theorem events_line_level_witness:
  "\<exists>s' os. run_ops (events_step Target_I386) [Ev_enqueue 1 30 1, Ev_set_page PAGE_ABSDATA, Ev_read_len]
      (sample_events\<lparr>ev_state := STATE_INIT\<rparr>) = Inr (s', os) \<and> line_after 2 os False"
proof -
  let ?s = "sample_events\<lparr>ev_state := STATE_INIT\<rparr>"
  have ok: "ring_ok ?s" "ring_len ?s = 0" "ev_state ?s = STATE_INIT" "ev_irq ?s = 2"
    by (simp_all add: ring_ok_def ring_len_def sample_events_def MAX_EVENTS_def)
  obtain s1 os1 where s1: "enqueue_event 1 30 1 ?s = Inr (s1, os1)" "ev_queue s1 = [1, 30, 1]"
    using enqueue_event_spec [OF ok(1), of 1 30 1] ok(2) by (force simp: MAX_EVENTS_def queue_Nil ev_queue_def)
  have "\<exists>s' os. run_ops (events_step Target_I386) [Ev_enqueue 1 30 1, Ev_set_page PAGE_ABSDATA, Ev_read_len] ?s = Inr (s', os) \<and>
      ev_state s' = STATE_LIVE \<and> ev_queue s' = [1, 30, 1]"
    using s1 by (simp add: events_write_def events_read_def ev_reg_defs)
  then obtain s' os where r: "run_ops (events_step Target_I386) [Ev_enqueue 1 30 1, Ev_set_page PAGE_ABSDATA, Ev_read_len] ?s = Inr (s', os)"
    "ev_state s' = STATE_LIVE" "ev_queue s' = [1, 30, 1]" by blast
  then show ?thesis using events_line_level [OF r(1) ok(1-3)] ok(4) by auto
qed

text \<open>The check for a full ring is off by one. When the driver has fetched two of the three words of an event of a full
  ring, 1021 words are left, and the next input event is accepted although it takes the last three words: the indices meet,
  and every word of the ring is lost.\<close>

theorem events_overflow_loses:
  assumes "ring_ok s" and "length (ev_queue s) = 1021"
  shows "\<exists>s' os. enqueue_event type code v s = Inr (s', os) \<and> ev_queue s' = []"
proof -
  have l: "ring_len s = 1021" using assms(2) by simp
  then have ne: "ev_first s \<noteq> ev_last s" using ring_empty [OF assms(1)] by auto
  define s2 where "s2 = push_word code (push_word type s)"
  have a: "ring_ok (push_word type s)" "ring_len (push_word type s) = 1022"
    using push_word_queue [OF assms(1), of type] l by (simp_all add: MAX_EVENTS_def)
  have b: "ring_ok s2" "ring_len s2 = 1023"
    using push_word_queue [OF a(1), of code] a(2) by (simp_all add: MAX_EVENTS_def s2_def)
  have n: "unat (ev_last (push_word v s2)) = (unat (ev_last s2) + 1) mod MAX_EVENTS"
    using next_index_unat(1) [of "ev_last s2"] b(1) by (simp add: push_word_def ring_ok_def)
  also have "\<dots> = unat (ev_first s2)"
    using ring_last [OF b(1)] b by (auto simp: ring_ok_def MAX_EVENTS_def mod_if split: if_splits)
  finally have "ring_len (push_word v s2) = 0" by (simp add: ring_len_def push_word_def MAX_EVENTS_def)
  moreover have "enqueue_event type code v s = Inr (push_word v s2, [])"
    using assms(1) l ne enqueued_eq [OF assms(1)]
    by (simp add: enqueue_event_def s2_def ring_ok_def Let_def) (simp add: MAX_EVENTS_def)
  ultimately show ?thesis by (auto simp: queue_Nil)
qed

theorem events_overflow_loses_witness:
  "\<exists>s' os. enqueue_event 1 30 1 (sample_events\<lparr>ev_last := 1019\<rparr>) = Inr (s', os) \<and> ev_queue s' = []"
  by (rule events_overflow_loses) (simp_all add: sample_events_def ring_ok_def ring_len_def MAX_EVENTS_def)

text \<open>The key mask the driver sees is the one the hardware configuration asks for: the keys every device has, the D-pad keys
  exactly when there is a D-pad, the trackball and touch buttons and the camera key when the device has them, and with a keyboard all the
  codes of its two ranges.\<close>

theorem events_key_mask:
  "ev_bit (events_dev_init config irq) EV_KEY k \<longleftrightarrow>
     k \<in> set base_keys \<or> hc_dPad config \<and> k \<in> set dpad_keys \<or>
     hc_trackBall config \<and> k = 0x110 \<or> hc_screen config = Screen_Touch \<and> k = 0x14a \<or> hc_camera config \<and> k = 212 \<or>
     hc_keyboard config \<and> (1 \<le> k \<and> k \<le> 0xff \<or> 0x160 \<le> k \<and> k \<le> 0x1ff) \<and> k \<notin> set dpad_keys"
proof -
  let ?s = "\<lparr>ev_irq = irq, ev_pending = 0, ev_page = 0, ev_events = (\<lambda>_. 0), ev_first = 0, ev_last = 0,
        ev_state = STATE_INIT, ev_name = hc_charmap config, ev_bits = (\<lambda>_. []), ev_abs_info = []\<rparr>"
  have 0: "\<not> ev_bit ?s EV_KEY k" by (simp add: ev_bit_def mask_bit_at_def)
  have "EV_KEY \<noteq> EV_SYN" by (simp add: ev_type_defs)
  moreover have "k \<in> set dpad_keys \<Longrightarrow> k \<notin> set base_keys \<and> k \<noteq> 0x110 \<and> k \<noteq> 0x14a \<and> k \<noteq> 212"
    by (auto simp: dpad_keys_def base_keys_def)
  ultimately show ?thesis
    unfolding events_dev_init_def init_other_masks init_keys_def Let_def set_if_def
    using 0 by (simp add: ev_bit_simps BTN_MOUSE_def KEY_CAMERA_def BTN_TOUCH_def) blast
qed

text \<open>Reading the pages is safe up to their length, and only up to it: inside a page every byte or word is defined, but the
  offset equal to the length of a mask or of the axis ranges passes the check of \<open>get_page_data\<close> and is read outside the array.\<close>

theorem page_data_bounds:
  assumes "ev_page s \<noteq> PAGE_NAME" and "0 < get_page_len s"
  shows "(\<forall>offset < get_page_len s. \<exists>v. get_page_data s offset = Inr v) \<and> get_page_data s (get_page_len s) = Inl Undefined"
  using assms by (auto simp: get_page_data_def get_page_len_def Let_def split: if_splits)

theorem page_data_bounds_witness:
  "get_page_data (sample_events\<lparr>ev_page := PAGE_ABSDATA, ev_abs_info := [0, 319]\<rparr>) 8 = Inl Undefined"
proof -
  let ?s = "sample_events\<lparr>ev_page := PAGE_ABSDATA, ev_abs_info := [0, 319]\<rparr>"
  have "get_page_len ?s = 8" "ev_page ?s \<noteq> PAGE_NAME"
    by (simp_all add: get_page_len_def ev_reg_defs on_evbits_page_def)
  then show ?thesis using page_data_bounds [of ?s] by simp
qed

end
