(* ===== verification/Goldfish_Mmc.thy ===== *)
theory Goldfish_Mmc
  imports Savevm Goldfish_Device Guest_Memory
begin

text \<open>
  The goldfish SD card, \<open>hw/android/goldfish/mmc.c\<close>: the command interpreter with its responses, the
  geometry it reports in the card specific data register, and the block transfers between the disk
  image and guest memory. The disk image is an array of sectors of 512 bytes with the range and
  read-only checks of \<open>bdrv_read\<close> and \<open>bdrv_write\<close> (\<open>block.c\<close>); guest memory is reached with physical
  addresses.
\<close>

section \<open>The disk image\<close>

text \<open>A \<open>BlockDriverState\<close> with a medium and without dirty tracking (the dirty bitmap exists only while a block migration
  runs). The image driver behind it is an array of sectors that serves every request inside the image.\<close>

record block_dev =
  bd_sectors :: nat
  bd_read_only :: bool
  bd_wr_highest_sector :: nat
  bd_data :: "nat \<Rightarrow> u8 list"

definition EACCES :: int where "EACCES = 13"

definition bdrv_check_request :: "block_dev \<Rightarrow> nat \<Rightarrow> nat \<Rightarrow> int" where
  "bdrv_check_request bs sector_num nb_sectors =
     (if bd_sectors bs * 512 < sector_num * 512 \<or> bd_sectors bs * 512 - sector_num * 512 < nb_sectors * 512
      then - EIO else 0)"

definition bdrv_read :: "block_dev \<Rightarrow> nat \<Rightarrow> int \<times> u8 list" where
  "bdrv_read bs sector_num =
     (if bdrv_check_request bs sector_num 1 \<noteq> 0 then (- EIO, []) else (0, bd_data bs sector_num))"

definition bdrv_write :: "block_dev \<Rightarrow> nat \<Rightarrow> u8 list \<Rightarrow> int \<times> block_dev" where
  "bdrv_write bs sector_num buf =
     (if bd_read_only bs then (- EACCES, bs)
      else if bdrv_check_request bs sector_num 1 \<noteq> 0 then (- EIO, bs)
      else (0, bs\<lparr>bd_wr_highest_sector :=
                   (if bd_wr_highest_sector bs < sector_num + 1 - 1 then sector_num + 1 - 1 else bd_wr_highest_sector bs),
                 bd_data := (bd_data bs)(sector_num := buf)\<rparr>))"

section \<open>Constants\<close>

definition MMC_INT_STATUS :: u64 where "MMC_INT_STATUS = 0x00"
definition MMC_INT_ENABLE :: u64 where "MMC_INT_ENABLE = 0x04"
definition MMC_SET_BUFFER :: u64 where "MMC_SET_BUFFER = 0x08"
definition MMC_CMD :: u64 where "MMC_CMD = 0x0C"
definition MMC_ARG :: u64 where "MMC_ARG = 0x10"
definition MMC_RESP_0 :: u64 where "MMC_RESP_0 = 0x14"
definition MMC_RESP_1 :: u64 where "MMC_RESP_1 = 0x18"
definition MMC_RESP_2 :: u64 where "MMC_RESP_2 = 0x1C"
definition MMC_RESP_3 :: u64 where "MMC_RESP_3 = 0x20"
definition MMC_BLOCK_LENGTH :: u64 where "MMC_BLOCK_LENGTH = 0x24"
definition MMC_BLOCK_COUNT :: u64 where "MMC_BLOCK_COUNT = 0x28"
definition MMC_STATE :: u64 where "MMC_STATE = 0x2C"
definition MMC_SET_BUFFER_HIGH :: u64 where "MMC_SET_BUFFER_HIGH = 0x30"
definition MMC_STAT_END_OF_CMD :: u32 where "MMC_STAT_END_OF_CMD = 1"
definition MMC_STAT_END_OF_DATA :: u32 where "MMC_STAT_END_OF_DATA = 2"
definition MMC_STATE_INSERTED :: u32 where "MMC_STATE_INSERTED = 1"
definition MMC_STATE_READ_ONLY :: u32 where "MMC_STATE_READ_ONLY = 2"

definition MMC_ALL_SEND_CID :: u32 where "MMC_ALL_SEND_CID = 2"
definition MMC_SET_RELATIVE_ADDR :: u32 where "MMC_SET_RELATIVE_ADDR = 3"
definition MMC_SWITCH :: u32 where "MMC_SWITCH = 6"
definition MMC_SELECT_CARD :: u32 where "MMC_SELECT_CARD = 7"
definition MMC_SEND_EXT_CSD :: u32 where "MMC_SEND_EXT_CSD = 8"
definition MMC_SEND_CSD :: u32 where "MMC_SEND_CSD = 9"
definition MMC_STOP_TRANSMISSION :: u32 where "MMC_STOP_TRANSMISSION = 12"
definition MMC_SEND_STATUS :: u32 where "MMC_SEND_STATUS = 13"
definition MMC_SET_BLOCKLEN :: u32 where "MMC_SET_BLOCKLEN = 16"
definition MMC_READ_SINGLE_BLOCK :: u32 where "MMC_READ_SINGLE_BLOCK = 17"
definition MMC_READ_MULTIPLE_BLOCK :: u32 where "MMC_READ_MULTIPLE_BLOCK = 18"
definition MMC_WRITE_BLOCK :: u32 where "MMC_WRITE_BLOCK = 24"
definition MMC_WRITE_MULTIPLE_BLOCK :: u32 where "MMC_WRITE_MULTIPLE_BLOCK = 25"
definition SD_APP_OP_COND :: u32 where "SD_APP_OP_COND = 41"
definition SD_APP_SEND_SCR :: u32 where "SD_APP_SEND_SCR = 51"
definition MMC_APP_CMD :: u32 where "MMC_APP_CMD = 55"
definition R1_READY_FOR_DATA :: u32 where "R1_READY_FOR_DATA = 0x100"
definition R1_APP_CMD :: u32 where "R1_APP_CMD = 0x20"

lemmas mmc_reg_defs = MMC_INT_STATUS_def MMC_INT_ENABLE_def MMC_SET_BUFFER_def MMC_CMD_def MMC_ARG_def MMC_RESP_0_def
  MMC_RESP_1_def MMC_RESP_2_def MMC_RESP_3_def MMC_BLOCK_LENGTH_def MMC_BLOCK_COUNT_def MMC_STATE_def
  MMC_SET_BUFFER_HIGH_def
lemmas mmc_op_defs = MMC_ALL_SEND_CID_def MMC_SET_RELATIVE_ADDR_def MMC_SWITCH_def MMC_SELECT_CARD_def
  MMC_SEND_EXT_CSD_def MMC_SEND_CSD_def MMC_STOP_TRANSMISSION_def MMC_SEND_STATUS_def MMC_SET_BLOCKLEN_def
  MMC_READ_SINGLE_BLOCK_def MMC_READ_MULTIPLE_BLOCK_def MMC_WRITE_BLOCK_def MMC_WRITE_MULTIPLE_BLOCK_def
  SD_APP_OP_COND_def SD_APP_SEND_SCR_def MMC_APP_CMD_def

definition SET_R1_CURRENT_STATE :: "u32 \<Rightarrow> u32" where
  "SET_R1_CURRENT_STATE s = push_bit 9 s AND 0x00001E00"

section \<open>State\<close>

record goldfish_mmc_state =
  c_dev :: goldfish_device
  c_buffer_address :: u64
  c_read_offset :: u32
  c_write_offset :: u32
  c_int_status :: u32
  c_int_enable :: u32
  c_arg :: u32
  c_resp0 :: u32
  c_resp1 :: u32
  c_resp2 :: u32
  c_resp3 :: u32
  c_block_length :: u32
  c_block_count :: u32
  c_is_SDHC :: u32

definition GOLDFISH_MMC_SAVE_VERSION :: int where "GOLDFISH_MMC_SAVE_VERSION = 3"
definition GOLDFISH_MMC_SAVE_VERSION_LEGACY :: int where "GOLDFISH_MMC_SAVE_VERSION_LEGACY = 2"

definition goldfish_mmc_fields :: "goldfish_mmc_state QField list" where
  "goldfish_mmc_fields =
     [QFIELD_INT32 c_read_offset (\<lambda>v. c_read_offset_update (\<lambda>_. v)),
      QFIELD_INT32 c_write_offset (\<lambda>v. c_write_offset_update (\<lambda>_. v)),
      QFIELD_INT32 c_int_status (\<lambda>v. c_int_status_update (\<lambda>_. v)),
      QFIELD_INT32 c_int_enable (\<lambda>v. c_int_enable_update (\<lambda>_. v)),
      QFIELD_INT32 c_arg (\<lambda>v. c_arg_update (\<lambda>_. v)),
      QFIELD_INT32 c_resp0 (\<lambda>v. c_resp0_update (\<lambda>_. v)),
      QFIELD_INT32 c_resp1 (\<lambda>v. c_resp1_update (\<lambda>_. v)),
      QFIELD_INT32 c_resp2 (\<lambda>v. c_resp2_update (\<lambda>_. v)),
      QFIELD_INT32 c_resp3 (\<lambda>v. c_resp3_update (\<lambda>_. v)),
      QFIELD_INT32 c_block_length (\<lambda>v. c_block_length_update (\<lambda>_. v)),
      QFIELD_INT32 c_block_count (\<lambda>v. c_block_count_update (\<lambda>_. v)),
      QFIELD_INT32 c_is_SDHC (\<lambda>v. c_is_SDHC_update (\<lambda>_. v))]"

definition goldfish_mmc_save :: "goldfish_mmc_state \<Rightarrow> u8 list" where
  "goldfish_mmc_save s = be64_bytes (c_buffer_address s) @ qemu_put_struct goldfish_mmc_fields s"

definition goldfish_mmc_load :: "rstream \<Rightarrow> goldfish_mmc_state \<Rightarrow> int \<Rightarrow> int \<times> goldfish_mmc_state \<times> rstream" where
  "goldfish_mmc_load f s version_id =
     (if version_id = GOLDFISH_MMC_SAVE_VERSION then
        let (a, f1) = st_get_be64 f in qemu_get_struct goldfish_mmc_fields f1 (s\<lparr>c_buffer_address := a\<rparr>)
      else if version_id = GOLDFISH_MMC_SAVE_VERSION_LEGACY then
        let (a, f1) = st_get_be32 f in qemu_get_struct goldfish_mmc_fields f1 (s\<lparr>c_buffer_address := ucast a\<rparr>)
      else (-1, s, f))"

section \<open>Block transfers\<close>

fun goldfish_mmc_bdrv_read :: "block_dev \<Rightarrow> nat \<Rightarrow> u64 \<Rightarrow> nat \<Rightarrow> phys_mem \<Rightarrow> int \<times> phys_mem" where
  "goldfish_mmc_bdrv_read bs sector_number dst_address 0 mem = (0, mem)"
| "goldfish_mmc_bdrv_read bs sector_number dst_address (Suc num_sectors) mem =
     (let (ret, buf) = bdrv_read bs sector_number
      in if ret < 0 then (ret, mem)
         else goldfish_mmc_bdrv_read bs (sector_number + 1) (dst_address + 512) num_sectors
                (mem_blit mem dst_address buf))"

fun goldfish_mmc_bdrv_write :: "block_dev \<Rightarrow> nat \<Rightarrow> u64 \<Rightarrow> nat \<Rightarrow> phys_mem \<Rightarrow> int \<times> block_dev" where
  "goldfish_mmc_bdrv_write bs sector_number dst_address 0 mem = (0, bs)"
| "goldfish_mmc_bdrv_write bs sector_number dst_address (Suc num_sectors) mem =
     (let (ret, bs') = bdrv_write bs sector_number (mem_window mem dst_address 512)
      in if ret < 0 then (ret, bs')
         else goldfish_mmc_bdrv_write bs' (sector_number + 1) (dst_address + 512) num_sectors mem)"

section \<open>The card specific data register\<close>

text \<open>The loop that scales a capacity in kilobytes down to 12 bits.\<close>

function csd_scale :: "nat \<Rightarrow> nat \<Rightarrow> nat \<times> nat" where
  "csd_scale capacity exponent =
     (if 4096 < capacity then csd_scale (capacity div 2) (exponent + 1) else (capacity, exponent))"
  by pat_completeness auto
termination
  by (relation "measure (\<lambda>(c, e). c)") auto

declare csd_scale.simps [simp del]

text \<open>The four words \<open>resp[0]\<close> to \<open>resp[3]\<close> and whether the card is SDHC. The number of sectors is below
  \<open>2 ^ 55\<close>, so the capacity in bytes does not wrap around.\<close>

definition mmc_send_csd :: "nat \<Rightarrow> (u32 \<times> u32 \<times> u32 \<times> u32 \<times> bool) res" where
  "mmc_send_csd sector_count =
     (let capacity = sector_count * 512
      in if 2147483648 < capacity then
           let m = (word_of_nat (capacity div (512 * 1024)) :: u32) - 1
           in if m AND 0xFFC00000 \<noteq> 0 then Inl Assert_Failure
              else Inr (0x0A4040DF, 0x00007F80 OR push_bit 16 (m AND 0x0000FFFF), 0x5B590000 OR drop_bit 16 m,
                        0x400E0032, True)
         else
           let (scaled, exponent) = csd_scale (capacity div 1024) 0;
               c = (word_of_nat scaled :: u32) - 1
           in if exponent < 2 then Inl Cpu_Abort
              else if 7 < exponent - 2 then Inl Cpu_Abort
              else Inr (0x928040CB,
                        0x3EF84FFF OR push_bit 30 (c AND 3) OR push_bit 15 (word_of_nat (exponent - 2)),
                        0x5F5A8000 OR (drop_bit 2 c AND 0x3FF), 0x00260032, False))"

section \<open>Commands\<close>

text \<open>What a command sees and changes outside the device.\<close>

record mmc_env =
  me_bs :: block_dev
  me_mem :: phys_mem

definition mmc_sector :: "goldfish_mmc_state \<Rightarrow> u32 \<Rightarrow> u32 res" where
  "mmc_sector s arg =
     (if c_is_SDHC s \<noteq> 0 then Inr arg
      else if c_block_length s = 0 then Inl Undefined else Inr (arg div c_block_length s))"

text \<open>The number of sectors of a transfer is an \<open>int\<close>: a negative count transfers nothing.\<close>

definition sector_count :: "u32 \<Rightarrow> nat" where
  "sector_count n = nat (sint n)"

definition mmc_read_blocks :: "u32 \<Rightarrow> goldfish_mmc_state \<Rightarrow> mmc_env \<Rightarrow> (goldfish_mmc_state \<times> mmc_env \<times> u32) res" where
  "mmc_read_blocks arg s e =
     res_bind (mmc_sector s arg) (\<lambda>sector.
       let (ret, mem) = goldfish_mmc_bdrv_read (me_bs e) (unat sector) (c_buffer_address s)
                          (sector_count (c_block_count s)) (me_mem e)
       in Inr (s\<lparr>c_resp0 := SET_R1_CURRENT_STATE 4 OR R1_READY_FOR_DATA\<rparr>, e\<lparr>me_mem := mem\<rparr>, MMC_STAT_END_OF_DATA))"

definition mmc_write_blocks :: "u32 \<Rightarrow> goldfish_mmc_state \<Rightarrow> mmc_env \<Rightarrow> (goldfish_mmc_state \<times> mmc_env \<times> u32) res" where
  "mmc_write_blocks arg s e =
     res_bind (mmc_sector s arg) (\<lambda>sector.
       let (ret, bs) = goldfish_mmc_bdrv_write (me_bs e) (unat sector) (c_buffer_address s)
                         (sector_count (c_block_count s)) (me_mem e)
       in Inr (s\<lparr>c_resp0 := SET_R1_CURRENT_STATE 4 OR R1_READY_FOR_DATA\<rparr>, e\<lparr>me_bs := bs\<rparr>, MMC_STAT_END_OF_DATA))"

text \<open>One command: the new state, the environment and the status bits beyond \<open>MMC_STAT_END_OF_CMD\<close>.\<close>

definition mmc_execute :: "u32 \<Rightarrow> u32 \<Rightarrow> goldfish_mmc_state \<Rightarrow> mmc_env \<Rightarrow> (goldfish_mmc_state \<times> mmc_env \<times> u32) res" where
  "mmc_execute opcode arg s e =
     (if opcode = MMC_SEND_CSD then
        res_bind (mmc_send_csd (bd_sectors (me_bs e))) (\<lambda>(r0, r1, r2, r3, sdhc).
          Inr (s\<lparr>c_resp0 := r0, c_resp1 := r1, c_resp2 := r2, c_resp3 := r3, c_is_SDHC := (if sdhc then 1 else 0)\<rparr>, e, 0))
      else if opcode = MMC_SEND_EXT_CSD then Inr (s\<lparr>c_resp0 := arg\<rparr>, e, 0)
      else if opcode = MMC_APP_CMD then
        Inr (s\<lparr>c_resp0 := SET_R1_CURRENT_STATE 4 OR R1_READY_FOR_DATA OR R1_APP_CMD\<rparr>, e, 0)
      else if opcode = SD_APP_OP_COND then Inr (s\<lparr>c_resp0 := 0x80FF8000\<rparr>, e, 0)
      else if opcode = SD_APP_SEND_SCR then
        Inr (s\<lparr>c_resp0 := SET_R1_CURRENT_STATE 4 OR R1_READY_FOR_DATA OR R1_APP_CMD\<rparr>,
             e\<lparr>me_mem := mem_blit (me_mem e) (c_buffer_address s) [0x02, 0x25, 0, 0, 0, 0, 0, 0]\<rparr>, MMC_STAT_END_OF_DATA)
      else if opcode = MMC_SET_RELATIVE_ADDR then Inr (s\<lparr>c_resp0 := - 518519520\<rparr>, e, 0)
      else if opcode = MMC_ALL_SEND_CID then
        Inr (s\<lparr>c_resp3 := 55788627, c_resp2 := 1429221959, c_resp1 := - 2147479692, c_resp0 := - 436179883\<rparr>, e, 0)
      else if opcode = MMC_SELECT_CARD then Inr (s\<lparr>c_resp0 := SET_R1_CURRENT_STATE 3 OR R1_READY_FOR_DATA\<rparr>, e, 0)
      else if opcode = MMC_SWITCH then
        let s1 = s\<lparr>c_resp0 := SET_R1_CURRENT_STATE 4 OR R1_READY_FOR_DATA OR R1_APP_CMD\<rparr>
        in if arg = 0x00FFFFF1 \<or> arg = 0x80FFFFF1
           then Inr (s1, e\<lparr>me_mem := mem_blit (me_mem e) (c_buffer_address s) ((replicate 64 0)[13 := 2])\<rparr>,
                     MMC_STAT_END_OF_DATA)
           else Inr (s1, e, 0)
      else if opcode = MMC_SET_BLOCKLEN then
        Inr (s\<lparr>c_block_length := arg, c_resp0 := SET_R1_CURRENT_STATE 4 OR R1_READY_FOR_DATA\<rparr>, e, 0)
      else if opcode = MMC_READ_SINGLE_BLOCK then mmc_read_blocks arg (s\<lparr>c_block_count := 1\<rparr>) e
      else if opcode = MMC_READ_MULTIPLE_BLOCK then mmc_read_blocks arg s e
      else if opcode = MMC_WRITE_BLOCK then mmc_write_blocks arg (s\<lparr>c_block_count := 1\<rparr>) e
      else if opcode = MMC_WRITE_MULTIPLE_BLOCK then mmc_write_blocks arg s e
      else if opcode = MMC_STOP_TRANSMISSION then Inr (s\<lparr>c_resp0 := SET_R1_CURRENT_STATE 5 OR R1_READY_FOR_DATA\<rparr>, e, 0)
      else if opcode = MMC_SEND_STATUS then Inr (s\<lparr>c_resp0 := SET_R1_CURRENT_STATE 4 OR R1_READY_FOR_DATA\<rparr>, e, 0)
      else Inr (s, e, 0))"

definition goldfish_mmc_do_command ::
  "u32 \<Rightarrow> u32 \<Rightarrow> goldfish_mmc_state \<Rightarrow> mmc_env \<Rightarrow> (goldfish_mmc_state \<times> mmc_env \<times> irq_out list) res" where
  "goldfish_mmc_do_command cmd arg s e =
     res_bind (mmc_execute (cmd AND 63) arg (s\<lparr>c_resp0 := 0, c_resp1 := 0, c_resp2 := 0, c_resp3 := 0\<rparr>) e)
       (\<lambda>(s1, e1, st).
          let s2 = s1\<lparr>c_int_status := c_int_status s1 OR MMC_STAT_END_OF_CMD OR st\<rparr>
          in if c_int_status s2 AND c_int_enable s2 \<noteq> 0
             then res_bind (goldfish_device_set_irq (c_dev s2) 0 True) (\<lambda>os. Inr (s2, e1, os))
             else Inr (s2, e1, []))"

section \<open>The registers\<close>

definition goldfish_mmc_read :: "u64 \<Rightarrow> goldfish_mmc_state \<Rightarrow> mmc_env \<Rightarrow> u32 res" where
  "goldfish_mmc_read offset s e =
     (if offset = MMC_INT_STATUS then Inr (c_int_status s AND c_int_enable s)
      else if offset = MMC_RESP_0 then Inr (c_resp0 s)
      else if offset = MMC_RESP_1 then Inr (c_resp1 s)
      else if offset = MMC_RESP_2 then Inr (c_resp2 s)
      else if offset = MMC_RESP_3 then Inr (c_resp3 s)
      else if offset = MMC_STATE then
        Inr (if bd_read_only (me_bs e) then MMC_STATE_INSERTED OR MMC_STATE_READ_ONLY else MMC_STATE_INSERTED)
      else Inl Cpu_Abort)"

definition goldfish_mmc_write ::
  "u64 \<Rightarrow> u32 \<Rightarrow> goldfish_mmc_state \<Rightarrow> mmc_env \<Rightarrow> (goldfish_mmc_state \<times> mmc_env \<times> irq_out list) res" where
  "goldfish_mmc_write offset val s e =
     (if offset = MMC_INT_STATUS then
        let status = c_int_status s AND NOT val; s1 = s\<lparr>c_int_status := status\<rparr>
        in if status \<noteq> c_int_status s
           then res_bind (goldfish_device_set_irq (c_dev s1) 0 (status \<noteq> 0)) (\<lambda>os. Inr (s1, e, os))
           else Inr (s1, e, [])
      else if offset = MMC_INT_ENABLE then
        let s1 = s\<lparr>c_int_enable := val, c_int_status := 0\<rparr>
        in res_bind (goldfish_device_set_irq (c_dev s1) 0 (c_int_status s1 AND c_int_enable s1 \<noteq> 0))
             (\<lambda>os. Inr (s1, e, os))
      else if offset = MMC_SET_BUFFER then Inr (s\<lparr>c_buffer_address := uint64_set_low (c_buffer_address s) val\<rparr>, e, [])
      else if offset = MMC_SET_BUFFER_HIGH then
        Inr (s\<lparr>c_buffer_address := uint64_set_high (c_buffer_address s) val\<rparr>, e, [])
      else if offset = MMC_CMD then goldfish_mmc_do_command val (c_arg s) s e
      else if offset = MMC_ARG then Inr (s\<lparr>c_arg := val\<rparr>, e, [])
      else if offset = MMC_BLOCK_LENGTH then Inr (s\<lparr>c_block_length := val + 1\<rparr>, e, [])
      else if offset = MMC_BLOCK_COUNT then Inr (s\<lparr>c_block_count := val + 1\<rparr>, e, [])
      else Inl Cpu_Abort)"

definition goldfish_mmc_init :: "u32 \<Rightarrow> u32 \<Rightarrow> goldfish_mmc_state" where
  "goldfish_mmc_init base i =
     \<lparr>c_dev = \<lparr>d_reported_state = 0, d_name = ''goldfish_mmc'', d_id = i, d_base = base, d_size = 0x1000,
        d_irq = 0, d_irq_count = 1\<rparr>,
      c_buffer_address = 0, c_read_offset = 0, c_write_offset = 0, c_int_status = 0, c_int_enable = 0, c_arg = 0,
      c_resp0 = 0, c_resp1 = 0, c_resp2 = 0, c_resp3 = 0, c_block_length = 0, c_block_count = 0, c_is_SDHC = 0\<rparr>"

section \<open>Transfers move whole sectors\<close>

lemma mmc_sector_frame [simp]:
  "mmc_sector (s\<lparr>c_resp0 := x\<rparr>) arg = mmc_sector s arg" "mmc_sector (s\<lparr>c_resp1 := x\<rparr>) arg = mmc_sector s arg"
  "mmc_sector (s\<lparr>c_resp2 := x\<rparr>) arg = mmc_sector s arg" "mmc_sector (s\<lparr>c_resp3 := x\<rparr>) arg = mmc_sector s arg"
  "mmc_sector (s\<lparr>c_int_status := x\<rparr>) arg = mmc_sector s arg"
  "mmc_sector (s\<lparr>c_buffer_address := y\<rparr>) arg = mmc_sector s arg"
  by (simp_all add: mmc_sector_def)

definition disk_ok :: "block_dev \<Rightarrow> bool" where
  "disk_ok bs \<longleftrightarrow> (\<forall>i < bd_sectors bs. length (bd_data bs i) = 512)"

definition store_sectors :: "block_dev \<Rightarrow> nat \<Rightarrow> nat \<Rightarrow> u64 \<Rightarrow> phys_mem \<Rightarrow> block_dev" where
  "store_sectors bs a n addr mem =
     bs\<lparr>bd_wr_highest_sector := (if n = 0 then bd_wr_highest_sector bs else max (bd_wr_highest_sector bs) (a + n - 1)),
        bd_data := (\<lambda>i. if a \<le> i \<and> i < a + n then mem_window mem (addr + word_of_nat (512 * (i - a))) 512
                       else bd_data bs i)\<rparr>"

lemma request_ok: "sector < bd_sectors bs \<Longrightarrow> bdrv_check_request bs sector 1 = 0"
  by (simp add: bdrv_check_request_def flip: diff_mult_distrib)

lemma bdrv_write_sectors:
  assumes "a + n \<le> bd_sectors bs" and "\<not> bd_read_only bs"
  shows "goldfish_mmc_bdrv_write bs a addr n mem = (0, store_sectors bs a n addr mem)"
  using assms
proof (induction n arbitrary: bs a addr)
  case 0
  have "(\<lambda>i. if a \<le> i \<and> i < a + 0 then mem_window mem (addr + word_of_nat (512 * (i - a))) 512 else bd_data bs i) = bd_data bs"
    by (rule ext) auto
  then show ?case by (simp only: store_sectors_def goldfish_mmc_bdrv_write.simps) simp
next
  case (Suc n)
  let ?bs = "bs\<lparr>bd_wr_highest_sector := max (bd_wr_highest_sector bs) a,
                bd_data := (bd_data bs)(a := mem_window mem addr 512)\<rparr>"
  have w: "bdrv_write bs a (mem_window mem addr 512) = (0, ?bs)"
    using Suc.prems request_ok [of a bs] by (simp add: bdrv_write_def)
  have e: "addr + 512 + word_of_nat (512 * (i - Suc a)) = addr + word_of_nat (512 * (i - a))" if "Suc a \<le> i" for i
  proof -
    have "512 * (i - a) = 512 + 512 * (i - Suc a)" using that by simp
    then show ?thesis by (simp add: add.assoc)
  qed
  have "store_sectors ?bs (Suc a) n (addr + 512) mem = store_sectors bs a (Suc n) addr mem"
    using e by (auto simp: store_sectors_def fun_eq_iff)
  then show ?case using Suc.IH [of "Suc a" ?bs "addr + 512"] Suc.prems w by simp
qed

lemma bdrv_read_sectors:
  assumes "a + n \<le> bd_sectors bs" and "disk_ok bs"
  shows "goldfish_mmc_bdrv_read bs a addr n mem = (0, mem_blit mem addr (concat (map (bd_data bs) [a..<a + n])))"
  using assms(1)
proof (induction n arbitrary: a addr mem)
  case (Suc n)
  have "bdrv_read bs a = (0, bd_data bs a)" using Suc.prems request_ok [of a bs] by (simp add: bdrv_read_def)
  moreover have "length (bd_data bs a) = 512" using Suc.prems assms(2) by (simp add: disk_ok_def)
  ultimately show ?case
    using Suc.IH [of "Suc a"] Suc.prems by (simp add: upt_conv_Cons mem_blit_append del: upt_Suc)
qed simp

lemma store_sectors_data:
  "concat (map (bd_data (store_sectors bs a n addr mem)) [a..<a + n]) = mem_window mem addr (512 * n)"
proof -
  have "concat (map (\<lambda>i. mem_window mem (addr + word_of_nat (512 * (i - a))) 512) [a..<a + n]) = mem_window mem addr (512 * n)"
  proof (induction n)
    case (Suc n)
    then show ?case using mem_window_add [of mem addr "512 * n" 512] by (simp add: add.commute)
  qed (simp add: mem_window_def)
  moreover have "map (bd_data (store_sectors bs a n addr mem)) [a..<a + n] =
      map (\<lambda>i. mem_window mem (addr + word_of_nat (512 * (i - a))) 512) [a..<a + n]"
    by (rule map_cong) (auto simp: store_sectors_def)
  ultimately show ?thesis by (simp only:)
qed

lemma store_sectors_ok: "disk_ok bs \<Longrightarrow> disk_ok (store_sectors bs a n addr mem)"
  by (simp add: disk_ok_def store_sectors_def)

section \<open>The capacity a driver computes\<close>

lemma csd_scale_spec:
  "csd_scale c e = (c', e') \<Longrightarrow> \<exists>k. e' = e + k \<and> c' = c div 2 ^ k \<and> c' \<le> 4096 \<and> (\<forall>j < k. 4096 < c div 2 ^ j)"
proof (induction c e rule: csd_scale.induct)
  case (1 c e)
  show ?case
  proof (cases "4096 < c")
    case True
    then have "csd_scale (c div 2) (e + 1) = (c', e')" using 1(2) by (simp add: csd_scale.simps [of c e])
    then obtain k where k: "e' = e + 1 + k" "c' = c div 2 div 2 ^ k" "c' \<le> 4096" "\<forall>j < k. 4096 < c div 2 div 2 ^ j"
      using 1(1) [OF True] by blast
    have "4096 < c div 2 ^ j" if "j < Suc k" for j
      using that True k(4) by (cases j) (auto simp: div_mult2_eq)
    then show ?thesis using k by (intro exI [of _ "Suc k"]) (auto simp: div_mult2_eq)
  next
    case False
    then show ?thesis using 1(2) by (intro exI [of _ 0]) (simp add: csd_scale.simps [of c e])
  qed
qed

lemma csd_scale_exponent:
  assumes "csd_scale kb 0 = (c, k)"
  shows "c = kb div 2 ^ k" and "c \<le> 4096" and "0 < k \<Longrightarrow> 2048 \<le> c" and "2 \<le> k \<longleftrightarrow> 8194 \<le> kb"
    and "kb \<le> 2097152 \<Longrightarrow> k \<le> 9"
proof -
  have c: "c = kb div 2 ^ k" "c \<le> 4096" and min: "\<forall>j < k. 4096 < kb div 2 ^ j"
    using csd_scale_spec [OF assms] by auto
  show "c = kb div 2 ^ k" "c \<le> 4096" using c by auto
  show "2048 \<le> c" if k0: "0 < k"
  proof -
    obtain j where j: "k = Suc j" using k0 by (cases k) auto
    then have "4096 < kb div 2 ^ j" using min by simp
    moreover have "c = kb div 2 ^ j div 2" using c(1) j by (simp add: div_mult2_eq mult.commute [of 2])
    ultimately show ?thesis by simp
  qed
  show "2 \<le> k \<longleftrightarrow> 8194 \<le> kb"
  proof
    assume "2 \<le> k"
    then have "4096 < kb div 2 ^ 1" using min by (metis One_nat_def Suc_1 Suc_le_lessD)
    then show "8194 \<le> kb" by simp
  next
    assume kb: "8194 \<le> kb"
    show "2 \<le> k"
    proof (rule ccontr)
      assume "\<not> 2 \<le> k"
      then have "k = 0 \<or> k = 1" by auto
      then show False using c kb by auto
    qed
  qed
  show "k \<le> 9" if "kb \<le> 2097152"
  proof (rule ccontr)
    assume "\<not> k \<le> 9"
    then have "4096 < kb div 2 ^ 9" using min [rule_format, of 9] by simp
    then show False using that by simp
  qed
qed

text \<open>
  What the driver of the guest computes from the register: \<open>m\<close> and \<open>e\<close> from their bit positions, and
  the capacity in kilobytes (standard cards) or in units of 512 kilobytes (SDHC).
\<close>

definition csd_sd_kb :: "u32 \<Rightarrow> u32 \<Rightarrow> nat" where
  "csd_sd_kb r1 r2 = (1 + (unat (drop_bit 30 r1) + 4 * unat (r2 AND 0x3FF))) * 2 ^ (unat (drop_bit 15 r1 AND 7) + 2)"

definition csd_sdhc_units :: "u32 \<Rightarrow> u32 \<Rightarrow> nat" where
  "csd_sdhc_units r1 r2 = 1 + (unat (drop_bit 16 r1) + 65536 * unat (r2 AND 0x3F))"

lemma below_4: "k < 4 \<Longrightarrow> k = 0 \<or> k = 1 \<or> k = 2 \<or> k = (3 :: nat)"
  by auto

lemma below_8: "k \<le> 7 \<Longrightarrow> k = 0 \<or> k = 1 \<or> k = 2 \<or> k = 3 \<or> k = 4 \<or> k = 5 \<or> k = 6 \<or> k = (7 :: nat)"
  by auto

text \<open>The fields of the second word of a standard card do not overlap its constant bits.\<close>

lemma sd_word1_fields:
  assumes "a < 4" and "x \<le> 7"
  defines "r \<equiv> (0x3EF84FFF :: u32) OR push_bit 30 (word_of_nat a) OR push_bit 15 (word_of_nat x)"
  shows "unat (drop_bit 30 r) = a \<and> unat (drop_bit 15 r AND 7) = x"
  using below_4 [OF assms(1)] below_8 [OF assms(2)] unfolding r_def by (elim disjE) simp_all

lemma low_bits: "(A OR (y AND m)) AND m = y AND m" if "A AND m = 0" for A y m :: u32
  using that by (simp add: bit.conj_disj_distrib2 and.assoc)

lemma send_csd_sd:
  assumes "csd_scale kb 0 = (c, k)" and "2 \<le> k" and "k \<le> 9" and "kb = n * 512 div 1024" and "n * 512 \<le> 2147483648"
  shows "\<exists>r1 r2. mmc_send_csd n = Inr (0x928040CB, r1, r2, 0x00260032, False) \<and> csd_sd_kb r1 r2 = kb div 2 ^ k * 2 ^ k"
proof -
  have c: "c = kb div 2 ^ k" "c \<le> 4096" "2048 \<le> c" using csd_scale_exponent(1-3) [OF assms(1)] assms(2) by auto
  define w where "w = (word_of_nat c :: u32) - 1"
  have u: "unat w = c - 1"
  proof -
    have "w = word_of_nat (c - 1)" using c(3) by (simp add: w_def of_nat_diff)
    then show ?thesis using c(2) by (simp add: unat_of_nat)
  qed
  have m3: "(3 :: u32) = mask 2" "(0x3FF :: u32) = mask 10" by (simp_all add: mask_eq_exp_minus_1)
  have a: "unat (w AND 3) = (c - 1) mod 4" unfolding m3 unat_and_mask u by simp
  have b: "unat (drop_bit 2 w AND 0x3FF) = (c - 1) div 4" 
    using c(2) unfolding m3 unat_and_mask unat_drop_bit u by simp
  define r1 :: u32 where "r1 = 0x3EF84FFF OR push_bit 30 (w AND 3) OR push_bit 15 (word_of_nat (k - 2))"
  define r2 :: u32 where "r2 = 0x5F5A8000 OR (drop_bit 2 w AND 0x3FF)"
  have "word_of_nat (unat (w AND 3)) = w AND 3" by simp
  then have "w AND 3 = word_of_nat ((c - 1) mod 4)" unfolding a by simp
  then have f1: "unat (drop_bit 30 r1) = (c - 1) mod 4" "unat (drop_bit 15 r1 AND 7) = k - 2"
    using sd_word1_fields [of "(c - 1) mod 4" "k - 2"] assms(3) by (simp_all add: r1_def)
  have f2: "unat (r2 AND 0x3FF) = (c - 1) div 4" unfolding r2_def by (subst low_bits) (simp_all add: b)
  have "mmc_send_csd n = Inr (0x928040CB, r1, r2, 0x00260032, False)"
    using assms by (simp add: mmc_send_csd_def Let_def r1_def r2_def w_def)
  moreover have "csd_sd_kb r1 r2 = kb div 2 ^ k * 2 ^ k"
  proof -
    have "1 + ((c - 1) mod 4 + 4 * ((c - 1) div 4)) = c" using c(3) by simp
    moreover have "k - 2 + 2 = k" using assms(2) by simp
    ultimately show ?thesis unfolding csd_sd_kb_def f1 f2 by (simp only: c(1))
  qed
  ultimately show ?thesis by blast
qed

lemma send_csd_sdhc:
  assumes "2147483648 < n * 512" and "u = n * 512 div (512 * 1024)" and "u \<le> 4194304"
  shows "\<exists>r1 r2. mmc_send_csd n = Inr (0x0A4040DF, r1, r2, 0x400E0032, True) \<and> csd_sdhc_units r1 r2 = u"
proof -
  have u0: "0 < u" using assms(1,2) by simp
  define m where "m = (word_of_nat u :: u32) - 1"
  have um: "unat m = u - 1"
  proof -
    have "m = word_of_nat (u - 1)" using u0 by (simp add: m_def of_nat_diff)
    then show ?thesis using assms(3) by (simp add: unat_of_nat)
  qed
  have masks: "(0x0000FFFF :: u32) = mask 16" "(0x3F :: u32) = mask 6" by (simp_all add: mask_eq_exp_minus_1)
  have big: "m AND 0xFFC00000 = 0"
  proof (rule bit_word_eqI)
    fix i assume "i < LENGTH(32)"
    have "m AND mask 22 = m" using um assms(3) u0 unat_and_mask [of m 22] by (simp add: word_unat_eq_iff)
    then have "bit m i \<Longrightarrow> i < 22" by (metis bit_and_iff bit_mask_iff)
    moreover have "bit (0xFFC00000 :: u32) i \<Longrightarrow> 22 \<le> i"
    proof -
      have "(0xFFC00000 :: u32) = push_bit 22 (mask 10)" by (simp add: mask_eq_exp_minus_1)
      then show "bit (0xFFC00000 :: u32) i \<Longrightarrow> 22 \<le> i" by (metis bit_push_bit_iff)
    qed
    ultimately show "bit (m AND 0xFFC00000) i = bit (0 :: u32) i" by (auto simp: bit_and_iff)
  qed
  define r1 :: u32 where "r1 = 0x00007F80 OR push_bit 16 (m AND 0x0000FFFF)"
  define r2 :: u32 where "r2 = 0x5B590000 OR drop_bit 16 m"
  have "drop_bit 16 r1 = drop_bit 16 (push_bit 16 (m AND mask 16))" by (simp add: r1_def masks drop_bit_or)
  also have "\<dots> = m AND mask 16" by (rule bit_word_eqI) (auto simp: bit_simps)
  finally have f1: "unat (drop_bit 16 r1) = (u - 1) mod 65536" by (simp add: unat_and_mask um)
  have "r2 AND 0x3F = drop_bit 16 m AND 0x3F" by (simp add: r2_def bit.conj_disj_distrib2)
  then have f2: "unat (r2 AND 0x3F) = (u - 1) div 65536"
    using assms(3) u0 unfolding masks by (simp add: unat_and_mask unat_drop_bit um)
  have "mmc_send_csd n = Inr (0x0A4040DF, r1, r2, 0x400E0032, True)"
    using assms big by (simp add: mmc_send_csd_def Let_def r1_def r2_def m_def)
  moreover have "csd_sdhc_units r1 r2 = u" unfolding csd_sdhc_units_def f1 f2 using u0 by simp
  ultimately show ?thesis by blast
qed

section \<open>Properties\<close>

text \<open>The capacity of a standard card. For an image of at most 2 GiB the driver decodes from the register the capacity of the image,
  rounded down by less than one part in 2048; images below 8194 kilobytes stop the emulator, and no other image does.\<close>

theorem mmc_sd_capacity:
  assumes "n * 512 \<le> 2147483648"
  shows "if n * 512 div 1024 < 8194 then mmc_send_csd n = Inl Cpu_Abort
    else \<exists>r0 r1 r2 r3. mmc_send_csd n = Inr (r0, r1, r2, r3, False) \<and> csd_sd_kb r1 r2 \<le> n * 512 div 1024 \<and>
      2048 * (n * 512 div 1024 - csd_sd_kb r1 r2) < n * 512 div 1024"
proof -
  define kb where "kb = n * 512 div 1024"
  obtain c k where sc: "csd_scale kb 0 = (c, k)" by fastforce
  note x = csd_scale_exponent [OF sc]
  show ?thesis
  proof (cases "kb < 8194")
    case True
    then have "\<not> 2 \<le> k" using x(4) by simp
    then show ?thesis using True assms sc by (simp add: mmc_send_csd_def kb_def)
  next
    case False
    then have k: "2 \<le> k" "k \<le> 9" using x(4,5) assms by (simp_all add: kb_def)
    obtain r1 r2 where r: "mmc_send_csd n = Inr (0x928040CB, r1, r2, 0x00260032, False)" "csd_sd_kb r1 r2 = kb div 2 ^ k * 2 ^ k"
      using send_csd_sd [OF sc k kb_def assms] by blast
    have "kb - kb div 2 ^ k * 2 ^ k = kb mod 2 ^ k" by (simp add: minus_div_mult_eq_mod)
    moreover have "2048 * (kb mod 2 ^ k) < kb"
    proof -
      have "2048 * (kb mod 2 ^ k) < 2048 * 2 ^ k" by simp
      also have "\<dots> \<le> kb div 2 ^ k * 2 ^ k" using x(1,3) k by (intro mult_right_mono) simp_all
      also have "\<dots> \<le> kb" by simp
      finally show ?thesis .
    qed
    ultimately show ?thesis using r False unfolding kb_def [symmetric] by auto
  qed
qed

theorem mmc_sd_capacity_witness:
  "\<exists>r0 r1 r2 r3. mmc_send_csd 131072 = Inr (r0, r1, r2, r3, False) \<and> csd_sd_kb r1 r2 \<le> 65536 \<and> 2048 * (65536 - csd_sd_kb r1 r2) < 65536"
  using mmc_sd_capacity [of 131072] by simp

text \<open>The capacity of a high capacity card. For an image above 2 GiB and up to 2 TiB the driver decodes exactly the number of
  whole 512 kilobyte units of the image.\<close>

theorem mmc_sdhc_capacity:
  assumes "2147483648 < n * 512" and "n * 512 div (512 * 1024) \<le> 4194304"
  shows "\<exists>r0 r1 r2 r3. mmc_send_csd n = Inr (r0, r1, r2, r3, True) \<and> csd_sdhc_units r1 r2 = n * 512 div (512 * 1024)"
  using send_csd_sdhc [OF assms(1) refl assms(2)] by blast

theorem mmc_sdhc_capacity_witness:
  "\<exists>r0 r1 r2 r3. mmc_send_csd 8388608 = Inr (r0, r1, r2, r3, True) \<and> csd_sdhc_units r1 r2 = 8192"
  using mmc_sdhc_capacity [of 8388608] by simp

lemma mmc_command_ends:
  assumes "mmc_execute (cmd AND 63) arg (s\<lparr>c_resp0 := 0, c_resp1 := 0, c_resp2 := 0, c_resp3 := 0\<rparr>) e = Inr (s1, e1, st)" and "0 < d_irq_count (c_dev s1)"
  shows "goldfish_mmc_do_command cmd arg s e =
    Inr (s1\<lparr>c_int_status := c_int_status s1 OR MMC_STAT_END_OF_CMD OR st\<rparr>, e1,
      if (c_int_status s1 OR MMC_STAT_END_OF_CMD OR st) AND c_int_enable s1 \<noteq> 0 then [(d_irq (c_dev s1), True)] else [])"
  using assms by (simp add: goldfish_mmc_do_command_def Let_def)

text \<open>C39: What is written to the card is read back. Let the card be writable, let the sector of the argument be defined (on a card that is not SDHC the block length must
  have been set), let all the blocks lie on the card, and let the device have an interrupt line. A write command, for a single block or for the number of blocks in the
  register, succeeds, changes no other sector and no guest memory, and raises the line exactly when a recorded interrupt, its own ones included, is enabled. When the driver
  then issues the read command of the same kind for the same argument, with the block length and the block count as they are, but whatever
  it has done meanwhile to the other registers and to its memory, the command succeeds, fills the buffer it now names with the bytes that the write buffer held, and changes no
  sector. (A write that the card refuses, or that runs over its end, is reported to the driver like one that succeeded and is not covered.)\<close>

theorem mmc_write_read:
  fixes s :: goldfish_mmc_state and single :: bool
  assumes "mmc_sector s arg = Inr sector" and "unat sector + c \<le> bd_sectors (me_bs e)" and "\<not> bd_read_only (me_bs e)"
    and "disk_ok (me_bs e)" and "0 < d_irq_count (c_dev s)" and "c = (if single then 1 else sector_count (c_block_count s))"
  shows "\<exists>s1 e1. goldfish_mmc_do_command (if single then MMC_WRITE_BLOCK else MMC_WRITE_MULTIPLE_BLOCK) arg s e =
      Inr (s1, e1, if c_int_status s1 AND c_int_enable s \<noteq> 0 then [(d_irq (c_dev s), True)] else []) \<and>
    c_int_status s1 = c_int_status s OR MMC_STAT_END_OF_CMD OR MMC_STAT_END_OF_DATA \<and> c_dev s1 = c_dev s \<and> me_mem e1 = me_mem e \<and>
    (\<forall>i. \<not> (unat sector \<le> i \<and> i < unat sector + c) \<longrightarrow> bd_data (me_bs e1) i = bd_data (me_bs e) i) \<and>
    (\<forall>s' mem. c_is_SDHC s' = c_is_SDHC s1 \<and> c_block_length s' = c_block_length s1 \<and> c_block_count s' = c_block_count s1 \<and>
        0 < d_irq_count (c_dev s') \<longrightarrow>
      (\<exists>s2 e2 os. goldfish_mmc_do_command (if single then MMC_READ_SINGLE_BLOCK else MMC_READ_MULTIPLE_BLOCK) arg s' (e1\<lparr>me_mem := mem\<rparr>) = Inr (s2, e2, os) \<and>
        mem_window (me_mem e2) (c_buffer_address s') (512 * c) = mem_window (me_mem e) (c_buffer_address s) (512 * c) \<and> me_bs e2 = me_bs e1))"
proof -
  let ?a = "unat sector" and ?A = "c_buffer_address s"
  let ?bs = "store_sectors (me_bs e) ?a c ?A (me_mem e)" and ?k = "if single then 1 else c_block_count s"
  define s1 where "s1 = s\<lparr>c_resp0 := SET_R1_CURRENT_STATE 4 OR R1_READY_FOR_DATA, c_resp1 := 0, c_resp2 := 0, c_resp3 := 0,
    c_block_count := ?k, c_int_status := c_int_status s OR MMC_STAT_END_OF_CMD OR MMC_STAT_END_OF_DATA\<rparr>"
  have c: "c = sector_count ?k" using assms(6) by (simp add: sector_count_def)
  have w: "goldfish_mmc_do_command (if single then MMC_WRITE_BLOCK else MMC_WRITE_MULTIPLE_BLOCK) arg s e =
      Inr (s1, e\<lparr>me_bs := ?bs\<rparr>, if c_int_status s1 AND c_int_enable s \<noteq> 0 then [(d_irq (c_dev s), True)] else [])"
    using mmc_command_ends [of "if single then MMC_WRITE_BLOCK else MMC_WRITE_MULTIPLE_BLOCK" arg s e] assms(1,5)
      bdrv_write_sectors [OF assms(2,3), of ?A "me_mem e"] c
    by (simp add: mmc_execute_def mmc_op_defs mmc_write_blocks_def s1_def mmc_sector_def split: if_splits)
  have "sint ?k < 2 ^ 31" using sint_lt [of ?k] by simp
  then have n: "512 * c \<le> 2 ^ 64" by (simp add: c sector_count_def)
  have rd: "goldfish_mmc_bdrv_read ?bs ?a b c mem = (0, mem_blit mem b (mem_window (me_mem e) ?A (512 * c)))" for b mem
    using bdrv_read_sectors [of ?a c ?bs b mem] assms(2) store_sectors_ok [OF assms(4)]
    by (simp add: store_sectors_data) (simp add: store_sectors_def)
  have r: "\<exists>s2 e2 os. goldfish_mmc_do_command (if single then MMC_READ_SINGLE_BLOCK else MMC_READ_MULTIPLE_BLOCK) arg s' (e\<lparr>me_bs := ?bs, me_mem := mem\<rparr>) =
      Inr (s2, e2, os) \<and> mem_window (me_mem e2) (c_buffer_address s') (512 * c) = mem_window (me_mem e) ?A (512 * c) \<and> me_bs e2 = ?bs"
    if "c_is_SDHC s' = c_is_SDHC s1" "c_block_length s' = c_block_length s1" "c_block_count s' = c_block_count s1" "0 < d_irq_count (c_dev s')" for s' mem
  proof -
    have "mem_window (mem_blit mem (c_buffer_address s') (mem_window (me_mem e) ?A (512 * c))) (c_buffer_address s') (512 * c) =
        mem_window (me_mem e) ?A (512 * c)"
      using n mem_window_blit [of "mem_window (me_mem e) ?A (512 * c)" mem "c_buffer_address s'"] by simp
    then show ?thesis
      using mmc_command_ends [of "if single then MMC_READ_SINGLE_BLOCK else MMC_READ_MULTIPLE_BLOCK" arg s' "e\<lparr>me_bs := ?bs, me_mem := mem\<rparr>"] assms(1) that c rd
      by (auto simp: mmc_execute_def mmc_op_defs mmc_read_blocks_def s1_def mmc_sector_def split: if_splits)
  qed
  have "\<forall>i. \<not> (?a \<le> i \<and> i < ?a + c) \<longrightarrow> bd_data ?bs i = bd_data (me_bs e) i" by (auto simp: store_sectors_def)
  moreover have "c_int_status s1 = c_int_status s OR MMC_STAT_END_OF_CMD OR MMC_STAT_END_OF_DATA" "c_dev s1 = c_dev s" by (simp_all add: s1_def)
  ultimately show ?thesis using w r by (intro exI [of _ s1] exI [of _ "e\<lparr>me_bs := ?bs\<rparr>"]) simp
qed

definition sample_disk :: block_dev where
  "sample_disk = \<lparr>bd_sectors = 64, bd_read_only = False, bd_wr_highest_sector = 0, bd_data = (\<lambda>i. replicate 512 (word_of_nat i))\<rparr>"

theorem mmc_write_read_witness:
  "let s = (goldfish_mmc_init 0 0)\<lparr>c_is_SDHC := 1, c_block_count := 2, c_buffer_address := 0x1000, c_int_enable := 4\<rparr>;
       e = \<lparr>me_bs = sample_disk, me_mem = (\<lambda>a. ucast a)\<rparr> in
   \<exists>s1 e1 s2 e2 os1 os2. goldfish_mmc_do_command MMC_WRITE_MULTIPLE_BLOCK 7 s e = Inr (s1, e1, os1) \<and>
     goldfish_mmc_do_command MMC_READ_MULTIPLE_BLOCK 7 (s1\<lparr>c_buffer_address := 0x8000, c_int_status := 0\<rparr>) (e1\<lparr>me_mem := (\<lambda>_. 0)\<rparr>) = Inr (s2, e2, os2) \<and>
     mem_window (me_mem e2) 0x8000 1024 = mem_window (\<lambda>a. ucast a) 0x1000 1024"
proof -
  let ?s = "(goldfish_mmc_init 0 0)\<lparr>c_is_SDHC := 1, c_block_count := 2, c_buffer_address := 0x1000, c_int_enable := 4\<rparr>"
  let ?e = "\<lparr>me_bs = sample_disk, me_mem = (\<lambda>a. ucast a)\<rparr>"
  have h: "mmc_sector ?s 7 = Inr 7" "unat (7 :: u32) + 2 \<le> bd_sectors (me_bs ?e)" "\<not> bd_read_only (me_bs ?e)" "disk_ok (me_bs ?e)"
    "0 < d_irq_count (c_dev ?s)" "2 = (if False then 1 else sector_count (c_block_count ?s))"
    by (simp_all add: mmc_sector_def goldfish_mmc_init_def sector_count_def sample_disk_def disk_ok_def)
  obtain s1 e1 os where w: "goldfish_mmc_do_command MMC_WRITE_MULTIPLE_BLOCK 7 ?s ?e = Inr (s1, e1, os)" "c_dev s1 = c_dev ?s"
    and r: "\<And>s' mem. c_is_SDHC s' = c_is_SDHC s1 \<Longrightarrow> c_block_length s' = c_block_length s1 \<Longrightarrow> c_block_count s' = c_block_count s1 \<Longrightarrow> 0 < d_irq_count (c_dev s') \<Longrightarrow>
      \<exists>s2 e2 os. goldfish_mmc_do_command MMC_READ_MULTIPLE_BLOCK 7 s' (e1\<lparr>me_mem := mem\<rparr>) = Inr (s2, e2, os) \<and>
        mem_window (me_mem e2) (c_buffer_address s') 1024 = mem_window (\<lambda>a. ucast a) 0x1000 1024"
    using mmc_write_read [OF h] by fastforce
  show ?thesis using w r [of "s1\<lparr>c_buffer_address := 0x8000, c_int_status := 0\<rparr>" "\<lambda>_. 0"] h(5) by (auto simp: Let_def)
qed

text \<open>Transfers before the block length is known. On a card that is not SDHC, reading or writing blocks while the block length
  register is still zero, as it is after the device is created, divides by zero.\<close>

theorem mmc_zero_block_length:
  assumes "c_is_SDHC s = 0" and "c_block_length s = 0"
    and "cmd \<in> {MMC_READ_SINGLE_BLOCK, MMC_READ_MULTIPLE_BLOCK, MMC_WRITE_BLOCK, MMC_WRITE_MULTIPLE_BLOCK}"
  shows "goldfish_mmc_do_command cmd arg s e = Inl Undefined"
  using assms
  by (auto simp: goldfish_mmc_do_command_def mmc_execute_def mmc_op_defs mmc_read_blocks_def mmc_write_blocks_def mmc_sector_def)

theorem mmc_zero_block_length_witness:
  "goldfish_mmc_do_command MMC_READ_SINGLE_BLOCK 0 (goldfish_mmc_init 0 0) \<lparr>me_bs = sample_disk, me_mem = (\<lambda>_. 0)\<rparr> = Inl Undefined"
  by (rule mmc_zero_block_length) (simp_all add: goldfish_mmc_init_def)

text \<open>Acknowledging an interrupt drives the line with the unmasked status: a bit that is recorded but not enabled keeps the line
  high after the enabled one is acknowledged, although the status register of the driver then reads zero.\<close>

theorem mmc_ack_unmasked:
  assumes "0 < d_irq_count (c_dev s)" and "c_int_status s = 3" and "c_int_enable s = 1"
  shows "\<exists>s'. goldfish_mmc_write MMC_INT_STATUS 1 s e = Inr (s', e, [(d_irq (c_dev s), True)]) \<and>
    goldfish_mmc_read MMC_INT_STATUS s' e = Inr 0"
  using assms by (simp add: goldfish_mmc_write_def goldfish_mmc_read_def mmc_reg_defs Let_def)

theorem mmc_ack_unmasked_witness:
  "let s = (goldfish_mmc_init 0 0)\<lparr>c_int_status := 3, c_int_enable := 1\<rparr>; e = \<lparr>me_bs = sample_disk, me_mem = (\<lambda>_. 0)\<rparr> in
   \<exists>s'. goldfish_mmc_write MMC_INT_STATUS 1 s e = Inr (s', e, [(0, True)])"
  using mmc_ack_unmasked [of "(goldfish_mmc_init 0 0)\<lparr>c_int_status := 3, c_int_enable := 1\<rparr>"
      "\<lparr>me_bs = sample_disk, me_mem = (\<lambda>_. 0)\<rparr>"]
  by (auto simp: Let_def goldfish_mmc_init_def)

end
