(* ===== verification/Board.thy ===== *)
theory Board
  imports Goldfish_Device Goldfish_Interrupt Goldfish_Timer Goldfish_Tty Goldfish_Battery Goldfish_Events Goldfish_Mmc
begin

text \<open>
  The ARM board, \<open>hw/android/android_arm.c\<close>: the devices it puts on the platform bus and the wiring of
  their interrupt lines through the interrupt controller to the CPU. The theorem of this theory is the
  end-to-end contract of an interrupt: the CPU sees its line high exactly while some device wants
  attention on a line the kernel enabled.
\<close>

section \<open>The devices of the board\<close>

text \<open>
  What decides which devices there are: the further serial ports with a backend, the network cards, the
  audio device, the drive behind the SD card, tracing and the name of the pipe device.
\<close>

record board_config =
  bc_serials :: "u32 list"
  bc_nics :: "u32 list"
  bc_audio :: bool
  bc_drive :: bool
  bc_trace :: bool
  bc_new_naming :: bool

definition new_device :: "string \<Rightarrow> u32 \<Rightarrow> u32 \<Rightarrow> u32 \<Rightarrow> u32 \<Rightarrow> u32 \<Rightarrow> goldfish_device" where
  "new_device name i base sz irq irq_count =
     \<lparr>d_reported_state = 0, d_name = name, d_id = i, d_base = base, d_size = sz, d_irq = irq, d_irq_count = irq_count\<rparr>"

definition event0_device :: goldfish_device where
  "event0_device = new_device ''goldfish_events'' 0 0 0x1000 0 1"

definition nand_device :: goldfish_device where
  "nand_device = new_device ''goldfish_nand'' 0 0 0x1000 0 0"

text \<open>The calls of \<open>goldfish_device_add\<close> and \<open>goldfish_add_device_no_io\<close> after those for the interrupt
  controller and the bus itself, in the order the board makes them.\<close>

definition early_devices :: "board_config \<Rightarrow> goldfish_device list" where
  "early_devices c =
     [tm_dev (initial_timer 0xff003000 3), rtc_dev initial_rtc, t_dev (goldfish_tty_add True 0 0xff002000 4)] @
     map (\<lambda>i. t_dev (goldfish_tty_add True i 0 0)) (bc_serials c) @
     map (\<lambda>i. new_device ''smc91x'' i 0 0x1000 0 1) (bc_nics c) @
     [new_device ''goldfish_fb'' 0 0 0x1000 0 1] @
     (if bc_audio c then [new_device ''goldfish_audio'' 0 0xff004000 0x1000 0 1] else []) @
     (if bc_drive c then [c_dev (goldfish_mmc_init 0xff005000 0)] else [])"

definition late_devices :: "board_config \<Rightarrow> goldfish_device list" where
  "late_devices c =
     nand_device # (if bc_trace c then [new_device ''qemu_trace'' (- 1) 0 0x2000 0 0] else []) @
     [new_device (if bc_new_naming c then ''goldfish_pipe'' else ''qemu_pipe'') (- 1) 0 0x2000 0 1]"

definition controller_and_bus :: "bus_state res" where
  "controller_and_bus =
     res_bind (goldfish_add_device_no_io Target_ARM_MIPS
                 (new_device ''goldfish_interrupt_controller'' (- 1) 0xff000000 0x1000 0 0) initial_bus)
       (\<lambda>s. goldfish_device_bus_init Target_ARM_MIPS 0xff001000 1 (goldfish_device_init 0xff010000 10 s))"

definition android_arm_bus :: "board_config \<Rightarrow> bus_state res" where
  "android_arm_bus c =
     res_bind controller_and_bus
       (add_devices Target_ARM_MIPS
          (early_devices c @ [b_dev (goldfish_battery_init True), event0_device] @ late_devices c))"

section \<open>The state of the machine\<close>

record machine =
  m_clock :: u64
  m_int :: goldfish_int_state
  m_timer :: timer_state
  m_rtc :: rtc_state
  m_tty :: tty_state
  m_mmc :: goldfish_mmc_state
  m_battery :: goldfish_battery_state
  m_events :: events_state

text \<open>In the source a device state contains the structure that is on the list of the bus; here it gets the
  copy with the address and the line the bus assigned.\<close>

definition assigned :: "bus_state \<Rightarrow> goldfish_device \<Rightarrow> goldfish_device" where
  "assigned b dev = (case find (\<lambda>d. d_name d = d_name dev) (devices b) of None \<Rightarrow> dev | Some d \<Rightarrow> d)"

definition android_arm_init :: "board_config \<Rightarrow> hw_config \<Rightarrow> bool \<Rightarrow> bool \<Rightarrow> machine res" where
  "android_arm_init c hw has_battery serial0 =
     res_bind (android_arm_bus c) (\<lambda>b.
       let timer = initial_timer 0xff003000 3; rtc = initial_rtc; tty = goldfish_tty_add serial0 0 0xff002000 4;
           mmc = goldfish_mmc_init 0xff005000 0; battery = goldfish_battery_init has_battery
       in Inr \<lparr>m_clock = 0, m_int = goldfish_interrupt_init, m_timer = timer,
               m_rtc = rtc\<lparr>rtc_dev := assigned b (rtc_dev rtc)\<rparr>, m_tty = tty,
               m_mmc = mmc\<lparr>c_dev := assigned b (c_dev mmc)\<rparr>,
               m_battery = battery\<lparr>b_dev := assigned b (b_dev battery)\<rparr>,
               m_events = events_dev_init hw (d_irq (assigned b event0_device))\<rparr>)"

section \<open>Interrupt lines\<close>

text \<open>\<open>qemu_set_irq\<close> on lines of the controller: the calls reach \<open>goldfish_int_set_irq\<close> in their order. The
  outputs are the changes of the two lines of the CPU.\<close>

definition drive_lines :: "irq_out list \<Rightarrow> machine \<Rightarrow> (machine \<times> irq_out list) res" where
  "drive_lines os m =
     res_bind (run_ops int_step (map (\<lambda>(n, l). Set_irq (unat n) l) os) (m_int m))
       (\<lambda>(i, out). Inr (m\<lparr>m_int := i\<rparr>, out))"

text \<open>The steps of the running machine: those of the devices whose line is level-triggered, and the kernel
  enabling or disabling a line of the controller.\<close>

datatype machine_op = Op_tty tty_op | Op_battery battery_op | Op_events events_op
  | Op_irq_enable u32 | Op_irq_disable u32

fun machine_step :: "machine_op \<Rightarrow> machine \<Rightarrow> (machine \<times> irq_out list) res" where
  "machine_step (Op_tty op) m =
     res_bind (tty_step op (m_tty m)) (\<lambda>(s, os). drive_lines os (m\<lparr>m_tty := s\<rparr>))"
| "machine_step (Op_battery op) m =
     res_bind (battery_step op (m_battery m)) (\<lambda>(s, os). drive_lines os (m\<lparr>m_battery := s\<rparr>))"
| "machine_step (Op_events op) m =
     res_bind (events_step Target_ARM_MIPS op (m_events m)) (\<lambda>(s, os). drive_lines os (m\<lparr>m_events := s\<rparr>))"
| "machine_step (Op_irq_enable n) m =
     res_bind (goldfish_int_write INTERRUPT_ENABLE n (m_int m)) (\<lambda>(i, out). Inr (m\<lparr>m_int := i\<rparr>, out))"
| "machine_step (Op_irq_disable n) m =
     res_bind (goldfish_int_write INTERRUPT_DISABLE n (m_int m)) (\<lambda>(i, out). Inr (m\<lparr>m_int := i\<rparr>, out))"

text \<open>The level of every line of the controller, as the devices want it; the battery goes by the mask that was in force when it last drove its
  line. The steps are followed together with that mask.\<close>

definition wanted :: "machine \<Rightarrow> u32 \<Rightarrow> nat \<Rightarrow> bool" where
  "wanted m e n \<longleftrightarrow>
     n = unat (tty_line (m_tty m)) \<and> tty_asserted (m_tty m) \<or>
     n = unat (battery_line_no (m_battery m)) \<and> battery_asserted (m_battery m) e \<or>
     n = unat (ev_irq (m_events m)) \<and> events_asserted (m_events m)"

definition line_mask :: "machine_op \<Rightarrow> machine \<Rightarrow> u32 \<Rightarrow> u32" where
  "line_mask op m e = (case op of Op_battery b \<Rightarrow> driving_mask b (m_battery m) e | _ \<Rightarrow> e)"

fun mask_after :: "machine_op list \<Rightarrow> machine \<Rightarrow> u32 \<Rightarrow> u32" where
  "mask_after [] m e = e"
| "mask_after (op # ops) m e = (case machine_step op m of Inr (m', out) \<Rightarrow> mask_after ops m' (line_mask op m e) | Inl _ \<Rightarrow> e)"

definition followed_step :: "machine_op \<Rightarrow> machine \<times> u32 \<Rightarrow> ((machine \<times> u32) \<times> irq_out list) res" where
  "followed_step op me = res_bind (machine_step op (fst me)) (\<lambda>(m', out). Inr ((m', line_mask op (fst me) (snd me)), out))"

lemma followed_run:
  "run_ops machine_step ops m = Inr (m', out) \<Longrightarrow> run_ops followed_step ops (m, e) = Inr ((m', mask_after ops m e), out)"
  by (induction ops arbitrary: m e out) (auto simp: res_simps followed_step_def)

definition machine_ok :: "machine \<Rightarrow> u32 \<Rightarrow> bool" where
  "machine_ok m e \<longleftrightarrow> int_ok (m_int m) \<and> tty_ok (m_tty m) \<and> battery_ok (m_battery m) \<and> events_ok (m_events m) \<and>
     distinct [unat (tty_line (m_tty m)), unat (battery_line_no (m_battery m)), unat (ev_irq (m_events m))] \<and>
     (\<forall>n < 32. bit (i_level (m_int m)) n = wanted m e n)"

lemma level_after_calls:
  assumes "run_ops int_step (map (\<lambda>(n, l). Set_irq (unat n) l) os) s = Inr (s', out)" and "n < 32"
  shows "bit (i_level s') n = line_after (word_of_nat n) os (bit (i_level s) n) \<and> i_irq_enabled s' = i_irq_enabled s"
  using assms(1)
proof (induction os arbitrary: s out)
  case (Cons a os)
  obtain k l where a: "a = (k, l)" by (cases a)
  then obtain s1 o1 out2 where s1: "goldfish_int_set_irq (unat k) l s = Inr (s1, o1)"
    "run_ops int_step (map (\<lambda>(n, l). Set_irq (unat n) l) os) s1 = Inr (s', out2)"
    using Cons.prems by (auto simp: res_simps)
  note lev = set_irq_level [OF s1(1)]
  have "k = word_of_nat n \<longleftrightarrow> unat k = n"
    using assms(2) by (auto simp: word_unat_eq_iff unat_of_nat)
  then have "bit (i_level s1) n = (if k = word_of_nat n then l else bit (i_level s) n)"
    using lev(2) assms(2) by (auto simp: bit_simps)
  then show ?case using Cons.IH [OF s1(2)] lev(3) a by simp
qed auto

text \<open>One device changes its own line to the level it wants; the lines of the others keep theirs.\<close>

lemma drive_own_line:
  assumes run: "run_ops int_step (map (\<lambda>(n, l). Set_irq (unat n) l) os) s = Inr (s', out)"
    and own: "line_after k os a = a'" and other: "\<And>n l. n \<noteq> k \<Longrightarrow> line_after n os l = l"
    and before: "\<forall>n < 32. bit (i_level s) n = (n = unat k \<and> a \<or> rest n)" and rest: "\<not> rest (unat k)"
  shows "\<forall>n < 32. bit (i_level s') n = (n = unat k \<and> a' \<or> rest n)"
proof (intro allI impI)
  fix n :: nat assume n: "n < 32"
  have k: "word_of_nat n = k \<longleftrightarrow> n = unat k" using n by (auto simp: word_unat_eq_iff unat_of_nat)
  show "bit (i_level s') n = (n = unat k \<and> a' \<or> rest n)"
    using level_after_calls [OF run n] before n rest own other [of "word_of_nat n"] k by (cases "n = unat k") auto
qed

lemma drive_lines_Inr:
  "drive_lines os m = Inr (m', out) \<longleftrightarrow>
     (\<exists>i. run_ops int_step (map (\<lambda>(n, l). Set_irq (unat n) l) os) (m_int m) = Inr (i, out) \<and> m' = m\<lparr>m_int := i\<rparr>)"
  by (auto simp: drive_lines_def res_simps)

lemma enable_level:
  "goldfish_int_write offset v i = Inr (i', out) \<Longrightarrow> offset \<noteq> INTERRUPT_DISABLE_ALL \<Longrightarrow> i_level i' = i_level i"
  by (auto simp: goldfish_int_write_def Let_def split: if_splits)

lemma machine_tty_ok:
  assumes ok: "machine_ok m e" and step: "machine_step (Op_tty op) m = Inr (m', out)"
  shows "machine_ok m' (line_mask (Op_tty op) m e)"
proof -
  from step obtain s os i where r: "tty_step op (m_tty m) = Inr (s, os)"
    "run_ops int_step (map (\<lambda>(n, l). Set_irq (unat n) l) os) (m_int m) = Inr (i, out)" "m' = m\<lparr>m_tty := s, m_int := i\<rparr>"
    by (auto simp: res_simps drive_lines_Inr)
  have t: "tty_ok (m_tty m)" "int_ok (m_int m)" using ok by (auto simp: machine_ok_def)
  let ?rest = "\<lambda>n. n = unat (battery_line_no (m_battery m)) \<and> battery_asserted (m_battery m) e \<or>
     n = unat (ev_irq (m_events m)) \<and> events_asserted (m_events m)"
  have "\<forall>n < 32. bit (i_level i) n = (n = unat (tty_line (m_tty m)) \<and> tty_asserted s \<or> ?rest n)"
    by (rule drive_own_line [OF r(2) tty_irq.step_level [OF t(1) r(1)] tty_irq.other_line [OF t(1) r(1)]])
      (use ok in \<open>auto simp: machine_ok_def wanted_def\<close>)
  then show ?thesis
    using ok r(3) tty_irq.step_ok [OF t(1) r(1)] tty_irq.step_line [OF t(1) r(1)] int_irq.run_ok [OF t(2) r(2)]
    by (simp add: machine_ok_def wanted_def line_mask_def)
qed

lemma machine_battery_ok:
  assumes ok: "machine_ok m e" and step: "machine_step (Op_battery op) m = Inr (m', out)"
  shows "machine_ok m' (line_mask (Op_battery op) m e)"
proof -
  from step obtain s os i where r: "battery_step op (m_battery m) = Inr (s, os)"
    "run_ops int_step (map (\<lambda>(n, l). Set_irq (unat n) l) os) (m_int m) = Inr (i, out)" "m' = m\<lparr>m_battery := s, m_int := i\<rparr>"
    by (auto simp: res_simps drive_lines_Inr)
  have t: "battery_ok (m_battery m)" "int_ok (m_int m)" using ok by (auto simp: machine_ok_def)
  have step': "masked_step op (m_battery m, e) = Inr ((s, driving_mask op (m_battery m) e), os)" using r(1) by (simp add: masked_step_def)
  have lev: "battery_ok s" "battery_line_no s = battery_line_no (m_battery m)"
    "line_after (battery_line_no (m_battery m)) os (battery_asserted (m_battery m) e) = battery_asserted s (driving_mask op (m_battery m) e)"
    using battery_step_level [OF t(1) r(1)] by auto
  let ?rest = "\<lambda>n. n = unat (tty_line (m_tty m)) \<and> tty_asserted (m_tty m) \<or>
     n = unat (ev_irq (m_events m)) \<and> events_asserted (m_events m)"
  have "\<forall>n < 32. bit (i_level i) n = (n = unat (battery_line_no (m_battery m)) \<and> battery_asserted s (driving_mask op (m_battery m) e) \<or> ?rest n)"
    by (rule drive_own_line [OF r(2) lev(3) battery_irq.other_line [OF _ step', simplified, OF t(1)]])
      (use ok in \<open>auto simp: machine_ok_def wanted_def\<close>)
  then show ?thesis
    using ok r(3) lev(1,2) int_irq.run_ok [OF t(2) r(2)]
    by (auto simp: machine_ok_def wanted_def line_mask_def)
qed

lemma machine_events_ok:
  assumes ok: "machine_ok m e" and step: "machine_step (Op_events op) m = Inr (m', out)"
  shows "machine_ok m' (line_mask (Op_events op) m e)"
proof -
  from step obtain s os i where r: "events_step Target_ARM_MIPS op (m_events m) = Inr (s, os)"
    "run_ops int_step (map (\<lambda>(n, l). Set_irq (unat n) l) os) (m_int m) = Inr (i, out)" "m' = m\<lparr>m_events := s, m_int := i\<rparr>"
    by (auto simp: res_simps drive_lines_Inr)
  have t: "events_ok (m_events m)" "int_ok (m_int m)" using ok by (auto simp: machine_ok_def)
  let ?rest = "\<lambda>n. n = unat (tty_line (m_tty m)) \<and> tty_asserted (m_tty m) \<or>
     n = unat (battery_line_no (m_battery m)) \<and> battery_asserted (m_battery m) e"
  have "\<forall>n < 32. bit (i_level i) n = (n = unat (ev_irq (m_events m)) \<and> events_asserted s \<or> ?rest n)"
    by (rule drive_own_line [OF r(2) events_irq.step_level [OF t(1) r(1)] events_irq.other_line [OF t(1) r(1)]])
      (use ok in \<open>auto simp: machine_ok_def wanted_def\<close>)
  then show ?thesis
    using ok r(3) events_irq.step_ok [OF t(1) r(1)] events_irq.step_line [OF t(1) r(1)] int_irq.run_ok [OF t(2) r(2)]
    by (auto simp: machine_ok_def wanted_def line_mask_def)
qed

lemma machine_step_ok:
  assumes "machine_ok m e" and "machine_step op m = Inr (m', out)"
  shows "machine_ok m' (line_mask op m e)"
proof (cases op)
  case (Op_irq_enable n)
  then obtain i where "goldfish_int_write INTERRUPT_ENABLE n (m_int m) = Inr (i, out)" "m' = m\<lparr>m_int := i\<rparr>"
    using assms(2) by (auto simp: res_simps)
  then show ?thesis using Op_irq_enable assms(1) enable_level [of INTERRUPT_ENABLE n "m_int m" i out] write_ok [of "m_int m" _ n i out]
    by (auto simp: machine_ok_def wanted_def line_mask_def interrupt_defs)
next
  case (Op_irq_disable n)
  then obtain i where "goldfish_int_write INTERRUPT_DISABLE n (m_int m) = Inr (i, out)" "m' = m\<lparr>m_int := i\<rparr>"
    using assms(2) by (auto simp: res_simps)
  then show ?thesis using Op_irq_disable assms(1) enable_level [of INTERRUPT_DISABLE n "m_int m" i out] write_ok [of "m_int m" _ n i out]
    by (auto simp: machine_ok_def wanted_def line_mask_def interrupt_defs)
qed (use assms machine_tty_ok machine_battery_ok machine_events_ok in blast)+

lemma drive_level:
  assumes "int_ok (m_int m)" and "drive_lines os m = Inr (m', out)"
  shows "line_after parent_irq out (pending (m_int m) \<noteq> 0) = (pending (m_int m') \<noteq> 0)"
  using assms int_irq.run_level by (fastforce simp: drive_lines_Inr)

lemma machine_step_level:
  assumes "machine_ok m e" and "machine_step op m = Inr (m', out)"
  shows "line_after parent_irq out (pending (m_int m) \<noteq> 0) = (pending (m_int m') \<noteq> 0)"
proof (cases op)
  case (Op_irq_enable n)
  then show ?thesis
    using assms int_irq.step_level [of "m_int m" "Int_write INTERRUPT_ENABLE n"] by (auto simp: res_simps machine_ok_def)
next
  case (Op_irq_disable n)
  then show ?thesis
    using assms int_irq.step_level [of "m_int m" "Int_write INTERRUPT_DISABLE n"] by (auto simp: res_simps machine_ok_def)
qed (use assms in \<open>auto simp: res_simps machine_ok_def dest!: drive_level [rotated]\<close>)

interpretation machine_irq: level_line followed_step "\<lambda>me. machine_ok (fst me) (snd me)" "\<lambda>me. parent_irq" "\<lambda>me. pending (m_int (fst me)) \<noteq> 0"
  by unfold_locales (auto simp: followed_step_def res_simps dest: machine_step_ok machine_step_level)

section \<open>The lines the board assigns\<close>

lemma add_devices_append: "add_devices t (ds @ ds') s = res_bind (add_devices t ds s) (add_devices t ds')"
  by (induction ds arbitrary: s) (simp_all add: res_bind_def split: sum.splits)

text \<open>A device with a fixed line, or without a line, leaves the pool of free lines alone.\<close>

definition board_device :: "goldfish_device \<Rightarrow> bool" where
  "board_device d \<longleftrightarrow> wants_line d \<or> d_irq d \<noteq> 0 \<or> d_irq_count d = 0"

lemma add_board_device:
  assumes "board_device d" and "irq_pool_ok t s" and "goldfish_add_device_no_io t d s = Inr s'"
  shows "irq_pool_ok t s' \<and> free_irq s \<le> free_irq s' \<and> (\<exists>d'. devices s' = devices s @ [d'] \<and> d_name d' = d_name d)"
proof (cases "wants_line d")
  case True
  then show ?thesis using add_device_line [OF True assms(2,3)] by auto
next
  case False
  then show ?thesis using assms
    by (auto simp: board_device_def goldfish_add_device_no_io_def irq_pool_ok_def Let_def split: if_splits)
qed

lemma add_board_devices:
  assumes "list_all board_device ds" and "irq_pool_ok t s" and "add_devices t ds s = Inr s'"
  shows "irq_pool_ok t s' \<and> free_irq s \<le> free_irq s' \<and>
    (\<exists>new. devices s' = devices s @ new \<and> map d_name new = map d_name ds)"
  using assms
proof (induction ds arbitrary: s)
  case (Cons d ds)
  then obtain s1 where s1: "goldfish_add_device_no_io t d s = Inr s1" "add_devices t ds s1 = Inr s'"
    by (auto simp: res_simps)
  then show ?case using Cons.IH [OF _ _ s1(2)] add_board_device [OF _ Cons.prems(2) s1(1)] Cons.prems(1)
    by (auto intro: order_trans)
qed simp

lemma early_devices_ok: "list_all board_device (early_devices c)"
  "d_name event0_device \<notin> set (map d_name (early_devices c))"
  "d_name (b_dev (goldfish_battery_init hb)) \<notin> set (map d_name (early_devices c))"
  by (auto simp: early_devices_def board_device_def wants_line_def initial_timer_def initial_rtc_def goldfish_tty_add_def
      new_device_def goldfish_mmc_init_def event0_device_def goldfish_battery_init_def list_all_iff)

lemma late_devices_ok: "list_all board_device (late_devices c)"
  by (simp add: late_devices_def board_device_def wants_line_def new_device_def nand_device_def)

lemma controller_and_bus_ok:
  "\<exists>s0. controller_and_bus = Inr s0 \<and> irq_pool_ok Target_ARM_MIPS s0 \<and> free_irq s0 = 10 \<and>
     map d_name (devices s0) = [''goldfish_interrupt_controller'', ''goldfish_device_bus'']"
  by (simp add: controller_and_bus_def goldfish_add_device_no_io_def goldfish_device_bus_init_def goldfish_device_init_def
      new_device_def initial_bus_def irq_pool_ok_def GFD_MAX_IRQ_def Let_def)

lemma find_last_named:
  assumes "name \<notin> set (map d_name ds)" and "d_name d = name"
  shows "find (\<lambda>d. d_name d = name) (ds @ d # ds') = Some d"
  using assms by (induction ds) auto

lemma board_lines:
  assumes "android_arm_bus c = Inr b"
  shows "let n = unat (d_irq (assigned b (b_dev (goldfish_battery_init hb))));
             k = unat (d_irq (assigned b event0_device))
         in 10 \<le> n \<and> n < k \<and> k < 32"
    and "d_irq_count (assigned b (b_dev (goldfish_battery_init hb))) = 1"
proof -
  let ?t = Target_ARM_MIPS and ?bat = "b_dev (goldfish_battery_init True)"
  obtain s0 where b0: "controller_and_bus = Inr s0 \<and> irq_pool_ok ?t s0 \<and> free_irq s0 = 10 \<and>
      map d_name (devices s0) = [''goldfish_interrupt_controller'', ''goldfish_device_bus'']"
    using controller_and_bus_ok by (rule exE)
  note c = b0 [THEN conjunct1] and s0 = b0 [THEN conjunct2, THEN conjunct1]
    b0 [THEN conjunct2, THEN conjunct2, THEN conjunct1] b0 [THEN conjunct2, THEN conjunct2, THEN conjunct2]
  have all: "add_devices ?t (early_devices c @ [?bat, event0_device] @ late_devices c) s0 = Inr b"
    using assms by (simp only: android_arm_bus_def c res_bind_Inr)
  obtain s1 s2 s3 where s1: "add_devices ?t (early_devices c) s0 = Inr s1"
    and s2: "goldfish_add_device_no_io ?t ?bat s1 = Inr s2" and s3: "goldfish_add_device_no_io ?t event0_device s2 = Inr s3"
    and b: "add_devices ?t (late_devices c) s3 = Inr b"
    using all by (auto simp: add_devices_append res_simps)
  have w: "wants_line ?bat" "wants_line event0_device"
    by (simp_all add: wants_line_def goldfish_battery_init_def event0_device_def new_device_def)
  obtain e where e: "irq_pool_ok ?t s1" "10 \<le> free_irq s1" "devices s1 = devices s0 @ e" "map d_name e = map d_name (early_devices c)"
    using add_board_devices [OF early_devices_ok(1) s0(1) s1] s0(2) by auto
  note l2 = add_device_line [OF w(1) e(1) s2]
  then obtain d2 where d2: "devices s2 = devices s1 @ [d2]" "d_irq d2 = free_irq s1" "d_name d2 = d_name ?bat"
    "d_irq_count d2 = 1" by (auto simp: goldfish_battery_init_def)
  note l3 = add_device_line [OF w(2) l2(1) s3]
  then obtain d3 where d3: "devices s3 = devices s2 @ [d3]" "d_irq d3 = free_irq s2" "d_name d3 = d_name event0_device"
    by auto
  obtain l where l: "devices b = devices s3 @ l" using add_board_devices [OF late_devices_ok l3(1) b] by auto
  have n: "set (map d_name (devices s1)) = {''goldfish_interrupt_controller'', ''goldfish_device_bus''} \<union> set (map d_name (early_devices c))"
    unfolding e(3) map_append set_append s0(3) e(4) by simp
  have bat: "assigned b (b_dev (goldfish_battery_init hb)) = d2"
  proof -
    have "d_name ?bat \<notin> set (map d_name (devices s1))"
      unfolding n using early_devices_ok(3) [of True c] by (simp add: goldfish_battery_init_def)
    then show ?thesis
      using find_last_named [of "d_name ?bat" "devices s1" d2 "d3 # l"] d2 d3 l
      by (simp add: assigned_def goldfish_battery_init_def)
  qed
  have ev: "assigned b event0_device = d3"
  proof -
    have "d_name event0_device \<notin> set (map d_name (devices s2))"
      using n early_devices_ok(2) [of c] d2 by (auto simp: event0_device_def new_device_def goldfish_battery_init_def)
    then show ?thesis
      using find_last_named [of "d_name event0_device" "devices s2" d3 l] d3 l by (simp add: assigned_def)
  qed
  show "let n = unat (d_irq (assigned b (b_dev (goldfish_battery_init hb)))); k = unat (d_irq (assigned b event0_device))
         in 10 \<le> n \<and> n < k \<and> k < 32"
    using bat ev d2(2) d3(2) e(2) l2(1,2)
    by (simp add: Let_def irq_pool_ok_def GFD_MAX_IRQ_def word_le_nat_alt word_less_nat_alt)
  show "d_irq_count (assigned b (b_dev (goldfish_battery_init hb))) = 1" using bat d2(4) by simp
qed

lemma goldfish_interrupt_init_level: "i_level goldfish_interrupt_init = 0"
  by (simp add: goldfish_interrupt_init_def)

lemma board_ok:
  assumes "android_arm_init c hw has_battery serial0 = Inr m"
  shows "machine_ok m 0" and "pending (m_int m) = 0"
proof -
  obtain b where b: "android_arm_bus c = Inr b" using assms by (auto simp: android_arm_init_def res_simps)
  let ?ev = "events_dev_init hw (d_irq (assigned b event0_device))"
  have r: "ev_irq ?ev = d_irq (assigned b event0_device)" "ev_first ?ev = 0" "ev_last ?ev = 0" "ev_state ?ev = STATE_INIT"
    using init_ring [of hw "d_irq (assigned b event0_device)"] by (simp_all add: ring_regs_def)
  have ring: "ring_len ?ev = 0" "ring_ok ?ev" using r by (simp_all add: ring_len_def ring_ok_def MAX_EVENTS_def)
  have ev: "events_ok ?ev" "\<not> events_asserted ?ev"
    using ring r(4) by (simp_all add: events_ok_def whole_events_def queue_Nil events_asserted_def ev_state_defs)
  have m: "m_int m = goldfish_interrupt_init" "m_tty m = goldfish_tty_add serial0 0 0xff002000 4" "m_events m = ?ev"
    "m_battery m = (goldfish_battery_init has_battery)\<lparr>b_dev := assigned b (b_dev (goldfish_battery_init has_battery))\<rparr>"
    using assms b by (auto simp: android_arm_init_def Let_def)
  show "pending (m_int m) = 0" using m(1) by simp
  have lines: "unat (tty_line (m_tty m)) = 4" "\<not> tty_asserted (m_tty m)" "tty_ok (m_tty m)"
    "\<not> battery_asserted (m_battery m) 0" "battery_ok (m_battery m)"
    using board_lines(2) [OF b, of has_battery]
    by (simp_all add: m goldfish_tty_add_def tty_line_def tty_asserted_def tty_ok_def TTY_DATA_SIZE_def
        battery_asserted_def battery_ok_def goldfish_battery_init_def)
  show "machine_ok m 0"
    using board_lines(1) [OF b, of has_battery] ev lines r(1)
    by (auto simp: machine_ok_def wanted_def m(1,3) Let_def battery_line_no_def m(4) goldfish_interrupt_init_level)
qed

lemma pending_wanted:
  assumes "machine_ok m e"
  shows "pending (m_int m) \<noteq> 0 \<longleftrightarrow> (\<exists>n < 32. wanted m e n \<and> bit (i_irq_enabled (m_int m)) n)"
proof -
  have "pending (m_int m) = 0 \<longleftrightarrow> (\<forall>n < 32. \<not> bit (pending (m_int m)) n)"
  proof
    assume "\<forall>n < 32. \<not> bit (pending (m_int m)) n"
    then show "pending (m_int m) = 0" by (intro bit_word_eqI) simp
  qed simp
  then show ?thesis using assms by (auto simp: machine_ok_def pending_def bit_and_iff)
qed

section \<open>Properties\<close>

text \<open>C2: Interrupts end to end. Start the ARM board with any configuration for which it starts, and let the serial port, the battery and the input device
  take any steps, where the driver of the input device fetches events as a whole, three words each, and only after it has announced that it is ready; let
  the kernel enable and disable single lines of the controller. (The register that disables all lines at once also forgets their levels and is not among these steps; the other devices stay
  idle.) Whenever these steps succeed, the interrupt line of the CPU is high exactly when a device that wants attention has its line enabled, and the number
  that the kernel then reads from the controller is the lowest such line. The serial port wants attention when it is enabled and holds input; the input device when it is
  ready and holds events; and the battery when it has recorded a change that the interrupt mask enables, with the mask as it was when the battery last drove its line: the
  write of the mask, which is among the steps, does not update the line.\<close>

theorem machine_interrupts:
  assumes "android_arm_init c hw has_battery serial0 = Inr m0" and "run_ops machine_step ops m0 = Inr (m, out)"
  shows "let want = \<lambda>n. wanted m (mask_after ops m0 0) n \<and> bit (i_irq_enabled (m_int m)) n
    in line_after parent_irq out False = (\<exists>n < 32. want n) \<and>
       (\<forall>n < 32. want n \<and> (\<forall>k < n. \<not> want k) \<longrightarrow> goldfish_int_read INTERRUPT_NUMBER (m_int m) = Inr (word_of_nat n))"
proof -
  let ?e = "mask_after ops m0 0"
  note run = followed_run [OF assms(2), of 0]
  have ok: "machine_ok m ?e" using machine_irq.run_ok [OF _ run] board_ok(1) [OF assms(1)] by simp
  have b: "bit (i_level (m_int m) AND i_irq_enabled (m_int m)) n \<longleftrightarrow> wanted m ?e n \<and> bit (i_irq_enabled (m_int m)) n"
    if "n < 32" for n using ok that by (simp add: machine_ok_def bit_and_iff)
  have "line_after parent_irq out False = (pending (m_int m) \<noteq> 0)"
    using machine_irq.run_level [OF _ run] board_ok [OF assms(1)] by simp
  moreover have "goldfish_int_read INTERRUPT_NUMBER (m_int m) = Inr (word_of_nat n)"
    if "n < 32" "wanted m ?e n \<and> bit (i_irq_enabled (m_int m)) n" "\<forall>k < n. \<not> (wanted m ?e k \<and> bit (i_irq_enabled (m_int m)) k)" for n
    using lowest_pending_spec [of n 0 "i_level (m_int m) AND i_irq_enabled (m_int m)"] that b
    by (simp add: goldfish_int_read_def interrupt_defs)
  ultimately show ?thesis using pending_wanted [OF ok] unfolding Let_def by blast
qed

definition sample_board :: board_config where
  "sample_board = \<lparr>bc_serials = [1], bc_nics = [0], bc_audio = True, bc_drive = True, bc_trace = False, bc_new_naming = False\<rparr>"

definition sample_hw :: hw_config where
  "sample_hw = \<lparr>hc_dPad = False, hc_trackBall = False, hc_screen = Screen_Multi_Touch, hc_camera = True, hc_keyboard = False,
     hc_keyboard_lid = False, hc_lcd_width = 480, hc_lcd_height = 800, hc_charmap = [], hc_mt_max_slot = 9\<rparr>"

lemma sample_board_starts: "\<exists>m. android_arm_init sample_board sample_hw True True = Inr m \<and> m_tty m = goldfish_tty_add True 0 0xff002000 4 \<and>
    m_int m = goldfish_interrupt_init"
proof -
  have "\<exists>b. android_arm_bus sample_board = Inr b"
    by (simp add: android_arm_bus_def controller_and_bus_def goldfish_add_device_no_io_def goldfish_device_bus_init_def
      goldfish_device_init_def new_device_def initial_bus_def GFD_MAX_IRQ_def Let_def early_devices_def late_devices_def
      sample_board_def initial_timer_def initial_rtc_def goldfish_tty_add_def goldfish_mmc_init_def goldfish_battery_init_def
      event0_device_def nand_device_def)
  then show ?thesis by (auto simp: android_arm_init_def Let_def)
qed

theorem machine_interrupts_witness:
  "\<exists>m0 m out. android_arm_init sample_board sample_hw True True = Inr m0 \<and>
     run_ops machine_step [Op_battery (Battery_write BATTERY_INT_ENABLE 3), Op_irq_enable 4, Op_tty (Tty_receive [104, 105]),
        Op_tty (Tty_write TTY_CMD TTY_CMD_INT_ENABLE
        \<lparr>te_mmu = sample_mmu, te_mem = (\<lambda>_. 0), te_junk = (\<lambda>_. 0), te_sent = []\<rparr>)] m0 = Inr (m, out) \<and>
     line_after parent_irq out False"
proof -
  let ?ops = "[Op_battery (Battery_write BATTERY_INT_ENABLE 3), Op_irq_enable 4, Op_tty (Tty_receive [104, 105]),
        Op_tty (Tty_write TTY_CMD TTY_CMD_INT_ENABLE
        \<lparr>te_mmu = sample_mmu, te_mem = (\<lambda>_. 0), te_junk = (\<lambda>_. 0), te_sent = []\<rparr>)]"
  obtain m0 where m0: "android_arm_init sample_board sample_hw True True = Inr m0"
      "m_tty m0 = goldfish_tty_add True 0 0xff002000 4" "m_int m0 = goldfish_interrupt_init"
    using sample_board_starts by blast
  obtain m out where r: "run_ops machine_step ?ops m0 = Inr (m, out)" "i_irq_enabled (m_int m) = 0x10"
      "t_ready (m_tty m) = 1" "t_data_count (m_tty m) = 2" "d_irq (t_dev (m_tty m)) = 4"
    by (simp add: m0(2,3) goldfish_battery_write_def goldfish_tty_add_def tty_receive_def goldfish_tty_write_def tty_defs TTY_DATA_SIZE_def Let_def
        drive_lines_def goldfish_int_write_def goldfish_int_set_irq_def goldfish_interrupt_init_def interrupt_defs)
  then have "4 < (32 :: nat) \<and> wanted m (mask_after ?ops m0 0) 4 \<and> bit (i_irq_enabled (m_int m)) 4"
    by (simp add: wanted_def tty_line_def tty_asserted_def del: mask_after.simps)
  then show ?thesis using machine_interrupts [OF m0(1) r(1)] m0(1) r(1) unfolding Let_def by blast
qed

end
