(* ===== verification/Machine_Snapshot.thy ===== *)
theory Machine_Snapshot
  imports Board Savevm
begin

text \<open>
  Snapshots of the machine of theory \<open>Board\<close>: the handlers its devices register with \<open>register_savevm\<close>,
  and the theorem that loading a saved machine restores the state of all of them.
\<close>

section \<open>The handlers\<close>

definition cstr :: "string \<Rightarrow> cstring" where
  "cstr s = map (\<lambda>c. word_of_nat (of_char c)) s"

definition save_of :: "('m \<Rightarrow> 's) \<Rightarrow> ('s \<Rightarrow> u8 list) \<Rightarrow> 'm saver" where
  "save_of get save m = save (get m)"

definition load_of ::
  "('m \<Rightarrow> 's) \<Rightarrow> ('s \<Rightarrow> 'm \<Rightarrow> 'm) \<Rightarrow> (rstream \<Rightarrow> 's \<Rightarrow> int \<Rightarrow> int \<times> 's \<times> rstream) \<Rightarrow> 'm loader" where
  "load_of get put load f m version_id =
     (let (ret, s, f') = load f (get m) version_id in Inr (ret, put s m, f'))"

definition save_timer :: "machine saver" where
  "save_timer m = goldfish_timer_save (m_clock m) (m_timer m)"

text \<open>An alarm that is overdue raises the line of the timer while it is loaded.\<close>

definition load_timer :: "machine loader" where
  "load_timer f m version_id =
     res_bind (goldfish_timer_load (m_clock m) f (m_timer m) version_id) (\<lambda>(ret, s, f', os).
       res_bind (drive_lines os (m\<lparr>m_timer := s\<rparr>)) (\<lambda>(m', out). Inr (ret, m', f')))"

definition load_tty :: "machine loader" where
  "load_tty f m version_id =
     res_bind (goldfish_tty_load f (m_tty m) version_id) (\<lambda>(ret, s, f'). Inr (ret, m\<lparr>m_tty := s\<rparr>, f'))"

text \<open>The calls of \<open>register_savevm\<close> of the devices, in the order the board makes them.\<close>

definition register_devices :: "machine savevm \<Rightarrow> machine savevm res" where
  "register_devices s =
     res_bind (register_savevm None (cstr ''goldfish_int'') 0 GOLDFISH_INT_SAVE_VERSION
       (save_of m_int goldfish_int_save) (load_of m_int (\<lambda>v. m_int_update (\<lambda>_. v)) goldfish_int_load) s) (\<lambda>s.
     res_bind (register_savevm None (cstr ''goldfish_timer'') 0 GOLDFISH_TIMER_SAVE_VERSION save_timer load_timer s) (\<lambda>s.
     res_bind (register_savevm None (cstr ''goldfish_rtc'') 0 GOLDFISH_RTC_SAVE_VERSION
       (save_of m_rtc goldfish_rtc_save) (load_of m_rtc (\<lambda>v. m_rtc_update (\<lambda>_. v)) goldfish_rtc_load) s) (\<lambda>s.
     res_bind (register_savevm None (cstr ''goldfish_tty'') 0 GOLDFISH_TTY_SAVE_VERSION
       (save_of m_tty goldfish_tty_save) load_tty s) (\<lambda>s.
     res_bind (register_savevm None (cstr ''goldfish_mmc'') 0 GOLDFISH_MMC_SAVE_VERSION
       (save_of m_mmc goldfish_mmc_save) (load_of m_mmc (\<lambda>v. m_mmc_update (\<lambda>_. v)) goldfish_mmc_load) s) (\<lambda>s.
     res_bind (register_savevm None (cstr ''battery_state'') 0 BATTERY_STATE_SAVE_VERSION
       (save_of m_battery goldfish_battery_save)
       (load_of m_battery (\<lambda>v. m_battery_update (\<lambda>_. v)) goldfish_battery_load) s)
     (register_savevm None (cstr ''events_state'') 0 EVENTS_STATE_SAVE_VERSION
       (save_of m_events events_state_save) (load_of m_events (\<lambda>v. m_events_update (\<lambda>_. v)) events_state_load)))))))"

definition machine_handlers :: "machine SaveStateEntry list" where
  "machine_handlers = (case register_devices empty_savevm of Inl e \<Rightarrow> [] | Inr s \<Rightarrow> savevm_handlers s)"

definition entry :: "string \<Rightarrow> int \<Rightarrow> int \<Rightarrow> machine saver \<Rightarrow> machine loader \<Rightarrow> machine SaveStateEntry" where
  "entry name version section save load =
     \<lparr>se_idstr = cstr name, se_instance_id = 0, se_alias_id = 0, se_version_id = version, se_section_id = section,
      se_ops = Some \<lparr>h_save_state = Some save, h_save_live_state = None, h_load_state = load\<rparr>,
      se_vmsd = None, se_compat = None, se_no_migrate = False, se_is_ram = False\<rparr>"

lemma register_plain:
  "length name < 256 \<Longrightarrow> register_savevm None (cstr name) 0 version save load s =
     Inr (s\<lparr>savevm_handlers := savevm_handlers s @ [entry name version (global_section_id s) save load],
            global_section_id := global_section_id s + 1\<rparr>)"
  by (simp add: register_savevm_def register_savevm_live_def add_handler_def pstrcat_def cstr_def entry_def Let_def)

lemma machine_handlers_eq:
  "machine_handlers =
     [entry ''goldfish_int'' 1 0 (save_of m_int goldfish_int_save)
        (load_of m_int (\<lambda>v. m_int_update (\<lambda>_. v)) goldfish_int_load),
      entry ''goldfish_timer'' 1 1 save_timer load_timer,
      entry ''goldfish_rtc'' 1 2 (save_of m_rtc goldfish_rtc_save)
        (load_of m_rtc (\<lambda>v. m_rtc_update (\<lambda>_. v)) goldfish_rtc_load),
      entry ''goldfish_tty'' GOLDFISH_TTY_SAVE_VERSION 3 (save_of m_tty goldfish_tty_save) load_tty,
      entry ''goldfish_mmc'' 3 4 (save_of m_mmc goldfish_mmc_save)
        (load_of m_mmc (\<lambda>v. m_mmc_update (\<lambda>_. v)) goldfish_mmc_load),
      entry ''battery_state'' 1 5 (save_of m_battery goldfish_battery_save)
        (load_of m_battery (\<lambda>v. m_battery_update (\<lambda>_. v)) goldfish_battery_load),
      entry ''events_state'' 2 6 (save_of m_events events_state_save)
        (load_of m_events (\<lambda>v. m_events_update (\<lambda>_. v)) events_state_load)]"
  by (simp add: machine_handlers_def register_devices_def register_plain empty_savevm_def GOLDFISH_INT_SAVE_VERSION_def
      GOLDFISH_TIMER_SAVE_VERSION_def GOLDFISH_RTC_SAVE_VERSION_def GOLDFISH_MMC_SAVE_VERSION_def BATTERY_STATE_SAVE_VERSION_def
      EVENTS_STATE_SAVE_VERSION_def)

section \<open>What a load restores\<close>

definition restored_timer :: "machine \<Rightarrow> machine \<Rightarrow> timer_state" where
  "restored_timer m t =
     (let s = (m_timer t)\<lparr>tm_now_ns := tm_now_ns (m_timer m), tm_armed := tm_armed (m_timer m)\<rparr>
      in if tm_armed (m_timer m) = 0 then s
         else s\<lparr>tm_timer := Some (m_clock t + (alarm_ns (m_timer m) - m_clock m))\<rparr>)"

definition restored_tty :: "tty_state \<Rightarrow> tty_state \<Rightarrow> tty_state" where
  "restored_tty s t =
     t\<lparr>t_ptr := t_ptr s, t_ptr_len := t_ptr_len s, t_ready := t_ready s, t_data_count := t_data_count s,
       t_data := blit (t_data t) 0 (tty_queue s)\<rparr>"

definition restored_events :: "events_state \<Rightarrow> events_state \<Rightarrow> events_state" where
  "restored_events s t =
     t\<lparr>ev_pending := ev_pending s, ev_page := ev_page s,
       ev_events := (\<lambda>i. if i < MAX_EVENTS then ev_events s i else ev_events t i),
       ev_first := ev_first s, ev_last := ev_last s, ev_state := ev_state s\<rparr>"

definition restored_part :: "string \<Rightarrow> machine \<Rightarrow> machine \<Rightarrow> machine" where
  "restored_part name m t =
     (if name = ''goldfish_int'' then t\<lparr>m_int := m_int m\<rparr>
      else if name = ''goldfish_timer'' then t\<lparr>m_timer := restored_timer m t\<rparr>
      else if name = ''goldfish_rtc'' then t\<lparr>m_rtc := (m_rtc t)\<lparr>rtc_now := rtc_now (m_rtc m)\<rparr>\<rparr>
      else if name = ''goldfish_tty'' then t\<lparr>m_tty := restored_tty (m_tty m) (m_tty t)\<rparr>
      else if name = ''goldfish_mmc'' then t\<lparr>m_mmc := (m_mmc m)\<lparr>c_dev := c_dev (m_mmc t)\<rparr>\<rparr>
      else if name = ''battery_state'' then
        t\<lparr>m_battery := (m_battery m)\<lparr>b_dev := b_dev (m_battery t), b_hw_has_battery := b_hw_has_battery (m_battery t)\<rparr>\<rparr>
      else t\<lparr>m_events := restored_events (m_events m) (m_events t)\<rparr>)"

text \<open>The snapshot of \<open>m\<close> can be loaded into \<open>t\<close>: the flags are flags, the queue of the serial port has its
  legal size, and a pending alarm lies in the future of the clock of \<open>t\<close>.\<close>

definition snapshot_ok :: "machine \<Rightarrow> machine \<Rightarrow> bool" where
  "snapshot_ok m t \<longleftrightarrow> tm_armed (m_timer m) \<le> 1 \<and> t_ready (m_tty m) \<le> 1 \<and> tty_ok (m_tty m) \<and>
     (tm_armed (m_timer m) = 1 \<longrightarrow> sint (m_clock t) < sint (m_clock t + (alarm_ns (m_timer m) - m_clock m)))"

section \<open>Each device loads what it saved\<close>

lemma int_load_save:
  "goldfish_int_load \<lparr>rs_bytes = goldfish_int_save s @ bs, rs_error = e\<rparr> t 1 = (0, s, \<lparr>rs_bytes = bs, rs_error = e\<rparr>)"
  by (simp add: goldfish_int_load_def goldfish_int_save_def GOLDFISH_INT_SAVE_VERSION_def stream_get goldfish_int_fields_def)

lemma rtc_load_save:
  "goldfish_rtc_load \<lparr>rs_bytes = goldfish_rtc_save s @ bs, rs_error = e\<rparr> t 1 =
     (0, t\<lparr>rtc_now := rtc_now s\<rparr>, \<lparr>rs_bytes = bs, rs_error = e\<rparr>)"
  by (simp add: goldfish_rtc_load_def goldfish_rtc_save_def GOLDFISH_RTC_SAVE_VERSION_def stream_get)

lemma mmc_load_save:
  "goldfish_mmc_load \<lparr>rs_bytes = goldfish_mmc_save s @ bs, rs_error = e\<rparr> t 3 =
     (0, s\<lparr>c_dev := c_dev t\<rparr>, \<lparr>rs_bytes = bs, rs_error = e\<rparr>)"
  by (simp add: goldfish_mmc_load_def goldfish_mmc_save_def GOLDFISH_MMC_SAVE_VERSION_def stream_get goldfish_mmc_fields_def)

lemma battery_load_save:
  "goldfish_battery_load \<lparr>rs_bytes = goldfish_battery_save s @ bs, rs_error = e\<rparr> t 1 =
     (0, s\<lparr>b_dev := b_dev t, b_hw_has_battery := b_hw_has_battery t\<rparr>, \<lparr>rs_bytes = bs, rs_error = e\<rparr>)"
  by (simp add: goldfish_battery_load_def goldfish_battery_save_def BATTERY_STATE_SAVE_VERSION_def stream_get
      goldfish_battery_fields_def)

lemma events_bytes:
  "length (events_to_bytes es) = 4 * MAX_EVENTS"
  "events_of_bytes es' (events_to_bytes es) = (\<lambda>i. if i < MAX_EVENTS then es i else es' i)"
proof -
  have n: "events_to_bytes es ! (4 * i + j) = le32_byte (es i) j" if "i < MAX_EVENTS" "j < 4" for i j
    using that by (simp add: events_to_bytes_def)
  show "events_of_bytes es' (events_to_bytes es) = (\<lambda>i. if i < MAX_EVENTS then es i else es' i)"
    using n [of _ 0] n [of _ 1] n [of _ 2] n [of _ 3]
    by (simp add: events_of_bytes_def fun_eq_iff le32_bytes [simplified])
qed (simp add: events_to_bytes_def)

lemma events_load_save:
  "events_state_load \<lparr>rs_bytes = events_state_save s @ bs, rs_error = e\<rparr> t 2 =
     (0, restored_events s t, \<lparr>rs_bytes = bs, rs_error = e\<rparr>)"
  by (simp add: events_state_load_def events_state_save_def EVENTS_STATE_SAVE_VERSION_def stream_get events_state_fields_def
      events_bytes restored_events_def)

lemma tty_load_save:
  assumes "tty_ok s" and "t_ready s \<le> 1"
  shows "goldfish_tty_load \<lparr>rs_bytes = goldfish_tty_save s @ bs, rs_error = e\<rparr> t GOLDFISH_TTY_SAVE_VERSION =
    Inr (0, restored_tty s t, \<lparr>rs_bytes = bs, rs_error = e\<rparr>)"
proof -
  have c: "unat (t_data_count s) \<le> 128" using assms(1) by (simp add: tty_ok_def TTY_DATA_SIZE_def)
  have u: "unat (ucast (t_data_count s) :: u8) = unat (t_data_count s)"
    using c by (simp add: unsigned_ucast_eq take_bit_eq_mod)
  have w: "ucast (ucast (t_data_count s) :: u8) = t_data_count s"
    using c by (simp add: word_unat_eq_iff unsigned_ucast_eq take_bit_eq_mod unat_mod_distrib)
  have r: "ucast (ucast (t_ready s) :: u8) = t_ready s"
    using assms(2) by (simp add: word_unat_eq_iff word_le_nat_alt unsigned_ucast_eq take_bit_eq_mod unat_mod_distrib)
  show ?thesis
    using c u w r
    by (simp add: goldfish_tty_load_def goldfish_tty_save_def stream_get get_buffer_append [where xs = "window _ _ _"] restored_tty_def tty_queue_def
        TTY_DATA_SIZE_def Let_def)
qed

lemma timer_load_save:
  assumes "snapshot_ok m t"
  shows "load_timer \<lparr>rs_bytes = save_timer m @ bs, rs_error = e\<rparr> t 1 =
    Inr (0, t\<lparr>m_timer := restored_timer m t\<rparr>, \<lparr>rs_bytes = bs, rs_error = e\<rparr>)"
proof -
  consider "tm_armed (m_timer m) = 0" | "tm_armed (m_timer m) = 1"
    using assms by (auto simp: snapshot_ok_def word_le_nat_alt word_unat_eq_iff le_Suc_eq)
  then show ?thesis
    by cases (use assms in \<open>auto simp: load_timer_def save_timer_def goldfish_timer_load_def goldfish_timer_save_def stream_get
      GOLDFISH_TIMER_SAVE_VERSION_def restored_timer_def snapshot_ok_def drive_lines_def not_le\<close>)
qed

section \<open>The machine meets the contract\<close>

lemma entry_simps [simp]:
  "se_idstr (entry name v k save load) = cstr name" "se_instance_id (entry name v k save load) = 0"
  "se_version_id (entry name v k save load) = v"
  "state_bytes (entry name v k save load) m = save m" "vmstate_load (entry name v k save load) = load"
  by (simp_all add: entry_def state_bytes_def vmstate_save_def vmstate_load_def fun_eq_iff)

lemma char_byte [simp]: "char_of (unat (word_of_nat (of_char c) :: u8)) = c"
  by (simp add: unat_of_nat)

lemma cstr_inject [simp]: "cstr a = cstr b \<longleftrightarrow> a = b"
proof
  assume "cstr a = cstr b"
  then have "map (\<lambda>w. char_of (unat w)) (cstr a) = map (\<lambda>w. char_of (unat w)) (cstr b)" by simp
  then show "a = b" by (simp add: cstr_def comp_def)
qed simp

text \<open>The name of an entry, read back from its bytes.\<close>

definition entry_name :: "'m SaveStateEntry \<Rightarrow> string" where
  "entry_name se = map (\<lambda>b. char_of (unat b)) (se_idstr se)"

lemma entry_name_entry [simp]: "entry_name (entry name v k save load) = name"
  by (simp add: entry_name_def cstr_def comp_def)

lemma se_matches_entry: "se_matches (cstr name) 0 (entry name' v k save load) \<longleftrightarrow> name' = name"
  by (auto simp: se_matches_def entry_def)

lemma find_se_entry:
  "find_se (cstr name) 0 (entry name' v k save load # hs) =
     (if name' = name then Some (entry name' v k save load) else find_se (cstr name) 0 hs)"
  by (simp add: find_se_def se_matches_entry)

lemma plain_entry_entry:
  "plain_entry (entry name v k save load) \<longleftrightarrow> length name < 256 \<and> CHR 0x00 \<notin> set name \<and> 0 \<le> v \<and> v < 2 ^ 31"
proof -
  have "word_of_nat (of_char c) = (0 :: u8) \<longleftrightarrow> c = CHR 0x00" for c
  proof
    assume "word_of_nat (of_char c) = (0 :: u8)"
    then have "c = char_of (unat (0 :: u8))" by (metis char_byte)
    then show "c = CHR 0x00" by (simp add: char_of_def)
  qed simp
  then show ?thesis
    by (auto simp: plain_entry_def entry_def live_saver_def vmstate_save_def cstr_def image_iff)
qed

interpretation machine_vm: vm_snapshot machine_handlers snapshot_ok "\<lambda>se. restored_part (entry_name se)"
proof unfold_locales
  show "list_all plain_entry machine_handlers"
    by (simp add: machine_handlers_eq plain_entry_entry GOLDFISH_TTY_SAVE_VERSION_def)
next
  fix se assume "se \<in> set machine_handlers"
  then show "find_se (se_idstr se) (se_instance_id se) machine_handlers = Some se"
    unfolding machine_handlers_eq list.set insert_iff empty_iff by (elim disjE FalseE) (simp_all add: find_se_entry)
next
  fix se m t bs e assume "se \<in> set machine_handlers" and ok: "snapshot_ok m t"
  then show "vmstate_load se \<lparr>rs_bytes = state_bytes se m @ bs, rs_error = e\<rparr> t (se_version_id se) =
      Inr (0, restored_part (entry_name se) m t, \<lparr>rs_bytes = bs, rs_error = e\<rparr>)"
    unfolding machine_handlers_eq list.set insert_iff empty_iff
    by (elim disjE FalseE) (simp_all add: restored_part_def load_of_def save_of_def int_load_save rtc_load_save mmc_load_save
        battery_load_save events_load_save timer_load_save [OF ok] load_tty_def tty_load_save [of "m_tty m"]
        snapshot_ok_def)
next
  fix se m t assume "snapshot_ok m t"
  then show "snapshot_ok m (restored_part (entry_name se) m t)"
    by (simp add: snapshot_ok_def restored_part_def)
qed

section \<open>Properties\<close>

text \<open>What a machine has after the snapshot of another one was loaded into it.\<close>

definition restored_machine :: "machine \<Rightarrow> machine \<Rightarrow> machine" where
  "restored_machine m t = t\<lparr>m_int := m_int m, m_timer := restored_timer m t,
     m_rtc := (m_rtc t)\<lparr>rtc_now := rtc_now (m_rtc m)\<rparr>, m_tty := restored_tty (m_tty m) (m_tty t),
     m_mmc := (m_mmc m)\<lparr>c_dev := c_dev (m_mmc t)\<rparr>,
     m_battery := (m_battery m)\<lparr>b_dev := b_dev (m_battery t), b_hw_has_battery := b_hw_has_battery (m_battery t)\<rparr>,
     m_events := restored_events (m_events m) (m_events t)\<rparr>"

lemma fold_restored: "fold (\<lambda>se. restored_part (entry_name se) m) machine_handlers t = restored_machine m t"
  by (simp add: machine_handlers_eq restored_part_def restored_machine_def restored_timer_def Let_def)

text \<open>C1: Snapshots of the machine. Let the flags \<open>armed\<close> of the timer and \<open>ready\<close> of the serial port be 0 or 1, let the serial port hold at most its 128 bytes, and if the
  timer is armed, let its alarm lie in the future of the clock of the machine that loads. Saving the machine writes a file, through the buffered file layer, and
  succeeds. Loading that file into another machine of the board, whose handlers are found by name and instance, consumes the whole file, returns
  success and gives exactly the following machine. The interrupt controller, the SD card controller and the battery have all their saved registers, and the serial port its registers
  and its unread input; the input device has its events in order, its page and its reading state. The timer has its latched time and its armed flag and, when it was armed, fires at
  the same distance from now; its two alarm registers are not part of the snapshot and stay those of the loading machine, and when the
  saved timer was not armed, a timer pending in the loading machine stays pending. Of the clock device only the latched time is restored, not its alarm. The
  devices keep their place on the bus of the loading machine, which also decides whether there is a battery at all.\<close>

theorem machine_snapshot_roundtrip:
  assumes "snapshot_ok m t"
  shows "\<exists>f. qemu_savevm_state stdio_file_write_ops machine_handlers running m (qemu_fopen_ops []) = Some (0, m, f, running) \<and>
    qemu_loadvm_state machine_handlers t \<lparr>rs_bytes = f_opaque f, rs_error = 0\<rparr> =
      Some (Inr (0, restored_machine m t, \<lparr>rs_bytes = [], rs_error = 0\<rparr>)) \<and>
    tty_queue (m_tty (restored_machine m t)) = tty_queue (m_tty m) \<and>
    ev_queue (m_events (restored_machine m t)) = ev_queue (m_events m)"
proof -
  have q: "tty_queue (restored_tty s u) = tty_queue s" for s u
    using window_blit_same [of "t_data u" 0 "tty_queue s"] by (simp add: restored_tty_def tty_queue_def)
  have ev: "ev_queue (restored_events s u) = ev_queue s" for s u
    by (simp add: restored_events_def ev_queue_def ring_len_def MAX_EVENTS_def)
  obtain f where f: "qemu_savevm_state stdio_file_write_ops machine_handlers running m (qemu_fopen_ops []) = Some (0, m, f, running)"
    "f_opaque f = vm_bytes machine_handlers m"
    using savevm_bytes [OF machine_vm.plain] by blast
  then show ?thesis
    using machine_vm.loadvm_savevm [OF assms, of "[]"] q ev by (auto simp: fold_restored restored_machine_def)
qed

theorem machine_snapshot_roundtrip_witness:
  "\<exists>m0 f. android_arm_init sample_board sample_hw True True = Inr m0 \<and>
     (let m = m0\<lparr>m_clock := 100, m_timer := (m_timer m0)\<lparr>tm_alarm_low_ns := 150, tm_armed := 1\<rparr>\<rparr> in
      qemu_savevm_state stdio_file_write_ops machine_handlers True m (qemu_fopen_ops []) = Some (0, m, f, True) \<and>
      (\<exists>t. qemu_loadvm_state machine_handlers m0 \<lparr>rs_bytes = f_opaque f, rs_error = 0\<rparr> =
         Some (Inr (0, t, \<lparr>rs_bytes = [], rs_error = 0\<rparr>)) \<and> tm_timer (m_timer t) = Some 50))"
proof -
  obtain m0 where m0: "android_arm_init sample_board sample_hw True True = Inr m0"
      "m_tty m0 = goldfish_tty_add True 0 0xff002000 4" "m_timer m0 = initial_timer 0xff003000 3" "m_clock m0 = 0"
    using sample_board_starts by (auto simp: android_arm_init_def Let_def res_simps)
  let ?m = "m0\<lparr>m_clock := 100, m_timer := (m_timer m0)\<lparr>tm_alarm_low_ns := 150, tm_armed := 1\<rparr>\<rparr>"
  have ok: "snapshot_ok ?m m0"
    by (simp add: snapshot_ok_def m0(2-4) initial_timer_def goldfish_tty_add_def tty_ok_def alarm_ns_def)
  have "tm_timer (m_timer (restored_machine ?m m0)) = Some 50"
    by (simp add: restored_machine_def restored_timer_def m0(3,4) initial_timer_def alarm_ns_def Let_def)
  then show ?thesis using machine_snapshot_roundtrip [OF ok, of True] m0(1) unfolding Let_def by metis
qed

end
