(* ===== verification/Nand_Config.thy ===== *)
theory Nand_Config
  imports Goldfish_Device C_String
begin

text \<open>
  The configuration of the NAND images: the option strings that \<open>android_add_nand_image\<close> (\<open>vl-android.c\<close>)
  builds and \<open>nand_add_dev\<close> (\<open>hw/android/goldfish/nand.c\<close>) takes apart, with the escaping of file names
  (\<open>android/utils/path.cpp\<close>), and the limits on the number of bytes read and written
  (\<open>android/emulation/nand_limits.c\<close>). A C string is the list of its characters, without the final zero.
\<close>

section \<open>Escaped file names\<close>

fun path_escape_path :: "string \<Rightarrow> string" where
  "path_escape_path [] = []"
| "path_escape_path (c # src) =
     (if c = CHR ''='' then ''%E''
      else if c = CHR '','' then ''%C''
      else if c = CHR ''%'' then ''%P''
      else [c]) @ path_escape_path src"

fun path_unescape_path :: "string \<Rightarrow> string" where
  "path_unescape_path [] = []"
| "path_unescape_path (c # src) =
     (if c \<noteq> CHR ''%'' then c # path_unescape_path src
      else case src of
             [] \<Rightarrow> []
           | d # src' \<Rightarrow>
               if d = CHR ''C'' then CHR '','' # path_unescape_path src'
               else if d = CHR ''E'' then CHR ''='' # path_unescape_path src'
               else if d = CHR ''P'' then CHR ''%'' # path_unescape_path src'
               else path_unescape_path src)"

section \<open>The options of an image\<close>

text \<open>\<open>b_len\<close> has the type \<open>size_t\<close>: the decrement of a zero ends the loop and wraps around, so the result is false.\<close>

fun arg_match :: "string \<Rightarrow> string \<Rightarrow> nat \<Rightarrow> bool" where
  "arg_match [] b b_len \<longleftrightarrow> b_len = 0"
| "arg_match (c # a) b 0 \<longleftrightarrow> False"
| "arg_match (c # a) [] (Suc b_len) \<longleftrightarrow> False"
| "arg_match (c # a) (d # b) (Suc b_len) \<longleftrightarrow> c = d \<and> arg_match a b b_len"

record nand_args =
  na_devname :: "string option"
  na_dev_size :: u64
  na_page_size :: u32
  na_extra_size :: u32
  na_erase_pages :: u32
  na_rwfilename :: "string option"
  na_read_only :: bool

definition initial_nand_args :: nand_args where
  "initial_nand_args = \<lparr>na_devname = None, na_dev_size = 0, na_page_size = 2048, na_extra_size = 64, na_erase_pages = 64,
     na_rwfilename = None, na_read_only = False\<rparr>"

text \<open>A number that takes the whole value, or the exit for a bad argument. The string goes on after the value.\<close>

definition number_value :: "string \<Rightarrow> nat \<Rightarrow> u64 res" where
  "number_value value value_len =
     (let (v, ep) = strtoull 0 value
      in if length value - length ep \<noteq> value_len then Inl Exit_Failure else Inr v)"

definition nand_arg :: "string \<Rightarrow> (string \<times> nat) option \<Rightarrow> nand_args \<Rightarrow> nand_args res" where
  "nand_arg arg value a =
     (case na_devname a of
        None \<Rightarrow> (case value of None \<Rightarrow> Inr (a\<lparr>na_devname := Some arg\<rparr>) | Some _ \<Rightarrow> Inl Exit_Failure)
      | Some _ \<Rightarrow>
          (case value of
             None \<Rightarrow> if arg_match ''readonly'' arg (length arg) then Inr (a\<lparr>na_read_only := True\<rparr>) else Inl Exit_Failure
           | Some (v, len) \<Rightarrow>
               if arg_match ''size'' arg (length arg) then
                 res_bind (number_value v len) (\<lambda>n. Inr (a\<lparr>na_dev_size := n\<rparr>))
               else if arg_match ''pagesize'' arg (length arg) then
                 res_bind (number_value v len) (\<lambda>n. Inr (a\<lparr>na_page_size := ucast n\<rparr>))
               else if arg_match ''extrasize'' arg (length arg) then
                 res_bind (number_value v len) (\<lambda>n. Inr (a\<lparr>na_extra_size := ucast n\<rparr>))
               else if arg_match ''erasepages'' arg (length arg) then
                 res_bind (number_value v len) (\<lambda>n. Inr (a\<lparr>na_erase_pages := ucast n\<rparr>))
               else if arg_match ''file'' arg (length arg) then
                 Inr (a\<lparr>na_rwfilename := Some (path_unescape_path (take len v))\<rparr>)
               else Inl Exit_Failure))"

text \<open>The loop over the arguments.\<close>

function nand_parse_args :: "string \<Rightarrow> nand_args \<Rightarrow> nand_args res" where
  "nand_parse_args arg a =
     (let item = takeWhile (\<lambda>c. c \<noteq> CHR '','') arg;
          name = takeWhile (\<lambda>c. c \<noteq> CHR ''='') item;
          value = (if CHR ''='' \<in> set item
                   then Some (drop (Suc (length name)) arg, length item - length name - 1) else None)
      in res_bind (nand_arg name value a) (\<lambda>a'.
           if CHR '','' \<in> set arg then nand_parse_args (drop (Suc (length item)) arg) a' else Inr a'))"
  by pat_completeness auto
termination
  by (relation "measure (\<lambda>(arg, a). length arg)") (auto, metis diff_less length_pos_if_in_set zero_less_Suc)

declare nand_parse_args.simps [simp del]

section \<open>Adding an image\<close>

text \<open>
  An open file of the host: its bytes, the file position, whether it was opened for writing, and the size the host
  file system lets it grow to. \<open>nd_file\<close> is \<open>None\<close> for a negative file descriptor.
\<close>

record nand_file =
  nf_bytes :: "u8 list"
  nf_pos :: nat
  nf_writable :: bool
  nf_limit :: nat

record nand_dev =
  nd_devname :: string
  nd_data :: "nat \<Rightarrow> u8"
  nd_file :: "nand_file option"
  nd_flags :: u32
  nd_page_size :: u32
  nd_extra_size :: u32
  nd_erase_size :: u32
  nd_max_size :: u64

definition NAND_DEV_FLAG_READ_ONLY :: u32 where "NAND_DEV_FLAG_READ_ONLY = 1"
definition NAND_DEV_FLAG_BATCH_CAP :: u32 where "NAND_DEV_FLAG_BATCH_CAP = 2"

text \<open>The size of the image, rounded up to full erase units.\<close>

definition round_dev_size :: "u64 \<Rightarrow> u32 \<Rightarrow> u64 res" where
  "round_dev_size dev_size erase_size =
     (if erase_size = 0 then Inl Undefined
      else let pad = (ucast (dev_size mod ucast erase_size) :: u32)
           in Inr (if pad \<noteq> 0 then dev_size + ucast (erase_size - pad) else dev_size))"

text \<open>\<open>open_file\<close> opens a file of the host, for reading only or for reading and writing; \<open>junk\<close> is the memory the buffer of
  an erase unit is allocated in.\<close>

definition nand_add_dev ::
  "target \<Rightarrow> (string \<Rightarrow> bool \<Rightarrow> nand_file option) \<Rightarrow> (nat \<Rightarrow> u8) \<Rightarrow> string \<Rightarrow> nand_dev list \<Rightarrow> nand_dev list res" where
  "nand_add_dev t open_file junk arg nand_devs =
     res_bind (nand_parse_args arg initial_nand_args) (\<lambda>a.
       case na_rwfilename a of
         None \<Rightarrow> Inl Exit_Failure
       | Some rwfilename \<Rightarrow>
           if na_dev_size a = 0 then Inl Exit_Failure
           else let erase_size = na_erase_pages a * (na_page_size a + na_extra_size a)
                in res_bind (round_dev_size (na_dev_size a) erase_size) (\<lambda>dev_size.
                     case open_file rwfilename (na_read_only a) of
                       None \<Rightarrow> Inl Exit_Failure
                     | Some fd \<Rightarrow>
                         Inr (nand_devs @ [\<lparr>nd_devname = (case na_devname a of Some n \<Rightarrow> n | None \<Rightarrow> []), nd_data = junk,
                           nd_file = Some fd,
                           nd_flags = (case t of Target_I386 \<Rightarrow> NAND_DEV_FLAG_BATCH_CAP | Target_ARM_MIPS \<Rightarrow> 0),
                           nd_page_size = na_page_size a, nd_extra_size = na_extra_size a, nd_erase_size = erase_size,
                           nd_max_size = dev_size\<rparr>])))"

text \<open>The option string of a partition. The buffer holds \<open>2 * PATH_MAX\<close> characters and the final zero.\<close>

definition PATH_MAX :: nat where "PATH_MAX = 4096"

definition pstrcat_path :: "string \<Rightarrow> string \<Rightarrow> string" where
  "pstrcat_path buf s = take (PATH_MAX * 2) (buf @ s)"

definition nand_image_args :: "string \<Rightarrow> u64 \<Rightarrow> string \<Rightarrow> bool \<Rightarrow> bool \<Rightarrow> string" where
  "nand_image_args part_name part_size part_file ext4 readonly =
     (let tmp0 = take (PATH_MAX * 2) (part_name @ '',size=0x'' @ show_hex (unat part_size));
          tmp1 = pstrcat_path (pstrcat_path tmp0 '',file='') (path_escape_path part_file);
          tmp2 = (if ext4 then pstrcat_path tmp1 '',pagesize=512,extrasize=0'' else tmp1)
      in if readonly then pstrcat_path tmp2 '',readonly'' else tmp2)"

definition android_add_nand_image ::
  "target \<Rightarrow> (string \<Rightarrow> bool \<Rightarrow> nand_file option) \<Rightarrow> (nat \<Rightarrow> u8) \<Rightarrow> string \<Rightarrow> u64 \<Rightarrow> string \<Rightarrow> bool \<Rightarrow> bool \<Rightarrow>
   nand_dev list \<Rightarrow> nand_dev list res" where
  "android_add_nand_image t open_file junk part_name part_size part_file ext4 readonly nand_devs =
     nand_add_dev t open_file junk (nand_image_args part_name part_size part_file ext4 readonly) nand_devs"

section \<open>Limits\<close>

record AndroidNandLimit =
  nl_limit :: u64
  nl_counter :: u64
  nl_pid :: int
  nl_signal :: int

definition ANDROID_NAND_LIMIT_INIT :: AndroidNandLimit where
  "ANDROID_NAND_LIMIT_INIT = \<lparr>nl_limit = 0, nl_counter = 0, nl_pid = - 1, nl_signal = - 1\<rparr>"

text \<open>The result is the limit and the calls of \<open>kill\<close>, as pairs of a process and a signal.\<close>

definition android_nand_limit_update :: "AndroidNandLimit \<Rightarrow> u32 \<Rightarrow> AndroidNandLimit \<times> (int \<times> int) list" where
  "android_nand_limit_update l count =
     (if nl_limit l \<le> nl_counter l then (l, [])
      else let avail0 = nl_limit l - nl_counter l;
               avail = (if ucast count < avail0 then ucast count else avail0);
               l' = l\<lparr>nl_counter := nl_counter l + avail\<rparr>
           in (l', if nl_limit l' \<le> nl_counter l' then [(nl_pid l, nl_signal l)] else []))"

definition parse_nand_rw_limit :: "string \<Rightarrow> u64 option" where
  "parse_nand_rw_limit value =
     (let (v, end) = strtoull 0 value
      in if end = value then None
         else case end of
                [] \<Rightarrow> Some v
              | c # _ \<Rightarrow> if c = CHR ''K'' then Some (push_bit 10 v)
                        else if c = CHR ''M'' then Some (push_bit 20 v)
                        else if c = CHR ''G'' then Some (push_bit 30 v)
                        else if c = CHR '','' then Some v else None)"

record nand_limit_args =
  la_pid :: int
  la_signal :: int
  la_reads :: u64
  la_writes :: u64

text \<open>A number that ends at the comma, as an \<open>int\<close>.\<close>

definition int_value :: "string \<Rightarrow> int option" where
  "int_value value =
     (let (v, end) = strtol 10 value; n = sint (word_of_int v :: u32)
      in if end \<noteq> dropWhile (\<lambda>c. c \<noteq> CHR '','') value then None else if n \<le> 0 then None else Some n)"

definition nand_limit_item :: "string \<Rightarrow> nand_limit_args \<Rightarrow> nand_limit_args option" where
  "nand_limit_item item a =
     (if take 4 item = ''pid='' then map_option (\<lambda>n. a\<lparr>la_pid := n\<rparr>) (int_value (drop 4 item))
      else if take 7 item = ''signal='' then map_option (\<lambda>n. a\<lparr>la_signal := n\<rparr>) (int_value (drop 7 item))
      else if take 6 item = ''reads='' then map_option (\<lambda>v. a\<lparr>la_reads := v\<rparr>) (parse_nand_rw_limit (drop 6 item))
      else if take 7 item = ''writes='' then map_option (\<lambda>v. a\<lparr>la_writes := v\<rparr>) (parse_nand_rw_limit (drop 7 item))
      else None)"

function nand_limit_items :: "string \<Rightarrow> nand_limit_args \<Rightarrow> nand_limit_args option" where
  "nand_limit_items item a =
     (if item = [] then Some a
      else case nand_limit_item item a of
             None \<Rightarrow> None
           | Some a' \<Rightarrow> nand_limit_items (drop 1 (dropWhile (\<lambda>c. c \<noteq> CHR '','') item)) a')"
  by pat_completeness auto
termination
proof (relation "measure (\<lambda>(item, a). length item)", goal_cases)
  case (2 item a a')
  have "0 < length item" using 2(1) by simp
  then have "length (drop 1 (dropWhile (\<lambda>c. c \<noteq> CHR '','') item)) < length item"
    using length_dropWhile_le [of "\<lambda>c. c \<noteq> CHR '',''" item] unfolding length_drop by linarith
  then show ?case by simp
qed simp

declare nand_limit_items.simps [simp del]

definition android_nand_limits_parse :: "string \<Rightarrow> (AndroidNandLimit \<times> AndroidNandLimit) option" where
  "android_nand_limits_parse limits =
     (case nand_limit_items limits \<lparr>la_pid = - 1, la_signal = - 1, la_reads = 0, la_writes = 0\<rparr> of
        None \<Rightarrow> None
      | Some a \<Rightarrow>
          if la_pid a < 0 then None
          else if la_signal a < 0 then None
          else if la_reads a = 0 \<and> la_writes a = 0 then None
          else Some (\<lparr>nl_limit = la_reads a, nl_counter = 0, nl_pid = la_pid a, nl_signal = la_signal a\<rparr>,
                     \<lparr>nl_limit = la_writes a, nl_counter = 0, nl_pid = la_pid a, nl_signal = la_signal a\<rparr>))"

text \<open>The two counters of \<open>nand.c\<close>. Both the parser and the macros that count take the other variable than their
  names say.\<close>

record nand_limits =
  nand_read_limit :: AndroidNandLimit
  nand_write_limit :: AndroidNandLimit

definition nand_parse_limits :: "string \<Rightarrow> nand_limits \<Rightarrow> nand_limits" where
  "nand_parse_limits limits l =
     (case android_nand_limits_parse limits of
        None \<Rightarrow> l
      | Some (r, w) \<Rightarrow> l\<lparr>nand_write_limit := r, nand_read_limit := w\<rparr>)"

definition NAND_UPDATE_READ_THRESHOLD :: "u32 \<Rightarrow> nand_limits \<Rightarrow> nand_limits \<times> (int \<times> int) list" where
  "NAND_UPDATE_READ_THRESHOLD len l =
     (let (w, ks) = android_nand_limit_update (nand_write_limit l) len in (l\<lparr>nand_write_limit := w\<rparr>, ks))"

definition NAND_UPDATE_WRITE_THRESHOLD :: "u32 \<Rightarrow> nand_limits \<Rightarrow> nand_limits \<times> (int \<times> int) list" where
  "NAND_UPDATE_WRITE_THRESHOLD len l =
     (let (r, ks) = android_nand_limit_update (nand_read_limit l) len in (l\<lparr>nand_read_limit := r\<rparr>, ks))"

section \<open>Escaping\<close>

lemma unescape_escape: "path_unescape_path (path_escape_path p) = p"
  by (induction p) auto

lemma escape_clean: "CHR '','' \<notin> set (path_escape_path p)" "CHR ''='' \<notin> set (path_escape_path p)"
  by (induction p) auto

lemma length_escape: "length (path_escape_path p) \<le> 2 * length p"
  by (induction p) auto

section \<open>Parsing what was printed\<close>

lemma arg_match_iff: "arg_match a b (length b) \<longleftrightarrow> a = b"
  by (induction a b "length b" rule: arg_match.induct) auto

definition item_end :: "string \<Rightarrow> bool" where
  "item_end t \<longleftrightarrow> t = [] \<or> hd t = CHR '',''"

lemma scan_stops: "item_end t \<Longrightarrow> scan_digits base n t = (n, t)" if "base \<le> 16"
  using that by (cases t) (auto simp: item_end_def digit_value_def)

lemma number_value_hex:
  assumes "n < 2 ^ 64" and "item_end t"
  shows "number_value (''0x'' @ show_hex n @ t) (2 + length (show_hex n)) = Inr (word_of_nat n)"
proof -
  have "scan_number 0 (''0x'' @ show_hex n @ t) = Some (False, n, t)"
    using starts_hex [of n t] scan_hex [of n t] scan_stops [of 16 t n] assms(2)
    by (simp add: scan_number_def is_space_def skip_sign_def number_base_def)
  then show ?thesis using assms(1) by (simp add: number_value_def strtoull_def)
qed

lemma number_value_512: "item_end t \<Longrightarrow> number_value (''512'' @ t) (length ''512'') = Inr 512"
  using scan_stops [of 10 t 512]
  by (simp add: number_value_def strtoull_def scan_number_def is_space_def skip_sign_def number_base_def
      starts_digit_def digit_value_def)

lemma number_value_0: "item_end t \<Longrightarrow> number_value (''0'' @ t) (length ''0'') = Inr 0"
  using scan_stops [of 8 t 0]
  by (cases t) (auto simp: number_value_def strtoull_def scan_number_def is_space_def skip_sign_def number_base_def
      starts_digit_def digit_value_def item_end_def)

text \<open>What follows an argument: nothing, or a comma and the next one.\<close>

definition parse_rest :: "string \<Rightarrow> nand_args \<Rightarrow> nand_args res" where
  "parse_rest t a = (case t of [] \<Rightarrow> Inr a | _ # rest \<Rightarrow> nand_parse_args rest a)"

lemma split_item:
  assumes "CHR '','' \<notin> set item" and "item_end t"
  shows "takeWhile (\<lambda>c. c \<noteq> CHR '','') (item @ t) = item" and "CHR '','' \<in> set (item @ t) \<longleftrightarrow> t \<noteq> []"
  using assms by (cases t; force simp: item_end_def takeWhile_append)+

lemma parse_item:
  assumes "CHR '','' \<notin> set item" and "item_end t"
  shows "nand_parse_args (item @ t) a =
    res_bind (nand_arg (takeWhile (\<lambda>c. c \<noteq> CHR ''='') item)
      (if CHR ''='' \<in> set item
       then Some (drop (Suc (length (takeWhile (\<lambda>c. c \<noteq> CHR ''='') item))) (item @ t),
                  length item - length (takeWhile (\<lambda>c. c \<noteq> CHR ''='') item) - 1) else None) a) (parse_rest t)"
  unfolding nand_parse_args.simps [of "item @ t"] Let_def split_item [OF assms]
  by (rule res_bind_cong) (auto simp: parse_rest_def split: list.splits)

lemma parse_plain:
  assumes "CHR '','' \<notin> set name" and "CHR ''='' \<notin> set name" and "item_end t"
  shows "nand_parse_args (name @ t) a = res_bind (nand_arg name None a) (parse_rest t)"
proof -
  have w: "takeWhile (\<lambda>c. c \<noteq> CHR ''='') name = name" using assms(2) by (auto simp: takeWhile_eq_all_conv)
  show ?thesis using parse_item [OF assms(1,3), of a] assms(2) unfolding w by simp
qed

lemma parse_value:
  assumes "CHR '','' \<notin> set name" and "CHR ''='' \<notin> set name" and "CHR '','' \<notin> set v" and "item_end t"
  shows "nand_parse_args (name @ CHR ''='' # v @ t) a = res_bind (nand_arg name (Some (v @ t, length v)) a) (parse_rest t)"
proof -
  have "takeWhile (\<lambda>c. c \<noteq> CHR ''='') (name @ CHR ''='' # v) = name"
    using assms(2) by (auto simp: takeWhile_append takeWhile_eq_all_conv)
  then show ?thesis using parse_item [of "name @ CHR ''='' # v" t a] assms(1,3,4) by simp
qed

lemma parse_rest_Nil [simp]: "parse_rest [] a = Inr a"
  by (simp add: parse_rest_def)

lemma parse_rest_Cons [simp]: "parse_rest (c # t) a = nand_parse_args t a"
  by (simp add: parse_rest_def)

lemma nand_arg_simps:
  "na_devname a = None \<Longrightarrow> nand_arg name None a = Inr (a\<lparr>na_devname := Some name\<rparr>)"
  "na_devname a = Some n \<Longrightarrow> nand_arg ''readonly'' None a = Inr (a\<lparr>na_read_only := True\<rparr>)"
  "na_devname a = Some n \<Longrightarrow> number_value v k = Inr x \<Longrightarrow> nand_arg ''size'' (Some (v, k)) a = Inr (a\<lparr>na_dev_size := x\<rparr>)"
  "na_devname a = Some n \<Longrightarrow> number_value v k = Inr x \<Longrightarrow>
     nand_arg ''pagesize'' (Some (v, k)) a = Inr (a\<lparr>na_page_size := ucast x\<rparr>)"
  "na_devname a = Some n \<Longrightarrow> number_value v k = Inr x \<Longrightarrow>
     nand_arg ''extrasize'' (Some (v, k)) a = Inr (a\<lparr>na_extra_size := ucast x\<rparr>)"
  "na_devname a = Some n \<Longrightarrow>
     nand_arg ''file'' (Some (v, k)) a = Inr (a\<lparr>na_rwfilename := Some (path_unescape_path (take k v))\<rparr>)"
  unfolding nand_arg_def arg_match_iff by simp_all

lemma parse_readonly:
  assumes "na_devname a = Some n"
  shows "parse_rest (if readonly then '',readonly'' else []) a = Inr (if readonly then a\<lparr>na_read_only := True\<rparr> else a)"
  using parse_plain [of "''readonly''" "[]" a] assms by (simp add: item_end_def nand_arg_simps)

lemma parse_ext4:
  assumes "na_devname a = Some n" and "item_end t"
  shows "parse_rest (if ext4 then '',pagesize=512,extrasize=0'' @ t else t) a =
    parse_rest t (if ext4 then a\<lparr>na_page_size := 512, na_extra_size := 0\<rparr> else a)"
proof -
  let ?t = "'',extrasize=0'' @ t"
  have e: "item_end ?t" by (simp add: item_end_def)
  have "nand_parse_args (''pagesize'' @ CHR ''='' # ''512'' @ ?t) a = parse_rest ?t (a\<lparr>na_page_size := 512\<rparr>)"
    using parse_value [of "''pagesize''" "''512''" ?t a] nand_arg_simps(4) [OF assms(1) number_value_512 [OF e]] e by simp
  moreover have "nand_parse_args (''extrasize'' @ CHR ''='' # ''0'' @ t) (a\<lparr>na_page_size := 512\<rparr>) =
      parse_rest t (a\<lparr>na_page_size := 512, na_extra_size := 0\<rparr>)"
    using parse_value [of "''extrasize''" "''0''" t "a\<lparr>na_page_size := 512\<rparr>"]
      nand_arg_simps(5) [of "a\<lparr>na_page_size := 512\<rparr>", OF _ number_value_0 [OF assms(2)]] assms by simp
  ultimately show ?thesis by simp
qed

lemma parse_image_args:
  assumes "CHR '','' \<notin> set name" and "CHR ''='' \<notin> set name" and "sz < 2 ^ 64"
  shows "nand_parse_args (name @ '',size=0x'' @ show_hex sz @ '',file='' @ path_escape_path file @
      (if ext4 then '',pagesize=512,extrasize=0'' else []) @ (if readonly then '',readonly'' else [])) initial_nand_args =
    Inr \<lparr>na_devname = Some name, na_dev_size = word_of_nat sz, na_page_size = (if ext4 then 512 else 2048),
      na_extra_size = (if ext4 then 0 else 64), na_erase_pages = 64, na_rwfilename = Some file, na_read_only = readonly\<rparr>"
proof -
  let ?ro = "if readonly then '',readonly'' else []"
  let ?e4 = "if ext4 then '',pagesize=512,extrasize=0'' @ ?ro else ?ro"
  let ?f = "'',file='' @ path_escape_path file @ ?e4"
  let ?s = "'',size=0x'' @ show_hex sz @ ?f"
  define a1 where "a1 = initial_nand_args\<lparr>na_devname := Some name\<rparr>"
  define a2 where "a2 = a1\<lparr>na_dev_size := word_of_nat sz\<rparr>"
  define a3 where "a3 = a2\<lparr>na_rwfilename := Some file\<rparr>"
  have n: "na_devname a1 = Some name" "na_devname a2 = Some name" "na_devname a3 = Some name"
    by (simp_all add: a1_def a2_def a3_def)
  have ends: "item_end ?ro" "item_end ?e4" "item_end ?f" "item_end ?s" by (simp_all add: item_end_def)
  have hex: "CHR '','' \<notin> set (''0x'' @ show_hex sz)"
  proof -
    have "CHR '','' \<notin> set (show_hex k)" for k
      by (induction k rule: show_hex.induct) (subst show_hex.simps, auto dest: arg_cong [of _ _ "of_char :: char \<Rightarrow> nat"])
    then show ?thesis by simp
  qed
  have 1: "nand_parse_args (name @ ?s) initial_nand_args = parse_rest ?s a1"
    using parse_plain [OF assms(1,2) ends(4), of initial_nand_args] nand_arg_simps(1) [of initial_nand_args name]
    by (simp add: a1_def initial_nand_args_def)
  have v: "number_value ((''0x'' @ show_hex sz) @ ?f) (length (''0x'' @ show_hex sz)) = Inr (word_of_nat sz)"
    using number_value_hex [OF assms(3) ends(3)] by simp
  have 2: "nand_parse_args (''size'' @ CHR ''='' # (''0x'' @ show_hex sz) @ ?f) a1 = parse_rest ?f a2"
    using parse_value [OF _ _ hex ends(3), of "''size''" a1] nand_arg_simps(3) [OF n(1) v] by (simp add: a2_def)
  have 3: "nand_parse_args (''file'' @ CHR ''='' # path_escape_path file @ ?e4) a2 = parse_rest ?e4 a3"
    using parse_value [OF _ _ escape_clean(1) [of "file"] ends(2), of "''file''" a2]
      nand_arg_simps(6) [OF n(2), of "path_escape_path file @ ?e4"] by (simp add: a3_def unescape_escape)
  have 4: "parse_rest ?e4 a3 = Inr ((if ext4 then a3\<lparr>na_page_size := 512, na_extra_size := 0\<rparr> else a3)\<lparr>na_read_only := readonly\<rparr>)"
    using parse_ext4 [OF n(3) ends(1), of ext4] n(3)
    by (simp add: parse_readonly del: parse_rest_Cons) (simp add: a3_def a2_def a1_def initial_nand_args_def)
  have "name @ '',size=0x'' @ show_hex sz @ '',file='' @ path_escape_path file @
      (if ext4 then '',pagesize=512,extrasize=0'' else []) @ ?ro = name @ ?s" by simp
  moreover have "parse_rest ?s a1 = parse_rest ?e4 a3" using 2 3 by simp
  ultimately show ?thesis using 1 4 by (simp only:) (simp add: a3_def a2_def a1_def initial_nand_args_def)
qed

section \<open>Rounding to erase units\<close>

lemma round_up:
  assumes "0 < e" and "r = n mod e" and "m = (if r = 0 then n else n + (e - r))"
  shows "e dvd m" and "n \<le> m" and "m < n + (e :: nat)"
proof -
  have r: "r < e" "e dvd n - r" "r \<le> n" using assms(1,2) by (simp_all add: dvd_minus_mod)
  show "e dvd m"
  proof (cases "r = 0")
    case False
    then have "m = (n - r) + e" using assms(3) r by simp
    then show ?thesis using r(2) by (simp only: dvd_add_left_iff dvd_refl)
  qed (use assms in \<open>simp add: mod_eq_0_iff_dvd\<close>)
  show "n \<le> m" "m < n + e" using assms r by auto
qed

lemma round_dev_size_spec:
  assumes "erase_size \<noteq> 0" and "unat dev_size + unat erase_size \<le> 2 ^ 64"
  obtains m where "round_dev_size dev_size erase_size = Inr m" and "unat erase_size dvd unat m"
    and "unat dev_size \<le> unat m" and "unat m < unat dev_size + unat erase_size"
proof -
  define e where "e = unat erase_size"
  define n where "n = unat dev_size"
  define pad :: u32 where "pad = ucast (dev_size mod ucast erase_size)"
  have e: "0 < e" "e < 2 ^ 32" using assms(1) unat_bound [of erase_size] by (simp_all add: e_def unat_gt_0)
  have ue: "unat (ucast erase_size :: u64) = e" by (simp add: e_def unsigned_ucast_eq take_bit_nat_eq_self_iff)
      (use e(2) in \<open>simp add: e_def\<close>)
  have r: "unat pad = n mod e"
  proof -
    have "n mod e < 2 ^ 32" using e by (meson mod_less_divisor order_less_trans)
    then show ?thesis
      using ue by (simp add: pad_def n_def unsigned_ucast_eq take_bit_nat_eq_self unat_mod_distrib)
  qed
  have le: "pad \<le> erase_size" using r e(1) by (simp add: word_le_nat_alt e_def less_imp_le)
  define m where "m = (if pad \<noteq> 0 then dev_size + ucast (erase_size - pad) else dev_size)"
  have u: "unat (ucast (erase_size - pad) :: u64) = e - n mod e"
    using le r e(2) by (simp add: unsigned_ucast_eq take_bit_nat_eq_self unat_sub e_def)
  have "n + (e - n mod e) < 2 ^ 64" if "n mod e \<noteq> 0" using that assms(2) e(1) by (simp add: e_def n_def)
  then have m: "unat m = (if n mod e = 0 then n else n + (e - n mod e))"
    using r u by (auto simp: m_def n_def unat_word_ariths unat_eq_0)
  have "round_dev_size dev_size erase_size = Inr m" using assms(1) by (simp add: round_dev_size_def m_def pad_def Let_def)
  then show ?thesis using that round_up [OF e(1) refl m] by (simp add: e_def n_def)
qed

section \<open>Limits\<close>

fun limit_updates :: "u32 list \<Rightarrow> AndroidNandLimit \<Rightarrow> AndroidNandLimit \<times> (int \<times> int) list" where
  "limit_updates [] l = (l, [])"
| "limit_updates (n # ns) l =
     (let (l1, ks) = android_nand_limit_update l n; (l2, ks') = limit_updates ns l1 in (l2, ks @ ks'))"

lemma limit_updates_done: "nl_limit l \<le> nl_counter l \<Longrightarrow> limit_updates ns l = (l, [])"
  by (induction ns) (simp_all add: android_nand_limit_update_def)

lemma limit_updates_spec:
  assumes "nl_counter l < nl_limit l"
  shows "snd (limit_updates ns l) =
    (if unat (nl_limit l) \<le> unat (nl_counter l) + sum_list (map unat ns) then [(nl_pid l, nl_signal l)] else [])"
  using assms
proof (induction ns arbitrary: l)
  case (Cons n ns)
  let ?avail = "nl_limit l - nl_counter l"
  have a: "unat ?avail = unat (nl_limit l) - unat (nl_counter l)" using Cons.prems by (simp add: unat_sub)
  have n: "unat (ucast n :: u64) = unat n" by (simp add: unsigned_ucast_eq take_bit_nat_eq_self_iff)
      (use unat_bound [of n] in simp)
  show ?case
  proof (cases "ucast n < ?avail")
    case True
    let ?l = "l\<lparr>nl_counter := nl_counter l + ucast n\<rparr>"
    have lt: "unat n < unat (nl_limit l) - unat (nl_counter l)" using True a n by (simp add: word_less_nat_alt)
    then have u: "unat (nl_counter l + ucast n) = unat (nl_counter l) + unat n"
      using n unat_bound [of "nl_limit l"] by (simp add: unat_word_ariths)
    then have less: "nl_counter ?l < nl_limit ?l" using lt by (simp add: word_less_nat_alt)
    then have "android_nand_limit_update l n = (?l, [])"
      using True Cons.prems by (simp add: android_nand_limit_update_def Let_def not_le)
    then show ?thesis using Cons.IH [OF less] u by (simp add: split_beta add.assoc)
  next
    case False
    let ?l = "l\<lparr>nl_counter := nl_limit l\<rparr>"
    have le: "unat (nl_limit l) \<le> unat (nl_counter l) + unat n"
      using False a n by (simp add: word_less_nat_alt not_less)
    have "android_nand_limit_update l n = (?l, [(nl_pid l, nl_signal l)])"
      using False Cons.prems by (simp add: android_nand_limit_update_def Let_def not_le)
    then show ?thesis using le limit_updates_done [of ?l ns] by simp
  qed
qed (simp add: word_less_nat_alt)

text \<open>Transfers counted by the device: bytes read and bytes written.\<close>

datatype nand_transfer = Transfer_read u32 | Transfer_write u32

fun count_transfers :: "nand_transfer list \<Rightarrow> nand_limits \<Rightarrow> nand_limits \<times> (int \<times> int) list" where
  "count_transfers [] l = (l, [])"
| "count_transfers (x # xs) l =
     (let (l1, ks) = (case x of Transfer_read n \<Rightarrow> NAND_UPDATE_READ_THRESHOLD n l
                              | Transfer_write n \<Rightarrow> NAND_UPDATE_WRITE_THRESHOLD n l);
          (l2, ks') = count_transfers xs l1
      in (l2, ks @ ks'))"

definition bytes_read :: "nand_transfer list \<Rightarrow> u32 list" where
  "bytes_read xs = concat (map (\<lambda>x. case x of Transfer_read n \<Rightarrow> [n] | Transfer_write n \<Rightarrow> []) xs)"

definition bytes_written :: "nand_transfer list \<Rightarrow> u32 list" where
  "bytes_written xs = concat (map (\<lambda>x. case x of Transfer_read n \<Rightarrow> [] | Transfer_write n \<Rightarrow> [n]) xs)"

lemma count_transfers_split:
  "length (snd (count_transfers xs l)) =
     length (snd (limit_updates (bytes_read xs) (nand_write_limit l))) +
     length (snd (limit_updates (bytes_written xs) (nand_read_limit l)))"
  by (induction xs arbitrary: l)
    (auto simp: bytes_read_def bytes_written_def NAND_UPDATE_READ_THRESHOLD_def NAND_UPDATE_WRITE_THRESHOLD_def
      Let_def split_beta split: nand_transfer.splits)

lemma limit_signals:
  assumes "nl_counter l = 0"
  shows "length (snd (limit_updates ns l)) = of_bool (0 < nl_limit l \<and> unat (nl_limit l) \<le> sum_list (map unat ns))"
proof (cases "nl_limit l = 0")
  case True
  then show ?thesis using limit_updates_done [of l ns] assms by simp
next
  case False
  then have "nl_counter l < nl_limit l" using assms by (simp add: word_neq_0_conv)
  then show ?thesis using limit_updates_spec [of l ns] assms False by (auto simp: word_neq_0_conv)
qed

section \<open>Properties\<close>

text \<open>From a partition to a device. The option string that is built for a partition is taken apart again without loss: the device
  has the name of the partition, the image file is the one asked for whatever characters its path has (commas, equal signs and
  percent signs included), it is opened for reading only exactly when asked for, the geometry is that of the file system type,
  and the capacity is the size of the partition rounded up to full erase units.\<close>

theorem nand_image_added:
  assumes "CHR '','' \<notin> set part_name" and "CHR ''='' \<notin> set part_name" and "part_size \<noteq> 0"
    and "length part_name + 2 * length part_file \<le> 8000"
    and "unat part_size + (if ext4 then 0x8000 else 0x21000) \<le> 2 ^ 64"
    and "open_file part_file readonly = Some fd"
  shows "\<exists>dev. android_add_nand_image t open_file junk part_name part_size part_file ext4 readonly devs = Inr (devs @ [dev]) \<and>
    nd_devname dev = part_name \<and> nd_file dev = Some fd \<and>
    nd_page_size dev = (if ext4 then 512 else 2048) \<and> nd_extra_size dev = (if ext4 then 0 else 64) \<and>
    nd_erase_size dev = 64 * (nd_page_size dev + nd_extra_size dev) \<and>
    unat (nd_erase_size dev) dvd unat (nd_max_size dev) \<and>
    unat part_size \<le> unat (nd_max_size dev) \<and> unat (nd_max_size dev) < unat part_size + unat (nd_erase_size dev)"
proof -
  let ?e = "if ext4 then 0x8000 else 0x21000 :: u32"
  have "unat part_size < 16 ^ Suc 15" using unat_bound [of part_size] by simp
  then have h: "length (show_hex (unat part_size)) \<le> 16" using length_show_hex [of "unat part_size" 15] by simp
  have args: "nand_image_args part_name part_size part_file ext4 readonly =
      part_name @ '',size=0x'' @ show_hex (unat part_size) @ '',file='' @ path_escape_path part_file @
      (if ext4 then '',pagesize=512,extrasize=0'' else []) @ (if readonly then '',readonly'' else [])"
    using h length_escape [of part_file] assms(4)
    by (simp add: nand_image_args_def pstrcat_path_def PATH_MAX_def Let_def)
  have e: "?e \<noteq> 0" "unat part_size + unat ?e \<le> 2 ^ 64" using assms(5) by (cases ext4; simp)+
  obtain m where m: "round_dev_size part_size ?e = Inr m" "unat ?e dvd unat m" "unat part_size \<le> unat m"
      "unat m < unat part_size + unat ?e"
    using round_dev_size_spec [OF e] by blast
  have size: "64 * ((if ext4 then 512 else 2048) + (if ext4 then 0 else 64)) = ?e" by (cases ext4) simp_all
  define dev where "dev = \<lparr>nd_devname = part_name, nd_data = junk, nd_file = Some fd,
        nd_flags = (case t of Target_I386 \<Rightarrow> NAND_DEV_FLAG_BATCH_CAP | Target_ARM_MIPS \<Rightarrow> 0),
        nd_page_size = (if ext4 then 512 else 2048), nd_extra_size = (if ext4 then 0 else 64),
        nd_erase_size = ?e, nd_max_size = m\<rparr>"
  have "android_add_nand_image t open_file junk part_name part_size part_file ext4 readonly devs = Inr (devs @ [dev])"
    using parse_image_args [OF assms(1,2), of "unat part_size" part_file ext4 readonly] unat_bound [of part_size] assms(3,6) m(1) size
    unfolding android_add_nand_image_def nand_add_dev_def args by (simp add: Let_def dev_def)
  moreover have "nd_erase_size dev = 64 * (nd_page_size dev + nd_extra_size dev)" using size by (simp add: dev_def)
  ultimately show ?thesis using m by (intro exI [of _ dev]) (simp add: dev_def)
qed

theorem nand_image_added_witness:
  "\<exists>dev. android_add_nand_image Target_I386 (\<lambda>p ro. if p = ''/a=b,c%d'' \<and> ro then
        Some \<lparr>nf_bytes = [1, 2], nf_pos = 0, nf_writable = False, nf_limit = 0\<rparr> else None) (\<lambda>_. 0)
      ''system'' 1000000 ''/a=b,c%d'' False True [] = Inr [dev] \<and> unat (nd_max_size dev) = 1081344"
proof -
  let ?open = "\<lambda>p ro. if p = ''/a=b,c%d'' \<and> ro then
      Some \<lparr>nf_bytes = [1, 2 :: u8], nf_pos = 0, nf_writable = False, nf_limit = 0\<rparr> else None"
  obtain dev where dev: "android_add_nand_image Target_I386 ?open (\<lambda>_. 0) ''system'' 1000000 ''/a=b,c%d'' False True [] = Inr ([] @ [dev])"
    "nd_erase_size dev = 64 * (nd_page_size dev + nd_extra_size dev)" "nd_page_size dev = 2048" "nd_extra_size dev = 64"
    "unat (nd_erase_size dev) dvd unat (nd_max_size dev)" "1000000 \<le> unat (nd_max_size dev)"
    "unat (nd_max_size dev) < 1000000 + unat (nd_erase_size dev)"
    using nand_image_added [of "''system''" 1000000 "''/a=b,c%d''" False ?open True _ Target_I386 "\<lambda>_. 0" "[]"] by auto
  have e: "unat (nd_erase_size dev) = 135168" using dev(2-4) by simp
  then obtain k where k: "unat (nd_max_size dev) = 135168 * k" using dev(5) by (auto simp: dvd_def)
  then have "k = 8" using dev(6,7) e by simp
  then show ?thesis using dev(1) k by simp
qed

text \<open>The limits on NAND activity. The option for reads limits reads and the option for writes limits writes, although the parser and
  the counters both swap the two variables; over any sequence of transfers each limit that is set sends its signal exactly once
  if the bytes transferred reach it and never otherwise.\<close>

theorem nand_limits_signal:
  assumes "android_nand_limits_parse limits = Some (r, w)"
  shows "length (snd (count_transfers xs (nand_parse_limits limits l))) =
    of_bool (0 < nl_limit r \<and> unat (nl_limit r) \<le> sum_list (map unat (bytes_read xs))) +
    of_bool (0 < nl_limit w \<and> unat (nl_limit w) \<le> sum_list (map unat (bytes_written xs)))"
proof -
  have c: "nl_counter r = 0" "nl_counter w = 0"
    using assms by (auto simp: android_nand_limits_parse_def split: option.splits if_splits)
  show ?thesis
    using limit_signals [OF c(1), of "bytes_read xs"] limit_signals [OF c(2), of "bytes_written xs"] assms
    by (simp add: count_transfers_split nand_parse_limits_def)
qed

theorem nand_limits_signal_witness:
  "length (snd (count_transfers [Transfer_read 3000, Transfer_write 9000, Transfer_read 2000]
     (nand_parse_limits ''pid=7,signal=10,reads=4K'' \<lparr>nand_read_limit = ANDROID_NAND_LIMIT_INIT,
        nand_write_limit = ANDROID_NAND_LIMIT_INIT\<rparr>))) = 1"
proof -
  have "android_nand_limits_parse ''pid=7,signal=10,reads=4K'' =
      Some (\<lparr>nl_limit = 4096, nl_counter = 0, nl_pid = 7, nl_signal = 10\<rparr>, \<lparr>nl_limit = 0, nl_counter = 0, nl_pid = 7, nl_signal = 10\<rparr>)"
    by (simp add: android_nand_limits_parse_def nand_limit_items.simps nand_limit_item_def int_value_def parse_nand_rw_limit_def
        strtol_def strtoull_def scan_number_def is_space_def skip_sign_def number_base_def starts_digit_def digit_value_def)
  from nand_limits_signal [OF this, of "[Transfer_read 3000, Transfer_write 9000, Transfer_read 2000]"]
  show ?thesis by (simp add: bytes_read_def bytes_written_def del: count_transfers.simps)
qed

end
