(* ===== verification/Goldfish_Nand.thy ===== *)
theory Goldfish_Nand
  imports Nand_Config Guest_Memory Savevm
begin

text \<open>
  The goldfish NAND controller, \<open>hw/android/goldfish/nand.c\<close>: reading, writing and erasing the images with guest
  buffers in chunks of an erase unit, the batch commands with their parameter block in guest memory, the registers,
  and snapshots with the contents of the images. An image file is a list of bytes with a file position; reading stops at its
  end and writing beyond its end fills the gap with zeros, as POSIX files do. Reads of a regular file do not
  fail; writes fail when the file is not open for writing or the host file system is full. On a target with 32-bit
  addresses the page table function ignores the upper half of an address. An erase unit is below 2 GiB.
\<close>

section \<open>Image files\<close>

definition do_lseek :: "u64 \<Rightarrow> nand_file \<Rightarrow> nand_file" where
  "do_lseek offset f = (if sint offset < 0 then f else f\<lparr>nf_pos := unat offset\<rparr>)"

definition do_read :: "nat \<Rightarrow> nand_file \<Rightarrow> u8 list \<times> nand_file" where
  "do_read n f = (let bs = take n (drop (nf_pos f) (nf_bytes f)) in (bs, f\<lparr>nf_pos := nf_pos f + length bs\<rparr>))"

definition put_at :: "nat \<Rightarrow> u8 list \<Rightarrow> u8 list \<Rightarrow> u8 list" where
  "put_at pos bs data = take pos data @ replicate (pos - length data) 0 @ bs @ drop (pos + length bs) data"

definition do_write :: "u8 list \<Rightarrow> nand_file \<Rightarrow> int \<times> nand_file" where
  "do_write bs f =
     (let n = min (length bs) (nf_limit f - nf_pos f)
      in if \<not> nf_writable f \<or> (n = 0 \<and> bs \<noteq> []) then (- 1, f)
         else (int n, f\<lparr>nf_bytes := put_at (nf_pos f) (take n bs) (nf_bytes f), nf_pos := nf_pos f + n\<rparr>))"

definition do_ftruncate :: "nat \<Rightarrow> nand_file \<Rightarrow> int \<times> nand_file" where
  "do_ftruncate n f =
     (if \<not> nf_writable f \<or> nf_limit f < n then (- 1, f)
      else (0, f\<lparr>nf_bytes := take n (nf_bytes f) @ replicate (n - length (nf_bytes f)) 0\<rparr>))"

text \<open>The comparison \<open>ret < write_len\<close> of an \<open>int\<close> with a \<open>size_t\<close>: a negative result is a huge number.\<close>

definition short_write :: "int \<Rightarrow> nat \<Rightarrow> bool" where
  "short_write ret write_len \<longleftrightarrow> unat (word_of_int ret :: u64) < write_len"

section \<open>Transfers\<close>

text \<open>
  What a command sees and changes outside the device: the memory of the guest, the limits with the signals sent, and the
  uninitialised parameter block on the stack. The buffer \<open>data\<close> of an image keeps what earlier transfers left in
  it: a part of a guest buffer that is not mapped is written from there. \<open>None\<close> is a loop that never ends, for an erase unit of
  size zero.
\<close>

record nand_env =
  ne_mmu :: guest_mmu
  ne_mem :: phys_mem
  ne_limits :: nand_limits
  ne_kills :: "(int \<times> int) list"
  ne_guest_64bit :: bool
  ne_stack :: "u8 list"

definition guest_store :: "guest_mmu \<Rightarrow> u64 \<Rightarrow> u8 list \<Rightarrow> phys_mem \<Rightarrow> phys_mem" where
  "guest_store u addr bs mem = snd (memory_write u mem addr bs)"

function nand_read_loop ::
  "guest_mmu \<Rightarrow> nat \<Rightarrow> nand_file \<Rightarrow> (nat \<Rightarrow> u8) \<Rightarrow> phys_mem \<Rightarrow> u64 \<Rightarrow> nat \<Rightarrow> nat \<Rightarrow> bool \<Rightarrow>
   (nand_file \<times> (nat \<Rightarrow> u8) \<times> phys_mem) option" where
  "nand_read_loop u erase_size f buf mem data len read_len eof =
     (if len = 0 then Some (f, buf, mem)
      else if erase_size = 0 then None
      else let (buf1, read_len1, eof1) =
                 (if read_len < erase_size then (blit buf 0 (replicate erase_size 0xff), erase_size, True)
                  else (buf, read_len, eof));
               read_len2 = (if len < read_len1 then len else read_len1);
               (f1, buf2, n) =
                 (if eof1 then (f, buf1, read_len2)
                  else let (bs, f') = do_read read_len2 f in (f', blit buf1 0 bs, length bs))
           in nand_read_loop u erase_size f1 buf2 (guest_store u data (window buf2 0 n) mem)
                (data + word_of_nat n) (len - n) n eof1)"
  by pat_completeness auto
termination
  by (relation "measures [\<lambda>(u, e, f, buf, mem, data, len, read_len, eof). len,
        \<lambda>(u, e, f, buf, mem, data, len, read_len, eof). of_bool (e \<le> read_len)]")
    (auto simp: do_read_def Let_def split: if_splits)

declare nand_read_loop.simps [simp del]

definition nand_dev_read_file :: "nand_dev \<Rightarrow> nand_file \<Rightarrow> u64 \<Rightarrow> u64 \<Rightarrow> u32 \<Rightarrow> nand_env \<Rightarrow> (u32 \<times> nand_dev \<times> nand_env) option" where
  "nand_dev_read_file dev fd data addr total_len e =
     (let (lim, ks) = NAND_UPDATE_READ_THRESHOLD total_len (ne_limits e)
      in map_option (\<lambda>(f, buf, mem).
           (total_len, dev\<lparr>nd_file := Some f, nd_data := buf\<rparr>,
            e\<lparr>ne_mem := mem, ne_limits := lim, ne_kills := ne_kills e @ ks\<rparr>))
         (nand_read_loop (ne_mmu e) (unat (nd_erase_size dev)) (do_lseek addr fd) (nd_data dev) (ne_mem e) data
            (unat total_len) (unat (nd_erase_size dev)) False))"

text \<open>The loops that write return the number of bytes left.\<close>

function nand_write_loop ::
  "guest_mmu \<Rightarrow> phys_mem \<Rightarrow> nand_file \<Rightarrow> (nat \<Rightarrow> u8) \<Rightarrow> u64 \<Rightarrow> nat \<Rightarrow> nat \<Rightarrow> (nand_file \<times> (nat \<Rightarrow> u8) \<times> nat) option" where
  "nand_write_loop u mem f buf data len write_len =
     (if len = 0 then Some (f, buf, 0)
      else if write_len = 0 then None
      else let write_len1 = (if len < write_len then len else write_len);
               buf1 = blit buf 0 (snd (memory_read u mem data write_len1));
               (ret, f1) = do_write (window buf1 0 write_len1) f
           in if short_write ret write_len1 then Some (f1, buf1, len)
              else nand_write_loop u mem f1 buf1 (data + word_of_nat write_len1) (len - write_len1) write_len1)"
  by pat_completeness auto
termination
  by (relation "measure (\<lambda>(u, mem, f, buf, data, len, write_len). len)") (auto split: if_splits)

declare nand_write_loop.simps [simp del]

definition nand_dev_write_file :: "nand_dev \<Rightarrow> nand_file \<Rightarrow> u64 \<Rightarrow> u64 \<Rightarrow> u32 \<Rightarrow> nand_env \<Rightarrow> (u32 \<times> nand_dev \<times> nand_env) option" where
  "nand_dev_write_file dev fd data addr total_len e =
     (let (lim, ks) = NAND_UPDATE_WRITE_THRESHOLD total_len (ne_limits e)
      in map_option (\<lambda>(f, buf, left).
           (total_len - word_of_nat left, dev\<lparr>nd_file := Some f, nd_data := buf\<rparr>,
            e\<lparr>ne_limits := lim, ne_kills := ne_kills e @ ks\<rparr>))
         (nand_write_loop (ne_mmu e) (ne_mem e) (do_lseek addr fd) (nd_data dev) data (unat total_len)
            (unat (nd_erase_size dev))))"

function nand_erase_loop :: "nand_file \<Rightarrow> (nat \<Rightarrow> u8) \<Rightarrow> nat \<Rightarrow> nat \<Rightarrow> (nand_file \<times> nat) option" where
  "nand_erase_loop f buf len write_len =
     (if len = 0 then Some (f, 0)
      else if write_len = 0 then None
      else let write_len1 = (if len < write_len then len else write_len);
               (ret, f1) = do_write (window buf 0 write_len1) f
           in if short_write ret write_len1 then Some (f1, len)
              else nand_erase_loop f1 buf (len - write_len1) write_len1)"
  by pat_completeness auto
termination
  by (relation "measure (\<lambda>(f, buf, len, write_len). len)") (auto split: if_splits)

declare nand_erase_loop.simps [simp del]

definition nand_dev_erase_file :: "nand_dev \<Rightarrow> nand_file \<Rightarrow> u64 \<Rightarrow> u32 \<Rightarrow> (u32 \<times> nand_dev) option" where
  "nand_dev_erase_file dev fd addr total_len =
     (let n = unat (nd_erase_size dev); buf = blit (nd_data dev) 0 (replicate n 0xff)
      in map_option (\<lambda>(f, left). (total_len - word_of_nat left, dev\<lparr>nd_file := Some f, nd_data := buf\<rparr>))
           (nand_erase_loop (do_lseek addr fd) buf (unat total_len) n))"

section \<open>Constants\<close>

definition NAND_CMD_GET_DEV_NAME :: u32 where "NAND_CMD_GET_DEV_NAME = 0"
definition NAND_CMD_READ :: u32 where "NAND_CMD_READ = 1"
definition NAND_CMD_WRITE :: u32 where "NAND_CMD_WRITE = 2"
definition NAND_CMD_ERASE :: u32 where "NAND_CMD_ERASE = 3"
definition NAND_CMD_BLOCK_BAD_GET :: u32 where "NAND_CMD_BLOCK_BAD_GET = 4"
definition NAND_CMD_BLOCK_BAD_SET :: u32 where "NAND_CMD_BLOCK_BAD_SET = 5"
definition NAND_CMD_READ_BATCH :: u32 where "NAND_CMD_READ_BATCH = 6"
definition NAND_CMD_WRITE_BATCH :: u32 where "NAND_CMD_WRITE_BATCH = 7"
definition NAND_CMD_ERASE_BATCH :: u32 where "NAND_CMD_ERASE_BATCH = 8"

definition NAND_VERSION_CURRENT :: u32 where "NAND_VERSION_CURRENT = 1"
definition NAND_VERSION :: u64 where "NAND_VERSION = 0x000"
definition NAND_NUM_DEV :: u64 where "NAND_NUM_DEV = 0x004"
definition NAND_DEV :: u64 where "NAND_DEV = 0x008"
definition NAND_DEV_FLAGS :: u64 where "NAND_DEV_FLAGS = 0x010"
definition NAND_DEV_NAME_LEN :: u64 where "NAND_DEV_NAME_LEN = 0x014"
definition NAND_DEV_PAGE_SIZE :: u64 where "NAND_DEV_PAGE_SIZE = 0x018"
definition NAND_DEV_EXTRA_SIZE :: u64 where "NAND_DEV_EXTRA_SIZE = 0x01c"
definition NAND_DEV_ERASE_SIZE :: u64 where "NAND_DEV_ERASE_SIZE = 0x020"
definition NAND_DEV_SIZE_LOW :: u64 where "NAND_DEV_SIZE_LOW = 0x028"
definition NAND_DEV_SIZE_HIGH :: u64 where "NAND_DEV_SIZE_HIGH = 0x02c"
definition NAND_RESULT :: u64 where "NAND_RESULT = 0x040"
definition NAND_COMMAND :: u64 where "NAND_COMMAND = 0x044"
definition NAND_DATA :: u64 where "NAND_DATA = 0x048"
definition NAND_TRANSFER_SIZE :: u64 where "NAND_TRANSFER_SIZE = 0x04c"
definition NAND_ADDR_LOW :: u64 where "NAND_ADDR_LOW = 0x050"
definition NAND_ADDR_HIGH :: u64 where "NAND_ADDR_HIGH = 0x054"
definition NAND_BATCH_ADDR_LOW :: u64 where "NAND_BATCH_ADDR_LOW = 0x058"
definition NAND_BATCH_ADDR_HIGH :: u64 where "NAND_BATCH_ADDR_HIGH = 0x05c"
definition NAND_DATA_HIGH :: u64 where "NAND_DATA_HIGH = 0x100"

lemmas nand_cmd_defs = NAND_CMD_GET_DEV_NAME_def NAND_CMD_READ_def NAND_CMD_WRITE_def NAND_CMD_ERASE_def
  NAND_CMD_BLOCK_BAD_GET_def NAND_CMD_BLOCK_BAD_SET_def NAND_CMD_READ_BATCH_def NAND_CMD_WRITE_BATCH_def
  NAND_CMD_ERASE_BATCH_def
lemmas nand_reg_defs = NAND_VERSION_def NAND_NUM_DEV_def NAND_DEV_def NAND_DEV_FLAGS_def NAND_DEV_NAME_LEN_def
  NAND_DEV_PAGE_SIZE_def NAND_DEV_EXTRA_SIZE_def NAND_DEV_ERASE_SIZE_def NAND_DEV_SIZE_LOW_def NAND_DEV_SIZE_HIGH_def
  NAND_RESULT_def NAND_COMMAND_def NAND_DATA_def NAND_TRANSFER_SIZE_def NAND_ADDR_LOW_def NAND_ADDR_HIGH_def
  NAND_BATCH_ADDR_LOW_def NAND_BATCH_ADDR_HIGH_def NAND_DATA_HIGH_def

section \<open>Commands\<close>

record nand_dev_controller_state =
  n_dev :: u32
  n_addr_low :: u32
  n_addr_high :: u32
  n_transfer_size :: u32
  n_data :: u64
  n_batch_addr_low :: u32
  n_batch_addr_high :: u32
  n_result :: u32

definition is_batch :: "u32 \<Rightarrow> bool" where
  "is_batch cmd \<longleftrightarrow> cmd = NAND_CMD_WRITE_BATCH \<or> cmd = NAND_CMD_READ_BATCH \<or> cmd = NAND_CMD_ERASE_BATCH"

definition batch_addr :: "nand_dev_controller_state \<Rightarrow> u64" where
  "batch_addr s = push_bit 32 (ucast (n_batch_addr_high s)) OR ucast (n_batch_addr_low s)"

definition mem_le32 :: "phys_mem \<Rightarrow> u64 \<Rightarrow> u32" where
  "mem_le32 mem a = le32_join (mem a) (mem (a + 1)) (mem (a + 2)) (mem (a + 3))"

text \<open>The parameter block: \<open>struct batch_data\<close> of 24 bytes, or \<open>struct batch_data_64\<close> of 32 bytes with padding at its end.\<close>

definition load_batch :: "nand_env \<Rightarrow> nand_dev_controller_state \<Rightarrow> nand_dev_controller_state" where
  "load_batch e s =
     (let a = batch_addr s; mem = ne_mem e
      in s\<lparr>n_dev := mem_le32 mem a, n_addr_low := mem_le32 mem (a + 4), n_addr_high := mem_le32 mem (a + 8),
           n_transfer_size := mem_le32 mem (a + 12),
           n_data := (if ne_guest_64bit e
                      then push_bit 32 (ucast (mem_le32 mem (a + 20))) OR ucast (mem_le32 mem (a + 16))
                      else ucast (mem_le32 mem (a + 16)))\<rparr>)"

text \<open>The part of a transfer inside the image.\<close>

definition clip_size :: "nand_dev \<Rightarrow> u64 \<Rightarrow> u32 \<Rightarrow> u32" where
  "clip_size dev addr size' =
     (if nd_max_size dev - addr < ucast size' then ucast (nd_max_size dev - addr) else size')"

text \<open>Without a file the buffer itself is the image; it has the size of an erase unit.\<close>

definition in_buffer :: "nand_dev \<Rightarrow> u64 \<Rightarrow> u32 \<Rightarrow> bool" where
  "in_buffer dev addr n \<longleftrightarrow> unat addr + unat n \<le> unat (nd_erase_size dev)"

type_synonym cmd_result = "(u32 \<times> nand_dev \<times> nand_env) res option"

definition cmd_read :: "nand_dev \<Rightarrow> u64 \<Rightarrow> u64 \<Rightarrow> u32 \<Rightarrow> nand_env \<Rightarrow> cmd_result" where
  "cmd_read dev data addr size' e =
     (if nd_max_size dev \<le> addr then Some (Inr (0, dev, e))
      else let n = clip_size dev addr size'
           in case nd_file dev of
                Some fd \<Rightarrow> map_option Inr (nand_dev_read_file dev fd data addr n e)
              | None \<Rightarrow> Some (if in_buffer dev addr n
                              then Inr (n, dev, e\<lparr>ne_mem := guest_store (ne_mmu e) data (window (nd_data dev) (unat addr) (unat n)) (ne_mem e)\<rparr>)
                              else Inl Undefined))"

definition cmd_write :: "nand_dev \<Rightarrow> u64 \<Rightarrow> u64 \<Rightarrow> u32 \<Rightarrow> nand_env \<Rightarrow> cmd_result" where
  "cmd_write dev data addr size' e =
     (if nd_flags dev AND NAND_DEV_FLAG_READ_ONLY \<noteq> 0 then Some (Inr (0, dev, e))
      else if nd_max_size dev \<le> addr then Some (Inr (0, dev, e))
      else let n = clip_size dev addr size'
           in case nd_file dev of
                Some fd \<Rightarrow> map_option Inr (nand_dev_write_file dev fd data addr n e)
              | None \<Rightarrow> Some (if in_buffer dev addr n
                              then Inr (n, dev\<lparr>nd_data := blit (nd_data dev) (unat addr)
                                                 (snd (memory_read (ne_mmu e) (ne_mem e) data (unat n)))\<rparr>, e)
                              else Inl Undefined))"

definition cmd_erase :: "nand_dev \<Rightarrow> u64 \<Rightarrow> u32 \<Rightarrow> nand_env \<Rightarrow> cmd_result" where
  "cmd_erase dev addr size' e =
     (if nd_flags dev AND NAND_DEV_FLAG_READ_ONLY \<noteq> 0 then Some (Inr (0, dev, e))
      else if nd_max_size dev \<le> addr then Some (Inr (0, dev, e))
      else let n = clip_size dev addr size'
           in case nd_file dev of
                Some fd \<Rightarrow> map_option (\<lambda>(r, dev'). Inr (r, dev', e)) (nand_dev_erase_file dev fd addr n)
              | None \<Rightarrow> Some (if in_buffer dev addr n
                              then Inr (n, dev\<lparr>nd_data := blit (nd_data dev) (unat addr) (replicate (unat n) 0xff)\<rparr>, e)
                              else Inl Undefined))"

definition cmd_get_dev_name :: "nand_dev \<Rightarrow> u64 \<Rightarrow> u32 \<Rightarrow> nand_env \<Rightarrow> cmd_result" where
  "cmd_get_dev_name dev data size' e =
     (let n = (if length (nd_devname dev) < unat size' then word_of_nat (length (nd_devname dev)) else size');
          bs = map (\<lambda>c. word_of_nat (of_char c)) (take (unat n) (nd_devname dev))
      in Some (Inr (n, dev, e\<lparr>ne_mem := guest_store (ne_mmu e) data bs (ne_mem e)\<rparr>)))"

definition nand_dev_do_cmd ::
  "u32 \<Rightarrow> nand_dev_controller_state \<Rightarrow> nand_dev list \<Rightarrow> nand_env \<Rightarrow>
   (u32 \<times> nand_dev_controller_state \<times> nand_dev list \<times> nand_env) res option" where
  "nand_dev_do_cmd cmd s0 devs e =
     (let s = (if is_batch cmd then load_batch e s0 else s0);
          addr = ucast (n_addr_low s) OR push_bit 32 (ucast (n_addr_high s));
          size' = n_transfer_size s; i = unat (n_dev s)
      in if length devs \<le> i then Some (Inr (0, s, devs, e))
         else let dev = devs ! i in
           map_option (\<lambda>r. res_bind r (\<lambda>(ret, dev', e'). Inr (ret, s, devs[i := dev'], e')))
             (if cmd = NAND_CMD_GET_DEV_NAME then cmd_get_dev_name dev (n_data s) size' e
              else if cmd = NAND_CMD_READ_BATCH \<or> cmd = NAND_CMD_READ then cmd_read dev (n_data s) addr size' e
              else if cmd = NAND_CMD_WRITE_BATCH \<or> cmd = NAND_CMD_WRITE then cmd_write dev (n_data s) addr size' e
              else if cmd = NAND_CMD_ERASE_BATCH \<or> cmd = NAND_CMD_ERASE then cmd_erase dev addr size' e
              else if cmd = NAND_CMD_BLOCK_BAD_GET \<or> cmd = NAND_CMD_BLOCK_BAD_SET then Some (Inr (0, dev, e))
              else Some (Inl Cpu_Abort)))"

section \<open>Registers\<close>

text \<open>After a batch command the whole parameter block is written back: the result, and for the other fields whatever was on
  the stack.\<close>

definition batch_block :: "nand_env \<Rightarrow> u32 \<Rightarrow> u8 list" where
  "batch_block e result =
     (let pos = (if ne_guest_64bit e then 24 else 20); n = (if ne_guest_64bit e then 32 else 24)
      in map (\<lambda>i. if pos \<le> i \<and> i < pos + 4 then le32_byte result (i - pos) else ne_stack e ! i) [0..<n])"

definition nand_dev_write ::
  "u64 \<Rightarrow> u32 \<Rightarrow> nand_dev_controller_state \<Rightarrow> nand_dev list \<Rightarrow> nand_env \<Rightarrow>
   (nand_dev_controller_state \<times> nand_dev list \<times> nand_env) res option" where
  "nand_dev_write offset v s devs e =
     (if offset = NAND_DEV then
        Some (if length devs \<le> unat v then Inl Cpu_Abort else Inr (s\<lparr>n_dev := v\<rparr>, devs, e))
      else if offset = NAND_ADDR_HIGH then Some (Inr (s\<lparr>n_addr_high := v\<rparr>, devs, e))
      else if offset = NAND_ADDR_LOW then Some (Inr (s\<lparr>n_addr_low := v\<rparr>, devs, e))
      else if offset = NAND_BATCH_ADDR_LOW then Some (Inr (s\<lparr>n_batch_addr_low := v\<rparr>, devs, e))
      else if offset = NAND_BATCH_ADDR_HIGH then Some (Inr (s\<lparr>n_batch_addr_high := v\<rparr>, devs, e))
      else if offset = NAND_TRANSFER_SIZE then Some (Inr (s\<lparr>n_transfer_size := v\<rparr>, devs, e))
      else if offset = NAND_DATA then Some (Inr (s\<lparr>n_data := uint64_set_low (n_data s) v\<rparr>, devs, e))
      else if offset = NAND_DATA_HIGH then Some (Inr (s\<lparr>n_data := uint64_set_high (n_data s) v\<rparr>, devs, e))
      else if offset = NAND_COMMAND then
        map_option (\<lambda>r. res_bind r (\<lambda>(ret, s', devs', e').
          let s'' = s'\<lparr>n_result := ret\<rparr>
          in Inr (s'', devs',
                  if is_batch v then e'\<lparr>ne_mem := mem_blit (ne_mem e') (batch_addr s'') (batch_block e' ret)\<rparr> else e')))
          (nand_dev_do_cmd v s devs e)
      else Some (Inl Cpu_Abort))"

definition nand_dev_read :: "u64 \<Rightarrow> nand_dev_controller_state \<Rightarrow> nand_dev list \<Rightarrow> u32 res" where
  "nand_dev_read offset s devs =
     (if offset = NAND_VERSION then Inr NAND_VERSION_CURRENT
      else if offset = NAND_NUM_DEV then Inr (word_of_nat (length devs))
      else if offset = NAND_RESULT then Inr (n_result s)
      else if length devs \<le> unat (n_dev s) then Inr 0
      else let dev = devs ! unat (n_dev s)
           in if offset = NAND_DEV_FLAGS then Inr (nd_flags dev)
              else if offset = NAND_DEV_NAME_LEN then Inr (word_of_nat (length (nd_devname dev)))
              else if offset = NAND_DEV_PAGE_SIZE then Inr (nd_page_size dev)
              else if offset = NAND_DEV_EXTRA_SIZE then Inr (nd_extra_size dev)
              else if offset = NAND_DEV_ERASE_SIZE then Inr (if nd_extra_size dev = 0 then 0 else nd_erase_size dev)
              else if offset = NAND_DEV_SIZE_LOW then Inr (ucast (nd_max_size dev))
              else if offset = NAND_DEV_SIZE_HIGH then Inr (ucast (drop_bit 32 (nd_max_size dev)))
              else Inl Cpu_Abort)"

definition nand_dev_init :: nand_dev_controller_state where
  "nand_dev_init = \<lparr>n_dev = 0, n_addr_low = 0, n_addr_high = 0, n_transfer_size = 0, n_data = 0, n_batch_addr_low = 0,
     n_batch_addr_high = 0, n_result = 0\<rparr>"

section \<open>Snapshots\<close>

definition NAND_DEV_STATE_SAVE_VERSION :: int where "NAND_DEV_STATE_SAVE_VERSION = 5"
definition NAND_DEV_STATE_SAVE_VERSION_LEGACY :: int where "NAND_DEV_STATE_SAVE_VERSION_LEGACY = 4"
definition NAND_DEV_SAVE_DISK_BUF_SIZE :: nat where "NAND_DEV_SAVE_DISK_BUF_SIZE = 2048"

definition nand_legacy_1_fields :: "nand_dev_controller_state QField list" where
  "nand_legacy_1_fields =
     [QFIELD_INT32 n_dev (\<lambda>v. n_dev_update (\<lambda>_. v)),
      QFIELD_INT32 n_addr_low (\<lambda>v. n_addr_low_update (\<lambda>_. v)),
      QFIELD_INT32 n_addr_high (\<lambda>v. n_addr_high_update (\<lambda>_. v)),
      QFIELD_INT32 n_transfer_size (\<lambda>v. n_transfer_size_update (\<lambda>_. v))]"

definition nand_legacy_2_fields :: "nand_dev_controller_state QField list" where
  "nand_legacy_2_fields =
     [QFIELD_INT32 n_batch_addr_low (\<lambda>v. n_batch_addr_low_update (\<lambda>_. v)),
      QFIELD_INT32 n_batch_addr_high (\<lambda>v. n_batch_addr_high_update (\<lambda>_. v)),
      QFIELD_INT32 n_result (\<lambda>v. n_result_update (\<lambda>_. v))]"

definition nand_fields :: "nand_dev_controller_state QField list" where
  "nand_fields = nand_legacy_1_fields @ [QFIELD_INT64 n_data (\<lambda>v. n_data_update (\<lambda>_. v))] @ nand_legacy_2_fields"

text \<open>The bytes of an image in a snapshot. The position of the file, which every other access sets first, is left out; an image
  without a file has no bytes (the seek fails).\<close>

function save_disk_loop :: "nat \<Rightarrow> nand_file \<Rightarrow> nat \<Rightarrow> u8 list" where
  "save_disk_loop max_size f total_copied =
     (let (bs, f1) = do_read NAND_DEV_SAVE_DISK_BUF_SIZE f; total = total_copied + length bs
      in if length bs = NAND_DEV_SAVE_DISK_BUF_SIZE \<and> total < max_size then bs @ save_disk_loop max_size f1 total else bs)"
  by pat_completeness auto
termination
  by (relation "measure (\<lambda>(m, f, t). length (nf_bytes f) - nf_pos f)")
    (auto simp: do_read_def Let_def NAND_DEV_SAVE_DISK_BUF_SIZE_def)

declare save_disk_loop.simps [simp del]

definition nand_dev_save_disk_state :: "nand_dev \<Rightarrow> u8 list" where
  "nand_dev_save_disk_state dev =
     (case nd_file dev of
        None \<Rightarrow> []
      | Some f \<Rightarrow> be64_bytes (word_of_nat (length (nf_bytes f))) @
                  save_disk_loop (unat (nd_max_size dev)) (do_lseek 0 f) 0)"

definition nand_dev_save_disks :: "nand_dev list \<Rightarrow> u8 list" where
  "nand_dev_save_disks devs = concat (map nand_dev_save_disk_state devs)"

text \<open>The loop that copies an image out of a snapshot, with the number of bytes left.\<close>

function load_disk_loop :: "nat \<Rightarrow> nand_file \<Rightarrow> rstream \<Rightarrow> int \<times> nand_file \<times> rstream" where
  "load_disk_loop left fd f =
     (if left = 0 then (0, fd, f)
      else let buf_size = min NAND_DEV_SAVE_DISK_BUF_SIZE left;
               (bs, f1) = st_get_buffer f buf_size
           in if length bs \<noteq> buf_size then (- EIO, fd, f1)
              else let (ret, fd1) = do_write bs fd
                   in if ret \<noteq> int buf_size then (- EIO, fd1, f1) else load_disk_loop (left - buf_size) fd1 f1)"
  by pat_completeness auto
termination
  by (relation "measure (\<lambda>(left, fd, f). left)") (auto simp: NAND_DEV_SAVE_DISK_BUF_SIZE_def)

declare load_disk_loop.simps [simp del]

definition nand_dev_load_disk_state :: "rstream \<Rightarrow> nand_dev \<Rightarrow> int \<times> nand_dev \<times> rstream" where
  "nand_dev_load_disk_state f dev =
     (let (total_size, f1) = st_get_be64 f
      in if nd_max_size dev < total_size then (- EIO, dev, f1)
         else case nd_file dev of
                None \<Rightarrow> (- EIO, dev, f1)
              | Some fd \<Rightarrow>
                  let (ret, fd1, f2) = load_disk_loop (unat total_size) (do_lseek 0 fd) f1
                  in if ret \<noteq> 0 then (ret, dev\<lparr>nd_file := Some fd1\<rparr>, f2)
                     else let (ret, fd2) = do_ftruncate (unat total_size) fd1
                          in (if ret < 0 then - EIO else 0, dev\<lparr>nd_file := Some fd2\<rparr>, f2))"

fun nand_dev_load_disks :: "rstream \<Rightarrow> nand_dev list \<Rightarrow> int \<times> nand_dev list \<times> rstream" where
  "nand_dev_load_disks f [] = (0, [], f)"
| "nand_dev_load_disks f (dev # devs) =
     (let (ret, dev', f1) = nand_dev_load_disk_state f dev
      in if ret \<noteq> 0 then (ret, dev' # devs, f1)
         else let (ret, devs', f2) = nand_dev_load_disks f1 devs in (ret, dev' # devs', f2))"

definition nand_dev_controller_state_save :: "nand_dev_controller_state \<Rightarrow> nand_dev list \<Rightarrow> u8 list" where
  "nand_dev_controller_state_save s devs = qemu_put_struct nand_fields s @ nand_dev_save_disks devs"

definition nand_dev_controller_state_load ::
  "rstream \<Rightarrow> nand_dev_controller_state \<Rightarrow> nand_dev list \<Rightarrow> int \<Rightarrow>
   int \<times> nand_dev_controller_state \<times> nand_dev list \<times> rstream" where
  "nand_dev_controller_state_load f s devs version_id =
     (let (ret, s1, f1) =
            (if version_id = NAND_DEV_STATE_SAVE_VERSION then qemu_get_struct nand_fields f s
             else if version_id = NAND_DEV_STATE_SAVE_VERSION_LEGACY then
               let (ret, s1, f1) = qemu_get_struct nand_legacy_1_fields f s
               in if ret \<noteq> 0 then (ret, s1, f1)
                  else let (data, f2) = st_get_be32 f1
                       in qemu_get_struct nand_legacy_2_fields f2 (s1\<lparr>n_data := ucast data\<rparr>)
             else (- 1, s, f))
      in if ret \<noteq> 0 then (ret, s1, devs, f1)
         else let (ret, devs', f2) = nand_dev_load_disks f1 devs in (ret, s1, devs', f2))"

section \<open>The image as an array\<close>

text \<open>What a driver sees of an image: the bytes of the file, and erased bytes beyond its end.\<close>

definition file_byte :: "nand_file \<Rightarrow> nat \<Rightarrow> u8" where
  "file_byte f i = (if i < length (nf_bytes f) then nf_bytes f ! i else 0xff)"

definition nand_image :: "nand_dev \<Rightarrow> nat \<Rightarrow> u8" where
  "nand_image dev = (case nd_file dev of None \<Rightarrow> (\<lambda>i. 0xff) | Some f \<Rightarrow> file_byte f)"

lemma length_put_at [simp]: "length (put_at p bs d) = max (length d) (p + length bs)"
  by (simp add: put_at_def)

lemma put_at_put_at: "put_at (p + length a) b (put_at p a d) = put_at p (a @ b) d"
proof -
  define x where "x = take p d @ replicate (p - length d) 0"
  have x: "length x = p" by (simp add: x_def)
  have 1: "put_at p c d = x @ c @ drop (p + length c) d" for c by (simp add: put_at_def x_def)
  have "put_at (p + length a) b (x @ a @ drop (p + length a) d) =
      x @ a @ b @ drop (p + length a + length b) d"
    using x by (simp add: put_at_def ac_simps)
  then show ?thesis unfolding 1 by (simp add: ac_simps)
qed

lemma put_at_nth:
  assumes "p \<le> length d"
  shows "i < length (put_at p bs d) \<Longrightarrow>
    put_at p bs d ! i = (if p \<le> i \<and> i < p + length bs then bs ! (i - p) else d ! i)"
  using assms by (auto simp: put_at_def nth_append min_def)

lemma file_byte_put_at:
  assumes "nf_pos f \<le> length (nf_bytes f)"
  shows "file_byte (f\<lparr>nf_bytes := put_at (nf_pos f) bs (nf_bytes f), nf_pos := k\<rparr>) i =
    (if nf_pos f \<le> i \<and> i < nf_pos f + length bs then bs ! (i - nf_pos f) else file_byte f i)"
  using assms put_at_nth [OF assms, of i bs] by (auto simp: file_byte_def)

lemma do_write_ok:
  assumes "nf_writable f" and "nf_pos f + length bs \<le> nf_limit f"
  shows "do_write bs f =
    (int (length bs), f\<lparr>nf_bytes := put_at (nf_pos f) bs (nf_bytes f), nf_pos := nf_pos f + length bs\<rparr>)"
  using assms by (auto simp: do_write_def Let_def min_absorb1 le_diff_conv2)

lemma full_write: "n < 2 ^ 64 \<Longrightarrow> \<not> short_write (int n) n"
  by (simp add: short_write_def unat_of_nat)

lemma window_blit_prefix: "length bs = n \<Longrightarrow> window (blit buf 0 bs) 0 n = bs"
  using window_blit_same [of buf 0 bs] by simp

lemma write_loop_spec:
  assumes "page_bits u < 64" and "mapped u data len" and "nf_writable f" and "nf_pos f + len \<le> nf_limit f"
    and "0 < write_len" and "len < 2 ^ 64"
  shows "\<exists>buf'. nand_write_loop u mem f buf data len write_len =
    Some (f\<lparr>nf_bytes := (if len = 0 then nf_bytes f else put_at (nf_pos f) (read_bytes u mem data len) (nf_bytes f)),
            nf_pos := nf_pos f + len\<rparr>, buf', 0)"
  using assms(2-6)
proof (induction len arbitrary: f buf data write_len rule: less_induct)
  case (less len)
  show ?case
  proof (cases "len = 0")
    case False
    define n where "n = (if len < write_len then len else write_len)"
    have n: "0 < n" "n \<le> len" "n < 2 ^ 64" using False less.prems by (auto simp: n_def)
    have m: "mapped u data n" "mapped u (data + word_of_nat n) (len - n)"
      using less.prems(1) mapped_add [of u data n "len - n"] n(2) by simp_all
    let ?bs = "read_bytes u mem data n"
    have l: "length ?bs = n" by (simp add: read_bytes_def addr_range_def)
    let ?f = "f\<lparr>nf_bytes := put_at (nf_pos f) ?bs (nf_bytes f), nf_pos := nf_pos f + n\<rparr>"
    have w: "do_write (window (blit buf 0 ?bs) 0 n) f = (int n, ?f)"
      using do_write_ok [of f ?bs] less.prems(2,3) n(2) l by (simp add: window_blit_prefix)
    have r: "nand_write_loop u mem f buf data len write_len =
        nand_write_loop u mem ?f (blit buf 0 ?bs) (data + word_of_nat n) (len - n) n"
      using False less.prems(4) w full_write [OF n(3)] memory_read_mapped [OF m(1) assms(1), of mem]
      by (subst nand_write_loop.simps) (simp add: Let_def n_def [symmetric])
    have "read_bytes u mem data len = ?bs @ read_bytes u mem (data + word_of_nat n) (len - n)"
      using read_bytes_add [of u mem data n "len - n"] n(2) by simp
    then have p: "put_at (nf_pos f + n) (read_bytes u mem (data + word_of_nat n) (len - n)) (put_at (nf_pos f) ?bs (nf_bytes f)) =
        put_at (nf_pos f) (read_bytes u mem data len) (nf_bytes f)"
      using put_at_put_at [of "nf_pos f" ?bs] l by simp
    show ?thesis
    proof (cases "n = len")
      case True
      then show ?thesis using r less.prems False by (simp add: nand_write_loop.simps [of _ _ _ _ _ 0])
    next
      case neq: False
      then show ?thesis
        using less.IH [of "len - n" "data + word_of_nat n" ?f n "blit buf 0 ?bs"] m(2) less.prems n r p by simp
    qed
  qed (simp add: nand_write_loop.simps)
qed

lemma erase_loop_spec:
  assumes "nf_writable f" and "nf_pos f + len \<le> nf_limit f" and "0 < write_len" and "write_len \<le> e" and "len < 2 ^ 64"
    and "\<forall>i < e. buf i = 0xff"
  shows "nand_erase_loop f buf len write_len =
    Some (f\<lparr>nf_bytes := (if len = 0 then nf_bytes f else put_at (nf_pos f) (replicate len 0xff) (nf_bytes f)),
            nf_pos := nf_pos f + len\<rparr>, 0)"
  using assms(1-5)
proof (induction len arbitrary: f write_len rule: less_induct)
  case (less len)
  show ?case
  proof (cases "len = 0")
    case False
    define n where "n = (if len < write_len then len else write_len)"
    have n: "0 < n" "n \<le> len" "n < 2 ^ 64" "n \<le> e" using False less.prems by (auto simp: n_def)
    let ?bs = "replicate n (0xff :: u8)"
    have b: "window buf 0 n = ?bs" using assms(6) n(4) by (intro nth_equalityI) (auto simp: window_def)
    let ?f = "f\<lparr>nf_bytes := put_at (nf_pos f) ?bs (nf_bytes f), nf_pos := nf_pos f + n\<rparr>"
    have w: "do_write (window buf 0 n) f = (int n, ?f)"
      using do_write_ok [of f ?bs] less.prems(1,2) n(2) b by simp
    have r: "nand_erase_loop f buf len write_len = nand_erase_loop ?f buf (len - n) n"
      using False less.prems(3) w full_write [OF n(3)]
      by (subst nand_erase_loop.simps) (simp add: Let_def n_def [symmetric])
    have p: "put_at (nf_pos f + n) (replicate (len - n) 0xff) (put_at (nf_pos f) ?bs (nf_bytes f)) =
        put_at (nf_pos f) (replicate len 0xff) (nf_bytes f)"
      using put_at_put_at [of "nf_pos f" ?bs "replicate (len - n) 0xff"] n(2) by (simp flip: replicate_add)
    show ?thesis
    proof (cases "n = len")
      case True
      then show ?thesis using r False by (simp add: nand_erase_loop.simps [of _ _ 0])
    next
      case neq: False
      then show ?thesis using less.IH [of "len - n" ?f n] less.prems n r p by simp
    qed
  qed (simp add: nand_erase_loop.simps)
qed

definition file_range :: "nand_file \<Rightarrow> nat \<Rightarrow> nat \<Rightarrow> u8 list" where
  "file_range f q n = map (file_byte f) [q..<q + n]"

lemma file_range_add: "file_range f q (m + n) = file_range f q m @ file_range f (q + m) n"
  using upt_add_eq_append [of q "q + m" n] by (simp add: file_range_def add.assoc)

lemma length_file_range [simp]: "length (file_range f q n) = n"
  by (simp add: file_range_def)

lemma file_range_inside:
  "q + n \<le> length (nf_bytes f) \<Longrightarrow> file_range f q n = take n (drop q (nf_bytes f))"
  by (rule nth_equalityI) (auto simp: file_range_def file_byte_def)

lemma file_range_beyond: "length (nf_bytes f) \<le> q \<Longrightarrow> file_range f q n = replicate n 0xff"
  by (rule nth_equalityI) (auto simp: file_range_def file_byte_def)

lemma guest_store_mapped:
  "page_bits u < 64 \<Longrightarrow> mapped u addr (length bs) \<Longrightarrow> guest_store u addr bs mem = write_bytes u mem addr bs"
  by (simp add: guest_store_def memory_write_mapped)

text \<open>
  The state of the loop that reads: \<open>q\<close> is the offset of the next byte in the image. After a short read, and once the end of the
  file was seen, only erased bytes are left.
\<close>

definition read_state :: "nat \<Rightarrow> nand_file \<Rightarrow> (nat \<Rightarrow> u8) \<Rightarrow> nat \<Rightarrow> nat \<Rightarrow> bool \<Rightarrow> bool" where
  "read_state e f buf q read_len eof \<longleftrightarrow> read_len \<le> e \<and>
     (if read_len < e \<or> eof then length (nf_bytes f) \<le> q else nf_pos f = q) \<and>
     (eof \<longrightarrow> (\<forall>i < e. buf i = 0xff))"

lemma window_replicate: "n \<le> e \<Longrightarrow> \<forall>i < e. buf i = x \<Longrightarrow> window buf 0 n = replicate n x"
  by (rule nth_equalityI) auto

lemma blit_replicate: "i < e \<Longrightarrow> blit buf 0 (replicate e x) i = x"
  using window_blit_same [of buf 0 "replicate e x"] by (metis add.left_neutral length_replicate nth_replicate nth_window)

text \<open>One pass of the loop: \<open>n\<close> bytes at \<open>q\<close>.\<close>

lemma read_loop_pass:
  assumes "0 < e" and "0 < len" and st: "read_state e f buf q read_len eof"
  shows "\<exists>n k buf' eof'. nand_read_loop u e f buf mem data len read_len eof =
       nand_read_loop u e (f\<lparr>nf_pos := k\<rparr>) buf' (guest_store u data (file_range f q n) mem)
         (data + word_of_nat n) (len - n) n eof' \<and>
    n \<le> len \<and> 2 * (len - n) + of_bool (e \<le> n) < 2 * len + (of_bool (e \<le> read_len) :: nat) \<and>
    (0 < len - n \<longrightarrow> read_state e (f\<lparr>nf_pos := k\<rparr>) buf' (q + n) n eof')"
proof (cases "read_len < e \<or> eof")
  case True
  define buf1 where "buf1 = (if read_len < e then blit buf 0 (replicate e 0xff) else buf)"
  have b: "\<forall>i < e. buf1 i = 0xff" using st True by (auto simp: buf1_def read_state_def blit_replicate)
  have q: "length (nf_bytes f) \<le> q" using st True by (simp add: read_state_def)
  let ?n = "min len e"
  have w: "window buf1 0 ?n = file_range f q ?n"
    using file_range_beyond [OF q, of ?n] window_replicate [OF _ b, of ?n] by simp
  have rl: "(if read_len < e then e else read_len) = e" using st by (auto simp: read_state_def)
  have "nand_read_loop u e f buf mem data len read_len eof =
      nand_read_loop u e f buf1 (guest_store u data (window buf1 0 ?n) mem) (data + word_of_nat ?n) (len - ?n) ?n True"
    using assms(1,2) True rl
    by (subst nand_read_loop.simps) (auto simp: Let_def buf1_def min_def split: if_splits)
  then have r: "nand_read_loop u e f buf mem data len read_len eof =
      nand_read_loop u e (f\<lparr>nf_pos := nf_pos f\<rparr>) buf1 (guest_store u data (file_range f q ?n) mem) (data + word_of_nat ?n)
        (len - ?n) ?n True"
    unfolding w by simp
  show ?thesis
    by (intro exI conjI, rule r) (use b q assms(1,2) in \<open>auto simp: read_state_def\<close>)
next
  case False
  then have rl: "read_len = e" "nf_pos f = q" "\<not> eof" using st by (auto simp: read_state_def)
  let ?bs = "take (min len e) (drop q (nf_bytes f))"
  let ?n = "length ?bs"
  have w: "?bs = file_range f q ?n"
    by (rule nth_equalityI) (auto simp: file_range_def file_byte_def)
  have "nand_read_loop u e f buf mem data len read_len eof =
      nand_read_loop u e (f\<lparr>nf_pos := q + ?n\<rparr>) (blit buf 0 ?bs) (guest_store u data ?bs mem) (data + word_of_nat ?n) (len - ?n) ?n False"
    using assms(1,2) rl
    by (subst nand_read_loop.simps) (auto simp: Let_def do_read_def min_def window_blit_prefix)
  then have r: "nand_read_loop u e f buf mem data len read_len eof =
      nand_read_loop u e (f\<lparr>nf_pos := q + ?n\<rparr>) (blit buf 0 ?bs) (guest_store u data (file_range f q ?n) mem) (data + word_of_nat ?n)
        (len - ?n) ?n False"
    using w by simp
  show ?thesis
    by (intro exI conjI, rule r) (use assms(1,2) rl in \<open>auto simp: read_state_def min_def split: if_splits\<close>)
qed

lemma read_loop_spec:
  assumes "page_bits u < 64" and "mapped u data len" and "0 < e" and "0 < len \<Longrightarrow> read_state e f buf q read_len eof"
  shows "\<exists>k buf'. nand_read_loop u e f buf mem data len read_len eof =
    Some (f\<lparr>nf_pos := k\<rparr>, buf', write_bytes u mem data (file_range f q len))"
  using assms(2,4)
proof (induction "2 * len + (of_bool (e \<le> read_len) :: nat)" arbitrary: f buf mem data len read_len eof q rule: less_induct)
  case less
  show ?case
  proof (cases "len = 0")
    case True
    then show ?thesis by (intro exI [of _ "nf_pos f"] exI [of _ buf]) (simp add: nand_read_loop.simps file_range_def)
  next
    case False
    then have len: "0 < len" and st: "read_state e f buf q read_len eof" using less.prems(2) by simp_all
    obtain n k buf' eof' where p:
      "nand_read_loop u e f buf mem data len read_len eof =
         nand_read_loop u e (f\<lparr>nf_pos := k\<rparr>) buf' (guest_store u data (file_range f q n) mem)
           (data + word_of_nat n) (len - n) n eof'"
      "n \<le> len" "2 * (len - n) + of_bool (e \<le> n) < 2 * len + (of_bool (e \<le> read_len) :: nat)"
      "0 < len - n \<longrightarrow> read_state e (f\<lparr>nf_pos := k\<rparr>) buf' (q + n) n eof'"
      using read_loop_pass [OF assms(3) len st, of u mem data] by (elim exE conjE) (rule that)
    have m: "mapped u data n" "mapped u (data + word_of_nat n) (len - n)"
      using less.prems(1) mapped_add [of u data n "len - n"] p(2) by simp_all
    have fr: "file_range (f\<lparr>nf_pos := k\<rparr>) = file_range f" for k by (simp add: file_range_def file_byte_def fun_eq_iff)
    have "write_bytes u mem data (file_range f q len) =
        write_bytes u (write_bytes u mem data (file_range f q n)) (data + word_of_nat n) (file_range f (q + n) (len - n))"
      using file_range_add [of f q n "len - n"] p(2) by (simp add: write_bytes_append)
    then show ?thesis
      using less.hyps [OF p(3) m(2) p(4) [rule_format], of "guest_store u data (file_range f q n) mem"] p(1) guest_store_mapped [OF assms(1), of data "file_range f q n" mem] m(1)
      by (auto simp: fr)
  qed
qed

section \<open>Commands on the image\<close>

text \<open>
  A command that reaches an image: the device exists, has a file and a legal geometry, the range lies inside the image, and
  the guest buffer is mapped.
\<close>

definition nand_address :: "nand_dev_controller_state \<Rightarrow> u64" where
  "nand_address s = ucast (n_addr_low s) OR push_bit 32 (ucast (n_addr_high s))"

definition nand_selected :: "nand_dev_controller_state \<Rightarrow> nand_dev list \<Rightarrow> nand_dev \<Rightarrow> nand_file \<Rightarrow> bool" where
  "nand_selected s devs dev f \<longleftrightarrow> unat (n_dev s) < length devs \<and> devs ! unat (n_dev s) = dev \<and> nd_file dev = Some f \<and>
     nd_erase_size dev \<noteq> 0 \<and> 0 \<le> sint (nd_max_size dev) \<and>
     unat (nand_address s) + unat (n_transfer_size s) \<le> unat (nd_max_size dev) \<and> n_transfer_size s \<noteq> 0"

definition nand_writable :: "nand_dev_controller_state \<Rightarrow> nand_dev \<Rightarrow> nand_file \<Rightarrow> bool" where
  "nand_writable s dev f \<longleftrightarrow> nf_writable f \<and> nd_flags dev AND NAND_DEV_FLAG_READ_ONLY = 0 \<and>
     unat (nd_max_size dev) \<le> nf_limit f \<and> unat (nand_address s) \<le> length (nf_bytes f)"

definition nand_buffer :: "nand_env \<Rightarrow> nand_dev_controller_state \<Rightarrow> bool" where
  "nand_buffer e s \<longleftrightarrow> page_bits (ne_mmu e) < 64 \<and> mapped (ne_mmu e) (n_data s) (unat (n_transfer_size s))"

lemma nand_selected_facts:
  assumes "nand_selected s devs dev f"
  shows "\<not> nd_max_size dev \<le> nand_address s" and "clip_size dev (nand_address s) (n_transfer_size s) = n_transfer_size s"
    and "do_lseek (nand_address s) g = g\<lparr>nf_pos := unat (nand_address s)\<rparr>" and "0 < unat (nd_erase_size dev)"
    and "unat (n_transfer_size s) < 2 ^ 64"
proof -
  let ?a = "nand_address s" and ?n = "n_transfer_size s" and ?m = "nd_max_size dev"
  have le: "unat ?a + unat ?n \<le> unat ?m" "?n \<noteq> 0" "0 \<le> sint ?m" using assms by (auto simp: nand_selected_def)
  have n: "0 < unat ?n" using le(2) by (simp add: unat_gt_0)
  have n64: "unat (ucast ?n :: u64) = unat ?n" by (simp add: unsigned_ucast_eq take_bit_nat_eq_self_iff)
      (use unat_bound [of ?n] in simp)
  show a: "\<not> ?m \<le> ?a" using le(1) n by (simp add: word_le_nat_alt)
  then have "unat (?m - ?a) = unat ?m - unat ?a" by (simp add: unat_sub not_le)
  moreover have "unat ?n \<le> unat ?m - unat ?a" using le(1) by simp
  ultimately show "clip_size dev ?a ?n = ?n" using n64 by (simp add: clip_size_def word_less_nat_alt not_less)
  have "unat ?a < 2 ^ 63" using le(1,3) unfolding sint_nonneg by simp
  then have "\<not> sint ?a < 0" using sint_nonneg [of ?a] by simp
  then show "do_lseek ?a g = g\<lparr>nf_pos := unat ?a\<rparr>" by (simp add: do_lseek_def)
  show "0 < unat (nd_erase_size dev)" using assms by (simp add: nand_selected_def unat_gt_0)
  show "unat ?n < 2 ^ 64" using unat_bound [of ?n] by simp
qed

text \<open>The three commands as operations on the array a driver sees.\<close>

lemma nand_read_image:
  assumes "nand_selected s devs dev f" and "nand_buffer e s"
  shows "\<exists>k buf e'. nand_dev_do_cmd NAND_CMD_READ s devs e =
      Some (Inr (n_transfer_size s, s, devs[unat (n_dev s) := dev\<lparr>nd_file := Some (f\<lparr>nf_pos := k\<rparr>), nd_data := buf\<rparr>], e')) \<and>
    ne_mem e' = write_bytes (ne_mmu e) (ne_mem e) (n_data s)
      (map (nand_image dev) [unat (nand_address s)..<unat (nand_address s) + unat (n_transfer_size s)])"
proof -
  note facts = nand_selected_facts [OF assms(1)]
  have sel: "unat (n_dev s) < length devs" "devs ! unat (n_dev s) = dev" "nd_file dev = Some f"
    using assms(1) by (auto simp: nand_selected_def)
  let ?f = "f\<lparr>nf_pos := unat (nand_address s)\<rparr>"
  have b: "page_bits (ne_mmu e) < 64" "mapped (ne_mmu e) (n_data s) (unat (n_transfer_size s))"
    using assms(2) by (auto simp: nand_buffer_def)
  have st: "read_state (unat (nd_erase_size dev)) ?f (nd_data dev) (unat (nand_address s)) (unat (nd_erase_size dev)) False"
    by (simp add: read_state_def)
  obtain k buf where l: "nand_read_loop (ne_mmu e) (unat (nd_erase_size dev)) ?f (nd_data dev) (ne_mem e) (n_data s)
        (unat (n_transfer_size s)) (unat (nd_erase_size dev)) False =
      Some (?f\<lparr>nf_pos := k\<rparr>, buf, write_bytes (ne_mmu e) (ne_mem e) (n_data s)
        (file_range ?f (unat (nand_address s)) (unat (n_transfer_size s))))"
    using read_loop_spec [OF b facts(4) st] by blast
  have i: "file_range ?f = file_range f" "file_byte f = nand_image dev"
    using sel(3) by (simp_all add: file_range_def file_byte_def nand_image_def fun_eq_iff)
  show ?thesis
    using l sel facts(1-3) unfolding i file_range_def
    by (auto simp: nand_dev_do_cmd_def Let_def is_batch_def nand_cmd_defs cmd_read_def nand_dev_read_file_def split_beta
        simp flip: nand_address_def)
qed

lemma nand_write_image:
  assumes "nand_selected s devs dev f" and "nand_buffer e s" and "nand_writable s dev f"
  shows "\<exists>buf e'. let f' = f\<lparr>nf_bytes := put_at (unat (nand_address s)) (read_bytes (ne_mmu e) (ne_mem e) (n_data s) (unat (n_transfer_size s))) (nf_bytes f),
        nf_pos := unat (nand_address s) + unat (n_transfer_size s)\<rparr> in
    nand_dev_do_cmd NAND_CMD_WRITE s devs e =
      Some (Inr (n_transfer_size s, s, devs[unat (n_dev s) := dev\<lparr>nd_file := Some f', nd_data := buf\<rparr>], e')) \<and>
    ne_mem e' = ne_mem e"
proof -
  note facts = nand_selected_facts [OF assms(1)]
  have sel: "unat (n_dev s) < length devs" "devs ! unat (n_dev s) = dev" "nd_file dev = Some f" "n_transfer_size s \<noteq> 0"
    "unat (nand_address s) + unat (n_transfer_size s) \<le> unat (nd_max_size dev)"
    using assms(1) by (auto simp: nand_selected_def)
  have b: "page_bits (ne_mmu e) < 64" "mapped (ne_mmu e) (n_data s) (unat (n_transfer_size s))"
    using assms(2) by (auto simp: nand_buffer_def)
  have w: "nf_writable f" "nd_flags dev AND NAND_DEV_FLAG_READ_ONLY = 0"
    "unat (nand_address s) + unat (n_transfer_size s) \<le> nf_limit f"
    using assms(3) sel(5) by (auto simp: nand_writable_def)
  obtain buf where "nand_write_loop (ne_mmu e) (ne_mem e) (f\<lparr>nf_pos := unat (nand_address s)\<rparr>) (nd_data dev) (n_data s)
        (unat (n_transfer_size s)) (unat (nd_erase_size dev)) =
      Some (f\<lparr>nf_bytes := put_at (unat (nand_address s)) (read_bytes (ne_mmu e) (ne_mem e) (n_data s) (unat (n_transfer_size s))) (nf_bytes f),
        nf_pos := unat (nand_address s) + unat (n_transfer_size s)\<rparr>, buf, 0)"
    using write_loop_spec [OF b, of "f\<lparr>nf_pos := unat (nand_address s)\<rparr>" "unat (nd_erase_size dev)"] w facts(4,5) sel(4)
    by (auto simp: unat_eq_0)
  then show ?thesis
    using sel facts(1-3) w(2)
    by (auto simp: Let_def nand_dev_do_cmd_def is_batch_def nand_cmd_defs cmd_write_def nand_dev_write_file_def split_beta
        simp flip: nand_address_def)
qed

lemma nand_erase_image:
  assumes "nand_selected s devs dev f" and "nand_writable s dev f"
  shows "\<exists>buf. let f' = f\<lparr>nf_bytes := put_at (unat (nand_address s)) (replicate (unat (n_transfer_size s)) 0xff) (nf_bytes f),
        nf_pos := unat (nand_address s) + unat (n_transfer_size s)\<rparr> in
    nand_dev_do_cmd NAND_CMD_ERASE s devs e =
      Some (Inr (n_transfer_size s, s, devs[unat (n_dev s) := dev\<lparr>nd_file := Some f', nd_data := buf\<rparr>], e))"
proof -
  note facts = nand_selected_facts [OF assms(1)]
  have sel: "unat (n_dev s) < length devs" "devs ! unat (n_dev s) = dev" "nd_file dev = Some f" "n_transfer_size s \<noteq> 0"
    "unat (nand_address s) + unat (n_transfer_size s) \<le> unat (nd_max_size dev)"
    using assms(1) by (auto simp: nand_selected_def)
  have w: "nf_writable f" "nd_flags dev AND NAND_DEV_FLAG_READ_ONLY = 0"
    "unat (nand_address s) + unat (n_transfer_size s) \<le> nf_limit f"
    using assms(2) sel(5) by (auto simp: nand_writable_def)
  let ?e = "unat (nd_erase_size dev)"
  let ?buf = "blit (nd_data dev) 0 (replicate ?e 0xff)"
  have "nand_erase_loop (f\<lparr>nf_pos := unat (nand_address s)\<rparr>) ?buf (unat (n_transfer_size s)) ?e =
      Some (f\<lparr>nf_bytes := put_at (unat (nand_address s)) (replicate (unat (n_transfer_size s)) 0xff) (nf_bytes f),
        nf_pos := unat (nand_address s) + unat (n_transfer_size s)\<rparr>, 0)"
    using erase_loop_spec [of "f\<lparr>nf_pos := unat (nand_address s)\<rparr>" "unat (n_transfer_size s)" ?e ?e ?buf] w facts(4,5) sel(4)
    by (auto simp: unat_eq_0 blit_replicate)
  then show ?thesis
    using sel facts(1-3) w(2)
    by (auto simp: Let_def nand_dev_do_cmd_def is_batch_def nand_cmd_defs cmd_erase_def nand_dev_erase_file_def split_beta
        simp flip: nand_address_def)
qed

text \<open>A file that is not open for writing: every write fails with -1, which passes for a full write.\<close>

lemma write_loop_readonly:
  assumes "\<not> nf_writable f" and "0 < write_len" and "len < 2 ^ 64"
  shows "\<exists>buf'. nand_write_loop u mem f buf data len write_len = Some (f, buf', 0)"
  using assms(2,3)
proof (induction len arbitrary: buf data write_len rule: less_induct)
  case (less len)
  show ?case
  proof (cases "len = 0")
    case False
    define n where "n = (if len < write_len then len else write_len)"
    define buf1 where "buf1 = blit buf 0 (snd (memory_read u mem data n))"
    have n: "0 < n" "n \<le> len" "n < 2 ^ 64" using False less.prems by (auto simp: n_def)
    have "\<not> short_write (- 1) n" using n(3) by (simp add: short_write_def not_less unsigned_minus_1_eq_mask mask_eq_exp_minus_1)
    then have "nand_write_loop u mem f buf data len write_len =
        nand_write_loop u mem f buf1 (data + word_of_nat n) (len - n) n"
      using False less.prems(1) assms(1)
      by (subst nand_write_loop.simps) (simp add: Let_def do_write_def n_def [symmetric] buf1_def [symmetric])
    then show ?thesis using less.IH [of "len - n" n buf1 "data + word_of_nat n"] n less.prems by simp
  qed (simp add: nand_write_loop.simps)
qed

section \<open>Images in snapshots\<close>

lemma save_loop_all:
  assumes "length (nf_bytes f) - nf_pos f + cnt \<le> max_size"
  shows "save_disk_loop max_size f cnt = drop (nf_pos f) (nf_bytes f)"
  using assms
proof (induction max_size f cnt rule: save_disk_loop.induct)
  case (1 m f t)
  let ?B = NAND_DEV_SAVE_DISK_BUF_SIZE
  define bs where "bs = take ?B (drop (nf_pos f) (nf_bytes f))"
  let ?f = "f\<lparr>nf_pos := nf_pos f + length bs\<rparr>"
  have r: "do_read ?B f = (bs, ?f)" by (simp add: do_read_def bs_def Let_def)
  show ?case
  proof (cases "length bs = ?B \<and> t + length bs < m")
    case True
    then have "?B \<le> length (nf_bytes f) - nf_pos f" unfolding bs_def length_take length_drop by linarith
    with True have "save_disk_loop m ?f (t + length bs) = drop (nf_pos f + ?B) (nf_bytes f)"
      using "1.IH" [OF refl r [symmetric] refl True] "1.prems" by simp
    moreover have "bs @ drop (nf_pos f + ?B) (nf_bytes f) = drop (nf_pos f) (nf_bytes f)"
      by (simp add: bs_def add.commute flip: drop_drop)
    ultimately show ?thesis using True r by (subst save_disk_loop.simps) simp
  next
    case False
    then have "length (nf_bytes f) - nf_pos f \<le> ?B" using "1.prems" by (auto simp: bs_def)
    then have "bs = drop (nf_pos f) (nf_bytes f)" by (simp add: bs_def)
    then show ?thesis using False r by (subst save_disk_loop.simps) (auto simp: Let_def)
  qed
qed

lemma load_loop_all:
  assumes "nf_writable fd" and "nf_pos fd + length xs \<le> nf_limit fd"
  shows "\<exists>k. load_disk_loop (length xs) fd \<lparr>rs_bytes = xs @ bs, rs_error = e\<rparr> =
    (0, fd\<lparr>nf_bytes := (if xs = [] then nf_bytes fd else put_at (nf_pos fd) xs (nf_bytes fd)), nf_pos := k\<rparr>,
     \<lparr>rs_bytes = bs, rs_error = e\<rparr>)"
  using assms
proof (induction "length xs" arbitrary: xs fd rule: less_induct)
  case less
  show ?case
  proof (cases "xs = []")
    case True
    then show ?thesis by (intro exI [of _ "nf_pos fd"]) (simp add: load_disk_loop.simps)
  next
    case False
    define n where "n = min NAND_DEV_SAVE_DISK_BUF_SIZE (length xs)"
    define ys where "ys = take n xs"
    define zs where "zs = drop n xs"
    have n: "0 < n" "length ys = n" "length zs = length xs - n" "ys @ zs = xs" "n \<le> length xs"
      using False by (auto simp: NAND_DEV_SAVE_DISK_BUF_SIZE_def n_def ys_def zs_def)
    let ?fd = "fd\<lparr>nf_bytes := put_at (nf_pos fd) ys (nf_bytes fd), nf_pos := nf_pos fd + n\<rparr>"
    have w: "do_write ys fd = (int n, ?fd)" using do_write_ok [of fd ys] less.prems n(2,5) by simp
    have g: "st_get_buffer \<lparr>rs_bytes = xs @ bs, rs_error = e\<rparr> n = (ys, \<lparr>rs_bytes = zs @ bs, rs_error = e\<rparr>)"
      using get_buffer_append [of ys n "zs @ bs" e] n(2,4) by (simp flip: append_assoc)
    have r: "load_disk_loop (length xs) fd \<lparr>rs_bytes = xs @ bs, rs_error = e\<rparr> =
        load_disk_loop (length zs) ?fd \<lparr>rs_bytes = zs @ bs, rs_error = e\<rparr>"
      unfolding load_disk_loop.simps [of "length xs"] Let_def n_def [symmetric] g using w False n(2,3) by simp
    have p: "put_at (nf_pos fd + n) zs (put_at (nf_pos fd) ys (nf_bytes fd)) = put_at (nf_pos fd) xs (nf_bytes fd)"
      using put_at_put_at [of "nf_pos fd" ys zs "nf_bytes fd"] n(2,4) by simp
    have "length zs < length xs" "nf_writable ?fd" "nf_pos ?fd + length zs \<le> nf_limit ?fd"
      using less.prems n(1,3,5) by auto
    from less.hyps [OF this] obtain k where k: "load_disk_loop (length zs) ?fd \<lparr>rs_bytes = zs @ bs, rs_error = e\<rparr> =
        (0, ?fd\<lparr>nf_bytes := (if zs = [] then nf_bytes ?fd else put_at (nf_pos ?fd) zs (nf_bytes ?fd)), nf_pos := k\<rparr>,
         \<lparr>rs_bytes = bs, rs_error = e\<rparr>)"
      by blast
    have "zs = [] \<Longrightarrow> ys = xs" using n(4) by simp
    then show ?thesis using r k False p by (intro exI [of _ k]) (cases "zs = []"; simp)
  qed
qed

text \<open>The image of \<open>d\<close> can be restored in the device \<open>d'\<close> of the machine that loads the snapshot.\<close>

definition disk_restorable :: "nand_dev \<Rightarrow> nand_dev \<Rightarrow> bool" where
  "disk_restorable d d' \<longleftrightarrow> (\<exists>f f'. nd_file d = Some f \<and> nd_file d' = Some f' \<and>
     length (nf_bytes f) \<le> unat (nd_max_size d) \<and> length (nf_bytes f) \<le> unat (nd_max_size d') \<and>
     nf_writable f' \<and> length (nf_bytes f) \<le> nf_limit f')"

lemma lseek_0 [simp]: "do_lseek 0 f = f\<lparr>nf_pos := 0\<rparr>"
  by (simp add: do_lseek_def)

lemma disk_roundtrip:
  assumes "disk_restorable d d'"
  shows "\<exists>d''. nand_dev_load_disk_state \<lparr>rs_bytes = nand_dev_save_disk_state d @ bs, rs_error = e\<rparr> d' =
    (0, d'', \<lparr>rs_bytes = bs, rs_error = e\<rparr>) \<and> nand_image d'' = nand_image d"
proof -
  obtain f f' where f: "nd_file d = Some f" "nd_file d' = Some f'" "length (nf_bytes f) \<le> unat (nd_max_size d)"
      "length (nf_bytes f) \<le> unat (nd_max_size d')" "nf_writable f'" "length (nf_bytes f) \<le> nf_limit f'"
    using assms by (auto simp: disk_restorable_def)
  let ?n = "length (nf_bytes f)" and ?w = "word_of_nat (length (nf_bytes f)) :: u64"
  have n: "unat ?w = ?n" using f(3) unat_bound [of "nd_max_size d"] by (simp add: unat_of_nat)
  have save: "nand_dev_save_disk_state d = be64_bytes ?w @ nf_bytes f"
    using f(1,3) save_loop_all [of "f\<lparr>nf_pos := 0\<rparr>" 0] by (simp add: nand_dev_save_disk_state_def)
  have le: "\<not> nd_max_size d' < ?w" using f(4) n by (simp add: word_less_nat_alt not_less)
  obtain k where k: "load_disk_loop ?n (f'\<lparr>nf_pos := 0\<rparr>) \<lparr>rs_bytes = nf_bytes f @ bs, rs_error = e\<rparr> =
      (0, f'\<lparr>nf_bytes := (if nf_bytes f = [] then nf_bytes f' else put_at 0 (nf_bytes f) (nf_bytes f')), nf_pos := k\<rparr>,
       \<lparr>rs_bytes = bs, rs_error = e\<rparr>)"
    using load_loop_all [of "f'\<lparr>nf_pos := 0\<rparr>" "nf_bytes f" bs e] f(5,6) that by fastforce
  have t: "do_ftruncate ?n (f'\<lparr>nf_bytes := (if nf_bytes f = [] then nf_bytes f' else put_at 0 (nf_bytes f) (nf_bytes f')), nf_pos := k\<rparr>) =
      (0, f'\<lparr>nf_bytes := nf_bytes f, nf_pos := k\<rparr>)"
    using f(5,6) by (simp add: do_ftruncate_def put_at_def)
  show ?thesis
    unfolding save using f(2) le n k t
    by (auto simp: nand_dev_load_disk_state_def stream_get nand_image_def f(1) file_byte_def fun_eq_iff)
qed

lemma disks_roundtrip:
  assumes "list_all2 disk_restorable devs devs'"
  shows "\<exists>devs''. nand_dev_load_disks \<lparr>rs_bytes = nand_dev_save_disks devs @ bs, rs_error = e\<rparr> devs' =
    (0, devs'', \<lparr>rs_bytes = bs, rs_error = e\<rparr>) \<and> map nand_image devs'' = map nand_image devs"
  using assms
proof (induction devs devs' rule: list_all2_induct)
  case (Cons d devs d' devs')
  obtain d'' where d'': "nand_dev_load_disk_state \<lparr>rs_bytes = nand_dev_save_disk_state d @ nand_dev_save_disks devs @ bs, rs_error = e\<rparr> d' =
      (0, d'', \<lparr>rs_bytes = nand_dev_save_disks devs @ bs, rs_error = e\<rparr>)" "nand_image d'' = nand_image d"
    using disk_roundtrip [OF Cons.hyps(1)] by blast
  obtain ds where "nand_dev_load_disks \<lparr>rs_bytes = nand_dev_save_disks devs @ bs, rs_error = e\<rparr> devs' =
      (0, ds, \<lparr>rs_bytes = bs, rs_error = e\<rparr>)" "map nand_image ds = map nand_image devs"
    using Cons.IH by blast
  then show ?case using d'' by (intro exI [of _ "d'' # ds"]) (simp add: nand_dev_save_disks_def)
qed (simp add: nand_dev_save_disks_def)

section \<open>The controller as flash memory\<close>

text \<open>The specification: an image is an array of bytes, written range by range.\<close>

definition flash_put :: "(nat \<Rightarrow> u8) \<Rightarrow> nat \<Rightarrow> u8 list \<Rightarrow> nat \<Rightarrow> u8" where
  "flash_put img a bs = (\<lambda>i. if a \<le> i \<and> i < a + length bs then bs ! (i - a) else img i)"

lemma nand_image_put:
  assumes "nd_file dev = Some f" and "a \<le> length (nf_bytes f)"
  shows "nand_image (dev\<lparr>nd_file := Some (f\<lparr>nf_bytes := put_at a bs (nf_bytes f), nf_pos := k\<rparr>), nd_data := buf\<rparr>) =
    flash_put (nand_image dev) a bs"
  using assms put_at_nth [OF assms(2), of _ bs] by (auto simp: nand_image_def flash_put_def file_byte_def fun_eq_iff)

lemma map_same_update: "i < length xs \<Longrightarrow> f y = f (xs ! i) \<Longrightarrow> map f (xs[i := y]) = map f xs"
  using list_update_id [of "map f xs" i] by (simp add: map_update)

lemma nand_update_images:
  assumes "nand_selected s devs dev f" and "nand_writable s dev f"
  shows "map nand_image (devs[unat (n_dev s) := dev\<lparr>nd_file := Some (f\<lparr>nf_bytes := put_at (unat (nand_address s)) bs (nf_bytes f),
      nf_pos := k\<rparr>), nd_data := buf\<rparr>]) =
    (map nand_image devs)[unat (n_dev s) := flash_put (nand_image dev) (unat (nand_address s)) bs]"
  using nand_image_put [of dev f "unat (nand_address s)"] assms
  by (simp add: map_update nand_selected_def nand_writable_def)

lemma nand_read_flash:
  assumes "nand_selected s devs dev f" and "nand_buffer e s"
  shows "\<exists>devs' e'. nand_dev_do_cmd NAND_CMD_READ s devs e = Some (Inr (n_transfer_size s, s, devs', e')) \<and>
      map nand_image devs' = map nand_image devs \<and>
      ne_mem e' = write_bytes (ne_mmu e) (ne_mem e) (n_data s)
        (map (nand_image dev) [unat (nand_address s)..<unat (nand_address s) + unat (n_transfer_size s)])"
proof -
  have sel: "unat (n_dev s) < length devs" "devs ! unat (n_dev s) = dev" "nd_file dev = Some f"
    using assms(1) by (auto simp: nand_selected_def)
  have same: "nand_image (dev\<lparr>nd_file := Some (f\<lparr>nf_pos := k\<rparr>), nd_data := buf\<rparr>) = nand_image (devs ! unat (n_dev s))" for k buf
    using sel(2,3) by (simp add: nand_image_def file_byte_def fun_eq_iff)
  show ?thesis
    using nand_read_image [OF assms] by (elim exE conjE) (intro exI conjI, assumption, rule map_same_update [OF sel(1) same])
qed

lemma nand_write_flash:
  assumes "nand_selected s devs dev f" and "nand_buffer e s" and "nand_writable s dev f"
  shows "\<exists>devs' e'. nand_dev_do_cmd NAND_CMD_WRITE s devs e = Some (Inr (n_transfer_size s, s, devs', e')) \<and>
      map nand_image devs' = (map nand_image devs)[unat (n_dev s) := flash_put (nand_image dev) (unat (nand_address s))
        (read_bytes (ne_mmu e) (ne_mem e) (n_data s) (unat (n_transfer_size s)))] \<and> ne_mem e' = ne_mem e"
  using nand_write_image [OF assms] unfolding Let_def
  by (elim exE conjE) (intro exI conjI, assumption, rule nand_update_images [OF assms(1,3)])

lemma nand_erase_flash:
  assumes "nand_selected s devs dev f" and "nand_writable s dev f"
  shows "\<exists>devs'. nand_dev_do_cmd NAND_CMD_ERASE s devs e = Some (Inr (n_transfer_size s, s, devs', e)) \<and>
      map nand_image devs' = (map nand_image devs)[unat (n_dev s) := flash_put (nand_image dev) (unat (nand_address s))
        (replicate (unat (n_transfer_size s)) 0xff)]"
  using nand_erase_image [OF assms, of e] unfolding Let_def
  by (elim exE) (intro exI conjI, assumption, rule nand_update_images [OF assms])

lemma nand_fields_sized: "list_all field_sized nand_fields"
  by (simp add: nand_fields_def nand_legacy_1_fields_def nand_legacy_2_fields_def)

lemma nand_fields_copy: "copy_fields nand_fields s t = s"
  by (simp add: nand_fields_def nand_legacy_1_fields_def nand_legacy_2_fields_def)

section \<open>Properties\<close>

text \<open>C7: The controller implements flash memory. The selected device has an image file, a non-zero erase unit and a maximal size below \<open>2^63\<close>; the range is not empty and
  ends within that size; the whole guest buffer is mapped, by page tables that the transfer itself does not change. Then READ stores the bytes
  of the range in the guest, where bytes beyond the end of the file read as erased, changes no image and reports the full size. For WRITE and ERASE the file must moreover be
  open for writing, the device not marked as read-only, the host must have room for the maximal size, and the range must start no later than at the end of the file: then
  WRITE replaces the range by the bytes of the guest buffer and ERASE by 0xff, in the selected image and nowhere else, and both report the full size. Transfers longer than an
  erase unit go through the buffer in chunks. Without these conditions the claim says nothing of WRITE and ERASE: a write to a file that is not open for
  writing is lost although it reports its full size (\<open>nand_readonly_write_lost\<close>), and one beyond the end of the file fills the gap with zeros.\<close>

theorem nand_refines_flash:
  assumes "nand_selected s devs dev f" and "nand_buffer e s"
  shows "(\<exists>devs' e'. nand_dev_do_cmd NAND_CMD_READ s devs e = Some (Inr (n_transfer_size s, s, devs', e')) \<and>
      map nand_image devs' = map nand_image devs \<and>
      ne_mem e' = write_bytes (ne_mmu e) (ne_mem e) (n_data s)
        (map (nand_image dev) [unat (nand_address s)..<unat (nand_address s) + unat (n_transfer_size s)])) \<and>
    (nand_writable s dev f \<longrightarrow>
      (\<exists>devs' e'. nand_dev_do_cmd NAND_CMD_WRITE s devs e = Some (Inr (n_transfer_size s, s, devs', e')) \<and>
        map nand_image devs' = (map nand_image devs)[unat (n_dev s) := flash_put (nand_image dev) (unat (nand_address s))
          (read_bytes (ne_mmu e) (ne_mem e) (n_data s) (unat (n_transfer_size s)))] \<and> ne_mem e' = ne_mem e) \<and>
      (\<exists>devs'. nand_dev_do_cmd NAND_CMD_ERASE s devs e = Some (Inr (n_transfer_size s, s, devs', e)) \<and>
        map nand_image devs' = (map nand_image devs)[unat (n_dev s) := flash_put (nand_image dev) (unat (nand_address s))
          (replicate (unat (n_transfer_size s)) 0xff)]))"
  using nand_read_flash [OF assms] nand_write_flash [OF assms] nand_erase_flash [OF assms(1)] by blast

text \<open>An image of two erase units, addressed across their border.\<close>

definition sample_nand_dev :: nand_dev where
  "sample_nand_dev = \<lparr>nd_devname = ''data'', nd_data = (\<lambda>_. 0),
     nd_file = Some \<lparr>nf_bytes = [1, 2, 3, 4, 5], nf_pos = 0, nf_writable = True, nf_limit = 100\<rparr>,
     nd_flags = 0, nd_page_size = 4, nd_extra_size = 0, nd_erase_size = 4, nd_max_size = 8\<rparr>"

definition sample_nand_state :: nand_dev_controller_state where
  "sample_nand_state = nand_dev_init\<lparr>n_addr_low := 3, n_transfer_size := 5, n_data := 0x1000\<rparr>"

definition sample_nand_env :: nand_env where
  "sample_nand_env = \<lparr>ne_mmu = \<lparr>page_bits = 12, phys_page = Some\<rparr>, ne_mem = (\<lambda>a. ucast a + 7),
     ne_limits = \<lparr>nand_read_limit = ANDROID_NAND_LIMIT_INIT, nand_write_limit = ANDROID_NAND_LIMIT_INIT\<rparr>, ne_kills = [],
     ne_guest_64bit = False, ne_stack = replicate 32 0\<rparr>"

lemma sample_nand:
  "nand_selected sample_nand_state [sample_nand_dev] sample_nand_dev (the (nd_file sample_nand_dev))"
  "nand_buffer sample_nand_env sample_nand_state"
  "nand_writable sample_nand_state sample_nand_dev (the (nd_file sample_nand_dev))"
  "nand_address sample_nand_state = 3"
  by (simp_all add: nand_selected_def nand_buffer_def nand_writable_def nand_address_def sample_nand_state_def sample_nand_dev_def
      sample_nand_env_def nand_dev_init_def mapped_def addr_range_def translate_def list_all_iff)

theorem nand_refines_flash_witness:
  "(\<exists>devs' e'. nand_dev_do_cmd NAND_CMD_READ sample_nand_state [sample_nand_dev] sample_nand_env = Some (Inr (5, sample_nand_state, devs', e')) \<and>
      ne_mem e' = write_bytes (ne_mmu sample_nand_env) (ne_mem sample_nand_env) 0x1000 [4, 5, 0xff, 0xff, 0xff]) \<and>
   (\<exists>dev' e'. nand_dev_do_cmd NAND_CMD_WRITE sample_nand_state [sample_nand_dev] sample_nand_env = Some (Inr (5, sample_nand_state, [dev'], e')) \<and>
      map (nand_image dev') [0..<10] = [1, 2, 3, 7, 8, 9, 10, 11, 0xff, 0xff]) \<and>
   (\<exists>dev'. nand_dev_do_cmd NAND_CMD_ERASE sample_nand_state [sample_nand_dev] sample_nand_env = Some (Inr (5, sample_nand_state, [dev'], sample_nand_env)) \<and>
      map (nand_image dev') [0..<6] = [1, 2, 3, 0xff, 0xff, 0xff])"
proof -
  note r = nand_refines_flash [OF sample_nand(1,2)]
  have img: "nand_image sample_nand_dev = (\<lambda>i. if i < 5 then [1, 2, 3, 4, 5] ! i else 0xff)"
    by (simp add: nand_image_def sample_nand_dev_def file_byte_def fun_eq_iff)
  have st: "n_transfer_size sample_nand_state = 5" "n_data sample_nand_state = 0x1000" "n_dev sample_nand_state = 0"
    by (simp_all add: sample_nand_state_def nand_dev_init_def)
  have rb: "read_bytes (ne_mmu sample_nand_env) (ne_mem sample_nand_env) 0x1000 5 = [7, 8, 9, 10, 11]"
    by (simp add: read_bytes_def addr_range_def xlate_def translate_def sample_nand_env_def upt_rec mask_numeral)
  have one: "map g xs = [y] \<Longrightarrow> \<exists>x. xs = [x] \<and> g x = y" for g :: "nand_dev \<Rightarrow> nat \<Rightarrow> u8" and xs y by auto
  show ?thesis
    using r sample_nand(3) unfolding st sample_nand(4)
    by (auto simp: rb img flash_put_def upt_rec dest!: one)
qed

text \<open>C32: Snapshots of the controller. Loading a saved snapshot restores the registers and the contents of every image, whatever the
  registers and the images of the machine that loads it hold, provided every image has a file that fits in its device on both sides and
  that the loading side can write.\<close>

theorem nand_snapshot:
  assumes "list_all2 disk_restorable devs devs'"
  shows "\<exists>devs''. nand_dev_controller_state_load
      \<lparr>rs_bytes = nand_dev_controller_state_save s devs @ bs, rs_error = e\<rparr> s' devs' NAND_DEV_STATE_SAVE_VERSION =
      (0, s, devs'', \<lparr>rs_bytes = bs, rs_error = e\<rparr>) \<and> map nand_image devs'' = map nand_image devs"
  using disks_roundtrip [OF assms, of bs e] get_put_struct [OF nand_fields_sized, of s "nand_dev_save_disks devs @ bs" e s']
  by (auto simp: nand_dev_controller_state_load_def nand_dev_controller_state_save_def nand_fields_copy)

theorem nand_snapshot_witness:
  "\<exists>dev. nand_dev_controller_state_load
      \<lparr>rs_bytes = nand_dev_controller_state_save sample_nand_state [sample_nand_dev] @ [9], rs_error = 0\<rparr> nand_dev_init
      [sample_nand_dev\<lparr>nd_file := Some \<lparr>nf_bytes = [9, 9, 9, 9, 9, 9, 9], nf_pos = 3, nf_writable = True, nf_limit = 50\<rparr>\<rparr>]
      NAND_DEV_STATE_SAVE_VERSION = (0, sample_nand_state, [dev], \<lparr>rs_bytes = [9], rs_error = 0\<rparr>) \<and>
    map (nand_image dev) [0..<7] = [1, 2, 3, 4, 5, 0xff, 0xff]"
proof -
  have one: "map g xs = map g [d] \<Longrightarrow> \<exists>x. xs = [x] \<and> g x = g d" for g :: "nand_dev \<Rightarrow> nat \<Rightarrow> u8" and xs d by auto
  have img: "nand_image sample_nand_dev = (\<lambda>i. if i < 5 then [1, 2, 3, 4, 5] ! i else 0xff)"
    by (simp add: nand_image_def sample_nand_dev_def file_byte_def fun_eq_iff)
  have "list_all2 disk_restorable [sample_nand_dev]
      [sample_nand_dev\<lparr>nd_file := Some \<lparr>nf_bytes = [9, 9, 9, 9, 9, 9, 9], nf_pos = 3, nf_writable = True, nf_limit = 50\<rparr>\<rparr>]"
    by (simp add: disk_restorable_def sample_nand_dev_def)
  from nand_snapshot [OF this, of sample_nand_state "[9]" 0 nand_dev_init] show ?thesis
    by (elim exE conjE) (drule one, auto simp: img upt_rec)
qed

text \<open>A write that fails is reported as a success. When the file of an image is not open for writing while the
  device lacks the read-only flag, which no option sets, a WRITE reports that the full size was written and the image
  keeps its contents: the failure -1 of each write is compared as an unsigned number.\<close>

theorem nand_readonly_write_lost:
  assumes "nand_selected s devs dev f" and "\<not> nf_writable f" and "nd_flags dev AND NAND_DEV_FLAG_READ_ONLY = 0"
  shows "\<exists>devs' e'. nand_dev_do_cmd NAND_CMD_WRITE s devs e = Some (Inr (n_transfer_size s, s, devs', e')) \<and>
    map nand_image devs' = map nand_image devs"
proof -
  note facts = nand_selected_facts [OF assms(1)]
  have sel: "unat (n_dev s) < length devs" "devs ! unat (n_dev s) = dev" "nd_file dev = Some f"
    using assms(1) by (auto simp: nand_selected_def)
  have same: "nand_image (dev\<lparr>nd_file := Some (f\<lparr>nf_pos := k\<rparr>), nd_data := buf\<rparr>) = nand_image (devs ! unat (n_dev s))" for k buf
    using sel(2,3) by (simp add: nand_image_def file_byte_def fun_eq_iff)
  obtain buf where "nand_write_loop (ne_mmu e) (ne_mem e) (f\<lparr>nf_pos := unat (nand_address s)\<rparr>) (nd_data dev) (n_data s)
      (unat (n_transfer_size s)) (unat (nd_erase_size dev)) = Some (f\<lparr>nf_pos := unat (nand_address s)\<rparr>, buf, 0)"
    using write_loop_readonly [of "f\<lparr>nf_pos := unat (nand_address s)\<rparr>"] assms(2) facts(4,5) by fastforce
  then show ?thesis
    using sel facts(1-3) assms(3) map_same_update [OF sel(1) same]
    by (auto simp: nand_dev_do_cmd_def Let_def is_batch_def nand_cmd_defs cmd_write_def nand_dev_write_file_def split_beta
        simp flip: nand_address_def)
qed

theorem nand_readonly_write_lost_witness:
  "\<exists>devs' e'. nand_dev_do_cmd NAND_CMD_WRITE sample_nand_state [sample_nand_dev\<lparr>nd_file := Some \<lparr>nf_bytes = [1, 2, 3, 4, 5],
      nf_pos = 0, nf_writable = False, nf_limit = 0\<rparr>\<rparr>] sample_nand_env = Some (Inr (5, sample_nand_state, devs', e'))"
proof -
  let ?f = "\<lparr>nf_bytes = [1, 2, 3, 4, 5], nf_pos = 0, nf_writable = False, nf_limit = 0\<rparr>"
  have "nand_selected sample_nand_state [sample_nand_dev\<lparr>nd_file := Some ?f\<rparr>] (sample_nand_dev\<lparr>nd_file := Some ?f\<rparr>) ?f"
    using sample_nand(1) by (simp add: nand_selected_def sample_nand_state_def sample_nand_dev_def nand_dev_init_def)
  from nand_readonly_write_lost [OF this, of sample_nand_env] show ?thesis
    by (auto simp: sample_nand_dev_def sample_nand_state_def)
qed

end
