(* ===== verification/Android_Pipe.thy ===== *)
theory Android_Pipe
  imports Qemu_File
begin

text \<open>
  Android pipes, \<open>android/emulation/android_pipe.c\<close>: the registry of pipe services, the connector that collects
  the name of the service a guest asks for, and the save and load of one pipe. The callbacks of a service, a table
  of function pointers in C, are a record of functions on the state \<open>'c\<close> of its clients; a callback returns the calls
  it makes on the device side of its own pipe (\<open>android_pipe_wake\<close>, \<open>android_pipe_close\<close>) in their order. The
  pointer \<open>opaque\<close> of a service is part of its functions.
\<close>

section \<open>Services\<close>

definition PIPE_ERROR_INVAL :: int where "PIPE_ERROR_INVAL = - 1"
definition PIPE_ERROR_AGAIN :: int where "PIPE_ERROR_AGAIN = - 2"
definition PIPE_ERROR_IO :: int where "PIPE_ERROR_IO = - 4"

definition PIPE_WAKE_CLOSED :: u32 where "PIPE_WAKE_CLOSED = 1"
definition PIPE_WAKE_READ :: u32 where "PIPE_WAKE_READ = 2"
definition PIPE_WAKE_WRITE :: u32 where "PIPE_WAKE_WRITE = 4"

definition PIPE_POLL_IN :: u32 where "PIPE_POLL_IN = 1"
definition PIPE_POLL_OUT :: u32 where "PIPE_POLL_OUT = 2"

datatype hw_call = Close_from_host | Signal_wake u32

text \<open>A receive callback returns the bytes it stores in each buffer.\<close>

record 'c AndroidPipeFuncs =
  pf_init :: "u8 list option \<Rightarrow> ('c \<times> hw_call list) option"
  pf_close :: "'c option \<Rightarrow> unit res"
  pf_sendBuffers :: "'c \<Rightarrow> u8 list list \<Rightarrow> int \<times> 'c \<times> hw_call list"
  pf_recvBuffers :: "'c \<Rightarrow> nat list \<Rightarrow> int \<times> u8 list list \<times> 'c \<times> hw_call list"
  pf_poll :: "'c \<Rightarrow> u32"
  pf_wakeOn :: "'c \<Rightarrow> u32 \<Rightarrow> 'c \<times> hw_call list"
  pf_save :: "('c option \<Rightarrow> u8 list) option"
  pf_load :: "(u8 list option \<Rightarrow> rstream \<Rightarrow> 'c option \<times> rstream) option"

record 'c PipeService =
  ps_name :: "u8 list"
  ps_funcs :: "'c AndroidPipeFuncs"

type_synonym 'c PipeServices = "'c PipeService list"

definition cstr :: "string \<Rightarrow> u8 list" where
  "cstr s = map (\<lambda>c. word_of_nat (of_char c)) s"

definition MAX_PIPE_SERVICES :: nat where "MAX_PIPE_SERVICES = 16"
definition MAX_PIPE_SERVICE_NAME_SIZE :: nat where "MAX_PIPE_SERVICE_NAME_SIZE = 255"

text \<open>\<open>APANIC\<close> ends the emulator.\<close>

definition android_pipe_add_type :: "u8 list \<Rightarrow> 'c AndroidPipeFuncs \<Rightarrow> 'c PipeServices \<Rightarrow> 'c PipeServices res" where
  "android_pipe_add_type pipeName pipeFuncs svcs =
     (if MAX_PIPE_SERVICES \<le> length svcs then Inl Exit_Failure
      else if MAX_PIPE_SERVICE_NAME_SIZE < length pipeName then Inl Exit_Failure
      else Inr (svcs @ [\<lparr>ps_name = pipeName, ps_funcs = pipeFuncs\<rparr>]))"

definition android_pipe_reset_services :: "'c PipeServices \<Rightarrow> 'c PipeServices" where
  "android_pipe_reset_services svcs = []"

fun android_pipe_service_find :: "'c PipeServices \<Rightarrow> u8 list \<Rightarrow> 'c PipeService option" where
  "android_pipe_service_find [] serviceName = None"
| "android_pipe_service_find (svc # svcs) serviceName =
     (if ps_name svc = serviceName then Some svc else android_pipe_service_find svcs serviceName)"

section \<open>Pipes and connectors\<close>

text \<open>
  The connector holds the first \<open>buffpos\<close> bytes of its buffer of 128 bytes; the others are zero. \<open>pc_owned\<close> tells whether its
  field \<open>pipe\<close> points to the pipe: a connector made by a load has the device side of the pipe there, an object of
  another type.
\<close>

record PipeConnector =
  pc_buffer :: "u8 list"
  pc_owned :: bool

definition CONNECTOR_SIZE :: nat where "CONNECTOR_SIZE = 128"

text \<open>The fields \<open>opaque\<close>, \<open>funcs\<close> and \<open>service\<close>: a pipe being opened, or a client of a service. The client is the null
  pointer in a pipe loaded for a service that cannot load the state of its clients.\<close>

datatype 'c pipe_end = Connecting PipeConnector | Connected "'c PipeService" "'c option"

record 'c Pipe =
  p_end :: "'c pipe_end"
  p_args :: "u8 list option"

definition pipeConnector_new :: PipeConnector where
  "pipeConnector_new = \<lparr>pc_buffer = [], pc_owned = True\<rparr>"

definition android_pipe_new :: "'c Pipe" where
  "android_pipe_new = \<lparr>p_end = Connecting pipeConnector_new, p_args = None\<rparr>"

text \<open>Filling the buffer of the connector; what does not fit is left.\<close>

fun connector_fill :: "u8 list list \<Rightarrow> u8 list \<Rightarrow> u8 list \<times> nat" where
  "connector_fill [] buf = (buf, 0)"
| "connector_fill (b # bufs) buf =
     (let avail = min (CONNECTOR_SIZE - length buf) (length b);
          (buf', n) = connector_fill bufs (buf @ take avail b)
      in (buf', avail + n))"

definition COLON :: u8 where "COLON = 58"

text \<open>A string up to its first colon, and what follows it.\<close>

definition split_colon :: "u8 list \<Rightarrow> u8 list \<times> u8 list option" where
  "split_colon s =
     (takeWhile (\<lambda>b. b \<noteq> COLON) s,
      case dropWhile (\<lambda>b. b \<noteq> COLON) s of [] \<Rightarrow> None | _ # rest \<Rightarrow> Some rest)"

text \<open>
  The service a connection string asks for after \<open>pipe:\<close>, with its arguments and the offset at which the buffer was cut:
  a name \<open>qemud:x\<close> is first looked up as a whole and then as \<open>qemud\<close> with the arguments \<open>x\<close>.
\<close>

definition connector_service :: "'c PipeServices \<Rightarrow> u8 list \<Rightarrow> 'c PipeService option \<times> u8 list option \<times> nat" where
  "connector_service svcs pipeName =
     (let (name1, args1) = split_colon pipeName;
          plain = (android_pipe_service_find svcs name1, args1, length name1)
      in if take 6 pipeName = cstr ''qemud:'' then
           let (name2, args2) = split_colon (drop 6 pipeName)
           in case android_pipe_service_find svcs (cstr ''qemud:'' @ name2) of
                Some svc \<Rightarrow> (Some svc, args2, 6 + length name2)
              | None \<Rightarrow> plain
         else plain)"

definition pipeConnector_sendBuffers ::
  "'c PipeServices \<Rightarrow> PipeConnector \<Rightarrow> 'c Pipe \<Rightarrow> u8 list list \<Rightarrow> (int \<times> 'c Pipe \<times> hw_call list) res" where
  "pipeConnector_sendBuffers svcs pcon pipe buffers =
     (let (buf, ret) = connector_fill buffers (pc_buffer pcon);
          keep = (\<lambda>b. pipe\<lparr>p_end := Connecting (pcon\<lparr>pc_buffer := b\<rparr>)\<rparr>)
      in if 0 \<notin> set buf then Inr (int ret, keep buf, [])
         else let s = takeWhile (\<lambda>b. b \<noteq> 0) buf
              in if take 5 s \<noteq> cstr ''pipe:'' then Inr (PIPE_ERROR_INVAL, keep buf, [])
                 else let (svc, args, cut) = connector_service svcs (drop 5 s);
                          buf' = (if args = None then buf else buf[5 + cut := 0])
                      in case svc of
                           None \<Rightarrow> Inr (PIPE_ERROR_INVAL, keep buf', [])
                         | Some svc \<Rightarrow>
                             case pf_init (ps_funcs svc) args of
                               None \<Rightarrow> Inr (PIPE_ERROR_INVAL, keep buf', [])
                             | Some (peer, calls) \<Rightarrow>
                                 if pc_owned pcon
                                 then Inr (int ret, pipe\<lparr>p_end := Connected svc (Some peer), p_args := args\<rparr>, calls)
                                 else Inl Undefined)"

section \<open>Calls of the device\<close>

text \<open>A callback other than \<open>close\<close> reads its client; only \<open>close\<close> may be prepared for the null pointer.\<close>

definition with_client :: "'c option \<Rightarrow> ('c \<Rightarrow> 'a res) \<Rightarrow> 'a res" where
  "with_client opaque f = (case opaque of None \<Rightarrow> Inl Undefined | Some c \<Rightarrow> f c)"

definition android_pipe_free :: "'c Pipe \<Rightarrow> unit res" where
  "android_pipe_free pipe =
     (case p_end pipe of Connecting _ \<Rightarrow> Inr () | Connected svc opaque \<Rightarrow> pf_close (ps_funcs svc) opaque)"

definition android_pipe_poll :: "'c Pipe \<Rightarrow> u32 res" where
  "android_pipe_poll pipe =
     (case p_end pipe of
        Connecting _ \<Rightarrow> Inr PIPE_POLL_OUT
      | Connected svc opaque \<Rightarrow> with_client opaque (\<lambda>c. Inr (pf_poll (ps_funcs svc) c)))"

definition android_pipe_recv :: "'c Pipe \<Rightarrow> nat list \<Rightarrow> (int \<times> u8 list list \<times> 'c Pipe \<times> hw_call list) res" where
  "android_pipe_recv pipe sizes =
     (case p_end pipe of
        Connecting _ \<Rightarrow> Inr (PIPE_ERROR_IO, [], pipe, [])
      | Connected svc opaque \<Rightarrow> with_client opaque (\<lambda>c.
          let (ret, bss, c', calls) = pf_recvBuffers (ps_funcs svc) c sizes
          in Inr (ret, bss, pipe\<lparr>p_end := Connected svc (Some c')\<rparr>, calls)))"

definition android_pipe_send :: "'c PipeServices \<Rightarrow> 'c Pipe \<Rightarrow> u8 list list \<Rightarrow> (int \<times> 'c Pipe \<times> hw_call list) res" where
  "android_pipe_send svcs pipe buffers =
     (case p_end pipe of
        Connecting pcon \<Rightarrow> pipeConnector_sendBuffers svcs pcon pipe buffers
      | Connected svc opaque \<Rightarrow> with_client opaque (\<lambda>c.
          let (ret, c', calls) = pf_sendBuffers (ps_funcs svc) c buffers
          in Inr (ret, pipe\<lparr>p_end := Connected svc (Some c')\<rparr>, calls)))"

definition android_pipe_wake_on :: "'c Pipe \<Rightarrow> u32 \<Rightarrow> ('c Pipe \<times> hw_call list) res" where
  "android_pipe_wake_on pipe wakes =
     (case p_end pipe of
        Connecting _ \<Rightarrow> Inr (pipe, [])
      | Connected svc opaque \<Rightarrow> with_client opaque (\<lambda>c.
          let (c', calls) = pf_wakeOn (ps_funcs svc) c wakes in Inr (pipe\<lparr>p_end := Connected svc (Some c')\<rparr>, calls)))"

section \<open>Snapshots\<close>

text \<open>Strings of \<open>android/base/files/Stream.cpp\<close>: an empty string and a failed read both give the null pointer.\<close>

definition stream_put_string :: "u8 list \<Rightarrow> u8 list" where
  "stream_put_string s = be32_bytes (word_of_nat (length s)) @ s"

definition stream_get_string :: "rstream \<Rightarrow> u8 list option \<times> rstream" where
  "stream_get_string f =
     (let (len, f1) = st_get_be32 f; (bs, f2) = st_get_buffer f1 (unat len)
      in (if length bs \<noteq> unat len \<or> bs = [] then None else Some bs, f2))"

definition pipeConnector_save :: "PipeConnector \<Rightarrow> u8 list" where
  "pipeConnector_save pcon = be32_bytes (word_of_nat (length (pc_buffer pcon))) @ pc_buffer pcon"

definition pipeConnector_load :: "rstream \<Rightarrow> PipeConnector option \<times> rstream" where
  "pipeConnector_load f =
     (let (len, f1) = st_get_be32 f
      in if sint len < 0 \<or> CONNECTOR_SIZE < unat len then (None, f1)
         else let (bs, f2) = st_get_buffer f1 (unat len)
              in (if length bs \<noteq> unat len then None else Some \<lparr>pc_buffer = bs, pc_owned = False\<rparr>, f2))"

definition android_pipe_save :: "'c Pipe \<Rightarrow> u8 list" where
  "android_pipe_save pipe =
     (case p_end pipe of Connecting _ \<Rightarrow> [0] | Connected svc _ \<Rightarrow> 1 # stream_put_string (ps_name svc)) @
     (case p_args pipe of None \<Rightarrow> [0] | Some args \<Rightarrow> 1 # stream_put_string args) @
     (case p_end pipe of
        Connecting pcon \<Rightarrow> pipeConnector_save pcon
      | Connected svc opaque \<Rightarrow> (case pf_save (ps_funcs svc) of None \<Rightarrow> [] | Some save \<Rightarrow> save opaque))"

text \<open>The optional service: \<open>None\<close> is the failure, \<open>Some None\<close> a pipe without a service.\<close>

definition pipe_load_service_name :: "'c PipeServices \<Rightarrow> rstream \<Rightarrow> 'c PipeService option option \<times> rstream" where
  "pipe_load_service_name svcs f =
     (let (state, f1) = st_get_byte f
      in if state = 0 then (Some None, f1)
         else let (name, f2) = stream_get_string f1
              in case name of
                   None \<Rightarrow> (None, f2)
                 | Some name \<Rightarrow>
                     (case android_pipe_service_find svcs name of None \<Rightarrow> None | Some svc \<Rightarrow> Some (Some svc), f2))"

text \<open>The result is the pipe with the flag that it must be closed. When the load function of the service fails, the pipe is
  freed, with the null pointer as its client.\<close>

definition pipe_load_state ::
  "rstream \<Rightarrow> 'c PipeService option \<Rightarrow> (('c Pipe \<times> bool) option \<times> rstream) res" where
  "pipe_load_state f service =
     (let (has_args, f1) = st_get_byte f;
          (args, f2) = (if has_args \<noteq> 0 then stream_get_string f1 else (None, f1))
      in case service of
           None \<Rightarrow>
             let (pcon, f3) = pipeConnector_load f2
             in Inr (map_option (\<lambda>pcon. (\<lparr>p_end = Connecting pcon, p_args = args\<rparr>, False)) pcon, f3)
         | Some svc \<Rightarrow>
             (case pf_load (ps_funcs svc) of
                None \<Rightarrow> Inr (Some (\<lparr>p_end = Connected svc None, p_args = args\<rparr>, True), f2)
              | Some load \<Rightarrow>
                  let (c, f3) = load args f2; pipe = \<lparr>p_end = Connected svc c, p_args = args\<rparr>
                  in case c of
                       None \<Rightarrow> res_bind (android_pipe_free pipe) (\<lambda>_. Inr (None, f3))
                     | Some _ \<Rightarrow> Inr (Some (pipe, False), f3)))"

definition android_pipe_load ::
  "'c PipeServices \<Rightarrow> rstream \<Rightarrow> (('c Pipe \<times> bool) option \<times> rstream) res" where
  "android_pipe_load svcs f =
     (let (service, f1) = pipe_load_service_name svcs f
      in case service of None \<Rightarrow> Inr (None, f1) | Some service \<Rightarrow> pipe_load_state f1 service)"

text \<open>The legacy format has the fields of the device between the name of the service and the rest.\<close>

definition android_pipe_load_legacy ::
  "'c PipeServices \<Rightarrow> rstream \<Rightarrow> ((u64 \<times> u8 \<times> u8 \<times> 'c Pipe \<times> bool) option \<times> rstream) res" where
  "android_pipe_load_legacy svcs f =
     (let (service, f1) = pipe_load_service_name svcs f
      in case service of
           None \<Rightarrow> Inr (None, f1)
         | Some service \<Rightarrow>
             let (channel, f2) = st_get_be64 f1; (wakes, f3) = st_get_byte f2; (closed, f4) = st_get_byte f3
             in res_bind (pipe_load_state f4 service) (\<lambda>(r, f5).
                  Inr (map_option (\<lambda>(pipe, force). (channel, wakes, closed, pipe, force)) r, f5)))"

section \<open>Connecting\<close>

text \<open>A guest writes its connection string in pieces; the results of the writes and the pipe after them.\<close>

fun send_chunks :: "'c PipeServices \<Rightarrow> u8 list list \<Rightarrow> 'c Pipe \<Rightarrow> (int list \<times> 'c Pipe) res" where
  "send_chunks svcs [] pipe = Inr ([], pipe)"
| "send_chunks svcs (w # ws) pipe =
     res_bind (android_pipe_send svcs pipe [w]) (\<lambda>(ret, pipe1, calls).
     res_bind (send_chunks svcs ws pipe1) (\<lambda>(rets, pipe2). Inr (ret # rets, pipe2)))"

text \<open>The pipe of a guest that has written \<open>b\<close>.\<close>

definition connecting :: "u8 list \<Rightarrow> 'c Pipe" where
  "connecting b = \<lparr>p_end = Connecting \<lparr>pc_buffer = b, pc_owned = True\<rparr>, p_args = None\<rparr>"

lemma connecting_Nil: "connecting [] = android_pipe_new"
  by (simp add: connecting_def android_pipe_new_def pipeConnector_new_def)

lemma fill_one: "length b + length w \<le> CONNECTOR_SIZE \<Longrightarrow> connector_fill [w] b = (b @ w, length w)"
  by (simp add: Let_def)

lemma send_partial:
  assumes "0 \<notin> set (b @ w)" and "length b + length w \<le> CONNECTOR_SIZE"
  shows "android_pipe_send svcs (connecting b) [w] = Inr (int (length w), connecting (b @ w), [])"
  using assms(1) fill_one [OF assms(2)]
  by (simp add: android_pipe_send_def connecting_def pipeConnector_sendBuffers_def Let_def del: connector_fill.simps)

lemma send_chunks_append:
  "send_chunks svcs (ws @ vs) pipe =
     res_bind (send_chunks svcs ws pipe) (\<lambda>(rets, pipe1).
     res_bind (send_chunks svcs vs pipe1) (\<lambda>(rets', pipe2). Inr (rets @ rets', pipe2)))"
proof (induction ws arbitrary: pipe)
  case Nil
  then show ?case by (cases "send_chunks svcs vs pipe") auto
next
  case (Cons w ws)
  show ?case
  proof (cases "android_pipe_send svcs pipe [w]")
    case (Inr r)
    then show ?thesis using Cons.IH by (cases r) (auto simp: res_bind_def split: sum.splits)
  qed simp
qed

lemma send_chunks_partial:
  assumes "0 \<notin> set (b @ concat ws)" and "length b + length (concat ws) \<le> CONNECTOR_SIZE"
  shows "send_chunks svcs ws (connecting b) = Inr (map (\<lambda>w. int (length w)) ws, connecting (b @ concat ws))"
  using assms
proof (induction ws arbitrary: b)
  case (Cons w ws)
  then show ?case using send_partial [of b w svcs] Cons.IH [of "b @ w"] by auto
qed simp

lemma split_colon_request:
  assumes "COLON \<notin> set name"
  shows "split_colon (name @ (case args of None \<Rightarrow> [] | Some a \<Rightarrow> COLON # a)) = (name, args)"
  using assms by (auto simp: split_colon_def takeWhile_append dropWhile_append split: option.splits)

text \<open>A request for a service by its name, with or without arguments; the names of \<open>qemud\<close> are looked up in two ways.\<close>

lemma request_service:
  assumes "COLON \<notin> set name" and "name \<noteq> cstr ''qemud''"
  shows "connector_service svcs (name @ (case args of None \<Rightarrow> [] | Some a \<Rightarrow> COLON # a)) =
    (android_pipe_service_find svcs name, args, length name)"
proof -
  let ?req = "name @ (case args of None \<Rightarrow> [] | Some a \<Rightarrow> COLON # a)"
  have "take 6 ?req \<noteq> cstr ''qemud:''"
  proof
    assume t: "take 6 ?req = cstr ''qemud:''"
    have e: "?req = cstr ''qemud:'' @ drop 6 ?req" unfolding t [symmetric] by (rule append_take_drop_id [symmetric])
    have "takeWhile (\<lambda>b. b \<noteq> COLON) (cstr ''qemud:'' @ r) = cstr ''qemud''" for r
      by (simp add: cstr_def COLON_def of_char_def)
    then have "takeWhile (\<lambda>b. b \<noteq> COLON) ?req = cstr ''qemud''" using arg_cong [OF e, of "takeWhile (\<lambda>b. b \<noteq> COLON)"] by metis
    then show False using split_colon_request [OF assms(1), of args] assms(2) by (simp add: split_colon_def)
  qed
  then show ?thesis using split_colon_request [OF assms(1), of args] by (simp add: connector_service_def Let_def)
qed

section \<open>Saved pipes\<close>

lemma get_string_append [stream_get]:
  assumes "length s < 2 ^ 32"
  shows "stream_get_string \<lparr>rs_bytes = stream_put_string s @ bs, rs_error = e\<rparr> = (if s = [] then None else Some s, \<lparr>rs_bytes = bs, rs_error = e\<rparr>)"
  using assms by (simp add: stream_get_string_def stream_put_string_def stream_get unat_of_nat)

text \<open>
  A pipe that a load finds again: its service is registered and has no functions to save and load its clients, the case of every service of
  the emulator but \<open>qemud\<close>.
\<close>

definition stateless_service :: "'c PipeServices \<Rightarrow> 'c PipeService \<Rightarrow> bool" where
  "stateless_service svcs svc \<longleftrightarrow>
     ps_name svc \<noteq> [] \<and> length (ps_name svc) < 2 ^ 32 \<and> android_pipe_service_find svcs (ps_name svc) = Some svc \<and>
     pf_save (ps_funcs svc) = None \<and> pf_load (ps_funcs svc) = None"

definition pipe_restorable :: "'c PipeServices \<Rightarrow> 'c Pipe \<Rightarrow> bool" where
  "pipe_restorable svcs pipe \<longleftrightarrow>
     (case p_args pipe of None \<Rightarrow> True | Some a \<Rightarrow> length a < 2 ^ 32) \<and>
     (case p_end pipe of Connecting pcon \<Rightarrow> length (pc_buffer pcon) \<le> CONNECTOR_SIZE | Connected svc opaque \<Rightarrow> stateless_service svcs svc)"

definition force_closed :: "'c Pipe \<Rightarrow> bool" where
  "force_closed pipe \<longleftrightarrow> (case p_end pipe of Connecting _ \<Rightarrow> False | Connected _ _ \<Rightarrow> True)"

definition restored_pipe :: "'c Pipe \<Rightarrow> 'c Pipe" where
  "restored_pipe pipe =
     \<lparr>p_end = (case p_end pipe of Connecting pcon \<Rightarrow> Connecting (pcon\<lparr>pc_owned := False\<rparr>) | Connected svc opaque \<Rightarrow> Connected svc None),
      p_args = (if p_args pipe = Some [] then None else p_args pipe)\<rparr>"

lemma connector_save_load:
  assumes "length (pc_buffer pcon) \<le> CONNECTOR_SIZE"
  shows "pipeConnector_load \<lparr>rs_bytes = pipeConnector_save pcon @ bs, rs_error = e\<rparr> =
    (Some (pcon\<lparr>pc_owned := False\<rparr>), \<lparr>rs_bytes = bs, rs_error = e\<rparr>)"
proof -
  let ?n = "word_of_nat (length (pc_buffer pcon)) :: u32"
  have n: "unat ?n = length (pc_buffer pcon)" "unat ?n \<le> 128" using assms by (simp_all add: CONNECTOR_SIZE_def unat_of_nat)
  then have "\<not> sint ?n < 0" by (simp add: sint_uint signed_take_bit_int_eq_self_iff uint_nat signed_take_bit_int_eq_self)
  then show ?thesis using n assms by (simp add: pipeConnector_load_def pipeConnector_save_def stream_get)
qed

lemma pipe_save_load:
  assumes "pipe_restorable svcs pipe"
  shows "android_pipe_load svcs \<lparr>rs_bytes = android_pipe_save pipe @ bs, rs_error = e\<rparr> =
    Inr (Some (restored_pipe pipe, force_closed pipe), \<lparr>rs_bytes = bs, rs_error = e\<rparr>)"
proof (cases pipe)
  case (fields pe args)
  show ?thesis
  proof (cases pe)
    case (Connecting pcon)
    then show ?thesis
      using assms fields connector_save_load [of pcon bs e]
      by (cases args) (simp_all add: android_pipe_load_def android_pipe_save_def pipe_load_service_name_def pipe_load_state_def
          pipe_restorable_def restored_pipe_def force_closed_def stream_get)
  next
    case (Connected svc opaque)
    then show ?thesis
      using assms fields
      by (cases args) (simp_all add: android_pipe_load_def android_pipe_save_def pipe_load_service_name_def pipe_load_state_def
          pipe_restorable_def stateless_service_def restored_pipe_def force_closed_def stream_get)
  qed
qed

section \<open>Properties\<close>

text \<open>
  What a request means: \<open>qemud:x\<close> names the service registered as \<open>qemud:x\<close> if there is one, and otherwise \<open>qemud\<close> with the arguments \<open>x\<close>; every other
  name ends at the first colon.
\<close>

definition asks_for :: "'c PipeServices \<Rightarrow> u8 list \<Rightarrow> u8 list option \<Rightarrow> bool" where
  "asks_for svcs name args \<longleftrightarrow>
     (if COLON \<in> set name
      then take 6 name = cstr ''qemud:'' \<and> COLON \<notin> set (drop 6 name) \<and> android_pipe_service_find svcs name \<noteq> None
      else name \<noteq> cstr ''qemud'' \<or>
        (case args of None \<Rightarrow> True | Some a \<Rightarrow> android_pipe_service_find svcs (cstr ''qemud:'' @ takeWhile (\<lambda>b. b \<noteq> COLON) a) = None))"

lemma asked_service:
  assumes "asks_for svcs name args"
  shows "connector_service svcs (name @ (case args of None \<Rightarrow> [] | Some a \<Rightarrow> COLON # a)) = (android_pipe_service_find svcs name, args, length name)"
proof (cases "COLON \<in> set name")
  case True
  define n where "n = drop 6 name"
  have n: "name = cstr ''qemud:'' @ n" "COLON \<notin> set n" "android_pipe_service_find svcs name \<noteq> None"
    using assms True append_take_drop_id [of 6 name] by (simp_all add: asks_for_def n_def)
  have q: "length (cstr ''qemud:'') = 6" by (simp add: cstr_def)
  show ?thesis unfolding n(1) connector_service_def append_assoc
    using n(3) [unfolded n(1)] split_colon_request [OF n(2), of args] q by (auto simp: Let_def split: prod.splits option.splits)
next
  case False
  show ?thesis
  proof (cases "name = cstr ''qemud''")
    case q: True
    have c: "cstr ''qemud'' @ COLON # a = cstr ''qemud:'' @ a" for a by (simp add: cstr_def COLON_def of_char_def)
    have l: "length (cstr ''qemud:'') = 6" "length (cstr ''qemud'') = 5" "take 6 (cstr ''qemud'') \<noteq> cstr ''qemud:''" by (simp_all add: cstr_def)
    note s = split_colon_request [OF False, of args]
    show ?thesis
    proof (cases args)
      case None
      then show ?thesis using s q l by (simp add: connector_service_def Let_def)
    next
      case (Some a)
      then have "android_pipe_service_find svcs (cstr ''qemud:'' @ fst (split_colon a)) = None" using assms False q by (simp add: asks_for_def split_colon_def)
      moreover have "split_colon (cstr ''qemud'' @ COLON # a) = (cstr ''qemud'', Some a)" using s q Some by simp
      moreover have "take 6 (cstr ''qemud'' @ COLON # a) = cstr ''qemud:''" "drop 6 (cstr ''qemud'' @ COLON # a) = a"
        using l(1) unfolding c by simp_all
      ultimately show ?thesis using l unfolding q Some
        by (auto simp: connector_service_def Let_def simp del: take_append drop_append split: prod.splits)
    qed
  qed (rule request_service [OF False])
qed

text \<open>C34: Opening a pipe. A guest writes \<open>pipe:<name>\<close> or \<open>pipe:<name>:<arguments>\<close> and a zero byte, in pieces of any sizes that fill
  at most the 128 bytes of the connector, where \<open>qemud:x\<close> is a name when a service is registered under it, and \<open>qemud\<close> with the arguments \<open>x\<close> otherwise. Every
  write before the last reports its full length. If there is a service of that name and it accepts the arguments, the last write does so too and the
  pipe is connected to the service with these arguments; if not, it reports that the request is invalid, and the pipe stays unconnected.\<close>

theorem pipe_connects:
  assumes "concat ws @ w = cstr ''pipe:'' @ name @ (case args of None \<Rightarrow> [] | Some a \<Rightarrow> COLON # a) @ [0]" and "w \<noteq> []"
    and "0 \<notin> set name" and "0 \<notin> set (case args of None \<Rightarrow> [] | Some a \<Rightarrow> a)" and "asks_for svcs name args"
    and "length (concat ws @ w) \<le> CONNECTOR_SIZE"
  shows "case android_pipe_service_find svcs name of
      Some svc \<Rightarrow> (case pf_init (ps_funcs svc) args of
          Some (c, calls) \<Rightarrow> send_chunks svcs (ws @ [w]) android_pipe_new =
            Inr (map (\<lambda>w. int (length w)) (ws @ [w]), \<lparr>p_end = Connected svc (Some c), p_args = args\<rparr>)
        | None \<Rightarrow> \<exists>pcon. send_chunks svcs (ws @ [w]) android_pipe_new =
            Inr (map (\<lambda>w. int (length w)) ws @ [PIPE_ERROR_INVAL], \<lparr>p_end = Connecting pcon, p_args = None\<rparr>))
    | None \<Rightarrow> \<exists>pcon. send_chunks svcs (ws @ [w]) android_pipe_new =
        Inr (map (\<lambda>w. int (length w)) ws @ [PIPE_ERROR_INVAL], \<lparr>p_end = Connecting pcon, p_args = None\<rparr>)"
proof -
  define req where "req = name @ (case args of None \<Rightarrow> [] | Some a \<Rightarrow> COLON # a)"
  define str where "str = cstr ''pipe:'' @ req"
  have z: "0 \<notin> set str" using assms(3,4) by (auto simp: str_def req_def cstr_def COLON_def of_char_def split: option.splits)
  have all: "concat ws @ w = str @ [0]" using assms(1) by (simp add: str_def req_def)
  then have "concat ws @ butlast w = str" using assms(2) by (metis butlast_append butlast_snoc)
  then have p: "0 \<notin> set (concat ws)" using z by auto
  have len: "length (concat ws) + length w \<le> CONNECTOR_SIZE" using assms(6) by simp
  have first: "send_chunks svcs ws android_pipe_new = Inr (map (\<lambda>w. int (length w)) ws, connecting (concat ws))"
    using send_chunks_partial [of "[]" ws svcs] p len by (simp add: connecting_Nil)
  have tw: "takeWhile (\<lambda>b. b \<noteq> 0) (str @ [0]) = str" using z by (auto simp: takeWhile_append)
  have s5: "take 5 str = cstr ''pipe:''" "drop 5 str = req" by (simp_all add: str_def cstr_def)
  have svc: "connector_service svcs req = (android_pipe_service_find svcs name, args, length name)"
    using asked_service [OF assms(5)] by (simp add: req_def)
  note send = fill_one [OF len] all tw s5 svc android_pipe_send_def connecting_def pipeConnector_sendBuffers_def Let_def
  show ?thesis using first
    by (auto simp: send_chunks_append send simp del: connector_fill.simps split: option.splits)
qed

theorem pipe_connects_witness:
  "let svc = \<lparr>ps_name = cstr ''zero'', ps_funcs = \<lparr>pf_init = (\<lambda>args. Some ((), [])), pf_close = (\<lambda>_. Inr ()),
        pf_sendBuffers = (\<lambda>c bufs. (0, c, [])), pf_recvBuffers = (\<lambda>c sizes. (0, [], c, [])), pf_poll = (\<lambda>_. 0),
        pf_wakeOn = (\<lambda>c f. (c, [])), pf_save = None, pf_load = None\<rparr>\<rparr>
   in send_chunks [svc] [cstr ''pip'', cstr ''e:zero:a'', [0]] android_pipe_new =
     Inr ([3, 8, 1], \<lparr>p_end = Connected svc (Some ()), p_args = Some (cstr ''a'')\<rparr>)"
proof -
  define svc :: "unit PipeService" where "svc = \<lparr>ps_name = cstr ''zero'', ps_funcs = \<lparr>pf_init = (\<lambda>args. Some ((), [])), pf_close = (\<lambda>_. Inr ()),
        pf_sendBuffers = (\<lambda>c bufs. (0, c, [])), pf_recvBuffers = (\<lambda>c sizes. (0, [], c, [])), pf_poll = (\<lambda>_. 0),
        pf_wakeOn = (\<lambda>c f. (c, [])), pf_save = None, pf_load = None\<rparr>\<rparr>"
  have "send_chunks [svc] ([cstr ''pip'', cstr ''e:zero:a''] @ [[0]]) android_pipe_new =
      Inr (map (\<lambda>w. int (length w)) ([cstr ''pip'', cstr ''e:zero:a''] @ [[0]]), \<lparr>p_end = Connected svc (Some ()), p_args = Some (cstr ''a'')\<rparr>)"
    using pipe_connects [of "[cstr ''pip'', cstr ''e:zero:a'']" "[0]" "cstr ''zero''" "Some (cstr ''a'')" "[svc]"]
    by (simp add: svc_def cstr_def COLON_def CONNECTOR_SIZE_def of_char_def asks_for_def)
  then show ?thesis by (simp add: svc_def cstr_def)
qed

end
