(* ===== verification/Pipe_Services.thy ===== *)
theory Pipe_Services
  imports Android_Pipe Fifo
begin

text \<open>
  The pipe services of the emulator itself: \<open>zero\<close> (\<open>android_pipe_zero.c\<close>), \<open>pingpong\<close>, which returns what it
  receives through a circular buffer that grows (\<open>android_pipe_pingpong.c\<close>), and \<open>throttle\<close>, the same with a limit
  on the rate (\<open>android_pipe_throttle.c\<close>). \<open>realloc_ok\<close> tells whether the allocation of a buffer of a given size succeeds.
  Positions and counts are natural numbers: a buffer holds less than 1 GiB, so that the additions in \<open>int\<close> do not overflow.
\<close>

section \<open>Zero\<close>

definition zeroPipe_sendBuffers :: "u8 list list \<Rightarrow> int" where
  "zeroPipe_sendBuffers buffers = sum_list (map (\<lambda>b. int (length b)) buffers)"

definition zeroPipe_recvBuffers :: "nat list \<Rightarrow> int \<times> u8 list list" where
  "zeroPipe_recvBuffers sizes = (sum_list (map int sizes), map (\<lambda>n. replicate n 0) sizes)"

definition zeroPipe_poll :: u32 where
  "zeroPipe_poll = PIPE_POLL_IN OR PIPE_POLL_OUT"

section \<open>The circular buffer\<close>

record PingPongPipe =
  pp_buffer :: "nat \<Rightarrow> u8"
  pp_size :: nat
  pp_pos :: nat
  pp_count :: nat
  pp_flags :: u32

definition PINGPONG_SIZE :: nat where "PINGPONG_SIZE = 1024"

text \<open>The memory of a new buffer is uninitialised, \<open>junk\<close>.\<close>

definition pingPongPipe_init :: "(nat \<Rightarrow> u8) \<Rightarrow> PingPongPipe" where
  "pingPongPipe_init junk = \<lparr>pp_buffer = junk, pp_size = PINGPONG_SIZE, pp_pos = 0, pp_count = 0, pp_flags = 0\<rparr>"

definition pingPongPipe_close :: "PingPongPipe option \<Rightarrow> unit res" where
  "pingPongPipe_close opaque = (case opaque of None \<Rightarrow> Inl Undefined | Some _ \<Rightarrow> Inr ())"

text \<open>The loop that doubles the buffer. Its size is never zero.\<close>

function ring_grow :: "(nat \<Rightarrow> bool) \<Rightarrow> nat \<Rightarrow> 'a PingPongPipe_scheme \<Rightarrow> 'a PingPongPipe_scheme" where
  "ring_grow realloc_ok n p =
     (if n \<le> pp_size p - pp_count p \<or> pp_size p = 0 then p
      else let newsize = pp_size p * 2; wpos = pp_pos p + pp_count p
           in if \<not> realloc_ok newsize then p
              else ring_grow realloc_ok n
                     (p\<lparr>pp_buffer := (if pp_size p < wpos
                                      then blit (pp_buffer p) (pp_size p) (window (pp_buffer p) 0 (wpos - pp_size p))
                                      else pp_buffer p),
                        pp_size := newsize\<rparr>))"
  by pat_completeness auto
termination
  by (relation "measure (\<lambda>(ok, n, p). n + pp_count p - pp_size p)") auto

declare ring_grow.simps [simp del]

definition ring_wrap :: "'a PingPongPipe_scheme \<Rightarrow> nat \<Rightarrow> nat" where
  "ring_wrap p k = (if pp_size p \<le> k then k - pp_size p else k)"

text \<open>Storing bytes from a position on, in two parts at the end of the buffer, and reading them.\<close>

definition ring_put :: "'a PingPongPipe_scheme \<Rightarrow> nat \<Rightarrow> u8 list \<Rightarrow> nat \<Rightarrow> u8" where
  "ring_put p wpos bs =
     (if wpos + length bs \<le> pp_size p then blit (pp_buffer p) wpos bs
      else let avail2 = pp_size p - wpos
           in blit (blit (pp_buffer p) wpos (take avail2 bs)) 0 (drop avail2 bs))"

definition ring_get :: "'a PingPongPipe_scheme \<Rightarrow> nat \<Rightarrow> nat \<Rightarrow> u8 list" where
  "ring_get p rpos n =
     (if rpos + n \<le> pp_size p then window (pp_buffer p) rpos n
      else let avail2 = pp_size p - rpos in window (pp_buffer p) rpos avail2 @ window (pp_buffer p) 0 (n - avail2))"

fun ring_send :: "u8 list list \<Rightarrow> int \<Rightarrow> 'a PingPongPipe_scheme \<Rightarrow> int \<times> 'a PingPongPipe_scheme" where
  "ring_send [] ret p = (ret, p)"
| "ring_send (b # buffs) ret p =
     (if pp_size p \<le> pp_count p then (if ret = 0 then PIPE_ERROR_AGAIN else ret, p)
      else let avail = min (pp_size p - pp_count p) (length b);
               wpos = ring_wrap p (pp_pos p + pp_count p)
           in ring_send buffs (ret + int avail)
                (p\<lparr>pp_buffer := ring_put p wpos (take avail b), pp_count := pp_count p + avail\<rparr>))"

fun ring_recv :: "nat list \<Rightarrow> int \<Rightarrow> 'a PingPongPipe_scheme \<Rightarrow> int \<times> u8 list list \<times> 'a PingPongPipe_scheme" where
  "ring_recv [] ret p = (ret, [], p)"
| "ring_recv (n # sizes) ret p =
     (if pp_count p = 0 then (if ret = 0 then PIPE_ERROR_AGAIN else ret, [], p)
      else let avail = min (pp_count p) n;
               bs = ring_get p (pp_pos p) avail;
               p1 = p\<lparr>pp_count := pp_count p - avail, pp_pos := ring_wrap p (pp_pos p + avail)\<rparr>;
               (ret', bss, p2) = ring_recv sizes (ret + int avail) p1
           in (ret', bs # bss, p2))"

definition wake_readers :: "'a PingPongPipe_scheme \<Rightarrow> hw_call list" where
  "wake_readers p = (if 0 < pp_count p \<and> pp_flags p AND PIPE_WAKE_READ \<noteq> 0 then [Signal_wake PIPE_WAKE_READ] else [])"

definition wake_writers :: "'a PingPongPipe_scheme \<Rightarrow> hw_call list" where
  "wake_writers p =
     (if pp_count p < PINGPONG_SIZE \<and> pp_flags p AND PIPE_WAKE_WRITE \<noteq> 0 then [Signal_wake PIPE_WAKE_WRITE] else [])"

section \<open>Ping-pong\<close>

definition pingPongPipe_sendBuffers ::
  "(nat \<Rightarrow> bool) \<Rightarrow> PingPongPipe \<Rightarrow> u8 list list \<Rightarrow> int \<times> PingPongPipe \<times> hw_call list" where
  "pingPongPipe_sendBuffers realloc_ok p buffers =
     (let (ret, p1) = ring_send buffers 0 (ring_grow realloc_ok (sum_list (map length buffers)) p)
      in (ret, p1, wake_readers p1))"

definition pingPongPipe_recvBuffers :: "PingPongPipe \<Rightarrow> nat list \<Rightarrow> int \<times> u8 list list \<times> PingPongPipe \<times> hw_call list" where
  "pingPongPipe_recvBuffers p sizes =
     (let (ret, bss, p1) = ring_recv sizes 0 p in (ret, bss, p1, wake_writers p1))"

definition pingPongPipe_poll :: "PingPongPipe \<Rightarrow> u32" where
  "pingPongPipe_poll p = PIPE_POLL_OUT OR (if 0 < pp_count p then PIPE_POLL_IN else 0)"

definition pingPongPipe_wakeOn :: "PingPongPipe \<Rightarrow> u32 \<Rightarrow> PingPongPipe" where
  "pingPongPipe_wakeOn p flags = p\<lparr>pp_flags := pp_flags p OR flags\<rparr>"

section \<open>Throttle\<close>

text \<open>
  The rate is 1000 / (500 * 1024 * 8), exactly 1 / 4096, so the product with a number of bytes, added to the
  time, is cut to the quotient. \<open>th_timer\<close> is the time at which the timer fires: \<open>loopTimer_startRelative\<close> adds its argument to the
  time of the call.
\<close>

record ThrottlePipe = PingPongPipe +
  th_sendExpiration :: int
  th_recvExpiration :: int
  th_timer :: "int option"

definition throttlePipe_init :: "(nat \<Rightarrow> u8) \<Rightarrow> ThrottlePipe" where
  "throttlePipe_init junk = \<lparr>pp_buffer = junk, pp_size = PINGPONG_SIZE, pp_pos = 0, pp_count = 0, pp_flags = 0,
     th_sendExpiration = 0, th_recvExpiration = 0, th_timer = None\<rparr>"

definition throttlePipe_rearm :: "int \<Rightarrow> ThrottlePipe \<Rightarrow> ThrottlePipe" where
  "throttlePipe_rearm now p =
     (let send = th_sendExpiration p; recv = th_recvExpiration p;
          m1 = (if send \<noteq> 0 then send else 0);
          m2 = (if recv \<noteq> 0 \<and> (m1 = 0 \<or> recv < m1) then recv else m1)
      in if m2 \<noteq> 0 then p\<lparr>th_timer := Some (now + m2)\<rparr> else p)"

definition throttlePipe_timerFunc :: "int \<Rightarrow> ThrottlePipe \<Rightarrow> ThrottlePipe \<times> hw_call list" where
  "throttlePipe_timerFunc now p0 =
     (let p = p0\<lparr>th_timer := None\<rparr>;
          send = (th_sendExpiration p \<noteq> 0 \<and> th_sendExpiration p < now);
          recv = (th_recvExpiration p \<noteq> 0 \<and> th_recvExpiration p < now);
          p1 = p\<lparr>th_sendExpiration := (if send then 0 else th_sendExpiration p),
                 th_recvExpiration := (if recv then 0 else th_recvExpiration p)\<rparr>;
          flags = ((if send then PIPE_WAKE_WRITE else 0) OR (if recv then PIPE_WAKE_READ else 0)) AND pp_flags p
      in (throttlePipe_rearm now p1, if flags \<noteq> 0 then [Signal_wake flags] else []))"

definition throttlePipe_sendBuffers ::
  "(nat \<Rightarrow> bool) \<Rightarrow> int \<Rightarrow> ThrottlePipe \<Rightarrow> u8 list list \<Rightarrow> int \<times> ThrottlePipe \<times> hw_call list" where
  "throttlePipe_sendBuffers realloc_ok now p buffers =
     (if 0 < th_sendExpiration p then (PIPE_ERROR_AGAIN, p, [])
      else let (ret, p1) = ring_send buffers 0 (ring_grow realloc_ok (sum_list (map length buffers)) p)
           in (ret, if 0 < ret then throttlePipe_rearm now (p1\<lparr>th_sendExpiration := now + ret div 4096\<rparr>) else p1,
               wake_readers p1))"

definition throttlePipe_recvBuffers ::
  "int \<Rightarrow> ThrottlePipe \<Rightarrow> nat list \<Rightarrow> int \<times> u8 list list \<times> ThrottlePipe \<times> hw_call list" where
  "throttlePipe_recvBuffers now p sizes =
     (if 0 < th_recvExpiration p then (PIPE_ERROR_AGAIN, [], p, [])
      else let (ret, bss, p1) = ring_recv sizes 0 p
           in (ret, bss, if 0 < ret then throttlePipe_rearm now (p1\<lparr>th_recvExpiration := now + ret div 4096\<rparr>) else p1,
               wake_writers p1))"

definition throttlePipe_poll :: "ThrottlePipe \<Rightarrow> u32" where
  "throttlePipe_poll p =
     (if pp_count p < pp_size p \<and> \<not> 0 < th_sendExpiration p then PIPE_POLL_OUT else 0) OR
     (if 0 < pp_count p \<and> \<not> 0 < th_recvExpiration p then PIPE_POLL_IN else 0)"

definition throttlePipe_wakeOn :: "ThrottlePipe \<Rightarrow> u32 \<Rightarrow> ThrottlePipe" where
  "throttlePipe_wakeOn p flags = p\<lparr>pp_flags := pp_flags p OR flags\<rparr>"

section \<open>The tables of callbacks\<close>

datatype debug_client = Zero_client | PingPong_client PingPongPipe

definition zeroPipe_funcs :: "debug_client AndroidPipeFuncs" where
  "zeroPipe_funcs = \<lparr>pf_init = (\<lambda>args. Some (Zero_client, [])), pf_close = (\<lambda>c. Inr ()),
     pf_sendBuffers = (\<lambda>c bufs. (zeroPipe_sendBuffers bufs, c, [])),
     pf_recvBuffers = (\<lambda>c sizes. let (ret, bss) = zeroPipe_recvBuffers sizes in (ret, bss, c, [])),
     pf_poll = (\<lambda>c. zeroPipe_poll), pf_wakeOn = (\<lambda>c flags. (c, [])), pf_save = None, pf_load = None\<rparr>"

definition pingPongPipe_funcs :: "(nat \<Rightarrow> bool) \<Rightarrow> (nat \<Rightarrow> u8) \<Rightarrow> debug_client AndroidPipeFuncs" where
  "pingPongPipe_funcs realloc_ok junk =
     \<lparr>pf_init = (\<lambda>args. Some (PingPong_client (pingPongPipe_init junk), [])),
      pf_close = (\<lambda>c. pingPongPipe_close (case c of Some (PingPong_client p) \<Rightarrow> Some p | _ \<Rightarrow> None)),
      pf_sendBuffers = (\<lambda>c bufs. case c of
         PingPong_client p \<Rightarrow> let (ret, p', calls) = pingPongPipe_sendBuffers realloc_ok p bufs in (ret, PingPong_client p', calls)
       | _ \<Rightarrow> (0, c, [])),
      pf_recvBuffers = (\<lambda>c sizes. case c of
         PingPong_client p \<Rightarrow> let (ret, bss, p', calls) = pingPongPipe_recvBuffers p sizes in (ret, bss, PingPong_client p', calls)
       | _ \<Rightarrow> (0, [], c, [])),
      pf_poll = (\<lambda>c. case c of PingPong_client p \<Rightarrow> pingPongPipe_poll p | _ \<Rightarrow> 0),
      pf_wakeOn = (\<lambda>c flags. (case c of PingPong_client p \<Rightarrow> PingPong_client (pingPongPipe_wakeOn p flags) | _ \<Rightarrow> c, [])),
      pf_save = None, pf_load = None\<rparr>"

text \<open>The services that \<open>pipe_dev_init\<close> registers: its last call, for \<open>throttle\<close>, registers \<open>pingpong\<close> again.\<close>

definition android_pipe_add_type_zero :: "debug_client PipeServices \<Rightarrow> debug_client PipeServices res" where
  "android_pipe_add_type_zero = android_pipe_add_type (cstr ''zero'') zeroPipe_funcs"

definition android_pipe_add_type_pingpong ::
  "(nat \<Rightarrow> bool) \<Rightarrow> (nat \<Rightarrow> u8) \<Rightarrow> debug_client PipeServices \<Rightarrow> debug_client PipeServices res" where
  "android_pipe_add_type_pingpong realloc_ok junk = android_pipe_add_type (cstr ''pingpong'') (pingPongPipe_funcs realloc_ok junk)"

definition debug_services ::
  "(nat \<Rightarrow> bool) \<Rightarrow> (nat \<Rightarrow> u8) \<Rightarrow> debug_client PipeServices \<Rightarrow> debug_client PipeServices res" where
  "debug_services realloc_ok junk svcs =
     res_bind (android_pipe_add_type_zero svcs) (\<lambda>s1.
     res_bind (android_pipe_add_type_pingpong realloc_ok junk s1) (android_pipe_add_type_pingpong realloc_ok junk))"

section \<open>The buffer as a queue\<close>

definition ring_ok :: "'a PingPongPipe_scheme \<Rightarrow> bool" where
  "ring_ok p \<longleftrightarrow> pp_pos p < pp_size p \<and> pp_count p \<le> pp_size p"

definition ring_data :: "'a PingPongPipe_scheme \<Rightarrow> u8 list" where
  "ring_data p = map (\<lambda>i. pp_buffer p (ring_wrap p (pp_pos p + i))) [0..<pp_count p]"

lemma length_ring_data [simp]: "length (ring_data p) = pp_count p"
  by (simp add: ring_data_def)

lemma ring_data_nth: "i < pp_count p \<Longrightarrow> ring_data p ! i = pp_buffer p (ring_wrap p (pp_pos p + i))"
  by (simp add: ring_data_def)

lemma ring_grow_step:
  fixes p :: "'a PingPongPipe_scheme"
  assumes "ring_ok p"
  defines "wpos \<equiv> pp_pos p + pp_count p"
  defines "q \<equiv> p\<lparr>pp_buffer := (if pp_size p < wpos
      then blit (pp_buffer p) (pp_size p) (window (pp_buffer p) 0 (wpos - pp_size p)) else pp_buffer p),
    pp_size := pp_size p * 2\<rparr>"
  shows "ring_ok q \<and> ring_data q = ring_data p"
proof
  show "ring_ok q" using assms by (auto simp: ring_ok_def)
  show "ring_data q = ring_data p"
    using assms(1) by (intro nth_equalityI)
      (auto simp: q_def ring_data_nth ring_wrap_def ring_ok_def blit_def wpos_def)
qed

lemma ring_grow_spec:
  assumes "ring_ok p"
  shows "ring_ok (ring_grow ok n p) \<and> ring_data (ring_grow ok n p) = ring_data p \<and>
    pp_flags (ring_grow ok n p) = pp_flags p \<and>
    ((\<forall>k. ok k) \<longrightarrow> n \<le> pp_size (ring_grow ok n p) - pp_count (ring_grow ok n p))"
  using assms
proof (induction ok n p rule: ring_grow.induct)
  case (1 ok n p)
  show ?case
  proof (cases "n \<le> pp_size p - pp_count p \<or> pp_size p = 0 \<or> \<not> ok (pp_size p * 2)")
    case True
    then have e: "ring_grow ok n p = p" by (subst ring_grow.simps) (auto simp: Let_def)
    show ?thesis unfolding e using True "1.prems" by (auto simp: ring_ok_def)
  next
    case False
    define q where "q = p\<lparr>pp_buffer := (if pp_size p < pp_pos p + pp_count p
        then blit (pp_buffer p) (pp_size p) (window (pp_buffer p) 0 (pp_pos p + pp_count p - pp_size p)) else pp_buffer p),
      pp_size := pp_size p * 2\<rparr>"
    have c: "\<not> (n \<le> pp_size p - pp_count p \<or> pp_size p = 0)" "\<not> \<not> ok (pp_size p * 2)" using False by blast+
    have q: "ring_ok q" "ring_data q = ring_data p" "pp_flags q = pp_flags p"
      using ring_grow_step [OF "1.prems"] by (simp_all add: q_def)
    have e: "ring_grow ok n p = ring_grow ok n q" using c by (subst ring_grow.simps) (simp add: Let_def q_def)
    show ?thesis unfolding e using "1.IH" [OF c(1) refl refl c(2), folded q_def, OF q(1)] q(2,3) by argo
  qed
qed

text \<open>Bytes stored at the write position are appended.\<close>

lemma ring_put_append:
  assumes "ring_ok p" and "pp_count p + length bs \<le> pp_size p"
  defines "q \<equiv> p\<lparr>pp_buffer := ring_put p (ring_wrap p (pp_pos p + pp_count p)) bs, pp_count := pp_count p + length bs\<rparr>"
  shows "ring_ok q \<and> ring_data q = ring_data p @ bs"
proof
  show "ring_ok q" using assms by (auto simp: ring_ok_def)
  have old: "pp_buffer q (ring_wrap p (pp_pos p + i)) = pp_buffer p (ring_wrap p (pp_pos p + i))" if "i < pp_count p" for i
    using assms(1,2) that by (auto simp: q_def ring_put_def blit_def ring_wrap_def ring_ok_def Let_def)
  have new: "pp_buffer q (ring_wrap p (pp_pos p + (pp_count p + i))) = bs ! i" if "i < length bs" for i
    using assms(1,2) that
    by (auto simp: q_def ring_put_def blit_def ring_wrap_def ring_ok_def Let_def not_le not_less intro!: arg_cong [where f = "nth bs"])
  show "ring_data q = ring_data p @ bs"
  proof (rule nth_equalityI)
    fix i assume "i < length (ring_data q)"
    then show "ring_data q ! i = (ring_data p @ bs) ! i"
      using old [of i] new [of "i - pp_count p"]
      by (cases "i < pp_count p") (auto simp: ring_data_nth nth_append ring_wrap_def q_def)
  qed (simp add: q_def)
qed

lemma ring_get_take:
  assumes "ring_ok p" and "n \<le> pp_count p"
  shows "ring_get p (pp_pos p) n = take n (ring_data p)"
  using assms
  by (intro nth_equalityI) (auto simp: ring_get_def ring_data_nth ring_wrap_def ring_ok_def Let_def nth_append add.commute)

lemma ring_skip:
  assumes "ring_ok p" and "n \<le> pp_count p"
  defines "q \<equiv> p\<lparr>pp_count := pp_count p - n, pp_pos := ring_wrap p (pp_pos p + n)\<rparr>"
  shows "ring_ok q \<and> ring_data q = drop n (ring_data p)"
proof
  show "ring_ok q" using assms by (auto simp: ring_ok_def ring_wrap_def)
  show "ring_data q = drop n (ring_data p)"
    using assms(1,2) by (intro nth_equalityI) (auto simp: q_def ring_data_nth ring_wrap_def ring_ok_def add.assoc)
qed

lemma ring_send_spec:
  assumes "ring_ok p" and "pp_count p + length (concat bufs) \<le> pp_size p" and "0 \<le> ret"
    and "list_all (\<lambda>b. b \<noteq> []) bufs"
  shows "\<exists>q. ring_send bufs ret p = (ret + int (length (concat bufs)), q) \<and> ring_ok q \<and>
    ring_data q = ring_data p @ concat bufs \<and> pp_flags q = pp_flags p"
  using assms
proof (induction bufs arbitrary: p ret)
  case (Cons b bufs)
  let ?q = "p\<lparr>pp_buffer := ring_put p (ring_wrap p (pp_pos p + pp_count p)) b, pp_count := pp_count p + length b\<rparr>"
  have q: "ring_ok ?q \<and> ring_data ?q = ring_data p @ b" using ring_put_append [of p b] Cons.prems by simp
  have c: "length b \<le> pp_size p - pp_count p" "\<not> pp_size p \<le> pp_count p" using Cons.prems by (cases b; simp)+
  have "ring_send (b # bufs) ret p = ring_send bufs (ret + int (length b)) ?q"
    using c by (simp add: Let_def min_absorb2)
  then show ?case using Cons.IH [of ?q "ret + int (length b)"] q Cons.prems by auto
qed auto

lemma ring_recv_spec:
  assumes "ring_ok p" and "0 \<le> ret"
  shows "\<exists>ret' bss q. ring_recv sizes ret p = (ret', bss, q) \<and> ring_ok q \<and>
    ring_data p = concat bss @ ring_data q \<and> pp_flags q = pp_flags p \<and>
    length (concat bss) = min (sum_list sizes) (pp_count p) \<and>
    (0 < pp_count p \<or> 0 < ret \<longrightarrow> ret' = ret + int (length (concat bss)))"
  using assms
proof (induction sizes arbitrary: p ret)
  case Nil
  then show ?case by simp
next
  case (Cons n sizes)
  show ?case
  proof (cases "pp_count p = 0")
    case True
    then show ?thesis using Cons.prems by (auto simp: ring_data_def)
  next
    case False
    let ?n = "min (pp_count p) n"
    let ?q = "p\<lparr>pp_count := pp_count p - ?n, pp_pos := ring_wrap p (pp_pos p + ?n)\<rparr>"
    have q: "ring_ok ?q" "ring_data ?q = drop ?n (ring_data p)" "ring_get p (pp_pos p) ?n = take ?n (ring_data p)"
      using ring_skip [OF Cons.prems(1), of ?n] ring_get_take [OF Cons.prems(1), of ?n] by simp_all
    obtain ret' bss r where r: "ring_recv sizes (ret + int ?n) ?q = (ret', bss, r)" "ring_ok r"
      "ring_data ?q = concat bss @ ring_data r" "pp_flags r = pp_flags ?q"
      "length (concat bss) = min (sum_list sizes) (pp_count ?q)"
      "0 < pp_count ?q \<or> 0 < ret + int ?n \<longrightarrow> ret' = ret + int ?n + int (length (concat bss))"
      using Cons.IH [OF q(1) add_nonneg_nonneg [OF Cons.prems(2) of_nat_0_le_iff], of ?n] by (elim exE conjE) (rule that)
    have "ring_recv (n # sizes) ret p = (ret', take ?n (ring_data p) # bss, r)"
      using False q(3) r(1) by (simp add: Let_def)
    moreover have "ring_data p = concat (take ?n (ring_data p) # bss) @ ring_data r"
      using q(2) r(3) append_take_drop_id [of ?n "ring_data p"] by simp
    moreover have "length (concat (take ?n (ring_data p) # bss)) = min (sum_list (n # sizes)) (pp_count p)"
      using r(5) by simp
    moreover have "0 < pp_count ?q \<or> 0 < ret + int ?n" using False Cons.prems(2) by auto
    ultimately show ?thesis using r(2,4,6) by (intro exI conjI) (assumption | simp)+
  qed
qed

lemma pingpong_send:
  assumes "ring_ok p" and "xs \<noteq> []"
  shows "\<exists>q. pingPongPipe_sendBuffers (\<lambda>_. True) p [xs] = (int (length xs), q, wake_readers q) \<and> ring_ok q \<and>
    ring_data q = ring_data p @ xs \<and> pp_flags q = pp_flags p"
proof -
  let ?g = "ring_grow (\<lambda>_. True) (length xs) p"
  have g: "ring_ok ?g" "ring_data ?g = ring_data p" "pp_flags ?g = pp_flags p" "length xs \<le> pp_size ?g - pp_count ?g"
    using ring_grow_spec [OF assms(1), of "\<lambda>_. True" "length xs"] by auto
  have "pp_count ?g + length (concat [xs]) \<le> pp_size ?g" using g(1,4) by (auto simp: ring_ok_def)
  from ring_send_spec [OF g(1) this, of 0] obtain q where
    "ring_send [xs] 0 ?g = (int (length xs), q)" "ring_ok q" "ring_data q = ring_data ?g @ xs" "pp_flags q = pp_flags ?g"
    using assms(2) by auto
  then show ?thesis using g(2,3) by (auto simp: pingPongPipe_sendBuffers_def simp del: ring_send.simps)
qed

text \<open>Buffers that do not fit are stored as far as they fit.\<close>

lemma ring_send_room:
  assumes "ring_ok p" and "0 \<le> ret"
  shows "\<exists>q. ring_send bufs ret p = (if ret = 0 \<and> bufs \<noteq> [] \<and> pp_size p \<le> pp_count p then PIPE_ERROR_AGAIN
      else ret + int (length (take (pp_size p - pp_count p) (concat bufs))), q) \<and>
    ring_ok q \<and> ring_data q = ring_data p @ take (pp_size p - pp_count p) (concat bufs) \<and> pp_size q = pp_size p \<and> pp_flags q = pp_flags p"
  using assms
proof (induction bufs arbitrary: p ret)
  case (Cons b bufs)
  show ?case
  proof (cases "pp_size p \<le> pp_count p")
    case False
    define k where "k = min (pp_size p - pp_count p) (length b)"
    define q where "q = p\<lparr>pp_buffer := ring_put p (ring_wrap p (pp_pos p + pp_count p)) (take k b), pp_count := pp_count p + k\<rparr>"
    have q: "ring_ok q" "ring_data q = ring_data p @ take k b" "pp_size q = pp_size p" "pp_flags q = pp_flags p" "pp_count q = pp_count p + k"
      using ring_put_append [of p "take k b"] Cons.prems(1) False by (simp_all add: q_def k_def min_absorb2)
    have s: "ring_send (b # bufs) ret p = ring_send bufs (ret + int k) q" using False by (simp add: Let_def k_def q_def)
    have t: "take (pp_size p - pp_count p) (concat (b # bufs)) = take k b @ take (pp_size q - pp_count q) (concat bufs)"
      by (cases "length b \<le> pp_size p - pp_count p") (simp_all add: q(3,5) k_def min_def)
    have n: "\<not> (ret + int k = 0 \<and> bufs \<noteq> [] \<and> pp_size q \<le> pp_count q)" using False Cons.prems(2) q(3,5) by (auto simp: k_def)
    have l: "length (take k b) = k" by (simp add: k_def)
    from Cons.IH [OF q(1), of "ret + int k"] Cons.prems(2) n obtain r where
      "ring_send bufs (ret + int k) q = (ret + int k + int (length (take (pp_size q - pp_count q) (concat bufs))), r)" "ring_ok r"
      "ring_data r = ring_data q @ take (pp_size q - pp_count q) (concat bufs)" "pp_size r = pp_size q" "pp_flags r = pp_flags q" by auto
    then show ?thesis using s t q l False by (intro exI [of _ r]) simp
  qed (use Cons.prems in simp)
qed simp

lemma ring_recv_size: "pp_size (snd (snd (ring_recv sizes ret p))) = pp_size p"
  by (induction sizes arbitrary: ret p) (simp_all add: Let_def split_beta)

text \<open>The size of the buffer after it has grown for some bytes: it doubles until they fit or no more memory is available.\<close>

function grown :: "(nat \<Rightarrow> bool) \<Rightarrow> nat \<Rightarrow> nat \<Rightarrow> nat \<Rightarrow> nat" where
  "grown realloc_ok n len sz =
     (if n \<le> sz - len \<or> sz = 0 then sz else if \<not> realloc_ok (sz * 2) then sz else grown realloc_ok n len (sz * 2))"
  by pat_completeness auto
termination
  by (relation "measure (\<lambda>(ok, n, len, sz). n + len - sz)") auto

declare grown.simps [simp del]

lemma ring_grow_size: "pp_size (ring_grow ok n p) = grown ok n (pp_count p) (pp_size p)"
proof (induction ok n p rule: ring_grow.induct)
  case (1 ok n p)
  then show ?case by (subst ring_grow.simps, subst grown.simps) (simp add: Let_def)
qed

lemma grown_le: "sz \<le> m \<Longrightarrow> \<forall>k. ok k \<longrightarrow> k \<le> m \<Longrightarrow> grown ok n len sz \<le> m"
proof (induction ok n len sz rule: grown.induct)
  case (1 ok n len sz)
  then show ?case by (subst grown.simps) simp
qed

text \<open>
  The service as a queue of bytes with a size and wake flags. A send takes the bytes that fit after the buffer has grown, with an error when it is full; a receive gives
  the bytes that are there and fit the buffers, with an error when there are none. Waiting readers are woken when bytes are there, waiting
  writers when fewer than \<open>PINGPONG_SIZE\<close> are.
\<close>

datatype pp_op = Send "nat \<Rightarrow> bool" "u8 list list" | Recv "nat list" | Wake_on u32 | Poll

fun pp_step :: "pp_op \<Rightarrow> PingPongPipe \<Rightarrow> ((int \<times> u8 list \<times> hw_call list) \<times> PingPongPipe) res" where
  "pp_step (Send realloc_ok bufs) p = (let (ret, p, calls) = pingPongPipe_sendBuffers realloc_ok p bufs in Inr ((ret, [], calls), p))"
| "pp_step (Recv sizes) p = (let (ret, bss, p, calls) = pingPongPipe_recvBuffers p sizes in Inr ((ret, concat bss, calls), p))"
| "pp_step (Wake_on flags) p = Inr ((0, [], []), pingPongPipe_wakeOn p flags)"
| "pp_step Poll p = Inr ((uint (pingPongPipe_poll p), [], []), p)"

fun pp_queue :: "pp_op \<Rightarrow> u8 list \<times> nat \<times> u32 \<Rightarrow> (int \<times> u8 list \<times> hw_call list) \<times> (u8 list \<times> nat \<times> u32)" where
  "pp_queue (Send realloc_ok bufs) (q, sz, flags) =
     (let sz' = grown realloc_ok (length (concat bufs)) (length q) sz; bs = take (sz' - length q) (concat bufs)
      in ((if bufs \<noteq> [] \<and> sz' \<le> length q then PIPE_ERROR_AGAIN else int (length bs), [],
           if q @ bs \<noteq> [] \<and> flags AND PIPE_WAKE_READ \<noteq> 0 then [Signal_wake PIPE_WAKE_READ] else []), (q @ bs, sz', flags)))"
| "pp_queue (Recv sizes) (q, sz, flags) =
     (let n = sum_list sizes
      in ((if sizes \<noteq> [] \<and> q = [] then PIPE_ERROR_AGAIN else int (min n (length q)), take n q,
           if length (drop n q) < PINGPONG_SIZE \<and> flags AND PIPE_WAKE_WRITE \<noteq> 0 then [Signal_wake PIPE_WAKE_WRITE] else []), (drop n q, sz, flags)))"
| "pp_queue (Wake_on fl) (q, sz, flags) = ((0, [], []), (q, sz, flags OR fl))"
| "pp_queue Poll (q, sz, flags) = ((uint (PIPE_POLL_OUT OR (if q \<noteq> [] then PIPE_POLL_IN else 0)), [], []), (q, sz, flags))"

text \<open>The integers of the code hold all sums when no buffer of more than 1 GiB is ever allocated and no call passes 2 GiB.\<close>

fun pp_valid :: "pp_op \<Rightarrow> bool" where
  "pp_valid (Send realloc_ok bufs) = ((\<forall>n. realloc_ok n \<longrightarrow> n \<le> 2 ^ 30) \<and> length (concat bufs) < 2 ^ 31)"
| "pp_valid (Recv sizes) = (sum_list sizes < 2 ^ 31)"
| "pp_valid _ = True"

definition pp_contents :: "PingPongPipe \<Rightarrow> u8 list \<times> nat \<times> u32" where
  "pp_contents p = (ring_data p, pp_size p, pp_flags p)"

definition pp_ok :: "PingPongPipe \<Rightarrow> bool" where
  "pp_ok p \<longleftrightarrow> ring_ok p \<and> pp_size p \<le> 2 ^ 30"

lemma send_refines:
  assumes "pp_ok p" and "pp_valid (Send ok bufs)"
  shows "\<exists>p'. pp_step (Send ok bufs) p = Inr (fst (pp_queue (Send ok bufs) (pp_contents p)), p') \<and> pp_ok p' \<and>
    pp_contents p' = snd (pp_queue (Send ok bufs) (pp_contents p))"
proof -
  define n where "n = length (concat bufs)"
  let ?g = "ring_grow ok n p"
  have r: "ring_ok p" using assms(1) by (simp add: pp_ok_def)
  have g: "ring_ok ?g" "ring_data ?g = ring_data p" "pp_flags ?g = pp_flags p" using ring_grow_spec [OF r, of ok n] by blast+
  have c: "pp_count ?g = pp_count p" using g(2) by (metis length_ring_data)
  have z: "pp_size ?g = grown ok n (pp_count p) (pp_size p)" by (rule ring_grow_size)
  have b: "pp_size ?g \<le> 2 ^ 30" using assms grown_le [of "pp_size p" "2 ^ 30" ok] by (simp add: z pp_ok_def)
  have e: "q \<noteq> [] \<longleftrightarrow> 0 < length q" for q :: "u8 list" by simp
  from ring_send_room [OF g(1), of 0 bufs] obtain q where
    q: "ring_send bufs 0 ?g = (if bufs \<noteq> [] \<and> pp_size ?g \<le> pp_count ?g then PIPE_ERROR_AGAIN
        else int (length (take (pp_size ?g - pp_count ?g) (concat bufs))), q)" "ring_ok q"
      "ring_data q = ring_data ?g @ take (pp_size ?g - pp_count ?g) (concat bufs)" "pp_size q = pp_size ?g" "pp_flags q = pp_flags ?g" by auto
  have w: "0 < pp_count q \<longleftrightarrow> ring_data p @ take (pp_size ?g - pp_count p) (concat bufs) \<noteq> []"
    using q(3) g(2) c by (metis length_ring_data length_greater_0_conv)
  have "sum_list (map length bufs) = n" "bufs = [] \<Longrightarrow> n = 0" by (simp_all add: n_def length_concat)
  then show ?thesis using q g(2,3) c b w
    by (intro exI [of _ q]) (simp add: pingPongPipe_sendBuffers_def pp_contents_def pp_ok_def Let_def n_def [symmetric] z [symmetric] wake_readers_def)
qed

lemma recv_refines:
  assumes "pp_ok p"
  shows "\<exists>p'. pp_step (Recv sizes) p = Inr (fst (pp_queue (Recv sizes) (pp_contents p)), p') \<and> pp_ok p' \<and>
    pp_contents p' = snd (pp_queue (Recv sizes) (pp_contents p))"
proof -
  have r: "ring_ok p" using assms by (simp add: pp_ok_def)
  from ring_recv_spec [OF r, of 0 sizes] obtain ret bss q where
    q: "ring_recv sizes 0 p = (ret, bss, q)" "ring_ok q" "ring_data p = concat bss @ ring_data q" "pp_flags q = pp_flags p"
      "length (concat bss) = min (sum_list sizes) (pp_count p)" "0 < pp_count p \<longrightarrow> ret = int (length (concat bss))" by auto
  have z: "pp_size q = pp_size p" using ring_recv_size [of sizes 0 p] q(1) by simp
  have t: "concat bss = take (sum_list sizes) (ring_data p)" "ring_data q = drop (sum_list sizes) (ring_data p)"
  proof -
    have "length (ring_data p) = pp_count p" by simp
    then have "pp_count q = 0" if "pp_count p \<le> sum_list sizes" using q(3,5) that by (metis add_cancel_right_right length_append length_ring_data min.absorb2)
    then have "ring_data q = []" if "pp_count p \<le> sum_list sizes" using that by (simp flip: length_0_conv)
    then show "concat bss = take (sum_list sizes) (ring_data p)" "ring_data q = drop (sum_list sizes) (ring_data p)"
      using q(3,5) by (cases "pp_count p \<le> sum_list sizes"; simp add: min_def)+
  qed
  have ret: "ret = (if sizes \<noteq> [] \<and> ring_data p = [] then PIPE_ERROR_AGAIN else int (min (sum_list sizes) (pp_count p)))"
  proof (cases "pp_count p = 0")
    case True
    then have "ring_data p = []" by (simp flip: length_0_conv)
    then show ?thesis using q(1) True by (cases sizes) auto
  next
    case False
    then have "ring_data p \<noteq> []" by (simp flip: length_0_conv)
    then show ?thesis using q(5,6) False by simp
  qed
  have c: "pp_count q = pp_count p - sum_list sizes" using t(2) by (metis length_ring_data length_drop)
  show ?thesis using q(1,2,4) t z ret c assms by (intro exI [of _ q]) (simp add: pingPongPipe_recvBuffers_def pp_contents_def pp_ok_def Let_def wake_writers_def)
qed

interpretation pp_service: queue_device pp_step pp_queue pp_contents pp_ok pp_valid
proof
  fix p op
  assume p: "pp_ok p" and v: "pp_valid op"
  show "\<exists>p'. pp_step op p = Inr (fst (pp_queue op (pp_contents p)), p') \<and> pp_ok p' \<and> pp_contents p' = snd (pp_queue op (pp_contents p))"
  proof (cases op)
    case (Send ok bufs)
    then show ?thesis using send_refines [OF p] v by simp
  next
    case (Recv sizes)
    then show ?thesis using recv_refines [OF p] by simp
  next
    case (Wake_on flags)
    then show ?thesis using p by (simp add: pp_contents_def pp_ok_def pingPongPipe_wakeOn_def ring_ok_def ring_data_def ring_wrap_def)
  next
    case Poll
    have "0 < pp_count p \<longleftrightarrow> ring_data p \<noteq> []" by (metis length_ring_data length_greater_0_conv)
    then show ?thesis using Poll p by (simp add: pp_contents_def pingPongPipe_poll_def)
  qed
qed

lemma ring_ok_init: "ring_ok (pingPongPipe_init junk)" "ring_data (pingPongPipe_init junk) = []"
  by (simp_all add: ring_ok_def ring_data_def pingPongPipe_init_def PINGPONG_SIZE_def)

section \<open>Properties\<close>

text \<open>C35: The ping-pong service is a queue of bytes. Over any sequence of sends, receives, polls and wake requests on a new client, whichever reallocations succeed, the
  answers, the bytes received and the wake-ups are those of the queue: a send takes the bytes that fit after the buffer has doubled as long as they do not fit
  and memory is available, and reports their number or, when the buffer is full, the error; a receive gives the oldest bytes, as many as are there and fit.
  The circular buffer wraps around and grows on the way. No allocation is larger than 1 GiB and no call passes 2 GiB, so that no sum of the code overflows.\<close>

theorem pingpong_echo:
  assumes "list_all pp_valid ops"
  shows "\<exists>outs p. device_run pp_step ops (pingPongPipe_init junk) = Inr (outs, p) \<and>
    queue_run pp_queue ops ([], PINGPONG_SIZE, 0) = (outs, (ring_data p, pp_size p, pp_flags p)) \<and> pp_pos p + pp_count p < 2 ^ 31"
proof -
  have ok: "pp_ok (pingPongPipe_init junk)" "pp_contents (pingPongPipe_init junk) = ([], PINGPONG_SIZE, 0)"
    using ring_ok_init [of junk] by (simp_all add: pp_ok_def pp_contents_def pingPongPipe_init_def PINGPONG_SIZE_def)
  from pp_service.run_refines [OF ok(1) assms] obtain outs p where "device_run pp_step ops (pingPongPipe_init junk) = Inr (outs, p)"
    "queue_run pp_queue ops ([], PINGPONG_SIZE, 0) = (outs, (ring_data p, pp_size p, pp_flags p))" "pp_ok p"
    unfolding ok(2) by (auto simp: pp_contents_def)
  then show ?thesis by (auto simp: pp_ok_def ring_ok_def)
qed

theorem pingpong_echo_witness:
  "\<exists>p. device_run pp_step [Send (\<lambda>_. False) [[1, 2], [3]], Recv [2], Send (\<lambda>_. False) [replicate 2000 4], Recv [1]] (pingPongPipe_init (\<lambda>_. 0)) =
     Inr ([(3, [], []), (2, [1, 2], []), (1023, [], []), (1, [3], [])], p) \<and> pp_size p = 1024"
proof -
  have g: "grown (\<lambda>_. False) n len 1024 = 1024" for n len by (subst grown.simps) simp
  from pingpong_echo [of "[Send (\<lambda>_. False) [[1, 2], [3]], Recv [2], Send (\<lambda>_. False) [replicate 2000 4], Recv [1]]" "\<lambda>_. 0"] show ?thesis
    by (auto simp: PINGPONG_SIZE_def g Let_def)
qed

text \<open>The operations on the buffer keep the other fields of a throttled pipe.\<close>

lemma ring_grow_more: "PingPongPipe.more (ring_grow ok n p) = PingPongPipe.more p"
proof (induction ok n p rule: ring_grow.induct)
  case (1 ok n p)
  then show ?case by (subst ring_grow.simps) (simp add: Let_def)
qed

lemma ring_send_more: "PingPongPipe.more (snd (ring_send bufs ret p)) = PingPongPipe.more p"
  by (induction bufs ret p rule: ring_send.induct) (auto simp: Let_def)

text \<open>The timer of a throttled pipe is armed with an absolute time where a delay is expected: after a send at a time \<open>now\<close> the
  sender is blocked until about twice that time, not for the few milliseconds the rate asks for.\<close>

theorem throttle_timer_late:
  assumes "ring_ok p" and "th_sendExpiration p = 0" and "th_recvExpiration p = 0" and "0 < now" and "b \<noteq> []"
  shows "\<exists>p' calls. throttlePipe_sendBuffers (\<lambda>_. True) now p [b] = (int (length b), p', calls) \<and>
    th_timer p' = Some (2 * now + int (length b) div 4096) \<and>
    (\<forall>t bufs. throttlePipe_sendBuffers (\<lambda>_. True) t p' bufs = (PIPE_ERROR_AGAIN, p', []))"
proof -
  let ?g = "ring_grow (\<lambda>_. True) (length b) p"
  have g: "ring_ok ?g" "length b \<le> pp_size ?g - pp_count ?g"
    using ring_grow_spec [OF assms(1), of "\<lambda>_. True" "length b"] by auto
  have "pp_count ?g + length (concat [b]) \<le> pp_size ?g" using g by (auto simp: ring_ok_def)
  from ring_send_spec [OF g(1) this, of 0] obtain q where q: "ring_send [b] 0 ?g = (int (length b), q)"
    using assms(5) by auto
  have "PingPongPipe.more q = PingPongPipe.more p"
    using ring_send_more [of "[b]" 0 ?g] ring_grow_more [of "\<lambda>_. True" "length b" p] q by simp
  then have r: "th_recvExpiration q = 0" using assms(3) by (cases p, cases q) simp
  have pos: "0 < now + int (length b) div 4096" using assms(4) by (simp add: add_pos_nonneg)
  then show ?thesis
    using q assms(2,5) r
    by (auto simp: throttlePipe_sendBuffers_def throttlePipe_rearm_def Let_def simp del: ring_send.simps)
qed

end
