(* ===== verification/Goldfish_Pipe.thy ===== *)
theory Goldfish_Pipe
  imports Pipe_Services Goldfish_Device Guest_Memory Irq_Line
begin

text \<open>
  The goldfish pipe device, \<open>hw/android/goldfish/pipe.c\<close>: the channels a guest opens, the transfers of its buffers, the
  list of the channels to wake with the interrupt line, the access with a parameter block, and snapshots. The device is
  modelled for services with an arbitrary state of their clients. A \<open>HwPipe\<close> is known by a number in place of its address;
  the links \<open>next\<close> are the order of a list, and the links \<open>next_waked\<close> that of a list of such numbers.
\<close>

section \<open>Mapping guest buffers\<close>

text \<open>
  \<open>hm_ram\<close> gives the host address of a page of guest RAM, \<open>hm_vpage\<close> the physical page of a guest virtual page (-1 when
  it is not mapped), \<open>hm_pte_mask\<close> is \<open>TARGET_PTE_MASK\<close> on x86-64 and all ones elsewhere, \<open>hm_ulong_bits\<close> the width of
  \<open>target_ulong\<close>.
\<close>

record host_ram =
  hm_page_bits :: nat
  hm_ram :: "u64 \<Rightarrow> u64 option"
  hm_vpage :: "u64 \<Rightarrow> u64"
  hm_pte_mask :: u64
  hm_ulong_bits :: nat
  hm_guest_64bit :: bool
  hm_mem :: phys_mem

definition ram_page :: "host_ram \<Rightarrow> u64 \<Rightarrow> u64" where
  "ram_page m addr = addr AND NOT (mask (hm_page_bits m))"

definition ram_room :: "host_ram \<Rightarrow> u64 \<Rightarrow> nat" where
  "ram_room m addr = 2 ^ hm_page_bits m - unat (addr AND mask (hm_page_bits m))"

definition ram_ptr :: "host_ram \<Rightarrow> u64 \<Rightarrow> u64 option" where
  "ram_ptr m addr = map_option (\<lambda>h. h + (addr AND mask (hm_page_bits m))) (hm_ram m (ram_page m addr))"

lemma ram_room_pos [simp]: "0 < ram_room m addr"
  by (simp add: ram_room_def unat_and_mask)

text \<open>The part of a range that is contiguous in host memory, from the host address \<open>ret\<close> on with \<open>done\<close> bytes found.\<close>

function map_run :: "host_ram \<Rightarrow> u64 \<Rightarrow> nat \<Rightarrow> u64 \<Rightarrow> nat \<Rightarrow> nat" where
  "map_run m addr len ret done =
     (if len = 0 then done
      else case ram_ptr m addr of
             None \<Rightarrow> done
           | Some ptr \<Rightarrow>
               if ret + word_of_nat done \<noteq> ptr then done
               else let l = min (ram_room m addr) len in map_run m (addr + word_of_nat l) (len - l) ret (done + l))"
  by pat_completeness auto
termination
  by (relation "measure (\<lambda>(m, addr, len, ret, done). len)") auto

declare map_run.simps [simp del]

text \<open>No mapping, a page of I/O memory (through the bounce buffer), or a range of host memory, with the length mapped.\<close>

datatype host_map = Map_null | Map_io nat | Map_host u64 nat

definition cpu_physical_memory_map :: "host_ram \<Rightarrow> u64 \<Rightarrow> nat \<Rightarrow> host_map" where
  "cpu_physical_memory_map m addr len =
     (if len = 0 then Map_null
      else case ram_ptr m addr of
             None \<Rightarrow> Map_io (min (ram_room m addr) len)
           | Some ptr \<Rightarrow> Map_host ptr (map_run m addr len ptr 0))"

datatype PipeDeviceMode = USE_VA | USE_PA

definition map_guest_buffer :: "PipeDeviceMode \<Rightarrow> host_ram \<Rightarrow> u64 \<Rightarrow> u32 \<Rightarrow> u64 option res" where
  "map_guest_buffer mode m address sz =
     (let xaddr = take_bit (hm_ulong_bits m) address; page = ram_page m xaddr;
          phys = (if mode = USE_VA then hm_vpage m page AND hm_pte_mask m else xaddr)
      in case cpu_physical_memory_map m phys (unat sz) of
           Map_null \<Rightarrow> Inr None
         | Map_io l \<Rightarrow> if l \<noteq> unat sz then Inr None else Inl Io_Access
         | Map_host ptr l \<Rightarrow>
             if l \<noteq> unat sz then Inr None
             else Inr (Some (if mode = USE_VA then ptr + (xaddr - page) else ptr)))"

text \<open>Physical memory outside RAM is unassigned for the parameter block: reads give zero, writes are dropped.\<close>

definition phys_byte :: "host_ram \<Rightarrow> u64 \<Rightarrow> u8" where
  "phys_byte m a = (case ram_ptr m a of None \<Rightarrow> 0 | Some p \<Rightarrow> hm_mem m p)"

definition phys_read :: "host_ram \<Rightarrow> u64 \<Rightarrow> nat \<Rightarrow> u8 list" where
  "phys_read m a n = map (\<lambda>i. phys_byte m (a + word_of_nat i)) [0..<n]"

fun phys_write :: "host_ram \<Rightarrow> u64 \<Rightarrow> u8 list \<Rightarrow> host_ram" where
  "phys_write m a [] = m"
| "phys_write m a (b # bs) =
     phys_write (case ram_ptr m a of None \<Rightarrow> m | Some p \<Rightarrow> m\<lparr>hm_mem := (hm_mem m)(p := b)\<rparr>) (a + 1) bs"

section \<open>State\<close>

record 'c HwPipe =
  hp_id :: nat
  hp_channel :: u64
  hp_wakes :: u8
  hp_closed :: u8
  hp_pipe :: "'c Pipe"

record 'c PipeDevice =
  pd_dev :: goldfish_device
  pd_pipes :: "'c HwPipe list"
  pd_signaled :: "nat list"
  pd_address :: u64
  pd_size :: u32
  pd_status :: u32
  pd_channel :: u64
  pd_wakes :: u32
  pd_params_addr :: u64
  pd_mode :: PipeDeviceMode
  pd_next_id :: nat

definition PIPE_REG_COMMAND :: u64 where "PIPE_REG_COMMAND = 0x00"
definition PIPE_REG_STATUS :: u64 where "PIPE_REG_STATUS = 0x04"
definition PIPE_REG_CHANNEL :: u64 where "PIPE_REG_CHANNEL = 0x08"
definition PIPE_REG_SIZE :: u64 where "PIPE_REG_SIZE = 0x0c"
definition PIPE_REG_ADDRESS :: u64 where "PIPE_REG_ADDRESS = 0x10"
definition PIPE_REG_WAKES :: u64 where "PIPE_REG_WAKES = 0x14"
definition PIPE_REG_PARAMS_ADDR_LOW :: u64 where "PIPE_REG_PARAMS_ADDR_LOW = 0x18"
definition PIPE_REG_PARAMS_ADDR_HIGH :: u64 where "PIPE_REG_PARAMS_ADDR_HIGH = 0x1c"
definition PIPE_REG_ACCESS_PARAMS :: u64 where "PIPE_REG_ACCESS_PARAMS = 0x20"
definition PIPE_REG_VERSION :: u64 where "PIPE_REG_VERSION = 0x24"
definition PIPE_REG_CHANNEL_HIGH :: u64 where "PIPE_REG_CHANNEL_HIGH = 0x30"
definition PIPE_REG_ADDRESS_HIGH :: u64 where "PIPE_REG_ADDRESS_HIGH = 0x34"

definition PIPE_CMD_OPEN :: u32 where "PIPE_CMD_OPEN = 1"
definition PIPE_CMD_CLOSE :: u32 where "PIPE_CMD_CLOSE = 2"
definition PIPE_CMD_POLL :: u32 where "PIPE_CMD_POLL = 3"
definition PIPE_CMD_WRITE_BUFFER :: u32 where "PIPE_CMD_WRITE_BUFFER = 4"
definition PIPE_CMD_WAKE_ON_WRITE :: u32 where "PIPE_CMD_WAKE_ON_WRITE = 5"
definition PIPE_CMD_READ_BUFFER :: u32 where "PIPE_CMD_READ_BUFFER = 6"
definition PIPE_CMD_WAKE_ON_READ :: u32 where "PIPE_CMD_WAKE_ON_READ = 7"

definition PIPE_DEVICE_VERSION :: u32 where "PIPE_DEVICE_VERSION = 1"
definition GOLDFISH_PIPE_SAVE_VERSION :: int where "GOLDFISH_PIPE_SAVE_VERSION = 4"
definition GOLDFISH_PIPE_SAVE_LEGACY_VERSION :: int where "GOLDFISH_PIPE_SAVE_LEGACY_VERSION = 3"

lemmas pipe_reg_defs = PIPE_REG_COMMAND_def PIPE_REG_STATUS_def PIPE_REG_CHANNEL_def PIPE_REG_SIZE_def
  PIPE_REG_ADDRESS_def PIPE_REG_WAKES_def PIPE_REG_PARAMS_ADDR_LOW_def PIPE_REG_PARAMS_ADDR_HIGH_def
  PIPE_REG_ACCESS_PARAMS_def PIPE_REG_VERSION_def PIPE_REG_CHANNEL_HIGH_def PIPE_REG_ADDRESS_HIGH_def
lemmas pipe_cmd_defs = PIPE_CMD_OPEN_def PIPE_CMD_CLOSE_def PIPE_CMD_POLL_def PIPE_CMD_WRITE_BUFFER_def
  PIPE_CMD_WAKE_ON_WRITE_def PIPE_CMD_READ_BUFFER_def PIPE_CMD_WAKE_ON_READ_def

definition pipe_ids :: "'c PipeDevice \<Rightarrow> nat list" where
  "pipe_ids d = map hp_id (pd_pipes d)"

definition update_pipe :: "nat \<Rightarrow> ('c HwPipe \<Rightarrow> 'c HwPipe) \<Rightarrow> 'c PipeDevice \<Rightarrow> 'c PipeDevice" where
  "update_pipe i f d = d\<lparr>pd_pipes := map (\<lambda>p. if hp_id p = i then f p else p) (pd_pipes d)\<rparr>"

definition hwpipe_find :: "nat \<Rightarrow> 'c PipeDevice \<Rightarrow> 'c HwPipe option" where
  "hwpipe_find i d = find (\<lambda>p. hp_id p = i) (pd_pipes d)"

fun hwpipe_findp_by_channel :: "'c HwPipe list \<Rightarrow> u64 \<Rightarrow> 'c HwPipe option" where
  "hwpipe_findp_by_channel [] channel = None"
| "hwpipe_findp_by_channel (p # ps) channel = (if hp_channel p = channel then Some p else hwpipe_findp_by_channel ps channel)"

section \<open>Waking the guest\<close>

text \<open>A call on a pipe that was freed is an access to freed memory.\<close>

definition goldfish_pipe_wake :: "nat \<Rightarrow> u32 \<Rightarrow> 'c PipeDevice \<Rightarrow> ('c PipeDevice \<times> irq_out list) res" where
  "goldfish_pipe_wake i flags d =
     (if i \<notin> set (pipe_ids d) then Inl Undefined
      else let d1 = d\<lparr>pd_signaled := (if i \<in> set (pd_signaled d) then pd_signaled d else i # pd_signaled d)\<rparr>;
               d2 = update_pipe i (\<lambda>p. p\<lparr>hp_wakes := hp_wakes p OR ucast flags\<rparr>) d1
           in res_bind (goldfish_device_set_irq (pd_dev d) 0 True) (\<lambda>os. Inr (d2, os)))"

definition goldfish_pipe_close :: "nat \<Rightarrow> 'c PipeDevice \<Rightarrow> ('c PipeDevice \<times> irq_out list) res" where
  "goldfish_pipe_close i d =
     (case hwpipe_find i d of
        None \<Rightarrow> Inl Undefined
      | Some p \<Rightarrow>
          if hp_closed p = 0
          then goldfish_pipe_wake i PIPE_WAKE_CLOSED (update_pipe i (\<lambda>p. p\<lparr>hp_closed := 1\<rparr>) d)
          else Inr (d, []))"

fun run_calls :: "nat \<Rightarrow> hw_call list \<Rightarrow> 'c PipeDevice \<Rightarrow> ('c PipeDevice \<times> irq_out list) res" where
  "run_calls i [] d = Inr (d, [])"
| "run_calls i (c # cs) d =
     res_bind (case c of Close_from_host \<Rightarrow> goldfish_pipe_close i d | Signal_wake flags \<Rightarrow> goldfish_pipe_wake i flags d)
       (\<lambda>(d1, os). res_bind (run_calls i cs d1) (\<lambda>(d2, os'). Inr (d2, os @ os')))"

section \<open>Commands\<close>

definition with_status :: "u32 \<Rightarrow> 'c PipeDevice \<times> irq_out list \<Rightarrow> 'c PipeDevice \<times> irq_out list" where
  "with_status st = (\<lambda>(d, os). (d\<lparr>pd_status := st\<rparr>, os))"

text \<open>A callback changes the pipe and makes its calls on the device; the status is set last.\<close>

definition finish_command ::
  "nat \<Rightarrow> 'c Pipe \<Rightarrow> hw_call list \<Rightarrow> u32 \<Rightarrow> 'c PipeDevice \<Rightarrow> ('c PipeDevice \<times> irq_out list) res" where
  "finish_command i pipe calls st d =
     res_bind (run_calls i calls (update_pipe i (\<lambda>p. p\<lparr>hp_pipe := pipe\<rparr>) d)) (\<lambda>r. Inr (with_status st r))"

definition cmd_wake_on :: "u8 \<Rightarrow> 'c HwPipe \<Rightarrow> 'c PipeDevice \<Rightarrow> ('c PipeDevice \<times> irq_out list) res" where
  "cmd_wake_on flag p d =
     (if hp_wakes p AND flag = 0 then
        let w = hp_wakes p OR flag; d1 = update_pipe (hp_id p) (\<lambda>p. p\<lparr>hp_wakes := w\<rparr>) d
        in res_bind (android_pipe_wake_on (hp_pipe p) (ucast w)) (\<lambda>(pipe, calls). finish_command (hp_id p) pipe calls 0 d1)
      else Inr (d\<lparr>pd_status := 0\<rparr>, []))"

definition cmd_read_buffer ::
  "'c HwPipe \<Rightarrow> 'c PipeDevice \<Rightarrow> host_ram \<Rightarrow> ('c PipeDevice \<times> host_ram \<times> irq_out list) res" where
  "cmd_read_buffer p d m =
     res_bind (map_guest_buffer (pd_mode d) m (pd_address d) (pd_size d)) (\<lambda>data.
       case data of
         None \<Rightarrow> Inr (d\<lparr>pd_status := word_of_int PIPE_ERROR_INVAL\<rparr>, m, [])
       | Some ptr \<Rightarrow>
           res_bind (android_pipe_recv (hp_pipe p) [unat (pd_size d)]) (\<lambda>(ret, bss, pipe, calls).
           res_bind (finish_command (hp_id p) pipe calls (word_of_int ret) d) (\<lambda>(d', os).
             Inr (d', m\<lparr>hm_mem := mem_blit (hm_mem m) ptr (concat bss)\<rparr>, os))))"

definition cmd_write_buffer ::
  "'c PipeServices \<Rightarrow> 'c HwPipe \<Rightarrow> 'c PipeDevice \<Rightarrow> host_ram \<Rightarrow> ('c PipeDevice \<times> host_ram \<times> irq_out list) res" where
  "cmd_write_buffer svcs p d m =
     res_bind (map_guest_buffer (pd_mode d) m (pd_address d) (pd_size d)) (\<lambda>data.
       case data of
         None \<Rightarrow> Inr (d\<lparr>pd_status := word_of_int PIPE_ERROR_INVAL\<rparr>, m, [])
       | Some ptr \<Rightarrow>
           res_bind (android_pipe_send svcs (hp_pipe p) [mem_window (hm_mem m) ptr (unat (pd_size d))])
             (\<lambda>(ret, pipe, calls). res_bind (finish_command (hp_id p) pipe calls (word_of_int ret) d)
                (\<lambda>(d', os). Inr (d', m, os))))"

definition cmd_open :: "'c PipeDevice \<Rightarrow> 'c PipeDevice" where
  "cmd_open d = d\<lparr>pd_pipes := \<lparr>hp_id = pd_next_id d, hp_channel = pd_channel d, hp_wakes = 0, hp_closed = 0,
       hp_pipe = android_pipe_new\<rparr> # pd_pipes d, pd_next_id := pd_next_id d + 1, pd_status := 0\<rparr>"

fun unlink_channel :: "'c HwPipe list \<Rightarrow> u64 \<Rightarrow> 'c HwPipe list" where
  "unlink_channel [] channel = []"
| "unlink_channel (p # ps) channel = (if hp_channel p = channel then ps else p # unlink_channel ps channel)"

definition cmd_close :: "'c HwPipe \<Rightarrow> 'c PipeDevice \<Rightarrow> 'c PipeDevice res" where
  "cmd_close p d =
     res_bind (android_pipe_free (hp_pipe p)) (\<lambda>_.
       Inr (d\<lparr>pd_pipes := unlink_channel (pd_pipes d) (pd_channel d), pd_signaled := remove1 (hp_id p) (pd_signaled d)\<rparr>))"

definition pipeDevice_doCommand ::
  "'c PipeServices \<Rightarrow> u32 \<Rightarrow> 'c PipeDevice \<Rightarrow> host_ram \<Rightarrow> ('c PipeDevice \<times> host_ram \<times> irq_out list) res" where
  "pipeDevice_doCommand svcs command d m =
     (let only = (\<lambda>r. res_bind r (\<lambda>(d', os). Inr (d', m, os)))
      in case hwpipe_findp_by_channel (pd_pipes d) (pd_channel d) of
           None \<Rightarrow>
             if command = PIPE_CMD_OPEN then Inr (cmd_open d, m, [])
             else Inr (d\<lparr>pd_status := word_of_int PIPE_ERROR_INVAL\<rparr>, m, [])
         | Some p \<Rightarrow>
             if hp_closed p \<noteq> 0 \<and> command \<noteq> PIPE_CMD_CLOSE then Inr (d\<lparr>pd_status := word_of_int PIPE_ERROR_IO\<rparr>, m, [])
             else if command = PIPE_CMD_OPEN then Inr (d\<lparr>pd_status := word_of_int PIPE_ERROR_INVAL\<rparr>, m, [])
             else if command = PIPE_CMD_CLOSE then res_bind (cmd_close p d) (\<lambda>d'. Inr (d', m, []))
             else if command = PIPE_CMD_POLL then
               res_bind (android_pipe_poll (hp_pipe p)) (\<lambda>st. Inr (d\<lparr>pd_status := st\<rparr>, m, []))
             else if command = PIPE_CMD_READ_BUFFER then cmd_read_buffer p d m
             else if command = PIPE_CMD_WRITE_BUFFER then cmd_write_buffer svcs p d m
             else if command = PIPE_CMD_WAKE_ON_READ then only (cmd_wake_on (ucast PIPE_WAKE_READ) p d)
             else if command = PIPE_CMD_WAKE_ON_WRITE then only (cmd_wake_on (ucast PIPE_WAKE_WRITE) p d)
             else Inr (d, m, []))"

section \<open>Registers\<close>

text \<open>
  The parameter block, \<open>struct access_params\<close> of 24 bytes or \<open>struct access_params_64\<close> of 40 bytes, and its fields. The block
  read before the command is written back after it with the result.
\<close>

definition block_le32 :: "u8 list \<Rightarrow> nat \<Rightarrow> u32" where
  "block_le32 b i = le32_join (b ! i) (b ! (i + 1)) (b ! (i + 2)) (b ! (i + 3))"

definition block_le64 :: "u8 list \<Rightarrow> nat \<Rightarrow> u64" where
  "block_le64 b i = push_bit 32 (ucast (block_le32 b (i + 4))) OR ucast (block_le32 b i)"

definition block_put32 :: "u8 list \<Rightarrow> nat \<Rightarrow> u32 \<Rightarrow> u8 list" where
  "block_put32 b i v = take i b @ [le32_byte v 0, le32_byte v 1, le32_byte v 2, le32_byte v 3] @ drop (i + 4) b"

definition pipe_access_params ::
  "'c PipeServices \<Rightarrow> 'c PipeDevice \<Rightarrow> host_ram \<Rightarrow> ('c PipeDevice \<times> host_ram \<times> irq_out list) res" where
  "pipe_access_params svcs d m =
     (if pd_params_addr d = 0 then Inr (d, m, [])
      else let w = hm_guest_64bit m;
               b = phys_read m (pd_params_addr d) (if w then 40 else 24);
               d1 = d\<lparr>pd_channel := (if w then block_le64 b 0 else ucast (block_le32 b 0)),
                      pd_size := (if w then block_le32 b 8 else block_le32 b 4),
                      pd_address := (if w then block_le64 b 16 else ucast (block_le32 b 8))\<rparr>;
               cmd = (if w then block_le32 b 24 else block_le32 b 12)
           in if cmd \<noteq> PIPE_CMD_READ_BUFFER \<and> cmd \<noteq> PIPE_CMD_WRITE_BUFFER then Inr (d1, m, [])
              else res_bind (pipeDevice_doCommand svcs cmd d1 m) (\<lambda>(d2, m2, os).
                     Inr (d2, phys_write m2 (pd_params_addr d2) (block_put32 b (if w then 28 else 16) (pd_status d2)), os)))"

definition pipe_dev_write ::
  "'c PipeServices \<Rightarrow> u64 \<Rightarrow> u32 \<Rightarrow> 'c PipeDevice \<Rightarrow> host_ram \<Rightarrow> ('c PipeDevice \<times> host_ram \<times> irq_out list) res" where
  "pipe_dev_write svcs offset v d m =
     (if offset = PIPE_REG_COMMAND then pipeDevice_doCommand svcs v d m
      else if offset = PIPE_REG_SIZE then Inr (d\<lparr>pd_size := v\<rparr>, m, [])
      else if offset = PIPE_REG_ADDRESS then Inr (d\<lparr>pd_address := uint64_set_low (pd_address d) v\<rparr>, m, [])
      else if offset = PIPE_REG_ADDRESS_HIGH then Inr (d\<lparr>pd_address := uint64_set_high (pd_address d) v\<rparr>, m, [])
      else if offset = PIPE_REG_CHANNEL then Inr (d\<lparr>pd_channel := uint64_set_low (pd_channel d) v\<rparr>, m, [])
      else if offset = PIPE_REG_CHANNEL_HIGH then Inr (d\<lparr>pd_channel := uint64_set_high (pd_channel d) v\<rparr>, m, [])
      else if offset = PIPE_REG_PARAMS_ADDR_HIGH then
        Inr (d\<lparr>pd_params_addr := (pd_params_addr d AND NOT (push_bit 32 0xFFFFFFFF)) OR push_bit 32 (ucast v)\<rparr>, m, [])
      else if offset = PIPE_REG_PARAMS_ADDR_LOW then
        Inr (d\<lparr>pd_params_addr := (pd_params_addr d AND NOT 0xFFFFFFFF) OR ucast v\<rparr>, m, [])
      else if offset = PIPE_REG_ACCESS_PARAMS then pipe_access_params svcs d m
      else Inr (d, m, []))"

text \<open>A read of the channel takes the first pipe off the list of the signaled ones.\<close>

definition take_signaled :: "'c PipeDevice \<Rightarrow> (u32 \<times> 'c PipeDevice \<times> irq_out list) res" where
  "take_signaled d =
     (case pd_signaled d of
        [] \<Rightarrow> Inr (0, d, [])
      | i # rest \<Rightarrow>
          (case hwpipe_find i d of
             None \<Rightarrow> Inl Undefined
           | Some p \<Rightarrow>
               let d1 = update_pipe i (\<lambda>p. p\<lparr>hp_wakes := 0\<rparr>) (d\<lparr>pd_wakes := ucast (hp_wakes p), pd_signaled := rest\<rparr>)
               in res_bind (if rest = [] then goldfish_device_set_irq (pd_dev d) 0 False else Inr [])
                    (\<lambda>os. Inr (ucast (hp_channel p), d1, os))))"

definition pipe_dev_read :: "u64 \<Rightarrow> 'c PipeDevice \<Rightarrow> (u32 \<times> 'c PipeDevice \<times> irq_out list) res" where
  "pipe_dev_read offset d =
     (if offset = PIPE_REG_STATUS then Inr (pd_status d, d, [])
      else if offset = PIPE_REG_CHANNEL then take_signaled d
      else if offset = PIPE_REG_CHANNEL_HIGH then
        (case pd_signaled d of
           [] \<Rightarrow> Inr (0, d, [])
         | i # _ \<Rightarrow>
             (case hwpipe_find i d of
                None \<Rightarrow> Inl Undefined
              | Some p \<Rightarrow> Inr (ucast (drop_bit 32 (hp_channel p)), d, [])))
      else if offset = PIPE_REG_WAKES then Inr (pd_wakes d, d, [])
      else if offset = PIPE_REG_PARAMS_ADDR_HIGH then Inr (ucast (drop_bit 32 (pd_params_addr d)), d, [])
      else if offset = PIPE_REG_PARAMS_ADDR_LOW then Inr (ucast (pd_params_addr d), d, [])
      else if offset = PIPE_REG_VERSION then Inr (PIPE_DEVICE_VERSION, d\<lparr>pd_mode := USE_PA\<rparr>, [])
      else Inr (0, d, []))"

section \<open>Snapshots\<close>

definition hwpipe_save :: "'c HwPipe \<Rightarrow> u8 list" where
  "hwpipe_save p = be64_bytes (hp_channel p) @ [hp_wakes p, hp_closed p] @ android_pipe_save (hp_pipe p)"

definition hwpipe_load ::
  "'c PipeServices \<Rightarrow> nat \<Rightarrow> rstream \<Rightarrow> int \<Rightarrow> ('c HwPipe option \<times> rstream) res" where
  "hwpipe_load svcs i f version_id =
     (let mk = (\<lambda>channel wakes closed (pipe, force).
            \<lparr>hp_id = i, hp_channel = channel, hp_wakes = wakes, hp_closed = (if force then 1 else closed), hp_pipe = pipe\<rparr>)
      in if version_id = GOLDFISH_PIPE_SAVE_LEGACY_VERSION then
           res_bind (android_pipe_load_legacy svcs f) (\<lambda>(r, f1).
             Inr (map_option (\<lambda>(channel, wakes, closed, pipe, force). mk channel wakes closed (pipe, force)) r, f1))
         else
           let (channel, f1) = st_get_be64 f; (wakes, f2) = st_get_byte f1; (closed, f3) = st_get_byte f2
           in res_bind (android_pipe_load svcs f3) (\<lambda>(r, f4). Inr (map_option (mk channel wakes closed) r, f4)))"

definition goldfish_pipe_save :: "'c PipeDevice \<Rightarrow> u8 list" where
  "goldfish_pipe_save d =
     be64_bytes (pd_address d) @ be32_bytes (pd_size d) @ be32_bytes (pd_status d) @ be64_bytes (pd_channel d) @
     be32_bytes (pd_wakes d) @ be64_bytes (pd_params_addr d) @
     be32_bytes (word_of_nat (length (pd_pipes d))) @ concat (map hwpipe_save (pd_pipes d))"

text \<open>The loop that loads the pipes, each in front of the list, and the one that wakes and closes them.\<close>

fun load_pipes ::
  "'c PipeServices \<Rightarrow> int \<Rightarrow> nat \<Rightarrow> rstream \<Rightarrow> 'c PipeDevice \<Rightarrow> (int \<times> 'c PipeDevice \<times> rstream) res" where
  "load_pipes svcs version_id 0 f d = Inr (0, d, f)"
| "load_pipes svcs version_id (Suc n) f d =
     res_bind (hwpipe_load svcs (pd_next_id d) f version_id) (\<lambda>(r, f1).
       case r of
         None \<Rightarrow> Inr (- EIO, d, f1)
       | Some p \<Rightarrow> load_pipes svcs version_id n f1 (d\<lparr>pd_pipes := p # pd_pipes d, pd_next_id := pd_next_id d + 1\<rparr>))"

fun wake_loaded :: "'c HwPipe list \<Rightarrow> 'c PipeDevice \<Rightarrow> ('c PipeDevice \<times> irq_out list) res" where
  "wake_loaded [] d = Inr (d, [])"
| "wake_loaded (p # ps) d =
     res_bind (if hp_wakes p \<noteq> 0 then goldfish_pipe_wake (hp_id p) (ucast (hp_wakes p)) d else Inr (d, [])) (\<lambda>(d1, os1).
     res_bind (if hp_closed p \<noteq> 0 then goldfish_pipe_close (hp_id p) d1 else Inr (d1, [])) (\<lambda>(d2, os2).
     res_bind (wake_loaded ps d2) (\<lambda>(d3, os3). Inr (d3, os1 @ os2 @ os3))))"

definition goldfish_pipe_load ::
  "'c PipeServices \<Rightarrow> rstream \<Rightarrow> 'c PipeDevice \<Rightarrow> int \<Rightarrow> (int \<times> 'c PipeDevice \<times> rstream \<times> irq_out list) res" where
  "goldfish_pipe_load svcs f d version_id =
     (if version_id \<noteq> GOLDFISH_PIPE_SAVE_VERSION \<and> version_id \<noteq> GOLDFISH_PIPE_SAVE_LEGACY_VERSION
      then Inr (- EINVAL, d, f, [])
      else let (address, f1) = st_get_be64 f; (sz, f2) = st_get_be32 f1; (status, f3) = st_get_be32 f2;
               (channel, f4) = st_get_be64 f3; (wakes, f5) = st_get_be32 f4; (params, f6) = st_get_be64 f5;
               (count, f7) = st_get_be32 f6;
               d1 = d\<lparr>pd_address := address, pd_size := sz, pd_status := status, pd_channel := channel,
                      pd_wakes := wakes, pd_params_addr := params\<rparr>
           in res_bind (load_pipes svcs version_id (nat (sint count)) f7 d1) (\<lambda>(ret, d2, f8).
                if ret \<noteq> 0 then Inr (ret, d2, f8, [])
                else res_bind (wake_loaded (pd_pipes d2) d2) (\<lambda>(d3, os). Inr (0, d3, f8, os))))"

text \<open>The device after \<open>pipe_dev_init\<close>, once the bus has assigned its interrupt.\<close>

definition pipe_dev_init :: "goldfish_device \<Rightarrow> 'c PipeDevice" where
  "pipe_dev_init dev = \<lparr>pd_dev = dev, pd_pipes = [], pd_signaled = [], pd_address = 0, pd_size = 0, pd_status = 0,
     pd_channel = 0, pd_wakes = 0, pd_params_addr = 0, pd_mode = USE_VA, pd_next_id = 0\<rparr>"

section \<open>Invariant\<close>

text \<open>Pipes and channels are distinct, and the signaled pipes are open ones, each once.\<close>

definition pipe_inv :: "'c PipeDevice \<Rightarrow> bool" where
  "pipe_inv d \<longleftrightarrow> distinct (pipe_ids d) \<and> list_all (\<lambda>i. i < pd_next_id d) (pipe_ids d) \<and>
     distinct (map hp_channel (pd_pipes d)) \<and> distinct (pd_signaled d) \<and> set (pd_signaled d) \<subseteq> set (pipe_ids d) \<and>
     0 < d_irq_count (pd_dev d)"

text \<open>A change of the device that keeps the invariant, and keeps the line high while pipes are signaled.\<close>

definition pipe_trans :: "'c PipeDevice \<Rightarrow> 'c PipeDevice \<Rightarrow> irq_out list \<Rightarrow> bool" where
  "pipe_trans d d' os \<longleftrightarrow> pipe_inv d' \<and> pd_dev d' = pd_dev d \<and>
     (\<forall>l. (pd_signaled d \<noteq> [] \<longrightarrow> l) \<longrightarrow> pd_signaled d' \<noteq> [] \<longrightarrow> line_after (d_irq (pd_dev d)) os l)"

lemma pipe_trans_append:
  assumes "pipe_trans d d1 os" and "pipe_trans d1 d2 os'"
  shows "pipe_trans d d2 (os @ os')"
  using assms by (auto simp: pipe_trans_def)

lemma pipe_trans_silent:
  "pipe_trans d d1 [] \<Longrightarrow> pipe_trans d1 d2 os \<Longrightarrow> pipe_trans d d2 os"
  "pipe_trans d d1 os \<Longrightarrow> pipe_trans d1 d2 [] \<Longrightarrow> pipe_trans d d2 os"
  using pipe_trans_append [of d d1 "[]" d2 os] pipe_trans_append [of d d1 os d2 "[]"] by simp_all

lemma pipe_trans_inv: "pipe_trans d d' os \<Longrightarrow> pipe_inv d'"
  by (simp add: pipe_trans_def)

lemma pipe_trans_same:
  assumes "pipe_inv d" and "pd_pipes d' = pd_pipes d" and "pd_signaled d' = pd_signaled d"
    and "pd_dev d' = pd_dev d" and "pd_next_id d' = pd_next_id d"
  shows "pipe_trans d d' []"
  using assms by (simp add: pipe_trans_def pipe_inv_def pipe_ids_def)

definition keeps_key :: "('c HwPipe \<Rightarrow> 'c HwPipe) \<Rightarrow> bool" where
  "keeps_key f \<longleftrightarrow> (\<forall>p. hp_id (f p) = hp_id p \<and> hp_channel (f p) = hp_channel p)"

lemma update_pipe_fields [simp]:
  "pd_dev (update_pipe i f d) = pd_dev d" "pd_signaled (update_pipe i f d) = pd_signaled d"
  "pd_next_id (update_pipe i f d) = pd_next_id d" "pd_mode (update_pipe i f d) = pd_mode d"
  "pd_address (update_pipe i f d) = pd_address d" "pd_size (update_pipe i f d) = pd_size d"
  "pd_channel (update_pipe i f d) = pd_channel d" "pd_params_addr (update_pipe i f d) = pd_params_addr d"
  by (simp_all add: update_pipe_def)

lemma update_pipe_keys:
  assumes "keeps_key f"
  shows "pipe_ids (update_pipe i f d) = pipe_ids d" and "map hp_channel (pd_pipes (update_pipe i f d)) = map hp_channel (pd_pipes d)"
  using assms by (auto simp: keeps_key_def update_pipe_def pipe_ids_def)

lemma update_pipe_inv: "keeps_key f \<Longrightarrow> pipe_inv (update_pipe i f d) = pipe_inv d"
  using update_pipe_keys [of f i d] by (simp add: pipe_inv_def)

lemma keeps_key_simps [simp]:
  "keeps_key (\<lambda>p. p\<lparr>hp_wakes := g p\<rparr>)" "keeps_key (\<lambda>p. p\<lparr>hp_closed := h p\<rparr>)" "keeps_key (\<lambda>p. p\<lparr>hp_pipe := k p\<rparr>)"
  by (simp_all add: keeps_key_def)

lemma update_pipe_trans: "pipe_inv d \<Longrightarrow> keeps_key f \<Longrightarrow> pipe_trans d (update_pipe i f d) []"
  by (simp add: pipe_trans_def update_pipe_inv)

lemma wake_trans:
  assumes "pipe_inv d" and "goldfish_pipe_wake i flags d = Inr (d', os)"
  shows "pipe_trans d d' os"
proof -
  let ?d = "d\<lparr>pd_signaled := (if i \<in> set (pd_signaled d) then pd_signaled d else i # pd_signaled d)\<rparr>"
  have r: "i \<in> set (pipe_ids d)" "d' = update_pipe i (\<lambda>p. p\<lparr>hp_wakes := hp_wakes p OR ucast flags\<rparr>) ?d"
    "os = [(d_irq (pd_dev d), True)]"
    using assms by (auto simp: goldfish_pipe_wake_def Let_def pipe_inv_def split: if_splits)
  have "pipe_inv ?d" using assms(1) r(1) by (auto simp: pipe_inv_def pipe_ids_def)
  then show ?thesis using r(2,3) by (simp add: pipe_trans_def update_pipe_inv)
qed

lemma close_trans:
  assumes "pipe_inv d" and "goldfish_pipe_close i d = Inr (d', os)"
  shows "pipe_trans d d' os"
proof -
  define e where "e = update_pipe i (\<lambda>p. p\<lparr>hp_closed := 1\<rparr>) d"
  have t: "pipe_trans d e []" "pipe_inv e" using assms(1) by (simp_all add: update_pipe_trans update_pipe_inv e_def)
  obtain p where p: "hwpipe_find i d = Some p" using assms(2) by (cases "hwpipe_find i d") (simp_all add: goldfish_pipe_close_def)
  show ?thesis
  proof (cases "hp_closed p = 0")
    case True
    then have "goldfish_pipe_wake i PIPE_WAKE_CLOSED e = Inr (d', os)" using assms(2) p by (simp add: goldfish_pipe_close_def e_def)
    then show ?thesis by (rule pipe_trans_silent(1) [OF t(1) wake_trans [OF t(2)]])
  next
    case False
    then show ?thesis using assms p by (simp add: goldfish_pipe_close_def pipe_trans_same)
  qed
qed

lemma run_calls_trans: "pipe_inv d \<Longrightarrow> run_calls i cs d = Inr (d', os) \<Longrightarrow> pipe_trans d d' os"
proof (induction cs arbitrary: d os)
  case Nil
  then show ?case by (auto simp: pipe_trans_same)
next
  case (Cons c cs)
  then obtain d1 os1 os2 where 1: "(case c of Close_from_host \<Rightarrow> goldfish_pipe_close i d | Signal_wake flags \<Rightarrow> goldfish_pipe_wake i flags d) = Inr (d1, os1)"
      "run_calls i cs d1 = Inr (d', os2)" "os = os1 @ os2"
    by (auto simp: res_simps)
  have t: "pipe_trans d d1 os1" using 1(1) close_trans [OF Cons.prems(1)] wake_trans [OF Cons.prems(1)] by (cases c) auto
  then have "pipe_inv d1" by (simp add: pipe_trans_def)
  then show ?case using Cons.IH [OF _ 1(2)] pipe_trans_append [OF t] 1(3) by blast
qed

lemma finish_trans:
  assumes "pipe_inv d" and "finish_command i pipe calls st d = Inr (d', os)"
  shows "pipe_trans d d' os"
proof -
  let ?d = "update_pipe i (\<lambda>p. p\<lparr>hp_pipe := pipe\<rparr>) d"
  obtain d1 where 1: "run_calls i calls ?d = Inr (d1, os)" "d' = d1\<lparr>pd_status := st\<rparr>"
    using assms(2) by (auto simp: finish_command_def with_status_def res_simps)
  have t: "pipe_trans d ?d []" "pipe_inv ?d" using assms(1) by (simp_all add: update_pipe_trans update_pipe_inv)
  have r: "pipe_trans ?d d1 os" by (rule run_calls_trans [OF t(2) 1(1)])
  have "pipe_trans d1 d' []" using pipe_trans_inv [OF r] 1(2) by (simp add: pipe_trans_same)
  then show ?thesis by (rule pipe_trans_silent(2) [OF pipe_trans_silent(1) [OF t(1) r]])
qed

lemma findp_None: "hwpipe_findp_by_channel ps ch = None \<longleftrightarrow> ch \<notin> hp_channel ` set ps"
  by (induction ps) auto

lemma findp_Some: "hwpipe_findp_by_channel ps ch = Some p \<Longrightarrow> p \<in> set ps \<and> hp_channel p = ch"
  by (induction ps) (auto split: if_splits)

lemma unlink_channels: "map hp_channel (unlink_channel ps ch) = remove1 ch (map hp_channel ps)"
  by (induction ps) auto

lemma unlink_ids:
  "hwpipe_findp_by_channel ps ch = Some p \<Longrightarrow> distinct (map hp_id ps) \<Longrightarrow>
   map hp_id (unlink_channel ps ch) = remove1 (hp_id p) (map hp_id ps)"
  by (induction ps) (auto split: if_splits dest!: findp_Some, metis image_eqI)

lemma cmd_open_trans:
  assumes "pipe_inv d" and "hwpipe_findp_by_channel (pd_pipes d) (pd_channel d) = None"
  shows "pipe_trans d (cmd_open d) []"
  using assms by (auto simp: pipe_trans_def pipe_inv_def cmd_open_def pipe_ids_def findp_None list_all_iff)

lemma cmd_close_trans:
  assumes "pipe_inv d" and "hwpipe_findp_by_channel (pd_pipes d) (pd_channel d) = Some p" and "cmd_close p d = Inr d'"
  shows "pipe_trans d d' []"
proof -
  have d': "d' = d\<lparr>pd_pipes := unlink_channel (pd_pipes d) (pd_channel d), pd_signaled := remove1 (hp_id p) (pd_signaled d)\<rparr>"
    using assms(3) by (auto simp: cmd_close_def res_simps)
  have ids: "pipe_ids d' = remove1 (hp_id p) (pipe_ids d)"
    using unlink_ids [OF assms(2)] assms(1) by (simp add: d' pipe_ids_def pipe_inv_def)
  have sig: "set (remove1 (hp_id p) (pd_signaled d)) \<subseteq> set (remove1 (hp_id p) (pipe_ids d))"
    using assms(1) by (auto simp: pipe_inv_def)
  have "pipe_inv d'"
    using assms(1) ids sig by (auto simp: pipe_inv_def d' unlink_channels list_all_iff dest: notin_set_remove1)
  moreover have "pd_signaled d' \<noteq> [] \<longrightarrow> pd_signaled d \<noteq> []" by (auto simp: d')
  ultimately show ?thesis by (auto simp: pipe_trans_def d')
qed

lemma cmd_wake_on_trans:
  assumes "pipe_inv d" and "cmd_wake_on flag p d = Inr (d', os)"
  shows "pipe_trans d d' os"
proof (cases "hp_wakes p AND flag = 0")
  case True
  let ?d = "update_pipe (hp_id p) (\<lambda>q. q\<lparr>hp_wakes := hp_wakes p OR flag\<rparr>) d"
  obtain pipe calls where f: "finish_command (hp_id p) pipe calls 0 ?d = Inr (d', os)"
    using assms(2) True by (auto simp: cmd_wake_on_def Let_def res_simps)
  have t: "pipe_trans d ?d []" "pipe_inv ?d" using assms(1) by (simp_all add: update_pipe_trans update_pipe_inv)
  show ?thesis by (rule pipe_trans_silent(1) [OF t(1) finish_trans [OF t(2) f]])
next
  case False
  then show ?thesis using assms by (auto simp: cmd_wake_on_def intro!: pipe_trans_same)
qed

lemma cmd_buffer_trans:
  "pipe_inv d \<Longrightarrow> cmd_read_buffer p d m = Inr (d', m', os) \<Longrightarrow> pipe_trans d d' os"
  "pipe_inv d \<Longrightarrow> cmd_write_buffer svcs p d m = Inr (d', m', os) \<Longrightarrow> pipe_trans d d' os"
  by (auto simp: cmd_read_buffer_def cmd_write_buffer_def res_simps split: option.splits intro!: pipe_trans_same elim: finish_trans)

lemma doCommand_trans:
  assumes "pipe_inv d" and "pipeDevice_doCommand svcs command d m = Inr (d', m', os)"
  shows "pipe_trans d d' os"
proof (cases "hwpipe_findp_by_channel (pd_pipes d) (pd_channel d)")
  case None
  then show ?thesis
    using assms cmd_open_trans [OF assms(1) None]
    by (auto simp: pipeDevice_doCommand_def Let_def split: if_splits intro!: pipe_trans_same)
next
  case (Some p)
  have st: "pipe_trans d (d\<lparr>pd_status := st\<rparr>) []" for st using assms(1) by (simp add: pipe_trans_same)
  show ?thesis
    using assms(2) Some cmd_close_trans [OF assms(1) Some] cmd_wake_on_trans [OF assms(1)] cmd_buffer_trans [OF assms(1)]
      st pipe_trans_same [OF assms(1) refl refl refl refl]
    by (auto simp: pipeDevice_doCommand_def Let_def res_simps split: if_splits)
qed

lemma access_params_trans:
  assumes "pipe_inv d" and "pipe_access_params svcs d m = Inr (d', m', os)"
  shows "pipe_trans d d' os"
proof -
  have same: "pipe_trans d (d\<lparr>pd_channel := a, pd_size := b, pd_address := c\<rparr>) []" for a b c
    using assms(1) by (simp add: pipe_trans_same)
  show ?thesis
    using assms(2) pipe_trans_same [OF assms(1) refl refl refl refl] same
    by (auto simp: pipe_access_params_def Let_def res_simps split: if_splits
        intro: pipe_trans_silent(1) [OF same doCommand_trans [OF pipe_trans_inv [OF same]]])
qed

lemma dev_write_trans:
  assumes "pipe_inv d" and "pipe_dev_write svcs offset v d m = Inr (d', m', os)"
  shows "pipe_trans d d' os"
  using assms doCommand_trans [OF assms(1)] access_params_trans [OF assms(1)]
  by (auto simp: pipe_dev_write_def split: if_splits intro!: pipe_trans_same)

lemma take_signaled_trans:
  assumes "pipe_inv d" and "take_signaled d = Inr (v, d', os)"
  shows "pipe_trans d d' os"
proof (cases "pd_signaled d")
  case Nil
  then show ?thesis using assms by (auto simp: take_signaled_def intro!: pipe_trans_same)
next
  case (Cons i rest)
  obtain p where p: "hwpipe_find i d = Some p" using assms(2) Cons by (auto simp: take_signaled_def split: option.splits)
  let ?d = "d\<lparr>pd_wakes := ucast (hp_wakes p), pd_signaled := rest\<rparr>"
  have d': "d' = update_pipe i (\<lambda>p. p\<lparr>hp_wakes := 0\<rparr>) ?d" "os = (if rest = [] then [(d_irq (pd_dev d), False)] else [])"
    using assms Cons p by (auto simp: take_signaled_def Let_def res_simps pipe_inv_def split: if_splits)
  have "pipe_inv ?d" using assms(1) Cons by (auto simp: pipe_inv_def pipe_ids_def)
  then show ?thesis using Cons d' by (auto simp: pipe_trans_def update_pipe_inv)
qed

lemma dev_read_trans:
  assumes "pipe_inv d" and "pipe_dev_read offset d = Inr (v, d', os)"
  shows "pipe_trans d d' os"
  using assms take_signaled_trans [OF assms(1)]
  by (auto simp: pipe_dev_read_def split: if_splits option.splits list.splits intro!: pipe_trans_same)

section \<open>The interrupt line\<close>

text \<open>What the guest and the services do to the device; the memory of the guest is part of the state.\<close>

datatype pipe_op = Pipe_write u64 u32 | Pipe_read u64 | Host_wake nat u32 | Host_close nat

definition pipe_step ::
  "'c PipeServices \<Rightarrow> pipe_op \<Rightarrow> 'c PipeDevice \<times> host_ram \<Rightarrow> (('c PipeDevice \<times> host_ram) \<times> irq_out list) res" where
  "pipe_step svcs op s =
     (let (d, m) = s in
      case op of
        Pipe_write offset v \<Rightarrow> res_bind (pipe_dev_write svcs offset v d m) (\<lambda>(d', m', os). Inr ((d', m'), os))
      | Pipe_read offset \<Rightarrow> res_bind (pipe_dev_read offset d) (\<lambda>(v, d', os). Inr ((d', m), os))
      | Host_wake i flags \<Rightarrow> res_bind (goldfish_pipe_wake i flags d) (\<lambda>(d', os). Inr ((d', m), os))
      | Host_close i \<Rightarrow> res_bind (goldfish_pipe_close i d) (\<lambda>(d', os). Inr ((d', m), os)))"

lemma pipe_step_trans:
  assumes "pipe_inv d" and "pipe_step svcs op (d, m) = Inr ((d', m'), os)"
  shows "pipe_trans d d' os"
  using assms(2) dev_write_trans [OF assms(1)] dev_read_trans [OF assms(1)] wake_trans [OF assms(1)] close_trans [OF assms(1)]
  by (cases op) (auto simp: pipe_step_def res_simps)

definition pipe_line :: "'c PipeDevice \<times> host_ram \<Rightarrow> u32" where
  "pipe_line s = d_irq (pd_dev (fst s))"

definition pipe_pending :: "'c PipeDevice \<times> host_ram \<Rightarrow> bool" where
  "pipe_pending s \<longleftrightarrow> pd_signaled (fst s) \<noteq> []"

interpretation pipe_irq: pending_line "pipe_step svcs" "pipe_inv \<circ> fst" pipe_line pipe_pending
proof unfold_locales
  fix s s' :: "'a PipeDevice \<times> host_ram" and op os
  assume ok: "(pipe_inv \<circ> fst) s" and step: "pipe_step svcs op s = Inr (s', os)"
  then have t: "pipe_trans (fst s) (fst s') os" using pipe_step_trans [of "fst s" svcs op "snd s" "fst s'" "snd s'" os] by simp
  then show "(pipe_inv \<circ> fst) s'" "pipe_line s' = pipe_line s" by (simp_all add: pipe_trans_def pipe_line_def)
  show "pipe_pending s' \<longrightarrow> line_after (pipe_line s) os l" if "pipe_pending s \<longrightarrow> l" for l
    using t that by (simp add: pipe_trans_def pipe_pending_def pipe_line_def)
qed

section \<open>Draining the signaled pipes\<close>

text \<open>The interrupt handler of the driver reads the channel and the wake flags until no channel is left.\<close>

fun drain_signaled :: "nat \<Rightarrow> 'c PipeDevice \<Rightarrow> ((u32 \<times> u32) list \<times> 'c PipeDevice \<times> irq_out list) res" where
  "drain_signaled 0 d = Inr ([], d, [])"
| "drain_signaled (Suc n) d =
     res_bind (pipe_dev_read PIPE_REG_CHANNEL d) (\<lambda>(ch, d1, os1).
     res_bind (pipe_dev_read PIPE_REG_WAKES d1) (\<lambda>(w, d2, os2).
     res_bind (drain_signaled n d2) (\<lambda>(rs, d3, os3). Inr ((ch, w) # rs, d3, os1 @ os2 @ os3))))"

definition pipe_of :: "'c PipeDevice \<Rightarrow> nat \<Rightarrow> 'c HwPipe" where
  "pipe_of d i = the (hwpipe_find i d)"

lemma hwpipe_find_Some:
  assumes "i \<in> set (pipe_ids d)"
  shows "hwpipe_find i d = Some (pipe_of d i)" and "hp_id (pipe_of d i) = i"
proof -
  have "hwpipe_find i d \<noteq> None" using assms by (auto simp: hwpipe_find_def pipe_ids_def find_None_iff)
  then show "hwpipe_find i d = Some (pipe_of d i)" by (simp add: pipe_of_def)
  then show "hp_id (pipe_of d i) = i" by (auto simp: hwpipe_find_def find_Some_iff)
qed

lemma find_map_other: "(\<And>p. hp_id (f p) = hp_id p) \<Longrightarrow> i \<noteq> j \<Longrightarrow>
  find (\<lambda>p. hp_id p = i) (map (\<lambda>p. if hp_id p = j then f p else p) ps) = find (\<lambda>p. hp_id p = i) ps"
  by (induction ps) auto

lemma pipe_of_update_other:
  "i \<noteq> j \<Longrightarrow> pipe_of (update_pipe j (\<lambda>p. p\<lparr>hp_wakes := g p\<rparr>) d) i = pipe_of d i"
  by (simp add: pipe_of_def hwpipe_find_def update_pipe_def find_map_other)

lemma drain_spec:
  assumes "pipe_inv d"
  shows "\<exists>d' os. drain_signaled (length (pd_signaled d)) d =
      Inr (map (\<lambda>i. (ucast (hp_channel (pipe_of d i)), ucast (hp_wakes (pipe_of d i)))) (pd_signaled d), d', os) \<and>
    pd_signaled d' = [] \<and> pipe_inv d' \<and> (pd_signaled d \<noteq> [] \<longrightarrow> (\<forall>l. \<not> line_after (d_irq (pd_dev d)) os l))"
  using assms
proof (induction "pd_signaled d" arbitrary: d)
  case Nil
  show ?case using Nil.hyps [symmetric] Nil.prems by simp
next
  case (Cons i rest)
  let ?p = "pipe_of d i"
  define e where "e = update_pipe i (\<lambda>p. p\<lparr>hp_wakes := 0\<rparr>) (d\<lparr>pd_wakes := ucast (hp_wakes ?p), pd_signaled := rest\<rparr>)"
  let ?os = "if rest = [] then [(d_irq (pd_dev d), False)] else []"
  let ?r = "\<lambda>d i. (ucast (hp_channel (pipe_of d i)), ucast (hp_wakes (pipe_of d i))) :: u32 \<times> u32"
  have i: "i \<in> set (pipe_ids d)" "i \<notin> set rest" "0 < d_irq_count (pd_dev d)"
    using Cons.prems Cons.hyps(2) [symmetric] by (auto simp: pipe_inv_def)
  have r: "pipe_dev_read PIPE_REG_CHANNEL d = Inr (ucast (hp_channel ?p), e, ?os)"
    using hwpipe_find_Some(1) [OF i(1)] Cons.hyps(2) [symmetric] i(3)
    by (simp add: pipe_dev_read_def pipe_reg_defs take_signaled_def Let_def e_def)
  have w: "pipe_dev_read PIPE_REG_WAKES e = Inr (ucast (hp_wakes ?p), e, [])"
    by (simp add: pipe_dev_read_def pipe_reg_defs update_pipe_def e_def)
  have inv: "pipe_inv e" by (rule pipe_trans_inv [OF dev_read_trans [OF Cons.prems r]])
  have sig: "pd_signaled e = rest" "pd_dev e = pd_dev d" by (simp_all add: e_def)
  have o: "pipe_of e j = pipe_of d j" if "j \<in> set rest" for j
    using that i(2) pipe_of_update_other [of j i "\<lambda>_. 0" "d\<lparr>pd_wakes := ucast (hp_wakes ?p), pd_signaled := rest\<rparr>"]
    by (auto simp: pipe_of_def hwpipe_find_def e_def)
  have m: "map (?r e) rest = map (?r d) rest" using o by simp
  obtain d' os where d': "drain_signaled (length rest) e = Inr (map (?r d) rest, d', os)"
      "pd_signaled d' = []" "pipe_inv d'" "rest \<noteq> [] \<longrightarrow> (\<forall>l. \<not> line_after (d_irq (pd_dev d)) os l)"
    using Cons.hyps(1) [OF sig(1) [symmetric] inv] unfolding sig m by (elim exE conjE) (rule that)
  have all: "drain_signaled (length (pd_signaled d)) d = Inr (map (?r d) (pd_signaled d), d', ?os @ os)"
    unfolding Cons.hyps(2) [symmetric] by (simp only: list.size(4) drain_signaled.simps add_Suc_right add_0_right r w d'(1)
        res_bind_Inr prod.case list.map append_Nil append_assoc)
  have "os = []" if "rest = []" using d'(1) that by simp
  then have "\<not> line_after (d_irq (pd_dev d)) (?os @ os) l" for l using d'(4) by (cases "rest = []") auto
  then show ?case using all d'(2,3) by blast
qed

section \<open>Transfers\<close>









section \<open>Guest buffers\<close>



lemma map_run_le: "done \<le> map_run m addr len ret done \<and> map_run m addr len ret done \<le> done + len"
proof (induction m addr len ret "done" rule: map_run.induct)
  case (1 m addr len ret "done")
  show ?case
  proof (cases "len = 0 \<or> ram_ptr m addr \<noteq> Some (ret + word_of_nat done)")
    case True
    then show ?thesis by (subst (1 2) map_run.simps) (auto split: option.splits)
  next
    case False
    define l where "l = min (ram_room m addr) len"
    have e: "map_run m addr len ret done = map_run m (addr + word_of_nat l) (len - l) ret (done + l)"
      using False by (subst map_run.simps) (simp add: l_def Let_def)
    have "done + l \<le> map_run m (addr + word_of_nat l) (len - l) ret (done + l)"
      "map_run m (addr + word_of_nat l) (len - l) ret (done + l) \<le> done + l + (len - l)"
      using 1 False by (auto simp: l_def)
    moreover have "l \<le> len" by (simp add: l_def)
    ultimately show ?thesis unfolding e by simp
  qed
qed




section \<open>Restoring the device\<close>

definition restored_hwpipe :: "nat \<Rightarrow> 'c HwPipe \<Rightarrow> 'c HwPipe" where
  "restored_hwpipe i p = p\<lparr>hp_id := i, hp_closed := (if force_closed (hp_pipe p) then 1 else hp_closed p), hp_pipe := restored_pipe (hp_pipe p)\<rparr>"

lemma hwpipe_save_load:
  assumes "pipe_restorable svcs (hp_pipe p)"
  shows "hwpipe_load svcs i \<lparr>rs_bytes = hwpipe_save p @ bs, rs_error = e\<rparr> GOLDFISH_PIPE_SAVE_VERSION =
    Inr (Some (restored_hwpipe i p), \<lparr>rs_bytes = bs, rs_error = e\<rparr>)"
  using pipe_save_load [OF assms, of bs e]
  by (simp add: hwpipe_load_def hwpipe_save_def stream_get GOLDFISH_PIPE_SAVE_VERSION_def GOLDFISH_PIPE_SAVE_LEGACY_VERSION_def
      restored_hwpipe_def)

text \<open>The pipes get new numbers and come in the opposite order.\<close>

fun restored_pipes :: "nat \<Rightarrow> 'c HwPipe list \<Rightarrow> 'c HwPipe list \<Rightarrow> 'c HwPipe list" where
  "restored_pipes i [] acc = acc"
| "restored_pipes i (p # ps) acc = restored_pipes (i + 1) ps (restored_hwpipe i p # acc)"

lemma load_pipes_all:
  assumes "list_all (\<lambda>p. pipe_restorable svcs (hp_pipe p)) ps"
  shows "load_pipes svcs GOLDFISH_PIPE_SAVE_VERSION (length ps) \<lparr>rs_bytes = concat (map hwpipe_save ps) @ bs, rs_error = e\<rparr> d =
    Inr (0, d\<lparr>pd_pipes := restored_pipes (pd_next_id d) ps (pd_pipes d), pd_next_id := pd_next_id d + length ps\<rparr>, \<lparr>rs_bytes = bs, rs_error = e\<rparr>)"
  using assms by (induction ps arbitrary: d) (simp_all add: hwpipe_save_load)

lemma update_pipe_id:
  assumes "\<And>p. p \<in> set (pd_pipes d) \<Longrightarrow> hp_id p = i \<Longrightarrow> f p = p"
  shows "update_pipe i f d = d"
proof -
  have "map (\<lambda>p. if hp_id p = i then f p else p) (pd_pipes d) = pd_pipes d" using assms by (intro map_idI) auto
  then show ?thesis by (simp add: update_pipe_def)
qed

lemma ucast_u8_u32 [simp]: "ucast (ucast (w :: u8) :: u32) = w"
  by (rule bit_word_eqI) (auto simp: bit_simps)

definition waking :: "'c HwPipe list \<Rightarrow> 'c HwPipe list" where
  "waking ps = filter (\<lambda>p. hp_wakes p \<noteq> 0) ps"

lemma wake_loaded_all:
  assumes "distinct (map hp_id (pd_pipes d))" and "0 < d_irq_count (pd_dev d)" and "set ps \<subseteq> set (pd_pipes d)"
    and "distinct (map hp_id ps)" and "set (map hp_id ps) \<inter> set (pd_signaled d) = {}"
  shows "wake_loaded ps d = Inr (d\<lparr>pd_signaled := rev (map hp_id (waking ps)) @ pd_signaled d\<rparr>,
    map (\<lambda>_. (d_irq (pd_dev d), True)) (waking ps))"
  using assms
proof (induction ps arbitrary: d)
  case Nil
  then show ?case by (simp add: waking_def)
next
  case (Cons p ps)
  have only: "q = p" if "q \<in> set (pd_pipes d)" "hp_id q = hp_id p" for q
    using that Cons.prems(1,3) by (auto simp: distinct_map inj_on_def)
  have find: "hwpipe_find (hp_id p) d' = Some q \<Longrightarrow> q \<in> set (pd_pipes d') \<and> hp_id q = hp_id p" for d' :: "'a PipeDevice" and q
    by (auto simp: hwpipe_find_def find_Some_iff)
  define d1 where "d1 = (if hp_wakes p \<noteq> 0 then d\<lparr>pd_signaled := hp_id p # pd_signaled d\<rparr> else d)"
  have pipes: "pd_pipes d1 = pd_pipes d" "pd_dev d1 = pd_dev d" by (simp_all add: d1_def)
  have upd: "update_pipe (hp_id p) (\<lambda>q. q\<lparr>hp_wakes := hp_wakes q OR ucast (ucast (hp_wakes p) :: u32)\<rparr>) d1 = d1"
    using pipes by (intro update_pipe_id) (auto dest!: only)
  have id: "hp_id p \<in> set (pipe_ids d)" using Cons.prems(3) by (auto simp: pipe_ids_def)
  have w: "(if hp_wakes p \<noteq> 0 then goldfish_pipe_wake (hp_id p) (ucast (hp_wakes p)) d else Inr (d, [])) =
      Inr (d1, if hp_wakes p \<noteq> 0 then [(d_irq (pd_dev d), True)] else [])"
    using id Cons.prems(2,5) upd by (auto simp: goldfish_pipe_wake_def Let_def d1_def)
  have "hwpipe_find (hp_id p) d1 \<noteq> None" using id pipes by (auto simp: hwpipe_find_def find_None_iff pipe_ids_def)
  then have c: "(if hp_closed p \<noteq> 0 then goldfish_pipe_close (hp_id p) d1 else Inr (d1, [])) = Inr (d1, [])"
    using find [of d1] pipes by (auto simp: goldfish_pipe_close_def dest!: only)
  have ih: "wake_loaded ps d1 = Inr (d1\<lparr>pd_signaled := rev (map hp_id (waking ps)) @ pd_signaled d1\<rparr>,
      map (\<lambda>_. (d_irq (pd_dev d1), True)) (waking ps))"
    using Cons.prems by (intro Cons.IH) (auto simp: d1_def)
  show ?case by (simp only: wake_loaded.simps w c ih res_bind_Inr prod.case) (simp add: waking_def d1_def)
qed

lemma restored_pipes_ids:
  "map hp_id (restored_pipes i ps acc) = rev [i..<i + length ps] @ map hp_id acc"
  by (induction ps arbitrary: i acc) (simp_all add: restored_hwpipe_def upt_conv_Cons del: upt_Suc)

section \<open>Properties\<close>

text \<open>C33: Wake-ups reach the guest. Starting from the initial device, whatever registers the guest accesses and whatever pipes the services
  wake or close, the pipes and their channels stay distinct, only open pipes are on the list of the signaled ones, each once, and while
  that list is not empty the interrupt line is high.\<close>

theorem pipe_wakes_line:
  assumes "0 < d_irq_count dev" and "run_ops (pipe_step svcs) ops (pipe_dev_init dev, m) = Inr ((d, m'), os)"
  shows "pipe_inv d \<and> (pd_signaled d \<noteq> [] \<longrightarrow> line_after (d_irq dev) os False)"
proof -
  have i: "(pipe_inv \<circ> fst) (pipe_dev_init dev :: 'a PipeDevice, m)"
    using assms(1) by (simp add: pipe_inv_def pipe_dev_init_def pipe_ids_def)
  show ?thesis
    using pipe_irq.run_ok [OF i assms(2)] pipe_irq.run_pending [OF i assms(2), of False]
    by (simp add: pipe_pending_def pipe_line_def pipe_dev_init_def)
qed

text \<open>C37: The interrupt handler of the driver hears of every signaled pipe. Reading the channel and the wake flags as often as
  there are signaled pipes returns the channel and the flags of each, in the order of the list, and leaves the list empty and the
  line low.\<close>

theorem pipe_drain:
  assumes "pipe_inv d" and "pd_signaled d \<noteq> []"
  shows "\<exists>d' os. drain_signaled (length (pd_signaled d)) d =
      Inr (map (\<lambda>i. (ucast (hp_channel (pipe_of d i)), ucast (hp_wakes (pipe_of d i)))) (pd_signaled d), d', os) \<and>
    pd_signaled d' = [] \<and> \<not> line_after (d_irq (pd_dev d)) os l"
  using drain_spec [OF assms(1)] assms(2) by blast


text \<open>A device with one channel, connected to the ping-pong service, and guest memory without translation.\<close>

definition sample_pp_service :: "debug_client PipeService" where
  "sample_pp_service = \<lparr>ps_name = cstr ''pingpong'', ps_funcs = pingPongPipe_funcs (\<lambda>_. True) (\<lambda>_. 0)\<rparr>"

definition sample_hwpipe :: "debug_client HwPipe" where
  "sample_hwpipe = \<lparr>hp_id = 0, hp_channel = 7, hp_wakes = 0, hp_closed = 0,
     hp_pipe = \<lparr>p_end = Connected sample_pp_service (Some (PingPong_client (pingPongPipe_init (\<lambda>_. 0)))), p_args = None\<rparr>\<rparr>"

definition sample_pipe_device :: "debug_client PipeDevice" where
  "sample_pipe_device = \<lparr>pd_dev = \<lparr>d_reported_state = 0, d_name = ''qemu_pipe'', d_id = 0, d_base = 0, d_size = 0, d_irq = 12, d_irq_count = 1\<rparr>,
     pd_pipes = [sample_hwpipe], pd_signaled = [], pd_address = 0x1000, pd_size = 3, pd_status = 0, pd_channel = 7, pd_wakes = 0,
     pd_params_addr = 0, pd_mode = USE_PA, pd_next_id = 1\<rparr>"

definition sample_ram :: host_ram where
  "sample_ram = \<lparr>hm_page_bits = 12, hm_ram = Some, hm_vpage = (\<lambda>a. a), hm_pte_mask = - 1, hm_ulong_bits = 64, hm_guest_64bit = True,
     hm_mem = (\<lambda>a. ucast a + 5)\<rparr>"




theorem pipe_wakes_line_witness:
  "\<exists>d m os. run_ops (pipe_step []) [Pipe_write PIPE_REG_CHANNEL 5, Pipe_write PIPE_REG_COMMAND PIPE_CMD_OPEN, Host_wake 0 PIPE_WAKE_READ]
      (pipe_dev_init (pd_dev sample_pipe_device) :: unit PipeDevice, sample_ram) = Inr ((d, m), os) \<and> line_after 12 os False"
proof -
  obtain d m os where r: "run_ops (pipe_step []) [Pipe_write PIPE_REG_CHANNEL 5, Pipe_write PIPE_REG_COMMAND PIPE_CMD_OPEN, Host_wake 0 PIPE_WAKE_READ]
      (pipe_dev_init (pd_dev sample_pipe_device) :: unit PipeDevice, sample_ram) = Inr ((d, m), os)" "pd_signaled d = [0]"
    by (simp add: pipe_step_def pipe_dev_write_def pipe_reg_defs pipe_cmd_defs pipeDevice_doCommand_def pipe_dev_init_def cmd_open_def
        goldfish_pipe_wake_def pipe_ids_def update_pipe_def goldfish_device_set_irq_def sample_pipe_device_def)
  from pipe_wakes_line [OF _ r(1)] show ?thesis using r by (simp add: sample_pipe_device_def)
qed

theorem pipe_drain_witness:
  "\<exists>d' os. drain_signaled 1 (sample_pipe_device\<lparr>pd_signaled := [0]\<rparr>) = Inr ([(7, 0)], d', os) \<and> \<not> line_after 12 os True"
proof -
  have "pipe_inv (sample_pipe_device\<lparr>pd_signaled := [0]\<rparr>)" by (simp add: sample_pipe_device_def pipe_inv_def pipe_ids_def sample_hwpipe_def)
  from pipe_drain [OF this, of True] show ?thesis
    by (auto simp: pipe_of_def hwpipe_find_def sample_pipe_device_def sample_hwpipe_def)
qed

text \<open>C36: Snapshots of the pipe device. Let every pipe be half open or connected to a registered service that has no functions to save and load
  clients, the case of every service but \<open>qemud\<close>, let there be fewer than \<open>2^31\<close> pipes and let the new device have an interrupt line. Loading
  the snapshot into the new device succeeds and reads exactly the bytes that were saved; it restores the registers and, in the opposite order and with new
  numbers, every pipe with its channel and its wake flags. The connected pipes come back closed, still assigned to their service but without a
  client; the half-open ones with what they received, but detached from their pipe, so that the connection cannot be completed (\<open>restored_connection_undefined\<close>); arguments that are empty come back as
  none. The pipes with wake flags are signaled again and the line is high if there are any; a closed pipe without wake flags is not signaled.\<close>

theorem pipe_snapshot:
  assumes "list_all (\<lambda>p. pipe_restorable svcs (hp_pipe p)) (pd_pipes d)" and "length (pd_pipes d) < 2 ^ 31" and "0 < d_irq_count dev"
  shows "\<exists>d' os. goldfish_pipe_load svcs \<lparr>rs_bytes = goldfish_pipe_save d @ bs, rs_error = e\<rparr> (pipe_dev_init dev) GOLDFISH_PIPE_SAVE_VERSION =
      Inr (0, d', \<lparr>rs_bytes = bs, rs_error = e\<rparr>, os) \<and>
    pd_address d' = pd_address d \<and> pd_size d' = pd_size d \<and> pd_status d' = pd_status d \<and> pd_channel d' = pd_channel d \<and>
    pd_wakes d' = pd_wakes d \<and> pd_params_addr d' = pd_params_addr d \<and>
    pd_pipes d' = restored_pipes 0 (pd_pipes d) [] \<and> pd_signaled d' = rev (map hp_id (waking (pd_pipes d'))) \<and>
    line_after (d_irq dev) os l = (l \<or> pd_signaled d' \<noteq> [])"
proof -
  let ?n = "word_of_nat (length (pd_pipes d)) :: u32"
  have un: "unat ?n = length (pd_pipes d)" using assms(2) by (simp add: unat_of_nat)
  have n: "nat (sint ?n) = length (pd_pipes d)"
    using assms(2) un by (simp add: sint_uint signed_take_bit_int_eq_self uint_nat)
  define d1 where "d1 = (pipe_dev_init dev :: 'a PipeDevice)\<lparr>pd_address := pd_address d, pd_size := pd_size d, pd_status := pd_status d,
    pd_channel := pd_channel d, pd_wakes := pd_wakes d, pd_params_addr := pd_params_addr d\<rparr>"
  define d2 where "d2 = d1\<lparr>pd_pipes := restored_pipes 0 (pd_pipes d) [], pd_next_id := length (pd_pipes d)\<rparr>"
  have i: "pd_pipes d1 = []" "pd_next_id d1 = 0" "pd_signaled d1 = []" "pd_dev d1 = dev" by (simp_all add: d1_def pipe_dev_init_def)
  have l: "load_pipes svcs GOLDFISH_PIPE_SAVE_VERSION (length (pd_pipes d)) \<lparr>rs_bytes = concat (map hwpipe_save (pd_pipes d)) @ bs, rs_error = e\<rparr> d1 =
      Inr (0, d2, \<lparr>rs_bytes = bs, rs_error = e\<rparr>)"
    using load_pipes_all [OF assms(1), of bs e d1] by (simp add: i d2_def)
  let ?os = "map (\<lambda>_. (d_irq dev, True)) (waking (pd_pipes d2))"
  have w: "wake_loaded (pd_pipes d2) d2 = Inr (d2\<lparr>pd_signaled := rev (map hp_id (waking (pd_pipes d2)))\<rparr>, ?os)"
    using wake_loaded_all [of d2 "pd_pipes d2"] assms(3) by (simp add: d2_def i restored_pipes_ids)
  have "goldfish_pipe_load svcs \<lparr>rs_bytes = goldfish_pipe_save d @ bs, rs_error = e\<rparr> (pipe_dev_init dev) GOLDFISH_PIPE_SAVE_VERSION =
      Inr (0, d2\<lparr>pd_signaled := rev (map hp_id (waking (pd_pipes d2)))\<rparr>, \<lparr>rs_bytes = bs, rs_error = e\<rparr>, ?os)"
    using l w n by (simp add: goldfish_pipe_load_def goldfish_pipe_save_def stream_get d1_def)
  moreover have "line_after k (map (\<lambda>_. (k, True)) xs) l = (l \<or> xs \<noteq> [])" for k and xs :: "'a HwPipe list"
    by (induction xs arbitrary: l) auto
  ultimately show ?thesis by (auto simp: d2_def d1_def)
qed

theorem pipe_snapshot_witness:
  "\<exists>d' os. goldfish_pipe_load [sample_pp_service] \<lparr>rs_bytes = goldfish_pipe_save (sample_pipe_device\<lparr>pd_pipes := [sample_hwpipe\<lparr>hp_wakes := 2\<rparr>]\<rparr>), rs_error = 0\<rparr>
      (pipe_dev_init (pd_dev sample_pipe_device)) GOLDFISH_PIPE_SAVE_VERSION = Inr (0, d', \<lparr>rs_bytes = [], rs_error = 0\<rparr>, os) \<and>
    map hp_channel (pd_pipes d') = [7] \<and> map hp_closed (pd_pipes d') = [1] \<and> pd_signaled d' = [0]"
proof -
  let ?d = "sample_pipe_device\<lparr>pd_pipes := [sample_hwpipe\<lparr>hp_wakes := 2\<rparr>]\<rparr>"
  have "list_all (\<lambda>p. pipe_restorable [sample_pp_service] (hp_pipe p)) (pd_pipes ?d)" "length (pd_pipes ?d) < 2 ^ 31"
      "0 < d_irq_count (pd_dev sample_pipe_device)"
    by (simp_all add: sample_hwpipe_def sample_pipe_device_def pipe_restorable_def sample_pp_service_def stateless_service_def pingPongPipe_funcs_def cstr_def)
  from pipe_snapshot [OF this, of "[]" 0 False] show ?thesis
    by (auto simp: restored_hwpipe_def force_closed_def sample_hwpipe_def sample_pp_service_def pingPongPipe_funcs_def waking_def)
qed

text \<open>Defects that the model shows. Closing the only signaled channel leaves the line high: nothing is signaled, and reading the channel
  does not lower it.\<close>

theorem pipe_close_stale_line:
  assumes "pipe_inv d" and "hwpipe_findp_by_channel (pd_pipes d) (pd_channel d) = Some p" and "pd_signaled d = [hp_id p]"
    and "android_pipe_free (hp_pipe p) = Inr ()"
  shows "\<exists>d'. pipe_dev_write svcs PIPE_REG_COMMAND PIPE_CMD_CLOSE d m = Inr (d', m, []) \<and> pd_signaled d' = [] \<and>
    pipe_dev_read PIPE_REG_CHANNEL d' = Inr (0, d', [])"
  using assms by (simp add: pipe_dev_write_def pipeDevice_doCommand_def pipe_reg_defs pipe_cmd_defs cmd_close_def pipe_dev_read_def take_signaled_def)

text \<open>A restored ping-pong pipe has no client, and closing it reads through the null pointer.\<close>

theorem restored_pingpong_close:
  assumes "hwpipe_findp_by_channel (pd_pipes d) (pd_channel d) = Some (restored_hwpipe i p)"
    and "p_end (hp_pipe p) = Connected svc opaque" and "ps_funcs svc = pingPongPipe_funcs ok junk"
  shows "pipe_dev_write svcs PIPE_REG_COMMAND PIPE_CMD_CLOSE d m = Inl Undefined"
  using assms by (simp add: pipe_dev_write_def pipeDevice_doCommand_def pipe_reg_defs pipe_cmd_defs cmd_close_def android_pipe_free_def
      restored_hwpipe_def restored_pipe_def force_closed_def pingPongPipe_funcs_def pingPongPipe_close_def)

text \<open>A connection that was half open in a snapshot cannot be completed: the connector refers to the device side of the pipe as if it were
  the pipe.\<close>

theorem restored_connection_undefined:
  assumes "p_end pipe = Connecting pcon" and "p_end (restored_pipe pipe) = Connecting pcon'"
    and "connector_fill [w] (pc_buffer pcon) = (buf, n)" and "takeWhile (\<lambda>b. b \<noteq> 0) buf = cstr ''pipe:'' @ name" and "0 \<in> set buf"
    and "connector_service svcs name = (Some svc, args, off)" and "pf_init (ps_funcs svc) args = Some (c, calls)"
  shows "android_pipe_send svcs (restored_pipe pipe) [w] = Inl Undefined"
  using assms
  by (auto simp: restored_pipe_def android_pipe_send_def pipeConnector_sendBuffers_def cstr_def Let_def simp del: connector_fill.simps)

end
