(* ===== verification/Arm_Cpu.thy ===== *)
theory Arm_Cpu
  imports Prelude
begin

text \<open>
  The state of the emulated ARM processor and its modes, \<open>target-arm/cpu.h\<close> and \<open>target-arm/helper.c\<close>: the program status
  register, which is kept in several fields, the banked registers, and the entry into an exception. The record has the fields of
  \<open>CPUARMState\<close> these functions use, without the floating point, Thumb-EE and performance registers. Arrays are total functions.
\<close>

section \<open>State\<close>

record CPUARMState =
  a_regs :: "nat \<Rightarrow> u32"
  a_uncached_cpsr :: u32
  a_spsr :: u32
  a_banked_spsr :: "nat \<Rightarrow> u32"
  a_banked_r13 :: "nat \<Rightarrow> u32"
  a_banked_r14 :: "nat \<Rightarrow> u32"
  a_usr_regs :: "nat \<Rightarrow> u32"
  a_fiq_regs :: "nat \<Rightarrow> u32"
  a_CF :: u32
  a_VF :: u32
  a_NF :: u32
  a_ZF :: u32
  a_QF :: u32
  a_GE :: u32
  a_thumb :: u32
  a_condexec_bits :: u32
  a_c1_sys :: u32
  a_c1_secfg :: u32
  a_c2_base0 :: u32
  a_c2_base1 :: u32
  a_c2_mask :: u32
  a_c2_base_mask :: u32
  a_c3 :: u32
  a_c5_insn :: u32
  a_c5_data :: u32
  a_c6_region :: "nat \<Rightarrow> u32"
  a_c6_insn :: u32
  a_c6_data :: u32
  a_c12_vbar :: u32
  a_c12_mvbar :: u32
  a_c13_fcse :: u32
  a_features :: u32
  a_exception_index :: int
  a_exit_tb :: bool

definition CPSR_M :: u32 where "CPSR_M = 0x1f"
definition CPSR_T :: u32 where "CPSR_T = 0x20"
definition CPSR_F :: u32 where "CPSR_F = 0x40"
definition CPSR_I :: u32 where "CPSR_I = 0x80"
definition CPSR_A :: u32 where "CPSR_A = 0x100"
definition CPSR_IT_2_7 :: u32 where "CPSR_IT_2_7 = 0xfc00"
definition CPSR_GE :: u32 where "CPSR_GE = 0xf0000"
definition CPSR_IT_0_1 :: u32 where "CPSR_IT_0_1 = 0x6000000"
definition CPSR_Q :: u32 where "CPSR_Q = 0x8000000"
definition CPSR_Z :: u32 where "CPSR_Z = 0x40000000"
definition CPSR_NZCV :: u32 where "CPSR_NZCV = 0xf0000000"
definition CACHED_CPSR_BITS :: u32 where
  "CACHED_CPSR_BITS = CPSR_T OR CPSR_GE OR (CPSR_IT_0_1 OR CPSR_IT_2_7) OR CPSR_Q OR CPSR_NZCV"

lemmas cpsr_defs = CPSR_M_def CPSR_T_def CPSR_F_def CPSR_I_def CPSR_A_def CPSR_IT_2_7_def CPSR_GE_def CPSR_IT_0_1_def
  CPSR_Q_def CPSR_Z_def CPSR_NZCV_def CACHED_CPSR_BITS_def

definition cpsr_read :: "CPUARMState \<Rightarrow> u32" where
  "cpsr_read env =
     a_uncached_cpsr env OR (a_NF env AND 0x80000000) OR push_bit 30 (of_bool (a_ZF env = 0)) OR
     push_bit 29 (a_CF env) OR drop_bit 3 (a_VF env AND 0x80000000) OR push_bit 27 (a_QF env) OR
     push_bit 5 (a_thumb env) OR push_bit 25 (a_condexec_bits env AND 3) OR push_bit 8 (a_condexec_bits env AND 0xfc) OR
     push_bit 16 (a_GE env)"

section \<open>Modes\<close>

definition ARM_CPU_MODE_USR :: u32 where "ARM_CPU_MODE_USR = 0x10"
definition ARM_CPU_MODE_FIQ :: u32 where "ARM_CPU_MODE_FIQ = 0x11"
definition ARM_CPU_MODE_IRQ :: u32 where "ARM_CPU_MODE_IRQ = 0x12"
definition ARM_CPU_MODE_SVC :: u32 where "ARM_CPU_MODE_SVC = 0x13"
definition ARM_CPU_MODE_SMC :: u32 where "ARM_CPU_MODE_SMC = 0x16"
definition ARM_CPU_MODE_ABT :: u32 where "ARM_CPU_MODE_ABT = 0x17"
definition ARM_CPU_MODE_UND :: u32 where "ARM_CPU_MODE_UND = 0x1b"
definition ARM_CPU_MODE_SYS :: u32 where "ARM_CPU_MODE_SYS = 0x1f"

lemmas mode_defs = ARM_CPU_MODE_USR_def ARM_CPU_MODE_FIQ_def ARM_CPU_MODE_IRQ_def ARM_CPU_MODE_SVC_def ARM_CPU_MODE_SMC_def
  ARM_CPU_MODE_ABT_def ARM_CPU_MODE_UND_def ARM_CPU_MODE_SYS_def

definition bank_number :: "u32 \<Rightarrow> nat res" where
  "bank_number mode =
     (if mode = ARM_CPU_MODE_USR \<or> mode = ARM_CPU_MODE_SYS then Inr 0
      else if mode = ARM_CPU_MODE_SVC then Inr 1
      else if mode = ARM_CPU_MODE_ABT then Inr 2
      else if mode = ARM_CPU_MODE_UND then Inr 3
      else if mode = ARM_CPU_MODE_IRQ then Inr 4
      else if mode = ARM_CPU_MODE_FIQ then Inr 5
      else if mode = ARM_CPU_MODE_SMC then Inr 6
      else Inl Cpu_Abort)"

text \<open>The registers r8 to r12 have a second copy for the FIQ mode.\<close>

definition swap_fiq :: "u32 \<Rightarrow> u32 \<Rightarrow> CPUARMState \<Rightarrow> CPUARMState" where
  "swap_fiq old_mode mode env =
     (if old_mode = ARM_CPU_MODE_FIQ then
        env\<lparr>a_fiq_regs := blit (a_fiq_regs env) 0 (window (a_regs env) 8 5),
            a_regs := blit (a_regs env) 8 (window (a_usr_regs env) 0 5)\<rparr>
      else if mode = ARM_CPU_MODE_FIQ then
        env\<lparr>a_usr_regs := blit (a_usr_regs env) 0 (window (a_regs env) 8 5),
            a_regs := blit (a_regs env) 8 (window (a_fiq_regs env) 0 5)\<rparr>
      else env)"

definition save_bank :: "nat \<Rightarrow> CPUARMState \<Rightarrow> CPUARMState" where
  "save_bank i env = env\<lparr>a_banked_r13 := (a_banked_r13 env)(i := a_regs env 13),
     a_banked_r14 := (a_banked_r14 env)(i := a_regs env 14), a_banked_spsr := (a_banked_spsr env)(i := a_spsr env)\<rparr>"

definition load_bank :: "nat \<Rightarrow> CPUARMState \<Rightarrow> CPUARMState" where
  "load_bank i env = env\<lparr>a_regs := (a_regs env)(13 := a_banked_r13 env i, 14 := a_banked_r14 env i), a_spsr := a_banked_spsr env i\<rparr>"

definition switch_mode :: "u32 \<Rightarrow> CPUARMState \<Rightarrow> CPUARMState res" where
  "switch_mode mode env =
     (let old_mode = a_uncached_cpsr env AND CPSR_M
      in if mode = old_mode then Inr env
         else res_bind (bank_number old_mode) (\<lambda>i. res_bind (bank_number mode) (\<lambda>j.
                Inr (load_bank j (save_bank i (swap_fiq old_mode mode env))))))"

section \<open>Writing the status register\<close>

definition write_flags :: "u32 \<Rightarrow> u32 \<Rightarrow> CPUARMState \<Rightarrow> CPUARMState" where
  "write_flags v m env =
     (let e1 = (if m AND CPSR_NZCV \<noteq> 0
                then env\<lparr>a_ZF := NOT v AND CPSR_Z, a_NF := v, a_CF := drop_bit 29 v AND 1, a_VF := push_bit 3 v AND 0x80000000\<rparr>
                else env);
          e2 = (if m AND CPSR_Q \<noteq> 0 then e1\<lparr>a_QF := of_bool (v AND CPSR_Q \<noteq> 0)\<rparr> else e1);
          e3 = (if m AND CPSR_T \<noteq> 0 then e2\<lparr>a_thumb := of_bool (v AND CPSR_T \<noteq> 0)\<rparr> else e2);
          e4 = (if m AND CPSR_IT_0_1 \<noteq> 0
                then e3\<lparr>a_condexec_bits := (a_condexec_bits e3 AND NOT 3) OR (drop_bit 25 v AND 3)\<rparr> else e3);
          e5 = (if m AND CPSR_IT_2_7 \<noteq> 0
                then e4\<lparr>a_condexec_bits := (a_condexec_bits e4 AND 3) OR (drop_bit 8 v AND 0xfc)\<rparr> else e4)
      in if m AND CPSR_GE \<noteq> 0 then e5\<lparr>a_GE := drop_bit 16 v AND 0xf\<rparr> else e5)"

definition cpsr_write :: "u32 \<Rightarrow> u32 \<Rightarrow> CPUARMState \<Rightarrow> CPUARMState res" where
  "cpsr_write v m env =
     (let e1 = write_flags v m env
      in res_bind (if (a_uncached_cpsr e1 XOR v) AND m AND CPSR_M \<noteq> 0 then switch_mode (v AND CPSR_M) e1 else Inr e1)
           (\<lambda>e2. let m' = m AND NOT CACHED_CPSR_BITS
                 in Inr (e2\<lparr>a_uncached_cpsr := (a_uncached_cpsr e2 AND NOT m') OR (v AND m')\<rparr>)))"

section \<open>Exceptions\<close>

definition EXCP_UDEF :: int where "EXCP_UDEF = 1"
definition EXCP_SWI :: int where "EXCP_SWI = 2"
definition EXCP_PREFETCH_ABORT :: int where "EXCP_PREFETCH_ABORT = 3"
definition EXCP_DATA_ABORT :: int where "EXCP_DATA_ABORT = 4"
definition EXCP_IRQ :: int where "EXCP_IRQ = 5"
definition EXCP_FIQ :: int where "EXCP_FIQ = 6"
definition EXCP_BKPT :: int where "EXCP_BKPT = 7"
definition EXCP_SMC :: int where "EXCP_SMC = 11"

lemmas excp_defs = EXCP_UDEF_def EXCP_SWI_def EXCP_PREFETCH_ABORT_def EXCP_DATA_ABORT_def EXCP_IRQ_def EXCP_FIQ_def
  EXCP_BKPT_def EXCP_SMC_def

definition ARM_FEATURE_XSCALE :: nat where "ARM_FEATURE_XSCALE = 2"
definition ARM_FEATURE_V6 :: nat where "ARM_FEATURE_V6 = 4"
definition ARM_FEATURE_V6K :: nat where "ARM_FEATURE_V6K = 5"
definition ARM_FEATURE_MPU :: nat where "ARM_FEATURE_MPU = 8"
definition ARM_FEATURE_M :: nat where "ARM_FEATURE_M = 13"
definition ARM_FEATURE_V4T :: nat where "ARM_FEATURE_V4T = 17"
definition ARM_FEATURE_TRUSTZONE :: nat where "ARM_FEATURE_TRUSTZONE = 21"

definition arm_feature :: "CPUARMState \<Rightarrow> nat \<Rightarrow> bool" where
  "arm_feature env feature \<longleftrightarrow> bit (a_features env) feature"

text \<open>
  Semihosting: the loads from the code and the call of the host are parameters. The microcontroller profile has its own
  entry into exceptions, \<open>do_interrupt_v7m\<close>, the parameter \<open>v7m\<close>.
\<close>

record arm_host =
  semihosting_enabled :: bool
  ldl_code :: "u32 \<Rightarrow> u32"
  lduw_code :: "u32 \<Rightarrow> u32"
  do_arm_semihosting :: "CPUARMState \<Rightarrow> u32"
  do_interrupt_v7m :: "CPUARMState \<Rightarrow> CPUARMState res"

definition user_mode :: "CPUARMState \<Rightarrow> bool" where
  "user_mode env \<longleftrightarrow> a_uncached_cpsr env AND CPSR_M = ARM_CPU_MODE_USR"

definition swi_semihosted :: "arm_host \<Rightarrow> CPUARMState \<Rightarrow> bool" where
  "swi_semihosted h env \<longleftrightarrow> semihosting_enabled h \<and> \<not> user_mode env \<and>
     (if a_thumb env \<noteq> 0 then lduw_code h (a_regs env 15 - 2) AND 0xff = 0xab
      else ldl_code h (a_regs env 15 - 4) AND 0xffffff = 0x123456)"

definition bkpt_semihosted :: "arm_host \<Rightarrow> CPUARMState \<Rightarrow> bool" where
  "bkpt_semihosted h env \<longleftrightarrow> a_thumb env \<noteq> 0 \<and> semihosting_enabled h \<and> \<not> user_mode env \<and>
     lduw_code h (a_regs env 15) AND 0xff = 0xab"

text \<open>The new mode, the vector, the bits to set in the status register and the offset of the return address.\<close>

definition exception_entry :: "CPUARMState \<Rightarrow> (u32 \<times> u32 \<times> u32 \<times> u32) res" where
  "exception_entry env =
     (let e = a_exception_index env
      in if e = EXCP_UDEF then Inr (ARM_CPU_MODE_UND, 0x04, CPSR_I, if a_thumb env \<noteq> 0 then 2 else 4)
         else if e = EXCP_SWI then Inr (ARM_CPU_MODE_SVC, 0x08, CPSR_I, 0)
         else if e = EXCP_BKPT \<or> e = EXCP_PREFETCH_ABORT then Inr (ARM_CPU_MODE_ABT, 0x0c, CPSR_A OR CPSR_I, 4)
         else if e = EXCP_DATA_ABORT then Inr (ARM_CPU_MODE_ABT, 0x10, CPSR_A OR CPSR_I, 8)
         else if e = EXCP_IRQ then Inr (ARM_CPU_MODE_IRQ, 0x18, CPSR_A OR CPSR_I, 4)
         else if e = EXCP_FIQ then Inr (ARM_CPU_MODE_FIQ, 0x1c, CPSR_A OR CPSR_I OR CPSR_F, 4)
         else if e = EXCP_SMC then Inr (ARM_CPU_MODE_SMC, 0x08, CPSR_A OR CPSR_I OR CPSR_F, if a_thumb env \<noteq> 0 then 2 else 0)
         else Inl Cpu_Abort)"

definition vector_base :: "u32 \<Rightarrow> CPUARMState \<Rightarrow> u32" where
  "vector_base new_mode env =
     (if arm_feature env ARM_FEATURE_TRUSTZONE then
        if new_mode = ARM_CPU_MODE_SMC \<or> a_uncached_cpsr env AND CPSR_M = ARM_CPU_MODE_SMC then a_c12_mvbar env
        else if bit (a_c1_sys env) 13 then 0xffff0000 else a_c12_vbar env
      else if bit (a_c1_sys env) 13 then 0xffff0000 else 0)"

definition enter_exception :: "u32 \<times> u32 \<times> u32 \<times> u32 \<Rightarrow> CPUARMState \<Rightarrow> CPUARMState res" where
  "enter_exception = (\<lambda>(new_mode, addr, m, offset) env.
     res_bind (switch_mode new_mode env) (\<lambda>e1.
       let e2 = e1\<lparr>a_spsr := cpsr_read e1\<rparr>;
           e3 = e2\<lparr>a_condexec_bits := 0,
                   a_uncached_cpsr := ((a_uncached_cpsr e2 AND NOT CPSR_M) OR new_mode) OR m\<rparr>;
           e4 = (if arm_feature e3 ARM_FEATURE_V4T then e3\<lparr>a_thumb := of_bool (bit (a_c1_sys e3) 30)\<rparr> else e3)
       in Inr (e4\<lparr>a_regs := (a_regs e4)(14 := a_regs e4 15 + offset, 15 := addr + vector_base new_mode env), a_exit_tb := True\<rparr>)))"

definition do_interrupt :: "arm_host \<Rightarrow> CPUARMState \<Rightarrow> CPUARMState res" where
  "do_interrupt h env =
     (if arm_feature env ARM_FEATURE_M then do_interrupt_v7m h env
      else if a_exception_index env = EXCP_SWI \<and> swi_semihosted h env then
        Inr (env\<lparr>a_regs := (a_regs env)(0 := do_arm_semihosting h env)\<rparr>)
      else if a_exception_index env = EXCP_BKPT \<and> bkpt_semihosted h env then
        let e = env\<lparr>a_regs := (a_regs env)(15 := a_regs env 15 + 2)\<rparr>
        in Inr (e\<lparr>a_regs := (a_regs e)(0 := do_arm_semihosting h e)\<rparr>)
      else if a_exception_index env = EXCP_SMC \<and> semihosting_enabled h then Inl Cpu_Abort
      else let e = (if a_exception_index env = EXCP_SMC \<and> a_uncached_cpsr env AND CPSR_M = ARM_CPU_MODE_SMC
                    then env\<lparr>a_c1_secfg := a_c1_secfg env AND NOT 1\<rparr> else env)
           in res_bind (exception_entry e) (\<lambda>entry. enter_exception entry e))"

text \<open>The return from an exception that the translator generates: the program counter is set (without its lowest bit), and
  the status register gets the saved one.\<close>

definition exception_return :: "u32 \<Rightarrow> CPUARMState \<Rightarrow> CPUARMState res" where
  "exception_return pc env =
     (let e = env\<lparr>a_regs := (a_regs env)(15 := pc AND NOT 1)\<rparr> in cpsr_write (a_spsr e) 0xffffffff e)"

text \<open>The mask of the MSR instruction.\<close>

definition CPSR_E :: u32 where "CPSR_E = 0x200"
definition CPSR_J :: u32 where "CPSR_J = 0x1000000"
definition CPSR_RESERVED :: u32 where "CPSR_RESERVED = 0xf00000"
definition CPSR_USER :: u32 where "CPSR_USER = CPSR_NZCV OR CPSR_Q OR CPSR_GE"
definition CPSR_EXEC :: u32 where "CPSR_EXEC = CPSR_T OR (CPSR_IT_0_1 OR CPSR_IT_2_7) OR CPSR_J"

definition ARM_FEATURE_V5 :: nat where "ARM_FEATURE_V5 = 18"
definition ARM_FEATURE_THUMB2 :: nat where "ARM_FEATURE_THUMB2 = 7"

definition msr_mask :: "CPUARMState \<Rightarrow> bool \<Rightarrow> u32 \<Rightarrow> bool \<Rightarrow> u32" where
  "msr_mask env is_user flags spsr =
     (let m0 = (if bit flags 0 then 0xff else 0) OR (if bit flags 1 then 0xff00 else 0) OR
               (if bit flags 2 then 0xff0000 else 0) OR (if bit flags 3 then 0xff000000 else 0);
          m1 = m0 AND NOT CPSR_RESERVED;
          m2 = (if \<not> arm_feature env ARM_FEATURE_V4T then m1 AND NOT CPSR_T else m1);
          m3 = (if \<not> arm_feature env ARM_FEATURE_V5 then m2 AND NOT CPSR_Q else m2);
          m4 = (if \<not> arm_feature env ARM_FEATURE_V6 then m3 AND NOT (CPSR_E OR CPSR_GE) else m3);
          m5 = (if \<not> arm_feature env ARM_FEATURE_THUMB2 then m4 AND NOT (CPSR_IT_0_1 OR CPSR_IT_2_7) else m4);
          m6 = (if \<not> spsr then m5 AND NOT CPSR_EXEC else m5)
      in if is_user then m6 AND CPSR_USER else m6)"

section \<open>The status register bit by bit\<close>

definition cpsr_ok :: "CPUARMState \<Rightarrow> bool" where
  "cpsr_ok env \<longleftrightarrow> a_CF env < 2 \<and> a_QF env < 2 \<and> a_thumb env < 2 \<and> a_GE env < 16 \<and> a_condexec_bits env < 256 \<and>
     a_uncached_cpsr env AND CACHED_CPSR_BITS = 0"

lemma bit_small:
  assumes "unat (w :: u32) < 2 ^ k" and "k \<le> n"
  shows "\<not> bit w n"
proof -
  have "unat w < 2 ^ n" using assms power_increasing [of k n "2 :: nat"] by linarith
  then have "\<not> bit (unat w) n" by (simp add: bit_iff_odd)
  then show ?thesis by (auto simp: bit_unsigned_iff dest: bit_imp_le_length)
qed

definition cpsr_bit :: "CPUARMState \<Rightarrow> nat \<Rightarrow> bool" where
  "cpsr_bit env n =
     (if n = 31 then bit (a_NF env) 31
      else if n = 30 then a_ZF env = 0
      else if n = 29 then bit (a_CF env) 0
      else if n = 28 then bit (a_VF env) 31
      else if n = 27 then bit (a_QF env) 0
      else if n = 25 \<or> n = 26 then bit (a_condexec_bits env) (n - 25)
      else if 16 \<le> n \<and> n < 20 then bit (a_GE env) (n - 16)
      else if 10 \<le> n \<and> n < 16 then bit (a_condexec_bits env) (n - 8)
      else if n = 5 then bit (a_thumb env) 0
      else bit (a_uncached_cpsr env) n)"

lemma upto_32: "[0..<32] = [0, 1, 2, 3, 4, 5, 6, 7, 8, 9, 10, 11, 12, 13, 14, 15, 16, 17, 18, 19, 20, 21, 22, 23, 24, 25, 26, 27, 28, 29, 30, 31]"
  by (simp add: upt_rec)

lemma all_bits:
  fixes P :: "nat \<Rightarrow> bool"
  assumes "list_all P [0, 1, 2, 3, 4, 5, 6, 7, 8, 9, 10, 11, 12, 13, 14, 15, 16, 17, 18, 19, 20, 21, 22, 23, 24, 25, 26, 27, 28, 29, 30, 31]" and "n < 32"
  shows "P n"
  using assms unfolding upto_32 [symmetric] list_all_iff by simp

lemma cached_bits:
  "\<forall>k \<in> {5, 10, 11, 12, 13, 14, 15, 16, 17, 18, 19, 25, 26, 27, 28, 29, 30, 31}. bit CACHED_CPSR_BITS k"
  by (simp add: cpsr_defs bit_simps)

lemma cpsr_read_bit:
  assumes "cpsr_ok env" and "n < 32"
  shows "bit (cpsr_read env) n = cpsr_bit env n"
proof -
  have s: "\<not> bit (a_CF env) k" "\<not> bit (a_QF env) k" "\<not> bit (a_thumb env) k" if "1 \<le> k" for k
    using assms(1) that bit_small [of _ 1 k] by (auto simp: cpsr_ok_def word_less_nat_alt)
  have g: "\<not> bit (a_GE env) k" if "4 \<le> k" for k
    using assms(1) that bit_small [of _ 4 k] by (auto simp: cpsr_ok_def word_less_nat_alt)
  have c: "\<not> bit (a_condexec_bits env) k" if "8 \<le> k" for k
    using assms(1) that bit_small [of _ 8 k] by (auto simp: cpsr_ok_def word_less_nat_alt)
  have u: "\<not> (bit (a_uncached_cpsr env) k \<and> bit CACHED_CPSR_BITS k)" for k
    using assms(1) bit_and_iff [of "a_uncached_cpsr env" CACHED_CPSR_BITS k] by (simp add: cpsr_ok_def)
  have u': "\<forall>k \<in> {5, 10, 11, 12, 13, 14, 15, 16, 17, 18, 19, 25, 26, 27, 28, 29, 30, 31}. \<not> bit (a_uncached_cpsr env) k"
    using u cached_bits by blast
  show ?thesis
    by (rule all_bits [OF _ assms(2)]) (use u' in \<open>simp add: cpsr_read_def cpsr_bit_def bit_simps s g c\<close>)
qed

text \<open>A mask for a write has all bits of a group of status bits or none, as the masks of the MSR instruction have.\<close>

definition group_mask :: "u32 \<Rightarrow> bool" where
  "group_mask m \<longleftrightarrow> list_all (\<lambda>g. m AND g = 0 \<or> m AND g = g) [CPSR_NZCV, CPSR_IT_0_1, CPSR_IT_2_7, CPSR_GE]"

definition flags_of :: "CPUARMState \<Rightarrow> u32 list" where
  "flags_of env = [a_NF env, a_ZF env, a_CF env, a_VF env, a_QF env, a_thumb env, a_condexec_bits env, a_GE env]"

lemma group_bits:
  assumes "m AND g = 0 \<or> m AND g = (g :: u32)" and "bit g i"
  shows "bit m i = (m AND g \<noteq> 0)"
  using assms bit_and_iff [of m g i] by (metis bit_0_eq bot_apply bot_bool_def)

lemma single_bit: "m AND g \<noteq> 0 \<longleftrightarrow> bit m i" if "g = push_bit i 1" "i < 32" for m g :: u32
  using that and_exp_eq_0_iff_not_bit [of m i] by (simp add: push_bit_eq_mult)

lemma write_flags_fields:
  "a_NF (write_flags v m env) = (if m AND CPSR_NZCV \<noteq> 0 then v else a_NF env)"
  "a_ZF (write_flags v m env) = (if m AND CPSR_NZCV \<noteq> 0 then NOT v AND CPSR_Z else a_ZF env)"
  "a_CF (write_flags v m env) = (if m AND CPSR_NZCV \<noteq> 0 then drop_bit 29 v AND 1 else a_CF env)"
  "a_VF (write_flags v m env) = (if m AND CPSR_NZCV \<noteq> 0 then push_bit 3 v AND 0x80000000 else a_VF env)"
  "a_QF (write_flags v m env) = (if m AND CPSR_Q \<noteq> 0 then of_bool (v AND CPSR_Q \<noteq> 0) else a_QF env)"
  "a_thumb (write_flags v m env) = (if m AND CPSR_T \<noteq> 0 then of_bool (v AND CPSR_T \<noteq> 0) else a_thumb env)"
  "a_GE (write_flags v m env) = (if m AND CPSR_GE \<noteq> 0 then drop_bit 16 v AND 0xf else a_GE env)"
  "a_condexec_bits (write_flags v m env) =
     (let c = (if m AND CPSR_IT_0_1 \<noteq> 0 then (a_condexec_bits env AND NOT 3) OR (drop_bit 25 v AND 3) else a_condexec_bits env)
      in if m AND CPSR_IT_2_7 \<noteq> 0 then (c AND 3) OR (drop_bit 8 v AND 0xfc) else c)"
  by (simp_all add: write_flags_def Let_def)

lemma write_flags_rest [simp]:
  "a_uncached_cpsr (write_flags v m env) = a_uncached_cpsr env" "a_regs (write_flags v m env) = a_regs env"
  "a_spsr (write_flags v m env) = a_spsr env" "a_usr_regs (write_flags v m env) = a_usr_regs env"
  "a_fiq_regs (write_flags v m env) = a_fiq_regs env" "a_banked_r13 (write_flags v m env) = a_banked_r13 env"
  "a_banked_r14 (write_flags v m env) = a_banked_r14 env" "a_banked_spsr (write_flags v m env) = a_banked_spsr env"
  by (simp_all add: write_flags_def Let_def)

lemma cached_cases:
  assumes "bit CACHED_CPSR_BITS n"
  shows "n \<in> {28, 29, 30, 31} \<or> n \<in> {25, 26} \<or> n \<in> {10, 11, 12, 13, 14, 15} \<or> n \<in> {16, 17, 18, 19} \<or> n = 27 \<or> n = 5"
proof -
  have n: "n < 32" using assms by (auto dest: bit_imp_le_length)
  have "bit CACHED_CPSR_BITS n \<longrightarrow> n \<in> {28, 29, 30, 31} \<or> n \<in> {25, 26} \<or> n \<in> {10, 11, 12, 13, 14, 15} \<or>
      n \<in> {16, 17, 18, 19} \<or> n = 27 \<or> n = 5"
    by (rule all_bits [OF _ n]) (simp add: cpsr_defs)
  then show ?thesis using assms by blast
qed

lemma write_flags_bits:
  assumes "group_mask m" and "bit CACHED_CPSR_BITS n"
  shows "cpsr_bit (write_flags v m env) n = (if bit m n then bit v n else cpsr_bit env n)"
proof -
  have g: "m AND g = 0 \<or> m AND g = g" if "g \<in> {CPSR_NZCV, CPSR_IT_0_1, CPSR_IT_2_7, CPSR_GE}" for g
    using assms(1) that by (auto simp: group_mask_def)
  from cached_cases [OF assms(2)] show ?thesis
  proof (elim disjE)
    assume n: "n \<in> {28, 29, 30, 31}"
    then have "bit m n = (m AND CPSR_NZCV \<noteq> 0)" by (intro group_bits g) (auto simp: CPSR_NZCV_def)
    moreover have "NOT v AND CPSR_Z = 0 \<longleftrightarrow> bit v 30"
      using single_bit [of CPSR_Z 30 "NOT v"] by (auto simp: CPSR_Z_def bit_simps)
    ultimately show ?thesis using n
      by (cases "m AND CPSR_NZCV = 0"; elim insertE emptyE; simp add: cpsr_bit_def write_flags_fields bit_simps)
  next
    assume n: "n \<in> {25, 26}"
    then have "bit m n = (m AND CPSR_IT_0_1 \<noteq> 0)" by (intro group_bits g) (auto simp: CPSR_IT_0_1_def)
    then show ?thesis using n
      by (cases "m AND CPSR_IT_0_1 = 0"; elim insertE emptyE; simp add: cpsr_bit_def write_flags_fields bit_simps Let_def)
  next
    assume n: "n \<in> {10, 11, 12, 13, 14, 15}"
    then have "bit m n = (m AND CPSR_IT_2_7 \<noteq> 0)" by (intro group_bits g) (auto simp: CPSR_IT_2_7_def)
    then show ?thesis using n
      by (cases "m AND CPSR_IT_2_7 = 0"; elim insertE emptyE; simp add: cpsr_bit_def write_flags_fields bit_simps Let_def)
  next
    assume n: "n \<in> {16, 17, 18, 19}"
    then have "bit m n = (m AND CPSR_GE \<noteq> 0)" by (intro group_bits g) (auto simp: CPSR_GE_def)
    then show ?thesis using n
      by (cases "m AND CPSR_GE = 0"; elim insertE emptyE; simp add: cpsr_bit_def write_flags_fields bit_simps Let_def)
  next
    assume "n = 27"
    then show ?thesis using single_bit [of CPSR_Q 27] by (simp add: cpsr_bit_def write_flags_fields CPSR_Q_def bit_simps)
  next
    assume "n = 5"
    then show ?thesis using single_bit [of CPSR_T 5] by (simp add: cpsr_bit_def write_flags_fields CPSR_T_def bit_simps)
  qed
qed

lemma small_bits:
  assumes "\<And>n. k \<le> n \<Longrightarrow> \<not> bit (w :: u32) n"
  shows "unat w < 2 ^ k"
proof -
  have "take_bit k w = w" using assms by (intro bit_word_eqI) (metis assms bit_take_bit_iff not_le)
  then have "take_bit k (unat w) = unat w" by (metis unsigned_take_bit_eq)
  then show ?thesis by (metis take_bit_nat_less_exp)
qed

lemma write_flags_ok: "cpsr_ok env \<Longrightarrow> cpsr_ok (write_flags v m env)"
proof -
  assume ok: "cpsr_ok env"
  have c: "\<not> bit (a_condexec_bits env) k" if "8 \<le> k" for k
    using ok that bit_small [of _ 8 k] by (auto simp: cpsr_ok_def word_less_nat_alt)
  have f: "\<not> bit (0xf :: u32) k" if "4 \<le> k" for k using that bit_small [of "0xf :: u32" 4 k] by simp
  have 1: "unat (w AND 1 :: u32) < 2 ^ 1" "unat (w AND 0xf :: u32) < 2 ^ 4" for w
    by (rule small_bits; use f in \<open>auto simp only: bit_and_iff bit_1_iff\<close>)+
  have n3: "\<not> bit (3 :: u32) k" "\<not> bit (0xfc :: u32) k" if "8 \<le> k" for k
    using that bit_small [of "3 :: u32" 8 k] bit_small [of "0xfc :: u32" 8 k] by simp_all
  have 2: "unat ((a_condexec_bits env AND NOT 3) OR (w AND 3)) < 2 ^ 8" "unat ((w' AND 3) OR (w AND 0xfc) :: u32) < 2 ^ 8" for w w'
    by (rule small_bits; use c n3 in \<open>auto simp only: bit_and_iff bit_or_iff\<close>)+
  show ?thesis
    using ok 1 2 by (auto simp: cpsr_ok_def write_flags_fields Let_def word_less_nat_alt)
qed

lemma switch_mode_keeps:
  assumes "switch_mode mode env = Inr env'"
  shows "flags_of env' = flags_of env" and "a_uncached_cpsr env' = a_uncached_cpsr env"
  using assms by (auto simp: switch_mode_def Let_def res_simps load_bank_def save_bank_def swap_fiq_def flags_of_def split: if_splits)

lemma cpsr_bit_cached: "bit CACHED_CPSR_BITS n \<Longrightarrow> flags_of e = flags_of e' \<Longrightarrow> cpsr_bit e n = cpsr_bit e' n"
  using cached_cases [of n] by (auto simp: cpsr_bit_def flags_of_def)

lemma cpsr_bit_uncached: "\<not> bit CACHED_CPSR_BITS n \<Longrightarrow> n < 32 \<Longrightarrow> cpsr_bit e n = bit (a_uncached_cpsr e) n"
proof -
  assume u: "\<not> bit CACHED_CPSR_BITS n" and n: "n < 32"
  have "\<not> bit CACHED_CPSR_BITS n \<longrightarrow> cpsr_bit e n = bit (a_uncached_cpsr e) n"
    by (rule all_bits [OF _ n]) (simp add: cpsr_bit_def cpsr_defs)
  then show ?thesis using u by blast
qed

lemma cpsr_write_shape:
  assumes "cpsr_write v m env = Inr env'"
  shows "flags_of env' = flags_of (write_flags v m env)"
    and "a_uncached_cpsr env' = (a_uncached_cpsr env AND NOT (m AND NOT CACHED_CPSR_BITS)) OR (v AND (m AND NOT CACHED_CPSR_BITS))"
  using assms switch_mode_keeps [of "v AND CPSR_M" "write_flags v m env"]
  by (auto simp: cpsr_write_def Let_def res_simps flags_of_def split: if_splits)

lemma cpsr_ok_flags: "cpsr_ok e \<Longrightarrow> flags_of e' = flags_of e \<Longrightarrow> a_uncached_cpsr e' AND CACHED_CPSR_BITS = 0 \<Longrightarrow> cpsr_ok e'"
  by (simp add: cpsr_ok_def flags_of_def)

lemma cpsr_write_spec:
  assumes "cpsr_ok env" and "group_mask m" and "cpsr_write v m env = Inr env'"
  shows "cpsr_read env' = (cpsr_read env AND NOT m) OR (v AND m) \<and> cpsr_ok env'"
proof -
  note sh = cpsr_write_shape [OF assms(3)]
  have "a_uncached_cpsr env' AND CACHED_CPSR_BITS = 0"
    using assms(1) unfolding sh(2) cpsr_ok_def by (auto simp: bit_eq_iff bit_simps)
  then have ok: "cpsr_ok env'" using cpsr_ok_flags [OF write_flags_ok [OF assms(1)] sh(1)] by simp
  have "bit (cpsr_read env') n = bit ((cpsr_read env AND NOT m) OR (v AND m)) n" if n: "n < 32" for n
  proof (cases "bit CACHED_CPSR_BITS n")
    case True
    then have "cpsr_bit env' n = (if bit m n then bit v n else cpsr_bit env n)"
      using cpsr_bit_cached [OF True sh(1)] write_flags_bits [OF assms(2) True] by simp
    then show ?thesis using n cpsr_read_bit [OF ok n] cpsr_read_bit [OF assms(1) n] by (simp add: bit_simps)
  next
    case False
    then have "cpsr_bit env' n = (if bit m n then bit v n else cpsr_bit env n)"
      using n cpsr_bit_uncached [OF False n] sh(2) by (simp add: bit_simps)
    then show ?thesis using n cpsr_read_bit [OF ok n] cpsr_read_bit [OF assms(1) n] by (simp add: bit_simps)
  qed
  then have "cpsr_read env' = (cpsr_read env AND NOT m) OR (v AND m)" by (intro bit_word_eqI) simp
  then show ?thesis using ok by blast
qed

section \<open>Returning from exceptions\<close>

lemma and_ones: "(w :: u32) AND 0xffffffff = w" "w AND 0xffffffff AND x = w AND x"
proof -
  have "(0xffffffff :: u32) = - 1" by simp
  then show "w AND 0xffffffff = w" "w AND 0xffffffff AND x = w AND x" by (simp_all only: and.right_neutral and.left_neutral)
qed

lemma and_not_ones: "(w :: u32) AND - 4294967296 = 0"
proof -
  have "(- 4294967296 :: u32) = 0" by simp
  then show ?thesis by (simp only: and_zero_eq)
qed

lemma full_mask: "group_mask 0xffffffff"
  by (simp add: group_mask_def cpsr_defs)

lemma mode_of_cpsr:
  assumes "cpsr_ok env"
  shows "cpsr_read env AND CPSR_M = a_uncached_cpsr env AND CPSR_M"
proof (rule bit_word_eqI)
  fix n :: nat
  assume n: "n < LENGTH(32)"
  have "bit CPSR_M n \<longrightarrow> cpsr_bit env n = bit (a_uncached_cpsr env) n"
    by (rule all_bits [of _ n]) (use n in \<open>simp_all add: cpsr_bit_def CPSR_M_def\<close>)
  then show "bit (cpsr_read env AND CPSR_M) n = bit (a_uncached_cpsr env AND CPSR_M) n"
    using cpsr_read_bit [OF assms, of n] n by (auto simp: bit_and_iff)
qed

text \<open>Two changes of the mode, there and back.\<close>

lemma switch_back:
  assumes "i \<noteq> j" and "om \<noteq> nm"
    and "e1 = load_bank j (save_bank i (swap_fiq om nm env))"
    and "\<forall>k. k \<noteq> 14 \<and> k \<noteq> 15 \<longrightarrow> a_regs e2 k = a_regs e1 k"
    and "a_usr_regs e2 = a_usr_regs e1" "a_fiq_regs e2 = a_fiq_regs e1" "a_banked_r13 e2 = a_banked_r13 e1"
      "a_banked_r14 e2 = a_banked_r14 e1" "a_banked_spsr e2 = a_banked_spsr e1"
    and "e3 = load_bank i (save_bank j (swap_fiq nm om e2))"
  shows "k < 15 \<Longrightarrow> a_regs e3 k = a_regs env k" and "a_regs e3 15 = a_regs e2 15" and "a_spsr e3 = a_spsr env"
proof -
  show "a_spsr e3 = a_spsr env" "a_regs e3 15 = a_regs e2 15"
    using assms by (auto simp: load_bank_def save_bank_def swap_fiq_def blit_def)
  show "a_regs e3 k = a_regs env k" if k: "k < 15"
  proof (cases "8 \<le> k \<and> k < 13")
    case True
    then show ?thesis
      using assms by (auto simp: load_bank_def save_bank_def swap_fiq_def blit_def)
  next
    case False
    then show ?thesis
      using assms k by (cases "k = 13"; cases "k = 14") (auto simp: load_bank_def save_bank_def swap_fiq_def blit_def)
  qed
qed

text \<open>The entry into an exception from another bank of registers.\<close>

lemma enter_exception_spec:
  assumes "bank_number (a_uncached_cpsr env AND CPSR_M) = Inr i" and "bank_number nm = Inr j" and "i \<noteq> j"
  defines "e1 \<equiv> load_bank j (save_bank i (swap_fiq (a_uncached_cpsr env AND CPSR_M) nm env))"
  shows "\<exists>e4. enter_exception (nm, addr, m, off) env = Inr e4 \<and> a_spsr e4 = cpsr_read env \<and>
    a_uncached_cpsr e4 = ((a_uncached_cpsr env AND NOT CPSR_M) OR nm) OR m \<and>
    a_regs e4 14 = a_regs env 15 + off \<and> a_regs e4 15 = addr + vector_base nm env \<and>
    (\<forall>k. k \<noteq> 14 \<and> k \<noteq> 15 \<longrightarrow> a_regs e4 k = a_regs e1 k) \<and>
    a_usr_regs e4 = a_usr_regs e1 \<and> a_fiq_regs e4 = a_fiq_regs e1 \<and> a_banked_r13 e4 = a_banked_r13 e1 \<and>
    a_banked_r14 e4 = a_banked_r14 e1 \<and> a_banked_spsr e4 = a_banked_spsr e1 \<and>
    (cpsr_ok env \<longrightarrow> nm AND CACHED_CPSR_BITS = 0 \<and> m AND CACHED_CPSR_BITS = 0 \<longrightarrow> cpsr_ok e4)"
proof -
  let ?om = "a_uncached_cpsr env AND CPSR_M"
  have ne: "nm \<noteq> ?om" using assms(1-3) by auto
  have sw: "switch_mode nm env = Inr e1" using assms(1,2) ne by (simp add: switch_mode_def Let_def e1_def)
  have fl: "flags_of e1 = flags_of env" "a_uncached_cpsr e1 = a_uncached_cpsr env" by (rule switch_mode_keeps [OF sw])+
  have cp: "cpsr_read e1 = cpsr_read env" using fl by (simp add: cpsr_read_def flags_of_def)
  have r15: "a_regs e1 15 = a_regs env 15" by (simp add: e1_def load_bank_def save_bank_def swap_fiq_def blit_def)
  have u: "((a_uncached_cpsr env AND NOT CPSR_M) OR nm OR m) AND CACHED_CPSR_BITS = 0"
    if "a_uncached_cpsr env AND CACHED_CPSR_BITS = 0" "nm AND CACHED_CPSR_BITS = 0" "m AND CACHED_CPSR_BITS = 0"
    using that by (auto simp: bit_eq_iff bit_simps)
  show ?thesis
    using sw fl cp r15 u by (auto simp: enter_exception_def Let_def cpsr_ok_def flags_of_def or.assoc)
qed

lemma exception_return_spec:
  assumes "cpsr_ok e" and "a_spsr e = v" and "bank_number (v AND CPSR_M) = Inr i" and "bank_number (a_uncached_cpsr e AND CPSR_M) = Inr j"
    and "v AND CPSR_M \<noteq> a_uncached_cpsr e AND CPSR_M"
  shows "\<exists>e2 e'. exception_return pc e = Inr e' \<and> cpsr_read e' = v \<and>
    (\<forall>k. k \<noteq> 15 \<longrightarrow> a_regs e2 k = a_regs e k) \<and> a_regs e2 15 = pc AND NOT 1 \<and>
    a_usr_regs e2 = a_usr_regs e \<and> a_fiq_regs e2 = a_fiq_regs e \<and> a_banked_r13 e2 = a_banked_r13 e \<and>
    a_banked_r14 e2 = a_banked_r14 e \<and> a_banked_spsr e2 = a_banked_spsr e \<and>
    a_regs e' = a_regs (load_bank i (save_bank j (swap_fiq (a_uncached_cpsr e AND CPSR_M) (v AND CPSR_M) e2))) \<and>
    a_spsr e' = a_spsr (load_bank i (save_bank j (swap_fiq (a_uncached_cpsr e AND CPSR_M) (v AND CPSR_M) e2)))"
proof -
  define e0 where "e0 = e\<lparr>a_regs := (a_regs e)(15 := pc AND NOT 1)\<rparr>"
  define e2 where "e2 = write_flags v 0xffffffff e0"
  have ok: "cpsr_ok e0" using assms(1) by (simp add: e0_def cpsr_ok_def)
  have "(a_uncached_cpsr e XOR v) AND CPSR_M = (a_uncached_cpsr e AND CPSR_M) XOR (v AND CPSR_M)" by (simp add: bit_eq_iff bit_simps) blast
  then have x: "(a_uncached_cpsr e XOR v) AND CPSR_M \<noteq> 0" using assms(5) by (auto simp: bit_eq_iff bit_simps)
  have sw: "switch_mode (v AND CPSR_M) e2 =
      Inr (load_bank i (save_bank j (swap_fiq (a_uncached_cpsr e AND CPSR_M) (v AND CPSR_M) e2)))"
    using assms(3-5) by (simp add: switch_mode_def Let_def e2_def e0_def)
  obtain e' where e': "exception_return pc e = Inr e'" "cpsr_write v 0xffffffff e0 = Inr e'"
      "a_regs e' = a_regs (load_bank i (save_bank j (swap_fiq (a_uncached_cpsr e AND CPSR_M) (v AND CPSR_M) e2)))"
      "a_spsr e' = a_spsr (load_bank i (save_bank j (swap_fiq (a_uncached_cpsr e AND CPSR_M) (v AND CPSR_M) e2)))"
    using sw x assms(2) by (simp add: exception_return_def cpsr_write_def Let_def e0_def e2_def and_ones)
  have "cpsr_read e' = v" using cpsr_write_spec [OF ok full_mask e'(2)] by (simp add: and_ones and_not_ones)
  then show ?thesis using e' by (intro exI [of _ e2] exI [of _ e']) (simp add: e2_def e0_def)
qed

lemma exception_entry_modes:
  assumes "exception_entry env = Inr (nm, addr, m, off)"
  shows "nm AND CACHED_CPSR_BITS = 0" and "m AND CACHED_CPSR_BITS = 0" and "m AND CPSR_M = 0" and "nm AND CPSR_M = nm"
    and "\<exists>j. bank_number nm = Inr j" and "bit m 7"
  using assms by (auto simp: exception_entry_def Let_def cpsr_defs mode_defs bank_number_def split: if_splits)

lemma exception_round_trip:
  assumes "cpsr_ok env" and "exception_entry env = Inr (nm, addr, m, off)"
    and "bank_number (a_uncached_cpsr env AND CPSR_M) = Inr i" and "bank_number nm \<noteq> Inr i"
  shows "\<exists>e1. enter_exception (nm, addr, m, off) env = Inr e1 \<and> a_spsr e1 = cpsr_read env \<and>
    a_uncached_cpsr e1 AND CPSR_M = nm \<and> bit (a_uncached_cpsr e1) 7 \<and>
    a_regs e1 14 = a_regs env 15 + off \<and> a_regs e1 15 = addr + vector_base nm env \<and>
    (\<exists>e2. exception_return pc e1 = Inr e2 \<and> cpsr_read e2 = cpsr_read env \<and> (\<forall>k<15. a_regs e2 k = a_regs env k) \<and>
      a_regs e2 15 = pc AND NOT 1 \<and> a_spsr e2 = a_spsr env)"
proof -
  note modes = exception_entry_modes [OF assms(2)]
  obtain j where j: "bank_number nm = Inr j" "i \<noteq> j" using modes(5) assms(4) by auto
  let ?om = "a_uncached_cpsr env AND CPSR_M"
  define b1 where "b1 = load_bank j (save_bank i (swap_fiq ?om nm env))"
  obtain e1 where e1: "enter_exception (nm, addr, m, off) env = Inr e1" "a_spsr e1 = cpsr_read env"
      "a_uncached_cpsr e1 = ((a_uncached_cpsr env AND NOT CPSR_M) OR nm) OR m"
      "a_regs e1 14 = a_regs env 15 + off" "a_regs e1 15 = addr + vector_base nm env"
      "\<forall>k. k \<noteq> 14 \<and> k \<noteq> 15 \<longrightarrow> a_regs e1 k = a_regs b1 k"
      "a_usr_regs e1 = a_usr_regs b1" "a_fiq_regs e1 = a_fiq_regs b1" "a_banked_r13 e1 = a_banked_r13 b1"
      "a_banked_r14 e1 = a_banked_r14 b1" "a_banked_spsr e1 = a_banked_spsr b1" "cpsr_ok e1"
    using enter_exception_spec [OF assms(3) j, of addr m off, folded b1_def] assms(1) modes(1,2) by blast
  have nm: "a_uncached_cpsr e1 AND CPSR_M = nm" using e1(3) modes(3,4) by (auto simp: bit_eq_iff bit_simps)
  have om: "cpsr_read env AND CPSR_M = ?om" by (rule mode_of_cpsr [OF assms(1)])
  have ne: "?om \<noteq> nm" using assms(3) j by auto
  obtain b2 e2 where e2: "exception_return pc e1 = Inr e2" "cpsr_read e2 = cpsr_read env"
      "\<forall>k. k \<noteq> 15 \<longrightarrow> a_regs b2 k = a_regs e1 k" "a_regs b2 15 = pc AND NOT 1"
      "a_usr_regs b2 = a_usr_regs e1" "a_fiq_regs b2 = a_fiq_regs e1" "a_banked_r13 b2 = a_banked_r13 e1"
      "a_banked_r14 b2 = a_banked_r14 e1" "a_banked_spsr b2 = a_banked_spsr e1"
      "a_regs e2 = a_regs (load_bank i (save_bank j (swap_fiq nm ?om b2)))"
      "a_spsr e2 = a_spsr (load_bank i (save_bank j (swap_fiq nm ?om b2)))"
    using exception_return_spec [OF e1(12,2), of i j pc] assms(3) j(1) nm om ne by auto
  have "\<forall>k. k \<noteq> 14 \<and> k \<noteq> 15 \<longrightarrow> a_regs b2 k = a_regs b1 k" using e2(3) e1(6) by simp
  note restored = switch_back [OF j(2) ne b1_def this _ _ _ _ _ refl]
  have "bit (a_uncached_cpsr e1) 7" using e1(3) modes(6) by (simp add: bit_or_iff)
  then show ?thesis using e1(1,2,4,5) nm e2 restored e1(7-11) by (intro exI [of _ e1]) auto
qed

lemma whole_group:
  fixes m k g :: u32
  assumes "m AND g = 0 \<or> m AND g = g" and "k AND g = 0 \<or> k AND g = g"
  shows "(m AND k) AND g = 0 \<or> (m AND k) AND g = g" and "(m OR k) AND g = 0 \<or> (m OR k) AND g = g"
proof -
  have a: "(m AND k) AND g = (m AND g) AND (k AND g)" and o: "(m OR k) AND g = (m AND g) OR (k AND g)"
    by (simp_all add: bit_eq_iff bit_simps) blast+
  show "(m AND k) AND g = 0 \<or> (m AND k) AND g = g" unfolding a using assms by (elim disjE) (simp_all only: and_zero_eq zero_and_eq and.idem simp_thms)
  show "(m OR k) AND g = 0 \<or> (m OR k) AND g = g" unfolding o using assms by (elim disjE) (simp_all only: or.right_neutral or.left_neutral or.idem simp_thms)
qed

lemma group_mask_and: "group_mask m \<Longrightarrow> group_mask k \<Longrightarrow> group_mask (m AND k)"
  unfolding group_mask_def list_all_iff by (intro ballI whole_group(1)) blast+

lemma group_mask_or: "group_mask m \<Longrightarrow> group_mask k \<Longrightarrow> group_mask (m OR k)"
  unfolding group_mask_def list_all_iff by (intro ballI whole_group(2)) blast+

lemma group_mask_const:
  "group_mask 0" "group_mask 0xff" "group_mask 0xff00" "group_mask 0xff0000" "group_mask 0xff000000"
  "group_mask (NOT CPSR_RESERVED)" "group_mask (NOT CPSR_T)" "group_mask (NOT CPSR_Q)"
  "group_mask (NOT (CPSR_E OR CPSR_GE))" "group_mask (NOT (CPSR_IT_0_1 OR CPSR_IT_2_7))" "group_mask (NOT CPSR_EXEC)"
  "group_mask CPSR_USER"
  by (simp_all add: group_mask_def cpsr_defs CPSR_RESERVED_def CPSR_E_def CPSR_EXEC_def CPSR_USER_def CPSR_J_def)

lemma msr_mask_groups: "group_mask (msr_mask env is_user flags spsr)"
proof -
  have "group_mask (if c then a else b)" if "group_mask a" "group_mask b" for c and a b :: u32 using that by simp
  note step = this group_mask_and group_mask_or group_mask_const
  show ?thesis unfolding msr_mask_def Let_def by (intro step)
qed

section \<open>Properties\<close>

text \<open>A processor in user mode with the carry set, as it runs before an interrupt.\<close>

definition cpu0 :: CPUARMState where
  "cpu0 = \<lparr>a_regs = (\<lambda>i. of_nat i), a_uncached_cpsr = 0x10, a_spsr = 0, a_banked_spsr = (\<lambda>_. 0), a_banked_r13 = (\<lambda>_. 0),
     a_banked_r14 = (\<lambda>_. 0), a_usr_regs = (\<lambda>_. 0), a_fiq_regs = (\<lambda>_. 0), a_CF = 1, a_VF = 0, a_NF = 0, a_ZF = 1, a_QF = 0, a_GE = 0,
     a_thumb = 0, a_condexec_bits = 0, a_c1_sys = 0, a_c1_secfg = 0, a_c2_base0 = 0, a_c2_base1 = 0, a_c2_mask = 0,
     a_c2_base_mask = 0xffffc000, a_c3 = 0, a_c5_insn = 0, a_c5_data = 0, a_c6_region = (\<lambda>_. 0), a_c6_insn = 0, a_c6_data = 0,
     a_c12_vbar = 0, a_c12_mvbar = 0, a_c13_fcse = 0, a_features = 0, a_exception_index = 5, a_exit_tb = False\<rparr>"

definition host0 :: arm_host where
  "host0 = \<lparr>semihosting_enabled = False, ldl_code = (\<lambda>_. 0), lduw_code = (\<lambda>_. 0), do_arm_semihosting = (\<lambda>_. 0),
     do_interrupt_v7m = Inr\<rparr>"

lemma cpu0_ok: "cpsr_ok cpu0"
  by (simp add: cpsr_ok_def cpu0_def cpsr_defs)

lemma cpu0_read: "cpsr_read cpu0 = 0x20000010"
  by (simp add: cpsr_read_def cpu0_def push_bit_eq_mult drop_bit_eq_div)

text \<open>The bits that a write under a mask really changes: a bit of the flags N, Z, C, V, of the GE flags or of one of the two fields of the IT state selects all the bits
  of its group.\<close>

definition whole_groups :: "u32 \<Rightarrow> u32" where
  "whole_groups m = m OR (if m AND CPSR_NZCV \<noteq> 0 then CPSR_NZCV else 0) OR (if m AND CPSR_IT_0_1 \<noteq> 0 then CPSR_IT_0_1 else 0) OR
     (if m AND CPSR_IT_2_7 \<noteq> 0 then CPSR_IT_2_7 else 0) OR (if m AND CPSR_GE \<noteq> 0 then CPSR_GE else 0)"

lemma whole_groups_and:
  "whole_groups m AND CPSR_NZCV = (if m AND CPSR_NZCV \<noteq> 0 then CPSR_NZCV else 0)"
  "whole_groups m AND CPSR_IT_0_1 = (if m AND CPSR_IT_0_1 \<noteq> 0 then CPSR_IT_0_1 else 0)"
  "whole_groups m AND CPSR_IT_2_7 = (if m AND CPSR_IT_2_7 \<noteq> 0 then CPSR_IT_2_7 else 0)"
  "whole_groups m AND CPSR_GE = (if m AND CPSR_GE \<noteq> 0 then CPSR_GE else 0)"
  "whole_groups m AND CPSR_Q = m AND CPSR_Q" "whole_groups m AND CPSR_T = m AND CPSR_T" "whole_groups m AND CPSR_M = m AND CPSR_M"
  "whole_groups m AND NOT CACHED_CPSR_BITS = m AND NOT CACHED_CPSR_BITS"
proof -
  have absorb: "(m AND g) OR g = g" for g :: u32 by (simp add: bit_eq_iff bit_simps)
  have d: "(if c then g else 0 :: u32) AND k = (if c then g AND k else 0)" for c g k by simp
  show "whole_groups m AND CPSR_NZCV = (if m AND CPSR_NZCV \<noteq> 0 then CPSR_NZCV else 0)"
    "whole_groups m AND CPSR_IT_0_1 = (if m AND CPSR_IT_0_1 \<noteq> 0 then CPSR_IT_0_1 else 0)"
    "whole_groups m AND CPSR_IT_2_7 = (if m AND CPSR_IT_2_7 \<noteq> 0 then CPSR_IT_2_7 else 0)"
    "whole_groups m AND CPSR_GE = (if m AND CPSR_GE \<noteq> 0 then CPSR_GE else 0)"
    "whole_groups m AND CPSR_Q = m AND CPSR_Q" "whole_groups m AND CPSR_T = m AND CPSR_T" "whole_groups m AND CPSR_M = m AND CPSR_M"
    "whole_groups m AND NOT CACHED_CPSR_BITS = m AND NOT CACHED_CPSR_BITS"
    unfolding whole_groups_def bit.conj_disj_distrib2 d
    using absorb [of "0xf0000000"] absorb [of "0x6000000"] absorb [of "0xfc00"] absorb [of "0xf0000"] by (simp_all add: cpsr_defs)
qed

lemma group_mask_whole: "group_mask (whole_groups m)"
  by (simp add: group_mask_def whole_groups_and)

lemma groups_nonzero: "CPSR_NZCV \<noteq> 0" "CPSR_IT_0_1 \<noteq> 0" "CPSR_IT_2_7 \<noteq> 0" "CPSR_GE \<noteq> 0"
  by (simp_all add: cpsr_defs)

lemma cpsr_write_whole: "cpsr_write v (whole_groups m) env = cpsr_write v m env"
proof -
  have "whole_groups m AND CPSR_NZCV = 0 \<longleftrightarrow> m AND CPSR_NZCV = 0" "whole_groups m AND CPSR_IT_0_1 = 0 \<longleftrightarrow> m AND CPSR_IT_0_1 = 0"
    "whole_groups m AND CPSR_IT_2_7 = 0 \<longleftrightarrow> m AND CPSR_IT_2_7 = 0" "whole_groups m AND CPSR_GE = 0 \<longleftrightarrow> m AND CPSR_GE = 0"
    by (simp_all add: whole_groups_and groups_nonzero)
  then have "write_flags v (whole_groups m) env = write_flags v m env" by (simp only: write_flags_def whole_groups_and(5,6))
  moreover have "x AND whole_groups m AND CPSR_M = x AND m AND CPSR_M" for x
    by (simp add: and.assoc whole_groups_and)
  ultimately show ?thesis by (simp add: cpsr_write_def whole_groups_and Let_def)
qed

lemma cpsr_write_fails:
  assumes "cpsr_write v m env = Inl e"
  shows "e = Cpu_Abort \<and> (bank_number (v AND CPSR_M) = Inl e \<or> bank_number (a_uncached_cpsr env AND CPSR_M) = Inl e)"
proof -
  have b: "bank_number k = Inl e' \<Longrightarrow> e' = Cpu_Abort" for k e' by (auto simp: bank_number_def split: if_splits)
  have u: "a_uncached_cpsr (write_flags v m env) = a_uncached_cpsr env" by (simp add: write_flags_def Let_def)
  show ?thesis using assms b by (auto simp: cpsr_write_def switch_mode_def Let_def u res_simps split: if_splits)
qed

text \<open>C25: The status register. Although the flags live in separate fields, writing the status register under any mask and reading it back gives
  the written bits where the mask is set and the old bits elsewhere, in every mode and also when the write changes the mode, where a mask with a bit of
  the flags N, Z, C, V, of the GE flags or of one of the two fields of the IT state counts as having all the bits of that group; the fields, if well-formed before
  (flags of one bit, no cached bit set in the uncached part), stay so. The write fails, with the abort of \<open>bank_number\<close>, only when the written or the current mode is no mode.\<close>

theorem cpsr_write_read:
  assumes "cpsr_ok env"
  shows "case cpsr_write v m env of
      Inr env' \<Rightarrow> cpsr_read env' = (cpsr_read env AND NOT (whole_groups m)) OR (v AND whole_groups m) \<and> cpsr_ok env'
    | Inl e \<Rightarrow> e = Cpu_Abort \<and> (bank_number (v AND CPSR_M) = Inl e \<or> bank_number (a_uncached_cpsr env AND CPSR_M) = Inl e)"
  using cpsr_write_spec [OF assms group_mask_whole, of v m] cpsr_write_fails [of v m env]
  by (cases "cpsr_write v m env") (simp_all add: cpsr_write_whole)

theorem cpsr_write_read_witness:
  "\<exists>env'. cpsr_write 0x80000013 0x8000001f cpu0 = Inr env' \<and> cpsr_read env' = 0x80000013 \<and> cpsr_ok env'"
proof -
  obtain env' where e: "cpsr_write 0x80000013 0x8000001f cpu0 = Inr env'"
    by (simp add: cpsr_write_def write_flags_def switch_mode_def bank_number_def mode_defs cpu0_def cpsr_defs Let_def)
  have "whole_groups 0x8000001f = 0xf000001f" by (simp add: whole_groups_def cpsr_defs)
  then show ?thesis using cpsr_write_read [OF cpu0_ok, of "0x80000013" "0x8000001f"] e unfolding cpu0_read by simp
qed

text \<open>C8: Exceptions are transparent. An exception taken in a mode with other banked registers saves the status register and the return address,
  masks interrupts and enters the mode and the vector of the exception; a return from there restores the status register, all the
  registers r0 to r14 and the saved status register of the interrupted mode.\<close>

theorem exception_transparent:
  assumes "cpsr_ok env" and "\<not> arm_feature env ARM_FEATURE_M" and "\<not> semihosting_enabled h"
    and "exception_entry env = Inr (nm, addr, m, off)" and "a_exception_index env \<noteq> EXCP_SMC"
    and "bank_number (a_uncached_cpsr env AND CPSR_M) = Inr i" and "bank_number nm \<noteq> Inr i"
  shows "\<exists>e1. do_interrupt h env = Inr e1 \<and> a_spsr e1 = cpsr_read env \<and>
    a_uncached_cpsr e1 AND CPSR_M = nm \<and> bit (a_uncached_cpsr e1) 7 \<and>
    a_regs e1 14 = a_regs env 15 + off \<and> a_regs e1 15 = addr + vector_base nm env \<and>
    (\<exists>e2. exception_return pc e1 = Inr e2 \<and> cpsr_read e2 = cpsr_read env \<and> (\<forall>k<15. a_regs e2 k = a_regs env k) \<and>
      a_regs e2 15 = pc AND NOT 1 \<and> a_spsr e2 = a_spsr env)"
  using exception_round_trip [OF assms(1,4,6,7), of pc] assms(2-5)
  by (simp add: do_interrupt_def swi_semihosted_def bkpt_semihosted_def)

theorem exception_transparent_witness:
  "\<exists>e1. do_interrupt host0 cpu0 = Inr e1 \<and> a_spsr e1 = 0x20000010 \<and> a_regs e1 15 = 0x18 \<and>
    (\<exists>e2. exception_return 15 e1 = Inr e2 \<and> cpsr_read e2 = 0x20000010 \<and> a_regs e2 13 = 13)"
proof -
  have e: "exception_entry cpu0 = Inr (ARM_CPU_MODE_IRQ, 0x18, CPSR_A OR CPSR_I, 4)"
    by (simp add: exception_entry_def cpu0_def excp_defs Let_def)
  have b: "bank_number (a_uncached_cpsr cpu0 AND CPSR_M) = Inr 0" "bank_number ARM_CPU_MODE_IRQ \<noteq> Inr 0"
    by (simp_all add: bank_number_def mode_defs cpu0_def CPSR_M_def)
  have "vector_base ARM_CPU_MODE_IRQ cpu0 = 0" and f: "\<not> arm_feature cpu0 ARM_FEATURE_M"
    by (simp_all add: vector_base_def arm_feature_def cpu0_def)
  moreover have "\<not> semihosting_enabled host0" "a_exception_index cpu0 \<noteq> EXCP_SMC" "\<forall>k. a_regs cpu0 k = of_nat k"
    by (simp_all add: host0_def cpu0_def excp_defs)
  ultimately show ?thesis
    using exception_transparent [of cpu0 host0, OF cpu0_ok f _ e _ b, of 15] unfolding cpu0_read by fastforce
qed

text \<open>C27: User mode is confined. The mask the translator gives an MSR instruction of the status register in user mode lets it change the condition
  flags, the Q flag and the GE flags only: the mode, the interrupt masks, the instruction set state and the registers stay.\<close>

theorem user_msr_confined:
  assumes "cpsr_ok env" and "cpsr_write v (msr_mask env True flags spsr) env = Inr env'"
  shows "(cpsr_read env' XOR cpsr_read env) AND NOT CPSR_USER = 0 \<and> a_regs env' = a_regs env"
proof -
  let ?m = "msr_mask env True flags spsr"
  have u: "?m AND NOT CPSR_USER = 0" by (simp add: msr_mask_def Let_def bit_eq_iff bit_simps)
  have r: "cpsr_read env' = (cpsr_read env AND NOT ?m) OR (v AND ?m)"
    using cpsr_write_spec [OF assms(1) msr_mask_groups assms(2)] by blast
  have "CPSR_USER AND CPSR_M = 0" by (simp add: CPSR_USER_def cpsr_defs)
  then have "?m AND CPSR_M = 0" using u by (auto simp: bit_eq_iff bit_simps)
  then have "a_regs env' = a_regs env"
    using assms(2) by (auto simp: cpsr_write_def Let_def and.assoc)
  then show ?thesis unfolding r using u by (auto simp: bit_eq_iff bit_simps)
qed

theorem user_msr_confined_witness:
  "\<exists>env'. cpsr_write 0x80000013 (msr_mask cpu0 True 9 False) cpu0 = Inr env' \<and>
    (cpsr_read env' XOR cpsr_read cpu0) AND NOT CPSR_USER = 0 \<and> a_regs env' 13 = 13"
proof -
  have m: "msr_mask cpu0 True 9 False = 0xf0000000"
    by (simp add: msr_mask_def Let_def arm_feature_def cpu0_def CPSR_RESERVED_def CPSR_E_def CPSR_EXEC_def CPSR_USER_def CPSR_J_def cpsr_defs)
  obtain env' where e: "cpsr_write 0x80000013 (msr_mask cpu0 True 9 False) cpu0 = Inr env'"
    unfolding m by (simp add: cpsr_write_def write_flags_def cpu0_def cpsr_defs Let_def)
  have "a_regs cpu0 13 = 13" by (simp add: cpu0_def)
  then show ?thesis using user_msr_confined [OF cpu0_ok e] e by auto
qed

end
