(* ===== verification/Arm_Mmu.thy ===== *)
theory Arm_Mmu
  imports Arm_Cpu Guest_Memory
begin

text \<open>
  Address translation of the emulated ARM processor, \<open>target-arm/helper.c\<close>: the walk of the page tables in the formats of
  ARMv5 and ARMv6, the protection unit, the faults, and what enters the TLB. \<open>ldl_phys\<close> loads a word of RAM; page tables in the
  registers of a device are not modelled. A walk gives the code for the fault status register, or the physical address, the
  permissions and the page size that the code returns through pointers. The lookup of the descriptors and the check of the
  permissions are separate definitions; the code has them in one function body each.
\<close>

section \<open>Permissions\<close>

definition PAGE_READ :: u32 where "PAGE_READ = 1"
definition PAGE_WRITE :: u32 where "PAGE_WRITE = 2"
definition PAGE_EXEC :: u32 where "PAGE_EXEC = 4"

lemmas page_defs = PAGE_READ_def PAGE_WRITE_def PAGE_EXEC_def

text \<open>The access type is 0 for a load, 1 for a store and 2 for an instruction fetch.\<close>

definition check_ap :: "CPUARMState \<Rightarrow> u32 \<Rightarrow> u32 \<Rightarrow> nat \<Rightarrow> bool \<Rightarrow> u32 res" where
  "check_ap env ap domain access_type is_user =
     (if domain = 3 then Inr (PAGE_READ OR PAGE_WRITE)
      else let prot_ro = (if access_type = 1 then 0 else PAGE_READ)
           in if ap = 0 then
                if access_type = 1 then Inr 0
                else let sr = drop_bit 8 (a_c1_sys env) AND 3
                     in if sr = 1 then Inr (if is_user then 0 else PAGE_READ)
                        else if sr = 2 then Inr PAGE_READ
                        else Inr 0
              else if ap = 1 then Inr (if is_user then 0 else PAGE_READ OR PAGE_WRITE)
              else if ap = 2 then Inr (if is_user then prot_ro else PAGE_READ OR PAGE_WRITE)
              else if ap = 3 then Inr (PAGE_READ OR PAGE_WRITE)
              else if ap = 4 then Inr 0
              else if ap = 5 then Inr (if is_user then 0 else prot_ro)
              else if ap = 6 then Inr prot_ro
              else if ap = 7 then Inr (if \<not> arm_feature env ARM_FEATURE_V6K then 0 else prot_ro)
              else Inl Assert_Failure)"

section \<open>Page tables\<close>

definition ldl_phys :: "phys_mem \<Rightarrow> u32 \<Rightarrow> u32" where
  "ldl_phys mem a = (let p = ucast a :: u64 in le32_join (mem p) (mem (p + 1)) (mem (p + 2)) (mem (p + 3)))"

definition get_level1_table_address :: "CPUARMState \<Rightarrow> u32 \<Rightarrow> u32" where
  "get_level1_table_address env address =
     (if address AND a_c2_mask env \<noteq> 0 then a_c2_base1 env AND 0xffffc000 else a_c2_base0 env AND a_c2_base_mask env)
       OR (drop_bit 18 address AND 0x3ffc)"

datatype walk = Walk_Fault u32 | Mapped u32 u32 u32

record page_info =
  p_phys :: u32
  p_ap :: u32
  p_xn :: bool
  p_size :: u32
  p_code :: u32
  p_domain :: u32

definition do_fault :: "u32 \<Rightarrow> u32 \<Rightarrow> u32" where
  "do_fault code domain = code OR push_bit 4 domain"

text \<open>The walk of ARMv5: sections, and pages of 64, 4 and 1 KiB in coarse and fine tables.\<close>

definition v5_page :: "CPUARMState \<Rightarrow> u32 \<Rightarrow> u32 \<Rightarrow> u32 \<Rightarrow> u32 \<Rightarrow> u32 + page_info" where
  "v5_page env address type domain desc =
     (let page = (\<lambda>phys ap size. Inr \<lparr>p_phys = phys, p_ap = ap, p_xn = False, p_size = size, p_code = 15, p_domain = domain\<rparr>);
          sub_ap = drop_bit (4 + unat (drop_bit 13 address AND 6)) desc AND 3
      in if desc AND 3 = 0 then Inl (do_fault 7 domain)
         else if desc AND 3 = 1 then page ((desc AND 0xffff0000) OR (address AND 0xffff)) sub_ap 0x10000
         else if desc AND 3 = 2 then page ((desc AND 0xfffff000) OR (address AND 0xfff)) sub_ap 0x1000
         else if type = 1 then
           if arm_feature env ARM_FEATURE_XSCALE
           then page ((desc AND 0xfffff000) OR (address AND 0xfff)) (drop_bit 4 desc AND 3) 0x400
           else Inl (do_fault 7 domain)
         else page ((desc AND 0xfffffc00) OR (address AND 0x3ff)) (drop_bit 4 desc AND 3) 0x400)"

definition v5_lookup :: "(u32 \<Rightarrow> u32) \<Rightarrow> CPUARMState \<Rightarrow> u32 \<Rightarrow> u32 + page_info" where
  "v5_lookup ldl env address =
     (let desc = ldl (get_level1_table_address env address);
          type = desc AND 3;
          domain = drop_bit (unat (drop_bit 4 desc AND 0x1e)) (a_c3 env) AND 3
      in if type = 0 then Inl (do_fault 5 domain)
         else if domain = 0 \<or> domain = 2 then Inl (do_fault (if type = 2 then 9 else 11) domain)
         else if type = 2 then
           Inr \<lparr>p_phys = (desc AND 0xfff00000) OR (address AND 0x000fffff), p_ap = drop_bit 10 desc AND 3, p_xn = False,
                p_size = 1024 * 1024, p_code = 13, p_domain = domain\<rparr>
         else let table = (if type = 1 then (desc AND 0xfffffc00) OR (drop_bit 10 address AND 0x3fc)
                           else (desc AND 0xfffff000) OR (drop_bit 8 address AND 0xffc))
              in v5_page env address type domain (ldl table))"

definition get_phys_addr_v5 :: "(u32 \<Rightarrow> u32) \<Rightarrow> CPUARMState \<Rightarrow> u32 \<Rightarrow> nat \<Rightarrow> bool \<Rightarrow> walk res" where
  "get_phys_addr_v5 ldl env address access_type is_user =
     (case v5_lookup ldl env address of
        Inl code \<Rightarrow> Inr (Walk_Fault code)
      | Inr p \<Rightarrow> res_bind (check_ap env (p_ap p) (p_domain p) access_type is_user) (\<lambda>prot.
          Inr (if prot = 0 then Walk_Fault (do_fault (p_code p) (p_domain p))
               else Mapped (p_phys p) (prot OR PAGE_EXEC) (p_size p))))"

text \<open>The walk of ARMv6: supersections, sections, pages of 64 and 4 KiB, with a bit that forbids execution.\<close>

definition v6_page :: "u32 \<Rightarrow> u32 \<Rightarrow> u32 \<Rightarrow> u32 + page_info" where
  "v6_page address domain desc =
     (let ap = (drop_bit 4 desc AND 3) OR (drop_bit 7 desc AND 4)
      in if desc AND 3 = 0 then Inl (do_fault 7 domain)
         else if desc AND 3 = 1 then
           Inr \<lparr>p_phys = (desc AND 0xffff0000) OR (address AND 0xffff), p_ap = ap, p_xn = bit desc 15, p_size = 0x10000,
                p_code = 15, p_domain = domain\<rparr>
         else
           Inr \<lparr>p_phys = (desc AND 0xfffff000) OR (address AND 0xfff), p_ap = ap, p_xn = bit desc 0, p_size = 0x1000,
                p_code = 15, p_domain = domain\<rparr>)"

definition v6_lookup :: "(u32 \<Rightarrow> u32) \<Rightarrow> CPUARMState \<Rightarrow> u32 \<Rightarrow> u32 + page_info" where
  "v6_lookup ldl env address =
     (let desc = ldl (get_level1_table_address env address);
          type = desc AND 3
      in if type = 0 \<or> type = 3 then Inl (do_fault 5 0)
         else let number = (if type = 2 \<and> bit desc 18 then 0 else drop_bit 4 desc AND 0x1e);
                  domain = drop_bit (unat number) (a_c3 env) AND 3
              in if domain = 0 \<or> domain = 2 then Inl (do_fault (if type = 2 then 9 else 11) domain)
                 else if type = 2 then
                   Inr \<lparr>p_phys = (if bit desc 18 then (desc AND 0xff000000) OR (address AND 0x00ffffff)
                                  else (desc AND 0xfff00000) OR (address AND 0x000fffff)),
                        p_ap = (drop_bit 10 desc AND 3) OR (drop_bit 13 desc AND 4), p_xn = bit desc 4,
                        p_size = (if bit desc 18 then 0x1000000 else 0x100000), p_code = 13, p_domain = domain\<rparr>
                 else v6_page address domain (ldl ((desc AND 0xfffffc00) OR (drop_bit 10 address AND 0x3fc))))"

definition v6_check :: "CPUARMState \<Rightarrow> page_info \<Rightarrow> nat \<Rightarrow> bool \<Rightarrow> walk res" where
  "v6_check env p access_type is_user =
     (if p_domain p = 3 then Inr (Mapped (p_phys p) (PAGE_READ OR PAGE_WRITE OR PAGE_EXEC) (p_size p))
      else if p_xn p \<and> access_type = 2 then Inr (Walk_Fault (do_fault (p_code p) (p_domain p)))
      else if bit (a_c1_sys env) 29 \<and> p_ap p AND 1 = 0 then
        Inr (Walk_Fault (do_fault (if p_code p = 15 then 6 else 3) (p_domain p)))
      else res_bind (check_ap env (p_ap p) (p_domain p) access_type is_user) (\<lambda>prot.
        Inr (if prot = 0 then Walk_Fault (do_fault (p_code p) (p_domain p))
             else Mapped (p_phys p) (if p_xn p then prot else prot OR PAGE_EXEC) (p_size p))))"

definition get_phys_addr_v6 :: "(u32 \<Rightarrow> u32) \<Rightarrow> CPUARMState \<Rightarrow> u32 \<Rightarrow> nat \<Rightarrow> bool \<Rightarrow> walk res" where
  "get_phys_addr_v6 ldl env address access_type is_user =
     (case v6_lookup ldl env address of
        Inl code \<Rightarrow> Inr (Walk_Fault code)
      | Inr p \<Rightarrow> v6_check env p access_type is_user)"

text \<open>The protection unit: the highest matching region decides. The page size is set by the caller.\<close>

definition region_matches :: "CPUARMState \<Rightarrow> u32 \<Rightarrow> nat \<Rightarrow> bool" where
  "region_matches env address n =
     (let base = a_c6_region env n;
          m = push_bit 1 (push_bit (unat (drop_bit 1 base AND 0x1f)) 1) - 1
      in bit base 0 \<and> (base XOR address) AND NOT m = 0)"

definition mpu_prot :: "u32 \<Rightarrow> bool \<Rightarrow> u32 option" where
  "mpu_prot m is_user =
     (if m = 1 then if is_user then None else Some (PAGE_READ OR PAGE_WRITE)
      else if m = 2 then Some (if is_user then PAGE_READ else PAGE_READ OR PAGE_WRITE)
      else if m = 3 then Some (PAGE_READ OR PAGE_WRITE)
      else if m = 5 then if is_user then None else Some PAGE_READ
      else if m = 6 then Some PAGE_READ
      else None)"

definition TARGET_PAGE_SIZE :: u32 where "TARGET_PAGE_SIZE = 0x400"

definition get_phys_addr_mpu :: "CPUARMState \<Rightarrow> u32 \<Rightarrow> nat \<Rightarrow> bool \<Rightarrow> walk" where
  "get_phys_addr_mpu env address access_type is_user =
     (case find (region_matches env address) (rev [0..<8]) of
        None \<Rightarrow> Walk_Fault 2
      | Some n \<Rightarrow>
          case mpu_prot (drop_bit (n * 4) (if access_type = 2 then a_c5_insn env else a_c5_data env) AND 0xf) is_user of
            None \<Rightarrow> Walk_Fault 1
          | Some prot \<Rightarrow> Mapped address (prot OR PAGE_EXEC) TARGET_PAGE_SIZE)"

definition get_phys_addr :: "(u32 \<Rightarrow> u32) \<Rightarrow> CPUARMState \<Rightarrow> u32 \<Rightarrow> nat \<Rightarrow> bool \<Rightarrow> walk res" where
  "get_phys_addr ldl env addr access_type is_user =
     (let address = (if addr < 0x02000000 then addr + a_c13_fcse env else addr)
      in if \<not> bit (a_c1_sys env) 0 then Inr (Mapped address (PAGE_READ OR PAGE_WRITE OR PAGE_EXEC) TARGET_PAGE_SIZE)
         else if arm_feature env ARM_FEATURE_MPU then Inr (get_phys_addr_mpu env address access_type is_user)
         else if bit (a_c1_sys env) 23 then get_phys_addr_v6 ldl env address access_type is_user
         else get_phys_addr_v5 ldl env address access_type is_user)"

section \<open>Filling the TLB and reporting faults\<close>

definition subpage :: "u32 \<Rightarrow> u32" where
  "subpage a = a AND NOT 0x3ff"

datatype tlb_entry = Tlb_Entry u32 u32 u32 nat u32

definition MMU_USER_IDX :: nat where "MMU_USER_IDX = 1"

definition cpu_arm_handle_mmu_fault ::
  "(u32 \<Rightarrow> u32) \<Rightarrow> CPUARMState \<Rightarrow> u32 \<Rightarrow> nat \<Rightarrow> nat \<Rightarrow> (int \<times> CPUARMState \<times> tlb_entry option) res" where
  "cpu_arm_handle_mmu_fault ldl env address access_type mmu_idx =
     res_bind (get_phys_addr ldl env address access_type (mmu_idx = MMU_USER_IDX)) (\<lambda>w.
       case w of
         Mapped phys prot sz \<Rightarrow>
           Inr (0, env, Some (Tlb_Entry (subpage address) (subpage phys) (prot OR PAGE_EXEC) mmu_idx sz))
       | Walk_Fault ret \<Rightarrow>
           if access_type = 2 then
             Inr (1, env\<lparr>a_c5_insn := ret, a_c6_insn := address, a_exception_index := EXCP_PREFETCH_ABORT\<rparr>, None)
           else
             Inr (1, env\<lparr>a_c5_data := (if access_type = 1 \<and> arm_feature env ARM_FEATURE_V6 then ret OR 0x800 else ret),
                         a_c6_data := address, a_exception_index := EXCP_DATA_ABORT\<rparr>, None))"

definition cpu_get_phys_page_debug :: "(u32 \<Rightarrow> u32) \<Rightarrow> CPUARMState \<Rightarrow> u32 \<Rightarrow> u64 option" where
  "cpu_get_phys_page_debug ldl env addr =
     (case get_phys_addr ldl env addr 0 False of Inr (Mapped phys prot sz) \<Rightarrow> Some (ucast phys) | _ \<Rightarrow> None)"

section \<open>Permissions do not depend on the access\<close>

text \<open>The permissions of the architecture: none, read, or read and write.\<close>

definition ap_perm :: "CPUARMState \<Rightarrow> u32 \<Rightarrow> u32 \<Rightarrow> bool \<Rightarrow> u32" where
  "ap_perm env ap domain is_user =
     (if domain = 3 then PAGE_READ OR PAGE_WRITE
      else if ap = 0 then
        (if drop_bit 8 (a_c1_sys env) AND 3 = 2 \<or> drop_bit 8 (a_c1_sys env) AND 3 = 1 \<and> \<not> is_user then PAGE_READ else 0)
      else if ap = 3 then PAGE_READ OR PAGE_WRITE
      else if ap = 1 \<or> ap = 2 then if is_user then (if ap = 2 then PAGE_READ else 0) else PAGE_READ OR PAGE_WRITE
      else if ap = 5 then if is_user then 0 else PAGE_READ
      else if ap = 6 \<or> ap = 7 \<and> arm_feature env ARM_FEATURE_V6K then PAGE_READ
      else 0)"

lemma check_ap_perm:
  assumes "ap < 8"
  shows "check_ap env ap domain acc is_user =
    Inr (if acc = 1 \<and> ap_perm env ap domain is_user AND PAGE_WRITE = 0 then 0 else ap_perm env ap domain is_user)"
proof -
  have "unat ap < 8" using assms by (simp add: word_less_nat_alt)
  then have "unat ap \<in> {0, 1, 2, 3, 4, 5, 6, 7}" by auto
  then have "ap \<in> {0, 1, 2, 3, 4, 5, 6, 7}" by (auto simp: word_unat_eq_iff)
  then show ?thesis by (auto simp: check_ap_def ap_perm_def page_defs Let_def)
qed

lemma ap_perm_cases: "ap_perm env ap domain is_user \<in> {0, PAGE_READ, PAGE_READ OR PAGE_WRITE}"
  by (simp add: ap_perm_def)

lemma word_less_expI:
  assumes "\<And>n. bit (x :: u32) n \<Longrightarrow> n < k"
  shows "unat x < 2 ^ k"
proof -
  have "take_bit k x = x" by (rule bit_word_eqI) (use assms in \<open>auto simp: bit_take_bit_iff\<close>)
  then show ?thesis using take_bit_nat_less_exp [of k "unat x"] by (metis unsigned_take_bit_eq)
qed

lemma and3_lt: "(w :: u32) AND 3 < 8" and ap6_lt: "((w :: u32) AND 3) OR (v AND 4) < 8"
proof -
  have c: "(3 :: u32) = mask 2" "(4 :: u32) = push_bit 2 1" by (simp_all add: mask_eq_exp_minus_1)
  have "n < 3" if "bit ((w AND 3) OR (v AND 4)) n \<or> bit (w AND 3) n" for n
    using that unfolding c by (auto simp only: bit_simps)
  then show "w AND 3 < 8" "(w AND 3) OR (v AND 4) < 8"
    using word_less_expI [of "w AND 3" 3] word_less_expI [of "(w AND 3) OR (v AND 4)" 3] by (auto simp: word_less_nat_alt)
qed

section \<open>One kilobyte at a time\<close>

text \<open>Two addresses in the same kilobyte, the unit of the TLB, and what the walk sees of an address.\<close>

definition same_page :: "u32 \<Rightarrow> u32 \<Rightarrow> bool" where
  "same_page a b \<longleftrightarrow> a AND NOT 0x3ff = b AND NOT 0x3ff"

definition move_page :: "u32 \<Rightarrow> u32 \<Rightarrow> u32" where
  "move_page phys b = (phys AND NOT 0x3ff) OR (b AND 0x3ff)"

lemma mask_10: "(0x3ff :: u32) = mask 10"
  by (simp add: mask_eq_exp_minus_1)

lemma same_page_bit:
  assumes "same_page a b" and "10 \<le> n"
  shows "bit a n = bit b n"
proof -
  have "bit (a AND NOT (mask 10)) n = bit (b AND NOT (mask 10)) n" using assms(1) unfolding same_page_def mask_10 by (rule arg_cong)
  then show ?thesis using assms(2) by (auto simp only: bit_simps possible_bit_word dest: bit_imp_le_length)
qed

lemma same_page_field:
  assumes "same_page a b" and "10 \<le> k + j"
  shows "drop_bit k a AND push_bit j m = drop_bit k b AND push_bit j m"
proof (rule bit_word_eqI)
  fix n :: nat assume "n < LENGTH(32)"
  show "bit (drop_bit k a AND push_bit j m) n = bit (drop_bit k b AND push_bit j m) n"
    using same_page_bit [OF assms(1), of "k + n"] assms(2) by (auto simp: bit_simps)
qed

lemma same_page_fields:
  assumes "same_page a b"
  shows "drop_bit 18 a AND 0x3ffc = drop_bit 18 b AND 0x3ffc" and "drop_bit 10 a AND 0x3fc = drop_bit 10 b AND 0x3fc"
    and "drop_bit 8 a AND 0xffc = drop_bit 8 b AND 0xffc" and "drop_bit 13 a AND 6 = drop_bit 13 b AND 6"
  using same_page_field [OF assms, of 18 0 "0x3ffc"] same_page_field [OF assms, of 10 0 "0x3fc"]
    same_page_field [OF assms, of 8 2 "0x3ff"] same_page_field [OF assms, of 13 0 6] by (simp_all add: push_bit_eq_mult)

lemma same_page_mask:
  assumes "same_page a b" and "m AND 0x3ff = 0"
  shows "a AND m = b AND m"
proof (rule bit_word_eqI)
  fix n :: nat assume n: "n < LENGTH(32)"
  have "bit (m AND mask 10) n = False" using assms(2) unfolding mask_10 by simp
  then have "n < 10 \<Longrightarrow> \<not> bit m n" using n by (auto simp only: bit_simps possible_bit_word)
  then show "bit (a AND m) n = bit (b AND m) n"
    using same_page_bit [OF assms(1), of n] by (cases "n < 10") (auto simp: bit_and_iff)
qed

lemma join_page:
  assumes "same_page a b" and "10 \<le> k"
  shows "(d AND NOT (mask k)) OR (b AND mask k) = move_page ((d AND NOT (mask k)) OR (a AND mask k)) b"
proof (rule bit_word_eqI)
  fix n :: nat assume "n < LENGTH(32)"
  then show "bit ((d AND NOT (mask k)) OR (b AND mask k)) n = bit (move_page ((d AND NOT (mask k)) OR (a AND mask k)) b) n"
    using same_page_bit [OF assms(1), of n] assms(2) unfolding move_page_def mask_10
    by (cases "n < 10") (auto simp only: bit_simps possible_bit_word)
qed

lemma page_masks:
  "(0xfffffc00 :: u32) = NOT (mask 10)" "(0xfffff000 :: u32) = NOT (mask 12)" "(0xfff :: u32) = mask 12"
  "(0xffff0000 :: u32) = NOT (mask 16)" "(0xffff :: u32) = mask 16" "(0xfff00000 :: u32) = NOT (mask 20)"
  "(0x000fffff :: u32) = mask 20" "(0xff000000 :: u32) = NOT (mask 24)" "(0x00ffffff :: u32) = mask 24"
  by (simp_all add: mask_eq_exp_minus_1)

lemma join_pages:
  assumes "same_page a b"
  shows "(d AND 0xfffffc00) OR (b AND 0x3ff) = move_page ((d AND 0xfffffc00) OR (a AND 0x3ff)) b"
    and "(d AND 0xfffff000) OR (b AND 0xfff) = move_page ((d AND 0xfffff000) OR (a AND 0xfff)) b"
    and "(d AND 0xffff0000) OR (b AND 0xffff) = move_page ((d AND 0xffff0000) OR (a AND 0xffff)) b"
    and "(d AND 0xfff00000) OR (b AND 0x000fffff) = move_page ((d AND 0xfff00000) OR (a AND 0x000fffff)) b"
    and "(d AND 0xff000000) OR (b AND 0x00ffffff) = move_page ((d AND 0xff000000) OR (a AND 0x00ffffff)) b"
  unfolding page_masks mask_10 by (rule join_page [OF assms], simp)+


definition moved :: "u32 \<Rightarrow> page_info \<Rightarrow> page_info" where
  "moved b p = p\<lparr>p_phys := move_page (p_phys p) b\<rparr>"

definition moved_walk :: "u32 \<Rightarrow> walk \<Rightarrow> walk" where
  "moved_walk b w = (case w of Mapped phys prot sz \<Rightarrow> Mapped (move_page phys b) prot sz | Walk_Fault c \<Rightarrow> Walk_Fault c)"

lemma level1_same_page:
  assumes "same_page a b" and "a_c2_mask env AND 0x3ff = 0"
  shows "get_level1_table_address env b = get_level1_table_address env a"
  unfolding get_level1_table_address_def same_page_mask [OF assms] same_page_fields(1) [OF assms(1)] by (rule refl)

lemma v5_page_same_page:
  assumes "same_page a b"
  shows "v5_page env b t d desc = map_sum id (moved b) (v5_page env a t d desc)"
  unfolding v5_page_def Let_def join_pages [OF assms] same_page_fields [OF assms]
  by (simp add: moved_def)

lemma v5_lookup_same_page:
  assumes "same_page a b" and "a_c2_mask env AND 0x3ff = 0"
  shows "v5_lookup ldl env b = map_sum id (moved b) (v5_lookup ldl env a)"
  unfolding v5_lookup_def Let_def level1_same_page [OF assms] join_pages [OF assms(1)] same_page_fields [OF assms(1)]
    v5_page_same_page [OF assms(1)]
  by (simp add: moved_def)

lemma v6_lookup_same_page:
  assumes "same_page a b" and "a_c2_mask env AND 0x3ff = 0"
  shows "v6_lookup ldl env b = map_sum id (moved b) (v6_lookup ldl env a)"
  unfolding v6_lookup_def v6_page_def Let_def level1_same_page [OF assms] join_pages [OF assms(1)] same_page_fields [OF assms(1)]
  by (simp add: moved_def)

lemma v6_check_moved: "v6_check env (moved b p) acc u = map_sum id (moved_walk b) (v6_check env p acc u)"
  by (cases "check_ap env (p_ap p) (p_domain p) acc u") (simp_all add: v6_check_def moved_def moved_walk_def)

lemma v6_same_page:
  assumes "same_page a b" and "a_c2_mask env AND 0x3ff = 0"
  shows "get_phys_addr_v6 ldl env b acc u = map_sum id (moved_walk b) (get_phys_addr_v6 ldl env a acc u)"
  unfolding get_phys_addr_v6_def v6_lookup_same_page [OF assms]
  by (cases "v6_lookup ldl env a") (simp_all add: v6_check_moved, simp add: moved_walk_def)

lemma v5_same_page:
  assumes "same_page a b" and "a_c2_mask env AND 0x3ff = 0"
  shows "get_phys_addr_v5 ldl env b acc u = map_sum id (moved_walk b) (get_phys_addr_v5 ldl env a acc u)"
proof (cases "v5_lookup ldl env a")
  case (Inr p)
  then show ?thesis unfolding get_phys_addr_v5_def v5_lookup_same_page [OF assms]
    by (cases "check_ap env (p_ap p) (p_domain p) acc u") (simp_all add: moved_def moved_walk_def)
qed (simp add: get_phys_addr_v5_def v5_lookup_same_page [OF assms] moved_walk_def)

text \<open>The fast context switch extension adds a multiple of the unit.\<close>

lemma page_offset_add:
  assumes "f AND 0x3ff = (0 :: u32)"
  shows "(a + f) AND 0x3ff = a AND 0x3ff" and "(a + f) AND NOT 0x3ff = (a AND NOT 0x3ff) + f"
proof -
  have "unat f mod 2 ^ 10 = 0" using assms unat_and_mask [of f 10] unfolding mask_10 by simp
  moreover have "unat (a + f) mod 2 ^ 10 = (unat a + unat f) mod 2 ^ 10" by (simp add: unat_word_ariths mod_mod_cancel)
  ultimately have "unat (a + f) mod 2 ^ 10 = unat a mod 2 ^ 10" by (metis add.right_neutral mod_add_right_eq)
  then show o: "(a + f) AND 0x3ff = a AND 0x3ff" unfolding mask_10 word_unat_eq_iff unat_and_mask .
  have s: "w AND NOT 0x3ff = w - (w AND 0x3ff)" for w :: u32
    unfolding eq_diff_eq mask_10 by (rule split_page)
  show "(a + f) AND NOT 0x3ff = (a AND NOT 0x3ff) + f" unfolding s o by (simp only: diff_conv_add_uminus ac_simps)
qed


lemma same_page_shift:
  assumes "same_page a b" and "f AND 0x3ff = 0"
  shows "same_page (a + f) (b + f)" and "move_page p (b + f) = move_page p b"
  using assms by (simp_all only: same_page_def move_page_def page_offset_add)

lemma same_page_move: "same_page a b \<Longrightarrow> move_page a b = b"
  unfolding same_page_def move_page_def mask_10 by (auto simp: bit_eq_iff bit_simps)

lemma same_page_below: "same_page a b \<Longrightarrow> a < 0x02000000 \<longleftrightarrow> b < 0x02000000"
proof -
  assume s: "same_page a b"
  have "w < 0x02000000 \<longleftrightarrow> drop_bit 25 w = 0" for w :: u32
  proof -
    have "unat w < 0x02000000 \<longleftrightarrow> unat w div 2 ^ 25 = 0" by (simp add: div_eq_0_iff)
    then show ?thesis using unat_drop_bit [of 25 w] by (simp add: word_less_nat_alt word_unat_eq_iff)
  qed
  then show ?thesis using same_page_field [OF s, of 25 0 "- 1"] by simp
qed

definition mmu_ok :: "CPUARMState \<Rightarrow> bool" where
  "mmu_ok env \<longleftrightarrow> a_c13_fcse env AND 0x3ff = 0 \<and> a_c2_mask env AND 0x3ff = 0 \<and> \<not> arm_feature env ARM_FEATURE_MPU"

lemma get_phys_addr_same_page:
  assumes "mmu_ok env" and "same_page a b"
  shows "get_phys_addr ldl env b acc u = map_sum id (moved_walk b) (get_phys_addr ldl env a acc u)"
proof -
  define t where "t w = (if w < 0x02000000 then w + a_c13_fcse env else w)" for w :: u32
  have f: "a_c13_fcse env AND 0x3ff = 0" "a_c2_mask env AND 0x3ff = 0" "\<not> arm_feature env ARM_FEATURE_MPU"
    using assms(1) by (auto simp: mmu_ok_def)
  have s: "same_page (t a) (t b)" "\<And>p. move_page p (t b) = move_page p b"
    using same_page_shift [OF assms(2) f(1)] assms(2) same_page_below [OF assms(2)] by (auto simp: t_def)
  have m: "moved_walk (t b) = moved_walk b" using s(2) by (auto simp: moved_walk_def fun_eq_iff split: walk.split)
  have "t b = move_page (t a) b"
    using same_page_move [OF s(1)] s(2) by simp
  then show ?thesis
    using v5_same_page [OF s(1) f(2)] v6_same_page [OF s(1) f(2)] f(3) m
    by (simp add: get_phys_addr_def Let_def moved_walk_def flip: t_def)
qed

text \<open>A permission that a walk reports holds for every access it covers.\<close>

definition allows :: "u32 \<Rightarrow> nat \<Rightarrow> bool" where
  "allows prot acc \<longleftrightarrow> prot AND (if acc = 0 then PAGE_READ else if acc = 1 then PAGE_WRITE else PAGE_EXEC) \<noteq> 0"

lemma allows_simps: "allows PAGE_READ acc \<longleftrightarrow> acc = 0" "allows (PAGE_READ OR PAGE_WRITE) acc \<longleftrightarrow> acc = 0 \<or> acc = 1"
  "allows (PAGE_READ OR PAGE_EXEC) acc \<longleftrightarrow> acc \<noteq> 1" "allows (PAGE_READ OR PAGE_WRITE OR PAGE_EXEC) acc"
  "allows ((PAGE_READ OR PAGE_WRITE) OR PAGE_EXEC) acc"
  by (simp_all add: allows_def page_defs)

lemma perm_access:
  assumes "perm \<in> {0, PAGE_READ, PAGE_READ OR PAGE_WRITE}" and "acc < 3" and "prot \<noteq> 0"
    and "prot = (if acc = 1 \<and> perm AND PAGE_WRITE = 0 then 0 else perm)"
  shows "prot = perm" and "allows (prot OR PAGE_EXEC) acc" and "acc \<noteq> 2 \<Longrightarrow> allows prot acc"
    and "allows (prot OR PAGE_EXEC) acc' \<Longrightarrow> \<not> (acc' = 1 \<and> perm AND PAGE_WRITE = 0)"
    and "allows prot acc' \<Longrightarrow> \<not> (acc' = 1 \<and> perm AND PAGE_WRITE = 0) \<and> acc' < 2"
  using assms by (auto simp: allows_simps page_defs) (auto simp: allows_def page_defs split: if_splits)

lemma lookup_ap: "v5_lookup ldl env a = Inr p \<Longrightarrow> p_ap p < 8" "v6_lookup ldl env a = Inr p \<Longrightarrow> p_ap p < 8"
  by (auto simp: v5_lookup_def v5_page_def v6_lookup_def v6_page_def Let_def and3_lt ap6_lt split: if_splits)

lemma v5_access:
  assumes "get_phys_addr_v5 ldl env a acc u = Inr (Mapped phys prot sz)" and "acc < 3"
  shows "allows prot acc" and "allows prot acc' \<Longrightarrow> get_phys_addr_v5 ldl env a acc' u = Inr (Mapped phys prot sz)"
proof -
  obtain p where p: "v5_lookup ldl env a = Inr p"
    using assms(1) by (auto simp: get_phys_addr_v5_def split: sum.splits)
  define perm where "perm = ap_perm env (p_ap p) (p_domain p) u"
  define pr where "pr = (if acc = 1 \<and> perm AND PAGE_WRITE = 0 then 0 else perm)"
  have c: "check_ap env (p_ap p) (p_domain p) k u = Inr (if k = 1 \<and> perm AND PAGE_WRITE = 0 then 0 else perm)" for k
    unfolding perm_def by (rule check_ap_perm [OF lookup_ap(1) [OF p]])
  have m: "pr \<noteq> 0" "prot = pr OR PAGE_EXEC" "phys = p_phys p" "sz = p_size p"
    using assms(1) p c [of acc] by (auto simp: get_phys_addr_v5_def pr_def split: if_splits)
  note acc = perm_access [OF ap_perm_cases [of env "p_ap p" "p_domain p" u, folded perm_def] assms(2) m(1) pr_def]
  show "allows prot acc" using acc(2) m(2) by simp
  show "get_phys_addr_v5 ldl env a acc' u = Inr (Mapped phys prot sz)" if "allows prot acc'"
    using p c [of acc'] acc(1) acc(4) [of acc'] that m by (auto simp: get_phys_addr_v5_def)
qed

lemma v6_access:
  assumes "get_phys_addr_v6 ldl env a acc u = Inr (Mapped phys prot sz)" and "acc < 3"
  shows "allows prot acc"
    and "acc' < 3 \<Longrightarrow> allows prot acc' \<Longrightarrow> get_phys_addr_v6 ldl env a acc' u = Inr (Mapped phys prot sz)"
proof -
  obtain p where p: "v6_lookup ldl env a = Inr p" "v6_check env p acc u = Inr (Mapped phys prot sz)"
    using assms(1) by (auto simp: get_phys_addr_v6_def split: sum.splits)
  define perm where "perm = ap_perm env (p_ap p) (p_domain p) u"
  define pr where "pr = (if acc = 1 \<and> perm AND PAGE_WRITE = 0 then 0 else perm)"
  have c: "check_ap env (p_ap p) (p_domain p) k u = Inr (if k = 1 \<and> perm AND PAGE_WRITE = 0 then 0 else perm)" for k
    unfolding perm_def by (rule check_ap_perm [OF lookup_ap(2) [OF p(1)]])
  have "allows prot acc \<and> (acc' < 3 \<longrightarrow> allows prot acc' \<longrightarrow> v6_check env p acc' u = Inr (Mapped phys prot sz))" for acc'
  proof (cases "p_domain p = 3")
    case True
    then show ?thesis using p(2) by (auto simp: v6_check_def allows_simps)
  next
    case False
    have m: "pr \<noteq> 0" "prot = (if p_xn p then pr else pr OR PAGE_EXEC)" "phys = p_phys p" "sz = p_size p"
      "\<not> (p_xn p \<and> acc = 2)" "\<not> (bit (a_c1_sys env) 29 \<and> p_ap p AND 1 = 0)"
      using p(2) False c [of acc] by (auto simp: v6_check_def pr_def split: if_splits)
    note acc = perm_access [OF ap_perm_cases [of env "p_ap p" "p_domain p" u, folded perm_def] assms(2) m(1) pr_def]
    show ?thesis
      using False c [of acc'] acc(1-3) acc(4,5) [of acc'] m by (cases "p_xn p") (auto simp: v6_check_def)
  qed
  then show "allows prot acc" "acc' < 3 \<Longrightarrow> allows prot acc' \<Longrightarrow> get_phys_addr_v6 ldl env a acc' u = Inr (Mapped phys prot sz)"
    using p(1) by (auto simp: get_phys_addr_v6_def)
qed

lemma get_phys_addr_access:
  assumes "\<not> arm_feature env ARM_FEATURE_MPU" and "get_phys_addr ldl env a acc u = Inr (Mapped phys prot sz)" and "acc < 3"
  shows "allows prot acc" and "acc' < 3 \<Longrightarrow> allows prot acc' \<Longrightarrow> get_phys_addr ldl env a acc' u = Inr (Mapped phys prot sz)"
proof -
  define t where "t = (if a < 0x02000000 then a + a_c13_fcse env else a)"
  have "allows prot acc \<and> (acc' < 3 \<longrightarrow> allows prot acc' \<longrightarrow> get_phys_addr ldl env a acc' u = Inr (Mapped phys prot sz))"
  proof (cases "bit (a_c1_sys env) 0")
    case on: True
    have g: "get_phys_addr ldl env a k u =
        (if bit (a_c1_sys env) 23 then get_phys_addr_v6 ldl env t k u else get_phys_addr_v5 ldl env t k u)" for k
      using on assms(1) by (simp add: get_phys_addr_def Let_def t_def)
    show ?thesis
      using assms(2) v5_access [of ldl env t acc u phys prot sz, OF _ assms(3)] v6_access [of ldl env t acc u phys prot sz, OF _ assms(3)]
      unfolding g by (cases "bit (a_c1_sys env) 23") simp_all
  next
    case False
    then show ?thesis using assms(2) by (auto simp: get_phys_addr_def Let_def allows_simps)
  qed
  then show "allows prot acc" "acc' < 3 \<Longrightarrow> allows prot acc' \<Longrightarrow> get_phys_addr ldl env a acc' u = Inr (Mapped phys prot sz)"
    by simp_all
qed

section \<open>Copying through the page tables\<close>

text \<open>The translation that \<open>cpu_memory_rw_debug\<close> makes for an ARM guest, with the tables in the memory itself. It is used for reads, which
  leave the tables as they are.\<close>

definition arm_mmu :: "phys_mem \<Rightarrow> CPUARMState \<Rightarrow> guest_mmu" where
  "arm_mmu mem env = \<lparr>page_bits = 10, phys_page = (\<lambda>page. cpu_get_phys_page_debug (ldl_phys mem) env (ucast page))\<rparr>"


lemma page_start:
  "same_page a (subpage a)" "same_page (subpage a) a" "move_page p (subpage a) = subpage p"
  "same_page a b \<longleftrightarrow> same_page (subpage a) b" "move_page (subpage p) b = (subpage p) OR (b AND 0x3ff)" "move_page p b = subpage p OR (b AND 0x3ff)"
  unfolding same_page_def move_page_def subpage_def mask_10 by (auto simp: bit_eq_iff bit_simps)

lemma move_page_twice: "move_page (move_page p a) b = move_page p b"
  unfolding move_page_def mask_10 by (rule bit_word_eqI) (auto simp: bit_simps)

lemma page_start_ucast: "ucast ((addr :: u64) AND NOT (mask 10)) = subpage (ucast addr)"
  unfolding subpage_def mask_10 by (rule bit_word_eqI) (auto simp: bit_simps)

lemma ucast_move_page: "ucast (subpage p) + (addr AND mask 10) = (ucast (move_page p (ucast addr)) :: u64)"
proof -
  have "ucast (p AND NOT (mask 10)) + (addr AND mask 10) = (ucast (p AND NOT (mask 10)) OR (addr AND mask 10) :: u64)"
    by (rule disjunctive_add) (auto simp: bit_simps)
  also have "\<dots> = ucast (move_page p (ucast addr))"
    unfolding move_page_def mask_10 by (rule bit_word_eqI) (auto simp: bit_simps)
  finally show ?thesis unfolding subpage_def mask_10 .
qed

lemma arm_translate:
  assumes "mmu_ok env"
  shows "translate (arm_mmu mem env) addr = cpu_get_phys_page_debug (ldl_phys mem) env (ucast addr)"
proof -
  let ?a = "ucast addr :: u32"
  have g: "get_phys_addr (ldl_phys mem) env (subpage ?a) 0 False =
      map_sum id (moved_walk (subpage ?a)) (get_phys_addr (ldl_phys mem) env ?a 0 False)"
    by (rule get_phys_addr_same_page [OF assms page_start(1)])
  show ?thesis
  proof (cases "get_phys_addr (ldl_phys mem) env ?a 0 False")
    case (Inr w)
    have "moved_walk ?a w = w"
      using get_phys_addr_same_page [OF assms, of ?a ?a "ldl_phys mem" 0 False] Inr by (simp add: same_page_def)
    then show ?thesis
      using g Inr by (cases w)
        (auto simp: translate_def arm_mmu_def cpu_get_phys_page_debug_def page_start_ucast moved_walk_def page_start(3) ucast_move_page)
  qed (use g in \<open>simp add: translate_def arm_mmu_def cpu_get_phys_page_debug_def page_start_ucast\<close>)
qed

text \<open>Entering an exception from any valid mode.\<close>

lemma enter_exception_any:
  assumes "bank_number (a_uncached_cpsr env AND CPSR_M) = Inr i" and "bank_number nm = Inr j"
    and "nm AND CPSR_M = nm" and "m AND CPSR_M = 0"
  shows "\<exists>e. enter_exception (nm, addr, m, off) env = Inr e \<and> a_spsr e = cpsr_read env \<and> a_uncached_cpsr e AND CPSR_M = nm \<and>
    a_regs e 14 = a_regs env 15 + off \<and> a_regs e 15 = addr + vector_base nm env \<and>
    a_c5_insn e = a_c5_insn env \<and> a_c6_insn e = a_c6_insn env \<and> a_c5_data e = a_c5_data env \<and> a_c6_data e = a_c6_data env"
proof -
  have "\<exists>e1. switch_mode nm env = Inr e1 \<and> a_regs e1 15 = a_regs env 15 \<and>
      a_c5_insn e1 = a_c5_insn env \<and> a_c6_insn e1 = a_c6_insn env \<and> a_c5_data e1 = a_c5_data env \<and> a_c6_data e1 = a_c6_data env"
    using assms(1,2) by (simp add: switch_mode_def Let_def load_bank_def save_bank_def swap_fiq_def blit_def)
  then obtain e1 where sw: "switch_mode nm env = Inr e1" "a_regs e1 15 = a_regs env 15" "a_c5_insn e1 = a_c5_insn env"
    "a_c6_insn e1 = a_c6_insn env" "a_c5_data e1 = a_c5_data env" "a_c6_data e1 = a_c6_data env" by blast
  note fl = switch_mode_keeps [OF sw(1)]
  have cp: "cpsr_read e1 = cpsr_read env" using fl by (simp add: cpsr_read_def flags_of_def)
  have u: "(((a_uncached_cpsr env AND NOT CPSR_M) OR nm) OR m) AND CPSR_M = nm"
    using assms(3,4) by (auto simp: bit_eq_iff bit_simps)
  show ?thesis using sw fl cp u by (auto simp: enter_exception_def Let_def)
qed

lemma check_ap_total: "ap < 8 \<Longrightarrow> \<exists>p. check_ap env ap d acc u = Inr p"
  using check_ap_perm by blast

lemma get_phys_addr_total: "\<exists>w. get_phys_addr ldl env a acc u = Inr w"
proof -
  have "\<exists>w. get_phys_addr_v5 ldl env t acc u = Inr w" for t
  proof (cases "v5_lookup ldl env t")
    case (Inr p)
    then show ?thesis using check_ap_total [OF lookup_ap(1) [OF Inr], of env "p_domain p" acc u] by (auto simp: get_phys_addr_v5_def)
  qed (simp add: get_phys_addr_v5_def)
  moreover have "\<exists>w. get_phys_addr_v6 ldl env t acc u = Inr w" for t
  proof (cases "v6_lookup ldl env t")
    case (Inr p)
    then show ?thesis using check_ap_total [OF lookup_ap(2) [OF Inr], of env "p_domain p" acc u]
      by (auto simp: get_phys_addr_v6_def v6_check_def)
  qed (simp add: get_phys_addr_v6_def)
  ultimately show ?thesis by (simp add: get_phys_addr_def Let_def)
qed

lemma arm_range_mapped:
  assumes "mmu_ok env" and "\<forall>k<n. \<exists>pr sz. get_phys_addr (ldl_phys mem) env (a + of_nat k) 0 False = Inr (Mapped (pa k) pr sz)" and "k < n"
  shows "translate (arm_mmu mem env) (ucast a + of_nat k) = Some (ucast (pa k))"
proof -
  have "ucast (ucast a + of_nat k :: u64) = (a + of_nat k :: u32)"
    by (simp add: word_unat_eq_iff unat_word_ariths unsigned_ucast_eq unat_of_nat take_bit_eq_mod mod_mod_cancel mod_simps)
  then show ?thesis using assms(2,3) by (auto simp: arm_translate [OF assms(1)] cpu_get_phys_page_debug_def)
qed

section \<open>Properties\<close>

text \<open>A user process with one section mapped, in the format of ARMv6.\<close>

definition ldl0 :: "u32 \<Rightarrow> u32" where
  "ldl0 a = (if a = 0x4004 then 0x20000c02 else 0)"

definition table_mem :: phys_mem where
  "table_mem p = (if p = 0x4004 then 2 else if p = 0x4005 then 0x0c else if p = 0x4007 then 0x20 else if p = 0x20000404 then 4 else 0)"

definition mmu0 :: CPUARMState where
  "mmu0 = cpu0\<lparr>a_c1_sys := 0x800001, a_c2_base0 := 0x4000, a_c3 := 1\<rparr>"

lemmas walk_defs = get_phys_addr_def get_phys_addr_v6_def v6_lookup_def v6_check_def get_level1_table_address_def check_ap_def

lemma mmu0_simps:
  "a_c1_sys mmu0 = 0x800001" "a_c2_base0 mmu0 = 0x4000" "a_c2_base_mask mmu0 = 0xffffc000" "a_c2_mask mmu0 = 0" "a_c3 mmu0 = 1"
  "a_c13_fcse mmu0 = 0" "\<not> arm_feature mmu0 f"
  by (simp_all add: mmu0_def cpu0_def arm_feature_def)

lemma mmu0_ok: "mmu_ok mmu0"
  by (simp add: mmu_ok_def mmu0_simps)

lemma mmu0_walk: "get_phys_addr ldl0 mmu0 0x100404 acc u = Inr (Mapped 0x20000404 7 0x100000)"
  by (simp add: walk_defs mmu0_simps ldl0_def page_defs Let_def drop_bit_eq_div)

lemma mmu0_fault: "get_phys_addr ldl0 mmu0 0x200000 acc u = Inr (Walk_Fault 5)"
  by (simp add: walk_defs mmu0_simps ldl0_def Let_def do_fault_def drop_bit_eq_div)

lemma tlb_entry_sound:
  assumes "mmu_ok env" and "acc < 3" and "cpu_arm_handle_mmu_fault ldl env a acc idx = Inr (0, env', Some (Tlb_Entry va pa prot i sz))"
  shows "va = subpage a \<and> env' = env \<and> i = idx \<and> allows prot acc \<and>
    (\<forall>b acc'. same_page a b \<longrightarrow> acc' < 2 \<longrightarrow> allows prot acc' \<longrightarrow>
      (\<exists>pr. get_phys_addr ldl env b acc' (idx = MMU_USER_IDX) = Inr (Mapped (pa OR (b AND 0x3ff)) pr sz)))"
proof -
  let ?u = "idx = MMU_USER_IDX"
  obtain phys pr where w: "get_phys_addr ldl env a acc ?u = Inr (Mapped phys pr sz)"
    and e: "va = subpage a" "pa = subpage phys" "prot = pr OR PAGE_EXEC" "env' = env" "i = idx"
    using assms(3) by (cases "get_phys_addr ldl env a acc ?u") (auto simp: cpu_arm_handle_mmu_fault_def split: walk.splits if_splits)
  have mpu: "\<not> arm_feature env ARM_FEATURE_MPU" using assms(1) by (simp add: mmu_ok_def)
  note acc = get_phys_addr_access [OF mpu w assms(2)]
  have exec: "allows prot k \<longleftrightarrow> allows pr k \<or> 2 \<le> k" for k
    unfolding e(3) allows_def bit.conj_disj_distrib2 by (simp add: page_defs or_eq_0_iff)
  have "\<exists>pr. get_phys_addr ldl env b acc' ?u = Inr (Mapped (pa OR (b AND 0x3ff)) pr sz)"
    if "same_page a b" "acc' < 2" "allows prot acc'" for b acc'
    using get_phys_addr_same_page [OF assms(1) that(1), of ldl acc' ?u] acc(2) [of acc'] that(2,3) exec [of acc']
    by (simp add: moved_walk_def e(2) page_start(6))
  then show ?thesis using e acc(1) exec by blast
qed

text \<open>C3: The TLB is filled soundly. The entry that a successful access to an address adds covers the kilobyte of the address and allows
  the access; and for every other address in this kilobyte and every load or store the entry allows, a walk of the page tables
  succeeds and gives the physical address that the entry gives. (Execution is the exception: the code adds it to every entry.)\<close>

theorem tlb_fill_sound:
  assumes "mmu_ok env" and "acc < 3" and "cpu_arm_handle_mmu_fault ldl env a acc idx = Inr (0, env', Some (Tlb_Entry va pa prot i sz))"
  shows "va = subpage a \<and> env' = env \<and> i = idx \<and> allows prot acc \<and>
    (\<forall>b acc'. same_page a b \<longrightarrow> acc' < 2 \<longrightarrow> allows prot acc' \<longrightarrow>
      (\<exists>pr. get_phys_addr ldl env b acc' (idx = MMU_USER_IDX) = Inr (Mapped (pa OR (b AND 0x3ff)) pr sz)))"
  by (rule tlb_entry_sound [OF assms])

theorem tlb_fill_sound_witness:
  "cpu_arm_handle_mmu_fault ldl0 mmu0 0x100404 0 1 = Inr (0, mmu0, Some (Tlb_Entry 0x100400 0x20000400 7 1 0x100000)) \<and>
   (\<exists>pr. get_phys_addr ldl0 mmu0 0x1007fc 1 True = Inr (Mapped 0x200007fc pr 0x100000))"
proof -
  have h: "cpu_arm_handle_mmu_fault ldl0 mmu0 0x100404 0 1 = Inr (0, mmu0, Some (Tlb_Entry 0x100400 0x20000400 7 1 0x100000))"
    by (simp add: cpu_arm_handle_mmu_fault_def mmu0_walk subpage_def page_defs)
  have "same_page 0x100404 0x1007fc" "allows 7 1" by (simp_all add: same_page_def allows_def page_defs)
  then have "\<exists>pr. get_phys_addr ldl0 mmu0 0x1007fc 1 (1 = MMU_USER_IDX) = Inr (Mapped (0x20000400 OR (0x1007fc AND 0x3ff)) pr 0x100000)"
    using tlb_fill_sound [OF mmu0_ok _ h, THEN conjunct2, THEN conjunct2, THEN conjunct2, THEN conjunct2, rule_format, of "0x1007fc" 1]
    by simp
  then show ?thesis using h by (simp add: MMU_USER_IDX_def)
qed

text \<open>C24: Faults are reported. A walk always ends with a translation or a fault code; after a fault the status and address registers of the
  data or the instruction side hold the code and the faulting address, and the exception enters the abort mode at the vector of its
  kind with the return address and the status register of the faulting program.\<close>

theorem mmu_fault_reported:
  assumes "acc < 3" and "\<forall>p pr sz. get_phys_addr ldl env a acc (idx = MMU_USER_IDX) \<noteq> Inr (Mapped p pr sz)"
    and "\<not> arm_feature env ARM_FEATURE_M" and "\<not> semihosting_enabled h" and "bank_number (a_uncached_cpsr env AND CPSR_M) = Inr i"
  shows "\<exists>ret env1 env2. get_phys_addr ldl env a acc (idx = MMU_USER_IDX) = Inr (Walk_Fault ret) \<and>
    cpu_arm_handle_mmu_fault ldl env a acc idx = Inr (1, env1, None) \<and> do_interrupt h env1 = Inr env2 \<and>
    a_uncached_cpsr env2 AND CPSR_M = ARM_CPU_MODE_ABT \<and> a_spsr env2 = cpsr_read env \<and>
    a_regs env2 15 = (if acc = 2 then 0x0c else 0x10) + vector_base ARM_CPU_MODE_ABT env \<and>
    a_regs env2 14 = a_regs env 15 + (if acc = 2 then 4 else 8) \<and>
    (if acc = 2 then a_c5_insn env2 = ret \<and> a_c6_insn env2 = a
     else a_c5_data env2 = (if acc = 1 \<and> arm_feature env ARM_FEATURE_V6 then ret OR 0x800 else ret) \<and> a_c6_data env2 = a)"
proof -
  obtain ret where ret: "get_phys_addr ldl env a acc (idx = MMU_USER_IDX) = Inr (Walk_Fault ret)"
    using get_phys_addr_total [of ldl env a acc "idx = MMU_USER_IDX"] assms(2) by (metis walk.exhaust)
  have "\<exists>env1. cpu_arm_handle_mmu_fault ldl env a acc idx = Inr (1, env1, None)"
    unfolding cpu_arm_handle_mmu_fault_def ret by simp
  then obtain env1 where env1: "cpu_arm_handle_mmu_fault ldl env a acc idx = Inr (1, env1, None)" ..
  then have f: "a_exception_index env1 = (if acc = 2 then EXCP_PREFETCH_ABORT else EXCP_DATA_ABORT)"
    "a_uncached_cpsr env1 = a_uncached_cpsr env" "cpsr_read env1 = cpsr_read env" "a_regs env1 = a_regs env"
    "vector_base ARM_CPU_MODE_ABT env1 = vector_base ARM_CPU_MODE_ABT env" "a_features env1 = a_features env"
    "if acc = 2 then a_c5_insn env1 = ret \<and> a_c6_insn env1 = a
     else a_c5_data env1 = (if acc = 1 \<and> arm_feature env ARM_FEATURE_V6 then ret OR 0x800 else ret) \<and> a_c6_data env1 = a"
    by (auto simp: cpu_arm_handle_mmu_fault_def ret cpsr_read_def vector_base_def arm_feature_def split: if_splits)
  have d: "do_interrupt h env1 =
      enter_exception (ARM_CPU_MODE_ABT, if acc = 2 then 0x0c else 0x10, CPSR_A OR CPSR_I, if acc = 2 then 4 else 8) env1"
    using assms(3,4) f(1,6) by (simp add: do_interrupt_def arm_feature_def exception_entry_def swi_semihosted_def excp_defs)
  have b: "bank_number (a_uncached_cpsr env1 AND CPSR_M) = Inr i" "bank_number ARM_CPU_MODE_ABT = Inr 2"
    "ARM_CPU_MODE_ABT AND CPSR_M = ARM_CPU_MODE_ABT" "(CPSR_A OR CPSR_I) AND CPSR_M = 0"
    using assms(5) f(2) by (simp_all add: bank_number_def mode_defs cpsr_defs)
  show ?thesis
    using ret env1 f enter_exception_any [OF b, of "if acc = 2 then 0x0c else 0x10" "if acc = 2 then 4 else 8"] unfolding d [symmetric]
    by fastforce
qed

theorem mmu_fault_reported_witness:
  "\<exists>ret env1 env2. cpu_arm_handle_mmu_fault ldl0 mmu0 0x200000 1 1 = Inr (1, env1, None) \<and> do_interrupt host0 env1 = Inr env2 \<and>
    get_phys_addr ldl0 mmu0 0x200000 1 True = Inr (Walk_Fault ret) \<and>
    a_uncached_cpsr env2 AND CPSR_M = ARM_CPU_MODE_ABT \<and> a_regs env2 15 = 0x10 \<and> a_c5_data env2 = ret \<and> a_c6_data env2 = 0x200000"
proof -
  have b: "bank_number (a_uncached_cpsr mmu0 AND CPSR_M) = Inr 0" "\<not> semihosting_enabled host0" "vector_base ARM_CPU_MODE_ABT mmu0 = 0"
    by (simp_all add: bank_number_def mode_defs mmu0_def cpu0_def CPSR_M_def host0_def vector_base_def arm_feature_def)
  have "\<forall>p pr sz. get_phys_addr ldl0 mmu0 0x200000 1 (1 = MMU_USER_IDX) \<noteq> Inr (Mapped p pr sz)" unfolding mmu0_fault by simp
  then show ?thesis
    using mmu_fault_reported [of 1 ldl0 mmu0 "0x200000" 1 host0 0] b by (simp add: mmu0_simps MMU_USER_IDX_def) blast
qed

text \<open>Reading through the page tables. On a processor with page tables, not a protection unit, whose FCSE offset and table base mask are aligned to the
  pages, let the walk for a kernel load succeed at every address of a range, with the tables in the memory that is read. The page-by-page copy of
  \<open>cpu_memory_rw_debug\<close> then succeeds and reads for each address the byte at the physical address that the walk for this very address gives; the
  range may cross pages of any size and wrap around the end of the address space. All the memory is RAM.\<close>

theorem debug_read_walks:
  assumes "mmu_ok env" and "\<forall>k<n. \<exists>pr sz. get_phys_addr (ldl_phys mem) env (a + of_nat k) 0 False = Inr (Mapped (pa k) pr sz)"
  shows "memory_read (arm_mmu mem env) mem (ucast a) n = (0, map (\<lambda>k. mem (ucast (pa k))) [0..<n])"
proof -
  let ?u = "arm_mmu mem env"
  have t: "translate ?u (ucast a + of_nat k) = Some (ucast (pa k))" if "k < n" for k by (rule arm_range_mapped [OF assms that])
  have m: "mapped ?u (ucast a) n" and p: "page_bits ?u < 64"
    by (auto simp: mapped_def addr_range_def list_all_iff t) (simp add: arm_mmu_def)
  have "read_bytes ?u mem (ucast a) n = map (\<lambda>k. mem (ucast (pa k))) [0..<n]"
    by (simp add: read_bytes_def addr_range_def xlate_def t)
  then show ?thesis using memory_read_mapped [OF m p] by simp
qed

theorem debug_read_walks_witness:
  "memory_read (arm_mmu table_mem mmu0) table_mem (ucast (0x100404 :: u32)) 1 = (0, [4])"
proof -
  have "\<forall>k<1. \<exists>pr sz. get_phys_addr (ldl_phys table_mem) mmu0 (0x100404 + of_nat k) 0 False = Inr (Mapped ((\<lambda>_. 0x20000404) k) pr sz)"
    by (simp add: walk_defs mmu0_simps ldl_phys_def table_mem_def le32_join_def page_defs Let_def)
  then show ?thesis using debug_read_walks [OF mmu0_ok, of 1 table_mem "0x100404" "\<lambda>_. 0x20000404"] by (simp add: table_mem_def)
qed


text \<open>
  The code adds the permission to execute to every entry of the TLB: after a load from a section that must not be executed, the entry
  allows instruction fetches that the page tables forbid.
\<close>

theorem tlb_exec_ignores_xn:
  "\<exists>ldl entry. cpu_arm_handle_mmu_fault ldl mmu0 0x100404 0 1 = Inr (0, mmu0, Some (Tlb_Entry 0x100400 0x20000400 entry 1 0x100000)) \<and>
     allows entry 2 \<and> get_phys_addr ldl mmu0 0x100404 2 True = Inr (Walk_Fault 0x1d)"
proof -
  let ?ldl = "\<lambda>a :: u32. if a = 0x4004 then 0x20000c12 else (0 :: u32)"
  have "get_phys_addr ?ldl mmu0 0x100404 0 True = Inr (Mapped 0x20000404 3 0x100000)"
    "get_phys_addr ?ldl mmu0 0x100404 2 True = Inr (Walk_Fault 0x1d)"
    by (simp_all add: walk_defs mmu0_simps page_defs Let_def drop_bit_eq_div do_fault_def push_bit_eq_mult)
  then show ?thesis
    by (intro exI [of _ ?ldl] exI [of _ "7"]) (simp add: cpu_arm_handle_mmu_fault_def subpage_def allows_def page_defs MMU_USER_IDX_def)
qed

text \<open>
  The permissions of the four kilobytes of a 4 KiB page of ARMv5 are taken by the bits 14 and 15 of the address, as for the quarters of
  a 64 KiB page, and not by its bits 10 and 11: a page that gives user mode access to its second kilobyte only gives access to none.
\<close>

theorem small_page_wrong_quarter:
  "\<exists>ldl. ldl 0x4004 = 0x5001 \<and> ldl 0x5000 = 0x300000c2 \<and>
     get_phys_addr ldl (mmu0\<lparr>a_c1_sys := 1\<rparr>) 0x100400 0 True = Inr (Walk_Fault 0x1f)"
  by (intro exI [of _ "\<lambda>a. if a = 0x4004 then 0x5001 else if a = 0x5000 then 0x300000c2 else 0"])
    (simp add: get_phys_addr_def get_phys_addr_v5_def v5_lookup_def v5_page_def get_level1_table_address_def check_ap_def mmu0_def cpu0_def
      arm_feature_def Let_def drop_bit_eq_div do_fault_def push_bit_eq_mult page_defs)

end
