(* ===== verification/Soft_Tlb.thy ===== *)
theory Soft_Tlb
  imports Arm_Mmu
begin

text \<open>
  The software TLB of the emulator, \<open>cputlb.c\<close>, for an ARM guest.
  An entry has one tag per kind of access, the page of the virtual address with flags in the low bits, and the difference between host and
  guest addresses. The memory map of the machine is a function from the physical page number to its descriptor (the radix
  tree of \<open>translate-all.c\<close>), and the RAM blocks are a list of offset, length and host address. The cache of translated code that a flush also
  clears is not part of the model.
\<close>

section \<open>State\<close>

record CPUTLBEntry =
  addr_read :: u32
  addr_write :: u32
  addr_code :: u32
  te_addend :: u64

record tlb =
  tlb_table :: "nat \<Rightarrow> nat \<Rightarrow> CPUTLBEntry"
  t_iotlb :: "nat \<Rightarrow> nat \<Rightarrow> u64"
  tlb_flush_addr :: u32
  tlb_flush_mask :: u32

record phys_map =
  pm_page :: "u64 \<Rightarrow> (u64 \<times> u64) option"
  pm_blocks :: "(u64 \<times> u64 \<times> u64) list"
  pm_clean :: "u64 \<Rightarrow> bool"
  pm_watchpoints :: "u32 list"
  pm_io_mem_watch :: u64

definition CPU_TLB_SIZE :: nat where "CPU_TLB_SIZE = 256"
definition NB_MMU_MODES :: nat where "NB_MMU_MODES = 2"
definition TLB_INVALID_MASK :: u32 where "TLB_INVALID_MASK = 8"
definition TLB_NOTDIRTY :: u32 where "TLB_NOTDIRTY = 16"
definition TLB_MMIO :: u32 where "TLB_MMIO = 32"
definition IO_MEM_RAM :: u64 where "IO_MEM_RAM = 0"
definition IO_MEM_ROM :: u64 where "IO_MEM_ROM = 8"
definition IO_MEM_UNASSIGNED :: u64 where "IO_MEM_UNASSIGNED = 16"
definition IO_MEM_NOTDIRTY :: u64 where "IO_MEM_NOTDIRTY = 24"
definition IO_MEM_ROMD :: u64 where "IO_MEM_ROMD = 1"

definition tlb_index :: "u32 \<Rightarrow> nat" where
  "tlb_index addr = unat (drop_bit 10 addr AND 0xff)"

definition s_cputlb_empty_entry :: CPUTLBEntry where
  "s_cputlb_empty_entry = \<lparr>addr_read = - 1, addr_write = - 1, addr_code = - 1, te_addend = - 1\<rparr>"

section \<open>Flushing\<close>

definition tlb_flush :: "tlb \<Rightarrow> tlb" where
  "tlb_flush t = t\<lparr>tlb_table := (\<lambda>m i. if m < NB_MMU_MODES \<and> i < CPU_TLB_SIZE then s_cputlb_empty_entry else tlb_table t m i),
     tlb_flush_addr := - 1, tlb_flush_mask := 0\<rparr>"

text \<open>The page of a tag, with the bit that marks it as invalid.\<close>

definition tag :: "u32 \<Rightarrow> u32" where
  "tag c = c AND (NOT 0x3ff OR TLB_INVALID_MASK)"

definition tlb_flush_entry :: "u32 \<Rightarrow> CPUTLBEntry \<Rightarrow> CPUTLBEntry" where
  "tlb_flush_entry addr e =
     (if addr = tag (addr_read e) \<or> addr = tag (addr_write e) \<or> addr = tag (addr_code e) then s_cputlb_empty_entry else e)"

definition tlb_flush_page :: "u32 \<Rightarrow> tlb \<Rightarrow> tlb" where
  "tlb_flush_page addr t =
     (if addr AND tlb_flush_mask t = tlb_flush_addr t then tlb_flush t
      else let a = subpage addr; i = tlb_index a
           in t\<lparr>tlb_table := (\<lambda>m j. if m < NB_MMU_MODES \<and> j = i then tlb_flush_entry a (tlb_table t m j) else tlb_table t m j)\<rparr>)"

section \<open>Tracking of modified pages\<close>

definition tlb_is_dirty_ram :: "CPUTLBEntry \<Rightarrow> bool" where
  "tlb_is_dirty_ram e \<longleftrightarrow> addr_write e AND 0x3ff = 0"

definition tlb_reset_dirty_range :: "u64 \<Rightarrow> u64 \<Rightarrow> CPUTLBEntry \<Rightarrow> CPUTLBEntry" where
  "tlb_reset_dirty_range start len e =
     (if tlb_is_dirty_ram e \<and> (ucast (subpage (addr_write e)) + te_addend e) - start < len
      then e\<lparr>addr_write := subpage (addr_write e) OR TLB_NOTDIRTY\<rparr> else e)"

definition cpu_tlb_reset_dirty_all :: "u64 \<Rightarrow> u64 \<Rightarrow> tlb \<Rightarrow> tlb" where
  "cpu_tlb_reset_dirty_all start1 len t =
     t\<lparr>tlb_table := (\<lambda>m i. if m < NB_MMU_MODES \<and> i < CPU_TLB_SIZE then tlb_reset_dirty_range start1 len (tlb_table t m i) else tlb_table t m i)\<rparr>"

definition tlb_set_dirty1 :: "u32 \<Rightarrow> CPUTLBEntry \<Rightarrow> CPUTLBEntry" where
  "tlb_set_dirty1 vaddr e = (if addr_write e = vaddr OR TLB_NOTDIRTY then e\<lparr>addr_write := vaddr\<rparr> else e)"

definition tlb_set_dirty :: "u32 \<Rightarrow> tlb \<Rightarrow> tlb" where
  "tlb_set_dirty vaddr t =
     (let v = subpage vaddr; i = tlb_index v
      in t\<lparr>tlb_table := (\<lambda>m j. if m < NB_MMU_MODES \<and> j = i then tlb_set_dirty1 v (tlb_table t m j) else tlb_table t m j)\<rparr>)"

section \<open>Large pages\<close>

definition above_lowest :: "u32 \<Rightarrow> nat set" where
  "above_lowest m = {n. n < 32 \<and> (\<exists>k\<le>n. bit m k)}"

lemma above_lowest_shift:
  assumes "m \<noteq> 0"
  shows "card (above_lowest (push_bit 1 m)) < card (above_lowest m)"
proof (rule psubset_card_mono)
  show "finite (above_lowest m)" by (simp add: above_lowest_def)
  have l: "\<exists>k. bit m k" using assms by (auto simp: bit_eq_iff)
  define k where "k = (LEAST k. bit m k)"
  have k: "bit m k" "\<And>j. bit m j \<Longrightarrow> k \<le> j" using LeastI_ex [OF l] Least_le [of "bit m"] by (auto simp: k_def)
  have "k < 32" using bit_imp_le_length [OF k(1)] by simp
  then have in_m: "k \<in> above_lowest m" using k(1) by (auto simp: above_lowest_def)
  have b: "bit (push_bit 1 m) i \<Longrightarrow> 1 \<le> i \<and> bit m (i - 1)" for i unfolding bit_push_bit_iff by simp
  have "k \<notin> above_lowest (push_bit 1 m)" using b k(2) by (fastforce simp only: above_lowest_def mem_Collect_eq)
  moreover have "above_lowest (push_bit 1 m) \<subseteq> above_lowest m"
    unfolding above_lowest_def using b by (blast intro: le_trans [OF diff_le_self])
  ultimately show "above_lowest (push_bit 1 m) \<subset> above_lowest m" using in_m by blast
qed

function widen_mask :: "u32 \<Rightarrow> u32 \<Rightarrow> u32 \<Rightarrow> u32" where
  "widen_mask flush_addr vaddr m =
     (if (flush_addr XOR vaddr) AND m \<noteq> 0 then widen_mask flush_addr vaddr (push_bit 1 m) else m)"
  by pat_completeness auto
termination
proof (relation "measure (\<lambda>(a, v, m). card (above_lowest m))")
  show "((a, v, push_bit 1 m), (a, v, m)) \<in> measure (\<lambda>(a, v, m). card (above_lowest m))"
    if "(a XOR v) AND m \<noteq> 0" for a v m :: u32
    unfolding in_measure prod.case using that by (intro above_lowest_shift) auto
qed simp

declare widen_mask.simps [simp del]

definition tlb_add_large_page :: "u32 \<Rightarrow> u32 \<Rightarrow> tlb \<Rightarrow> tlb" where
  "tlb_add_large_page vaddr sz t =
     (let m = NOT (sz - 1)
      in if tlb_flush_addr t = - 1 then t\<lparr>tlb_flush_addr := vaddr AND m, tlb_flush_mask := m\<rparr>
         else let m' = widen_mask (tlb_flush_addr t) vaddr (m AND tlb_flush_mask t)
              in t\<lparr>tlb_flush_addr := tlb_flush_addr t AND m', tlb_flush_mask := m'\<rparr>)"

section \<open>Adding an entry\<close>

definition qemu_get_ram_ptr :: "phys_map \<Rightarrow> u64 \<Rightarrow> u64 res" where
  "qemu_get_ram_ptr pm addr =
     (case find (\<lambda>(off, len, host). addr - off < len) (pm_blocks pm) of
        Some (off, len, host) \<Rightarrow> Inr (host + (addr - off))
      | None \<Rightarrow> Inl Assert_Failure)"

definition phys_desc :: "phys_map \<Rightarrow> u64 \<Rightarrow> u64" where
  "phys_desc pm paddr = (case pm_page pm (drop_bit 10 paddr) of None \<Rightarrow> IO_MEM_UNASSIGNED | Some (off, roff) \<Rightarrow> off)"

definition is_io :: "u64 \<Rightarrow> bool" where
  "is_io pd \<longleftrightarrow> IO_MEM_ROM < pd AND 0x3ff \<and> pd AND IO_MEM_ROMD = 0"

definition tlb_iotlb :: "phys_map \<Rightarrow> u32 \<Rightarrow> u64 \<Rightarrow> u64" where
  "tlb_iotlb pm vaddr paddr =
     (let pd = phys_desc pm paddr;
          io = (if pd AND 0x3ff \<le> IO_MEM_ROM
                then (pd AND NOT 0x3ff) OR (if pd AND 0x3ff = IO_MEM_RAM then IO_MEM_NOTDIRTY else IO_MEM_ROM)
                else (pd AND 0x3ff) + (case pm_page pm (drop_bit 10 paddr) of Some (off, roff) \<Rightarrow> roff | None \<Rightarrow> paddr))
      in if list_ex (\<lambda>w. vaddr = subpage w) (pm_watchpoints pm) then pm_io_mem_watch pm + paddr else io)"

definition new_entry :: "phys_map \<Rightarrow> u32 \<Rightarrow> u64 \<Rightarrow> u32 \<Rightarrow> u64 \<Rightarrow> CPUTLBEntry" where
  "new_entry pm vaddr pd prot host =
     (let code_address = (if is_io pd then vaddr OR TLB_MMIO else vaddr);
          address = (if list_ex (\<lambda>w. vaddr = subpage w) (pm_watchpoints pm) then code_address OR TLB_MMIO else code_address)
      in \<lparr>addr_read = (if prot AND PAGE_READ \<noteq> 0 then address else - 1),
          addr_write = (if prot AND PAGE_WRITE \<noteq> 0 then
                          if pd AND 0x3ff = IO_MEM_ROM \<or> pd AND IO_MEM_ROMD \<noteq> 0 then address OR TLB_MMIO
                          else if pd AND 0x3ff = IO_MEM_RAM \<and> pm_clean pm pd then address OR TLB_NOTDIRTY
                          else address
                        else - 1),
          addr_code = (if prot AND PAGE_EXEC \<noteq> 0 then code_address else - 1),
          te_addend = host - ucast vaddr\<rparr>)"

definition tlb_set_page :: "phys_map \<Rightarrow> u32 \<Rightarrow> u64 \<Rightarrow> u32 \<Rightarrow> nat \<Rightarrow> u32 \<Rightarrow> tlb \<Rightarrow> tlb res" where
  "tlb_set_page pm vaddr paddr prot mmu_idx sz t =
     (if sz < TARGET_PAGE_SIZE then Inl Assert_Failure
      else let t1 = (if sz \<noteq> TARGET_PAGE_SIZE then tlb_add_large_page vaddr sz t else t);
               pd = phys_desc pm paddr
           in res_bind (qemu_get_ram_ptr pm (pd AND NOT 0x3ff)) (\<lambda>host.
                let i = tlb_index vaddr
                in Inr (t1\<lparr>t_iotlb := (t_iotlb t1)(mmu_idx := (t_iotlb t1 mmu_idx)(i := tlb_iotlb pm vaddr paddr - ucast vaddr)),
                           tlb_table := (tlb_table t1)(mmu_idx := (tlb_table t1 mmu_idx)(i := new_entry pm vaddr pd prot host))\<rparr>)))"

section \<open>The region of large pages\<close>

lemma widen_mask_spec:
  "\<exists>n. widen_mask a v m = push_bit n m \<and> (a XOR v) AND push_bit n m = 0 \<and> (\<forall>j<n. (a XOR v) AND push_bit j m \<noteq> 0)"
proof (induction a v m rule: widen_mask.induct)
  case (1 a v m)
  show ?case
  proof (cases "(a XOR v) AND m = 0")
    case True
    then show ?thesis by (intro exI [of _ 0]) (simp add: widen_mask.simps [of a v m])
  next
    case False
    then obtain n where n: "widen_mask a v (push_bit 1 m) = push_bit n (push_bit 1 m)" "(a XOR v) AND push_bit n (push_bit 1 m) = 0"
      "\<forall>j<n. (a XOR v) AND push_bit j (push_bit 1 m) \<noteq> 0" using "1.IH" by auto
    have s: "push_bit j (push_bit 1 m) = push_bit (Suc j) m" for j by (simp only: push_bit_push_bit) simp
    have "(a XOR v) AND push_bit j m \<noteq> 0" if "j < Suc n" for j
      using that n(3) False s by (cases j) auto
    then show ?thesis using n(1,2) False unfolding s by (intro exI [of _ "Suc n"]) (simp add: widen_mask.simps [of a v m])
  qed
qed

text \<open>Masks of aligned blocks.\<close>

definition block_mask :: "nat \<Rightarrow> u32" where
  "block_mask k = NOT (mask k)"

lemma bit_block_mask: "bit (block_mask k) n \<longleftrightarrow> n < 32 \<and> k \<le> n"
  by (auto simp: block_mask_def bit_simps)

lemma block_mask_and: "block_mask k AND block_mask l = block_mask (max k l)"
  by (rule bit_word_eqI) (auto simp: bit_and_iff bit_block_mask)

lemma block_mask_push: "push_bit n (block_mask k) = block_mask (n + k)"
  by (rule bit_word_eqI) (auto simp: bit_push_bit_iff bit_block_mask)

lemma block_mask_size: "NOT ((2 :: u32) ^ k - 1) = block_mask k"
  by (simp add: block_mask_def mask_eq_exp_minus_1)

lemma block_mask_narrow:
  assumes "k \<le> l" and "a AND block_mask k = b AND block_mask k"
  shows "a AND block_mask l = b AND block_mask l"
proof -
  have "x AND block_mask l = (x AND block_mask k) AND block_mask l" for x :: u32
    using assms(1) by (simp add: and.assoc block_mask_and max_def)
  then show ?thesis using assms(2) by metis
qed

definition same_block :: "nat \<Rightarrow> u32 \<Rightarrow> u32 \<Rightarrow> bool" where
  "same_block k a b \<longleftrightarrow> a AND block_mask k = b AND block_mask k"

definition region_ok :: "tlb \<Rightarrow> bool" where
  "region_ok t \<longleftrightarrow> tlb_flush_addr t = - 1 \<and> tlb_flush_mask t = 0 \<or>
     (\<exists>k\<ge>10. tlb_flush_mask t = block_mask k \<and> tlb_flush_addr t AND block_mask k = tlb_flush_addr t)"

definition in_region :: "tlb \<Rightarrow> u32 \<Rightarrow> bool" where
  "in_region t a \<longleftrightarrow> a AND tlb_flush_mask t = tlb_flush_addr t"

lemma not_minus_one: "10 \<le> k \<Longrightarrow> a AND block_mask k \<noteq> - 1"
proof
  assume "10 \<le> k" "a AND block_mask k = - 1"
  then have "bit (a AND block_mask k) 0" by simp
  then show False using \<open>10 \<le> k\<close> by (simp add: bit_and_iff bit_block_mask)
qed

lemma add_large_page:
  assumes "region_ok t" and "10 \<le> k"
  shows "region_ok (tlb_add_large_page v (2 ^ k) t)" and "same_block k a v \<Longrightarrow> in_region (tlb_add_large_page v (2 ^ k) t) a"
    and "in_region t a \<Longrightarrow> tlb_flush_addr t \<noteq> - 1 \<Longrightarrow> in_region (tlb_add_large_page v (2 ^ k) t) a"
    and "tlb_flush_addr (tlb_add_large_page v (2 ^ k) t) \<noteq> - 1"
proof -
  let ?t = "tlb_add_large_page v (2 ^ k) t"
  have "region_ok ?t \<and> (same_block k a v \<longrightarrow> in_region ?t a) \<and> (in_region t a \<longrightarrow> tlb_flush_addr t \<noteq> - 1 \<longrightarrow> in_region ?t a) \<and>
      tlb_flush_addr ?t \<noteq> - 1"
  proof (cases "tlb_flush_addr t = - 1")
    case True
    then have "?t = t\<lparr>tlb_flush_addr := v AND block_mask k, tlb_flush_mask := block_mask k\<rparr>"
      by (simp add: tlb_add_large_page_def Let_def block_mask_size)
    then show ?thesis using True assms(2) not_minus_one [OF assms(2), of v]
      by (auto simp: region_ok_def in_region_def same_block_def and.assoc)
  next
    case False
    then obtain l where l: "10 \<le> l" "tlb_flush_mask t = block_mask l" "tlb_flush_addr t AND block_mask l = tlb_flush_addr t"
      using assms(1) by (auto simp: region_ok_def)
    define fa where "fa = tlb_flush_addr t"
    obtain n where n: "widen_mask fa v (block_mask (max k l)) = block_mask (n + max k l)" "(fa XOR v) AND block_mask (n + max k l) = 0"
      using widen_mask_spec [of fa v "block_mask (max k l)"] by (auto simp: block_mask_push)
    define r where "r = n + max k l"
    have r: "k \<le> r" "l \<le> r" "10 \<le> r" using l(1) by (auto simp: r_def)
    have t: "?t = t\<lparr>tlb_flush_addr := fa AND block_mask r, tlb_flush_mask := block_mask r\<rparr>"
      using False l(2) n(1) by (simp add: tlb_add_large_page_def Let_def block_mask_size block_mask_and fa_def r_def)
    have eq: "fa AND block_mask r = v AND block_mask r"
    proof (rule bit_word_eqI)
      fix j :: nat assume "j < LENGTH(32)"
      have "\<not> bit ((fa XOR v) AND block_mask r) j" using n(2) by (simp add: r_def)
      then show "bit (fa AND block_mask r) j = bit (v AND block_mask r) j" by (auto simp: bit_and_iff bit_xor_iff)
    qed
    have "a AND block_mask r = v AND block_mask r" if "same_block k a v"
      by (rule block_mask_narrow [OF r(1) that [unfolded same_block_def]])
    moreover have "a AND block_mask r = fa AND block_mask r" if "in_region t a"
      using block_mask_narrow [OF r(2), of a fa] that l by (simp add: in_region_def fa_def)
    moreover have "region_ok ?t" unfolding t region_ok_def by (intro disjI2 exI [of _ r]) (simp add: r(3) and.assoc)
    moreover have i: "in_region ?t a \<longleftrightarrow> a AND block_mask r = fa AND block_mask r" by (simp add: t in_region_def)
    moreover have "tlb_flush_addr ?t \<noteq> - 1" unfolding t using not_minus_one [OF r(3), of fa] by simp
    ultimately show ?thesis unfolding i using eq by metis
  qed
  then show "region_ok ?t" "same_block k a v \<Longrightarrow> in_region ?t a" "in_region t a \<Longrightarrow> tlb_flush_addr t \<noteq> - 1 \<Longrightarrow> in_region ?t a"
    "tlb_flush_addr ?t \<noteq> - 1" by blast+
qed


section \<open>Live pages\<close>

text \<open>
  The pages entered since the last flush that covers them: the mode, the virtual page and the binary logarithm of its size. A run of
  the TLB keeps them as a specification of what may be cached.
\<close>

type_synonym live = "(nat \<times> u32 \<times> nat) set"

inductive tlb_run :: "phys_map \<Rightarrow> tlb \<Rightarrow> live \<Rightarrow> bool" for pm where
  start: "(\<And>m i. NB_MMU_MODES \<le> m \<or> CPU_TLB_SIZE \<le> i \<Longrightarrow> tlb_table t m i = s_cputlb_empty_entry) \<Longrightarrow> tlb_run pm (tlb_flush t) {}"
| set_page: "tlb_run pm t A \<Longrightarrow> idx < NB_MMU_MODES \<Longrightarrow> 10 \<le> k \<Longrightarrow> k < 32 \<Longrightarrow>
    tlb_set_page pm (subpage v) paddr prot idx (2 ^ k) t = Inr t' \<Longrightarrow> tlb_run pm t' (insert (idx, subpage v, k) A)"
| flush: "tlb_run pm t A \<Longrightarrow> tlb_run pm (tlb_flush t) {}"
| flush_page: "tlb_run pm t A \<Longrightarrow>
    tlb_run pm (tlb_flush_page a t) (if in_region t a then {} else {(idx, v, k) \<in> A. \<not> same_block k a v})"
| set_dirty: "tlb_run pm t A \<Longrightarrow> tlb_run pm (tlb_set_dirty v t) A"
| reset_dirty: "tlb_run pm t A \<Longrightarrow> tlb_run pm (cpu_tlb_reset_dirty_all start len t) A"

text \<open>A tag is that of a page in the slot, or invalid.\<close>

definition tag_live :: "live \<Rightarrow> nat \<Rightarrow> nat \<Rightarrow> u32 \<Rightarrow> bool" where
  "tag_live A idx i c \<longleftrightarrow> bit c 3 \<or> (\<exists>k. (idx, subpage c, k) \<in> A \<and> tlb_index (subpage c) = i)"

definition entry_live :: "live \<Rightarrow> nat \<Rightarrow> nat \<Rightarrow> CPUTLBEntry \<Rightarrow> bool" where
  "entry_live A idx i e \<longleftrightarrow> tag_live A idx i (addr_read e) \<and> tag_live A idx i (addr_write e) \<and> tag_live A idx i (addr_code e)"

definition tlb_inv :: "tlb \<Rightarrow> live \<Rightarrow> bool" where
  "tlb_inv t A \<longleftrightarrow> region_ok t \<and>
     (\<forall>m i. NB_MMU_MODES \<le> m \<or> CPU_TLB_SIZE \<le> i \<longrightarrow> tlb_table t m i = s_cputlb_empty_entry) \<and> (\<forall>idx i. entry_live A idx i (tlb_table t idx i)) \<and>
     (\<forall>(idx, v, k) \<in> A. subpage v = v \<and> 10 \<le> k \<and> (k \<noteq> 10 \<longrightarrow> tlb_flush_addr t \<noteq> - 1 \<and> (\<forall>a. same_block k a v \<longrightarrow> in_region t a)))"

lemma empty_live: "entry_live A idx i s_cputlb_empty_entry"
  by (simp add: entry_live_def tag_live_def s_cputlb_empty_entry_def)

lemma entry_live_mono: "entry_live A idx i e \<Longrightarrow> A \<subseteq> B \<Longrightarrow> entry_live B idx i e"
  by (auto simp: entry_live_def tag_live_def)

lemma flags_page: "subpage (subpage v OR f) = subpage v" "\<not> bit (subpage v OR f) 3" if "f AND (NOT 0x3ff OR 8) = 0"
proof -
  have z: "\<not> bit (f AND (NOT (mask 10) OR push_bit 3 1)) n" for n using that by (simp add: mask_10)
  have "\<not> (bit f n \<and> (n < 32 \<and> \<not> n < 10 \<or> n = 3))" for n
    using z [of n] unfolding bit_and_iff bit_or_iff bit_not_iff bit_mask_iff bit_push_bit_iff bit_1_iff possible_bit_word by auto
  then have f: "bit f n \<Longrightarrow> n < 10 \<and> n \<noteq> 3" for n using bit_imp_le_length [of f n] by auto
  show "subpage (subpage v OR f) = subpage v"
    unfolding subpage_def mask_10 by (rule bit_word_eqI) (use f in \<open>auto simp: bit_simps\<close>)
  show "\<not> bit (subpage v OR f) 3" unfolding subpage_def mask_10 using f [of 3] by (auto simp: bit_simps)
qed


lemma flags_zero: "TLB_MMIO AND (NOT 0x3ff OR 8) = 0" "TLB_NOTDIRTY AND (NOT 0x3ff OR 8) = 0" "(TLB_MMIO OR TLB_NOTDIRTY) AND (NOT 0x3ff OR 8) = 0"
  "0 AND (NOT 0x3ff OR 8) = (0 :: u32)"
  by (simp_all add: TLB_MMIO_def TLB_NOTDIRTY_def)

lemma subpage_idem [simp]: "subpage (subpage v) = subpage v"
  unfolding subpage_def mask_10 by (rule bit_word_eqI) (auto simp: bit_simps)

lemma subpage_block: "subpage a = a AND block_mask 10"
  by (simp only: subpage_def mask_10 block_mask_def)

lemma tag_cases: "tag c = (if bit c 3 then subpage c OR 8 else subpage c)"
proof -
  have e: "(8 :: u32) = push_bit 3 1" by simp
  have b: "bit (8 :: u32) n \<longleftrightarrow> n = 3" for n unfolding e bit_push_bit_iff bit_1_iff by auto
  show ?thesis
  proof (rule bit_word_eqI)
    fix n :: nat assume "n < LENGTH(32)"
    then show "bit (tag c) n = bit (if bit c 3 then subpage c OR 8 else subpage c) n"
      unfolding tag_def TLB_INVALID_MASK_def subpage_def mask_10
      by (cases "bit c 3") (auto simp only: bit_and_iff bit_or_iff bit_not_iff bit_mask_iff possible_bit_word b if_True if_False)
  qed
qed

lemma tag_flush: "\<not> bit c 3 \<Longrightarrow> subpage a = tag c \<longleftrightarrow> subpage c = subpage a"
  by (auto simp: tag_cases)

lemma tag_live_flags:
  assumes "(idx, subpage v, k) \<in> A" and "tlb_index (subpage v) = i" and "f AND (NOT 0x3ff OR 8) = 0"
  shows "tag_live A idx i (subpage v OR f)"
  using assms flags_page [OF assms(3)] by (auto simp: tag_live_def)

lemma tag_live_same: "tag_live A idx i c \<Longrightarrow> subpage c' = subpage c \<Longrightarrow> (bit c 3 \<Longrightarrow> bit c' 3) \<Longrightarrow> tag_live A idx i c'"
  by (auto simp: tag_live_def)

text \<open>Each operation keeps the invariant.\<close>

lemma inv_flush:
  assumes "\<And>m i. NB_MMU_MODES \<le> m \<or> CPU_TLB_SIZE \<le> i \<Longrightarrow> tlb_table t m i = s_cputlb_empty_entry"
  shows "tlb_inv (tlb_flush t) {}"
  using assms by (auto simp: tlb_inv_def tlb_flush_def region_ok_def empty_live not_less)

lemma tlb_index_lt: "tlb_index a < CPU_TLB_SIZE"
proof -
  have m: "(0xff :: u32) = mask 8" by (simp add: mask_eq_exp_minus_1)
  show ?thesis unfolding tlb_index_def CPU_TLB_SIZE_def m unat_and_mask by simp
qed

lemma inv_flush_page:
  assumes "tlb_inv t A"
  shows "tlb_inv (tlb_flush_page a t) (if in_region t a then {} else {(idx, v, k) \<in> A. \<not> same_block k a v})"
proof (cases "in_region t a")
  case True
  then show ?thesis using assms inv_flush [of t] by (auto simp: tlb_flush_page_def in_region_def tlb_inv_def)
next
  case False
  let ?A = "{(idx, v, k) \<in> A. \<not> same_block k a v}"
  let ?t = "tlb_flush_page a t"
  have t: "?t = t\<lparr>tlb_table := (\<lambda>m j. if m < NB_MMU_MODES \<and> j = tlb_index (subpage a)
      then tlb_flush_entry (subpage a) (tlb_table t m j) else tlb_table t m j)\<rparr>"
    using False by (simp add: tlb_flush_page_def in_region_def Let_def)
  have gone: "v = subpage a" if "(idx, v, k) \<in> A" "same_block k a v" for idx v k
  proof -
    have "k = 10" "subpage v = v" using that assms False by (auto simp: tlb_inv_def)
    then show ?thesis using that(2) by (simp add: same_block_def subpage_block)
  qed
  have tag: "tag_live ?A idx i c" if "tag_live A idx i c" "bit c 3 \<or> subpage c \<noteq> subpage a" for idx i c
    using that gone by (fastforce simp: tag_live_def)
  have "entry_live ?A idx i (tlb_table ?t idx i)" for idx i
  proof (cases "idx < NB_MMU_MODES \<and> i < CPU_TLB_SIZE")
    case False
    then have "tlb_table ?t idx i = s_cputlb_empty_entry"
      using assms unfolding t by (auto simp: tlb_inv_def tlb_flush_entry_def not_less)
    then show ?thesis by (simp add: empty_live)
  next
    case True
    define e where "e = tlb_table t idx i"
    have e: "entry_live A idx i e" using assms by (simp add: tlb_inv_def e_def)
    have out: "bit c 3 \<or> subpage c \<noteq> subpage a" if "tag_live A idx i c" "i \<noteq> tlb_index (subpage a) \<or> subpage a \<noteq> tag c" for c
      using that tag_flush [of c a] by (auto simp: tag_live_def)
    show ?thesis
    proof (cases "i = tlb_index (subpage a) \<and> tlb_flush_entry (subpage a) e = s_cputlb_empty_entry")
      case True
      then have "tlb_table ?t idx i = s_cputlb_empty_entry" using \<open>idx < NB_MMU_MODES \<and> i < CPU_TLB_SIZE\<close> by (auto simp: t e_def)
      then show ?thesis by (simp add: empty_live)
    next
      case False
      then have "tlb_table ?t idx i = e" "\<forall>c \<in> {addr_read e, addr_write e, addr_code e}. i \<noteq> tlb_index (subpage a) \<or> subpage a \<noteq> tag c"
        by (auto simp: t e_def tlb_flush_entry_def split: if_splits)
      then show ?thesis using e out tag by (simp add: entry_live_def)
    qed
  qed
  moreover have "\<forall>m i. NB_MMU_MODES \<le> m \<or> CPU_TLB_SIZE \<le> i \<longrightarrow> tlb_table ?t m i = s_cputlb_empty_entry"
    using assms unfolding t by (auto simp: tlb_inv_def tlb_flush_entry_def)
  moreover have "region_ok ?t" "in_region ?t = in_region t" "tlb_flush_addr ?t = tlb_flush_addr t"
    using assms by (auto simp: t tlb_inv_def region_ok_def in_region_def fun_eq_iff)
  ultimately show ?thesis using assms False unfolding tlb_inv_def by auto
qed


lemma inv_map:
  assumes "tlb_inv t A" and "\<And>m i. tag_live A m i (addr_write (tlb_table t m i)) \<Longrightarrow> entry_live A m i (tlb_table t m i) \<Longrightarrow> entry_live A m i (f m i (tlb_table t m i))"
    and "\<And>m i. NB_MMU_MODES \<le> m \<or> CPU_TLB_SIZE \<le> i \<Longrightarrow> f m i s_cputlb_empty_entry = s_cputlb_empty_entry"
  shows "tlb_inv (t\<lparr>tlb_table := (\<lambda>m i. f m i (tlb_table t m i))\<rparr>) A"
proof -
  have e: "entry_live A m i (f m i (tlb_table t m i))" for m i
    using assms(1,2) by (simp add: tlb_inv_def entry_live_def)
  have "region_ok (t\<lparr>tlb_table := g\<rparr>) = region_ok t" "in_region (t\<lparr>tlb_table := g\<rparr>) = in_region t" for g
    by (auto simp: region_ok_def in_region_def fun_eq_iff)
  then show ?thesis using assms(1,3) e by (simp add: tlb_inv_def)
qed

lemma inv_set_dirty: "tlb_inv t A \<Longrightarrow> tlb_inv (tlb_set_dirty v t) A"
proof -
  assume i: "tlb_inv t A"
  define f where "f = (\<lambda>m j e. if m < NB_MMU_MODES \<and> j = tlb_index (subpage v) then tlb_set_dirty1 (subpage v) e else e)"
  have p: "subpage (subpage v OR TLB_NOTDIRTY) = subpage v" "\<not> bit (subpage v OR TLB_NOTDIRTY) 3"
    by (rule flags_page [OF flags_zero(2)])+
  have "tlb_inv (t\<lparr>tlb_table := (\<lambda>m j. f m j (tlb_table t m j))\<rparr>) A"
  proof (rule inv_map [OF i])
    show "entry_live A m j (f m j (tlb_table t m j))" if "entry_live A m j (tlb_table t m j)" for m j
      using that p by (auto simp: f_def tlb_set_dirty1_def entry_live_def tag_live_def)
    show "f m j s_cputlb_empty_entry = s_cputlb_empty_entry" if "NB_MMU_MODES \<le> m \<or> CPU_TLB_SIZE \<le> j" for m j
      using that tlb_index_lt [of "subpage v"] by (auto simp: f_def)
  qed
  then show ?thesis by (simp add: tlb_set_dirty_def Let_def f_def)
qed

lemma inv_reset_dirty: "tlb_inv t A \<Longrightarrow> tlb_inv (cpu_tlb_reset_dirty_all start len t) A"
proof -
  assume i: "tlb_inv t A"
  define f where "f = (\<lambda>m i e. if m < NB_MMU_MODES \<and> i < CPU_TLB_SIZE then tlb_reset_dirty_range start len e else e)"
  have "tlb_inv (t\<lparr>tlb_table := (\<lambda>m i. f m i (tlb_table t m i))\<rparr>) A"
  proof (rule inv_map [OF i])
    show "entry_live A m i (f m i (tlb_table t m i))"
      if "tag_live A m i (addr_write (tlb_table t m i))" "entry_live A m i (tlb_table t m i)" for m i
    proof -
      define c where "c = addr_write (tlb_table t m i)"
      have "\<not> bit c 3" if "c AND 0x3ff = 0"
      proof -
        have "\<not> bit (c AND mask 10) 3" using that unfolding mask_10 by simp
        then show ?thesis by (simp only: bit_and_iff bit_mask_iff) simp
      qed
      then show ?thesis
        using that flags_page [OF flags_zero(2), of c]
        by (auto simp: f_def tlb_reset_dirty_range_def tlb_is_dirty_ram_def entry_live_def tag_live_def c_def)
    qed
  qed (auto simp: f_def)
  then show ?thesis by (simp add: cpu_tlb_reset_dirty_all_def f_def)
qed


lemma page_size_log: "k < 32 \<Longrightarrow> (2 :: u32) ^ k = TARGET_PAGE_SIZE \<longleftrightarrow> k = 10"
proof
  assume k: "k < 32" and "(2 :: u32) ^ k = TARGET_PAGE_SIZE"
  then have "(2 :: u32) ^ k = 2 ^ 10" by (simp add: TARGET_PAGE_SIZE_def)
  then have "bit ((2 :: u32) ^ 10) k" using k bit_exp_iff [where 'a = "32 word", of k k] by (simp only: possible_bit_word) simp
  then show "k = 10" by (simp only: bit_exp_iff)
qed (simp add: TARGET_PAGE_SIZE_def)

definition page_tag :: "u32 \<Rightarrow> u32 \<Rightarrow> bool" where
  "page_tag v c \<longleftrightarrow> c = - 1 \<or> (\<exists>f. c = v OR f \<and> f AND (NOT 0x3ff OR 8) = 0)"

lemma page_tagI: "page_tag v (- 1)" "page_tag v v" "page_tag v (v OR TLB_MMIO)" "page_tag v (v OR TLB_NOTDIRTY)"
  "page_tag v ((v OR TLB_MMIO) OR TLB_NOTDIRTY)" "page_tag v ((v OR TLB_MMIO) OR TLB_MMIO)"
  using flags_zero by (auto simp: page_tag_def or.assoc intro: exI [of _ "0 :: u32"])

lemma new_entry_tags:
  "page_tag v (addr_read (new_entry pm v pd prot host))" "page_tag v (addr_write (new_entry pm v pd prot host))"
  "page_tag v (addr_code (new_entry pm v pd prot host))"
proof -
  have i: "((v OR TLB_MMIO) OR TLB_MMIO) OR f = (v OR TLB_MMIO) OR f" "(v OR TLB_MMIO) OR TLB_MMIO = v OR TLB_MMIO" for f
    by (simp_all add: or.assoc)
  show "page_tag v (addr_read (new_entry pm v pd prot host))" "page_tag v (addr_write (new_entry pm v pd prot host))"
    "page_tag v (addr_code (new_entry pm v pd prot host))"
    unfolding new_entry_def Let_def CPUTLBEntry.simps i using page_tagI [of v] i by (simp_all split: if_split)
qed

lemma set_page_result:
  assumes "tlb_set_page pm v paddr prot idx sz t = Inr t'"
  shows "\<exists>host io. qemu_get_ram_ptr pm (phys_desc pm paddr AND NOT 0x3ff) = Inr host \<and> TARGET_PAGE_SIZE \<le> sz \<and>
    t' = (if sz \<noteq> TARGET_PAGE_SIZE then tlb_add_large_page v sz t else t)\<lparr>t_iotlb := io,
      tlb_table := (tlb_table t)(idx := (tlb_table t idx)(tlb_index v := new_entry pm v (phys_desc pm paddr) prot host))\<rparr>"
proof -
  have tab: "tlb_table (tlb_add_large_page v sz t) = tlb_table t" by (simp add: tlb_add_large_page_def Let_def)
  have sz: "\<not> sz < TARGET_PAGE_SIZE" using assms by (auto simp: tlb_set_page_def)
  obtain host where h: "qemu_get_ram_ptr pm (phys_desc pm paddr AND NOT 0x3ff) = Inr host"
    using assms sz unfolding tlb_set_page_def Let_def by (auto simp: res_bind_eq_Inr)
  show ?thesis using assms sz unfolding tlb_set_page_def Let_def h by (auto simp: tab not_less split: if_splits)
qed

lemma page_tag_live:
  assumes "page_tag (subpage v) c" and "(idx, subpage v, k) \<in> A" and "tlb_index (subpage v) = i"
  shows "tag_live A idx i c"
  using assms(1) tag_live_flags [OF assms(2,3)] by (auto simp: page_tag_def) (simp add: tag_live_def)

lemma inv_set_page:
  assumes "tlb_inv t A" and "idx < NB_MMU_MODES" and "10 \<le> k" and "k < 32"
    and "tlb_set_page pm (subpage v) paddr prot idx (2 ^ k) t = Inr t'"
  shows "tlb_inv t' (insert (idx, subpage v, k) A)"
proof -
  let ?A = "insert (idx, subpage v, k) A"
  define t1 where "t1 = (if k \<noteq> 10 then tlb_add_large_page (subpage v) (2 ^ k) t else t)"
  obtain host io where t': "t' = t1\<lparr>t_iotlb := io, tlb_table := (tlb_table t)(idx := (tlb_table t idx)(tlb_index (subpage v) :=
      new_entry pm (subpage v) (phys_desc pm paddr) prot host))\<rparr>"
    using set_page_result [OF assms(5)] page_size_log [OF assms(4)] by (auto simp: t1_def)
  define e where "e = new_entry pm (subpage v) (phys_desc pm paddr) prot host"
  have "entry_live ?A idx (tlb_index (subpage v)) e"
    unfolding entry_live_def e_def by (intro conjI page_tag_live [where k = k and v = v] new_entry_tags) simp_all
  then have live: "\<forall>m i. entry_live ?A m i (tlb_table t' m i)"
    using assms(1) entry_live_mono [OF _ subset_insertI, of A _ _ _ "(idx, subpage v, k)"] unfolding t' e_def [symmetric]
    by (simp add: tlb_inv_def)
  have r: "region_ok t" using assms(1) by (simp add: tlb_inv_def)
  note add = add_large_page [OF r assms(3), where v = "subpage v"]
  have r1: "region_ok t1" "k \<noteq> 10 \<Longrightarrow> tlb_flush_addr t1 \<noteq> - 1" "k \<noteq> 10 \<Longrightarrow> same_block k a (subpage v) \<Longrightarrow> in_region t1 a"
    "tlb_flush_addr t \<noteq> - 1 \<Longrightarrow> in_region t a \<Longrightarrow> in_region t1 a" "tlb_flush_addr t \<noteq> - 1 \<Longrightarrow> tlb_flush_addr t1 \<noteq> - 1" for a
    using r add by (simp_all add: t1_def)
  have same: "region_ok t' = region_ok t1" "in_region t' = in_region t1" "tlb_flush_addr t' = tlb_flush_addr t1"
    by (auto simp: t' region_ok_def in_region_def fun_eq_iff)
  have "\<forall>m i. NB_MMU_MODES \<le> m \<or> CPU_TLB_SIZE \<le> i \<longrightarrow> tlb_table t' m i = s_cputlb_empty_entry"
    using assms(1,2) tlb_index_lt [of "subpage v"] by (auto simp: t' tlb_inv_def)
  moreover have "\<forall>(m, w, l) \<in> ?A. subpage w = w \<and> 10 \<le> l \<and> (l \<noteq> 10 \<longrightarrow> tlb_flush_addr t1 \<noteq> - 1 \<and> (\<forall>a. same_block l a w \<longrightarrow> in_region t1 a))"
    using assms(1,3) r1 by (auto simp: tlb_inv_def)
  ultimately show ?thesis using live r1(1) unfolding tlb_inv_def same by blast
qed

lemma tlb_run_inv: "tlb_run pm t A \<Longrightarrow> tlb_inv t A"
proof (induction rule: tlb_run.induct)
  case (flush t A)
  then show ?case by (intro inv_flush) (auto simp: tlb_inv_def)
next
  case (flush_page t A a)
  show ?case by (rule inv_flush_page [OF flush_page.IH])
qed (auto intro: inv_flush inv_set_page inv_set_dirty inv_reset_dirty)

lemma tag_invalid: "bit c 3 \<Longrightarrow> subpage b \<noteq> tag c"
proof
  assume c: "bit c 3" "subpage b = tag c"
  have "bit (subpage c OR push_bit 3 1) 3" by (simp only: bit_or_iff bit_push_bit_iff bit_1_iff) simp
  then have "bit (tag c) 3" using c(1) by (simp add: tag_cases)
  moreover have "\<not> bit (subpage b) 3" unfolding subpage_def mask_10 by (simp add: bit_simps)
  ultimately show False using c(2) by simp
qed

section \<open>Properties\<close>

text \<open>C31: The loop that widens the region of large pages ends: after at most 32 shifts the mask no longer tells the region and the new page
  apart, and it is the narrowest of the shifted masks for which this holds.\<close>

theorem widen_mask_ends:
  "\<exists>n\<le>32. widen_mask a v m = push_bit n m \<and> a AND push_bit n m = v AND push_bit n m \<and>
    (\<forall>j<n. a AND push_bit j m \<noteq> v AND push_bit j m)"
proof -
  have x: "(a XOR v) AND w = 0 \<longleftrightarrow> a AND w = v AND w" for w by (auto simp: bit_eq_iff bit_simps)
  obtain n where n: "widen_mask a v m = push_bit n m" "(a XOR v) AND push_bit n m = 0" "\<forall>j<n. (a XOR v) AND push_bit j m \<noteq> 0"
    using widen_mask_spec [of a v m] by blast
  have "push_bit 32 m = 0" by (auto simp: bit_eq_iff bit_simps)
  then have "\<not> 32 < n" using n(3) by (metis and_zero_eq)
  then show ?thesis using n unfolding x by (intro exI [of _ n]) simp
qed

theorem widen_mask_ends_witness:
  "widen_mask 0x1000 0x2000 0xfffff000 = 0xffffc000 \<and> (\<exists>n\<le>32. push_bit n 0xfffff000 = (0xffffc000 :: u32) \<and>
     (\<forall>j<n. (0x1000 :: u32) AND push_bit j 0xfffff000 \<noteq> 0x2000 AND push_bit j 0xfffff000))"
proof -
  have w: "widen_mask 0x1000 0x2000 0xfffff000 = 0xffffc000" by (simp add: widen_mask.simps)
  from widen_mask_ends [of "0x1000" "0x2000" "0xfffff000"] show ?thesis unfolding w by metis
qed

text \<open>C5: A flush of an address is complete, also in the presence of large pages. Whatever pages, of any power of two from a kilobyte on, were entered and
  flushed before, an address that still hits in some mode for some access after the flush lies in a page that was entered in this mode, and
  no page entered for it covers the flushed address.\<close>

theorem tlb_flush_page_complete:
  assumes "tlb_run pm t A" and "e = tlb_table (tlb_flush_page a t) idx (tlb_index b)" and "c \<in> {addr_read e, addr_write e, addr_code e}"
    and "subpage b = tag c"
  shows "(\<exists>k. (idx, subpage b, k) \<in> A) \<and> (\<forall>k. (idx, subpage b, k) \<in> A \<longrightarrow> \<not> same_block k a (subpage b))"
proof -
  let ?A = "if in_region t a then {} else {(idx, v, k) \<in> A. \<not> same_block k a v}"
  have "tlb_inv (tlb_flush_page a t) ?A" by (rule inv_flush_page [OF tlb_run_inv [OF assms(1)]])
  then have "tag_live ?A idx (tlb_index b) c" using assms(2,3) by (auto simp: tlb_inv_def entry_live_def)
  moreover have v: "\<not> bit c 3" using assms(4) tag_invalid by blast
  moreover have "subpage c = subpage b" using assms(4) v by (simp add: tag_cases)
  ultimately obtain k where k: "\<not> in_region t a" "(idx, subpage b, k) \<in> A" "\<not> same_block k a (subpage b)"
    by (auto simp: tag_live_def split: if_splits)
  have "\<not> same_block l a (subpage b)" if l: "(idx, subpage b, l) \<in> A" for l
  proof
    assume sb: "same_block l a (subpage b)"
    have inv: "10 \<le> k \<and> (l \<noteq> 10 \<longrightarrow> in_region t a)" using tlb_run_inv [OF assms(1)] k(2) l sb by (auto simp: tlb_inv_def)
    then have "l = 10" using k(1) by blast
    then have "same_block k a (subpage b)" using sb inv by (auto simp: same_block_def intro: block_mask_narrow)
    then show False using k(3) by blast
  qed
  then show ?thesis using k(2) by blast
qed

definition tlb0 :: tlb where
  "tlb0 = \<lparr>tlb_table = (\<lambda>_ _. s_cputlb_empty_entry), t_iotlb = (\<lambda>_ _. 0), tlb_flush_addr = 0, tlb_flush_mask = 0\<rparr>"

definition pm0 :: phys_map where
  "pm0 = \<lparr>pm_page = (\<lambda>p. Some (push_bit 10 p, push_bit 10 p)), pm_blocks = [(0, 0x100000000, 0x7f0000000000)], pm_clean = (\<lambda>_. False),
     pm_watchpoints = [], pm_io_mem_watch = 0\<rparr>"

theorem tlb_flush_page_complete_witness:
  "\<exists>t. tlb_set_page pm0 0x5000 0x5000 3 0 0x400 (tlb_flush tlb0) = Inr t \<and> tlb_run pm0 t {(0, 0x5000, 10)} \<and>
     subpage 0x5004 = tag (addr_read (tlb_table (tlb_flush_page 0x9000 t) 0 (tlb_index 0x5004))) \<and> \<not> same_block 10 0x9000 0x5000"
proof -
  have r0: "tlb_run pm0 (tlb_flush tlb0) {}" by (rule tlb_run.start) (simp add: tlb0_def)
  have sp: "subpage 0x5000 = 0x5000" "subpage 0x5004 = 0x5000" "subpage 0x9000 = 0x9000" by (simp_all add: subpage_def)
  have "\<exists>t. tlb_set_page pm0 0x5000 0x5000 3 0 0x400 (tlb_flush tlb0) = Inr t"
    by (simp add: tlb_set_page_def TARGET_PAGE_SIZE_def qemu_get_ram_ptr_def phys_desc_def pm0_def Let_def)
  then obtain t where t: "tlb_set_page pm0 0x5000 0x5000 3 0 0x400 (tlb_flush tlb0) = Inr t" by blast
  have r: "tlb_run pm0 t {(0, 0x5000, 10)}"
    using tlb_run.set_page [OF r0, of 0 10 "0x5000" "0x5000" 3 t] t unfolding sp by (simp add: NB_MMU_MODES_def)
  obtain h io where t2: "t = (tlb_flush tlb0)\<lparr>t_iotlb := io,
      tlb_table := (tlb_table (tlb_flush tlb0))(0 := (tlb_table (tlb_flush tlb0) 0)(tlb_index 0x5000 := new_entry pm0 0x5000 (phys_desc pm0 0x5000) 3 h))\<rparr>"
    using set_page_result [OF t] by (auto simp: TARGET_PAGE_SIZE_def)
  have i: "tlb_index 0x5004 = 20" "tlb_index 0x5000 = 20" "tlb_index 0x9000 = 36" by (simp_all add: tlb_index_def drop_bit_eq_div)
  have "addr_read (new_entry pm0 0x5000 (phys_desc pm0 0x5000) 3 h) = 0x5000"
    by (simp add: new_entry_def pm0_def phys_desc_def is_io_def IO_MEM_ROM_def IO_MEM_ROMD_def page_defs)
  then have h: "subpage 0x5004 = tag (addr_read (tlb_table (tlb_flush_page 0x9000 t) 0 (tlb_index 0x5004)))"
    unfolding t2 by (simp add: tlb_flush_page_def tlb_flush_def sp i tag_def TLB_INVALID_MASK_def)
  from tlb_flush_page_complete [OF r refl insertI1 h] t r h show ?thesis unfolding sp by blast
qed

end
