(* ===== verification/Soft_Mmu.thy ===== *)
theory Soft_Mmu
  imports Soft_Tlb
begin

text \<open>
  Loads of the guest through the software TLB: \<open>tlb_fill\<close> of \<open>target-arm/op_helper.c\<close>, which walks the page tables on a miss, and the little-endian
  load of \<open>include/exec/softmmu_template.h\<close>, for sizes of one to eight bytes. The result is compared with a specification that has no TLB and
  walks the page tables for each byte.
\<close>

section \<open>Loads\<close>

text \<open>
  An access ends with a value, raises an exception of the guest (with the fault registers set), or fails. \<open>ldl\<close> loads a word of
  a page table, \<open>host\<close> is the memory of the host, and \<open>io\<close> gives what the device of an index returns for a physical address and a size. Loads of \<open>2 ^ s\<close> bytes are little-endian; \<open>s\<close> is the macro \<open>SHIFT\<close>. A first attempt may find
  that the access has to be split in two aligned ones (\<open>None\<close>); as these stay in their page, they are not split again.
\<close>

datatype 'a outcome = Done 'a tlb | Raised CPUARMState tlb | Failed fault

fun out_bind :: "'a outcome \<Rightarrow> ('a \<Rightarrow> tlb \<Rightarrow> 'b outcome) \<Rightarrow> 'b outcome" where
  "out_bind (Done x t) f = f x t"
| "out_bind (Raised env t) f = Raised env t"
| "out_bind (Failed e) f = Failed e"

definition tlb_fill :: "(u32 \<Rightarrow> u32) \<Rightarrow> CPUARMState \<Rightarrow> phys_map \<Rightarrow> u32 \<Rightarrow> nat \<Rightarrow> nat \<Rightarrow> tlb \<Rightarrow> unit outcome" where
  "tlb_fill ldl env pm addr is_write mmu_idx t =
     (case cpu_arm_handle_mmu_fault ldl env addr is_write mmu_idx of
        Inl e \<Rightarrow> Failed e
      | Inr (ret, env', None) \<Rightarrow> Raised env' t
      | Inr (ret, env', Some (Tlb_Entry va pa prot idx sz)) \<Rightarrow>
          (case tlb_set_page pm va (ucast pa) prot idx sz t of Inl e \<Rightarrow> Failed e | Inr t' \<Rightarrow> Done () t'))"

fun le_value :: "u8 list \<Rightarrow> u64" where
  "le_value [] = 0"
| "le_value (b # bs) = ucast b OR push_bit 8 (le_value bs)"

definition io_read :: "(nat \<Rightarrow> u64 \<Rightarrow> nat \<Rightarrow> u64) \<Rightarrow> nat \<Rightarrow> u64 \<Rightarrow> u32 \<Rightarrow> u64" where
  "io_read io s physaddr addr =
     (let index = unat (drop_bit 3 physaddr AND 0x7f); pa = (physaddr AND NOT 0x3ff) + ucast addr
      in if s \<le> 2 then io index pa (2 ^ s) else io index pa 4 OR push_bit 32 (io index (pa + 4) 4))"

definition ld_page ::
  "(u32 \<Rightarrow> u32) \<Rightarrow> CPUARMState \<Rightarrow> phys_map \<Rightarrow> (nat \<Rightarrow> u64 \<Rightarrow> nat \<Rightarrow> u64) \<Rightarrow> (u64 \<Rightarrow> u8) \<Rightarrow> nat \<Rightarrow> u32 \<Rightarrow> nat \<Rightarrow> tlb \<Rightarrow> u64 option outcome" where
  "ld_page ldl env pm io host s addr mmu_idx t =
     (let i = tlb_index addr
      in out_bind (if subpage addr \<noteq> tag (addr_read (tlb_table t mmu_idx i)) then tlb_fill ldl env pm addr 0 mmu_idx t else Done () t)
           (\<lambda>_ t1. let e = tlb_table t1 mmu_idx i
                   in if addr_read e AND 0x3ff \<noteq> 0 then if addr AND mask s \<noteq> 0 then Done None t1
                        else Done (Some (take_bit (8 * 2 ^ s) (io_read io s (t_iotlb t1 mmu_idx i) addr))) t1
                      else if 0 < s \<and> 0x400 \<le> unat (addr AND 0x3ff) + 2 ^ s - 1 then Done None t1
                      else Done (Some (le_value (map (\<lambda>k. host (ucast addr + te_addend e + of_nat k)) [0..<2 ^ s]))) t1))"

definition helper_le_ld ::
  "(u32 \<Rightarrow> u32) \<Rightarrow> CPUARMState \<Rightarrow> phys_map \<Rightarrow> (nat \<Rightarrow> u64 \<Rightarrow> nat \<Rightarrow> u64) \<Rightarrow> (u64 \<Rightarrow> u8) \<Rightarrow> nat \<Rightarrow> u32 \<Rightarrow> nat \<Rightarrow> tlb \<Rightarrow> u64 outcome" where
  "helper_le_ld ldl env pm io host s addr mmu_idx t =
     out_bind (ld_page ldl env pm io host s addr mmu_idx t) (\<lambda>res t1.
       case res of
         Some v \<Rightarrow> Done v t1
       | None \<Rightarrow>
           let addr1 = addr AND NOT (mask s); addr2 = addr1 + 2 ^ s; shift = unat (addr AND mask s) * 8
           in out_bind (ld_page ldl env pm io host s addr1 mmu_idx t1) (\<lambda>res1 t2.
              out_bind (ld_page ldl env pm io host s addr2 mmu_idx t2) (\<lambda>res2 t3.
                case (res1, res2) of
                  (Some v1, Some v2) \<Rightarrow> Done (take_bit (8 * 2 ^ s) (drop_bit shift v1 OR push_bit (8 * 2 ^ s - shift) v2)) t3
                | _ \<Rightarrow> Failed Undefined)))"

section \<open>Agreement with the page tables\<close>

definition host_of :: "phys_map \<Rightarrow> u32 \<Rightarrow> u64 res" where
  "host_of pm phys = res_bind (qemu_get_ram_ptr pm (phys_desc pm (ucast phys) AND NOT 0x3ff)) (\<lambda>h. Inr (h + ucast (phys AND 0x3ff)))"

definition walks_to :: "(u32 \<Rightarrow> u32) \<Rightarrow> CPUARMState \<Rightarrow> nat \<Rightarrow> nat \<Rightarrow> u32 \<Rightarrow> u32 \<Rightarrow> bool" where
  "walks_to ldl env idx acc b phys \<longleftrightarrow> (\<exists>prot sz. get_phys_addr ldl env b acc (idx = MMU_USER_IDX) = Inr (Mapped phys prot sz))"

definition watched :: "phys_map \<Rightarrow> u32 \<Rightarrow> bool" where
  "watched pm v \<longleftrightarrow> list_ex (\<lambda>w. v = subpage w) (pm_watchpoints pm)"

text \<open>
  A tag that matches an address says that a walk for the access succeeds. Without the flag for devices the entry also gives the host address, and with
  it a load has to go to a device (or a watchpoint).
\<close>

definition tag_ok :: "(u32 \<Rightarrow> u32) \<Rightarrow> CPUARMState \<Rightarrow> phys_map \<Rightarrow> nat \<Rightarrow> nat \<Rightarrow> u32 \<Rightarrow> u64 \<Rightarrow> u32 \<Rightarrow> bool" where
  "tag_ok ldl env pm idx acc c addend b \<longleftrightarrow>
     (subpage b = tag c \<longrightarrow> (\<exists>phys. walks_to ldl env idx acc b phys \<and>
        (c AND TLB_MMIO = 0 \<longrightarrow> host_of pm phys = Inr (ucast b + addend)) \<and>
        (acc = 0 \<longrightarrow> c AND 0x3ff \<noteq> 0 \<longrightarrow> is_io (phys_desc pm (ucast phys)) \<or> watched pm (subpage b))))"

definition entry_ok :: "(u32 \<Rightarrow> u32) \<Rightarrow> CPUARMState \<Rightarrow> phys_map \<Rightarrow> nat \<Rightarrow> CPUTLBEntry \<Rightarrow> u32 \<Rightarrow> bool" where
  "entry_ok ldl env pm idx e b \<longleftrightarrow>
     tag_ok ldl env pm idx 0 (addr_read e) (te_addend e) b \<and> tag_ok ldl env pm idx 1 (addr_write e) (te_addend e) b"

definition tlb_ok :: "(u32 \<Rightarrow> u32) \<Rightarrow> CPUARMState \<Rightarrow> phys_map \<Rightarrow> tlb \<Rightarrow> bool" where
  "tlb_ok ldl env pm t \<longleftrightarrow> (\<forall>idx b. idx < NB_MMU_MODES \<longrightarrow> entry_ok ldl env pm idx (tlb_table t idx (tlb_index b)) b)"

lemma page_add: "ucast (b :: u32) = (ucast (subpage b) + ucast (b AND 0x3ff) :: u64)"
proof -
  have "ucast (subpage b) + ucast (b AND 0x3ff) = (ucast (subpage b) OR ucast (b AND 0x3ff) :: u64)"
    unfolding subpage_def mask_10 by (rule disjunctive_add) (auto simp: bit_simps)
  also have "\<dots> = ucast b" unfolding subpage_def mask_10 by (rule bit_word_eqI) (auto simp: bit_simps dest: bit_imp_le_length)
  finally show ?thesis by simp
qed

lemma page_add_32: "subpage b OR (b AND 0x3ff) = b"
  unfolding subpage_def mask_10 by (auto simp: bit_eq_iff bit_simps)

lemma move_page_parts:
  "move_page p b AND 0x3ff = b AND 0x3ff" "subpage (move_page p b) = subpage p"
  "phys_desc pm (ucast (move_page p b)) = phys_desc pm (ucast (subpage p))"
proof -
  show "move_page p b AND 0x3ff = b AND 0x3ff" "subpage (move_page p b) = subpage p"
    unfolding move_page_def subpage_def mask_10 by (auto simp: bit_eq_iff bit_simps)
  have "drop_bit 10 (ucast (move_page p b) :: u64) = drop_bit 10 (ucast (subpage p))"
    unfolding move_page_def subpage_def mask_10 by (auto simp: bit_eq_iff bit_simps)
  then show "phys_desc pm (ucast (move_page p b)) = phys_desc pm (ucast (subpage p))" by (simp add: phys_desc_def)
qed

lemma host_of_page:
  assumes "qemu_get_ram_ptr pm (phys_desc pm (ucast (subpage p)) AND NOT 0x3ff) = Inr h" and "subpage b = v"
  shows "host_of pm (move_page p b) = Inr (ucast b + (h - ucast v))"
proof -
  have "ucast b + (h - ucast v) = h + ucast (b AND 0x3ff)" using page_add [of b] assms(2) by simp
  then show ?thesis unfolding host_of_def move_page_parts assms(1) by simp
qed

lemma tlb_index_page: "subpage b = subpage a \<Longrightarrow> tlb_index b = tlb_index a"
proof -
  assume "subpage b = subpage a"
  then have "drop_bit 10 (b AND NOT (mask 10)) = drop_bit 10 (a AND NOT (mask 10))" by (simp only: subpage_def mask_10)
  moreover have "drop_bit 10 (x AND NOT (mask 10)) = drop_bit 10 x" for x :: u32
    by (auto simp: bit_eq_iff bit_simps dest: bit_imp_le_length)
  ultimately show ?thesis by (simp add: tlb_index_def)
qed


lemma page_flags:
  "subpage v AND 0x3ff = 0" "tag (subpage v) = subpage v" "tag (subpage v OR TLB_MMIO) = subpage v" "tag (subpage v OR TLB_NOTDIRTY) = subpage v"
  "tag (subpage v OR TLB_MMIO OR TLB_NOTDIRTY) = subpage v"
proof -
  show "subpage v AND 0x3ff = 0" unfolding subpage_def mask_10 by (auto simp: bit_eq_iff bit_simps)
  have t: "tag (subpage v OR f) = subpage v" if "f AND (NOT 0x3ff OR 8) = 0" for f
    using flags_page [OF that, of v] by (simp add: tag_cases)
  from t [OF flags_zero(4)] show "tag (subpage v) = subpage v" by simp
  from t [OF flags_zero(1)] t [OF flags_zero(2)] t [OF flags_zero(3)] show "tag (subpage v OR TLB_MMIO) = subpage v"
    "tag (subpage v OR TLB_NOTDIRTY) = subpage v" "tag (subpage v OR TLB_MMIO OR TLB_NOTDIRTY) = subpage v" by blast+
qed

lemma new_entry_hit:
  assumes "v = subpage v"
  shows "allows prot 0 \<Longrightarrow> tag (addr_read (new_entry pm v pd prot h)) = v" "allows prot 1 \<Longrightarrow> tag (addr_write (new_entry pm v pd prot h)) = v"
    "\<not> allows prot 0 \<Longrightarrow> addr_read (new_entry pm v pd prot h) = - 1" "\<not> allows prot 1 \<Longrightarrow> addr_write (new_entry pm v pd prot h) = - 1"
    "allows prot 0 \<Longrightarrow> addr_read (new_entry pm v pd prot h) AND 0x3ff \<noteq> 0 \<Longrightarrow> is_io pd \<or> watched pm v"
proof -
  have f: "v AND 0x3ff = 0" "tag v = v" "tag (v OR TLB_MMIO) = v" "tag (v OR TLB_NOTDIRTY) = v" "tag (v OR TLB_MMIO OR TLB_NOTDIRTY) = v"
    using page_flags [of v] assms by simp_all
  have i: "((v OR TLB_MMIO) OR TLB_MMIO) OR f = (v OR TLB_MMIO) OR f" "(v OR TLB_MMIO) OR TLB_MMIO = v OR TLB_MMIO" for f
    by (simp_all add: or.assoc)
  show "allows prot 0 \<Longrightarrow> tag (addr_read (new_entry pm v pd prot h)) = v" "allows prot 1 \<Longrightarrow> tag (addr_write (new_entry pm v pd prot h)) = v"
    "\<not> allows prot 0 \<Longrightarrow> addr_read (new_entry pm v pd prot h) = - 1" "\<not> allows prot 1 \<Longrightarrow> addr_write (new_entry pm v pd prot h) = - 1"
    "allows prot 0 \<Longrightarrow> addr_read (new_entry pm v pd prot h) AND 0x3ff \<noteq> 0 \<Longrightarrow> is_io pd \<or> watched pm v"
    unfolding new_entry_def Let_def CPUTLBEntry.simps i using f by (auto simp: allows_def watched_def or.assoc split: if_split_asm)
qed

lemma fill_entry:
  assumes "mmu_ok env" and "acc < 2" and "tlb_fill ldl env pm a acc idx t = Done () t'"
  shows "\<exists>phys prot sz h. get_phys_addr ldl env a acc (idx = MMU_USER_IDX) = Inr (Mapped phys prot sz) \<and>
    qemu_get_ram_ptr pm (phys_desc pm (ucast (subpage phys)) AND NOT 0x3ff) = Inr h \<and> allows (prot OR PAGE_EXEC) acc \<and>
    tlb_table t' = (tlb_table t)(idx := (tlb_table t idx)(tlb_index a :=
      new_entry pm (subpage a) (phys_desc pm (ucast (subpage phys))) (prot OR PAGE_EXEC) h)) \<and>
    (\<forall>b acc'. same_page a b \<longrightarrow> acc' < 2 \<longrightarrow> allows (prot OR PAGE_EXEC) acc' \<longrightarrow> walks_to ldl env idx acc' b (move_page phys b))"
proof -
  obtain phys prot sz where w: "get_phys_addr ldl env a acc (idx = MMU_USER_IDX) = Inr (Mapped phys prot sz)"
    and s: "tlb_set_page pm (subpage a) (ucast (subpage phys)) (prot OR PAGE_EXEC) idx sz t = Inr t'"
    using assms(3) by (cases "get_phys_addr ldl env a acc (idx = MMU_USER_IDX)")
      (auto simp: tlb_fill_def cpu_arm_handle_mmu_fault_def split: walk.splits if_splits sum.splits)
  have h: "cpu_arm_handle_mmu_fault ldl env a acc idx = Inr (0, env, Some (Tlb_Entry (subpage a) (subpage phys) (prot OR PAGE_EXEC) idx sz))"
    using w by (simp add: cpu_arm_handle_mmu_fault_def)
  have acc: "acc < 3" using assms(2) by simp
  have i: "tlb_index (subpage a) = tlb_index a" by (rule tlb_index_page) simp
  note e = tlb_entry_sound [OF assms(1) acc h]
  have "walks_to ldl env idx acc' b (move_page phys b)" if "same_page a b" "acc' < 2" "allows (prot OR PAGE_EXEC) acc'" for b acc'
    using e that by (simp add: walks_to_def page_start(6)) blast
  moreover obtain h io where "qemu_get_ram_ptr pm (phys_desc pm (ucast (subpage phys)) AND NOT 0x3ff) = Inr h"
    "t' = (if sz \<noteq> TARGET_PAGE_SIZE then tlb_add_large_page (subpage a) sz t else t)\<lparr>t_iotlb := io,
      tlb_table := (tlb_table t)(idx := (tlb_table t idx)(tlb_index (subpage a) :=
        new_entry pm (subpage a) (phys_desc pm (ucast (subpage phys))) (prot OR PAGE_EXEC) h))\<rparr>"
    using set_page_result [OF s] by blast
  moreover from this(2) have "tlb_table t' = (tlb_table t)(idx := (tlb_table t idx)(tlb_index a :=
        new_entry pm (subpage a) (phys_desc pm (ucast (subpage phys))) (prot OR PAGE_EXEC) h))" unfolding i by simp
  ultimately show ?thesis using w e by blast
qed

lemma same_subpage: "same_page a b \<longleftrightarrow> subpage b = subpage a"
  by (auto simp: same_page_def subpage_def)

lemma fill_ok:
  assumes "mmu_ok env" and "acc < 2" and "tlb_ok ldl env pm t" and "tlb_fill ldl env pm a acc idx t = Done () t'"
  shows "tlb_ok ldl env pm t'" and "acc = 0 \<Longrightarrow> tag (addr_read (tlb_table t' idx (tlb_index a))) = subpage a"
    and "acc = 1 \<Longrightarrow> tag (addr_write (tlb_table t' idx (tlb_index a))) = subpage a"
proof -
  obtain phys prot sz h where f: "qemu_get_ram_ptr pm (phys_desc pm (ucast (subpage phys)) AND NOT 0x3ff) = Inr h"
    "allows (prot OR PAGE_EXEC) acc"
    "tlb_table t' = (tlb_table t)(idx := (tlb_table t idx)(tlb_index a :=
      new_entry pm (subpage a) (phys_desc pm (ucast (subpage phys))) (prot OR PAGE_EXEC) h))"
    "\<And>b acc'. same_page a b \<Longrightarrow> acc' < 2 \<Longrightarrow> allows (prot OR PAGE_EXEC) acc' \<Longrightarrow> walks_to ldl env idx acc' b (move_page phys b)"
    using fill_entry [OF assms(1,2,4)] by blast
  define pr where "pr = prot OR PAGE_EXEC"
  define e where "e = new_entry pm (subpage a) (phys_desc pm (ucast (subpage phys))) pr h"
  have v: "subpage a = subpage (subpage a)" by simp
  note hit = new_entry_hit [OF v, of pr pm "phys_desc pm (ucast (subpage phys))" h, folded e_def]
  have add: "te_addend e = h - ucast (subpage a)" by (simp add: e_def new_entry_def Let_def)
  have r: "tag_ok ldl env pm idx 0 (addr_read e) (te_addend e) b" for b
  proof (cases "subpage b = tag (addr_read e)")
    case True
    then have "allows pr 0" using hit(3) tag_invalid [of "- 1" b] by (cases "allows pr 0") auto
    then have "subpage b = subpage a" using True hit(1) by simp
    then have "walks_to ldl env idx 0 b (move_page phys b)" "host_of pm (move_page phys b) = Inr (ucast b + te_addend e)"
      "addr_read e AND 0x3ff \<noteq> 0 \<Longrightarrow> is_io (phys_desc pm (ucast (move_page phys b))) \<or> watched pm (subpage b)"
      using f(4) [of b 0] host_of_page [OF f(1)] hit(5) \<open>allows pr 0\<close> by (auto simp: same_subpage add move_page_parts pr_def)
    then show ?thesis unfolding tag_ok_def by blast
  qed (simp add: tag_ok_def)
  have w: "tag_ok ldl env pm idx 1 (addr_write e) (te_addend e) b" for b
  proof (cases "subpage b = tag (addr_write e)")
    case True
    then have "allows pr 1" using hit(4) tag_invalid [of "- 1" b] by (cases "allows pr 1") auto
    then have "subpage b = subpage a" using True hit(2) by simp
    then have "walks_to ldl env idx 1 b (move_page phys b)" "host_of pm (move_page phys b) = Inr (ucast b + te_addend e)"
      using f(4) [of b 1] host_of_page [OF f(1)] \<open>allows pr 1\<close> by (auto simp: same_subpage add pr_def)
    then show ?thesis unfolding tag_ok_def by auto
  qed (simp add: tag_ok_def)
  show "tlb_ok ldl env pm t'" using assms(3) r w unfolding tlb_ok_def entry_ok_def f(3) e_def [symmetric] pr_def [symmetric]
    by (auto simp: fun_upd_def)
  show "acc = 0 \<Longrightarrow> tag (addr_read (tlb_table t' idx (tlb_index a))) = subpage a"
    "acc = 1 \<Longrightarrow> tag (addr_write (tlb_table t' idx (tlb_index a))) = subpage a"
    using f(2,3) hit(1,2) unfolding e_def pr_def by simp_all
qed


text \<open>Flushing and the tracking of modified pages keep the agreement; an empty TLB agrees with any tables.\<close>

lemma empty_ok: "entry_ok ldl env pm idx s_cputlb_empty_entry b"
  using tag_invalid [of "- 1" b] by (simp add: entry_ok_def tag_ok_def s_cputlb_empty_entry_def)

lemma flush_agrees: "tlb_ok ldl env pm (tlb_flush t)"
  using tlb_index_lt by (simp add: tlb_ok_def tlb_flush_def empty_ok)

lemma table_agrees:
  assumes "tlb_ok ldl env pm t" and "\<And>idx i b. entry_ok ldl env pm idx (tlb_table t idx i) b \<Longrightarrow> entry_ok ldl env pm idx (f idx i) b"
  shows "tlb_ok ldl env pm (t\<lparr>tlb_table := f\<rparr>)"
  using assms by (simp add: tlb_ok_def)

lemma flush_page_agrees: "tlb_ok ldl env pm t \<Longrightarrow> tlb_ok ldl env pm (tlb_flush_page a t)"
  unfolding tlb_flush_page_def Let_def by (auto intro!: flush_agrees table_agrees simp: tlb_flush_entry_def empty_ok)

lemma mmio_flag: "c AND TLB_MMIO = (c AND 0x3ff) AND TLB_MMIO"
  by (simp add: and.assoc TLB_MMIO_def)

lemma reset_dirty_agrees: "tlb_ok ldl env pm t \<Longrightarrow> tlb_ok ldl env pm (cpu_tlb_reset_dirty_all start len t)"
proof -
  have "tag_ok ldl env pm idx 1 (subpage c OR TLB_NOTDIRTY) d b" if "tag_ok ldl env pm idx 1 c d b" "c AND 0x3ff = 0" for idx c d b
  proof -
    have "c = subpage c" using that(2) page_add_32 [of c] by simp
    then have "tag c = subpage c" using page_flags(2) [of c] by simp
    then show ?thesis using that page_flags(4) [of c] mmio_flag [of c] by (auto simp: tag_ok_def)
  qed
  then have "entry_ok ldl env pm idx e b \<Longrightarrow> entry_ok ldl env pm idx (tlb_reset_dirty_range start len e) b" for idx e b
    by (simp add: entry_ok_def tlb_reset_dirty_range_def tlb_is_dirty_ram_def)
  then show "tlb_ok ldl env pm t \<Longrightarrow> tlb_ok ldl env pm (cpu_tlb_reset_dirty_all start len t)"
    unfolding cpu_tlb_reset_dirty_all_def by (auto intro!: table_agrees)
qed

lemma set_dirty_agrees: "tlb_ok ldl env pm t \<Longrightarrow> tlb_ok ldl env pm (tlb_set_dirty v t)"
proof -
  have "tag_ok ldl env pm idx 1 (subpage v) d b" if "tag_ok ldl env pm idx 1 (subpage v OR TLB_NOTDIRTY) d b" for idx d b
  proof -
    have "TLB_NOTDIRTY AND TLB_MMIO = 0" by (simp add: TLB_NOTDIRTY_def TLB_MMIO_def)
    then have "(subpage v OR TLB_NOTDIRTY) AND TLB_MMIO = 0"
      using mmio_flag [of "subpage v"] by (simp add: bit.conj_disj_distrib2 page_flags(1))
    then show ?thesis using that page_flags(2,4) [of v] by (auto simp: tag_ok_def)
  qed
  then have "entry_ok ldl env pm idx e b \<Longrightarrow> entry_ok ldl env pm idx (tlb_set_dirty1 (subpage v) e) b" for idx e b
    by (auto simp: entry_ok_def tlb_set_dirty1_def)
  then show "tlb_ok ldl env pm t \<Longrightarrow> tlb_ok ldl env pm (tlb_set_dirty v t)"
    unfolding tlb_set_dirty_def Let_def by (auto intro!: table_agrees)
qed

section \<open>Loads return what a walk for each byte gives\<close>

lemma v5_page_size: "v5_page env a ty d desc = Inr p \<Longrightarrow> TARGET_PAGE_SIZE \<le> p_size p"
  by (auto simp: v5_page_def Let_def TARGET_PAGE_SIZE_def split: if_splits)

lemma v6_page_size: "v6_page a d desc = Inr p \<Longrightarrow> TARGET_PAGE_SIZE \<le> p_size p"
  by (auto simp: v6_page_def Let_def TARGET_PAGE_SIZE_def split: if_splits)

lemma v5_lookup_size: "v5_lookup ldl env a = Inr p \<Longrightarrow> TARGET_PAGE_SIZE \<le> p_size p"
  unfolding v5_lookup_def Let_def by (auto dest: v5_page_size simp: TARGET_PAGE_SIZE_def split: if_splits)

lemma v6_lookup_size: "v6_lookup ldl env a = Inr p \<Longrightarrow> TARGET_PAGE_SIZE \<le> p_size p"
  unfolding v6_lookup_def Let_def by (auto dest: v6_page_size simp: TARGET_PAGE_SIZE_def split: if_splits)

lemma get_phys_addr_size:
  assumes "\<not> arm_feature env ARM_FEATURE_MPU" and "get_phys_addr ldl env a acc u = Inr (Mapped phys prot sz)"
  shows "TARGET_PAGE_SIZE \<le> sz"
proof -
  have "TARGET_PAGE_SIZE \<le> sz" if "get_phys_addr_v5 ldl env t acc u = Inr (Mapped phys prot sz)" for t
    using that by (auto simp: get_phys_addr_v5_def res_bind_eq_Inr dest: v5_lookup_size split: sum.splits if_splits)
  moreover have "TARGET_PAGE_SIZE \<le> sz" if "get_phys_addr_v6 ldl env t acc u = Inr (Mapped phys prot sz)" for t
    using that by (auto simp: get_phys_addr_v6_def v6_check_def res_bind_eq_Inr dest: v6_lookup_size split: sum.splits if_splits)
  ultimately show ?thesis using assms by (auto simp: get_phys_addr_def Let_def split: if_splits)
qed

text \<open>The address can be read and is backed by RAM.\<close>

definition ram_backed :: "(u32 \<Rightarrow> u32) \<Rightarrow> CPUARMState \<Rightarrow> phys_map \<Rightarrow> nat \<Rightarrow> u32 \<Rightarrow> bool" where
  "ram_backed ldl env pm idx b \<longleftrightarrow> \<not> watched pm (subpage b) \<and>
     (\<forall>phys. walks_to ldl env idx 0 b phys \<longrightarrow> \<not> is_io (phys_desc pm (ucast phys)) \<and> (\<exists>h. host_of pm phys = Inr h))"

definition loads :: "(u32 \<Rightarrow> u32) \<Rightarrow> CPUARMState \<Rightarrow> phys_map \<Rightarrow> (u64 \<Rightarrow> u8) \<Rightarrow> nat \<Rightarrow> u32 \<Rightarrow> u8 \<Rightarrow> bool" where
  "loads ldl env pm host idx b x \<longleftrightarrow> (\<exists>phys h. walks_to ldl env idx 0 b phys \<and> host_of pm phys = Inr h \<and> x = host h)"

lemma host_of_desc: "host_of pm phys = Inr h \<Longrightarrow>
  \<exists>g. qemu_get_ram_ptr pm (phys_desc pm (ucast (subpage phys)) AND NOT 0x3ff) = Inr g \<and> h = g + ucast (phys AND 0x3ff)"
proof -
  have m: "move_page phys phys = phys" by (rule same_page_move) (simp add: same_page_def)
  assume "host_of pm phys = Inr h"
  then show ?thesis using move_page_parts(3) [of pm phys phys] unfolding m by (auto simp: host_of_def res_bind_eq_Inr)
qed

lemma fill_result:
  assumes "mmu_ok env" and "ram_backed ldl env pm idx a"
  shows "(\<exists>t'. tlb_fill ldl env pm a 0 idx t = Done () t') \<or>
    (\<exists>env'. tlb_fill ldl env pm a 0 idx t = Raised env' t \<and> cpu_arm_handle_mmu_fault ldl env a 0 idx = Inr (1, env', None))"
proof -
  let ?u = "idx = MMU_USER_IDX"
  obtain w where w: "get_phys_addr ldl env a 0 ?u = Inr w" using get_phys_addr_total by blast
  show ?thesis
  proof (cases w)
    case (Mapped phys prot sz)
    then have "walks_to ldl env idx 0 a phys" using w by (auto simp: walks_to_def)
    then obtain h g where "host_of pm phys = Inr h" "qemu_get_ram_ptr pm (phys_desc pm (ucast (subpage phys)) AND NOT 0x3ff) = Inr g"
      using assms(2) host_of_desc by (auto simp: ram_backed_def) blast
    moreover have "\<not> sz < TARGET_PAGE_SIZE"
      using get_phys_addr_size [of env ldl a 0 ?u phys prot sz] w Mapped assms(1) by (auto simp: mmu_ok_def)
    ultimately show ?thesis using w Mapped by (auto simp: tlb_fill_def cpu_arm_handle_mmu_fault_def tlb_set_page_def Let_def)
  qed (use w in \<open>auto simp: tlb_fill_def cpu_arm_handle_mmu_fault_def\<close>)
qed

lemma ld_page_cases:
  assumes "mmu_ok env" and "tlb_ok ldl env pm t" and "idx < NB_MMU_MODES" and "ram_backed ldl env pm idx a"
  shows "(\<exists>t' phys h. tlb_ok ldl env pm t' \<and> walks_to ldl env idx 0 a phys \<and> host_of pm phys = Inr h \<and>
      ld_page ldl env pm io host s a idx t = Done (if 0 < s \<and> 0x400 \<le> unat (a AND 0x3ff) + 2 ^ s - 1 then None
        else Some (le_value (map (\<lambda>k. host (h + of_nat k)) [0..<2 ^ s]))) t') \<or>
    (\<exists>env'. ld_page ldl env pm io host s a idx t = Raised env' t \<and> cpu_arm_handle_mmu_fault ldl env a 0 idx = Inr (1, env', None))"
proof -
  define i where "i = tlb_index a"
  define r where "r = (if subpage a \<noteq> tag (addr_read (tlb_table t idx i)) then tlb_fill ldl env pm a 0 idx t else Done () t)"
  have "(\<exists>t'. r = Done () t' \<and> tlb_ok ldl env pm t' \<and> subpage a = tag (addr_read (tlb_table t' idx i))) \<or>
      (\<exists>env'. r = Raised env' t \<and> cpu_arm_handle_mmu_fault ldl env a 0 idx = Inr (1, env', None))"
  proof (cases "subpage a = tag (addr_read (tlb_table t idx i))")
    case True
    then show ?thesis using assms(2) by (simp add: r_def)
  next
    case False
    then have r: "r = tlb_fill ldl env pm a 0 idx t" by (simp add: r_def)
    have "tlb_ok ldl env pm t' \<and> subpage a = tag (addr_read (tlb_table t' idx i))" if "tlb_fill ldl env pm a 0 idx t = Done () t'" for t'
      using fill_ok(1,2) [OF assms(1) _ assms(2) that] by (simp add: i_def)
    then show ?thesis using fill_result [OF assms(1,4), of t] unfolding r by blast
  qed
  then show ?thesis
  proof (elim disjE exE conjE)
    fix t' assume t': "r = Done () t'" "tlb_ok ldl env pm t'" "subpage a = tag (addr_read (tlb_table t' idx i))"
    define e where "e = tlb_table t' idx i"
    have "tag_ok ldl env pm idx 0 (addr_read e) (te_addend e) a" using t'(2) assms(3) unfolding e_def i_def tlb_ok_def entry_ok_def by blast
    then obtain phys where p: "walks_to ldl env idx 0 a phys" "addr_read e AND TLB_MMIO = 0 \<longrightarrow> host_of pm phys = Inr (ucast a + te_addend e)"
      "addr_read e AND 0x3ff \<noteq> 0 \<longrightarrow> is_io (phys_desc pm (ucast phys)) \<or> watched pm (subpage a)"
      using t'(3) unfolding tag_ok_def e_def by auto
    have z: "addr_read e AND 0x3ff = 0" using p(1,3) assms(4) by (auto simp: ram_backed_def)
    have "addr_read e AND TLB_MMIO = (addr_read e AND 0x3ff) AND TLB_MMIO" by (simp add: and.assoc TLB_MMIO_def)
    then have h: "host_of pm phys = Inr (ucast a + te_addend e)" using z p(2) by simp
    have "ld_page ldl env pm io host s a idx t = Done (if 0 < s \<and> 0x400 \<le> unat (a AND 0x3ff) + 2 ^ s - 1 then None
        else Some (le_value (map (\<lambda>k. host ((ucast a + te_addend e) + of_nat k)) [0..<2 ^ s]))) t'"
      unfolding ld_page_def Let_def i_def [symmetric] r_def [symmetric] t'(1) out_bind.simps e_def [symmetric]
      by (cases "0 < s \<and> 0x400 \<le> unat (a AND 0x3ff) + 2 ^ s - 1") (simp_all only: z simp_thms if_True if_False)
    then show ?thesis using t'(2) p(1) h by blast
  qed (auto simp: ld_page_def Let_def i_def [symmetric] r_def [symmetric])
qed


text \<open>Walks within a page.\<close>

lemma walks_move: "mmu_ok env \<Longrightarrow> same_page a b \<Longrightarrow> walks_to ldl env idx acc a phys \<Longrightarrow> walks_to ldl env idx acc b (move_page phys b)"
  using get_phys_addr_same_page [of env a b ldl acc "idx = MMU_USER_IDX"] by (auto simp: walks_to_def moved_walk_def)

lemma walks_unique: "walks_to ldl env idx acc a p \<Longrightarrow> walks_to ldl env idx acc a q \<Longrightarrow> p = q"
  by (auto simp: walks_to_def)

lemma walk_offset: "mmu_ok env \<Longrightarrow> walks_to ldl env idx acc a phys \<Longrightarrow> phys AND 0x3ff = a AND 0x3ff"
proof -
  assume m: "mmu_ok env" and w: "walks_to ldl env idx acc a phys"
  have "same_page a a" by (simp add: same_page_def)
  then have "phys = move_page phys a" using walks_unique [OF w walks_move [OF m _ w]] by simp
  then show ?thesis using move_page_parts(1) [of phys a] by simp
qed

lemma same_page_sym: "same_page a b \<Longrightarrow> same_page b a"
  by (simp add: same_page_def)

lemma ram_backed_page:
  assumes "mmu_ok env" and "same_page a b" and "ram_backed ldl env pm idx a"
  shows "ram_backed ldl env pm idx b"
proof -
  have "\<not> is_io (phys_desc pm (ucast p)) \<and> (\<exists>h. host_of pm p = Inr h)" if p: "walks_to ldl env idx 0 b p" for p
  proof -
    define q where "q = move_page p a"
    have "walks_to ldl env idx 0 a q" unfolding q_def by (rule walks_move [OF assms(1) same_page_sym [OF assms(2)] p])
    then have q: "\<not> is_io (phys_desc pm (ucast q))" "\<exists>h. host_of pm q = Inr h" using assms(3) by (auto simp: ram_backed_def)
    have "phys_desc pm (ucast q) = phys_desc pm (ucast p)"
      using move_page_parts(3) [of pm p a] move_page_parts(3) [of pm p p] same_page_move [of p p] by (simp add: q_def same_page_def)
    then show ?thesis using q by (auto simp: host_of_def res_bind_eq_Inr)
  qed
  moreover have "subpage b = subpage a" using assms(2) by (simp add: same_subpage)
  ultimately show ?thesis using assms(3) by (auto simp: ram_backed_def)
qed

lemma page_step:
  assumes "unat (a AND 0x3ff) + k < 0x400"
  shows "same_page a (a + of_nat k)" and "(a + of_nat k) AND 0x3ff = (a AND 0x3ff) + of_nat k"
proof -
  define r :: u32 where "r = (a AND mask 10) + of_nat k"
  have u: "unat r = unat (a AND mask 10) + k" using assms unfolding mask_10 r_def by (simp add: unat_word_ariths unat_of_nat)
  then have "unat r < 2 ^ 10" using assms unfolding mask_10 by simp
  then have r: "r AND mask 10 = r" by (intro word_unat_eq_iff [THEN iffD2]) (simp only: unat_and_mask mod_less)
  have dis: "(a AND NOT (mask 10)) + r = (a AND NOT (mask 10)) OR r"
    by (rule disjunctive_add) (subst r [symmetric], auto simp: bit_simps)
  have "a = (a AND NOT (mask 10)) + (a AND mask 10)"
    by (subst disjunctive_add) (auto simp: bit_simps bit_eq_iff)
  then have "a + of_nat k = (a AND NOT (mask 10)) + r" by (simp add: r_def)
  then have e: "a + of_nat k = (a AND NOT (mask 10)) OR (r AND mask 10)" using dis r by simp
  show "same_page a (a + of_nat k)" unfolding same_page_def mask_10 e by (auto simp: bit_eq_iff bit_simps)
  show "(a + of_nat k) AND 0x3ff = (a AND 0x3ff) + of_nat k" unfolding mask_10 r_def [symmetric] e
    by (subst r [symmetric]) (auto simp: bit_eq_iff bit_simps)
qed

lemma byte_walk:
  assumes "mmu_ok env" and "walks_to ldl env idx 0 a phys" and "host_of pm phys = Inr h" and "unat (a AND 0x3ff) + k < 0x400"
  shows "loads ldl env pm host idx (a + of_nat k) (host (h + of_nat k))"
proof -
  let ?b = "a + of_nat k"
  obtain g where g: "qemu_get_ram_ptr pm (phys_desc pm (ucast (subpage phys)) AND NOT 0x3ff) = Inr g" "h = g + ucast (phys AND 0x3ff)"
    using host_of_desc [OF assms(3)] by blast
  have "k < 0x400" using assms(4) by simp
  have "unat (a AND 0x3ff) + k < 2 ^ 32" using assms(4) by simp
  then have u: "(ucast ((a AND 0x3ff) + of_nat k) :: u64) = ucast (a AND 0x3ff) + of_nat k"
    using \<open>k < 0x400\<close> by (intro word_unat_eq_iff [THEN iffD2]) (simp add: unat_word_ariths unat_of_nat unsigned_ucast_eq take_bit_nat_eq_self)
  have "host_of pm (move_page phys ?b) = Inr (h + of_nat k)"
    unfolding host_of_def move_page_parts g(1) page_step(2) [OF assms(4)] u using g(2) walk_offset [OF assms(1,2)] by simp
  then show ?thesis using walks_move [OF assms(1) page_step(1) [OF assms(4)] assms(2)] by (auto simp: loads_def)
qed

text \<open>Bytes of a value.\<close>

lemma bit_le_value: "bit (le_value bs) n \<longleftrightarrow> n < 64 \<and> n div 8 < length bs \<and> bit (bs ! (n div 8)) (n mod 8)"
proof (induction bs arbitrary: n)
  case (Cons b bs)
  show ?case
  proof (cases "n < 8")
    case True
    then show ?thesis by (simp add: bit_simps)
  next
    case False
    define m where "m = n - 8"
    have n: "n = m + 8" using False by (simp add: m_def)
    have "\<not> bit b n" using False bit_imp_le_length [of b n] by auto
    moreover have "(m + 8) div 8 = Suc (m div 8)" "(m + 8) mod 8 = m mod 8" by simp_all
    moreover have "bit (le_value (b # bs)) (m + 8) \<longleftrightarrow> m + 8 < 64 \<and> bit (le_value bs) m" using calculation(1) unfolding n by (auto simp: bit_simps)
    ultimately show ?thesis using Cons.IH [of m] unfolding n by auto
  qed
qed simp

lemma le_value_byte: "k < length bs \<Longrightarrow> length bs \<le> 8 \<Longrightarrow> (ucast (drop_bit (8 * k) (le_value bs)) :: u8) = bs ! k"
proof (rule bit_word_eqI)
  fix n :: nat assume k: "k < length bs" "length bs \<le> 8" and "n < LENGTH(8)"
  then have "(8 * k + n) div 8 = k" "(8 * k + n) mod 8 = n" by simp_all
  then show "bit (ucast (drop_bit (8 * k) (le_value bs)) :: u8) n = bit (bs ! k) n"
    using k \<open>n < LENGTH(8)\<close> by (simp add: bit_simps bit_le_value)
qed

lemma le_value_join:
  assumes "length xs = N" and "length ys = N" and "j \<le> N" and "N \<le> 8"
  shows "take_bit (8 * N) (drop_bit (8 * j) (le_value xs) OR push_bit (8 * N - 8 * j) (le_value ys)) = le_value (drop j xs @ take j ys)"
proof (rule bit_word_eqI)
  fix n :: nat assume "n < LENGTH(64)"
  define q where "q = n div 8"
  define r where "r = n mod 8"
  have n: "n = 8 * q + r" "r < 8" by (simp_all add: q_def r_def)
  have d: "(8 * a + r) div 8 = a" "(8 * a + r) mod 8 = r" for a using n(2) by simp_all
  have e: "8 * j + (8 * q + r) = 8 * (j + q) + r" by simp
  have g: "8 * N - 8 * j \<le> 8 * q + r \<longleftrightarrow> N - j \<le> q" using n(2) assms(3) by linarith
  have f: "8 * q + r - (8 * N - 8 * j) = 8 * (q - (N - j)) + r" if "N - j \<le> q" using that assms(3) by (simp add: algebra_simps diff_mult_distrib2)
  have l: "8 * q + r < 8 * N \<longleftrightarrow> q < N" using n(2) by linarith
  have b: "bit (le_value zs) (8 * a + r) \<longleftrightarrow> 8 * a + r < 64 \<and> a < length zs \<and> bit (zs ! a) r" for zs a
    by (simp only: bit_le_value d)
  have v: "8 * q + r < 64" using \<open>n < LENGTH(64)\<close> n(1) by simp
  have x: "8 * (j + q) + r < 64" if "j + q < N"
  proof -
    have "j + q \<le> 7" using that assms(4) by linarith
    then have "8 * (j + q) \<le> 8 * 7" by (rule mult_le_mono2)
    then show ?thesis using n(2) by linarith
  qed
  have X: "bit (le_value xs) (8 * (j + q) + r) \<longleftrightarrow> j + q < N \<and> bit (xs ! (j + q)) r" using b [of xs "j + q"] x assms(1) by blast
  have Y: "bit (le_value ys) (8 * q + r - (8 * N - 8 * j)) \<longleftrightarrow> bit (ys ! (q - (N - j))) r" if "N - j \<le> q" "q < N"
    unfolding f [OF that(1)] b using that v assms(2) by auto
  have "bit (take_bit (8 * N) (drop_bit (8 * j) (le_value xs) OR push_bit (8 * N - 8 * j) (le_value ys))) (8 * q + r) \<longleftrightarrow>
      q < N \<and> (bit (le_value xs) (8 * (j + q) + r) \<or> N - j \<le> q \<and> bit (le_value ys) (8 * q + r - (8 * N - 8 * j)))"
    using v by (auto simp: bit_take_bit_iff bit_or_iff bit_drop_bit_eq bit_push_bit_iff l g e)
  also have "\<dots> \<longleftrightarrow> q < N \<and> (j + q < N \<and> bit (xs ! (j + q)) r \<or> N - j \<le> q \<and> bit (ys ! (q - (N - j))) r)"
    unfolding X using Y by blast
  also have "\<dots> \<longleftrightarrow> bit (le_value (drop j xs @ take j ys)) (8 * q + r)"
    unfolding b using assms v by (auto simp: nth_append)
  finally show "bit (take_bit (8 * N) (drop_bit (8 * j) (le_value xs) OR push_bit (8 * N - 8 * j) (le_value ys))) n = bit (le_value (drop j xs @ take j ys)) n"
    by (simp only: n(1) [symmetric])
qed


lemma aligned_in_page:
  fixes a :: u32
  assumes "a AND mask s = 0" and "s \<le> 3"
  shows "unat (a AND 0x3ff) + 2 ^ s \<le> 0x400"
proof -
  define x where "x = unat (a AND mask 10)"
  have "(a AND mask 10) AND mask s = 0"
    using assms by (auto simp: bit_eq_iff bit_simps)
  then have "x mod 2 ^ s = 0" using unat_and_mask [of "a AND mask 10" s] by (simp add: x_def)
  moreover have "x < 2 ^ 10" unfolding x_def unat_and_mask by simp
  moreover have "s = 0 \<or> s = 1 \<or> s = 2 \<or> s = 3" using assms(2) by linarith
  ultimately have "x + 2 ^ s \<le> 0x400" by (elim disjE) (simp_all, presburger+)
  then show ?thesis unfolding mask_10 by (simp only: x_def)
qed

lemma ld_page_bytes:
  assumes "mmu_ok env" and "tlb_ok ldl env pm t" and "idx < NB_MMU_MODES" and "ram_backed ldl env pm idx a"
    and "unat (a AND 0x3ff) + 2 ^ s \<le> 0x400"
  shows "(\<exists>t' bs. tlb_ok ldl env pm t' \<and> length bs = 2 ^ s \<and> (\<forall>k<2 ^ s. loads ldl env pm host idx (a + of_nat k) (bs ! k)) \<and>
      ld_page ldl env pm io host s a idx t = Done (Some (le_value bs)) t') \<or>
    (\<exists>env'. ld_page ldl env pm io host s a idx t = Raised env' t \<and> cpu_arm_handle_mmu_fault ldl env a 0 idx = Inr (1, env', None))"
  using ld_page_cases [OF assms(1-4), of io host s]
proof (elim disjE exE conjE)
  fix t' phys h
  assume t': "tlb_ok ldl env pm t'" and w: "walks_to ldl env idx 0 a phys" "host_of pm phys = Inr h"
    and ld: "ld_page ldl env pm io host s a idx t = Done (if 0 < s \<and> 0x400 \<le> unat (a AND 0x3ff) + 2 ^ s - 1 then None
        else Some (le_value (map (\<lambda>k. host (h + of_nat k)) [0..<2 ^ s]))) t'"
  have "(0 :: nat) < 2 ^ s" by simp
  then have "\<not> 0x400 \<le> unat (a AND 0x3ff) + 2 ^ s - 1" using assms(5) by linarith
  then have "ld_page ldl env pm io host s a idx t = Done (Some (le_value (map (\<lambda>k. host (h + of_nat k)) [0..<2 ^ s]))) t'"
    using ld by simp
  moreover have "loads ldl env pm host idx (a + of_nat k) (host (h + of_nat k))" if "k < 2 ^ s" for k
    using byte_walk [OF assms(1) w, of k host] that assms(5) by linarith
  ultimately show ?thesis using t' by (intro disjI1 exI conjI) auto
qed blast

text \<open>The two aligned accesses of a load that crosses pages.\<close>

lemma split_address:
  fixes a :: u32
  assumes "s \<le> 3" and "0x400 \<le> unat (a AND 0x3ff) + 2 ^ s - 1" and "a1 = a AND NOT (mask s)" and "j = unat (a AND mask s)"
  shows "a = a1 + of_nat j" and "0 < j" and "j < 2 ^ s" and "a1 AND mask s = 0" and "(a1 + 2 ^ s) AND mask s = 0" and "same_page a a1"
    and "(a1 + 2 ^ s) AND 0x3ff = 0"
proof -
  have "a = (a AND NOT (mask s)) + (a AND mask s)" by (subst disjunctive_add) (auto simp: bit_simps bit_eq_iff)
  then show a: "a = a1 + of_nat j" by (simp add: assms(3,4))
  show "j < 2 ^ s" unfolding assms(4) unat_and_mask by simp
  show z: "a1 AND mask s = 0" unfolding assms(3) by (auto simp: bit_simps bit_eq_iff)
  show "same_page a a1" unfolding same_page_def mask_10 assms(3) using assms(1) by (auto simp: bit_simps bit_eq_iff)
  have p: "unat (a1 AND 0x3ff) + 2 ^ s \<le> 0x400" by (rule aligned_in_page [OF z assms(1)])
  have "(a AND 0x3ff) = (a1 AND 0x3ff) + of_nat j" using page_step(2) [of a1 j] p \<open>j < 2 ^ s\<close> a by simp
  then have "unat (a AND 0x3ff) = unat (a1 AND 0x3ff) + j"
    using p \<open>j < 2 ^ s\<close> by (simp add: unat_word_ariths unat_of_nat)
  then have e: "unat (a1 AND 0x3ff) + j + 2 ^ s \<ge> 0x401" using assms(2) by linarith
  then show "0 < j" using p by linarith
  define x where "x = unat (a1 AND mask 10)"
  have "(a1 AND mask 10) AND mask s = 0" using z by (auto simp: bit_eq_iff bit_simps)
  then have "x mod 2 ^ s = 0" using unat_and_mask [of "a1 AND mask 10" s] by (simp add: x_def)
  moreover have "x + 2 ^ s \<le> 0x400" "x + j + 2 ^ s \<ge> 0x401" using p e unfolding mask_10 by (simp_all only: x_def)
  moreover have small: "s = 0 \<or> s = 1 \<or> s = 2 \<or> s = 3" using assms(1) by linarith
  ultimately have x: "x + 2 ^ s = 0x400" using \<open>j < 2 ^ s\<close> by (elim disjE) (simp_all, presburger+)
  have "unat ((2 :: u32) ^ s) = 2 ^ s" using small by (elim disjE) simp_all
  then have "unat ((a1 + 2 ^ s) AND mask 10) = (unat a1 + 2 ^ s) mod 2 ^ 10"
    by (simp add: unat_and_mask unat_word_ariths mod_mod_cancel)
  also have "\<dots> = (x + 2 ^ s) mod 2 ^ 10" unfolding x_def unat_and_mask by (simp add: mod_add_left_eq)
  also have "\<dots> = 0" using x by simp
  finally have y: "(a1 + 2 ^ s) AND mask 10 = 0" by (simp add: unat_eq_0)
  then show "(a1 + 2 ^ s) AND 0x3ff = 0" unfolding mask_10 .
  have "(a1 + 2 ^ s) AND mask s = ((a1 + 2 ^ s) AND mask 10) AND mask s" using assms(1) by (auto simp: bit_eq_iff bit_simps)
  then show "(a1 + 2 ^ s) AND mask s = 0" unfolding y by simp
qed


lemma no_fault_after_walk: "walks_to ldl env idx 0 a phys \<Longrightarrow> cpu_arm_handle_mmu_fault ldl env a 0 idx \<noteq> Inr (1, env', None)"
  by (auto simp: walks_to_def cpu_arm_handle_mmu_fault_def)

text \<open>What a load may return: the bytes that walks give, or the abort of a byte whose walk faults.\<close>

definition load_result ::
  "(u32 \<Rightarrow> u32) \<Rightarrow> CPUARMState \<Rightarrow> phys_map \<Rightarrow> (u64 \<Rightarrow> u8) \<Rightarrow> nat \<Rightarrow> nat \<Rightarrow> u32 \<Rightarrow> u64 outcome \<Rightarrow> bool" where
  "load_result ldl env pm host idx n addr r \<longleftrightarrow>
     (\<exists>bs t'. r = Done (le_value bs) t' \<and> tlb_ok ldl env pm t' \<and> length bs = n \<and> (\<forall>k<n. loads ldl env pm host idx (addr + of_nat k) (bs ! k))) \<or>
     (\<exists>env' t' k. r = Raised env' t' \<and> tlb_ok ldl env pm t' \<and> k < n \<and> (k = 0 \<or> (addr + of_nat k) AND 0x3ff = 0) \<and>
        cpu_arm_handle_mmu_fault ldl env (addr + of_nat k) 0 idx = Inr (1, env', None))"

lemma load_raised:
  assumes "tlb_ok ldl env pm t" and "cpu_arm_handle_mmu_fault ldl env a 0 idx = Inr (1, env', None)" and "a = addr + of_nat k"
    and "k < n" and "k = 0 \<or> a AND 0x3ff = 0"
  shows "load_result ldl env pm host idx n addr (Raised env' t)"
  unfolding load_result_def by (intro disjI2 exI [of _ env'] exI [of _ t] exI [of _ k]) (use assms in auto)

text \<open>Two aligned accesses give the bytes of the unaligned one.\<close>

lemma load_joined:
  assumes "length xs = N" and "length ys = N" and "j < N" and "N \<le> 8" and "addr = a1 + of_nat j" and "a2 = a1 + of_nat N" and "tlb_ok ldl env pm t"
    and xs: "\<And>k. k < N \<Longrightarrow> loads ldl env pm host idx (a1 + of_nat k) (xs ! k)" and ys: "\<And>k. k < N \<Longrightarrow> loads ldl env pm host idx (a2 + of_nat k) (ys ! k)"
  shows "load_result ldl env pm host idx N addr (Done (take_bit (8 * N) (drop_bit (8 * j) (le_value xs) OR push_bit (8 * N - 8 * j) (le_value ys))) t)"
proof -
  have "loads ldl env pm host idx (addr + of_nat k) ((drop j xs @ take j ys) ! k)" if k: "k < N" for k
  proof (cases "k < N - j")
    case True
    then show ?thesis using assms(1,5) xs [of "j + k"] by (simp add: nth_append add.assoc)
  next
    case False
    then have "addr + of_nat k = a2 + of_nat (k - (N - j))" unfolding assms(5,6) add.assoc of_nat_add [symmetric]
      using assms(3) by simp
    moreover have "(drop j xs @ take j ys) ! k = ys ! (k - (N - j))" using False assms(1-3) k by (simp add: nth_append)
    moreover have "k - (N - j) < N" using k by simp
    ultimately show ?thesis using ys [of "k - (N - j)"] by simp
  qed
  then show ?thesis
    unfolding load_result_def le_value_join [OF assms(1,2) less_imp_le [OF assms(3)] assms(4)]
    by (intro disjI1 exI [of _ "drop j xs @ take j ys"] exI [of _ t]) (use assms in auto)
qed

lemma load_crossing:
  assumes "mmu_ok env" and "tlb_ok ldl env pm t" and "idx < NB_MMU_MODES" and "s \<le> 3"
    and "\<forall>k<2 ^ s. ram_backed ldl env pm idx (addr + of_nat k)" and True: "0 < s \<and> 0x400 \<le> unat (addr AND 0x3ff) + 2 ^ s - 1"
  shows "load_result ldl env pm host idx (2 ^ s) addr (helper_le_ld ldl env pm io host s addr idx t)"
proof -
  define N :: nat where "N = 2 ^ s"
  define a1 where "a1 = addr AND NOT (mask s)"
  define a2 where "a2 = a1 + 2 ^ s"
  define j where "j = unat (addr AND mask s)"
  note sp = split_address [OF assms(4) conjunct2 [OF True] a1_def j_def, folded a2_def]
  have N: "(2 :: u32) ^ s = of_nat N" by (simp add: N_def)
  have a2: "a2 = addr + of_nat (N - j)" using sp(1,3) unfolding a2_def N by (simp add: N_def of_nat_diff)
  have r0: "ram_backed ldl env pm idx addr" using assms(5) by (auto dest: spec [of _ 0])
  have r1: "ram_backed ldl env pm idx a1" by (rule ram_backed_page [OF assms(1) sp(6) r0])
  have "N - j < 2 ^ s" using sp(2) by (simp add: N_def)
  then have r2: "ram_backed ldl env pm idx a2" using assms(5) unfolding a2 by blast
  show ?thesis using ld_page_cases [OF assms(1-3) r0, of io host s]
  proof (elim disjE exE conjE)
    fix env' assume "ld_page ldl env pm io host s addr idx t = Raised env' t" "cpu_arm_handle_mmu_fault ldl env addr 0 idx = Inr (1, env', None)"
    then show ?thesis using assms(2) load_raised [of ldl env pm t addr idx env' addr 0 "2 ^ s" host] by (simp add: helper_le_ld_def)
  next
    fix t1 phys h assume t1: "tlb_ok ldl env pm t1" and w: "walks_to ldl env idx 0 addr phys" and l0: "ld_page ldl env pm io host s addr idx t =
        Done (if 0 < s \<and> 0x400 \<le> unat (addr AND 0x3ff) + 2 ^ s - 1 then None else Some (le_value (map (\<lambda>k. host (h + of_nat k)) [0..<2 ^ s]))) t1"
    have l0: "ld_page ldl env pm io host s addr idx t = Done None t1" unfolding l0 using True by simp
    obtain t2 xs where t2: "tlb_ok ldl env pm t2" "length xs = N" "\<And>k. k < N \<Longrightarrow> loads ldl env pm host idx (a1 + of_nat k) (xs ! k)"
      "ld_page ldl env pm io host s a1 idx t1 = Done (Some (le_value xs)) t2"
      using ld_page_bytes [OF assms(1) t1 assms(3) r1 aligned_in_page [OF sp(4) assms(4)], of host io]
        no_fault_after_walk [OF walks_move [OF assms(1) sp(6) w]] unfolding N_def by blast
    have h: "helper_le_ld ldl env pm io host s addr idx t = out_bind (ld_page ldl env pm io host s a2 idx t2) (\<lambda>res2 t3.
        case (Some (le_value xs), res2) of
          (Some v1, Some v2) \<Rightarrow> Done (take_bit (8 * N) (drop_bit (8 * j) v1 OR push_bit (8 * N - 8 * j) v2)) t3
        | _ \<Rightarrow> Failed Undefined)"
      unfolding helper_le_ld_def l0 Let_def a1_def [symmetric] t2(4) out_bind.simps option.case a2_def [symmetric] j_def [symmetric] N_def
      by (simp only: mult.commute)
    show ?thesis using ld_page_bytes [OF assms(1) t2(1) assms(3) r2 aligned_in_page [OF sp(5) assms(4)], of host io]
    proof (elim disjE exE conjE)
      fix env' assume "ld_page ldl env pm io host s a2 idx t2 = Raised env' t2" "cpu_arm_handle_mmu_fault ldl env a2 0 idx = Inr (1, env', None)"
      then show ?thesis using load_raised [OF t2(1) _ a2, of idx env' "2 ^ s" host] sp(2,3,7) unfolding h by (simp add: N_def)
    next
      fix t3 ys assume t3: "tlb_ok ldl env pm t3" "length ys = 2 ^ s" "\<forall>k<2 ^ s. loads ldl env pm host idx (a2 + of_nat k) (ys ! k)"
        "ld_page ldl env pm io host s a2 idx t2 = Done (Some (le_value ys)) t3"
      have "N \<le> 8" using power_increasing [OF assms(4), of "2 :: nat"] by (simp add: N_def)
      moreover have "length ys = N" "j < N" "a2 = a1 + of_nat N" using t3(2) sp(3) unfolding a2_def N by (simp_all add: N_def)
      ultimately show ?thesis using load_joined [OF t2(2) _ _ _ sp(1) _ t3(1), of ys a2 host idx] t2(3) t3(3) unfolding h t3(4)
        by (simp add: N_def)
    qed
  qed
qed

text \<open>C4: A load through the software TLB, of one to eight bytes, aligned or not and possibly across two pages, returns the bytes that a walk of
  the page tables for the address of each byte gives, whatever the TLB holds, as long as it agrees with the tables; and it leaves
  it so. When a walk faults, the load raises the abort of the first byte of the page that faults.\<close>

theorem soft_load:
  assumes "mmu_ok env" and "tlb_ok ldl env pm t" and "idx < NB_MMU_MODES" and "s \<le> 3"
    and "\<forall>k<2 ^ s. ram_backed ldl env pm idx (addr + of_nat k)"
  shows "(\<exists>bs t'. helper_le_ld ldl env pm io host s addr idx t = Done (le_value bs) t' \<and> tlb_ok ldl env pm t' \<and> length bs = 2 ^ s \<and>
      (\<forall>k<2 ^ s. loads ldl env pm host idx (addr + of_nat k) (bs ! k))) \<or>
    (\<exists>env' t' k. helper_le_ld ldl env pm io host s addr idx t = Raised env' t' \<and> tlb_ok ldl env pm t' \<and> k < 2 ^ s \<and>
      (k = 0 \<or> (addr + of_nat k) AND 0x3ff = 0) \<and> cpu_arm_handle_mmu_fault ldl env (addr + of_nat k) 0 idx = Inr (1, env', None))"
proof (cases "0 < s \<and> 0x400 \<le> unat (addr AND 0x3ff) + 2 ^ s - 1")
  case False
  have p: "(0 :: nat) < 2 ^ s" by simp
  have "unat (addr AND mask 10) < 2 ^ 10" unfolding unat_and_mask by simp
  then have "unat (addr AND 0x3ff) + 2 ^ s \<le> 0x400" using False p unfolding mask_10 by (cases "s = 0") auto
  moreover have "ram_backed ldl env pm idx addr" using assms(5) p by (auto dest: spec [of _ 0])
  ultimately have "load_result ldl env pm host idx (2 ^ s) addr (helper_le_ld ldl env pm io host s addr idx t)"
    using ld_page_bytes [OF assms(1-3), of addr s host io] load_raised [OF assms(2), of addr idx _ addr 0 "2 ^ s" host] p
    by (auto simp: helper_le_ld_def load_result_def)
  then show ?thesis unfolding load_result_def .
next
  case True
  from load_crossing [OF assms True, of host io] show ?thesis unfolding load_result_def .
qed


theorem soft_load_witness:
  "\<exists>bs t'. helper_le_ld ldl0 mmu0 pm0 (\<lambda>_ _ _. 0) (\<lambda>h. ucast h) 2 0x100404 1 tlb0 = Done (le_value bs) t' \<and> length bs = 4 \<and>
     loads ldl0 mmu0 pm0 (\<lambda>h. ucast h) 1 0x100405 (bs ! 1)"
proof -
  have w: "walks_to ldl0 mmu0 1 0 0x100404 0x20000404" by (simp add: walks_to_def mmu0_walk)
  have ok: "tlb_ok ldl0 mmu0 pm0 tlb0"
by (simp add: tlb_ok_def tlb0_def empty_ok)
  have d: "phys_desc pm0 (ucast (0x20000404 :: u32)) = 0x20000400" by (simp add: phys_desc_def pm0_def drop_bit_eq_div push_bit_eq_mult)
  have "\<not> is_io 0x20000400" by (simp add: is_io_def IO_MEM_ROM_def IO_MEM_ROMD_def)
  then have io: "\<not> is_io (phys_desc pm0 (ucast phys))" if "phys = 0x20000404" for phys :: u32 unfolding that d .
  have h: "host_of pm0 0x20000404 = Inr 0x7f0020000404" unfolding host_of_def d by (simp add: qemu_get_ram_ptr_def pm0_def)
  have nw: "\<not> watched pm0 v" for v by (simp add: watched_def pm0_def)
  have r: "ram_backed ldl0 mmu0 pm0 1 0x100404"
    unfolding ram_backed_def using walks_unique [OF w] io h nw by blast
  have u: "unat ((0x100404 :: u32) AND 0x3ff) = 4" by simp
  have rs: "\<forall>k<2 ^ 2. ram_backed ldl0 mmu0 pm0 1 (0x100404 + of_nat k)"
    using ram_backed_page [OF mmu0_ok page_step(1) r] u by simp
  have "\<not> (k < 2 ^ 2 \<and> (k = 0 \<or> (0x100404 + of_nat k :: u32) AND 0x3ff = 0) \<and>
      cpu_arm_handle_mmu_fault ldl0 mmu0 (0x100404 + of_nat k) 0 1 = Inr (1, env', None))" for k env'
  proof -
    have "(0x100404 + of_nat k :: u32) AND 0x3ff \<noteq> 0" if "k < 4"
    proof -
      have "k = 0 \<or> k = 1 \<or> k = 2 \<or> k = 3" using that by linarith
      then show ?thesis by (elim disjE) simp_all
    qed
    then show ?thesis using no_fault_after_walk [OF w, of env'] by auto
  qed
  then obtain bs t' where b: "helper_le_ld ldl0 mmu0 pm0 (\<lambda>_ _ _. 0) (\<lambda>h. ucast h) 2 0x100404 1 tlb0 = Done (le_value bs) t'" "length bs = 2 ^ 2"
    "\<forall>k<2 ^ 2. loads ldl0 mmu0 pm0 (\<lambda>h. ucast h) 1 (0x100404 + of_nat k) (bs ! k)"
    using soft_load [OF mmu0_ok ok _ _ rs, of "\<lambda>_ _ _. 0" "\<lambda>h. ucast h"] by (auto simp: NB_MMU_MODES_def)
  from b(3) have "loads ldl0 mmu0 pm0 (\<lambda>h. ucast h) 1 0x100405 (bs ! 1)" by (auto dest: spec [of _ 1])
  then show ?thesis using b(1,2) by auto
qed

end
