(* ===== verification/Arm_Cp15.thy ===== *)
theory Arm_Cp15
  imports Soft_Mmu
begin

text \<open>
  The system control coprocessor of the ARM processors, \<open>set_cp15\<close> and \<open>get_cp15\<close> of \<open>target-arm/helper.c\<close>. The registers that the address
  translation and the exceptions use are in the processor state of the other theories; the others are a record of their own. A
  register number that the code does not know ends the emulator (\<open>bad_reg\<close>). A write may ask for a flush of the
  translated code or halt the processor; these requests are returned with the new state.
\<close>

section \<open>State\<close>

record cp15_regs =
  c0_cpuid :: u32
  c0_cachetype :: u32
  c0_ccsid :: "nat \<Rightarrow> u32"
  c0_clid :: u32
  c0_cssel :: u32
  c0_c1 :: "nat \<Rightarrow> u32"
  c0_c2 :: "nat \<Rightarrow> u32"
  c1_coproc :: u32
  c1_xscaleauxcr :: u32
  c1_sedbg :: u32
  c1_nseac :: u32
  c2_control :: u32
  c2_data :: u32
  c2_insn :: u32
  c7_par :: u32
  c9_insn :: u32
  c9_data :: u32
  c9_pmcr :: u32
  c9_pmcnten :: u32
  c9_pmovsr :: u32
  c9_pmxevtyper :: u32
  c9_pmuserenr :: u32
  c9_pminten :: u32
  c13_context :: u32
  c15_cpar :: u32
  c15_ticonfig :: u32
  c15_i_max :: u32
  c15_i_min :: u32
  c15_threadid :: u32

record arm_cpu =
  ac :: CPUARMState
  cp :: cp15_regs
  ac_tlb :: tlb
  ac_index :: u32

datatype cp15_action = Tb_Flush | Interrupt_Halt

definition ARM_FEATURE_AUXCR :: nat where "ARM_FEATURE_AUXCR = 1"
definition ARM_FEATURE_V7 :: nat where "ARM_FEATURE_V7 = 6"
definition ARM_FEATURE_OMAPCP :: nat where "ARM_FEATURE_OMAPCP = 14"
definition ARM_FEATURE_V7MP :: nat where "ARM_FEATURE_V7MP = 16"
definition ARM_FEATURE_STRONGARM :: nat where "ARM_FEATURE_STRONGARM = 19"
definition ARM_FEATURE_VAPA :: nat where "ARM_FEATURE_VAPA = 20"

definition ARM_CPUID_ARM1026 :: u32 where "ARM_CPUID_ARM1026 = 0x4106a262"
definition ARM_CPUID_TI915T :: u32 where "ARM_CPUID_TI915T = 0x54029152"
definition ARM_CPUID_TI925T :: u32 where "ARM_CPUID_TI925T = 0x54029252"
definition ARM_CPUID_ARM1136 :: u32 where "ARM_CPUID_ARM1136 = 0x4117b363"
definition ARM_CPUID_ARM1136_R2 :: u32 where "ARM_CPUID_ARM1136_R2 = 0x4107b362"
definition ARM_CPUID_ARM11MPCORE :: u32 where "ARM_CPUID_ARM11MPCORE = 0x410fb022"
definition ARM_CPUID_CORTEXA8 :: u32 where "ARM_CPUID_CORTEXA8 = 0x410fc080"
definition ARM_CPUID_CORTEXA8_R2 :: u32 where "ARM_CPUID_CORTEXA8_R2 = 0x412fc083"
definition ARM_CPUID_CORTEXA9 :: u32 where "ARM_CPUID_CORTEXA9 = 0x410fc090"

abbreviation has :: "arm_cpu \<Rightarrow> nat \<Rightarrow> bool" where
  "has c f \<equiv> arm_feature (ac c) f"

abbreviation bad_reg :: "'a res" where
  "bad_reg \<equiv> Inl Cpu_Abort"

abbreviation cp15_done :: "arm_cpu \<Rightarrow> (arm_cpu \<times> cp15_action list) res" where
  "cp15_done c \<equiv> Inr (c, [])"

abbreviation upd_env :: "(CPUARMState \<Rightarrow> CPUARMState) \<Rightarrow> arm_cpu \<Rightarrow> (arm_cpu \<times> cp15_action list) res" where
  "upd_env f c \<equiv> Inr (c\<lparr>ac := f (ac c)\<rparr>, [])"

abbreviation upd_cp :: "(cp15_regs \<Rightarrow> cp15_regs) \<Rightarrow> arm_cpu \<Rightarrow> (arm_cpu \<times> cp15_action list) res" where
  "upd_cp f c \<equiv> Inr (c\<lparr>cp := f (cp c)\<rparr>, [])"

abbreviation flushed :: "arm_cpu \<Rightarrow> arm_cpu" where
  "flushed c \<equiv> c\<lparr>ac_tlb := tlb_flush (ac_tlb c)\<rparr>"

section \<open>Permission bits of the protection unit\<close>

fun simple_loop :: "u32 \<Rightarrow> nat list \<Rightarrow> u32 \<Rightarrow> u32 \<Rightarrow> u32" where
  "simple_loop val [] m ret = ret"
| "simple_loop val (i # is) m ret = simple_loop val is (push_bit 2 m) (ret OR (drop_bit i val AND m))"

definition simple_mpu_ap_bits :: "u32 \<Rightarrow> u32" where
  "simple_mpu_ap_bits val = simple_loop val [0, 2, 4, 6, 8, 10, 12, 14] 3 0"

fun extended_loop :: "u32 \<Rightarrow> nat list \<Rightarrow> u32 \<Rightarrow> u32 \<Rightarrow> u32" where
  "extended_loop val [] m ret = ret"
| "extended_loop val (i # is) m ret = extended_loop val is (push_bit 2 m) (ret OR push_bit i (val AND m))"

definition extended_mpu_ap_bits :: "u32 \<Rightarrow> u32" where
  "extended_mpu_ap_bits val = extended_loop val [0, 2, 4, 6, 8, 10, 12, 14] 3 0"

section \<open>Writes\<close>

definition set_c0 :: "nat \<Rightarrow> nat \<Rightarrow> nat \<Rightarrow> u32 \<Rightarrow> arm_cpu \<Rightarrow> (arm_cpu \<times> cp15_action list) res" where
  "set_c0 op1 crm op2 val c =
     (if has c ARM_FEATURE_XSCALE then cp15_done c
      else if has c ARM_FEATURE_OMAPCP then cp15_done c
      else if has c ARM_FEATURE_V7 \<and> op1 = 2 \<and> crm = 0 \<and> op2 = 0 then upd_cp (\<lambda>r. r\<lparr>c0_cssel := val AND 0xf\<rparr>) c
      else bad_reg)"

definition set_c1 :: "nat \<Rightarrow> nat \<Rightarrow> nat \<Rightarrow> u32 \<Rightarrow> arm_cpu \<Rightarrow> (arm_cpu \<times> cp15_action list) res" where
  "set_c1 op1 crm op2 val c =
     (if crm = 0 then
        let op2 = (if has c ARM_FEATURE_OMAPCP then 0 else op2)
        in if op2 = 0 then
             cp15_done (flushed (if has c ARM_FEATURE_XSCALE then c else c\<lparr>ac := (ac c)\<lparr>a_c1_sys := val\<rparr>\<rparr>))
           else if op2 = 1 then
             if has c ARM_FEATURE_XSCALE then upd_cp (\<lambda>r. r\<lparr>c1_xscaleauxcr := val\<rparr>) c else cp15_done c
           else if op2 = 2 then
             if has c ARM_FEATURE_XSCALE then bad_reg
             else if c1_coproc (cp c) \<noteq> val then Inr (c\<lparr>cp := (cp c)\<lparr>c1_coproc := val\<rparr>\<rparr>, [Tb_Flush])
             else cp15_done c
           else bad_reg
      else if crm = 1 then
        if \<not> has c ARM_FEATURE_TRUSTZONE \<or> a_uncached_cpsr (ac c) AND CPSR_M = ARM_CPU_MODE_USR then bad_reg
        else if 2 < op2 \<or> bit (a_c1_secfg (ac c)) 0 then bad_reg
        else if op2 = 0 then upd_env (\<lambda>e. e\<lparr>a_c1_secfg := val\<rparr>) c
        else if op2 = 1 then upd_cp (\<lambda>r. r\<lparr>c1_sedbg := val\<rparr>) c
        else upd_cp (\<lambda>r. r\<lparr>c1_nseac := val\<rparr>) c
      else bad_reg)"

definition set_c2 :: "nat \<Rightarrow> u32 \<Rightarrow> arm_cpu \<Rightarrow> (arm_cpu \<times> cp15_action list) res" where
  "set_c2 op2 val c =
     (if has c ARM_FEATURE_MPU then
        if op2 = 0 then upd_cp (\<lambda>r. r\<lparr>c2_data := val\<rparr>) c
        else if op2 = 1 then upd_cp (\<lambda>r. r\<lparr>c2_insn := val\<rparr>) c
        else bad_reg
      else
        if op2 = 0 then upd_env (\<lambda>e. e\<lparr>a_c2_base0 := val\<rparr>) c
        else if op2 = 1 then upd_env (\<lambda>e. e\<lparr>a_c2_base1 := val\<rparr>) c
        else if op2 = 2 then
          let v = val AND 7
          in Inr (c\<lparr>cp := (cp c)\<lparr>c2_control := v\<rparr>,
                    ac := (ac c)\<lparr>a_c2_mask := NOT (drop_bit (unat v) 0xffffffff), a_c2_base_mask := NOT (drop_bit (unat v) 0x3fff)\<rparr>\<rparr>, [])
        else bad_reg)"

definition set_c3 :: "u32 \<Rightarrow> arm_cpu \<Rightarrow> (arm_cpu \<times> cp15_action list) res" where
  "set_c3 val c = cp15_done (flushed (c\<lparr>ac := (ac c)\<lparr>a_c3 := val\<rparr>\<rparr>))"

definition set_c5 :: "nat \<Rightarrow> u32 \<Rightarrow> arm_cpu \<Rightarrow> (arm_cpu \<times> cp15_action list) res" where
  "set_c5 op2 val c =
     (let op2 = (if has c ARM_FEATURE_OMAPCP then 0 else op2);
          v = (if has c ARM_FEATURE_MPU then extended_mpu_ap_bits val else val)
      in if op2 = 0 then upd_env (\<lambda>e. e\<lparr>a_c5_data := v\<rparr>) c
         else if op2 = 1 then upd_env (\<lambda>e. e\<lparr>a_c5_insn := v\<rparr>) c
         else if 3 < op2 \<or> \<not> has c ARM_FEATURE_MPU then bad_reg
         else if op2 = 2 then upd_env (\<lambda>e. e\<lparr>a_c5_data := val\<rparr>) c
         else upd_env (\<lambda>e. e\<lparr>a_c5_insn := val\<rparr>) c)"

definition set_c6 :: "nat \<Rightarrow> nat \<Rightarrow> u32 \<Rightarrow> arm_cpu \<Rightarrow> (arm_cpu \<times> cp15_action list) res" where
  "set_c6 crm op2 val c =
     (if has c ARM_FEATURE_MPU then
        if 8 \<le> crm then bad_reg else upd_env (\<lambda>e. e\<lparr>a_c6_region := (a_c6_region e)(crm := val)\<rparr>) c
      else let op2 = (if has c ARM_FEATURE_OMAPCP then 0 else op2)
           in if op2 = 0 then upd_env (\<lambda>e. e\<lparr>a_c6_data := val\<rparr>) c
              else if op2 = 1 \<or> op2 = 2 then upd_env (\<lambda>e. e\<lparr>a_c6_insn := val\<rparr>) c
              else bad_reg)"

definition par_of_walk :: "arm_cpu \<Rightarrow> walk \<Rightarrow> u32" where
  "par_of_walk c w =
     (case w of
        Mapped phys prot sz \<Rightarrow>
          if sz = 0x1000000 \<and> has c ARM_FEATURE_V7 then (phys AND 0xff000000) OR 2 else phys AND 0xfffff000
      | Walk_Fault ret \<Rightarrow>
          drop_bit 5 (ret AND push_bit 1 10) OR drop_bit 6 (ret AND push_bit 1 12) OR push_bit 1 (ret AND 0xf) OR 1)"

definition set_c7 :: "(u32 \<Rightarrow> u32) \<Rightarrow> nat \<Rightarrow> nat \<Rightarrow> nat \<Rightarrow> u32 \<Rightarrow> arm_cpu \<Rightarrow> (arm_cpu \<times> cp15_action list) res" where
  "set_c7 ldl op1 crm op2 val c0 =
     (let c = c0\<lparr>cp := (cp c0)\<lparr>c15_i_max := 0, c15_i_min := 0xff0\<rparr>\<rparr>
      in if op1 \<noteq> 0 then bad_reg
         else if has c ARM_FEATURE_VAPA \<and> crm = 4 then
           upd_cp (\<lambda>r. r\<lparr>c7_par := (if has c ARM_FEATURE_V7 then val AND 0xfffff6ff else val AND 0xfffff1ff)\<rparr>) c
         else if has c ARM_FEATURE_VAPA \<and> crm = 8 then
           if 4 \<le> op2 then bad_reg
           else res_bind (get_phys_addr ldl (ac c) val (op2 mod 2) (2 \<le> op2)) (\<lambda>w. upd_cp (\<lambda>r. r\<lparr>c7_par := par_of_walk c w\<rparr>) c)
         else cp15_done c)"

definition set_c8 :: "nat \<Rightarrow> u32 \<Rightarrow> arm_cpu \<Rightarrow> (arm_cpu \<times> cp15_action list) res" where
  "set_c8 op2 val c =
     (if op2 = 0 \<or> op2 = 2 \<or> op2 = 3 then cp15_done (flushed c)
      else if op2 = 1 then cp15_done (c\<lparr>ac_tlb := tlb_flush_page (subpage val) (ac_tlb c)\<rparr>)
      else bad_reg)"

definition set_c9_perf :: "nat \<Rightarrow> nat \<Rightarrow> u32 \<Rightarrow> arm_cpu \<Rightarrow> (arm_cpu \<times> cp15_action list) res" where
  "set_c9_perf crm op2 val c =
     (let top = val AND 0x80000000
      in if crm = 12 then
           if op2 = 0 then upd_cp (\<lambda>r. r\<lparr>c9_pmcr := (c9_pmcr r AND NOT 0x39) OR (val AND 0x39)\<rparr>) c
           else if op2 = 1 then upd_cp (\<lambda>r. r\<lparr>c9_pmcnten := c9_pmcnten r OR top\<rparr>) c
           else if op2 = 2 then upd_cp (\<lambda>r. r\<lparr>c9_pmcnten := c9_pmcnten r AND NOT top\<rparr>) c
           else if op2 = 3 then upd_cp (\<lambda>r. r\<lparr>c9_pmovsr := c9_pmovsr r AND NOT val\<rparr>) c
           else if op2 = 4 \<or> op2 = 5 then cp15_done c
           else bad_reg
         else if crm = 13 then
           if op2 = 0 \<or> op2 = 2 then cp15_done c
           else if op2 = 1 then upd_cp (\<lambda>r. r\<lparr>c9_pmxevtyper := val AND 0xff\<rparr>) c
           else bad_reg
         else
           if op2 = 0 then Inr (c\<lparr>cp := (cp c)\<lparr>c9_pmuserenr := val AND 1\<rparr>\<rparr>, [Tb_Flush])
           else if op2 = 1 then upd_cp (\<lambda>r. r\<lparr>c9_pminten := c9_pminten r OR top\<rparr>) c
           else if op2 = 2 then upd_cp (\<lambda>r. r\<lparr>c9_pminten := c9_pminten r AND NOT top\<rparr>) c
           else cp15_done c)"

definition set_c9 :: "nat \<Rightarrow> nat \<Rightarrow> nat \<Rightarrow> u32 \<Rightarrow> arm_cpu \<Rightarrow> (arm_cpu \<times> cp15_action list) res" where
  "set_c9 op1 crm op2 val c =
     (if has c ARM_FEATURE_OMAPCP \<or> has c ARM_FEATURE_STRONGARM then cp15_done c
      else if crm = 0 then
        if op1 = 0 then
          if op2 = 0 then upd_cp (\<lambda>r. r\<lparr>c9_data := val\<rparr>) c
          else if op2 = 1 then upd_cp (\<lambda>r. r\<lparr>c9_insn := val\<rparr>) c
          else bad_reg
        else if op1 = 1 \<and> (op2 = 0 \<or> op2 = 2) then cp15_done c
        else bad_reg
      else if crm = 12 \<or> crm = 13 \<or> crm = 14 then
        if \<not> has c ARM_FEATURE_V7 then bad_reg else set_c9_perf crm op2 val c
      else bad_reg)"

definition set_c12 :: "nat \<Rightarrow> nat \<Rightarrow> nat \<Rightarrow> u32 \<Rightarrow> arm_cpu \<Rightarrow> (arm_cpu \<times> cp15_action list) res" where
  "set_c12 op1 crm op2 val c =
     (if op1 = 0 \<and> crm = 0 \<and> op2 \<le> 1 \<and> has c ARM_FEATURE_TRUSTZONE then
        if op2 = 0 then upd_env (\<lambda>e. e\<lparr>a_c12_vbar := val AND NOT 0x1f\<rparr>) c
        else if \<not> bit (a_c1_secfg (ac c)) 0 then upd_env (\<lambda>e. e\<lparr>a_c12_mvbar := val AND NOT 0x1f\<rparr>) c
        else cp15_done c
      else bad_reg)"

definition set_c13 :: "nat \<Rightarrow> u32 \<Rightarrow> arm_cpu \<Rightarrow> (arm_cpu \<times> cp15_action list) res" where
  "set_c13 op2 val c =
     (if op2 = 0 then
        let c1 = (if a_c13_fcse (ac c) \<noteq> val then flushed c else c)
        in upd_env (\<lambda>e. e\<lparr>a_c13_fcse := val\<rparr>) c1
      else if op2 = 1 then
        let c1 = (if c13_context (cp c) \<noteq> val \<and> \<not> has c ARM_FEATURE_MPU then flushed c else c)
        in upd_cp (\<lambda>r. r\<lparr>c13_context := val\<rparr>) c1
      else bad_reg)"

definition set_c15 :: "nat \<Rightarrow> nat \<Rightarrow> u32 \<Rightarrow> arm_cpu \<Rightarrow> (arm_cpu \<times> cp15_action list) res" where
  "set_c15 crm op2 val c =
     (if has c ARM_FEATURE_XSCALE then
        if op2 = 0 \<and> crm = 1 then
          if c15_cpar (cp c) \<noteq> val AND 0x3fff then Inr (c\<lparr>cp := (cp c)\<lparr>c15_cpar := val AND 0x3fff\<rparr>\<rparr>, [Tb_Flush])
          else cp15_done c
        else bad_reg
      else if has c ARM_FEATURE_OMAPCP then
        if crm = 0 then cp15_done c
        else if crm = 1 then
          upd_cp (\<lambda>r. r\<lparr>c15_ticonfig := val AND 0xe7, c0_cpuid := (if bit val 5 then ARM_CPUID_TI915T else ARM_CPUID_TI925T)\<rparr>) c
        else if crm = 2 then upd_cp (\<lambda>r. r\<lparr>c15_i_max := val\<rparr>) c
        else if crm = 3 then upd_cp (\<lambda>r. r\<lparr>c15_i_min := val\<rparr>) c
        else if crm = 4 then upd_cp (\<lambda>r. r\<lparr>c15_threadid := val AND 0xffff\<rparr>) c
        else if crm = 8 then Inr (c, [Interrupt_Halt])
        else bad_reg
      else cp15_done c)"

definition insn_crn :: "u32 \<Rightarrow> nat" where "insn_crn insn = unat (drop_bit 16 insn AND 0xf)"
definition insn_op1 :: "u32 \<Rightarrow> nat" where "insn_op1 insn = unat (drop_bit 21 insn AND 7)"
definition insn_op2 :: "u32 \<Rightarrow> nat" where "insn_op2 insn = unat (drop_bit 5 insn AND 7)"
definition insn_crm :: "u32 \<Rightarrow> nat" where "insn_crm insn = unat (insn AND 0xf)"

definition set_cp15 :: "(u32 \<Rightarrow> u32) \<Rightarrow> u32 \<Rightarrow> u32 \<Rightarrow> arm_cpu \<Rightarrow> (arm_cpu \<times> cp15_action list) res" where
  "set_cp15 ldl insn val c =
     (let op1 = insn_op1 insn; op2 = insn_op2 insn; crm = insn_crm insn; crn = insn_crn insn
      in if crn = 0 then set_c0 op1 crm op2 val c
         else if crn = 1 then set_c1 op1 crm op2 val c
         else if crn = 2 then set_c2 op2 val c
         else if crn = 3 then set_c3 val c
         else if crn = 4 then bad_reg
         else if crn = 5 then set_c5 op2 val c
         else if crn = 6 then set_c6 crm op2 val c
         else if crn = 7 then set_c7 ldl op1 crm op2 val c
         else if crn = 8 then set_c8 op2 val c
         else if crn = 9 then set_c9 op1 crm op2 val c
         else if crn = 10 \<or> crn = 11 then cp15_done c
         else if crn = 12 then set_c12 op1 crm op2 val c
         else if crn = 13 then set_c13 op2 val c
         else if crn = 14 then bad_reg
         else set_c15 crm op2 val c)"

section \<open>Reads\<close>

definition get_c0 :: "nat \<Rightarrow> nat \<Rightarrow> nat \<Rightarrow> arm_cpu \<Rightarrow> u32 res" where
  "get_c0 op1 crm op2 c =
     (if op1 = 0 then
        if crm = 0 then
          if op2 = 0 then Inr (c0_cpuid (cp c))
          else if op2 = 1 then Inr (c0_cachetype (cp c))
          else if op2 = 2 \<or> op2 = 3 then Inr 0
          else if op2 = 5 \<and> (has c ARM_FEATURE_V7 \<or> c0_cpuid (cp c) = ARM_CPUID_ARM11MPCORE) then
            Inr (if has c ARM_FEATURE_V7MP then ac_index c OR 0x80000000 else ac_index c)
          else bad_reg
        else if crm = 1 then if has c ARM_FEATURE_V6 then Inr (c0_c1 (cp c) op2) else bad_reg
        else if crm = 2 then if has c ARM_FEATURE_V6 then Inr (c0_c2 (cp c) op2) else bad_reg
        else if crm \<le> 7 then Inr 0
        else bad_reg
      else if op1 = 1 then
        if \<not> has c ARM_FEATURE_V6 \<or> crm \<noteq> 0 then bad_reg
        else if \<not> has c ARM_FEATURE_V7 then Inr 0
        else if op2 = 0 then Inr (c0_ccsid (cp c) (unat (c0_cssel (cp c))))
        else if op2 = 1 then Inr (c0_clid (cp c))
        else if op2 = 7 then Inr 0
        else bad_reg
      else if op1 = 2 \<and> op2 = 0 \<and> crm = 0 then Inr (c0_cssel (cp c))
      else bad_reg)"

definition auxcr_value :: "u32 \<Rightarrow> u32 res" where
  "auxcr_value cpuid =
     (if cpuid = ARM_CPUID_ARM1026 then Inr 1
      else if cpuid = ARM_CPUID_ARM1136 \<or> cpuid = ARM_CPUID_ARM1136_R2 then Inr 7
      else if cpuid = ARM_CPUID_ARM11MPCORE then Inr 1
      else if cpuid = ARM_CPUID_CORTEXA8 \<or> cpuid = ARM_CPUID_CORTEXA8_R2 then Inr 2
      else if cpuid = ARM_CPUID_CORTEXA9 then Inr 0
      else bad_reg)"

definition get_c1 :: "nat \<Rightarrow> nat \<Rightarrow> arm_cpu \<Rightarrow> u32 res" where
  "get_c1 crm op2 c =
     (if crm = 0 then
        let op2 = (if has c ARM_FEATURE_OMAPCP then 0 else op2)
        in if op2 = 0 then Inr (a_c1_sys (ac c))
           else if op2 = 1 then
             if has c ARM_FEATURE_XSCALE then Inr (c1_xscaleauxcr (cp c))
             else if \<not> has c ARM_FEATURE_AUXCR then bad_reg
             else auxcr_value (c0_cpuid (cp c))
           else if op2 = 2 then if has c ARM_FEATURE_XSCALE then bad_reg else Inr (c1_coproc (cp c))
           else bad_reg
      else if crm = 1 then
        if \<not> has c ARM_FEATURE_TRUSTZONE \<or> a_uncached_cpsr (ac c) AND CPSR_M = ARM_CPU_MODE_USR then bad_reg
        else if op2 = 0 then if bit (a_c1_secfg (ac c)) 0 then bad_reg else Inr (a_c1_secfg (ac c))
        else if op2 = 1 then if bit (a_c1_secfg (ac c)) 0 then bad_reg else Inr (c1_sedbg (cp c))
        else if op2 = 2 then Inr (c1_nseac (cp c))
        else bad_reg
      else bad_reg)"

definition get_c2 :: "nat \<Rightarrow> arm_cpu \<Rightarrow> u32 res" where
  "get_c2 op2 c =
     (if has c ARM_FEATURE_MPU then
        if op2 = 0 then Inr (c2_data (cp c)) else if op2 = 1 then Inr (c2_insn (cp c)) else bad_reg
      else
        if op2 = 0 then Inr (a_c2_base0 (ac c)) else if op2 = 1 then Inr (a_c2_base1 (ac c))
        else if op2 = 2 then Inr (c2_control (cp c)) else bad_reg)"

definition get_c5 :: "nat \<Rightarrow> arm_cpu \<Rightarrow> u32 res" where
  "get_c5 op2 c =
     (let op2 = (if has c ARM_FEATURE_OMAPCP then 0 else op2)
      in if op2 = 0 then Inr (if has c ARM_FEATURE_MPU then simple_mpu_ap_bits (a_c5_data (ac c)) else a_c5_data (ac c))
         else if op2 = 1 then Inr (if has c ARM_FEATURE_MPU then simple_mpu_ap_bits (a_c5_data (ac c)) else a_c5_insn (ac c))
         else if 3 < op2 \<or> \<not> has c ARM_FEATURE_MPU then bad_reg
         else Inr (if op2 = 2 then a_c5_data (ac c) else a_c5_insn (ac c)))"

definition get_c6 :: "nat \<Rightarrow> nat \<Rightarrow> arm_cpu \<Rightarrow> u32 res" where
  "get_c6 crm op2 c =
     (if has c ARM_FEATURE_MPU then if 8 \<le> crm then bad_reg else Inr (a_c6_region (ac c) crm)
      else let op2 = (if has c ARM_FEATURE_OMAPCP then 0 else op2)
           in if op2 = 0 then Inr (a_c6_data (ac c))
              else if op2 = 1 then Inr (if has c ARM_FEATURE_V6 then 0 else a_c6_insn (ac c))
              else if op2 = 2 \<and> has c ARM_FEATURE_V6 then Inr (a_c6_insn (ac c))
              else bad_reg)"

definition get_c9 :: "nat \<Rightarrow> nat \<Rightarrow> nat \<Rightarrow> arm_cpu \<Rightarrow> u32 res" where
  "get_c9 op1 crm op2 c =
     (if crm = 0 then
        if op1 = 0 then
          if has c ARM_FEATURE_OMAPCP then Inr 0
          else if op2 = 0 then Inr (c9_data (cp c)) else if op2 = 1 then Inr (c9_insn (cp c)) else bad_reg
        else if op1 = 1 then Inr 0
        else bad_reg
      else if \<not> has c ARM_FEATURE_V7 then bad_reg
      else if crm = 12 then
        if op2 = 0 then Inr (c9_pmcr (cp c))
        else if op2 = 1 \<or> op2 = 2 then Inr (c9_pmcnten (cp c))
        else if op2 = 3 then Inr (c9_pmovsr (cp c))
        else if op2 = 4 \<or> op2 = 5 then Inr 0
        else bad_reg
      else if crm = 13 then
        if op2 = 1 then Inr (c9_pmxevtyper (cp c)) else if op2 = 0 \<or> op2 = 2 then Inr 0 else bad_reg
      else if crm = 14 then
        if op2 = 0 then Inr (c9_pmuserenr (cp c)) else if op2 = 1 \<or> op2 = 2 then Inr (c9_pminten (cp c)) else bad_reg
      else bad_reg)"

definition get_c12 :: "nat \<Rightarrow> nat \<Rightarrow> nat \<Rightarrow> arm_cpu \<Rightarrow> u32 res" where
  "get_c12 op1 crm op2 c =
     (if op1 = 0 \<and> crm = 0 \<and> op2 \<le> 1 \<and> has c ARM_FEATURE_TRUSTZONE
      then Inr (if op2 = 0 then a_c12_vbar (ac c) else a_c12_mvbar (ac c)) else bad_reg)"

definition get_c15 :: "nat \<Rightarrow> nat \<Rightarrow> arm_cpu \<Rightarrow> u32 res" where
  "get_c15 crm op2 c =
     (if has c ARM_FEATURE_XSCALE then if op2 = 0 \<and> crm = 1 then Inr (c15_cpar (cp c)) else bad_reg
      else if has c ARM_FEATURE_OMAPCP then
        if crm = 0 then Inr 0
        else if crm = 1 then Inr (c15_ticonfig (cp c))
        else if crm = 2 then Inr (c15_i_max (cp c))
        else if crm = 3 then Inr (c15_i_min (cp c))
        else if crm = 4 then Inr (c15_threadid (cp c))
        else if crm = 8 then Inr 0
        else bad_reg
      else Inr 0)"

definition get_cp15 :: "u32 \<Rightarrow> arm_cpu \<Rightarrow> (u32 \<times> arm_cpu) res" where
  "get_cp15 insn c =
     (let op1 = insn_op1 insn; op2 = insn_op2 insn; crm = insn_crm insn; crn = insn_crn insn;
          pure = map_sum id (\<lambda>v. (v, c))
      in if crn = 0 then pure (get_c0 op1 crm op2 c)
         else if crn = 1 then pure (get_c1 crm op2 c)
         else if crn = 2 then pure (get_c2 op2 c)
         else if crn = 3 then Inr (a_c3 (ac c), c)
         else if crn = 4 then bad_reg
         else if crn = 5 then pure (get_c5 op2 c)
         else if crn = 6 then pure (get_c6 crm op2 c)
         else if crn = 7 then
           if crm = 4 \<and> op1 = 0 \<and> op2 = 0 then Inr (c7_par (cp c), c)
           else if drop_bit 12 insn AND 0xf = 0xf then Inr (0, c\<lparr>ac := (ac c)\<lparr>a_ZF := 0\<rparr>\<rparr>)
           else Inr (0, c)
         else if crn = 8 then bad_reg
         else if crn = 9 then pure (get_c9 op1 crm op2 c)
         else if crn = 10 then Inr (0, c)
         else if crn = 11 \<or> crn = 12 then pure (get_c12 op1 crm op2 c)
         else if crn = 13 then if op2 = 0 then Inr (a_c13_fcse (ac c), c) else if op2 = 1 then Inr (c13_context (cp c), c) else bad_reg
         else if crn = 14 then bad_reg
         else pure (get_c15 crm op2 c))"


section \<open>The TLB follows the registers\<close>

text \<open>The registers that a walk uses on a processor with an MMU.\<close>

definition same_mmu :: "CPUARMState \<Rightarrow> CPUARMState \<Rightarrow> bool" where
  "same_mmu e e' \<longleftrightarrow> a_features e' = a_features e \<and> a_c1_sys e' = a_c1_sys e \<and> a_c2_base0 e' = a_c2_base0 e \<and> a_c2_base1 e' = a_c2_base1 e \<and>
     a_c2_mask e' = a_c2_mask e \<and> a_c2_base_mask e' = a_c2_base_mask e \<and> a_c3 e' = a_c3 e \<and> a_c13_fcse e' = a_c13_fcse e"

lemma same_mmu_refl [simp]: "same_mmu e e"
  by (simp add: same_mmu_def)

lemma same_mmu_feature: "same_mmu e e' \<Longrightarrow> arm_feature e' f = arm_feature e f"
  by (simp add: same_mmu_def arm_feature_def)

lemma same_mmu_walk:
  assumes "same_mmu e e'" and "\<not> arm_feature e ARM_FEATURE_MPU"
  shows "get_phys_addr ldl e' a acc u = get_phys_addr ldl e a acc u"
proof -
  note m = assms(1) [unfolded same_mmu_def]
  have c: "check_ap e' ap d acc u = check_ap e ap d acc u" for ap d using m by (simp add: check_ap_def arm_feature_def)
  have l: "get_level1_table_address e' = get_level1_table_address e" using m by (simp add: get_level1_table_address_def fun_eq_iff)
  have f: "a_c3 e' = a_c3 e" "a_c1_sys e' = a_c1_sys e" "arm_feature e' = arm_feature e" using m same_mmu_feature [OF assms(1)] by auto
  have v: "v5_page e' = v5_page e" unfolding v5_page_def f by (rule refl)
  have v5: "get_phys_addr_v5 ldl e' t acc u = get_phys_addr_v5 ldl e t acc u" for t
    unfolding get_phys_addr_v5_def v5_lookup_def l f c v by (rule refl)
  have v6: "get_phys_addr_v6 ldl e' t acc u = get_phys_addr_v6 ldl e t acc u" for t
    unfolding get_phys_addr_v6_def v6_lookup_def v6_check_def l f c by (rule refl)
  show ?thesis using m assms(2) v5 v6 same_mmu_feature [OF assms(1)] by (simp add: get_phys_addr_def)
qed

lemma same_mmu_agrees:
  assumes "same_mmu e e'" and "\<not> arm_feature e ARM_FEATURE_MPU" and "tlb_ok ldl e pm t"
  shows "tlb_ok ldl e' pm t"
proof -
  have "walks_to ldl e' idx acc b p = walks_to ldl e idx acc b p" for idx acc b p
    using same_mmu_walk [OF assms(1,2)] by (simp add: walks_to_def)
  then show ?thesis using assms(3) by (simp add: tlb_ok_def entry_ok_def tag_ok_def)
qed

text \<open>A write keeps the translation and the TLB, changes the TLB alone, or flushes it.\<close>

definition tlb_follows :: "arm_cpu \<Rightarrow> arm_cpu \<Rightarrow> bool" where
  "tlb_follows c c' \<longleftrightarrow> a_features (ac c') = a_features (ac c) \<and>
     (same_mmu (ac c) (ac c') \<and> (ac_tlb c' = ac_tlb c \<or> (\<exists>a. ac_tlb c' = tlb_flush_page a (ac_tlb c))) \<or> (\<exists>t. ac_tlb c' = tlb_flush t))"

lemma follows_simps:
  "tlb_follows c c" "tlb_follows c (c\<lparr>cp := r\<rparr>)" "tlb_follows c (c\<lparr>ac_tlb := tlb_flush t\<rparr>)"
  "tlb_follows c (c\<lparr>ac_tlb := tlb_flush_page a (ac_tlb c)\<rparr>)"
  "tlb_follows c (c\<lparr>ac := (ac c)\<lparr>a_c1_secfg := v\<rparr>\<rparr>)"
  "tlb_follows c (c\<lparr>ac := (ac c)\<lparr>a_c5_data := v\<rparr>\<rparr>)"
  "tlb_follows c (c\<lparr>ac := (ac c)\<lparr>a_c5_insn := v\<rparr>\<rparr>)"
  "tlb_follows c (c\<lparr>ac := (ac c)\<lparr>a_c6_data := v\<rparr>\<rparr>)"
  "tlb_follows c (c\<lparr>ac := (ac c)\<lparr>a_c6_insn := v\<rparr>\<rparr>)"
  "tlb_follows c (c\<lparr>ac := (ac c)\<lparr>a_c12_vbar := v\<rparr>\<rparr>)"
  "tlb_follows c (c\<lparr>ac := (ac c)\<lparr>a_c12_mvbar := v\<rparr>\<rparr>)"
  "tlb_follows c (c\<lparr>ac := (ac c)\<lparr>a_c1_sys := v\<rparr>, ac_tlb := tlb_flush t\<rparr>)" "tlb_follows c (c\<lparr>ac := (ac c)\<lparr>a_c3 := v\<rparr>, ac_tlb := tlb_flush t\<rparr>)"
  "tlb_follows c (c\<lparr>ac_tlb := tlb_flush t, ac := (ac c)\<lparr>a_c13_fcse := v\<rparr>\<rparr>)" "tlb_follows c (c\<lparr>ac_tlb := tlb_flush t, cp := r\<rparr>)" "a_c13_fcse (ac c) = v \<Longrightarrow> tlb_follows c (c\<lparr>ac := (ac c)\<lparr>a_c13_fcse := v\<rparr>\<rparr>)"
  by (auto simp: tlb_follows_def same_mmu_def)

lemma set_c0_follows: "set_c0 op1 crm op2 val c = Inr (c', acts) \<Longrightarrow> tlb_follows c c'"
  unfolding set_c0_def Let_def by (auto simp: follows_simps split: if_splits)

lemma set_c1_follows: "set_c1 op1 crm op2 val c = Inr (c', acts) \<Longrightarrow> tlb_follows c c'"
  unfolding set_c1_def Let_def by (auto simp: follows_simps split: if_splits)

lemma set_c3_follows: "set_c3 val c = Inr (c', acts) \<Longrightarrow> tlb_follows c c'"
  unfolding set_c3_def Let_def by (auto simp: follows_simps split: if_splits)

lemma set_c5_follows: "set_c5 op2 val c = Inr (c', acts) \<Longrightarrow> tlb_follows c c'"
  unfolding set_c5_def Let_def by (auto simp: follows_simps split: if_splits)

lemma set_c8_follows: "set_c8 op2 val c = Inr (c', acts) \<Longrightarrow> tlb_follows c c'"
  unfolding set_c8_def Let_def by (auto simp: follows_simps split: if_splits)

lemma set_c9_perf_follows: "set_c9_perf crm op2 val c = Inr (c', acts) \<Longrightarrow> tlb_follows c c'"
  unfolding set_c9_perf_def Let_def by (auto simp: follows_simps split: if_splits)

lemma set_c12_follows: "set_c12 op1 crm op2 val c = Inr (c', acts) \<Longrightarrow> tlb_follows c c'"
  unfolding set_c12_def Let_def by (auto simp: follows_simps split: if_splits)

lemma set_c13_follows: "set_c13 op2 val c = Inr (c', acts) \<Longrightarrow> tlb_follows c c'"
  unfolding set_c13_def Let_def by (auto simp: follows_simps split: if_splits)

lemma set_c15_follows: "set_c15 crm op2 val c = Inr (c', acts) \<Longrightarrow> tlb_follows c c'"
  unfolding set_c15_def Let_def by (auto simp: follows_simps split: if_splits)

lemma set_c6_follows: "\<not> has c ARM_FEATURE_MPU \<Longrightarrow> set_c6 crm op2 val c = Inr (c', acts) \<Longrightarrow> tlb_follows c c'"
  unfolding set_c6_def Let_def by (auto simp: follows_simps split: if_splits)

lemma set_c7_follows: "set_c7 ldl op1 crm op2 val c = Inr (c', acts) \<Longrightarrow> tlb_follows c c'"
  unfolding set_c7_def Let_def by (auto simp: follows_simps res_bind_eq_Inr split: if_splits)

lemma set_c9_follows: "set_c9 op1 crm op2 val c = Inr (c', acts) \<Longrightarrow> tlb_follows c c'"
  unfolding set_c9_def by (auto simp: follows_simps split: if_splits dest: set_c9_perf_follows)

lemmas set_follows = set_c0_follows set_c1_follows set_c3_follows set_c5_follows set_c6_follows set_c7_follows set_c8_follows set_c9_follows
  set_c12_follows set_c13_follows set_c15_follows

lemma set_cp15_follows:
  assumes "\<not> has c ARM_FEATURE_MPU" and "insn_crn insn \<noteq> 2" and "set_cp15 ldl insn val c = Inr (c', acts)"
  shows "tlb_follows c c'"
  using assms unfolding set_cp15_def Let_def by (auto split: if_splits intro: follows_simps set_follows)

text \<open>C6: The TLB follows the system registers. If it agrees with the page tables, it still does so after any write to the coprocessor that returns, except for the
  registers of the page tables themselves (c2), after which the guest has to flush.\<close>

theorem cp15_tlb_agrees:
  assumes "\<not> has c ARM_FEATURE_MPU" and "insn_crn insn \<noteq> 2" and "set_cp15 ldl insn val c = Inr (c', acts)"
    and "tlb_ok ldl (ac c) pm (ac_tlb c)"
  shows "tlb_ok ldl (ac c') pm (ac_tlb c')"
proof -
  have f: "tlb_follows c c'" by (rule set_cp15_follows [OF assms(1-3)])
  show ?thesis
  proof (cases "\<exists>t. ac_tlb c' = tlb_flush t")
    case True
    then show ?thesis by (auto simp: flush_agrees)
  next
    case False
    then have s: "same_mmu (ac c) (ac c')" "ac_tlb c' = ac_tlb c \<or> (\<exists>a. ac_tlb c' = tlb_flush_page a (ac_tlb c))"
      using f by (auto simp: tlb_follows_def)
    then have "tlb_ok ldl (ac c) pm (ac_tlb c')" using assms(4) flush_page_agrees by metis
    then show ?thesis by (rule same_mmu_agrees [OF s(1) assms(1)])
  qed
qed


section \<open>What is written is read back\<close>

lemma bit_pair: "bit (push_bit k (3 :: u32)) n \<longleftrightarrow> n < 32 \<and> (n = k \<or> n = Suc k)"
proof -
  have three: "(3 :: u32) = mask 2" by (simp add: mask_eq_exp_minus_1)
  show ?thesis unfolding three bit_push_bit_iff bit_mask_iff by auto
qed

lemma bit_simple: "n < 32 \<Longrightarrow> bit (simple_mpu_ap_bits w) n \<longleftrightarrow> n < 16 \<and> bit w (n + n div 2 * 2)"
proof -
  have s: "simple_mpu_ap_bits w = simple_loop w [0, 2, 4, 6, 8, 10, 12, 14] (push_bit 0 3) 0" by (simp add: simple_mpu_ap_bits_def)
  have "\<forall>n \<in> set [0..<32]. bit (simple_mpu_ap_bits w) n \<longleftrightarrow> n < 16 \<and> bit w (n + n div 2 * 2)"
    unfolding s simple_loop.simps push_bit_push_bit bit_or_iff bit_and_iff bit_drop_bit_eq o_def bit_pair by (simp add: upt_conv_Cons)
  then show "n < 32 \<Longrightarrow> ?thesis" by simp
qed

lemma bit_extended: "n < 32 \<Longrightarrow> bit (extended_mpu_ap_bits w) n \<longleftrightarrow> n mod 4 < 2 \<and> bit w (n div 4 * 2 + n mod 4)"
proof -
  have s: "extended_mpu_ap_bits w = extended_loop w [0, 2, 4, 6, 8, 10, 12, 14] (push_bit 0 3) 0" by (simp add: extended_mpu_ap_bits_def)
  have "\<forall>n \<in> set [0..<32]. bit (extended_mpu_ap_bits w) n \<longleftrightarrow> n mod 4 < 2 \<and> bit w (n div 4 * 2 + n mod 4)"
    unfolding s extended_loop.simps push_bit_push_bit bit_or_iff bit_and_iff bit_push_bit_iff [of _ "_ AND _"] bit_pair
    by (simp add: upt_conv_Cons) (simp add: eval_nat_numeral)
  then show "n < 32 \<Longrightarrow> ?thesis" by simp
qed

lemma simple_extended: "simple_mpu_ap_bits (extended_mpu_ap_bits val) = val AND 0xffff"
proof (rule bit_word_eqI)
  fix n :: nat assume "n < LENGTH(32)"
  have m: "(0xffff :: u32) = mask 16" by (simp add: mask_eq_exp_minus_1)
  have "(n + n div 2 * 2) mod 4 < 2" "(n + n div 2 * 2) div 4 * 2 + (n + n div 2 * 2) mod 4 = n" by presburger+
  then show "bit (simple_mpu_ap_bits (extended_mpu_ap_bits val)) n = bit (val AND 0xffff) n"
    using \<open>n < LENGTH(32)\<close> unfolding m by (auto simp: bit_simple bit_extended bit_simps)
qed

text \<open>The bits of a register that are kept, for the registers that can be read back.\<close>

definition cp15_kept :: "arm_cpu \<Rightarrow> nat \<Rightarrow> nat \<Rightarrow> nat \<Rightarrow> nat \<Rightarrow> u32 option" where
  "cp15_kept c crn op1 crm op2 =
     (let omap = has c ARM_FEATURE_OMAPCP; xscale = has c ARM_FEATURE_XSCALE; mpu = has c ARM_FEATURE_MPU;
          op2' = (if omap then 0 else op2)
      in if crn = 0 then if \<not> xscale \<and> \<not> omap then Some 0xf else None
         else if crn = 1 \<and> crm = 0 then
           if op2' = 0 \<and> \<not> xscale \<or> op2' = 1 \<and> xscale \<or> op2' = 2 then Some (- 1) else None
         else if crn = 1 then if op2 = 0 then None else Some (- 1)
         else if crn = 2 then if \<not> mpu \<and> op2 = 2 then Some 7 else Some (- 1)
         else if crn = 3 then Some (- 1)
         else if crn = 5 then if mpu \<and> op2' = 0 then Some 0xffff else if mpu \<and> op2' = 1 then None else Some (- 1)
         else if crn = 6 then
           if mpu \<or> op2' = 0 \<or> op2' = (if has c ARM_FEATURE_V6 then 2 else 1) then Some (- 1) else None
         else if crn = 9 \<and> \<not> omap \<and> \<not> has c ARM_FEATURE_STRONGARM then
           if crm = 0 \<and> op1 = 0 then Some (- 1) else if crm = 13 \<and> op2 = 1 then Some 0xff
           else if crm = 14 \<and> op2 = 0 then Some 1 else None
         else if crn = 12 then if op2 = 0 then Some (NOT 0x1f) else None
         else if crn = 13 then Some (- 1)
         else if crn = 15 \<and> xscale then Some 0x3fff
         else if crn = 15 \<and> omap then
           if crm = 1 then Some 0xe7 else if crm = 2 \<or> crm = 3 then Some (- 1) else if crm = 4 then Some 0xffff else None
         else None)"


lemma kept_c0:
  assumes "cp15_kept c 0 op1 crm op2 = Some m" and "set_c0 op1 crm op2 val c = Inr (c', acts)"
  shows "get_c0 op1 crm op2 c' = Inr (val AND m)"
  using assms by (auto simp: cp15_kept_def set_c0_def get_c0_def arm_feature_def Let_def split: if_splits)

lemma kept_c1:
  assumes "cp15_kept c 1 op1 crm op2 = Some m" and "set_c1 op1 crm op2 val c = Inr (c', acts)"
  shows "get_c1 crm op2 c' = Inr (val AND m)"
  using assms by (auto simp: cp15_kept_def set_c1_def get_c1_def arm_feature_def Let_def split: if_splits)

lemma kept_c2:
  assumes "cp15_kept c 2 op1 crm op2 = Some m" and "set_c2 op2 val c = Inr (c', acts)"
  shows "get_c2 op2 c' = Inr (val AND m)"
  using assms by (auto simp: cp15_kept_def set_c2_def get_c2_def arm_feature_def Let_def split: if_splits)

lemma kept_c5:
  assumes "cp15_kept c 5 op1 crm op2 = Some m" and "set_c5 op2 val c = Inr (c', acts)"
  shows "get_c5 op2 c' = Inr (val AND m)"
  using assms by (auto simp: cp15_kept_def set_c5_def get_c5_def arm_feature_def Let_def simple_extended split: if_splits)

lemma kept_c6:
  assumes "cp15_kept c 6 op1 crm op2 = Some m" and "set_c6 crm op2 val c = Inr (c', acts)"
  shows "get_c6 crm op2 c' = Inr (val AND m)"
  using assms by (auto simp: cp15_kept_def set_c6_def get_c6_def arm_feature_def Let_def split: if_splits)

lemma kept_c9:
  assumes "cp15_kept c 9 op1 crm op2 = Some m" and "set_c9 op1 crm op2 val c = Inr (c', acts)"
  shows "get_c9 op1 crm op2 c' = Inr (val AND m)"
  using assms by (auto simp: cp15_kept_def set_c9_def get_c9_def arm_feature_def Let_def set_c9_perf_def split: if_splits)

lemma kept_c12:
  assumes "cp15_kept c 12 op1 crm op2 = Some m" and "set_c12 op1 crm op2 val c = Inr (c', acts)"
  shows "get_c12 op1 crm op2 c' = Inr (val AND m)"
  using assms by (auto simp: cp15_kept_def set_c12_def get_c12_def arm_feature_def Let_def split: if_splits)

lemma kept_c15:
  assumes "cp15_kept c 15 op1 crm op2 = Some m" and "set_c15 crm op2 val c = Inr (c', acts)"
  shows "get_c15 crm op2 c' = Inr (val AND m)"
  using assms by (auto simp: cp15_kept_def set_c15_def get_c15_def arm_feature_def Let_def split: if_splits)


lemma kept_c3: "cp15_kept c 3 op1 crm op2 = Some m \<Longrightarrow> set_c3 val c = Inr (c', acts) \<Longrightarrow> a_c3 (ac c') = val AND m"
  by (auto simp: cp15_kept_def set_c3_def Let_def split: if_splits)

lemma kept_c13:
  assumes "cp15_kept c 13 op1 crm op2 = Some m" and "set_c13 op2 val c = Inr (c', acts)"
  shows "op2 = 0 \<and> a_c13_fcse (ac c') = val AND m \<or> op2 = 1 \<and> c13_context (cp c') = val AND m"
  using assms by (auto simp: cp15_kept_def set_c13_def Let_def split: if_splits)

lemma cp15_kept_range: "cp15_kept c crn op1 crm op2 = Some m \<Longrightarrow> crn \<in> {0, 1, 2, 3, 5, 6, 9, 12, 13, 15}"
  by (auto simp: cp15_kept_def Let_def split: if_splits)

text \<open>C26: A register of the system coprocessor that can be read back returns what was written to it, restricted to the bits it keeps.\<close>

theorem cp15_write_read:
  assumes "set_cp15 ldl insn val c = Inr (c', acts)" and "cp15_kept c (insn_crn insn) (insn_op1 insn) (insn_crm insn) (insn_op2 insn) = Some m"
  shows "get_cp15 insn c' = Inr (val AND m, c')"
proof -
  define crn where "crn = insn_crn insn"
  have k: "cp15_kept c crn (insn_op1 insn) (insn_crm insn) (insn_op2 insn) = Some m" using assms(2) by (simp add: crn_def)
  have "crn \<in> {0, 1, 2, 3, 5, 6, 9, 12, 13, 15}" by (rule cp15_kept_range [OF k])
  then show ?thesis
    using k assms(1) unfolding set_cp15_def get_cp15_def Let_def crn_def [symmetric]
    by (elim insertE emptyE)
      (auto simp del: One_nat_def dest: kept_c0 kept_c1 kept_c2 kept_c3 kept_c5 kept_c6 kept_c9 kept_c12 kept_c13 kept_c15)
qed


section \<open>Translations on request\<close>

lemma par_fault: "par_of_walk c (Walk_Fault ret) = push_bit 1 (ret AND 0xf) OR 1"
proof -
  have z: "drop_bit 5 (ret AND push_bit 1 10) = 0" "drop_bit 6 (ret AND push_bit 1 12) = 0"
  proof -
    have t: "push_bit 1 10 = (take_bit 5 20 :: u32)" "push_bit 1 12 = (take_bit 6 24 :: u32)" by simp_all
    show "drop_bit 5 (ret AND push_bit 1 10) = 0" "drop_bit 6 (ret AND push_bit 1 12) = 0"
      unfolding t by (auto simp only: bit_eq_iff bit_drop_bit_eq bit_and_iff bit_take_bit_iff o_def bit_0_eq bot_apply bot_bool_def)
  qed
  show ?thesis unfolding par_of_walk_def walk.case z by simp
qed

text \<open>A translation that the guest asks for (c7, c8) runs the walk of the access and privilege that the operation names, and the result register
  then reads as the physical page, as the supersection with its mark, or as the fault code with the lowest bit set.\<close>

theorem cp15_va_to_pa:
  assumes "has c ARM_FEATURE_VAPA" and "insn_crn insn = 7" and "insn_op1 insn = 0" and "insn_crm insn = 8" and "insn_op2 insn < 4"
    and "insn_crn rd = 7" and "insn_op1 rd = 0" and "insn_crm rd = 4" and "insn_op2 rd = 0"
  shows "\<exists>c' w. get_phys_addr ldl (ac c) val (insn_op2 insn mod 2) (2 \<le> insn_op2 insn) = Inr w \<and> set_cp15 ldl insn val c = Inr (c', []) \<and>
    get_cp15 rd c' = Inr (case w of
        Mapped phys prot sz \<Rightarrow> if sz = 0x1000000 \<and> has c ARM_FEATURE_V7 then (phys AND 0xff000000) OR 2 else phys AND 0xfffff000
      | Walk_Fault code \<Rightarrow> push_bit 1 (code AND 0xf) OR 1, c')"
proof -
  obtain w where w: "get_phys_addr ldl (ac c) val (insn_op2 insn mod 2) (2 \<le> insn_op2 insn) = Inr w" using get_phys_addr_total by blast
  define c' where "c' = c\<lparr>cp := (cp c)\<lparr>c15_i_max := 0, c15_i_min := 0xff0, c7_par := par_of_walk c w\<rparr>\<rparr>"
  have "par_of_walk (c\<lparr>cp := r\<rparr>) w = par_of_walk c w" for r by (simp add: par_of_walk_def split: walk.split)
  then have "set_cp15 ldl insn val c = Inr (c', [])"
    using assms(1-5) w by (simp add: set_cp15_def set_c7_def Let_def c'_def)
  moreover have "get_cp15 rd c' = Inr (par_of_walk c w, c')" using assms(6-9) by (simp add: get_cp15_def Let_def c'_def)
  moreover have "par_of_walk c w = (case w of
        Mapped phys prot sz \<Rightarrow> if sz = 0x1000000 \<and> has c ARM_FEATURE_V7 then (phys AND 0xff000000) OR 2 else phys AND 0xfffff000
      | Walk_Fault code \<Rightarrow> push_bit 1 (code AND 0xf) OR 1)"
    by (cases w) (simp_all only: par_fault walk.case, simp add: par_of_walk_def)
  ultimately show ?thesis using w by auto
qed

definition cp15_0 :: cp15_regs where
  "cp15_0 = \<lparr>c0_cpuid = ARM_CPUID_CORTEXA8, c0_cachetype = 0, c0_ccsid = (\<lambda>_. 0), c0_clid = 0, c0_cssel = 0, c0_c1 = (\<lambda>_. 0), c0_c2 = (\<lambda>_. 0),
     c1_coproc = 0, c1_xscaleauxcr = 0, c1_sedbg = 0, c1_nseac = 0, c2_control = 0, c2_data = 0, c2_insn = 0, c7_par = 0, c9_insn = 0, c9_data = 0,
     c9_pmcr = 0, c9_pmcnten = 0, c9_pmovsr = 0, c9_pmxevtyper = 0, c9_pmuserenr = 0, c9_pminten = 0, c13_context = 0, c15_cpar = 0,
     c15_ticonfig = 0, c15_i_max = 0, c15_i_min = 0, c15_threadid = 0\<rparr>"

definition acpu0 :: arm_cpu where
  "acpu0 = \<lparr>ac = mmu0, cp = cp15_0, ac_tlb = tlb0, ac_index = 0\<rparr>"

lemmas insn_defs = insn_crn_def insn_op1_def insn_op2_def insn_crm_def

theorem cp15_tlb_agrees_witness:
  "\<exists>c'. set_cp15 ldl0 0x00030000 3 acpu0 = Inr (c', []) \<and> a_c3 (ac c') = 3 \<and> tlb_ok ldl0 (ac c') pm0 (ac_tlb c')"
proof -
  have i: "insn_crn 0x00030000 = 3" by (simp add: insn_defs drop_bit_eq_div)
  obtain c' where c: "set_cp15 ldl0 0x00030000 3 acpu0 = Inr (c', [])" "a_c3 (ac c') = 3"
    by (simp add: set_cp15_def Let_def i set_c3_def)
  have "\<not> has acpu0 ARM_FEATURE_MPU" by (simp add: acpu0_def mmu0_simps)
  moreover have "tlb_ok ldl0 (ac acpu0) pm0 (ac_tlb acpu0)" by (simp add: acpu0_def tlb_ok_def tlb0_def empty_ok)
  ultimately have "tlb_ok ldl0 (ac c') pm0 (ac_tlb c')" using cp15_tlb_agrees [OF _ _ c(1), of pm0] i by simp
  then show ?thesis using c by blast
qed

theorem cp15_write_read_witness:
  "\<exists>c'. set_cp15 ldl0 0x00020040 0xff acpu0 = Inr (c', []) \<and> get_cp15 0x00020040 c' = Inr (7, c')"
proof -
  have i: "insn_crn 0x00020040 = 2" "insn_op2 0x00020040 = 2" by (simp_all add: insn_defs drop_bit_eq_div)
  have f: "\<not> has acpu0 g" for g by (simp add: acpu0_def mmu0_simps)
  have "\<exists>c'. set_cp15 ldl0 0x00020040 0xff acpu0 = Inr (c', [])" by (simp add: set_cp15_def Let_def i set_c2_def f)
  then obtain c' where c: "set_cp15 ldl0 0x00020040 0xff acpu0 = Inr (c', [])" by blast
  have "cp15_kept acpu0 (insn_crn 0x00020040) (insn_op1 0x00020040) (insn_crm 0x00020040) (insn_op2 0x00020040) = Some 7"
    unfolding i by (simp add: cp15_kept_def f)
  from cp15_write_read [OF c this] c show ?thesis by auto
qed

definition vapa0 :: arm_cpu where
  "vapa0 = acpu0\<lparr>ac := mmu0\<lparr>a_features := 0x100000\<rparr>\<rparr>"

theorem cp15_va_to_pa_witness:
  "\<exists>c'. set_cp15 ldl0 0x00070008 0x100404 vapa0 = Inr (c', []) \<and> get_cp15 0x00070004 c' = Inr (0x20000000, c')"
proof -
  have i: "insn_crn 0x00070008 = 7" "insn_op1 0x00070008 = 0" "insn_crm 0x00070008 = 8" "insn_op2 0x00070008 = 0"
    "insn_crn 0x00070004 = 7" "insn_op1 0x00070004 = 0" "insn_crm 0x00070004 = 4" "insn_op2 0x00070004 = 0"
    by (simp_all add: insn_defs drop_bit_eq_div)
  have f: "has vapa0 ARM_FEATURE_VAPA" "\<not> has vapa0 ARM_FEATURE_MPU"
    by (simp_all add: vapa0_def acpu0_def arm_feature_def ARM_FEATURE_VAPA_def ARM_FEATURE_MPU_def bit_iff_odd_drop_bit drop_bit_eq_div)
  have w: "get_phys_addr ldl0 (ac vapa0) 0x100404 0 False = Inr (Mapped 0x20000404 7 0x100000)"
    using f(2) by (simp add: vapa0_def acpu0_def walk_defs mmu0_simps ldl0_def page_defs Let_def drop_bit_eq_div)
  from cp15_va_to_pa [OF f(1) i(1-3) _ i(5-8), of ldl0 "0x100404"] show ?thesis by (simp add: i w)
qed

text \<open>A processor with a protection unit reads the permissions of data accesses back in place of those of instructions.\<close>

theorem mpu_insn_permissions_unreadable:
  assumes "has c ARM_FEATURE_MPU" and "\<not> has c ARM_FEATURE_OMAPCP"
  shows "\<exists>c'. set_c5 1 val c = Inr (c', []) \<and> get_c5 1 c' = Inr (simple_mpu_ap_bits (a_c5_data (ac c)))"
  using assms by (simp add: set_c5_def get_c5_def Let_def arm_feature_def)

text \<open>An XScale processor ignores a write to its control register, so that its MMU is never switched on.\<close>

theorem xscale_control_ignored:
  assumes "has c ARM_FEATURE_XSCALE"
  shows "\<exists>c'. set_c1 op1 0 0 val c = Inr (c', []) \<and> a_c1_sys (ac c') = a_c1_sys (ac c)"
  using assms by (simp add: set_c1_def Let_def)

end
