(* ===== verification/Arm_Snapshot.thy ===== *)
theory Arm_Snapshot
  imports Arm_Cp15 Qemu_File
begin

text \<open>
  The snapshot of the processor: \<open>cpu_save\<close> and \<open>cpu_load\<close> of \<open>target-arm/machine.c\<close> and the common part, \<open>cpu_common_save\<close> and \<open>cpu_common_load\<close> of \<open>exec.c\<close>. The
  registers of the coprocessors that no other theory uses are a record of their own. A save gives the bytes put into the file, a load reads
  them from a stream; runs of consecutive words are read into a list and then stored.
\<close>

section \<open>State\<close>

record cpu_ext =
  x_tls1 :: u32
  x_tls2 :: u32
  x_tls3 :: u32
  x_cp14_dbgdidr :: u32
  x_vfp_regs :: "nat \<Rightarrow> u64"
  x_vfp_xregs :: "nat \<Rightarrow> u32"
  x_vec_len :: u32
  x_vec_stride :: u32
  x_wregs :: "nat \<Rightarrow> u64"
  x_cregs :: "nat \<Rightarrow> u32"
  x_other_sp :: u32
  x_vecbase :: u32
  x_basepri :: u32
  x_control :: u32
  x_current_sp :: u32
  x_exception :: u32
  x_teecr :: u32
  x_teehbr :: u32
  x_halted :: u32
  x_interrupt_request :: u32

record machine_cpu =
  mc_cpu :: arm_cpu
  mc_ext :: cpu_ext

definition ARM_FEATURE_VFP :: nat where "ARM_FEATURE_VFP = 0"
definition ARM_FEATURE_IWMMXT :: nat where "ARM_FEATURE_IWMMXT = 3"
definition ARM_FEATURE_VFP3 :: nat where "ARM_FEATURE_VFP3 = 9"
definition ARM_FEATURE_THUMB2EE :: nat where "ARM_FEATURE_THUMB2EE = 15"

definition CPU_SAVE_VERSION :: int where "CPU_SAVE_VERSION = 4"
definition CPU_SAVE_VERSION_LEGACY :: int where "CPU_SAVE_VERSION_LEGACY = 3"
definition CPU_COMMON_SAVE_VERSION :: int where "CPU_COMMON_SAVE_VERSION = 1"

section \<open>Saving\<close>

definition put_words :: "u32 list \<Rightarrow> u8 list" where
  "put_words ws = concat (map be32_bytes ws)"

definition core_words :: "CPUARMState \<Rightarrow> u32 list" where
  "core_words e = window (a_regs e) 0 16"

definition bank_words :: "CPUARMState \<Rightarrow> u32 list" where
  "bank_words e =
     a_spsr e # concat (map (\<lambda>i. [a_banked_spsr e i, a_banked_r13 e i, a_banked_r14 e i]) [0..<6]) @
     concat (map (\<lambda>i. [a_usr_regs e i, a_fiq_regs e i]) [0..<5])"

definition system_words :: "arm_cpu \<Rightarrow> u32 list" where
  "system_words c =
     [c0_cpuid (cp c), c0_cachetype (cp c), c0_cssel (cp c), a_c1_sys (ac c), c1_coproc (cp c), c1_xscaleauxcr (cp c), a_c1_secfg (ac c),
      c1_sedbg (cp c), c1_nseac (cp c), a_c2_base0 (ac c), a_c2_base1 (ac c), c2_control (cp c), a_c2_mask (ac c), a_c2_base_mask (ac c),
      c2_data (cp c), c2_insn (cp c), a_c3 (ac c), a_c5_insn (ac c), a_c5_data (ac c)] @ window (a_c6_region (ac c)) 0 8 @
     [a_c6_insn (ac c), a_c6_data (ac c), c7_par (cp c), c9_insn (cp c), c9_data (cp c)]"

definition perf_words :: "arm_cpu \<Rightarrow> u32 list" where
  "perf_words c = [c9_pmcr (cp c), c9_pmcnten (cp c), c9_pmovsr (cp c), c9_pmxevtyper (cp c), c9_pmuserenr (cp c), c9_pminten (cp c)]"

definition process_words :: "arm_cpu \<Rightarrow> cpu_ext \<Rightarrow> u32 list" where
  "process_words c x =
     [a_c13_fcse (ac c), c13_context (cp c), x_tls1 x, x_tls2 x, x_tls3 x, c15_cpar (cp c), x_cp14_dbgdidr x, a_features (ac c)]"

definition double_words :: "cpu_ext \<Rightarrow> nat \<Rightarrow> nat \<Rightarrow> u32 list" where
  "double_words x from n = concat (map (\<lambda>i. [ucast (drop_bit 32 (x_vfp_regs x i)), ucast (x_vfp_regs x i)]) [from ..< from + n])"

definition save_ext :: "arm_cpu \<Rightarrow> cpu_ext \<Rightarrow> u8 list" where
  "save_ext c x =
     (if has c ARM_FEATURE_VFP then
        put_words (double_words x 0 16) @ put_words (window (x_vfp_xregs x) 0 16) @ put_words [x_vec_len x, x_vec_stride x] @
        (if has c ARM_FEATURE_VFP3 then put_words (double_words x 16 16) else [])
      else []) @
     (if has c ARM_FEATURE_IWMMXT then concat (map be64_bytes (window (x_wregs x) 0 16)) @ put_words (window (x_cregs x) 0 16) else []) @
     (if has c ARM_FEATURE_M then put_words [x_other_sp x, x_vecbase x, x_basepri x, x_control x, x_current_sp x, x_exception x] else []) @
     (if has c ARM_FEATURE_THUMB2EE then put_words [x_teecr x, x_teehbr x] else [])"

definition cpu_save :: "machine_cpu \<Rightarrow> u8 list" where
  "cpu_save s =
     (let c = mc_cpu s; x = mc_ext s; e = ac c
      in put_words (core_words e) @ be32_bytes (cpsr_read e) @ put_words (bank_words e) @ put_words (system_words c) @ put_words (perf_words c) @
         put_words (process_words c x) @ save_ext c x)"

definition cpu_common_save :: "machine_cpu \<Rightarrow> u8 list" where
  "cpu_common_save s = put_words [x_halted (mc_ext s), x_interrupt_request (mc_ext s)]"

section \<open>Loading\<close>

fun get_words :: "nat \<Rightarrow> rstream \<Rightarrow> u32 list \<times> rstream" where
  "get_words 0 f = ([], f)"
| "get_words (Suc n) f = (let (w, f1) = st_get_be32 f; (ws, f2) = get_words n f1 in (w # ws, f2))"

fun get_quads :: "nat \<Rightarrow> rstream \<Rightarrow> u64 list \<times> rstream" where
  "get_quads 0 f = ([], f)"
| "get_quads (Suc n) f = (let (w, f1) = st_get_be64 f; (ws, f2) = get_quads n f1 in (w # ws, f2))"

definition load_banks :: "u32 list \<Rightarrow> CPUARMState \<Rightarrow> CPUARMState" where
  "load_banks w e =
     e\<lparr>a_spsr := w ! 0, a_banked_spsr := blit (a_banked_spsr e) 0 (map (\<lambda>i. w ! (1 + 3 * i)) [0..<6]),
       a_banked_r13 := blit (a_banked_r13 e) 0 (map (\<lambda>i. w ! (2 + 3 * i)) [0..<6]),
       a_banked_r14 := blit (a_banked_r14 e) 0 (map (\<lambda>i. w ! (3 + 3 * i)) [0..<6]),
       a_usr_regs := blit (a_usr_regs e) 0 (map (\<lambda>i. w ! (19 + 2 * i)) [0..<5]),
       a_fiq_regs := blit (a_fiq_regs e) 0 (map (\<lambda>i. w ! (20 + 2 * i)) [0..<5])\<rparr>"

definition load_system :: "u32 list \<Rightarrow> arm_cpu \<Rightarrow> arm_cpu" where
  "load_system w c =
     c\<lparr>cp := (cp c)\<lparr>c0_cpuid := w ! 0, c0_cachetype := w ! 1, c0_cssel := w ! 2, c1_coproc := w ! 4, c1_xscaleauxcr := w ! 5, c1_sedbg := w ! 7,
         c1_nseac := w ! 8, c2_control := w ! 11, c2_data := w ! 14, c2_insn := w ! 15, c7_par := w ! 29, c9_insn := w ! 30, c9_data := w ! 31\<rparr>,
       ac := (ac c)\<lparr>a_c1_sys := w ! 3, a_c1_secfg := w ! 6, a_c2_base0 := w ! 9, a_c2_base1 := w ! 10, a_c2_mask := w ! 12,
         a_c2_base_mask := w ! 13, a_c3 := w ! 16, a_c5_insn := w ! 17, a_c5_data := w ! 18,
         a_c6_region := blit (a_c6_region (ac c)) 0 (take 8 (drop 19 w)), a_c6_insn := w ! 27, a_c6_data := w ! 28\<rparr>\<rparr>"

definition load_perf :: "u32 list \<Rightarrow> arm_cpu \<Rightarrow> arm_cpu" where
  "load_perf w c =
     c\<lparr>cp := (cp c)\<lparr>c9_pmcr := w ! 0, c9_pmcnten := w ! 1, c9_pmovsr := w ! 2, c9_pmxevtyper := w ! 3, c9_pmuserenr := w ! 4, c9_pminten := w ! 5\<rparr>\<rparr>"

definition load_process :: "u32 list \<Rightarrow> machine_cpu \<Rightarrow> machine_cpu" where
  "load_process w s =
     (let c = mc_cpu s
      in s\<lparr>mc_cpu := c\<lparr>ac := (ac c)\<lparr>a_c13_fcse := w ! 0, a_features := w ! 7\<rparr>, cp := (cp c)\<lparr>c13_context := w ! 1, c15_cpar := w ! 5\<rparr>\<rparr>,
           mc_ext := (mc_ext s)\<lparr>x_tls1 := w ! 2, x_tls2 := w ! 3, x_tls3 := w ! 4, x_cp14_dbgdidr := w ! 6\<rparr>\<rparr>)"

definition join_double :: "u32 \<Rightarrow> u32 \<Rightarrow> u64" where
  "join_double upper lower = push_bit 32 (ucast upper) OR ucast lower"

definition load_doubles :: "u32 list \<Rightarrow> cpu_ext \<Rightarrow> cpu_ext" where
  "load_doubles w x = x\<lparr>x_vfp_regs := blit (x_vfp_regs x) 0 (map (\<lambda>i. join_double (w ! (2 * i)) (w ! (2 * i + 1))) [0..<16])\<rparr>"

definition load_vfp :: "bool \<Rightarrow> rstream \<Rightarrow> cpu_ext \<Rightarrow> cpu_ext \<times> rstream" where
  "load_vfp vfp3 f x =
     (let (d, f1) = get_words 32 f; (r, f2) = get_words 16 f1; (l, f3) = get_words 2 f2;
          x1 = (load_doubles d x)\<lparr>x_vfp_xregs := blit (x_vfp_xregs x) 0 r, x_vec_len := l ! 0, x_vec_stride := l ! 1\<rparr>
      in if vfp3 then let (d2, f4) = get_words 32 f3 in (load_doubles d2 x1, f4) else (x1, f3))"

definition load_ext :: "rstream \<Rightarrow> arm_cpu \<Rightarrow> cpu_ext \<Rightarrow> cpu_ext \<times> rstream" where
  "load_ext f c x =
     (let (x1, f1) = (if has c ARM_FEATURE_VFP then load_vfp (has c ARM_FEATURE_VFP3) f x else (x, f));
          (x2, f2) = (if has c ARM_FEATURE_IWMMXT
                      then let (q, g1) = get_quads 16 f1; (r, g2) = get_words 16 g1
                           in (x1\<lparr>x_wregs := blit (x_wregs x1) 0 q, x_cregs := blit (x_cregs x1) 0 r\<rparr>, g2)
                      else (x1, f1));
          (x3, f3) = (if has c ARM_FEATURE_M
                      then let (w, g) = get_words 6 f2
                           in (x2\<lparr>x_other_sp := w ! 0, x_vecbase := w ! 1, x_basepri := w ! 2, x_control := w ! 3, x_current_sp := w ! 4,
                                  x_exception := w ! 5\<rparr>, g)
                      else (x2, f2))
      in if has c ARM_FEATURE_THUMB2EE then let (w, g) = get_words 2 f3 in (x3\<lparr>x_teecr := w ! 0, x_teehbr := w ! 1\<rparr>, g) else (x3, f3))"

definition cpu_load :: "rstream \<Rightarrow> machine_cpu \<Rightarrow> int \<Rightarrow> (int \<times> machine_cpu \<times> rstream) res" where
  "cpu_load f s version_id =
     (if version_id \<noteq> CPU_SAVE_VERSION \<and> version_id \<noteq> CPU_SAVE_VERSION_LEGACY then Inr (- EINVAL, s, f)
      else let (r, f1) = get_words 16 f; (val, f2) = st_get_be32 f1; c = mc_cpu s
           in res_bind (cpsr_write val 0xffffffff ((ac c)\<lparr>a_regs := blit (a_regs (ac c)) 0 r, a_uncached_cpsr := val AND CPSR_M\<rparr>)) (\<lambda>e.
                let (b, f3) = get_words 29 f2;
                    (w, f4) = get_words 32 f3;
                    c1 = load_system w (c\<lparr>ac := load_banks b e\<rparr>);
                    (c2, f5) = (if version_id = CPU_SAVE_VERSION_LEGACY then (c1, snd (get_words 3 f4))
                                else let (p, g) = get_words 6 f4 in (load_perf p c1, g));
                    (q, f6) = get_words 8 f5;
                    s1 = load_process q (s\<lparr>mc_cpu := c2\<rparr>);
                    (x, f7) = load_ext f6 (mc_cpu s1) (mc_ext s1)
                in Inr (0, s1\<lparr>mc_ext := x\<rparr>, f7)))"

definition cpu_common_load :: "rstream \<Rightarrow> machine_cpu \<Rightarrow> int \<Rightarrow> int \<times> machine_cpu \<times> rstream" where
  "cpu_common_load f s version_id =
     (if version_id \<noteq> CPU_COMMON_SAVE_VERSION then (- EINVAL, s, f)
      else let (w, f1) = get_words 2 f
           in (0, s\<lparr>mc_ext := (mc_ext s)\<lparr>x_halted := w ! 0, x_interrupt_request := w ! 1 AND NOT 1\<rparr>, mc_cpu := flushed (mc_cpu s)\<rparr>, f1))"

section \<open>Reading back\<close>

lemma get_words_put [stream_get]:
  "length ws = n \<Longrightarrow> get_words n \<lparr>rs_bytes = put_words ws @ bs, rs_error = e\<rparr> = (ws, \<lparr>rs_bytes = bs, rs_error = e\<rparr>)"
  by (induction ws arbitrary: n) (auto simp: put_words_def stream_get)

lemma get_quads_put [stream_get]:
  "length ws = n \<Longrightarrow> get_quads n \<lparr>rs_bytes = concat (map be64_bytes ws) @ bs, rs_error = e\<rparr> = (ws, \<lparr>rs_bytes = bs, rs_error = e\<rparr>)"
  by (induction ws arbitrary: n) (auto simp: stream_get)

lemma upt_6: "[0..<6] = [0, 1, 2, 3, 4, 5 :: nat]" and upt_5: "[0..<5] = [0, 1, 2, 3, 4 :: nat]" and upt_8: "[0..<8] = [0, 1, 2, 3, 4, 5, 6, 7 :: nat]"
  by (simp_all add: upt_conv_Cons)

lemma window_blit_all: "length ws = n \<Longrightarrow> window (blit a 0 ws) 0 n = ws"
  by (rule nth_equalityI) (auto simp: window_def blit_def)

lemma word_lengths:
  "length (core_words e) = 16" "length (bank_words e) = 29" "length (system_words c) = 32" "length (perf_words c) = 6" "length (process_words c x) = 8"
  "length (double_words x k 16) = 32"
  by (simp_all add: core_words_def bank_words_def system_words_def perf_words_def process_words_def double_words_def upt_6 upt_5 length_concat o_def sum_list_const_mult [of 2 "\<lambda>_. 1"] sum_list_triv)

lemma bank_words_load: "bank_words (load_banks (bank_words e) e') = bank_words e"
  by (simp add: bank_words_def load_banks_def upt_6 upt_5 blit_def)

lemma system_words_load: "system_words (load_system (system_words c) c') = system_words c"
  by (simp add: system_words_def load_system_def window_def upt_8 blit_def)

lemma perf_words_load: "perf_words (load_perf (perf_words c) c') = perf_words c"
  by (simp add: perf_words_def load_perf_def)

lemma process_words_load: "process_words (mc_cpu (load_process (process_words c x) s)) (mc_ext (load_process (process_words c x) s)) = process_words c x"
  by (simp add: process_words_def load_process_def Let_def)

lemma nth_pairs:
  "i < n \<Longrightarrow> concat (map (\<lambda>i. [f i, g i]) [k ..< k + n]) ! (2 * i) = f (k + i) \<and> concat (map (\<lambda>i. [f i, g i]) [k ..< k + n]) ! (2 * i + 1) = g (k + i)"
proof (induction n)
  case (Suc n)
  have l: "length (concat (map (\<lambda>i. [f i, g i]) [k ..< k + n])) = 2 * n" by (induction n) auto
  show ?case using Suc by (cases "i = n") (auto simp: nth_append l)
qed simp

lemma join_halves: "join_double (ucast (drop_bit 32 d)) (ucast d) = d"
  unfolding join_double_def by (rule bit_word_eqI) (auto simp: bit_simps)

lemma load_doubles_regs: "load_doubles (double_words x k 16) x' = x'\<lparr>x_vfp_regs := blit (x_vfp_regs x') 0 (window (x_vfp_regs x) k 16)\<rparr>"
proof -
  have "map (\<lambda>i. join_double (double_words x k 16 ! (2 * i)) (double_words x k 16 ! (2 * i + 1))) [0..<16] = window (x_vfp_regs x) k 16"
  proof (rule nth_equalityI)
    fix i assume "i < length (map (\<lambda>i. join_double (double_words x k 16 ! (2 * i)) (double_words x k 16 ! (2 * i + 1))) [0..<16])"
    then have i: "i < 16" by simp
    show "map (\<lambda>i. join_double (double_words x k 16 ! (2 * i)) (double_words x k 16 ! (2 * i + 1))) [0..<16] ! i = window (x_vfp_regs x) k 16 ! i"
      using i nth_pairs [OF i, of "\<lambda>i. ucast (drop_bit 32 (x_vfp_regs x i)) :: u32" "\<lambda>i. ucast (x_vfp_regs x i)" k]
      by (simp add: double_words_def window_def join_halves)
  qed simp
  then show ?thesis by (simp add: load_doubles_def)
qed

text \<open>A write of the whole status register that keeps the mode.\<close>

lemma cpsr_restore:
  assumes "cpsr_ok e"
  shows "\<exists>e'. cpsr_write v 0xffffffff (e\<lparr>a_regs := r, a_uncached_cpsr := v AND CPSR_M\<rparr>) = Inr e' \<and> cpsr_read e' = v \<and> a_regs e' = r"
proof -
  define e0 where "e0 = e\<lparr>a_regs := r, a_uncached_cpsr := v AND CPSR_M\<rparr>"
  have ok: "cpsr_ok e0" using assms by (simp add: cpsr_ok_def e0_def cpsr_defs and.assoc)
  have g: "group_mask 0xffffffff" by (simp add: group_mask_def cpsr_defs)
  have "(v AND CPSR_M XOR v) AND 0xffffffff AND CPSR_M = 0" by (auto simp: bit_eq_iff bit_simps)
  then obtain u where w: "cpsr_write v 0xffffffff e0 = Inr ((write_flags v 0xffffffff e0)\<lparr>a_uncached_cpsr := u\<rparr>)"
    by (simp add: cpsr_write_def Let_def e0_def)
  have ff: "(0xffffffff :: u32) = - 1" by simp
  have "(x AND NOT 0xffffffff) OR (v AND 0xffffffff) = v" for x unfolding ff by simp
  then have "cpsr_read ((write_flags v 0xffffffff e0)\<lparr>a_uncached_cpsr := u\<rparr>) = v" using cpsr_write_spec [OF ok g w] by metis
  moreover have "a_regs ((write_flags v 0xffffffff e0)\<lparr>a_uncached_cpsr := u\<rparr>) = r" by (simp add: e0_def)
  ultimately show ?thesis using w unfolding e0_def by blast
qed

text \<open>The registers of the extensions that a processor has, with the number of the first floating point register.\<close>

definition ext_same :: "nat \<Rightarrow> arm_cpu \<Rightarrow> cpu_ext \<Rightarrow> cpu_ext \<Rightarrow> bool" where
  "ext_same d c x x' \<longleftrightarrow>
     (has c ARM_FEATURE_VFP \<longrightarrow> window (x_vfp_regs x') 0 16 = window (x_vfp_regs x) d 16 \<and> window (x_vfp_xregs x') 0 16 = window (x_vfp_xregs x) 0 16 \<and>
        x_vec_len x' = x_vec_len x \<and> x_vec_stride x' = x_vec_stride x) \<and>
     (has c ARM_FEATURE_IWMMXT \<longrightarrow> window (x_wregs x') 0 16 = window (x_wregs x) 0 16 \<and> window (x_cregs x') 0 16 = window (x_cregs x) 0 16) \<and>
     (has c ARM_FEATURE_M \<longrightarrow> x_other_sp x' = x_other_sp x \<and> x_vecbase x' = x_vecbase x \<and> x_basepri x' = x_basepri x \<and> x_control x' = x_control x \<and>
        x_current_sp x' = x_current_sp x \<and> x_exception x' = x_exception x) \<and>
     (has c ARM_FEATURE_THUMB2EE \<longrightarrow> x_teecr x' = x_teecr x \<and> x_teehbr x' = x_teehbr x)"

definition ext_kept :: "cpu_ext \<Rightarrow> cpu_ext \<Rightarrow> bool" where
  "ext_kept x x' \<longleftrightarrow> x_tls1 x' = x_tls1 x \<and> x_tls2 x' = x_tls2 x \<and> x_tls3 x' = x_tls3 x \<and> x_cp14_dbgdidr x' = x_cp14_dbgdidr x \<and>
     x_halted x' = x_halted x \<and> x_interrupt_request x' = x_interrupt_request x"

lemma load_vfp_put:
  "\<exists>x'. load_vfp vfp3 \<lparr>rs_bytes = put_words (double_words x 0 16) @ put_words (window (x_vfp_xregs x) 0 16) @ put_words [x_vec_len x, x_vec_stride x] @
      (if vfp3 then put_words (double_words x 16 16) else []) @ rest, rs_error = er\<rparr> x0 = (x', \<lparr>rs_bytes = rest, rs_error = er\<rparr>) \<and>
    window (x_vfp_regs x') 0 16 = window (x_vfp_regs x) (if vfp3 then 16 else 0) 16 \<and> window (x_vfp_xregs x') 0 16 = window (x_vfp_xregs x) 0 16 \<and>
    x_vec_len x' = x_vec_len x \<and> x_vec_stride x' = x_vec_stride x \<and> ext_kept x0 x'"
  by (simp add: load_vfp_def stream_get word_lengths load_doubles_regs window_blit_all ext_kept_def)

lemma load_ext_put:
  "\<exists>x'. load_ext \<lparr>rs_bytes = save_ext c x @ rest, rs_error = er\<rparr> c x0 = (x', \<lparr>rs_bytes = rest, rs_error = er\<rparr>) \<and>
     ext_same (if has c ARM_FEATURE_VFP3 then 16 else 0) c x x' \<and> ext_kept x0 x'"
proof -
  define more where "more = (if has c ARM_FEATURE_IWMMXT then concat (map be64_bytes (window (x_wregs x) 0 16)) @ put_words (window (x_cregs x) 0 16) else []) @
     (if has c ARM_FEATURE_M then put_words [x_other_sp x, x_vecbase x, x_basepri x, x_control x, x_current_sp x, x_exception x] else []) @
     (if has c ARM_FEATURE_THUMB2EE then put_words [x_teecr x, x_teehbr x] else []) @ rest"
  obtain x1 where x1: "(if has c ARM_FEATURE_VFP then load_vfp (has c ARM_FEATURE_VFP3) \<lparr>rs_bytes = save_ext c x @ rest, rs_error = er\<rparr> x0
      else (x0, \<lparr>rs_bytes = save_ext c x @ rest, rs_error = er\<rparr>)) = (x1, \<lparr>rs_bytes = more, rs_error = er\<rparr>)"
    and same: "has c ARM_FEATURE_VFP \<Longrightarrow> window (x_vfp_regs x1) 0 16 = window (x_vfp_regs x) (if has c ARM_FEATURE_VFP3 then 16 else 0) 16 \<and>
      window (x_vfp_xregs x1) 0 16 = window (x_vfp_xregs x) 0 16 \<and> x_vec_len x1 = x_vec_len x \<and> x_vec_stride x1 = x_vec_stride x" and kept: "ext_kept x0 x1"
    using load_vfp_put [of "has c ARM_FEATURE_VFP3" x more er x0]
    by (cases "has c ARM_FEATURE_VFP") (auto simp: save_ext_def more_def ext_kept_def)
  show ?thesis unfolding load_ext_def x1 Let_def
    using same kept
    by (auto simp: more_def ext_same_def ext_kept_def stream_get window_blit_all)
qed

text \<open>The state that a snapshot restores.\<close>

definition cpu_same :: "nat \<Rightarrow> machine_cpu \<Rightarrow> machine_cpu \<Rightarrow> bool" where
  "cpu_same d s s' \<longleftrightarrow>
     core_words (ac (mc_cpu s')) = core_words (ac (mc_cpu s)) \<and> cpsr_read (ac (mc_cpu s')) = cpsr_read (ac (mc_cpu s)) \<and>
     bank_words (ac (mc_cpu s')) = bank_words (ac (mc_cpu s)) \<and> system_words (mc_cpu s') = system_words (mc_cpu s) \<and>
     perf_words (mc_cpu s') = perf_words (mc_cpu s) \<and> process_words (mc_cpu s') (mc_ext s') = process_words (mc_cpu s) (mc_ext s) \<and>
     ext_same d (mc_cpu s) (mc_ext s) (mc_ext s')"

lemma load_other:
  "cpsr_read (load_banks b e) = cpsr_read e" "a_regs (load_banks b e) = a_regs e"
  "ac_tlb (load_system w c) = ac_tlb c" "a_regs (ac (load_system w c)) = a_regs (ac c)" "cpsr_read (ac (load_system w c)) = cpsr_read (ac c)"
  "bank_words (ac (load_system w c)) = bank_words (ac c)"
  "ac (load_perf p c) = ac c" "ac_tlb (load_perf p c) = ac_tlb c" "system_words (load_perf p c) = system_words c"
  "ac_tlb (mc_cpu (load_process q s)) = ac_tlb (mc_cpu s)" "a_regs (ac (mc_cpu (load_process q s))) = a_regs (ac (mc_cpu s))"
  "cpsr_read (ac (mc_cpu (load_process q s))) = cpsr_read (ac (mc_cpu s))" "bank_words (ac (mc_cpu (load_process q s))) = bank_words (ac (mc_cpu s))"
  "system_words (mc_cpu (load_process q s)) = system_words (mc_cpu s)" "perf_words (mc_cpu (load_process q s)) = perf_words (mc_cpu s)"
  "x_halted (mc_ext (load_process q s)) = x_halted (mc_ext s)" "x_interrupt_request (mc_ext (load_process q s)) = x_interrupt_request (mc_ext s)"
  by (simp_all add: load_banks_def load_system_def load_perf_def load_process_def cpsr_read_def bank_words_def system_words_def perf_words_def Let_def)

lemma features_loaded: "has (mc_cpu (load_process (process_words c x) s)) f = has c f"
  by (simp add: load_process_def process_words_def arm_feature_def Let_def)

lemma ext_features: "(\<And>f. has c f = has c' f) \<Longrightarrow> ext_same d c x x' = ext_same d c' x x'"  "(\<And>f. has c f = has c' f) \<Longrightarrow> save_ext c x = save_ext c' x"
  by (simp_all add: ext_same_def save_ext_def)

lemma cpu_load_put:
  assumes "cpsr_ok (ac (mc_cpu s0))"
  shows "\<exists>s'. cpu_load \<lparr>rs_bytes = cpu_save s @ rest, rs_error = er\<rparr> s0 CPU_SAVE_VERSION = Inr (0, s', \<lparr>rs_bytes = rest, rs_error = er\<rparr>) \<and>
    cpu_same (if has (mc_cpu s) ARM_FEATURE_VFP3 then 16 else 0) s s' \<and> ac_tlb (mc_cpu s') = ac_tlb (mc_cpu s0) \<and>
    x_halted (mc_ext s') = x_halted (mc_ext s0) \<and> x_interrupt_request (mc_ext s') = x_interrupt_request (mc_ext s0)"
proof -
  define c where "c = mc_cpu s"
  define c0 where "c0 = mc_cpu s0"
  obtain e where e: "cpsr_write (cpsr_read (ac c)) 0xffffffff ((ac c0)\<lparr>a_regs := blit (a_regs (ac c0)) 0 (core_words (ac c)), a_uncached_cpsr := cpsr_read (ac c) AND CPSR_M\<rparr>) = Inr e"
    "cpsr_read e = cpsr_read (ac c)" "a_regs e = blit (a_regs (ac c0)) 0 (core_words (ac c))"
    using cpsr_restore [OF assms, of "cpsr_read (ac c)"] unfolding c0_def by blast
  define c2 where "c2 = load_perf (perf_words c) (load_system (system_words c) (c0\<lparr>ac := load_banks (bank_words (ac c)) e\<rparr>))"
  define s1 where "s1 = load_process (process_words c (mc_ext s)) (s0\<lparr>mc_cpu := c2\<rparr>)"
  have f: "has (mc_cpu s1) f = has c f" for f by (simp add: s1_def features_loaded)
  obtain x' where x: "load_ext \<lparr>rs_bytes = save_ext c (mc_ext s) @ rest, rs_error = er\<rparr> (mc_cpu s1) (mc_ext s1) = (x', \<lparr>rs_bytes = rest, rs_error = er\<rparr>)"
    "ext_same (if has c ARM_FEATURE_VFP3 then 16 else 0) c (mc_ext s) x'" "ext_kept (mc_ext s1) x'"
    using load_ext_put [of "mc_cpu s1" "mc_ext s" rest er "mc_ext s1"] unfolding f ext_features [of "mc_cpu s1" c, OF f] by blast
  have load: "cpu_load \<lparr>rs_bytes = cpu_save s @ rest, rs_error = er\<rparr> s0 CPU_SAVE_VERSION = Inr (0, s1\<lparr>mc_ext := x'\<rparr>, \<lparr>rs_bytes = rest, rs_error = er\<rparr>)"
    unfolding cpu_load_def cpu_save_def Let_def c_def [symmetric] c0_def [symmetric]
    using e(1) x(1) by (simp add: stream_get word_lengths CPU_SAVE_VERSION_def CPU_SAVE_VERSION_LEGACY_def s1_def c2_def)
  have "core_words (ac (mc_cpu s1)) = core_words (ac c)"
    using e(3) by (simp add: core_words_def s1_def c2_def load_other window_blit_all)
  moreover have "cpsr_read (ac (mc_cpu s1)) = cpsr_read (ac c)" "bank_words (ac (mc_cpu s1)) = bank_words (ac c)" "system_words (mc_cpu s1) = system_words c"
    "perf_words (mc_cpu s1) = perf_words c" "ac_tlb (mc_cpu s1) = ac_tlb c0"
    by (simp_all add: s1_def c2_def load_other e(2) bank_words_load system_words_load perf_words_load)
  moreover have "process_words (mc_cpu s1) x' = process_words c (mc_ext s)"
    using process_words_load [of c "mc_ext s" "s0\<lparr>mc_cpu := c2\<rparr>", folded s1_def] x(3) by (simp add: process_words_def ext_kept_def)
  moreover have "x_halted x' = x_halted (mc_ext s0)" "x_interrupt_request x' = x_interrupt_request (mc_ext s0)"
    using x(3) by (simp_all add: ext_kept_def s1_def load_other)
  ultimately show ?thesis using load x(2) by (intro exI [of _ "s1\<lparr>mc_ext := x'\<rparr>"]) (simp add: cpu_same_def c_def c0_def)
qed


section \<open>Properties\<close>

text \<open>C11: The snapshot of the processor. Loading what was saved, after the part common to all processors, restores every saved register: the current and the banked
  registers, the status register, the system coprocessor and the extensions that the processor has; bytes that follow are left in
  the file, and the TLB agrees with the restored page tables. (Processors with 32 floating point registers are excluded.)\<close>

theorem cpu_snapshot_roundtrip:
  assumes "cpsr_ok (ac (mc_cpu s0))" and "\<not> has (mc_cpu s) ARM_FEATURE_VFP3"
  shows "\<exists>s1 f s'. cpu_common_load \<lparr>rs_bytes = cpu_common_save s @ cpu_save s @ rest, rs_error = 0\<rparr> s0 CPU_COMMON_SAVE_VERSION = (0, s1, f) \<and>
    cpu_load f s1 CPU_SAVE_VERSION = Inr (0, s', \<lparr>rs_bytes = rest, rs_error = 0\<rparr>) \<and> cpu_same 0 s s' \<and>
    x_halted (mc_ext s') = x_halted (mc_ext s) \<and> x_interrupt_request (mc_ext s') = x_interrupt_request (mc_ext s) AND NOT 1 \<and>
    (\<forall>ldl pm. tlb_ok ldl (ac (mc_cpu s')) pm (ac_tlb (mc_cpu s')))"
proof -
  define s1 where "s1 = s0\<lparr>mc_ext := (mc_ext s0)\<lparr>x_halted := x_halted (mc_ext s), x_interrupt_request := x_interrupt_request (mc_ext s) AND NOT 1\<rparr>,
    mc_cpu := flushed (mc_cpu s0)\<rparr>"
  have c: "cpu_common_load \<lparr>rs_bytes = cpu_common_save s @ cpu_save s @ rest, rs_error = 0\<rparr> s0 CPU_COMMON_SAVE_VERSION =
      (0, s1, \<lparr>rs_bytes = cpu_save s @ rest, rs_error = 0\<rparr>)"
    by (simp add: cpu_common_load_def cpu_common_save_def stream_get s1_def)
  have ok: "cpsr_ok (ac (mc_cpu s1))" using assms(1) by (simp add: s1_def)
  show ?thesis using cpu_load_put [OF ok, of s rest 0] assms(2) c by (auto simp: s1_def flush_agrees)
qed

definition ext0 :: cpu_ext where
  "ext0 = \<lparr>x_tls1 = 0, x_tls2 = 0, x_tls3 = 0, x_cp14_dbgdidr = 0, x_vfp_regs = (\<lambda>_. 0), x_vfp_xregs = (\<lambda>_. 0), x_vec_len = 0, x_vec_stride = 0,
     x_wregs = (\<lambda>_. 0), x_cregs = (\<lambda>_. 0), x_other_sp = 0, x_vecbase = 0, x_basepri = 0, x_control = 0, x_current_sp = 0, x_exception = 0,
     x_teecr = 0, x_teehbr = 0, x_halted = 0, x_interrupt_request = 3\<rparr>"

definition mcpu0 :: machine_cpu where
  "mcpu0 = \<lparr>mc_cpu = acpu0, mc_ext = ext0\<rparr>"

theorem cpu_snapshot_roundtrip_witness:
  "\<exists>s1 f s'. cpu_common_load \<lparr>rs_bytes = cpu_common_save mcpu0 @ cpu_save mcpu0 @ [], rs_error = 0\<rparr> mcpu0 CPU_COMMON_SAVE_VERSION = (0, s1, f) \<and>
     cpu_load f s1 CPU_SAVE_VERSION = Inr (0, s', \<lparr>rs_bytes = [], rs_error = 0\<rparr>) \<and> a_c3 (ac (mc_cpu s')) = 1 \<and> x_interrupt_request (mc_ext s') = 2"
proof -
  have f: "\<not> has (mc_cpu mcpu0) g" for g by (simp add: mcpu0_def acpu0_def mmu0_simps)
  have ok: "cpsr_ok (ac (mc_cpu mcpu0))" using cpu0_ok by (simp add: mcpu0_def acpu0_def mmu0_def cpsr_ok_def)
  have "a_c3 (ac (mc_cpu s')) = 1" if "cpu_same 0 mcpu0 s'" for s'
    using that by (simp add: cpu_same_def system_words_def mcpu0_def acpu0_def mmu0_simps)
  moreover have "x_interrupt_request (mc_ext mcpu0) AND NOT 1 = 2" by (simp add: mcpu0_def ext0_def)
  ultimately show ?thesis using cpu_snapshot_roundtrip [OF ok f, of "[]"] by metis
qed

text \<open>With 32 floating point registers, the upper half is loaded over the lower half: after a round trip \<open>d0\<close> to \<open>d15\<close> hold the saved \<open>d16\<close> to \<open>d31\<close>.\<close>

theorem vfp3_registers_overwritten:
  assumes "cpsr_ok (ac (mc_cpu s0))" and "has (mc_cpu s) ARM_FEATURE_VFP" and "has (mc_cpu s) ARM_FEATURE_VFP3"
  shows "\<exists>s'. cpu_load \<lparr>rs_bytes = cpu_save s, rs_error = 0\<rparr> s0 CPU_SAVE_VERSION = Inr (0, s', \<lparr>rs_bytes = [], rs_error = 0\<rparr>) \<and>
    (\<forall>i<16. x_vfp_regs (mc_ext s') i = x_vfp_regs (mc_ext s) (16 + i))"
proof -
  have n: "window a 0 16 ! i = a i" "window b 16 16 ! i = b (16 + i)" if "i < 16" for a b :: "nat \<Rightarrow> u64" and i using that nth_window [of i 16 a 0] nth_window [of i 16 b 16] by simp_all
  obtain s' where s': "cpu_load \<lparr>rs_bytes = cpu_save s, rs_error = 0\<rparr> s0 CPU_SAVE_VERSION = Inr (0, s', \<lparr>rs_bytes = [], rs_error = 0\<rparr>)"
    "window (x_vfp_regs (mc_ext s')) 0 16 = window (x_vfp_regs (mc_ext s)) 16 16"
    using cpu_load_put [OF assms(1), of s "[]" 0] assms(2,3) by (auto simp: cpu_same_def ext_same_def)
  then have "\<forall>i<16. x_vfp_regs (mc_ext s') i = x_vfp_regs (mc_ext s) (16 + i)" using n by metis
  then show ?thesis using s'(1) by blast
qed

end
