(* ===== verification/Arm_Helpers.thy ===== *)
theory Arm_Helpers
  imports Arm_Cpu
begin

text \<open>
  The helpers of the translated ARM code that compute on registers, \<open>target-arm/op_helper.c\<close>, \<open>target-arm/helper.c\<close> and the template
  \<open>target-arm/op_addsub.h\<close>: arithmetic that sets the flags, shifts by a register, saturation, and the operations on packed bytes and
  halfwords of ARMv6. They are compared with the definitions of the architecture, on integers.
\<close>

section \<open>Arithmetic that sets the flags\<close>

definition set_nz :: "u32 \<Rightarrow> CPUARMState \<Rightarrow> CPUARMState" where
  "set_nz result env = env\<lparr>a_NF := result, a_ZF := result\<rparr>"

definition add_cc :: "u32 \<Rightarrow> u32 \<Rightarrow> CPUARMState \<Rightarrow> u32 \<times> CPUARMState" where
  "add_cc a b env =
     (let result = a + b
      in (result, (set_nz result env)\<lparr>a_CF := of_bool (result < a), a_VF := (a XOR b XOR - 1) AND (a XOR result)\<rparr>))"

definition adc_cc :: "u32 \<Rightarrow> u32 \<Rightarrow> CPUARMState \<Rightarrow> u32 \<times> CPUARMState" where
  "adc_cc a b env =
     (let (result, c) = (if a_CF env = 0 then (a + b, of_bool (a + b < a)) else (a + b + 1, of_bool (a + b + 1 \<le> a)))
      in (result, (set_nz result env)\<lparr>a_CF := c, a_VF := (a XOR b XOR - 1) AND (a XOR result)\<rparr>))"

definition sub_cc :: "u32 \<Rightarrow> u32 \<Rightarrow> CPUARMState \<Rightarrow> u32 \<times> CPUARMState" where
  "sub_cc a b env =
     (let result = a - b
      in (result, (set_nz result env)\<lparr>a_CF := of_bool (b \<le> a), a_VF := (a XOR b) AND (a XOR result)\<rparr>))"

definition sbc_cc :: "u32 \<Rightarrow> u32 \<Rightarrow> CPUARMState \<Rightarrow> u32 \<times> CPUARMState" where
  "sbc_cc a b env =
     (let (result, c) = (if a_CF env = 0 then (a - b - 1, of_bool (b < a)) else (a - b, of_bool (b \<le> a)))
      in (result, (set_nz result env)\<lparr>a_CF := c, a_VF := (a XOR b) AND (a XOR result)\<rparr>))"

section \<open>Shifts by a register\<close>

definition shift_of :: "u32 \<Rightarrow> nat" where
  "shift_of i = unat (i AND 0xff)"

definition shl :: "u32 \<Rightarrow> u32 \<Rightarrow> u32" where
  "shl x i = (if 32 \<le> shift_of i then 0 else push_bit (shift_of i) x)"

definition shr :: "u32 \<Rightarrow> u32 \<Rightarrow> u32" where
  "shr x i = (if 32 \<le> shift_of i then 0 else drop_bit (shift_of i) x)"

definition sar :: "u32 \<Rightarrow> u32 \<Rightarrow> u32" where
  "sar x i = signed_drop_bit (if 32 \<le> shift_of i then 31 else shift_of i) x"

definition shl_cc :: "u32 \<Rightarrow> u32 \<Rightarrow> CPUARMState \<Rightarrow> u32 \<times> CPUARMState" where
  "shl_cc x i env =
     (let shift = shift_of i
      in if 32 \<le> shift then (0, env\<lparr>a_CF := (if shift = 32 then x AND 1 else 0)\<rparr>)
         else if shift \<noteq> 0 then (push_bit shift x, env\<lparr>a_CF := drop_bit (32 - shift) x AND 1\<rparr>)
         else (x, env))"

definition shr_cc :: "u32 \<Rightarrow> u32 \<Rightarrow> CPUARMState \<Rightarrow> u32 \<times> CPUARMState" where
  "shr_cc x i env =
     (let shift = shift_of i
      in if 32 \<le> shift then (0, env\<lparr>a_CF := (if shift = 32 then drop_bit 31 x AND 1 else 0)\<rparr>)
         else if shift \<noteq> 0 then (drop_bit shift x, env\<lparr>a_CF := drop_bit (shift - 1) x AND 1\<rparr>)
         else (x, env))"

definition sar_cc :: "u32 \<Rightarrow> u32 \<Rightarrow> CPUARMState \<Rightarrow> u32 \<times> CPUARMState" where
  "sar_cc x i env =
     (let shift = shift_of i
      in if 32 \<le> shift then (signed_drop_bit 31 x, env\<lparr>a_CF := drop_bit 31 x AND 1\<rparr>)
         else if shift \<noteq> 0 then (signed_drop_bit shift x, env\<lparr>a_CF := drop_bit (shift - 1) x AND 1\<rparr>)
         else (x, env))"

definition ror_cc :: "u32 \<Rightarrow> u32 \<Rightarrow> CPUARMState \<Rightarrow> u32 \<times> CPUARMState" where
  "ror_cc x i env =
     (let shift1 = shift_of i;
          shift = unat ((i AND 0xff) AND 0x1f)
      in if shift = 0 then (x, if shift1 \<noteq> 0 then env\<lparr>a_CF := drop_bit 31 x AND 1\<rparr> else env)
         else (drop_bit shift x OR push_bit (32 - shift) x, env\<lparr>a_CF := drop_bit (shift - 1) x AND 1\<rparr>))"

section \<open>Saturation\<close>

definition SIGNBIT :: u32 where "SIGNBIT = 0x80000000"

definition set_q :: "CPUARMState \<Rightarrow> CPUARMState" where
  "set_q env = env\<lparr>a_QF := 1\<rparr>"

definition add_setq :: "u32 \<Rightarrow> u32 \<Rightarrow> CPUARMState \<Rightarrow> u32 \<times> CPUARMState" where
  "add_setq a b env =
     (let res = a + b
      in (res, if (res XOR a) AND SIGNBIT \<noteq> 0 \<and> (a XOR b) AND SIGNBIT = 0 then set_q env else env))"

definition add_saturate :: "u32 \<Rightarrow> u32 \<Rightarrow> CPUARMState \<Rightarrow> u32 \<times> CPUARMState" where
  "add_saturate a b env =
     (let res = a + b
      in if (res XOR a) AND SIGNBIT \<noteq> 0 \<and> (a XOR b) AND SIGNBIT = 0
         then (NOT (signed_drop_bit 31 a XOR SIGNBIT), set_q env) else (res, env))"

definition sub_saturate :: "u32 \<Rightarrow> u32 \<Rightarrow> CPUARMState \<Rightarrow> u32 \<times> CPUARMState" where
  "sub_saturate a b env =
     (let res = a - b
      in if (res XOR a) AND SIGNBIT \<noteq> 0 \<and> (a XOR b) AND SIGNBIT \<noteq> 0
         then (NOT (signed_drop_bit 31 a XOR SIGNBIT), set_q env) else (res, env))"

definition double_saturate :: "u32 \<Rightarrow> CPUARMState \<Rightarrow> u32 \<times> CPUARMState" where
  "double_saturate v env =
     (if 0x40000000 \<le> sint v then (NOT SIGNBIT, set_q env)
      else if sint v \<le> - 0x40000000 then (SIGNBIT, set_q env)
      else (push_bit 1 v, env))"

definition add_usaturate :: "u32 \<Rightarrow> u32 \<Rightarrow> CPUARMState \<Rightarrow> u32 \<times> CPUARMState" where
  "add_usaturate a b env = (let res = a + b in if res < a then (NOT 0, set_q env) else (res, env))"

definition sub_usaturate :: "u32 \<Rightarrow> u32 \<Rightarrow> CPUARMState \<Rightarrow> u32 \<times> CPUARMState" where
  "sub_usaturate a b env = (let res = a - b in if a < res then (0, set_q env) else (res, env))"

definition do_ssat :: "u32 \<Rightarrow> nat \<Rightarrow> CPUARMState \<Rightarrow> u32 \<times> CPUARMState" where
  "do_ssat v shift env =
     (let top = sint (signed_drop_bit shift v);
          m = push_bit shift 1 - 1
      in if 0 < top then (m, set_q env) else if top < - 1 then (NOT m, set_q env) else (v, env))"

definition do_usat :: "u32 \<Rightarrow> nat \<Rightarrow> CPUARMState \<Rightarrow> u32 \<times> CPUARMState" where
  "do_usat v shift env =
     (let m = push_bit shift 1 - 1
      in if sint v < 0 then (0, set_q env) else if m < v then (m, set_q env) else (v, env))"

definition ssat :: "u32 \<Rightarrow> u32 \<Rightarrow> CPUARMState \<Rightarrow> u32 \<times> CPUARMState" where
  "ssat x shift env = do_ssat x (unat shift) env"

definition usat :: "u32 \<Rightarrow> u32 \<Rightarrow> CPUARMState \<Rightarrow> u32 \<times> CPUARMState" where
  "usat x shift env = do_usat x (unat shift) env"

definition half_sat :: "(u32 \<Rightarrow> nat \<Rightarrow> CPUARMState \<Rightarrow> u32 \<times> CPUARMState) \<Rightarrow> u32 \<Rightarrow> u32 \<Rightarrow> CPUARMState \<Rightarrow> u32 \<times> CPUARMState" where
  "half_sat f x shift env =
     (let (lo, e1) = f (scast (ucast x :: u16)) (unat shift) env;
          (hi, e2) = f (signed_drop_bit 16 x) (unat shift) e1
      in (ucast (ucast lo :: u16) OR push_bit 16 hi, e2))"

definition ssat16 :: "u32 \<Rightarrow> u32 \<Rightarrow> CPUARMState \<Rightarrow> u32 \<times> CPUARMState" where
  "ssat16 = half_sat do_ssat"

definition usat16 :: "u32 \<Rightarrow> u32 \<Rightarrow> CPUARMState \<Rightarrow> u32 \<times> CPUARMState" where
  "usat16 = half_sat do_usat"

section \<open>Registers of the user mode\<close>

text \<open>The arrays of five registers end before the register 13; an access beyond them is undefined.\<close>

definition get_user_reg :: "nat \<Rightarrow> CPUARMState \<Rightarrow> u32 res" where
  "get_user_reg regno env =
     (if regno = 13 then Inr (a_banked_r13 env 0)
      else if regno = 14 then Inr (a_banked_r14 env 0)
      else if 8 \<le> regno \<and> a_uncached_cpsr env AND 0x1f = ARM_CPU_MODE_FIQ then
        if regno - 8 < 5 then Inr (a_usr_regs env (regno - 8)) else Inl Undefined
      else if regno < 16 then Inr (a_regs env regno) else Inl Undefined)"

definition set_user_reg :: "nat \<Rightarrow> u32 \<Rightarrow> CPUARMState \<Rightarrow> CPUARMState res" where
  "set_user_reg regno v env =
     (if regno = 13 then Inr (env\<lparr>a_banked_r13 := (a_banked_r13 env)(0 := v)\<rparr>)
      else if regno = 14 then Inr (env\<lparr>a_banked_r14 := (a_banked_r14 env)(0 := v)\<rparr>)
      else if 8 \<le> regno \<and> a_uncached_cpsr env AND 0x1f = ARM_CPU_MODE_FIQ then
        if regno - 8 < 5 then Inr (env\<lparr>a_usr_regs := (a_usr_regs env)(regno - 8 := v)\<rparr>) else Inl Undefined
      else if regno < 16 then Inr (env\<lparr>a_regs := (a_regs env)(regno := v)\<rparr>) else Inl Undefined)"

section \<open>Extension, division, bits\<close>

definition sxtb16 :: "u32 \<Rightarrow> u32" where
  "sxtb16 x = ucast (scast (ucast x :: u8) :: u16) OR push_bit 16 (scast (ucast (drop_bit 16 x) :: u8))"

definition uxtb16 :: "u32 \<Rightarrow> u32" where
  "uxtb16 x = ucast (ucast (ucast x :: u8) :: u16) OR push_bit 16 (ucast (ucast (drop_bit 16 x) :: u8))"

definition c_quot :: "int \<Rightarrow> int \<Rightarrow> int" where
  "c_quot a b = (if (a < 0) = (b < 0) then \<bar>a\<bar> div \<bar>b\<bar> else - (\<bar>a\<bar> div \<bar>b\<bar>))"

definition sdiv_helper :: "u32 \<Rightarrow> u32 \<Rightarrow> u32" where
  "sdiv_helper num den =
     (if den = 0 then 0
      else if sint num = - (2 ^ 31) \<and> sint den = - 1 then 0x80000000
      else word_of_int (c_quot (sint num) (sint den)))"

definition udiv_helper :: "u32 \<Rightarrow> u32 \<Rightarrow> u32" where
  "udiv_helper num den = (if den = 0 then 0 else num div den)"

definition rbit :: "u32 \<Rightarrow> u32" where
  "rbit x0 =
     (let x1 = drop_bit 24 (x0 AND 0xff000000) OR drop_bit 8 (x0 AND 0x00ff0000) OR push_bit 8 (x0 AND 0x0000ff00) OR
               push_bit 24 (x0 AND 0x000000ff);
          x2 = drop_bit 4 (x1 AND 0xf0f0f0f0) OR push_bit 4 (x1 AND 0x0f0f0f0f)
      in drop_bit 3 (x2 AND 0x88888888) OR drop_bit 1 (x2 AND 0x44444444) OR push_bit 1 (x2 AND 0x22222222) OR
         push_bit 3 (x2 AND 0x11111111))"

definition abs_helper :: "u32 \<Rightarrow> u32" where
  "abs_helper x = (if sint x < 0 then - x else x)"

definition do_usad :: "u8 \<Rightarrow> u8 \<Rightarrow> u8" where
  "do_usad a b = (if b < a then a - b else b - a)"

definition usad8 :: "u32 \<Rightarrow> u32 \<Rightarrow> u32" where
  "usad8 a b = ucast (do_usad (ucast a) (ucast b)) + ucast (do_usad (ucast (drop_bit 8 a)) (ucast (drop_bit 8 b))) +
     ucast (do_usad (ucast (drop_bit 16 a)) (ucast (drop_bit 16 b))) + ucast (do_usad (ucast (drop_bit 24 a)) (ucast (drop_bit 24 b)))"

definition sel_flags :: "u32 \<Rightarrow> u32 \<Rightarrow> u32 \<Rightarrow> u32" where
  "sel_flags flags a b =
     (let m = (if bit flags 0 then 0xff else 0) OR (if bit flags 1 then 0xff00 else 0) OR
              (if bit flags 2 then 0xff0000 else 0) OR (if bit flags 3 then 0xff000000 else 0)
      in (a AND m) OR (b AND NOT m))"

definition logicq_cc :: "u64 \<Rightarrow> u32" where
  "logicq_cc v = ucast (drop_bit 32 v OR of_bool (v \<noteq> 0))"

section \<open>Packed bytes and halfwords\<close>

definition add16_sat :: "u16 \<Rightarrow> u16 \<Rightarrow> u16" where
  "add16_sat a b =
     (let res = a + b
      in if (res XOR a) AND 0x8000 \<noteq> 0 \<and> (a XOR b) AND 0x8000 = 0 then (if a AND 0x8000 \<noteq> 0 then 0x8000 else 0x7fff) else res)"

definition add8_sat :: "u8 \<Rightarrow> u8 \<Rightarrow> u8" where
  "add8_sat a b =
     (let res = a + b
      in if (res XOR a) AND 0x80 \<noteq> 0 \<and> (a XOR b) AND 0x80 = 0 then (if a AND 0x80 \<noteq> 0 then 0x80 else 0x7f) else res)"

definition sub16_sat :: "u16 \<Rightarrow> u16 \<Rightarrow> u16" where
  "sub16_sat a b =
     (let res = a - b
      in if (res XOR a) AND 0x8000 \<noteq> 0 \<and> (a XOR b) AND 0x8000 \<noteq> 0 then (if a AND 0x8000 \<noteq> 0 then 0x8000 else 0x7fff) else res)"

definition sub8_sat :: "u8 \<Rightarrow> u8 \<Rightarrow> u8" where
  "sub8_sat a b =
     (let res = a - b
      in if (res XOR a) AND 0x80 \<noteq> 0 \<and> (a XOR b) AND 0x80 \<noteq> 0 then (if a AND 0x80 \<noteq> 0 then 0x80 else 0x7f) else res)"

definition add16_usat :: "u16 \<Rightarrow> u16 \<Rightarrow> u16" where
  "add16_usat a b = (if a + b < a then 0xffff else a + b)"

definition sub16_usat :: "u16 \<Rightarrow> u16 \<Rightarrow> u16" where
  "sub16_usat a b = (if b < a then a - b else 0)"

definition add8_usat :: "u8 \<Rightarrow> u8 \<Rightarrow> u8" where
  "add8_usat a b = (if a + b < a then 0xff else a + b)"

definition sub8_usat :: "u8 \<Rightarrow> u8 \<Rightarrow> u8" where
  "sub8_usat a b = (if b < a then a - b else 0)"

text \<open>
  The template is included with six prefixes. The macros \<open>ADD16\<close>, \<open>SUB16\<close>, \<open>ADD8\<close> and \<open>SUB8\<close> of a prefix give the value of a lane, before
  it is cut to the width of the lane, and whether the GE bits of the lane are set. They take whole registers and use the low part.
\<close>

datatype pfx = Pfx_q | Pfx_uq | Pfx_s | Pfx_u | Pfx_sh | Pfx_uh

definition ADD16 :: "pfx \<Rightarrow> u32 \<Rightarrow> u32 \<Rightarrow> u32 \<times> bool" where
  "ADD16 p a b =
     (let sa = scast (ucast a :: u16) :: u32; sb = scast (ucast b :: u16) :: u32;
          ua = ucast (ucast a :: u16) :: u32; ub = ucast (ucast b :: u16) :: u32
      in case p of
           Pfx_q \<Rightarrow> (ucast (add16_sat (ucast a) (ucast b)), False)
         | Pfx_uq \<Rightarrow> (ucast (add16_usat (ucast a) (ucast b)), False)
         | Pfx_s \<Rightarrow> (sa + sb, 0 \<le> sint (sa + sb))
         | Pfx_u \<Rightarrow> (ua + ub, drop_bit 16 (ua + ub) = 1)
         | Pfx_sh \<Rightarrow> (signed_drop_bit 1 (sa + sb), False)
         | Pfx_uh \<Rightarrow> (drop_bit 1 (ua + ub), False))"

definition SUB16 :: "pfx \<Rightarrow> u32 \<Rightarrow> u32 \<Rightarrow> u32 \<times> bool" where
  "SUB16 p a b =
     (let sa = scast (ucast a :: u16) :: u32; sb = scast (ucast b :: u16) :: u32;
          ua = ucast (ucast a :: u16) :: u32; ub = ucast (ucast b :: u16) :: u32
      in case p of
           Pfx_q \<Rightarrow> (ucast (sub16_sat (ucast a) (ucast b)), False)
         | Pfx_uq \<Rightarrow> (ucast (sub16_usat (ucast a) (ucast b)), False)
         | Pfx_s \<Rightarrow> (sa - sb, 0 \<le> sint (sa - sb))
         | Pfx_u \<Rightarrow> (ua - ub, drop_bit 16 (ua - ub) = 0)
         | Pfx_sh \<Rightarrow> (signed_drop_bit 1 (sa - sb), False)
         | Pfx_uh \<Rightarrow> (drop_bit 1 (ua - ub), False))"

definition ADD8 :: "pfx \<Rightarrow> u32 \<Rightarrow> u32 \<Rightarrow> u32 \<times> bool" where
  "ADD8 p a b =
     (let sa = scast (ucast a :: u8) :: u32; sb = scast (ucast b :: u8) :: u32;
          ua = ucast (ucast a :: u8) :: u32; ub = ucast (ucast b :: u8) :: u32
      in case p of
           Pfx_q \<Rightarrow> (ucast (add8_sat (ucast a) (ucast b)), False)
         | Pfx_uq \<Rightarrow> (ucast (add8_usat (ucast a) (ucast b)), False)
         | Pfx_s \<Rightarrow> (sa + sb, 0 \<le> sint (sa + sb))
         | Pfx_u \<Rightarrow> (ua + ub, drop_bit 8 (ua + ub) = 1)
         | Pfx_sh \<Rightarrow> (signed_drop_bit 1 (sa + sb), False)
         | Pfx_uh \<Rightarrow> (drop_bit 1 (ua + ub), False))"

definition SUB8 :: "pfx \<Rightarrow> u32 \<Rightarrow> u32 \<Rightarrow> u32 \<times> bool" where
  "SUB8 p a b =
     (let sa = scast (ucast a :: u8) :: u32; sb = scast (ucast b :: u8) :: u32;
          ua = ucast (ucast a :: u8) :: u32; ub = ucast (ucast b :: u8) :: u32
      in case p of
           Pfx_q \<Rightarrow> (ucast (sub8_sat (ucast a) (ucast b)), False)
         | Pfx_uq \<Rightarrow> (ucast (sub8_usat (ucast a) (ucast b)), False)
         | Pfx_s \<Rightarrow> (sa - sb, 0 \<le> sint (sa - sb))
         | Pfx_u \<Rightarrow> (ua - ub, drop_bit 8 (ua - ub) = 0)
         | Pfx_sh \<Rightarrow> (signed_drop_bit 1 (sa - sb), False)
         | Pfx_uh \<Rightarrow> (drop_bit 1 (ua - ub), False))"

text \<open>The helpers return the register and the GE flags; prefixes without GE flags give 0 there and ignore it.\<close>

definition RESULT16 :: "u32 \<times> bool \<Rightarrow> nat \<Rightarrow> u32 \<times> u32 \<Rightarrow> u32 \<times> u32" where
  "RESULT16 = (\<lambda>(v, g) n (res, ge).
     (res OR push_bit (n * 16) (ucast (ucast v :: u16)), if g then ge OR push_bit (n * 2) 3 else ge))"

definition RESULT8 :: "u32 \<times> bool \<Rightarrow> nat \<Rightarrow> u32 \<times> u32 \<Rightarrow> u32 \<times> u32" where
  "RESULT8 = (\<lambda>(v, g) n (res, ge).
     (res OR push_bit (n * 8) (ucast (ucast v :: u8)), if g then ge OR push_bit n 1 else ge))"

definition pfx_add16 :: "pfx \<Rightarrow> u32 \<Rightarrow> u32 \<Rightarrow> u32 \<times> u32" where
  "pfx_add16 p a b = RESULT16 (ADD16 p (drop_bit 16 a) (drop_bit 16 b)) 1 (RESULT16 (ADD16 p a b) 0 (0, 0))"

definition pfx_sub16 :: "pfx \<Rightarrow> u32 \<Rightarrow> u32 \<Rightarrow> u32 \<times> u32" where
  "pfx_sub16 p a b = RESULT16 (SUB16 p (drop_bit 16 a) (drop_bit 16 b)) 1 (RESULT16 (SUB16 p a b) 0 (0, 0))"

definition pfx_add8 :: "pfx \<Rightarrow> u32 \<Rightarrow> u32 \<Rightarrow> u32 \<times> u32" where
  "pfx_add8 p a b =
     RESULT8 (ADD8 p (drop_bit 24 a) (drop_bit 24 b)) 3 (RESULT8 (ADD8 p (drop_bit 16 a) (drop_bit 16 b)) 2
       (RESULT8 (ADD8 p (drop_bit 8 a) (drop_bit 8 b)) 1 (RESULT8 (ADD8 p a b) 0 (0, 0))))"

definition pfx_sub8 :: "pfx \<Rightarrow> u32 \<Rightarrow> u32 \<Rightarrow> u32 \<times> u32" where
  "pfx_sub8 p a b =
     RESULT8 (SUB8 p (drop_bit 24 a) (drop_bit 24 b)) 3 (RESULT8 (SUB8 p (drop_bit 16 a) (drop_bit 16 b)) 2
       (RESULT8 (SUB8 p (drop_bit 8 a) (drop_bit 8 b)) 1 (RESULT8 (SUB8 p a b) 0 (0, 0))))"

definition pfx_subaddx :: "pfx \<Rightarrow> u32 \<Rightarrow> u32 \<Rightarrow> u32 \<times> u32" where
  "pfx_subaddx p a b = RESULT16 (SUB16 p (drop_bit 16 a) b) 1 (RESULT16 (ADD16 p a (drop_bit 16 b)) 0 (0, 0))"

definition pfx_addsubx :: "pfx \<Rightarrow> u32 \<Rightarrow> u32 \<Rightarrow> u32 \<times> u32" where
  "pfx_addsubx p a b = RESULT16 (ADD16 p (drop_bit 16 a) b) 1 (RESULT16 (SUB16 p a (drop_bit 16 b)) 0 (0, 0))"


section \<open>Wrap-around of words\<close>

lemma sint_wrap:
  fixes v :: int
  defines "B \<equiv> 2 ^ (LENGTH('a :: len) - 1)"
  assumes "- (2 * B) \<le> v" and "v < 2 * B"
  shows "sint (word_of_int v :: 'a word) = (if v < - B then v + 2 * B else if B \<le> v then v - 2 * B else v)"
proof -
  have two: "(2 :: int) ^ Suc (LENGTH('a) - 1) = 2 * B" unfolding B_def power_Suc ..
  have "sint (word_of_int v :: 'a word) = signed_take_bit (LENGTH('a) - 1) v" by (simp add: sint_sbintrunc')
  also have "\<dots> = (v + B) mod (2 * B) - B" unfolding signed_take_bit_eq_take_bit_shift take_bit_eq_mod two B_def ..
  finally have s: "sint (word_of_int v :: 'a word) = (v + B) mod (2 * B) - B" .
  have "0 < B" by (simp add: B_def)
  then consider "v < - B" "(v + B) mod (2 * B) = v + 3 * B" | "B \<le> v" "(v + B) mod (2 * B) = v - B" | "- B \<le> v" "v < B" "(v + B) mod (2 * B) = v + B"
  proof -
    have "(v + B + 2 * B) mod (2 * B) = v + 3 * B" if "v < - B" using that assms(2) \<open>0 < B\<close> by (intro trans [OF mod_pos_pos_trivial]) auto
    moreover have "(v + B - 2 * B) mod (2 * B) = v - B" if "B \<le> v" using that assms(3) by (intro trans [OF mod_pos_pos_trivial]) auto
    moreover have "(v + B) mod (2 * B) = v + B" if "- B \<le> v" "v < B" using that by (intro mod_pos_pos_trivial) auto
    moreover have "(v + B + 2 * B) mod (2 * B) = (v + B) mod (2 * B)" "(v + B - 2 * B) mod (2 * B) = (v + B) mod (2 * B)"
      by (rule mod_add_self2, rule minus_mod_self2)
    ultimately show ?thesis using that by (cases "v < - B"; cases "B \<le> v") simp_all
  qed
  then show ?thesis using s \<open>0 < B\<close> by cases auto
qed

lemma sint_range: "- (2 ^ (LENGTH('a) - 1)) \<le> sint (w :: 'a :: len word)" "sint w < 2 ^ (LENGTH('a) - 1)"
  using sint_greater_eq [of w] sint_lt [of w] by simp_all

lemma sign_bit: "bit (w :: 'a :: len word) (LENGTH('a) - 1) \<longleftrightarrow> sint w < 0"
  using bit_last_iff [of w] by simp

lemma uint_wrap:
  assumes "0 \<le> v" and "v < 2 * 2 ^ LENGTH('a)"
  shows "uint (word_of_int v :: 'a :: len word) = (if v < 2 ^ LENGTH('a) then v else v - 2 ^ LENGTH('a))"
proof (cases "v < 2 ^ LENGTH('a)")
  case False
  have "v mod 2 ^ LENGTH('a) = (v - 2 ^ LENGTH('a)) mod 2 ^ LENGTH('a)" by simp
  also have "\<dots> = v - 2 ^ LENGTH('a)" using False assms by (intro mod_pos_pos_trivial) auto
  finally show ?thesis using False by (simp add: uint_word_of_int)
qed (use assms in \<open>simp add: uint_word_of_int\<close>)

section \<open>The architecture's addition with carry\<close>

definition AddWithCarry :: "u32 \<Rightarrow> u32 \<Rightarrow> bool \<Rightarrow> u32 \<times> bool \<times> bool" where
  "AddWithCarry x y carry_in =
     (let unsigned_sum = uint x + uint y + of_bool carry_in;
          signed_sum = sint x + sint y + of_bool carry_in;
          result = word_of_int unsigned_sum
      in (result, uint result \<noteq> unsigned_sum, sint result \<noteq> signed_sum))"

definition nzcv :: "CPUARMState \<Rightarrow> bool \<times> bool \<times> bool \<times> bool" where
  "nzcv env = (bit (a_NF env) 31, a_ZF env = 0, a_CF env \<noteq> 0, bit (a_VF env) 31)"

definition flags_of_sum :: "u32 \<times> bool \<times> bool \<Rightarrow> u32 \<times> bool \<times> bool \<times> bool \<times> bool" where
  "flags_of_sum = (\<lambda>(r, c, v). (r, sint r < 0, r = 0, c, v))"

lemma sign31: "bit (w :: u32) 31 \<longleftrightarrow> sint w < 0"
  using sign_bit [of w] by simp

lemma sum_word: "word_of_int (uint x + uint y + of_bool c) = x + y + (of_bool c :: u32)"
  by simp

lemma sum_signed: "word_of_int (sint x + sint y + of_bool c) = x + y + (of_bool c :: u32)"
  by simp

lemma overflow_bits:
  fixes a b :: u32
  assumes "r = a + b + of_bool c"
  shows "bit ((a XOR b XOR - 1) AND (a XOR r)) 31 \<longleftrightarrow> sint r \<noteq> sint a + sint b + of_bool c"
proof -
  have "sint r = (if sint a + sint b + of_bool c < - (2 ^ 31) then sint a + sint b + of_bool c + 2 ^ 32
      else if 2 ^ 31 \<le> sint a + sint b + of_bool c then sint a + sint b + of_bool c - 2 ^ 32 else sint a + sint b + of_bool c)"
    using sint_wrap [where 'a = 32, of "sint a + sint b + of_bool c"] sint_range [of a] sint_range [of b]
    unfolding sum_signed assms by (cases c) auto
  moreover have "bit ((a XOR b XOR - 1) AND (a XOR r)) 31 \<longleftrightarrow> (sint a < 0) = (sint b < 0) \<and> (sint a < 0) \<noteq> (sint r < 0)"
    unfolding sign31 [symmetric] by (simp add: bit_simps)
  ultimately show ?thesis using sint_range [of a] sint_range [of b] by (cases c) (auto split: if_splits)
qed

lemma carry_out:
  fixes a b :: u32
  shows "(uint (a + b + of_bool c) \<noteq> uint a + uint b + of_bool c) \<longleftrightarrow> (if c then a + b + 1 \<le> a else a + b < a)"
proof -
  have w: "uint (a + b + of_bool c) = (if uint a + uint b + of_bool c < 2 ^ 32 then uint a + uint b + of_bool c
      else uint a + uint b + of_bool c - 2 ^ 32)"
    using uint_wrap [where 'a = 32, of "uint a + uint b + of_bool c"] uint_bounded [of a] uint_bounded [of b]
    unfolding sum_word by (cases c) auto
  obtain x y where xy: "uint a = x" "uint b = y" "0 \<le> x" "0 \<le> y" by simp
  show ?thesis using w uint_bounded [of b] uint_bounded [of a] xy(3,4) unfolding word_less_def word_le_def xy(1,2)
    by (cases c) (auto split: if_splits)
qed

lemma borrow:
  fixes a b :: u32
  shows "a + NOT b + 1 = a - b" "a + NOT b = a - b - 1" and "(a + NOT b + 1 \<le> a) = (b \<le> a)" and "(a + NOT b < a) = (b < a)"
    and "a XOR NOT b XOR - 1 = a XOR b"
proof -
  show e: "a + NOT b + 1 = a - b" "a + NOT b = a - b - 1" by (simp_all add: not_eq_complement)
  show "a XOR NOT b XOR - 1 = a XOR b" by (rule bit_word_eqI) (simp add: bit_simps)
  have w: "uint (a - b) = (if b \<le> a then uint a - uint b else uint a - uint b + 2 ^ 32)"
    using uint_sub_if' [of a b] by (simp add: word_le_def)
  show "(a + NOT b + 1 \<le> a) = (b \<le> a)" unfolding e(1) using w uint_bounded [of b] uint_bounded [of a]
    by (auto simp: word_le_def)
  have "NOT b = - 1 - b" by (simp add: not_eq_complement)
  then have "uint (NOT b) = 2 ^ 32 - 1 - uint b"
    using uint_sub_if' [of "- 1" b] uint_bounded [of b] by (simp only: unsigned_minus_1_eq_mask mask_eq_exp_minus_1) simp
  moreover obtain x y where xy: "uint a = x" "uint b = y" "0 \<le> x" "0 \<le> y" by simp
  ultimately show "(a + NOT b < a) = (b < a)"
    using uint_plus_if' [of a "NOT b"] uint_bounded [of b] uint_bounded [of a] xy(3,4) unfolding word_less_def xy(1,2)
    by (auto split: if_splits)
qed


text \<open>The four instructions, each compared with the sum of the architecture.\<close>

lemma add_cc_sum:
  fixes a b :: u32
  assumes "r = a + b + of_bool c" and "cf = (if c then a + b + 1 \<le> a else a + b < a)"
    and "a_NF e = r" "a_ZF e = r" "a_CF e = of_bool cf" "a_VF e = (a XOR b XOR - 1) AND (a XOR r)"
  shows "(r, nzcv e) = flags_of_sum (AddWithCarry a b c)"
  using assms carry_out [of a b c] overflow_bits [OF assms(1)]
  by (simp add: AddWithCarry_def flags_of_sum_def nzcv_def Let_def sign31)

lemma add_cc_flags: "(fst (add_cc a b env), nzcv (snd (add_cc a b env))) = flags_of_sum (AddWithCarry a b False)"
  by (rule add_cc_sum) (simp_all add: add_cc_def set_nz_def Let_def)

lemma adc_cc_flags: "(fst (adc_cc a b env), nzcv (snd (adc_cc a b env))) = flags_of_sum (AddWithCarry a b (a_CF env \<noteq> 0))"
  by (rule add_cc_sum [where cf = "if a_CF env \<noteq> 0 then a + b + 1 \<le> a else a + b < a"]) (simp_all add: adc_cc_def set_nz_def Let_def)

lemma sub_cc_flags: "(fst (sub_cc a b env), nzcv (snd (sub_cc a b env))) = flags_of_sum (AddWithCarry a (NOT b) True)"
  by (rule add_cc_sum [where cf = "b \<le> a"]) (simp_all add: sub_cc_def set_nz_def Let_def borrow borrow(3) [unfolded borrow(1)])

lemma sbc_cc_flags: "(fst (sbc_cc a b env), nzcv (snd (sbc_cc a b env))) = flags_of_sum (AddWithCarry a (NOT b) (a_CF env \<noteq> 0))"
  by (rule add_cc_sum [where cf = "if a_CF env \<noteq> 0 then b \<le> a else b < a"]; cases "a_CF env = 0")
    (simp_all add: sbc_cc_def set_nz_def Let_def borrow borrow(3) [unfolded borrow(1)] borrow(4) [unfolded borrow(2)])


section \<open>The architecture's shifts with carry\<close>

datatype shift_type = LSL | LSR | ASR | ROR

definition Shift_C :: "shift_type \<Rightarrow> u32 \<Rightarrow> nat \<Rightarrow> bool \<Rightarrow> u32 \<times> bool" where
  "Shift_C t x n c =
     (if n = 0 then (x, c)
      else case t of
             LSL \<Rightarrow> (word_of_int (uint x * 2 ^ n), bit (uint x * 2 ^ n) 32)
           | LSR \<Rightarrow> (word_of_int (uint x div 2 ^ n), bit (uint x) (n - 1))
           | ASR \<Rightarrow> (word_of_int (sint x div 2 ^ n), bit (sint x) (n - 1))
           | ROR \<Rightarrow> let r = word_rotr n x in (r, bit r 31))"

definition shift_result :: "u32 \<times> CPUARMState \<Rightarrow> u32 \<times> bool" where
  "shift_result = (\<lambda>(r, env). (r, a_CF env \<noteq> 0))"

lemma low_bit: "drop_bit k (x :: u32) AND 1 \<noteq> 0 \<longleftrightarrow> bit x k" "(x :: u32) AND 1 \<noteq> 0 \<longleftrightarrow> bit x 0"
  by (simp_all add: and_one_eq bit_iff_odd_drop_bit odd_iff_mod_2_eq_one)

lemma mult_push: "word_of_int (uint x * 2 ^ n) = (push_bit n x :: u32)"
  by (simp add: push_bit_eq_mult)

lemma div_drop: "word_of_int (uint x div 2 ^ n) = (drop_bit n x :: u32)"
  by (rule bit_word_eqI) (simp add: bit_simps flip: drop_bit_eq_div)

lemma sdiv_drop: "word_of_int (sint x div 2 ^ n) = (signed_drop_bit n x :: u32)"
proof (rule bit_word_eqI)
  fix k :: nat assume "k < LENGTH(32)"
  then show "bit (word_of_int (sint x div 2 ^ n) :: u32) k = bit (signed_drop_bit n x) k"
    by (cases "n + k < 31"; cases "n + k = 31") (auto simp: bit_simps min_def simp flip: drop_bit_eq_div)
qed

lemma push_large: "32 \<le> n \<Longrightarrow> push_bit n (x :: u32) = 0" and drop_large: "32 \<le> n \<Longrightarrow> drop_bit n (x :: u32) = 0"
  by (rule bit_word_eqI; simp add: bit_simps)+

lemma sdrop_large: "32 \<le> n \<Longrightarrow> signed_drop_bit n (x :: u32) = signed_drop_bit 31 x"
  by (rule bit_word_eqI) (auto simp: bit_simps not_less_eq_eq)

lemma shl_cc_shift: "shift_result (shl_cc x i env) = Shift_C LSL x (shift_of i) (a_CF env \<noteq> 0)"
proof -
  have "bit (uint x * 2 ^ n) 32 \<longleftrightarrow> n \<le> 32 \<and> bit x (32 - n)" for n
    unfolding push_bit_eq_mult [symmetric] by (auto simp: bit_simps)
  note carry = this [of "shift_of i"]
  define n where "n = shift_of i"
  consider "n = 0" | "0 < n" "n < 32" | "n = 32" | "32 < n" by linarith
  then show ?thesis
    unfolding shift_result_def shl_cc_def Shift_C_def Let_def mult_push shift_type.case n_def [symmetric] carry [folded n_def]
    by cases (simp_all add: low_bit push_large bit_drop_bit_eq)
qed

lemma shr_cc_shift: "shift_result (shr_cc x i env) = Shift_C LSR x (shift_of i) (a_CF env \<noteq> 0)"
  by (auto simp: shift_result_def shr_cc_def Shift_C_def Let_def low_bit div_drop drop_large bit_simps dest: bit_imp_le_length)

lemma sar_cc_shift: "shift_result (sar_cc x i env) = Shift_C ASR x (shift_of i) (a_CF env \<noteq> 0)"
  by (auto simp: shift_result_def sar_cc_def Shift_C_def Let_def low_bit sdiv_drop sdrop_large bit_simps min_def)

lemma rotate_mod: "unat ((i AND 0xff) AND 0x1f) = shift_of i mod 32"
proof -
  have m: "(0x1f :: u32) = mask 5" by (simp add: mask_eq_exp_minus_1)
  show ?thesis unfolding m shift_of_def unat_and_mask by simp
qed

lemma rotr_0: "word_rotr 0 x = (x :: u32)"
  by (rule bit_word_eqI) (simp add: bit_word_rotr_iff)

lemma rotr_parts:
  assumes "0 < m" and "m < 32"
  shows "drop_bit m x OR push_bit (32 - m) x = (word_rotr m x :: u32)"
proof (rule bit_word_eqI)
  fix n :: nat assume n: "n < LENGTH(32)"
  show "bit (drop_bit m x OR push_bit (32 - m) x) n = bit (word_rotr m x) n"
  proof (cases "m + n < 32")
    case True
    then show ?thesis using n assms by (auto simp: bit_simps bit_word_rotr_iff ac_simps)
  next
    case False
    then have "(n + m) mod 32 = n - (32 - m)" using n assms by (simp add: mod_if)
    then show ?thesis using n assms False by (auto simp: bit_simps bit_word_rotr_iff dest: bit_imp_le_length)
  qed
qed

lemma rotr_mod: "word_rotr n x = word_rotr (n mod 32) (x :: u32)"
  by (rule bit_word_eqI) (simp add: bit_word_rotr_iff mod_simps)

lemma ror_cc_shift: "shift_result (ror_cc x i env) = Shift_C ROR x (shift_of i) (a_CF env \<noteq> 0)"
proof -
  define n where "n = shift_of i"
  define k where "k = n mod 32"
  have r: "word_rotr n x = word_rotr k x" unfolding k_def by (rule rotr_mod)
  have k: "k < 32" "0 < k \<Longrightarrow> 0 < n" by (auto simp: k_def intro: gr0I)
  show ?thesis
  proof (cases "k = 0")
    case True
    then show ?thesis
      unfolding shift_result_def ror_cc_def Shift_C_def Let_def rotate_mod n_def [symmetric] k_def [symmetric] r
      by (simp add: rotr_0 low_bit(1))
  next
    case False
    then have "(31 + k) mod 32 = k - 1" using k(1) by (simp add: mod_if)
    then have "bit (word_rotr k x) 31 = bit x (k - 1)" by (simp add: bit_word_rotr_iff)
    then show ?thesis
      unfolding shift_result_def ror_cc_def Shift_C_def Let_def rotate_mod n_def [symmetric] k_def [symmetric] r
      using False k by (simp add: rotr_parts low_bit(1))
  qed
qed


section \<open>The architecture's saturation\<close>

definition SignedSatQ :: "int \<Rightarrow> nat \<Rightarrow> u32 \<times> bool" where
  "SignedSatQ i n = (word_of_int (max (- (2 ^ (n - 1))) (min (2 ^ (n - 1) - 1) i)), i < - (2 ^ (n - 1)) \<or> 2 ^ (n - 1) - 1 < i)"

definition UnsignedSatQ :: "int \<Rightarrow> nat \<Rightarrow> u32 \<times> bool" where
  "UnsignedSatQ i n = (word_of_int (max 0 (min (2 ^ n - 1) i)), i < 0 \<or> 2 ^ n - 1 < i)"

definition saturated :: "u32 \<times> bool \<Rightarrow> CPUARMState \<Rightarrow> u32 \<times> CPUARMState" where
  "saturated = (\<lambda>(r, q) env. (r, if q then set_q env else env))"

text \<open>Signed addition and subtraction at any width: the sign bits tell whether the exact result is representable.\<close>

lemma add_overflow_sign:
  fixes a b :: "'a :: len word"
  defines "B \<equiv> (2 :: int) ^ (LENGTH('a) - 1)" and "v \<equiv> sint a + sint b"
  shows "(sint (a + b) < 0) \<noteq> (sint a < 0) \<and> (sint a < 0) = (sint b < 0) \<longleftrightarrow> v < - B \<or> B \<le> v"
    and "v < - B \<or> B \<le> v \<Longrightarrow> v < - B \<longleftrightarrow> sint a < 0"
proof -
  have w: "sint (a + b) = (if v < - B then v + 2 * B else if B \<le> v then v - 2 * B else v)"
    using sint_wrap [where 'a = 'a, of v] sint_range [of a] sint_range [of b] unfolding B_def v_def by simp
  have b: "- B \<le> sint a" "sint a < B" "- B \<le> sint b" "sint b < B"
    using sint_range [of a] sint_range [of b] by (simp_all add: B_def)
  show "(sint (a + b) < 0) \<noteq> (sint a < 0) \<and> (sint a < 0) = (sint b < 0) \<longleftrightarrow> v < - B \<or> B \<le> v"
    using w b unfolding v_def by (auto split: if_splits)
  show "v < - B \<longleftrightarrow> sint a < 0" if "v < - B \<or> B \<le> v" using that b unfolding v_def by auto
qed

lemma sub_overflow_sign:
  fixes a b :: "'a :: len word"
  defines "B \<equiv> (2 :: int) ^ (LENGTH('a) - 1)" and "v \<equiv> sint a - sint b"
  shows "(sint (a - b) < 0) \<noteq> (sint a < 0) \<and> (sint a < 0) \<noteq> (sint b < 0) \<longleftrightarrow> v < - B \<or> B \<le> v"
    and "v < - B \<or> B \<le> v \<Longrightarrow> v < - B \<longleftrightarrow> sint a < 0"
proof -
  have w: "sint (a - b) = (if v < - B then v + 2 * B else if B \<le> v then v - 2 * B else v)"
    using sint_wrap [where 'a = 'a, of v] sint_range [of a] sint_range [of b] unfolding B_def v_def by simp
  have b: "- B \<le> sint a" "sint a < B" "- B \<le> sint b" "sint b < B"
    using sint_range [of a] sint_range [of b] by (simp_all add: B_def)
  show "(sint (a - b) < 0) \<noteq> (sint a < 0) \<and> (sint a < 0) \<noteq> (sint b < 0) \<longleftrightarrow> v < - B \<or> B \<le> v"
    using w b unfolding v_def by (auto split: if_splits)
  show "v < - B \<longleftrightarrow> sint a < 0" if "v < - B \<or> B \<le> v" using that b unfolding v_def by auto
qed

definition clamp :: "int \<Rightarrow> int \<Rightarrow> int \<Rightarrow> int" where
  "clamp lo hi v = max lo (min hi v)"

lemma sat_sign:
  fixes a r :: "'a :: len word"
  defines "B \<equiv> (2 :: int) ^ (LENGTH('a) - 1)"
  assumes "ov \<longleftrightarrow> v < - B \<or> B \<le> v" and "ov \<Longrightarrow> v < - B \<longleftrightarrow> sint a < 0" and "\<not> ov \<Longrightarrow> r = word_of_int v"
  shows "(if ov then word_of_int (if sint a < 0 then - B else B - 1) else r) = (word_of_int (clamp (- B) (B - 1) v) :: 'a word)"
proof (cases ov)
  case False
  then have "clamp (- B) (B - 1) v = v" using assms(2) by (simp add: clamp_def)
  then show ?thesis using False assms(4) by simp
next
  case True
  have "0 < B" by (simp add: B_def)
  then have "clamp (- B) (B - 1) v = (if sint a < 0 then - B else B - 1)" using True assms(2,3) by (auto simp: clamp_def max_def min_def)
  then show ?thesis using True by simp
qed

lemma top_bit: "(w :: 'a :: len word) AND push_bit (LENGTH('a) - 1) 1 \<noteq> 0 \<longleftrightarrow> sint w < 0"
  using and_exp_eq_0_iff_not_bit [of w "LENGTH('a) - 1"] sign_bit [of w] by (simp add: push_bit_eq_mult)

lemma sint_xor_sign: "sint (v XOR w :: 'a :: len word) < 0 \<longleftrightarrow> (sint v < 0) \<noteq> (sint w < 0)"
  unfolding sign_bit [symmetric] by (simp add: bit_simps)

lemma top_bits: "(w :: u32) AND SIGNBIT \<noteq> 0 \<longleftrightarrow> sint w < 0" "(x :: u16) AND 0x8000 \<noteq> 0 \<longleftrightarrow> sint x < 0"
  "(y :: u8) AND 0x80 \<noteq> 0 \<longleftrightarrow> sint y < 0"
  using top_bit [of w] top_bit [of x] top_bit [of y] by (simp_all add: SIGNBIT_def push_bit_eq_mult)


lemma top_bits_clear: "(w :: u32) AND SIGNBIT = 0 \<longleftrightarrow> \<not> sint w < 0" "(x :: u16) AND 0x8000 = 0 \<longleftrightarrow> \<not> sint x < 0"
  "(y :: u8) AND 0x80 = 0 \<longleftrightarrow> \<not> sint y < 0"
  using top_bits(1) [of w] top_bits(2) [of x] top_bits(3) [of y] by blast+

lemma overflow_sign:
  fixes a b :: "'a :: len word"
  shows "(sint (a + b) < 0) \<noteq> (sint a < 0) \<and> (sint a < 0) = (sint b < 0) \<longleftrightarrow>
      sint a + sint b < - (2 ^ (LENGTH('a) - 1)) \<or> 2 ^ (LENGTH('a) - 1) \<le> sint a + sint b"
    and "(sint (a - b) < 0) \<noteq> (sint a < 0) \<and> (sint a < 0) \<noteq> (sint b < 0) \<longleftrightarrow>
      sint a - sint b < - (2 ^ (LENGTH('a) - 1)) \<or> 2 ^ (LENGTH('a) - 1) \<le> sint a - sint b"
  using add_overflow_sign(1) [of a b] sub_overflow_sign(1) [of a b] by auto

lemma clamp_sign:
  fixes a b :: "'a :: len word"
  shows "word_of_int (clamp (- (2 ^ (LENGTH('a) - 1))) (2 ^ (LENGTH('a) - 1) - 1) (sint a + sint b)) =
      (if sint a + sint b < - (2 ^ (LENGTH('a) - 1)) \<or> 2 ^ (LENGTH('a) - 1) \<le> sint a + sint b
       then word_of_int (if sint a < 0 then - (2 ^ (LENGTH('a) - 1)) else 2 ^ (LENGTH('a) - 1) - 1) else a + b)"
    and "word_of_int (clamp (- (2 ^ (LENGTH('a) - 1))) (2 ^ (LENGTH('a) - 1) - 1) (sint a - sint b)) =
      (if sint a - sint b < - (2 ^ (LENGTH('a) - 1)) \<or> 2 ^ (LENGTH('a) - 1) \<le> sint a - sint b
       then word_of_int (if sint a < 0 then - (2 ^ (LENGTH('a) - 1)) else 2 ^ (LENGTH('a) - 1) - 1) else a - b)"
  by (rule sat_sign [symmetric, OF refl add_overflow_sign(2)], assumption, simp)
    (rule sat_sign [symmetric, OF refl sub_overflow_sign(2)], assumption, simp)

lemma width_simps: "LENGTH(32) - 1 = 31" "LENGTH(16) - 1 = 15" "LENGTH(8) - 1 = 7"
  by simp_all

lemmas overflow32 = overflow_sign [where 'a = 32, unfolded width_simps]
lemmas overflow16 = overflow_sign [where 'a = 16, unfolded width_simps]
lemmas overflow8 = overflow_sign [where 'a = 8, unfolded width_simps]
lemmas clamp32 = clamp_sign [where 'a = 32, unfolded width_simps]
lemmas clamp16 = clamp_sign [where 'a = 16, unfolded width_simps]
lemmas clamp8 = clamp_sign [where 'a = 8, unfolded width_simps]
lemmas sign_simps = top_bits_clear sint_xor_sign not_not

lemma sat16_ref:
  "add16_sat a b = word_of_int (clamp (- (2 ^ 15)) (2 ^ 15 - 1) (sint a + sint b))"
  "sub16_sat a b = word_of_int (clamp (- (2 ^ 15)) (2 ^ 15 - 1) (sint a - sint b))"
  unfolding add16_sat_def sub16_sat_def Let_def sign_simps overflow16 clamp16 by (simp_all cong: if_cong)

lemma sat8_ref:
  "add8_sat a b = word_of_int (clamp (- (2 ^ 7)) (2 ^ 7 - 1) (sint a + sint b))"
  "sub8_sat a b = word_of_int (clamp (- (2 ^ 7)) (2 ^ 7 - 1) (sint a - sint b))"
  unfolding add8_sat_def sub8_sat_def Let_def sign_simps overflow8 clamp8 by (simp_all cong: if_cong)

lemma sign_fill: "NOT (signed_drop_bit 31 a XOR SIGNBIT) = word_of_int (if sint a < 0 then - (2 ^ 31) else 2 ^ 31 - 1)" for a :: u32
proof -
  have "signed_drop_bit 31 a = (if sint a < 0 then - 1 else 0)"
    unfolding sign31 [symmetric] by (rule bit_word_eqI) (auto simp: bit_simps not_less_eq_eq)
  then show ?thesis by (simp add: SIGNBIT_def)
qed

lemma sat32_ref:
  "add_saturate a b env = saturated (SignedSatQ (sint a + sint b) 32) env"
  "sub_saturate a b env = saturated (SignedSatQ (sint a - sint b) 32) env"
proof -
  have c: "(if ov then (x :: u32, y :: CPUARMState) else (z, w)) = (if ov then x else z, if ov then y else w)" for ov x y z w by simp
  have m: "v < - (2 ^ 31) \<or> (2 ^ 31 :: int) - 1 < v \<longleftrightarrow> v < - (2 ^ 31) \<or> 2 ^ 31 \<le> v" "(32 :: nat) - 1 = 31" for v by auto
  show "add_saturate a b env = saturated (SignedSatQ (sint a + sint b) 32) env"
    "sub_saturate a b env = saturated (SignedSatQ (sint a - sint b) 32) env"
    unfolding add_saturate_def sub_saturate_def Let_def sign_simps overflow32 sign_fill SignedSatQ_def saturated_def clamp_def [symmetric]
      m clamp32 prod.case c by (rule refl)+
qed


lemma sint_uint_pos: "0 \<le> sint (v :: u32) \<Longrightarrow> uint v = sint v"
  using uint_word_of_int [where 'a = 32, of "sint v"] sint_range [of v] by simp

lemma usat32_ref:
  "add_usaturate a b env = saturated (UnsignedSatQ (uint a + uint b) 32) env"
  "sub_usaturate a b env = saturated (UnsignedSatQ (uint a - uint b) 32) env"
proof -
  obtain x y where xy: "uint a = x" "uint b = y" "0 \<le> x" "0 \<le> y" "x < 2 ^ 32" "y < 2 ^ 32"
    using uint_bounded [of a] uint_bounded [of b] by simp
  have "a + b < a \<longleftrightarrow> 2 ^ 32 \<le> x + y"
    using uint_plus_if' [of a b] xy(3-6) unfolding word_less_def xy(1,2) by (auto split: if_splits)
  moreover have "a + b = word_of_int (x + y)" "a - b = word_of_int (x - y)" unfolding xy(1,2) [symmetric] by simp_all
  moreover have "max 0 (min (2 ^ 32 - 1) (x + y)) = (if 2 ^ 32 \<le> x + y then 2 ^ 32 - 1 else x + y)" using xy(3-6) by auto
  ultimately show "add_usaturate a b env = saturated (UnsignedSatQ (uint a + uint b) 32) env"
    using xy(3-6) unfolding add_usaturate_def UnsignedSatQ_def saturated_def Let_def xy(1,2) by auto
  have "a < a - b \<longleftrightarrow> x < y"
    using uint_sub_if' [of a b] xy(3-6) unfolding word_less_def xy(1,2) by (auto split: if_splits)
  moreover have "max 0 (min (2 ^ 32 - 1) (x - y)) = (if x < y then 0 else x - y)" using xy(3-6) by auto
  ultimately show "sub_usaturate a b env = saturated (UnsignedSatQ (uint a - uint b) 32) env"
    using xy(3-6) \<open>a - b = word_of_int (x - y)\<close> unfolding sub_usaturate_def UnsignedSatQ_def saturated_def Let_def xy(1,2) by auto
qed

lemma low_mask: "push_bit s 1 - 1 = (word_of_int (2 ^ s - 1) :: u32)" "NOT (word_of_int (2 ^ s - 1) :: u32) = word_of_int (- (2 ^ s))"
  by (simp_all add: push_bit_eq_mult not_eq_complement)

lemma do_ssat_ref: "do_ssat v s env = saturated (SignedSatQ (sint v) (Suc s)) env"
proof -
  define k :: int where "k = 2 ^ s"
  define t where "t = sint v div k"
  have t: "sint (signed_drop_bit s v) = t" by (simp add: t_def k_def sint_signed_drop_bit_eq drop_bit_eq_div)
  have k: "0 < k" by (simp add: k_def)
  have hi: "0 < t \<longleftrightarrow> k \<le> sint v" using pos_imp_zdiv_pos_iff [OF k] by (simp add: t_def)
  have "(sint v + k) div k = t + 1" using div_add_self2 [of k "sint v"] k by (simp add: t_def)
  then have "- 1 \<le> t \<longleftrightarrow> 0 \<le> (sint v + k) div k" by linarith
  also have "\<dots> \<longleftrightarrow> - k \<le> sint v" unfolding pos_imp_zdiv_nonneg_iff [OF k] by linarith
  finally have lo: "t < - 1 \<longleftrightarrow> sint v < - k" by auto
  have c: "max (- k) (min (k - 1) (sint v)) = (if 0 < t then k - 1 else if t < - 1 then - k else sint v)"
    using hi lo k by auto
  have e: "Suc s - 1 = s" by simp
  show ?thesis
    unfolding do_ssat_def SignedSatQ_def saturated_def Let_def t low_mask e k_def [symmetric] c using hi lo k by (auto simp: not_eq_complement)
qed

lemma do_usat_ref:
  assumes "s < 32"
  shows "do_usat v s env = saturated (UnsignedSatQ (sint v) s) env"
proof -
  define k :: int where "k = 2 ^ s"
  have k: "0 < k" "k \<le> 2 ^ 31" using assms power_increasing [of s 31 "2 :: int"] by (auto simp: k_def)
  then have u: "uint (word_of_int (k - 1) :: u32) = k - 1" using uint_word_of_int [where 'a = 32, of "k - 1"] by simp
  have m: "(word_of_int (k - 1) < v) = (k - 1 < sint v)" if "0 \<le> sint v"
    using sint_uint_pos [OF that] by (simp only: word_less_def u)
  have c: "max 0 (min (k - 1) (sint v)) = (if sint v < 0 then 0 else if k - 1 < sint v then k - 1 else sint v)"
    using k by auto
  show ?thesis
    unfolding do_usat_def UnsignedSatQ_def saturated_def Let_def low_mask k_def [symmetric] c using m by auto
qed

lemma double_saturate_ref:
  "double_saturate v env = saturated (fst (SignedSatQ (2 * sint v) 32), snd (SignedSatQ (2 * sint v) 32) \<or> v = 0xc0000000) env"
proof -
  define x where "x = sint v"
  have v: "v = word_of_int x" by (simp add: x_def)
  have e: "v = 0xc0000000 \<longleftrightarrow> x = - 0x40000000"
  proof
    assume "v = 0xc0000000"
    then show "x = - 0x40000000" by (simp add: x_def)
  qed (simp add: v)
  have p: "push_bit 1 v = word_of_int (2 * x)" by (simp add: v push_bit_eq_mult)
  have c: "max (- (2 ^ 31)) (min (2 ^ 31 - 1) (2 * x)) =
      (if 0x40000000 \<le> x then 2 ^ 31 - 1 else if x \<le> - 0x40000000 then - (2 ^ 31) else 2 * x)" by auto
  have n: "(32 :: nat) - 1 = 31" by simp
  show ?thesis
    unfolding double_saturate_def SignedSatQ_def saturated_def x_def [symmetric] e p n c by (auto simp: SIGNBIT_def)
qed


section \<open>Lanes\<close>

text \<open>What a prefix computes in a lane of width \<open>w\<close>: on the signed or unsigned value of the operands, the exact result is saturated, wrapped
  or halved, and tells the GE bits.\<close>

definition lane_value :: "pfx \<Rightarrow> 'a :: len word \<Rightarrow> int" where
  "lane_value p x = (if p \<in> {Pfx_q, Pfx_s, Pfx_sh} then sint x else uint x)"

definition lane_round :: "pfx \<Rightarrow> nat \<Rightarrow> int \<Rightarrow> int" where
  "lane_round p w v =
     (if p = Pfx_q then clamp (- (2 ^ (w - 1))) (2 ^ (w - 1) - 1) v
      else if p = Pfx_uq then clamp 0 (2 ^ w - 1) v
      else if p = Pfx_sh \<or> p = Pfx_uh then v div 2
      else v)"

definition lane_ge :: "pfx \<Rightarrow> nat \<Rightarrow> bool \<Rightarrow> int \<Rightarrow> bool" where
  "lane_ge p w sub v \<longleftrightarrow> p = Pfx_s \<and> 0 \<le> v \<or> p = Pfx_u \<and> (if sub then 0 \<le> v else 2 ^ w \<le> v)"

definition lane_op :: "pfx \<Rightarrow> bool \<Rightarrow> 'a :: len word \<Rightarrow> 'a word \<Rightarrow> 'a word \<times> bool" where
  "lane_op p sub x y =
     (let v = (if sub then lane_value p x - lane_value p y else lane_value p x + lane_value p y)
      in (word_of_int (lane_round p LENGTH('a) v), lane_ge p LENGTH('a) sub v))"

text \<open>Computing in 32 bits and cutting to the lane.\<close>

lemma cut_lane: "LENGTH('a) \<le> 32 \<Longrightarrow> ucast (word_of_int v :: u32) = (word_of_int v :: 'a :: len word)"
  by (rule bit_word_eqI) (simp add: bit_simps)

lemma cut_half: "LENGTH('a) < 32 \<Longrightarrow> ucast (drop_bit 1 (word_of_int v :: u32)) = (word_of_int (v div 2) :: 'a :: len word)"
  by (rule bit_word_eqI) (auto simp: bit_simps simp flip: bit_Suc)

lemma wide_signed: "- (2 ^ 31) \<le> v \<Longrightarrow> v < 2 ^ 31 \<Longrightarrow> sint (word_of_int v :: u32) = v"
  using sint_wrap [where 'a = 32, of v] by simp

lemma cut_shalf:
  assumes "- (2 ^ 31) \<le> v" and "v < 2 ^ 31" and "LENGTH('a) \<le> 32"
  shows "ucast (signed_drop_bit 1 (word_of_int v :: u32)) = (word_of_int (v div 2) :: 'a :: len word)"
proof -
  have "signed_drop_bit 1 (word_of_int v :: u32) = word_of_int (v div 2)"
    using sdiv_drop [of "word_of_int v" 1] wide_signed [OF assms(1,2)] by simp
  then show ?thesis using cut_lane [OF assms(3)] by simp
qed

lemma carry_lane:
  assumes "w \<le> 16"
  shows "0 \<le> v \<Longrightarrow> v < 2 * 2 ^ w \<Longrightarrow> drop_bit w (word_of_int v :: u32) = 1 \<longleftrightarrow> 2 ^ w \<le> v"
    and "- (2 ^ w) < v \<Longrightarrow> v < 2 ^ w \<Longrightarrow> drop_bit w (word_of_int v :: u32) = 0 \<longleftrightarrow> 0 \<le> v"
proof -
  have p: "(2 :: int) ^ w \<le> 2 ^ 16" "(0 :: int) < 2 ^ w" using assms power_increasing [of w 16 "2 :: int"] by simp_all
  have d: "uint (drop_bit w (word_of_int v :: u32)) = (v mod 2 ^ 32) div 2 ^ w"
    unfolding unsigned_drop_bit_eq by (simp add: drop_bit_eq_div take_bit_eq_mod uint_word_of_int)
  show "drop_bit w (word_of_int v :: u32) = 1 \<longleftrightarrow> 2 ^ w \<le> v" if "0 \<le> v" "v < 2 * 2 ^ w"
  proof -
    have "v mod 2 ^ 32 = v" using that p by simp
    moreover have "v div 2 ^ w = 1 \<longleftrightarrow> 2 ^ w \<le> v"
      using that p zdiv_eq_0_iff [of v "2 ^ w"] div_pos_geq [of "2 ^ w" v] zdiv_eq_0_iff [of "v - 2 ^ w" "2 ^ w"] by auto
    ultimately show ?thesis unfolding word_uint_eq_iff d by simp
  qed
  show "drop_bit w (word_of_int v :: u32) = 0 \<longleftrightarrow> 0 \<le> v" if "- (2 ^ w) < v" "v < 2 ^ w"
  proof (cases "0 \<le> v")
    case True
    then show ?thesis unfolding word_uint_eq_iff d using that p by simp
  next
    case False
    have "(v + 2 ^ 32) mod 2 ^ 32 = v + 2 ^ 32" using False that p by (intro mod_pos_pos_trivial) auto
    then have "v mod 2 ^ 32 = v + 2 ^ 32" unfolding mod_add_self2 .
    moreover have "0 < (v + 2 ^ 32) div 2 ^ w" using that p by (subst pos_imp_zdiv_pos_iff) auto
    ultimately show ?thesis unfolding word_uint_eq_iff d using False by simp
  qed
qed

lemma lane_sums:
  fixes x y :: "'a :: len word"
  assumes "LENGTH('a) \<le> 16"
  shows "- (2 ^ 31) \<le> sint x + sint y" "sint x + sint y < 2 ^ 31" "- (2 ^ 31) \<le> sint x - sint y" "sint x - sint y < 2 ^ 31"
    "0 \<le> uint x + uint y" "uint x + uint y < 2 * 2 ^ LENGTH('a)" "- (2 ^ LENGTH('a)) < uint x - uint y" "uint x - uint y < 2 ^ LENGTH('a)"
proof -
  have "(2 :: int) ^ (LENGTH('a) - 1) \<le> 2 ^ 15" using assms power_increasing [of "LENGTH('a) - 1" 15 "2 :: int"] by simp
  then show "- (2 ^ 31) \<le> sint x + sint y" "sint x + sint y < 2 ^ 31" "- (2 ^ 31) \<le> sint x - sint y" "sint x - sint y < 2 ^ 31"
    using sint_range [of x] sint_range [of y] by simp_all
  obtain a b where ab: "uint x = a" "uint y = b" "0 \<le> a" "0 \<le> b" "a < 2 ^ LENGTH('a)" "b < 2 ^ LENGTH('a)"
    using uint_bounded [of x] uint_bounded [of y] by simp
  then show "0 \<le> uint x + uint y" "uint x + uint y < 2 * 2 ^ LENGTH('a)" "- (2 ^ LENGTH('a)) < uint x - uint y" "uint x - uint y < 2 ^ LENGTH('a)"
    unfolding ab(1,2) by linarith+
qed

lemma scast_sum:
  "(scast (x :: 'a :: len word) + scast (y :: 'a word) :: u32) = word_of_int (sint x + sint y)"
  "(scast (x :: 'a :: len word) - scast (y :: 'a word) :: u32) = word_of_int (sint x - sint y)"
  "(ucast x + ucast y :: u32) = word_of_int (uint x + uint y)" "(ucast x - ucast y :: u32) = word_of_int (uint x - uint y)"
  by (simp_all add: signed_def unsigned_def)


lemma usat_lane:
  fixes x y :: "'a :: len word"
  shows "(if x + y < x then - 1 else x + y) = word_of_int (clamp 0 (2 ^ LENGTH('a) - 1) (uint x + uint y))"
    and "(if y < x then x - y else 0) = word_of_int (clamp 0 (2 ^ LENGTH('a) - 1) (uint x - uint y))"
proof -
  obtain a b where ab: "uint x = a" "uint y = b" "0 \<le> a" "0 \<le> b" "a < 2 ^ LENGTH('a)" "b < 2 ^ LENGTH('a)"
    using uint_bounded [of x] uint_bounded [of y] by simp
  have "x + y < x \<longleftrightarrow> 2 ^ LENGTH('a) \<le> a + b"
    using uint_plus_if' [of x y] ab(3-6) unfolding word_less_def ab(1,2) by (auto split: if_splits)
  moreover have "clamp 0 (2 ^ LENGTH('a) - 1) (a + b) = (if 2 ^ LENGTH('a) \<le> a + b then 2 ^ LENGTH('a) - 1 else a + b)"
    using ab(3-6) by (auto simp: clamp_def)
  moreover have w: "x + y = word_of_int (a + b)" "x - y = word_of_int (a - b)" unfolding ab(1,2) [symmetric] by simp_all
  ultimately show "(if x + y < x then - 1 else x + y) = word_of_int (clamp 0 (2 ^ LENGTH('a) - 1) (uint x + uint y))"
    unfolding ab(1,2) by simp
  have "clamp 0 (2 ^ LENGTH('a) - 1) (a - b) = (if b < a then a - b else 0)" using ab(3-6) by (auto simp: clamp_def)
  then show "(if y < x then x - y else 0) = word_of_int (clamp 0 (2 ^ LENGTH('a) - 1) (uint x - uint y))"
    unfolding ab(1,2) word_less_def w by simp
qed

lemmas lane_defs = lane_op_def lane_value_def lane_round_def lane_ge_def Let_def

lemma lane_add:
  fixes x y :: "'a :: len word"
  assumes "LENGTH('a) \<le> 16"
  shows "lane_op Pfx_s False x y = (ucast (scast x + scast y :: u32), 0 \<le> sint (scast x + scast y :: u32))"
    and "lane_op Pfx_u False x y = (ucast (ucast x + ucast y :: u32), drop_bit LENGTH('a) (ucast x + ucast y :: u32) = 1)"
    and "lane_op Pfx_sh False x y = (ucast (signed_drop_bit 1 (scast x + scast y :: u32)), False)"
    and "lane_op Pfx_uh False x y = (ucast (drop_bit 1 (ucast x + ucast y :: u32)), False)"
proof -
  have l: "LENGTH('a) \<le> 32" "LENGTH('a) < 32" using assms by simp_all
  note b = lane_sums [OF assms, of x y]
  note rules = wide_signed [OF b(1,2)] cut_lane [OF l(1)] cut_half [OF l(2)] cut_shalf [OF b(1,2) l(1)] carry_lane(1) [OF assms b(5,6)]
  show "lane_op Pfx_s False x y = (ucast (scast x + scast y :: u32), 0 \<le> sint (scast x + scast y :: u32))"
    "lane_op Pfx_u False x y = (ucast (ucast x + ucast y :: u32), drop_bit LENGTH('a) (ucast x + ucast y :: u32) = 1)"
    "lane_op Pfx_sh False x y = (ucast (signed_drop_bit 1 (scast x + scast y :: u32)), False)"
    "lane_op Pfx_uh False x y = (ucast (drop_bit 1 (ucast x + ucast y :: u32)), False)"
    unfolding scast_sum rules by (simp_all add: lane_defs)
qed

lemma lane_sub:
  fixes x y :: "'a :: len word"
  assumes "LENGTH('a) \<le> 16"
  shows "lane_op Pfx_s True x y = (ucast (scast x - scast y :: u32), 0 \<le> sint (scast x - scast y :: u32))"
    and "lane_op Pfx_u True x y = (ucast (ucast x - ucast y :: u32), drop_bit LENGTH('a) (ucast x - ucast y :: u32) = 0)"
    and "lane_op Pfx_sh True x y = (ucast (signed_drop_bit 1 (scast x - scast y :: u32)), False)"
    and "lane_op Pfx_uh True x y = (ucast (drop_bit 1 (ucast x - ucast y :: u32)), False)"
proof -
  have l: "LENGTH('a) \<le> 32" "LENGTH('a) < 32" using assms by simp_all
  note b = lane_sums [OF assms, of x y]
  note rules = wide_signed [OF b(3,4)] cut_lane [OF l(1)] cut_half [OF l(2)] cut_shalf [OF b(3,4) l(1)] carry_lane(2) [OF assms b(7,8)]
  show "lane_op Pfx_s True x y = (ucast (scast x - scast y :: u32), 0 \<le> sint (scast x - scast y :: u32))"
    "lane_op Pfx_u True x y = (ucast (ucast x - ucast y :: u32), drop_bit LENGTH('a) (ucast x - ucast y :: u32) = 0)"
    "lane_op Pfx_sh True x y = (ucast (signed_drop_bit 1 (scast x - scast y :: u32)), False)"
    "lane_op Pfx_uh True x y = (ucast (drop_bit 1 (ucast x - ucast y :: u32)), False)"
    unfolding scast_sum rules by (simp_all add: lane_defs)
qed

lemma usat_refs:
  "add16_usat x y = word_of_int (clamp 0 (2 ^ 16 - 1) (uint x + uint y))" "sub16_usat x y = word_of_int (clamp 0 (2 ^ 16 - 1) (uint x - uint y))"
  "add8_usat v w = word_of_int (clamp 0 (2 ^ 8 - 1) (uint v + uint w))" "sub8_usat v w = word_of_int (clamp 0 (2 ^ 8 - 1) (uint v - uint w))"
proof -
  have m: "(0xffff :: u16) = - 1" "(0xff :: u8) = - 1" by simp_all
  show "add16_usat x y = word_of_int (clamp 0 (2 ^ 16 - 1) (uint x + uint y))" "sub16_usat x y = word_of_int (clamp 0 (2 ^ 16 - 1) (uint x - uint y))"
    "add8_usat v w = word_of_int (clamp 0 (2 ^ 8 - 1) (uint v + uint w))" "sub8_usat v w = word_of_int (clamp 0 (2 ^ 8 - 1) (uint v - uint w))"
    unfolding add16_usat_def sub16_usat_def add8_usat_def sub8_usat_def m usat_lane by simp_all
qed

lemma lane_sat:
  "lane_op Pfx_q False x y = (add16_sat x y, False)" "lane_op Pfx_q True x y = (sub16_sat x y, False)"
  "lane_op Pfx_uq False x y = (add16_usat x y, False)" "lane_op Pfx_uq True x y = (sub16_usat x y, False)"
  "lane_op Pfx_q False v w = (add8_sat v w, False)" "lane_op Pfx_q True v w = (sub8_sat v w, False)"
  "lane_op Pfx_uq False v w = (add8_usat v w, False)" "lane_op Pfx_uq True v w = (sub8_usat v w, False)"
  by (simp_all add: lane_defs sat16_ref sat8_ref usat_refs)

lemma ucast_back: "ucast (ucast (x :: u16) :: u32) = x" "ucast (ucast (y :: u8) :: u32) = y"
  by (rule bit_word_eqI; simp add: bit_simps)+

lemma lanes_ref:
  "map_prod (ucast :: u32 \<Rightarrow> u16) id (ADD16 p a b) = lane_op p False (ucast a) (ucast b)"
  "map_prod (ucast :: u32 \<Rightarrow> u16) id (SUB16 p a b) = lane_op p True (ucast a) (ucast b)"
  "map_prod (ucast :: u32 \<Rightarrow> u8) id (ADD8 p a b) = lane_op p False (ucast a) (ucast b)"
  "map_prod (ucast :: u32 \<Rightarrow> u8) id (SUB8 p a b) = lane_op p True (ucast a) (ucast b)"
  by (cases p; simp add: ADD16_def SUB16_def ADD8_def SUB8_def Let_def lane_sat lane_add lane_sub ucast_back)+


definition half :: "nat \<Rightarrow> u32 \<Rightarrow> u16" where
  "half n x = ucast (drop_bit (n * 16) x)"

definition byte :: "nat \<Rightarrow> u32 \<Rightarrow> u8" where
  "byte n x = ucast (drop_bit (n * 8) x)"

lemma results16:
  "half 0 (fst (RESULT16 r1 1 (RESULT16 r0 0 (0, 0)))) = ucast (fst r0)" "half 1 (fst (RESULT16 r1 1 (RESULT16 r0 0 (0, 0)))) = ucast (fst r1)"
  "snd (RESULT16 r1 1 (RESULT16 r0 0 (0, 0))) = (if snd r0 then 3 else 0) + (if snd r1 then 12 else 0)"
proof -
  obtain v0 g0 v1 g1 where r: "r0 = (v0, g0)" "r1 = (v1, g1)" by fastforce
  show "half 0 (fst (RESULT16 r1 1 (RESULT16 r0 0 (0, 0)))) = ucast (fst r0)" "half 1 (fst (RESULT16 r1 1 (RESULT16 r0 0 (0, 0)))) = ucast (fst r1)"
    unfolding r RESULT16_def half_def by (rule bit_word_eqI; simp add: bit_simps)+
  show "snd (RESULT16 r1 1 (RESULT16 r0 0 (0, 0))) = (if snd r0 then 3 else 0) + (if snd r1 then 12 else 0)"
    by (simp add: r RESULT16_def push_bit_eq_mult)
qed

lemma results8:
  defines "R r3 r2 r1 r0 \<equiv> RESULT8 r3 3 (RESULT8 r2 2 (RESULT8 r1 1 (RESULT8 r0 0 (0, 0))))"
  shows "byte 0 (fst (R r3 r2 r1 r0)) = ucast (fst r0)" "byte 1 (fst (R r3 r2 r1 r0)) = ucast (fst r1)"
    "byte 2 (fst (R r3 r2 r1 r0)) = ucast (fst r2)" "byte 3 (fst (R r3 r2 r1 r0)) = ucast (fst r3)"
    "snd (R r3 r2 r1 r0) = of_bool (snd r0) + 2 * of_bool (snd r1) + 4 * of_bool (snd r2) + 8 * of_bool (snd r3)"
proof -
  obtain v0 g0 v1 g1 v2 g2 v3 g3 where r: "r0 = (v0, g0)" "r1 = (v1, g1)" "r2 = (v2, g2)" "r3 = (v3, g3)" by fastforce
  show "byte 0 (fst (R r3 r2 r1 r0)) = ucast (fst r0)" "byte 1 (fst (R r3 r2 r1 r0)) = ucast (fst r1)"
    "byte 2 (fst (R r3 r2 r1 r0)) = ucast (fst r2)" "byte 3 (fst (R r3 r2 r1 r0)) = ucast (fst r3)"
    unfolding r R_def RESULT8_def byte_def by (rule bit_word_eqI; simp add: bit_simps)+
  show "snd (R r3 r2 r1 r0) = of_bool (snd r0) + 2 * of_bool (snd r1) + 4 * of_bool (snd r2) + 8 * of_bool (snd r3)"
    by (simp add: r R_def RESULT8_def push_bit_eq_mult)
qed

text \<open>The reference: the lanes of the result and the GE flags from the operations on the lanes.\<close>

definition lanes16 :: "u32 \<times> u32 \<Rightarrow> u16 \<times> bool \<Rightarrow> u16 \<times> bool \<Rightarrow> bool" where
  "lanes16 r l0 l1 \<longleftrightarrow> half 0 (fst r) = fst l0 \<and> half 1 (fst r) = fst l1 \<and>
     snd r = (if snd l0 then 3 else 0) + (if snd l1 then 12 else 0)"

definition lanes8 :: "u32 \<times> u32 \<Rightarrow> u8 \<times> bool \<Rightarrow> u8 \<times> bool \<Rightarrow> u8 \<times> bool \<Rightarrow> u8 \<times> bool \<Rightarrow> bool" where
  "lanes8 r l0 l1 l2 l3 \<longleftrightarrow> byte 0 (fst r) = fst l0 \<and> byte 1 (fst r) = fst l1 \<and> byte 2 (fst r) = fst l2 \<and> byte 3 (fst r) = fst l3 \<and>
     snd r = of_bool (snd l0) + 2 * of_bool (snd l1) + 4 * of_bool (snd l2) + 8 * of_bool (snd l3)"

lemma map_prod_fst_snd: "map_prod f id r = l \<Longrightarrow> f (fst r) = fst l \<and> snd r = snd l"
  by (cases r) auto

lemmas lane16_refs = lanes_ref(1,2) [THEN map_prod_fst_snd]
lemmas lane8_refs = lanes_ref(3,4) [THEN map_prod_fst_snd]

lemma drop_0: "drop_bit (0 * k) x = (x :: u32)" "1 * k = (k :: nat)"
  by simp_all

lemma lanes16_ref:
  "lanes16 (pfx_add16 p a b) (lane_op p False (half 0 a) (half 0 b)) (lane_op p False (half 1 a) (half 1 b))"
  "lanes16 (pfx_sub16 p a b) (lane_op p True (half 0 a) (half 0 b)) (lane_op p True (half 1 a) (half 1 b))"
  "lanes16 (pfx_subaddx p a b) (lane_op p False (half 0 a) (half 1 b)) (lane_op p True (half 1 a) (half 0 b))"
  "lanes16 (pfx_addsubx p a b) (lane_op p True (half 0 a) (half 1 b)) (lane_op p False (half 1 a) (half 0 b))"
  unfolding lanes16_def pfx_add16_def pfx_sub16_def pfx_subaddx_def pfx_addsubx_def results16 
  by (simp_all add: lane16_refs half_def)

lemma lanes8_ref:
  "lanes8 (pfx_add8 p a b) (lane_op p False (byte 0 a) (byte 0 b)) (lane_op p False (byte 1 a) (byte 1 b))
     (lane_op p False (byte 2 a) (byte 2 b)) (lane_op p False (byte 3 a) (byte 3 b))"
  "lanes8 (pfx_sub8 p a b) (lane_op p True (byte 0 a) (byte 0 b)) (lane_op p True (byte 1 a) (byte 1 b))
     (lane_op p True (byte 2 a) (byte 2 b)) (lane_op p True (byte 3 a) (byte 3 b))"
  unfolding lanes8_def pfx_add8_def pfx_sub8_def results8
  by (simp_all add: lane8_refs byte_def)

lemma rbit_ref: "n < 32 \<Longrightarrow> bit (rbit x) n = bit x (31 - n)"
  unfolding rbit_def Let_def bit_or_iff bit_and_iff bit_push_bit_iff bit_drop_bit_eq comp_def
  by (rule all_bits [of _ n]) simp_all

lemma sel_flags_ref:
  assumes "n < 4"
  shows "byte n (sel_flags flags a b) = (if bit flags n then byte n a else byte n b)"
proof -
  have c: "(0xff :: u32) = push_bit 0 (mask 8)" "(0xff00 :: u32) = push_bit 8 (mask 8)" "(0xff0000 :: u32) = push_bit 16 (mask 8)"
    "(0xff000000 :: u32) = push_bit 24 (mask 8)" by (simp_all add: mask_eq_exp_minus_1 push_bit_eq_mult)
  have z: "\<not> bit (0 :: u32) k" for k by simp
  have i: "bit (if q then x else 0) k \<longleftrightarrow> q \<and> bit (x :: u32) k" for q x k by simp
  define m where "m = (if bit flags 0 then 0xff else 0) OR (if bit flags 1 then 0xff00 else 0) OR
      (if bit flags 2 then 0xff0000 else 0) OR (if bit flags 3 then (0xff000000 :: u32) else 0)"
  have n: "n = 0 \<or> n = 1 \<or> n = 2 \<or> n = 3" using assms by auto
  have "bit m (n * 8 + j) = bit flags n" if "j < 8" for j
    unfolding m_def c bit_or_iff i bit_push_bit_iff bit_mask_iff possible_bit_word using n that by (elim disjE) auto
  moreover have "n * 8 + j < 32" if "j < 8" for j using assms that by linarith
  ultimately show ?thesis
    unfolding sel_flags_def Let_def m_def [symmetric] byte_def by (intro bit_word_eqI) (auto simp: bit_simps)
qed

lemma do_usad_ref: "uint (do_usad a b) = \<bar>uint a - uint b\<bar>"
  using uint_sub_if' [of a b] uint_sub_if' [of b a] by (auto simp: do_usad_def word_less_def)

lemma sum_4: "(\<Sum>n<(4 :: nat). f n) = f 0 + f 1 + f 2 + (f 3 :: int)"
  by (simp add: eval_nat_numeral)

lemma usad8_ref: "uint (usad8 a b) = (\<Sum>n<4. \<bar>uint (byte n a) - uint (byte n b)\<bar>)"
proof -
  define d where "d n = do_usad (byte n a) (byte n b)" for n
  have u: "usad8 a b = ucast (d 0) + ucast (d 1) + ucast (d 2) + ucast (d 3)" by (simp add: usad8_def byte_def d_def)
  have c: "uint (ucast x :: u32) = uint x" for x :: u8 using uint_bounded [of x] by (simp add: unsigned_ucast_eq take_bit_eq_mod)
  have b: "uint (d n) < 256" for n using uint_bounded [of "d n"] by simp
  have "uint (usad8 a b) = uint (d 0) + uint (d 1) + uint (d 2) + uint (d 3)"
    unfolding u uint_word_ariths c using b [of 0] b [of 1] b [of 2] b [of 3] by (simp add: mod_pos_pos_trivial)
  then show ?thesis unfolding sum_4 by (simp add: d_def do_usad_ref)
qed

lemma logicq_ref: "logicq_cc v = 0 \<longleftrightarrow> v = 0" "sint (logicq_cc v) < 0 \<longleftrightarrow> sint v < 0"
proof -
  show "sint (logicq_cc v) < 0 \<longleftrightarrow> sint v < 0"
    using sign_bit [of "logicq_cc v"] sign_bit [of v] by (simp add: logicq_cc_def bit_simps)
  show "logicq_cc v = 0 \<longleftrightarrow> v = 0"
  proof
    assume "logicq_cc v = 0"
    then have "\<not> bit (logicq_cc v) 0" by simp
    then show "v = 0" by (auto simp: logicq_cc_def bit_simps)
  qed (simp add: logicq_cc_def)
qed


section \<open>Properties\<close>

text \<open>C23: Flag-setting arithmetic. The helpers for ADD, ADC, SUB and SBC give for all operands the result of the addition with carry that the
  architecture defines on integers, and the N, Z, C and V flags as the processor state represents them (N and V in bit 31 of their field, Z
  as a field that is zero) are exactly the negative, zero, carry and overflow outcomes of this sum.\<close>

theorem arithmetic_flags:
  "(fst (add_cc a b env), nzcv (snd (add_cc a b env))) = flags_of_sum (AddWithCarry a b False) \<and>
   (fst (adc_cc a b env), nzcv (snd (adc_cc a b env))) = flags_of_sum (AddWithCarry a b (a_CF env \<noteq> 0)) \<and>
   (fst (sub_cc a b env), nzcv (snd (sub_cc a b env))) = flags_of_sum (AddWithCarry a (NOT b) True) \<and>
   (fst (sbc_cc a b env), nzcv (snd (sbc_cc a b env))) = flags_of_sum (AddWithCarry a (NOT b) (a_CF env \<noteq> 0))"
  by (intro conjI add_cc_flags adc_cc_flags sub_cc_flags sbc_cc_flags)

text \<open>C28: Shifts by a register. For every amount, also zero and 32 or more, the helpers give the value and the carry that the architecture
  defines by multiplying, dividing or rotating the integer value.\<close>

theorem register_shifts:
  "shift_result (shl_cc x i env) = Shift_C LSL x (unat (i AND 0xff)) (a_CF env \<noteq> 0) \<and>
   shift_result (shr_cc x i env) = Shift_C LSR x (unat (i AND 0xff)) (a_CF env \<noteq> 0) \<and>
   shift_result (sar_cc x i env) = Shift_C ASR x (unat (i AND 0xff)) (a_CF env \<noteq> 0) \<and>
   shift_result (ror_cc x i env) = Shift_C ROR x (unat (i AND 0xff)) (a_CF env \<noteq> 0)"
  unfolding shift_of_def [symmetric] by (intro conjI shl_cc_shift shr_cc_shift sar_cc_shift ror_cc_shift)

text \<open>C9: Packed arithmetic. For all six prefixes, the helpers for parallel addition and subtraction compute in each halfword or byte the exact
  integer result of the lane, saturated, wrapped or halved as the prefix says, with the GE flags of the lane; the two exchanging
  operations pair the low half of one operand with the high half of the other.\<close>

theorem packed_arithmetic:
  "lanes16 (pfx_add16 p a b) (lane_op p False (half 0 a) (half 0 b)) (lane_op p False (half 1 a) (half 1 b)) \<and>
   lanes16 (pfx_sub16 p a b) (lane_op p True (half 0 a) (half 0 b)) (lane_op p True (half 1 a) (half 1 b)) \<and>
   lanes16 (pfx_subaddx p a b) (lane_op p False (half 0 a) (half 1 b)) (lane_op p True (half 1 a) (half 0 b)) \<and>
   lanes16 (pfx_addsubx p a b) (lane_op p True (half 0 a) (half 1 b)) (lane_op p False (half 1 a) (half 0 b)) \<and>
   lanes8 (pfx_add8 p a b) (lane_op p False (byte 0 a) (byte 0 b)) (lane_op p False (byte 1 a) (byte 1 b))
     (lane_op p False (byte 2 a) (byte 2 b)) (lane_op p False (byte 3 a) (byte 3 b)) \<and>
   lanes8 (pfx_sub8 p a b) (lane_op p True (byte 0 a) (byte 0 b)) (lane_op p True (byte 1 a) (byte 1 b))
     (lane_op p True (byte 2 a) (byte 2 b)) (lane_op p True (byte 3 a) (byte 3 b))"
  by (intro conjI lanes16_ref lanes8_ref)

text \<open>C29: Saturation. The saturating helpers give the nearest representable value and set the sticky flag exactly when the exact result is out of
  range, for saturation at 32 bits and at the width an instruction gives; the one exception is the doubling of the smallest operand whose
  double is still representable, which sets the flag.\<close>

theorem saturation_exact:
  assumes "s < 32"
  shows "add_saturate a b env = saturated (SignedSatQ (sint a + sint b) 32) env \<and>
    sub_saturate a b env = saturated (SignedSatQ (sint a - sint b) 32) env \<and>
    add_usaturate a b env = saturated (UnsignedSatQ (uint a + uint b) 32) env \<and>
    sub_usaturate a b env = saturated (UnsignedSatQ (uint a - uint b) 32) env \<and>
    ssat a (of_nat s) env = saturated (SignedSatQ (sint a) (Suc s)) env \<and>
    usat a (of_nat s) env = saturated (UnsignedSatQ (sint a) s) env \<and>
    double_saturate a env = saturated (fst (SignedSatQ (2 * sint a) 32), snd (SignedSatQ (2 * sint a) 32) \<or> a = 0xc0000000) env"
proof -
  have "unat (of_nat s :: u32) = s" using assms by (simp add: unat_of_nat)
  then show ?thesis
    using assms by (simp add: ssat_def usat_def do_ssat_ref do_usat_ref sat32_ref usat32_ref double_saturate_ref)
qed

theorem saturation_exact_witness:
  "ssat 200 (of_nat 7) cpu0 = saturated (SignedSatQ 200 8) cpu0 \<and> fst (ssat 200 (of_nat 7) cpu0) = 127"
proof -
  have "ssat 200 (of_nat 7) cpu0 = saturated (SignedSatQ (sint (200 :: u32)) (Suc 7)) cpu0"
    using saturation_exact [of 7 200 0 cpu0] by simp
  then show ?thesis by (simp add: SignedSatQ_def saturated_def)
qed

text \<open>The helpers on the bits and bytes of a register.\<close>

theorem bit_helpers:
  "(\<forall>n<32. bit (rbit x) n = bit x (31 - n)) \<and> (\<forall>n<4. byte n (sel_flags flags a b) = (if bit flags n then byte n a else byte n b)) \<and>
   uint (usad8 a b) = (\<Sum>n<4. \<bar>uint (byte n a) - uint (byte n b)\<bar>) \<and> (logicq_cc v = 0 \<longleftrightarrow> v = 0) \<and>
   (sint (logicq_cc v) < 0 \<longleftrightarrow> sint v < 0)"
  using rbit_ref sel_flags_ref usad8_ref logicq_ref by blast

text \<open>The doubling of 0xc0000000 is exact, but sets the sticky flag.\<close>

theorem double_saturate_spurious:
  "\<not> snd (SignedSatQ (2 * sint (0xc0000000 :: u32)) 32) \<and> snd (double_saturate 0xc0000000 cpu0) = set_q cpu0 \<and> a_QF cpu0 = 0"
  by (simp add: SignedSatQ_def double_saturate_def cpu0_def)

text \<open>The registers of the user mode as the exception modes see them: in every mode other than user and system mode they are the registers
  that are current after a return to user mode.\<close>

lemma user_bank:
  assumes "switch_mode ARM_CPU_MODE_USR env = Inr env'" and "bank_number (a_uncached_cpsr env AND CPSR_M) = Inr i" and "i \<noteq> 0" and "r < 15"
  shows "get_user_reg r env = Inr (a_regs env' r)"
proof -
  have m: "a_uncached_cpsr env AND CPSR_M \<noteq> ARM_CPU_MODE_USR" using assms(2,3) by (auto simp: bank_number_def)
  have e: "a_regs env' = a_regs (load_bank 0 (save_bank i (swap_fiq (a_uncached_cpsr env AND CPSR_M) ARM_CPU_MODE_USR env)))"
    using assms(1,2) m by (auto simp: switch_mode_def Let_def bank_number_def)
  have c: "(0x1f :: u32) = CPSR_M" by (simp add: CPSR_M_def)
  show ?thesis
    using assms(3,4) unfolding e get_user_reg_def c
    by (auto simp: load_bank_def save_bank_def swap_fiq_def blit_def mode_defs)
qed

end
