(* ===== verification/Gsm.thy ===== *)
theory Gsm
  imports Prelude
begin

text \<open>
  Character sets and number formats of the emulated phone, \<open>android/telephony/gsm.c\<close>: hexadecimal digits, UTF-8, UCS-2, the alphabet of GSM in its packed
  (seven bits) and unpacked (eight bits) form, and packed decimal numbers. A pointer with its end is the list of the bytes from there on. A
  function that writes to a buffer returns the bytes it writes, so its result with no buffer, the count, is the length of this list. Reading
  past the end of a buffer is \<open>Undefined\<close>. Characters are 32-bit words, the \<open>int\<close> of the code.
\<close>

section \<open>Decimal and hexadecimal digits\<close>

definition gsm_int_to_bcdi :: "nat \<Rightarrow> u8" where
  "gsm_int_to_bcdi val = of_nat (val div 10) OR push_bit 4 (of_nat (val mod 10))"

definition gsm_int_from_bcdi :: "u8 \<Rightarrow> u32" where
  "gsm_int_from_bcdi val =
     (let ret = (if val AND 0xf0 \<le> 0x90 then ucast (drop_bit 4 val) else 0)
      in if val AND 0x0f \<le> 0x90 then ret OR ucast (val mod 0xf) * 10 else ret)"

definition gsm_hexchar_to_int :: "u8 \<Rightarrow> nat option" where
  "gsm_hexchar_to_int c =
     (if c - 0x30 < 10 then Some (unat (c - 0x30))
      else if c - 0x61 < 6 then Some (10 + unat (c - 0x61))
      else if c - 0x41 < 6 then Some (10 + unat (c - 0x41))
      else None)"

definition gsm_hexchar_to_int0 :: "u8 \<Rightarrow> nat" where
  "gsm_hexchar_to_int0 c = (case gsm_hexchar_to_int c of None \<Rightarrow> 0 | Some d \<Rightarrow> d)"

definition gsm_hex2_to_byte :: "u8 \<Rightarrow> u8 \<Rightarrow> u8 option" where
  "gsm_hex2_to_byte h l =
     (case (gsm_hexchar_to_int h, gsm_hexchar_to_int l) of
        (Some hi, Some lo) \<Rightarrow> Some (push_bit 4 (of_nat hi) OR of_nat lo)
      | _ \<Rightarrow> None)"

definition gsm_hex4_to_short :: "u8 \<Rightarrow> u8 \<Rightarrow> u8 \<Rightarrow> u8 \<Rightarrow> u32 option" where
  "gsm_hex4_to_short a b c d =
     (case (gsm_hex2_to_byte a b, gsm_hex2_to_byte c d) of
        (Some hi, Some lo) \<Rightarrow> Some (push_bit 8 (ucast hi) OR ucast lo)
      | _ \<Rightarrow> None)"

definition gsm_hex2_to_byte0 :: "u8 \<Rightarrow> u8 \<Rightarrow> u8" where
  "gsm_hex2_to_byte0 h l = push_bit 4 (of_nat (gsm_hexchar_to_int0 h)) OR of_nat (gsm_hexchar_to_int0 l)"

definition hexdigits :: "u8 list" where
  "hexdigits = [0x30, 0x31, 0x32, 0x33, 0x34, 0x35, 0x36, 0x37, 0x38, 0x39, 0x61, 0x62, 0x63, 0x64, 0x65, 0x66]"

definition gsm_hex_from_byte :: "u8 \<Rightarrow> u8 list" where
  "gsm_hex_from_byte val = [hexdigits ! unat (drop_bit 4 val AND 15), hexdigits ! unat (val AND 15)]"

definition gsm_hex_from_short :: "u16 \<Rightarrow> u8 list" where
  "gsm_hex_from_short val = gsm_hex_from_byte (ucast (drop_bit 8 val)) @ gsm_hex_from_byte (ucast val)"

fun gsm_hex_to_bytes0 :: "u8 list \<Rightarrow> u8 list" where
  "gsm_hex_to_bytes0 (h # l # hex) = gsm_hex2_to_byte0 h l # gsm_hex_to_bytes0 hex"
| "gsm_hex_to_bytes0 [h] = [push_bit 4 (of_nat (gsm_hexchar_to_int0 h))]"
| "gsm_hex_to_bytes0 [] = []"

fun hex_loop :: "u8 list \<Rightarrow> u8 list option" where
  "hex_loop (h # l # hex) =
     (case gsm_hex2_to_byte h l of
        None \<Rightarrow> None
      | Some b \<Rightarrow> map_option ((#) b) (hex_loop hex))"
| "hex_loop hex = Some []"

definition gsm_hex_to_bytes :: "u8 list \<Rightarrow> u8 list option" where
  "gsm_hex_to_bytes hex = (if odd (length hex) then None else hex_loop hex)"

definition gsm_hex_from_bytes :: "u8 list \<Rightarrow> u8 list" where
  "gsm_hex_from_bytes src = concat (map gsm_hex_from_byte src)"

section \<open>UTF-8 and UCS-2\<close>

definition is_cont :: "u8 \<Rightarrow> bool" where
  "is_cont b \<longleftrightarrow> b AND 0xc0 = 0x80"

fun skip_chars :: "nat \<Rightarrow> u8 list \<Rightarrow> u8 list" where
  "skip_chars 0 p = p"
| "skip_chars (Suc n) [] = []"
| "skip_chars (Suc n) (c # p) = skip_chars n (if 128 < c then dropWhile is_cont p else p)"

definition utf8_skip :: "u8 list \<Rightarrow> nat \<Rightarrow> u8 list" where
  "utf8_skip utf8 count = skip_chars count utf8"

definition lead_bits :: "u8 \<Rightarrow> u32" where
  "lead_bits c = ucast (if c AND 0xe0 = 0xc0 then c AND 0x1f else if c AND 0xf0 = 0xe0 then c AND 0x0f else c AND 0x07)"

definition add_cont :: "u32 \<Rightarrow> u8 \<Rightarrow> u32" where
  "add_cont c b = push_bit 6 c OR ucast (b AND 0x3f)"

fun utf8_next :: "u8 list \<Rightarrow> (u32 \<times> u8 list) option" where
  "utf8_next [] = None"
| "utf8_next (c # p) =
     (if c < 128 then Some (ucast c, p)
      else Some (foldl add_cont (lead_bits c) (takeWhile is_cont p), dropWhile is_cont p))"

definition utf8_write :: "u32 \<Rightarrow> u8 list" where
  "utf8_write v =
     (if v < 128 then [ucast v]
      else if v < 0x800 then [ucast (0xc0 OR drop_bit 6 v), ucast (0x80 OR (v AND 0x3f))]
      else if v < 0x10000 then
        [ucast (0xe0 OR drop_bit 12 v), ucast (0x80 OR (drop_bit 6 v AND 0x3f)), ucast (0x80 OR (v AND 0x3f))]
      else [ucast (0xf0 OR (drop_bit 18 v AND 7)), ucast (0x80 OR (drop_bit 12 v AND 0x3f)), ucast (0x80 OR (drop_bit 6 v AND 0x3f)),
            ucast (0x80 OR (v AND 0x3f))])"

definition ucs2_write :: "u32 \<Rightarrow> u8 list" where
  "ucs2_write v = [ucast (drop_bit 8 v), ucast v]"

function utf8_check :: "u8 list \<Rightarrow> bool" where
  "utf8_check [] = True"
| "utf8_check (c # p) =
     (if c < 128 then utf8_check p
      else let len = (if c AND 0xe0 = 0xc0 then 1 else if c AND 0xf0 = 0xe0 then 2 else if c AND 0xf8 = 0xf0 then 3 else 0)
           in if len = 0 \<or> length p < len then False
              else if list_all is_cont (take len p) then utf8_check (drop len p) else False)"
  by pat_completeness auto
termination by (relation "measure length") auto

fun ucs2_to_utf8 :: "u8 list \<Rightarrow> nat \<Rightarrow> u8 list res" where
  "ucs2_to_utf8 ucs2 0 = Inr []"
| "ucs2_to_utf8 (h # l # ucs2) (Suc n) =
     res_bind (ucs2_to_utf8 ucs2 n) (\<lambda>bs. Inr (utf8_write (push_bit 8 (ucast h) OR ucast l) @ bs))"
| "ucs2_to_utf8 ucs2 (Suc n) = Inl Undefined"

text \<open>The characters of a string, up to one that does not fit into a positive \<open>int\<close>.\<close>

lemma utf8_next_shorter: "utf8_next p = Some (c, q) \<Longrightarrow> length q < length p"
  by (cases p) (auto split: if_splits simp: length_dropWhile_le less_Suc_eq_le)

function utf8_chars :: "u8 list \<Rightarrow> u32 list" where
  "utf8_chars p =
     (case utf8_next p of
        None \<Rightarrow> []
      | Some (c, q) \<Rightarrow> if c <s 0 then [] else c # utf8_chars q)"
  by pat_completeness auto
termination by (relation "measure length") (auto dest: utf8_next_shorter)

declare utf8_chars.simps [simp del]

definition utf8_to_ucs2 :: "u8 list \<Rightarrow> u8 list" where
  "utf8_to_ucs2 utf8 = concat (map ucs2_write (utf8_chars utf8))"

section \<open>The GSM alphabet\<close>

definition GSM_7BITS_ESCAPE :: u32 where "GSM_7BITS_ESCAPE = 0x1b"

definition gsm7bits_to_unicode :: "u32 list" where
  "gsm7bits_to_unicode =
     [0x40, 0xa3, 0x24, 0xa5, 0xe8, 0xe9, 0xf9, 0xec, 0xf2, 0xc7, 0x0a, 0xd8, 0xf8, 0x0d, 0xc5, 0xe5,
      0x394, 0x5f, 0x3a6, 0x393, 0x39b, 0x3a9, 0x3a0, 0x3a8, 0x3a3, 0x398, 0x39e, 0, 0xc6, 0xe6, 0xdf, 0xc9,
      0x20, 0x21, 0x22, 0x23, 0xa4, 0x25, 0x26, 0x27, 0x28, 0x29, 0x2a, 0x2b, 0x2c, 0x2d, 0x2e, 0x2f,
      0x30, 0x31, 0x32, 0x33, 0x34, 0x35, 0x36, 0x37, 0x38, 0x39, 0x3a, 0x3b, 0x3c, 0x3d, 0x3e, 0x3f,
      0xa1, 0x41, 0x42, 0x43, 0x44, 0x45, 0x46, 0x47, 0x48, 0x49, 0x4a, 0x4b, 0x4c, 0x4d, 0x4e, 0x4f,
      0x50, 0x51, 0x52, 0x53, 0x54, 0x55, 0x56, 0x57, 0x58, 0x59, 0x5a, 0xc4, 0xd6, 0x147, 0xdc, 0xa7,
      0xbf, 0x61, 0x62, 0x63, 0x64, 0x65, 0x66, 0x67, 0x68, 0x69, 0x6a, 0x6b, 0x6c, 0x6d, 0x6e, 0x6f,
      0x70, 0x71, 0x72, 0x73, 0x74, 0x75, 0x76, 0x77, 0x78, 0x79, 0x7a, 0xe4, 0xf6, 0xf1, 0xfc, 0xe0]"

definition gsm7bits_extend_to_unicode :: "u32 list" where
  "gsm7bits_extend_to_unicode =
     [0, 0, 0, 0, 0, 0, 0, 0, 0, 0, 0x0c, 0, 0, 0, 0, 0,
      0, 0, 0, 0, 0x5e, 0, 0, 0, 0, 0, 0, 0, 0, 0, 0, 0,
      0, 0, 0, 0, 0, 0, 0, 0, 0x7b, 0x7d, 0, 0, 0, 0, 0, 0x5c,
      0, 0, 0, 0, 0, 0, 0, 0, 0, 0, 0, 0, 0x5b, 0x7e, 0x5d, 0,
      0x7c, 0, 0, 0, 0, 0, 0, 0, 0, 0, 0, 0, 0, 0, 0, 0,
      0, 0, 0, 0, 0, 0, 0, 0, 0, 0, 0, 0, 0, 0, 0, 0,
      0, 0, 0, 0, 0, 0x20ac, 0, 0, 0, 0, 0, 0, 0, 0, 0, 0,
      0, 0, 0, 0, 0, 0, 0, 0, 0, 0, 0, 0, 0, 0, 0, 0]"

definition find_code :: "u32 list \<Rightarrow> u32 \<Rightarrow> nat option" where
  "find_code table unicode = find (\<lambda>nn. table ! nn = unicode) [0..<128]"

definition unichar_to_gsm7 :: "u32 \<Rightarrow> nat option" where
  "unichar_to_gsm7 unicode = find_code gsm7bits_to_unicode unicode"

definition unichar_to_gsm7_extend :: "u32 \<Rightarrow> nat option" where
  "unichar_to_gsm7_extend unichar = find_code gsm7bits_extend_to_unicode unichar"

definition unichar_to_gsm7_count :: "u32 \<Rightarrow> nat" where
  "unichar_to_gsm7_count unicode =
     (if unichar_to_gsm7 unicode \<noteq> None then 1 else if unichar_to_gsm7_extend unicode \<noteq> None then 2 else 0)"

function utf8_skip_gsm7 :: "u8 list \<Rightarrow> nat \<Rightarrow> u8 list" where
  "utf8_skip_gsm7 p gsm7len =
     (if gsm7len = 0 then p
      else case utf8_next p of
             None \<Rightarrow> p
           | Some (c, q) \<Rightarrow>
               if c <s 0 then p
               else let len = (if unichar_to_gsm7_count c = 0 then 1 else unichar_to_gsm7_count c)
                    in if gsm7len < len then p else utf8_skip_gsm7 q (gsm7len - len))"
  by pat_completeness auto
termination by (relation "measure (length \<circ> fst)") (auto dest: utf8_next_shorter)

declare utf8_skip_gsm7.simps [simp del]

function utf8_skip_ucs2 :: "u8 list \<Rightarrow> nat \<Rightarrow> u8 list" where
  "utf8_skip_ucs2 p ucs2len =
     (if ucs2len < 2 then p
      else case utf8_next p of
             None \<Rightarrow> p
           | Some (c, q) \<Rightarrow> if c <s 0 then p else utf8_skip_ucs2 q (ucs2len - 2))"
  by pat_completeness auto
termination by (relation "measure (length \<circ> fst)") (auto dest: utf8_next_shorter)

declare utf8_skip_ucs2.simps [simp del]

function utf8_check_gsm7 :: "u8 list \<Rightarrow> bool" where
  "utf8_check_gsm7 p =
     (case utf8_next p of
        None \<Rightarrow> True
      | Some (c, q) \<Rightarrow> if unichar_to_gsm7_count c = 0 then False else utf8_check_gsm7 q)"
  by pat_completeness auto
termination by (relation "measure length") (auto dest: utf8_next_shorter)

declare utf8_check_gsm7.simps [simp del]

definition utf8_to_gsm7_count :: "u8 list \<Rightarrow> nat" where
  "utf8_to_gsm7_count utf8 =
     sum_list (map (\<lambda>c. if unichar_to_gsm7_count c = 0 then 1 else unichar_to_gsm7_count c) (utf8_chars utf8))"

section \<open>Packed septets\<close>

record BWriter =
  bw_out :: "u8 list"
  bw_pad :: u32
  bw_bits :: nat
  bw_offset :: nat

text \<open>The bytes written start at the byte of the first bit; \<open>dst0\<close> is what this byte held.\<close>

definition bwriter_init :: "u8 \<Rightarrow> nat \<Rightarrow> BWriter" where
  "bwriter_init dst0 start =
     (let shift = start mod 8
      in \<lparr>bw_out = [], bw_pad = (if 0 < shift then ucast dst0 AND NOT (push_bit shift 0xff) else 0), bw_bits = shift, bw_offset = start\<rparr>)"

definition bwriter_add7 :: "BWriter \<Rightarrow> u32 \<Rightarrow> BWriter" where
  "bwriter_add7 w val =
     (let pad = bw_pad w OR push_bit (bw_bits w) val; bits = bw_bits w + 7
      in if 8 \<le> bits
         then \<lparr>bw_out = bw_out w @ [ucast pad], bw_pad = drop_bit 8 pad, bw_bits = bits - 8, bw_offset = bw_offset w + 7\<rparr>
         else \<lparr>bw_out = bw_out w, bw_pad = pad, bw_bits = bits, bw_offset = bw_offset w + 7\<rparr>)"

definition bwriter_done :: "BWriter \<Rightarrow> u8 list \<times> nat" where
  "bwriter_done w = (if 0 < bw_bits w then bw_out w @ [ucast (bw_pad w)] else bw_out w, bw_offset w)"

definition gsm7_codes :: "u32 \<Rightarrow> u32 list" where
  "gsm7_codes c =
     (case unichar_to_gsm7 c of
        Some nn \<Rightarrow> [of_nat nn]
      | None \<Rightarrow> case unichar_to_gsm7_extend c of Some nn \<Rightarrow> [GSM_7BITS_ESCAPE, of_nat nn] | None \<Rightarrow> [0x20])"

definition utf8_to_gsm7 :: "u8 list \<Rightarrow> u8 \<Rightarrow> nat \<Rightarrow> u8 list \<times> nat" where
  "utf8_to_gsm7 utf8 dst0 offset =
     bwriter_done (foldl bwriter_add7 (bwriter_init dst0 offset) (concat (map gsm7_codes (utf8_chars utf8))))"

definition utf8_to_gsm8 :: "u8 list \<Rightarrow> u8 list" where
  "utf8_to_gsm8 utf8 = map ucast (concat (map gsm7_codes (utf8_chars utf8)))"

definition get_septet :: "u8 list \<Rightarrow> nat \<Rightarrow> u32 res" where
  "get_septet src pos =
     (let i = pos div 8; shift = pos mod 8
      in if length src \<le> i then Inl Undefined
         else let c = drop_bit shift (ucast (src ! i)) AND 0x7f
              in if 1 < shift then
                   if length src \<le> i + 1 then Inl Undefined else Inr ((push_bit (8 - shift) (ucast (src ! (i + 1))) OR c) AND 0x7f)
                 else Inr c)"

fun gsm7_loop :: "u8 list \<Rightarrow> nat \<Rightarrow> nat \<Rightarrow> bool \<Rightarrow> u8 list res" where
  "gsm7_loop src pos 0 escaped = Inr []"
| "gsm7_loop src pos (Suc n) escaped =
     res_bind (get_septet src pos) (\<lambda>c.
       if \<not> escaped \<and> c = GSM_7BITS_ESCAPE then gsm7_loop src (pos + 7) n True
       else let v = (if escaped then gsm7bits_extend_to_unicode ! unat c else gsm7bits_to_unicode ! unat c)
            in res_bind (gsm7_loop src (pos + 7) n escaped) (\<lambda>bs. Inr (utf8_write v @ bs)))"

definition utf8_from_gsm7 :: "u8 list \<Rightarrow> nat \<Rightarrow> nat \<Rightarrow> u8 list res" where
  "utf8_from_gsm7 src septet_offset septet_count = gsm7_loop src septet_offset septet_count False"

fun gsm8_loop :: "u8 list \<Rightarrow> bool \<Rightarrow> u8 list" where
  "gsm8_loop [] escaped = []"
| "gsm8_loop (b # src) escaped =
     (if b = 0xff then []
      else if b = 0x1b then if escaped then utf8_write 0x20 @ gsm8_loop src False else gsm8_loop src True
      else if 0x80 \<le> b then utf8_write 0x20 @ gsm8_loop src False
      else utf8_write (if escaped then gsm7bits_extend_to_unicode ! unat b else gsm7bits_to_unicode ! unat b) @ gsm8_loop src escaped)"

definition utf8_from_gsm8 :: "u8 list \<Rightarrow> u8 list" where
  "utf8_from_gsm8 src = gsm8_loop src False"

definition ucs2_to_gsm8 :: "u8 list \<Rightarrow> u8 list" where
  "ucs2_to_gsm8 ucs2 = map ucast (concat (map (\<lambda>b. gsm7_codes (ucast b)) ucs2))"

definition ucs2_to_gsm7 :: "u8 list \<Rightarrow> u8 \<Rightarrow> nat \<Rightarrow> u8 list \<times> nat" where
  "ucs2_to_gsm7 ucs2 dst0 offset =
     bwriter_done (foldl bwriter_add7 (bwriter_init dst0 offset) (concat (map (\<lambda>b. gsm7_codes (ucast b)) ucs2)))"

text \<open>The position is not advanced.\<close>

fun ucs2_from_loop :: "u8 list \<Rightarrow> nat \<Rightarrow> nat \<Rightarrow> bool \<Rightarrow> u8 list res" where
  "ucs2_from_loop src pos 0 escaped = Inr []"
| "ucs2_from_loop src pos (Suc n) escaped =
     res_bind (get_septet src pos) (\<lambda>c.
       if escaped then res_bind (ucs2_from_loop src pos n False) (\<lambda>bs. Inr (ucs2_write (gsm7bits_to_unicode ! unat c) @ bs))
       else if c = GSM_7BITS_ESCAPE then ucs2_from_loop src pos n True
       else let v = gsm7bits_extend_to_unicode ! unat c
            in res_bind (ucs2_from_loop src pos n False) (\<lambda>bs. Inr (ucs2_write (if v = 0 then 0x20 else v) @ bs)))"

definition ucs2_from_gsm7 :: "u8 list \<Rightarrow> nat \<Rightarrow> nat \<Rightarrow> u8 list res" where
  "ucs2_from_gsm7 src septet_offset septet_count = ucs2_from_loop src septet_offset septet_count False"

section \<open>Dial numbers\<close>

definition dial_chars :: "u8 list" where
  "dial_chars = [0x30, 0x31, 0x32, 0x33, 0x34, 0x35, 0x36, 0x37, 0x38, 0x39, 0x2a, 0x23, 0x2c, 0x4e]"

text \<open>The flag tells whether the high half of the byte is next. The count is not decremented.\<close>

function bcdnum_loop :: "u8 list \<Rightarrow> nat \<Rightarrow> bool \<Rightarrow> u8 list res" where
  "bcdnum_loop [] count high = Inl Undefined"
| "bcdnum_loop (b # bcd) count False =
     (let c = b AND 0xf
      in if c = 15 \<and> count = 1 then Inr []
         else res_bind (bcdnum_loop (b # bcd) count True) (\<lambda>r. Inr (dial_chars ! unat (if 14 \<le> c then 0 else c) # r)))"
| "bcdnum_loop (b # bcd) count True =
     (let c = drop_bit 4 b AND 0xf
      in if c = 15 \<and> count = 1 then Inr []
         else res_bind (bcdnum_loop bcd count False) (\<lambda>r. Inr (dial_chars ! unat (if 14 \<le> c then 0 else c) # r)))"
  by pat_completeness auto
termination by (relation "measure (\<lambda>(bcd, count, high). 2 * length bcd + (if high then 0 else 1))") auto

definition gsm_bcdnum_to_ascii :: "u8 list \<Rightarrow> nat \<Rightarrow> u8 list res" where
  "gsm_bcdnum_to_ascii bcd count = (if count = 0 then Inr [] else bcdnum_loop bcd count False)"

definition dial_code :: "u8 \<Rightarrow> nat option" where
  "dial_code c =
     (if c = 0x2a then Some 10 else if c = 0x23 then Some 11 else if c = 0x2c then Some 12 else if c = 0x4e then Some 13
      else if c - 0x30 < 10 then Some (unat (c - 0x30)) else None)"

text \<open>The half bytes written so far, the pending one, and the buffer: a byte is stored at half the number of digits read.\<close>

fun from_ascii_loop :: "u8 list \<Rightarrow> nat \<Rightarrow> u32 \<Rightarrow> (nat \<Rightarrow> u8) \<Rightarrow> (nat \<times> u32 \<times> (nat \<Rightarrow> u8)) option" where
  "from_ascii_loop [] result phase dst = Some (result, phase, dst)"
| "from_ascii_loop (c # ascii) result phase dst =
     (case dial_code c of
        None \<Rightarrow> None
      | Some d \<Rightarrow> let phase' = push_bit 4 phase OR of_nat d; result' = Suc result
                  in if phase' AND 0x100 \<noteq> 0 then from_ascii_loop ascii result' 1 (dst(result' div 2 := ucast phase'))
                     else from_ascii_loop ascii result' phase' dst)"

definition gsm_bcdnum_from_ascii :: "u8 list \<Rightarrow> (nat \<Rightarrow> u8) \<Rightarrow> (nat \<times> (nat \<Rightarrow> u8)) option" where
  "gsm_bcdnum_from_ascii ascii dst =
     (case from_ascii_loop ascii 0 1 dst of
        None \<Rightarrow> None
      | Some (result, phase, d) \<Rightarrow> Some (result, if odd result then d(result div 2 := ucast (phase OR 0xf0)) else d))"

section \<open>Hexadecimal round trip\<close>

lemma hexdigits_value: "d < 16 \<Longrightarrow> gsm_hexchar_to_int (hexdigits ! d) = Some d"
proof -
  have "\<forall>d \<in> set [0..<16]. gsm_hexchar_to_int (hexdigits ! d) = Some d"
    by (simp add: upt_conv_Cons hexdigits_def gsm_hexchar_to_int_def)
  then show "d < 16 \<Longrightarrow> ?thesis" by simp
qed

lemma nibble_lt: "unat ((x :: u8) AND 15) < 16"
proof -
  have m: "(15 :: u8) = mask 4" by (simp add: mask_eq_exp_minus_1)
  show ?thesis unfolding m unat_and_mask by simp
qed

lemma nibbles_join: "push_bit 4 (drop_bit 4 v AND 15) OR (v AND 15) = (v :: u8)"
proof -
  have m: "(15 :: u8) = mask 4" by (simp add: mask_eq_exp_minus_1)
  show ?thesis unfolding m by (rule bit_word_eqI) (auto simp: bit_simps)
qed

lemma hex_byte_roundtrip: "gsm_hex2_to_byte (hexdigits ! unat (drop_bit 4 v AND 15)) (hexdigits ! unat (v AND 15)) = Some v"
  using nibbles_join [of v] by (simp add: gsm_hex2_to_byte_def hexdigits_value nibble_lt)

lemma hex_roundtrip: "gsm_hex_to_bytes (gsm_hex_from_bytes bs) = Some bs"
proof -
  have "even (length (gsm_hex_from_bytes bs))" by (induction bs) (auto simp: gsm_hex_from_bytes_def gsm_hex_from_byte_def)
  moreover have "hex_loop (gsm_hex_from_bytes bs) = Some bs"
    by (induction bs) (auto simp: gsm_hex_from_bytes_def gsm_hex_from_byte_def hex_byte_roundtrip)
  ultimately show ?thesis by (simp add: gsm_hex_to_bytes_def)
qed

section \<open>UTF-8\<close>

lemma word32_eqI: "\<forall>n \<in> set [0..<32]. bit a n = bit b n \<Longrightarrow> a = (b :: u32)"
  by (rule bit_word_eqI) simp

lemma high_bits: "unat v < 2 ^ k \<Longrightarrow> k \<le> n \<Longrightarrow> \<not> bit (v :: u32) n"
proof -
  assume v: "unat v < 2 ^ k" "k \<le> n"
  have "unat v < 2 ^ n" using v(1) power_increasing [OF v(2), of "2 :: nat"] by (simp add: less_le_trans)
  then have "\<not> bit (unat v) n" by (simp add: bit_iff_odd)
  then show ?thesis using bit_imp_le_length [of v n] by (auto simp: bit_unsigned_iff)
qed

lemma byte_high: "(b :: u8) < 128 \<longleftrightarrow> \<not> bit b 7"
proof -
  have "b < 128 \<longleftrightarrow> unat b < 2 ^ 7" by (simp add: word_less_nat_alt)
  also have "\<dots> \<longleftrightarrow> \<not> odd (unat b div 2 ^ 7)"
  proof -
    have "unat b < 256" using unsigned_less [of b] by simp
    then have "unat b div 2 ^ 7 < 2" by simp
    then show ?thesis by (cases "unat b div 2 ^ 7 = 0") (auto simp: less_2_cases_iff)
  qed
  also have "\<dots> \<longleftrightarrow> \<not> bit b 7" using bit_iff_odd [of "unat b" 7] by (simp add: bit_unsigned_iff)
  finally show ?thesis .
qed

lemma word8_eqI: "\<forall>n \<in> set [0..<8]. bit a n = bit b n \<Longrightarrow> a = (b :: u8)"
  by (rule bit_word_eqI) simp

lemma cont_byte: "is_cont (ucast (0x80 OR (w AND 0x3f) :: u32))" "ucast (ucast (0x80 OR (w AND 0x3f) :: u32) AND 0x3f :: u8) = (w AND 0x3f :: u32)"
proof -
  have "\<forall>n \<in> set [0..<8]. bit (ucast (0x80 OR (w AND 0x3f) :: u32) AND 0xc0 :: u8) n = bit (0x80 :: u8) n" by (simp add: upt_conv_Cons bit_simps)
  then have "ucast (0x80 OR (w AND 0x3f) :: u32) AND 0xc0 = (0x80 :: u8)" by (intro bit_word_eqI) simp
  then show "is_cont (ucast (0x80 OR (w AND 0x3f) :: u32))" by (simp add: is_cont_def)
  show "ucast (ucast (0x80 OR (w AND 0x3f) :: u32) AND 0x3f :: u8) = (w AND 0x3f :: u32)"
    by (rule word32_eqI) (simp add: upt_conv_Cons bit_simps)
qed


lemma lead_2:
  assumes "v < 0x800"
  shows "lead_bits (ucast (0xc0 OR drop_bit 6 v :: u32)) = drop_bit 6 v"
proof -
  have v: "unat v < 2 ^ 11" using assms by (simp add: word_less_nat_alt)
  note h = high_bits [OF v]
  have e: "ucast (0xc0 OR drop_bit 6 v :: u32) AND 0xe0 = (0xc0 :: u8)" by (rule word8_eqI) (simp add: upt_conv_Cons bit_simps h)
  have "ucast (ucast (0xc0 OR drop_bit 6 v :: u32) AND 0x1f :: u8) = drop_bit 6 v" by (rule word32_eqI) (simp add: upt_conv_Cons bit_simps h)
  then show ?thesis by (simp add: lead_bits_def e)
qed

lemma lead_3:
  assumes "v < 0x10000"
  shows "lead_bits (ucast (0xe0 OR drop_bit 12 v :: u32)) = drop_bit 12 v"
proof -
  have v: "unat v < 2 ^ 16" using assms by (simp add: word_less_nat_alt)
  note h = high_bits [OF v]
  have e: "ucast (0xe0 OR drop_bit 12 v :: u32) AND 0xe0 = (0xe0 :: u8)" "ucast (0xe0 OR drop_bit 12 v :: u32) AND 0xf0 = (0xe0 :: u8)"
    by (rule word8_eqI; simp add: upt_conv_Cons bit_simps h)+
  have "ucast (ucast (0xe0 OR drop_bit 12 v :: u32) AND 0x0f :: u8) = drop_bit 12 v" by (rule word32_eqI) (simp add: upt_conv_Cons bit_simps h)
  then show ?thesis by (simp add: lead_bits_def e)
qed

lemma lead_4: "lead_bits (ucast (0xf0 OR (drop_bit 18 v AND 7) :: u32)) = drop_bit 18 v AND 7"
proof -
  have e: "ucast (0xf0 OR (drop_bit 18 v AND 7) :: u32) AND 0xe0 = (0xe0 :: u8)" "ucast (0xf0 OR (drop_bit 18 v AND 7) :: u32) AND 0xf0 = (0xf0 :: u8)"
    by (rule word8_eqI; simp add: upt_conv_Cons bit_simps)+
  have "ucast (ucast (0xf0 OR (drop_bit 18 v AND 7) :: u32) AND 0x07 :: u8) = drop_bit 18 v AND 7" by (rule word32_eqI) (simp add: upt_conv_Cons bit_simps)
  then show ?thesis by (simp add: lead_bits_def e)
qed

lemma lead_high: "\<not> ucast (0xc0 OR w :: u32) < (128 :: u8)" "\<not> ucast (0xe0 OR w :: u32) < (128 :: u8)" "\<not> ucast (0xf0 OR w :: u32) < (128 :: u8)"
  "\<not> is_cont (ucast (0xc0 OR w :: u32))" "\<not> is_cont (ucast (0xe0 OR w :: u32))" "\<not> is_cont (ucast (0xf0 OR w :: u32))"
proof -
  show "\<not> ucast (0xc0 OR w :: u32) < (128 :: u8)" "\<not> ucast (0xe0 OR w :: u32) < (128 :: u8)" "\<not> ucast (0xf0 OR w :: u32) < (128 :: u8)"
    unfolding byte_high by (simp_all add: bit_simps)
  have c: "is_cont b \<Longrightarrow> \<not> bit b 6" for b
  proof
    assume "is_cont b" "bit b 6"
    then have "bit (b AND 0xc0) 6 = bit (0x80 :: u8) 6" by (simp add: is_cont_def)
    then show False using \<open>bit b 6\<close> by (simp add: bit_simps)
  qed
  show "\<not> is_cont (ucast (0xc0 OR w :: u32))" "\<not> is_cont (ucast (0xe0 OR w :: u32))" "\<not> is_cont (ucast (0xf0 OR w :: u32))"
    using c [of "ucast (0xc0 OR w :: u32)"] c [of "ucast (0xe0 OR w :: u32)"] c [of "ucast (0xf0 OR w :: u32)"] by (auto simp: bit_simps)
qed

lemma ascii_not_cont: "b < 128 \<Longrightarrow> \<not> is_cont b"
proof
  assume "b < 128" "is_cont b"
  then have "bit (b AND 0xc0) 7 = bit (0x80 :: u8) 7" by (simp add: is_cont_def)
  then show False using \<open>b < 128\<close> unfolding byte_high by (simp add: bit_simps)
qed

text \<open>A string starts with a character if its first byte is not a continuation.\<close>

definition at_char :: "u8 list \<Rightarrow> bool" where
  "at_char p \<longleftrightarrow> (case p of [] \<Rightarrow> True | b # _ \<Rightarrow> \<not> is_cont b)"

lemma at_char_write: "at_char (utf8_write v @ p)"
proof -
  have "ucast v < (128 :: u8)" if "v < 128"
  proof -
    have "unat v < 2 ^ 7" using that by (simp add: word_less_nat_alt)
    then show ?thesis unfolding byte_high using high_bits [of v 7 7] by (simp add: bit_simps)
  qed
  then show ?thesis using ascii_not_cont lead_high by (auto simp: at_char_def utf8_write_def)
qed

lemma take_cont: "at_char p \<Longrightarrow> takeWhile is_cont p = []" "at_char p \<Longrightarrow> dropWhile is_cont p = p"
  by (cases p; simp add: at_char_def)+

lemma join_bits: "push_bit 6 (drop_bit (6 + k) v) OR (drop_bit k v AND 0x3f) = (drop_bit k v :: u32)"
proof -
  have m: "(0x3f :: u32) = mask 6" by (simp add: mask_eq_exp_minus_1)
  show ?thesis unfolding m by (rule bit_word_eqI) (auto simp: bit_simps dest: bit_imp_le_length)
qed

lemmas join_cont = join_bits [of 0, simplified] join_bits [of 6, simplified] join_bits [of 12, simplified]

lemma utf8_next_write:
  assumes "v < 0x200000" and "at_char p"
  shows "utf8_next (utf8_write v @ p) = Some (v, p)"
proof -
  consider "v < 128" | "128 \<le> v" "v < 0x800" | "0x800 \<le> v" "v < 0x10000" | "0x10000 \<le> v" by fastforce
  then show ?thesis
  proof cases
    case 1
    then have u: "unat v < 2 ^ 7" by (simp add: word_less_nat_alt)
    have "ucast v < (128 :: u8)" unfolding byte_high using high_bits [OF u, of 7] by (simp add: bit_simps)
    moreover have "ucast (ucast v :: u8) = v" using high_bits [OF u] by (intro word32_eqI) (simp add: upt_conv_Cons bit_simps)
    ultimately show ?thesis using 1 by (simp add: utf8_write_def)
  next
    case 2
    then have "\<not> v < 128" by auto
    then show ?thesis using 2 by (simp add: utf8_write_def lead_high lead_2 cont_byte take_cont assms(2) add_cont_def join_cont)
  next
    case 3
    then have "\<not> v < 0x800" "\<not> v < 128" by (auto dest: order.strict_trans1)
    then show ?thesis using 3 by (simp add: utf8_write_def lead_high lead_3 cont_byte take_cont assms(2) add_cont_def join_cont)
  next
    case 4
    have u: "unat v < 2 ^ 21" using assms(1) by (simp add: word_less_nat_alt)
    have s: "drop_bit 18 v AND 7 = drop_bit 18 v" using high_bits [OF u] by (intro word32_eqI) (simp add: upt_conv_Cons bit_simps)
    have "\<not> v < 0x10000" "\<not> v < 0x800" "\<not> v < 128" using 4 by (auto dest: order.strict_trans1)
    then show ?thesis using lead_4 [of v] by (simp add: utf8_write_def lead_high cont_byte take_cont assms(2) add_cont_def join_cont s)
  qed
qed

lemma text_next:
  assumes "\<forall>c \<in> set (c # cs). c < 0x200000"
  shows "utf8_next (utf8_write c @ concat (map utf8_write cs)) = Some (c, concat (map utf8_write cs))" and "\<not> c <s 0"
proof -
  have "at_char (concat (map utf8_write cs))" using at_char_write by (cases cs) (auto simp: at_char_def)
  then show "utf8_next (utf8_write c @ concat (map utf8_write cs)) = Some (c, concat (map utf8_write cs))"
    using assms by (intro utf8_next_write) auto
  have "unat c < 2 ^ 21" using assms by (simp add: word_less_nat_alt)
  then have "\<not> bit c 31" using high_bits [of c 21 31] by simp
  then show "\<not> c <s 0" using bit_last_iff [of c] by (simp add: word_sless_alt)
qed

lemma chars_write:
  assumes "\<forall>c \<in> set cs. c < 0x200000"
  shows "utf8_chars (concat (map utf8_write cs)) = cs"
  using assms
proof (induction cs)
  case Nil
  show ?case by (simp add: utf8_chars.simps)
next
  case (Cons c cs)
  then show ?case using text_next [of c cs] by (simp add: utf8_chars.simps [of "utf8_write c @ _"])
qed

lemma ucs2_utf8_chars:
  "length ucs2 = 2 * n \<Longrightarrow> \<exists>cs. ucs2_to_utf8 ucs2 n = Inr (concat (map utf8_write cs)) \<and> (\<forall>c \<in> set cs. c < 0x200000) \<and> concat (map ucs2_write cs) = ucs2"
proof (induction ucs2 n rule: ucs2_to_utf8.induct)
  case (2 h l ucs2 n)
  then obtain cs where cs: "ucs2_to_utf8 ucs2 n = Inr (concat (map utf8_write cs))" "\<forall>c \<in> set cs. c < 0x200000" "concat (map ucs2_write cs) = ucs2"
    by auto
  define c :: u32 where "c = push_bit 8 (ucast h) OR ucast l"
  have "ucs2_write c = [h, l]"
    unfolding ucs2_write_def c_def by (simp, intro conjI bit_word_eqI) (auto simp: bit_simps dest: bit_imp_le_length)
  moreover have "c < 0x200000"
  proof -
    have "take_bit 16 c = c" unfolding c_def by (intro bit_word_eqI) (auto simp: bit_simps dest: bit_imp_le_length)
    then have "unat c = unat c mod 2 ^ 16" by (metis take_bit_eq_mod unsigned_take_bit_eq)
    moreover have "unat c mod 2 ^ 16 < 2 ^ 16" by simp
    ultimately show ?thesis by (simp add: word_less_nat_alt)
  qed
  ultimately show ?case using cs by (intro exI [of _ "c # cs"]) (simp add: c_def)
qed (auto simp: length_Suc_conv intro: exI [of _ "[]"])

lemma ucs2_roundtrip: "length ucs2 = 2 * n \<Longrightarrow> \<exists>u. ucs2_to_utf8 ucs2 n = Inr u \<and> utf8_to_ucs2 u = ucs2"
  using ucs2_utf8_chars [of ucs2 n] chars_write by (auto simp: utf8_to_ucs2_def)

section \<open>Septets in a stream of bits\<close>

definition stream_bit :: "u8 list \<Rightarrow> nat \<Rightarrow> bool" where
  "stream_bit bs n = bit (bs ! (n div 8)) (n mod 8)"

definition writer_bit :: "BWriter \<Rightarrow> nat \<Rightarrow> bool" where
  "writer_bit w n = (if n < 8 * length (bw_out w) then stream_bit (bw_out w) n else bit (bw_pad w) (n - 8 * length (bw_out w)))"

definition writer_len :: "BWriter \<Rightarrow> nat" where
  "writer_len w = 8 * length (bw_out w) + bw_bits w"

definition writer_ok :: "BWriter \<Rightarrow> bool" where
  "writer_ok w \<longleftrightarrow> bw_bits w < 8 \<and> (\<forall>n \<ge> bw_bits w. \<not> bit (bw_pad w) n)"

lemma septet_high: "unat v < 128 \<Longrightarrow> 7 \<le> n \<Longrightarrow> \<not> bit (v :: u32) n"
  using high_bits [of v 7 n] by simp

lemma byte_index: "r < 8 \<Longrightarrow> (8 * i + r) div 8 = i \<and> (8 * i + r) mod 8 = (r :: nat)"
  by simp

lemma in_byte: "8 * m \<le> n \<Longrightarrow> n < 8 * Suc m \<Longrightarrow> n div 8 = m \<and> n mod 8 = n - 8 * m \<and> n - 8 * m < (8 :: nat)"
  using byte_index [of "n - 8 * m" m] by simp

lemma writer_add7:
  assumes "writer_ok w" and "unat v < 128"
  shows "writer_ok (bwriter_add7 w v)" and "writer_len (bwriter_add7 w v) = writer_len w + 7" and "bw_offset (bwriter_add7 w v) = bw_offset w + 7"
    and "writer_bit (bwriter_add7 w v) n = (if n < writer_len w then writer_bit w n else bit v (n - writer_len w))"
proof -
  define pad where "pad = bw_pad w OR push_bit (bw_bits w) v"
  note h = septet_high [OF assms(2)]
  have p: "bit pad k \<longleftrightarrow> (if k < bw_bits w then bit (bw_pad w) k else bit v (k - bw_bits w))" for k
  proof -
    have "k < 32" if "bit v (k - bw_bits w)"
    proof -
      have "\<not> 7 \<le> k - bw_bits w" using h [of "k - bw_bits w"] that by blast
      then show ?thesis using assms(1) unfolding writer_ok_def by linarith
    qed
    then show ?thesis using assms(1) by (auto simp: pad_def bit_simps writer_ok_def)
  qed
  have out: "\<not> bit pad k" if "bw_bits w + 7 \<le> k" for k using p [of k] h that by auto
  show "bw_offset (bwriter_add7 w v) = bw_offset w + 7" "writer_len (bwriter_add7 w v) = writer_len w + 7"
    by (simp_all add: bwriter_add7_def writer_len_def Let_def)
  show "writer_ok (bwriter_add7 w v)"
    using assms(1) out by (auto simp: bwriter_add7_def writer_ok_def Let_def pad_def [symmetric] bit_simps)
  show "writer_bit (bwriter_add7 w v) n = (if n < writer_len w then writer_bit w n else bit v (n - writer_len w))"
  proof (cases "1 \<le> bw_bits w")
    case False
    then show ?thesis using p by (auto simp: bwriter_add7_def writer_bit_def writer_len_def Let_def pad_def [symmetric])
  next
    case True
    define m where "m = length (bw_out w)"
    have b: "stream_bit (bw_out w @ [ucast pad]) n = (if n < 8 * m then stream_bit (bw_out w) n else bit pad (n - 8 * m))" if "n < 8 * Suc m"
    proof (cases "n < 8 * m")
      case False
      then have "n div 8 = m" "n mod 8 = n - 8 * m" "n - 8 * m < 8" using that in_byte [of m n] by simp_all
      then show ?thesis using that False by (simp add: stream_bit_def m_def nth_append bit_simps)
    qed (auto simp: stream_bit_def m_def nth_append)
    have d: "bit (drop_bit 8 pad) (n - 8 * Suc m) = bit pad (n - 8 * m)" if "8 * Suc m \<le> n"
    proof -
      have "8 + (n - 8 * Suc m) = n - 8 * m" using that by simp
      then show ?thesis by (simp add: bit_drop_bit_eq)
    qed
    have "writer_bit (bwriter_add7 w v) n = (if n < 8 * Suc m then stream_bit (bw_out w @ [ucast pad]) n else bit (drop_bit 8 pad) (n - 8 * Suc m))"
      using True by (simp add: bwriter_add7_def writer_bit_def Let_def pad_def [symmetric] m_def)
    also have "\<dots> = (if n < 8 * m then stream_bit (bw_out w) n else bit pad (n - 8 * m))" using b d by (simp add: not_less)
    also have "\<dots> = (if n < writer_len w then writer_bit w n else bit v (n - writer_len w))"
      using p [of "n - 8 * m"] by (auto simp: writer_bit_def writer_len_def m_def)
    finally show ?thesis .
  qed
qed


lemma bwriter_init_ok: "writer_ok (bwriter_init dst0 start)" "writer_len (bwriter_init dst0 start) = start mod 8" "bw_offset (bwriter_init dst0 start) = start"
proof -
  have f: "\<not> bit (ucast dst0 AND NOT (push_bit k 0xff) :: u32) n" if "k \<le> n" for k n
  proof -
    have m: "(0xff :: u32) = mask 8" by (simp add: mask_eq_exp_minus_1)
    show ?thesis unfolding m using that bit_imp_le_length [of dst0 n] by (auto simp: bit_simps)
  qed
  show "writer_ok (bwriter_init dst0 start)" "writer_len (bwriter_init dst0 start) = start mod 8" "bw_offset (bwriter_init dst0 start) = start"
    using f by (auto simp: bwriter_init_def writer_ok_def writer_len_def Let_def)
qed

lemma writer_fold:
  assumes "writer_ok w" and "\<forall>v \<in> set vs. unat v < 128"
  shows "writer_ok (foldl bwriter_add7 w vs) \<and> writer_len (foldl bwriter_add7 w vs) = writer_len w + 7 * length vs \<and>
    bw_offset (foldl bwriter_add7 w vs) = bw_offset w + 7 * length vs \<and>
    (\<forall>n < writer_len w. writer_bit (foldl bwriter_add7 w vs) n = writer_bit w n) \<and>
    (\<forall>i < length vs. \<forall>j < 7. writer_bit (foldl bwriter_add7 w vs) (writer_len w + 7 * i + j) = bit (vs ! i) j)"
  using assms
proof (induction vs rule: rev_induct)
  case (snoc v vs)
  define f where "f = foldl bwriter_add7 w vs"
  have IH: "writer_ok f" "writer_len f = writer_len w + 7 * length vs" "bw_offset f = bw_offset w + 7 * length vs"
    "\<forall>n < writer_len w. writer_bit f n = writer_bit w n" "\<forall>i < length vs. \<forall>j < 7. writer_bit f (writer_len w + 7 * i + j) = bit (vs ! i) j"
    using snoc by (auto simp: f_def)
  have v: "unat v < 128" using snoc.prems by simp
  note a = writer_add7 [OF IH(1) v]
  have "writer_bit (bwriter_add7 f v) (writer_len w + 7 * i + j) = bit ((vs @ [v]) ! i) j" if ij: "i < Suc (length vs)" "j < 7" for i j
  proof (cases "i < length vs")
    case True
    then have "writer_len w + 7 * i + j < writer_len f" using ij IH(2) by simp
    then show ?thesis using a(4) IH(5) True ij by (simp add: nth_append)
  next
    case False
    then have "i = length vs" using ij by simp
    then show ?thesis using a(4) IH(2) by (simp add: nth_append)
  qed
  moreover have "\<forall>n < writer_len w. writer_bit (bwriter_add7 f v) n = writer_bit w n" using a(4) IH(2,4) by simp
  ultimately show ?case using a(1-3) IH(2,3) by (simp add: f_def)
qed simp

lemma done_bits:
  assumes "writer_ok w" and "n < writer_len w"
  shows "stream_bit (fst (bwriter_done w)) n = writer_bit w n" and "n div 8 < length (fst (bwriter_done w))"
proof -
  have b: "n div 8 = length (bw_out w) \<and> n mod 8 = n - 8 * length (bw_out w) \<and> 0 < bw_bits w \<and> n - 8 * length (bw_out w) < 8" if "\<not> n < 8 * length (bw_out w)"
  proof -
    have "n < 8 * length (bw_out w) + 8" "0 < bw_bits w" using assms that by (auto simp: writer_len_def writer_ok_def)
    then show ?thesis using that in_byte [of "length (bw_out w)" n] by simp
  qed
  show "stream_bit (fst (bwriter_done w)) n = writer_bit w n"
  proof (cases "n < 8 * length (bw_out w)")
    case True
    then have "n div 8 < length (bw_out w)" by (simp add: div_less_iff_less_mult mult.commute)
    then show ?thesis using True by (auto simp: bwriter_done_def writer_bit_def stream_bit_def nth_append)
  next
    case False
    then show ?thesis using b by (auto simp: bwriter_done_def writer_bit_def stream_bit_def nth_append bit_simps)
  qed
  show "n div 8 < length (fst (bwriter_done w))"
  proof (cases "n < 8 * length (bw_out w)")
    case True
    then show ?thesis by (auto simp: bwriter_done_def)
  next
    case False
    then show ?thesis using b by (auto simp: bwriter_done_def)
  qed
qed

lemma septet_bits:
  assumes "(pos + 6) div 8 < length src" and "unat v < 128" and "\<And>j. j < 7 \<Longrightarrow> stream_bit src (pos + j) = bit v j"
  shows "get_septet src pos = Inr v"
proof -
  define i where "i = pos div 8"
  define k where "k = pos mod 8"
  have pos: "pos = 8 * i + k" "k < 8" by (simp_all add: i_def k_def)
  have m: "(0x7f :: u32) = mask 7" by (simp add: mask_eq_exp_minus_1)
  have i1: "i < length src" using assms(1) by (simp add: i_def)
  have i2: "i + 1 < length src" if "1 < k"
  proof -
    have p: "pos + 6 = 8 * (i + 1) + (k - 2)" using that by (simp add: pos(1))
    show ?thesis using assms(1) byte_index [of "k - 2" "i + 1"] pos(2) unfolding p by simp
  qed
  have low: "stream_bit src (pos + j) = bit (src ! i) (k + j)" if "k + j < 8" for j
  proof -
    have p: "pos + j = 8 * i + (k + j)" by (simp add: pos(1))
    show ?thesis unfolding stream_bit_def p using byte_index [OF that, of i] by (simp only:)
  qed
  have high: "stream_bit src (pos + j) = bit (src ! (i + 1)) (k + j - 8)" if "8 \<le> k + j" "j < 7" for j
  proof -
    have p: "pos + j = 8 * (i + 1) + (k + j - 8)" using that by (simp add: pos(1))
    have "k + j - 8 < 8" using that pos(2) by linarith
    then show ?thesis unfolding stream_bit_def p using byte_index [of "k + j - 8" "i + 1"] by (simp only:)
  qed
  define c :: u32 where "c = (if 1 < k then (push_bit (8 - k) (ucast (src ! (i + 1))) OR (drop_bit k (ucast (src ! i)) AND 0x7f)) AND 0x7f
    else drop_bit k (ucast (src ! i)) AND 0x7f)"
  have "get_septet src pos = Inr c" using i1 i2 by (auto simp: get_septet_def Let_def i_def [symmetric] k_def [symmetric] c_def)
  moreover have "c = v"
  proof (rule bit_word_eqI)
    fix j :: nat assume "j < LENGTH(32)"
    show "bit c j = bit v j"
    proof (cases "j < 7")
      case False
      then show ?thesis using septet_high [OF assms(2), of j] by (simp add: c_def m bit_simps)
    next
      case True
      have l: "bit (src ! i) (k + j) = False" if "8 \<le> k + j" using bit_imp_le_length [of "src ! i" "k + j"] that by auto
      have "bit c j = (if k + j < 8 then bit (src ! i) (k + j) else bit (src ! (i + 1)) (k + j - 8))"
        using True l pos(2) by (auto simp: c_def m bit_simps add.commute)
      then show ?thesis using low high assms(3) [OF True] True by (cases "k + j < 8") auto
    qed
  qed
  ultimately show ?thesis by simp
qed


section \<open>Text in the GSM alphabet\<close>

lemma find_code_Some: "find_code table c = Some nn \<Longrightarrow> nn < 128 \<and> table ! nn = c"
  by (auto simp: find_code_def find_Some_iff)

lemma codes_septets: "v \<in> set (gsm7_codes c) \<Longrightarrow> unat v < 128"
proof -
  have n: "unat (of_nat nn :: u32) < 128" if "nn < 128" for nn using that by (simp add: unat_of_nat)
  show "v \<in> set (gsm7_codes c) \<Longrightarrow> unat v < 128"
    using n by (auto simp: gsm7_codes_def unichar_to_gsm7_def unichar_to_gsm7_extend_def GSM_7BITS_ESCAPE_def split: option.splits
      dest: find_code_Some)
qed

lemma codes_count: "length (gsm7_codes c) = (if unichar_to_gsm7_count c = 0 then 1 else unichar_to_gsm7_count c)"
  by (auto simp: gsm7_codes_def unichar_to_gsm7_count_def split: option.splits)

lemma utf8_to_gsm7_septets:
  defines "vs utf8 \<equiv> concat (map gsm7_codes (utf8_chars utf8))"
  shows "utf8_to_gsm7_count utf8 = length (vs utf8)" and "snd (utf8_to_gsm7 utf8 dst0 off) = off + 7 * length (vs utf8)"
    and "i < length (vs utf8) \<Longrightarrow> get_septet (fst (utf8_to_gsm7 utf8 dst0 off)) (off mod 8 + 7 * i) = Inr (vs utf8 ! i)"
proof -
  show "utf8_to_gsm7_count utf8 = length (vs utf8)"
    unfolding vs_def utf8_to_gsm7_count_def by (simp add: length_concat o_def codes_count)
  define w where "w = foldl bwriter_add7 (bwriter_init dst0 off) (vs utf8)"
  have small: "\<forall>v \<in> set (vs utf8). unat v < 128" using codes_septets by (auto simp: vs_def)
  note f = writer_fold [OF bwriter_init_ok(1) [of dst0 off] small, folded w_def, unfolded bwriter_init_ok]
  have g: "utf8_to_gsm7 utf8 dst0 off = bwriter_done w" by (simp add: utf8_to_gsm7_def w_def vs_def)
  show "snd (utf8_to_gsm7 utf8 dst0 off) = off + 7 * length (vs utf8)" unfolding g using f by (simp add: bwriter_done_def)
  assume i: "i < length (vs utf8)"
  have l: "off mod 8 + 7 * i + j < writer_len w" if "j < 7" for j using f i that by simp
  have b: "stream_bit (fst (bwriter_done w)) (off mod 8 + 7 * i + j) = bit (vs utf8 ! i) j" if "j < 7" for j
    using done_bits(1) [of w "off mod 8 + 7 * i + j"] f i l [OF that] that by simp
  have "(off mod 8 + 7 * i + 6) div 8 < length (fst (bwriter_done w))" using done_bits(2) [of w "off mod 8 + 7 * i + 6"] f l [of 6] by simp
  moreover have "unat (vs utf8 ! i) < 128" using small i by simp
  ultimately show "get_septet (fst (utf8_to_gsm7 utf8 dst0 off)) (off mod 8 + 7 * i) = Inr (vs utf8 ! i)"
    unfolding g using b by (intro septet_bits)
qed

lemma utf8_to_gsm7_length: "pad < 8 \<Longrightarrow> length (fst (utf8_to_gsm7 utf8 dst0 pad)) = (utf8_to_gsm7_count utf8 * 7 + pad + 7) div 8"
proof -
  assume "pad < 8"
  define vs where "vs = concat (map gsm7_codes (utf8_chars utf8))"
  define w where "w = foldl bwriter_add7 (bwriter_init dst0 pad) vs"
  have small: "\<forall>v \<in> set vs. unat v < 128" using codes_septets by (auto simp: vs_def)
  note f = writer_fold [OF bwriter_init_ok(1) [of dst0 pad] small, folded w_def, unfolded bwriter_init_ok]
  have "8 * length (bw_out w) + bw_bits w = pad + 7 * length vs" "bw_bits w < 8"
    using f \<open>pad < 8\<close> by (auto simp: writer_len_def writer_ok_def)
  moreover have "utf8_to_gsm7_count utf8 = length vs" by (simp add: utf8_to_gsm7_septets(1) vs_def)
  ultimately have n: "utf8_to_gsm7_count utf8 * 7 + pad + 7 = 8 * length (bw_out w) + (bw_bits w + 7)" by simp
  have "(8 * length (bw_out w) + (bw_bits w + 7)) div 8 = length (bw_out w) + (if 0 < bw_bits w then 1 else 0)"
  proof (cases "0 < bw_bits w")
    case True
    then have "8 * length (bw_out w) + (bw_bits w + 7) = 8 * (length (bw_out w) + 1) + (bw_bits w - 1)" by simp
    then show ?thesis using True \<open>bw_bits w < 8\<close> byte_index [of "bw_bits w - 1" "length (bw_out w) + 1"] by simp
  qed simp
  then show ?thesis unfolding n by (simp add: utf8_to_gsm7_def vs_def [symmetric] w_def [symmetric] bwriter_done_def)
qed

lemma gsm7_loop_plain:
  assumes "\<And>i. i < length vs \<Longrightarrow> get_septet src (pos + 7 * i) = Inr (vs ! i)" and "\<forall>v \<in> set vs. v \<noteq> GSM_7BITS_ESCAPE"
  shows "gsm7_loop src pos (length vs) False = Inr (concat (map (\<lambda>v. utf8_write (gsm7bits_to_unicode ! unat v)) vs))"
  using assms
proof (induction vs arbitrary: pos)
  case (Cons v vs)
  have "get_septet src pos = Inr v" using Cons.prems(1) [of 0] by simp
  moreover have "gsm7_loop src (pos + 7) (length vs) False = Inr (concat (map (\<lambda>v. utf8_write (gsm7bits_to_unicode ! unat v)) vs))"
  proof (rule Cons.IH)
    show "get_septet src (pos + 7 + 7 * i) = Inr (vs ! i)" if "i < length vs" for i
      using Cons.prems(1) [of "Suc i"] that by (simp add: algebra_simps)
  qed (use Cons.prems(2) in auto)
  ultimately show ?case using Cons.prems(2) by simp
qed simp

definition gsm7_plain :: "u32 \<Rightarrow> bool" where
  "gsm7_plain c \<longleftrightarrow> c \<noteq> 0 \<and> unichar_to_gsm7 c \<noteq> None"

lemma gsm7_table: "\<forall>c \<in> set gsm7bits_to_unicode. c < 0x200000" "gsm7bits_to_unicode ! 27 = 0" "length gsm7bits_to_unicode = 128"
  by (simp_all add: gsm7bits_to_unicode_def)

lemma plain_code:
  assumes "gsm7_plain c"
  shows "\<exists>v. gsm7_codes c = [v] \<and> v \<noteq> GSM_7BITS_ESCAPE \<and> gsm7bits_to_unicode ! unat v = c \<and> c < 0x200000"
proof -
  obtain nn where nn: "unichar_to_gsm7 c = Some nn" "nn < 128" "gsm7bits_to_unicode ! nn = c"
    using assms find_code_Some [of gsm7bits_to_unicode c] by (auto simp: gsm7_plain_def unichar_to_gsm7_def)
  have u: "unat (of_nat nn :: u32) = nn" using nn(2) by (simp add: unat_of_nat)
  have "of_nat nn \<noteq> GSM_7BITS_ESCAPE"
  proof
    assume "of_nat nn = GSM_7BITS_ESCAPE"
    then have "nn = 27" using u by (simp add: GSM_7BITS_ESCAPE_def)
    then show False using nn(3) gsm7_table(2) assms by (simp add: gsm7_plain_def)
  qed
  moreover have "c < 0x200000" using nn(2,3) gsm7_table(1,3) nth_mem [of nn gsm7bits_to_unicode] by auto
  ultimately show ?thesis using nn u by (simp add: gsm7_codes_def)
qed

lemma plain_codes:
  "\<forall>c \<in> set cs. gsm7_plain c \<Longrightarrow> length (concat (map gsm7_codes cs)) = length cs \<and> (\<forall>v \<in> set (concat (map gsm7_codes cs)). v \<noteq> GSM_7BITS_ESCAPE) \<and>
    concat (map (\<lambda>v. utf8_write (gsm7bits_to_unicode ! unat v)) (concat (map gsm7_codes cs))) = concat (map utf8_write cs) \<and> (\<forall>c \<in> set cs. c < 0x200000)"
proof (induction cs)
  case (Cons c cs)
  then obtain v where "gsm7_codes c = [v]" "v \<noteq> GSM_7BITS_ESCAPE" "gsm7bits_to_unicode ! unat v = c" "c < 0x200000" using plain_code [of c] by auto
  then show ?case using Cons by auto
qed simp

lemma gsm7_text:
  assumes "\<forall>c \<in> set cs. gsm7_plain c"
  defines "u \<equiv> concat (map utf8_write cs)"
  shows "utf8_to_gsm7_count u = length cs" and "snd (utf8_to_gsm7 u dst0 off) = off + 7 * length cs"
    and "utf8_from_gsm7 (fst (utf8_to_gsm7 u dst0 off)) (off mod 8) (length cs) = Inr u"
proof -
  note p = plain_codes [OF assms(1)]
  have ch: "utf8_chars u = cs" unfolding u_def using p by (intro chars_write) auto
  have s: "utf8_to_gsm7_count u = length (concat (map gsm7_codes cs))" "snd (utf8_to_gsm7 u dst0 off) = off + 7 * length (concat (map gsm7_codes cs))"
    "\<And>i. i < length (concat (map gsm7_codes cs)) \<Longrightarrow> get_septet (fst (utf8_to_gsm7 u dst0 off)) (off mod 8 + 7 * i) = Inr (concat (map gsm7_codes cs) ! i)"
    by (simp_all add: utf8_to_gsm7_septets ch)
  show "utf8_to_gsm7_count u = length cs" "snd (utf8_to_gsm7 u dst0 off) = off + 7 * length cs"
    using p by (simp_all add: s)
  show "utf8_from_gsm7 (fst (utf8_to_gsm7 u dst0 off)) (off mod 8) (length cs) = Inr u"
    using gsm7_loop_plain [of "concat (map gsm7_codes cs)" "fst (utf8_to_gsm7 u dst0 off)" "off mod 8"] p s(3)
    by (simp add: utf8_from_gsm7_def u_def)
qed

text \<open>C17: Text over the basic GSM alphabet survives packing into septets: a string of characters of the basic table, packed by
  \<open>utf8_to_gsm7\<close> at any bit offset of a buffer whose first byte already holds bits below that offset, is read back unchanged by
  \<open>utf8_from_gsm7\<close> from the same offset; the counting call of the encoder announces exactly the number of characters, and the encoder stops
  seven bits per character after the offset.\<close>

theorem gsm7_text_roundtrip:
  assumes "\<forall>c \<in> set cs. gsm7_plain c"
  shows "utf8_to_gsm7_count (concat (map utf8_write cs)) = length cs \<and>
    snd (utf8_to_gsm7 (concat (map utf8_write cs)) dst0 off) = off + 7 * length cs \<and>
    utf8_from_gsm7 (fst (utf8_to_gsm7 (concat (map utf8_write cs)) dst0 off)) (off mod 8) (length cs) = Inr (concat (map utf8_write cs))"
  using gsm7_text [OF assms] by blast

theorem gsm7_text_roundtrip_witness:
  "utf8_from_gsm7 (fst (utf8_to_gsm7 (concat (map utf8_write [0x48, 0x69, 0x3a9])) 0 1)) 1 3 = Inr [0x48, 0x69, 0xce, 0xa9]"
proof -
  have "\<forall>c \<in> set [0x48, 0x69, 0x3a9 :: u32]. gsm7_plain c"
    by (simp add: gsm7_plain_def unichar_to_gsm7_def find_code_def gsm7bits_to_unicode_def upt_conv_Cons)
  from gsm7_text_roundtrip [OF this, of 0 1] show ?thesis by (simp add: utf8_write_def numeral_3_eq_3)
qed

section \<open>Where the conversions differ from their purpose\<close>

theorem escape_sticks:
  "utf8_from_gsm7 (fst (utf8_to_gsm7 [0x7b, 0x41] 0 0)) 0 3 = Inr [0x7b, 0]"
  "utf8_from_gsm8 (utf8_to_gsm8 [0x7b, 0x41]) = [0x7b, 0]"
  by code_simp+

theorem bcdi_wrong: "gsm_int_to_bcdi 12 = 0x21" "gsm_int_from_bcdi 0x21 = 30"
  by code_simp+

theorem utf8_to_gsm7_units: "utf8_to_gsm7_count [0x41] = 1" "snd (utf8_to_gsm7 [0x41] 0 0) = 7"
  by code_simp+

theorem ucs2_to_gsm7_bytes: "ucs2_to_gsm8 [0, 0x41] = [0x1b, 0x41]"
  by code_simp

theorem ucs2_from_gsm7_stuck: "ucs2_from_gsm7 [0x41, 0x21] 0 2 = Inr [0, 0x20, 0, 0x20]"
  by code_simp

text \<open>The loop over a packed number never decrements its count, so it only ends at the end of the buffer.\<close>

lemma bcdnum_loop_runs: "count \<noteq> 1 \<Longrightarrow> bcdnum_loop bcd count high = Inl Undefined"
  by (induction bcd count high rule: bcdnum_loop.induct) (auto simp: Let_def)

theorem bcdnum_never_stops: "1 < count \<Longrightarrow> gsm_bcdnum_to_ascii bcd count = Inl Undefined"
  by (simp add: gsm_bcdnum_to_ascii_def bcdnum_loop_runs)

theorem bcdnum_misplaced: "map_option (\<lambda>(n, d). (n, window d 0 2)) (gsm_bcdnum_from_ascii [0x31, 0x32] (\<lambda>_. 0)) = Some (2, [0, 0x12])"
  by code_simp

end
