(* ===== verification/Sim_Adn.thy ===== *)
theory Sim_Adn
  imports Gsm
begin

text \<open>
  Phone book records of the SIM card, the end of \<open>android/telephony/gsm.c\<close>: the alphabetic tag in its three encodings, and the record with its
  footer of 14 bytes. A record that cannot be read is \<open>None\<close>.
\<close>

section \<open>Operations\<close>

definition ADN_FOOTER_SIZE :: nat where "ADN_FOOTER_SIZE = 14"
definition SIM_ADN_MAX_ALPHA :: nat where "SIM_ADN_MAX_ALPHA = 20"
definition SIM_ADN_MAX_NUMBER :: nat where "SIM_ADN_MAX_NUMBER = 20"

function adn_ucs2_loop :: "u32 \<Rightarrow> u8 list \<Rightarrow> u8 list" where
  "adn_ucs2_loop base [] = []"
| "adn_ucs2_loop base (c # alpha) =
     (if 0x80 \<le> c then utf8_write (base + ucast (c AND 0x7f)) @ adn_ucs2_loop base alpha
      else utf8_from_gsm8 (takeWhile (\<lambda>b. b < 128) (c # alpha)) @ adn_ucs2_loop base (dropWhile (\<lambda>b. b < 128) (c # alpha)))"
  by pat_completeness auto
termination
  by (relation "measure (length \<circ> snd)") (auto simp: less_Suc_eq_le length_dropWhile_le not_le)

definition sim_adn_alpha_to_utf8 :: "u8 list \<Rightarrow> u8 list res" where
  "sim_adn_alpha_to_utf8 src =
     (let alpha = rev (dropWhile (\<lambda>b. b = 0xff) (rev src))
      in case alpha of
           [] \<Rightarrow> Inr []
         | t # rest \<Rightarrow>
             if t = 0x80 then ucs2_to_utf8 rest (length rest div 2)
             else if 3 \<le> length alpha \<and> t = 0x81 then
               (let body = drop 3 alpha in Inr (adn_ucs2_loop (push_bit 7 (ucast (alpha ! 2))) (take (unat (alpha ! 1)) body)))
             else if 4 \<le> length alpha \<and> t = 0x82 then
               (let body = drop 4 alpha in Inr (adn_ucs2_loop (push_bit 8 (ucast (alpha ! 2)) OR ucast (alpha ! 3)) (take (unat (alpha ! 1)) body)))
             else Inr (utf8_from_gsm8 alpha))"

record SimAdnRecordRec =
  adn_alpha :: "u8 list"
  adn_number :: "u8 list"
  adn_ext_record :: u8

definition adn_number_field :: "u8 list \<Rightarrow> u8 list option res" where
  "adn_number_field footer =
     (let num_len = unat (footer ! 0); ton = footer ! 1
      in if 11 < num_len then Inr None
         else if ton \<noteq> 0x81 \<and> ton \<noteq> 0x91 then Inr None
         else res_bind (gsm_bcdnum_to_ascii (drop 2 footer) (num_len * 2)) (\<lambda>ds. Inr (Some ((if ton = 0x91 then [0x2b] else []) @ ds))))"

definition sim_adn_record_from_bytes :: "u8 list \<Rightarrow> SimAdnRecordRec option res" where
  "sim_adn_record_from_bytes data =
     (if length data < ADN_FOOTER_SIZE then Inr None
      else let n = length data - ADN_FOOTER_SIZE; footer = drop n data
           in res_bind (if 0 < n then sim_adn_alpha_to_utf8 (take n data) else Inr []) (\<lambda>alpha.
              if 3 * SIM_ADN_MAX_ALPHA < length alpha then Inr None
              else res_bind (adn_number_field footer) (\<lambda>number.
                Inr (map_option (\<lambda>ds. \<lparr>adn_alpha = alpha, adn_number = ds, adn_ext_record = 0xff\<rparr>) number))))"

definition sim_adn_record_to_bytes :: "SimAdnRecordRec \<Rightarrow> u8 list \<Rightarrow> u8 list res" where
  "sim_adn_record_to_bytes rec data =
     (if length data < ADN_FOOTER_SIZE then Inl Undefined
      else let number = (case adn_number rec of c # ds \<Rightarrow> if c = 0x2b then ds else c # ds | [] \<Rightarrow> [])
           in Inr (data[length data - ADN_FOOTER_SIZE := of_nat ((length number + 1) div 2 + 1)]))"

section \<open>What a record gives\<close>

lemma strip_padding: "xs \<noteq> [] \<Longrightarrow> last xs \<noteq> 0xff \<Longrightarrow> rev (dropWhile (\<lambda>b. b = 0xff) (rev (xs @ replicate n 0xff))) = (xs :: u8 list)"
proof -
  assume "xs \<noteq> []" "last xs \<noteq> 0xff"
  then obtain ys b where "xs = ys @ [b]" "b \<noteq> 0xff" by (metis append_butlast_last_id)
  moreover have "dropWhile (\<lambda>b. b = 0xff) (replicate n 0xff @ b # rev ys) = b # rev ys" if "b \<noteq> 0xff" using that by (induction n) auto
  ultimately show ?thesis by simp
qed

text \<open>A tag in the big-endian UCS-2 form, padded to its field, is read as its characters.\<close>

theorem adn_ucs2_tag:
  assumes "length ucs2 = 2 * n" and "0 < n" and "last ucs2 \<noteq> 0xff"
  shows "\<exists>u. sim_adn_alpha_to_utf8 ((0x80 # ucs2) @ replicate k 0xff) = Inr u \<and> utf8_to_ucs2 u = ucs2"
proof -
  have "ucs2 \<noteq> []" using assms(1,2) by auto
  then have s: "rev (dropWhile (\<lambda>b. b = 0xff) (rev ((0x80 # ucs2) @ replicate k 0xff))) = 0x80 # ucs2"
    using assms(3) by (intro strip_padding) simp_all
  show ?thesis unfolding sim_adn_alpha_to_utf8_def s using ucs2_roundtrip [OF assms(1)] assms(1) by (simp add: Let_def)
qed

text \<open>A record with a number cannot be read: the conversion of the number runs past the record.\<close>

theorem adn_number_runs_away:
  assumes "14 \<le> length data" and "sim_adn_alpha_to_utf8 (take (length data - 14) data) = Inr alpha" and "length alpha \<le> 60"
    and "0 < data ! (length data - 14)" and "data ! (length data - 14) \<le> 11" and "data ! (length data - 13) = 0x81"
  shows "sim_adn_record_from_bytes data = Inl Undefined"
proof -
  define n where "n = length data - 14"
  have "n < length data" "Suc n = length data - 13" using assms(1) by (simp_all add: n_def)
  then have f: "drop n data ! 0 = data ! n" "drop n data ! 1 = data ! (length data - 13)" by simp_all
  have "1 < unat (data ! n) * 2" "unat (data ! n) \<le> 11" using assms(4,5) by (simp_all add: n_def word_less_nat_alt word_le_nat_alt)
  then have "adn_number_field (drop n data) = Inl Undefined"
    unfolding adn_number_field_def Let_def f using assms(6) bcdnum_loop_runs by (simp add: gsm_bcdnum_to_ascii_def)
  then show ?thesis using assms(1-3) by (cases "length data = 14") (simp_all add: sim_adn_record_from_bytes_def ADN_FOOTER_SIZE_def SIM_ADN_MAX_ALPHA_def Let_def n_def)
qed

end
