(* ===== verification/Gsm_Rope.thy ===== *)
theory Gsm_Rope
  imports Gsm
begin

text \<open>
  Byte ropes of \<open>android/telephony/gsm.c\<close>: a growing buffer that first lives inside the rope record (\<open>data0\<close>, 16 bytes), then on the
  heap. A rope without a buffer only counts, which lets the same code first measure and then write a message. A byte of a buffer is
  \<open>None\<close> while it is uninitialised. Whether an allocation of a number of bytes succeeds is the parameter \<open>alloc\<close>.
\<close>

section \<open>Operations\<close>

datatype rope_data = Null | Data0 "u8 option list" | Heap "u8 option list"

record GsmRope =
  rp_data :: rope_data
  rp_pos :: nat
  rp_max :: nat
  rp_error :: bool

definition gsm_rope_init :: GsmRope where
  "gsm_rope_init = \<lparr>rp_data = Null, rp_pos = 0, rp_max = 0, rp_error = False\<rparr>"

definition gsm_rope_init_alloc :: "(nat \<Rightarrow> bool) \<Rightarrow> nat \<Rightarrow> GsmRope" where
  "gsm_rope_init_alloc alloc count =
     (if 0 < count
      then if alloc count then \<lparr>rp_data = Heap (replicate count (Some 0)), rp_pos = 0, rp_max = count, rp_error = False\<rparr>
           else \<lparr>rp_data = Null, rp_pos = 0, rp_max = 0, rp_error = True\<rparr>
      else \<lparr>rp_data = Data0 (replicate 16 None), rp_pos = 0, rp_max = 16, rp_error = False\<rparr>)"

definition gsm_rope_done :: "GsmRope \<Rightarrow> bool \<times> GsmRope" where
  "gsm_rope_done rope = (rp_error rope, gsm_rope_init)"

definition gsm_rope_done_acquire :: "(nat \<Rightarrow> bool) \<Rightarrow> GsmRope \<Rightarrow> (u8 option list option \<times> nat) res" where
  "gsm_rope_done_acquire alloc rope =
     (case rp_data rope of
        Null \<Rightarrow> Inr (None, rp_pos rope)
      | Heap b \<Rightarrow> Inr (Some b, rp_pos rope)
      | Data0 b \<Rightarrow> if alloc (rp_pos rope)
          then if length b < rp_pos rope then Inl Undefined else Inr (Some (take (rp_pos rope) b), rp_pos rope)
          else Inr (None, rp_pos rope))"

function grow_max :: "nat \<Rightarrow> nat \<Rightarrow> nat" where
  "grow_max new_max new_count = (if new_max < new_count then grow_max (new_max + (new_max div 2 + 4)) new_count else new_max)"
  by pat_completeness auto
termination by (relation "measure (\<lambda>(m, c). c - m)") auto

declare grow_max.simps [simp del]

definition gsm_rope_ensure :: "(nat \<Rightarrow> bool) \<Rightarrow> GsmRope \<Rightarrow> nat \<Rightarrow> GsmRope \<times> bool" where
  "gsm_rope_ensure alloc rope new_count =
     (case rp_data rope of
        Null \<Rightarrow> (rope\<lparr>rp_max := new_count\<rparr>, True)
      | d \<Rightarrow>
        let new_max = grow_max (rp_max rope) new_count;
            old = (case d of Heap b \<Rightarrow> b | _ \<Rightarrow> [])
        in if alloc new_max
           then (rope\<lparr>rp_data := Heap (take new_max old @ replicate (new_max - length old) None), rp_max := new_max\<rparr>, True)
           else (rope\<lparr>rp_error := True\<rparr>, False))"

definition gsm_rope_can_grow :: "(nat \<Rightarrow> bool) \<Rightarrow> GsmRope \<Rightarrow> nat \<Rightarrow> GsmRope \<times> bool" where
  "gsm_rope_can_grow alloc rope count =
     (if rp_data rope = Null \<or> rp_error rope then (rope, False)
      else if rp_max rope < rp_pos rope + count then gsm_rope_ensure alloc rope (rp_pos rope + count)
      else (rope, True))"

definition overwrite :: "'a list \<Rightarrow> nat \<Rightarrow> 'a list \<Rightarrow> 'a list" where
  "overwrite b off xs = take off b @ xs @ drop (off + length xs) b"

fun rope_buf :: "GsmRope \<Rightarrow> u8 option list" where
  "rope_buf rope = (case rp_data rope of Null \<Rightarrow> [] | Data0 b \<Rightarrow> b | Heap b \<Rightarrow> b)"

text \<open>A write through a pointer into the buffer.\<close>

definition rope_poke :: "GsmRope \<Rightarrow> nat \<Rightarrow> u8 list \<Rightarrow> GsmRope" where
  "rope_poke rope off bs =
     (case rp_data rope of
        Null \<Rightarrow> rope
      | Data0 b \<Rightarrow> rope\<lparr>rp_data := Data0 (overwrite b off (map Some bs))\<rparr>
      | Heap b \<Rightarrow> rope\<lparr>rp_data := Heap (overwrite b off (map Some bs))\<rparr>)"

definition rope_advance :: "GsmRope \<Rightarrow> nat \<Rightarrow> GsmRope" where
  "rope_advance rope n = rope\<lparr>rp_pos := rp_pos rope + n\<rparr>"

definition gsm_rope_add_c :: "(nat \<Rightarrow> bool) \<Rightarrow> GsmRope \<Rightarrow> u8 \<Rightarrow> GsmRope" where
  "gsm_rope_add_c alloc rope c =
     (let (r, ok) = gsm_rope_can_grow alloc rope 1
      in rope_advance (if ok then rope_poke r (rp_pos r) [c] else r) 1)"

text \<open>The source of the copy is given by the bytes that can be read there.\<close>

definition gsm_rope_add :: "(nat \<Rightarrow> bool) \<Rightarrow> GsmRope \<Rightarrow> u8 list \<Rightarrow> nat \<Rightarrow> GsmRope res" where
  "gsm_rope_add alloc rope buf buflen =
     (let (r, ok) = gsm_rope_can_grow alloc rope buflen
      in if \<not> ok then Inr (rope_advance r buflen)
         else if length buf < buflen then Inl Undefined
         else Inr (rope_advance (rope_poke r (rp_pos r) (take buflen buf)) buflen))"

definition gsm_rope_reserve :: "(nat \<Rightarrow> bool) \<Rightarrow> GsmRope \<Rightarrow> nat \<Rightarrow> GsmRope \<times> nat option" where
  "gsm_rope_reserve alloc rope count =
     (let (r, ok) = gsm_rope_can_grow alloc rope count
      in (rope_advance r count, if ok \<and> rp_data r \<noteq> Null then Some (rp_pos r) else None))"

section \<open>Measuring and writing\<close>

text \<open>
  What a writer may rely on, whether the rope only counts or has a buffer of \<open>cap\<close> bytes: \<open>emits r bs\<close> says that the bytes \<open>bs\<close> have gone
  into the rope. A reserved range is filled by a function of the byte it starts at.
\<close>

definition rope_fill :: "GsmRope \<times> nat option \<Rightarrow> (u8 option \<Rightarrow> u8 list res) \<Rightarrow> GsmRope res" where
  "rope_fill rd f =
     (case snd rd of
        None \<Rightarrow> Inr (fst rd)
      | Some off \<Rightarrow>
        res_bind (f (if off < length (rope_buf (fst rd)) then rope_buf (fst rd) ! off else None)) (\<lambda>bs. Inr (rope_poke (fst rd) off bs)))"

definition rope_or_last :: "GsmRope \<Rightarrow> u8 \<Rightarrow> GsmRope res" where
  "rope_or_last rope m =
     (if rp_error rope \<or> rp_data rope = Null then Inr rope
      else if rp_pos rope = 0 \<or> length (rope_buf rope) < rp_pos rope then Inl Undefined
      else case rope_buf rope ! (rp_pos rope - 1) of
             None \<Rightarrow> Inl Undefined
           | Some b \<Rightarrow> Inr (rope_poke rope (rp_pos rope - 1) [b OR m]))"

locale rope_sink =
  fixes alloc :: "nat \<Rightarrow> bool" and emits :: "GsmRope \<Rightarrow> u8 list \<Rightarrow> bool" and cap :: nat
  assumes emits_add_c: "emits r bs \<Longrightarrow> length bs < cap \<Longrightarrow> emits (gsm_rope_add_c alloc r c) (bs @ [c])"
    and emits_add: "emits r bs \<Longrightarrow> length bs + n \<le> cap \<Longrightarrow> n \<le> length xs \<Longrightarrow>
      \<exists>r'. gsm_rope_add alloc r xs n = Inr r' \<and> emits r' (bs @ take n xs)"
    and emits_fill: "emits r bs \<Longrightarrow> length bs + length xs \<le> cap \<Longrightarrow> f (Some 0) = Inr xs \<Longrightarrow> (xs = [] \<Longrightarrow> f None = Inr []) \<Longrightarrow>
      \<exists>r'. rope_fill (gsm_rope_reserve alloc r (length xs)) f = Inr r' \<and> emits r' (bs @ xs)"
    and emits_or_last: "emits r (bs @ [b]) \<Longrightarrow> \<exists>r'. rope_or_last r m = Inr r' \<and> emits r' (bs @ [b OR m])"
begin

lemma emits_add_cs:
  "emits r bs \<Longrightarrow> length bs + length cs \<le> cap \<Longrightarrow> emits (foldl (gsm_rope_add_c alloc) r cs) (bs @ cs)"
proof (induction cs arbitrary: r bs)
  case (Cons c cs)
  then show ?case using emits_add_c [of r bs c] Cons.IH [of "gsm_rope_add_c alloc r c" "bs @ [c]"] by simp
qed simp

end

definition counts :: "bool \<Rightarrow> GsmRope \<Rightarrow> u8 list \<Rightarrow> bool" where
  "counts e r bs \<longleftrightarrow> rp_data r = Null \<and> rp_error r = e \<and> rp_pos r = length bs"

definition writes :: "nat \<Rightarrow> GsmRope \<Rightarrow> u8 list \<Rightarrow> bool" where
  "writes cap r bs \<longleftrightarrow> length bs \<le> cap \<and> \<not> rp_error r \<and> rp_pos r = length bs \<and> rp_max r = cap \<and>
     rp_data r = Heap (map Some bs @ replicate (cap - length bs) (Some 0))"

lemma overwrite_next:
  "length bs + length xs \<le> cap \<Longrightarrow>
   overwrite (map Some bs @ replicate (cap - length bs) (Some 0)) (length bs) (map Some xs) =
     map Some (bs @ xs) @ replicate (cap - (length bs + length xs)) (Some 0)"
  by (simp add: overwrite_def)

lemma overwrite_last:
  "overwrite (map Some (bs @ [b]) @ ys) (length bs) [Some c] = map Some (bs @ [c]) @ ys"
  by (simp add: overwrite_def)

lemmas rope_defs = gsm_rope_add_c_def gsm_rope_add_def gsm_rope_reserve_def gsm_rope_can_grow_def rope_advance_def rope_poke_def rope_fill_def
  rope_or_last_def

interpretation counting: rope_sink alloc "counts e" cap
  by unfold_locales (auto simp: counts_def rope_defs)

interpretation writing: rope_sink alloc "writes cap" cap
proof (unfold_locales, goal_cases)
  case (1 r bs c)
  then show ?case using overwrite_next [of bs "[c]" cap] by (auto simp: writes_def rope_defs)
next
  case (2 r bs n xs)
  then show ?case using overwrite_next [of bs "take n xs" cap] by (auto simp: writes_def rope_defs)
next
  case (3 r bs xs f)
  moreover have "length bs < cap" if "xs \<noteq> []" using 3(2) that by (cases xs) auto
  ultimately show ?case using overwrite_next [of bs xs cap] by (cases "xs = []") (auto simp: writes_def rope_defs nth_append)
next
  case (4 r bs b m)
  then show ?case using overwrite_last [of bs b "replicate (cap - Suc (length bs)) (Some 0)" "b OR m"]
    by (auto simp: writes_def rope_defs nth_append)
qed

lemma init_counts: "counts False gsm_rope_init []"
  by (simp add: counts_def gsm_rope_init_def)

lemma init_fails: "0 < cap \<Longrightarrow> \<not> alloc cap \<Longrightarrow> counts True (gsm_rope_init_alloc alloc cap) []"
  by (simp add: counts_def gsm_rope_init_alloc_def)

lemma init_writes: "0 < cap \<Longrightarrow> alloc cap \<Longrightarrow> writes cap (gsm_rope_init_alloc alloc cap) []"
  by (simp add: writes_def gsm_rope_init_alloc_def)

text \<open>Outgrowing the built-in buffer loses what was written there: \<open>realloc\<close> is given no old buffer.\<close>

theorem rope_growth_loses_data:
  "rope_buf (foldl (gsm_rope_add_c (\<lambda>_. True)) (gsm_rope_init_alloc (\<lambda>_. True) 0) (replicate 17 0x41)) =
    replicate 16 None @ [Some 0x41] @ replicate 11 None"
  by code_simp

end
