(* ===== verification/Sms.thy ===== *)
theory Sms
  imports Gsm_Rope
begin

text \<open>
  Message strings, time stamps and addresses of short messages, the first half of \<open>android/telephony/sms.c\<close>. A decoder that returns -1
  is \<open>None\<close>. Buffers with their size are lists of that length; a read past one is \<open>Undefined\<close>.
\<close>

section \<open>Message strings\<close>

definition message_write :: "u32 \<Rightarrow> u8 list" where
  "message_write c =
     (if c <s 128 then [ucast c]
      else if c <s 0x800 then [ucast (0xc0 OR (drop_bit 6 c AND 0x1f)), ucast (0x80 OR (c AND 0x3f))]
      else [ucast (0xc0 OR (drop_bit 12 c AND 0xf)), ucast (0x80 OR (drop_bit 6 c AND 0x3f)), ucast (0x80 OR (c AND 0x3f))])"

definition message_unescape :: "u32 \<Rightarrow> u8 list \<Rightarrow> (u32 \<times> u8 list) option" where
  "message_unescape c p =
     (if c = 0x5c then Some (c, p)
      else if c = 0x6e then Some (10, p)
      else if c = 0x78 then
        (case p of h # l # q \<Rightarrow> map_option (\<lambda>b. (ucast b, q)) (gsm_hex2_to_byte h l) | _ \<Rightarrow> None)
      else if c = 0x75 then
        (case p of h1 # h2 # h3 # h4 # q \<Rightarrow> map_option (\<lambda>v. (v, q)) (gsm_hex4_to_short h1 h2 h3 h4) | _ \<Rightarrow> None)
      else None)"

lemma message_unescape_shorter: "message_unescape c p = Some (c', q) \<Longrightarrow> length q \<le> length p"
  by (auto simp: message_unescape_def split: if_splits list.splits)

function from_message_loop :: "u8 list \<Rightarrow> bool \<Rightarrow> u8 list option" where
  "from_message_loop p escaped =
     (case utf8_next p of
        None \<Rightarrow> if escaped then None else Some []
      | Some (c, q) \<Rightarrow>
          if escaped then
            (case message_unescape c q of
               None \<Rightarrow> None
             | Some (c', r) \<Rightarrow> map_option ((@) (message_write c')) (from_message_loop r False))
          else if c = 0x5c then from_message_loop q True
          else map_option ((@) (message_write c)) (from_message_loop q False))"
  by pat_completeness auto
termination
  by (relation "measure (length \<circ> fst)") (auto dest!: utf8_next_shorter message_unescape_shorter)

declare from_message_loop.simps [simp del]

text \<open>The count, and the bytes stored in a buffer of \<open>utf8len\<close> bytes.\<close>

definition sms_utf8_from_message_str :: "u8 list \<Rightarrow> nat \<Rightarrow> (nat \<times> u8 list) option" where
  "sms_utf8_from_message_str str utf8len = map_option (\<lambda>bs. (length bs, take utf8len bs)) (from_message_loop str False)"

text \<open>The reader of the inverse conversion skips the first continuation byte.\<close>

definition message_next :: "u8 \<Rightarrow> u8 list \<Rightarrow> u32 \<times> u8 list" where
  "message_next c p =
     (if c < 128 then (ucast c, p)
      else let q = drop 1 p in (foldl add_cont (lead_bits c) (takeWhile is_cont q), dropWhile is_cont q))"

lemma message_next_shorter: "length (snd (message_next c p)) \<le> length p"
  using length_dropWhile_le [of is_cont "drop 1 p"] by (auto simp: message_next_def Let_def)

definition put_at :: "nat \<Rightarrow> (nat \<Rightarrow> u8) \<Rightarrow> nat \<Rightarrow> u8 list \<Rightarrow> (nat \<Rightarrow> u8)" where
  "put_at strlen str count bs = blit str count (take (strlen - count) bs)"

definition message_put :: "nat \<Rightarrow> u32 \<Rightarrow> nat \<times> (nat \<Rightarrow> u8) \<Rightarrow> nat \<times> (nat \<Rightarrow> u8)" where
  "message_put strlen c = (\<lambda>(count, str).
     (let (c', escape) = (if c <s 0x20 then if c = 10 then (0x6e, 2 :: nat) else (c, 1) else if c = 0x5c then (c, 2) else (c, 0))
      in if escape = 0 then (count + length (message_write c'), put_at strlen str count (message_write c'))
         else if escape = 1 then
           (count + 4, if count + 3 < strlen then blit str count ([0x5c, 0x78] @ gsm_hex_from_byte (ucast c')) else str)
         else (count + 2, if count + 2 < strlen then blit str count [0x5c, ucast c'] else str)))"

function to_message_loop :: "nat \<Rightarrow> u8 list \<Rightarrow> nat \<times> (nat \<Rightarrow> u8) \<Rightarrow> nat \<times> (nat \<Rightarrow> u8)" where
  "to_message_loop strlen [] st = st"
| "to_message_loop strlen (c # p) st =
     to_message_loop strlen (snd (message_next c p)) (message_put strlen (fst (message_next c p)) st)"
  by pat_completeness auto
termination
  by (relation "measure (\<lambda>(_, p, _). length p)") (auto simp: less_Suc_eq_le message_next_shorter)

definition sms_utf8_to_message_str :: "u8 list \<Rightarrow> (nat \<Rightarrow> u8) \<Rightarrow> nat \<Rightarrow> nat \<times> (nat \<Rightarrow> u8)" where
  "sms_utf8_to_message_str utf8 str strlen = to_message_loop strlen utf8 (0, str)"

section \<open>Time stamps\<close>

record tm =
  tm_sec :: int
  tm_min :: int
  tm_hour :: int
  tm_mday :: int
  tm_mon :: int
  tm_year :: int
  tm_yday :: int
  tm_isdst :: int

definition tz_quarters :: "tm \<Rightarrow> tm \<Rightarrow> int" where
  "tz_quarters gm lcl =
     (let tzdiff = (tm_hour lcl * 4 + tm_min lcl div 15) - (tm_hour gm * 4 + tm_min gm div 15)
      in if tm_yday gm < tm_yday lcl then tzdiff + 24 * 4
         else if tm_yday lcl < tm_yday gm then tzdiff - 24 * 4 else tzdiff)"

definition sms_timestamp_now :: "tm \<Rightarrow> tm \<Rightarrow> u8 list" where
  "sms_timestamp_now gm lcl =
     (let tzdiff = tz_quarters gm lcl; b = gsm_int_to_bcdi (nat \<bar>tzdiff\<bar>)
      in [gsm_int_to_bcdi (nat (tm_year lcl mod 100)), gsm_int_to_bcdi (nat (tm_mon lcl + 1)), gsm_int_to_bcdi (nat (tm_mday lcl)),
          gsm_int_to_bcdi (nat (tm_hour lcl)), gsm_int_to_bcdi (nat (tm_min lcl)), gsm_int_to_bcdi (nat (tm_sec lcl)),
          if tzdiff < 0 then b OR 0x08 else b])"

definition sms_timestamp_to_tm :: "u8 list \<Rightarrow> tm \<Rightarrow> tm \<times> int" where
  "sms_timestamp_to_tm stamp t =
     (let year = uint (gsm_int_from_bcdi (stamp ! 0)); tzdiff = uint (gsm_int_from_bcdi (stamp ! 6 AND 0xf7))
      in (t\<lparr>tm_year := if year < 50 then year + 100 else year, tm_mon := uint (gsm_int_from_bcdi (stamp ! 1)) - 1,
            tm_mday := uint (gsm_int_from_bcdi (stamp ! 2)), tm_hour := uint (gsm_int_from_bcdi (stamp ! 3)),
            tm_min := uint (gsm_int_from_bcdi (stamp ! 4)), tm_sec := uint (gsm_int_from_bcdi (stamp ! 5)), tm_isdst := - 1\<rparr>,
          if stamp ! 6 AND 0x8 \<noteq> 0 then - tzdiff else tzdiff))"

section \<open>Addresses\<close>

definition SMS_ADDRESS_MAX_SIZE :: nat where "SMS_ADDRESS_MAX_SIZE = 16"

record SmsAddressRec =
  ad_len :: u8
  ad_toa :: u8
  ad_data :: "u8 list"

definition is_digit :: "u8 \<Rightarrow> bool" where
  "is_digit c \<longleftrightarrow> 0x30 \<le> c \<and> c \<le> 0x39"

fun address_loop :: "u8 list \<Rightarrow> u8 list \<Rightarrow> nat \<Rightarrow> nat \<Rightarrow> nat \<Rightarrow> u8 list \<times> (nat \<times> nat \<times> nat) option" where
  "address_loop [] d pos shift len = (d, Some (pos, shift, len))"
| "address_loop (c # src) d pos shift len =
     (if is_digit c then
        if SMS_ADDRESS_MAX_SIZE \<le> pos then (d, None)
        else let d' = d[pos := d ! pos OR push_bit shift (c - 0x30)]
             in if shift + 4 = 8 then address_loop src d' (pos + 1) 0 (len + 1) else address_loop src d' pos (shift + 4) (len + 1)
      else address_loop src d pos shift len)"

definition sms_address_from_str :: "SmsAddressRec \<Rightarrow> u8 list \<Rightarrow> bool \<times> SmsAddressRec" where
  "sms_address_from_str address src =
     (let address = address\<lparr>ad_len := 0, ad_toa := 0x81\<rparr>
      in case src of
           [] \<Rightarrow> (False, address)
         | c # rest \<Rightarrow>
           let address = (if c = 0x2b then address\<lparr>ad_toa := 0x91\<rparr> else address);
               src = (if c = 0x2b then rest else src)
           in if src = [] then (False, address)
              else case address_loop src (replicate SMS_ADDRESS_MAX_SIZE 0) 0 0 0 of
                     (d, None) \<Rightarrow> (False, address\<lparr>ad_data := d\<rparr>)
                   | (d, Some (pos, shift, len)) \<Rightarrow>
                       (0 < len, address\<lparr>ad_data := (if shift \<noteq> 0 then d[pos := d ! pos OR 0xf0] else d), ad_len := of_nat len\<rparr>))"

definition dialdigits :: "u8 list" where
  "dialdigits = [0x30, 0x31, 0x32, 0x33, 0x34, 0x35, 0x36, 0x37, 0x38, 0x39, 0x2a, 0x23, 0x2c, 0x4e, 0x25, 0]"

text \<open>The digits of the bytes of an address. The terminating digit is written but only counted in the low half of a byte. The buffer is read
  at the count after each byte, so it must have room there.\<close>

fun to_str_loop :: "u8 list \<Rightarrow> nat \<Rightarrow> u8 list \<Rightarrow> u8 list res" where
  "to_str_loop [] strlen out = Inr out"
| "to_str_loop (c # d) strlen out =
     (let out = out @ [dialdigits ! unat (c AND 0xf)]; hi = dialdigits ! unat (drop_bit 4 c AND 0xf)
      in if length out < strlen then to_str_loop d strlen (if hi \<noteq> 0 then out @ [hi] else out)
         else Inl Undefined)"

definition sms_address_to_str :: "SmsAddressRec \<Rightarrow> nat \<Rightarrow> u8 list res" where
  "sms_address_to_str address strlen =
     (let n = (unat (ad_len address) + 1) div 2; out = (if ad_toa address = 0x91 then [0x2b] else [])
      in if SMS_ADDRESS_MAX_SIZE < n then Inl Undefined
         else to_str_loop (take n (ad_data address)) strlen out)"

definition address_bytes :: "SmsAddressRec \<Rightarrow> nat" where
  "address_bytes address = (unat (ad_len address) + 1) div 2"

definition sms_address_from_bytes :: "SmsAddressRec \<Rightarrow> u8 list \<Rightarrow> SmsAddressRec option res" where
  "sms_address_from_bytes address buf =
     (case buf of
        l # t # rest \<Rightarrow>
          let address = address\<lparr>ad_len := l, ad_toa := t\<rparr>; len = address_bytes address
          in if SMS_ADDRESS_MAX_SIZE < len then Inr None
             else if length rest < len then Inl Undefined
             else Inr (Some (address\<lparr>ad_data := take len rest @ drop len (ad_data address)\<rparr>))
      | _ \<Rightarrow> Inr None)"

definition sms_address_to_bytes :: "SmsAddressRec \<Rightarrow> nat \<Rightarrow> (nat \<times> u8 list) res" where
  "sms_address_to_bytes address bufsize =
     (let len = address_bytes address + 2
      in if bufsize < 1 then Inr (len, [])
         else if bufsize < 2 then Inr (len, [ad_len address])
         else let n = min (bufsize - 2) (len - 2)
              in if SMS_ADDRESS_MAX_SIZE < n then Inl Undefined
                 else Inr (len, [ad_len address, ad_toa address] @ take n (ad_data address)))"

definition hex_byte :: "u8 list \<Rightarrow> nat \<Rightarrow> u8" where
  "hex_byte hex i = (case gsm_hex2_to_byte (hex ! i) (hex ! (i + 1)) of None \<Rightarrow> 0xff | Some b \<Rightarrow> b)"

definition sms_address_from_hex :: "SmsAddressRec \<Rightarrow> u8 list \<Rightarrow> SmsAddressRec option res" where
  "sms_address_from_hex address hex =
     (if length hex < 4 then Inr None
      else let address = address\<lparr>ad_len := hex_byte hex 0, ad_toa := hex_byte hex 2\<rparr>;
               len = (case gsm_hex2_to_byte (hex ! 0) (hex ! 1) of None \<Rightarrow> 0 | Some b \<Rightarrow> (unat b + 1) div 2)
           in if length hex < 4 + len * 2 then Inr None
              else if SMS_ADDRESS_MAX_SIZE < len then Inl Undefined
              else Inr (Some (address\<lparr>ad_data := map (\<lambda>nn. hex_byte hex (4 + nn * 2)) [0..<len] @ drop len (ad_data address)\<rparr>)))"

definition sms_address_to_hex :: "SmsAddressRec \<Rightarrow> nat \<Rightarrow> (nat \<times> u8 list) res" where
  "sms_address_to_hex address hexlen =
     (let len = address_bytes address + 2
      in if hexlen < 2 then Inr (len * 2, [])
         else if hexlen < 4 then Inr (len * 2, gsm_hex_from_byte (ad_len address))
         else let rest = hexlen - 4; rest = (if 2 * (len - 2) < rest then (len - 2) div 2 else rest); n = (rest + 1) div 2
              in if SMS_ADDRESS_MAX_SIZE < n then Inl Undefined
                 else Inr (len * 2, gsm_hex_from_byte (ad_len address) @ gsm_hex_from_byte (ad_toa address) @
                   gsm_hex_from_bytes (take n (ad_data address))))"

definition sms_address_eq :: "SmsAddressRec \<Rightarrow> SmsAddressRec \<Rightarrow> bool res" where
  "sms_address_eq addr1 addr2 =
     (if ad_toa addr1 \<noteq> ad_toa addr2 \<or> ad_len addr1 \<noteq> ad_len addr2 then Inr False
      else if SMS_ADDRESS_MAX_SIZE < unat (ad_len addr1) then Inl Undefined
      else Inr (take (unat (ad_len addr1)) (ad_data addr1) = take (unat (ad_len addr1)) (ad_data addr2)))"

definition gsm_rope_add_timestamp :: "(nat \<Rightarrow> bool) \<Rightarrow> GsmRope \<Rightarrow> u8 list \<Rightarrow> GsmRope res" where
  "gsm_rope_add_timestamp alloc rope ts = gsm_rope_add alloc rope ts 7"

definition gsm_rope_add_address :: "(nat \<Rightarrow> bool) \<Rightarrow> GsmRope \<Rightarrow> SmsAddressRec \<Rightarrow> GsmRope res" where
  "gsm_rope_add_address alloc rope addr =
     res_bind (gsm_rope_add alloc (gsm_rope_add_c alloc (gsm_rope_add_c alloc rope (ad_len addr)) (ad_toa addr)) (ad_data addr) (address_bytes addr))
       (\<lambda>r. if odd (unat (ad_len addr)) then rope_or_last r 0xf0 else Inr r)"

section \<open>Dialled digits and their packed form\<close>

fun pack_digits :: "u8 list \<Rightarrow> u8 list" where
  "pack_digits [] = []"
| "pack_digits [c] = [(c - 0x30) OR 0xf0]"
| "pack_digits (c # e # ds) = ((c - 0x30) OR push_bit 4 (e - 0x30)) # pack_digits ds"

lemma length_pack [simp]: "length (pack_digits ds) = (length ds + 1) div 2"
  by (induction ds rule: pack_digits.induct) auto

lemma address_loop_filter: "address_loop src d pos shift len = address_loop (filter is_digit src) d pos shift len"
  by (induction src arbitrary: d pos shift len) (auto simp: Let_def)

lemma address_loop_pack:
  assumes "\<forall>c \<in> set ds. is_digit c" and "length ds \<le> 2 * k" and "length pre + k = 16"
  shows "\<exists>d pos shift. address_loop ds (pre @ replicate k 0) (length pre) 0 len = (d, Some (pos, shift, len + length ds)) \<and>
    (if shift \<noteq> 0 then d[pos := d ! pos OR 0xf0] else d) = pre @ pack_digits ds @ replicate (k - (length ds + 1) div 2) 0"
  using assms
proof (induction ds arbitrary: pre k len rule: pack_digits.induct)
  case (2 c)
  then obtain k' where "k = Suc k'" by (cases k) auto
  then show ?case using 2 by (auto simp: SMS_ADDRESS_MAX_SIZE_def nth_append)
next
  case (3 c e ds)
  then obtain k' where k: "k = Suc k'" by (cases k) auto
  define b where "b = (c - 0x30) OR push_bit 4 (e - 0x30)"
  have "\<exists>d pos shift. address_loop ds ((pre @ [b]) @ replicate k' 0) (length (pre @ [b])) 0 (len + 2) = (d, Some (pos, shift, len + 2 + length ds)) \<and>
    (if shift \<noteq> 0 then d[pos := d ! pos OR 0xf0] else d) = (pre @ [b]) @ pack_digits ds @ replicate (k' - (length ds + 1) div 2) 0"
    using 3(2-4) k by (intro 3(1)) auto
  then show ?case using 3(2-4) k by (auto simp: SMS_ADDRESS_MAX_SIZE_def b_def list_update_append nth_append)
qed auto

lemma digit_value: "is_digit c \<Longrightarrow> \<exists>d < 10. c = 0x30 + of_nat d"
proof -
  assume "is_digit c"
  then have "unat c - 48 < 10" "48 \<le> unat c" unfolding is_digit_def word_le_nat_alt by auto
  moreover from this have "c = 0x30 + of_nat (unat c - 48)" by (simp add: of_nat_diff)
  ultimately show ?thesis by blast
qed

lemma digit_cases: "d < 10 \<Longrightarrow> d \<in> set [0, 1, 2, 3, 4, 5, 6, 7, 8, 9 :: nat]"
  by auto

lemma packed_pair:
  assumes "is_digit c" "is_digit e"
  shows "dialdigits ! unat (((c - 0x30) OR push_bit 4 (e - 0x30)) AND 0xf) = c"
    and "dialdigits ! unat (drop_bit 4 ((c - 0x30) OR push_bit 4 (e - 0x30)) AND 0xf) = e" and "e \<noteq> 0"
proof -
  obtain a b where ab: "a < 10" "b < 10" "c = 0x30 + of_nat a" "e = 0x30 + of_nat b" using digit_value assms by metis
  have "\<forall>a \<in> set [0, 1, 2, 3, 4, 5, 6, 7, 8, 9]. \<forall>b \<in> set [0, 1, 2, 3, 4, 5, 6, 7, 8, 9].
    dialdigits ! unat ((of_nat a OR push_bit 4 (of_nat b)) AND 0xf :: u8) = 0x30 + of_nat a \<and>
    dialdigits ! unat (drop_bit 4 (of_nat a OR push_bit 4 (of_nat b)) AND 0xf :: u8) = 0x30 + of_nat b \<and> (0x30 + of_nat b :: u8) \<noteq> 0"
    by code_simp
  from this [rule_format, OF digit_cases [OF ab(1)] digit_cases [OF ab(2)]] ab(3,4)
  show "dialdigits ! unat (((c - 0x30) OR push_bit 4 (e - 0x30)) AND 0xf) = c"
    "dialdigits ! unat (drop_bit 4 ((c - 0x30) OR push_bit 4 (e - 0x30)) AND 0xf) = e" "e \<noteq> 0" by simp_all
qed

lemma packed_single:
  assumes "is_digit c"
  shows "dialdigits ! unat (((c - 0x30) OR 0xf0) AND 0xf) = c" and "dialdigits ! unat (drop_bit 4 ((c - 0x30) OR 0xf0) AND 0xf) = 0"
proof -
  obtain a where a: "a < 10" "c = 0x30 + of_nat a" using digit_value assms by metis
  have "\<forall>a \<in> set [0, 1, 2, 3, 4, 5, 6, 7, 8, 9].
    dialdigits ! unat ((of_nat a OR 0xf0) AND 0xf :: u8) = 0x30 + of_nat a \<and> dialdigits ! unat (drop_bit 4 (of_nat a OR 0xf0) AND 0xf :: u8) = 0"
    by code_simp
  from this [rule_format, OF digit_cases [OF a(1)]] a(2)
  show "dialdigits ! unat (((c - 0x30) OR 0xf0) AND 0xf) = c" "dialdigits ! unat (drop_bit 4 ((c - 0x30) OR 0xf0) AND 0xf) = 0" by simp_all
qed

lemma dialdigits_last: "dialdigits ! 15 = 0"
  by (simp add: dialdigits_def)

lemma to_str_pack:
  "\<forall>c \<in> set ds. is_digit c \<Longrightarrow> length out + length ds < strlen \<Longrightarrow> to_str_loop (pack_digits ds) strlen out = Inr (out @ ds)"
proof (induction ds arbitrary: out rule: pack_digits.induct)
  case (3 c e ds)
  then show ?case using packed_pair [of c e] by (simp add: Let_def)
qed (simp_all add: Let_def packed_single dialdigits_last)

lemma from_str_pack:
  assumes "filter is_digit rest = ds" and "ds \<noteq> []" and "length ds \<le> 32" and "src = (if intl then 0x2b # rest else rest)"
    and "intl \<or> hd rest \<noteq> 0x2b"
  shows "sms_address_from_str address src =
    (True, \<lparr>ad_len = of_nat (length ds), ad_toa = (if intl then 0x91 else 0x81), ad_data = pack_digits ds @ replicate (16 - (length ds + 1) div 2) 0,
      \<dots> = SmsAddressRec.more address\<rparr>)"
proof -
  have all: "\<forall>c \<in> set ds. is_digit c" using assms(1) by auto
  obtain d pos shift where l: "address_loop ds (replicate 16 0) 0 0 0 = (d, Some (pos, shift, length ds))"
    "(if shift \<noteq> 0 then d[pos := d ! pos OR 0xf0] else d) = pack_digits ds @ replicate (16 - (length ds + 1) div 2) 0"
    using address_loop_pack [OF all, of 16 "[]" 0] assms(3) by auto
  have r: "address_loop rest (replicate 16 0) 0 0 0 = (d, Some (pos, shift, length ds))" using address_loop_filter [of rest] assms(1) l(1) by simp
  have ne: "rest \<noteq> []" using assms(1,2) by auto
  show ?thesis
  proof (cases intl)
    case True
    then show ?thesis using r l(2) ne assms by (simp add: sms_address_from_str_def Let_def SMS_ADDRESS_MAX_SIZE_def)
  next
    case False
    then obtain c cs where "rest = c # cs" "c \<noteq> 0x2b" using ne assms(5) by (cases rest) auto
    then show ?thesis using False r l(2) assms by (simp add: sms_address_from_str_def Let_def SMS_ADDRESS_MAX_SIZE_def)
  qed
qed

text \<open>Phone numbers survive their packed form. For a dial string with an optional leading plus sign and between one and 32 digits, with any other
  characters between the digits (the address record has room for 16 bytes of two digits each), \<open>sms_address_from_str\<close> accepts the string and
  \<open>sms_address_to_str\<close>, given a buffer with room for one more character than it writes, gives back the plus sign and exactly the digits, in
  order.\<close>

theorem address_str_roundtrip:
  assumes "intl \<or> hd rest \<noteq> 0x2b" and "filter is_digit rest \<noteq> []" and "length (filter is_digit rest) \<le> 32"
    and "length (filter is_digit rest) + 1 < strlen"
  shows "fst (sms_address_from_str address (if intl then 0x2b # rest else rest)) \<and>
    sms_address_to_str (snd (sms_address_from_str address (if intl then 0x2b # rest else rest))) strlen =
      Inr ((if intl then [0x2b] else []) @ filter is_digit rest)"
proof -
  define ds where "ds = filter is_digit rest"
  note f = from_str_pack [OF ds_def [symmetric] _ _ refl assms(1), of address]
  have n: "unat (of_nat (length ds) :: u8) = length ds" using assms(3) by (simp add: ds_def unat_of_nat)
  have "(length ds + 1) div 2 \<le> 16" using assms(3) unfolding ds_def by linarith
  then show ?thesis using f assms(2-4) to_str_pack [of ds _ strlen] n
    by (simp add: sms_address_to_str_def Let_def SMS_ADDRESS_MAX_SIZE_def ds_def [symmetric]) (auto simp: ds_def)
qed

theorem address_str_roundtrip_witness:
  "sms_address_to_str (snd (sms_address_from_str \<lparr>ad_len = 0, ad_toa = 0, ad_data = []\<rparr> [0x2b, 0x31, 0x2d, 0x35, 0x35])) 8 = Inr [0x2b, 0x31, 0x35, 0x35]"
  using address_str_roundtrip [of True "[0x31, 0x2d, 0x35, 0x35]" 8 "\<lparr>ad_len = 0, ad_toa = 0, ad_data = []\<rparr>"] by (simp add: is_digit_def)

section \<open>Message strings of ASCII text\<close>

definition escape_byte :: "u8 \<Rightarrow> u8 list" where
  "escape_byte b = (if b = 10 then [0x5c, 0x6e] else if b < 0x20 then [0x5c, 0x78] @ gsm_hex_from_byte b else if b = 0x5c then [0x5c, b] else [b])"

lemma ascii_table:
  "\<forall>b \<in> set (map of_nat [0..<128] :: u8 list). (ucast b :: u32) <s 0x80 \<and> (ucast b <s (0x20 :: u32)) = (b < 0x20) \<and>
    (ucast b = (10 :: u32)) = (b = 10) \<and> (ucast b = (0x5c :: u32)) = (b = 0x5c) \<and> ucast (ucast b :: u32) = b"
  by code_simp

lemma ascii_byte:
  assumes "(b :: u8) < 128"
  shows "(ucast b :: u32) <s 0x80" and "(ucast b <s (0x20 :: u32)) = (b < 0x20)" and "(ucast b = (10 :: u32)) = (b = 10)"
    and "(ucast b = (0x5c :: u32)) = (b = 0x5c)" and "message_write (ucast b) = [b]" and "ucast (ucast b :: u32) = b"
proof -
  have "unat b < 128" using assms by (simp add: word_less_nat_alt)
  then have "b \<in> set (map of_nat [0..<128])" using image_eqI [of b of_nat "unat b" "{0..<128}"] by simp
  from bspec [OF ascii_table this]
  show "(ucast b :: u32) <s 0x80" "(ucast b <s (0x20 :: u32)) = (b < 0x20)" "(ucast b = (10 :: u32)) = (b = 10)"
    "(ucast b = (0x5c :: u32)) = (b = 0x5c)" "message_write (ucast b) = [b]" "ucast (ucast b :: u32) = b" by (simp_all add: message_write_def)
qed

lemma message_put_ascii:
  assumes "b < 128" and "count + length (escape_byte b) < strlen"
  shows "message_put strlen (ucast b) (count, str) = (count + length (escape_byte b), blit str count (escape_byte b))"
  using assms ascii_byte [OF assms(1)]
  by (auto simp: message_put_def Let_def escape_byte_def put_at_def gsm_hex_from_byte_def)

lemma to_message_count:
  "\<forall>b \<in> set utf8. b < 128 \<Longrightarrow> fst (to_message_loop strlen utf8 (count, str)) = count + length (concat (map escape_byte utf8))"
proof (induction utf8 arbitrary: count str)
  case (Cons b utf8)
  have "message_next b utf8 = (ucast b, utf8)" using Cons.prems(1) by (simp add: message_next_def)
  moreover have "fst (message_put strlen (ucast b) (count, str)) = count + length (escape_byte b)"
    using Cons.prems ascii_byte [of b] by (auto simp: message_put_def Let_def escape_byte_def gsm_hex_from_byte_def)
  ultimately show ?case using Cons by (cases "message_put strlen (ucast b) (count, str)") simp
qed simp

lemma to_message_ascii:
  "\<forall>b \<in> set utf8. b < 128 \<Longrightarrow> count + length (concat (map escape_byte utf8)) < strlen \<Longrightarrow>
    to_message_loop strlen utf8 (count, str) = (count + length (concat (map escape_byte utf8)), blit str count (concat (map escape_byte utf8)))"
proof (induction utf8 arbitrary: count str)
  case Nil
  then show ?case by (auto simp: blit_def fun_eq_iff)
next
  case (Cons b utf8)
  have n: "message_next b utf8 = (ucast b, utf8)" using Cons.prems(1) by (simp add: message_next_def)
  have "blit (blit str count (escape_byte b)) (count + length (escape_byte b)) (concat (map escape_byte utf8)) =
    blit str count (escape_byte b @ concat (map escape_byte utf8))" by (auto simp: blit_def fun_eq_iff nth_append)
  then show ?case using Cons message_put_ascii [of b count strlen str] n by simp
qed

lemma from_message_escape:
  assumes "b < 128"
  shows "from_message_loop (escape_byte b @ p) False = map_option ((#) b) (from_message_loop p False)"
proof -
  note a = ascii_byte [OF assms]
  consider "b = 10" | "b = 0x5c" | "b \<noteq> 10" "b < 0x20" | "\<not> b < 0x20" "b \<noteq> 0x5c" "b \<noteq> 10" by fastforce
  then show ?thesis
  proof cases
    case 1
    then show ?thesis using a
      by (simp add: escape_byte_def from_message_loop.simps [of "_ # _"] message_unescape_def map_option_case message_write_def split: option.split)
  next
    case 2
    then show ?thesis using a
      by (simp add: escape_byte_def from_message_loop.simps [of "_ # _"] message_unescape_def map_option_case split: option.split)
  next
    case 3
    then show ?thesis using a hex_byte_roundtrip [of b]
      by (simp add: escape_byte_def gsm_hex_from_byte_def from_message_loop.simps [of "92 # _"] from_message_loop.simps [of "120 # _"] message_unescape_def map_option_case split: option.split)
  next
    case 4
    then show ?thesis using a assms
      by (simp add: escape_byte_def from_message_loop.simps [of "b # _"] map_option_case split: option.split)
  qed
qed

lemma from_message_ascii:
  "\<forall>b \<in> set utf8. b < 128 \<Longrightarrow> from_message_loop (concat (map escape_byte utf8)) False = Some utf8"
  by (induction utf8) (simp_all add: from_message_escape, simp add: from_message_loop.simps)

text \<open>An ASCII text written as a message string and read again is unchanged, whatever control characters and backslashes it has, if the
  buffer has room for one character more than the string.\<close>

theorem message_str_roundtrip:
  assumes "\<forall>b \<in> set utf8. b < 128" and "sms_utf8_to_message_str utf8 str strlen = (n, str')" and "n < strlen"
  shows "sms_utf8_from_message_str (window str' 0 n) utf8len = Some (length utf8, take utf8len utf8)"
  using assms to_message_ascii [of utf8 0 strlen str] to_message_count [of utf8 strlen 0 str] from_message_ascii [OF assms(1)]
  by (auto simp: sms_utf8_to_message_str_def sms_utf8_from_message_str_def)

section \<open>Where the conversions differ from their purpose\<close>

theorem message_str_wide:
  "sms_utf8_from_message_str [0xe2, 0x82, 0xac] 8 = Some (3, [0xc2, 0x82, 0xac])" "\<not> utf8_check [0xc2, 0x82, 0xac]"
  "sms_utf8_from_message_str [0xf0, 0x9f, 0x98, 0x80] 8 = Some (3, [0xcf, 0x98, 0x80])"
  by code_simp+

theorem message_str_drops_byte: "fst (sms_utf8_to_message_str [0xc3, 0xa9] (\<lambda>_. 0) 8) = 4"
  by code_simp

theorem timestamp_misread:
  "tm_hour (fst (sms_timestamp_to_tm (sms_timestamp_now \<lparr>tm_sec = 0, tm_min = 0, tm_hour = 12, tm_mday = 1, tm_mon = 0, tm_year = 115, tm_yday = 0, tm_isdst = 0\<rparr>
     \<lparr>tm_sec = 0, tm_min = 0, tm_hour = 12, tm_mday = 1, tm_mon = 0, tm_year = 115, tm_yday = 0, tm_isdst = 0\<rparr>)
     \<lparr>tm_sec = 0, tm_min = 0, tm_hour = 0, tm_mday = 0, tm_mon = 0, tm_year = 0, tm_yday = 0, tm_isdst = 0\<rparr>)) = 30"
  by code_simp

theorem address_hex_cut:
  "sms_address_to_hex \<lparr>ad_len = 8, ad_toa = 0x81, ad_data = [0x51, 0x55, 0x21, 0x43] @ replicate 12 0\<rparr> 64 =
    Inr (12, gsm_hex_from_bytes [8, 0x81, 0x51])"
  by code_simp

end
