(* ===== verification/Sms_Pdu.thy ===== *)
theory Sms_Pdu
  imports Sms
begin

text \<open>
  Protocol data units of short messages, the second part of \<open>android/telephony/sms.c\<close>: reading the fields of a unit, and building the units
  that deliver a text. A unit is its bytes with the offset of the transport part; a cursor is an offset into the bytes, which may point past
  their end, as the pointers of the code do. A reader that returns -1 or \<open>NULL\<close> is \<open>None\<close>; what it leaves in its output record then is not
  modelled, since no caller looks at it.
\<close>

section \<open>Reading fields\<close>

definition sms_get_byte :: "u8 list \<Rightarrow> nat \<Rightarrow> u8 option \<times> nat" where
  "sms_get_byte bs cur = (if cur < length bs then (Some (bs ! cur), cur + 1) else (None, cur))"

text \<open>The digits of a service centre address: \<open>dlen\<close> bytes are stored, \<open>adjust\<close> tells whether the last one looked at was.\<close>

function sc_loop :: "u8 list \<Rightarrow> nat \<Rightarrow> nat \<Rightarrow> nat \<Rightarrow> nat \<Rightarrow> u8 list \<Rightarrow> (nat \<times> nat \<times> u8 list) option" where
  "sc_loop bs cur len dlen adjust d =
     (if dlen < len then
        let c = bs ! (cur + dlen)
        in if SMS_ADDRESS_MAX_SIZE \<le> dlen then None
           else if 0xe \<le> c AND 0xf then Some (dlen, 0, d)
           else if 0xe \<le> drop_bit 4 c AND 0xf then Some (dlen, 1, d[dlen := c])
           else sc_loop bs cur len (dlen + 1) 1 (d[dlen := c])
      else Some (dlen, adjust, d))"
  by pat_completeness auto
termination by (relation "measure (\<lambda>(_, _, len, dlen, _). len - dlen)") auto

declare sc_loop.simps [simp del]

definition sms_get_sc_address :: "u8 list \<Rightarrow> nat \<Rightarrow> SmsAddressRec \<Rightarrow> (SmsAddressRec \<times> nat) option" where
  "sms_get_sc_address bs cur address =
     (if length bs \<le> cur then None
      else let len = unat (bs ! cur); cur = cur + 1
           in if len = 0 then Some (address\<lparr>ad_len := 0, ad_toa := 0\<rparr>, cur)
              else if length bs < cur + len then None
              else let toa = bs ! cur; cur = cur + 1
                   in case sc_loop bs cur (len - 1) 0 0 (ad_data address) of
                        None \<Rightarrow> None
                      | Some (dlen, adjust, d) \<Rightarrow>
                          Some (address\<lparr>ad_toa := toa, ad_data := d, ad_len := of_nat (2 * dlen + adjust)\<rparr>, cur))"

definition sms_skip_sc_address :: "u8 list \<Rightarrow> nat \<Rightarrow> nat option" where
  "sms_skip_sc_address bs cur =
     (if length bs \<le> cur then None
      else let cur = cur + 1 + unat (bs ! cur) in if length bs < cur then None else Some cur)"

definition sms_get_address :: "u8 list \<Rightarrow> nat \<Rightarrow> SmsAddressRec \<Rightarrow> (SmsAddressRec \<times> nat) option" where
  "sms_get_address bs cur address =
     (if length bs \<le> cur then None
      else let dlen = bs ! cur; cur = cur + 1; len = (unat dlen + 1) div 2
           in if dlen = 0 then Some (address\<lparr>ad_len := 0, ad_toa := 0\<rparr>, cur)
              else if length bs < cur + 1 + len then None
              else if SMS_ADDRESS_MAX_SIZE < len then None
              else Some (address\<lparr>ad_len := dlen, ad_toa := bs ! cur, ad_data := take len (drop (cur + 1) bs) @ drop len (ad_data address)\<rparr>,
                         cur + 1 + len))"

text \<open>The cursor of the caller is not moved.\<close>

definition sms_skip_address :: "u8 list \<Rightarrow> nat \<Rightarrow> nat option" where
  "sms_skip_address bs cur =
     (if length bs < cur + 2 then None
      else if length bs < cur + 2 + (unat (bs ! cur) + 1) div 2 then None
      else Some cur)"

definition sms_get_timestamp :: "u8 list \<Rightarrow> nat \<Rightarrow> (u8 list \<times> nat) option" where
  "sms_get_timestamp bs cur = (if length bs < cur + 7 then None else Some (take 7 (drop cur bs), cur + 7))"

definition sms_skip_timestamp :: "u8 list \<Rightarrow> nat \<Rightarrow> nat option" where
  "sms_skip_timestamp bs cur = (if length bs < cur + 7 then None else Some (cur + 7))"

definition sms_skip_validity_period :: "u8 list \<Rightarrow> nat \<Rightarrow> u8 \<Rightarrow> nat option" where
  "sms_skip_validity_period bs cur mtiByte =
     (let vpf = drop_bit 3 mtiByte AND 3; cur = (if vpf = 1 then cur + 1 else if vpf = 2 \<or> vpf = 3 then cur + 7 else cur)
      in if length bs < cur then None else Some cur)"

record SmsPDURec =
  pdu_bytes :: "u8 list"
  pdu_tpdu :: nat

datatype SmsPduType = SMS_PDU_DELIVER | SMS_PDU_SUBMIT | SMS_PDU_STATUS_REPORT | SMS_PDU_INVALID

text \<open>The low bits of the first byte of the transport part; an absent byte is -1 for the code, so its bits are all set.\<close>

definition mti_type :: "u8 option \<Rightarrow> u8" where
  "mti_type b = (case b of None \<Rightarrow> 3 | Some m \<Rightarrow> m AND 3)"

definition mti_bit :: "u8 option \<Rightarrow> bool" where
  "mti_bit b = (case b of None \<Rightarrow> True | Some m \<Rightarrow> m AND 0x40 \<noteq> 0)"

definition smspdu_get_type :: "SmsPDURec \<Rightarrow> SmsPduType" where
  "smspdu_get_type pdu =
     (let t = mti_type (fst (sms_get_byte (pdu_bytes pdu) (pdu_tpdu pdu)))
      in if t = 0 then SMS_PDU_DELIVER else if t = 1 then SMS_PDU_SUBMIT else if t = 2 then SMS_PDU_STATUS_REPORT else SMS_PDU_INVALID)"

definition smspdu_get_sender_address :: "SmsPDURec \<Rightarrow> SmsAddressRec \<Rightarrow> SmsAddressRec option" where
  "smspdu_get_sender_address pdu address =
     (let (mtiByte, data) = sms_get_byte (pdu_bytes pdu) (pdu_tpdu pdu)
      in if mti_type mtiByte = 0 then map_option fst (sms_get_sc_address (pdu_bytes pdu) data address) else None)"

definition smspdu_get_sc_timestamp :: "SmsPDURec \<Rightarrow> SmsAddressRec \<Rightarrow> u8 list option" where
  "smspdu_get_sc_timestamp pdu address =
     (let (mtiByte, data) = sms_get_byte (pdu_bytes pdu) (pdu_tpdu pdu)
      in if mti_type mtiByte = 0
         then (case sms_get_sc_address (pdu_bytes pdu) data address of
                 None \<Rightarrow> None
               | Some (_, data) \<Rightarrow> map_option fst (sms_get_timestamp (pdu_bytes pdu) (data + 2)))
         else None)"

definition smspdu_get_receiver_address :: "SmsPDURec \<Rightarrow> SmsAddressRec \<Rightarrow> SmsAddressRec option" where
  "smspdu_get_receiver_address pdu address =
     (let (mtiByte, data) = sms_get_byte (pdu_bytes pdu) (pdu_tpdu pdu)
      in if mti_type mtiByte = 1 then map_option fst (sms_get_address (pdu_bytes pdu) (data + 1) address) else None)"

datatype SmsCodingScheme = SMS_CODING_SCHEME_UNKNOWN | SMS_CODING_SCHEME_GSM7 | SMS_CODING_SCHEME_UCS2

definition coding_scheme :: "u8 \<Rightarrow> SmsCodingScheme" where
  "coding_scheme dataCoding =
     (let g = drop_bit 4 dataCoding
      in if g = 0 \<or> g = 2 \<or> g = 3 then SMS_CODING_SCHEME_GSM7
         else if g = 1 then
           (if dataCoding = 0x10 then SMS_CODING_SCHEME_GSM7 else if dataCoding = 0x11 then SMS_CODING_SCHEME_UCS2 else SMS_CODING_SCHEME_UNKNOWN)
         else if g = 4 \<or> g = 5 \<or> g = 6 \<or> g = 7 then
           (if dataCoding AND 0x20 \<noteq> 0 then SMS_CODING_SCHEME_UNKNOWN
            else if drop_bit 2 dataCoding AND 3 = 0 then SMS_CODING_SCHEME_GSM7
            else if drop_bit 2 dataCoding AND 3 = 2 then SMS_CODING_SCHEME_UCS2 else SMS_CODING_SCHEME_UNKNOWN)
         else if g = 0xf then (if dataCoding AND 4 = 0 then SMS_CODING_SCHEME_GSM7 else SMS_CODING_SCHEME_UNKNOWN)
         else SMS_CODING_SCHEME_UNKNOWN)"

definition sms_get_coding_scheme :: "u8 list \<Rightarrow> nat \<Rightarrow> SmsCodingScheme \<times> nat" where
  "sms_get_coding_scheme bs cur = (if length bs \<le> cur then (SMS_CODING_SCHEME_UNKNOWN, cur) else (coding_scheme (bs ! cur), cur + 1))"

text \<open>The length of the text after its user data header, and where the text starts.\<close>

definition text_start :: "u8 list \<Rightarrow> nat \<Rightarrow> bool \<Rightarrow> SmsCodingScheme \<Rightarrow> (nat \<times> nat) option" where
  "text_start bs cur hasUDH coding =
     (if length bs \<le> cur then None
      else let len = unat (bs ! cur); cur = cur + 1
           in if hasUDH then
                if length bs \<le> cur then None
                else let hlen = unat (bs ! cur); cur = cur + 1; cut_len = (if coding = SMS_CODING_SCHEME_GSM7 then 2 * (hlen + 1) else hlen + 1)
                     in if length bs < cur + hlen \<or> len < cut_len then None else Some (len - cut_len, cur + hlen)
              else Some (len, cur))"

definition sms_get_text_utf8 :: "(nat \<Rightarrow> bool) \<Rightarrow> u8 list \<Rightarrow> nat \<Rightarrow> bool \<Rightarrow> SmsCodingScheme \<Rightarrow> GsmRope \<Rightarrow> (GsmRope \<times> nat) option res" where
  "sms_get_text_utf8 alloc bs cur hasUDH coding rope =
     (case text_start bs cur hasUDH coding of
        None \<Rightarrow> Inr None
      | Some (len, cur) \<Rightarrow>
          if coding = SMS_CODING_SCHEME_GSM7 then
            res_bind (utf8_from_gsm7 (drop cur bs) 0 len) (\<lambda>u.
            res_bind (rope_fill (gsm_rope_reserve alloc rope (length u)) (\<lambda>_. Inr u)) (\<lambda>r. Inr (Some (r, cur + (len + 1) div 2))))
          else if coding = SMS_CODING_SCHEME_UCS2 then
            res_bind (ucs2_to_utf8 (drop cur bs) (len div 2)) (\<lambda>u.
            res_bind (rope_fill (gsm_rope_reserve alloc rope (length u)) (\<lambda>_. Inr u)) (\<lambda>r. Inr (Some (r, cur + len))))
          else Inr (Some (rope, cur)))"

text \<open>The bytes a caller receives: all initialised ones, else reading them is undefined.\<close>

fun known_bytes :: "u8 option list \<Rightarrow> u8 list res" where
  "known_bytes [] = Inr []"
| "known_bytes (None # b) = Inl Undefined"
| "known_bytes (Some x # b) = res_bind (known_bytes b) (\<lambda>r. Inr (x # r))"

definition rope_text :: "GsmRope \<Rightarrow> nat \<Rightarrow> (nat \<times> u8 list) res" where
  "rope_text rope utf8len =
     (let n = min utf8len (rp_pos rope)
      in if length (rope_buf rope) < n then Inl Undefined
         else res_bind (known_bytes (take n (rope_buf rope))) (\<lambda>b. Inr (rp_pos rope, b)))"

text \<open>
  The length of the message and the bytes that reach the buffer of the caller. For a delivered unit the rope is an uninitialised local
  record, so that reserving space in it is undefined.
\<close>

definition smspdu_get_text_message :: "(nat \<Rightarrow> bool) \<Rightarrow> SmsPDURec \<Rightarrow> nat \<Rightarrow> (nat \<times> u8 list) option res" where
  "smspdu_get_text_message alloc pdu utf8len =
     (let bs = pdu_bytes pdu; (mtiByte, data) = sms_get_byte bs (pdu_tpdu pdu); address = \<lparr>ad_len = 0, ad_toa = 0, ad_data = replicate 16 0\<rparr>
      in if mti_type mtiByte = 0 then
           (case sms_get_sc_address bs data address of
              None \<Rightarrow> Inr None
            | Some (_, data) \<Rightarrow>
              (case sms_get_coding_scheme bs (data + 1) of
                 (coding, data) \<Rightarrow>
                 if coding = SMS_CODING_SCHEME_UNKNOWN then Inr None
                 else (case sms_get_timestamp bs data of
                         None \<Rightarrow> Inr None
                       | Some (_, data) \<Rightarrow>
                           res_bind (sms_get_text_utf8 alloc bs data (mti_bit mtiByte) coding gsm_rope_init)
                             (\<lambda>r. case r of None \<Rightarrow> Inr None | Some _ \<Rightarrow> Inl Undefined))))
         else if mti_type mtiByte = 1 then
           (case sms_get_address bs (data + 1) address of
              None \<Rightarrow> Inr None
            | Some (_, data) \<Rightarrow>
              (case sms_get_coding_scheme bs (data + 1) of
                 (coding, data) \<Rightarrow>
                 if coding = SMS_CODING_SCHEME_UNKNOWN then Inr None
                 else res_bind (sms_get_text_utf8 alloc bs data (mti_bit mtiByte) coding (gsm_rope_init_alloc alloc 0))
                        (\<lambda>r. case r of None \<Rightarrow> Inr None | Some (rope, _) \<Rightarrow> res_bind (rope_text rope utf8len) (\<lambda>t. Inr (Some t)))))
         else Inr None)"

section \<open>Concatenation headers\<close>

text \<open>
  The search of a user data header for the element that numbers the parts of a message. An element of length zero does not move the
  cursor while the remaining length grows, until it overflows an \<open>int\<close>.
\<close>

function ref_loop :: "u8 list \<Rightarrow> nat \<Rightarrow> int \<Rightarrow> nat option res" where
  "ref_loop bs data len =
     (if 2 \<le> len \<and> data + 2 \<le> length bs then
        let htype = bs ! data; hlen = unat (bs ! (data + 1))
        in if htype = 0 \<and> hlen = 3 \<and> data + 5 \<le> length bs then Inr (Some (data + 2))
           else if 2 ^ 31 \<le> len - (int hlen - 2) then Inl Undefined
           else ref_loop bs (data + hlen) (len - (int hlen - 2))
      else Inr None)"
  by pat_completeness auto
termination
proof (relation "measures [\<lambda>(bs, data, len). length bs - data, \<lambda>(bs, data, len). nat (2 ^ 31 - len)]", goal_cases)
  case (2 bs data len htype hlen)
  then show ?case by (cases "hlen = 0") auto
qed simp

declare ref_loop.simps [simp del]

definition smspdu_get_user_data_ref :: "SmsPDURec \<Rightarrow> nat option res" where
  "smspdu_get_user_data_ref pdu =
     (let bs = pdu_bytes pdu; (mtiByte, data) = sms_get_byte bs (pdu_tpdu pdu)
      in if \<not> mti_bit mtiByte then Inr None
         else let body =
                (if mti_type mtiByte = 0 then
                   (case sms_skip_address bs data of None \<Rightarrow> None | Some data \<Rightarrow> sms_skip_timestamp bs (data + 2))
                 else if mti_type mtiByte = 1 then
                   (case sms_skip_address bs (data + 1) of
                      None \<Rightarrow> None
                    | Some data \<Rightarrow> sms_skip_validity_period bs (data + 2) (case mtiByte of Some m \<Rightarrow> m | None \<Rightarrow> 0xff))
                 else None)
              in case body of
                   None \<Rightarrow> Inr None
                 | Some data \<Rightarrow>
                     if length bs \<le> data + 1 then Inr None
                     else ref_loop bs (data + 2) (int (unat (bs ! (data + 1)))))"

definition smspdu_get_ref :: "SmsPDURec \<Rightarrow> u8 option res" where
  "smspdu_get_ref pdu =
     res_bind (smspdu_get_user_data_ref pdu) (\<lambda>user_ref.
       case user_ref of
         Some p \<Rightarrow> Inr (Some (pdu_bytes pdu ! p))
       | None \<Rightarrow>
           (let (mtiByte, data) = sms_get_byte (pdu_bytes pdu) (pdu_tpdu pdu)
            in if mti_type mtiByte = 1 \<and> data < length (pdu_bytes pdu) then Inr (Some (pdu_bytes pdu ! data)) else Inr None))"

definition smspdu_get_max_index :: "SmsPDURec \<Rightarrow> int res" where
  "smspdu_get_max_index pdu =
     res_bind (smspdu_get_user_data_ref pdu) (\<lambda>user_ref.
       case user_ref of Some p \<Rightarrow> Inr (int (unat (pdu_bytes pdu ! (p + 1)))) | None \<Rightarrow> Inr 1)"

definition smspdu_get_cur_index :: "SmsPDURec \<Rightarrow> int res" where
  "smspdu_get_cur_index pdu =
     res_bind (smspdu_get_user_data_ref pdu) (\<lambda>user_ref.
       case user_ref of Some p \<Rightarrow> Inr (int (unat (pdu_bytes pdu ! (p + 2))) - 1) | None \<Rightarrow> Inr 0)"

section \<open>Building units\<close>

definition MAX_USER_DATA_BYTES :: nat where "MAX_USER_DATA_BYTES = 140"
definition MAX_USER_DATA_SEPTETS :: nat where "MAX_USER_DATA_SEPTETS = 160"
definition USER_DATA_HEADER_SIZE :: nat where "USER_DATA_HEADER_SIZE = 6"

definition gsm_rope_add_sms_user_header :: "(nat \<Rightarrow> bool) \<Rightarrow> GsmRope \<Rightarrow> nat \<Rightarrow> nat \<Rightarrow> nat \<Rightarrow> GsmRope" where
  "gsm_rope_add_sms_user_header alloc rope ref_number pdu_count pdu_index =
     foldl (gsm_rope_add_c alloc) rope [0x05, 0x00, 0x03, of_nat ref_number, of_nat pdu_count, of_nat pdu_index + 1]"

definition gsm7_fill :: "u8 list \<Rightarrow> nat \<Rightarrow> u8 option \<Rightarrow> u8 list res" where
  "gsm7_fill utf8 pad dst0 =
     (if 0 < pad then (case dst0 of None \<Rightarrow> Inl Undefined | Some b \<Rightarrow> Inr (fst (utf8_to_gsm7 utf8 b pad)))
      else Inr (fst (utf8_to_gsm7 utf8 0 pad)))"

definition add_gsm7_text :: "(nat \<Rightarrow> bool) \<Rightarrow> GsmRope \<Rightarrow> u8 list \<Rightarrow> nat \<Rightarrow> nat \<Rightarrow> nat \<Rightarrow> GsmRope res" where
  "add_gsm7_text alloc rope utf8 ref_num pdu_count pdu_index =
     (let count = utf8_to_gsm7_count utf8
      in if MAX_USER_DATA_SEPTETS - USER_DATA_HEADER_SIZE < count then Inl Assert_Failure
         else if 1 < pdu_count then
           let headerBits = 6 * 8; headerSeptets = headerBits div 7 + (if 0 < headerBits mod 7 then 1 else 0); pad = headerSeptets * 7 - headerBits;
               rope = gsm_rope_add_sms_user_header alloc (gsm_rope_add_c alloc rope (of_nat (count + headerSeptets))) ref_num pdu_count pdu_index
           in rope_fill (gsm_rope_reserve alloc rope ((count * 7 + pad + 7) div 8)) (gsm7_fill utf8 pad)
         else rope_fill (gsm_rope_reserve alloc (gsm_rope_add_c alloc rope (of_nat count)) ((count * 7 + 0 + 7) div 8)) (gsm7_fill utf8 0))"

definition add_ucs2_text :: "(nat \<Rightarrow> bool) \<Rightarrow> GsmRope \<Rightarrow> u8 list \<Rightarrow> nat \<Rightarrow> nat \<Rightarrow> nat \<Rightarrow> GsmRope res" where
  "add_ucs2_text alloc rope utf8 ref_num pdu_count pdu_index =
     (let count = length (utf8_to_ucs2 utf8) div 2
      in if MAX_USER_DATA_BYTES - USER_DATA_HEADER_SIZE < count * 2 then Inl Assert_Failure
         else let rope = (if 1 < pdu_count
                then gsm_rope_add_sms_user_header alloc (gsm_rope_add_c alloc rope (of_nat (count * 2 + 6))) ref_num pdu_count pdu_index
                else gsm_rope_add_c alloc rope (of_nat (count * 2)))
              in rope_fill (gsm_rope_reserve alloc rope (count * 2)) (\<lambda>_. Inr (utf8_to_ucs2 utf8)))"

definition gsm_rope_add_sms_deliver_pdu ::
    "(nat \<Rightarrow> bool) \<Rightarrow> GsmRope \<Rightarrow> u8 list \<Rightarrow> bool \<Rightarrow> SmsAddressRec \<Rightarrow> u8 list \<Rightarrow> nat \<Rightarrow> nat \<Rightarrow> nat \<Rightarrow> GsmRope res" where
  "gsm_rope_add_sms_deliver_pdu alloc rope utf8 use_gsm7 sender_address timestamp ref_num pdu_count pdu_index =
     (let mtiByte = (if 1 < pdu_count then 0x20 OR 0x40 else 0x20); coding = (if use_gsm7 then 0x00 else 0x09)
      in res_bind (gsm_rope_add_address alloc (gsm_rope_add_c alloc (gsm_rope_add_c alloc rope 0) mtiByte) sender_address) (\<lambda>rope.
         res_bind (gsm_rope_add_timestamp alloc (gsm_rope_add_c alloc (gsm_rope_add_c alloc rope 0) coding) timestamp) (\<lambda>rope.
         if use_gsm7 then add_gsm7_text alloc rope utf8 ref_num pdu_count pdu_index
         else add_ucs2_text alloc rope utf8 ref_num pdu_count pdu_index)))"

definition sizeof_SmsPDURec :: nat where "sizeof_SmsPDURec = 24"

definition smspdu_create_deliver ::
    "(nat \<Rightarrow> bool) \<Rightarrow> u8 list \<Rightarrow> bool \<Rightarrow> SmsAddressRec \<Rightarrow> u8 list \<Rightarrow> nat \<Rightarrow> nat \<Rightarrow> nat \<Rightarrow> SmsPDURec option res" where
  "smspdu_create_deliver alloc utf8 use_gsm7 sender_address timestamp ref_num pdu_count pdu_index =
     (if \<not> alloc sizeof_SmsPDURec then Inr None
      else res_bind (gsm_rope_add_sms_deliver_pdu alloc gsm_rope_init utf8 use_gsm7 sender_address timestamp ref_num pdu_count pdu_index) (\<lambda>rope.
           if rp_error rope then Inr None
           else res_bind (gsm_rope_add_sms_deliver_pdu alloc (gsm_rope_init_alloc alloc (rp_pos rope)) utf8 use_gsm7 sender_address timestamp
                   ref_num pdu_count pdu_index) (\<lambda>rope.
                res_bind (gsm_rope_done_acquire alloc rope) (\<lambda>(b, n).
                  case b of
                    None \<Rightarrow> Inr None
                  | Some b \<Rightarrow> if length b < n then Inl Undefined
                              else res_bind (known_bytes (take n b)) (\<lambda>bs. Inr (Some \<lparr>pdu_bytes = bs, pdu_tpdu = 1\<rparr>))))))"

text \<open>The texts of the parts: a part takes as many characters as fit, the last one is given what the first count left over.\<close>

fun deliver_parts :: "u8 list \<Rightarrow> bool \<Rightarrow> nat \<Rightarrow> nat \<Rightarrow> nat \<Rightarrow> nat \<Rightarrow> u8 list list" where
  "deliver_parts src use_gsm7 block leftover num_pdus 0 = []"
| "deliver_parts src use_gsm7 block leftover num_pdus (Suc k) =
     (let nn = num_pdus - Suc k;
          skip = (if 0 < leftover \<and> nn = num_pdus - 1 then leftover else block);
          src_next = (if use_gsm7 then utf8_skip_gsm7 src skip else utf8_skip_ucs2 src skip)
      in take (length src - length src_next) src # deliver_parts src_next use_gsm7 block leftover num_pdus k)"

fun create_parts :: "(u8 list \<Rightarrow> nat \<Rightarrow> SmsPDURec option res) \<Rightarrow> u8 list list \<Rightarrow> nat \<Rightarrow> SmsPDURec list option res" where
  "create_parts create [] nn = Inr (Some [])"
| "create_parts create (t # ts) nn =
     res_bind (create t nn) (\<lambda>p.
       case p of
         None \<Rightarrow> Inr None
       | Some p \<Rightarrow> res_bind (create_parts create ts (nn + 1)) (\<lambda>r. Inr (map_option ((#) p) r)))"

text \<open>How a text is split. The counts are natural numbers where the code has \<open>int\<close>; the two differ only for texts of more than about a gigabyte, whose count in
  bytes of UCS-2 exceeds \<open>2^31\<close>.\<close>

definition deliver_plan :: "u8 list \<Rightarrow> bool \<times> nat \<times> nat \<times> nat" where
  "deliver_plan utf8 =
     (let use_gsm7 = utf8_check_gsm7 utf8;
          block = (if use_gsm7 then MAX_USER_DATA_SEPTETS - USER_DATA_HEADER_SIZE else MAX_USER_DATA_BYTES - USER_DATA_HEADER_SIZE);
          count = (if use_gsm7 then utf8_to_gsm7_count utf8 else 2 * (length (utf8_to_ucs2 utf8) div 2));
          num_pdus = count div block;
          leftover = count - num_pdus * block
      in (use_gsm7, block, leftover, if 0 < leftover then num_pdus + 1 else num_pdus))"

text \<open>The list of units and the next reference number. \<open>now\<close> is what \<open>sms_timestamp_now\<close> gives, used when the caller has no time stamp.\<close>

definition smspdu_create_deliver_utf8 ::
    "(nat \<Rightarrow> bool) \<Rightarrow> u8 list \<Rightarrow> SmsAddressRec \<Rightarrow> u8 list option \<Rightarrow> u8 list \<Rightarrow> u8 \<Rightarrow> (SmsPDURec list option \<times> u8) res" where
  "smspdu_create_deliver_utf8 alloc utf8 sender_address timestamp now ref_num =
     (let ts = (case timestamp of None \<Rightarrow> now | Some t \<Rightarrow> t); (use_gsm7, block, leftover, num_pdus) = deliver_plan utf8
      in if \<not> alloc (8 * (num_pdus + 1)) then Inr (None, ref_num)
         else res_bind (create_parts (\<lambda>t nn. smspdu_create_deliver alloc t use_gsm7 sender_address ts (unat ref_num) num_pdus nn)
                (deliver_parts utf8 use_gsm7 block leftover num_pdus num_pdus) 0) (\<lambda>pdus.
              case pdus of None \<Rightarrow> Inr (None, ref_num) | Some ps \<Rightarrow> Inr (Some ps, ref_num + 1)))"

definition smspdu_create_from_hex :: "(nat \<Rightarrow> bool) \<Rightarrow> u8 list \<Rightarrow> SmsPDURec option" where
  "smspdu_create_from_hex alloc hex =
     (if \<not> alloc sizeof_SmsPDURec \<or> \<not> alloc ((length hex + 1) div 2) then None
      else case gsm_hex_to_bytes hex of
             None \<Rightarrow> None
           | Some bs \<Rightarrow> (case sms_skip_sc_address bs 0 of None \<Rightarrow> None | Some data \<Rightarrow> Some \<lparr>pdu_bytes = bs, pdu_tpdu = data\<rparr>))"

definition smspdu_to_hex :: "SmsPDURec \<Rightarrow> nat \<Rightarrow> nat \<times> u8 list" where
  "smspdu_to_hex pdu hexlen =
     (let result = length (pdu_bytes pdu) * 2
      in (result, gsm_hex_from_bytes (take ((min hexlen result + 1) div 2) (pdu_bytes pdu))))"

section \<open>The bytes of a unit\<close>

definition address_field :: "SmsAddressRec \<Rightarrow> u8 list" where
  "address_field addr =
     (let d = take (address_bytes addr) (ad_data addr)
      in [ad_len addr, ad_toa addr] @ (if odd (unat (ad_len addr)) then butlast d @ [last d OR 0xf0] else d))"

definition header_field :: "nat \<Rightarrow> nat \<Rightarrow> nat \<Rightarrow> u8 list" where
  "header_field ref_num pdu_count pdu_index = [5, 0, 3, of_nat ref_num, of_nat pdu_count, of_nat pdu_index + 1]"

definition text_units :: "u8 list \<Rightarrow> bool \<Rightarrow> nat" where
  "text_units utf8 use_gsm7 = (if use_gsm7 then utf8_to_gsm7_count utf8 else length (utf8_to_ucs2 utf8))"

definition unit_limit :: "bool \<Rightarrow> nat" where
  "unit_limit use_gsm7 = (if use_gsm7 then 154 else 134)"

definition text_field :: "u8 list \<Rightarrow> bool \<Rightarrow> nat \<Rightarrow> nat \<Rightarrow> nat \<Rightarrow> u8 list" where
  "text_field utf8 use_gsm7 ref_num pdu_count pdu_index =
     (let units = text_units utf8 use_gsm7; multi = 1 < pdu_count
      in (if multi then of_nat (units + (if use_gsm7 then 7 else 6)) # header_field ref_num pdu_count pdu_index else [of_nat units]) @
         (if use_gsm7 then fst (utf8_to_gsm7 utf8 0 (if multi then 1 else 0)) else utf8_to_ucs2 utf8))"

definition deliver_bytes :: "u8 list \<Rightarrow> bool \<Rightarrow> SmsAddressRec \<Rightarrow> u8 list \<Rightarrow> nat \<Rightarrow> nat \<Rightarrow> nat \<Rightarrow> u8 list" where
  "deliver_bytes utf8 use_gsm7 addr ts ref_num pdu_count pdu_index =
     [0, if 1 < pdu_count then 0x60 else 0x20] @ address_field addr @ [0, if use_gsm7 then 0 else 9] @ take 7 ts @
     text_field utf8 use_gsm7 ref_num pdu_count pdu_index"

lemma ucs2_length: "length (utf8_to_ucs2 utf8) = 2 * length (utf8_chars utf8)"
  by (simp add: utf8_to_ucs2_def length_concat ucs2_write_def o_def sum_list_triv)

lemma gsm7_fill_0: "gsm7_fill utf8 pad (Some 0) = Inr (fst (utf8_to_gsm7 utf8 0 pad))" "gsm7_fill utf8 0 b = Inr (fst (utf8_to_gsm7 utf8 0 0))"
  by (simp_all add: gsm7_fill_def)

context rope_sink
begin

lemma emits_address:
  assumes "emits r bs" and "length (bs @ address_field addr) \<le> cap" and "address_bytes addr \<le> length (ad_data addr)"
  shows "\<exists>r'. gsm_rope_add_address alloc r addr = Inr r' \<and> emits r' (bs @ address_field addr)"
proof -
  define d where "d = take (address_bytes addr) (ad_data addr)"
  have ne: "d \<noteq> []" if "odd (unat (ad_len addr))" using that assms(3) by (cases "unat (ad_len addr)") (auto simp: d_def address_bytes_def)
  have len: "length d = address_bytes addr" using assms(3) by (simp add: d_def)
  have n: "length bs + 2 + length d \<le> cap"
    using assms(2) ne by (auto simp: address_field_def Let_def d_def [symmetric] split: if_splits)
  have "emits (foldl (gsm_rope_add_c alloc) r [ad_len addr, ad_toa addr]) (bs @ [ad_len addr, ad_toa addr])"
    using n by (intro emits_add_cs assms(1)) simp
  from emits_add [OF this, of "address_bytes addr" "ad_data addr"] n len assms(3)
  obtain r1 where r1: "gsm_rope_add alloc (gsm_rope_add_c alloc (gsm_rope_add_c alloc r (ad_len addr)) (ad_toa addr)) (ad_data addr) (address_bytes addr) = Inr r1"
    "emits r1 (bs @ [ad_len addr, ad_toa addr] @ d)" by (auto simp: d_def)
  show ?thesis
  proof (cases "odd (unat (ad_len addr))")
    case False
    then show ?thesis using r1 by (simp add: gsm_rope_add_address_def address_field_def Let_def d_def)
  next
    case True
    have "emits r1 ((bs @ [ad_len addr, ad_toa addr] @ butlast d) @ [last d])" using r1(2) ne [OF True] by simp
    from emits_or_last [OF this, where m = "0xf0"] show ?thesis
      using r1(1) True by (auto simp: gsm_rope_add_address_def address_field_def Let_def d_def [symmetric])
  qed
qed

lemma emits_text:
  assumes "emits r bs" and "length (bs @ text_field utf8 use_gsm7 ref_num pdu_count pdu_index) \<le> cap" and "text_units utf8 use_gsm7 \<le> unit_limit use_gsm7"
  shows "\<exists>r'. (if use_gsm7 then add_gsm7_text alloc r utf8 ref_num pdu_count pdu_index else add_ucs2_text alloc r utf8 ref_num pdu_count pdu_index) = Inr r' \<and>
    emits r' (bs @ text_field utf8 use_gsm7 ref_num pdu_count pdu_index)"
proof -
  define pad where "pad = (if 1 < pdu_count then 1 else 0 :: nat)"
  define xs where "xs = (if use_gsm7 then fst (utf8_to_gsm7 utf8 0 pad) else utf8_to_ucs2 utf8)"
  define f where "f = (if use_gsm7 then gsm7_fill utf8 pad else (\<lambda>_. Inr (utf8_to_ucs2 utf8)))"
  define hs where "hs = (if 1 < pdu_count then of_nat (text_units utf8 use_gsm7 + (if use_gsm7 then 7 else 6)) # header_field ref_num pdu_count pdu_index
    else [of_nat (text_units utf8 use_gsm7)])"
  have t: "text_field utf8 use_gsm7 ref_num pdu_count pdu_index = hs @ xs"
    by (simp add: text_field_def hs_def xs_def pad_def Let_def)
  define r1 where "r1 = foldl (gsm_rope_add_c alloc) r hs"
  have r1: "emits r1 (bs @ hs)" unfolding r1_def using assms(1,2) by (intro emits_add_cs) (auto simp: t)
  have f1: "f (Some 0) = Inr xs" by (simp add: f_def xs_def gsm7_fill_0)
  have len: "length xs = (if use_gsm7 then (utf8_to_gsm7_count utf8 * 7 + pad + 7) div 8 else length (utf8_to_ucs2 utf8) div 2 * 2)"
    by (simp add: xs_def utf8_to_gsm7_length pad_def ucs2_length)
  have f2: "f None = Inr []" if "xs = []"
    using that len by (auto simp: f_def xs_def pad_def gsm7_fill_0 split: if_splits)
  from emits_fill [OF r1 _ f1 f2] assms(2)
  obtain r' where r': "rope_fill (gsm_rope_reserve alloc r1 (length xs)) f = Inr r'" "emits r' (bs @ hs @ xs)" by (auto simp: t)
  have "(if use_gsm7 then add_gsm7_text alloc r utf8 ref_num pdu_count pdu_index else add_ucs2_text alloc r utf8 ref_num pdu_count pdu_index) =
    rope_fill (gsm_rope_reserve alloc r1 (length xs)) f"
    using assms(3) unfolding len
    by (auto simp: add_gsm7_text_def add_ucs2_text_def text_units_def unit_limit_def r1_def hs_def header_field_def pad_def f_def
      gsm_rope_add_sms_user_header_def MAX_USER_DATA_SEPTETS_def MAX_USER_DATA_BYTES_def USER_DATA_HEADER_SIZE_def Let_def ucs2_length mult.commute [of _ 2])
  then show ?thesis using r' by (simp add: t)
qed

lemma emits_deliver:
  assumes "emits r []" and "length (deliver_bytes utf8 use_gsm7 addr ts ref_num pdu_count pdu_index) \<le> cap"
    and "text_units utf8 use_gsm7 \<le> unit_limit use_gsm7" and "address_bytes addr \<le> length (ad_data addr)" and "7 \<le> length ts"
  shows "\<exists>r'. gsm_rope_add_sms_deliver_pdu alloc r utf8 use_gsm7 addr ts ref_num pdu_count pdu_index = Inr r' \<and>
    emits r' (deliver_bytes utf8 use_gsm7 addr ts ref_num pdu_count pdu_index)"
proof -
  define h where "h = [0, if 1 < pdu_count then 0x60 else 0x20 :: u8]"
  define k where "k = [0, if use_gsm7 then 0 else 9 :: u8]"
  have l: "length (h @ address_field addr @ k @ take 7 ts @ text_field utf8 use_gsm7 ref_num pdu_count pdu_index) \<le> cap"
    using assms(2) by (simp add: deliver_bytes_def h_def k_def)
  have "emits (foldl (gsm_rope_add_c alloc) r h) ([] @ h)" using l by (intro emits_add_cs assms(1)) simp
  then have "emits (foldl (gsm_rope_add_c alloc) r h) h" by simp
  from emits_address [OF this _ assms(4)] l obtain r1 where r1:
    "gsm_rope_add_address alloc (foldl (gsm_rope_add_c alloc) r h) addr = Inr r1" "emits r1 (h @ address_field addr)" by auto
  have "emits (foldl (gsm_rope_add_c alloc) r1 k) ((h @ address_field addr) @ k)" using l by (intro emits_add_cs r1) simp
  from emits_add [OF this, of 7 ts] l assms(5) obtain r2 where r2:
    "gsm_rope_add alloc (foldl (gsm_rope_add_c alloc) r1 k) ts 7 = Inr r2" "emits r2 (h @ address_field addr @ k @ take 7 ts)" by auto
  from emits_text [OF r2(2) _ assms(3), of ref_num pdu_count pdu_index] l show ?thesis
    using r1(1) r2(1) by (auto simp: gsm_rope_add_sms_deliver_pdu_def gsm_rope_add_timestamp_def deliver_bytes_def h_def k_def Let_def)
qed

end

lemma known_bytes_Some [simp]: "known_bytes (map Some bs) = Inr bs"
  by (induction bs) auto

lemma create_deliver:
  fixes ref_num pdu_count pdu_index :: nat
  assumes "text_units utf8 use_gsm7 \<le> unit_limit use_gsm7" and "address_bytes addr \<le> length (ad_data addr)" and "7 \<le> length ts"
  defines "bs \<equiv> deliver_bytes utf8 use_gsm7 addr ts ref_num pdu_count pdu_index"
  shows "smspdu_create_deliver alloc utf8 use_gsm7 addr ts ref_num pdu_count pdu_index =
    Inr (if alloc sizeof_SmsPDURec \<and> alloc (length bs) then Some \<lparr>pdu_bytes = bs, pdu_tpdu = 1\<rparr> else None)"
proof -
  define P where "P r = gsm_rope_add_sms_deliver_pdu alloc r utf8 use_gsm7 addr ts ref_num pdu_count pdu_index" for r
  have pos: "0 < length bs" by (simp add: bs_def deliver_bytes_def)
  obtain r1 where r1: "P gsm_rope_init = Inr r1" "counts False r1 bs"
    using counting.emits_deliver [OF init_counts _ assms(1-3), of ref_num pdu_count pdu_index "length bs" alloc] by (auto simp: bs_def P_def)
  have "rp_pos r1 = length bs" "\<not> rp_error r1" using r1(2) by (simp_all add: counts_def)
  note c = smspdu_create_deliver_def [of alloc utf8 use_gsm7 addr ts ref_num pdu_count pdu_index, folded P_def]
  show ?thesis
  proof (cases "alloc (length bs)")
    case True
    obtain r2 where r2: "P (gsm_rope_init_alloc alloc (length bs)) = Inr r2" "writes (length bs) r2 bs"
      using writing.emits_deliver [OF init_writes [of "length bs" alloc, OF pos True] _ assms(1-3), of ref_num pdu_count pdu_index] by (auto simp: bs_def P_def)
    then show ?thesis using r1 True by (auto simp: c counts_def writes_def gsm_rope_done_acquire_def)
  next
    case False
    obtain r2 where r2: "P (gsm_rope_init_alloc alloc (length bs)) = Inr r2" "counts True r2 bs"
      using counting.emits_deliver [OF init_fails [of "length bs" alloc, OF pos False] _ assms(1-3), of ref_num pdu_count pdu_index "length bs" alloc] by (auto simp: bs_def P_def)
    then show ?thesis using r1 False by (auto simp: c counts_def gsm_rope_done_acquire_def)
  qed
qed

section \<open>Splitting a text\<close>

text \<open>Both ways to skip characters are one walk over the characters with a weight for each.\<close>

function skip_weight :: "(u32 \<Rightarrow> nat) \<Rightarrow> u8 list \<Rightarrow> nat \<Rightarrow> u8 list" where
  "skip_weight w p n =
     (case utf8_next p of
        None \<Rightarrow> p
      | Some (c, q) \<Rightarrow> if c <s 0 \<or> n < w c then p else skip_weight w q (n - w c))"
  by pat_completeness auto
termination by (relation "measure (\<lambda>(_, p, _). length p)") (auto dest: utf8_next_shorter)

declare skip_weight.simps [simp del]

definition septets :: "u32 \<Rightarrow> nat" where
  "septets c = (if unichar_to_gsm7_count c = 0 then 1 else unichar_to_gsm7_count c)"

definition weight :: "bool \<Rightarrow> u32 \<Rightarrow> nat" where
  "weight use_gsm7 = (if use_gsm7 then septets else (\<lambda>_. 2))"

lemma septets_pos: "0 < septets c"
  by (simp add: septets_def)

lemma skip_gsm7_weight: "utf8_skip_gsm7 p n = skip_weight septets p n"
proof (induction p n rule: utf8_skip_gsm7.induct)
  case (1 p n)
  have IH: "utf8_skip_gsm7 q (n - septets c) = skip_weight septets q (n - septets c)"
    if "utf8_next p = Some (c, q)" "n \<noteq> 0" "\<not> c <s 0" "\<not> n < septets c" for c q
    using 1 [OF that(2,1) refl that(3) refl] that(4) by (simp add: septets_def [symmetric])
  show ?case using IH septets_pos
    unfolding utf8_skip_gsm7.simps [of p n] skip_weight.simps [of septets p n] Let_def septets_def [symmetric] by (auto split: option.splits)
qed

lemma skip_ucs2_weight: "utf8_skip_ucs2 p n = skip_weight (\<lambda>_. 2) p n"
proof (induction p n rule: utf8_skip_ucs2.induct)
  case (1 p n)
  then show ?case by (subst utf8_skip_ucs2.simps, subst skip_weight.simps) (auto split: option.splits)
qed

lemma text_units_weight: "text_units utf8 use_gsm7 = sum_list (map (weight use_gsm7) (utf8_chars utf8))"
  by (simp add: text_units_def weight_def utf8_to_gsm7_count_def septets_def [abs_def] ucs2_length sum_list_triv)

lemma utf8_next_prefix:
  assumes "utf8_next p = Some (c, y @ s)"
  shows "\<exists>x. p = x @ y @ s \<and> utf8_next (x @ y) = Some (c, y)"
proof -
  obtain b p' where p: "p = b # p'" using assms by (cases p) auto
  show ?thesis
  proof (cases "b < 128")
    case True
    then show ?thesis using assms p by (intro exI [of _ "[b]"]) simp
  next
    case False
    define t where "t = takeWhile is_cont p'"
    have q: "c = foldl add_cont (lead_bits b) t" "dropWhile is_cont p' = y @ s" using assms p False by (auto simp: t_def)
    have "p' = t @ y @ s" using q(2) takeWhile_dropWhile_id [of is_cont p'] by (simp add: t_def)
    moreover have "\<forall>x \<in> set t. is_cont x" by (auto simp: t_def dest: set_takeWhileD)
    moreover have "y = [] \<or> \<not> is_cont (hd y)" using q(2) hd_dropWhile [of is_cont p'] by (cases y) auto
    then have "takeWhile is_cont y = []" "dropWhile is_cont y = y" by (cases y; simp)+
    ultimately show ?thesis using p q False by (intro exI [of _ "b # t"]) simp
  qed
qed

lemma skip_weight_split: "\<exists>x. p = x @ skip_weight w p n \<and> sum_list (map w (utf8_chars x)) \<le> n"
proof (induction w p n rule: skip_weight.induct)
  case (1 w p n)
  have stop: "\<exists>x. p = x @ p \<and> sum_list (map w (utf8_chars x)) \<le> n" by (intro exI [of _ "[]"]) (simp add: utf8_chars.simps)
  show ?case
  proof (cases "utf8_next p")
    case None
    then show ?thesis using stop by (simp add: skip_weight.simps [of w p])
  next
    case (Some cq)
    obtain c q where cq: "cq = (c, q)" by force
    show ?thesis
    proof (cases "c <s 0 \<or> n < w c")
      case True
      then show ?thesis using Some cq stop by (simp add: skip_weight.simps [of w p])
    next
      case False
      then obtain y where y: "q = y @ skip_weight w q (n - w c)" "sum_list (map w (utf8_chars y)) \<le> n - w c"
        using 1 [OF Some cq [symmetric] False] by auto
      define r where "r = skip_weight w q (n - w c)"
      obtain x where x: "p = x @ q" "utf8_next (x @ y) = Some (c, y)"
        using utf8_next_prefix [of p c y r] Some cq y(1) by (auto simp: r_def)
      have "utf8_chars (x @ y) = c # utf8_chars y" using x(2) False by (simp add: utf8_chars.simps [of "x @ y"])
      moreover have "skip_weight w p n = r" using Some cq False by (simp add: skip_weight.simps [of w p] r_def)
      ultimately show ?thesis using x(1) y False by (intro exI [of _ "x @ y"]) (auto simp: r_def)
    qed
  qed
qed

lemma skip_weight_text:
  "\<forall>c \<in> set cs. c < 0x200000 \<and> w c = k \<Longrightarrow> 0 < k \<Longrightarrow>
    skip_weight w (concat (map utf8_write cs)) n = concat (map utf8_write (drop (n div k) cs))"
proof (induction cs arbitrary: n)
  case Nil
  then show ?case by (simp add: skip_weight.simps)
next
  case (Cons c cs)
  note t = text_next [of c cs]
  show ?case
  proof (cases "n < k")
    case True
    then show ?thesis using Cons.prems t by (simp add: skip_weight.simps [of w "_ @ _"])
  next
    case False
    then have "n div k = Suc ((n - k) div k)" using Cons.prems(2) le_div_geq by simp
    then show ?thesis using Cons t False by (simp add: skip_weight.simps [of w "_ @ _"])
  qed
qed

lemma deliver_parts_weight:
  "deliver_parts src use_gsm7 block leftover num_pdus (Suc k) =
     (let skip = (if 0 < leftover \<and> num_pdus - Suc k = num_pdus - 1 then leftover else block);
          src_next = skip_weight (weight use_gsm7) src skip
      in take (length src - length src_next) src # deliver_parts src_next use_gsm7 block leftover num_pdus k)"
  by (simp add: Let_def weight_def skip_gsm7_weight skip_ucs2_weight)

lemma deliver_parts_units:
  assumes "leftover \<le> block" and "t \<in> set (deliver_parts src use_gsm7 block leftover num_pdus k)"
  shows "text_units t use_gsm7 \<le> block"
  using assms(2)
proof (induction k arbitrary: src)
  case (Suc k)
  define skip where "skip = (if 0 < leftover \<and> num_pdus - Suc k = num_pdus - 1 then leftover else block)"
  obtain x where x: "src = x @ skip_weight (weight use_gsm7) src skip" "sum_list (map (weight use_gsm7) (utf8_chars x)) \<le> skip"
    using skip_weight_split by blast
  have "take (length src - length (skip_weight (weight use_gsm7) src skip)) src = x"
    using x(1) by (metis add_diff_cancel_right' append_eq_conv_conj length_append)
  then consider "t = x" | "t \<in> set (deliver_parts (skip_weight (weight use_gsm7) src skip) use_gsm7 block leftover num_pdus k)"
    using Suc.prems unfolding deliver_parts_weight by (auto simp: Let_def skip_def)
  then show ?case
  proof cases
    case 1
    then show ?thesis using x(2) assms(1) by (simp add: text_units_weight skip_def split: if_splits)
  qed (rule Suc.IH)
qed simp

lemma length_deliver_parts [simp]: "length (deliver_parts src use_gsm7 block leftover num_pdus k) = k"
  by (induction k arbitrary: src) (simp_all add: Let_def)

lemma deliver_plan_units:
  "deliver_plan utf8 =
     (let use_gsm7 = utf8_check_gsm7 utf8; units = text_units utf8 use_gsm7; block = unit_limit use_gsm7
      in (use_gsm7, block, units mod block, units div block + (if 0 < units mod block then 1 else 0)))"
proof -
  have "2 * (length (utf8_to_ucs2 utf8) div 2) = length (utf8_to_ucs2 utf8)" by (simp add: ucs2_length)
  then show ?thesis unfolding deliver_plan_def Let_def minus_div_mult_eq_mod
    by (simp add: unit_limit_def text_units_def MAX_USER_DATA_SEPTETS_def MAX_USER_DATA_BYTES_def USER_DATA_HEADER_SIZE_def)
qed

lemma plan_bounds:
  assumes "deliver_plan utf8 = (use_gsm7, block, leftover, num_pdus)"
  shows "block = unit_limit use_gsm7" and "leftover < block" and "leftover = text_units utf8 use_gsm7 mod block"
    and "num_pdus = text_units utf8 use_gsm7 div block + (if 0 < leftover then 1 else 0)" and "use_gsm7 = utf8_check_gsm7 utf8"
  using assms unfolding deliver_plan_units Let_def by (auto simp: unit_limit_def)

lemma create_parts_all:
  assumes "\<And>t nn. t \<in> set ts \<Longrightarrow> create t nn = Inr (if ok t nn then Some (p t nn) else None)"
  shows "create_parts create ts nn =
    Inr (if \<forall>i < length ts. ok (ts ! i) (nn + i) then Some (map (\<lambda>i. p (ts ! i) (nn + i)) [0..<length ts]) else None)"
  using assms
proof (induction ts arbitrary: nn)
  case (Cons t ts)
  have u: "[0..<length (t # ts)] = 0 # map Suc [0..<length ts]" by (simp add: map_Suc_upt upt_conv_Cons del: upt_Suc)
  have a: "(\<forall>i < length (t # ts). ok ((t # ts) ! i) (nn + i)) \<longleftrightarrow> ok t nn \<and> (\<forall>i < length ts. ok (ts ! i) (nn + 1 + i))"
    by (auto simp: less_Suc_eq_0_disj)
  show ?case unfolding a u using Cons by (simp add: o_def)
qed simp

lemma create_deliver_utf8:
  fixes ref_num :: u8
  assumes "deliver_plan utf8 = (use_gsm7, block, leftover, n)" and "address_bytes addr \<le> length (ad_data addr)"
    and "7 \<le> length (case timestamp of None \<Rightarrow> now | Some t \<Rightarrow> t)"
  defines "parts \<equiv> deliver_parts utf8 use_gsm7 block leftover n n"
  defines "unit \<equiv> \<lambda>i. deliver_bytes (parts ! i) use_gsm7 addr (case timestamp of None \<Rightarrow> now | Some t \<Rightarrow> t) (unat ref_num) n i"
  shows "smspdu_create_deliver_utf8 alloc utf8 addr timestamp now ref_num =
    Inr (if alloc (8 * (n + 1)) \<and> (\<forall>i < n. alloc sizeof_SmsPDURec \<and> alloc (length (unit i)))
         then (Some (map (\<lambda>i. \<lparr>pdu_bytes = unit i, pdu_tpdu = 1\<rparr>) [0..<n]), ref_num + 1) else (None, ref_num))"
    and "\<forall>t \<in> set parts. text_units t use_gsm7 \<le> unit_limit use_gsm7"
proof -
  define ts where "ts = (case timestamp of None \<Rightarrow> now | Some t \<Rightarrow> t)"
  define bytes where "bytes t i = deliver_bytes t use_gsm7 addr ts (unat ref_num) n i" for t i
  note pb = plan_bounds [OF assms(1)]
  show u: "\<forall>t \<in> set parts. text_units t use_gsm7 \<le> unit_limit use_gsm7"
    using deliver_parts_units [of leftover block] pb(1,2) by (auto simp: parts_def)
  have "create_parts (\<lambda>t nn. smspdu_create_deliver alloc t use_gsm7 addr ts (unat ref_num) n nn) parts 0 =
    Inr (if \<forall>i < length parts. alloc sizeof_SmsPDURec \<and> alloc (length (bytes (parts ! i) (0 + i)))
         then Some (map (\<lambda>i. \<lparr>pdu_bytes = bytes (parts ! i) (0 + i), pdu_tpdu = 1\<rparr>) [0..<length parts]) else None)"
    using create_deliver [OF _ assms(2,3)] u by (intro create_parts_all) (auto simp: bytes_def ts_def)
  then show "smspdu_create_deliver_utf8 alloc utf8 addr timestamp now ref_num =
    Inr (if alloc (8 * (n + 1)) \<and> (\<forall>i < n. alloc sizeof_SmsPDURec \<and> alloc (length (unit i)))
         then (Some (map (\<lambda>i. \<lparr>pdu_bytes = unit i, pdu_tpdu = 1\<rparr>) [0..<n]), ref_num + 1) else (None, ref_num))"
    unfolding smspdu_create_deliver_utf8_def assms(1) Let_def parts_def [symmetric] ts_def [symmetric] prod.case
    by (auto simp: parts_def unit_def bytes_def ts_def)
qed

lemma part_text:
  "take (length (concat (map utf8_write cs)) - length (concat (map utf8_write (drop b cs)))) (concat (map utf8_write cs)) = concat (map utf8_write (take b cs))"
proof -
  have "concat (map utf8_write cs) = concat (map utf8_write (take b cs)) @ concat (map utf8_write (drop b cs))"
    by (metis append_take_drop_id concat_append map_append)
  then show ?thesis by (metis add_diff_cancel_right' append_eq_conv_conj length_append)
qed

lemma deliver_parts_text:
  assumes "0 < k" and "\<forall>c \<in> set cs. c < 0x200000 \<and> weight use_gsm7 c = k" and "0 < b" and "l < b" and "j \<le> n"
    and "length cs = (if j = 0 then 0 else b * (j - 1) + (if 0 < l then l else b))"
  shows "concat (deliver_parts (concat (map utf8_write cs)) use_gsm7 (k * b) (k * l) n j) = concat (map utf8_write cs)"
  using assms(2,5,6)
proof (induction j arbitrary: cs)
  case (Suc j)
  define m where "m = (if j = 0 then length cs else b)"
  have skip: "(if 0 < k * l \<and> n - Suc j = n - 1 then k * l else k * b) div k = m"
    using Suc.prems(2,3) assms(1) by (auto simp: m_def)
  have w: "skip_weight (weight use_gsm7) (concat (map utf8_write cs)) (if 0 < k * l \<and> n - Suc j = n - 1 then k * l else k * b) =
    concat (map utf8_write (drop m cs))"
    using skip_weight_text [OF Suc.prems(1) assms(1)] skip by simp
  have len: "length (drop m cs) = (if j = 0 then 0 else b * (j - 1) + (if 0 < l then l else b))"
    using Suc.prems(3) by (cases j) (auto simp: m_def)
  have "concat (deliver_parts (concat (map utf8_write (drop m cs))) use_gsm7 (k * b) (k * l) n j) = concat (map utf8_write (drop m cs))"
    using Suc.prems(1,2) len by (intro Suc.IH) (auto dest: in_set_dropD)
  then have "concat (deliver_parts (concat (map utf8_write cs)) use_gsm7 (k * b) (k * l) n (Suc j)) =
    concat (map utf8_write (take m cs)) @ concat (map utf8_write (drop m cs))"
    unfolding deliver_parts_weight Let_def w part_text by simp
  then show ?case by (metis append_take_drop_id concat_append map_append)
qed simp

lemma septets_1: "unichar_to_gsm7_count c \<noteq> 2 \<Longrightarrow> septets c = 1"
  by (auto simp: septets_def unichar_to_gsm7_count_def split: if_splits)

lemma sum_list_uniform: "\<forall>c \<in> set cs. w c = k \<Longrightarrow> sum_list (map w cs) = k * length cs"
  by (induction cs) auto

lemma deliver_covers:
  assumes "\<forall>c \<in> set cs. c < 0x200000" and "utf8 = concat (map utf8_write cs)" and "deliver_plan utf8 = (use_gsm7, block, leftover, n)"
    and "use_gsm7 \<longrightarrow> (\<forall>c \<in> set cs. unichar_to_gsm7_count c \<noteq> 2)"
  shows "concat (deliver_parts utf8 use_gsm7 block leftover n n) = utf8"
proof -
  define k where "k = (if use_gsm7 then 1 else 2 :: nat)"
  define b where "b = (if use_gsm7 then 154 else 67 :: nat)"
  note p = plan_bounds [OF assms(3)]
  have w: "\<forall>c \<in> set cs. c < 0x200000 \<and> weight use_gsm7 c = k"
    using assms(1,4) septets_1 by (auto simp: weight_def k_def)
  have u: "text_units utf8 use_gsm7 = k * length cs"
    using chars_write [OF assms(1)] sum_list_uniform [of cs "weight use_gsm7" k] w by (simp add: text_units_weight assms(2))
  have kb: "block = k * b" "0 < k" "0 < b" using p(1) by (simp_all add: unit_limit_def k_def b_def)
  have l: "leftover = k * (length cs mod b)" "n = length cs div b + (if 0 < length cs mod b then 1 else 0)"
    using p(3,4) u kb by simp_all
  have "length cs = (if n = 0 then 0 else b * (n - 1) + (if 0 < length cs mod b then length cs mod b else b))"
    using l(2) kb(3) div_mult_mod_eq [of "length cs" b] by (cases "length cs div b") (auto simp: algebra_simps split: if_splits)
  then show ?thesis using deliver_parts_text [OF kb(2) w kb(3), of "length cs mod b" n n] kb(3) by (simp add: kb(1) l(1) assms(2))
qed

text \<open>C15: Building the units of a text message is safe and complete for every byte string, malformed UTF-8 included: for a sender address whose
  digits fit its record and a time stamp of seven bytes, no assertion of the encoder fails and no byte outside the buffers is touched, although each
  unit is written by a second run of the writer into a buffer sized by a first one. The result is the list of the units of the planned parts, each
  with the bytes of the format (type, address, protocol, coding scheme, time stamp, length, header of a concatenated message, packed text) and a
  text within the limit, and the next reference number; or no list and the same reference number when some allocation fails.\<close>

theorem deliver_units:
  fixes ref_num :: u8
  assumes "deliver_plan utf8 = (use_gsm7, block, leftover, n)" and "address_bytes addr \<le> length (ad_data addr)" and "7 \<le> length ts"
  shows "smspdu_create_deliver_utf8 alloc utf8 addr (Some ts) now ref_num =
    Inr (if alloc (8 * (n + 1)) \<and>
            (\<forall>i < n. alloc sizeof_SmsPDURec \<and>
               alloc (length (deliver_bytes (deliver_parts utf8 use_gsm7 block leftover n n ! i) use_gsm7 addr ts (unat ref_num) n i)))
         then (Some (map (\<lambda>i. \<lparr>pdu_bytes = deliver_bytes (deliver_parts utf8 use_gsm7 block leftover n n ! i) use_gsm7 addr ts (unat ref_num) n i,
                  pdu_tpdu = 1\<rparr>) [0..<n]), ref_num + 1)
         else (None, ref_num)) \<and>
    (\<forall>t \<in> set (deliver_parts utf8 use_gsm7 block leftover n n). text_units t use_gsm7 \<le> unit_limit use_gsm7)"
  using create_deliver_utf8 [OF assms(1,2), where timestamp = "Some ts"] assms(3) by simp

theorem deliver_units_witness:
  "smspdu_create_deliver_utf8 (\<lambda>_. True) [0x48, 0x69] \<lparr>ad_len = 3, ad_toa = 0x81, ad_data = [0x21, 0x03] @ replicate 14 0\<rparr> (Some [1, 2, 3, 4, 5, 6, 7]) [] 9 =
    Inr (Some [\<lparr>pdu_bytes = [0, 0x20, 3, 0x81, 0x21, 0xf3, 0, 0, 1, 2, 3, 4, 5, 6, 7, 2, 0xc8, 0x34], pdu_tpdu = 1\<rparr>], 10)"
proof -
  have p: "deliver_plan [0x48, 0x69] = (True, 154, 2, 1)" by code_simp
  have d: "deliver_parts [0x48, 0x69] True 154 2 1 1 = [[0x48, 0x69]]" by code_simp
  have b: "deliver_bytes [0x48, 0x69] True \<lparr>ad_len = 3, ad_toa = 0x81, ad_data = [0x21, 0x03] @ replicate 14 0\<rparr> [1, 2, 3, 4, 5, 6, 7] 9 1 0 =
    [0, 0x20, 3, 0x81, 0x21, 0xf3, 0, 0, 1, 2, 3, 4, 5, 6, 7, 2, 0xc8, 0x34]" by code_simp
  show ?thesis
    using deliver_units [OF p, of "\<lparr>ad_len = 3, ad_toa = 0x81, ad_data = [0x21, 0x03] @ replicate 14 0\<rparr>" "[1, 2, 3, 4, 5, 6, 7]" "\<lambda>_. True" "[]" 9]
    unfolding d by (simp add: b [simplified] address_bytes_def)
qed

text \<open>C18: The parts of a message are the message. For a text of encoded characters without the two-septet characters of the GSM extension table
  (or one that has to be sent as UCS-2), the parts in the order of their units join to exactly the text, and there are as many as the plan says.\<close>

theorem deliver_parts_join:
  assumes "\<forall>c \<in> set cs. c < 0x200000" and "utf8 = concat (map utf8_write cs)" and "deliver_plan utf8 = (use_gsm7, block, leftover, n)"
    and "use_gsm7 \<longrightarrow> (\<forall>c \<in> set cs. unichar_to_gsm7_count c \<noteq> 2)"
  shows "concat (deliver_parts utf8 use_gsm7 block leftover n n) = utf8 \<and> length (deliver_parts utf8 use_gsm7 block leftover n n) = n"
  using deliver_covers [OF assms] by simp

theorem deliver_parts_join_witness:
  "concat (deliver_parts [0xd0, 0x96, 0x41] False 134 4 1 1) = [0xd0, 0x96, 0x41]"
proof -
  have p: "deliver_plan [0xd0, 0x96, 0x41] = (False, 134, 4, 1)" by code_simp
  show ?thesis using deliver_parts_join [OF _ _ p, of "[0x416, 0x41]"] by (simp add: utf8_write_def)
qed

section \<open>Texts that do not fit the plan\<close>

lemma skip_weight_append:
  "\<forall>c \<in> set (cs @ ds). c < 0x200000 \<Longrightarrow> sum_list (map w cs) \<le> n \<Longrightarrow>
    skip_weight w (concat (map utf8_write (cs @ ds))) n = skip_weight w (concat (map utf8_write ds)) (n - sum_list (map w cs))"
proof (induction cs arbitrary: n)
  case (Cons c cs)
  then show ?case using text_next [of c "cs @ ds"] by (simp add: skip_weight.simps [of w "_ @ _"])
qed simp

lemma check_gsm7_text:
  "\<forall>c \<in> set cs. c < 0x200000 \<Longrightarrow> utf8_check_gsm7 (concat (map utf8_write cs)) \<longleftrightarrow> (\<forall>c \<in> set cs. unichar_to_gsm7_count c \<noteq> 0)"
proof (induction cs)
  case Nil
  then show ?case by (simp add: utf8_check_gsm7.simps)
next
  case (Cons c cs)
  then show ?case using text_next [of c cs] by (simp add: utf8_check_gsm7.simps [of "_ @ _"])
qed

lemma letters: "concat (map utf8_write (replicate n 0x41)) = replicate n 0x41" "septets 0x41 = 1" "septets 0x7b = 2" "septets 0x42 = 1"
    "unichar_to_gsm7_count 0x41 = 1" "unichar_to_gsm7_count 0x7b = 2" "unichar_to_gsm7_count 0x42 = 1" "utf8_write 0x7b = [0x7b]" "utf8_write 0x42 = [0x42]"
    "concat (replicate n (utf8_write 0x41)) = replicate n 0x41"
proof -
  have "utf8_write 0x41 = [0x41]" by code_simp
  then show "concat (map utf8_write (replicate n 0x41)) = replicate n 0x41" "concat (replicate n (utf8_write 0x41)) = replicate n 0x41"
    by (induction n) auto
qed code_simp+

lemma long_text: "replicate 153 0x41 @ [0x7b, 0x42] = concat (map utf8_write (replicate 153 0x41 @ [0x7b, 0x42]))"
  by (simp add: letters)

lemma text_units_text: "\<forall>c \<in> set cs. c < 0x200000 \<Longrightarrow> text_units (concat (map utf8_write cs)) use_gsm7 = sum_list (map (weight use_gsm7) cs)"
  by (simp add: text_units_weight chars_write)

text \<open>With a two-septet character at the end of a block the parts do not hold the whole text: 153 letters, a brace, and another letter.\<close>

theorem deliver_parts_cut:
  "deliver_plan (replicate 153 0x41 @ [0x7b, 0x42]) = (True, 154, 2, 2)"
  "deliver_parts (replicate 153 0x41 @ [0x7b, 0x42]) True 154 2 2 2 = [replicate 153 0x41, [0x7b]]"
proof -
  define cs :: "u32 list" where "cs = replicate 153 0x41 @ [0x7b, 0x42]"
  have t: "replicate 153 0x41 @ [0x7b, 0x42] = concat (map utf8_write cs)" unfolding cs_def by (rule long_text)
  have v: "\<forall>c \<in> set cs. c < 0x200000" by (auto simp: cs_def)
  have "utf8_check_gsm7 (concat (map utf8_write cs))" using check_gsm7_text [OF v] by (auto simp: cs_def letters)
  moreover have "text_units (concat (map utf8_write cs)) True = 156"
    unfolding text_units_text [OF v] weight_def by (simp add: cs_def letters sum_list_replicate)
  ultimately show "deliver_plan (replicate 153 0x41 @ [0x7b, 0x42]) = (True, 154, 2, 2)"
    unfolding t deliver_plan_units by (simp add: unit_limit_def)
  have "skip_weight septets (concat (map utf8_write cs)) 154 = skip_weight septets [0x7b, 0x42] 1"
    using skip_weight_append [of "replicate 153 0x41" "[0x7b, 0x42]" septets 154] v
    by (simp add: cs_def letters sum_list_replicate)
  also have "\<dots> = [0x7b, 0x42]" by code_simp
  finally have s: "skip_weight septets (replicate 153 0x41 @ [0x7b, 0x42]) 154 = [0x7b, 0x42]" by (simp only: t)
  have r: "deliver_parts [0x7b, 0x42] True 154 2 2 1 = [[0x7b]]" by code_simp
  show "deliver_parts (replicate 153 0x41 @ [0x7b, 0x42]) True 154 2 2 2 = [replicate 153 0x41, [0x7b]]"
    unfolding numeral_2_eq_2 deliver_parts_weight unfolding numeral_2_eq_2 [symmetric] using s r [unfolded One_nat_def deliver_parts_weight] by (simp add: weight_def Let_def)
qed

text \<open>A full part of a concatenated message needs 161 septets and 141 bytes of user data.\<close>

theorem deliver_part_too_long:
  "text_field (replicate 154 0x41) True ref_num 2 i ! 0 = 161" "length (text_field (replicate 154 0x41) True ref_num 2 i) = 1 + 141"
proof -
  have "text_units (replicate 154 0x41) True = 154"
    using text_units_text [of "replicate 154 0x41" True] by (simp add: letters weight_def sum_list_replicate)
  moreover from this have "utf8_to_gsm7_count (replicate 154 0x41) = 154" by (simp add: text_units_def)
  ultimately show "text_field (replicate 154 0x41) True ref_num 2 i ! 0 = 161" "length (text_field (replicate 154 0x41) True ref_num 2 i) = 1 + 141"
    by (simp_all add: text_field_def Let_def header_field_def utf8_to_gsm7_length)
qed

end
