(* ===== verification/Sms_Receiver.thy ===== *)
theory Sms_Receiver
  imports Sms_Pdu
begin

text \<open>
  The receiver of submitted messages, the end of \<open>android/telephony/sms.c\<close>: it collects the units of a message until all have arrived and turns
  them into the units that deliver the text. The linked list of fragments is a list, the slots of a fragment are a list of optional units.
  The address record a unit is parsed into is an uninitialised local variable of the code; what it holds before is the parameter \<open>from0\<close>.
\<close>

section \<open>Operations\<close>

record SmsFragmentRec =
  fr_from :: SmsAddressRec
  fr_ref :: u8
  fr_max :: u8
  fr_count :: u8
  fr_index :: nat
  fr_pdus :: "SmsPDURec option list"

record SmsReceiverRec =
  rc_last :: nat
  rc_fragments :: "SmsFragmentRec list"

definition sizeof_SmsFragmentRec :: nat where "sizeof_SmsFragmentRec = 48"

definition sms_receiver_create :: SmsReceiverRec where
  "sms_receiver_create = \<lparr>rc_last = 0, rc_fragments = []\<rparr>"

definition sms_receiver_destroy :: "SmsReceiverRec \<Rightarrow> SmsReceiverRec" where
  "sms_receiver_destroy rec = rec\<lparr>rc_fragments := []\<rparr>"

definition sms_fragment_alloc ::
    "(nat \<Rightarrow> bool) \<Rightarrow> SmsReceiverRec \<Rightarrow> SmsAddressRec \<Rightarrow> u8 \<Rightarrow> nat \<Rightarrow> (SmsFragmentRec \<times> SmsReceiverRec) option" where
  "sms_fragment_alloc alloc rec sender ref maxi =
     (if alloc (sizeof_SmsFragmentRec + maxi * 8)
      then Some (\<lparr>fr_from = sender, fr_ref = ref, fr_max = of_nat maxi, fr_count = 0, fr_index = rc_last rec + 1, fr_pdus = replicate maxi None\<rparr>,
                 rec\<lparr>rc_last := rc_last rec + 1\<rparr>)
      else None)"

text \<open>Both searches give the position of the fragment, or the length of the list.\<close>

fun sms_receiver_find_p :: "SmsFragmentRec list \<Rightarrow> SmsAddressRec \<Rightarrow> u8 \<Rightarrow> nat res" where
  "sms_receiver_find_p [] sender ref = Inr 0"
| "sms_receiver_find_p (node # nodes) sender ref =
     (if fr_ref node = ref
      then res_bind (sms_address_eq (fr_from node) sender) (\<lambda>eq.
             if eq then Inr 0 else res_bind (sms_receiver_find_p nodes sender ref) (\<lambda>n. Inr (Suc n)))
      else res_bind (sms_receiver_find_p nodes sender ref) (\<lambda>n. Inr (Suc n)))"

fun sms_receiver_find_index_p :: "SmsFragmentRec list \<Rightarrow> nat \<Rightarrow> nat" where
  "sms_receiver_find_index_p [] index = 0"
| "sms_receiver_find_index_p (node # nodes) index = (if fr_index node = index then 0 else Suc (sms_receiver_find_index_p nodes index))"

text \<open>A unit goes into its slot; a unit already there is dropped. A slot past the end of the fragment is outside its memory.\<close>

definition fragment_store :: "SmsFragmentRec \<Rightarrow> nat \<Rightarrow> SmsPDURec \<Rightarrow> SmsFragmentRec res" where
  "fragment_store frag cur pdu =
     (if length (fr_pdus frag) \<le> cur then Inl Undefined
      else let count = (if fr_pdus frag ! cur \<noteq> None then fr_count frag - 1 else fr_count frag)
           in Inr (frag\<lparr>fr_pdus := (fr_pdus frag)[cur := Some pdu], fr_count := count + 1\<rparr>))"

definition open_fragment :: "(nat \<Rightarrow> bool) \<Rightarrow> SmsReceiverRec \<Rightarrow> SmsAddressRec \<Rightarrow> u8 \<Rightarrow> nat \<Rightarrow> nat \<Rightarrow> SmsReceiverRec option" where
  "open_fragment alloc rec sender ref maxi pnode =
     (if pnode < length (rc_fragments rec) then Some rec
      else case sms_fragment_alloc alloc rec sender ref maxi of
             None \<Rightarrow> None
           | Some (frag, rec) \<Rightarrow> Some (rec\<lparr>rc_fragments := rc_fragments rec @ [frag]\<rparr>))"

definition sms_receiver_add_submit_pdu :: "(nat \<Rightarrow> bool) \<Rightarrow> SmsAddressRec \<Rightarrow> SmsReceiverRec \<Rightarrow> SmsPDURec \<Rightarrow> (int \<times> SmsReceiverRec) res" where
  "sms_receiver_add_submit_pdu alloc from0 rec submit_pdu =
     (case smspdu_get_receiver_address submit_pdu from0 of
        None \<Rightarrow> Inr (- 1, rec)
      | Some sender \<Rightarrow>
        res_bind (smspdu_get_ref submit_pdu) (\<lambda>ref.
        case ref of
          None \<Rightarrow> Inr (- 1, rec)
        | Some ref \<Rightarrow>
          res_bind (smspdu_get_max_index submit_pdu) (\<lambda>maxi.
          if maxi < 0 then Inr (- 1, rec)
          else res_bind (sms_receiver_find_p (rc_fragments rec) sender ref) (\<lambda>pnode.
          case open_fragment alloc rec sender ref (nat maxi) pnode of
            None \<Rightarrow> Inr (- 1, rec)
          | Some rec \<Rightarrow>
            res_bind (smspdu_get_cur_index submit_pdu) (\<lambda>cur.
            if cur < 0 \<or> maxi \<le> cur then Inr (- 1, rec)
            else res_bind (fragment_store (rc_fragments rec ! pnode) (nat cur) submit_pdu) (\<lambda>frag.
              Inr (if fr_max frag \<le> fr_count frag then int (fr_index frag) else 0,
                   rec\<lparr>rc_fragments := (rc_fragments rec)[pnode := frag]\<rparr>)))))))"

text \<open>
  The texts of the slots, one after the other: the total (minus one for a unit without a text), and the bytes that reach a buffer. With no buffer
  only the length is computed. Bytes are only stored at a position of the buffer that is not negative.
\<close>

definition store_text :: "(nat \<Rightarrow> u8 option) \<Rightarrow> int \<Rightarrow> u8 list \<Rightarrow> (nat \<Rightarrow> u8 option) res" where
  "store_text buf off t = (if t = [] then Inr buf else if off < 0 then Inl Undefined else Inr (blit buf (nat off) (map Some t)))"

definition partial_text :: "(nat \<Rightarrow> bool) \<Rightarrow> SmsPDURec option \<Rightarrow> nat \<Rightarrow> (int \<times> u8 list) res" where
  "partial_text alloc slot utf8len =
     (case slot of
        None \<Rightarrow> Inl Undefined
      | Some pdu \<Rightarrow> res_bind (smspdu_get_text_message alloc pdu utf8len) (\<lambda>r.
          case r of None \<Rightarrow> Inr (- 1, []) | Some (n, t) \<Rightarrow> Inr (int n, t)))"

fun text_copy_loop :: "(nat \<Rightarrow> bool) \<Rightarrow> SmsPDURec option list \<Rightarrow> int \<Rightarrow> int \<Rightarrow> (nat \<Rightarrow> u8 option) \<Rightarrow> (nat \<Rightarrow> u8 option) res" where
  "text_copy_loop alloc [] utf8len acc buf = Inr buf"
| "text_copy_loop alloc (p # pdus) utf8len acc buf =
     res_bind (partial_text alloc p (nat (utf8len - acc))) (\<lambda>(n, t).
     res_bind (store_text buf acc t) (\<lambda>buf. text_copy_loop alloc pdus utf8len (acc + n) buf))"

text \<open>The buffer of \<open>sms_receiver_get_text_message\<close> moves with its position and its length.\<close>

fun text_message_loop :: "(nat \<Rightarrow> bool) \<Rightarrow> SmsPDURec option list \<Rightarrow> int \<Rightarrow> int \<Rightarrow> int \<Rightarrow> (nat \<Rightarrow> u8 option) \<Rightarrow> (int \<times> (nat \<Rightarrow> u8 option)) res" where
  "text_message_loop alloc [] off utf8len acc buf = Inr (acc, buf)"
| "text_message_loop alloc (p # pdus) off utf8len acc buf =
     (if 0 < utf8len
      then res_bind (partial_text alloc p (nat utf8len)) (\<lambda>(n, t).
           res_bind (store_text buf off t) (\<lambda>buf. text_message_loop alloc pdus (off + n) (utf8len - n) (acc + n) buf))
      else res_bind (partial_text alloc p 0) (\<lambda>(n, t). text_message_loop alloc pdus off utf8len (acc + n) buf))"

definition frag_at :: "SmsReceiverRec \<Rightarrow> nat \<Rightarrow> SmsFragmentRec option" where
  "frag_at rec index =
     (let n = sms_receiver_find_index_p (rc_fragments rec) index
      in if n < length (rc_fragments rec) then Some (rc_fragments rec ! n) else None)"

definition sms_receiver_get_text_message ::
    "(nat \<Rightarrow> bool) \<Rightarrow> SmsReceiverRec \<Rightarrow> nat \<Rightarrow> int \<Rightarrow> (nat \<Rightarrow> u8 option) \<Rightarrow> (int \<times> (nat \<Rightarrow> u8 option)) res" where
  "sms_receiver_get_text_message alloc rec index utf8len buf =
     (case frag_at rec index of
        None \<Rightarrow> Inr (- 1, buf)
      | Some frag \<Rightarrow>
          if fr_count frag \<noteq> fr_max frag then Inr (- 1, buf)
          else text_message_loop alloc (take (unat (fr_count frag)) (fr_pdus frag)) 0 utf8len 0 buf)"

definition sms_receiver_remove :: "SmsReceiverRec \<Rightarrow> nat \<Rightarrow> SmsReceiverRec" where
  "sms_receiver_remove rec index =
     (let n = sms_receiver_find_index_p (rc_fragments rec) index
      in if n < length (rc_fragments rec) then rec\<lparr>rc_fragments := take n (rc_fragments rec) @ drop (Suc n) (rc_fragments rec)\<rparr> else rec)"

definition sms_receiver_create_deliver ::
    "(nat \<Rightarrow> bool) \<Rightarrow> SmsReceiverRec \<Rightarrow> nat \<Rightarrow> SmsAddressRec \<Rightarrow> u8 list \<Rightarrow> u8 \<Rightarrow> (SmsPDURec list option \<times> SmsReceiverRec \<times> u8) res" where
  "sms_receiver_create_deliver alloc rec index sender now ref_num =
     (case frag_at rec index of
        None \<Rightarrow> Inr (None, rec, ref_num)
      | Some frag \<Rightarrow>
          if fr_count frag \<noteq> fr_max frag then Inr (None, rec, ref_num)
          else let pdus = take (unat (fr_count frag)) (fr_pdus frag)
               in res_bind (sms_receiver_get_text_message alloc rec index 0 (\<lambda>_. None)) (\<lambda>(utf8len, _).
                  if utf8len < 0 \<or> \<not> alloc (nat utf8len + 1) then Inr (None, sms_receiver_remove rec index, ref_num)
                  else res_bind (text_copy_loop alloc pdus utf8len 0 (\<lambda>_. None)) (\<lambda>buf.
                       res_bind (known_bytes (map buf [0..<nat utf8len])) (\<lambda>utf8.
                       res_bind (smspdu_create_deliver_utf8 alloc utf8 sender (Some now) now ref_num) (\<lambda>(result, ref_num).
                         Inr (result, sms_receiver_remove rec index, ref_num))))))"

section \<open>The invariant of the receiver\<close>

definition fragment_ok :: "SmsFragmentRec \<Rightarrow> bool" where
  "fragment_ok f \<longleftrightarrow> length (fr_pdus f) = unat (fr_max f) \<and> unat (fr_count f) = length (filter (\<lambda>p. p \<noteq> None) (fr_pdus f))"

definition receiver_ok :: "SmsReceiverRec \<Rightarrow> bool" where
  "receiver_ok rec \<longleftrightarrow> list_all fragment_ok (rc_fragments rec) \<and> list_all (\<lambda>f. 0 < fr_index f \<and> fr_index f \<le> rc_last rec) (rc_fragments rec) \<and>
     distinct (map fr_index (rc_fragments rec))"

lemma byte_less: "unat (b :: u8) < 256"
  using unsigned_less [of b] by simp

lemma filter_update:
  "i < length xs \<Longrightarrow> P y \<Longrightarrow> length (filter P (xs[i := y])) = length (filter P xs) + (if P (xs ! i) then 0 else 1)"
  by (induction xs arbitrary: i) (auto split: nat.splits)

lemma fragment_store_ok:
  assumes "fragment_ok f" and "fragment_store f cur pdu = Inr f'"
  shows "fragment_ok f'" and "fr_index f' = fr_index f" and "fr_max f' = fr_max f" and "fr_pdus f' = (fr_pdus f)[cur := Some pdu]"
proof -
  have cur: "cur < length (fr_pdus f)" using assms(2) by (auto simp: fragment_store_def split: if_splits)
  define k where "k = length (filter (\<lambda>p. p \<noteq> None) (fr_pdus f))"
  have f': "f' = f\<lparr>fr_pdus := (fr_pdus f)[cur := Some pdu], fr_count := (if fr_pdus f ! cur \<noteq> None then fr_count f else fr_count f + 1)\<rparr>"
    using assms(2) cur by (auto simp: fragment_store_def Let_def)
  have u: "length (filter (\<lambda>p. p \<noteq> None) ((fr_pdus f)[cur := Some pdu])) = k + (if fr_pdus f ! cur \<noteq> None then 0 else 1)"
    using filter_update [OF cur, of "\<lambda>p. p \<noteq> None" "Some pdu"] by (simp add: k_def)
  have "unat (fr_count f + 1) = k + 1" if "fr_pdus f ! cur = None"
  proof -
    have "k + 1 \<le> length (fr_pdus f)" using u that length_filter_le [of "\<lambda>p. p \<noteq> None" "(fr_pdus f)[cur := Some pdu]"] by simp
    then have "k + 1 < 256" using assms(1) byte_less [of "fr_max f"] by (simp add: fragment_ok_def)
    moreover have "unat (fr_count f) = k" using assms(1) by (simp add: fragment_ok_def k_def)
    ultimately show ?thesis by (simp add: unat_word_ariths)
  qed
  then show "fragment_ok f'" using assms(1) u by (simp add: f' fragment_ok_def k_def)
  show "fr_index f' = fr_index f" "fr_max f' = fr_max f" "fr_pdus f' = (fr_pdus f)[cur := Some pdu]" by (simp_all add: f')
qed

lemma max_index_bound: "smspdu_get_max_index pdu = Inr m \<Longrightarrow> 0 \<le> m \<and> m \<le> 255"
proof -
  have "unat b \<le> 255" for b :: u8 using byte_less [of b] by simp
  then have "int (unat b) \<le> 255" for b :: u8 by (metis of_nat_le_iff of_nat_numeral)
  then show "smspdu_get_max_index pdu = Inr m \<Longrightarrow> 0 \<le> m \<and> m \<le> 255"
    unfolding smspdu_get_max_index_def by (auto simp: res_bind_eq_Inr split: option.splits)
qed

lemma new_fragment_ok:
  assumes "receiver_ok rec" and "sms_fragment_alloc alloc rec sender ref m = Some (f, rec')" and "m \<le> 255"
  shows "receiver_ok (rec'\<lparr>rc_fragments := rc_fragments rec' @ [f]\<rparr>)"
proof -
  have "unat (of_nat m :: u8) = m" using assms(3) by (simp add: unat_of_nat)
  moreover have "fr_index g \<le> rc_last rec" if "g \<in> set (rc_fragments rec)" for g using assms(1) that by (auto simp: receiver_ok_def list_all_iff)
  ultimately show ?thesis using assms(1,2)
    by (fastforce simp: receiver_ok_def sms_fragment_alloc_def fragment_ok_def list_all_iff split: if_splits)
qed

lemma update_fragment_ok:
  assumes "receiver_ok rec" and "n < length (rc_fragments rec)" and "fragment_store (rc_fragments rec ! n) cur pdu = Inr f"
  shows "receiver_ok (rec\<lparr>rc_fragments := (rc_fragments rec)[n := f]\<rparr>)"
proof -
  have "fragment_ok (rc_fragments rec ! n)" using assms(1,2) by (simp add: receiver_ok_def list_all_length)
  note f = fragment_store_ok [OF this assms(3)]
  have "map fr_index ((rc_fragments rec)[n := f]) = map fr_index (rc_fragments rec)"
    using f(2) assms(2) by (simp add: map_update list_update_same_conv)
  then show ?thesis using assms(1,2) f by (auto simp: receiver_ok_def list_all_length nth_list_update)
qed

lemma remove_ok: "receiver_ok rec \<Longrightarrow> receiver_ok (sms_receiver_remove rec index)"
proof -
  assume ok: "receiver_ok rec"
  define n where "n = sms_receiver_find_index_p (rc_fragments rec) index"
  have "set (take n (rc_fragments rec) @ drop (Suc n) (rc_fragments rec)) \<subseteq> set (rc_fragments rec)"
    by (auto dest: in_set_takeD in_set_dropD)
  moreover have "distinct (map fr_index (take n (rc_fragments rec) @ drop (Suc n) (rc_fragments rec)))"
  proof (cases "n < length (rc_fragments rec)")
    case True
    then have "rc_fragments rec = take n (rc_fragments rec) @ rc_fragments rec ! n # drop (Suc n) (rc_fragments rec)" by (rule id_take_nth_drop)
    then have "distinct (map fr_index (take n (rc_fragments rec) @ rc_fragments rec ! n # drop (Suc n) (rc_fragments rec)))"
      using ok by (simp add: receiver_ok_def)
    then show ?thesis by auto
  next
    case False
    then show ?thesis using ok by (simp add: receiver_ok_def)
  qed
  ultimately show ?thesis using ok
    by (auto simp: sms_receiver_remove_def Let_def n_def [symmetric] receiver_ok_def list_all_iff dest: in_set_takeD in_set_dropD)
qed

lemma find_p_le: "sms_receiver_find_p fs sender ref = Inr n \<Longrightarrow> n \<le> length fs"
  by (induction fs arbitrary: n) (auto simp: res_bind_eq_Inr split: if_splits)

lemma filter_full: "length (filter P xs) = length xs \<longleftrightarrow> list_all P xs"
  by (simp add: filter_id_conv list_all_iff) (metis filter_id_conv length_filter_less nat_less_le)

lemma fragment_complete: "fragment_ok f \<Longrightarrow> fr_max f \<le> fr_count f \<longleftrightarrow> list_all (\<lambda>p. p \<noteq> None) (fr_pdus f)"
proof -
  assume f: "fragment_ok f"
  have "length (filter (\<lambda>p. p \<noteq> None) (fr_pdus f)) \<le> length (fr_pdus f)" by (rule length_filter_le)
  then have "fr_max f \<le> fr_count f \<longleftrightarrow> length (filter (\<lambda>p. p \<noteq> None) (fr_pdus f)) = length (fr_pdus f)"
    using f unfolding fragment_ok_def word_le_nat_alt by linarith
  then show ?thesis by (simp only: filter_full)
qed

lemma submit_elim:
  assumes "sms_receiver_add_submit_pdu alloc from0 rec pdu = Inr (ret, rec')"
  obtains "rec' = rec" and "ret = - 1"
  | sender ref m n where "smspdu_get_max_index pdu = Inr m" and "sms_receiver_find_p (rc_fragments rec) sender ref = Inr n"
      and "open_fragment alloc rec sender ref (nat m) n = Some rec'" and "ret = - 1"
  | sender ref m n rec1 cur f where "smspdu_get_receiver_address pdu from0 = Some sender" and "smspdu_get_ref pdu = Inr (Some ref)"
      and "smspdu_get_max_index pdu = Inr m" and "sms_receiver_find_p (rc_fragments rec) sender ref = Inr n"
      and "open_fragment alloc rec sender ref (nat m) n = Some rec1" and "smspdu_get_cur_index pdu = Inr (int cur)"
      and "fragment_store (rc_fragments rec1 ! n) cur pdu = Inr f" and "ret = (if fr_max f \<le> fr_count f then int (fr_index f) else 0)"
      and "rec' = rec1\<lparr>rc_fragments := (rc_fragments rec1)[n := f]\<rparr>"
proof -
  define r where "r f = (if fr_max f \<le> fr_count f then int (fr_index f) else 0)" for f :: SmsFragmentRec
  have "(rec' = rec \<and> ret = - 1) \<or>
    (\<exists>sender ref m n. smspdu_get_max_index pdu = Inr m \<and> sms_receiver_find_p (rc_fragments rec) sender ref = Inr n \<and>
       open_fragment alloc rec sender ref (nat m) n = Some rec' \<and> ret = - 1) \<or>
    (\<exists>sender ref m n rec1 cur f. smspdu_get_receiver_address pdu from0 = Some sender \<and> smspdu_get_ref pdu = Inr (Some ref) \<and>
       smspdu_get_max_index pdu = Inr m \<and> sms_receiver_find_p (rc_fragments rec) sender ref = Inr n \<and>
       open_fragment alloc rec sender ref (nat m) n = Some rec1 \<and> smspdu_get_cur_index pdu = Inr cur \<and> 0 \<le> cur \<and>
       fragment_store (rc_fragments rec1 ! n) (nat cur) pdu = Inr f \<and> ret = r f \<and>
       rec' = rec1\<lparr>rc_fragments := (rc_fragments rec1)[n := f]\<rparr>)"
    using assms unfolding sms_receiver_add_submit_pdu_def r_def [symmetric]
    by (auto simp: res_bind_eq_Inr not_less split: option.splits if_splits) blast+
  then show ?thesis
  proof (elim disjE exE conjE)
    fix sender ref m n rec1 cur f
    assume "smspdu_get_receiver_address pdu from0 = Some sender" "smspdu_get_ref pdu = Inr (Some ref)"
      "smspdu_get_max_index pdu = Inr m" "sms_receiver_find_p (rc_fragments rec) sender ref = Inr n"
      "open_fragment alloc rec sender ref (nat m) n = Some rec1" "smspdu_get_cur_index pdu = Inr cur" "0 \<le> cur"
      "fragment_store (rc_fragments rec1 ! n) (nat cur) pdu = Inr f" "ret = r f" "rec' = rec1\<lparr>rc_fragments := (rc_fragments rec1)[n := f]\<rparr>"
    then show thesis using that(3) [of sender ref m n rec1 "nat cur" f] by (simp add: r_def)
  qed (rule that; assumption)+
qed

lemma open_fragment_ok:
  assumes "open_fragment alloc rec sender ref m n = Some rec1" and "receiver_ok rec" and "m \<le> 255" and "n \<le> length (rc_fragments rec)"
  shows "receiver_ok rec1" and "n < length (rc_fragments rec1)"
proof -
  show "receiver_ok rec1"
    using assms new_fragment_ok [OF assms(2) _ assms(3)] by (auto simp: open_fragment_def split: if_splits option.splits)
  show "n < length (rc_fragments rec1)"
    using assms(1,4) by (auto simp: open_fragment_def sms_fragment_alloc_def split: if_splits option.splits)
qed

lemma open_fragment_keeps: "open_fragment alloc rec sender ref m n = Some rec1 \<Longrightarrow> take (length (rc_fragments rec)) (rc_fragments rec1) = rc_fragments rec"
  by (auto simp: open_fragment_def sms_fragment_alloc_def split: if_splits option.splits)

text \<open>
  What a submission answers: \<open>-1\<close> for a unit that is refused, which changes no pending message; otherwise the unit is in its slot of the message with its
  reference and address, and the answer is the index of this message, which is positive, or zero when a slot is still empty.
\<close>

definition submit_answer :: "SmsAddressRec \<Rightarrow> SmsReceiverRec \<Rightarrow> SmsPDURec \<Rightarrow> int \<Rightarrow> SmsReceiverRec \<Rightarrow> bool" where
  "submit_answer from0 rec pdu ret rec' \<longleftrightarrow>
     (if ret = - 1 then take (length (rc_fragments rec)) (rc_fragments rec') = rc_fragments rec
      else \<exists>sender ref n cur f. smspdu_get_receiver_address pdu from0 = Some sender \<and> smspdu_get_ref pdu = Inr (Some ref) \<and>
        smspdu_get_cur_index pdu = Inr (int cur) \<and> sms_receiver_find_p (rc_fragments rec) sender ref = Inr n \<and>
        n < length (rc_fragments rec') \<and> f = rc_fragments rec' ! n \<and> cur < length (fr_pdus f) \<and> fr_pdus f ! cur = Some pdu \<and> 0 < fr_index f \<and>
        ret = (if list_all (\<lambda>p. p \<noteq> None) (fr_pdus f) then int (fr_index f) else 0))"

lemma submit_ok:
  assumes "sms_receiver_add_submit_pdu alloc from0 rec pdu = Inr (ret, rec')" and "receiver_ok rec"
  shows "receiver_ok rec' \<and> submit_answer from0 rec pdu ret rec'"
  using assms(1)
proof (cases rule: submit_elim)
  case 1
  then show ?thesis using assms(2) by (simp add: submit_answer_def)
next
  case (2 sender ref m n)
  have "nat m \<le> 255" using max_index_bound [OF 2(1)] by (simp add: nat_le_iff)
  then show ?thesis using open_fragment_ok(1) [OF 2(3) assms(2) _ find_p_le [OF 2(2)]] open_fragment_keeps [OF 2(3)] 2(4) by (simp add: submit_answer_def)
next
  case (3 sender ref m n rec1 cur f)
  note o = open_fragment_ok [OF 3(5) assms(2) _ find_p_le [OF 3(4)]]
  have m: "nat m \<le> 255" using max_index_bound [OF 3(3)] by (simp add: nat_le_iff)
  have "fragment_ok (rc_fragments rec1 ! n)" using o m by (simp add: receiver_ok_def list_all_length)
  note f = fragment_store_ok [OF this 3(7)]
  have cur: "cur < length (fr_pdus (rc_fragments rec1 ! n))" using 3(7) by (auto simp: fragment_store_def split: if_splits)
  have n: "n < length (rc_fragments rec')" "rc_fragments rec' ! n = f" using o(2) [OF m] by (simp_all add: 3(9))
  have ok: "receiver_ok rec'" using update_fragment_ok [OF o(1) [OF m] o(2) [OF m] 3(7)] 3(9) by simp
  then have i: "0 < fr_index f" using n by (auto simp: receiver_ok_def list_all_length)
  moreover have "ret = (if list_all (\<lambda>p. p \<noteq> None) (fr_pdus f) then int (fr_index f) else 0)" using fragment_complete [OF f(1)] 3(8) by simp
  moreover have "cur < length (fr_pdus f)" "fr_pdus f ! cur = Some pdu" using f(4) cur by simp_all
  ultimately have "submit_answer from0 rec pdu ret rec'" unfolding submit_answer_def using n 3(1,2,4,6) by auto
  then show ?thesis using ok by simp
qed

lemma deliver_removes:
  "sms_receiver_create_deliver alloc rec index sender now ref_num = Inr (out, rec', ref_num') \<Longrightarrow> rec' = rec \<or> rec' = sms_receiver_remove rec index"
  unfolding sms_receiver_create_deliver_def
  by (auto simp: res_bind_eq_Inr Let_def split: option.splits if_splits)

text \<open>The operations of the receiver, in any order.\<close>

inductive receiver_step :: "(nat \<Rightarrow> bool) \<Rightarrow> SmsReceiverRec \<Rightarrow> SmsReceiverRec \<Rightarrow> bool" for alloc where
  submit: "sms_receiver_add_submit_pdu alloc from0 rec pdu = Inr (ret, rec') \<Longrightarrow> receiver_step alloc rec rec'"
| deliver: "sms_receiver_create_deliver alloc rec index sender now ref_num = Inr (out, rec', ref_num') \<Longrightarrow> receiver_step alloc rec rec'"

lemma step_ok: "receiver_step alloc rec rec' \<Longrightarrow> receiver_ok rec \<Longrightarrow> receiver_ok rec'"
  by (induction rule: receiver_step.induct) (auto dest: submit_ok deliver_removes intro: remove_ok)

lemma steps_ok: "(receiver_step alloc)\<^sup>*\<^sup>* sms_receiver_create rec \<Longrightarrow> receiver_ok rec"
  by (induction rule: rtranclp_induct) (simp add: receiver_ok_def sms_receiver_create_def, rule step_ok)

section \<open>A submitted text comes back\<close>

text \<open>
  A submitted unit with a text of the basic alphabet: its first byte, reference, address, coding scheme and text. It has no service centre
  address, no validity period and no header, which the first byte says.
\<close>

definition plain_submit :: "u8 \<Rightarrow> bool" where
  "plain_submit mti \<longleftrightarrow> mti AND 0x5b = 1"

definition submit_unit :: "u8 \<Rightarrow> u8 \<Rightarrow> u8 \<Rightarrow> u8 \<Rightarrow> u8 list \<Rightarrow> u8 \<Rightarrow> u32 list \<Rightarrow> SmsPDURec" where
  "submit_unit mti ref len toa digits dcs cs =
     \<lparr>pdu_bytes = [0, mti, ref, len, toa] @ digits @ [0, dcs, of_nat (length cs)] @ fst (utf8_to_gsm7 (concat (map utf8_write cs)) 0 0), pdu_tpdu = 1\<rparr>"

lemma grow_max_ge: "new_count \<le> grow_max m new_count"
proof (induction m new_count rule: grow_max.induct)
  case (1 m c)
  then show ?case by (cases "m < c") (simp_all add: grow_max.simps [of m c])
qed

lemma reserve_fresh:
  assumes "\<forall>n. alloc n"
  shows "\<exists>r. rope_fill (gsm_rope_reserve alloc (gsm_rope_init_alloc alloc 0) (length u)) (\<lambda>_. Inr u) = Inr r \<and>
    rope_text r utf8len = Inr (length u, take utf8len u)"
proof -
  define d where "d = (if 16 < length u then replicate (grow_max 16 (length u)) None else replicate 16 None :: u8 option list)"
  define r where "r = \<lparr>rp_data = (if 16 < length u then Heap else Data0) (overwrite d 0 (map Some u)), rp_pos = length u,
    rp_max = (if 16 < length u then grow_max 16 (length u) else 16), rp_error = False\<rparr>"
  have "length u \<le> length d" using grow_max_ge [of "length u" 16] by (simp add: d_def)
  then have b: "take n (overwrite d 0 (map Some u)) = map Some (take n u)" "length u \<le> length (overwrite d 0 (map Some u))" if "n \<le> length u" for n
    using that by (simp_all add: overwrite_def take_map)
  have "rope_fill (gsm_rope_reserve alloc (gsm_rope_init_alloc alloc 0) (length u)) (\<lambda>_. Inr u) = Inr r"
    using assms by (simp add: gsm_rope_init_alloc_def rope_fill_def gsm_rope_reserve_def gsm_rope_can_grow_def gsm_rope_ensure_def rope_advance_def
      rope_poke_def Let_def r_def d_def)
  moreover have "rope_text r utf8len = Inr (length u, take utf8len u)"
    using b(1) [of utf8len] b(1) [of "length u"] b(2) [of 0] by (simp add: rope_text_def r_def Let_def min_def)
  ultimately show ?thesis by blast
qed

lemma plain_submit_bits: "plain_submit mti \<Longrightarrow> mti_type (Some mti) = 1" "plain_submit mti \<Longrightarrow> \<not> mti_bit (Some mti)"
proof -
  assume a: "plain_submit mti"
  have "mti AND 3 = (mti AND 0x5b) AND 3" "mti AND 0x40 = (mti AND 0x5b) AND 0x40" by (simp_all add: and.assoc)
  then show "mti_type (Some mti) = 1" "\<not> mti_bit (Some mti)" using a by (simp_all add: plain_submit_def mti_type_def mti_bit_def)
qed

lemma submit_fields:
  fixes mti ref len toa dcs :: u8 and cs :: "u32 list"
  assumes "length digits = (unat len + 1) div 2" and "0 < len" and "unat len \<le> 32" and "length (ad_data a) = 16" and "plain_submit mti"
  defines "pdu \<equiv> submit_unit mti ref len toa digits dcs cs"
  shows "smspdu_get_receiver_address pdu a = Some (a\<lparr>ad_len := len, ad_toa := toa, ad_data := digits @ drop (length digits) (ad_data a)\<rparr>)"
    and "smspdu_get_ref pdu = Inr (Some ref)" and "smspdu_get_max_index pdu = Inr 1" and "smspdu_get_cur_index pdu = Inr 0"
    and "sms_get_address (pdu_bytes pdu) 3 a = Some (a\<lparr>ad_len := len, ad_toa := toa, ad_data := digits @ drop (length digits) (ad_data a)\<rparr>, 5 + length digits)"
proof -
  have b: "sms_get_byte (pdu_bytes pdu) (pdu_tpdu pdu) = (Some mti, 2)" by (simp add: pdu_def submit_unit_def sms_get_byte_def)
  have u: "smspdu_get_user_data_ref pdu = Inr None" by (simp add: smspdu_get_user_data_ref_def b plain_submit_bits [OF assms(5)])
  have n: "length digits \<le> 16" using assms(1,3) by simp
  show adr: "sms_get_address (pdu_bytes pdu) 3 a =
      Some (a\<lparr>ad_len := len, ad_toa := toa, ad_data := digits @ drop (length digits) (ad_data a)\<rparr>, 5 + length digits)"
    using assms(1,2) n unfolding sms_get_address_def Let_def pdu_def submit_unit_def by (simp add: SMS_ADDRESS_MAX_SIZE_def)
  show "smspdu_get_receiver_address pdu a = Some (a\<lparr>ad_len := len, ad_toa := toa, ad_data := digits @ drop (length digits) (ad_data a)\<rparr>)"
    using adr by (simp add: smspdu_get_receiver_address_def b plain_submit_bits [OF assms(5)])
  show "smspdu_get_ref pdu = Inr (Some ref)" unfolding smspdu_get_ref_def u b by (simp add: plain_submit_bits [OF assms(5)]) (simp add: pdu_def submit_unit_def)
  show "smspdu_get_max_index pdu = Inr 1" "smspdu_get_cur_index pdu = Inr 0" by (simp_all add: smspdu_get_max_index_def smspdu_get_cur_index_def u)
qed

lemma submit_text:
  fixes mti len :: u8
  assumes "length digits = (unat len + 1) div 2" and "0 < len" and "unat len \<le> 32" and "coding_scheme dcs = SMS_CODING_SCHEME_GSM7"
    and "\<forall>c \<in> set cs. gsm7_plain c" and "length cs \<le> 160" and "\<forall>n. alloc n" and "plain_submit mti"
  defines "u \<equiv> concat (map utf8_write cs)"
  shows "smspdu_get_text_message alloc (submit_unit mti ref len toa digits dcs cs) utf8len = Inr (Some (length u, take utf8len u))"
proof -
  define pdu where "pdu = submit_unit mti ref len toa digits dcs cs"
  define a where "a = \<lparr>ad_len = 0, ad_toa = 0, ad_data = replicate 16 (0 :: u8)\<rparr>"
  have b: "sms_get_byte (pdu_bytes pdu) (pdu_tpdu pdu) = (Some mti, 2)" by (simp add: pdu_def submit_unit_def sms_get_byte_def)
  note adr = submit_fields(5) [OF assms(1-3) _ assms(8), of a ref toa dcs cs, folded pdu_def]
  have c: "sms_get_coding_scheme (pdu_bytes pdu) (5 + length digits + 1) = (SMS_CODING_SCHEME_GSM7, 7 + length digits)"
    using assms(4) by (simp add: sms_get_coding_scheme_def pdu_def submit_unit_def nth_append)
  have l: "unat (of_nat (length cs) :: u8) = length cs" using assms(6) by (simp add: unat_of_nat)
  have t: "text_start (pdu_bytes pdu) (7 + length digits) False SMS_CODING_SCHEME_GSM7 = Some (length cs, 8 + length digits)"
    using l by (simp add: text_start_def pdu_def submit_unit_def nth_append Let_def)
  have "pdu_bytes pdu = ([0, mti, ref, len, toa] @ digits @ [0, dcs, of_nat (length cs)]) @ fst (utf8_to_gsm7 u 0 0)"
    "length ([0, mti, ref, len, toa] @ digits @ [0, dcs, of_nat (length cs)]) = 8 + length digits" by (simp_all add: pdu_def submit_unit_def u_def)
  then have d: "drop (8 + length digits) (pdu_bytes pdu) = fst (utf8_to_gsm7 u 0 0)" by (metis append_eq_conv_conj)
  have g: "utf8_from_gsm7 (fst (utf8_to_gsm7 u 0 0)) 0 (length cs) = Inr u" using gsm7_text(3) [OF assms(5), of 0 0] by (simp add: u_def)
  from reserve_fresh [OF assms(7), of u utf8len] obtain r where
    r: "rope_fill (gsm_rope_reserve alloc (gsm_rope_init_alloc alloc 0) (length u)) (\<lambda>_. Inr u) = Inr r" "rope_text r utf8len = Inr (length u, take utf8len u)"
    by blast
  show ?thesis unfolding pdu_def [symmetric] smspdu_get_text_message_def Let_def b prod.case
    using adr c by (simp add: plain_submit_bits [OF assms(8)] a_def sms_get_text_utf8_def t d g r)
qed

lemma find_index_new: "\<forall>g \<in> set fs. fr_index g \<noteq> k \<Longrightarrow> fr_index f = k \<Longrightarrow> sms_receiver_find_index_p (fs @ [f]) k = length fs"
  by (induction fs) auto

lemma single_slot:
  assumes "\<And>n. smspdu_get_text_message alloc pdu n = Inr (Some (length u, take n u))"
  shows "text_message_loop alloc [Some pdu] 0 0 0 (\<lambda>_. None) = Inr (int (length u), \<lambda>_. None)"
    and "\<exists>buf. text_copy_loop alloc [Some pdu] (int (length u)) 0 (\<lambda>_. None) = Inr buf \<and> map buf [0..<length u] = map Some u"
proof -
  have p: "partial_text alloc (Some pdu) n = Inr (int (length u), take n u)" for n using assms by (simp add: partial_text_def)
  show "text_message_loop alloc [Some pdu] 0 0 0 (\<lambda>_. None) = Inr (int (length u), \<lambda>_. None)" by (simp add: p)
  show "\<exists>buf. text_copy_loop alloc [Some pdu] (int (length u)) 0 (\<lambda>_. None) = Inr buf \<and> map buf [0..<length u] = map Some u"
    using window_blit_same [of "\<lambda>_. None" 0 "map Some u"] by (cases "u = []") (simp_all add: p store_text_def window_def)
qed

lemma submit_new:
  fixes mti ref len toa dcs :: u8 and cs :: "u32 list"
  assumes "length digits = (unat len + 1) div 2" and "0 < len" and "unat len \<le> 32" and "length (ad_data from0) = 16" and "\<forall>n. alloc n"
  defines "pdu \<equiv> submit_unit mti ref len toa digits dcs cs"
    and "sender \<equiv> from0\<lparr>ad_len := len, ad_toa := toa, ad_data := digits @ drop (length digits) (ad_data from0)\<rparr>"
  assumes "sms_receiver_find_p (rc_fragments rec) sender ref = Inr (length (rc_fragments rec))" and "plain_submit mti"
  shows "sms_receiver_add_submit_pdu alloc from0 rec pdu = Inr (int (rc_last rec + 1),
    \<lparr>rc_last = rc_last rec + 1, rc_fragments = rc_fragments rec @
      [\<lparr>fr_from = sender, fr_ref = ref, fr_max = 1, fr_count = 1, fr_index = rc_last rec + 1, fr_pdus = [Some pdu]\<rparr>]\<rparr>)"
proof -
  note f = submit_fields [OF assms(1-4,9), of ref toa dcs cs, folded pdu_def sender_def]
  show ?thesis unfolding sms_receiver_add_submit_pdu_def
    using f assms(5,8) by (simp add: open_fragment_def sms_fragment_alloc_def fragment_store_def nth_append list_update_append)
qed

lemma submit_delivers:
  fixes mti ref len toa dcs ref_num :: u8 and cs :: "u32 list"
  assumes "receiver_ok rec" and "\<forall>n. alloc n" and "length digits = (unat len + 1) div 2" and "0 < len" and "unat len \<le> 32"
    and "length (ad_data from0) = 16" and "coding_scheme dcs = SMS_CODING_SCHEME_GSM7" and "\<forall>c \<in> set cs. gsm7_plain c" and "length cs \<le> 160"
    and "sms_receiver_find_p (rc_fragments rec) (from0\<lparr>ad_len := len, ad_toa := toa, ad_data := digits @ drop (length digits) (ad_data from0)\<rparr>) ref =
      Inr (length (rc_fragments rec))"
    and "deliver_plan (concat (map utf8_write cs)) = (use_gsm7, block, leftover, n)"
    and "address_bytes sender \<le> length (ad_data sender)" and "7 \<le> length now" and "plain_submit mti"
  shows "\<exists>rec'. sms_receiver_add_submit_pdu alloc from0 rec (submit_unit mti ref len toa digits dcs cs) = Inr (int (rc_last rec + 1), rec') \<and>
    sms_receiver_create_deliver alloc rec' (rc_last rec + 1) sender now ref_num =
      Inr (Some (map (\<lambda>i. \<lparr>pdu_bytes = deliver_bytes (deliver_parts (concat (map utf8_write cs)) use_gsm7 block leftover n n ! i) use_gsm7 sender now
          (unat ref_num) n i, pdu_tpdu = 1\<rparr>) [0..<n]), rec\<lparr>rc_last := rc_last rec + 1\<rparr>, ref_num + 1) \<and>
    concat (deliver_parts (concat (map utf8_write cs)) use_gsm7 block leftover n n) = concat (map utf8_write cs)"
proof -
  define u where "u = concat (map utf8_write cs)"
  define f where "f = \<lparr>fr_from = from0\<lparr>ad_len := len, ad_toa := toa, ad_data := digits @ drop (length digits) (ad_data from0)\<rparr>, fr_ref = ref, fr_max = 1,
    fr_count = 1, fr_index = rc_last rec + 1, fr_pdus = [Some (submit_unit mti ref len toa digits dcs cs)]\<rparr>"
  define rec' where "rec' = \<lparr>rc_last = rc_last rec + 1, rc_fragments = rc_fragments rec @ [f]\<rparr>"
  have add: "sms_receiver_add_submit_pdu alloc from0 rec (submit_unit mti ref len toa digits dcs cs) = Inr (int (rc_last rec + 1), rec')"
    using submit_new [OF assms(3-6,2,10,14)] by (simp add: rec'_def f_def)
  have new: "\<forall>g \<in> set (rc_fragments rec). fr_index g \<noteq> rc_last rec + 1" using assms(1) by (fastforce simp: receiver_ok_def list_all_iff)
  have i: "sms_receiver_find_index_p (rc_fragments rec') (rc_last rec + 1) = length (rc_fragments rec)"
    unfolding rec'_def using find_index_new [OF new, of f] by (simp add: f_def)
  have at: "frag_at rec' (rc_last rec + 1) = Some f" unfolding frag_at_def i Let_def by (simp add: rec'_def)
  have rm: "sms_receiver_remove rec' (rc_last rec + 1) = rec\<lparr>rc_last := rc_last rec + 1\<rparr>"
    unfolding sms_receiver_remove_def i Let_def by (simp add: rec'_def)
  note t = single_slot [OF submit_text [OF assms(3-5,7-9,2,14)], of ref toa, folded u_def]
  from t(2) obtain buf where buf: "text_copy_loop alloc [Some (submit_unit mti ref len toa digits dcs cs)] (int (length u)) 0 (\<lambda>_. None) = Inr buf"
    "map buf [0..<length u] = map Some u" by blast
  have al: "alloc = (\<lambda>_. True)" using assms(2) by auto
  have plain: "\<forall>c \<in> set cs. c < 0x200000" "\<forall>c \<in> set cs. unichar_to_gsm7_count c \<noteq> 2"
    using plain_codes [OF assms(8)] assms(8) by (auto simp: gsm7_plain_def unichar_to_gsm7_count_def)
  have "sms_receiver_create_deliver alloc rec' (rc_last rec + 1) sender now ref_num =
    res_bind (smspdu_create_deliver_utf8 alloc u sender (Some now) now ref_num) (\<lambda>(result, ref_num). Inr (result, rec\<lparr>rc_last := rc_last rec + 1\<rparr>, ref_num))"
    unfolding sms_receiver_create_deliver_def sms_receiver_get_text_message_def at
    using t(1) buf rm unfolding al by (simp add: f_def del: text_message_loop.simps text_copy_loop.simps)
  moreover have "concat (deliver_parts u use_gsm7 block leftover n n) = u"
    using deliver_covers [OF plain(1) u_def assms(11) [folded u_def]] plain(2) by simp
  ultimately show ?thesis
    using add create_deliver_utf8(1) [OF assms(11) [folded u_def] assms(12), where timestamp = "Some now"] assms(2,13) by (simp add: u_def)
qed

text \<open>C13: A text message sent by the phone comes back unchanged. Take a submitted unit without a service centre address, a validity period and a header, whatever the
  other bits of its first byte, with one to 32 digits of a receiver and at most 160 characters of the basic alphabet in a coding scheme that is read as 7-bit; give it
  to a receiver with no pending message of that reference and address, while memory is available. The unit completes a message at once: the
  receiver returns the index of the message, and building the delivery for this index gives the units of parts that join to exactly the text,
  removes the message from the receiver and uses up one reference number.\<close>

theorem submitted_text_delivered:
  fixes mti ref len toa dcs ref_num :: u8 and cs :: "u32 list"
  assumes "receiver_ok rec" and "\<forall>n. alloc n" and "length digits = (unat len + 1) div 2" and "0 < len" and "unat len \<le> 32"
    and "length (ad_data from0) = 16" and "coding_scheme dcs = SMS_CODING_SCHEME_GSM7" and "\<forall>c \<in> set cs. gsm7_plain c" and "length cs \<le> 160"
    and "sms_receiver_find_p (rc_fragments rec) (from0\<lparr>ad_len := len, ad_toa := toa, ad_data := digits @ drop (length digits) (ad_data from0)\<rparr>) ref =
      Inr (length (rc_fragments rec))"
    and "deliver_plan (concat (map utf8_write cs)) = (use_gsm7, block, leftover, n)"
    and "address_bytes sender \<le> length (ad_data sender)" and "7 \<le> length now" and "plain_submit mti"
  shows "\<exists>rec'. sms_receiver_add_submit_pdu alloc from0 rec (submit_unit mti ref len toa digits dcs cs) = Inr (int (rc_last rec + 1), rec') \<and>
    sms_receiver_create_deliver alloc rec' (rc_last rec + 1) sender now ref_num =
      Inr (Some (map (\<lambda>i. \<lparr>pdu_bytes = deliver_bytes (deliver_parts (concat (map utf8_write cs)) use_gsm7 block leftover n n ! i) use_gsm7 sender now
          (unat ref_num) n i, pdu_tpdu = 1\<rparr>) [0..<n]), rec\<lparr>rc_last := rc_last rec + 1\<rparr>, ref_num + 1) \<and>
    concat (deliver_parts (concat (map utf8_write cs)) use_gsm7 block leftover n n) = concat (map utf8_write cs)"
  by (rule submit_delivers [OF assms])

theorem submitted_text_delivered_witness:
  "\<exists>rec'. sms_receiver_add_submit_pdu (\<lambda>_. True) \<lparr>ad_len = 0, ad_toa = 0, ad_data = replicate 16 0\<rparr> sms_receiver_create
      (submit_unit 1 7 3 0x81 [0x21, 0xf3] 0 [0x48, 0x69]) = Inr (1, rec') \<and>
    (\<exists>out. sms_receiver_create_deliver (\<lambda>_. True) rec' 1 \<lparr>ad_len = 2, ad_toa = 0x81, ad_data = 0x21 # replicate 15 0\<rparr> [1, 2, 3, 4, 5, 6, 7] 9 =
      Inr (Some out, sms_receiver_create\<lparr>rc_last := 1\<rparr>, 9 + 1) \<and> length out = 1)"
proof -
  have p: "deliver_plan (concat (map utf8_write [0x48, 0x69])) = (True, 154, 2, 1)" by code_simp
  have g: "\<forall>c \<in> set [0x48, 0x69 :: u32]. gsm7_plain c"
    by (simp add: gsm7_plain_def unichar_to_gsm7_def find_code_def gsm7bits_to_unicode_def upt_conv_Cons)
  have c: "coding_scheme 0 = SMS_CODING_SCHEME_GSM7" by code_simp
  have h: "receiver_ok sms_receiver_create" "\<forall>n :: nat. True" "length [0x21, 0xf3 :: u8] = (unat (3 :: u8) + 1) div 2" "(0 :: u8) < 3" "unat (3 :: u8) \<le> 32"
    "length (ad_data \<lparr>ad_len = 0, ad_toa = 0, ad_data = replicate 16 0\<rparr>) = 16" "length [0x48, 0x69 :: u32] \<le> 160"
    "sms_receiver_find_p (rc_fragments sms_receiver_create) (\<lparr>ad_len = 0, ad_toa = 0, ad_data = replicate 16 0\<rparr>\<lparr>ad_len := 3, ad_toa := 0x81, ad_data :=
       [0x21, 0xf3] @ drop (length [0x21, 0xf3 :: u8]) (ad_data \<lparr>ad_len = 0, ad_toa = 0, ad_data = replicate 16 0\<rparr>)\<rparr>) 7 = Inr (length (rc_fragments sms_receiver_create))"
    "address_bytes \<lparr>ad_len = 2, ad_toa = 0x81, ad_data = 0x21 # replicate 15 0\<rparr> \<le> length (ad_data \<lparr>ad_len = 2, ad_toa = 0x81, ad_data = 0x21 # replicate 15 0\<rparr>)"
    "7 \<le> length [1, 2, 3, 4, 5, 6, 7 :: u8]" "plain_submit 1"
    by (simp_all add: receiver_ok_def sms_receiver_create_def address_bytes_def plain_submit_def)
  have l: "rc_last sms_receiver_create + 1 = 1" by (simp add: sms_receiver_create_def)
  from submitted_text_delivered [OF h(1-6) c g h(7,8) p h(9-11), of 9, unfolded l of_nat_1] show ?thesis
    by (elim exE conjE) (intro exI conjI, assumption, assumption, simp)
qed

text \<open>C16: The receiver keeps its books. In every state reached from an empty receiver by submissions and deliveries in any order, whatever allocations succeed, each pending message
  has one slot per announced unit, its counter is the number of the slots that are filled, and the indices of the messages are positive, distinct
  and at most the last one given out. A submission that returns answers \<open>-1\<close> for a unit it refuses, and then no pending message has changed; otherwise the unit is in its
  slot of the message with its reference and address, and the answer is the positive index of this message exactly when it has no empty slot, and zero when it has one.\<close>

theorem receiver_books:
  assumes "(receiver_step alloc)\<^sup>*\<^sup>* sms_receiver_create rec" and "sms_receiver_add_submit_pdu alloc from0 rec pdu = Inr (ret, rec')"
  shows "receiver_ok rec \<and> receiver_ok rec' \<and>
    (if ret = - 1 then take (length (rc_fragments rec)) (rc_fragments rec') = rc_fragments rec
     else \<exists>sender ref n cur f. smspdu_get_receiver_address pdu from0 = Some sender \<and> smspdu_get_ref pdu = Inr (Some ref) \<and>
       smspdu_get_cur_index pdu = Inr (int cur) \<and> sms_receiver_find_p (rc_fragments rec) sender ref = Inr n \<and>
       n < length (rc_fragments rec') \<and> f = rc_fragments rec' ! n \<and> cur < length (fr_pdus f) \<and> fr_pdus f ! cur = Some pdu \<and> 0 < fr_index f \<and>
       ret = (if list_all (\<lambda>p. p \<noteq> None) (fr_pdus f) then int (fr_index f) else 0))"
  using steps_ok [OF assms(1)] submit_ok [OF assms(2)] unfolding submit_answer_def by blast

theorem receiver_books_witness:
  "receiver_ok \<lparr>rc_last = 1, rc_fragments = [\<lparr>fr_from = \<lparr>ad_len = 3, ad_toa = 0x81, ad_data = [0x21, 0xf3] @ replicate 14 0\<rparr>, fr_ref = 7, fr_max = 1, fr_count = 1,
    fr_index = 1, fr_pdus = [Some (submit_unit 1 7 3 0x81 [0x21, 0xf3] 0 [])]\<rparr>]\<rparr>"
proof -
  have "sms_receiver_add_submit_pdu (\<lambda>_. True) \<lparr>ad_len = 0, ad_toa = 0, ad_data = replicate 16 0\<rparr> sms_receiver_create (submit_unit 1 7 3 0x81 [0x21, 0xf3] 0 []) =
    Inr (1, \<lparr>rc_last = 1, rc_fragments = [\<lparr>fr_from = \<lparr>ad_len = 3, ad_toa = 0x81, ad_data = [0x21, 0xf3] @ replicate 14 0\<rparr>, fr_ref = 7, fr_max = 1, fr_count = 1,
      fr_index = 1, fr_pdus = [Some (submit_unit 1 7 3 0x81 [0x21, 0xf3] 0 [])]\<rparr>]\<rparr>)" by code_simp
  from receiver_books [OF rtranclp.rtrancl_refl this] show ?thesis by (elim conjE) assumption
qed

section \<open>Units the readers do not understand\<close>

text \<open>A header element of length zero makes the search for the part number run until a counter overflows.\<close>

theorem header_search_runs_away:
  assumes "data + 2 \<le> length bs" and "bs ! (data + 1) = 0" and "2 \<le> len"
  shows "ref_loop bs data len = Inl Undefined"
  using assms
proof (induction bs data len rule: ref_loop.induct)
  case (1 bs data len)
  show ?case
  proof (cases "2 ^ 31 \<le> len + 2")
    case True
    then show ?thesis using 1(2-4) by (simp add: ref_loop.simps [of bs data len] Let_def)
  next
    case False
    then have "ref_loop bs data (len + 2) = Inl Undefined" using 1(1) [OF _ refl refl] 1(2-4) by simp
    then show ?thesis using 1(2-4) False by (simp add: ref_loop.simps [of bs data len] Let_def)
  qed
qed

text \<open>The header that the code itself writes into a delivered unit of a concatenated message is not found by its reader, because skipping the
  address does not move the cursor.\<close>

theorem own_header_not_found:
  "smspdu_get_max_index \<lparr>pdu_bytes = deliver_bytes [0x41] True \<lparr>ad_len = 4, ad_toa = 0x81, ad_data = [0x21, 0x43] @ replicate 14 0\<rparr> [1, 2, 3, 4, 5, 6, 7] 9 2 0,
     pdu_tpdu = 1\<rparr> = Inr 1"
  by code_simp

text \<open>The sender of a delivered unit is parsed as a service centre address, whose first byte counts bytes and not digits.\<close>

theorem sender_misread:
  "smspdu_get_sender_address \<lparr>pdu_bytes = deliver_bytes [0x41] True \<lparr>ad_len = 4, ad_toa = 0x81, ad_data = [0x21, 0x43] @ replicate 14 0\<rparr> [1, 2, 3, 4, 5, 6, 7] 9 1 0,
     pdu_tpdu = 1\<rparr> \<lparr>ad_len = 0, ad_toa = 0, ad_data = replicate 16 0\<rparr> =
   Some \<lparr>ad_len = 7, ad_toa = 0x81, ad_data = [0x21, 0x43, 0] @ replicate 13 0\<rparr>"
  by code_simp

text \<open>The coding scheme of a UCS-2 text, 8, is taken for the GSM alphabet.\<close>

theorem ucs2_scheme_misread: "coding_scheme 8 = SMS_CODING_SCHEME_GSM7" "coding_scheme 9 = SMS_CODING_SCHEME_GSM7"
  by code_simp+

text \<open>A submitted unit with a validity period of one byte, as its first byte says: the byte is taken for the length of the text, which then runs past the end.\<close>

theorem validity_period_misread:
  "sms_skip_validity_period [0, 0x09, 7, 3, 0x81, 0x21, 0xf3, 0, 0, 0xaa, 2, 0xc8, 0x34] 9 0x09 = Some 10"
  "smspdu_get_text_message (\<lambda>_. True) \<lparr>pdu_bytes = [0, 0x09, 7, 3, 0x81, 0x21, 0xf3, 0, 0, 0xaa, 2, 0xc8, 0x34], pdu_tpdu = 1\<rparr> 10 = Inl Undefined"
  by code_simp+

text \<open>A unit that announces more characters than it has makes the reader run past its end.\<close>

theorem text_length_unchecked: "smspdu_get_text_message (\<lambda>_. True) \<lparr>pdu_bytes = [0, 1, 7, 3, 0x81, 0x21, 0xf3, 0, 0, 5], pdu_tpdu = 1\<rparr> 10 = Inl Undefined"
  by code_simp

text \<open>A second unit of a message may announce more parts than the first; its slot is then outside the fragment.\<close>

theorem slot_outside_fragment:
  "fragment_store \<lparr>fr_from = a, fr_ref = r, fr_max = 1, fr_count = 0, fr_index = 1, fr_pdus = [None]\<rparr> 1 pdu = Inl Undefined"
  by (simp add: fragment_store_def)

end
