(* ===== verification/Remote_Call.thy ===== *)
theory Remote_Call
  imports Sms_Receiver C_String
begin

text \<open>
  Calls between emulators, \<open>android/telephony/remote_call.c\<close>: the phone number of an emulator is its console port behind a fixed prefix, and
  a call or a message to another emulator is a command sent to its console. Whether the console of a port can be reached, whether memory is
  left and the authentication token are parameters; a command that is sent is returned with its port.
\<close>

definition byte_char :: "u8 \<Rightarrow> char" where "byte_char b = char_of (unat b)"
definition char_byte :: "char \<Rightarrow> u8" where "char_byte c = word_of_nat (of_char c)"

lemma byte_char_inverse [simp]: "byte_char (char_byte c) = c" "char_byte (byte_char b) = b"
proof -
  have "(of_char c :: nat) < 256" using nat_of_char_less_256 .
  then show "byte_char (char_byte c) = c" by (simp add: byte_char_def char_byte_def unat_of_nat)
  have "unat b < 256" using unsigned_less [of b] by simp
  then show "char_byte (byte_char b) = b" by (simp add: byte_char_def char_byte_def of_char_of)
qed

lemma last_show_nat: "last (show_nat n) = char_of (48 + n mod 10)" and show_nat_nonempty: "show_nat n \<noteq> []"
  by (subst show_nat.simps, simp)+

lemma not_semicolon: "d < 10 \<Longrightarrow> char_of (48 + d :: nat) \<noteq> CHR '';''"
proof
  assume "d < 10" and "char_of (48 + d) = CHR '';''"
  moreover have "digit_value (CHR '';'') = 99" by (simp add: digit_value_def)
  ultimately show False using dec_digit [of d] by simp
qed

section \<open>Numbers and ports\<close>

definition PHONE_PREFIX :: string where "PHONE_PREFIX = ''1555521''"
definition REMOTE_NUMBER_BASE :: int where "REMOTE_NUMBER_BASE = 5554"
definition REMOTE_NUMBER_MAX :: int where "REMOTE_NUMBER_MAX = 16"
definition REMOTE_CONSOLE_PORT :: int where "REMOTE_CONSOLE_PORT = 5554"

definition show_dec :: "int \<Rightarrow> string" where
  "show_dec i = (if i < 0 then CHR ''-'' # show_nat (nat (- i)) else show_nat (nat i))"

definition remote_number_from_port :: "int \<Rightarrow> int" where
  "remote_number_from_port port =
     (if odd port then - 1
      else let p = (port - REMOTE_CONSOLE_PORT) div 2
           in if p < 0 \<or> REMOTE_NUMBER_MAX \<le> p then - 1 else REMOTE_NUMBER_BASE + p * 2)"

definition remote_number_to_port :: "int \<Rightarrow> int" where
  "remote_number_to_port number =
     (if odd number then - 1
      else let n = (number - REMOTE_NUMBER_BASE) div 2
           in if n < 0 \<or> REMOTE_NUMBER_MAX \<le> n then - 1 else REMOTE_CONSOLE_PORT + n * 2)"

definition remote_number_string_to_port :: "string \<Rightarrow> int" where
  "remote_number_string_to_port number =
     (let len = (if number \<noteq> [] \<and> last number = CHR '';'' then length number - 1 else length number);
          temp = (if len = 11 \<and> take 7 number = PHONE_PREFIX then drop 7 number else number);
          (num, end) = strtol 10 temp
      in if end \<noteq> [] \<or> num < - (2 ^ 31) \<or> 2 ^ 31 \<le> num then - 1 else remote_number_to_port num)"

section \<open>Commands to a console\<close>

datatype RemoteCallType = REMOTE_CALL_DIAL | REMOTE_CALL_BUSY | REMOTE_CALL_HANGUP | REMOTE_CALL_HOLD | REMOTE_CALL_ACCEPT | REMOTE_CALL_SMS

record remote_env =
  re_connect :: "int \<Rightarrow> bool"
  re_token :: "string option"
  re_alloc :: "nat \<Rightarrow> bool"

definition auth_command :: "remote_env \<Rightarrow> string" where
  "auth_command env = (case re_token env of Some t \<Rightarrow> if t \<noteq> [] then ''auth '' @ t @ [CHR 0x0A] else [] | None \<Rightarrow> [])"

definition call_command :: "RemoteCallType \<Rightarrow> int \<Rightarrow> string" where
  "call_command type from_num =
     (case type of
        REMOTE_CALL_DIAL \<Rightarrow> ''gsm call '' @ PHONE_PREFIX @ show_dec from_num @ [CHR 0x0A]
      | REMOTE_CALL_BUSY \<Rightarrow> ''gsm busy '' @ PHONE_PREFIX @ show_dec from_num @ [CHR 0x0A]
      | REMOTE_CALL_HOLD \<Rightarrow> ''gsm hold '' @ PHONE_PREFIX @ show_dec from_num @ [CHR 0x0A]
      | REMOTE_CALL_ACCEPT \<Rightarrow> ''gsm accept '' @ PHONE_PREFIX @ show_dec from_num @ [CHR 0x0A]
      | REMOTE_CALL_HANGUP \<Rightarrow> ''gsm cancel '' @ PHONE_PREFIX @ show_dec from_num @ [CHR 0x0A]
      | REMOTE_CALL_SMS \<Rightarrow> [])"

definition sizeof_RemoteCallRec :: nat where "sizeof_RemoteCallRec = 224"

definition remote_call_alloc :: "remote_env \<Rightarrow> RemoteCallType \<Rightarrow> int \<Rightarrow> int \<Rightarrow> string option" where
  "remote_call_alloc env type to_port from_port =
     (if \<not> re_alloc env sizeof_RemoteCallRec then None
      else let buff = auth_command env @ call_command type (remote_number_from_port from_port)
           in if 128 \<le> length buff \<or> \<not> re_connect env to_port then None else Some buff)"

definition remote_call_generic :: "remote_env \<Rightarrow> RemoteCallType \<Rightarrow> string \<Rightarrow> int \<Rightarrow> (int \<times> string) option" where
  "remote_call_generic env type to_number from_port =
     (let to_port = remote_number_string_to_port to_number
      in if remote_number_from_port from_port < 0 then None
         else if to_port < 0 then None
         else if to_port = from_port then None
         else map_option (Pair to_port) (remote_call_alloc env type to_port from_port))"

definition remote_call_dial :: "remote_env \<Rightarrow> string \<Rightarrow> int \<Rightarrow> (int \<times> string) option" where
  "remote_call_dial env number from_port = remote_call_generic env REMOTE_CALL_DIAL number from_port"

definition remote_call_other :: "remote_env \<Rightarrow> string \<Rightarrow> int \<Rightarrow> RemoteCallType \<Rightarrow> (int \<times> string) option" where
  "remote_call_other env to_number from_port type = remote_call_generic env type to_number from_port"

definition remote_call_cancel :: "remote_env \<Rightarrow> string \<Rightarrow> int \<Rightarrow> (int \<times> string) option" where
  "remote_call_cancel env to_number from_port = remote_call_generic env REMOTE_CALL_HANGUP to_number from_port"

text \<open>The unit is appended to what is in the buffer, which grows when the room left is not enough.\<close>

definition remote_call_set_sms_pdu :: "remote_env \<Rightarrow> string \<Rightarrow> SmsPDURec \<Rightarrow> string option" where
  "remote_call_set_sms_pdu env buff pdu =
     (let msg2len = 32 + fst (smspdu_to_hex pdu 0); grow = (128 - length buff < msg2len); room = (if grow then msg2len + 128 else 128)
      in if grow \<and> \<not> re_alloc env (msg2len + 128) then None
         else Some (buff @ ''sms pdu '' @ map byte_char (snd (smspdu_to_hex pdu (room - length buff - 8))) @ [CHR 0x0A]))"

definition remote_call_sms :: "remote_env \<Rightarrow> string \<Rightarrow> int \<Rightarrow> SmsPDURec \<Rightarrow> (int \<times> string) option" where
  "remote_call_sms env number from_port pdu =
     (case remote_call_generic env REMOTE_CALL_SMS number from_port of
        None \<Rightarrow> None
      | Some (to_port, buff) \<Rightarrow> map_option (Pair to_port) (remote_call_set_sms_pdu env buff pdu))"

section \<open>The numbers of emulators\<close>

lemma number_port:
  "even p \<Longrightarrow> 5554 \<le> p \<Longrightarrow> p < 5586 \<Longrightarrow> remote_number_from_port p = p \<and> remote_number_to_port p = p"
  by (auto simp: remote_number_from_port_def remote_number_to_port_def REMOTE_CONSOLE_PORT_def REMOTE_NUMBER_BASE_def REMOTE_NUMBER_MAX_def)

lemma port_range: "remote_number_to_port n = p \<Longrightarrow> p \<noteq> - 1 \<Longrightarrow> even p \<and> 5554 \<le> p \<and> p < 5586 \<and> p = n"
  by (auto simp: remote_number_to_port_def REMOTE_CONSOLE_PORT_def REMOTE_NUMBER_BASE_def REMOTE_NUMBER_MAX_def Let_def split: if_splits)

lemma show_port:
  assumes "5554 \<le> p" and "p < 5586"
  shows "length (show_dec p) = 4" and "strtol 10 (show_dec p) = (p, [])" and "last (show_dec p) \<noteq> CHR '';''"
proof -
  have s: "show_dec p = show_nat (nat p)" using assms by (simp add: show_dec_def)
  show "strtol 10 (show_dec p) = (p, [])" using assms strtol_dec [of "nat p"] by (simp add: s)
  show "length (show_dec p) = 4"
  proof -
    have "show_nat (nat p) = [char_of (48 + nat p div 1000), char_of (48 + nat p div 100 mod 10), char_of (48 + nat p div 10 mod 10), char_of (48 + nat p mod 10)]"
      using assms by (subst show_nat.simps, subst show_nat.simps, subst show_nat.simps, subst show_nat.simps) (auto simp: div_mult2_eq [symmetric])
    then show ?thesis by (simp add: s)
  qed
  show "last (show_dec p) \<noteq> CHR '';''" using not_semicolon [of "nat p mod 10"] by (simp add: s last_show_nat)
qed

text \<open>The phone number of an emulator leads back to it: the prefix followed by the number of a console port, and the number alone, are read as that
  port, for every port an emulator can have; and no string is read as anything but such a port or \<open>-1\<close>.\<close>

theorem emulator_number_roundtrip:
  assumes "even p" and "5554 \<le> p" and "p < 5586"
  shows "remote_number_string_to_port (PHONE_PREFIX @ show_dec (remote_number_from_port p)) = p \<and>
    remote_number_string_to_port (show_dec (remote_number_from_port p)) = p \<and>
    (\<forall>s. remote_number_string_to_port s = - 1 \<or> even (remote_number_string_to_port s) \<and>
       5554 \<le> remote_number_string_to_port s \<and> remote_number_string_to_port s < 5586)"
proof -
  note n = number_port [OF assms] and d = show_port [OF assms(2,3)]
  have "remote_number_string_to_port (PHONE_PREFIX @ show_dec p) = p" "remote_number_string_to_port (show_dec p) = p"
    using n d assms by (auto simp: remote_number_string_to_port_def PHONE_PREFIX_def Let_def)
  moreover have "remote_number_string_to_port s = - 1 \<or> even (remote_number_string_to_port s) \<and>
       5554 \<le> remote_number_string_to_port s \<and> remote_number_string_to_port s < 5586" for s
    using port_range [OF refl] by (auto simp: remote_number_string_to_port_def Let_def split: prod.splits if_splits)
  ultimately show ?thesis using n by simp
qed

theorem emulator_number_roundtrip_witness: "remote_number_string_to_port (PHONE_PREFIX @ show_dec (remote_number_from_port 5556)) = 5556"
  using emulator_number_roundtrip [of 5556] by simp

text \<open>A semicolon at the end, which the code drops from the length, makes a number unreadable.\<close>

theorem semicolon_not_remote: "remote_number_string_to_port ''15555215556;'' = - 1"
  by (simp add: remote_number_string_to_port_def PHONE_PREFIX_def strtol_def scan_number_def is_space_def skip_sign_def number_base_def starts_digit_def digit_value_def)

end
