(* ===== verification/Modem_Calls.thy ===== *)
theory Modem_Calls
  imports Remote_Call Qemu_File
begin

text \<open>
  Voice calls of the modem, \<open>android/telephony/modem.c\<close>, and the timers they use, \<open>android/telephony/sysdeps.c\<close>. The array of calls is modelled
  with all its slots, since timers and the callbacks of remote calls hold the address of a slot: a call is named by its slot, also after its
  call has ended or moved. A timer is named by its index. Text for the guest and commands to other emulators are returned as actions.
\<close>

section \<open>State\<close>

definition A_CALL_OUTBOUND :: int where "A_CALL_OUTBOUND = 0"
definition A_CALL_INBOUND :: int where "A_CALL_INBOUND = 1"
definition A_CALL_ACTIVE :: int where "A_CALL_ACTIVE = 0"
definition A_CALL_HELD :: int where "A_CALL_HELD = 1"
definition A_CALL_DIALING :: int where "A_CALL_DIALING = 2"
definition A_CALL_ALERTING :: int where "A_CALL_ALERTING = 3"
definition A_CALL_INCOMING :: int where "A_CALL_INCOMING = 4"
definition A_CALL_WAITING :: int where "A_CALL_WAITING = 5"
definition A_CALL_VOICE :: int where "A_CALL_VOICE = 0"

lemmas call_consts = A_CALL_OUTBOUND_def A_CALL_INBOUND_def A_CALL_ACTIVE_def A_CALL_HELD_def A_CALL_DIALING_def A_CALL_ALERTING_def
  A_CALL_INCOMING_def A_CALL_WAITING_def A_CALL_VOICE_def

definition A_CALL_NUMBER_MAX_SIZE :: nat where "A_CALL_NUMBER_MAX_SIZE = 16"
definition MAX_CALLS :: nat where "MAX_CALLS = 4"
definition MAX_TIMERS :: nat where "MAX_TIMERS = 32"
definition MAX_EMERGENCY_NUMBERS :: nat where "MAX_EMERGENCY_NUMBERS = 16"
definition CALL_DELAY_DIAL :: int where "CALL_DELAY_DIAL = 1000"
definition CALL_DELAY_ALERT :: int where "CALL_DELAY_ALERT = 1000"

text \<open>The number of a call is an array of characters that ends with a zero.\<close>

record ACallRec =
  c_id :: int
  c_dir :: int
  c_state :: int
  c_mode :: int
  c_multi :: u32
  c_number :: string

record AVoiceCallRec =
  v_call :: ACallRec
  v_timer :: "nat option"
  v_is_remote :: bool

record SysTimerRec =
  st_when :: "int option"
  st_opaque :: nat

record modem_calls =
  calls :: "nat \<Rightarrow> AVoiceCallRec"
  call_count :: nat
  base_port :: int
  unsol_func :: bool
  in_emergency_mode :: int
  emergency_numbers :: "nat \<Rightarrow> string option"
  sys_timers :: "nat \<Rightarrow> SysTimerRec"
  free_timers :: "nat list"

datatype modem_action = Unsol string | Unsol_Buffer | Remote int string

definition remote_out :: "(int \<times> string) option \<Rightarrow> modem_action list" where
  "remote_out r = (case r of None \<Rightarrow> [] | Some (port, text) \<Rightarrow> [Remote port text])"

definition cstr :: "string \<Rightarrow> string res" where
  "cstr a = (if CHR 0x00 \<in> set a then Inr (takeWhile (\<lambda>c. c \<noteq> CHR 0x00) a) else Inl Undefined)"

definition put_number :: "string \<Rightarrow> string \<Rightarrow> string" where
  "put_number a s = overwrite a 0 (s @ [CHR 0x00])"

definition set_call :: "nat \<Rightarrow> (AVoiceCallRec \<Rightarrow> AVoiceCallRec) \<Rightarrow> 'b modem_calls_scheme \<Rightarrow> 'b modem_calls_scheme" where
  "set_call k f m = m\<lparr>calls := (calls m)(k := f (calls m k))\<rparr>"

type_synonym 'b call_result = "('b modem_calls_scheme \<times> modem_action list) res"

section \<open>Timers\<close>

definition sys_timer_alloc :: "'b modem_calls_scheme \<Rightarrow> nat option \<times> 'b modem_calls_scheme" where
  "sys_timer_alloc m =
     (case free_timers m of
        [] \<Rightarrow> (None, m)
      | t # ts \<Rightarrow> (Some t, m\<lparr>free_timers := ts, sys_timers := (sys_timers m)(t := (sys_timers m t)\<lparr>st_when := None\<rparr>)\<rparr>))"

definition sys_timer_create :: "'b modem_calls_scheme \<Rightarrow> nat option \<times> 'b modem_calls_scheme" where
  "sys_timer_create m = sys_timer_alloc m"

definition sys_timer_free :: "nat \<Rightarrow> 'b modem_calls_scheme \<Rightarrow> 'b modem_calls_scheme" where
  "sys_timer_free t m = m\<lparr>sys_timers := (sys_timers m)(t := (sys_timers m t)\<lparr>st_when := None\<rparr>), free_timers := t # free_timers m\<rparr>"

definition sys_timer_destroy :: "nat \<Rightarrow> 'b modem_calls_scheme \<Rightarrow> 'b modem_calls_scheme" where
  "sys_timer_destroy t m = sys_timer_free t m"

text \<open>Setting a timer that was not allocated dereferences a null pointer.\<close>

definition sys_timer_set :: "nat option \<Rightarrow> int \<Rightarrow> nat \<Rightarrow> 'b modem_calls_scheme \<Rightarrow> 'b modem_calls_scheme res" where
  "sys_timer_set timer when opaque m =
     (case timer of
        None \<Rightarrow> Inl Undefined
      | Some t \<Rightarrow> Inr (m\<lparr>sys_timers := (sys_timers m)(t := \<lparr>st_when = Some when, st_opaque = opaque\<rparr>)\<rparr>))"

section \<open>Calls\<close>

definition amodem_unsol :: "'b modem_calls_scheme \<Rightarrow> string \<Rightarrow> modem_action list" where
  "amodem_unsol m text = (if unsol_func m then [Unsol (take 1023 text)] else [])"

definition amodem_send_calls_update :: "'b modem_calls_scheme \<Rightarrow> modem_action list" where
  "amodem_send_calls_update m = amodem_unsol m (''RING'' @ [CHR 0x0D])"

definition amodem_get_call_count :: "'b modem_calls_scheme \<Rightarrow> nat" where
  "amodem_get_call_count m = call_count m"

definition amodem_get_call :: "'b modem_calls_scheme \<Rightarrow> nat \<Rightarrow> ACallRec option" where
  "amodem_get_call m index = (if call_count m \<le> index then None else Some (v_call (calls m index)))"

fun find_id :: "int list \<Rightarrow> nat \<Rightarrow> nat \<Rightarrow> nat" where
  "find_id ids 0 k = k"
| "find_id ids (Suc n) k = (if int k + 1 \<in> set ids then find_id ids n (Suc k) else k)"

definition call_list :: "'b modem_calls_scheme \<Rightarrow> AVoiceCallRec list" where
  "call_list m = window (calls m) 0 (call_count m)"

definition amodem_alloc_call :: "'b modem_calls_scheme \<Rightarrow> nat option \<times> 'b modem_calls_scheme" where
  "amodem_alloc_call m =
     (let count = call_count m
      in if count < MAX_CALLS
         then let i = find_id (map (\<lambda>v. c_id (v_call v)) (call_list m)) count 0
              in (Some count, (set_call count (\<lambda>v. v\<lparr>v_call := (v_call v)\<lparr>c_id := int i + 1\<rparr>\<rparr>) m)\<lparr>call_count := count + 1\<rparr>)
         else (None, m))"

definition move_calls :: "nat \<Rightarrow> 'b modem_calls_scheme \<Rightarrow> 'b modem_calls_scheme" where
  "move_calls k m = m\<lparr>calls := (\<lambda>j. if k \<le> j \<and> j < call_count m - 1 then calls m (Suc j) else calls m j), call_count := call_count m - 1\<rparr>"

definition amodem_free_call :: "remote_env \<Rightarrow> nat \<Rightarrow> 'b modem_calls_scheme \<Rightarrow> 'b call_result" where
  "amodem_free_call env k m =
     (let v = calls m k;
          m1 = (case v_timer v of Some t \<Rightarrow> set_call k (\<lambda>v. v\<lparr>v_timer := None\<rparr>) (sys_timer_destroy t m) | None \<Rightarrow> m)
      in res_bind (if v_is_remote v then res_bind (cstr (c_number (v_call v))) (\<lambda>n. Inr (remote_out (remote_call_cancel env n (base_port m)))) else Inr [])
           (\<lambda>os. let m2 = set_call k (\<lambda>v. v\<lparr>v_is_remote := False\<rparr>) m1
                 in if k < call_count m then Inr (move_calls k m2, os) else Inl Assert_Failure))"

fun first_index :: "('a \<Rightarrow> bool) \<Rightarrow> 'a list \<Rightarrow> nat option" where
  "first_index P [] = None"
| "first_index P (x # xs) = (if P x then Some 0 else map_option Suc (first_index P xs))"

definition amodem_find_call :: "'b modem_calls_scheme \<Rightarrow> int \<Rightarrow> nat option" where
  "amodem_find_call m i = first_index (\<lambda>v. c_id (v_call v) = i) (call_list m)"

definition amodem_add_inbound_call :: "string \<Rightarrow> 'b modem_calls_scheme \<Rightarrow> int \<times> 'b modem_calls_scheme \<times> modem_action list" where
  "amodem_add_inbound_call number m =
     (case amodem_alloc_call m of
        (None, m) \<Rightarrow> (- 1, m, [])
      | (Some k, m) \<Rightarrow>
          (0, set_call k (\<lambda>v. v\<lparr>v_call := (v_call v)\<lparr>c_dir := A_CALL_INBOUND, c_state := A_CALL_INCOMING, c_mode := A_CALL_VOICE, c_multi := 0,
                 c_number := put_number (c_number (v_call v)) (take A_CALL_NUMBER_MAX_SIZE number)\<rparr>,
               v_is_remote := 0 < remote_number_string_to_port number\<rparr>) m,
           amodem_send_calls_update m))"

fun find_number :: "string \<Rightarrow> AVoiceCallRec list \<Rightarrow> nat option res" where
  "find_number number [] = Inr None"
| "find_number number (v # vs) =
     res_bind (cstr (c_number (v_call v))) (\<lambda>n.
       if n = number then Inr (Some 0) else res_bind (find_number number vs) (\<lambda>r. Inr (map_option Suc r)))"

definition amodem_find_call_by_number :: "'b modem_calls_scheme \<Rightarrow> string option \<Rightarrow> nat option res" where
  "amodem_find_call_by_number m number = (case number of None \<Rightarrow> Inr None | Some n \<Rightarrow> find_number n (call_list m))"

definition acall_set_state :: "remote_env \<Rightarrow> nat \<Rightarrow> int \<Rightarrow> 'b modem_calls_scheme \<Rightarrow> 'b call_result" where
  "acall_set_state env k state m =
     (let v = calls m k
      in if state = c_state (v_call v) then Inr (m, [])
         else res_bind (if v_is_remote v \<and> (state = A_CALL_HELD \<or> state = A_CALL_ACTIVE)
                        then res_bind (cstr (c_number (v_call v))) (\<lambda>n.
                          Inr (remote_out (remote_call_other env n (base_port m) (if state = A_CALL_HELD then REMOTE_CALL_HOLD else REMOTE_CALL_ACCEPT))))
                        else Inr [])
                (\<lambda>os. Inr (set_call k (\<lambda>v. v\<lparr>v_call := (v_call v)\<lparr>c_state := state\<rparr>\<rparr>) m, os)))"

definition amodem_update_call :: "remote_env \<Rightarrow> string option \<Rightarrow> int \<Rightarrow> 'b modem_calls_scheme \<Rightarrow> (int \<times> 'b modem_calls_scheme \<times> modem_action list) res" where
  "amodem_update_call env number state m =
     res_bind (amodem_find_call_by_number m number) (\<lambda>r.
       case r of
         None \<Rightarrow> Inr (- 1, m, [])
       | Some k \<Rightarrow> res_bind (acall_set_state env k state m) (\<lambda>(m, os). Inr (0, m, os @ amodem_send_calls_update m)))"

definition amodem_disconnect_call :: "remote_env \<Rightarrow> string option \<Rightarrow> 'b modem_calls_scheme \<Rightarrow> (int \<times> 'b modem_calls_scheme \<times> modem_action list) res" where
  "amodem_disconnect_call env number m =
     res_bind (amodem_find_call_by_number m number) (\<lambda>r.
       case r of
         None \<Rightarrow> Inr (- 1, m, [])
       | Some k \<Rightarrow> res_bind (amodem_free_call env k m) (\<lambda>(m, os). Inr (0, m, os @ amodem_send_calls_update m)))"

section \<open>Events of a call\<close>

definition remote_voice_call_event :: "remote_env \<Rightarrow> nat \<Rightarrow> bool \<Rightarrow> 'b modem_calls_scheme \<Rightarrow> 'b call_result" where
  "remote_voice_call_event env k success m =
     (if success then Inr (m, [])
      else res_bind (amodem_free_call env k m) (\<lambda>(m, os). Inr (m, os @ amodem_send_calls_update m)))"

definition voice_call_event :: "remote_env \<Rightarrow> int \<Rightarrow> nat \<Rightarrow> 'b modem_calls_scheme \<Rightarrow> 'b call_result" where
  "voice_call_event env now k m =
     (let set_state = (\<lambda>s. set_call k (\<lambda>v. v\<lparr>v_call := (v_call v)\<lparr>c_state := s\<rparr>\<rparr>) m); v = calls m k
      in res_bind
           (if c_state (v_call v) = A_CALL_DIALING
            then let m1 = set_state A_CALL_ALERTING
                 in if v_is_remote v
                    then res_bind (cstr (c_number (v_call v))) (\<lambda>n.
                           case remote_call_dial env n (base_port m) of
                             Some (port, text) \<Rightarrow> Inr (m1, [Remote port text])
                           | None \<Rightarrow> amodem_free_call env k m1)
                    else res_bind (sys_timer_set (v_timer v) (now + CALL_DELAY_ALERT) k m1) (\<lambda>m2. Inr (m2, []))
            else if c_state (v_call v) = A_CALL_ALERTING then Inr (set_state A_CALL_ACTIVE, [])
            else Inl Assert_Failure)
           (\<lambda>(m, os). Inr (m, os @ amodem_send_calls_update m)))"

text \<open>A timer fires once; the event goes to the slot it was set for.\<close>

definition sys_timer_callback :: "remote_env \<Rightarrow> int \<Rightarrow> nat \<Rightarrow> 'b modem_calls_scheme \<Rightarrow> 'b call_result" where
  "sys_timer_callback env now t m =
     voice_call_event env now (st_opaque (sys_timers m t)) (m\<lparr>sys_timers := (sys_timers m)(t := (sys_timers m t)\<lparr>st_when := None\<rparr>)\<rparr>)"

section \<open>Commands on calls\<close>

text \<open>The answer of a command: none, a constant string, or the output buffer of the modem.\<close>

datatype reply = No_Answer | Literal string | Buffer string

type_synonym 'b command_result = "(reply \<times> 'b modem_calls_scheme \<times> modem_action list) res"

definition nth_char :: "string \<Rightarrow> nat \<Rightarrow> char" where
  "nth_char s k = (if k < length s then s ! k else CHR 0x00)"

text \<open>Lines are added to the buffer of 1024 characters without a check of the room that is left.\<close>

definition lines_answer :: "string list \<Rightarrow> reply res" where
  "lines_answer ls = (if length (concat ls) < 1024 then Inr (Buffer (concat ls)) else Inl Undefined)"

definition full_number :: "string \<Rightarrow> string" where
  "full_number s =
     (if length s = 10 \<and> take 6 s = drop 1 PHONE_PREFIX then take 1 PHONE_PREFIX @ s
      else if length s = 7 \<and> take 3 s = drop 4 PHONE_PREFIX then take 4 PHONE_PREFIX @ s
      else if length s = 4 then take 7 PHONE_PREFIX @ s
      else s)"

definition amodem_is_emergency :: "'b modem_calls_scheme \<Rightarrow> string \<Rightarrow> bool" where
  "amodem_is_emergency m number = list_ex (\<lambda>i. emergency_numbers m i = Some number) [0..<MAX_EMERGENCY_NUMBERS]"

definition dial_number :: "string \<Rightarrow> string" where
  "dial_number arg =
     (let s = (if arg \<noteq> [] \<and> last arg = CHR '';'' then butlast arg else arg) in full_number (take A_CALL_NUMBER_MAX_SIZE s))"

definition handleDial :: "int \<Rightarrow> string \<Rightarrow> 'b modem_calls_scheme \<Rightarrow> 'b command_result" where
  "handleDial now cmd m =
     (case amodem_alloc_call m of
        (None, m) \<Rightarrow> Inr (Literal ''ERROR: TOO MANY CALLS'', m, [])
      | (Some k, m) \<Rightarrow>
          if nth_char cmd 0 \<noteq> CHR ''D'' then Inl Assert_Failure
          else let number = dial_number (tl cmd);
                   emergency = amodem_is_emergency m number;
                   m1 = set_call k (\<lambda>v. v\<lparr>v_call := (v_call v)\<lparr>c_dir := A_CALL_OUTBOUND, c_state := A_CALL_DIALING, c_mode := A_CALL_VOICE,
                          c_multi := 0, c_number := put_number (c_number (v_call v)) number\<rparr>,
                          v_is_remote := 0 < remote_number_string_to_port number\<rparr>) m;
                   m2 = (if emergency then m1\<lparr>in_emergency_mode := 1\<rparr> else m1);
                   (t, m3) = sys_timer_create m2;
                   m4 = set_call k (\<lambda>v. v\<lparr>v_timer := t\<rparr>) m3
               in res_bind (sys_timer_set t (now + CALL_DELAY_DIAL) k m4) (\<lambda>m5.
                  res_bind (lines_answer (if emergency then [''+WSOS: 1''] else [])) (\<lambda>r. Inr (r, m5, []))))"

text \<open>
  The loops over all calls differ in what they do with one call, given as an operation: nothing, release it (and look at the same index again), set
  its state, or one of the two and leave the loop.
\<close>

datatype call_op = Keep | Release | Set_State int | Release_Break | Set_Break int

lemma set_call_count [simp]: "call_count (set_call k f m) = call_count m"
  by (simp add: set_call_def)

lemma free_call_count: "amodem_free_call env k m = Inr (m', os) \<Longrightarrow> k < call_count m \<and> call_count m' = call_count m - 1"
  by (auto simp: amodem_free_call_def Let_def move_calls_def sys_timer_destroy_def sys_timer_free_def res_bind_eq_Inr split: option.splits if_splits)

lemma set_state_count: "acall_set_state env k s m = Inr (m', os) \<Longrightarrow> call_count m' = call_count m"
  by (auto simp: acall_set_state_def Let_def res_bind_eq_Inr split: if_splits)

function call_loop :: "remote_env \<Rightarrow> (AVoiceCallRec \<Rightarrow> call_op) \<Rightarrow> nat \<Rightarrow> 'b modem_calls_scheme \<Rightarrow> 'b call_result" where
  "call_loop env f nn m =
     (if nn < call_count m
      then case f (calls m nn) of
             Keep \<Rightarrow> call_loop env f (Suc nn) m
           | Release \<Rightarrow> res_bind (amodem_free_call env nn m) (\<lambda>r.
               res_bind (call_loop env f nn (fst r)) (\<lambda>(m', os). Inr (m', snd r @ os)))
           | Set_State s \<Rightarrow> res_bind (acall_set_state env nn s m) (\<lambda>r.
               res_bind (call_loop env f (Suc nn) (fst r)) (\<lambda>(m', os). Inr (m', snd r @ os)))
           | Release_Break \<Rightarrow> amodem_free_call env nn m
           | Set_Break s \<Rightarrow> acall_set_state env nn s m
      else Inr (m, []))"
  by pat_completeness auto
termination
  by (relation "measure (\<lambda>(env, f, nn, m). call_count m - nn)") (auto dest!: free_call_count set_state_count)

declare call_loop.simps [simp del]

definition answer_op :: "string \<Rightarrow> AVoiceCallRec \<Rightarrow> call_op" where
  "answer_op cmd v =
     (let s = c_state (v_call v) in
      if nth_char cmd 0 = CHR ''A''
      then if s = A_CALL_INCOMING then Set_State A_CALL_ACTIVE else if s = A_CALL_ACTIVE then Set_State A_CALL_HELD else Keep
      else if nth_char cmd 0 = CHR ''H'' \<and> s = A_CALL_INCOMING then Release_Break else Keep)"

definition handleAnswer :: "remote_env \<Rightarrow> string \<Rightarrow> 'b modem_calls_scheme \<Rightarrow> 'b command_result" where
  "handleAnswer env cmd m = res_bind (call_loop env (answer_op cmd) 0 m) (\<lambda>(m, os). Inr (No_Answer, m, os))"

definition hangup_op :: "string \<Rightarrow> AVoiceCallRec \<Rightarrow> call_op" where
  "hangup_op cmd v =
     (let s = c_state (v_call v); c = nth_char cmd 0; d = nth_char cmd 1
      in if c_mode (v_call v) \<noteq> A_CALL_VOICE then Keep
         else if c = CHR ''0'' then if s = A_CALL_HELD \<or> s = A_CALL_WAITING \<or> s = A_CALL_INCOMING then Release else Keep
         else if c = CHR ''1'' then
           if s = A_CALL_ACTIVE then Release else if s = A_CALL_HELD \<or> s = A_CALL_WAITING then Set_State A_CALL_ACTIVE else Keep
         else if c = CHR ''2'' then
           if d = CHR 0x00
           then if s = A_CALL_ACTIVE then Set_State A_CALL_HELD
                else if s = A_CALL_HELD \<or> s = A_CALL_WAITING then Set_State A_CALL_ACTIVE else Keep
           else if s = A_CALL_ACTIVE \<and> c_id (v_call v) \<noteq> int (of_char d) - 48 then Set_State A_CALL_HELD else Keep
         else if c = CHR ''3'' \<or> c = CHR ''4'' then if s = A_CALL_HELD then Set_Break A_CALL_ACTIVE else Keep
         else Keep)"

definition handleHangup :: "remote_env \<Rightarrow> string \<Rightarrow> 'b modem_calls_scheme \<Rightarrow> 'b command_result" where
  "handleHangup env cmd m =
     (if take 6 cmd \<noteq> ''+CHLD='' then Inr (Literal ''ERROR: BAD COMMAND'', m, [])
      else let cmd = drop 6 cmd
           in if nth_char cmd 0 = CHR ''1'' \<and> nth_char cmd 1 \<noteq> CHR 0x00
              then (case amodem_find_call m (int (of_char (nth_char cmd 1)) - 48) of
                      None \<Rightarrow> Inr (No_Answer, m, [])
                    | Some k \<Rightarrow> res_bind (amodem_free_call env k m) (\<lambda>(m, os). Inr (No_Answer, m, os)))
              else res_bind (call_loop env (hangup_op cmd) 0 m) (\<lambda>(m, os). Inr (No_Answer, m, os)))"

section \<open>Snapshots\<close>

definition call_bytes :: "ACallRec \<Rightarrow> u8 list" where
  "call_bytes c = [word_of_int (c_dir c), word_of_int (c_state c), word_of_int (c_mode c)] @ be32_bytes (c_multi c) @ map char_byte (c_number c)"

definition amodem_state_save :: "'b modem_calls_scheme \<Rightarrow> u8 list" where
  "amodem_state_save m = [of_nat (call_count m)] @ concat (map (\<lambda>v. call_bytes (v_call v)) (rev (call_list m)))"

fun release_all :: "remote_env \<Rightarrow> nat \<Rightarrow> 'b modem_calls_scheme \<Rightarrow> 'b call_result" where
  "release_all env 0 m = Inr (m, [])"
| "release_all env (Suc n) m =
     res_bind (amodem_free_call env n m) (\<lambda>(m1, os). res_bind (release_all env n m1) (\<lambda>(m2, os'). Inr (m2, os @ os')))"

definition load_call :: "nat \<Rightarrow> rstream \<Rightarrow> 'b modem_calls_scheme \<Rightarrow> 'b modem_calls_scheme \<times> rstream" where
  "load_call k f m =
     (let (dir, f1) = st_get_byte f; (state, f2) = st_get_byte f1; (mode, f3) = st_get_byte f2; (multi, f4) = st_get_be32 f3;
          (bs, f5) = st_get_buffer f4 (A_CALL_NUMBER_MAX_SIZE + 1)
      in (set_call k (\<lambda>v. v\<lparr>v_call := (v_call v)\<lparr>c_dir := uint dir, c_state := uint state, c_mode := uint mode, c_multi := multi,
            c_number := overwrite (c_number (v_call v)) 0 (map byte_char bs)\<rparr>\<rparr>) m, f5))"

fun load_calls :: "nat \<Rightarrow> rstream \<Rightarrow> 'b modem_calls_scheme \<Rightarrow> ('b modem_calls_scheme \<times> rstream) res" where
  "load_calls 0 f m = Inr (m, f)"
| "load_calls (Suc n) f m =
     (case amodem_alloc_call m of
        (None, m) \<Rightarrow> Inl Undefined
      | (Some k, m) \<Rightarrow> let (m, f) = load_call k f m in load_calls n f m)"

definition amodem_state_load :: "remote_env \<Rightarrow> rstream \<Rightarrow> 'b modem_calls_scheme \<Rightarrow> ('b modem_calls_scheme \<times> rstream \<times> modem_action list) res" where
  "amodem_state_load env f m =
     res_bind (release_all env (call_count m) m) (\<lambda>(m, os).
       let (n, f) = st_get_byte f in res_bind (load_calls (unat n) f m) (\<lambda>(m, f). Inr (m, f, os)))"

section \<open>The list of calls\<close>

definition number_ok :: "string \<Rightarrow> bool" where
  "number_ok a \<longleftrightarrow> length a = A_CALL_NUMBER_MAX_SIZE + 1 \<and> CHR 0x00 \<in> set a"

definition numbers_ok :: "'b modem_calls_scheme \<Rightarrow> bool" where
  "numbers_ok m \<longleftrightarrow> (\<forall>k. number_ok (c_number (v_call (calls m k))))"

definition with_state :: "int \<Rightarrow> AVoiceCallRec \<Rightarrow> AVoiceCallRec" where
  "with_state s v = v\<lparr>v_call := (v_call v)\<lparr>c_state := s\<rparr>\<rparr>"

lemma with_state_simps [simp]:
  "c_id (v_call (with_state s v)) = c_id (v_call v)" "c_number (v_call (with_state s v)) = c_number (v_call v)" "c_state (v_call (with_state s v)) = s"
  "v_is_remote (with_state s v) = v_is_remote v" "v_timer (with_state s v) = v_timer v"
  "c_state (v_call v) = s \<Longrightarrow> with_state s v = v"
  by (simp_all add: with_state_def)

lemma cstr_ok: "number_ok a \<Longrightarrow> cstr a = Inr (takeWhile (\<lambda>c. c \<noteq> CHR 0x00) a)"
  by (simp add: cstr_def number_ok_def)

lemma put_number_ok: "length a = A_CALL_NUMBER_MAX_SIZE + 1 \<Longrightarrow> length s \<le> A_CALL_NUMBER_MAX_SIZE \<Longrightarrow> number_ok (put_number a s)"
  by (simp add: number_ok_def put_number_def overwrite_def)

lemma cstr_put_number: "CHR 0x00 \<notin> set s \<Longrightarrow> cstr (put_number a s) = Inr s"
proof -
  assume "CHR 0x00 \<notin> set s"
  then have "takeWhile (\<lambda>c. c \<noteq> CHR 0x00) (s @ CHR 0x00 # r) = s" for r by (subst takeWhile_append2) auto
  then show ?thesis by (simp add: cstr_def put_number_def overwrite_def)
qed

lemma length_call_list [simp]: "length (call_list m) = call_count m"
  by (simp add: call_list_def)

lemma nth_call_list: "k < call_count m \<Longrightarrow> call_list m ! k = calls m k"
  by (simp add: call_list_def)

lemma call_list_set: "call_list (set_call k f m) = (if k < call_count m then (call_list m)[k := f (calls m k)] else call_list m)"
  by (rule nth_equalityI) (auto simp: nth_call_list set_call_def nth_list_update)

lemma call_list_cong: "calls m' = calls m \<Longrightarrow> call_count m' = call_count m \<Longrightarrow> call_list m' = call_list m"
  by (simp add: call_list_def)

lemma call_list_move:
  assumes "k < call_count m"
  shows "call_list (move_calls k m) = take k (call_list m) @ drop (Suc k) (call_list m)"
  using assms by (intro nth_equalityI) (auto simp: nth_call_list move_calls_def nth_append min_def)

lemma numbers_ok_set: "numbers_ok m \<Longrightarrow> number_ok (c_number (v_call (f (calls m k)))) \<Longrightarrow> numbers_ok (set_call k f m)"
  by (simp add: numbers_ok_def set_call_def)

lemma numbers_ok_cong: "calls m' = calls m \<Longrightarrow> numbers_ok m' = numbers_ok m"
  by (simp add: numbers_ok_def)

lemma free_call:
  assumes "numbers_ok m" and "k < call_count m"
  shows "\<exists>m' os. amodem_free_call env k m = Inr (m', os) \<and> numbers_ok m' \<and> base_port m' = base_port m \<and> call_count m' = call_count m - 1 \<and>
    call_list m' = take k (call_list m) @ drop (Suc k) (call_list m)"
proof -
  define m1 where "m1 = (case v_timer (calls m k) of Some t \<Rightarrow> set_call k (\<lambda>v. v\<lparr>v_timer := None\<rparr>) (sys_timer_destroy t m) | None \<Rightarrow> m)"
  define m2 where "m2 = set_call k (\<lambda>v. v\<lparr>v_is_remote := False\<rparr>) m1"
  have d: "calls (sys_timer_destroy t m) = calls m" "call_count (sys_timer_destroy t m) = call_count m" "base_port (sys_timer_destroy t m) = base_port m" for t
    by (simp_all add: sys_timer_destroy_def sys_timer_free_def)
  have m1: "numbers_ok m1" "call_count m1 = call_count m" "base_port m1 = base_port m" "\<And>j. j \<noteq> k \<Longrightarrow> calls m1 j = calls m j"
    using assms(1) d by (auto simp: m1_def numbers_ok_def set_call_def split: option.split)
  have m2: "numbers_ok m2" "call_count m2 = call_count m" "base_port m2 = base_port m" "\<And>j. j \<noteq> k \<Longrightarrow> calls m2 j = calls m j"
    using m1 assms(1) by (auto simp: m2_def numbers_ok_def set_call_def)
  have l: "take k (call_list m2) @ drop (Suc k) (call_list m2) = take k (call_list m) @ drop (Suc k) (call_list m)"
    using assms(2) m2 by (intro nth_equalityI) (auto simp: nth_append nth_call_list)
  have "numbers_ok (move_calls k m2)" using m2(1) by (simp add: numbers_ok_def move_calls_def)
  moreover have "call_list (move_calls k m2) = take k (call_list m) @ drop (Suc k) (call_list m)"
    using call_list_move [of k m2] assms(2) m2(2) l by simp
  moreover have "call_count (move_calls k m2) = call_count m - 1" "base_port (move_calls k m2) = base_port m" using m2 by (simp_all add: move_calls_def)
  moreover have "\<exists>os. amodem_free_call env k m = Inr (move_calls k m2, os)"
    using assms cstr_ok [of "c_number (v_call (calls m k))"] unfolding amodem_free_call_def Let_def m1_def [symmetric] m2_def [symmetric]
    by (auto simp: numbers_ok_def)
  ultimately show ?thesis by blast
qed

lemma set_state:
  assumes "numbers_ok m" and "k < call_count m"
  shows "\<exists>m' os. acall_set_state env k s m = Inr (m', os) \<and> numbers_ok m' \<and> call_count m' = call_count m \<and>
    call_list m' = (call_list m)[k := with_state s (calls m k)]"
proof -
  define m' where "m' = set_call k (with_state s) m"
  have "numbers_ok m'" using assms(1) by (simp add: m'_def set_call_def numbers_ok_def)
  moreover have "call_list m' = (call_list m)[k := with_state s (calls m k)]" using assms(2) by (simp add: m'_def call_list_set)
  moreover have "m' = m" if "s = c_state (v_call (calls m k))" using that by (simp add: m'_def set_call_def)
  then have "\<exists>os. acall_set_state env k s m = Inr (m', os)"
    using assms(1) cstr_ok [of "c_number (v_call (calls m k))"] by (auto simp: acall_set_state_def Let_def m'_def with_state_def [abs_def] numbers_ok_def)
  moreover have "call_count m' = call_count m" by (simp add: m'_def)
  ultimately show ?thesis by blast
qed

text \<open>What a loop over the calls does to the list of calls.\<close>

fun loop_spec :: "(AVoiceCallRec \<Rightarrow> call_op) \<Rightarrow> AVoiceCallRec list \<Rightarrow> AVoiceCallRec list" where
  "loop_spec f [] = []"
| "loop_spec f (v # vs) =
     (case f v of
        Keep \<Rightarrow> v # loop_spec f vs
      | Release \<Rightarrow> loop_spec f vs
      | Set_State s \<Rightarrow> with_state s v # loop_spec f vs
      | Release_Break \<Rightarrow> vs
      | Set_Break s \<Rightarrow> with_state s v # vs)"

lemma call_loop:
  assumes "numbers_ok m" and "nn \<le> call_count m"
  shows "\<exists>m' os. call_loop env f nn m = Inr (m', os) \<and> numbers_ok m' \<and> call_list m' = take nn (call_list m) @ loop_spec f (drop nn (call_list m))"
  using assms
proof (induction env f nn m rule: call_loop.induct)
  case (1 env f nn m)
  show ?case
  proof (cases "nn < call_count m")
    case False
    then have "call_loop env f nn m = Inr (m, [])" by (subst call_loop.simps) simp
    then show ?thesis using 1(4,5) False by simp
  next
    case True
    have d: "drop nn (call_list m) = calls m nn # drop (Suc nn) (call_list m)" using True by (metis Cons_nth_drop_Suc length_call_list nth_call_list)
    obtain mf of' where fr: "amodem_free_call env nn m = Inr (mf, of')" "numbers_ok mf" "call_count mf = call_count m - 1"
      "call_list mf = take nn (call_list m) @ drop (Suc nn) (call_list m)" using free_call [OF 1(4) True, of env] by blast
    have st: "\<exists>ms os. acall_set_state env nn s m = Inr (ms, os) \<and> numbers_ok ms \<and> call_count ms = call_count m \<and>
      call_list ms = (call_list m)[nn := with_state s (calls m nn)]" for s using set_state [OF 1(4) True] by blast
    show ?thesis
    proof (cases "f (calls m nn)")
      case Keep
      obtain m' os where "call_loop env f (Suc nn) m = Inr (m', os)" "numbers_ok m'"
        "call_list m' = take (Suc nn) (call_list m) @ loop_spec f (drop (Suc nn) (call_list m))" using 1(1) [OF True Keep] 1(4) True by auto
      then show ?thesis using Keep True d by (simp add: call_loop.simps [of env f nn m] take_Suc_conv_app_nth nth_call_list)
    next
      case Release
      have "nn \<le> call_count (fst (mf, of'))" using fr(3) True by simp
      then obtain m' os where "call_loop env f nn mf = Inr (m', os)" "numbers_ok m'"
        "call_list m' = take nn (call_list mf) @ loop_spec f (drop nn (call_list mf))" using 1(2) [OF True Release fr(1)] fr(2) by auto
      then show ?thesis using Release True d fr by (simp add: call_loop.simps [of env f nn m])
    next
      case (Set_State s)
      obtain ms os1 where ms: "acall_set_state env nn s m = Inr (ms, os1)" "numbers_ok ms" "call_count ms = call_count m"
        "call_list ms = (call_list m)[nn := with_state s (calls m nn)]" using st by blast
      obtain m' os where "call_loop env f (Suc nn) ms = Inr (m', os)" "numbers_ok m'"
        "call_list m' = take (Suc nn) (call_list ms) @ loop_spec f (drop (Suc nn) (call_list ms))" using 1(3) [OF True Set_State ms(1)] ms(2,3) True by auto
      then show ?thesis using Set_State True d ms by (simp add: call_loop.simps [of env f nn m] take_Suc_conv_app_nth)
    next
      case Release_Break
      then show ?thesis using True d fr by (simp add: call_loop.simps [of env f nn m])
    next
      case (Set_Break s)
      then show ?thesis using True d st [of s] by (auto simp: call_loop.simps [of env f nn m] upd_conv_take_nth_drop)
    qed
  qed
qed

section \<open>The invariant of the calls\<close>

definition call_ids :: "'b modem_calls_scheme \<Rightarrow> int list" where
  "call_ids m = map (\<lambda>v. c_id (v_call v)) (call_list m)"

definition calls_ok :: "'b modem_calls_scheme \<Rightarrow> bool" where
  "calls_ok m \<longleftrightarrow> numbers_ok m \<and> call_count m \<le> MAX_CALLS \<and> distinct (call_ids m) \<and> (\<forall>i \<in> set (call_ids m). 1 \<le> i \<and> i \<le> int MAX_CALLS)"

lemma calls_ok_cong: "calls m' = calls m \<Longrightarrow> call_count m' = call_count m \<Longrightarrow> calls_ok m' = calls_ok m"
  by (simp add: calls_ok_def call_ids_def call_list_def numbers_ok_def)

lemma find_id_range: "k \<le> find_id ids n k \<and> find_id ids n k \<le> k + n"
proof (induction n arbitrary: k)
  case (Suc n)
  show ?case using Suc.IH [of "Suc k"] by auto
qed simp

lemma find_id_fresh: "find_id ids n k = k + n \<or> int (find_id ids n k) + 1 \<notin> set ids"
proof (induction n arbitrary: k)
  case (Suc n)
  show ?case using Suc.IH [of "Suc k"] by auto
qed simp

lemma find_id_all: "find_id ids n k = k + n \<Longrightarrow> \<forall>j. k \<le> j \<and> j < k + n \<longrightarrow> int j + 1 \<in> set ids"
proof (induction n arbitrary: k)
  case (Suc n)
  have a: "int k + 1 \<in> set ids" "find_id ids n (Suc k) = Suc k + n" using Suc(2) by (auto split: if_splits)
  show ?case
  proof (intro allI impI)
    fix j assume "k \<le> j \<and> j < k + Suc n"
    then show "int j + 1 \<in> set ids" using a(1) Suc(1) [OF a(2)] by (cases "j = k") auto
  qed
qed auto

text \<open>If the first \<open>n\<close> identifiers are all taken, \<open>n\<close> distinct calls have no others.\<close>

lemma find_id_new:
  assumes "distinct ids" and "length ids = n"
  shows "int (find_id ids n 0) + 1 \<notin> set ids"
proof (cases "find_id ids n 0 = n")
  case True
  then have "(\<lambda>j. int j + 1) ` {0..<n} \<subseteq> set ids" using find_id_all [of ids n 0] by auto
  moreover have "card ((\<lambda>j. int j + 1) ` {0..<n}) = n" by (subst card_image) (auto simp: inj_on_def)
  moreover have "card (set ids) = n" using assms by (simp add: distinct_card)
  ultimately have "set ids = (\<lambda>j. int j + 1) ` {0..<n}" by (metis List.finite_set card_subset_eq)
  then show ?thesis using True by auto
next
  case False
  then show ?thesis using find_id_fresh [of ids n 0] by auto
qed

lemma alloc_call:
  assumes "calls_ok m"
  shows "amodem_alloc_call m = (None, m) \<and> call_count m = MAX_CALLS \<or>
    (\<exists>i. amodem_alloc_call m = (Some (call_count m), (set_call (call_count m) (\<lambda>v. v\<lparr>v_call := (v_call v)\<lparr>c_id := i\<rparr>\<rparr>) m)\<lparr>call_count := Suc (call_count m)\<rparr>) \<and>
       call_count m < MAX_CALLS \<and> i \<notin> set (call_ids m) \<and> 1 \<le> i \<and> i \<le> int MAX_CALLS)"
proof (cases "call_count m < MAX_CALLS")
  case True
  define i where "i = find_id (call_ids m) (call_count m) 0"
  have "int i + 1 \<notin> set (call_ids m)" unfolding i_def using assms by (intro find_id_new) (simp_all add: calls_ok_def call_ids_def)
  moreover have "i \<le> call_count m" using find_id_range [of 0 "call_ids m" "call_count m"] by (simp add: i_def)
  ultimately show ?thesis using True
    by (intro disjI2 exI [of _ "int i + 1"]) (simp add: amodem_alloc_call_def Let_def call_ids_def [symmetric] i_def [symmetric])
next
  case False
  then show ?thesis using assms by (simp add: amodem_alloc_call_def calls_ok_def Let_def)
qed

text \<open>The slot of a new call, filled in.\<close>

lemma new_call_ok:
  assumes "calls_ok m" and "amodem_alloc_call m = (Some k, m1)"
    and "\<And>v. c_id (v_call (f v)) = c_id (v_call v)" and "\<And>v. length (c_number (v_call v)) = 17 \<Longrightarrow> number_ok (c_number (v_call (f v)))"
  shows "calls_ok (set_call k f m1)" and "k = call_count m" and "call_list (set_call k f m1) = call_list m @ [f (calls m1 k)]"
    and "call_count m1 = Suc (call_count m)"
proof -
  obtain i where i: "k = call_count m" "m1 = (set_call k (\<lambda>v. v\<lparr>v_call := (v_call v)\<lparr>c_id := i\<rparr>\<rparr>) m)\<lparr>call_count := Suc (call_count m)\<rparr>"
    "call_count m < MAX_CALLS" "i \<notin> set (call_ids m)" "1 \<le> i" "i \<le> int MAX_CALLS"
    using alloc_call [OF assms(1)] assms(2) by auto
  show "k = call_count m" "call_count m1 = Suc (call_count m)" by (simp_all add: i)
  have l: "call_list (set_call k f m1) = call_list m @ [f (calls m1 k)]"
    by (rule nth_equalityI) (auto simp: nth_call_list nth_append i set_call_def)
  show "call_list (set_call k f m1) = call_list m @ [f (calls m1 k)]" by (rule l)
  have "numbers_ok (set_call k f m1)" using assms(1,4)
    by (auto simp: numbers_ok_def calls_ok_def i(2) set_call_def number_ok_def A_CALL_NUMBER_MAX_SIZE_def)
  moreover have "call_ids (set_call k f m1) = call_ids m @ [i]" unfolding call_ids_def l by (simp add: assms(3) i(2) set_call_def)
  ultimately show "calls_ok (set_call k f m1)" using assms(1) i by (auto simp: calls_ok_def)
qed

lemma loop_spec_ids:
  "set (map (\<lambda>v. c_id (v_call v)) (loop_spec f vs)) \<subseteq> set (map (\<lambda>v. c_id (v_call v)) vs) \<and> length (loop_spec f vs) \<le> length vs \<and>
   (distinct (map (\<lambda>v. c_id (v_call v)) vs) \<longrightarrow> distinct (map (\<lambda>v. c_id (v_call v)) (loop_spec f vs)))"
proof (induction vs)
  case (Cons v vs)
  then show ?case by (cases "f v") auto
qed simp

lemma loop_ok:
  assumes "calls_ok m"
  shows "\<exists>m' os. call_loop env f 0 m = Inr (m', os) \<and> calls_ok m' \<and> call_list m' = loop_spec f (call_list m)"
proof -
  obtain m' os where l: "call_loop env f 0 m = Inr (m', os)" "numbers_ok m'" "call_list m' = loop_spec f (call_list m)"
    using call_loop [of m 0 env f] assms by (auto simp: calls_ok_def)
  have "call_count m' \<le> call_count m" using loop_spec_ids [of f "call_list m"] l(3) length_call_list by metis
  then have "calls_ok m'" using assms l loop_spec_ids [of f "call_list m"] by (auto simp: calls_ok_def call_ids_def)
  then show ?thesis using l by blast
qed

lemma free_ok:
  assumes "calls_ok m" and "k < call_count m"
  shows "\<exists>m' os. amodem_free_call env k m = Inr (m', os) \<and> calls_ok m' \<and> call_list m' = take k (call_list m) @ drop (Suc k) (call_list m)"
proof -
  obtain m' os where f: "amodem_free_call env k m = Inr (m', os)" "numbers_ok m'" "call_count m' = call_count m - 1"
    "call_list m' = take k (call_list m) @ drop (Suc k) (call_list m)" using free_call [OF _ assms(2)] assms(1) unfolding calls_ok_def by blast
  define ids where "ids = call_ids m"
  have i: "call_ids m' = take k ids @ drop (Suc k) ids" by (simp add: call_ids_def f(4) ids_def take_map drop_map)
  have "ids = take k ids @ ids ! k # drop (Suc k) ids" using assms(2) by (intro id_take_nth_drop) (simp add: ids_def call_ids_def)
  then have "distinct (take k ids @ ids ! k # drop (Suc k) ids)" using assms(1) by (metis calls_ok_def ids_def)
  moreover have "set (take k ids @ drop (Suc k) ids) \<subseteq> set ids" by (auto dest: in_set_takeD in_set_dropD)
  ultimately have "calls_ok m'" using assms(1) f(2,3) by (auto simp: calls_ok_def i ids_def)
  then show ?thesis using f by blast
qed

lemma calls_ok_update:
  assumes "calls_ok m" and "\<And>v. c_id (v_call (f v)) = c_id (v_call v)" and "\<And>v. c_number (v_call (f v)) = c_number (v_call v)"
  shows "calls_ok (set_call k f m)"
proof -
  have "call_ids (set_call k f m) = call_ids m"
    using assms(2) by (simp add: call_ids_def call_list_set map_update nth_call_list [symmetric] list_update_same_conv)
  then show ?thesis using assms by (simp add: calls_ok_def numbers_ok_def set_call_def)
qed

lemma set_state_ok:
  assumes "calls_ok m" and "k < call_count m"
  shows "\<exists>m' os. acall_set_state env k s m = Inr (m', os) \<and> calls_ok m' \<and> call_list m' = (call_list m)[k := with_state s (calls m k)]"
proof -
  obtain m' os where s: "acall_set_state env k s m = Inr (m', os)" "numbers_ok m'" "call_count m' = call_count m"
    "call_list m' = (call_list m)[k := with_state s (calls m k)]" using set_state [OF _ assms(2)] assms(1) unfolding calls_ok_def by blast
  have "call_ids m' = call_ids m" using assms(2) by (simp add: call_ids_def s(4) map_update nth_call_list [symmetric] list_update_same_conv)
  then show ?thesis using s assms(1) by (auto simp: calls_ok_def)
qed

lemma inbound_ok:
  assumes "calls_ok m"
  shows "calls_ok (fst (snd (amodem_add_inbound_call number m)))"
proof (cases "amodem_alloc_call m")
  case (Pair k m1)
  show ?thesis
  proof (cases k)
    case None
    then show ?thesis using Pair alloc_call [OF assms] assms by (auto simp: amodem_add_inbound_call_def)
  next
    case (Some j)
    show ?thesis unfolding amodem_add_inbound_call_def using Pair Some
      by (auto intro!: new_call_ok(1) [OF assms] put_number_ok simp: A_CALL_NUMBER_MAX_SIZE_def)
  qed
qed

lemma full_number_length: "length s \<le> 16 \<Longrightarrow> length (full_number s) \<le> 16"
  by (simp add: full_number_def PHONE_PREFIX_def)

lemma dial_number_length: "length (dial_number arg) \<le> 16"
  by (simp add: dial_number_def Let_def full_number_length A_CALL_NUMBER_MAX_SIZE_def)

lemma calls_ok_misc [simp]:
  "calls_ok (m\<lparr>sys_timers := ts\<rparr>) = calls_ok m" "calls_ok (m\<lparr>free_timers := fs\<rparr>) = calls_ok m" "calls_ok (m\<lparr>in_emergency_mode := b\<rparr>) = calls_ok m"
  by (rule calls_ok_cong; simp)+

lemma timer_set_ok: "sys_timer_set t when k m = Inr m' \<Longrightarrow> calls_ok m' = calls_ok m \<and> call_list m' = call_list m \<and> call_count m' = call_count m"
  by (auto simp: sys_timer_set_def call_list_def split: option.splits)

lemma timer_create_ok:
  "sys_timer_create m = (t, m') \<Longrightarrow> calls_ok m' = calls_ok m \<and> calls m' = calls m \<and> call_count m' = call_count m \<and> (t = None \<longleftrightarrow> free_timers m = [])"
proof -
  assume c: "sys_timer_create m = (t, m')"
  then have "calls m' = calls m" "call_count m' = call_count m" "t = None \<longleftrightarrow> free_timers m = []"
    by (auto simp: sys_timer_create_def sys_timer_alloc_def split: list.splits)
  then show ?thesis using calls_ok_cong [of m' m] by simp
qed

lemma dial_result:
  assumes "calls_ok m" and "call_count m < MAX_CALLS" and "free_timers m \<noteq> []" and "nth_char cmd 0 = CHR ''D''"
  shows "\<exists>v m'. handleDial now cmd m = Inr (Buffer (if amodem_is_emergency m (dial_number (tl cmd)) then ''+WSOS: 1'' else []), m', []) \<and> calls_ok m' \<and>
    call_list m' = call_list m @ [v] \<and> c_state (v_call v) = A_CALL_DIALING \<and> c_dir (v_call v) = A_CALL_OUTBOUND \<and>
    (\<exists>a. c_number (v_call v) = put_number a (dial_number (tl cmd)))"
proof -
  define number where "number = dial_number (tl cmd)"
  define f where "f = (\<lambda>v :: AVoiceCallRec. v\<lparr>v_call := (v_call v)\<lparr>c_dir := A_CALL_OUTBOUND, c_state := A_CALL_DIALING, c_mode := A_CALL_VOICE,
      c_multi := 0, c_number := put_number (c_number (v_call v)) number\<rparr>, v_is_remote := 0 < remote_number_string_to_port number\<rparr>)"
  obtain i where a: "amodem_alloc_call m = (Some (call_count m), (set_call (call_count m) (\<lambda>v. v\<lparr>v_call := (v_call v)\<lparr>c_id := i\<rparr>\<rparr>) m)\<lparr>call_count := Suc (call_count m)\<rparr>)"
    using alloc_call [OF assms(1)] assms(2) by auto
  define k where "k = call_count m"
  define m1 where "m1 = (set_call k (\<lambda>v. v\<lparr>v_call := (v_call v)\<lparr>c_id := i\<rparr>\<rparr>) m)\<lparr>call_count := Suc k\<rparr>"
  have a: "amodem_alloc_call m = (Some k, m1)" using a by (simp only: k_def m1_def)
  have "c_id (v_call (f v)) = c_id (v_call v)" "length (c_number (v_call v)) = 17 \<Longrightarrow> number_ok (c_number (v_call (f v)))" for v
    using dial_number_length [of "tl cmd"] by (simp_all add: f_def number_def put_number_ok A_CALL_NUMBER_MAX_SIZE_def)
  note n = new_call_ok(1,3,4) [OF assms(1) a this, folded k_def]
  define m2 where "m2 = (if amodem_is_emergency m number then (set_call k f m1)\<lparr>in_emergency_mode := 1\<rparr> else set_call k f m1)"
  have m2: "calls_ok m2" "calls m2 = calls (set_call k f m1)" "call_count m2 = Suc k" "free_timers m2 = free_timers m"
    using n(1) by (simp add: m2_def) (simp_all add: m2_def m1_def set_call_def)
  obtain p m3 where e: "sys_timer_create m2 = (p, m3)" by (cases "sys_timer_create m2")
  then obtain t where t: "sys_timer_create m2 = (Some t, m3)" using timer_create_ok [OF e] assms(3) m2(4) by (cases p) simp_all
  note t' = timer_create_ok [OF t]
  define m4 where "m4 = set_call k (\<lambda>v. v\<lparr>v_timer := Some t\<rparr>) m3"
  have "call_list m3 = call_list m @ [f (calls m1 k)]" using n t' m2 by (simp add: call_list_def)
  moreover have "calls m3 k = f (calls m1 k)" "call_count m3 = Suc k" using t' m2(2,3) by (simp_all add: set_call_def)
  ultimately have "call_list m4 = call_list m @ [(f (calls m1 k))\<lparr>v_timer := Some t\<rparr>]" by (simp add: m4_def call_list_set k_def list_update_append)
  moreover have "calls_ok m4" unfolding m4_def using t' m2(1) by (intro calls_ok_update) simp_all
  moreover obtain m5 where s: "sys_timer_set (Some t) (now + CALL_DELAY_DIAL) k m4 = Inr m5" by (simp add: sys_timer_set_def)
  ultimately have m5: "calls_ok m5" "call_list m5 = call_list m @ [(f (calls m1 k))\<lparr>v_timer := Some t\<rparr>]" using timer_set_ok [OF s] by simp_all
  have "amodem_is_emergency m1 = amodem_is_emergency m" by (simp add: fun_eq_iff amodem_is_emergency_def m1_def set_call_def)
  then have "handleDial now cmd m = Inr (Buffer (if amodem_is_emergency m number then ''+WSOS: 1'' else []), m5, [])"
    using t s assms(4) by (cases "amodem_is_emergency m number")
      (simp_all add: handleDial_def a Let_def number_def [symmetric] f_def [symmetric] m2_def m4_def lines_answer_def)
  then show ?thesis using m5
    by (intro exI [of _ "(f (calls m1 k))\<lparr>v_timer := Some t\<rparr>"] exI [of _ m5]) (auto simp: number_def [symmetric] f_def)
qed

lemma dial_ok: "calls_ok m \<Longrightarrow> handleDial now cmd m = Inr (r, m', os) \<Longrightarrow> calls_ok m'"
proof -
  assume ok: "calls_ok m" and h: "handleDial now cmd m = Inr (r, m', os)"
  consider "call_count m = MAX_CALLS" "amodem_alloc_call m = (None, m)" | "call_count m < MAX_CALLS" using alloc_call [OF ok] by blast
  then show ?thesis
  proof cases
    case 1
    then show ?thesis using ok h by (simp add: handleDial_def)
  next
    case 2
    have "nth_char cmd 0 = CHR ''D''" using h alloc_call [OF ok] 2 by (auto simp: handleDial_def split: if_splits)
    moreover have "free_timers m \<noteq> []"
      using h alloc_call [OF ok] 2 by (auto simp: handleDial_def Let_def sys_timer_create_def sys_timer_alloc_def sys_timer_set_def set_call_def split: if_splits)
    ultimately show ?thesis using dial_result [OF ok 2, of cmd now] h by auto
  qed
qed

lemma first_index: "first_index P xs = Some k \<Longrightarrow> k < length xs \<and> P (xs ! k) \<and> (\<forall>j < k. \<not> P (xs ! j))"
proof (induction xs arbitrary: k)
  case (Cons x xs)
  then show ?case by (auto simp: less_Suc_eq_0_disj split: if_splits)
qed simp

lemma first_index_None: "first_index P xs = None \<longleftrightarrow> (\<forall>x \<in> set xs. \<not> P x)"
  by (induction xs) auto

lemma find_number: "find_number number vs = Inr (Some k) \<Longrightarrow> k < length vs"
  by (induction vs arbitrary: k) (auto simp: res_bind_eq_Inr split: if_splits)

lemma find_by_number: "amodem_find_call_by_number m n = Inr (Some k) \<Longrightarrow> k < call_count m"
  using find_number [of _ "call_list m" k] by (auto simp: amodem_find_call_by_number_def split: option.splits)

lemma free_ok': "calls_ok m \<Longrightarrow> amodem_free_call env k m = Inr (m', os) \<Longrightarrow> calls_ok m'"
  using free_ok [of m k env] free_call_count [of env k m m' os] by fastforce

lemma set_state_ok': "calls_ok m \<Longrightarrow> k < call_count m \<Longrightarrow> acall_set_state env k s m = Inr (m', os) \<Longrightarrow> calls_ok m'"
  using set_state_ok [of m k env s] by fastforce

lemma loop_ok': "calls_ok m \<Longrightarrow> call_loop env f 0 m = Inr (m', os) \<Longrightarrow> calls_ok m'"
  using loop_ok [of m env f] by fastforce

lemma timer_set_ok': "calls_ok m \<Longrightarrow> sys_timer_set t when k m = Inr m' \<Longrightarrow> calls_ok m'"
  using timer_set_ok by blast

lemma event_ok: "calls_ok m \<Longrightarrow> voice_call_event env now k m = Inr (m', os) \<Longrightarrow> calls_ok m'"
proof -
  assume ok: "calls_ok m" and e: "voice_call_event env now k m = Inr (m', os)"
  have s: "calls_ok (set_call k (\<lambda>v. v\<lparr>v_call := (v_call v)\<lparr>c_state := s\<rparr>\<rparr>) m)" for s using ok by (rule calls_ok_update) simp_all
  show ?thesis using e s free_ok' [OF s] timer_set_ok' [OF s] unfolding voice_call_event_def Let_def
    by (auto simp: res_bind_eq_Inr split: if_splits option.splits)
qed

lemma answer_ok: "calls_ok m \<Longrightarrow> handleAnswer env cmd m = Inr (r, m', os) \<Longrightarrow> calls_ok m'"
  unfolding handleAnswer_def by (auto simp: res_bind_eq_Inr dest: loop_ok')

lemma hangup_ok: "calls_ok m \<Longrightarrow> handleHangup env cmd m = Inr (r, m', os) \<Longrightarrow> calls_ok m'"
  using loop_ok [of m env "hangup_op (drop 6 cmd)"] free_ok' [of m env]
  by (auto simp: handleHangup_def Let_def res_bind_eq_Inr split: if_splits option.splits)

text \<open>The operations on calls, in any order. A timer fires when it is set; the result of a remote call comes back for the slot it was made for.\<close>

inductive call_step :: "remote_env \<Rightarrow> 'b modem_calls_scheme \<Rightarrow> 'b modem_calls_scheme \<Rightarrow> bool" for env where
  inbound: "call_step env m (fst (snd (amodem_add_inbound_call number m)))"
| update: "amodem_update_call env n s m = Inr (r, m', os) \<Longrightarrow> call_step env m m'"
| disconnect: "amodem_disconnect_call env n m = Inr (r, m', os) \<Longrightarrow> call_step env m m'"
| dial: "handleDial now cmd m = Inr (a, m', os) \<Longrightarrow> call_step env m m'"
| answer: "handleAnswer env cmd m = Inr (a, m', os) \<Longrightarrow> call_step env m m'"
| hangup: "handleHangup env cmd m = Inr (a, m', os) \<Longrightarrow> call_step env m m'"
| timer: "st_when (sys_timers m t) = Some due \<Longrightarrow> sys_timer_callback env now t m = Inr (m', os) \<Longrightarrow> call_step env m m'"
| remote: "remote_voice_call_event env k success m = Inr (m', os) \<Longrightarrow> call_step env m m'"

lemma step_calls_ok: "call_step env m m' \<Longrightarrow> calls_ok m \<Longrightarrow> calls_ok m'"
proof (induction rule: call_step.induct)
  case (update n s m r m' os)
  then show ?case by (auto simp: amodem_update_call_def res_bind_eq_Inr split: option.splits) (metis find_by_number set_state_ok')
next
  case (disconnect n m r m' os)
  then show ?case by (auto simp: amodem_disconnect_call_def res_bind_eq_Inr dest: free_ok' split: option.splits)
next
  case (timer m t due now m' os)
  then show ?case using event_ok [of "m\<lparr>sys_timers := (sys_timers m)(t := (sys_timers m t)\<lparr>st_when := None\<rparr>)\<rparr>"] by (simp add: sys_timer_callback_def)
next
  case (remote k success m m' os)
  then show ?case by (auto simp: remote_voice_call_event_def res_bind_eq_Inr dest: free_ok' split: if_splits)
qed (auto intro: inbound_ok dest: dial_ok answer_ok hangup_ok)

lemma steps_calls_ok: "(call_step env)\<^sup>*\<^sup>* m m' \<Longrightarrow> calls_ok m \<Longrightarrow> calls_ok m'"
  by (induction rule: rtranclp_induct) (simp, metis step_calls_ok)

definition no_call :: AVoiceCallRec where
  "no_call = \<lparr>v_call = \<lparr>c_id = 0, c_dir = 0, c_state = 0, c_mode = 0, c_multi = 0, c_number = replicate 17 (CHR 0x00)\<rparr>, v_timer = None, v_is_remote = False\<rparr>"

text \<open>A modem in the memory of a program that has just started, with its timers initialised.\<close>

definition initial_calls :: "int \<Rightarrow> modem_calls" where
  "initial_calls port = \<lparr>calls = (\<lambda>_. no_call), call_count = 0, base_port = port, unsol_func = True, in_emergency_mode = 0,
     emergency_numbers = (\<lambda>i. if i = 0 then Some ''911'' else None), sys_timers = (\<lambda>_. \<lparr>st_when = None, st_opaque = 0\<rparr>), free_timers = [0..<MAX_TIMERS]\<rparr>"

lemma initial_calls_ok: "calls_ok (initial_calls port)"
  by (simp add: calls_ok_def initial_calls_def numbers_ok_def number_ok_def no_call_def call_ids_def call_list_def A_CALL_NUMBER_MAX_SIZE_def)

section \<open>Properties\<close>

text \<open>C30: The identifiers of calls. After any sequence of incoming calls, dials, answers, hang-ups, state changes, timers that are due and results of remote calls,
  in any order from the start of the program and as far as these succeed (the loading of a snapshot is not among them), there are at most four calls, no two of them have the same identifier, and the identifiers are between one and four.\<close>

theorem call_ids_distinct:
  assumes "(call_step env)\<^sup>*\<^sup>* (initial_calls port) m"
  shows "call_count m \<le> MAX_CALLS \<and> distinct (map (\<lambda>v. c_id (v_call v)) (call_list m)) \<and> (\<forall>v \<in> set (call_list m). 1 \<le> c_id (v_call v) \<and> c_id (v_call v) \<le> 4)"
  using steps_calls_ok [OF assms initial_calls_ok] by (auto simp: calls_ok_def call_ids_def MAX_CALLS_def)

definition sample_env :: remote_env where
  "sample_env = \<lparr>re_connect = (\<lambda>_. True), re_token = None, re_alloc = (\<lambda>_. True)\<rparr>"

theorem call_ids_distinct_witness:
  "call_count (fst (snd (amodem_add_inbound_call ''5556'' (initial_calls 5554)))) \<le> MAX_CALLS"
proof -
  have "(call_step sample_env)\<^sup>*\<^sup>* (initial_calls 5554) (fst (snd (amodem_add_inbound_call ''5556'' (initial_calls 5554))))"
    by (rule r_into_rtranclp) (rule call_step.inbound)
  from call_ids_distinct [OF this] show ?thesis by blast
qed

definition is_voice :: "AVoiceCallRec \<Rightarrow> bool" where
  "is_voice v \<longleftrightarrow> c_mode (v_call v) = A_CALL_VOICE"

definition call_state :: "AVoiceCallRec \<Rightarrow> int" where
  "call_state v = c_state (v_call v)"

lemma loop_spec_release: "loop_spec (\<lambda>v. if P v then Release else Keep) vs = filter (\<lambda>v. \<not> P v) vs"
  by (induction vs) simp_all

lemma loop_spec_mixed:
  "loop_spec (\<lambda>v. if P v then Release else if Q v then Set_State s else Keep) vs = map (\<lambda>v. if Q v then with_state s v else v) (filter (\<lambda>v. \<not> P v) vs)"
  by (induction vs) simp_all

lemma loop_spec_map:
  "loop_spec (\<lambda>v. if P v then Set_State s else if Q v then Set_State t else Keep) vs =
   map (\<lambda>v. if P v then with_state s v else if Q v then with_state t v else v) vs"
  by (induction vs) simp_all

lemma hangup_loop:
  assumes "calls_ok m" and "take 6 cmd = ''+CHLD=''" and "\<not> (nth_char (drop 6 cmd) 0 = CHR ''1'' \<and> nth_char (drop 6 cmd) 1 \<noteq> CHR 0x00)"
  shows "\<exists>m' os. handleHangup env cmd m = Inr (No_Answer, m', os) \<and> call_list m' = loop_spec (hangup_op (drop 6 cmd)) (call_list m)"
  using loop_ok [OF assms(1), of env "hangup_op (drop 6 cmd)"] assms(2,3) by (auto simp: handleHangup_def Let_def)

lemma hangup_op_simps:
  "hangup_op ''0'' = (\<lambda>v. if is_voice v \<and> call_state v \<in> {A_CALL_HELD, A_CALL_WAITING, A_CALL_INCOMING} then Release else Keep)"
  "hangup_op ''1'' = (\<lambda>v. if is_voice v \<and> call_state v = A_CALL_ACTIVE then Release
     else if is_voice v \<and> call_state v \<in> {A_CALL_HELD, A_CALL_WAITING} then Set_State A_CALL_ACTIVE else Keep)"
  "hangup_op ''2'' = (\<lambda>v. if is_voice v \<and> call_state v = A_CALL_ACTIVE then Set_State A_CALL_HELD
     else if is_voice v \<and> call_state v \<in> {A_CALL_HELD, A_CALL_WAITING} then Set_State A_CALL_ACTIVE else Keep)"
  "answer_op ''A'' = (\<lambda>v. if call_state v = A_CALL_INCOMING then Set_State A_CALL_ACTIVE
     else if call_state v = A_CALL_ACTIVE then Set_State A_CALL_HELD else Keep)"
  by (auto simp: fun_eq_iff hangup_op_def answer_op_def nth_char_def is_voice_def call_state_def Let_def call_consts)

lemma first_index_filter:
  "distinct (map f xs) \<Longrightarrow> first_index (\<lambda>x. f x = d) xs = Some k \<Longrightarrow> take k xs @ drop (Suc k) xs = filter (\<lambda>x. f x \<noteq> d) xs"
proof (induction xs arbitrary: k)
  case (Cons x xs)
  have "\<forall>y \<in> set xs. f y \<noteq> f x" using Cons.prems(1) by (fastforce simp: image_iff)
  then have "filter (\<lambda>y. f y \<noteq> f x) xs = xs" by (simp add: filter_id_conv)
  then show ?case using Cons by (auto split: if_splits)
qed simp

lemma hangup_one:
  assumes "calls_ok m" and "d \<in> {1..9}"
  shows "\<exists>m' os. handleHangup env (''+CHLD=1'' @ [char_of (48 + d :: nat)]) m = Inr (No_Answer, m', os) \<and>
    call_list m' = filter (\<lambda>v. c_id (v_call v) \<noteq> int d) (call_list m)"
proof -
  have o: "of_char (char_of (48 + d) :: char) = 48 + d" using assms(2) by (auto simp: of_char_of)
  moreover have "of_char (CHR 0x00) = (0 :: nat)" by simp
  ultimately have c: "char_of (48 + d) \<noteq> CHR 0x00" by (metis add_is_0 zero_neq_numeral)
  have i: "int (of_char (char_of (48 + d) :: char)) - 48 = int d" by (simp only: o of_nat_add of_nat_numeral add_diff_cancel_left')
  have h: "handleHangup env (''+CHLD=1'' @ [char_of (48 + d)]) m =
    (case amodem_find_call m (int d) of
       None \<Rightarrow> Inr (No_Answer, m, [])
     | Some k \<Rightarrow> res_bind (amodem_free_call env k m) (\<lambda>(m, os). Inr (No_Answer, m, os)))"
    using c by (simp add: handleHangup_def nth_char_def i del: of_char_of)
  show ?thesis
  proof (cases "amodem_find_call m (int d)")
    case None
    then have "filter (\<lambda>v. c_id (v_call v) \<noteq> int d) (call_list m) = call_list m" by (simp add: amodem_find_call_def first_index_None filter_id_conv)
    then show ?thesis unfolding h None by simp
  next
    case (Some k)
    then have "k < call_count m" using first_index [of _ "call_list m" k] by (simp add: amodem_find_call_def)
    moreover have "take k (call_list m) @ drop (Suc k) (call_list m) = filter (\<lambda>v. c_id (v_call v) \<noteq> int d) (call_list m)"
      using Some assms(1) by (intro first_index_filter) (simp_all add: amodem_find_call_def calls_ok_def call_ids_def)
    ultimately show ?thesis unfolding h Some using free_ok [OF assms(1), of k env] by auto
  qed
qed

text \<open>Hanging up, swapping and answering calls do to the list of calls what the commands promise, in the order of the list and for every list:
  \<open>+CHLD=0\<close> releases exactly the held, waiting and incoming voice calls, \<open>+CHLD=1\<close> releases the active ones and accepts the held and waiting ones,
  \<open>+CHLD=2\<close> exchanges active and held calls, \<open>+CHLD=1n\<close> releases the call with the identifier \<open>n\<close>, and \<open>A\<close> answers the incoming calls and holds
  the active ones. All of them return.\<close>

theorem call_commands:
  assumes "calls_ok m"
  shows "(\<exists>m' os. handleHangup env ''+CHLD=0'' m = Inr (No_Answer, m', os) \<and>
      call_list m' = filter (\<lambda>v. \<not> (is_voice v \<and> call_state v \<in> {A_CALL_HELD, A_CALL_WAITING, A_CALL_INCOMING})) (call_list m)) \<and>
    (\<exists>m' os. handleHangup env ''+CHLD=1'' m = Inr (No_Answer, m', os) \<and>
      call_list m' = map (\<lambda>v. if is_voice v \<and> call_state v \<in> {A_CALL_HELD, A_CALL_WAITING} then with_state A_CALL_ACTIVE v else v)
        (filter (\<lambda>v. \<not> (is_voice v \<and> call_state v = A_CALL_ACTIVE)) (call_list m))) \<and>
    (\<exists>m' os. handleHangup env ''+CHLD=2'' m = Inr (No_Answer, m', os) \<and>
      call_list m' = map (\<lambda>v. if is_voice v \<and> call_state v = A_CALL_ACTIVE then with_state A_CALL_HELD v
        else if is_voice v \<and> call_state v \<in> {A_CALL_HELD, A_CALL_WAITING} then with_state A_CALL_ACTIVE v else v) (call_list m)) \<and>
    (\<forall>d \<in> {1..9}. \<exists>m' os. handleHangup env (''+CHLD=1'' @ [char_of (48 + d :: nat)]) m = Inr (No_Answer, m', os) \<and>
      call_list m' = filter (\<lambda>v. c_id (v_call v) \<noteq> int d) (call_list m)) \<and>
    (\<exists>m' os. handleAnswer env ''A'' m = Inr (No_Answer, m', os) \<and>
      call_list m' = map (\<lambda>v. if call_state v = A_CALL_INCOMING then with_state A_CALL_ACTIVE v
        else if call_state v = A_CALL_ACTIVE then with_state A_CALL_HELD v else v) (call_list m))"
proof (intro conjI ballI)
  note h = hangup_loop [OF assms, of _ env]
  show "\<exists>m' os. handleHangup env ''+CHLD=0'' m = Inr (No_Answer, m', os) \<and>
      call_list m' = filter (\<lambda>v. \<not> (is_voice v \<and> call_state v \<in> {A_CALL_HELD, A_CALL_WAITING, A_CALL_INCOMING})) (call_list m)"
    using h [of "''+CHLD=0''"] by (simp add: hangup_op_simps loop_spec_release nth_char_def)
  show "\<exists>m' os. handleHangup env ''+CHLD=1'' m = Inr (No_Answer, m', os) \<and>
      call_list m' = map (\<lambda>v. if is_voice v \<and> call_state v \<in> {A_CALL_HELD, A_CALL_WAITING} then with_state A_CALL_ACTIVE v else v)
        (filter (\<lambda>v. \<not> (is_voice v \<and> call_state v = A_CALL_ACTIVE)) (call_list m))"
    using h [of "''+CHLD=1''"] by (simp add: hangup_op_simps loop_spec_mixed nth_char_def)
  show "\<exists>m' os. handleHangup env ''+CHLD=2'' m = Inr (No_Answer, m', os) \<and>
      call_list m' = map (\<lambda>v. if is_voice v \<and> call_state v = A_CALL_ACTIVE then with_state A_CALL_HELD v
        else if is_voice v \<and> call_state v \<in> {A_CALL_HELD, A_CALL_WAITING} then with_state A_CALL_ACTIVE v else v) (call_list m)"
    using h [of "''+CHLD=2''"] by (simp add: hangup_op_simps loop_spec_map nth_char_def)
  show "\<exists>m' os. handleAnswer env ''A'' m = Inr (No_Answer, m', os) \<and>
      call_list m' = map (\<lambda>v. if call_state v = A_CALL_INCOMING then with_state A_CALL_ACTIVE v
        else if call_state v = A_CALL_ACTIVE then with_state A_CALL_HELD v else v) (call_list m)"
    using loop_ok [OF assms, of env "answer_op ''A''"] by (auto simp: handleAnswer_def hangup_op_simps loop_spec_map)
qed (rule hangup_one [OF assms])

theorem call_commands_witness:
  "\<exists>m' os. handleHangup sample_env ''+CHLD=0'' (fst (snd (amodem_add_inbound_call ''5556'' (initial_calls 5554)))) = Inr (No_Answer, m', os) \<and> call_list m' = []"
proof -
  define m where "m = fst (snd (amodem_add_inbound_call ''5556'' (initial_calls 5554)))"
  have l: "\<exists>v. call_list m = [v] \<and> is_voice v \<and> call_state v = A_CALL_INCOMING"
    by (simp add: m_def amodem_add_inbound_call_def amodem_alloc_call_def initial_calls_def call_list_def MAX_CALLS_def set_call_def is_voice_def call_state_def
        window_def Let_def)
  have "calls_ok m" unfolding m_def by (intro inbound_ok initial_calls_ok)
  from call_commands [OF this, of sample_env] l show ?thesis unfolding m_def [symmetric] by fastforce
qed

section \<open>Restored calls\<close>

lemma release_all:
  assumes "calls_ok m" and "n = call_count m"
  shows "\<exists>m' os. release_all env n m = Inr (m', os) \<and> calls_ok m' \<and> call_count m' = 0"
  using assms
proof (induction n arbitrary: m)
  case (Suc n)
  obtain m1 os where f: "amodem_free_call env n m = Inr (m1, os)" "calls_ok m1" using free_ok [OF Suc(2), of n env] Suc(3) by auto
  have "n = call_count m1" using free_call_count [OF f(1)] Suc(3) by simp
  from Suc(1) [OF f(2) this] show ?case using f(1) by auto
qed auto

text \<open>What a snapshot keeps of a call.\<close>

definition same_call :: "ACallRec \<Rightarrow> ACallRec \<Rightarrow> bool" where
  "same_call c d \<longleftrightarrow> c_dir c = c_dir d \<and> c_state c = c_state d \<and> c_mode c = c_mode d \<and> c_multi c = c_multi d \<and> c_number c = c_number d"

definition fits_byte :: "ACallRec \<Rightarrow> bool" where
  "fits_byte c \<longleftrightarrow> c_dir c \<in> {0..255} \<and> c_state c \<in> {0..255} \<and> c_mode c \<in> {0..255}"

lemma uint_byte: "x \<in> {0..255} \<Longrightarrow> uint (word_of_int x :: u8) = x"
  by (simp add: uint_word_of_int)

lemma load_call:
  assumes "number_ok (c_number c)" and "fits_byte c" and "length (c_number (v_call (calls m k))) = 17"
  shows "\<exists>f. load_call k \<lparr>rs_bytes = call_bytes c @ bs, rs_error = e\<rparr> m = (set_call k f m, \<lparr>rs_bytes = bs, rs_error = e\<rparr>) \<and>
    (\<forall>v. c_id (v_call (f v)) = c_id (v_call v)) \<and> (\<forall>v. length (c_number (v_call v)) = 17 \<longrightarrow> same_call (v_call (f v)) c)"
proof -
  define f where "f = (\<lambda>v :: AVoiceCallRec. v\<lparr>v_call := (v_call v)\<lparr>c_dir := c_dir c, c_state := c_state c, c_mode := c_mode c, c_multi := c_multi c,
    c_number := overwrite (c_number (v_call v)) 0 (c_number c)\<rparr>\<rparr>)"
  have n: "length (c_number c) = 17" using assms(1) by (simp add: number_ok_def A_CALL_NUMBER_MAX_SIZE_def)
  have "map byte_char (map char_byte (c_number c)) = c_number c" by (simp add: map_idI)
  then have "load_call k \<lparr>rs_bytes = call_bytes c @ bs, rs_error = e\<rparr> m = (set_call k f m, \<lparr>rs_bytes = bs, rs_error = e\<rparr>)"
    using assms(2) n by (simp add: load_call_def call_bytes_def stream_get f_def fits_byte_def uint_byte A_CALL_NUMBER_MAX_SIZE_def del: map_map)
  then show ?thesis using n by (intro exI [of _ f]) (auto simp: f_def same_call_def overwrite_def)
qed

lemma find_id_count: "find_id (map int [1..<Suc n]) k j = j + k" if "j + k \<le> n"
  using that
proof (induction k arbitrary: j)
  case (Suc k)
  have "int (Suc j) \<in> int ` {1..<Suc n}" using Suc.prems by (intro imageI) simp
  then have "int j + 1 \<in> set (map int [1..<Suc n])" by (simp del: upt_Suc add: add.commute)
  then show ?case using Suc.IH [of "Suc j"] Suc.prems by (simp del: upt_Suc)
qed simp

lemma load_calls:
  assumes "calls_ok m" and "call_ids m = map int [1..<Suc (call_count m)]" and "call_count m + length cs \<le> MAX_CALLS"
    and "\<forall>c \<in> set cs. number_ok (c_number c) \<and> fits_byte c"
  shows "\<exists>m'. load_calls (length cs) \<lparr>rs_bytes = concat (map call_bytes cs) @ bs, rs_error = e\<rparr> m = Inr (m', \<lparr>rs_bytes = bs, rs_error = e\<rparr>) \<and>
    calls_ok m' \<and> call_count m' = call_count m + length cs \<and> call_ids m' = map int [1..<Suc (call_count m')] \<and>
    (list_all2 same_call vs (map v_call (call_list m)) \<longrightarrow> list_all2 same_call (vs @ cs) (map v_call (call_list m')))"
  using assms
proof (induction cs arbitrary: m vs)
  case (Cons c cs)
  define k where "k = call_count m"
  have i: "find_id (call_ids m) k 0 = k" unfolding Cons.prems(2) k_def [symmetric] using find_id_count [of 0 k k] by simp
  define m1 where "m1 = (set_call k (\<lambda>v. v\<lparr>v_call := (v_call v)\<lparr>c_id := int k + 1\<rparr>\<rparr>) m)\<lparr>call_count := k + 1\<rparr>"
  have a: "amodem_alloc_call m = (Some k, m1)"
    using Cons.prems(3) i by (simp add: amodem_alloc_call_def Let_def k_def [symmetric] call_ids_def [symmetric] m1_def)
  have "length (c_number (v_call (calls m1 k))) = 17"
    using Cons.prems(1) by (simp add: m1_def set_call_def calls_ok_def numbers_ok_def number_ok_def A_CALL_NUMBER_MAX_SIZE_def)
  then obtain f where f: "load_call k \<lparr>rs_bytes = call_bytes c @ concat (map call_bytes cs) @ bs, rs_error = e\<rparr> m1 =
      (set_call k f m1, \<lparr>rs_bytes = concat (map call_bytes cs) @ bs, rs_error = e\<rparr>)"
    "\<And>v. c_id (v_call (f v)) = c_id (v_call v)" "\<And>v. length (c_number (v_call v)) = 17 \<Longrightarrow> same_call (v_call (f v)) c"
    using load_call [of c m1 k "concat (map call_bytes cs) @ bs" e] Cons.prems(4) by auto
  have n: "length (c_number (v_call v)) = 17 \<Longrightarrow> number_ok (c_number (v_call (f v)))" for v
    using f(3) [of v] Cons.prems(4) by (simp add: same_call_def)
  note w = new_call_ok [OF Cons.prems(1) a f(2) n]
  have s: "same_call c (v_call (f (calls m1 k)))"
    using f(3) [OF \<open>length (c_number (v_call (calls m1 k))) = 17\<close>] by (simp add: same_call_def)
  have m2: "call_count (set_call k f m1) = Suc k" "call_ids (set_call k f m1) = map int [1..<Suc (Suc k)]"
    using Cons.prems(2) w(3) f(2) by (simp_all add: m1_def call_ids_def k_def set_call_def)
  have "list_all2 same_call vs (map v_call (call_list m)) \<Longrightarrow> list_all2 same_call (vs @ [c]) (map v_call (call_list (set_call k f m1)))"
    using s by (simp add: w(3) list_all2_appendI)
  moreover obtain m' where "load_calls (length cs) \<lparr>rs_bytes = concat (map call_bytes cs) @ bs, rs_error = e\<rparr> (set_call k f m1) = Inr (m', \<lparr>rs_bytes = bs, rs_error = e\<rparr>)"
    "calls_ok m'" "call_count m' = Suc k + length cs" "call_ids m' = map int [1..<Suc (call_count m')]"
    "list_all2 same_call (vs @ [c]) (map v_call (call_list (set_call k f m1))) \<longrightarrow> list_all2 same_call ((vs @ [c]) @ cs) (map v_call (call_list m'))"
    using Cons.IH [of "set_call k f m1" "vs @ [c]"] w(1) m2 Cons.prems(3,4) by (auto simp: k_def)
  ultimately show ?case using a f(1) by (auto simp: k_def)
qed simp

text \<open>A snapshot of the calls. Loading it, over whatever calls there are, gives as many calls as were saved, with the direction, state, mode and number
  of each; but in the opposite order, and with the identifiers one, two and so on in the new order, so that the identifiers of two or more calls change.\<close>

theorem calls_snapshot:
  assumes "calls_ok m" and "\<forall>v \<in> set (call_list m). fits_byte (v_call v)" and "calls_ok m0"
  shows "\<exists>m' os. amodem_state_load env \<lparr>rs_bytes = amodem_state_save m @ bs, rs_error = e\<rparr> m0 = Inr (m', \<lparr>rs_bytes = bs, rs_error = e\<rparr>, os) \<and>
    calls_ok m' \<and> list_all2 same_call (rev (map v_call (call_list m))) (map v_call (call_list m')) \<and>
    map (\<lambda>v. c_id (v_call v)) (call_list m') = map int [1..<Suc (call_count m)]"
proof -
  obtain m1 os where r: "release_all env (call_count m0) m0 = Inr (m1, os)" "calls_ok m1" "call_count m1 = 0" using release_all [OF assms(3) refl] by blast
  define cs where "cs = rev (map v_call (call_list m))"
  have c: "call_count m \<le> 4" using assms(1) by (simp add: calls_ok_def MAX_CALLS_def)
  then have u: "unat (of_nat (call_count m) :: u8) = call_count m" by (simp add: unat_of_nat)
  have "number_ok (c_number d)" if "d \<in> set cs" for d using that assms(1) by (auto simp: cs_def calls_ok_def numbers_ok_def call_list_def window_def)
  then have n: "\<forall>d \<in> set cs. number_ok (c_number d) \<and> fits_byte d" using assms(2) by (auto simp: cs_def)
  have l: "length cs = call_count m" by (simp add: cs_def)
  have e0: "call_list m1 = []" using r(3) length_call_list [of m1] by (simp del: length_call_list)
  have s: "amodem_state_save m @ bs = of_nat (call_count m) # concat (map call_bytes cs) @ bs" by (simp add: amodem_state_save_def cs_def rev_map comp_def)
  obtain m' where m': "load_calls (length cs) \<lparr>rs_bytes = concat (map call_bytes cs) @ bs, rs_error = e\<rparr> m1 = Inr (m', \<lparr>rs_bytes = bs, rs_error = e\<rparr>)"
    "calls_ok m'" "call_count m' = call_count m" "call_ids m' = map int [1..<Suc (call_count m')]" "list_all2 same_call cs (map v_call (call_list m'))"
    using load_calls [OF r(2) _ _ n, of bs e "[]"] r(3) c l e0 by (auto simp: call_ids_def MAX_CALLS_def)
  have "amodem_state_load env \<lparr>rs_bytes = amodem_state_save m @ bs, rs_error = e\<rparr> m0 = Inr (m', \<lparr>rs_bytes = bs, rs_error = e\<rparr>, os)"
    using r(1) m'(1) u l by (simp add: amodem_state_load_def s stream_get)
  then show ?thesis using m' by (auto simp: cs_def call_ids_def)
qed

theorem calls_snapshot_witness:
  "\<exists>m' os. amodem_state_load sample_env \<lparr>rs_bytes = amodem_state_save (initial_calls 5554) @ [], rs_error = 0\<rparr>
      (fst (snd (amodem_add_inbound_call ''5556'' (initial_calls 5554)))) = Inr (m', \<lparr>rs_bytes = [], rs_error = 0\<rparr>, os) \<and> call_list m' = []"
proof -
  define m0 where "m0 = fst (snd (amodem_add_inbound_call ''5556'' (initial_calls 5554)))"
  have "calls_ok m0" unfolding m0_def by (intro inbound_ok initial_calls_ok)
  moreover have "call_list (initial_calls 5554) = []" by (simp add: initial_calls_def call_list_def)
  ultimately show ?thesis unfolding m0_def [symmetric] using calls_snapshot [of "initial_calls 5554" m0 sample_env "[]" 0] initial_calls_ok by auto
qed

section \<open>Calls that moved\<close>

text \<open>
  A call that is released moves the calls behind it to other slots, but their timers still name the old ones. Of two dialled calls the first is
  hung up: the timer of the second then changes the state of a slot that is not in use, and the call itself stays in the dialing state for
  ever. If another call has come in, it has taken that slot, with the timer in it, and the event of the timer ends the program.
\<close>

lemmas call_eval = amodem_alloc_call_def handleDial_def handleHangup_def amodem_find_call_def amodem_free_call_def move_calls_def sys_timer_create_def
  sys_timer_alloc_def sys_timer_set_def sys_timer_destroy_def sys_timer_free_def sys_timer_callback_def voice_call_event_def
  dial_number_def full_number_def PHONE_PREFIX_def remote_number_string_to_port_def strtol_def scan_number_def is_space_def skip_sign_def number_base_def
  starts_digit_def digit_value_def remote_number_to_port_def REMOTE_NUMBER_BASE_def REMOTE_NUMBER_MAX_def REMOTE_CONSOLE_PORT_def amodem_is_emergency_def
  MAX_EMERGENCY_NUMBERS_def A_CALL_NUMBER_MAX_SIZE_def MAX_CALLS_def MAX_TIMERS_def lines_answer_def nth_char_def call_list_def window_def set_call_def
  CALL_DELAY_DIAL_def CALL_DELAY_ALERT_def call_consts Let_def upt_rec

definition two_dialled :: "modem_calls res" where
  "two_dialled =
     res_bind (handleDial 0 ''D5551234;'' (initial_calls 5554)) (\<lambda>(_, m, _).
     res_bind (handleDial 0 ''D5554321;'' m) (\<lambda>(_, m, _).
     res_bind (handleHangup sample_env ''+CHLD=11'' m) (\<lambda>(_, m, _). Inr m)))"

lemma two_dialled:
  "\<exists>m. two_dialled = Inr m \<and> call_count m = 1 \<and> c_state (v_call (calls m 0)) = A_CALL_DIALING \<and> c_state (v_call (calls m 1)) = A_CALL_DIALING \<and>
    v_timer (calls m 0) = Some 1 \<and> v_timer (calls m 1) = Some 1 \<and> \<not> v_is_remote (calls m 1) \<and> sys_timers m 1 = \<lparr>st_when = Some 1000, st_opaque = 1\<rparr>"
  by (simp add: two_dialled_def initial_calls_def no_call_def call_eval)

theorem moved_call_stays_dialing:
  "res_bind two_dialled (\<lambda>m.
   res_bind (sys_timer_callback sample_env 1000 1 m) (\<lambda>(m, _).
   res_bind (sys_timer_callback sample_env 2000 1 m) (\<lambda>(m, _). Inr (map call_state (call_list m), st_when (sys_timers m 1))))) = Inr ([A_CALL_DIALING], None)"
proof -
  obtain m where m: "two_dialled = Inr m" "call_count m = 1" "c_state (v_call (calls m 0)) = A_CALL_DIALING" "c_state (v_call (calls m 1)) = A_CALL_DIALING"
    "v_timer (calls m 1) = Some 1" "\<not> v_is_remote (calls m 1)" "sys_timers m 1 = \<lparr>st_when = Some 1000, st_opaque = 1\<rparr>" using two_dialled by blast
  obtain m1 os1 where 1: "sys_timer_callback sample_env 1000 1 m = Inr (m1, os1)" "call_count m1 = 1" "c_state (v_call (calls m1 0)) = A_CALL_DIALING"
    "c_state (v_call (calls m1 1)) = A_CALL_ALERTING" "sys_timers m1 1 = \<lparr>st_when = Some 2000, st_opaque = 1\<rparr>"
    using m by (simp add: sys_timer_callback_def voice_call_event_def sys_timer_set_def set_call_def CALL_DELAY_ALERT_def call_consts Let_def)
  obtain m2 os2 where 2: "sys_timer_callback sample_env 2000 1 m1 = Inr (m2, os2)" "call_count m2 = 1" "c_state (v_call (calls m2 0)) = A_CALL_DIALING"
    "st_when (sys_timers m2 1) = None"
    using 1 by (simp add: sys_timer_callback_def voice_call_event_def set_call_def call_consts Let_def)
  show ?thesis unfolding m(1) using 1(1) 2 by (simp add: call_list_def window_def call_state_def)
qed

theorem new_call_inherits_timer:
  "\<exists>m. two_dialled = Inr m \<and>
    sys_timer_callback sample_env 1000 1 (fst (snd (amodem_add_inbound_call ''5550000'' m))) = Inl Assert_Failure"
proof -
  obtain m where m: "two_dialled = Inr m" "call_count m = 1" "sys_timers m 1 = \<lparr>st_when = Some 1000, st_opaque = 1\<rparr>" using two_dialled by blast
  have "sys_timer_callback sample_env 1000 1 (fst (snd (amodem_add_inbound_call ''5550000'' m))) = Inl Assert_Failure"
    using m(2,3) by (simp add: amodem_add_inbound_call_def amodem_alloc_call_def MAX_CALLS_def Let_def sys_timer_callback_def voice_call_event_def set_call_def call_consts)
  then show ?thesis using m(1) by blast
qed

text \<open>A snapshot with more than four calls makes the load write through a null pointer.\<close>

theorem load_unchecked_count: "call_count m \<le> MAX_CALLS \<Longrightarrow> MAX_CALLS < call_count m + n \<Longrightarrow> load_calls n f m = Inl Undefined"
proof (induction n arbitrary: f m)
  case (Suc n)
  show ?case
  proof (cases "call_count m < MAX_CALLS")
    case True
    have "load_calls n f' (set_call k g (m'\<lparr>call_count := Suc (call_count m)\<rparr>)) = Inl Undefined" for f' k g and m' :: "'a modem_calls_scheme"
      using True Suc.prems(2) by (intro Suc.IH) simp_all
    then show ?thesis using True by (auto simp: amodem_alloc_call_def load_call_def Let_def split: prod.split)
  next
    case False
    then show ?thesis by (simp add: amodem_alloc_call_def Let_def)
  qed
qed simp

end
