(* ===== verification/Sim_Card.thy ===== *)
theory Sim_Card
  imports Modem_Calls
begin

text \<open>
  The SIM card, \<open>android/telephony/sim_card.c\<close>: its status, the PIN and the PUK with their counter of wrong entries, and the fixed answers to
  requests for its files. The arrays of the PIN and the PUK always end with a zero, so they are modelled as strings.
\<close>

section \<open>State and operations\<close>

datatype ASimStatus = A_SIM_STATUS_ABSENT | A_SIM_STATUS_NOT_READY | A_SIM_STATUS_READY | A_SIM_STATUS_PIN | A_SIM_STATUS_PUK
  | A_SIM_STATUS_NETWORK_PERSONALIZATION

definition A_SIM_PIN_SIZE :: nat where "A_SIM_PIN_SIZE = 4"
definition A_SIM_PUK_SIZE :: nat where "A_SIM_PUK_SIZE = 8"

record ASimCardRec =
  sim_status :: ASimStatus
  sim_pin :: string
  sim_puk :: string
  sim_retries :: int
  sim_port :: int

definition asimcard_create :: "int \<Rightarrow> ASimCardRec" where
  "asimcard_create port = \<lparr>sim_status = A_SIM_STATUS_READY, sim_pin = ''0000'', sim_puk = ''12345678'', sim_retries = 0, sim_port = port\<rparr>"

definition asimcard_ready :: "ASimCardRec \<Rightarrow> bool" where
  "asimcard_ready sim \<longleftrightarrow> sim_status sim = A_SIM_STATUS_READY"

definition asimcard_get_status :: "ASimCardRec \<Rightarrow> ASimStatus" where
  "asimcard_get_status sim = sim_status sim"

definition asimcard_set_status :: "ASimCardRec \<Rightarrow> ASimStatus \<Rightarrow> ASimCardRec" where
  "asimcard_set_status sim status = sim\<lparr>sim_status := status\<rparr>"

definition asimcard_get_pin :: "ASimCardRec \<Rightarrow> string" where "asimcard_get_pin sim = sim_pin sim"
definition asimcard_get_puk :: "ASimCardRec \<Rightarrow> string" where "asimcard_get_puk sim = sim_puk sim"

definition asimcard_set_pin :: "ASimCardRec \<Rightarrow> string \<Rightarrow> ASimCardRec" where
  "asimcard_set_pin sim pin = sim\<lparr>sim_pin := take A_SIM_PIN_SIZE pin, sim_retries := 0\<rparr>"

definition asimcard_set_puk :: "ASimCardRec \<Rightarrow> string \<Rightarrow> ASimCardRec" where
  "asimcard_set_puk sim puk = sim\<lparr>sim_puk := take A_SIM_PUK_SIZE puk, sim_retries := 0\<rparr>"

definition asimcard_check_pin :: "ASimCardRec \<Rightarrow> string \<Rightarrow> bool \<times> ASimCardRec" where
  "asimcard_check_pin sim pin =
     (if sim_status sim \<noteq> A_SIM_STATUS_PIN \<and> sim_status sim \<noteq> A_SIM_STATUS_READY then (False, sim)
      else if sim_pin sim = pin then (True, sim\<lparr>sim_status := A_SIM_STATUS_READY, sim_retries := 0\<rparr>)
      else if sim_status sim \<noteq> A_SIM_STATUS_READY
           then let n = sim_retries sim + 1
                in (False, sim\<lparr>sim_retries := n, sim_status := (if n = 3 then A_SIM_STATUS_PUK else sim_status sim)\<rparr>)
           else (False, sim))"

definition asimcard_check_puk :: "ASimCardRec \<Rightarrow> string \<Rightarrow> string \<Rightarrow> bool \<times> ASimCardRec" where
  "asimcard_check_puk sim puk pin =
     (if sim_status sim \<noteq> A_SIM_STATUS_PUK then (False, sim)
      else if sim_puk sim = puk
           then (True, sim\<lparr>sim_puk := take A_SIM_PUK_SIZE puk, sim_pin := take A_SIM_PIN_SIZE pin, sim_status := A_SIM_STATUS_READY, sim_retries := 0\<rparr>)
      else let n = sim_retries sim + 1
           in (False, sim\<lparr>sim_retries := n, sim_status := (if n = 6 then A_SIM_STATUS_ABSENT else sim_status sim)\<rparr>))"

definition sim_answers :: "(string \<times> string) list" where
  "sim_answers =
    [(''+CRSM=192,28436,0,0,15'', ''+CRSM: 144,0,000000146f1404001aa0aa01020000''),
     (''+CRSM=176,28436,0,0,20'', ''+CRSM: 144,0,416e64726f6964ffffffffffffffffffffffffff''),
     (''+CRSM=192,28433,0,0,15'', ''+CRSM: 144,0,000000016f11040011a0aa01020000''),
     (''+CRSM=176,28433,0,0,1'', ''+CRSM: 144,0,55''),
     (''+CRSM=192,12258,0,0,15'', ''+CRSM: 144,0,0000000a2fe204000fa0aa01020000''),
     (''+CRSM=176,12258,0,0,10'', ''+CRSM: 144,0,98101430121181157002''),
     (''+CRSM=192,28435,0,0,15'', ''+CRSM: 144,0,000000016f13040011a0aa01020000''),
     (''+CRSM=176,28435,0,0,1'', ''+CRSM: 144,0,55''),
     (''+CRSM=192,28472,0,0,15'', ''+CRSM: 144,0,0000000f6f3804001aa0aa01020000''),
     (''+CRSM=176,28472,0,0,15'', ''+CRSM: 144,0,ff30ffff3c003c03000c0000f03f00''),
     (''+CRSM=192,28617,0,0,15'', ''+CRSM: 144,0,000000086fc9040011a0aa01020104''),
     (''+CRSM=178,28617,1,4,4'', ''+CRSM: 144,0,01000000''),
     (''+CRSM=192,28618,0,0,15'', ''+CRSM: 144,0,0000000a6fca040011a0aa01020105''),
     (''+CRSM=178,28618,1,4,5'', ''+CRSM: 144,0,0000000000''),
     (''+CRSM=192,28589,0,0,15'', ''+CRSM: 144,0,000000046fad04000aa0aa01020000''),
     (''+CRSM=176,28589,0,0,4'', ''+CRSM: 144,0,00000003''),
     (''+CRSM=192,28438,0,0,15'', ''+CRSM: 144,0,000000026f1604001aa0aa01020000''),
     (''+CRSM=176,28438,0,0,2'', ''+CRSM: 144,0,0233''),
     (''+CRSM=192,28486,0,0,15'', ''+CRSM: 148,4''),
     (''+CRSM=192,28621,0,0,15'', ''+CRSM: 148,4''),
     (''+CRSM=192,28613,0,0,15'', ''+CRSM: 144,0,000000f06fc504000aa0aa01020118''),
     (''+CRSM=178,28613,1,4,24'', ''+CRSM: 144,0,43058441aa890affffffffffffffffffffffffffffffffff''),
     (''+CRSM=192,28480,0,0,15'', ''+CRSM: 144,0,000000806f40040011a0aa01020120''),
     (''+CRSM=178,28480,1,4,32'', ''+CRSM: 144,0,ffffffffffffffffffffffffffffffffffff07815155258131f5ffffffffffff''),
     (''+CRSM=192,28615,0,0,15'', ''+CRSM: 144,0,000000406fc7040011a0aa01020120''),
     (''+CRSM=178,28615,1,4,32'', ''+CRSM: 144,0,566f6963656d61696cffffffffffffffffff07915155125740f9ffffffffffff'')]"

definition asimcard_io :: "ASimCardRec \<Rightarrow> string \<Rightarrow> string res" where
  "asimcard_io sim cmd =
     (if take 6 cmd \<noteq> ''+CRSM='' then Inl Assert_Failure
      else if cmd = ''+CRSM=178,28480,1,4,32''
           then let p = sim_port sim; d = (\<lambda>k. show_dec (sgn p * (\<bar>p\<bar> div k mod 10)))
                in Inr (take 255 (''+CRSM: 144,0,ffffffffffffffffffffffffffffffffffff0781515525'' @ d 1000 @ ''1'' @ d 10 @ d 100 @ ''f'' @ d 1 @ ''ffffffffffff''))
      else Inr (case map_of sim_answers cmd of Some a \<Rightarrow> a | None \<Rightarrow> ''ERROR: BAD COMMAND''))"

section \<open>Entering the PIN\<close>

fun enter_pins :: "ASimCardRec \<Rightarrow> string list \<Rightarrow> ASimCardRec" where
  "enter_pins sim [] = sim"
| "enter_pins sim (p # ps) = enter_pins (snd (asimcard_check_pin sim p)) ps"

lemma puk_stays: "sim_status sim = A_SIM_STATUS_PUK \<Longrightarrow> enter_pins sim ps = sim"
  by (induction ps) (simp_all add: asimcard_check_pin_def)

lemma wrong_pins:
  "sim_status sim = A_SIM_STATUS_PIN \<Longrightarrow> 0 \<le> sim_retries sim \<Longrightarrow> sim_retries sim < 3 \<Longrightarrow> sim_pin sim \<notin> set ps \<Longrightarrow>
   sim_pin (enter_pins sim ps) = sim_pin sim \<and>
   (if sim_retries sim + int (length ps) < 3
    then sim_status (enter_pins sim ps) = A_SIM_STATUS_PIN \<and> sim_retries (enter_pins sim ps) = sim_retries sim + int (length ps)
    else sim_status (enter_pins sim ps) = A_SIM_STATUS_PUK)"
proof (induction ps arbitrary: sim)
  case (Cons p ps)
  define s where "s = snd (asimcard_check_pin sim p)"
  have s: "s = sim\<lparr>sim_retries := sim_retries sim + 1, sim_status := (if sim_retries sim + 1 = 3 then A_SIM_STATUS_PUK else A_SIM_STATUS_PIN)\<rparr>"
    using Cons.prems by (auto simp: s_def asimcard_check_pin_def Let_def)
  have e: "enter_pins sim (p # ps) = enter_pins s ps" by (simp add: s_def)
  show ?case
  proof (cases "sim_retries sim + 1 = 3")
    case True
    then show ?thesis using puk_stays [of s ps] unfolding e by (simp add: s)
  next
    case False
    then show ?thesis using Cons.IH [of s] Cons.prems unfolding e by (auto simp: s)
  qed
qed simp

text \<open>Wrong PINs. When the card waits for its PIN and no wrong entry has been made, up to two wrong entries leave it waiting, and the right PIN then
  makes it ready and forgets them; after the third the card waits for the PUK, and no PIN, not even the right one, makes it ready again.\<close>

theorem pin_entry:
  assumes "sim_status sim = A_SIM_STATUS_PIN" and "sim_retries sim = 0" and "sim_pin sim \<notin> set ps"
  shows "if length ps < 3
    then asimcard_check_pin (enter_pins sim ps) (sim_pin sim) = (True, (enter_pins sim ps)\<lparr>sim_status := A_SIM_STATUS_READY, sim_retries := 0\<rparr>)
    else sim_status (enter_pins sim ps) = A_SIM_STATUS_PUK \<and> (\<forall>pin. asimcard_check_pin (enter_pins sim ps) pin = (False, enter_pins sim ps))"
proof (cases "length ps < 3")
  case True
  then have "sim_status (enter_pins sim ps) = A_SIM_STATUS_PIN" "sim_pin (enter_pins sim ps) = sim_pin sim" using wrong_pins [of sim ps] assms by auto
  then show ?thesis using True by (simp add: asimcard_check_pin_def)
next
  case False
  then have "sim_status (enter_pins sim ps) = A_SIM_STATUS_PUK" using wrong_pins [of sim ps] assms by auto
  then show ?thesis using False by (simp add: asimcard_check_pin_def)
qed

theorem pin_entry_witness:
  "sim_status (enter_pins ((asimcard_create 5554)\<lparr>sim_status := A_SIM_STATUS_PIN\<rparr>) [''1111'', ''2222'', ''3333'']) = A_SIM_STATUS_PUK"
  using pin_entry [of "(asimcard_create 5554)\<lparr>sim_status := A_SIM_STATUS_PIN\<rparr>" "[''1111'', ''2222'', ''3333'']"] by (simp add: asimcard_create_def)

end
