(* ===== verification/Modem.thy ===== *)
theory Modem
  imports Sim_Card
begin

text \<open>
  The modem, \<open>android/telephony/modem.c\<close>: its configuration, the registration with the network, operators, technologies, data contexts, and the
  interpreter of AT commands. The record of the modem extends the part that \<open>Modem_Calls\<close> uses. The configuration in the non-volatile memory
  is the list of its entries; a value is \<open>None\<close> when it is a pointer to memory that is no longer valid. The answers of handlers
  distinguish constant strings from the output buffer, since an answer in the buffer is extended in place.
\<close>

section \<open>State\<close>

datatype ARadioState = A_RADIO_STATE_OFF | A_RADIO_STATE_ON

definition A_REGISTRATION_UNSOL_DISABLED :: int where "A_REGISTRATION_UNSOL_DISABLED = 0"
definition A_REGISTRATION_UNSOL_ENABLED :: int where "A_REGISTRATION_UNSOL_ENABLED = 1"
definition A_REGISTRATION_UNSOL_ENABLED_FULL :: int where "A_REGISTRATION_UNSOL_ENABLED_FULL = 2"
definition A_REGISTRATION_HOME :: int where "A_REGISTRATION_HOME = 1"
definition A_REGISTRATION_ROAMING :: int where "A_REGISTRATION_ROAMING = 5"
definition A_DATA_NETWORK_UNKNOWN :: int where "A_DATA_NETWORK_UNKNOWN = 0"
definition A_DATA_NETWORK_GPRS :: int where "A_DATA_NETWORK_GPRS = 1"
definition A_DATA_NETWORK_EDGE :: int where "A_DATA_NETWORK_EDGE = 2"
definition A_DATA_NETWORK_UMTS :: int where "A_DATA_NETWORK_UMTS = 3"
definition A_DATA_NETWORK_LTE :: int where "A_DATA_NETWORK_LTE = 4"
definition A_DATA_NETWORK_CDMA1X :: int where "A_DATA_NETWORK_CDMA1X = 5"
definition A_DATA_NETWORK_EVDO :: int where "A_DATA_NETWORK_EVDO = 6"
definition A_TECH_GSM :: int where "A_TECH_GSM = 0"
definition A_TECH_WCDMA :: int where "A_TECH_WCDMA = 1"
definition A_TECH_CDMA :: int where "A_TECH_CDMA = 2"
definition A_TECH_EVDO :: int where "A_TECH_EVDO = 3"
definition A_TECH_LTE :: int where "A_TECH_LTE = 4"
definition A_TECH_UNKNOWN :: int where "A_TECH_UNKNOWN = 5"
definition A_SUBSCRIPTION_RUIM :: int where "A_SUBSCRIPTION_RUIM = 1"
definition A_SUBSCRIPTION_UNKNOWN :: int where "A_SUBSCRIPTION_UNKNOWN = 2"
definition A_ROAMING_PREF_ANY :: int where "A_ROAMING_PREF_ANY = 2"
definition A_ROAMING_PREF_UNKNOWN :: int where "A_ROAMING_PREF_UNKNOWN = 3"
definition A_SELECTION_AUTOMATIC :: int where "A_SELECTION_AUTOMATIC = 0"
definition A_SELECTION_DEREGISTRATION :: int where "A_SELECTION_DEREGISTRATION = 2"
definition A_STATUS_AVAILABLE :: int where "A_STATUS_AVAILABLE = 1"
definition A_STATUS_DENIED :: int where "A_STATUS_DENIED = 3"
definition MAX_OPERATORS :: nat where "MAX_OPERATORS = 4"
definition MAX_DATA_CONTEXTS :: nat where "MAX_DATA_CONTEXTS = 4"
definition OPERATOR_HOME_INDEX :: int where "OPERATOR_HOME_INDEX = 0"
definition OPERATOR_ROAMING_INDEX :: int where "OPERATOR_ROAMING_INDEX = 1"

lemmas modem_consts = A_REGISTRATION_UNSOL_DISABLED_def A_REGISTRATION_UNSOL_ENABLED_def A_REGISTRATION_UNSOL_ENABLED_FULL_def A_REGISTRATION_HOME_def
  A_REGISTRATION_ROAMING_def A_TECH_GSM_def A_TECH_WCDMA_def A_TECH_CDMA_def A_TECH_EVDO_def A_TECH_LTE_def A_TECH_UNKNOWN_def
  A_SELECTION_AUTOMATIC_def A_SELECTION_DEREGISTRATION_def MAX_OPERATORS_def MAX_DATA_CONTEXTS_def

record AOperatorRec =
  op_status :: int
  op_name :: "nat \<Rightarrow> string"

datatype ADataType = A_DATA_IP | A_DATA_PPP

record ADataContextRec =
  dc_id :: int
  dc_active :: bool
  dc_type :: ADataType
  dc_apn :: string

type_synonym nvram = "(string \<times> string option) list"

record AModemRec = modem_calls +
  supportsNetworkDataType :: bool
  radio_state :: ARadioState
  area_code :: u32
  cell_id :: u32
  rssi :: int
  ber :: int
  wait_sms :: bool
  sim :: ASimCardRec
  voice_mode :: int
  voice_state :: int
  data_mode :: int
  data_state :: int
  data_network :: int
  oper_selection_mode :: int
  oper_name_index :: int
  oper_index :: int
  oper_count :: int
  operators :: "nat \<Rightarrow> AOperatorRec"
  data_contexts :: "nat \<Rightarrow> ADataContextRec"
  sms_receiver :: "SmsReceiverRec option"
  sms_ref_num :: u8
  nvram_config :: nvram
  technology :: int
  preferred_mask :: u32
  subscription_source :: int
  roaming_pref :: int
  prl_version :: int
  time_request :: bool

text \<open>
  What an operation takes from outside: other emulators, the time in milliseconds, the broken-down times and the name of the time zone (\<open>None\<close> when it
  is too long), the time stamp of messages, what an uninitialised address holds, and whether the time is sent again after a snapshot was loaded.
\<close>

record modem_env =
  me_remote :: remote_env
  me_now :: int
  me_utc :: tm
  me_local :: tm
  me_tzname :: "string option"
  me_stamp :: "u8 list"
  me_address :: SmsAddressRec
  me_update_time :: bool

type_synonym modem_result = "(reply \<times> AModemRec \<times> modem_action list) res"

definition modem_printf :: "string \<Rightarrow> AModemRec \<Rightarrow> modem_result" where
  "modem_printf text m = Inr (Buffer (take 1023 text), m, [])"

definition hex04 :: "u32 \<Rightarrow> string" where
  "hex04 v = (let s = show_hex (unat v) in replicate (4 - length s) (CHR ''0'') @ s)"

definition quoted :: "string \<Rightarrow> string" where
  "quoted s = CHR 0x22 # s @ [CHR 0x22]"

section \<open>Names of technologies\<close>

definition android_parse_modem_tech :: "string \<Rightarrow> int" where
  "android_parse_modem_tech tech =
     (case map_of [(''gsm'', A_TECH_GSM), (''wcdma'', A_TECH_WCDMA), (''cdma'', A_TECH_CDMA), (''evdo'', A_TECH_EVDO), (''lte'', A_TECH_LTE)] tech of
        Some t \<Rightarrow> t
      | None \<Rightarrow> A_TECH_UNKNOWN)"

definition android_parse_network_type :: "string \<Rightarrow> int" where
  "android_parse_network_type speed =
     (case map_of [(''gprs'', A_DATA_NETWORK_GPRS), (''edge'', A_DATA_NETWORK_EDGE), (''umts'', A_DATA_NETWORK_UMTS), (''hsdpa'', A_DATA_NETWORK_UMTS),
         (''full'', A_DATA_NETWORK_UMTS), (''lte'', A_DATA_NETWORK_LTE), (''cdma'', A_DATA_NETWORK_CDMA1X), (''evdo'', A_DATA_NETWORK_EVDO)] speed of
        Some t \<Rightarrow> t
      | None \<Rightarrow> A_DATA_NETWORK_GPRS)"

definition tech_from_network_type :: "int \<Rightarrow> int" where
  "tech_from_network_type type =
     (if type = A_DATA_NETWORK_GPRS \<or> type = A_DATA_NETWORK_EDGE \<or> type = A_DATA_NETWORK_UMTS then A_TECH_GSM
      else if type = A_DATA_NETWORK_LTE then A_TECH_LTE
      else if type = A_DATA_NETWORK_CDMA1X \<or> type = A_DATA_NETWORK_EVDO then A_TECH_CDMA
      else A_TECH_UNKNOWN)"

section \<open>Non-volatile memory\<close>

definition to_int32 :: "int \<Rightarrow> int" where
  "to_int32 v = sint (word_of_int v :: u32)"

definition aconfig_set :: "nvram \<Rightarrow> string \<Rightarrow> string option \<Rightarrow> nvram" where
  "aconfig_set c name value = (if name \<in> fst ` set c then map (\<lambda>(n, v). (n, if n = name then value else v)) c else c @ [(name, value)])"

definition aconfig_int :: "nvram \<Rightarrow> string \<Rightarrow> int \<Rightarrow> int res" where
  "aconfig_int c name d = (case map_of c name of None \<Rightarrow> Inr d | Some None \<Rightarrow> Inl Undefined | Some (Some v) \<Rightarrow> Inr (to_int32 (fst (strtol 0 v))))"

definition aconfig_str :: "nvram \<Rightarrow> string \<Rightarrow> string option \<Rightarrow> string option res" where
  "aconfig_str c name d = (case map_of c name of None \<Rightarrow> Inr d | Some None \<Rightarrow> Inl Undefined | Some (Some v) \<Rightarrow> Inr (Some v))"

definition amodem_nvram_get_int :: "string \<Rightarrow> int \<Rightarrow> nvram \<Rightarrow> (int \<times> nvram) res" where
  "amodem_nvram_get_int name d c = res_bind (aconfig_int c name d) (\<lambda>v. Inr (v, aconfig_set c name (Some (show_dec v))))"

definition amodem_nvram_get_str :: "string \<Rightarrow> string option \<Rightarrow> nvram \<Rightarrow> (string option \<times> nvram) res" where
  "amodem_nvram_get_str name d c = res_bind (aconfig_str c name d) (\<lambda>v. Inr (v, case v of None \<Rightarrow> c | Some _ \<Rightarrow> aconfig_set c name v))"

definition get_cdma_subscription_source :: "nvram \<Rightarrow> (int \<times> nvram) res" where
  "get_cdma_subscription_source c =
     res_bind (amodem_nvram_get_int ''cdma_subscription_source'' A_SUBSCRIPTION_RUIM c) (\<lambda>(iss, c).
       Inr (if A_SUBSCRIPTION_UNKNOWN \<le> iss \<or> iss < 0 then A_SUBSCRIPTION_RUIM else iss, c))"

definition get_cdma_roaming_preference :: "nvram \<Rightarrow> (int \<times> nvram) res" where
  "get_cdma_roaming_preference c =
     res_bind (amodem_nvram_get_int ''cdma_roaming_pref'' A_ROAMING_PREF_ANY c) (\<lambda>(rp, c).
       Inr (if A_ROAMING_PREF_UNKNOWN \<le> rp \<or> rp < 0 then A_ROAMING_PREF_ANY else rp, c))"

definition amodem_load_nvram :: "nvram option \<Rightarrow> nvram" where
  "amodem_load_nvram loaded = (case loaded of Some c \<Rightarrow> c | None \<Rightarrow> [(''modem_technology'', Some ''gsm'')])"

fun load_emergency :: "nat list \<Rightarrow> (nat \<Rightarrow> string option) \<Rightarrow> nvram \<Rightarrow> ((nat \<Rightarrow> string option) \<times> nvram) res" where
  "load_emergency [] e c = Inr (e, c)"
| "load_emergency (i # is) e c =
     res_bind (amodem_nvram_get_str (''emergency_number_'' @ show_nat i) None c) (\<lambda>(v, c). load_emergency is (e(i := v)) c)"

definition put_name :: "string \<Rightarrow> string \<Rightarrow> string" where
  "put_name a s = overwrite a 0 (s @ [CHR 0x00])"

definition name_operator :: "nat \<Rightarrow> string list \<Rightarrow> AModemRec \<Rightarrow> AModemRec" where
  "name_operator k names m =
     m\<lparr>operators := (operators m)(k := \<lparr>op_status = A_STATUS_AVAILABLE,
       op_name = (\<lambda>i. if i < length names then put_name (op_name (operators m k) i) (names ! i) else op_name (operators m k) i)\<rparr>)\<rparr>"

definition amodem_reset :: "nvram option \<Rightarrow> AModemRec \<Rightarrow> AModemRec res" where
  "amodem_reset loaded m =
     res_bind (amodem_nvram_get_int ''oper_name_index'' 2 (amodem_load_nvram loaded)) (\<lambda>(name_index, c).
     res_bind (amodem_nvram_get_int ''selection_mode'' A_SELECTION_AUTOMATIC c) (\<lambda>(selection, c).
     res_bind (amodem_nvram_get_int ''oper_index'' 0 c) (\<lambda>(index, c).
     res_bind (amodem_nvram_get_int ''oper_count'' 2 c) (\<lambda>(count, c).
     res_bind (amodem_nvram_get_int ''in_ecbm'' 0 c) (\<lambda>(ecbm, c).
     res_bind (amodem_nvram_get_int ''prl_version'' 0 c) (\<lambda>(prl, c).
     res_bind (load_emergency [1..<MAX_EMERGENCY_NUMBERS] ((emergency_numbers m)(0 := Some ''911'')) c) (\<lambda>(emergency, c).
     res_bind (amodem_nvram_get_str ''modem_technology'' (Some ''gsm'') c) (\<lambda>(tech, c).
     res_bind (case tech of
                 None \<Rightarrow> Inl Undefined
               | Some t \<Rightarrow> if android_parse_modem_tech t = A_TECH_UNKNOWN then aconfig_int c ''modem_technology'' A_TECH_GSM else Inr (android_parse_modem_tech t)) (\<lambda>tech.
     res_bind (amodem_nvram_get_int ''preferred_mode'' 0x0f c) (\<lambda>(preferred, c).
     res_bind (get_cdma_subscription_source c) (\<lambda>(source, c).
     res_bind (get_cdma_roaming_preference c) (\<lambda>(roaming, c).
       Inr (name_operator 1 [''TelKila'', ''TelKila'', ''310295''] (name_operator 0 [''Android'', ''Android'', ''310260'']
         (m\<lparr>nvram_config := c, radio_state := A_RADIO_STATE_OFF, wait_sms := False, rssi := 7, ber := 99, oper_name_index := name_index,
            oper_selection_mode := selection, oper_index := index, oper_count := count, in_emergency_mode := ecbm, prl_version := prl,
            emergency_numbers := emergency, area_code := - 1, cell_id := - 1, voice_mode := A_REGISTRATION_UNSOL_ENABLED_FULL,
            voice_state := A_REGISTRATION_HOME, data_mode := A_REGISTRATION_UNSOL_ENABLED_FULL, data_state := A_REGISTRATION_HOME,
            data_network := A_DATA_NETWORK_UMTS, technology := tech, preferred_mask := word_of_int preferred, subscription_source := source,
            roaming_pref := roaming\<rparr>)))))))))))))))"

definition amodem_create :: "int \<Rightarrow> bool \<Rightarrow> nvram option \<Rightarrow> AModemRec \<Rightarrow> AModemRec res" where
  "amodem_create port unsol loaded m =
     res_bind (amodem_reset loaded (m\<lparr>base_port := port\<rparr>)) (\<lambda>m.
       Inr (m\<lparr>supportsNetworkDataType := True, unsol_func := unsol, sim := asimcard_create port, free_timers := [0..<MAX_TIMERS]\<rparr>))"

definition amodem_set_legacy :: "AModemRec \<Rightarrow> AModemRec" where
  "amodem_set_legacy m = m\<lparr>supportsNetworkDataType := False\<rparr>"

section \<open>Network and operators\<close>

definition amodem_has_network :: "AModemRec \<Rightarrow> bool" where
  "amodem_has_network m \<longleftrightarrow>
     \<not> (radio_state m = A_RADIO_STATE_OFF \<or> oper_index m < 0 \<or> oper_count m \<le> oper_index m \<or> oper_selection_mode m = A_SELECTION_DEREGISTRATION)"

definition amodem_set_radio_state :: "ARadioState \<Rightarrow> AModemRec \<Rightarrow> AModemRec" where
  "amodem_set_radio_state state m = m\<lparr>radio_state := state\<rparr>"

definition amodem_set_signal_strength :: "int \<Rightarrow> int \<Rightarrow> AModemRec \<Rightarrow> AModemRec" where
  "amodem_set_signal_strength r b m = m\<lparr>rssi := r, ber := b\<rparr>"

definition amodem_set_voice_registration :: "int \<Rightarrow> AModemRec \<Rightarrow> AModemRec \<times> modem_action list" where
  "amodem_set_voice_registration state m =
     (let m1 = m\<lparr>voice_state := state,
            oper_index := (if state = A_REGISTRATION_HOME then OPERATOR_HOME_INDEX else if state = A_REGISTRATION_ROAMING then OPERATOR_ROAMING_INDEX else oper_index m)\<rparr>;
          head = ''+CREG: '' @ show_dec (voice_mode m) @ '','' @ show_dec state
      in (m1, if voice_mode m = A_REGISTRATION_UNSOL_ENABLED then amodem_unsol m1 (head @ [CHR 0x0D])
              else if voice_mode m = A_REGISTRATION_UNSOL_ENABLED_FULL
                   then amodem_unsol m1 (head @ '', '' @ quoted (hex04 (area_code m AND 0xffff)) @ '', '' @ quoted (hex04 (cell_id m AND 0xffff)) @ [CHR 0x0D])
              else []))"

definition amodem_set_data_registration :: "int \<Rightarrow> AModemRec \<Rightarrow> AModemRec \<times> modem_action list" where
  "amodem_set_data_registration state m =
     (let m1 = m\<lparr>data_state := state\<rparr>; head = ''+CGREG: '' @ show_dec (data_mode m) @ '','' @ show_dec state;
          full = head @ '','' @ quoted (hex04 (area_code m AND 0xffff)) @ '','' @ quoted (hex04 (cell_id m AND 0xffff))
      in (m1, if data_mode m = A_REGISTRATION_UNSOL_ENABLED then amodem_unsol m1 (head @ [CHR 0x0D])
              else if data_mode m = A_REGISTRATION_UNSOL_ENABLED_FULL
                   then amodem_unsol m1 ((if supportsNetworkDataType m then full @ '','' @ quoted (hex04 (word_of_int (data_network m))) else full) @ [CHR 0x0D])
              else []))"

definition oper_invalid :: "AModemRec \<Rightarrow> bool" where
  "oper_invalid m \<longleftrightarrow> (word_of_int (oper_count m) :: u32) \<le> word_of_int (oper_index m)"

text \<open>The current operator; an index outside the array has no meaning.\<close>

definition current_operator :: "AModemRec \<Rightarrow> nat res" where
  "current_operator m = (if 0 \<le> oper_index m \<and> oper_index m < int MAX_OPERATORS then Inr (nat (oper_index m)) else Inl Undefined)"

text \<open>The buffer of the caller is the list of its characters, as long as the size that is passed.\<close>

definition amodem_get_operator_name :: "AModemRec \<Rightarrow> nat \<Rightarrow> string \<Rightarrow> (int \<times> string) res" where
  "amodem_get_operator_name m index buffer =
     (if oper_invalid m \<or> 2 < index then Inr (0, buffer)
      else res_bind (current_operator m) (\<lambda>k.
           res_bind (cstr (op_name (operators m k) index)) (\<lambda>name.
        let len = length name + 1; n = min (length buffer) len
        in if n = 0 then Inr (int len, buffer)
           else if length buffer \<le> n then Inl Undefined
           else Inr (int len, (overwrite buffer 0 (take (n - 1) name))[n := CHR 0x00]))))"

text \<open>The source is a buffer with its size, or a string that ends with a zero.\<close>

definition amodem_set_operator_name :: "nat \<Rightarrow> string \<Rightarrow> AModemRec \<Rightarrow> AModemRec res" where
  "amodem_set_operator_name index buffer m =
     (if oper_invalid m \<or> 2 < index then Inr m
      else res_bind (current_operator m) (\<lambda>k.
        let op = operators m k
        in Inr (m\<lparr>operators := (operators m)(k := op\<lparr>op_name := (op_name op)(index := put_name (op_name op index) (take 15 buffer))\<rparr>)\<rparr>)))"

section \<open>Technologies\<close>

definition matchPreferredMask :: "u32 \<Rightarrow> int \<Rightarrow> bool" where
  "matchPreferredMask pmask tech = list_ex (\<lambda>i. bit pmask (nat tech + i * 8)) [0..<4]"

definition chooseTechFromMask :: "u32 \<Rightarrow> int res" where
  "chooseTechFromMask preferred =
     (case find (\<lambda>(i, j). bit preferred (j + 8 * i)) (concat (map (\<lambda>i. map (Pair i) [0..<nat A_TECH_UNKNOWN]) [3, 2, 1, 0])) of
        Some (i, j) \<Rightarrow> Inr (int j)
      | None \<Rightarrow> Inl Assert_Failure)"

text \<open>The value given to the configuration is a local variable, which the configuration refers to after the function has returned.\<close>

definition amodem_switch_technology :: "int \<Rightarrow> u32 \<Rightarrow> AModemRec \<Rightarrow> (reply \<times> AModemRec) res" where
  "amodem_switch_technology newtech newpreferred m =
     (if newpreferred = 0 then Inr (Literal ''ERROR: At least one technology must be enabled'', m)
      else res_bind
        (if preferred_mask m \<noteq> newpreferred
         then let m1 = m\<lparr>preferred_mask := newpreferred, nvram_config := aconfig_set (nvram_config m) ''preferred_mode'' None\<rparr>
              in if matchPreferredMask newpreferred newtech then Inr (newtech, m1) else res_bind (chooseTechFromMask newpreferred) (\<lambda>t. Inr (t, m1))
         else Inr (newtech, m))
        (\<lambda>(newtech, m). Inr (if technology m \<noteq> newtech then (Buffer (''+CTEC: '' @ show_dec newtech), m\<lparr>technology := newtech\<rparr>) else (Literal ''+CTEC: DONE'', m))))"

definition parsePreferred :: "string \<Rightarrow> u32 option" where
  "parsePreferred str =
     (if str = [] then None
      else let s = (if hd str = CHR 0x22 then tl str else str)
           in if s = [] then None
              else case strtol 16 s of (v, end) \<Rightarrow> if end \<noteq> [] \<and> hd end \<noteq> CHR 0x22 then None else Some (word_of_int v))"

text \<open>The answer is sent on when there is one, even if it was not put in the buffer: the buffer then still holds the text sent last.\<close>

definition amodem_set_data_network_type :: "int \<Rightarrow> AModemRec \<Rightarrow> (AModemRec \<times> modem_action list) res" where
  "amodem_set_data_network_type type m =
     (case amodem_set_data_registration (data_state m) (m\<lparr>data_network := type\<rparr>) of
        (m1, os) \<Rightarrow>
          let tech = tech_from_network_type type
          in if unsol_func m1 \<and> tech \<noteq> A_TECH_UNKNOWN
             then res_bind (amodem_switch_technology tech (preferred_mask m1) m1) (\<lambda>(r, m2).
                    Inr (m2, os @ (case r of Buffer s \<Rightarrow> [Unsol s] | _ \<Rightarrow> [Unsol_Buffer])))
             else Inr (m1, os))"

section \<open>Command handlers\<close>

definition unknownCommand :: "AModemRec \<Rightarrow> modem_result" where
  "unknownCommand m = Inr (Literal (''ERROR: unknown command'' @ [CHR 0x0D]), m, [])"

definition amodem_set_cdma_prl_version :: "int \<Rightarrow> AModemRec \<Rightarrow> AModemRec \<times> modem_action list" where
  "amodem_set_cdma_prl_version v m =
     (if prl_version m \<noteq> v then let m = m\<lparr>prl_version := v\<rparr> in (m, amodem_unsol m (''+WPRL: '' @ show_dec v)) else (m, []))"

definition set_subscription_source :: "int \<Rightarrow> AModemRec \<Rightarrow> bool \<times> AModemRec" where
  "set_subscription_source ss m =
     (if ss \<noteq> subscription_source m
      then (True, m\<lparr>nvram_config := aconfig_set (nvram_config m) ''cdma_subscription_source'' None, subscription_source := ss\<rparr>) else (False, m))"

definition amodem_set_cdma_subscription_source :: "int \<Rightarrow> AModemRec \<Rightarrow> AModemRec \<times> modem_action list" where
  "amodem_set_cdma_subscription_source ss m =
     (case set_subscription_source ss m of (changed, m) \<Rightarrow> (m, if changed then amodem_unsol m (''+CCSS: '' @ show_dec ss) else []))"

definition handleSubscriptionSource :: "string \<Rightarrow> AModemRec \<Rightarrow> modem_result" where
  "handleSubscriptionSource cmd m =
     (let c = drop 5 cmd
      in if take 5 cmd \<noteq> ''+CCSS'' then Inl Assert_Failure
         else if nth_char c 0 = CHR ''?'' then modem_printf (''+CCSS: '' @ show_dec (subscription_source m)) m
         else if nth_char c 0 = CHR ''='' \<and> (nth_char c 1 = CHR ''0'' \<or> nth_char c 1 = CHR ''1'')
              then let m = snd (set_subscription_source (int (of_char (nth_char c 1)) - 48) m) in modem_printf (''+CCSS: '' @ show_dec (subscription_source m)) m
         else modem_printf ''ERROR: Invalid subscription source'' m)"

text \<open>The configuration keeps a pointer into the command, which is only valid until the file has been written.\<close>

definition handleRoamPref :: "string \<Rightarrow> AModemRec \<Rightarrow> modem_result" where
  "handleRoamPref cmd m =
     (let c = drop 5 cmd
      in if take 5 cmd \<noteq> ''+WRMP'' then Inl Assert_Failure
         else if nth_char c 0 = CHR ''?'' then modem_printf (''+WRMP: '' @ show_dec (roaming_pref m)) m
         else if c = ''=?'' then modem_printf ''+WRMP: 0,1,2'' m
         else if nth_char c 0 = CHR ''='' \<and> snd (strtol 10 (tl c)) = []
              then if list_ex (\<lambda>(n, v). n \<noteq> ''cdma_roaming_pref'' \<and> v = None) (nvram_config m) then Inl Undefined
                   else Inr (No_Answer, m\<lparr>roaming_pref := to_int32 (fst (strtol 10 (tl c))), nvram_config := aconfig_set (nvram_config m) ''cdma_roaming_pref'' None\<rparr>, [])
         else modem_printf ''ERROR'' m)"

definition handleTech :: "string \<Rightarrow> AModemRec \<Rightarrow> modem_result" where
  "handleTech cmd m =
     (let c = drop 5 cmd
      in if take 5 cmd \<noteq> ''+CTEC'' then Inl Assert_Failure
         else if nth_char c 0 = CHR ''?'' then modem_printf (''+CTEC: '' @ show_dec (technology m) @ '','' @ show_hex (unat (preferred_mask m))) m
         else if c = ''=?'' then modem_printf ''+CTEC: 0,1,2,3'' m
         else if nth_char c 0 = CHR ''='' \<and> nth_char c 1 \<in> {CHR ''0'', CHR ''1'', CHR ''2'', CHR ''3''}
              then let newtech = int (of_char (nth_char c 1)) - 48; c2 = drop 2 c
                   in (case (if nth_char c2 0 = CHR '','' then parsePreferred (tl c2) else Some (preferred_mask m)) of
                         None \<Rightarrow> modem_printf ''ERROR: invalid preferred mode'' m
                       | Some pt \<Rightarrow> res_bind (amodem_switch_technology newtech pt m) (\<lambda>(r, m). Inr (r, m, [])))
         else let c1 = (if nth_char c 0 = CHR ''='' then tl c else c)
              in if c1 = [] then Inl Undefined else modem_printf (''ERROR: '' @ tl c1 @ '': Unknown Technology'') m)"

definition handleEmergencyMode :: "string \<Rightarrow> AModemRec \<Rightarrow> modem_result" where
  "handleEmergencyMode cmd m =
     (let c = drop 5 cmd
      in if take 5 cmd \<noteq> ''+WSOS'' then Inl Assert_Failure
         else if nth_char c 0 = CHR ''?'' then modem_printf (''+WSOS: '' @ show_dec (in_emergency_mode m)) m
         else if nth_char c 0 = CHR ''=''
              then if nth_char c 1 = CHR ''?'' then modem_printf ''+WSOS: (0)'' m
                   else if nth_char c 1 = CHR 0x00 then modem_printf ''ERROR'' m
                   else case strtol 10 (tl c) of (v, end) \<Rightarrow>
                     if end \<noteq> [] then modem_printf ''ERROR'' m
                     else let arg = (if v \<noteq> 0 then 1 else 0 :: int)
                          in if (arg = 0) \<noteq> (in_emergency_mode m = 0) then modem_printf (''+WSOS: '' @ show_dec arg) (m\<lparr>in_emergency_mode := arg\<rparr>)
                             else modem_printf ''ERROR'' m
         else modem_printf ''ERROR'' m)"

definition handlePrlVersion :: "string \<Rightarrow> AModemRec \<Rightarrow> modem_result" where
  "handlePrlVersion cmd m =
     (if take 5 cmd \<noteq> ''+WPRL'' then Inl Assert_Failure
      else if nth_char cmd 5 = CHR ''?'' then modem_printf (''+WPRL: '' @ show_dec (prl_version m)) m else modem_printf ''ERROR'' m)"

definition handleRadioPower :: "string \<Rightarrow> AModemRec \<Rightarrow> modem_result" where
  "handleRadioPower cmd m =
     Inr (No_Answer, if cmd = ''+CFUN=0'' then m\<lparr>radio_state := A_RADIO_STATE_OFF\<rparr> else if cmd = ''+CFUN=1'' then m\<lparr>radio_state := A_RADIO_STATE_ON\<rparr> else m, [])"

definition handleRadioPowerReq :: "AModemRec \<Rightarrow> modem_result" where
  "handleRadioPowerReq m = Inr (Literal (if radio_state m \<noteq> A_RADIO_STATE_OFF then ''+CFUN: 1'' else ''+CFUN: 0''), m, [])"

definition handleSIMStatusReq :: "AModemRec \<Rightarrow> modem_result" where
  "handleSIMStatusReq m =
     Inr (Literal (case asimcard_get_status (sim m) of
            A_SIM_STATUS_ABSENT \<Rightarrow> ''+CPIN: ABSENT''
          | A_SIM_STATUS_READY \<Rightarrow> ''+CPIN: READY''
          | A_SIM_STATUS_NOT_READY \<Rightarrow> ''+CMERROR: NOT READY''
          | A_SIM_STATUS_PIN \<Rightarrow> ''+CPIN: SIM PIN''
          | A_SIM_STATUS_PUK \<Rightarrow> ''+CPIN: SIM PUK''
          | A_SIM_STATUS_NETWORK_PERSONALIZATION \<Rightarrow> ''+CPIN: PH-NET PIN''), m, [])"

definition reg_mode :: "char \<Rightarrow> int option" where
  "reg_mode c =
     (if c = CHR ''0'' then Some A_REGISTRATION_UNSOL_DISABLED
      else if c = CHR ''1'' then Some A_REGISTRATION_UNSOL_ENABLED
      else if c = CHR ''2'' then Some A_REGISTRATION_UNSOL_ENABLED_FULL else None)"

definition handleNetworkRegistration :: "string \<Rightarrow> AModemRec \<Rightarrow> modem_result" where
  "handleNetworkRegistration cmd m =
     (if take 5 cmd = ''+CREG''
      then let c = drop 5 cmd; head = ''+CREG: '' @ show_dec (voice_mode m) @ '','' @ show_dec (voice_state m)
           in if nth_char c 0 = CHR ''?''
              then if voice_mode m = A_REGISTRATION_UNSOL_ENABLED_FULL
                   then modem_printf (head @ '', '' @ quoted (hex04 (area_code m)) @ '', '' @ quoted (hex04 (cell_id m))) m
                   else modem_printf head m
              else if nth_char c 0 = CHR ''=''
              then (case reg_mode (nth_char c 1) of
                      Some v \<Rightarrow> Inr (No_Answer, m\<lparr>voice_mode := v\<rparr>, [])
                    | None \<Rightarrow> Inr (Literal (if nth_char c 1 = CHR ''?'' then ''+CREG: (0-2)'' else ''ERROR: BAD COMMAND''), m, []))
              else Inl Assert_Failure
      else if take 6 cmd = ''+CGREG''
      then let c = drop 6 cmd;
               head = ''+CGREG: '' @ show_dec (data_mode m) @ '','' @ show_dec (data_state m) @ '','' @ quoted (hex04 (area_code m)) @ '','' @ quoted (hex04 (cell_id m))
           in if nth_char c 0 = CHR ''?''
              then modem_printf (if supportsNetworkDataType m then head @ '','' @ quoted (hex04 (word_of_int (data_network m))) else head) m
              else if nth_char c 0 = CHR ''=''
              then (case reg_mode (nth_char c 1) of
                      Some v \<Rightarrow> Inr (No_Answer, m\<lparr>data_mode := v\<rparr>, [])
                    | None \<Rightarrow> Inr (Literal (if nth_char c 1 = CHR ''?'' then ''+CGREG: (0-2)'' else ''ERROR: BAD COMMAND''), m, []))
              else Inl Assert_Failure
      else Inr (No_Answer, m, []))"

definition handleSIM_IO :: "string \<Rightarrow> AModemRec \<Rightarrow> modem_result" where
  "handleSIM_IO cmd m = res_bind (asimcard_io (sim m) cmd) (\<lambda>a. Inr (Literal a, m, []))"

section \<open>Operators, messages and the card\<close>

definition oper_name :: "AModemRec \<Rightarrow> nat \<Rightarrow> nat \<Rightarrow> string res" where
  "oper_name m k i = (if MAX_OPERATORS \<le> k \<or> 2 < i then Inl Undefined else cstr (op_name (operators m k) i))"

fun operator_lines :: "AModemRec \<Rightarrow> nat list \<Rightarrow> string \<Rightarrow> string list res" where
  "operator_lines m [] comma = Inr []"
| "operator_lines m (k # ks) comma =
     res_bind (oper_name m k 0) (\<lambda>n0. res_bind (oper_name m k 1) (\<lambda>n1. res_bind (oper_name m k 2) (\<lambda>n2.
     res_bind (operator_lines m ks '', '') (\<lambda>ls.
       Inr ((comma @ ''('' @ show_dec (op_status (operators m k)) @ '','' @ quoted n0 @ '','' @ quoted n1 @ '','' @ quoted n2 @ '')'') # ls)))))"

text \<open>
  The search for an operator copies the name that was asked for over the name of every operator, since it calls \<open>memcpy\<close> where it means to compare,
  and finds none. A name longer than the array is written beyond it.
\<close>

definition select_operator :: "nat \<Rightarrow> string \<Rightarrow> AModemRec \<Rightarrow> modem_result" where
  "select_operator format name m =
     (if 0 < oper_count m \<and> (16 < length name \<or> int MAX_OPERATORS < oper_count m) then Inl Undefined
      else Inr (Literal ''+CME ERROR: 529'',
        m\<lparr>operators := (\<lambda>k. let op = operators m k
            in if int k < oper_count m then op\<lparr>op_name := (op_name op)(format := overwrite (op_name op format) 0 name)\<rparr> else op)\<rparr>, []))"

definition handleOperatorSelection :: "string \<Rightarrow> AModemRec \<Rightarrow> modem_result" where
  "handleOperatorSelection cmd m =
     (let c = drop 5 cmd; format = int (of_char (nth_char c 3)) - 48
      in if take 5 cmd \<noteq> ''+COPS'' then Inl Assert_Failure
         else if nth_char c 0 = CHR ''?''
         then if \<not> amodem_has_network m then modem_printf ''+CME ERROR: 30'' m
              else if oper_name_index m = 2
              then res_bind (oper_name m (nat (oper_index m)) 2) (\<lambda>n. modem_printf (''+COPS: '' @ show_dec (oper_selection_mode m) @ '',2,'' @ n) m)
              else if oper_name_index m < 0 then Inl Undefined
              else res_bind (oper_name m (nat (oper_index m)) (nat (oper_name_index m))) (\<lambda>n.
                     modem_printf (''+COPS: '' @ show_dec (oper_selection_mode m) @ '','' @ show_dec (oper_name_index m) @ '','' @ quoted n) m)
         else if nth_char c 0 = CHR ''='' \<and> nth_char c 1 = CHR ''?''
         then res_bind (operator_lines m [0..<nat (oper_count m)] ''+COPS: '') (\<lambda>ls. res_bind (lines_answer ls) (\<lambda>r. Inr (r, m, [])))
         else if nth_char c 0 \<noteq> CHR ''='' then unknownCommand m
         else if nth_char c 1 = CHR ''0'' then Inr (No_Answer, m\<lparr>oper_selection_mode := A_SELECTION_AUTOMATIC\<rparr>, [])
         else if nth_char c 1 = CHR ''1''
         then if nth_char c 2 \<noteq> CHR '','' \<or> format < 0 \<or> 2 < format \<or> nth_char c 4 \<noteq> CHR '','' then unknownCommand m
              else let s = drop 5 c; quote = (nth_char s 0 = CHR 0x22); len = int (length s) - (if quote then 2 else 0); s = (if quote then tl s else s)
                   in if len \<le> 0 then unknownCommand m else select_operator (nat format) (take (nat len) s) m
         else if nth_char c 1 = CHR ''2'' then Inr (No_Answer, m\<lparr>oper_selection_mode := A_SELECTION_DEREGISTRATION\<rparr>, [])
         else if nth_char c 1 = CHR ''3''
         then if nth_char c 2 \<noteq> CHR '','' \<or> format < 0 \<or> 2 < format then unknownCommand m else Inr (No_Answer, m\<lparr>oper_name_index := format\<rparr>, [])
         else unknownCommand m)"

definition handleRequestOperator :: "AModemRec \<Rightarrow> modem_result" where
  "handleRequestOperator m =
     (if \<not> amodem_has_network m then Inr (Literal ''+CME ERROR: 30'', m, [])
      else let k = nat (oper_index m)
           in res_bind (oper_name m k 0) (\<lambda>n0. res_bind (oper_name m k 1) (\<lambda>n1. res_bind (oper_name m k 2) (\<lambda>n2.
                modem_printf (''+COPS: 0,0,'' @ quoted n0 @ [CHR 0x0D] @ ''+COPS: 0,1,'' @ quoted n1 @ [CHR 0x0D] @ ''+COPS: 0,2,'' @ quoted n2)
                  (m\<lparr>oper_name_index := 2\<rparr>)))))"

definition handleSendSMS :: "AModemRec \<Rightarrow> modem_result" where
  "handleSendSMS m = Inr (Literal ''> '', m\<lparr>wait_sms := True\<rparr>, [])"

fun send_units :: "remote_env \<Rightarrow> string \<Rightarrow> int \<Rightarrow> SmsPDURec list \<Rightarrow> modem_action list" where
  "send_units env number port [] = []"
| "send_units env number port (p # ps) =
     (case remote_call_sms env number port p of None \<Rightarrow> [] | Some (to_port, text) \<Rightarrow> Remote to_port text # send_units env number port ps)"

definition forward_sms :: "modem_env \<Rightarrow> string \<Rightarrow> nat \<Rightarrow> SmsReceiverRec \<Rightarrow> AModemRec \<Rightarrow> (AModemRec \<times> modem_action list) res" where
  "forward_sms env number index rec m =
     (let sender = snd (sms_address_from_str (me_address env) (map char_byte (take 11 (PHONE_PREFIX @ show_dec (base_port m)))))
      in res_bind (sms_receiver_create_deliver (re_alloc (me_remote env)) rec index sender (me_stamp env) (sms_ref_num m)) (\<lambda>(deliver, rec, ref_num).
           Inr (m\<lparr>sms_receiver := Some rec, sms_ref_num := ref_num\<rparr>,
                case deliver of None \<Rightarrow> [] | Some pdus \<Rightarrow> send_units (me_remote env) number (base_port m) pdus)))"

definition handleSendSMSText :: "modem_env \<Rightarrow> string \<Rightarrow> AModemRec \<Rightarrow> modem_result" where
  "handleSendSMSText env cmd m =
     (let text = (if cmd \<noteq> [] \<and> last cmd = CHR 0x1A then butlast cmd else cmd); sent = ''+CMGS: 0'' @ [CHR 0x0D] @ ''OK'' @ [CHR 0x0D]
      in case smspdu_create_from_hex (re_alloc (me_remote env)) (map char_byte text) of
           None \<Rightarrow> Inr (Literal ''+CMS ERROR: INVALID SMS PDU'', m, [])
         | Some pdu \<Rightarrow>
             (case smspdu_get_receiver_address pdu (me_address env) of
                None \<Rightarrow> Inr (Literal ''+CMS ERROR: BAD SMS RECEIVER ADDRESS'', m, [])
              | Some address \<Rightarrow>
                  res_bind (sms_address_to_str address 16) (\<lambda>digits.
                    let number = takeWhile (\<lambda>c. c \<noteq> CHR 0x00) (full_number (map byte_char digits))
                    in if 15 < length digits \<or> remote_number_string_to_port number < 0 then Inr (Literal sent, m, [])
                       else let rec = (case sms_receiver m of Some rec \<Rightarrow> rec | None \<Rightarrow> sms_receiver_create)
                            in res_bind (sms_receiver_add_submit_pdu (re_alloc (me_remote env)) (me_address env) rec pdu) (\<lambda>(index, rec).
                                 let m1 = m\<lparr>sms_receiver := Some rec\<rparr>
                                 in if index \<le> 0 then Inr (Literal sent, m1, [])
                                    else res_bind (forward_sms env number (nat index) rec m1) (\<lambda>(m2, os). Inr (Literal sent, m2, os))))))"

definition handleChangeOrEnterPIN :: "string \<Rightarrow> AModemRec \<Rightarrow> modem_result" where
  "handleChangeOrEnterPIN cmd m =
     (let c = drop 6 cmd; two = (length c = 9 \<and> nth_char c 4 = CHR '','')
      in if take 6 cmd \<noteq> ''+CPIN='' then Inl Assert_Failure
         else case asimcard_get_status (sim m) of
                A_SIM_STATUS_ABSENT \<Rightarrow> Inr (Literal ''+CME ERROR: SIM ABSENT'', m, [])
              | A_SIM_STATUS_NOT_READY \<Rightarrow> Inr (Literal ''+CME ERROR: SIM NOT READY'', m, [])
              | A_SIM_STATUS_READY \<Rightarrow>
                  if two
                  then (case asimcard_check_pin (sim m) (take 4 c) of
                          (False, s) \<Rightarrow> Inr (Literal ''+CME ERROR: BAD PIN'', m\<lparr>sim := s\<rparr>, [])
                        | (True, s) \<Rightarrow> Inr (Literal ''+CPIN: READY'', m\<lparr>sim := asimcard_set_pin s (take 4 (drop 5 c))\<rparr>, []))
                  else Inr (Literal ''+CME ERROR: BAD FORMAT'', m, [])
              | A_SIM_STATUS_PIN \<Rightarrow>
                  (case asimcard_check_pin (sim m) c of
                     (ok, s) \<Rightarrow> Inr (Literal (if ok then ''+CPIN: READY'' else ''+CME ERROR: BAD PIN''), m\<lparr>sim := s\<rparr>, []))
              | A_SIM_STATUS_PUK \<Rightarrow>
                  if two
                  then (case asimcard_check_puk (sim m) (take 4 c) (drop 5 c) of
                          (ok, s) \<Rightarrow> Inr (Literal (if ok then ''+CPIN: READY'' else ''+CME ERROR: BAD PUK''), m\<lparr>sim := s\<rparr>, []))
                  else Inr (Literal ''+CME ERROR: BAD PUK'', m, [])
              | A_SIM_STATUS_NETWORK_PERSONALIZATION \<Rightarrow> Inr (Literal ''+CPIN: PH-NET PIN'', m, []))"

section \<open>Lists and queries\<close>

definition crlf :: string where "crlf = [CHR 0x0D, CHR 0x0A]"

fun call_lines :: "AVoiceCallRec list \<Rightarrow> string list res" where
  "call_lines [] = Inr []"
| "call_lines (v # vs) =
     (if c_mode (v_call v) = A_CALL_VOICE
      then let c = v_call v
           in res_bind (cstr (c_number c)) (\<lambda>n. res_bind (call_lines vs) (\<lambda>ls.
                Inr ((''+CLCC: '' @ show_dec (c_id c) @ '','' @ show_dec (c_dir c) @ '','' @ show_dec (c_state c) @ '','' @ show_dec (c_mode c) @ '','' @
                  show_dec (sint (c_multi c)) @ '','' @ quoted n @ '',129'' @ crlf) # ls)))
      else call_lines vs)"

definition handleListCurrentCalls :: "AModemRec \<Rightarrow> modem_result" where
  "handleListCurrentCalls m = res_bind (call_lines (call_list m)) (\<lambda>ls. res_bind (lines_answer ls) (\<lambda>r. Inr (r, m, [])))"

definition dec02 :: "int \<Rightarrow> string" where
  "dec02 v = (let s = show_dec v in if length s < 2 then CHR ''0'' # s else s)"

definition time_line :: "modem_env \<Rightarrow> string" where
  "time_line env =
     (let utc = me_utc env; lcl = me_local env;
          e_local = tm_min lcl + 60 * (tm_hour lcl + 24 * tm_yday lcl) + (if tm_year utc < tm_year lcl then 24 * 60 else 0);
          e_utc = tm_min utc + 60 * (tm_hour utc + 24 * tm_yday utc) + (if tm_year lcl < tm_year utc then 24 * 60 else 0);
          tzdiff = e_local - e_utc;
          tzname = map (\<lambda>c. if c = CHR ''/'' then CHR ''!'' else c) (case me_tzname env of Some n \<Rightarrow> n | None \<Rightarrow> ''Unknown/Unknown'')
      in ''%CTZV: '' @ dec02 ((tm_year utc + 1900) mod 100) @ ''/'' @ dec02 (tm_mon utc + 1) @ ''/'' @ dec02 (tm_mday utc) @ '':'' @
         dec02 (tm_hour utc) @ '':'' @ dec02 (tm_min utc) @ '':'' @ dec02 (tm_sec utc) @ [if 0 \<le> tzdiff then CHR ''+'' else CHR ''-''] @
         show_dec (\<bar>tzdiff\<bar> div 15) @ '':'' @ (if 0 < tm_isdst lcl then ''1'' else ''0'') @ '':'' @ tzname @ crlf)"

definition handleEndOfInit :: "modem_env \<Rightarrow> AModemRec \<Rightarrow> modem_result" where
  "handleEndOfInit env m = res_bind (lines_answer [time_line env]) (\<lambda>r. Inr (r, m, []))"

definition active_contexts :: "AModemRec \<Rightarrow> ADataContextRec list" where
  "active_contexts m = filter dc_active (map (data_contexts m) [0..<MAX_DATA_CONTEXTS])"

definition handleListPDPContexts :: "string \<Rightarrow> AModemRec \<Rightarrow> modem_result" where
  "handleListPDPContexts cmd m =
     (if take 7 cmd \<noteq> ''+CGACT?'' then Inl Assert_Failure
      else res_bind (lines_answer (map (\<lambda>d. ''+CGACT: '' @ show_dec (dc_id d) @ '',1'' @ crlf) (active_contexts m))) (\<lambda>r. Inr (r, m, [])))"

definition bad_context :: "AModemRec \<Rightarrow> modem_result" where
  "bad_context m = Inr (Literal ''ERROR: BAD COMMAND'', m, [])"

definition handleDefinePDPContext :: "string \<Rightarrow> AModemRec \<Rightarrow> modem_result" where
  "handleDefinePDPContext cmd m =
     (let c = drop 9 cmd; i = int (of_char (nth_char c 0)) - 49
      in if take 9 cmd \<noteq> ''+CGDCONT='' then Inl Assert_Failure
         else if nth_char c 0 = CHR ''?'' then Inr (Literal (''+CGDCONT: (1-1),'' @ quoted ''IP'' @ '',,,(0-2),(0-4)'' @ crlf), m, [])
         else if i < 0 \<or> 3 < i then bad_context m
         else let ip = (take 7 (drop 1 c) = '','' @ quoted ''IP'' @ '','' @ [CHR 0x22]); ppp = (take 8 (drop 1 c) = '','' @ quoted ''PPP'' @ '','' @ [CHR 0x22]);
                  rest = drop (if ip then 8 else 9) c
              in if \<not> ip \<and> \<not> ppp \<or> CHR 0x22 \<notin> set rest then bad_context m
                 else Inr (No_Answer, m\<lparr>data_contexts := (data_contexts m)(nat i :=
                        \<lparr>dc_id = i + 1, dc_active = True, dc_type = (if ip then A_DATA_IP else A_DATA_PPP),
                         dc_apn = take 31 (takeWhile (\<lambda>x. x \<noteq> CHR 0x22) rest)\<rparr>)\<rparr>, []))"

definition context_line :: "ADataContextRec \<Rightarrow> string" where
  "context_line d = ''+CGDCONT: '' @ show_dec (dc_id d) @ '','' @ quoted (if dc_type d = A_DATA_IP then ''IP'' else ''PPP'') @ '','' @ quoted (dc_apn d) @ '','' @
     quoted (if dc_type d = A_DATA_IP then ''10.0.2.15'' else []) @ '',0,0'' @ crlf"

definition handleQueryPDPContext :: "AModemRec \<Rightarrow> modem_result" where
  "handleQueryPDPContext m = res_bind (lines_answer (map context_line (active_contexts m))) (\<lambda>r. Inr (r, m, []))"

text \<open>The limits on the two values are never applied, since no number is both negative and large.\<close>

definition handleSignalStrength :: "modem_env \<Rightarrow> AModemRec \<Rightarrow> modem_result" where
  "handleSignalStrength env m =
     (let update = (me_update_time env \<and> time_request m);
          r = (if 0 > rssi m \<and> rssi m > 31 then 99 else rssi m); b = (if 0 > ber m \<and> ber m > 7 then 99 else ber m)
      in res_bind (lines_answer ((if update then [time_line env] else []) @
             [''+CSQ: '' @ show_dec r @ '','' @ show_dec b @ '',85,130,90,6,4,25,9,50,68,12'' @ crlf]))
           (\<lambda>r. Inr (r, if update then m\<lparr>time_request := False\<rparr> else m, [])))"

section \<open>The interpreter\<close>

text \<open>Handlers that do nothing yet.\<close>

definition handleSetDialTone :: "AModemRec \<Rightarrow> modem_result" where "handleSetDialTone m = Inr (No_Answer, m, [])"
definition handleDeleteSMSonSIM :: "AModemRec \<Rightarrow> modem_result" where "handleDeleteSMSonSIM m = Inr (No_Answer, m, [])"
definition handleStartPDPContext :: "AModemRec \<Rightarrow> modem_result" where "handleStartPDPContext m = Inr (No_Answer, m, [])"
definition handleSendSMStoSIM :: "AModemRec \<Rightarrow> modem_result" where "handleSendSMStoSIM m = Inr (Literal ''ERROR: unimplemented'', m, [])"

text \<open>An entry of the table of commands: a command, or a prefix after an exclamation mark, with a fixed answer, a handler, or neither.\<close>

datatype response = Fixed string | Handled "string \<Rightarrow> AModemRec \<Rightarrow> modem_result" | Plain

definition plain :: "string \<Rightarrow> string \<times> response" where "plain cmd = (cmd, Plain)"
definition fixed :: "string \<Rightarrow> string \<Rightarrow> string \<times> response" where "fixed cmd answer = (cmd, Fixed answer)"
definition handled :: "string \<Rightarrow> (string \<Rightarrow> AModemRec \<Rightarrow> modem_result) \<Rightarrow> string \<times> response" where "handled cmd h = (cmd, Handled h)"

definition sDefaultResponses :: "modem_env \<Rightarrow> (string \<times> response) list" where
  "sDefaultResponses env =
     [plain ''%CPHS=1'',
      plain ''%CTZV=1'',
      fixed ''+CSMS=1'' ''+CSMS: 1, 1, 1'',
      plain ''+CNMI=1,2,2,1,1'',
      handled ''+CFUN=0'' handleRadioPower,
      handled ''+CFUN=1'' handleRadioPower,
      fixed ''+CTEC=?'' ''+CTEC: 0,1,2,3'',
      handled ''!+CTEC'' handleTech,
      fixed ''+WRMP=?'' ''+WRMP: 0,1,2'',
      handled ''!+WRMP'' handleRoamPref,
      fixed ''+CCSS=?'' ''+CTEC: 0,1'',
      handled ''!+CCSS'' handleSubscriptionSource,
      fixed ''+WSOS=?'' ''+WSOS: 0'',
      handled ''!+WSOS='' handleEmergencyMode,
      handled ''+WPRL?'' handlePrlVersion,
      handled ''+CGACT?'' handleListPDPContexts,
      handled ''+COPS=3,0;+COPS?;+COPS=3,1;+COPS?;+COPS=3,2;+COPS?'' (\<lambda>_. handleRequestOperator),
      handled ''!+COPS'' handleOperatorSelection,
      handled ''+CLCC'' (\<lambda>_. handleListCurrentCalls),
      handled ''!+CMGW='' (\<lambda>_. handleSendSMStoSIM),
      handled ''!+CHLD='' (\<lambda>cmd m. handleHangup (me_remote env) cmd m),
      handled ''+CSQ'' (\<lambda>_. handleSignalStrength env),
      handled ''!+CREG'' handleNetworkRegistration,
      handled ''!+CGREG'' handleNetworkRegistration,
      handled ''!+CMGS='' (\<lambda>_. handleSendSMS),
      plain (''%CPRIM='' @ [CHR 0x22] @ ''GMM'' @ [CHR 0x22] @ '','' @ [CHR 0x22] @ ''CONFIG MULTISLOT_CLASS=<10>'' @ [CHR 0x22]),
      plain (''%DATA=2,'' @ [CHR 0x22] @ ''UART'' @ [CHR 0x22] @ '',1,,'' @ [CHR 0x22] @ ''SER'' @ [CHR 0x22] @ '','' @ [CHR 0x22] @ ''UART'' @ [CHR 0x22] @ '',0''),
      handled ''!+CGDCONT='' handleDefinePDPContext,
      handled ''+CGDCONT?'' (\<lambda>_. handleQueryPDPContext),
      plain ''+CGQREQ=1'',
      plain ''+CGQMIN=1'',
      plain ''+CGEREP=1,0'',
      plain ''+CGACT=1,0'',
      handled ''D*99***1#'' (\<lambda>_. handleStartPDPContext),
      handled ''!D'' (\<lambda>cmd m. handleDial (me_now env) cmd m),
      plain ''+CNMA=1'',
      plain ''+CNMA=2'',
      handled ''!+CRSM='' handleSIM_IO,
      handled ''+CHLD=0'' (\<lambda>cmd m. handleHangup (me_remote env) cmd m),
      handled ''+CHLD=1'' (\<lambda>cmd m. handleHangup (me_remote env) cmd m),
      handled ''+CHLD=2'' (\<lambda>cmd m. handleHangup (me_remote env) cmd m),
      handled ''+CHLD=3'' (\<lambda>cmd m. handleHangup (me_remote env) cmd m),
      handled ''A'' (\<lambda>cmd m. handleAnswer (me_remote env) cmd m),
      handled ''H'' (\<lambda>cmd m. handleAnswer (me_remote env) cmd m),
      handled ''!+VTS='' (\<lambda>_. handleSetDialTone),
      fixed ''+CIMI'' ''310260000000000'',
      fixed ''+CGSN'' ''000000000000000'',
      plain ''+CUSD=2'',
      handled ''+COPS=0'' handleOperatorSelection,
      handled ''!+CMGD='' (\<lambda>_. handleDeleteSMSonSIM),
      handled ''!+CPIN='' handleChangeOrEnterPIN,
      handled ''+CPIN?'' (\<lambda>_. handleSIMStatusReq),
      fixed ''+CNMI?'' ''+CNMI: 1,2,2,1,1'',
      handled ''+CFUN?'' (\<lambda>_. handleRadioPowerReq),
      plain ''E0Q0V1'',
      plain ''S0=0'',
      plain ''+CMEE=1'',
      plain ''+CCWA=1'',
      plain ''+CMOD=0'',
      plain ''+CMUT=0'',
      plain ''+CSSN=0,1'',
      plain ''+COLP=0'',
      plain (''+CSCS='' @ [CHR 0x22] @ ''HEX'' @ [CHR 0x22]),
      plain ''+CUSD=1'',
      plain ''+CGEREP=1,0'',
      handled ''+CMGF=0'' (\<lambda>_. handleEndOfInit env),
      plain ''%CPI=3'',
      plain ''%CSTAT=1'']"

definition command_matches :: "string \<Rightarrow> string \<Rightarrow> bool" where
  "command_matches scmd cmd = (if nth_char scmd 0 = CHR ''!'' then take (length scmd - 1) cmd = tl scmd else scmd = cmd)"

definition with_ok :: "string \<Rightarrow> string" where
  "with_ok s = s @ [CHR 0x0D] @ ''OK''"

text \<open>The answer to a line: none when it is not a command. The end of an answer in the buffer is added without a check of its size.\<close>

definition finish_reply :: "reply \<Rightarrow> string res" where
  "finish_reply r =
     (let is_final = (\<lambda>s. take 2 s = ''> '' \<or> take 5 s = ''ERROR'' \<or> take 6 s = take 6 ''+CME ERROR'')
      in case r of
           No_Answer \<Rightarrow> Inr ''OK''
         | Literal s \<Rightarrow> Inr (if is_final s then s else take 1023 (with_ok s))
         | Buffer s \<Rightarrow> if is_final s then Inr s else if 1024 \<le> length (with_ok s) then Inl Undefined else Inr (with_ok s))"

definition amodem_send :: "modem_env \<Rightarrow> string \<Rightarrow> AModemRec \<Rightarrow> (string option \<times> AModemRec \<times> modem_action list) res" where
  "amodem_send env cmd m =
     (if wait_sms m
      then res_bind (handleSendSMSText env cmd (m\<lparr>wait_sms := False\<rparr>)) (\<lambda>(r, m, os).
             Inr (case r of Literal s \<Rightarrow> Some s | Buffer s \<Rightarrow> Some s | No_Answer \<Rightarrow> None, m, os))
      else if take 2 cmd \<noteq> ''AT'' \<or> length cmd \<le> 2 then Inr (None, m, [])
      else let cmd = drop 2 cmd
           in case find (\<lambda>(scmd, _). command_matches scmd cmd) (sDefaultResponses env) of
                None \<Rightarrow> Inr (Some ''ERROR: UNSUPPORTED'', m, [])
              | Some (_, Fixed answer) \<Rightarrow> Inr (Some (take 1023 (with_ok answer)), m, [])
              | Some (_, Plain) \<Rightarrow> Inr (Some ''OK'', m, [])
              | Some (_, Handled h) \<Rightarrow>
                  res_bind (h cmd m) (\<lambda>(r, m, os). res_bind (finish_reply r) (\<lambda>a. Inr (Some a, m, os))))"

definition amodem_receive_sms :: "SmsPDURec \<Rightarrow> AModemRec \<Rightarrow> modem_action list" where
  "amodem_receive_sms pdu m =
     (if unsol_func m
      then let n = 1024 - 3 - 9; (len, hex) = smspdu_to_hex pdu n
           in if n < len then [] else [Unsol (''+CMT: 0'' @ crlf @ map byte_char hex @ crlf)]
      else [])"

lemmas table_defs = sDefaultResponses_def command_matches_def plain_def fixed_def handled_def nth_char_def

lemma send_command:
  assumes "\<not> wait_sms m" and "find (\<lambda>(scmd, _). command_matches scmd cmd) (sDefaultResponses env) = Some (s, Handled h)" and "cmd \<noteq> []"
  shows "amodem_send env (''AT'' @ cmd) m = res_bind (h cmd m) (\<lambda>(r, m, os). res_bind (finish_reply r) (\<lambda>a. Inr (Some a, m, os)))"
  using assms by (simp add: amodem_send_def)

section \<open>Commands and answers\<close>

definition at_query :: "modem_env \<Rightarrow> AModemRec \<Rightarrow> string \<Rightarrow> string \<Rightarrow> bool" where
  "at_query env m cmd answer \<longleftrightarrow> amodem_send env (''AT'' @ cmd) m = Inr (Some (with_ok answer), m, [])"

lemma lookup_settings:
  "find (\<lambda>(scmd, _). command_matches scmd ''+CFUN=0'') (sDefaultResponses env) = Some (''+CFUN=0'', Handled handleRadioPower)"
  "find (\<lambda>(scmd, _). command_matches scmd ''+CFUN=1'') (sDefaultResponses env) = Some (''+CFUN=1'', Handled handleRadioPower)"
  "find (\<lambda>(scmd, _). command_matches scmd ''+CFUN?'') (sDefaultResponses env) = Some (''+CFUN?'', Handled (\<lambda>_. handleRadioPowerReq))"
  "find (\<lambda>(scmd, _). command_matches scmd (CHR ''+'' # CHR ''C'' # CHR ''R'' # CHR ''E'' # CHR ''G'' # s)) (sDefaultResponses env) =
     Some (''!+CREG'', Handled handleNetworkRegistration)"
  "find (\<lambda>(scmd, _). command_matches scmd (CHR ''+'' # CHR ''C'' # CHR ''G'' # CHR ''R'' # CHR ''E'' # CHR ''G'' # s)) (sDefaultResponses env) =
     Some (''!+CGREG'', Handled handleNetworkRegistration)"
  "find (\<lambda>(scmd, _). command_matches scmd (CHR ''+'' # CHR ''C'' # CHR ''G'' # CHR ''D'' # CHR ''C'' # CHR ''O'' # CHR ''N'' # CHR ''T'' # CHR ''='' # s))
     (sDefaultResponses env) = Some (''!+CGDCONT='', Handled handleDefinePDPContext)"
  "find (\<lambda>(scmd, _). command_matches scmd ''+CGDCONT?'') (sDefaultResponses env) = Some (''+CGDCONT?'', Handled (\<lambda>_. handleQueryPDPContext))"
  "find (\<lambda>(scmd, _). command_matches scmd ''+CCSS?'') (sDefaultResponses env) = Some (''!+CCSS'', Handled handleSubscriptionSource)"
  "c \<noteq> CHR ''?'' \<Longrightarrow> find (\<lambda>(scmd, _). command_matches scmd [CHR ''+'', CHR ''C'', CHR ''C'', CHR ''S'', CHR ''S'', CHR ''='', c]) (sDefaultResponses env) =
     Some (''!+CCSS'', Handled handleSubscriptionSource)"
  "find (\<lambda>(scmd, _). command_matches scmd ''+CTEC?'') (sDefaultResponses env) = Some (''!+CTEC'', Handled handleTech)"
  "c \<noteq> CHR ''?'' \<Longrightarrow> find (\<lambda>(scmd, _). command_matches scmd (CHR ''+'' # CHR ''C'' # CHR ''T'' # CHR ''E'' # CHR ''C'' # CHR ''='' # c # s)) (sDefaultResponses env) =
     Some (''!+CTEC'', Handled handleTech)"
  by (simp_all add: table_defs)

definition digit :: "nat \<Rightarrow> char" where "digit d = char_of (48 + d)"

lemma show_digit: "d < 10 \<Longrightarrow> show_dec (int d) = [digit d]"
  by (subst show_dec_def, subst show_nat.simps) (simp add: digit_def)

lemma digits: "digit 0 = CHR ''0''" "digit 1 = CHR ''1''" "digit 2 = CHR ''2''" "digit 3 = CHR ''3''" "digit (Suc 0) = CHR ''1''" "digit (Suc (Suc 0)) = CHR ''2''"
  unfolding digit_def by code_simp+

lemma cfun_read_back:
  assumes "\<not> wait_sms m" and "n < 2"
  shows "\<exists>m1. amodem_send env (''AT+CFUN='' @ [digit n]) m = Inr (Some ''OK'', m1, []) \<and> at_query env m1 ''+CFUN?'' (''+CFUN: '' @ [digit n])"
proof -
  define m1 where "m1 = m\<lparr>radio_state := (if n = 0 then A_RADIO_STATE_OFF else A_RADIO_STATE_ON)\<rparr>"
  have w: "\<not> wait_sms m1" using assms(1) by (simp add: m1_def)
  have "at_query env m1 ''+CFUN?'' (''+CFUN: '' @ [digit n])"
    using send_command [OF w lookup_settings(3)] assms(2)
    by (auto simp: at_query_def m1_def digits handleRadioPowerReq_def finish_reply_def with_ok_def less_Suc_eq numeral_2_eq_2)
  moreover consider "n = 0" | "n = 1" using assms(2) by linarith
  then have "amodem_send env (''AT+CFUN='' @ [digit n]) m = Inr (Some ''OK'', m1, [])"
    using send_command [OF assms(1) lookup_settings(1)] send_command [OF assms(1) lookup_settings(2)]
    by cases (simp_all add: m1_def digits handleRadioPower_def finish_reply_def)
  ultimately show ?thesis by blast
qed

lemma length_show_nat: "n < 10 ^ Suc k \<Longrightarrow> length (show_nat n) \<le> Suc k"
proof (induction n arbitrary: k rule: show_nat.induct)
  case (1 n)
  show ?case
  proof (cases "n < 10")
    case False
    then obtain j where k: "k = Suc j" using 1(2) by (cases k) auto
    then have "n div 10 < 10 ^ Suc j" using 1(2) by (simp add: less_mult_imp_div_less mult.commute)
    then show ?thesis using 1(1) [OF False, of j] k False by (subst show_nat.simps) simp
  qed (subst show_nat.simps, simp)
qed

lemma length_show_dec: "\<bar>i\<bar> < 10 ^ Suc k \<Longrightarrow> length (show_dec i) \<le> k + 2"
  using length_show_nat [of "nat \<bar>i\<bar>" k] by (auto simp: show_dec_def nat_less_iff)

lemma length_hex04: "length (hex04 v) \<le> 8"
proof -
  have "unat v < 16 ^ Suc 7" using unsigned_less [of v] by simp
  then show ?thesis using length_show_hex [of "unat v" 7] by (simp add: hex04_def Let_def)
qed

lemma creg_read_back:
  assumes "\<not> wait_sms m" and "n < 3" and "\<bar>voice_state m\<bar> < 10"
  shows "\<exists>m1. amodem_send env (''AT+CREG='' @ [digit n]) m = Inr (Some ''OK'', m1, []) \<and>
    at_query env m1 ''+CREG?'' (''+CREG: '' @ [digit n] @ '','' @ show_dec (voice_state m) @
      (if n = 2 then '', '' @ quoted (hex04 (area_code m)) @ '', '' @ quoted (hex04 (cell_id m)) else []))"
proof -
  define m1 where "m1 = m\<lparr>voice_mode := int n\<rparr>"
  have w: "\<not> wait_sms m1" using assms(1) by (simp add: m1_def)
  have r: "reg_mode (digit n) = Some (int n)" using assms(2) by (auto simp: less_Suc_eq numeral_3_eq_3 digits reg_mode_def modem_consts)
  have "length (show_dec (voice_state m)) \<le> 2" using length_show_dec [of "voice_state m" 0] assms(3) by simp
  moreover have "length (hex04 (area_code m)) \<le> 8" "length (hex04 (cell_id m)) \<le> 8" by (rule length_hex04)+
  moreover have "show_dec (int n) = [digit n]" using assms(2) by (intro show_digit) simp
  ultimately have "at_query env m1 ''+CREG?'' (''+CREG: '' @ [digit n] @ '','' @ show_dec (voice_state m) @
      (if n = 2 then '', '' @ quoted (hex04 (area_code m)) @ '', '' @ quoted (hex04 (cell_id m)) else []))"
    using send_command [OF w lookup_settings(4) [of "''?''"]]
    by (auto simp: at_query_def handleNetworkRegistration_def nth_char_def m1_def modem_printf_def finish_reply_def with_ok_def quoted_def modem_consts)
  moreover have "amodem_send env (''AT+CREG='' @ [digit n]) m = Inr (Some ''OK'', m1, [])"
    using send_command [OF assms(1) lookup_settings(4) [of "[CHR ''='', digit n]"]] r
    by (simp add: handleNetworkRegistration_def nth_char_def m1_def finish_reply_def)
  ultimately show ?thesis by blast
qed

lemma ccss_read_back:
  assumes "\<not> wait_sms m" and "n < 2"
  shows "\<exists>m1. amodem_send env (''AT+CCSS='' @ [digit n]) m = Inr (Some (with_ok (''+CCSS: '' @ [digit n])), m1, []) \<and>
    at_query env m1 ''+CCSS?'' (''+CCSS: '' @ [digit n])"
proof -
  define m1 where "m1 = snd (set_subscription_source (int n) m)"
  have m1: "\<not> wait_sms m1" "subscription_source m1 = int n" using assms(1) by (simp_all add: m1_def set_subscription_source_def)
  have s: "show_dec (int n) = [digit n]" using assms(2) by (intro show_digit) simp
  have "n = 0 \<or> n = 1" using assms(2) by linarith
  then have d: "digit n \<noteq> CHR ''?''" "digit n = CHR ''0'' \<or> digit n = CHR ''1''" "int (of_char (digit n)) - 48 = int n" by (auto simp: digits)
  have "at_query env m1 ''+CCSS?'' (''+CCSS: '' @ [digit n])"
    using send_command [OF m1(1) lookup_settings(8)] m1(2) s
    by (simp add: at_query_def handleSubscriptionSource_def nth_char_def modem_printf_def finish_reply_def with_ok_def)
  moreover have "amodem_send env (''AT+CCSS='' @ [digit n]) m = Inr (Some (with_ok (''+CCSS: '' @ [digit n])), m1, [])"
    using send_command [OF assms(1) lookup_settings(9) [OF d(1)]] m1(2) s d(2,3)
    by (simp add: handleSubscriptionSource_def nth_char_def modem_printf_def finish_reply_def with_ok_def m1_def [symmetric] Let_def)
  ultimately show ?thesis by blast
qed

lemma length_hex32: "length (show_hex (unat (v :: u32))) \<le> 8"
proof -
  have "unat v < 16 ^ Suc 7" using unsigned_less [of v] by simp
  then show ?thesis using length_show_hex [of "unat v" 7] by simp
qed

lemma ctec_read_back:
  assumes "\<not> wait_sms m" and "n < 4" and "preferred_mask m \<noteq> 0"
  shows "\<exists>a m1. amodem_send env (''AT+CTEC='' @ [digit n]) m = Inr (Some (with_ok a), m1, []) \<and>
    at_query env m1 ''+CTEC?'' (''+CTEC: '' @ [digit n] @ '','' @ show_hex (unat (preferred_mask m)))"
proof -
  define m1 where "m1 = m\<lparr>technology := int n\<rparr>"
  have m1: "\<not> wait_sms m1" using assms(1) by (simp add: m1_def)
  have s: "show_dec (int n) = [digit n]" using assms(2) by (intro show_digit) simp
  have "n = 0 \<or> n = 1 \<or> n = 2 \<or> n = 3" using assms(2) by linarith
  then have d: "digit n \<noteq> CHR ''?''" "digit n \<in> {CHR ''0'', CHR ''1'', CHR ''2'', CHR ''3''}" "int (of_char (digit n)) - 48 = int n"
    by (auto simp: digits)
  have "at_query env m1 ''+CTEC?'' (''+CTEC: '' @ [digit n] @ '','' @ show_hex (unat (preferred_mask m)))"
    using send_command [OF m1 lookup_settings(10)] s length_hex32 [of "preferred_mask m"]
    by (simp add: at_query_def handleTech_def nth_char_def modem_printf_def finish_reply_def with_ok_def m1_def)
  moreover have "amodem_switch_technology (int n) (preferred_mask m) m =
      Inr (if technology m \<noteq> int n then Buffer (''+CTEC: '' @ [digit n]) else Literal ''+CTEC: DONE'', m1)"
    using assms(3) s by (auto simp: amodem_switch_technology_def m1_def)
  then have "\<exists>a. amodem_send env (''AT+CTEC='' @ [digit n]) m = Inr (Some (with_ok a), m1, [])"
    using send_command [OF assms(1) lookup_settings(11) [OF d(1), of "[]"]] d(2,3)
    by (auto simp: handleTech_def nth_char_def finish_reply_def with_ok_def Let_def)
  ultimately show ?thesis by blast
qed

text \<open>Settings are read back. The radio power, the mode of registration reports, the subscription source and the technology that a command sets are what
  the corresponding query answers, in the format of the command and followed by \<open>OK\<close>; the queries change nothing.\<close>

theorem settings_read_back:
  assumes "\<not> wait_sms m" and "\<bar>voice_state m\<bar> < 10" and "preferred_mask m \<noteq> 0"
  shows "(n < 2 \<longrightarrow> (\<exists>m1. amodem_send env (''AT+CFUN='' @ [digit n]) m = Inr (Some ''OK'', m1, []) \<and>
      at_query env m1 ''+CFUN?'' (''+CFUN: '' @ [digit n]))) \<and>
    (n < 3 \<longrightarrow> (\<exists>m1. amodem_send env (''AT+CREG='' @ [digit n]) m = Inr (Some ''OK'', m1, []) \<and>
      at_query env m1 ''+CREG?'' (''+CREG: '' @ [digit n] @ '','' @ show_dec (voice_state m) @
        (if n = 2 then '', '' @ quoted (hex04 (area_code m)) @ '', '' @ quoted (hex04 (cell_id m)) else [])))) \<and>
    (n < 2 \<longrightarrow> (\<exists>m1. amodem_send env (''AT+CCSS='' @ [digit n]) m = Inr (Some (with_ok (''+CCSS: '' @ [digit n])), m1, []) \<and>
      at_query env m1 ''+CCSS?'' (''+CCSS: '' @ [digit n]))) \<and>
    (n < 4 \<longrightarrow> (\<exists>a m1. amodem_send env (''AT+CTEC='' @ [digit n]) m = Inr (Some (with_ok a), m1, []) \<and>
      at_query env m1 ''+CTEC?'' (''+CTEC: '' @ [digit n] @ '','' @ show_hex (unat (preferred_mask m)))))"
  using cfun_read_back [OF assms(1)] creg_read_back [OF assms(1) _ assms(2)] ccss_read_back [OF assms(1)] ctec_read_back [OF assms(1) _ assms(3)] by blast

section \<open>Data contexts\<close>

text \<open>The command that defines a context, and what it leaves.\<close>

definition context_command :: "nat \<Rightarrow> ADataType \<Rightarrow> string \<Rightarrow> string \<Rightarrow> string" where
  "context_command d type apn rest =
     ''+CGDCONT='' @ [digit d] @ '','' @ quoted (if type = A_DATA_IP then ''IP'' else ''PPP'') @ '','' @ quoted apn @ rest"

lemma define_context:
  assumes "1 \<le> d" and "d \<le> 4" and "CHR 0x22 \<notin> set apn" and "length apn \<le> 31"
  shows "handleDefinePDPContext (context_command d type apn rest) m =
    Inr (No_Answer, m\<lparr>data_contexts := (data_contexts m)(d - 1 := \<lparr>dc_id = int d, dc_active = True, dc_type = type, dc_apn = apn\<rparr>)\<rparr>, [])"
proof -
  have "of_char (digit d) = (48 + d :: nat)" unfolding digit_def using assms(2) by (simp add: of_char_of)
  then have i: "int (of_char (digit d)) - 49 = int d - 1" by simp
  have q: "digit d \<noteq> CHR ''?''"
  proof
    assume "digit d = CHR ''?''"
    then have "int 63 - 49 = int d - 1" using i by simp
    then show False using assms(2) by simp
  qed
  have n: "nat (int d - 1) = d - 1" "\<not> int d - 1 < 0" "\<not> 3 < int d - 1" using assms(1,2) by auto
  have t: "takeWhile (\<lambda>x. x \<noteq> CHR 0x22) (apn @ CHR 0x22 # rest) = apn" using assms(3) by (subst takeWhile_append2) auto
  show ?thesis using assms(4) q n t i
    by (cases type) (simp_all add: handleDefinePDPContext_def context_command_def quoted_def nth_char_def Let_def)
qed

text \<open>The answer to the query fits in the buffer.\<close>

definition contexts_ok :: "AModemRec \<Rightarrow> bool" where
  "contexts_ok m \<longleftrightarrow> (\<forall>k < MAX_DATA_CONTEXTS. \<bar>dc_id (data_contexts m k)\<bar> < 10 \<and> length (dc_apn (data_contexts m k)) \<le> 31)"

lemma sum_list_bound: "(\<And>x. x \<in> set xs \<Longrightarrow> f x \<le> c) \<Longrightarrow> sum_list (map f xs) \<le> length xs * (c :: nat)"
proof (induction xs)
  case (Cons x xs)
  have "f x \<le> c" "sum_list (map f xs) \<le> length xs * c" using Cons by simp_all
  then show ?case by simp
qed simp

lemma context_lines_fit:
  assumes "contexts_ok m"
  shows "length (concat (map context_line (active_contexts m))) \<le> 4 * 80"
proof -
  have "length (context_line d) \<le> 80" if "d \<in> set (active_contexts m)" for d
  proof -
    have d: "\<bar>dc_id d\<bar> < 10" "length (dc_apn d) \<le> 31" using assms that by (auto simp: contexts_ok_def active_contexts_def)
    have "length (show_dec (dc_id d)) \<le> 2" using length_show_dec [of "dc_id d" 0] d(1) by simp
    then show ?thesis using d(2) by (simp add: context_line_def quoted_def crlf_def)
  qed
  then have "sum_list (map (\<lambda>d. length (context_line d)) (active_contexts m)) \<le> length (active_contexts m) * 80"
    by (rule sum_list_bound)
  moreover have "length (active_contexts m) \<le> 4" unfolding active_contexts_def using length_filter_le [of dc_active] by (metis MAX_DATA_CONTEXTS_def diff_zero length_map length_upt)
  ultimately show ?thesis by (simp add: length_concat comp_def)
qed

lemma query_contexts:
  assumes "\<not> wait_sms m" and "contexts_ok m" and "active_contexts m \<noteq> []"
  shows "at_query env m ''+CGDCONT?'' (concat (map context_line (active_contexts m)))"
proof -
  define s where "s = concat (map context_line (active_contexts m))"
  obtain d ds where "active_contexts m = d # ds" using assms(3) by (cases "active_contexts m") auto
  then have "take 2 s = ''+C''" "take 5 s = ''+CGDC''" "take 6 s = ''+CGDCO''" by (simp_all add: s_def context_line_def)
  moreover have "length s \<le> 320" using context_lines_fit [OF assms(2)] by (simp add: s_def)
  ultimately have "finish_reply (Buffer s) = Inr (with_ok s)" "lines_answer (map context_line (active_contexts m)) = Inr (Buffer s)"
    by (simp_all add: finish_reply_def with_ok_def lines_answer_def s_def [symmetric] del: length_concat)
  then show ?thesis using send_command [OF assms(1) lookup_settings(7)] by (simp add: at_query_def handleQueryPDPContext_def s_def)
qed

text \<open>Data contexts. A command that defines one of the four contexts, with a type and a name of at most 31 characters, is answered with \<open>OK\<close> and sets that
  context and no other; the query then lists the active contexts in their order, this one among them, and its answer fits in the buffer of the modem.\<close>

theorem context_defined:
  assumes "\<not> wait_sms m" and "contexts_ok m" and "1 \<le> d" and "d \<le> 4" and "CHR 0x22 \<notin> set apn" and "length apn \<le> 31"
  shows "\<exists>m1. amodem_send env (''AT'' @ context_command d type apn rest) m = Inr (Some ''OK'', m1, []) \<and> contexts_ok m1 \<and>
    data_contexts m1 = (data_contexts m)(d - 1 := \<lparr>dc_id = int d, dc_active = True, dc_type = type, dc_apn = apn\<rparr>) \<and>
    \<lparr>dc_id = int d, dc_active = True, dc_type = type, dc_apn = apn\<rparr> \<in> set (active_contexts m1) \<and>
    at_query env m1 ''+CGDCONT?'' (concat (map context_line (active_contexts m1)))"
proof -
  define c where "c = \<lparr>dc_id = int d, dc_active = True, dc_type = type, dc_apn = apn\<rparr>"
  define m1 where "m1 = m\<lparr>data_contexts := (data_contexts m)(d - 1 := c)\<rparr>"
  have ok: "contexts_ok m1" "\<not> wait_sms m1" using assms by (auto simp: contexts_ok_def m1_def c_def)
  have a: "c \<in> set (active_contexts m1)" using assms(3,4) by (auto simp: active_contexts_def m1_def MAX_DATA_CONTEXTS_def c_def)
  have "active_contexts m1 \<noteq> []" using a by auto
  note q = query_contexts [OF ok(2,1) this, of env]
  have "amodem_send env (''AT'' @ context_command d type apn rest) m = Inr (Some ''OK'', m1, [])"
    using send_command [OF assms(1) lookup_settings(6) [of "drop 9 (context_command d type apn rest)" env]] define_context [OF assms(3-6), of type rest m]
    by (simp add: context_command_def finish_reply_def m1_def c_def)
  then show ?thesis using ok(1) a q by (auto simp: m1_def c_def)
qed

section \<open>A new modem\<close>

text \<open>The modem in the memory of a program that has just started.\<close>

definition blank_modem :: AModemRec where
  "blank_modem = modem_calls.extend (initial_calls 0)
     (AModemRec.fields False A_RADIO_STATE_OFF 0 0 0 0 False (asimcard_create 0) 0 0 0 0 0 0 0 0 0
        (\<lambda>_. \<lparr>op_status = 0, op_name = (\<lambda>_. replicate 16 (CHR 0x00))\<rparr>) (\<lambda>_. \<lparr>dc_id = 0, dc_active = False, dc_type = A_DATA_IP, dc_apn = []\<rparr>)
        None 0 [] 0 0 0 0 0 False)"

lemma blank_fields: "\<not> wait_sms blank_modem" "voice_state blank_modem = 0" "data_contexts blank_modem = (\<lambda>_. \<lparr>dc_id = 0, dc_active = False, dc_type = A_DATA_IP, dc_apn = []\<rparr>)"
  by (simp_all add: blank_modem_def AModemRec.defs modem_calls.defs initial_calls_def)

lemma calls_ok_blank: "calls_ok blank_modem"
  using initial_calls_ok [of 0] by (simp add: blank_modem_def calls_ok_def numbers_ok_def call_ids_def call_list_def modem_calls.defs initial_calls_def)

definition sample_modem_env :: modem_env where
  "sample_modem_env = \<lparr>me_remote = sample_env, me_now = 0, me_utc = \<lparr>tm_sec = 0, tm_min = 0, tm_hour = 0, tm_mday = 1, tm_mon = 0, tm_year = 100, tm_yday = 0, tm_isdst = 0\<rparr>,
     me_local = \<lparr>tm_sec = 0, tm_min = 0, tm_hour = 0, tm_mday = 1, tm_mon = 0, tm_year = 100, tm_yday = 0, tm_isdst = 0\<rparr>, me_tzname = None,
     me_stamp = replicate 7 0, me_address = \<lparr>ad_len = 0, ad_toa = 0, ad_data = replicate 16 0\<rparr>, me_update_time = False\<rparr>"

theorem settings_read_back_witness:
  "\<exists>m1. amodem_send sample_modem_env (''AT+CREG='' @ [digit 1]) (blank_modem\<lparr>preferred_mask := 15\<rparr>) = Inr (Some ''OK'', m1, []) \<and>
    at_query sample_modem_env m1 ''+CREG?'' (''+CREG: '' @ [digit 1] @ '','' @ show_dec 0)"
  using settings_read_back [of "blank_modem\<lparr>preferred_mask := 15\<rparr>" 1 sample_modem_env] blank_fields by fastforce

theorem context_defined_witness:
  "\<exists>m1. amodem_send sample_modem_env (''AT'' @ context_command 1 A_DATA_IP ''internet'' []) blank_modem = Inr (Some ''OK'', m1, []) \<and> contexts_ok m1"
  using context_defined [of blank_modem 1 "''internet''" sample_modem_env A_DATA_IP "[]"] blank_fields by (auto simp: contexts_ok_def)

definition nvram_ok :: "nvram \<Rightarrow> bool" where
  "nvram_ok c \<longleftrightarrow> (\<forall>n v. (n, v) \<in> set c \<longrightarrow> v \<noteq> None)"

lemma nvram_set_ok: "nvram_ok c \<Longrightarrow> nvram_ok (aconfig_set c n (Some v))"
  by (auto simp: nvram_ok_def aconfig_set_def split: if_splits)

lemma nvram_lookup: "nvram_ok c \<Longrightarrow> map_of c n \<noteq> Some None"
  by (auto simp: nvram_ok_def dest: map_of_SomeD)

lemma nvram_get_int: "nvram_ok c \<Longrightarrow> \<exists>v c'. amodem_nvram_get_int n d c = Inr (v, c') \<and> nvram_ok c'"
  using nvram_lookup [of c n] by (auto simp: amodem_nvram_get_int_def aconfig_int_def nvram_set_ok split: option.splits)

lemma nvram_get_str: "nvram_ok c \<Longrightarrow> \<exists>v c'. amodem_nvram_get_str n d c = Inr (v, c') \<and> nvram_ok c' \<and> (d \<noteq> None \<longrightarrow> v \<noteq> None)"
  using nvram_lookup [of c n] by (auto simp: amodem_nvram_get_str_def aconfig_str_def nvram_set_ok split: option.splits)

lemma nvram_emergency: "nvram_ok c \<Longrightarrow> \<exists>e' c'. load_emergency is e c = Inr (e', c') \<and> nvram_ok c'"
proof (induction "is" arbitrary: e c)
  case (Cons i "is")
  obtain v c' where "amodem_nvram_get_str (''emergency_number_'' @ show_nat i) None c = Inr (v, c')" "nvram_ok c'" using nvram_get_str [OF Cons(2)] by blast
  then show ?case using Cons(1) by auto
qed simp

lemma nvram_source: "nvram_ok c \<Longrightarrow> \<exists>v c'. get_cdma_subscription_source c = Inr (v, c') \<and> nvram_ok c'"
  using nvram_get_int [of c "''cdma_subscription_source''" A_SUBSCRIPTION_RUIM] by (auto simp: get_cdma_subscription_source_def)

lemma nvram_roaming: "nvram_ok c \<Longrightarrow> \<exists>v c'. get_cdma_roaming_preference c = Inr (v, c') \<and> nvram_ok c'"
  using nvram_get_int [of c "''cdma_roaming_pref''" A_ROAMING_PREF_ANY] by (auto simp: get_cdma_roaming_preference_def)

text \<open>Whatever the file of the configuration holds, the modem starts with its radio off, in its home network and without calls.\<close>

theorem modem_starts:
  assumes "\<And>c. loaded = Some c \<Longrightarrow> nvram_ok c" and "calls_ok m0"
  shows "\<exists>m. amodem_create port unsol loaded m0 = Inr m \<and> radio_state m = A_RADIO_STATE_OFF \<and> \<not> wait_sms m \<and> voice_state m = A_REGISTRATION_HOME \<and>
    sim m = asimcard_create port \<and> base_port m = port \<and> calls_ok m"
proof -
  define c where "c = amodem_load_nvram loaded"
  have c: "nvram_ok c" using assms(1) by (auto simp: c_def amodem_load_nvram_def nvram_ok_def split: option.split)
  obtain v1 c1 where 1: "amodem_nvram_get_int ''oper_name_index'' 2 c = Inr (v1, c1)" "nvram_ok c1" using nvram_get_int [OF c] by blast
  obtain v2 c2 where 2: "amodem_nvram_get_int ''selection_mode'' A_SELECTION_AUTOMATIC c1 = Inr (v2, c2)" "nvram_ok c2" using nvram_get_int [OF 1(2)] by blast
  obtain v3 c3 where 3: "amodem_nvram_get_int ''oper_index'' 0 c2 = Inr (v3, c3)" "nvram_ok c3" using nvram_get_int [OF 2(2)] by blast
  obtain v4 c4 where 4: "amodem_nvram_get_int ''oper_count'' 2 c3 = Inr (v4, c4)" "nvram_ok c4" using nvram_get_int [OF 3(2)] by blast
  obtain v5 c5 where 5: "amodem_nvram_get_int ''in_ecbm'' 0 c4 = Inr (v5, c5)" "nvram_ok c5" using nvram_get_int [OF 4(2)] by blast
  obtain v6 c6 where 6: "amodem_nvram_get_int ''prl_version'' 0 c5 = Inr (v6, c6)" "nvram_ok c6" using nvram_get_int [OF 5(2)] by blast
  obtain e c7 where 7: "load_emergency [1..<MAX_EMERGENCY_NUMBERS] ((emergency_numbers m0)(0 := Some ''911'')) c6 = Inr (e, c7)" "nvram_ok c7"
    using nvram_emergency [OF 6(2)] by blast
  obtain s c8 where 8: "amodem_nvram_get_str ''modem_technology'' (Some ''gsm'') c7 = Inr (Some s, c8)" "nvram_ok c8" using nvram_get_str [OF 7(2)] by blast
  have "\<exists>v. aconfig_int c8 ''modem_technology'' A_TECH_GSM = Inr v"
    using nvram_lookup [OF 8(2), of "''modem_technology''"] by (auto simp: aconfig_int_def split: option.split)
  then obtain tech where 9: "(if android_parse_modem_tech s = A_TECH_UNKNOWN then aconfig_int c8 ''modem_technology'' A_TECH_GSM else Inr (android_parse_modem_tech s)) = Inr tech"
    by (cases "android_parse_modem_tech s = A_TECH_UNKNOWN") auto
  obtain p c9 where 10: "amodem_nvram_get_int ''preferred_mode'' 0x0f c8 = Inr (p, c9)" "nvram_ok c9" using nvram_get_int [OF 8(2)] by blast
  obtain ss c10 where 11: "get_cdma_subscription_source c9 = Inr (ss, c10)" "nvram_ok c10" using nvram_source [OF 10(2)] by blast
  obtain rp c11 where 12: "get_cdma_roaming_preference c10 = Inr (rp, c11)" using nvram_roaming [OF 11(2)] by blast
  have k: "calls_ok m' = calls_ok m0" if "calls m' = calls m0" "call_count m' = call_count m0" for m' :: AModemRec using calls_ok_cong [OF that] .
  show ?thesis
    unfolding amodem_create_def amodem_reset_def c_def [symmetric]
    by (simp add: 1 2 3 4 5 6 7 8 9 10 11 12 k assms(2) name_operator_def del: One_nat_def)
qed

section \<open>Commands that do harm\<close>

text \<open>A registration command without a sign ends the program, and so does a mask of technologies without any known one.\<close>

theorem creg_aborts: "\<not> wait_sms m \<Longrightarrow> amodem_send env ''AT+CREG'' m = Inl Assert_Failure"
  using send_command [OF _ lookup_settings(4) [of "[]"]] by (simp add: handleNetworkRegistration_def nth_char_def)

theorem ctec_aborts:
  assumes "\<not> wait_sms m" and "preferred_mask m \<noteq> 0x80"
  shows "amodem_send env ''AT+CTEC=0,80'' m = Inl Assert_Failure"
proof -
  have p: "parsePreferred ''80'' = Some 0x80"
    by (simp add: parsePreferred_def strtol_def scan_number_def is_space_def skip_sign_def number_base_def starts_digit_def digit_value_def)
  have "\<not> matchPreferredMask 0x80 0" "chooseTechFromMask 0x80 = Inl Assert_Failure" by code_simp+
  then have "amodem_switch_technology 0 0x80 m = Inl Assert_Failure" using assms(2) by (simp add: amodem_switch_technology_def)
  then show ?thesis using send_command [OF assms(1) lookup_settings(11) [of "CHR ''0''" "'',80''"]] p by (simp add: handleTech_def nth_char_def Let_def)
qed

text \<open>The technologies that can be chosen are answered under the name of another command.\<close>

theorem ccss_range_misnamed: "\<not> wait_sms m \<Longrightarrow> amodem_send env ''AT+CCSS=?'' m = Inr (Some (with_ok ''+CTEC: 0,1''), m, [])"
  by (simp add: amodem_send_def table_defs with_ok_def)

text \<open>The emergency mode cannot be queried, although the handler has a branch for it.\<close>

theorem wsos_query_unsupported: "\<not> wait_sms m \<Longrightarrow> amodem_send env ''AT+WSOS?'' m = Inr (Some ''ERROR: UNSUPPORTED'', m, [])"
  by (simp add: amodem_send_def table_defs)

text \<open>No operator is ever selected by its name; the name that was asked for replaces the names of all of them.\<close>

theorem operator_never_selected:
  "select_operator format name m = Inr (r, m', os) \<Longrightarrow> r = Literal ''+CME ERROR: 529'' \<and> oper_index m' = oper_index m \<and>
    (int k < oper_count m \<longrightarrow> take (length name) (op_name (operators m' k) format) = name)"
  by (auto simp: select_operator_def overwrite_def Let_def split: if_splits)

text \<open>The card cannot be unlocked with its PUK of eight digits: the command only takes four.\<close>

theorem puk_never_accepted:
  assumes "sim_status (sim m) = A_SIM_STATUS_PUK" and "length (sim_puk (sim m)) = 8" and "handleChangeOrEnterPIN cmd m = Inr (r, m', os)"
  shows "sim_status (sim m') \<noteq> A_SIM_STATUS_READY"
proof -
  have "length (take 4 (drop 6 cmd)) \<noteq> 8" by simp
  then have "sim_puk (sim m) \<noteq> take 4 (drop 6 cmd)" using assms(2) by metis
  then show ?thesis using assms(1,3)
    by (auto simp: handleChangeOrEnterPIN_def asimcard_get_status_def asimcard_check_puk_def Let_def split: if_splits)
qed

text \<open>The limits on the signal strength are not applied.\<close>

theorem signal_not_limited:
  assumes "\<bar>rssi m\<bar> < 10 ^ 10" and "\<bar>ber m\<bar> < 10 ^ 10" and "\<not> time_request m"
  shows "handleSignalStrength env m = Inr (Buffer (''+CSQ: '' @ show_dec (rssi m) @ '','' @ show_dec (ber m) @ '',85,130,90,6,4,25,9,50,68,12'' @ crlf), m, [])"
proof -
  have "(if 0 > x \<and> x > 31 then 99 else x) = x" "(if 0 > x \<and> x > 7 then 99 else x) = x" for x :: int by auto
  then show ?thesis using assms length_show_dec [of "rssi m" 9] length_show_dec [of "ber m" 9]
    by (simp only: handleSignalStrength_def Let_def) (simp add: lines_answer_def crlf_def)
qed

text \<open>A change of the preferred technologies leaves a pointer to a local variable in the configuration, which the next write of the file follows.\<close>

theorem dangling_configuration:
  "newpreferred \<noteq> 0 \<Longrightarrow> preferred_mask m \<noteq> newpreferred \<Longrightarrow> amodem_switch_technology tech newpreferred m = Inr (r, m') \<Longrightarrow>
    handleRoamPref ''+WRMP=1'' m' = Inl Undefined"
proof -
  assume a: "newpreferred \<noteq> 0" "preferred_mask m \<noteq> newpreferred" "amodem_switch_technology tech newpreferred m = Inr (r, m')"
  have "nvram_config m' = aconfig_set (nvram_config m) ''preferred_mode'' None"
    using a by (auto simp: amodem_switch_technology_def res_bind_eq_Inr Let_def split: if_splits)
  moreover have "(''preferred_mode'', None) \<in> set (aconfig_set c ''preferred_mode'' None)" for c by (force simp: aconfig_set_def)
  ultimately have "list_ex (\<lambda>(n, v). n \<noteq> ''cdma_roaming_pref'' \<and> v = None) (nvram_config m')"
    unfolding list_ex_iff by (intro bexI [of _ "(''preferred_mode'', None)"]) simp_all
  moreover have "snd (strtol 10 ''1'') = []"
    by (simp add: strtol_def scan_number_def is_space_def skip_sign_def number_base_def starts_digit_def digit_value_def)
  ultimately show ?thesis by (simp add: handleRoamPref_def nth_char_def)
qed

end
