(* ===== verification/Modem_Driver.thy ===== *)
theory Modem_Driver
  imports Modem
begin

text \<open>
  The modem as a serial device, \<open>android/telephony/modem_driver.c\<close>: the characters that the guest writes are collected into lines for
  \<open>amodem_send\<close>, and answers are written back. After the prompt for a message, a line ends with the escape character (26) instead of
  the end of a line. Writes to the serial line and commands to other emulators are returned in their order.
\<close>

section \<open>The driver\<close>

record ModemDriver =
  in_buff :: string
  in_pos :: nat
  in_sms :: bool

datatype driver_action = Line string | Peer modem_action

definition IN_BUFF_SIZE :: nat where "IN_BUFF_SIZE = 1024"

definition modem_driver_unsol :: "string \<Rightarrow> driver_action" where
  "modem_driver_unsol message = Line message"

definition driver_action_of :: "modem_action \<Rightarrow> driver_action" where
  "driver_action_of a = (case a of Unsol s \<Rightarrow> modem_driver_unsol s | _ \<Rightarrow> Peer a)"

definition modem_driver_can_read :: "ModemDriver \<Rightarrow> int" where
  "modem_driver_can_read md = int IN_BUFF_SIZE - int (in_pos md)"

type_synonym driver_state = "ModemDriver \<times> AModemRec"

definition end_of_line :: "modem_env \<Rightarrow> driver_state \<Rightarrow> (driver_state \<times> driver_action list) res" where
  "end_of_line env = (\<lambda>(md, m).
     if in_pos md = 0 then Inr ((md, m), [])
     else if IN_BUFF_SIZE \<le> in_pos md then Inl Undefined
     else let md = md\<lparr>in_buff := (in_buff md)[in_pos md := CHR 0x00], in_pos := 0\<rparr>
          in res_bind (amodem_send env (takeWhile (\<lambda>c. c \<noteq> CHR 0x00) (in_buff md)) m) (\<lambda>(answer, m, os).
               Inr (case answer of
                      None \<Rightarrow> ((md, m), map driver_action_of os)
                    | Some a \<Rightarrow> ((if a = ''> '' then md\<lparr>in_sms := True\<rparr> else md, m), map driver_action_of os @ [Line a, Line [CHR 0x0D]]))))"

definition append_char :: "char \<Rightarrow> ModemDriver \<Rightarrow> ModemDriver" where
  "append_char c md =
     md\<lparr>in_buff := (in_buff md)[in_pos md := c], in_pos := (if in_pos md + 1 = IN_BUFF_SIZE then 0 else in_pos md + 1)\<rparr>"

definition read_char :: "modem_env \<Rightarrow> driver_state \<Rightarrow> char \<Rightarrow> (driver_state \<times> driver_action list) res" where
  "read_char env = (\<lambda>(md, m) c.
     if in_sms md
     then if c \<noteq> CHR 0x1A then Inr ((append_char c md, m), [])
          else end_of_line env (md\<lparr>in_buff := (in_buff md)[in_pos md := c], in_pos := in_pos md + 1, in_sms := False\<rparr>, m)
     else if c = CHR 0x0A \<or> c = CHR 0x0D then end_of_line env (md, m)
     else Inr ((append_char c md, m), []))"

fun modem_driver_read :: "modem_env \<Rightarrow> driver_state \<Rightarrow> string \<Rightarrow> (driver_state \<times> driver_action list) res" where
  "modem_driver_read env s [] = Inr (s, [])"
| "modem_driver_read env s (c # src) =
     res_bind (read_char env s c) (\<lambda>(s, os). res_bind (modem_driver_read env s src) (\<lambda>(s, os'). Inr (s, os @ os')))"

definition modem_driver_init :: "int \<Rightarrow> nvram option \<Rightarrow> ModemDriver \<Rightarrow> AModemRec \<Rightarrow> driver_state res" where
  "modem_driver_init port file dm m =
     res_bind (amodem_create port True file m) (\<lambda>m. Inr (dm\<lparr>in_pos := 0, in_sms := False\<rparr>, m))"

section \<open>Lines\<close>

definition driver_ok :: "ModemDriver \<Rightarrow> bool" where
  "driver_ok md \<longleftrightarrow> length (in_buff md) = IN_BUFF_SIZE \<and> in_pos md < IN_BUFF_SIZE"

text \<open>What is in the buffer so far.\<close>

definition line_so_far :: "ModemDriver \<Rightarrow> string" where
  "line_so_far md = take (in_pos md) (in_buff md)"

lemma read_append: "modem_driver_read env s (xs @ ys) =
  res_bind (modem_driver_read env s xs) (\<lambda>(s, os). res_bind (modem_driver_read env s ys) (\<lambda>(s, os'). Inr (s, os @ os')))"
proof (induction xs arbitrary: s)
  case Nil
  then show ?case by (cases "modem_driver_read env s ys") auto
next
  case (Cons c xs)
  show ?case
  proof (cases "read_char env s c")
    case (Inr r)
    obtain s1 os where r: "r = (s1, os)" by (cases r)
    show ?thesis using Inr r Cons [of s1] by (cases "modem_driver_read env s1 xs") (auto simp: res_bind_def split: sum.splits)
  qed (simp add: res_bind_def)
qed

definition stores :: "bool \<Rightarrow> char \<Rightarrow> bool" where
  "stores sms c \<longleftrightarrow> (if sms then c \<noteq> CHR 0x1A else c \<noteq> CHR 0x0A \<and> c \<noteq> CHR 0x0D)"

lemma read_stored:
  assumes "driver_ok md" and "list_all (stores (in_sms md)) xs" and "length xs + in_pos md < IN_BUFF_SIZE"
  shows "\<exists>b. modem_driver_read env (md, m) xs = Inr ((md\<lparr>in_buff := b, in_pos := in_pos md + length xs\<rparr>, m), []) \<and>
    length b = IN_BUFF_SIZE \<and> take (in_pos md + length xs) b = line_so_far md @ xs"
  using assms
proof (induction xs arbitrary: md)
  case Nil
  then show ?case by (intro exI [of _ "in_buff md"]) (simp add: driver_ok_def line_so_far_def)
next
  case (Cons c xs)
  define md1 where "md1 = append_char c md"
  have p: "in_pos md1 = in_pos md + 1" "in_sms md1 = in_sms md" "length (in_buff md1) = IN_BUFF_SIZE"
    using Cons.prems by (simp_all add: md1_def append_char_def driver_ok_def)
  have q: "line_so_far md1 = line_so_far md @ [c]"
    using Cons.prems(1,3) by (simp add: line_so_far_def md1_def append_char_def driver_ok_def take_Suc_conv_app_nth)
  have "driver_ok md1" using p Cons.prems(3) by (simp add: driver_ok_def)
  from Cons.IH [OF this] obtain b where b: "modem_driver_read env (md1, m) xs = Inr ((md1\<lparr>in_buff := b, in_pos := in_pos md1 + length xs\<rparr>, m), [])"
    "length b = IN_BUFF_SIZE" "take (in_pos md1 + length xs) b = line_so_far md1 @ xs" using Cons.prems(2,3) p by auto
  have "read_char env (md, m) c = Inr ((md1, m), [])" using Cons.prems(2) by (auto simp: read_char_def stores_def md1_def split: if_splits)
  then show ?case using b p q by (intro exI [of _ b]) (simp add: md1_def append_char_def)
qed

text \<open>The characters that carry one line, and what the modem is given for it.\<close>

definition framed :: "bool \<Rightarrow> char \<Rightarrow> string \<Rightarrow> string" where
  "framed sms e line = line @ [if sms then CHR 0x1A else e]"

definition line_text :: "bool \<Rightarrow> string \<Rightarrow> string" where
  "line_text sms line = (if sms then line @ [CHR 0x1A] else line)"

definition answered :: "modem_action list \<Rightarrow> string option \<Rightarrow> driver_action list" where
  "answered os answer = map driver_action_of os @ (case answer of None \<Rightarrow> [] | Some a \<Rightarrow> [Line a, Line [CHR 0x0D]])"

definition line_ok :: "bool \<Rightarrow> string \<Rightarrow> bool" where
  "line_ok sms line \<longleftrightarrow> (sms \<or> line \<noteq> []) \<and> length line < IN_BUFF_SIZE - 1 \<and> list_all (\<lambda>c. c \<noteq> CHR 0x00 \<and> stores sms c) line"

definition idle :: "bool \<Rightarrow> ModemDriver \<Rightarrow> bool" where
  "idle sms md \<longleftrightarrow> driver_ok md \<and> in_pos md = 0 \<and> in_sms md = sms"

lemma takeWhile_line: "take n b = line \<Longrightarrow> n < length b \<Longrightarrow> CHR 0x00 \<notin> set line \<Longrightarrow> takeWhile (\<lambda>c. c \<noteq> CHR 0x00) (b[n := CHR 0x00]) = line"
proof -
  assume a: "take n b = line" "n < length b" "CHR 0x00 \<notin> set line"
  then have "b[n := CHR 0x00] = line @ CHR 0x00 # drop (Suc n) b" by (simp add: upd_conv_take_nth_drop)
  moreover have "takeWhile (\<lambda>c. c \<noteq> CHR 0x00) (line @ CHR 0x00 # drop (Suc n) b) = line @ takeWhile (\<lambda>c. c \<noteq> CHR 0x00) (CHR 0x00 # drop (Suc n) b)"
    using a(3) by (intro takeWhile_append2) auto
  ultimately show ?thesis by simp
qed

lemma end_of_line_sends:
  assumes "length (in_buff md) = IN_BUFF_SIZE" and "line_so_far md = line" and "0 < in_pos md" and "in_pos md < IN_BUFF_SIZE" and "CHR 0x00 \<notin> set line" and "\<not> in_sms md"
    and "amodem_send env line m = Inr (answer, m', os)"
  shows "\<exists>md'. end_of_line env (md, m) = Inr ((md', m'), answered os answer) \<and> idle (answer = Some ''> '') md'"
proof -
  have "takeWhile (\<lambda>c. c \<noteq> CHR 0x00) ((in_buff md)[in_pos md := CHR 0x00]) = line"
    using takeWhile_line [of "in_pos md" "in_buff md" line] assms by (simp add: line_so_far_def)
  then show ?thesis using assms
    by (cases answer) (auto simp: end_of_line_def answered_def idle_def driver_ok_def Let_def)
qed

lemma read_line:
  assumes "idle sms md" and "line_ok sms line" and "e = CHR 0x0A \<or> e = CHR 0x0D"
    and "amodem_send env (line_text sms line) m = Inr (answer, m', os)"
  shows "\<exists>md'. modem_driver_read env (md, m) (framed sms e line) = Inr ((md', m'), answered os answer) \<and> idle (answer = Some ''> '') md'"
proof -
  have i: "driver_ok md" "in_pos md = 0" "in_sms md = sms" using assms(1) by (simp_all add: idle_def)
  have l: "list_all (stores (in_sms md)) line" "length line < IN_BUFF_SIZE - 1" "sms \<or> line \<noteq> []" "CHR 0x00 \<notin> set line"
    using assms(2) i(3) by (auto simp: line_ok_def list_all_iff)
  obtain b where b: "modem_driver_read env (md, m) line = Inr ((md\<lparr>in_buff := b, in_pos := length line\<rparr>, m), [])" "length b = IN_BUFF_SIZE"
    "take (length line) b = line"
    using read_stored [OF i(1) l(1), of env m] l(2) i(2) by (fastforce simp: line_so_far_def IN_BUFF_SIZE_def)
  define md1 where "md1 = (if sms then md\<lparr>in_buff := b[length line := CHR 0x1A], in_pos := length line + 1, in_sms := False\<rparr>
    else md\<lparr>in_buff := b, in_pos := length line\<rparr>)"
  have "line_so_far md1 = line_text sms line" using b(2,3) l(2) by (simp add: line_so_far_def md1_def line_text_def IN_BUFF_SIZE_def take_Suc_conv_app_nth)
  moreover have "CHR 0x00 \<notin> set (line_text sms line)" using l(4) by (simp add: line_text_def)
  moreover have "length (in_buff md1) = IN_BUFF_SIZE" "0 < in_pos md1" "in_pos md1 < IN_BUFF_SIZE" "\<not> in_sms md1"
    using b(2) l(2,3) i(3) by (auto simp: md1_def)
  ultimately obtain md' where "end_of_line env (md1, m) = Inr ((md', m'), answered os answer)" "idle (answer = Some ''> '') md'"
    using end_of_line_sends [OF _ _ _ _ _ _ assms(4)] by blast
  moreover have "read_char env (md\<lparr>in_buff := b, in_pos := length line\<rparr>, m) (if sms then CHR 0x1A else e) = end_of_line env (md1, m)"
    using i(3) assms(3) by (auto simp: read_char_def md1_def)
  ultimately show ?thesis using b(1) by (auto simp: framed_def read_append res_bind_def)
qed

section \<open>A dialogue\<close>

text \<open>The lines of a guest, the characters that carry them, and the answers, each line depending on whether the answer before it was the prompt.\<close>

fun dialogue :: "modem_env \<Rightarrow> char \<Rightarrow> bool \<Rightarrow> string list \<Rightarrow> AModemRec \<Rightarrow> (string \<times> driver_action list \<times> bool \<times> AModemRec) res" where
  "dialogue env e sms [] m = Inr ([], [], sms, m)"
| "dialogue env e sms (l # ls) m =
     res_bind (amodem_send env (line_text sms l) m) (\<lambda>(answer, m, os).
       res_bind (dialogue env e (answer = Some ''> '') ls m) (\<lambda>(bytes, acts, sms', m).
         Inr (framed sms e l @ bytes, answered os answer @ acts, sms', m)))"

text \<open>The serial line hands the characters over in pieces.\<close>

fun read_pieces :: "modem_env \<Rightarrow> driver_state \<Rightarrow> string list \<Rightarrow> (driver_state \<times> driver_action list) res" where
  "read_pieces env s [] = Inr (s, [])"
| "read_pieces env s (p # ps) =
     res_bind (modem_driver_read env s p) (\<lambda>(s, os). res_bind (read_pieces env s ps) (\<lambda>(s, os'). Inr (s, os @ os')))"

lemma pieces_join: "read_pieces env s ps = modem_driver_read env s (concat ps)"
  by (induction ps arbitrary: s) (simp_all add: read_append res_bind_def split: sum.splits)

lemma dialogue_read:
  assumes "dialogue env e sms ls m = Inr (bytes, acts, sms', m')" and "idle sms md" and "e = CHR 0x0A \<or> e = CHR 0x0D"
    and "\<forall>l \<in> set ls. line_ok True l \<and> line_ok False l"
  shows "\<exists>md'. modem_driver_read env (md, m) bytes = Inr ((md', m'), acts) \<and> idle sms' md'"
  using assms
proof (induction ls arbitrary: sms m md bytes acts)
  case (Cons l ls)
  from Cons.prems(1) obtain answer m1 os bytes1 acts1 where s: "amodem_send env (line_text sms l) m = Inr (answer, m1, os)"
    "dialogue env e (answer = Some ''> '') ls m1 = Inr (bytes1, acts1, sms', m')" "bytes = framed sms e l @ bytes1" "acts = answered os answer @ acts1"
    by (auto simp: res_bind_eq_Inr)
  have "line_ok sms l" using Cons.prems(4) by (cases sms) auto
  from read_line [OF Cons.prems(2) this Cons.prems(3) s(1)] obtain md1 where
    r: "modem_driver_read env (md, m) (framed sms e l) = Inr ((md1, m1), answered os answer)" "idle (answer = Some ''> '') md1" by blast
  from Cons.IH [OF s(2) r(2) Cons.prems(3)] Cons.prems(4) obtain md' where
    "modem_driver_read env (md1, m1) bytes1 = Inr ((md', m'), acts1)" "idle sms' md'" by auto
  then show ?case using r(1) s(3,4) by (auto simp: read_append)
qed auto

text \<open>The driver delivers whole lines. Whatever pieces the characters of a guest arrive in, the modem is given exactly the lines of the guest, in order
  and one by one, and each answer is written back, followed by a carriage return, before the next line is handled; the line after the prompt is
  taken up to the escape character, and the driver is ready for the next line at the end.\<close>

theorem driver_lines:
  assumes "dialogue env e sms ls m = Inr (concat pieces, acts, sms', m')" and "idle sms md" and "e = CHR 0x0A \<or> e = CHR 0x0D"
    and "\<forall>l \<in> set ls. line_ok True l \<and> line_ok False l"
  shows "\<exists>md'. read_pieces env (md, m) pieces = Inr ((md', m'), acts) \<and> idle sms' md'"
  using dialogue_read [OF assms] by (simp add: pieces_join)

section \<open>A message to another emulator\<close>

definition hex_text :: "SmsPDURec \<Rightarrow> string" where
  "hex_text pdu = map byte_char (gsm_hex_from_bytes (pdu_bytes pdu))"

lemma digit_bytes: "\<forall>c \<in> set (show_nat n). is_digit (char_byte c)"
proof (induction n rule: show_nat.induct)
  case (1 n)
  have "n mod 10 < 10" by simp
  then have "unat (word_of_nat (48 + n mod 10) :: u8) = 48 + n mod 10" by (subst unat_of_nat) simp
  then have "is_digit (char_byte (char_of (48 + n mod 10)))" by (simp add: is_digit_def char_byte_def word_le_nat_alt)
  then show ?case using 1 by (subst show_nat.simps) (auto simp: mod_less)
qed

definition emulator_number :: "int \<Rightarrow> string" where
  "emulator_number port = PHONE_PREFIX @ show_dec port"

lemma emulator_digits:
  assumes "5554 \<le> p" and "p < 5586"
  shows "\<forall>c \<in> set (map char_byte (emulator_number p)). is_digit c" and "length (emulator_number p) = 11"
    and "take 11 (emulator_number p) = emulator_number p"
proof -
  have "\<forall>c \<in> set (map char_byte PHONE_PREFIX). is_digit c" by code_simp
  moreover have "\<forall>c \<in> set (map char_byte (show_dec p)). is_digit c" using digit_bytes assms(1) by (simp add: show_dec_def)
  ultimately show "\<forall>c \<in> set (map char_byte (emulator_number p)). is_digit c" by (auto simp: emulator_number_def)
  show "length (emulator_number p) = 11" using show_port(1) [OF assms] by (simp add: emulator_number_def PHONE_PREFIX_def)
  then show "take 11 (emulator_number p) = emulator_number p" by simp
qed

lemma hex_whole: "2 * length (pdu_bytes pdu) \<le> n \<Longrightarrow> smspdu_to_hex pdu n = (2 * length (pdu_bytes pdu), gsm_hex_from_bytes (pdu_bytes pdu))"
  by (simp add: smspdu_to_hex_def Let_def min_def)

lemma set_sms_pdu:
  assumes "length buff < 128" and "\<forall>n. re_alloc env n"
  shows "remote_call_set_sms_pdu env buff pdu = Some (buff @ ''sms pdu '' @ hex_text pdu @ [CHR 0x0A])"
proof -
  have f: "fst (smspdu_to_hex pdu 0) = 2 * length (pdu_bytes pdu)" by (simp add: smspdu_to_hex_def)
  show ?thesis unfolding remote_call_set_sms_pdu_def Let_def f using assms by (auto simp: hex_whole hex_text_def)
qed

lemma units_sent:
  assumes "even p" "5554 \<le> p" "p < 5586" "even q" "5554 \<le> q" "q < 5586" "p \<noteq> q" and "\<forall>n. re_alloc env n" and "re_connect env q"
    and "length (auth_command env) < 128"
  shows "send_units env (emulator_number q) p us = map (\<lambda>u. Remote q (auth_command env @ ''sms pdu '' @ hex_text u @ [CHR 0x0A])) us"
proof -
  have "remote_call_generic env REMOTE_CALL_SMS (emulator_number q) p = Some (q, auth_command env)"
    using number_port [OF assms(1-3)] number_port [OF assms(4-6)] show_port [OF assms(5,6)] assms
    by (auto simp: remote_call_generic_def remote_call_alloc_def call_command_def remote_number_string_to_port_def emulator_number_def PHONE_PREFIX_def Let_def)
  then show ?thesis by (induction us) (simp_all add: remote_call_sms_def set_sms_pdu [OF assms(10,8)])
qed

lemma number_read:
  assumes "\<forall>c \<in> set ds. is_digit c" and "length ds = 11"
  shows "sms_address_to_str (a\<lparr>ad_len := 11, ad_toa := 0x81, ad_data := pack_digits ds @ rest\<rparr>) 16 = Inr ds"
  using to_str_pack [OF assms(1), of "[]" 16] assms(2) by (simp add: sms_address_to_str_def Let_def SMS_ADDRESS_MAX_SIZE_def)

lemma full_emulator_number:
  assumes "5554 \<le> q" and "q < 5586"
  shows "takeWhile (\<lambda>c. c \<noteq> CHR 0x00) (full_number (emulator_number q)) = emulator_number q"
proof -
  have z: "\<not> is_digit (char_byte (CHR 0x00))" by code_simp
  have "\<forall>c \<in> set (emulator_number q). c \<noteq> CHR 0x00" using emulator_digits(1) [OF assms] z by auto
  then have "takeWhile (\<lambda>c. c \<noteq> CHR 0x00) (emulator_number q) = emulator_number q" by (simp add: takeWhile_eq_all_conv)
  then show ?thesis using emulator_digits(2) [OF assms] by (simp add: full_number_def)
qed

lemma hex_text_plain: "list_all (\<lambda>c. c \<noteq> CHR 0x00 \<and> c \<noteq> CHR 0x0A \<and> c \<noteq> CHR 0x0D \<and> c \<noteq> CHR 0x1A) (hex_text pdu)"
proof -
  have d: "list_all (\<lambda>d. byte_char d \<noteq> CHR 0x00 \<and> byte_char d \<noteq> CHR 0x0A \<and> byte_char d \<noteq> CHR 0x0D \<and> byte_char d \<noteq> CHR 0x1A) hexdigits" by code_simp
  have n: "unat (v AND 15 :: u8) < length hexdigits" for v
    using word_and_le1 [of v 15] by (simp add: hexdigits_def word_le_nat_alt)
  have "list_all (\<lambda>d. byte_char d \<noteq> CHR 0x00 \<and> byte_char d \<noteq> CHR 0x0A \<and> byte_char d \<noteq> CHR 0x0D \<and> byte_char d \<noteq> CHR 0x1A) (gsm_hex_from_bytes bs)" for bs
    using d n by (induction bs) (simp_all add: gsm_hex_from_bytes_def gsm_hex_from_byte_def list_all_iff)
  then show ?thesis by (simp add: hex_text_def list_all_iff)
qed

lemma create_from_hex_text: "\<forall>n. alloc n \<Longrightarrow> pdu_bytes pdu = 0 # bs \<Longrightarrow> pdu_tpdu pdu = 1 \<Longrightarrow>
  smspdu_create_from_hex alloc (map char_byte (hex_text pdu)) = Some pdu"
  by (cases pdu) (simp add: smspdu_create_from_hex_def hex_text_def hex_roundtrip sms_skip_sc_address_def o_def)

text \<open>The message a phone submits for another emulator: its number in packed digits and a text of the basic alphabet.\<close>

definition message_to :: "int \<Rightarrow> u8 \<Rightarrow> u8 \<Rightarrow> u32 list \<Rightarrow> SmsPDURec" where
  "message_to port mti ref cs = submit_unit mti ref 11 0x81 (pack_digits (map char_byte (emulator_number port))) 0 cs"

lemma message_sent:
  fixes mti ref :: u8 and cs :: "u32 list"
  assumes p: "even p" "5554 \<le> p" "p < 5586" and q: "even q" "5554 \<le> q" "q < 5586" and "p \<noteq> q"
    and a: "\<forall>n. re_alloc (me_remote env) n" and "re_connect (me_remote env) q" and "length (auth_command (me_remote env)) < 128"
    and "length (ad_data (me_address env)) = 16" and "7 \<le> length (me_stamp env)"
    and "base_port m = p" and "\<forall>rec. sms_receiver m = Some rec \<longrightarrow> rc_fragments rec = []"
    and "\<forall>c \<in> set cs. gsm7_plain c" and "length cs \<le> 160" and "deliver_plan (concat (map utf8_write cs)) = (use_gsm7, block, leftover, n)" and "plain_submit mti"
  shows "\<exists>sender rec'. sms_address_to_str sender 16 = Inr (map char_byte (emulator_number p)) \<and>
    handleSendSMSText env (hex_text (message_to q mti ref cs) @ [CHR 0x1A]) m =
      Inr (Literal (''+CMGS: 0'' @ [CHR 0x0D] @ ''OK'' @ [CHR 0x0D]), m\<lparr>sms_receiver := Some rec', sms_ref_num := sms_ref_num m + 1\<rparr>,
        map (\<lambda>i. Remote q (auth_command (me_remote env) @ ''sms pdu '' @ hex_text \<lparr>pdu_bytes = deliver_bytes
          (deliver_parts (concat (map utf8_write cs)) use_gsm7 block leftover n n ! i) use_gsm7 sender (me_stamp env) (unat (sms_ref_num m)) n i, pdu_tpdu = 1\<rparr> @ [CHR 0x0A]))
          [0..<n]) \<and> rc_fragments rec' = [] \<and>
    concat (deliver_parts (concat (map utf8_write cs)) use_gsm7 block leftover n n) = concat (map utf8_write cs)"
proof -
  define ds where "ds = map char_byte (emulator_number q)"
  define unit where "unit = message_to q mti ref cs"
  define rec where "rec = (case sms_receiver m of Some rec \<Rightarrow> rec | None \<Rightarrow> sms_receiver_create)"
  define sender where "sender = snd (sms_address_from_str (me_address env) (map char_byte (emulator_number p)))"
  define env' where "env' = me_remote env"
  have ds: "\<forall>c \<in> set ds. is_digit c" "length ds = 11" using emulator_digits [OF q(2,3)] by (simp_all add: ds_def)
  have rec: "rc_fragments rec = []" "receiver_ok rec"
    using assms(14) by (auto simp: rec_def sms_receiver_create_def receiver_ok_def split: option.splits)
  have l: "unat (11 :: u8) = 11" by simp
  have d: "length (pack_digits ds) = (unat (11 :: u8) + 1) div 2" using ds(2) by simp
  have c: "coding_scheme 0 = SMS_CODING_SCHEME_GSM7" by code_simp
  have ps: "filter is_digit (map char_byte (emulator_number p)) = map char_byte (emulator_number p)"
    using emulator_digits(1) [OF p(2,3)] by (simp add: filter_id_conv)
  have hd: "hd (map char_byte (emulator_number p)) \<noteq> 0x2b" by (simp add: emulator_number_def PHONE_PREFIX_def char_byte_def)
  note fs = from_str_pack [OF ps _ _ refl, of False "me_address env"]
  have s: "sender = \<lparr>ad_len = 11, ad_toa = 0x81, ad_data = pack_digits (map char_byte (emulator_number p)) @ replicate 10 0, \<dots> = SmsAddressRec.more (me_address env)\<rparr>"
    using fs emulator_digits(2) [OF p(2,3)] hd by (cases "emulator_number p = []") (simp_all add: sender_def)
  have sd: "address_bytes sender \<le> length (ad_data sender)" "sms_address_to_str sender 16 = Inr (map char_byte (emulator_number p))"
    using number_read [OF emulator_digits(1) [OF p(2,3)], where a = sender and rest = "replicate 10 0"] emulator_digits(2) [OF p(2,3)] by (simp_all add: s address_bytes_def)
  have find: "sms_receiver_find_p (rc_fragments rec) ((me_address env)\<lparr>ad_len := 11, ad_toa := 0x81,
      ad_data := pack_digits ds @ drop (length (pack_digits ds)) (ad_data (me_address env))\<rparr>) ref = Inr (length (rc_fragments rec))"
    by (simp add: rec(1))
  from submit_delivers [OF rec(2) a d _ _ assms(11) c assms(15,16) find assms(17) sd(1) assms(12,18), of "sms_ref_num m"]
  obtain rec' where r: "sms_receiver_add_submit_pdu (re_alloc env') (me_address env) rec unit = Inr (int (rc_last rec + 1), rec')"
    "sms_receiver_create_deliver (re_alloc env') rec' (rc_last rec + 1) sender (me_stamp env) (sms_ref_num m) =
       Inr (Some (map (\<lambda>i. \<lparr>pdu_bytes = deliver_bytes (deliver_parts (concat (map utf8_write cs)) use_gsm7 block leftover n n ! i) use_gsm7 sender (me_stamp env)
          (unat (sms_ref_num m)) n i, pdu_tpdu = 1\<rparr>) [0..<n]), rec\<lparr>rc_last := rc_last rec + 1\<rparr>, sms_ref_num m + 1)"
    "concat (deliver_parts (concat (map utf8_write cs)) use_gsm7 block leftover n n) = concat (map utf8_write cs)"
    by (auto simp: unit_def message_to_def ds_def env'_def)
  note us = units_sent [OF p q \<open>p \<noteq> q\<close> assms(8-10)]
  have port: "remote_number_string_to_port (emulator_number q) = q"
    using number_port [OF q] show_port [OF q(2,3)] q by (auto simp: remote_number_string_to_port_def emulator_number_def PHONE_PREFIX_def Let_def)
  have adr: "smspdu_get_receiver_address unit (me_address env) = Some ((me_address env)\<lparr>ad_len := 11, ad_toa := 0x81,
      ad_data := pack_digits ds @ drop (length (pack_digits ds)) (ad_data (me_address env))\<rparr>)"
    using submit_fields(1) [OF d _ _ assms(11,18)] by (simp add: unit_def message_to_def ds_def)
  have hex: "smspdu_create_from_hex (re_alloc env') (map char_byte (hex_text unit)) = Some unit"
    using a by (intro create_from_hex_text) (simp_all add: unit_def message_to_def submit_unit_def env'_def)
  have num: "map byte_char ds = emulator_number q" by (simp add: ds_def o_def)
  have fwd: "forward_sms env (emulator_number q) (rc_last rec + 1) rec' (m\<lparr>sms_receiver := Some rec'\<rparr>) =
    Inr (m\<lparr>sms_receiver := Some (rec\<lparr>rc_last := rc_last rec + 1\<rparr>), sms_ref_num := sms_ref_num m + 1\<rparr>,
      send_units env' (emulator_number q) p (map (\<lambda>i. \<lparr>pdu_bytes = deliver_bytes (deliver_parts (concat (map utf8_write cs)) use_gsm7 block leftover n n ! i)
        use_gsm7 sender (me_stamp env) (unat (sms_ref_num m)) n i, pdu_tpdu = 1\<rparr>) [0..<n]))"
    using r(2) assms(13) emulator_digits(3) [OF p(2,3)] by (simp add: forward_sms_def sender_def env'_def emulator_number_def Let_def)
  have "handleSendSMSText env (hex_text unit @ [CHR 0x1A]) m =
    Inr (Literal (''+CMGS: 0'' @ [CHR 0x0D] @ ''OK'' @ [CHR 0x0D]), m\<lparr>sms_receiver := Some (rec\<lparr>rc_last := rc_last rec + 1\<rparr>), sms_ref_num := sms_ref_num m + 1\<rparr>,
      send_units env' (emulator_number q) p (map (\<lambda>i. \<lparr>pdu_bytes = deliver_bytes (deliver_parts (concat (map utf8_write cs)) use_gsm7 block leftover n n ! i)
        use_gsm7 sender (me_stamp env) (unat (sms_ref_num m)) n i, pdu_tpdu = 1\<rparr>) [0..<n]))"
    unfolding handleSendSMSText_def Let_def
    using hex adr r(1) fwd number_read [OF ds] full_emulator_number [OF q(2,3)] port q(2) ds(2) num
    by (simp add: env'_def [symmetric] rec_def [symmetric] nat_add_distrib)
  then show ?thesis using sd(2) r(3) rec(1) us
    by (intro exI [of _ sender] exI [of _ "rec\<lparr>rc_last := rc_last rec + 1\<rparr>"]) (simp add: unit_def env'_def o_def)
qed

lemma message_line:
  assumes "\<forall>c \<in> set cs. gsm7_plain c" and "length cs \<le> 160" and "5554 \<le> q" and "q < 5586"
  shows "line_ok True (hex_text (message_to q mti ref cs))"
proof -
  have "length (fst (utf8_to_gsm7 (concat (map utf8_write cs)) 0 0)) \<le> 140"
    using gsm7_text(1) [OF assms(1)] assms(2) by (simp add: utf8_to_gsm7_length)
  moreover have "length (gsm_hex_from_bytes bs) = 2 * length bs" for bs by (induction bs) (simp_all add: gsm_hex_from_bytes_def gsm_hex_from_byte_def)
  ultimately have "length (hex_text (message_to q mti ref cs)) < IN_BUFF_SIZE - 1"
    using emulator_digits(2) [OF assms(3,4)] by (simp add: hex_text_def message_to_def submit_unit_def IN_BUFF_SIZE_def)
  then show ?thesis using hex_text_plain [of "message_to q mti ref cs"] by (auto simp: line_ok_def stores_def list_all_iff)
qed

lemma prompt:
  assumes "\<not> wait_sms m"
  shows "amodem_send env (''AT+CMGS='' @ l) m = Inr (Some ''> '', m\<lparr>wait_sms := True\<rparr>, [])"
proof -
  have "find (\<lambda>(scmd, _). command_matches scmd (''+CMGS='' @ l)) (sDefaultResponses env) = Some (''!+CMGS='', Handled (\<lambda>_. handleSendSMS))"
    by (simp add: table_defs)
  from send_command [OF assms this] show ?thesis by (simp add: handleSendSMS_def finish_reply_def)
qed

lemma text_answer:
  "wait_sms m \<Longrightarrow> handleSendSMSText env cmd (m\<lparr>wait_sms := False\<rparr>) = Inr (Literal s, m', os) \<Longrightarrow> amodem_send env cmd m = Inr (Some s, m', os)"
  by (simp add: amodem_send_def)

text \<open>C14: A text message reaches the other emulator. Two emulators have different console ports among the 16 even ones from 5554 to 5584; the other one can be
  reached, memory is available, and the authentication token, if any, leaves room for the command. The modem waits for a command and has no incomplete message. The guest
  announces a message with \<open>AT+CMGS=\<close> and, after the carriage return, writes the unit in hexadecimal digits and the escape character: a unit without a service
  centre address, a validity period and a header, for the number of the other emulator, with at most 160 characters of the basic alphabet in 7-bit coding. In whatever pieces these characters arrive, the
  guest gets the prompt and the confirmation, and between them the console of the other emulator is sent one command per part, each with a unit that gives
  this emulator's own number as the sender; the parts join to exactly the text, and modem and driver are ready for commands again.\<close>

theorem sms_sent:
  fixes mti ref :: u8 and cs :: "u32 list"
  assumes "even p" "5554 \<le> p" "p < 5586" and "even q" "5554 \<le> q" "q < 5586" and "p \<noteq> q"
    and "\<forall>n. re_alloc (me_remote env) n" and "re_connect (me_remote env) q" and "length (auth_command (me_remote env)) < 128"
    and "length (ad_data (me_address env)) = 16" and "7 \<le> length (me_stamp env)"
    and "base_port m = p" and "\<forall>rec. sms_receiver m = Some rec \<longrightarrow> rc_fragments rec = []"
    and "\<forall>c \<in> set cs. gsm7_plain c" and "length cs \<le> 160" and "deliver_plan (concat (map utf8_write cs)) = (use_gsm7, block, leftover, n)"
    and "plain_submit mti"
    and "idle False md" and "\<not> wait_sms m" and "line_ok False (''AT+CMGS='' @ l)"
    and "concat pieces = ''AT+CMGS='' @ l @ [CHR 0x0D] @ hex_text (message_to q mti ref cs) @ [CHR 0x1A]"
  shows "\<exists>md' m' sender. sms_address_to_str sender 16 = Inr (map char_byte (emulator_number p)) \<and>
    read_pieces env (md, m) pieces = Inr ((md', m'), [Line ''> '', Line [CHR 0x0D]] @
      map (\<lambda>i. Peer (Remote q (auth_command (me_remote env) @ ''sms pdu '' @ hex_text \<lparr>pdu_bytes = deliver_bytes
          (deliver_parts (concat (map utf8_write cs)) use_gsm7 block leftover n n ! i) use_gsm7 sender (me_stamp env) (unat (sms_ref_num m)) n i, pdu_tpdu = 1\<rparr> @ [CHR 0x0A])))
        [0..<n] @ [Line (''+CMGS: 0'' @ [CHR 0x0D] @ ''OK'' @ [CHR 0x0D]), Line [CHR 0x0D]]) \<and>
    concat (deliver_parts (concat (map utf8_write cs)) use_gsm7 block leftover n n) = concat (map utf8_write cs) \<and> idle False md' \<and> \<not> wait_sms m'"
proof -
  have m: "base_port (m\<lparr>wait_sms := False\<rparr>) = p" "\<forall>rec. sms_receiver (m\<lparr>wait_sms := False\<rparr>) = Some rec \<longrightarrow> rc_fragments rec = []" using assms(13,14) by simp_all
  note sent = message_sent [OF assms(1-12) m assms(15-18), of ref]
  have r: "sms_ref_num (m\<lparr>wait_sms := False\<rparr>) = sms_ref_num m" by simp
  from sent [unfolded r] obtain sender rec' where
    s: "sms_address_to_str sender 16 = Inr (map char_byte (emulator_number p))"
      "handleSendSMSText env (hex_text (message_to q mti ref cs) @ [CHR 0x1A]) (m\<lparr>wait_sms := False\<rparr>) =
        Inr (Literal (''+CMGS: 0'' @ [CHR 0x0D] @ ''OK'' @ [CHR 0x0D]), m\<lparr>wait_sms := False, sms_receiver := Some rec', sms_ref_num := sms_ref_num m + 1\<rparr>,
        map (\<lambda>i. Remote q (auth_command (me_remote env) @ ''sms pdu '' @ hex_text \<lparr>pdu_bytes = deliver_bytes
          (deliver_parts (concat (map utf8_write cs)) use_gsm7 block leftover n n ! i) use_gsm7 sender (me_stamp env) (unat (sms_ref_num m)) n i, pdu_tpdu = 1\<rparr> @ [CHR 0x0A]))
          [0..<n])"
      "concat (deliver_parts (concat (map utf8_write cs)) use_gsm7 block leftover n n) = concat (map utf8_write cs)"
    by blast
  have e: "CHR 0x0D = CHR 0x0A \<or> CHR 0x0D = CHR 0x0D" by simp
  define acts where "acts = map (\<lambda>i. Remote q (auth_command (me_remote env) @ ''sms pdu '' @ hex_text \<lparr>pdu_bytes = deliver_bytes
          (deliver_parts (concat (map utf8_write cs)) use_gsm7 block leftover n n ! i) use_gsm7 sender (me_stamp env) (unat (sms_ref_num m)) n i, pdu_tpdu = 1\<rparr> @ [CHR 0x0A]))
          [0..<n]"
  define unit where "unit = hex_text (message_to q mti ref cs)"
  have s1: "amodem_send env (line_text False (''AT+CMGS='' @ l)) m = Inr (Some ''> '', m\<lparr>wait_sms := True\<rparr>, [])"
    using prompt [OF assms(20)] by (simp add: line_text_def)
  from read_line [OF assms(19,21) e s1] obtain md1 where
    r1: "modem_driver_read env (md, m) (framed False (CHR 0x0D) (''AT+CMGS='' @ l)) = Inr ((md1, m\<lparr>wait_sms := True\<rparr>), answered [] (Some ''> ''))" "idle True md1"
    by auto
  have s2: "amodem_send env (line_text True unit) (m\<lparr>wait_sms := True\<rparr>) = Inr (Some (''+CMGS: 0'' @ [CHR 0x0D] @ ''OK'' @ [CHR 0x0D]),
    m\<lparr>wait_sms := False, sms_receiver := Some rec', sms_ref_num := sms_ref_num m + 1\<rparr>, acts)"
    using text_answer [of "m\<lparr>wait_sms := True\<rparr>"] s(2) by (simp add: line_text_def unit_def acts_def)
  from read_line [OF r1(2) message_line [OF assms(15,16,5,6), of mti ref, folded unit_def] e s2] obtain md' where
    r2: "modem_driver_read env (md1, m\<lparr>wait_sms := True\<rparr>) (framed True (CHR 0x0D) unit) =
      Inr ((md', m\<lparr>wait_sms := False, sms_receiver := Some rec', sms_ref_num := sms_ref_num m + 1\<rparr>), answered acts (Some (''+CMGS: 0'' @ [CHR 0x0D] @ ''OK'' @ [CHR 0x0D])))"
      "idle False md'" by auto
  have c: "concat pieces = framed False (CHR 0x0D) (''AT+CMGS='' @ l) @ framed True (CHR 0x0D) unit" using assms(22) by (simp add: framed_def unit_def)
  have a: "map driver_action_of acts = map (\<lambda>i. Peer (Remote q (auth_command (me_remote env) @ ''sms pdu '' @ hex_text \<lparr>pdu_bytes = deliver_bytes
          (deliver_parts (concat (map utf8_write cs)) use_gsm7 block leftover n n ! i) use_gsm7 sender (me_stamp env) (unat (sms_ref_num m)) n i, pdu_tpdu = 1\<rparr> @ [CHR 0x0A])))
        [0..<n]" by (simp add: acts_def driver_action_of_def)
  have "read_pieces env (md, m) pieces = Inr ((md', m\<lparr>wait_sms := False, sms_receiver := Some rec', sms_ref_num := sms_ref_num m + 1\<rparr>),
    answered [] (Some ''> '') @ answered acts (Some (''+CMGS: 0'' @ [CHR 0x0D] @ ''OK'' @ [CHR 0x0D])))"
    using r1(1) r2(1) by (simp add: pieces_join c read_append del: modem_driver_read.simps)
  then show ?thesis using s(1,3) r2(2)
    by (intro exI [of _ md'] exI [of _ "m\<lparr>wait_sms := False, sms_receiver := Some rec', sms_ref_num := sms_ref_num m + 1\<rparr>"] exI [of _ sender] conjI)
      (simp_all add: answered_def a)
qed

theorem sms_sent_witness:
  "\<exists>md' m' acts. read_pieces sample_modem_env (\<lparr>in_buff = replicate 1024 (CHR 0x00), in_pos = 0, in_sms = False\<rparr>, blank_modem\<lparr>base_port := 5554\<rparr>)
    [''AT+CM'', ''GS=18'', [CHR 0x0D] @ hex_text (message_to 5556 1 7 [0x48, 0x69]) @ [CHR 0x1A]] = Inr ((md', m'), acts) \<and> length acts = 5"
proof -
  let ?md = "\<lparr>in_buff = replicate 1024 (CHR 0x00), in_pos = 0, in_sms = False\<rparr>" and ?m = "blank_modem\<lparr>base_port := 5554\<rparr>"
  have p: "deliver_plan (concat (map utf8_write [0x48, 0x69])) = (True, 154, 2, 1)" by code_simp
  have g: "\<forall>c \<in> set [0x48, 0x69 :: u32]. gsm7_plain c"
    by (simp add: gsm7_plain_def unichar_to_gsm7_def find_code_def gsm7bits_to_unicode_def upt_conv_Cons)
  have port: "even (5554 :: int)" "5554 \<le> (5554 :: int)" "(5554 :: int) < 5586" "even (5556 :: int)" "5554 \<le> (5556 :: int)" "(5556 :: int) < 5586" "(5554 :: int) \<noteq> 5556"
    by simp_all
  have h: "\<forall>n. re_alloc (me_remote sample_modem_env) n" "re_connect (me_remote sample_modem_env) 5556" "length (auth_command (me_remote sample_modem_env)) < 128"
    "length (ad_data (me_address sample_modem_env)) = 16" "7 \<le> length (me_stamp sample_modem_env)" "base_port ?m = 5554"
    "\<forall>rec. sms_receiver ?m = Some rec \<longrightarrow> rc_fragments rec = []" "length [0x48, 0x69 :: u32] \<le> 160" "plain_submit 1" "idle False ?md" "\<not> wait_sms ?m"
    "line_ok False (''AT+CMGS='' @ ''18'')"
    by (simp_all add: sample_modem_env_def sample_env_def auth_command_def blank_modem_def AModemRec.defs modem_calls.defs initial_calls_def plain_submit_def idle_def driver_ok_def IN_BUFF_SIZE_def
      line_ok_def stores_def)
  have c: "concat [''AT+CM'', ''GS=18'', [CHR 0x0D] @ hex_text (message_to 5556 1 7 [0x48, 0x69]) @ [CHR 0x1A]] =
    ''AT+CMGS='' @ ''18'' @ [CHR 0x0D] @ hex_text (message_to 5556 1 7 [0x48, 0x69]) @ [CHR 0x1A]" by simp
  from sms_sent [OF port h(1-7) g h(8) p h(9-12) c] show ?thesis by (elim exE conjE) (intro exI conjI, assumption, simp)
qed

end
