(* ===== verification/Qemu_Timer.thy ===== *)
theory Qemu_Timer
  imports Goldfish_Timer "HOL-Library.Sublist"
begin

text \<open>
  Timers of the emulator, \<open>qemu-timer.c\<close>: each clock has lists of active timers, kept in the order of their expiry times; the main loop runs the
  callbacks of the expired timers of a list and sleeps until the next deadline. Timers, lists and callbacks are named by numbers, the
  addresses of the code; the linked list of active timers is the list of their numbers. Times are 64-bit signed integers, written as integers
  with the overflows made explicit. What the host clocks show is a parameter; notifications, waits and the warp of the virtual clock are
  returned as actions in their order. Callbacks do not replace the main lists, which are set once by \<open>init_clocks\<close>. A notifier is removed from the list
  it is in, whatever clock the caller names.
\<close>

section \<open>State\<close>

datatype QEMUClockType = QEMU_CLOCK_REALTIME | QEMU_CLOCK_VIRTUAL | QEMU_CLOCK_HOST

record QEMUTimer =
  qt_expire_time :: int
  qt_timer_list :: nat
  qt_cb :: nat
  qt_scale :: int

record QEMUTimerList =
  tl_clock :: QEMUClockType
  tl_active_timers :: "nat list"
  tl_notify_cb :: "nat option"
  tl_timers_done :: bool

record QEMUClock =
  ck_timerlists :: "nat list"
  ck_reset_notifiers :: "nat list"
  ck_last :: int
  ck_enabled :: bool

record timers =
  timer_at :: "nat \<Rightarrow> QEMUTimer"
  list_at :: "nat \<Rightarrow> QEMUTimerList"
  qemu_clocks :: "QEMUClockType \<Rightarrow> QEMUClock"
  main_loop_tlg :: "QEMUClockType \<Rightarrow> nat"

record host_clocks =
  use_icount :: bool
  get_clock :: int
  cpu_get_icount :: int
  cpu_get_clock :: int
  get_clock_realtime :: int

datatype timer_action = Call_Notify nat | Notify_Event | Warp QEMUClockType | Wait_Done nat | Reset_Notify nat int

definition INT64_MAX :: int where "INT64_MAX = 2 ^ 63 - 1"
definition INT64_MIN :: int where "INT64_MIN = - (2 ^ 63)"
definition SCALE_MS :: int where "SCALE_MS = 1000000"
definition SCALE_US :: int where "SCALE_US = 1000"
definition SCALE_NS :: int where "SCALE_NS = 1"

definition int64 :: "int \<Rightarrow> int res" where
  "int64 x = (if INT64_MIN \<le> x \<and> x \<le> INT64_MAX then Inr x else Inl Undefined)"

definition all_clocks :: "QEMUClockType list" where
  "all_clocks = [QEMU_CLOCK_REALTIME, QEMU_CLOCK_VIRTUAL, QEMU_CLOCK_HOST]"

definition active :: "timers \<Rightarrow> nat \<Rightarrow> nat list" where
  "active s l = tl_active_timers (list_at s l)"

definition expire :: "timers \<Rightarrow> nat \<Rightarrow> int" where
  "expire s i = qt_expire_time (timer_at s i)"

definition set_active :: "nat \<Rightarrow> nat list \<Rightarrow> timers \<Rightarrow> timers" where
  "set_active l xs s = s\<lparr>list_at := (list_at s)(l := (list_at s l)\<lparr>tl_active_timers := xs\<rparr>)\<rparr>"

definition set_expire :: "nat \<Rightarrow> int \<Rightarrow> timers \<Rightarrow> timers" where
  "set_expire i t s = s\<lparr>timer_at := (timer_at s)(i := (timer_at s i)\<lparr>qt_expire_time := t\<rparr>)\<rparr>"

section \<open>Clocks and lists\<close>

definition timer_expired_ns :: "timers \<Rightarrow> nat option \<Rightarrow> int \<Rightarrow> bool" where
  "timer_expired_ns s head current_time = (case head of None \<Rightarrow> False | Some i \<Rightarrow> expire s i \<le> current_time)"

definition head_timer :: "timers \<Rightarrow> nat \<Rightarrow> nat option" where
  "head_timer s l = (case active s l of [] \<Rightarrow> None | i # _ \<Rightarrow> Some i)"

definition timerlist_new :: "nat \<Rightarrow> QEMUClockType \<Rightarrow> nat option \<Rightarrow> timers \<Rightarrow> timers" where
  "timerlist_new l type cb s =
     s\<lparr>list_at := (list_at s)(l := \<lparr>tl_clock = type, tl_active_timers = [], tl_notify_cb = cb, tl_timers_done = False\<rparr>),
       qemu_clocks := (qemu_clocks s)(type := (qemu_clocks s type)\<lparr>ck_timerlists := l # ck_timerlists (qemu_clocks s type)\<rparr>)\<rparr>"

definition timerlist_has_timers :: "timers \<Rightarrow> nat \<Rightarrow> bool" where
  "timerlist_has_timers s l \<longleftrightarrow> active s l \<noteq> []"

definition timerlist_free :: "nat \<Rightarrow> timers \<Rightarrow> timers res" where
  "timerlist_free l s =
     (if timerlist_has_timers s l then Inl Assert_Failure
      else let type = tl_clock (list_at s l)
           in Inr (s\<lparr>qemu_clocks := (qemu_clocks s)(type := (qemu_clocks s type)\<lparr>ck_timerlists := remove1 l (ck_timerlists (qemu_clocks s type))\<rparr>)\<rparr>))"

definition qemu_clock_init :: "nat \<Rightarrow> QEMUClockType \<Rightarrow> timers \<Rightarrow> timers" where
  "qemu_clock_init l type s =
     (let s1 = s\<lparr>qemu_clocks := (qemu_clocks s)(type := \<lparr>ck_timerlists = [], ck_reset_notifiers = [], ck_last = INT64_MIN, ck_enabled = True\<rparr>)\<rparr>;
          s2 = timerlist_new l type None s1
      in s2\<lparr>main_loop_tlg := (main_loop_tlg s2)(type := l)\<rparr>)"

definition qemu_clock_use_for_deadline :: "host_clocks \<Rightarrow> QEMUClockType \<Rightarrow> bool" where
  "qemu_clock_use_for_deadline h type \<longleftrightarrow> \<not> (use_icount h \<and> type = QEMU_CLOCK_VIRTUAL)"

definition timerlist_notify :: "timers \<Rightarrow> nat \<Rightarrow> timer_action list" where
  "timerlist_notify s l = (case tl_notify_cb (list_at s l) of Some cb \<Rightarrow> [Call_Notify cb] | None \<Rightarrow> [Notify_Event])"

definition qemu_clock_notify :: "timers \<Rightarrow> QEMUClockType \<Rightarrow> timer_action list" where
  "qemu_clock_notify s type = concat (map (timerlist_notify s) (ck_timerlists (qemu_clocks s type)))"

definition qemu_clock_enable :: "QEMUClockType \<Rightarrow> bool \<Rightarrow> timers \<Rightarrow> timers \<times> timer_action list" where
  "qemu_clock_enable type enabled s =
     (let old = ck_enabled (qemu_clocks s type);
          s1 = s\<lparr>qemu_clocks := (qemu_clocks s)(type := (qemu_clocks s type)\<lparr>ck_enabled := enabled\<rparr>)\<rparr>
      in (s1, if enabled \<and> \<not> old then qemu_clock_notify s1 type
              else if \<not> enabled \<and> old then map Wait_Done (ck_timerlists (qemu_clocks s1 type)) else []))"

definition qemu_clock_has_timers :: "timers \<Rightarrow> QEMUClockType \<Rightarrow> bool" where
  "qemu_clock_has_timers s type = timerlist_has_timers s (main_loop_tlg s type)"

definition qemu_clock_get_ns :: "host_clocks \<Rightarrow> QEMUClockType \<Rightarrow> timers \<Rightarrow> int \<times> timers \<times> timer_action list" where
  "qemu_clock_get_ns h type s =
     (case type of
        QEMU_CLOCK_REALTIME \<Rightarrow> (get_clock h, s, [])
      | QEMU_CLOCK_VIRTUAL \<Rightarrow> (if use_icount h then cpu_get_icount h else cpu_get_clock h, s, [])
      | QEMU_CLOCK_HOST \<Rightarrow>
          let now = get_clock_realtime h; c = qemu_clocks s type
          in (now, s\<lparr>qemu_clocks := (qemu_clocks s)(type := c\<lparr>ck_last := now\<rparr>)\<rparr>,
              if now < ck_last c then map (\<lambda>n. Reset_Notify n now) (ck_reset_notifiers c) else []))"

definition qemu_clock_get_ms :: "host_clocks \<Rightarrow> QEMUClockType \<Rightarrow> timers \<Rightarrow> int \<times> timers \<times> timer_action list" where
  "qemu_clock_get_ms h type s = (case qemu_clock_get_ns h type s of (ns, r) \<Rightarrow> (sgn ns * (\<bar>ns\<bar> div SCALE_MS), r))"

definition qemu_clock_get_us :: "host_clocks \<Rightarrow> QEMUClockType \<Rightarrow> timers \<Rightarrow> int \<times> timers \<times> timer_action list" where
  "qemu_clock_get_us h type s = (case qemu_clock_get_ns h type s of (ns, r) \<Rightarrow> (sgn ns * (\<bar>ns\<bar> div SCALE_US), r))"

definition qemu_clock_register_reset_notifier :: "QEMUClockType \<Rightarrow> nat \<Rightarrow> timers \<Rightarrow> timers" where
  "qemu_clock_register_reset_notifier type n s =
     s\<lparr>qemu_clocks := (qemu_clocks s)(type := (qemu_clocks s type)\<lparr>ck_reset_notifiers := n # ck_reset_notifiers (qemu_clocks s type)\<rparr>)\<rparr>"

definition qemu_clock_unregister_reset_notifier :: "QEMUClockType \<Rightarrow> nat \<Rightarrow> timers \<Rightarrow> timers" where
  "qemu_clock_unregister_reset_notifier type n s =
     s\<lparr>qemu_clocks := (\<lambda>c. (qemu_clocks s c)\<lparr>ck_reset_notifiers := remove1 n (ck_reset_notifiers (qemu_clocks s c))\<rparr>)\<rparr>"

definition init_clocks :: "(QEMUClockType \<Rightarrow> nat) \<Rightarrow> timers \<Rightarrow> timers" where
  "init_clocks addr s = foldl (\<lambda>s type. qemu_clock_init (addr type) type s) s all_clocks"

section \<open>Deadlines\<close>

definition timerlist_expired :: "host_clocks \<Rightarrow> timers \<Rightarrow> nat \<Rightarrow> bool \<times> timers \<times> timer_action list" where
  "timerlist_expired h s l =
     (case active s l of
        [] \<Rightarrow> (False, s, [])
      | i # _ \<Rightarrow> (case qemu_clock_get_ns h (tl_clock (list_at s l)) s of (now, r) \<Rightarrow> (expire s i < now, r)))"

definition qemu_clock_expired :: "host_clocks \<Rightarrow> timers \<Rightarrow> QEMUClockType \<Rightarrow> bool \<times> timers \<times> timer_action list" where
  "qemu_clock_expired h s type = timerlist_expired h s (main_loop_tlg s type)"

definition timerlist_deadline_ns :: "host_clocks \<Rightarrow> timers \<Rightarrow> nat \<Rightarrow> (int \<times> timers \<times> timer_action list) res" where
  "timerlist_deadline_ns h s l =
     (if \<not> ck_enabled (qemu_clocks s (tl_clock (list_at s l))) then Inr (- 1, s, [])
      else case active s l of
             [] \<Rightarrow> Inr (- 1, s, [])
           | i # _ \<Rightarrow>
               (case qemu_clock_get_ns h (tl_clock (list_at s l)) s of
                  (now, r) \<Rightarrow> res_bind (int64 (expire s i - now)) (\<lambda>delta. Inr (if delta \<le> 0 then 0 else delta, r))))"

definition qemu_soonest_timeout :: "int \<Rightarrow> int \<Rightarrow> int" where
  "qemu_soonest_timeout timeout1 timeout2 = (if timeout1 mod 2 ^ 64 < timeout2 mod 2 ^ 64 then timeout1 else timeout2)"

fun deadline_loop :: "host_clocks \<Rightarrow> nat list \<Rightarrow> int \<Rightarrow> timers \<Rightarrow> (int \<times> timers \<times> timer_action list) res" where
  "deadline_loop h [] deadline s = Inr (deadline, s, [])"
| "deadline_loop h (l # ls) deadline s =
     res_bind (timerlist_deadline_ns h s l) (\<lambda>(d, s1, os).
     res_bind (deadline_loop h ls (qemu_soonest_timeout deadline d) s1) (\<lambda>(r, s2, os'). Inr (r, s2, os @ os')))"

definition qemu_clock_deadline_ns_all :: "host_clocks \<Rightarrow> QEMUClockType \<Rightarrow> timers \<Rightarrow> (int \<times> timers \<times> timer_action list) res" where
  "qemu_clock_deadline_ns_all h type s = deadline_loop h (ck_timerlists (qemu_clocks s type)) (- 1) s"

text \<open>A group has one list per clock.\<close>

definition timerlistgroup_deadline_ns :: "host_clocks \<Rightarrow> (QEMUClockType \<Rightarrow> nat) \<Rightarrow> timers \<Rightarrow> (int \<times> timers \<times> timer_action list) res" where
  "timerlistgroup_deadline_ns h tlg s =
     deadline_loop h (filter (\<lambda>l. qemu_clock_use_for_deadline h (tl_clock (list_at s l))) (map tlg all_clocks)) (- 1) s"

definition qemu_timeout_ns_to_ms :: "int \<Rightarrow> int res" where
  "qemu_timeout_ns_to_ms ns =
     (if ns < 0 then Inr (- 1)
      else if ns = 0 then Inr 0
      else res_bind (int64 (ns + SCALE_MS)) (\<lambda>n. let ms = (n - 1) div SCALE_MS in Inr (if 2 ^ 31 - 1 < ms then 2 ^ 31 - 1 else ms)))"

section \<open>Timers\<close>

definition timer_init :: "nat \<Rightarrow> nat \<Rightarrow> int \<Rightarrow> nat \<Rightarrow> timers \<Rightarrow> timers" where
  "timer_init i l scale cb s =
     s\<lparr>timer_at := (timer_at s)(i := \<lparr>qt_expire_time = - 1, qt_timer_list = l, qt_cb = cb, qt_scale = scale\<rparr>)\<rparr>"

definition timer_new_tl :: "nat \<Rightarrow> nat \<Rightarrow> int \<Rightarrow> nat \<Rightarrow> timers \<Rightarrow> timers" where
  "timer_new_tl i l scale cb s = timer_init i l scale cb s"

definition timer_new :: "nat \<Rightarrow> QEMUClockType \<Rightarrow> int \<Rightarrow> nat \<Rightarrow> timers \<Rightarrow> timers" where
  "timer_new i type scale cb s = timer_new_tl i (main_loop_tlg s type) scale cb s"

definition timer_del_locked :: "nat \<Rightarrow> nat \<Rightarrow> timers \<Rightarrow> timers" where
  "timer_del_locked l i s = set_active l (remove1 i (active s l)) (set_expire i (- 1) s)"

definition timer_mod_ns_locked :: "nat \<Rightarrow> nat \<Rightarrow> int \<Rightarrow> timers \<Rightarrow> timers \<times> bool" where
  "timer_mod_ns_locked l i expire_time s =
     (let before = takeWhile (\<lambda>t. timer_expired_ns s (Some t) expire_time) (active s l);
          after = dropWhile (\<lambda>t. timer_expired_ns s (Some t) expire_time) (active s l)
      in (set_active l (before @ i # after) (set_expire i (max expire_time 0) s), before = []))"

definition timerlist_rearm :: "timers \<Rightarrow> nat \<Rightarrow> timer_action list" where
  "timerlist_rearm s l = Warp (tl_clock (list_at s l)) # timerlist_notify s l"

definition timer_del :: "nat \<Rightarrow> timers \<Rightarrow> timers" where
  "timer_del i s = timer_del_locked (qt_timer_list (timer_at s i)) i s"

definition timer_mod_ns :: "nat \<Rightarrow> int \<Rightarrow> timers \<Rightarrow> timers \<times> timer_action list" where
  "timer_mod_ns i expire_time s =
     (let l = qt_timer_list (timer_at s i); (s1, rearm) = timer_mod_ns_locked l i expire_time (timer_del_locked l i s)
      in (s1, if rearm then timerlist_rearm s1 l else []))"

definition timer_mod_anticipate_ns :: "nat \<Rightarrow> int \<Rightarrow> timers \<Rightarrow> timers \<times> timer_action list" where
  "timer_mod_anticipate_ns i expire_time s =
     (let l = qt_timer_list (timer_at s i)
      in if expire s i = - 1 \<or> expire_time < expire s i
         then let (s1, rearm) = timer_mod_ns_locked l i expire_time (if expire s i \<noteq> - 1 then timer_del_locked l i s else s)
              in (s1, if rearm then timerlist_rearm s1 l else [])
         else (s, []))"

definition timer_mod :: "nat \<Rightarrow> int \<Rightarrow> timers \<Rightarrow> (timers \<times> timer_action list) res" where
  "timer_mod i expire_time s = res_bind (int64 (expire_time * qt_scale (timer_at s i))) (\<lambda>t. Inr (timer_mod_ns i t s))"

definition timer_mod_anticipate :: "nat \<Rightarrow> int \<Rightarrow> timers \<Rightarrow> (timers \<times> timer_action list) res" where
  "timer_mod_anticipate i expire_time s = res_bind (int64 (expire_time * qt_scale (timer_at s i))) (\<lambda>t. Inr (timer_mod_anticipate_ns i t s))"

definition timer_pending :: "timers \<Rightarrow> nat \<Rightarrow> bool" where
  "timer_pending s i \<longleftrightarrow> 0 \<le> expire s i"

definition timer_expired :: "timers \<Rightarrow> nat \<Rightarrow> int \<Rightarrow> bool res" where
  "timer_expired s i current_time = res_bind (int64 (current_time * qt_scale (timer_at s i))) (\<lambda>t. Inr (timer_expired_ns s (Some i) t))"

definition timer_expire_time_ns :: "timers \<Rightarrow> nat \<Rightarrow> u64" where
  "timer_expire_time_ns s i = (if timer_pending s i then word_of_int (expire s i) else - 1)"

section \<open>Running timers\<close>

text \<open>
  A callback is given the world of the devices and the timers, and may change both. Since it may also set a timer that has already expired,
  the loop need not end.
\<close>

type_synonym 'w callbacks = "nat \<Rightarrow> 'w \<Rightarrow> timers \<Rightarrow> ('w \<times> timers) res"

definition timer_take :: "nat \<Rightarrow> nat \<Rightarrow> timers \<Rightarrow> timers" where
  "timer_take l i s = set_expire i (- 1) (set_active l (tl (active s l)) s)"

partial_function (option) run_loop :: "'w callbacks \<Rightarrow> nat \<Rightarrow> int \<Rightarrow> bool \<Rightarrow> 'w \<Rightarrow> timers \<Rightarrow> ('w \<times> timers \<times> bool) res option" where
  "run_loop cb l current_time progress w s =
     (case head_timer s l of
        None \<Rightarrow> Some (Inr (w, s, progress))
      | Some i \<Rightarrow>
          if timer_expired_ns s (Some i) current_time
          then (case cb (qt_cb (timer_at s i)) w (timer_take l i s) of
                  Inl e \<Rightarrow> Some (Inl e)
                | Inr (w', s') \<Rightarrow> run_loop cb l current_time True w' s')
          else Some (Inr (w, s, progress)))"

definition set_done :: "nat \<Rightarrow> bool \<Rightarrow> timers \<Rightarrow> timers" where
  "set_done l b s = s\<lparr>list_at := (list_at s)(l := (list_at s l)\<lparr>tl_timers_done := b\<rparr>)\<rparr>"

type_synonym 'w run_result = "('w \<times> timers \<times> bool \<times> timer_action list) res option"

definition timerlist_run_timers :: "'w callbacks \<Rightarrow> host_clocks \<Rightarrow> nat \<Rightarrow> 'w \<Rightarrow> timers \<Rightarrow> 'w run_result" where
  "timerlist_run_timers cb h l w s =
     (let s1 = set_done l False s
      in if \<not> ck_enabled (qemu_clocks s1 (tl_clock (list_at s1 l))) then Some (Inr (w, set_done l True s1, False, []))
         else case qemu_clock_get_ns h (tl_clock (list_at s1 l)) s1 of
                (now, s2, os) \<Rightarrow>
                  (case run_loop cb l now False w s2 of
                     None \<Rightarrow> None
                   | Some (Inl e) \<Rightarrow> Some (Inl e)
                   | Some (Inr (w', s', progress)) \<Rightarrow> Some (Inr (w', set_done l True s', progress, os))))"

definition qemu_clock_run_timers :: "'w callbacks \<Rightarrow> host_clocks \<Rightarrow> QEMUClockType \<Rightarrow> 'w \<Rightarrow> timers \<Rightarrow> 'w run_result" where
  "qemu_clock_run_timers cb h type w s = timerlist_run_timers cb h (main_loop_tlg s type) w s"

fun run_lists :: "'w callbacks \<Rightarrow> host_clocks \<Rightarrow> nat list \<Rightarrow> bool \<Rightarrow> 'w \<Rightarrow> timers \<Rightarrow> 'w run_result" where
  "run_lists cb h [] progress w s = Some (Inr (w, s, progress, []))"
| "run_lists cb h (l # ls) progress w s =
     (case timerlist_run_timers cb h l w s of
        None \<Rightarrow> None
      | Some (Inl e) \<Rightarrow> Some (Inl e)
      | Some (Inr (w', s', p, os)) \<Rightarrow>
          map_option (\<lambda>r. res_bind r (\<lambda>(w'', s'', q, os'). Inr (w'', s'', q, os @ os'))) (run_lists cb h ls (progress \<or> p) w' s'))"

definition timerlistgroup_run_timers :: "'w callbacks \<Rightarrow> host_clocks \<Rightarrow> (QEMUClockType \<Rightarrow> nat) \<Rightarrow> 'w \<Rightarrow> timers \<Rightarrow> 'w run_result" where
  "timerlistgroup_run_timers cb h tlg w s = run_lists cb h (map tlg all_clocks) False w s"

definition qemu_clock_run_all_timers :: "'w callbacks \<Rightarrow> host_clocks \<Rightarrow> 'w \<Rightarrow> timers \<Rightarrow> 'w run_result" where
  "qemu_clock_run_all_timers cb h w s = run_lists cb h (map (main_loop_tlg s) all_clocks) False w s"

definition timerlistgroup_init :: "(QEMUClockType \<Rightarrow> nat) \<Rightarrow> nat option \<Rightarrow> timers \<Rightarrow> timers" where
  "timerlistgroup_init tlg cb s = foldl (\<lambda>s type. timerlist_new (tlg type) type cb s) s all_clocks"

definition timerlistgroup_deinit :: "(QEMUClockType \<Rightarrow> nat) \<Rightarrow> timers \<Rightarrow> timers res" where
  "timerlistgroup_deinit tlg s = foldl (\<lambda>r type. res_bind r (timerlist_free (tlg type))) (Inr s) all_clocks"

section \<open>The lists are sorted\<close>

definition list_ok :: "timers \<Rightarrow> nat \<Rightarrow> bool" where
  "list_ok s l \<longleftrightarrow> sorted (map (expire s) (active s l)) \<and> distinct (active s l) \<and>
     (\<forall>i \<in> set (active s l). qt_timer_list (timer_at s i) = l \<and> 0 \<le> expire s i)"

definition timers_ok :: "timers \<Rightarrow> bool" where
  "timers_ok s \<longleftrightarrow> (\<forall>l. list_ok s l) \<and> (\<forall>i. i \<notin> set (active s (qt_timer_list (timer_at s i))) \<longrightarrow> expire s i = - 1)"

lemma timer_fields [simp]:
  "active (set_active l xs s) k = (if k = l then xs else active s k)" "expire (set_active l xs s) i = expire s i"
  "active (set_expire i t s) k = active s k" "expire (set_expire i t s) j = (if j = i then t else expire s j)"
  "qt_timer_list (timer_at (set_active l xs s) i) = qt_timer_list (timer_at s i)" "qt_timer_list (timer_at (set_expire j t s) i) = qt_timer_list (timer_at s i)"
  "qt_cb (timer_at (set_active l xs s) i) = qt_cb (timer_at s i)" "qt_cb (timer_at (set_expire j t s) i) = qt_cb (timer_at s i)"
  by (simp_all add: active_def expire_def set_active_def set_expire_def)

lemma timers_okD:
  assumes "timers_ok s"
  shows "sorted (map (expire s) (active s l))" "distinct (active s l)" "i \<in> set (active s l) \<Longrightarrow> qt_timer_list (timer_at s i) = l"
    "i \<in> set (active s l) \<Longrightarrow> 0 \<le> expire s i" "i \<notin> set (active s (qt_timer_list (timer_at s i))) \<Longrightarrow> expire s i = - 1"
  using assms by (auto simp: timers_ok_def list_ok_def)

lemma active_iff: "timers_ok s \<Longrightarrow> i \<in> set (active s (qt_timer_list (timer_at s i))) \<longleftrightarrow> expire s i \<noteq> - 1"
  using timers_okD(4,5) by force

lemma sorted_remove1: "sorted (map f xs) \<Longrightarrow> sorted (map f (remove1 x xs))"
  by (induction xs) (auto dest: notin_set_remove1)

lemma del_ok:
  assumes "timers_ok s" and "l = qt_timer_list (timer_at s i)"
  shows "timers_ok (timer_del_locked l i s)" and "expire (timer_del_locked l i s) i = - 1"
    and "active (timer_del_locked l i s) l = remove1 i (active s l)" and "i \<notin> set (active (timer_del_locked l i s) k)"
proof -
  note ok = timers_okD [OF assms(1)]
  have m: "map (expire (timer_del_locked l i s)) (remove1 i (active s k)) = map (expire s) (remove1 i (active s k))" for k
    using ok(2) [of k] by (simp add: timer_del_locked_def)
  have k: "remove1 i (active s k) = active s k" if "k \<noteq> l" for k using ok(3) [of i k] that assms(2) by (intro remove1_idem) auto
  have a: "active (timer_del_locked l i s) k = remove1 i (active s k)" for k using k by (simp add: timer_del_locked_def)
  show "active (timer_del_locked l i s) l = remove1 i (active s l)" "expire (timer_del_locked l i s) i = - 1"
    by (simp_all add: timer_del_locked_def)
  show "i \<notin> set (active (timer_del_locked l i s) k)" using ok(2) [of k] by (simp add: a)
  have "list_ok (timer_del_locked l i s) k" for k
    unfolding list_ok_def a m using ok(1,2) [of k] ok(3,4) [of _ k] sorted_remove1 by (auto simp: timer_del_locked_def)
  then show "timers_ok (timer_del_locked l i s)"
    using ok(5) by (auto simp: timers_ok_def a) (auto simp: timer_del_locked_def)
qed

lemma insert_ok:
  fixes t :: int
  assumes "timers_ok s" and "l = qt_timer_list (timer_at s i)" and "expire s i = - 1"
  defines "s' \<equiv> fst (timer_mod_ns_locked l i t s)"
  shows "timers_ok s'" and "expire s' i = max t 0"
    and "active s' l = takeWhile (\<lambda>j. expire s j \<le> t) (active s l) @ i # dropWhile (\<lambda>j. expire s j \<le> t) (active s l)"
proof -
  note ok = timers_okD [OF assms(1)]
  define xs where "xs = takeWhile (\<lambda>j. expire s j \<le> t) (active s l)"
  define ys where "ys = dropWhile (\<lambda>j. expire s j \<le> t) (active s l)"
  have s': "s' = set_active l (xs @ i # ys) (set_expire i (max t 0) s)"
    by (simp add: s'_def timer_mod_ns_locked_def Let_def timer_expired_ns_def xs_def ys_def)
  show "expire s' i = max t 0" "active s' l = takeWhile (\<lambda>j. expire s j \<le> t) (active s l) @ i # dropWhile (\<lambda>j. expire s j \<le> t) (active s l)"
    by (simp_all add: s' xs_def ys_def)
  have app: "active s l = xs @ ys" by (simp add: xs_def ys_def)
  have i: "i \<notin> set (active s k)" for k using ok(3,4) [of i k] assms(2,3) by force
  have "\<forall>j \<in> set xs. expire s j \<le> t" by (auto simp: xs_def dest: set_takeWhileD)
  moreover have "\<forall>j \<in> set ys. t < expire s j"
  proof (cases ys)
    case (Cons j zs)
    then have "\<not> expire s j \<le> t" using hd_dropWhile [of "\<lambda>j. expire s j \<le> t" "active s l"] by (auto simp: ys_def)
    then show ?thesis using ok(1) [of l] Cons by (auto simp: app sorted_append)
  qed simp
  ultimately have "sorted (map (expire s) xs @ max t 0 # map (expire s) ys)"
    using ok(1) [of l] ok(4) [of _ l] unfolding app by (auto simp: sorted_append)
  moreover have "map (expire s') (xs @ i # ys) = map (expire s) xs @ max t 0 # map (expire s) ys" using i [of l] by (auto simp: s' app)
  ultimately have "sorted (map (expire s') (xs @ i # ys))" by (simp only:)
  moreover have "active s' l = xs @ i # ys" by (simp add: s')
  moreover have "distinct (xs @ i # ys)" using ok(2) [of l] i [of l] by (simp add: app)
  moreover have "\<forall>j \<in> set (xs @ i # ys). qt_timer_list (timer_at s' j) = l \<and> 0 \<le> expire s' j"
    using ok(3,4) [of _ l, unfolded app] by (auto simp: s' assms(2) [symmetric])
  ultimately have "list_ok s' l" by (simp only: list_ok_def)
  moreover have "list_ok s' k" if "k \<noteq> l" for k
  proof -
    have m: "map (expire s') (active s k) = map (expire s) (active s k)" and a: "active s' k = active s k" using i [of k] that by (auto simp: s')
    show ?thesis unfolding list_ok_def a m using ok(1,2) [of k] ok(3,4) [of _ k] i [of k] by (auto simp: s')
  qed
  moreover have "expire s' j = - 1" if "j \<notin> set (active s' (qt_timer_list (timer_at s' j)))" for j
    using that ok(5) [of j] app assms(2) [symmetric] by (auto simp: s' split: if_splits)
  ultimately show "timers_ok s'" unfolding timers_ok_def by metis
qed

lemma mod_ok:
  assumes "timers_ok s"
  shows "timers_ok (fst (timer_mod_ns i t s))" and "expire (fst (timer_mod_ns i t s)) i = max t 0"
proof -
  define l where "l = qt_timer_list (timer_at s i)"
  note d = del_ok [OF assms l_def]
  have l: "l = qt_timer_list (timer_at (timer_del_locked l i s) i)" by (simp add: timer_del_locked_def l_def)
  have e: "fst (timer_mod_ns i t s) = fst (timer_mod_ns_locked l i t (timer_del_locked l i s))"
    by (simp add: timer_mod_ns_def Let_def l_def split: prod.split)
  show "timers_ok (fst (timer_mod_ns i t s))" "expire (fst (timer_mod_ns i t s)) i = max t 0"
    unfolding e using insert_ok(1,2) [OF d(1) l d(2)] by simp_all
qed

lemma anticipate_ok:
  assumes "timers_ok s"
  shows "timers_ok (fst (timer_mod_anticipate_ns i t s))"
proof -
  define l where "l = qt_timer_list (timer_at s i)"
  define s1 where "s1 = (if expire s i \<noteq> - 1 then timer_del_locked l i s else s)"
  have "timers_ok s1" "expire s1 i = - 1" "l = qt_timer_list (timer_at s1 i)"
    using assms del_ok [OF assms l_def] by (auto simp: s1_def l_def timer_del_locked_def)
  from insert_ok(1) [OF this(1,3,2), of t] show ?thesis
    using assms by (auto simp: timer_mod_anticipate_ns_def Let_def l_def [symmetric] s1_def [symmetric] split: prod.split)
qed

lemma take_ok:
  assumes "timers_ok s" and "active s l = i # xs"
  shows "timers_ok (timer_take l i s)"
proof -
  have "l = qt_timer_list (timer_at s i)" using timers_okD(3) [OF assms(1), of i l] assms(2) by simp
  moreover have "timer_take l i s = timer_del_locked l i s"
    using assms(2) by (simp add: timer_take_def timer_del_locked_def set_active_def set_expire_def active_def)
  ultimately show ?thesis using del_ok(1) [OF assms(1)] by simp
qed

lemma init_timer_ok:
  assumes "timers_ok s" and "\<forall>k. i \<notin> set (active s k)"
  shows "timers_ok (timer_init i l scale cb s)"
proof -
  define s' where "s' = timer_init i l scale cb s"
  note ok = timers_okD [OF assms(1)]
  have f: "active s' k = active s k" "expire s' j = (if j = i then - 1 else expire s j)"
    "qt_timer_list (timer_at s' j) = (if j = i then l else qt_timer_list (timer_at s j))" for k j
    by (simp_all add: s'_def timer_init_def active_def expire_def)
  have m: "map (expire s') (active s k) = map (expire s) (active s k)" for k using assms(2) by (auto simp: f)
  have "list_ok s' k" for k unfolding list_ok_def f(1) m using ok(1,2) [of k] ok(3,4) [of _ k] assms(2) by (auto simp: f)
  moreover have "expire s' j = - 1" if "j \<notin> set (active s' (qt_timer_list (timer_at s' j)))" for j
    using that ok(5) [of j] by (auto simp: f split: if_splits)
  ultimately show ?thesis by (auto simp: timers_ok_def s'_def)
qed

lemma timers_ok_cong:
  assumes "timer_at s' = timer_at s" and "\<And>k. active s' k = active s k"
  shows "timers_ok s' = timers_ok s"
proof -
  have "expire s' = expire s" using assms(1) by (simp add: fun_eq_iff expire_def)
  then show ?thesis using assms by (simp add: timers_ok_def list_ok_def)
qed

lemma get_ns_simps:
  "qemu_clock_get_ns h type s = (now, s', os) \<Longrightarrow> timer_at s' = timer_at s \<and> list_at s' = list_at s"
  by (auto simp: qemu_clock_get_ns_def Let_def split: QEMUClockType.splits if_splits)

lemma get_ns_fields:
  assumes "qemu_clock_get_ns h type s = (now, s', os)"
  shows "active s' k = active s k" "expire s' i = expire s i" "timers_ok s' = timers_ok s"
proof -
  show a: "active s' k = active s k" "expire s' i = expire s i" for k i using get_ns_simps [OF assms] by (simp_all add: active_def expire_def)
  show "timers_ok s' = timers_ok s" using get_ns_simps [OF assms] a by (intro timers_ok_cong) simp_all
qed

text \<open>The operations on timers, in any order. A timer is only initialised while it is in no list; the head of a list is taken when it runs.\<close>

inductive timer_step :: "timers \<Rightarrow> timers \<Rightarrow> bool" where
  init: "\<forall>k. i \<notin> set (active s k) \<Longrightarrow> timer_step s (timer_init i l scale cb s)"
| del: "timer_step s (timer_del i s)"
| modify: "timer_step s (fst (timer_mod_ns i t s))"
| anticipate: "timer_step s (fst (timer_mod_anticipate_ns i t s))"
| expires: "active s l = i # xs \<Longrightarrow> timer_step s (timer_take l i s)"
| new_list: "active s l = [] \<Longrightarrow> timer_step s (timerlist_new l type ncb s)"
| free_list: "timerlist_free l s = Inr s' \<Longrightarrow> timer_step s s'"
| enable: "timer_step s (fst (qemu_clock_enable type b s))"
| reads_clock: "timer_step s (fst (snd (qemu_clock_get_ns h type s)))"

lemma lists_ok:
  "timers_ok s \<Longrightarrow> active s l = [] \<Longrightarrow> timers_ok (timerlist_new l type ncb s)"
  "timers_ok s \<Longrightarrow> timerlist_free l s = Inr s' \<Longrightarrow> timers_ok s'"
  "timers_ok s \<Longrightarrow> timers_ok (fst (qemu_clock_enable type b s))"
  "timers_ok s \<Longrightarrow> timers_ok (fst (snd (qemu_clock_get_ns h type s)))"
proof -
  show "timers_ok s \<Longrightarrow> active s l = [] \<Longrightarrow> timers_ok (timerlist_new l type ncb s)"
    by (subst timers_ok_cong) (auto simp: timerlist_new_def active_def)
  show "timers_ok s \<Longrightarrow> timerlist_free l s = Inr s' \<Longrightarrow> timers_ok s'"
    by (subst timers_ok_cong) (auto simp: timerlist_free_def active_def Let_def split: if_splits)
  show "timers_ok s \<Longrightarrow> timers_ok (fst (qemu_clock_enable type b s))"
    by (subst timers_ok_cong) (auto simp: qemu_clock_enable_def active_def Let_def)
  show "timers_ok s \<Longrightarrow> timers_ok (fst (snd (qemu_clock_get_ns h type s)))"
    using get_ns_fields(3) [of h type s] by (metis prod.collapse)
qed

lemma timer_step_ok: "timer_step s s' \<Longrightarrow> timers_ok s \<Longrightarrow> timers_ok s'"
  by (induction rule: timer_step.induct) (auto intro: init_timer_ok mod_ok anticipate_ok take_ok lists_ok simp: timer_del_def intro: del_ok)

lemma timer_steps_ok: "timer_step\<^sup>*\<^sup>* s s' \<Longrightarrow> timers_ok s \<Longrightarrow> timers_ok s'"
  by (induction rule: rtranclp_induct) (simp, metis timer_step_ok)

definition no_timers :: "timers \<Rightarrow> bool" where
  "no_timers s \<longleftrightarrow> (\<forall>l. active s l = []) \<and> (\<forall>i. expire s i = - 1)"

lemma no_timers_ok: "no_timers s \<Longrightarrow> timers_ok s"
  by (simp add: no_timers_def timers_ok_def list_ok_def)

section \<open>Expired timers run\<close>

definition expired_in :: "timers \<Rightarrow> nat \<Rightarrow> int \<Rightarrow> nat list" where
  "expired_in s l now = filter (\<lambda>i. expire s i \<le> now) (active s l)"

lemma filter_sorted: "sorted (map f xs) \<Longrightarrow> filter (\<lambda>i. f i \<le> t) xs = takeWhile (\<lambda>i. f i \<le> (t :: 'a :: linorder)) xs"
proof (induction xs)
  case (Cons x xs)
  have "filter (\<lambda>i. f i \<le> t) xs = []" if "\<not> f x \<le> t" using Cons.prems that by (fastforce simp: filter_empty_conv)
  then show ?case using Cons by (cases "f x \<le> t") simp_all
qed simp

lemma expired_head:
  assumes "timers_ok s"
  shows "expired_in s l now = [] \<Longrightarrow> active s l = [] \<or> \<not> expire s (hd (active s l)) \<le> now"
    and "expired_in s l now = i # is \<Longrightarrow> \<exists>xs. active s l = i # xs \<and> expire s i \<le> now \<and> is = filter (\<lambda>i. expire s i \<le> now) xs"
proof -
  have e: "expired_in s l now = takeWhile (\<lambda>i. expire s i \<le> now) (active s l)"
    unfolding expired_in_def using timers_okD(1) [OF assms] by (rule filter_sorted)
  show "expired_in s l now = [] \<Longrightarrow> active s l = [] \<or> \<not> expire s (hd (active s l)) \<le> now" unfolding e by (cases "active s l") auto
  assume a: "expired_in s l now = i # is"
  then obtain xs where "active s l = i # xs" "expire s i \<le> now" unfolding e by (cases "active s l") (auto split: if_splits)
  then show "\<exists>xs. active s l = i # xs \<and> expire s i \<le> now \<and> is = filter (\<lambda>i. expire s i \<le> now) xs" using a by (auto simp: expired_in_def)
qed

lemma expired_take:
  assumes "timers_ok s" and "expired_in s l now = i # is"
  shows "expired_in (timer_take l i s) l now = is"
proof -
  obtain xs where x: "active s l = i # xs" "is = filter (\<lambda>i. expire s i \<le> now) xs" using expired_head(2) [OF assms] by blast
  have "i \<notin> set xs" using timers_okD(2) [OF assms(1), of l] x(1) by simp
  then show ?thesis using x by (auto simp: expired_in_def timer_take_def intro: filter_cong)
qed

text \<open>Setting a timer to a later time and deleting a timer take it out of the expired ones, in whatever list it is.\<close>

lemma del_expired:
  assumes "timers_ok s"
  shows "expired_in (timer_del i s) l now = filter (\<lambda>j. j \<noteq> i) (expired_in s l now)"
proof -
  have a: "active (timer_del i s) l = filter (\<lambda>j. j \<noteq> i) (active s l)"
  proof (cases "l = qt_timer_list (timer_at s i)")
    case True
    then show ?thesis using timers_okD(2) [OF assms, of l]
      by (simp add: timer_del_def timer_del_locked_def distinct_remove1_removeAll removeAll_filter_not_eq) (metis (mono_tags) filter_cong)
  next
    case False
    then have "\<forall>j \<in> set (active s l). j \<noteq> i" using timers_okD(3) [OF assms, of i l] by auto
    then show ?thesis using False by (simp add: timer_del_def timer_del_locked_def filter_id_conv)
  qed
  have "expire (timer_del i s) j = expire s j" if "j \<noteq> i" for j using that by (simp add: timer_del_def timer_del_locked_def)
  then show ?thesis unfolding expired_in_def a by (auto simp: conj_commute intro!: filter_cong)
qed

lemma mod_expired:
  assumes "timers_ok s" and "now < max t 0"
  shows "expired_in (fst (timer_mod_ns i t s)) l now = filter (\<lambda>j. j \<noteq> i) (expired_in s l now)"
proof -
  define k where "k = qt_timer_list (timer_at s i)"
  define s1 where "s1 = timer_del_locked k i s"
  define s2 where "s2 = fst (timer_mod_ns i t s)"
  have s1: "expired_in s1 l now = filter (\<lambda>j. j \<noteq> i) (expired_in s l now)" using del_expired [OF assms(1)] by (simp add: timer_del_def s1_def k_def)
  have s2: "s2 = fst (timer_mod_ns_locked k i t s1)" by (simp add: s2_def timer_mod_ns_def Let_def s1_def k_def split: prod.split)
  have e: "expire s2 j = (if j = i then max t 0 else expire s1 j)" for j by (simp add: s2 timer_mod_ns_locked_def Let_def)
  have a: "active s2 l = (if l = k then takeWhile (\<lambda>t'. timer_expired_ns s1 (Some t') t) (active s1 k) @ i # dropWhile (\<lambda>t'. timer_expired_ns s1 (Some t') t) (active s1 k)
    else active s1 l)" by (simp add: s2 timer_mod_ns_locked_def Let_def)
  have n: "i \<notin> set (active s1 k')" for k' using del_ok(4) [OF assms(1) k_def] by (simp add: s1_def)
  have f: "filter (\<lambda>j. expire s2 j \<le> now) xs = filter (\<lambda>j. expire s1 j \<le> now) xs" if "i \<notin> set xs" for xs
    using that by (intro filter_cong) (auto simp: e)
  have "filter (\<lambda>j. expire s2 j \<le> now) (active s2 l) = filter (\<lambda>j. expire s1 j \<le> now) (active s1 l)"
  proof (cases "l = k")
    case True
    define xs ys where "xs = takeWhile (\<lambda>t'. timer_expired_ns s1 (Some t') t) (active s1 k)" and "ys = dropWhile (\<lambda>t'. timer_expired_ns s1 (Some t') t) (active s1 k)"
    have x: "active s2 l = xs @ i # ys" "active s1 l = xs @ ys" using a True by (simp_all add: xs_def ys_def)
    have "\<not> expire s2 i \<le> now" using assms(2) by (auto simp: e max_def split: if_splits)
    then have "filter (\<lambda>j. expire s2 j \<le> now) (active s2 l) = filter (\<lambda>j. expire s2 j \<le> now) (active s1 l)" by (simp add: x)
    also have "\<dots> = filter (\<lambda>j. expire s1 j \<le> now) (active s1 l)" using n by (rule f)
    finally show ?thesis .
  qed (simp add: a f n)
  then show ?thesis using s1 by (simp add: expired_in_def s2_def)
qed

text \<open>
  The callbacks of the given timers, one after the other: a timer that is still expired when its turn comes is taken off its list and called; one that
  an earlier callback has deleted or set to a later time is not. The timers called are returned too.
\<close>

fun fire :: "'w callbacks \<Rightarrow> nat \<Rightarrow> int \<Rightarrow> nat list \<Rightarrow> 'w \<Rightarrow> timers \<Rightarrow> ('w \<times> timers \<times> nat list) res" where
  "fire cb l now [] w s = Inr (w, s, [])"
| "fire cb l now (i # is) w s =
     (if i \<in> set (expired_in s l now)
      then res_bind (cb (qt_cb (timer_at s i)) w (timer_take l i s)) (\<lambda>(w', s').
             res_bind (fire cb l now is w' s') (\<lambda>(w'', s'', called). Inr (w'', s'', i # called)))
      else fire cb l now is w s)"

text \<open>
  What the loop relies on when callbacks run: in the states of an invariant, which implies the order of the lists and is kept when a timer is taken
  off the list, a callback keeps the invariant and adds no expired timer to the list. It may delete timers and set them, its own too, to a later time.
\<close>

locale timer_callbacks =
  fixes cb :: "'w callbacks" and l :: nat and now :: int and inv :: "timers \<Rightarrow> bool"
  assumes inv_ok: "inv s \<Longrightarrow> timers_ok s"
    and inv_take: "inv s \<Longrightarrow> active s l = i # xs \<Longrightarrow> inv (timer_take l i s)"
    and cb_inv: "inv s \<Longrightarrow> cb k w s = Inr (w', s') \<Longrightarrow> inv s'"
    and cb_expired: "inv s \<Longrightarrow> cb k w s = Inr (w', s') \<Longrightarrow> subseq (expired_in s' l now) (expired_in s l now)"
begin

lemma head_expired:
  assumes "inv s" and "subseq (expired_in s l now) (i # is)" and "distinct (i # is)" and "i \<in> set (expired_in s l now)"
  shows "\<exists>xs. active s l = i # xs" and "expire s i \<le> now" and "inv (timer_take l i s)" and "subseq (expired_in (timer_take l i s) l now) is"
proof -
  obtain j js where e: "expired_in s l now = j # js" using assms(4) by (cases "expired_in s l now") auto
  have "j = i"
  proof (rule ccontr)
    assume "j \<noteq> i"
    then have "subseq (expired_in s l now) is" using assms(2) e by simp
    then have "i \<in> set is" using assms(4) by (meson subseq_order.order_trans subseq_singleton_left)
    then show False using assms(3) by simp
  qed
  then obtain xs where x: "active s l = i # xs" "expire s i \<le> now" using expired_head(2) [OF inv_ok [OF assms(1)]] e by blast
  then show "\<exists>xs. active s l = i # xs" "expire s i \<le> now" "inv (timer_take l i s)" using inv_take [OF assms(1)] by auto
  show "subseq (expired_in (timer_take l i s) l now) is"
    using expired_take [OF inv_ok [OF assms(1)]] e \<open>j = i\<close> assms(2) by simp
qed

lemma not_expired: "subseq (expired_in s l now) (i # is) \<Longrightarrow> i \<notin> set (expired_in s l now) \<Longrightarrow> subseq (expired_in s l now) is"
  by (cases "expired_in s l now") auto

lemma run_fires:
  "inv s \<Longrightarrow> subseq (expired_in s l now) is \<Longrightarrow> distinct is \<Longrightarrow> run_loop cb l now progress w s =
    Some (res_bind (fire cb l now is w s) (\<lambda>(w', s', called). Inr (w', s', progress \<or> called \<noteq> [])))"
proof (induction "is" arbitrary: progress w s)
  case Nil
  then have "active s l = [] \<or> \<not> expire s (hd (active s l)) \<le> now" using expired_head(1) [OF inv_ok] by simp
  then show ?case
    by (cases "active s l") (simp_all add: run_loop.simps [of cb l now progress w s] head_timer_def timer_expired_ns_def)
next
  case (Cons i "is")
  show ?case
  proof (cases "i \<in> set (expired_in s l now)")
    case True
    define s1 where "s1 = timer_take l i s"
    note h = head_expired [OF Cons.prems True, folded s1_def]
    have r: "run_loop cb l now progress w s = (case cb (qt_cb (timer_at s i)) w s1 of Inl e \<Rightarrow> Some (Inl e) | Inr (w', s') \<Rightarrow> run_loop cb l now True w' s')"
      using h(1,2) by (auto simp: run_loop.simps [of cb l now progress w s] head_timer_def timer_expired_ns_def s1_def)
    show ?thesis
    proof (cases "cb (qt_cb (timer_at s i)) w s1")
      case (Inr ws)
      obtain w' s' where ws: "ws = (w', s')" by force
      have c: "inv s'" "subseq (expired_in s' l now) is"
        using cb_inv [OF h(3)] cb_expired [OF h(3)] Inr ws h(4) subseq_order.order_trans by blast+
      show ?thesis using Cons.IH [OF c, of True w'] Cons.prems(3) r Inr ws True
        by (cases "fire cb l now is w' s'") (auto simp: s1_def)
    qed (use r True in \<open>simp add: s1_def\<close>)
  next
    case False
    then show ?thesis using Cons.IH [OF Cons.prems(1) not_expired [OF Cons.prems(2) False]] Cons.prems(3) by simp
  qed
qed

lemma fire_done:
  "inv s \<Longrightarrow> subseq (expired_in s l now) is \<Longrightarrow> distinct is \<Longrightarrow> fire cb l now is w s = Inr (w', s', called) \<Longrightarrow>
    inv s' \<and> expired_in s' l now = [] \<and> subseq called is"
proof (induction "is" arbitrary: w s called)
  case (Cons i "is")
  show ?case
  proof (cases "i \<in> set (expired_in s l now)")
    case True
    note h = head_expired [OF Cons.prems(1-3) True]
    obtain w1 s2 called' where c: "cb (qt_cb (timer_at s i)) w (timer_take l i s) = Inr (w1, s2)" "fire cb l now is w1 s2 = Inr (w', s', called')"
      "called = i # called'" using Cons.prems(4) True by (auto simp: res_bind_eq_Inr)
    have "inv s2" "subseq (expired_in s2 l now) is" using cb_inv [OF h(3) c(1)] cb_expired [OF h(3) c(1)] h(4) subseq_order.order_trans by blast+
    then show ?thesis using Cons.IH [OF _ _ _ c(2)] Cons.prems(3) c(3) by simp
  next
    case False
    then show ?thesis using Cons.IH [OF Cons.prems(1) not_expired [OF Cons.prems(2) False]] Cons.prems(3,4) by auto
  qed
qed simp

end

section \<open>The goldfish timer as a client\<close>

text \<open>
  The callbacks of a machine with a goldfish timer: its callback has a number of its own and leaves the timers alone; the callbacks with other numbers
  belong to the rest of the machine.
\<close>

definition goldfish_cb :: "nat \<Rightarrow> 'w callbacks \<Rightarrow> (timer_state \<times> irq_out list \<times> 'w) callbacks" where
  "goldfish_cb g other k = (\<lambda>(d, os, w) s.
     if k = g then res_bind (goldfish_timer_tick (d\<lparr>tm_timer := None\<rparr>)) (\<lambda>(d', os'). Inr ((d', os @ os', w), s))
     else res_bind (other k w s) (\<lambda>(w', s'). Inr ((d, os, w'), s')))"

lemma goldfish_cb_cases:
  "goldfish_cb g other g (d, os, w) s = res_bind (goldfish_timer_tick (d\<lparr>tm_timer := None\<rparr>)) (\<lambda>(d', os'). Inr ((d', os @ os', w), s))"
  "k \<noteq> g \<Longrightarrow> goldfish_cb g other k (d, os, w) s = res_bind (other k w s) (\<lambda>(w', s'). Inr ((d, os, w'), s'))"
  by (simp_all add: goldfish_cb_def)

text \<open>The timer of the device is in its list and the only one with its callback.\<close>

definition goldfish_timer_of :: "nat \<Rightarrow> nat \<Rightarrow> nat \<Rightarrow> timers \<Rightarrow> bool" where
  "goldfish_timer_of g i l s \<longleftrightarrow> timers_ok s \<and> qt_timer_list (timer_at s i) = l \<and> (\<forall>j. qt_cb (timer_at s j) = g \<longleftrightarrow> j = i)"

text \<open>What the other callbacks may do: return, with every change of timers but one of the device's timer and one that adds expired timers to the list.\<close>

locale goldfish_neighbours =
  fixes g i l :: nat and now :: int and other :: "'w callbacks"
  assumes other_runs: "goldfish_timer_of g i l s \<Longrightarrow> k \<noteq> g \<Longrightarrow> \<exists>w' s'. other k w s = Inr (w', s') \<and> goldfish_timer_of g i l s' \<and>
    expire s' i = expire s i \<and> subseq (expired_in s' l now) (expired_in s l now)"
begin

lemma goldfish_callbacks: "timer_callbacks (goldfish_cb g other) l now (goldfish_timer_of g i l)"
proof
  show "timers_ok s" if "goldfish_timer_of g i l s" for s using that by (simp add: goldfish_timer_of_def)
  show "goldfish_timer_of g i l (timer_take l j s)" if "goldfish_timer_of g i l s" "active s l = j # xs" for s j xs
    using that take_ok by (auto simp: goldfish_timer_of_def timer_take_def)
  show "goldfish_timer_of g i l s'" if a: "goldfish_timer_of g i l s" "goldfish_cb g other k w s = Inr (w', s')" for s k w w' s'
  proof (cases "k = g")
    case False
    from other_runs [OF a(1) this, of "snd (snd w)"] show ?thesis using a(2) False by (auto simp: goldfish_cb_def split: prod.splits)
  qed (use a in \<open>auto simp: goldfish_cb_def res_bind_eq_Inr split: prod.splits\<close>)
  show "subseq (expired_in s' l now) (expired_in s l now)" if a: "goldfish_timer_of g i l s" "goldfish_cb g other k w s = Inr (w', s')" for s k w w' s'
  proof (cases "k = g")
    case False
    from other_runs [OF a(1) this, of "snd (snd w)"] show ?thesis using a(2) False by (auto simp: goldfish_cb_def split: prod.splits)
  qed (use a in \<open>auto simp: goldfish_cb_def res_bind_eq_Inr split: prod.splits\<close>)
qed

end

sublocale goldfish_neighbours \<subseteq> timer_callbacks "goldfish_cb g other" l now "goldfish_timer_of g i l"
  by (rule goldfish_callbacks)

context goldfish_neighbours
begin

lemma take_other:
  assumes "j \<noteq> i"
  shows "expire (timer_take l j s) i = expire s i" and "qt_cb (timer_at (timer_take l j s) k) = qt_cb (timer_at s k)"
  using assms by (simp_all add: timer_take_def)

lemma i_expired:
  assumes "goldfish_timer_of g i l s"
  shows "i \<in> set (expired_in s l now) \<longleftrightarrow> 0 \<le> expire s i \<and> expire s i \<le> now"
proof -
  have ok: "timers_ok s" and l: "qt_timer_list (timer_at s i) = l" using assms by (simp_all add: goldfish_timer_of_def)
  show ?thesis using active_iff [OF ok, of i] timers_okD(4) [OF ok, of i l] l by (auto simp: expired_in_def)
qed

text \<open>While the timer of the device has not expired, the device is left alone.\<close>

lemma fire_others:
  "goldfish_timer_of g i l s \<Longrightarrow> subseq (expired_in s l now) is \<Longrightarrow> distinct is \<Longrightarrow> i \<notin> set (expired_in s l now) \<Longrightarrow>
    \<exists>w' s' called. (\<forall>d os. fire (goldfish_cb g other) l now is (d, os, w) s = Inr ((d, os, w'), s', called)) \<and>
      goldfish_timer_of g i l s' \<and> expire s' i = expire s i"
proof (induction "is" arbitrary: w s)
  case (Cons j "is")
  show ?case
  proof (cases "j \<in> set (expired_in s l now)")
    case True
    note h = head_expired [OF Cons.prems(1-3) True]
    have ji: "j \<noteq> i" using True Cons.prems(4) by auto
    have "qt_cb (timer_at s j) \<noteq> g" using Cons.prems(1) ji by (simp add: goldfish_timer_of_def)
    from other_runs [OF h(3) this, of w] obtain w1 s1 where o: "other (qt_cb (timer_at s j)) w (timer_take l j s) = Inr (w1, s1)"
      "goldfish_timer_of g i l s1" "expire s1 i = expire s i" "subseq (expired_in s1 l now) is"
      using take_other(1) [OF ji] h(4) subseq_order.order_trans by auto
    have "i \<notin> set (expired_in s1 l now)" using Cons.prems(4) o(3) i_expired [OF o(2)] i_expired [OF Cons.prems(1)] by simp
    with Cons.IH [OF o(2,4)] Cons.prems(3) obtain w' s' called where
      "\<forall>d os. fire (goldfish_cb g other) l now is (d, os, w1) s1 = Inr ((d, os, w'), s', called)" "goldfish_timer_of g i l s'" "expire s' i = expire s1 i"
      by fastforce
    then show ?thesis using o(1,3) True \<open>qt_cb (timer_at s j) \<noteq> g\<close>
      by (intro exI [of _ w'] exI [of _ s'] exI [of _ "j # called"]) (simp add: goldfish_cb_cases)
  next
    case False
    then show ?thesis using Cons.IH [OF Cons.prems(1) not_expired [OF Cons.prems(2) False]] Cons.prems(3,4) by simp
  qed
qed auto

text \<open>When it has expired, the device ticks once.\<close>

lemma fire_device:
  "goldfish_timer_of g i l s \<Longrightarrow> subseq (expired_in s l now) is \<Longrightarrow> distinct is \<Longrightarrow> i \<in> set (expired_in s l now) \<Longrightarrow>
    \<exists>w' s' called. fire (goldfish_cb g other) l now is (d, os, w) s =
        res_bind (goldfish_timer_tick (d\<lparr>tm_timer := None\<rparr>)) (\<lambda>(d', os'). Inr ((d', os @ os', w'), s', called)) \<and>
      goldfish_timer_of g i l s' \<and> expire s' i = - 1"
proof (induction "is" arbitrary: w s)
  case Nil
  then show ?case by (cases "expired_in s l now") auto
next
  case (Cons j "is")
  show ?case
  proof (cases "j \<in> set (expired_in s l now)")
    case True
    note h = head_expired [OF Cons.prems(1-3) True]
    show ?thesis
    proof (cases "j = i")
      case ji: True
      have "qt_cb (timer_at s j) = g" using Cons.prems(1) ji by (simp add: goldfish_timer_of_def)
      moreover have e: "expire (timer_take l j s) i = - 1" by (simp add: timer_take_def ji)
      then have "i \<notin> set (expired_in (timer_take l j s) l now)" using i_expired [OF h(3)] by simp
      with fire_others [OF h(3,4)] Cons.prems(3) obtain w' s' called where
        "\<forall>d os. fire (goldfish_cb g other) l now is (d, os, w) (timer_take l j s) = Inr ((d, os, w'), s', called)" "goldfish_timer_of g i l s'" "expire s' i = - 1"
        using e by fastforce
      ultimately show ?thesis using True
        by (intro exI [of _ w'] exI [of _ s'] exI [of _ "j # called"])
          (cases "goldfish_timer_tick (d\<lparr>tm_timer := None\<rparr>)", auto simp: goldfish_cb_cases)
    next
      case ji: False
      have n: "qt_cb (timer_at s j) \<noteq> g" using Cons.prems(1) ji by (simp add: goldfish_timer_of_def)
      from other_runs [OF h(3) this, of w] obtain w1 s1 where o: "other (qt_cb (timer_at s j)) w (timer_take l j s) = Inr (w1, s1)"
        "goldfish_timer_of g i l s1" "expire s1 i = expire s i" "subseq (expired_in s1 l now) is"
        using take_other(1) [OF ji] h(4) subseq_order.order_trans by auto
      have "i \<in> set (expired_in s1 l now)" using Cons.prems(4) o(3) i_expired [OF o(2)] i_expired [OF Cons.prems(1)] by simp
      with Cons.IH [OF o(2,4)] Cons.prems(3) obtain w' s' called where
        "fire (goldfish_cb g other) l now is (d, os, w1) s1 =
          res_bind (goldfish_timer_tick (d\<lparr>tm_timer := None\<rparr>)) (\<lambda>(d', os'). Inr ((d', os @ os', w'), s', called))"
        "goldfish_timer_of g i l s'" "expire s' i = - 1"
        by fastforce
      then show ?thesis using o(1) True n
        by (intro exI [of _ w'] exI [of _ s'] exI [of _ "j # called"])
          (cases "goldfish_timer_tick (d\<lparr>tm_timer := None\<rparr>)", auto simp: goldfish_cb_cases)
    qed
  next
    case False
    then show ?thesis using Cons.IH [OF Cons.prems(1) not_expired [OF Cons.prems(2) False]] Cons.prems(3,4) by simp
  qed
qed

end

text \<open>A neighbour that sets a timer of its own to a later time again and again, as a periodic timer does.\<close>

definition periodic_cb :: "nat \<Rightarrow> int \<Rightarrow> nat callbacks" where
  "periodic_cb j t k w s = Inr (w + 1, fst (timer_mod_ns j t s))"

lemma mod_ns_fields:
  "expire (fst (timer_mod_ns j t s)) i = (if i = j then max t 0 else expire s i)"
  "qt_timer_list (timer_at (fst (timer_mod_ns j t s)) i) = qt_timer_list (timer_at s i)" "qt_cb (timer_at (fst (timer_mod_ns j t s)) i) = qt_cb (timer_at s i)"
  by (simp_all add: timer_mod_ns_def timer_mod_ns_locked_def timer_del_locked_def Let_def)

interpretation periodic: goldfish_neighbours g 7 l 10 "periodic_cb 8 100" for g l
proof
  fix s :: timers and k w :: nat
  assume "goldfish_timer_of g 7 l s" and "k \<noteq> g"
  then show "\<exists>w' s'. periodic_cb 8 100 k w s = Inr (w', s') \<and> goldfish_timer_of g 7 l s' \<and> expire s' 7 = expire s 7 \<and>
      subseq (expired_in s' l 10) (expired_in s l 10)"
    using mod_ok(1) [of s 8 100] mod_expired [of s 10 100 8 l] by (simp add: periodic_cb_def goldfish_timer_of_def mod_ns_fields subseq_filter_left)
qed

definition pending_at :: "timers \<Rightarrow> nat \<Rightarrow> u64 option" where
  "pending_at s i = (if timer_pending s i then Some (word_of_int (expire s i)) else None)"

lemma sint_word_of_int: "INT64_MIN \<le> x \<Longrightarrow> x \<le> INT64_MAX \<Longrightarrow> sint (word_of_int x :: u64) = x"
  by (simp add: INT64_MIN_def INT64_MAX_def sint_sbintrunc' signed_take_bit_int_eq_self)

lemma set_done_simps [simp]:
  "active (set_done l b s) k = active s k" "expire (set_done l b s) i = expire s i" "timer_at (set_done l b s) = timer_at s"
  "qemu_clocks (set_done l b s) = qemu_clocks s" "tl_clock (list_at (set_done l b s) k) = tl_clock (list_at s k)"
  by (simp_all add: active_def expire_def set_done_def)

lemma set_done_ok [simp]: "timers_ok (set_done l b s) = timers_ok s"
  by (rule timers_ok_cong) simp_all

section \<open>Deadlines are minima\<close>

lemma soonest_nonneg:
  assumes "- 1 \<le> a" and "a \<le> INT64_MAX" and "- 1 \<le> b" and "b \<le> INT64_MAX"
  shows "qemu_soonest_timeout a b = (if a < 0 then b else if b < 0 then a else min a b)"
proof -
  have m: "x mod 2 ^ 64 = (if x < 0 then 2 ^ 64 - 1 else x)" if "- 1 \<le> x" "x \<le> INT64_MAX" for x :: int
  proof (cases "x < 0")
    case True
    then have "x = - 1" using that by simp
    then show ?thesis by simp
  qed (use that in \<open>simp add: INT64_MAX_def\<close>)
  show ?thesis unfolding qemu_soonest_timeout_def m [OF assms(1,2)] m [OF assms(3,4)] using assms by (auto simp: INT64_MAX_def)
qed

text \<open>The expiry times of the timers of some lists, and the delay until the first of them.\<close>

definition expiries :: "timers \<Rightarrow> nat list \<Rightarrow> int list" where
  "expiries s ls = concat (map (\<lambda>l. map (expire s) (active s l)) ls)"

definition delay :: "int \<Rightarrow> int list \<Rightarrow> int" where
  "delay now ts = (if ts = [] then - 1 else max 0 (Min (set ts) - now))"

definition clock_time :: "host_clocks \<Rightarrow> QEMUClockType \<Rightarrow> int" where
  "clock_time h type =
     (case type of
        QEMU_CLOCK_REALTIME \<Rightarrow> get_clock h
      | QEMU_CLOCK_VIRTUAL \<Rightarrow> if use_icount h then cpu_get_icount h else cpu_get_clock h
      | QEMU_CLOCK_HOST \<Rightarrow> get_clock_realtime h)"

lemma get_ns_time:
  "fst (qemu_clock_get_ns h type s) = clock_time h type"
  by (cases type) (simp_all add: clock_time_def qemu_clock_get_ns_def Let_def)

lemma Min_sorted: "sorted (x # xs) \<Longrightarrow> Min (set (x # xs)) = (x :: 'a :: linorder)"
  by (intro Min_eqI) auto

lemma deadline_list:
  assumes ok: "timers_ok s" and en: "ck_enabled (qemu_clocks s (tl_clock (list_at s l)))" and host: "tl_clock (list_at s l) = type" "type \<noteq> QEMU_CLOCK_HOST"
    and now: "0 \<le> clock_time h type" and t: "\<forall>t \<in> set (expiries s [l]). t \<le> INT64_MAX"  and now2: "clock_time h type \<le> INT64_MAX"
  shows "timerlist_deadline_ns h s l = Inr (delay (clock_time h type) (expiries s [l]), s, [])"
proof (cases "active s l")
  case Nil
  then show ?thesis using en by (simp add: timerlist_deadline_ns_def delay_def expiries_def)
next
  case (Cons i xs)
  have "Min (set (expiries s [l])) = expire s i" using timers_okD(1) [OF ok, of l] Cons Min_sorted [of "expire s i" "map (expire s) xs"]
    by (simp add: expiries_def)
  moreover have "0 \<le> expire s i" "expire s i \<le> INT64_MAX" using timers_okD(4) [OF ok, of i l] t Cons by (auto simp: expiries_def)
  moreover have "qemu_clock_get_ns h type s = (clock_time h type, s, [])"
    using host(2) get_ns_time [of h type s] by (cases type) (simp_all add: qemu_clock_get_ns_def)
  moreover have "expiries s [l] \<noteq> []" using Cons by (simp add: expiries_def)
  ultimately show ?thesis using en host Cons now now2
    by (auto simp: timerlist_deadline_ns_def delay_def int64_def INT64_MIN_def INT64_MAX_def)
qed

lemma delay_append:
  assumes "\<forall>t \<in> set (ts @ us). t \<le> INT64_MAX" and "0 \<le> now"
  shows "qemu_soonest_timeout (delay now ts) (delay now us) = delay now (ts @ us)"
proof -
  have b: "- 1 \<le> delay now vs \<and> delay now vs \<le> INT64_MAX" if "\<forall>t \<in> set vs. t \<le> INT64_MAX" for vs
  proof (cases "vs = []")
    case False
    then have "Min (set vs) \<in> set vs" by simp
    then have "Min (set vs) \<le> INT64_MAX" using that by blast
    then show ?thesis using False assms(2) by (simp add: delay_def INT64_MAX_def)
  qed (simp add: delay_def INT64_MAX_def)
  have bt: "- 1 \<le> delay now ts" "delay now ts \<le> INT64_MAX" "- 1 \<le> delay now us" "delay now us \<le> INT64_MAX" using b [of ts] b [of us] assms(1) by auto
  have m: "Min (set ts \<union> set us) = min (Min (set ts)) (Min (set us))" if "ts \<noteq> []" "us \<noteq> []" using that by (intro Min_Un) auto
  show ?thesis unfolding soonest_nonneg [OF bt] by (auto simp: delay_def m)
qed

lemma deadline_loop_disabled:
  assumes "\<not> ck_enabled (qemu_clocks s type)"
  shows "\<forall>l \<in> set ls. tl_clock (list_at s l) = type \<Longrightarrow> deadline_loop h ls (- 1) s = Inr (- 1, s, [])"
proof (induction ls)
  case (Cons l ls)
  then have "timerlist_deadline_ns h s l = Inr (- 1, s, [])" using assms by (simp add: timerlist_deadline_ns_def)
  moreover have "qemu_soonest_timeout (- 1) (- 1) = - 1" by (simp add: qemu_soonest_timeout_def)
  ultimately show ?case using Cons by simp
qed simp

lemma deadline_loop_delay:
  assumes "timers_ok s" and "type \<noteq> QEMU_CLOCK_HOST" and "0 \<le> clock_time h type" and "clock_time h type \<le> INT64_MAX"
    and "ck_enabled (qemu_clocks s type)"
  shows "\<forall>l \<in> set ls. tl_clock (list_at s l) = type \<Longrightarrow> \<forall>t \<in> set (ts @ expiries s ls). t \<le> INT64_MAX \<Longrightarrow>
    deadline_loop h ls (delay (clock_time h type) ts) s = Inr (delay (clock_time h type) (ts @ expiries s ls), s, [])"
proof (induction ls arbitrary: ts)
  case Nil
  then show ?case by (simp add: expiries_def)
next
  case (Cons l ls)
  have e: "expiries s (l # ls) = expiries s [l] @ expiries s ls" by (simp add: expiries_def)
  have l: "timerlist_deadline_ns h s l = Inr (delay (clock_time h type) (expiries s [l]), s, [])"
    using Cons.prems assms by (intro deadline_list) (auto simp: e)
  have "qemu_soonest_timeout (delay (clock_time h type) ts) (delay (clock_time h type) (expiries s [l])) = delay (clock_time h type) (ts @ expiries s [l])"
    using Cons.prems assms(3) by (intro delay_append) (auto simp: e)
  moreover have "deadline_loop h ls (delay (clock_time h type) (ts @ expiries s [l])) s = Inr (delay (clock_time h type) ((ts @ expiries s [l]) @ expiries s ls), s, [])"
    using Cons.prems by (intro Cons.IH) (auto simp: e)
  ultimately show ?case by (simp add: l e)
qed

section \<open>Properties\<close>

text \<open>A machine with the three main lists, a timer on the virtual clock for each number, and clocks that show one moment.\<close>

definition main_list :: "QEMUClockType \<Rightarrow> nat" where
  "main_list type = (case type of QEMU_CLOCK_REALTIME \<Rightarrow> 0 | QEMU_CLOCK_VIRTUAL \<Rightarrow> 1 | QEMU_CLOCK_HOST \<Rightarrow> 2)"

definition fresh_timers :: timers where
  "fresh_timers = init_clocks main_list
     \<lparr>timer_at = (\<lambda>_. \<lparr>qt_expire_time = - 1, qt_timer_list = 1, qt_cb = 0, qt_scale = 1\<rparr>),
      list_at = (\<lambda>_. \<lparr>tl_clock = QEMU_CLOCK_REALTIME, tl_active_timers = [], tl_notify_cb = None, tl_timers_done = False\<rparr>),
      qemu_clocks = (\<lambda>_. \<lparr>ck_timerlists = [], ck_reset_notifiers = [], ck_last = 0, ck_enabled = False\<rparr>),
      main_loop_tlg = (\<lambda>_. 0)\<rparr>"

definition clocks_at :: "int \<Rightarrow> host_clocks" where
  "clocks_at t = \<lparr>use_icount = False, get_clock = t, cpu_get_icount = t, cpu_get_clock = t, get_clock_realtime = t\<rparr>"

lemmas fresh_defs = fresh_timers_def init_clocks_def all_clocks_def qemu_clock_init_def timerlist_new_def main_list_def Let_def

lemma fresh_no_timers: "no_timers fresh_timers"
  by (simp add: no_timers_def fresh_defs active_def expire_def split: if_splits)

text \<open>C20: From a machine without active timers, whatever the operations on timers, lists and clocks and whatever their order, every list of active
  timers stays sorted by expiry time and free of duplicates, and a timer is pending exactly when it is in the list it belongs to.\<close>

theorem timers_sorted:
  assumes "no_timers s" and "timer_step\<^sup>*\<^sup>* s s'"
  shows "sorted (map (expire s') (active s' l)) \<and> distinct (active s' l) \<and>
    (timer_pending s' i \<longleftrightarrow> i \<in> set (active s' (qt_timer_list (timer_at s' i))))"
proof -
  have "timers_ok s'" using timer_steps_ok [OF assms(2)] no_timers_ok [OF assms(1)] by blast
  note ok = timers_okD [OF this] active_iff [OF this, of i]
  have "timer_pending s' i \<longleftrightarrow> i \<in> set (active s' (qt_timer_list (timer_at s' i)))"
    using ok(4) [of i "qt_timer_list (timer_at s' i)"] ok(6) by (auto simp: timer_pending_def)
  then show ?thesis using ok(1,2) by blast
qed

theorem timers_sorted_witness:
  "let s = fst (timer_mod_ns 1 20 (fst (timer_mod_ns 2 30 (fst (timer_mod_ns 1 40 fresh_timers)))))
   in active s 1 = [1, 2] \<and> sorted (map (expire s) (active s 1)) \<and> timer_pending s 1"
proof -
  define s where "s = fst (timer_mod_ns 1 20 (fst (timer_mod_ns 2 30 (fst (timer_mod_ns 1 40 fresh_timers)))))"
  have "timer_step\<^sup>*\<^sup>* fresh_timers s" unfolding s_def
    by (rule rtranclp.intros(2) [OF rtranclp.intros(2) [OF rtranclp.intros(2) [OF rtranclp.intros(1)]]]) (rule timer_step.modify)+
  from timers_sorted [OF fresh_no_timers this, of 1 1]
  have "sorted (map (expire s) (active s 1))" "timer_pending s 1 \<longleftrightarrow> 1 \<in> set (active s (qt_timer_list (timer_at s 1)))" by simp_all
  moreover have "active s 1 = [1, 2]" "qt_timer_list (timer_at s 1) = 1"
    by (simp_all add: s_def timer_mod_ns_def timer_mod_ns_locked_def timer_del_locked_def Let_def fresh_defs set_active_def set_expire_def active_def expire_def timer_expired_ns_def)
  ultimately show ?thesis unfolding s_def [symmetric] Let_def by simp
qed

text \<open>C19: Running the timers of a list ends and leaves no expired timer, when the callbacks, in the states of some invariant that is kept, add no expired timer to
  the list; they may delete timers and set them, their own too, to a later time. The timers that had expired get their turn in the order of
  their expiry times, and each that has not been deleted or set to a later time meanwhile is taken off the list and called once, until a callback
  fails; progress is reported when one was called. With the clock disabled nothing runs.\<close>

theorem expired_timers_run:
  assumes inv: "\<And>s. good s \<Longrightarrow> timers_ok s" "\<And>s i xs. good s \<Longrightarrow> active s l = i # xs \<Longrightarrow> good (timer_take l i s)"
    and cb: "\<And>s k w w' s'. good s \<Longrightarrow> cb k w s = Inr (w', s') \<Longrightarrow> good s' \<and> subseq (expired_in s' l now) (expired_in s l now)"
    and now: "qemu_clock_get_ns h (tl_clock (list_at s l)) (set_done l False s) = (now, s1, os)" and s1: "good s1"
  shows "timerlist_run_timers cb h l w s = Some
      (if ck_enabled (qemu_clocks s (tl_clock (list_at s l)))
       then res_bind (fire cb l now (expired_in s l now) w s1) (\<lambda>(w', s', called). Inr (w', set_done l True s', called \<noteq> [], os))
       else Inr (w, set_done l True s, False, [])) \<and>
    (\<forall>w' s' called. fire cb l now (expired_in s l now) w s1 = Inr (w', s', called) \<longrightarrow> expired_in s' l now = [] \<and> subseq called (expired_in s l now))"
proof -
  have c: "timer_callbacks cb l now good" using inv cb by unfold_locales blast+
  note f = get_ns_fields [OF now] get_ns_simps [OF now]
  have e: "expired_in s1 l now = expired_in s l now" using f by (simp add: expired_in_def)
  have d: "distinct (expired_in s l now)" using timers_okD(2) [OF inv(1) [OF s1], of l] f by (simp add: expired_in_def)
  have "subseq (expired_in s1 l now) (expired_in s l now)" by (simp add: e)
  note r = timer_callbacks.run_fires [OF c s1 this d, of False w] timer_callbacks.fire_done [OF c s1 this d, of w]
  have "timerlist_run_timers cb h l w s = Some
      (if ck_enabled (qemu_clocks s (tl_clock (list_at s l)))
       then res_bind (fire cb l now (expired_in s l now) w s1) (\<lambda>(w', s', called). Inr (w', set_done l True s', called \<noteq> [], os))
       else Inr (w, set_done l True s, False, []))"
    using now r(1)
    by (cases "fire cb l now (expired_in s l now) w s1") (auto simp: timerlist_run_timers_def Let_def set_done_def split: prod.splits)
  then show ?thesis using r(2) by blast
qed

lemma fresh_main: "tl_clock (list_at fresh_timers 1) = QEMU_CLOCK_VIRTUAL" "ck_enabled (qemu_clocks fresh_timers QEMU_CLOCK_VIRTUAL)"
  "ck_timerlists (qemu_clocks fresh_timers QEMU_CLOCK_VIRTUAL) = [1]" "qt_timer_list (timer_at fresh_timers i) = 1" "active fresh_timers l = []"
  by (simp_all add: fresh_defs active_def)

text \<open>One timer of the virtual clock is pending.\<close>

definition one_timer :: "int \<Rightarrow> timers" where
  "one_timer t = fst (timer_mod_ns 7 t fresh_timers)"

lemma one_timer_ok: "timers_ok (one_timer t)"
  unfolding one_timer_def using mod_ok(1) no_timers_ok [OF fresh_no_timers] by blast

lemma one_timer_fields:
  "active (one_timer t) 1 = [7]" "expire (one_timer t) 7 = max t 0" "tl_clock (list_at (one_timer t) 1) = QEMU_CLOCK_VIRTUAL"
  "qemu_clocks (one_timer t) = qemu_clocks fresh_timers" "qt_timer_list (timer_at (one_timer t) i) = 1"
  using fresh_main
  by (simp_all add: one_timer_def timer_mod_ns_def timer_mod_ns_locked_def timer_del_locked_def Let_def set_active_def set_expire_def active_def expire_def)

text \<open>Three timers have expired; the callback of the first sets its timer to a later time and deletes the second, so the first and the third are called.\<close>

definition three_timers :: timers where
  "three_timers = fst (timer_mod_ns 3 3 (fst (timer_mod_ns 2 2 (fst (timer_mod_ns 1 1 fresh_timers)))))"

definition deleting_cb :: "nat callbacks" where
  "deleting_cb k w s = Inr (w + 1, timer_del 2 (fst (timer_mod_ns 1 100 s)))"

lemma three_timers_ok: "timers_ok three_timers"
  unfolding three_timers_def using mod_ok(1) no_timers_ok [OF fresh_no_timers] by blast

lemma three_timers_fields:
  "active three_timers 1 = [1, 2, 3]" "map (expire three_timers) [1, 2, 3] = [1, 2, 3]" "tl_clock (list_at three_timers 1) = QEMU_CLOCK_VIRTUAL"
  "qemu_clocks three_timers = qemu_clocks fresh_timers" "qt_timer_list (timer_at three_timers i) = 1"
  using fresh_main
  by (simp_all add: three_timers_def timer_mod_ns_def timer_mod_ns_locked_def timer_del_locked_def Let_def set_active_def set_expire_def active_def expire_def timer_expired_ns_def)

theorem expired_timers_run_witness:
  "\<exists>w s. timerlist_run_timers deleting_cb (clocks_at 10) 1 0 three_timers = Some (Inr (w, s, True, [])) \<and> w = 2 \<and> active s 1 = [1] \<and> expire s 1 = 100"
proof -
  let ?s1 = "set_done 1 False three_timers"
  have n: "qemu_clock_get_ns (clocks_at 10) (tl_clock (list_at three_timers 1)) ?s1 = (10, ?s1, [])"
    using three_timers_fields(3) by (simp add: qemu_clock_get_ns_def clocks_at_def)
  have ok: "timers_ok ?s1" using three_timers_ok by simp
  have cb: "timers_ok s' \<and> subseq (expired_in s' 1 10) (expired_in s 1 10)" if "timers_ok s" "deleting_cb k w s = Inr (w', s')" for s k w w' s'
  proof -
    have m: "timers_ok (fst (timer_mod_ns 1 100 s))" using mod_ok(1) [OF that(1)] .
    show ?thesis using that del_ok(1) [OF m refl] del_expired [OF m, of 2 1 10] mod_expired [OF that(1), of 10 100 1 1]
      by (auto simp: deleting_cb_def timer_del_def intro!: subseq_order.order_trans [OF subseq_filter_left subseq_filter_left])
  qed
  have e: "expired_in three_timers 1 10 = [1, 2, 3]" using three_timers_fields(1,2) by (simp add: expired_in_def)
  have en: "ck_enabled (qemu_clocks three_timers (tl_clock (list_at three_timers 1)))" using three_timers_fields(3,4) fresh_main(2) by simp
  note r = expired_timers_run [where good = timers_ok and cb = deleting_cb and w = 0, OF _ take_ok cb n ok, unfolded e]
  have "case fire deleting_cb 1 10 [1, 2, 3] 0 ?s1 of Inl e \<Rightarrow> False | Inr (w, s, c) \<Rightarrow> w = 2 \<and> c = [1, 3] \<and> active s 1 = [1] \<and> expire s 1 = 100" by code_simp
  then have "\<exists>s. fire deleting_cb 1 10 [1, 2, 3] 0 ?s1 = Inr (2, s, [1, 3]) \<and> active s 1 = [1] \<and> expire s 1 = 100"
    by (auto simp del: fire.simps split: sum.splits)
  then show ?thesis using r en by (auto simp del: fire.simps)
qed

lemma pending_mod: "timers_ok s \<Longrightarrow> pending_at (fst (timer_mod_ns i t s)) i = Some (word_of_int (max t 0))"
  using mod_ok(2) [of s i t] by (simp add: pending_at_def timer_pending_def)

lemma pending_del: "timers_ok s \<Longrightarrow> pending_at (timer_del i s) i = None"
  using del_ok(2) [of s _ i] by (simp add: pending_at_def timer_pending_def timer_del_def)

lemma pending_take: "pending_at (timer_take l i s) i = None"
  by (simp add: pending_at_def timer_pending_def timer_take_def)

lemma pending_set_done: "pending_at (set_done l b s) i = pending_at s i"
  by (simp add: pending_at_def timer_pending_def)

lemma timer_run_pending:
  assumes "tm_timer d = pending_at s i" and "expire s i \<le> INT64_MAX"
  shows "timer_run now d =
    (if timer_pending s i \<and> expire s i \<le> sint now then goldfish_timer_tick (d\<lparr>tm_timer := None\<rparr>) else Inr (d, []))"
proof (cases "timer_pending s i")
  case True
  then have "sint (word_of_int (expire s i) :: u64) = expire s i"
    using assms(2) by (intro sint_word_of_int) (simp_all add: timer_pending_def INT64_MIN_def)
  then show ?thesis using assms(1) True by (simp add: timer_run_def pending_at_def)
qed (use assms in \<open>simp add: timer_run_def pending_at_def\<close>)

text \<open>C21: Running the timers of the list that holds the timer of the goldfish timer device does to the device what the device model takes the clock to
  do. The list belongs to the enabled virtual clock and may hold other timers, whose callbacks always return, set no expired timer in the list and leave the
  timer of the device and its callback to the device. The callback of the device is called when the pending expiry time has come, once, and not
  before; its interrupts, its fault and the new state of the device are those of the tick, and the expiry time of the device is again the one that is pending in the list.\<close>

theorem goldfish_timer_fires:
  assumes other: "\<And>s k w. goldfish_timer_of g i l s \<Longrightarrow> k \<noteq> g \<Longrightarrow> \<exists>w' s'. other k w s = Inr (w', s') \<and> goldfish_timer_of g i l s' \<and>
      expire s' i = expire s i \<and> subseq (expired_in s' l (sint now)) (expired_in s l (sint now))"
    and s: "goldfish_timer_of g i l s"
    and clock: "tl_clock (list_at s l) = QEMU_CLOCK_VIRTUAL" "ck_enabled (qemu_clocks s QEMU_CLOCK_VIRTUAL)" "clock_time h QEMU_CLOCK_VIRTUAL = sint now"
    and range: "expire s i \<le> INT64_MAX" and d: "tm_timer d = pending_at s i"
  shows "\<exists>w' s' progress. goldfish_timer_of g i l s' \<and>
    timerlist_run_timers (goldfish_cb g other) h l (d, [], w) s = Some (res_bind (timer_run now d) (\<lambda>(d', os). Inr ((d', os, w'), s', progress, []))) \<and>
    (\<forall>d' os. timer_run now d = Inr (d', os) \<longrightarrow> tm_timer d' = pending_at s' i)"
proof -
  have N: "goldfish_neighbours g i l (sint now) other" using other by unfold_locales blast
  note T = goldfish_neighbours.goldfish_callbacks [OF N]
  define s1 where "s1 = set_done l False s"
  let ?e = "expired_in s l (sint now)"
  have g: "qemu_clock_get_ns h (tl_clock (list_at s l)) s1 = (sint now, s1, [])"
    using clock by (simp add: qemu_clock_get_ns_def clock_time_def)
  have s1: "goldfish_timer_of g i l s1" "expire s1 i = expire s i" "expired_in s1 l (sint now) = ?e" using s
    by (simp_all add: s1_def goldfish_timer_of_def expired_in_def)
  have dis: "distinct ?e" using s timers_okD(2) by (simp add: goldfish_timer_of_def expired_in_def)
  have sub: "subseq (expired_in s1 l (sint now)) ?e" by (simp add: s1(3))
  have r: "timerlist_run_timers (goldfish_cb g other) h l (d, [], w) s = Some
      (res_bind (fire (goldfish_cb g other) l (sint now) ?e (d, [], w) s1) (\<lambda>(w', s', called). Inr (w', set_done l True s', called \<noteq> [], [])))"
    using g clock timer_callbacks.run_fires [OF T s1(1) sub dis, of False "(d, [], w)"]
    by (cases "fire (goldfish_cb g other) l (sint now) ?e (d, [], w) s1") (auto simp: timerlist_run_timers_def Let_def s1_def split: prod.splits)
  have set_done_of: "goldfish_timer_of g i l (set_done l True s') = goldfish_timer_of g i l s'" for s' by (simp add: goldfish_timer_of_def)
  note t = timer_run_pending [OF d range, of now] and x = goldfish_neighbours.i_expired [OF N s]
  show ?thesis
  proof (cases "i \<in> set ?e")
    case True
    with goldfish_neighbours.fire_device [OF N s1(1) sub dis, of d "[]" w] s1(3) obtain w' s' called where
      f: "fire (goldfish_cb g other) l (sint now) ?e (d, [], w) s1 =
          res_bind (goldfish_timer_tick (d\<lparr>tm_timer := None\<rparr>)) (\<lambda>(d', os'). Inr ((d', os', w'), s', called))" "goldfish_timer_of g i l s'" "expire s' i = - 1" by auto
    have n: "timer_run now d = goldfish_timer_tick (d\<lparr>tm_timer := None\<rparr>)" using True x t by (simp add: timer_pending_def)
    have "timer_run now d = Inr (d', os) \<Longrightarrow> tm_timer d' = None" for d' os unfolding n by (auto simp: goldfish_timer_tick_def res_bind_eq_Inr)
    moreover have "pending_at (set_done l True s') i = None" using f(3) by (simp add: pending_at_def timer_pending_def)
    moreover have "timerlist_run_timers (goldfish_cb g other) h l (d, [], w) s =
      Some (res_bind (timer_run now d) (\<lambda>(d', os). Inr ((d', os, w'), set_done l True s', called \<noteq> [], [])))"
      unfolding r f(1) n by (cases "goldfish_timer_tick (d\<lparr>tm_timer := None\<rparr>)") auto
    ultimately show ?thesis using f(2) set_done_of by (intro exI [of _ w'] exI [of _ "set_done l True s'"] exI [of _ "called \<noteq> []"]) auto
  next
    case False
    with goldfish_neighbours.fire_others [OF N s1(1) sub dis, of w] s1(2,3) obtain w' s' called where
      f: "fire (goldfish_cb g other) l (sint now) ?e (d, [], w) s1 = Inr ((d, [], w'), s', called)" "goldfish_timer_of g i l s'" "expire s' i = expire s i" by auto
    have n: "timer_run now d = Inr (d, [])" using False x t by (auto simp: timer_pending_def)
    moreover have "pending_at (set_done l True s') i = pending_at s i" using f(3) by (simp add: pending_at_def timer_pending_def)
    ultimately show ?thesis using r f d set_done_of
      by (intro exI [of _ w'] exI [of _ "set_done l True s'"] exI [of _ "called \<noteq> []"]) auto
  qed
qed

text \<open>The device's timer and a periodic one have both expired.\<close>

definition two_timers :: timers where
  "two_timers = fst (timer_mod_ns 8 3 (fst (timer_mod_ns 7 5 (timer_init 7 1 1 4 fresh_timers))))"

lemma two_timers_goldfish: "goldfish_timer_of 4 7 1 two_timers"
proof -
  have i: "timers_ok (timer_init 7 1 1 4 fresh_timers)" using fresh_main(5) by (intro init_timer_ok no_timers_ok fresh_no_timers) simp
  have "qt_cb (timer_at (timer_init 7 1 1 4 fresh_timers) j) = 4 \<longleftrightarrow> j = 7" "qt_timer_list (timer_at (timer_init 7 1 1 4 fresh_timers) 7) = 1" for j
    by (simp_all add: timer_init_def fresh_defs)
  then show ?thesis using mod_ok(1) [OF mod_ok(1) [OF i]] by (simp add: goldfish_timer_of_def two_timers_def mod_ns_fields)
qed

theorem goldfish_timer_fires_witness:
  "\<exists>w' s' progress. timerlist_run_timers (goldfish_cb 4 (periodic_cb 8 100)) (clocks_at 10) 1 ((initial_timer 0 3)\<lparr>tm_timer := Some 5\<rparr>, [], 0) two_timers =
      Some (res_bind (timer_run 10 ((initial_timer 0 3)\<lparr>tm_timer := Some 5\<rparr>)) (\<lambda>(d', os). Inr ((d', os, w'), s', progress, []))) \<and> pending_at s' 7 = None"
proof -
  let ?d = "(initial_timer 0 3)\<lparr>tm_timer := Some 5\<rparr>"
  have s10: "sint (10 :: u64) = 10" by simp
  have f: "expire two_timers 7 = 5" "tl_clock (list_at two_timers 1) = QEMU_CLOCK_VIRTUAL" "qemu_clocks two_timers = qemu_clocks fresh_timers"
    using fresh_main(1,4)
    by (simp_all add: two_timers_def timer_mod_ns_def timer_mod_ns_locked_def timer_del_locked_def Let_def set_active_def set_expire_def expire_def timer_init_def)
  have "\<exists>w' s' progress. goldfish_timer_of 4 7 1 s' \<and>
    timerlist_run_timers (goldfish_cb 4 (periodic_cb 8 100)) (clocks_at 10) 1 (?d, [], 0) two_timers =
      Some (res_bind (timer_run 10 ?d) (\<lambda>(d', os). Inr ((d', os, w'), s', progress, []))) \<and>
    (\<forall>d' os. timer_run 10 ?d = Inr (d', os) \<longrightarrow> tm_timer d' = pending_at s' 7)"
  proof (rule goldfish_timer_fires [OF _ two_timers_goldfish])
    show "\<exists>w' s'. periodic_cb 8 100 k w s = Inr (w', s') \<and> goldfish_timer_of 4 7 1 s' \<and> expire s' 7 = expire s 7 \<and>
        subseq (expired_in s' 1 (sint (10 :: u64))) (expired_in s 1 (sint (10 :: u64)))" if "goldfish_timer_of 4 7 1 s" "k \<noteq> 4" for s k w
      unfolding s10 by (rule periodic.other_runs [OF that])
    show "clock_time (clocks_at 10) QEMU_CLOCK_VIRTUAL = sint (10 :: u64)" by (simp add: clock_time_def clocks_at_def)
    show "tm_timer ?d = pending_at two_timers 7" "expire two_timers 7 \<le> INT64_MAX" using f(1) by (simp_all add: pending_at_def timer_pending_def INT64_MAX_def)
    show "ck_enabled (qemu_clocks two_timers QEMU_CLOCK_VIRTUAL)" using f(3) fresh_main(2) by simp
  qed (rule f(2))
  moreover have "\<exists>d' os. timer_run 10 ?d = Inr (d', os) \<and> tm_timer d' = None"
    by (simp add: timer_run_def goldfish_timer_tick_def initial_timer_def goldfish_device_set_irq_def)
  ultimately show ?thesis by metis
qed

text \<open>The deadline of a clock, over all its lists, is the time until the first of all their timers expires, zero when one has expired, and
  \<open>-1\<close> when no timer is active or the clock is disabled. The clock is the real-time or the virtual one and shows a time from zero to the largest
  64-bit integer, and so do the expiry times. (The host clock, whose reading changes the state of the clock, is left out.)\<close>

theorem clock_deadline:
  assumes "timers_ok s" and "type \<noteq> QEMU_CLOCK_HOST"
    and "\<forall>l \<in> set (ck_timerlists (qemu_clocks s type)). tl_clock (list_at s l) = type"
    and "0 \<le> clock_time h type" and "clock_time h type \<le> INT64_MAX"
    and "\<forall>t \<in> set (expiries s (ck_timerlists (qemu_clocks s type))). t \<le> INT64_MAX"
  shows "qemu_clock_deadline_ns_all h type s =
    Inr (let ts = expiries s (ck_timerlists (qemu_clocks s type))
         in if ts = [] \<or> \<not> ck_enabled (qemu_clocks s type) then - 1 else max 0 (Min (set ts) - clock_time h type), s, [])"
proof (cases "ck_enabled (qemu_clocks s type)")
  case True
  then show ?thesis using deadline_loop_delay [OF assms(1,2,4,5) True, of "ck_timerlists (qemu_clocks s type)" "[]"] assms(3,6)
    by (simp add: qemu_clock_deadline_ns_all_def delay_def Let_def)
next
  case False
  then show ?thesis using deadline_loop_disabled [OF False assms(3)] by (simp add: qemu_clock_deadline_ns_all_def Let_def)
qed

theorem clock_deadline_witness:
  "qemu_clock_deadline_ns_all (clocks_at 10) QEMU_CLOCK_VIRTUAL (one_timer 45) = Inr (35, one_timer 45, [])"
proof -
  have e: "expiries (one_timer 45) (ck_timerlists (qemu_clocks (one_timer 45) QEMU_CLOCK_VIRTUAL)) = [45]"
    using one_timer_fields fresh_main by (simp add: expiries_def)
  have c: "clock_time (clocks_at 10) QEMU_CLOCK_VIRTUAL = 10" by (simp add: clock_time_def clocks_at_def)
  have l: "\<forall>l \<in> set (ck_timerlists (qemu_clocks (one_timer 45) QEMU_CLOCK_VIRTUAL)). tl_clock (list_at (one_timer 45) l) = QEMU_CLOCK_VIRTUAL"
    and k: "ck_enabled (qemu_clocks (one_timer 45) QEMU_CLOCK_VIRTUAL)" using one_timer_fields fresh_main by simp_all
  show ?thesis
    using clock_deadline [OF one_timer_ok _ l, where h = "clocks_at 10"] k unfolding e c by (simp add: INT64_MAX_def)
qed

text \<open>A list whose first timer expires at this very moment runs it, and yet \<open>timerlist_expired\<close> says that it has no expired timer.\<close>

theorem expired_now_not_reported:
  "timerlist_expired (clocks_at 5) (one_timer 5) 1 = (False, one_timer 5, []) \<and> expired_in (one_timer 5) 1 5 = [7]"
  using one_timer_fields by (simp add: timerlist_expired_def qemu_clock_get_ns_def clocks_at_def expired_in_def)

text \<open>A callback that sets its timer to a time that has passed is called again and again: the loop does not end.\<close>

definition rearm_cb :: "unit callbacks" where
  "rearm_cb k w s = Inr (w, fst (timer_mod_ns 7 5 s))"

lemma rearm_again:
  assumes "timers_ok s" and "active s 1 = [7]" and "expire s 7 \<le> 10"
  defines "s' \<equiv> fst (timer_mod_ns 7 5 (timer_take 1 7 s))"
  shows "timers_ok s' \<and> active s' 1 = [7] \<and> expire s' 7 \<le> 10"
proof -
  have "timers_ok (timer_take 1 7 s)" using take_ok assms(1,2) by blast
  then have "timers_ok s'" "expire s' 7 = 5" unfolding s'_def using mod_ok [of "timer_take 1 7 s" 7 5] by simp_all
  moreover have "qt_timer_list (timer_at s 7) = 1" using timers_okD(3) [OF assms(1), of 7 1] assms(2) by simp
  then have "active s' 1 = [7]"
    using assms(2) by (simp add: s'_def timer_mod_ns_def timer_mod_ns_locked_def timer_del_locked_def timer_take_def Let_def)
  ultimately show ?thesis by simp
qed

lemma rearm_loops:
  assumes "run_loop cb l now p w s = Some r"
  shows "\<not> (cb = rearm_cb \<and> l = 1 \<and> now = 10 \<and> timers_ok s \<and> active s 1 = [7] \<and> expire s 7 \<le> 10)"
  using assms
proof (rule run_loop.raw_induct
    [where P = "\<lambda>cb l now p w s r. \<not> (cb = rearm_cb \<and> l = 1 \<and> now = 10 \<and> timers_ok s \<and> active s 1 = [7] \<and> expire s 7 \<le> 10)", rotated])
  fix f cb l now p w s r
  assume IH: "\<And>cb l now p w s r. f cb l now p w s = Some r \<Longrightarrow>
      \<not> (cb = rearm_cb \<and> l = 1 \<and> now = 10 \<and> timers_ok s \<and> active s 1 = [7] \<and> expire s 7 \<le> 10)"
    and e: "(case head_timer s l of None \<Rightarrow> Some (Inr (w, s, p))
      | Some i \<Rightarrow> if timer_expired_ns s (Some i) now
          then (case cb (qt_cb (timer_at s i)) w (timer_take l i s) of Inl e \<Rightarrow> Some (Inl e) | Inr (w', s') \<Rightarrow> f cb l now True w' s')
          else Some (Inr (w, s, p))) = Some r"
  show "\<not> (cb = rearm_cb \<and> l = 1 \<and> now = 10 \<and> timers_ok s \<and> active s 1 = [7] \<and> expire s 7 \<le> 10)"
  proof
    assume a: "cb = rearm_cb \<and> l = 1 \<and> now = 10 \<and> timers_ok s \<and> active s 1 = [7] \<and> expire s 7 \<le> 10"
    then have "f rearm_cb 1 10 True w (fst (timer_mod_ns 7 5 (timer_take 1 7 s))) = Some r"
      using e by (simp add: head_timer_def timer_expired_ns_def rearm_cb_def)
    from IH [OF this] show False using rearm_again [of s] a by blast
  qed
qed

theorem rearmed_in_the_past: "run_loop rearm_cb 1 10 False w (one_timer 5) = None"
proof (cases "run_loop rearm_cb 1 10 False w (one_timer 5)")
  case (Some r)
  then show ?thesis using rearm_loops [OF Some] one_timer_ok one_timer_fields(1,2) by simp
qed

text \<open>The rounding of a timeout to milliseconds, and the timeouts for which the sum overflows before the limit applies.\<close>

theorem timeout_rounds_up:
  assumes "0 < ns" and "ns \<le> 2147483647 * SCALE_MS"
  shows "\<exists>ms. qemu_timeout_ns_to_ms ns = Inr ms \<and> ns \<le> ms * SCALE_MS \<and> (ms - 1) * SCALE_MS < ns"
proof -
  have "(ns + 1000000 - 1) div 1000000 \<le> 2147483647" using assms by (simp add: SCALE_MS_def)
  then have "qemu_timeout_ns_to_ms ns = Inr ((ns + 1000000 - 1) div 1000000)"
    using assms by (simp add: qemu_timeout_ns_to_ms_def int64_def INT64_MIN_def INT64_MAX_def SCALE_MS_def)
  moreover have "ns \<le> (ns + 1000000 - 1) div 1000000 * 1000000" "((ns + 1000000 - 1) div 1000000 - 1) * 1000000 < ns"
    by (linarith, unfold left_diff_distrib, linarith)
  ultimately show ?thesis by (intro exI [of _ "(ns + 1000000 - 1) div 1000000"]) (simp only: SCALE_MS_def)
qed

theorem timeout_overflows:
  "INT64_MAX - SCALE_MS < ns \<Longrightarrow> ns \<le> INT64_MAX \<Longrightarrow> qemu_timeout_ns_to_ms ns = Inl Undefined"
  by (simp add: qemu_timeout_ns_to_ms_def int64_def INT64_MIN_def INT64_MAX_def SCALE_MS_def)

end
