(* ===== verification/Spec2Isabelle.thy ===== *)
theory Spec2Isabelle
  imports Machine_Snapshot Goldfish_Nand Goldfish_Pipe Arm_Snapshot Arm_Helpers Sim_Adn Modem_Driver Qemu_Timer
begin

text \<open>
  Verification of the Android emulator, the version of QEMU under \<open>src/\<close>.

  \<^bold>\<open>The program.\<close> The emulator runs an Android guest on an emulated board, "goldfish". The processor (\<open>target-arm\<close>) translates
  virtual addresses through page tables in guest memory, keeps the result in a software TLB, takes exceptions and executes
  instructions, the harder ones in helper functions. The devices of the board (\<open>hw/android/goldfish\<close>) are read and written by the guest
  through 32-bit registers, copy buffers from and to guest memory and raise lines of the interrupt controller, which interrupts the
  processor. The pipe device connects programs of the guest to services of the host (\<open>android/emulation\<close>). A snapshot
  (\<open>savevm.c\<close>) writes the state of every registered device to a buffered file and reads it back.

  \<^bold>\<open>Conventions.\<close> Records have the fields of the C structures, with a prefix; machine integers are words; arrays reached through pointers are
  total functions; an operation is a function from the old to the new state. Its result is \<open>Inl\<close> of a fault for \<open>cpu_abort\<close>, \<open>exit\<close>, a
  failed assertion, undefined behaviour of C or an access that leaves the model, and \<open>Inr\<close> otherwise; the interrupt lines that the code sets are listed
  in the result in their order. Loops are recursive functions with termination proofs, so no bounds or fuel are chosen anywhere, except where a
  loop of the code can run forever: the loops over a NAND image return \<open>None\<close> when they make no progress.

  \<^bold>\<open>Theories.\<close>

  \<^item> \<open>Prelude\<close>: machine integers, faults and their monad, interrupt lines, arrays, word lemmas. \<open>Irq_Line\<close>, \<open>Fifo\<close>: locales for the contracts several
    devices share (the level of an interrupt line follows the state; a device with a buffer refines a queue), interpreted for the devices.

  \<^item> \<open>Qemu_File\<close> (\<open>savevm.c\<close>, the buffered file and the tables of fields), \<open>Savevm\<close> (registration of handlers, saving and loading),
    \<open>Machine_Snapshot\<close> (the snapshot of the board): what is put is what is got, whatever the sizes of the buffer and of the reads; a snapshot of the devices
    restores their state; malformed snapshots are rejected.

  \<^item> \<open>Goldfish_Device\<close> (\<open>device.c\<close>), \<open>Goldfish_Interrupt\<close> (\<open>interrupt.c\<close>), \<open>Board\<close> (\<open>android_arm.c\<close>, \<open>hw/core/irq.c\<close>): the bus enumerates exactly the
    added devices with disjoint resources; the controller counts its pending lines; on the board, an interrupt reaches the processor exactly
    when a device raises an enabled line.

  \<^item> \<open>Goldfish_Tty\<close>, \<open>Goldfish_Timer\<close>, \<open>Goldfish_Battery\<close>, \<open>Goldfish_Events\<close>, \<open>Goldfish_Mmc\<close>: the device of the same name, with its registers,
    commands, interrupt line and snapshot.

  \<^item> \<open>Nand_Config\<close> (the argument strings of images, the limits), \<open>Goldfish_Nand\<close> (\<open>nand.c\<close>): the controller refines an abstract flash memory; a snapshot
    restores the contents of the images.

  \<^item> \<open>Android_Pipe\<close>, \<open>Pipe_Services\<close> (\<open>android/emulation/android_pipe*.c\<close>), \<open>Goldfish_Pipe\<close> (\<open>pipe.c\<close>): the registry and the connection of services, the
    zero, pingpong and throttle services, and the device; bytes written by the guest come back through the pingpong service unchanged, and a
    waiting channel keeps the interrupt line raised until it is served.

  \<^item> \<open>Guest_Memory\<close> (\<open>exec.c\<close>, \<open>cpu_memory_rw_debug\<close>): the copy page by page is the copy byte by byte through the translation.

  \<^item> \<open>Arm_Cpu\<close> (\<open>target-arm/helper.c\<close>, \<open>cpu.h\<close>): the status register, the modes with their banked registers, exceptions. Writing and
    reading the status register agree; an exception followed by its return restores the registers; user mode cannot change its mode.

  \<^item> \<open>Arm_Mmu\<close> (\<open>target-arm/helper.c\<close>): page table walks, the protection unit, faults and TLB entries. An entry is valid for all addresses and accesses
    it covers; faults are reported in the fault registers and enter the abort mode; copies for debugging follow the tables.

  \<^item> \<open>Arm_Helpers\<close> (\<open>target-arm/op_helper.c\<close>, \<open>helper.c\<close>, \<open>op_addsub.h\<close>): arithmetic with flags, shifts, saturation and packed arithmetic are the functions of the
    architecture on integers.

  \<^item> \<open>Soft_Tlb\<close> (\<open>cputlb.c\<close>), \<open>Soft_Mmu\<close> (\<open>softmmu_template.h\<close>, \<open>tlb_fill\<close>): the software TLB and loads through it. \<open>Soft_Tlb\<close> follows any sequence of insertions and
    flushes, with the region of large pages, beside the set of pages that may be cached (an inductive relation) and shows that no flush leaves a stale
    page; \<open>Soft_Mmu\<close> shows that a load through the TLB equals a walk of the tables per byte.

  \<^item> \<open>Arm_Cp15\<close> (\<open>set_cp15\<close>, \<open>get_cp15\<close>): the system coprocessor. What is written is read back, and the TLB of \<open>Soft_Mmu\<close> stays in agreement with the page tables.

  \<^item> \<open>Arm_Snapshot\<close> (\<open>target-arm/machine.c\<close>, \<open>cpu_common_save\<close> and \<open>cpu_common_load\<close> of \<open>exec.c\<close>): a snapshot of the processor restores it.

  \<^item> \<open>Gsm\<close>, \<open>Gsm_Rope\<close>, \<open>Sim_Adn\<close> (\<open>android/telephony/gsm.c\<close>): character sets, packed septets, byte ropes and phone book records. Text of the basic alphabet
    survives packing; the locale \<open>rope_sink\<close> is what a writer relies on, whether a rope counts or stores, and is interpreted for both.

  \<^item> \<open>Sms\<close>, \<open>Sms_Pdu\<close>, \<open>Sms_Receiver\<close> (\<open>android/telephony/sms.c\<close>): message strings and addresses, protocol data units, and the receiver. The units built
    for a text have the bytes of the format and their parts join to the text; the receiver keeps its books in every order of operations; a submitted
    text comes back unchanged.

  \<^item> \<open>Remote_Call\<close>, \<open>Modem_Calls\<close>, \<open>Sim_Card\<close>, \<open>Modem\<close>, \<open>Modem_Driver\<close> (\<open>android/telephony/remote_call.c\<close>, \<open>modem.c\<close>, \<open>sysdeps.c\<close>, \<open>sim_card.c\<close>, \<open>modem_driver.c\<close>): the
    modem that the guest talks to in AT commands. The identifiers of calls stay distinct over any sequence of steps (an inductive relation); the commands for calls, settings, contexts and
    the PIN do what they promise; the driver gives the modem exactly the lines of the guest; a text message written by the guest is sent to the other emulator, in
    units that join to the text. \<open>C_String\<close> has what these and other theories use of the C library: numbers in strings and formatted output.

  \<^item> \<open>Qemu_Timer\<close> (\<open>qemu-timer.c\<close>, \<open>include/qemu/timer.h\<close>): clocks, timer lists and timers. The lists stay sorted; the locale \<open>timer_callbacks\<close> is what the loop that runs
    expired timers relies on, and is interpreted on callbacks among which that of \<open>Goldfish_Timer\<close> shares a list with timers of other devices (locale \<open>goldfish_neighbours\<close>). A callback that sets a timer in the past
    keeps the loop from ending, so the loop is an option-valued partial function.

  \<^bold>\<open>Findings.\<close> Where the code does not do what it means to, a theorem next to the model shows the behaviour on a concrete input
  or states the exact exception; such theorems follow the properties of their theory.

  \<^bold>\<open>Not modelled.\<close> The translation of guest code to host code (\<open>target-*/translate.c\<close>, \<open>tcg\<close>): its meaning is that of generated host instructions. Floating
  point (\<open>fpu\<close>) and the other processors. The user interface (\<open>android/skin\<close>, \<open>ui\<close>), audio and camera back ends, the network stack (\<open>slirp\<close>), block formats
  (\<open>block\<close>), the OpenGL ES translator and other vendored libraries (\<open>distrib\<close>): they are separate programs, wrappers of host libraries or graphics. Threads, the main loop and
  host files appear as parameters and as the order of operations.
\<close>

end
